(* ===== verification/LT_Prelude.thy ===== *)
theory LT_Prelude
  imports Main "HOL-Library.Word" "HOL-Library.List_Lexorder" "HOL-Library.Char_ord"
    "HOL-Library.AList" "HOL-Library.Sublist"
begin

text \<open>
  Shared vocabulary of the development: the Rust integer operations the program
  uses (saturating, checked and wrapping arithmetic on 64-bit quantities kept as
  natural numbers, clamped signed arithmetic), sequencing of fallible operations
  in the sum type, ordered and hashed maps as association lists with the laws
  their clients use, and the named collections of simplification rules.

  Strings and byte vectors are both HOL strings: a character is one byte, so
  that \<open>length\<close> is Rust's \<open>len()\<close> in bytes.
\<close>

named_theorems rust_arith \<open>unfolding of the machine-integer operations\<close>
named_theorems limits \<open>the numeric limits the program declares\<close>

type_synonym bytes = string
type_synonym uuid = nat
type_synonym nanos = nat

section \<open>Unsigned 64-bit arithmetic on natural numbers\<close>

definition u64_max :: nat where
  "u64_max = 18446744073709551615"

definition u32_max :: nat where
  "u32_max = 4294967295"

definition saturating_add :: "nat \<Rightarrow> nat \<Rightarrow> nat" where
  "saturating_add a b = min (a + b) u64_max"

definition saturating_sub :: "nat \<Rightarrow> nat \<Rightarrow> nat" where
  "saturating_sub a b = a - b"

definition saturating_mul :: "nat \<Rightarrow> nat \<Rightarrow> nat" where
  "saturating_mul a b = min (a * b) u64_max"

definition checked_add :: "nat \<Rightarrow> nat \<Rightarrow> nat option" where
  "checked_add a b = (if a + b \<le> u64_max then Some (a + b) else None)"

definition wrapping_add :: "nat \<Rightarrow> nat \<Rightarrow> nat" where
  "wrapping_add a b = (a + b) mod (u64_max + 1)"

definition wrapping_sub :: "nat \<Rightarrow> nat \<Rightarrow> nat" where
  "wrapping_sub a b = (a + (u64_max + 1) - b) mod (u64_max + 1)"

lemmas [rust_arith] = saturating_add_def saturating_sub_def saturating_mul_def checked_add_def

lemma wrapping_add_exact [simp]: "a + b \<le> u64_max \<Longrightarrow> wrapping_add a b = a + b"
  by (simp add: wrapping_add_def)

lemma wrapping_sub_exact [simp]: "b \<le> a \<Longrightarrow> a \<le> u64_max \<Longrightarrow> wrapping_sub a b = a - b"
proof -
  assume "b \<le> a" "a \<le> u64_max"
  then have *: "a + (u64_max + 1) - b = (a - b) + (u64_max + 1)" by simp
  show ?thesis unfolding wrapping_sub_def * using \<open>a \<le> u64_max\<close>
    by (simp only: mod_add_self2) simp
qed

lemma saturating_add_le [simp]: "saturating_add a b \<le> u64_max"
  by (simp add: saturating_add_def)

lemma saturating_add_exact: "a + b \<le> u64_max \<Longrightarrow> saturating_add a b = a + b"
  by (simp add: saturating_add_def)

lemma saturating_add_below: "saturating_add a b \<le> m \<Longrightarrow> m < u64_max \<Longrightarrow> a + b \<le> m"
  by (simp add: saturating_add_def)

lemma saturating_add_mono: "a \<le> c \<Longrightarrow> b \<le> d \<Longrightarrow> saturating_add a b \<le> saturating_add c d"
  by (auto simp: saturating_add_def)

lemma checked_add_Some [simp]: "checked_add a b = Some c \<longleftrightarrow> c = a + b \<and> a + b \<le> u64_max"
  by (auto simp: checked_add_def)

section \<open>Signed 64-bit arithmetic on integers\<close>

definition i64_max :: int where
  "i64_max = 9223372036854775807"

definition i64_min :: int where
  "i64_min = - 9223372036854775808"

definition clamp_i64 :: "int \<Rightarrow> int" where
  "clamp_i64 x = max i64_min (min i64_max x)"

lemma clamp_i64_bounds [simp]: "i64_min \<le> clamp_i64 x" "clamp_i64 x \<le> i64_max"
  by (simp_all add: clamp_i64_def i64_min_def i64_max_def)

lemma clamp_i64_id: "i64_min \<le> x \<Longrightarrow> x \<le> i64_max \<Longrightarrow> clamp_i64 x = x"
  by (simp add: clamp_i64_def)

section \<open>Fallible operations\<close>

definition bind_res :: "'e + 'a \<Rightarrow> ('a \<Rightarrow> 'e + 'b) \<Rightarrow> 'e + 'b" where
  "bind_res r f = (case r of Inl e \<Rightarrow> Inl e | Inr a \<Rightarrow> f a)"

definition ensure :: "bool \<Rightarrow> 'e \<Rightarrow> 'e + unit" where
  "ensure b e = (if b then Inr () else Inl e)"

definition ok_or :: "'a option \<Rightarrow> 'e \<Rightarrow> 'e + 'a" where
  "ok_or x e = (case x of None \<Rightarrow> Inl e | Some a \<Rightarrow> Inr a)"

lemma bind_res_simps [simp]: "bind_res (Inl e) f = Inl e" "bind_res (Inr a) f = f a"
  by (simp_all add: bind_res_def)

lemma bind_res_Inr: "bind_res r f = Inr b \<longleftrightarrow> (\<exists>a. r = Inr a \<and> f a = Inr b)"
  by (cases r) auto

lemma bind_res_Inl: "bind_res r f = Inl e \<longleftrightarrow> r = Inl e \<or> (\<exists>a. r = Inr a \<and> f a = Inl e)"
  by (cases r) auto

lemma ensure_Inr [simp]: "ensure b e = Inr u \<longleftrightarrow> b"
  by (simp add: ensure_def)

lemma ensure_Inl [simp]: "ensure b e = Inl e' \<longleftrightarrow> \<not> b \<and> e' = e"
  by (auto simp: ensure_def)

lemma ensure_bind [simp]: "bind_res (ensure b e) f = (if b then f () else Inl e)"
  by (simp add: ensure_def)

lemma ok_or_simps [simp]: "ok_or None e = Inl e" "ok_or (Some a) e = Inr a"
  by (simp_all add: ok_or_def)

section \<open>Lists\<close>

lemma sum_list_filter_le: "sum_list (map f (filter P xs)) \<le> sum_list (map (f :: 'a \<Rightarrow> nat) xs)"
  by (induction xs) auto

lemma distinct_snoc [simp]: "distinct (xs @ [x]) \<longleftrightarrow> distinct xs \<and> x \<notin> set xs"
  by auto

lemma map_of_filter_fst:
  "map_of (filter (\<lambda>(k, v). k \<noteq> a) xs) = (map_of xs)(a := None)"
  by (induction xs) auto

section \<open>Maps as association lists\<close>

text \<open>
  The map contract the clients use: a well-formed representation, the finite
  map it denotes, and the laws of insertion and removal.
\<close>

locale assoc_map =
  fixes wf :: "('k \<times> 'v) list \<Rightarrow> bool"
    and ins :: "'k \<Rightarrow> 'v \<Rightarrow> ('k \<times> 'v) list \<Rightarrow> ('k \<times> 'v) list"
    and del :: "'k \<Rightarrow> ('k \<times> 'v) list \<Rightarrow> ('k \<times> 'v) list"
  assumes wf_empty: "wf []"
    and wf_distinct: "wf m \<Longrightarrow> distinct (map fst m)"
    and wf_ins: "wf m \<Longrightarrow> wf (ins k v m)"
    and wf_del: "wf m \<Longrightarrow> wf (del k m)"
    and lookup_ins: "wf m \<Longrightarrow> map_of (ins k v m) = (map_of m)(k \<mapsto> v)"
    and lookup_del: "wf m \<Longrightarrow> map_of (del k m) = (map_of m)(k := None)"
begin

lemma keys_ins: "wf m \<Longrightarrow> fst ` set (ins k v m) = insert k (fst ` set m)"
  using lookup_ins [of m k v] by (metis dom_map_of_conv_image_fst dom_fun_upd option.distinct(1))

lemma keys_del: "wf m \<Longrightarrow> fst ` set (del k m) = fst ` set m - {k}"
  using lookup_del [of m k] by (metis dom_map_of_conv_image_fst dom_fun_upd)

lemma length_keys: "wf m \<Longrightarrow> length m = card (fst ` set m)"
  using wf_distinct [of m] by (metis distinct_card length_map list.set_map)

lemma length_ins: "wf m \<Longrightarrow> length (ins k v m) = (if k \<in> fst ` set m then length m else Suc (length m))"
  by (simp add: length_keys [OF wf_ins] length_keys keys_ins card_insert_if)

lemma length_del: "wf m \<Longrightarrow> length (del k m) = (if k \<in> fst ` set m then length m - 1 else length m)"
  by (simp add: length_keys [OF wf_del] length_keys keys_del)

lemma set_del: "wf m \<Longrightarrow> set (del k m) = {p \<in> set m. fst p \<noteq> k}"
proof -
  assume wf: "wf m"
  have "p \<in> set (del k m) \<longleftrightarrow> p \<in> set m \<and> fst p \<noteq> k" for p
    using lookup_del [OF wf, of k] wf_distinct [OF wf] wf_distinct [OF wf_del [OF wf, of k]]
    by (cases p) (metis fst_conv fun_upd_apply map_of_eq_Some_iff option.distinct(1))
  then show ?thesis by auto
qed

lemma set_ins: "wf m \<Longrightarrow> set (ins k v m) = insert (k, v) {p \<in> set m. fst p \<noteq> k}"
proof -
  assume wf: "wf m"
  have "p \<in> set (ins k v m) \<longleftrightarrow> p = (k, v) \<or> p \<in> set m \<and> fst p \<noteq> k" for p
    using lookup_ins [OF wf, of k v] wf_distinct [OF wf] wf_distinct [OF wf_ins [OF wf, of k v]]
    by (cases p) (metis fst_conv fun_upd_apply map_of_eq_Some_iff option.inject)
  then show ?thesis by auto
qed

lemma sum_as_set: "wf m \<Longrightarrow> sum_list (map (\<lambda>p. f (snd p)) m) = (\<Sum>p\<in>set m. (f (snd p) :: nat))"
  using wf_distinct [of m] by (simp add: distinct_map sum_list_distinct_conv_sum_set)

lemma sum_ins_new:
  "wf m \<Longrightarrow> k \<notin> fst ` set m \<Longrightarrow>
    sum_list (map (\<lambda>p. f (snd p)) (ins k v m)) = sum_list (map (\<lambda>p. f (snd p)) m) + (f v :: nat)"
proof -
  assume wf: "wf m" and new: "k \<notin> fst ` set m"
  have *: "{p \<in> set m. fst p \<noteq> k} = set m" using new by auto
  have "(k, v) \<notin> set m" using new by force
  then show ?thesis
    by (simp add: sum_as_set [OF wf] sum_as_set [OF wf_ins [OF wf]] set_ins [OF wf] *)
qed

lemma sum_ins:
  "wf m \<Longrightarrow>
    sum_list (map (\<lambda>p. f (snd p)) (ins k v m)) = sum_list (map (\<lambda>p. f (snd p)) (del k m)) + (f v :: nat)"
  by (simp add: sum_as_set [OF wf_ins] sum_as_set [OF wf_del] set_ins set_del)

lemma sum_del:
  "wf m \<Longrightarrow> map_of m k = Some v \<Longrightarrow>
    sum_list (map (\<lambda>p. f (snd p)) m) = sum_list (map (\<lambda>p. f (snd p)) (del k m)) + (f v :: nat)"
proof -
  assume wf: "wf m" and kv: "map_of m k = Some v"
  have "(k, v) \<in> set m" using kv by (rule map_of_SomeD)
  moreover have "p = (k, v)" if "p \<in> set m" "fst p = k" for p
    using that kv map_of_is_SomeI [OF wf_distinct [OF wf], of "fst p" "snd p"] by (cases p) auto
  ultimately have eq: "set m = insert (k, v) {p \<in> set m. fst p \<noteq> k}" by blast
  have "(\<Sum>p\<in>insert (k, v) {p \<in> set m. fst p \<noteq> k}. f (snd p))
      = f v + (\<Sum>p\<in>{p \<in> set m. fst p \<noteq> k}. f (snd p))"
    by simp
  then have "(\<Sum>p\<in>set m. f (snd p)) = f v + (\<Sum>p\<in>{p \<in> set m. fst p \<noteq> k}. f (snd p))"
    by (simp only: eq [symmetric])
  then show ?thesis
    by (simp only: sum_as_set [OF wf] sum_as_set [OF wf_del [OF wf]] set_del [OF wf] add.commute)
qed

end

subsection \<open>Ordered maps (BTreeMap)\<close>

fun bt_insert :: "'k::linorder \<Rightarrow> 'v \<Rightarrow> ('k \<times> 'v) list \<Rightarrow> ('k \<times> 'v) list" where
  "bt_insert k v [] = [(k, v)]"
| "bt_insert k v ((k', v') # m) =
    (if k < k' then (k, v) # (k', v') # m
     else if k = k' then (k, v) # m
     else (k', v') # bt_insert k v m)"

fun bt_remove :: "'k::linorder \<Rightarrow> ('k \<times> 'v) list \<Rightarrow> ('k \<times> 'v) list" where
  "bt_remove k [] = []"
| "bt_remove k ((k', v') # m) = (if k = k' then m else (k', v') # bt_remove k m)"

abbreviation bt_wf :: "('k::linorder \<times> 'v) list \<Rightarrow> bool" where
  "bt_wf m \<equiv> sorted_wrt (<) (map fst m)"

definition bt_collect :: "('k::linorder \<times> 'v) list \<Rightarrow> ('k \<times> 'v) list" where
  "bt_collect kvs = fold (\<lambda>(k, v). bt_insert k v) kvs []"

lemma bt_insert_set: "fst ` set (bt_insert k v m) = insert k (fst ` set m)"
  by (induction k v m rule: bt_insert.induct) auto

lemma bt_insert_subset: "set (bt_insert k v m) \<subseteq> insert (k, v) (set m)"
  by (induction k v m rule: bt_insert.induct) auto

lemma bt_insert_wf [intro]: "bt_wf m \<Longrightarrow> bt_wf (bt_insert k v m)"
proof (induction k v m rule: bt_insert.induct)
  case (2 k v k' v' m)
  have "fst ` set (bt_insert k v m) = insert k (fst ` set m)" by (rule bt_insert_set)
  with 2 show ?case by (auto simp: image_iff)
qed simp

lemma bt_remove_subset: "set (bt_remove k m) \<subseteq> set m"
  by (induction k m rule: bt_remove.induct) auto

lemma bt_remove_wf [intro]: "bt_wf m \<Longrightarrow> bt_wf (bt_remove k m)"
proof (induction k m rule: bt_remove.induct)
  case (2 k k' v' m)
  then show ?case using bt_remove_subset [of k m] by auto
qed simp

lemma bt_insert_length:
  "bt_wf m \<Longrightarrow> length (bt_insert k v m) = (if k \<in> fst ` set m then length m else Suc (length m))"
  by (induction k v m rule: bt_insert.induct) force+

lemma bt_insert_lookup: "bt_wf m \<Longrightarrow> map_of (bt_insert k v m) = (map_of m)(k \<mapsto> v)"
  by (induction k v m rule: bt_insert.induct) (auto simp: fun_eq_iff)

lemma map_of_none_fst: "k \<notin> fst ` set m \<Longrightarrow> map_of m k = None"
  by (simp add: map_of_eq_None_iff)

lemma bt_remove_lookup: "bt_wf m \<Longrightarrow> map_of (bt_remove k m) = (map_of m)(k := None)"
proof (induction k m rule: bt_remove.induct)
  case (2 k k' v' m)
  then show ?case by (auto simp: fun_eq_iff intro!: map_of_none_fst)
qed (simp add: fun_eq_iff)

lemma bt_wf_distinct: "bt_wf m \<Longrightarrow> distinct (map fst m)"
  by (simp add: strict_sorted_iff)

interpretation bt: assoc_map bt_wf bt_insert bt_remove
proof (unfold_locales, goal_cases)
  case 2 then show ?case by (rule bt_wf_distinct)
next
  case 5 then show ?case by (rule bt_insert_lookup)
next
  case 6 then show ?case by (rule bt_remove_lookup)
qed auto

lemma bt_collect_wf [simp]: "bt_wf (bt_collect kvs)"
proof -
  have "bt_wf (fold (\<lambda>(k, v). bt_insert k v) kvs m)" if "bt_wf m" for m
    using that
  proof (induction kvs arbitrary: m)
    case (Cons p kvs)
    then show ?case by (cases p) (auto intro: Cons.IH)
  qed simp
  then show ?thesis by (simp add: bt_collect_def)
qed

lemma bt_collect_keys: "fst ` set (bt_collect kvs) = fst ` set kvs"
proof -
  have "fst ` set (fold (\<lambda>(k, v). bt_insert k v) kvs m) = fst ` set kvs \<union> fst ` set m" for m
  proof (induction kvs arbitrary: m)
    case (Cons p kvs)
    then show ?case by (cases p) (simp add: bt_insert_set)
  qed simp
  then show ?thesis by (simp add: bt_collect_def)
qed

subsection \<open>Hash maps (the list order stands for the iteration order)\<close>

abbreviation hm_wf :: "('k \<times> 'v) list \<Rightarrow> bool" where
  "hm_wf m \<equiv> distinct (map fst m)"

interpretation hm: assoc_map hm_wf AList.update AList.delete
proof (unfold_locales, goal_cases)
  case (3 m k v) then show ?case by (rule distinct_update)
next
  case (4 m k) then show ?case by (rule distinct_delete)
next
  case (5 m k v) show ?case by (rule update_conv')
next
  case (6 m k) show ?case by (rule delete_conv')
qed auto

lemma hm_filter_wf [intro]: "hm_wf m \<Longrightarrow> hm_wf (filter P m)"
  by (rule distinct_map_filter)

lemma hm_filter_lookup:
  "hm_wf m \<Longrightarrow> map_of (filter P m) k = Some v \<longleftrightarrow> map_of m k = Some v \<and> P (k, v)"
  by (auto simp: map_of_eq_Some_iff hm_filter_wf)

end
