(* ===== verification/LT_Text.thy ===== *)
theory LT_Text
  imports LT_Prelude
begin

text \<open>
  Byte-level text: UTF-8 well-formedness and character boundaries as the Rust
  standard library defines them, the bounded-prefix contract that every
  truncation routine of the program promises, its common implementation by
  scanning back to a character boundary, and the ASCII string operations
  (trimming, splitting, case folding) the request handling uses.
\<close>

section \<open>UTF-8\<close>

definition byte :: "char \<Rightarrow> nat" where
  "byte c = of_char c"

definition is_continuation :: "char \<Rightarrow> bool" where
  "is_continuation c \<longleftrightarrow> 128 \<le> byte c \<and> byte c < 192"

definition utf8_width :: "char \<Rightarrow> nat" where
  "utf8_width c =
    (let b = byte c in
     if b < 128 then 1 else if b < 194 then 0 else if b < 224 then 2
     else if b < 240 then 3 else if b < 245 then 4 else 0)"

text \<open>The second byte excludes overlong forms, surrogates and code points
  above U+10FFFF.\<close>

definition utf8_second_ok :: "char \<Rightarrow> char \<Rightarrow> bool" where
  "utf8_second_ok c d \<longleftrightarrow>
    (byte c = 224 \<longrightarrow> 160 \<le> byte d) \<and> (byte c = 237 \<longrightarrow> byte d < 160) \<and>
    (byte c = 240 \<longrightarrow> 144 \<le> byte d) \<and> (byte c = 244 \<longrightarrow> byte d < 144)"

fun utf8_valid :: "string \<Rightarrow> bool" where
  "utf8_valid [] = True"
| "utf8_valid (c # cs) =
    (let w = utf8_width c; tl = take (w - 1) cs in
     0 < w \<and> w - 1 \<le> length cs \<and> list_all is_continuation tl \<and>
     (case tl of [] \<Rightarrow> True | d # _ \<Rightarrow> utf8_second_ok c d) \<and>
     utf8_valid (drop (w - 1) cs))"

text \<open>\<open>str::is_char_boundary\<close>: out of range is not a boundary.\<close>

definition is_char_boundary :: "string \<Rightarrow> nat \<Rightarrow> bool" where
  "is_char_boundary s i \<longleftrightarrow>
    i = 0 \<or> i = length s \<or> (i < length s \<and> \<not> is_continuation (s ! i))"

lemma is_char_boundary_0 [simp]: "is_char_boundary s 0"
  by (simp add: is_char_boundary_def)

lemma is_char_boundary_length [simp]: "is_char_boundary s (length s)"
  by (simp add: is_char_boundary_def)

lemma is_char_boundary_le: "is_char_boundary s i \<Longrightarrow> i \<le> length s"
  by (auto simp: is_char_boundary_def)

lemma utf8_valid_boundary_skip:
  assumes "utf8_valid (c # cs)" and "is_char_boundary (c # cs) i" and "0 < i"
  shows "utf8_width c \<le> i"
proof (rule ccontr)
  assume "\<not> utf8_width c \<le> i"
  then have i: "i < utf8_width c" by simp
  let ?w = "utf8_width c"
  from assms(1) have len: "?w - 1 \<le> length cs"
    and cont: "list_all is_continuation (take (?w - 1) cs)" by (simp_all add: Let_def)
  from i \<open>0 < i\<close> have j: "i - 1 < ?w - 1" by simp
  with len have jl: "i - 1 < length cs" by simp
  from cont j len have "is_continuation (take (?w - 1) cs ! (i - 1))"
    by (simp add: list_all_length)
  with j have "is_continuation (cs ! (i - 1))" by simp
  moreover from jl \<open>0 < i\<close> len i have "i < length (c # cs)" by simp
  ultimately show False using assms(2,3) by (auto simp: is_char_boundary_def nth_Cons')
qed

lemma is_char_boundary_drop:
  assumes "is_char_boundary s i" and "k \<le> i"
  shows "is_char_boundary (drop k s) (i - k)"
  using assms by (auto simp: is_char_boundary_def)

lemma is_char_boundary_undrop:
  "is_char_boundary (drop k s) j \<Longrightarrow> 0 < j \<Longrightarrow> k \<le> length s \<Longrightarrow> is_char_boundary s (k + j)"
  by (auto simp: is_char_boundary_def)

lemma utf8_valid_take:
  "utf8_valid s \<Longrightarrow> is_char_boundary s i \<Longrightarrow> utf8_valid (take i s)"
proof (induction s arbitrary: i rule: utf8_valid.induct)
  case (2 c cs)
  show ?case
  proof (cases "i = 0")
    case False
    let ?w = "utf8_width c"
    from 2(2) have w: "0 < ?w" and rest: "utf8_valid (drop (?w - 1) cs)"
      by (simp_all add: Let_def)
    from utf8_valid_boundary_skip [OF 2(2,3)] False have wi: "?w \<le> i" by simp
    from is_char_boundary_drop [OF 2(3) wi] w
    have bd: "is_char_boundary (drop (?w - 1) cs) (i - ?w)" by (cases ?w) simp_all
    have ih: "utf8_valid (take (i - ?w) (drop (?w - 1) cs))"
      by (rule 2(1) [OF refl refl rest bd])
    from w wi have "take (i - ?w) (drop (?w - 1) cs) = drop (?w - 1) (take (i - 1) cs)"
      by (simp add: drop_take)
    moreover from w wi have "take (?w - 1) (take (i - 1) cs) = take (?w - 1) cs"
      by (simp add: min_def)
    ultimately show ?thesis using 2(2) ih False wi
      by (cases i) (simp_all add: Let_def)
  qed simp
qed simp

lemma utf8_valid_append: "utf8_valid s \<Longrightarrow> utf8_valid t \<Longrightarrow> utf8_valid (s @ t)"
proof (induction s rule: utf8_valid.induct)
  case (2 c cs)
  let ?w = "utf8_width c"
  from 2(2) have len: "?w - 1 \<le> length cs" and rest: "utf8_valid (drop (?w - 1) cs)"
    by (simp_all add: Let_def)
  have "utf8_valid (drop (?w - 1) cs @ t)" by (rule 2(1) [OF refl refl rest 2(3)])
  moreover have "?w - Suc (length cs) = 0" using len by simp
  ultimately show ?case using 2(2) by (simp add: Let_def)
qed simp

lemma ascii_width: "byte c < 128 \<Longrightarrow> utf8_width c = 1"
  by (simp add: utf8_width_def)

lemma utf8_valid_ascii: "list_all (\<lambda>c. byte c < 128) s \<Longrightarrow> utf8_valid s"
  by (induction s) (simp_all add: ascii_width)

section \<open>Bounded prefixes\<close>

text \<open>The loop \<open>while !value.is_char_boundary(end) { end -= 1; }\<close>. Index 0 is a
  boundary, so the decrement never underflows.\<close>

function boundary_floor :: "string \<Rightarrow> nat \<Rightarrow> nat" where
  "boundary_floor s e = (if is_char_boundary s e then e else boundary_floor s (e - 1))"
  by pat_completeness auto
termination
proof (relation "measure snd", goal_cases)
  case (2 s e)
  then show ?case by (cases e) simp_all
qed simp

declare boundary_floor.simps [simp del]

lemma boundary_floor_le: "boundary_floor s e \<le> e"
proof (induction s e rule: boundary_floor.induct)
  case (1 s e)
  then show ?case by (subst boundary_floor.simps) (auto intro: order_trans)
qed

lemma boundary_floor_boundary: "is_char_boundary s (boundary_floor s e)"
proof (induction s e rule: boundary_floor.induct)
  case (1 s e)
  then show ?case by (subst boundary_floor.simps) auto
qed

lemma boundary_floor_greatest:
  "is_char_boundary s i \<Longrightarrow> i \<le> e \<Longrightarrow> i \<le> boundary_floor s e"
proof (induction s e rule: boundary_floor.induct)
  case (1 s e)
  then show ?case by (subst boundary_floor.simps) (cases "i = e"; auto)
qed

lemma utf8_width_not_continuation: "0 < utf8_width c \<Longrightarrow> \<not> is_continuation c"
  by (auto simp: utf8_width_def is_continuation_def Let_def)

lemma utf8_valid_head: "utf8_valid (c # cs) \<Longrightarrow> \<not> is_continuation c"
  by (rule utf8_width_not_continuation) (simp add: Let_def)

lemma boundary_floor_near:
  "utf8_valid s \<Longrightarrow> e \<le> length s \<Longrightarrow> e < boundary_floor s e + 4"
proof (induction s arbitrary: e rule: utf8_valid.induct)
  case 1 then show ?case by simp
next
  case (2 c cs)
  let ?w = "utf8_width c"
  from 2(2) have w: "0 < ?w" and rest: "utf8_valid (drop (?w - 1) cs)"
    and wl: "?w - 1 \<le> length cs"
    by (simp_all add: Let_def)
  have w4: "?w \<le> 4" by (simp add: utf8_width_def Let_def)
  show ?case
  proof (cases "e < ?w")
    case True with w4 show ?thesis by simp
  next
    case False
    let ?r = "drop (?w - 1) cs"
    let ?j = "boundary_floor ?r (e - ?w)"
    have "e - ?w < ?j + 4"
      using 2(1) [OF refl refl rest, of "e - ?w"] 2(3) False w by simp
    moreover have "is_char_boundary (c # cs) (?w + ?j)"
    proof (cases "?j = 0")
      case True
      have "?w = length (c # cs) \<or> (?w < length (c # cs) \<and> \<not> is_continuation ((c # cs) ! ?w))"
      proof (cases "?r")
        case Nil with wl w show ?thesis by (cases ?w) simp_all
      next
        case (Cons d ds)
        from Cons rest have "\<not> is_continuation d" by (metis utf8_valid_head)
        moreover have "cs ! (?w - 1) = d" using Cons by (rule nth_via_drop)
        moreover have "?w - 1 < length cs" using Cons by (metis drop_eq_Nil2 list.distinct(1) not_le)
        then have "?w < length (c # cs)" using w by simp
        moreover have "(c # cs) ! ?w = cs ! (?w - 1)" using w by (simp add: nth_Cons')
        ultimately show ?thesis by simp
      qed
      with True show ?thesis by (auto simp: is_char_boundary_def)
    next
      case False
      have "is_char_boundary (drop ?w (c # cs)) ?j"
        using boundary_floor_boundary [of ?r "e - ?w"] w by (simp add: drop_Cons')
      with False wl w show ?thesis by (intro is_char_boundary_undrop) auto
    qed
    moreover have "?w + ?j \<le> e" using boundary_floor_le [of ?r "e - ?w"] False by simp
    ultimately have "?w + ?j \<le> boundary_floor (c # cs) e"
      by (intro boundary_floor_greatest) simp_all
    with \<open>e - ?w < ?j + 4\<close> False show ?thesis by simp
  qed
qed

text \<open>The contract of a truncation to a byte limit: the result is a prefix within
  the limit, a text that already fits is unchanged, the cut is at a character
  boundary and no boundary within the limit lies beyond it.\<close>

locale bounded_prefix =
  fixes trunc :: "nat \<Rightarrow> string \<Rightarrow> string"
  assumes trunc_prefix: "prefix (trunc n s) s"
    and trunc_bound: "length (trunc n s) \<le> n"
    and trunc_short: "length s \<le> n \<Longrightarrow> trunc n s = s"
    and trunc_boundary: "is_char_boundary s (length (trunc n s))"
    and trunc_maximal: "is_char_boundary s i \<Longrightarrow> i \<le> n \<Longrightarrow> i \<le> length (trunc n s)"
begin

lemma trunc_take: "trunc n s = take (length (trunc n s)) s"
  using trunc_prefix [of n s] by (metis append_eq_conv_conj prefix_def)

lemma trunc_valid: "utf8_valid s \<Longrightarrow> utf8_valid (trunc n s)"
  by (subst trunc_take) (rule utf8_valid_take [OF _ trunc_boundary])

lemma trunc_idem: "trunc n (trunc n s) = trunc n s"
  by (rule trunc_short) (rule trunc_bound)

lemma trunc_unchanged_iff: "trunc n s = s \<longleftrightarrow> length s \<le> n"
  using trunc_bound [of n s] trunc_short [of s n] by auto

lemma trunc_set: "set (trunc n s) \<subseteq> set s"
  using trunc_prefix [of n s] by (rule set_mono_prefix)

lemma trunc_loss: "utf8_valid s \<Longrightarrow> n \<le> length s \<Longrightarrow> n < length (trunc n s) + 4"
  using boundary_floor_near [of s n]
    trunc_maximal [OF boundary_floor_boundary [of s n] boundary_floor_le [of s n]]
  by simp

lemma trunc_nonempty: "utf8_valid s \<Longrightarrow> s \<noteq> [] \<Longrightarrow> 4 \<le> n \<Longrightarrow> trunc n s \<noteq> []"
proof
  assume a: "utf8_valid s" "s \<noteq> []" "4 \<le> n" "trunc n s = []"
  then have "\<not> length s \<le> n" using trunc_short [of s n] by auto
  with trunc_loss [OF a(1), of n] a show False by simp
qed

end

definition utf8_floor_prefix :: "nat \<Rightarrow> string \<Rightarrow> string" where
  "utf8_floor_prefix n s =
    (if length s \<le> n then s else take (boundary_floor s n) s)"

interpretation fp: bounded_prefix utf8_floor_prefix
proof (unfold_locales, goal_cases)
  case (1 n s) show ?case by (simp add: utf8_floor_prefix_def take_is_prefix)
next
  case (2 n s) show ?case
    using boundary_floor_le [of s n] by (simp add: utf8_floor_prefix_def min_def)
next
  case (3 s n) then show ?case by (simp add: utf8_floor_prefix_def)
next
  case (4 s n) show ?case
    using boundary_floor_le [of s n] boundary_floor_boundary [of s n]
    by (simp add: utf8_floor_prefix_def min_def)
next
  case (5 s i n)
  then show ?case
    using boundary_floor_greatest [of s i n] is_char_boundary_le [of s i]
      boundary_floor_le [of s n]
    by (auto simp: utf8_floor_prefix_def min_def)
qed

section \<open>ASCII operations on text\<close>

definition ascii_lower :: "char \<Rightarrow> char" where
  "ascii_lower c = (if 65 \<le> byte c \<and> byte c \<le> 90 then char_of (byte c + 32) else c)"

definition to_ascii_lowercase :: "string \<Rightarrow> string" where
  "to_ascii_lowercase s = map ascii_lower s"

definition eq_ignore_ascii_case :: "string \<Rightarrow> string \<Rightarrow> bool" where
  "eq_ignore_ascii_case a b \<longleftrightarrow> to_ascii_lowercase a = to_ascii_lowercase b"

definition is_ascii :: "string \<Rightarrow> bool" where
  "is_ascii s \<longleftrightarrow> list_all (\<lambda>c. byte c < 128) s"

definition is_ascii_control :: "char \<Rightarrow> bool" where
  "is_ascii_control c \<longleftrightarrow> byte c < 32 \<or> byte c = 127"

definition is_ascii_alphanumeric :: "char \<Rightarrow> bool" where
  "is_ascii_alphanumeric c \<longleftrightarrow>
    48 \<le> byte c \<and> byte c \<le> 57 \<or> 65 \<le> byte c \<and> byte c \<le> 90 \<or> 97 \<le> byte c \<and> byte c \<le> 122"

definition starts_with :: "string \<Rightarrow> string \<Rightarrow> bool" where
  "starts_with s p \<longleftrightarrow> prefix p s"

definition ends_with :: "string \<Rightarrow> string \<Rightarrow> bool" where
  "ends_with s p \<longleftrightarrow> suffix p s"

definition strip_prefix :: "string \<Rightarrow> string \<Rightarrow> string option" where
  "strip_prefix p s = (if prefix p s then Some (drop (length p) s) else None)"

definition strip_suffix :: "string \<Rightarrow> string \<Rightarrow> string option" where
  "strip_suffix p s = (if suffix p s then Some (take (length s - length p) s) else None)"

definition trim_start_matches :: "(char \<Rightarrow> bool) \<Rightarrow> string \<Rightarrow> string" where
  "trim_start_matches P s = dropWhile P s"

definition trim_end_matches :: "(char \<Rightarrow> bool) \<Rightarrow> string \<Rightarrow> string" where
  "trim_end_matches P s = rev (dropWhile P (rev s))"

definition trim_matches :: "(char \<Rightarrow> bool) \<Rightarrow> string \<Rightarrow> string" where
  "trim_matches P s = trim_end_matches P (trim_start_matches P s)"

text \<open>\<open>str::trim\<close>: the characters with the Unicode property White\_Space, as UTF-8.\<close>

definition whitespace_chars :: "string list" where
  "whitespace_chars =
    map (\<lambda>n. [char_of n]) [9, 10, 11, 12, 13, 32 :: nat] @
    [[CHR 0xC2, CHR 0x85], [CHR 0xC2, CHR 0xA0], [CHR 0xE1, CHR 0x9A, CHR 0x80]] @
    map (\<lambda>n. [CHR 0xE2, CHR 0x80, char_of n])
      [128, 129, 130, 131, 132, 133, 134, 135, 136, 137, 138, 168, 169, 175 :: nat] @
    [[CHR 0xE2, CHR 0x81, CHR 0x9F], [CHR 0xE3, CHR 0x80, CHR 0x80]]"

function strip_leading :: "string list \<Rightarrow> string \<Rightarrow> string" where
  "strip_leading ws s =
    (case find (\<lambda>w. w \<noteq> [] \<and> prefix w s) ws of
       None \<Rightarrow> s
     | Some w \<Rightarrow> strip_leading ws (drop (length w) s))"
  by pat_completeness auto
termination
proof (relation "measure (\<lambda>(ws, s). length s)", goal_cases)
  case (2 ws s w)
  then have "w \<noteq> []" "prefix w s" by (auto simp: find_Some_iff)
  then have "0 < length w" "length w \<le> length s" using prefix_length_le by auto
  then have "length s - length w < length s" by linarith
  then show ?case by simp
qed simp

declare strip_leading.simps [simp del]

definition trim :: "string \<Rightarrow> string" where
  "trim s =
    (let t = strip_leading whitespace_chars s in
     rev (strip_leading (map rev whitespace_chars) (rev t)))"

text \<open>\<open>str::split(c)\<close>: one piece more than there are separators.\<close>

fun split_on :: "char \<Rightarrow> string \<Rightarrow> string list" where
  "split_on c [] = [[]]"
| "split_on c (x # xs) =
    (if x = c then [] # split_on c xs
     else (case split_on c xs of [] \<Rightarrow> [[x]] | p # ps \<Rightarrow> (x # p) # ps))"

fun split_once :: "char \<Rightarrow> string \<Rightarrow> (string \<times> string) option" where
  "split_once c [] = None"
| "split_once c (x # xs) =
    (if x = c then Some ([], xs)
     else (case split_once c xs of None \<Rightarrow> None | Some (a, b) \<Rightarrow> Some (x # a, b)))"

fun join_with :: "string \<Rightarrow> string list \<Rightarrow> string" where
  "join_with sep [] = []"
| "join_with sep [x] = x"
| "join_with sep (x # y # ys) = x @ sep @ join_with sep (y # ys)"

lemma ascii_lower_idem [simp]: "ascii_lower (ascii_lower c) = ascii_lower c"
  by (auto simp: ascii_lower_def byte_def)

lemma to_ascii_lowercase_idem [simp]: "to_ascii_lowercase (to_ascii_lowercase s) = to_ascii_lowercase s"
  by (simp add: to_ascii_lowercase_def)

lemma length_to_ascii_lowercase [simp]: "length (to_ascii_lowercase s) = length s"
  by (simp add: to_ascii_lowercase_def)

lemma split_on_nonempty [simp]: "split_on c s \<noteq> []"
  by (induction s) (auto split: list.splits)

lemma join_split [simp]: "join_with [c] (split_on c s) = s"
proof (induction s)
  case (Cons x xs)
  obtain p ps where p: "split_on c xs = p # ps" by (metis neq_Nil_conv split_on_nonempty)
  with Cons show ?case by (cases ps) simp_all
qed simp

lemma split_on_pieces: "p \<in> set (split_on c s) \<Longrightarrow> c \<notin> set p"
proof (induction s arbitrary: p)
  case (Cons x xs)
  obtain q qs where "split_on c xs = q # qs" by (metis neq_Nil_conv split_on_nonempty)
  with Cons.IH [of p] Cons.IH [of q] Cons.prems show ?case by (simp split: if_splits) auto
qed simp

lemma split_once_Some: "split_once c s = Some (a, b) \<Longrightarrow> s = a @ c # b \<and> c \<notin> set a"
proof (induction s arbitrary: a)
  case (Cons x xs)
  show ?case
  proof (cases "x = c")
    case True with Cons.prems show ?thesis by simp
  next
    case False
    with Cons.prems obtain a' where "split_once c xs = Some (a', b)" "a = x # a'"
      by (auto split: option.splits)
    with Cons.IH [of a'] False show ?thesis by simp
  qed
qed simp

lemma split_once_None: "split_once c s = None \<longleftrightarrow> c \<notin> set s"
proof (induction s)
  case (Cons x xs)
  then show ?case by (cases "split_once c xs") auto
qed simp

lemma trim_end_matches_prefix: "prefix (trim_end_matches P s) s"
proof -
  have "s = rev (dropWhile P (rev s)) @ rev (takeWhile P (rev s))"
    by (metis rev_append rev_rev_ident takeWhile_dropWhile_id)
  then show ?thesis unfolding trim_end_matches_def by (metis prefixI)
qed

lemma trim_matches_set: "set (trim_matches P s) \<subseteq> set s"
  unfolding trim_matches_def trim_start_matches_def
  using set_mono_prefix [OF trim_end_matches_prefix [of P "dropWhile P s"]] set_dropWhileD by fastforce

lemma strip_leading_suffix: "suffix (strip_leading ws s) s"
proof (induction ws s rule: strip_leading.induct)
  case (1 ws s)
  show ?case
  proof (cases "find (\<lambda>w. w \<noteq> [] \<and> prefix w s) ws")
    case None
    then show ?thesis by (subst strip_leading.simps) simp
  next
    case (Some w)
    have "suffix (strip_leading ws (drop (length w) s)) s"
      using 1 [OF Some] suffix_drop suffix_order.trans by blast
    then show ?thesis using Some by (subst strip_leading.simps) simp
  qed
qed

lemma trim_set: "set (trim s) \<subseteq> set s"
  using set_mono_suffix [OF strip_leading_suffix [of whitespace_chars s]]
    set_mono_suffix [OF strip_leading_suffix [of "map rev whitespace_chars" "rev (strip_leading whitespace_chars s)"]]
  by (auto simp: trim_def Let_def)

lemma trim_length: "length (trim s) \<le> length s"
  using suffix_length_le [OF strip_leading_suffix [of whitespace_chars s]]
    suffix_length_le [OF strip_leading_suffix [of "map rev whitespace_chars" "rev (strip_leading whitespace_chars s)"]]
  by (simp add: trim_def Let_def)

lemma trim_plain:
  assumes "\<forall>w\<in>set whitespace_chars. \<not> prefix w s \<and> \<not> suffix w s"
  shows "trim s = s"
proof -
  have "find (\<lambda>w. w \<noteq> [] \<and> prefix w s) whitespace_chars = None"
    using assms by (auto simp: find_None_iff)
  then have l: "strip_leading whitespace_chars s = s" by (subst strip_leading.simps) simp
  have "find (\<lambda>w. w \<noteq> [] \<and> prefix w (rev s)) (map rev whitespace_chars) = None"
    using assms by (auto simp: find_None_iff suffix_to_prefix)
  then have r: "strip_leading (map rev whitespace_chars) (rev s) = rev s" by (subst strip_leading.simps) simp
  show ?thesis by (simp add: trim_def l r)
qed

lemma whitespace_not_ascii:
  "list_all (\<lambda>c. 32 < byte c \<and> byte c < 128) s \<Longrightarrow> \<forall>w\<in>set whitespace_chars. \<not> sublist w s"
proof
  fix w assume s: "list_all (\<lambda>c. 32 < byte c \<and> byte c < 128) s" and w: "w \<in> set whitespace_chars"
  have "\<exists>c\<in>set w. \<not> (32 < byte c \<and> byte c < 128)"
    using w by (auto simp: whitespace_chars_def byte_def)
  with s show "\<not> sublist w s" by (auto simp: list_all_iff dest: set_mono_sublist)
qed

lemma trim_ascii: "list_all (\<lambda>c. 32 < byte c \<and> byte c < 128) s \<Longrightarrow> trim s = s"
  using whitespace_not_ascii [of s] by (intro trim_plain) (auto dest: prefix_imp_sublist suffix_imp_sublist)

section \<open>Decimal numbers and percent escapes\<close>

text \<open>Decimal printing, and \<open>FromStr\<close> of the unsigned integer types: an optional plus
  sign, at least one digit, and a value within the type.\<close>

fun show_nat :: "nat \<Rightarrow> string" where
  "show_nat n = (if n < 10 then [char_of (48 + n)] else show_nat (n div 10) @ [char_of (48 + n mod 10)])"

declare show_nat.simps [simp del]

definition show_int :: "int \<Rightarrow> string" where
  "show_int i = (if i < 0 then CHR ''-'' # show_nat (nat (- i)) else show_nat (nat i))"

definition is_digit :: "char \<Rightarrow> bool" where
  "is_digit c \<longleftrightarrow> 48 \<le> byte c \<and> byte c \<le> 57"

definition digits_value :: "string \<Rightarrow> nat" where
  "digits_value s = foldl (\<lambda>n c. 10 * n + (byte c - 48)) 0 s"

definition parse_uint :: "nat \<Rightarrow> string \<Rightarrow> nat option" where
  "parse_uint m s =
    (let ds = (case s of c # cs \<Rightarrow> if c = CHR ''+'' then cs else s | [] \<Rightarrow> s) in
     if ds \<noteq> [] \<and> list_all is_digit ds \<and> digits_value ds \<le> m then Some (digits_value ds) else None)"

definition hex_value :: "char \<Rightarrow> nat option" where
  "hex_value c =
    (let b = byte c in
     if 48 \<le> b \<and> b \<le> 57 then Some (b - 48)
     else if 97 \<le> b \<and> b \<le> 102 then Some (b - 87)
     else if 65 \<le> b \<and> b \<le> 70 then Some (b - 55)
     else None)"

text \<open>Percent decoding as an upstream server may apply it.\<close>

fun percent_decode :: "string \<Rightarrow> string" where
  "percent_decode [] = []"
| "percent_decode (c # cs) =
    (if c = CHR ''%'' \<and> 2 \<le> length cs \<and> hex_value (cs ! 0) \<noteq> None \<and> hex_value (cs ! 1) \<noteq> None
     then char_of (16 * the (hex_value (cs ! 0)) + the (hex_value (cs ! 1))) # percent_decode (drop 2 cs)
     else c # percent_decode cs)"

lemma show_nat_digits: "show_nat n \<noteq> [] \<and> list_all is_digit (show_nat n) \<and> digits_value (show_nat n) = n"
proof (induction n rule: show_nat.induct)
  case (1 n)
  have d: "k < 10 \<Longrightarrow> byte (char_of (48 + k)) = 48 + k" for k :: nat by (simp add: byte_def)
  show ?case
  proof (cases "n < 10")
    case True with d [of n] show ?thesis
      by (subst (1 2 3) show_nat.simps) (simp add: is_digit_def digits_value_def)
  next
    case False
    with 1 have ih: "show_nat (n div 10) \<noteq> []" "list_all is_digit (show_nat (n div 10))"
      "digits_value (show_nat (n div 10)) = n div 10" by auto
    have n: "show_nat n = show_nat (n div 10) @ [char_of (48 + n mod 10)]"
      using False by (subst show_nat.simps) simp
    have dm: "byte (char_of (48 + n mod 10)) = 48 + n mod 10" by (rule d) simp
    have "digits_value (show_nat n) = 10 * digits_value (show_nat (n div 10)) + n mod 10"
      unfolding n by (simp add: digits_value_def dm)
    moreover have "is_digit (char_of (48 + n mod 10))"
      using dm mod_less_divisor [of 10 n] by (simp add: is_digit_def)
    ultimately show ?thesis using ih unfolding n by simp
  qed
qed

lemma parse_show_nat: "n \<le> m \<Longrightarrow> parse_uint m (show_nat n) = Some n"
  using show_nat_digits [of n]
  by (cases "show_nat n") (auto simp: parse_uint_def is_digit_def byte_def split: if_splits)

lemma percent_decode_plain: "CHR ''%'' \<notin> set s \<Longrightarrow> percent_decode s = s"
  by (induction s) auto

lemma split_on_single: "c \<notin> set s \<Longrightarrow> split_on c s = [s]"
  by (induction s) auto

lemma split_on_slash_append: "split_on c (a @ c # b) = split_on c a @ split_on c b"
proof (induction a)
  case (Cons x a)
  obtain p ps where "split_on c a = p # ps" by (metis neq_Nil_conv split_on_nonempty)
  with Cons show ?case by simp
qed simp

lemma split_on_chars: "p \<in> set (split_on c s) \<Longrightarrow> set p \<subseteq> set s"
proof (induction s arbitrary: p)
  case (Cons x s)
  obtain q qs where "split_on c s = q # qs" by (metis neq_Nil_conv split_on_nonempty)
  with Cons.IH [of p] Cons.IH [of q] Cons.prems show ?case by (auto split: if_splits)
qed simp

end
