(* ===== verification/LT_Json.thy ===== *)
theory LT_Json
  imports LT_Text
begin

text \<open>
  The JSON values of \<open>serde_json::Value\<close> with the accessors the program calls. An
  object is a BTreeMap, kept as an association list that is strictly sorted by
  key in well-formed values; a floating-point number is kept by its 64-bit
  pattern, since the program only tests for integers.
\<close>

datatype jnum = PosInt nat | NegInt int | Float64 nat

datatype json =
    JNull
  | JBool bool
  | JNumber jnum
  | JString string
  | JArray "json list"
  | JObject "(string \<times> json) list"

fun json_get :: "json \<Rightarrow> string \<Rightarrow> json option" where
  "json_get (JObject m) k = map_of m k"
| "json_get _ k = None"

fun as_str :: "json \<Rightarrow> string option" where
  "as_str (JString s) = Some s"
| "as_str _ = None"

fun as_array :: "json \<Rightarrow> json list option" where
  "as_array (JArray xs) = Some xs"
| "as_array _ = None"

fun as_object :: "json \<Rightarrow> (string \<times> json) list option" where
  "as_object (JObject m) = Some m"
| "as_object _ = None"

fun as_bool :: "json \<Rightarrow> bool option" where
  "as_bool (JBool b) = Some b"
| "as_bool _ = None"

fun as_i64 :: "json \<Rightarrow> int option" where
  "as_i64 (JNumber (PosInt n)) = (if int n \<le> i64_max then Some (int n) else None)"
| "as_i64 (JNumber (NegInt i)) = Some i"
| "as_i64 _ = None"

fun as_u64 :: "json \<Rightarrow> nat option" where
  "as_u64 (JNumber (PosInt n)) = Some n"
| "as_u64 _ = None"

fun is_string :: "json \<Rightarrow> bool" where
  "is_string (JString _) = True"
| "is_string _ = False"

fun is_object :: "json \<Rightarrow> bool" where
  "is_object (JObject _) = True"
| "is_object _ = False"

fun is_null :: "json \<Rightarrow> bool" where
  "is_null JNull = True"
| "is_null _ = False"

definition get_str :: "json \<Rightarrow> string \<Rightarrow> string option" where
  "get_str v k = Option.bind (json_get v k) as_str"

text \<open>\<open>value[key]\<close> is Null for a missing key and for a value that is no object;
  \<open>value.pointer\<close> follows the reference tokens of a JSON pointer, given here as a
  list.\<close>

definition json_index :: "json \<Rightarrow> string \<Rightarrow> json" where
  "json_index v k = (case json_get v k of Some x \<Rightarrow> x | None \<Rightarrow> JNull)"

definition pointer_index :: "string \<Rightarrow> nat option" where
  "pointer_index s =
    (if starts_with s ''+'' \<or> starts_with s ''0'' \<and> length s \<noteq> 1 then None else parse_uint u64_max s)"

fun json_step :: "json \<Rightarrow> string \<Rightarrow> json option" where
  "json_step (JObject m) t = map_of m t"
| "json_step (JArray xs) t =
    (case pointer_index t of
       None \<Rightarrow> None
     | Some i \<Rightarrow> if i < length xs then Some (xs ! i) else None)"
| "json_step _ t = None"

fun json_pointer :: "json \<Rightarrow> string list \<Rightarrow> json option" where
  "json_pointer v [] = Some v"
| "json_pointer v (t # ts) = Option.bind (json_step v t) (\<lambda>w. json_pointer w ts)"

text \<open>Values the parser and the map operations produce: sorted objects, numbers
  in range.\<close>

fun json_wf :: "json \<Rightarrow> bool" where
  "json_wf (JNumber (PosInt n)) \<longleftrightarrow> n \<le> u64_max"
| "json_wf (JNumber (NegInt i)) \<longleftrightarrow> i64_min \<le> i \<and> i < 0"
| "json_wf (JArray xs) \<longleftrightarrow> list_all json_wf xs"
| "json_wf (JObject m) \<longleftrightarrow> bt_wf m \<and> list_all (\<lambda>p. json_wf (snd p)) m"
| "json_wf _ \<longleftrightarrow> True"

text \<open>Every string of a value, object keys included.\<close>

fun json_strings :: "json \<Rightarrow> string list" where
  "json_strings (JString s) = [s]"
| "json_strings (JArray xs) = concat (map json_strings xs)"
| "json_strings (JObject m) = concat (map (\<lambda>p. fst p # json_strings (snd p)) m)"
| "json_strings _ = []"

lemma as_i64_range: "json_wf v \<Longrightarrow> as_i64 v = Some i \<Longrightarrow> i64_min \<le> i \<and> i \<le> i64_max"
  by (cases v rule: json_wf.cases) (auto simp: i64_min_def i64_max_def split: if_splits)

lemma json_get_wf: "json_wf v \<Longrightarrow> json_get v k = Some w \<Longrightarrow> json_wf w"
  by (cases v) (auto simp: list_all_iff dest!: map_of_SomeD)

end
