(* ===== verification/LT_Event.thy ===== *)
theory LT_Event
  imports LT_Json
begin

text \<open>
  The data that crosses the pipeline: the enumerations and message types of
  \<open>types.rs\<close> and the captured \<open>TraceEvent\<close> of \<open>trace.rs\<close>. Times are integers
  (microseconds since the epoch), durations integers in milliseconds.
\<close>

section \<open>Enumerations (types.rs)\<close>

datatype request_kind =
    OpenAiChatCompletions
  | OpenAiResponses
  | AnthropicMessages
  | WebSocket
  | GenericJson
  | GenericHttp

fun request_kind_as_str :: "request_kind \<Rightarrow> string" where
  "request_kind_as_str OpenAiChatCompletions = ''openai_chat_completions''"
| "request_kind_as_str OpenAiResponses = ''openai_responses''"
| "request_kind_as_str AnthropicMessages = ''anthropic_messages''"
| "request_kind_as_str WebSocket = ''websocket''"
| "request_kind_as_str GenericJson = ''generic_json''"
| "request_kind_as_str GenericHttp = ''generic_http''"

datatype plugin_hook = RequestStart | ResponseHeaders | ResponseEnd

fun plugin_hook_as_str :: "plugin_hook \<Rightarrow> string" where
  "plugin_hook_as_str RequestStart = ''on_request_start''"
| "plugin_hook_as_str ResponseHeaders = ''on_response_headers''"
| "plugin_hook_as_str ResponseEnd = ''on_response_end''"

datatype login_method = Local_login | OAuth_login

fun login_method_as_str :: "login_method \<Rightarrow> string" where
  "login_method_as_str Local_login = ''local''"
| "login_method_as_str OAuth_login = ''oauth''"

definition login_method_from_str :: "string \<Rightarrow> login_method option" where
  "login_method_from_str s =
    (if s = ''local'' then Some Local_login else if s = ''oauth'' then Some OAuth_login else None)"

lemma request_kind_as_str_inj: "request_kind_as_str a = request_kind_as_str b \<Longrightarrow> a = b"
  by (cases a; cases b) simp_all

lemma login_method_round_trip: "login_method_from_str s = Some m \<longleftrightarrow> s = login_method_as_str m"
  by (cases m) (auto simp: login_method_from_str_def)

section \<open>Messages, usage and tool calls (types.rs)\<close>

record parsed_message =
  pm_content_truncated :: bool
  pm_role :: string
  pm_content :: string

record token_usage =
  input_tokens :: "int option"
  output_tokens :: "int option"
  cached_input_tokens :: "int option"
  cache_creation_input_tokens :: "int option"

record tool_call =
  tc_id :: string
  tc_name :: string
  tc_arguments :: string

section \<open>The captured event (trace.rs)\<close>

record trace_event =
  te_id :: uuid
  te_started_at :: int
  te_completed_at :: "int option"
  te_method :: string
  te_original_uri :: string
  te_upstream_url :: string
  te_upstream_host :: "string option"
  te_status :: "int option"
  te_error :: "string option"
  te_request_kind :: "request_kind option"
  te_model :: "string option"
  te_api_key_hash :: "string option"
  te_credential_scope_hash :: "string option"
  te_session_key :: "string option"
  te_ttft_ms :: "int option"
  te_ttfb_ms :: "int option"
  te_response_chunk_timings :: "(nat \<times> int) list"
  te_duration_ms :: "int option"
  te_request_body_bytes :: int
  te_response_body_bytes :: int
  te_request_headers :: json
  te_response_headers :: json
  te_plugin_request_headers :: json
  te_plugin_response_headers :: json
  te_request_body :: bytes
  te_response_body :: bytes
  te_request_body_truncated :: bool
  te_response_body_truncated :: bool
  te_content_type :: "string option"
  te_plugin_metadata :: json
  te_tags :: "string list"
  te_messages :: "parsed_message list"
  te_user_id :: "string option"
  te_user_name :: "string option"
  te_run_plugins :: bool

definition trace_event_base :: "uuid \<Rightarrow> int \<Rightarrow> trace_event" where
  "trace_event_base i started =
    \<lparr>te_id = i, te_started_at = started, te_completed_at = None, te_method = [],
     te_original_uri = [], te_upstream_url = [], te_upstream_host = None, te_status = None,
     te_error = None, te_request_kind = None, te_model = None, te_api_key_hash = None,
     te_credential_scope_hash = None, te_session_key = None, te_ttft_ms = None,
     te_ttfb_ms = None, te_response_chunk_timings = [], te_duration_ms = None,
     te_request_body_bytes = 0, te_response_body_bytes = 0, te_request_headers = JObject [],
     te_response_headers = JObject [], te_plugin_request_headers = JObject [],
     te_plugin_response_headers = JObject [], te_request_body = [], te_response_body = [],
     te_request_body_truncated = False, te_response_body_truncated = False,
     te_content_type = None, te_plugin_metadata = JObject [], te_tags = [], te_messages = [],
     te_user_id = None, te_user_name = None, te_run_plugins = False\<rparr>"

text \<open>The two bodies are \<open>serde(skip)\<close>: the serialised metadata decodes to the event
  with empty bodies.\<close>

definition without_bodies :: "trace_event \<Rightarrow> trace_event" where
  "without_bodies e = e\<lparr>te_request_body := [], te_response_body := []\<rparr>"

lemma without_bodies_simps [simp]:
  "te_id (without_bodies e) = te_id e"
  "without_bodies (without_bodies e) = without_bodies e"
  "(without_bodies e)\<lparr>te_request_body := te_request_body e, te_response_body := te_response_body e\<rparr> = e"
  by (simp_all add: without_bodies_def)

end
