(* ===== verification/LT_Journal_Codec.thy ===== *)
theory LT_Journal_Codec
  imports LT_Event
begin

text \<open>
  The record format of the capture journal (\<open>trace/journal.rs\<close>): little-endian
  64-bit numbers, the 40-byte prefix, the SHA-256 checksum that completes the
  72-byte header, and the whole record as \<open>append\<close> writes it and \<open>read\<close> checks it.
  The hash function and the JSON serialiser of the metadata are arguments.
\<close>

section \<open>Numbers in bytes\<close>

fun le_bytes :: "nat \<Rightarrow> nat \<Rightarrow> bytes" where
  "le_bytes 0 n = []"
| "le_bytes (Suc k) n = char_of (n mod 256) # le_bytes k (n div 256)"

fun le_value :: "bytes \<Rightarrow> nat" where
  "le_value [] = 0"
| "le_value (c # cs) = byte c + 256 * le_value cs"

text \<open>\<open>u64::to_le_bytes\<close> and \<open>u64::from_le_bytes\<close>\<close>

abbreviation to_le_bytes :: "nat \<Rightarrow> bytes" where
  "to_le_bytes n \<equiv> le_bytes 8 n"

abbreviation from_le_bytes :: "bytes \<Rightarrow> nat" where
  "from_le_bytes bs \<equiv> le_value bs"

definition be_bytes :: "nat \<Rightarrow> nat \<Rightarrow> bytes" where
  "be_bytes k n = rev (le_bytes k n)"

definition be_value :: "bytes \<Rightarrow> nat" where
  "be_value bs = le_value (rev bs)"

lemma byte_char_of [simp]: "byte (char_of n) = n mod 256"
  by (simp add: byte_def)

lemma char_of_byte [simp]: "char_of (byte c) = c"
  by (simp add: byte_def)

lemma byte_less [simp]: "byte c < 256"
  by (metis byte_char_of char_of_byte mod_less_divisor zero_less_numeral)

lemma length_le_bytes [simp]: "length (le_bytes k n) = k"
  by (induction k arbitrary: n) simp_all

lemma le_value_le_bytes: "le_value (le_bytes k n) = n mod 256 ^ k"
proof (induction k arbitrary: n)
  case (Suc k)
  show ?case by (simp add: Suc.IH mod_mult2_eq)
qed simp

lemma le_value_inverse: "n < 256 ^ k \<Longrightarrow> le_value (le_bytes k n) = n"
  by (simp add: le_value_le_bytes)

lemma le_value_less: "le_value bs < 256 ^ length bs"
proof (induction bs)
  case (Cons c cs)
  have "byte c + 256 * le_value cs < 256 + 256 * le_value cs" by simp
  also have "\<dots> \<le> 256 * 256 ^ length cs" using Cons.IH by simp
  finally show ?case by simp
qed simp

lemma le_bytes_le_value: "le_bytes (length bs) (le_value bs) = bs"
proof (induction bs)
  case (Cons c cs)
  have "(byte c + 256 * le_value cs) mod 256 = byte c"
    by (metis byte_less mod_less mod_mult_self2)
  moreover have "(byte c + 256 * le_value cs) div 256 = le_value cs" by simp
  ultimately show ?case using Cons.IH by simp
qed simp

text \<open>The contract of a fixed-width number encoding: it has its width, decodes to
  the number, and re-encodes to the same bytes.\<close>

locale fixed_codec =
  fixes enc :: "nat \<Rightarrow> nat \<Rightarrow> bytes" and dec :: "bytes \<Rightarrow> nat"
  assumes enc_length: "length (enc k n) = k"
    and dec_enc: "n < 256 ^ k \<Longrightarrow> dec (enc k n) = n"
    and enc_dec: "enc (length bs) (dec bs) = bs"
    and dec_less: "dec bs < 256 ^ length bs"
begin

lemma enc_inj: "m < 256 ^ k \<Longrightarrow> n < 256 ^ k \<Longrightarrow> enc k m = enc k n \<Longrightarrow> m = n"
  using dec_enc by metis

lemma take_enc: "k = w \<Longrightarrow> take k (enc w n @ xs) = enc w n"
  by (simp add: enc_length)

lemma drop_enc: "k = w \<Longrightarrow> drop k (enc w n @ xs) = xs"
  by (simp add: enc_length)

end

interpretation le: fixed_codec le_bytes le_value
  by unfold_locales (simp_all add: le_value_inverse le_bytes_le_value le_value_less)

interpretation be: fixed_codec be_bytes be_value
proof (unfold_locales, goal_cases)
  case (3 bs) show ?case using le_bytes_le_value [of "rev bs"] by (simp add: be_bytes_def be_value_def)
next
  case (4 bs) show ?case using le_value_less [of "rev bs"] by (simp add: be_value_def)
qed (simp_all add: be_bytes_def be_value_def le_value_inverse)

section \<open>The header\<close>

definition MAGIC :: bytes where
  "MAGIC = ''LLMTJ001''"

definition HEADER_BYTES :: nat where
  "HEADER_BYTES = 72"

definition MAX_METADATA_BYTES :: nat where
  "MAX_METADATA_BYTES = 16 * 1024 * 1024"

definition MAX_RECORD_MEMORY :: nat where
  "MAX_RECORD_MEMORY = 64 * 1024 * 1024 * 1024"

lemmas [limits] = HEADER_BYTES_def MAX_METADATA_BYTES_def MAX_RECORD_MEMORY_def

datatype journal_error =
    Io_error
  | Duplicate_id
  | Full
  | Destination_exists
  | Not_regular_file
  | Unknown_format
  | Metadata_too_large
  | Record_length_mismatch
  | Invalid_memory_reservation
  | Checksum_mismatch
  | Invalid_metadata
  | Trace_id_mismatch
  | Serialize_failed
  | Unexpected_non_file
  | Too_many_files
  | Invalid_manifest
  | Wrong_database
  | Manifest_missing

record header =
  h_meta :: nat
  h_request :: nat
  h_response :: nat
  h_memory :: nat
  h_checksum :: bytes

definition header_prefix :: "nat \<Rightarrow> nat \<Rightarrow> nat \<Rightarrow> nat \<Rightarrow> bytes" where
  "header_prefix meta request response memory =
    MAGIC @ to_le_bytes meta @ to_le_bytes request @ to_le_bytes response @ to_le_bytes memory"

definition number_at :: "bytes \<Rightarrow> nat \<Rightarrow> nat" where
  "number_at h offset = from_le_bytes (take 8 (drop offset h))"

definition expected_size :: "nat \<Rightarrow> nat \<Rightarrow> nat \<Rightarrow> nat option" where
  "expected_size meta request response =
    Option.bind (Option.bind (checked_add HEADER_BYTES meta) (\<lambda>n. checked_add n request))
      (\<lambda>n. checked_add n response)"

definition minimum_memory :: "nat \<Rightarrow> nat \<Rightarrow> nat \<Rightarrow> nat option" where
  "minimum_memory meta request response =
    Option.bind (Option.bind (checked_add request response)
      (\<lambda>n. checked_add n (saturating_mul meta 8))) (\<lambda>n. checked_add n 65536)"

text \<open>\<open>file\<close> is the content that can be read, \<open>sz\<close> the length its metadata reports.\<close>

definition read_header :: "bytes \<Rightarrow> nat \<Rightarrow> journal_error + header" where
  "read_header file sz =
    (if length file < HEADER_BYTES then Inl Io_error
     else let h = take HEADER_BYTES file;
              meta = number_at h 8; request = number_at h 16;
              response = number_at h 24; memory = number_at h 32 in
       bind_res (ensure (take 8 h = MAGIC) Unknown_format) (\<lambda>_.
       bind_res (ensure (meta \<le> MAX_METADATA_BYTES) Metadata_too_large) (\<lambda>_.
       bind_res (ensure (expected_size meta request response = Some sz) Record_length_mismatch) (\<lambda>_.
       bind_res (ensure ((case minimum_memory meta request response of
                            None \<Rightarrow> False | Some n \<Rightarrow> n \<le> memory) \<and> memory \<le> MAX_RECORD_MEMORY)
                  Invalid_memory_reservation) (\<lambda>_.
       Inr \<lparr>h_meta = meta, h_request = request, h_response = response, h_memory = memory,
            h_checksum = drop 40 h\<rparr>)))))"

section \<open>The record\<close>

text \<open>What \<open>append\<close> writes: prefix, digest of prefix and parts, then the parts.\<close>

definition encode_record :: "(bytes \<Rightarrow> bytes) \<Rightarrow> bytes \<Rightarrow> bytes \<Rightarrow> bytes \<Rightarrow> nat \<Rightarrow> bytes" where
  "encode_record sha256 metadata request response memory =
    (let prefix = header_prefix (length metadata) (length request) (length response) memory in
     prefix @ sha256 (prefix @ metadata @ request @ response) @ metadata @ request @ response)"

text \<open>What \<open>read\<close> does with the opened file, up to and including the id check.\<close>

definition decode_record ::
  "(bytes \<Rightarrow> bytes) \<Rightarrow> (bytes \<Rightarrow> trace_event option) \<Rightarrow> uuid \<Rightarrow> bytes \<Rightarrow> journal_error + trace_event" where
  "decode_record sha256 from_json i file =
    bind_res (read_header file (length file)) (\<lambda>h.
      let body = drop HEADER_BYTES file;
          meta = take (h_meta h) body;
          request = take (h_request h) (drop (h_meta h) body);
          response = take (h_response h) (drop (h_request h) (drop (h_meta h) body)) in
      if length meta < h_meta h \<or> length request < h_request h \<or> length response < h_response h
      then Inl Io_error
      else
        bind_res (ensure (sha256 (header_prefix (h_meta h) (h_request h) (h_response h) (h_memory h)
                    @ meta @ request @ response) = h_checksum h) Checksum_mismatch) (\<lambda>_.
        bind_res (ok_or (from_json meta) Invalid_metadata) (\<lambda>event.
        bind_res (ensure (te_id event = i) Trace_id_mismatch) (\<lambda>_.
        Inr (event\<lparr>te_request_body := request, te_response_body := response\<rparr>)))))"

definition sha256_length :: "(bytes \<Rightarrow> bytes) \<Rightarrow> bool" where
  "sha256_length sha256 \<longleftrightarrow> (\<forall>bs. length (sha256 bs) = 32)"

lemma length_MAGIC [simp]: "length MAGIC = 8"
  by (simp add: MAGIC_def)

lemma length_header_prefix [simp]: "length (header_prefix m q r k) = 40"
  by (simp add: header_prefix_def)

lemma number_at_prefix:
  assumes "m \<le> u64_max" "q \<le> u64_max" "r \<le> u64_max" "k \<le> u64_max"
  shows "number_at (header_prefix m q r k @ xs) 8 = m"
    "number_at (header_prefix m q r k @ xs) 16 = q"
    "number_at (header_prefix m q r k @ xs) 24 = r"
    "number_at (header_prefix m q r k @ xs) 32 = k"
  using assms
  by (simp_all add: number_at_def header_prefix_def le.dec_enc u64_max_def)

lemma expected_size_Some:
  "expected_size m q r = Some n \<longleftrightarrow> n = 72 + m + q + r \<and> n \<le> u64_max"
  by (auto simp: expected_size_def HEADER_BYTES_def bind_eq_Some_conv)

lemma minimum_memory_Some:
  "m \<le> MAX_METADATA_BYTES \<Longrightarrow>
    minimum_memory m q r = Some n \<longleftrightarrow> n = q + r + 8 * m + 65536 \<and> n \<le> u64_max"
  by (auto simp: minimum_memory_def saturating_mul_def MAX_METADATA_BYTES_def u64_max_def
      bind_eq_Some_conv)

lemma take_append_exact: "n = length xs \<Longrightarrow> take n (xs @ ys) = xs"
  by simp

lemma read_header_encode:
  assumes "sha256_length sha256" and "length metadata \<le> MAX_METADATA_BYTES"
    and "length request + length response + 8 * length metadata + 65536 \<le> memory"
    and "memory \<le> MAX_RECORD_MEMORY"
  defines "file \<equiv> encode_record sha256 metadata request response memory"
  shows "read_header file (length file) =
    Inr \<lparr>h_meta = length metadata, h_request = length request, h_response = length response,
      h_memory = memory,
      h_checksum = sha256 (header_prefix (length metadata) (length request) (length response) memory
        @ metadata @ request @ response)\<rparr>"
proof -
  let ?p = "header_prefix (length metadata) (length request) (length response) memory"
  let ?d = "sha256 (?p @ metadata @ request @ response)"
  have d: "length ?d = 32" using assms(1) by (simp add: sha256_length_def)
  have file_eq: "file = ?p @ ?d @ metadata @ request @ response"
    by (simp add: file_def encode_record_def Let_def)
  have h: "take HEADER_BYTES file = ?p @ ?d" by (simp add: file_eq HEADER_BYTES_def d)
  have len: "length file = 72 + length metadata + length request + length response"
    by (simp add: file_eq d)
  have mem: "memory \<le> u64_max" "length metadata \<le> u64_max" "length request \<le> u64_max"
    "length response \<le> u64_max"
    using assms(2-4) by (simp_all add: MAX_RECORD_MEMORY_def MAX_METADATA_BYTES_def u64_max_def)
  have total: "72 + length metadata + length request + length response \<le> u64_max"
    using assms(2-4) by (simp add: MAX_RECORD_MEMORY_def MAX_METADATA_BYTES_def u64_max_def)
  have least: "minimum_memory (length metadata) (length request) (length response)
      = Some (length request + length response + 8 * length metadata + 65536)"
    using assms(2-4) by (simp add: minimum_memory_Some MAX_RECORD_MEMORY_def u64_max_def)
  have size: "expected_size (length metadata) (length request) (length response) = Some (length file)"
    using total by (simp add: expected_size_Some len)
  have magic: "take 8 (?p @ ?d) = MAGIC" by (simp add: header_prefix_def)
  have "\<not> length file < HEADER_BYTES" by (simp add: len HEADER_BYTES_def)
  then show ?thesis
    unfolding read_header_def h Let_def magic
    using assms(2-4) mem size least by (simp add: number_at_prefix)
qed

lemma decode_encode_record:
  assumes "sha256_length sha256" and "length metadata \<le> MAX_METADATA_BYTES"
    and "length request + length response + 8 * length metadata + 65536 \<le> memory"
    and "memory \<le> MAX_RECORD_MEMORY"
    and "from_json metadata = Some event" and "te_id event = i"
  shows "decode_record sha256 from_json i (encode_record sha256 metadata request response memory)
    = Inr (event\<lparr>te_request_body := request, te_response_body := response\<rparr>)"
proof -
  let ?p = "header_prefix (length metadata) (length request) (length response) memory"
  have body: "drop HEADER_BYTES (encode_record sha256 metadata request response memory)
      = metadata @ request @ response"
    using assms(1) by (simp add: encode_record_def Let_def HEADER_BYTES_def sha256_length_def)
  show ?thesis
    unfolding decode_record_def read_header_encode [OF assms(1-4)] bind_res_simps Let_def body
    using assms(5,6) by simp
qed

lemma chunk8: "drop k xs = take 8 (drop k xs) @ drop (k + 8) xs"
  by (metis add.commute append_take_drop_id drop_drop)

lemma five_chunks:
  "xs = take 8 xs @ take 8 (drop 8 xs) @ take 8 (drop 16 xs) @ take 8 (drop 24 xs)
      @ take 8 (drop 32 xs) @ drop 40 xs"
proof -
  have "xs = take 8 xs @ drop 8 xs" by simp
  also have "drop 8 xs = take 8 (drop 8 xs) @ drop 16 xs" using chunk8 [of 8 xs] by simp
  also have "drop 16 xs = take 8 (drop 16 xs) @ drop 24 xs" using chunk8 [of 16 xs] by simp
  also have "drop 24 xs = take 8 (drop 24 xs) @ drop 32 xs" using chunk8 [of 24 xs] by simp
  also have "drop 32 xs = take 8 (drop 32 xs) @ drop 40 xs" using chunk8 [of 32 xs] by simp
  finally show ?thesis .
qed

lemma read_header_Inr:
  assumes "read_header file sz = Inr h"
  shows "HEADER_BYTES \<le> length file" and "h_meta h \<le> MAX_METADATA_BYTES"
    and "sz = HEADER_BYTES + h_meta h + h_request h + h_response h"
    and "h_request h + h_response h + 8 * h_meta h + 65536 \<le> h_memory h"
    and "h_memory h \<le> MAX_RECORD_MEMORY" and "length (h_checksum h) = 32"
    and "take HEADER_BYTES file
      = header_prefix (h_meta h) (h_request h) (h_response h) (h_memory h) @ h_checksum h"
proof -
  let ?h = "take HEADER_BYTES file"
  from assms have len: "72 \<le> length file"
    and magic: "take 8 ?h = MAGIC"
    and h: "h = \<lparr>h_meta = number_at ?h 8, h_request = number_at ?h 16, h_response = number_at ?h 24,
      h_memory = number_at ?h 32, h_checksum = drop 40 ?h\<rparr>"
    and max: "number_at ?h 8 \<le> MAX_METADATA_BYTES"
    and size: "expected_size (number_at ?h 8) (number_at ?h 16) (number_at ?h 24) = Some sz"
    and mem: "case minimum_memory (number_at ?h 8) (number_at ?h 16) (number_at ?h 24) of
      None \<Rightarrow> False | Some n \<Rightarrow> n \<le> number_at ?h 32" "number_at ?h 32 \<le> MAX_RECORD_MEMORY"
    unfolding read_header_def Let_def HEADER_BYTES_def by (simp_all split: if_splits)
  from len show "HEADER_BYTES \<le> length file" by (simp add: HEADER_BYTES_def)
  from max h show "h_meta h \<le> MAX_METADATA_BYTES" by simp
  from size h show "sz = HEADER_BYTES + h_meta h + h_request h + h_response h"
    by (simp add: expected_size_Some HEADER_BYTES_def)
  from mem h max show "h_request h + h_response h + 8 * h_meta h + 65536 \<le> h_memory h"
    by (auto simp: minimum_memory_Some split: option.splits)
  from mem h show "h_memory h \<le> MAX_RECORD_MEMORY" by simp
  from h len show "length (h_checksum h) = 32" by (simp add: HEADER_BYTES_def)
  have num: "to_le_bytes (number_at ?h k) = take 8 (drop k ?h)" if "k \<le> 64" for k
  proof -
    have "length (take 8 (drop k ?h)) = 8" using len that by (simp add: HEADER_BYTES_def)
    then show ?thesis unfolding number_at_def by (metis le.enc_dec)
  qed
  have "?h = take 8 ?h @ take 8 (drop 8 ?h) @ take 8 (drop 16 ?h) @ take 8 (drop 24 ?h)
      @ take 8 (drop 32 ?h) @ drop 40 ?h"
    by (rule five_chunks)
  then show "?h = header_prefix (h_meta h) (h_request h) (h_response h) (h_memory h) @ h_checksum h"
    using h magic by (simp add: header_prefix_def num)
qed

end
