(* ===== verification/LT_Memory.thy ===== *)
theory LT_Memory
  imports LT_Prelude
begin

text \<open>
  The byte budget of queued trace events (\<open>trace/memory.rs\<close>): an atomic counter
  under a limit, kept at 64 bits so that the unchecked subtraction in
  \<open>Reservation::drop\<close> wraps as it does in the program, the contract its clients
  rely on as a locale, and the accounting of an event's allocated capacities.
\<close>

section \<open>The budget\<close>

record memory_budget =
  mb_limit :: "64 word"
  mb_used :: "64 word"

definition mb_new :: "64 word \<Rightarrow> memory_budget" where
  "mb_new limit = \<lparr>mb_limit = max limit 1, mb_used = 0\<rparr>"

definition word_checked_add :: "64 word \<Rightarrow> 64 word \<Rightarrow> 64 word option" where
  "word_checked_add a b = (if unat a + unat b < 2 ^ 64 then Some (a + b) else None)"

text \<open>\<open>fetch_update\<close> is one atomic step; the reservation carries its bytes.\<close>

definition mb_reserve :: "memory_budget \<Rightarrow> 64 word \<Rightarrow> memory_budget option" where
  "mb_reserve b bytes =
    (case word_checked_add (mb_used b) bytes of
       None \<Rightarrow> None
     | Some nxt \<Rightarrow> if nxt \<le> mb_limit b then Some (b\<lparr>mb_used := nxt\<rparr>) else None)"

definition mb_drop :: "memory_budget \<Rightarrow> 64 word \<Rightarrow> memory_budget" where
  "mb_drop b bytes = b\<lparr>mb_used := mb_used b - bytes\<rparr>"

section \<open>The contract of a budget\<close>

text \<open>What the recorder and the journal rely on: a granted reservation adds
  exactly its bytes and stays within the limit, a refusal means it would not
  fit, and releasing bytes that are held subtracts exactly them.\<close>

locale budget =
  fixes cap used :: "'b \<Rightarrow> nat"
    and reserve :: "'b \<Rightarrow> 'n \<Rightarrow> 'b option"
    and release :: "'b \<Rightarrow> 'n \<Rightarrow> 'b"
    and amount :: "'n \<Rightarrow> nat"
  assumes reserve_granted:
      "reserve b n = Some b' \<Longrightarrow>
        used b' = used b + amount n \<and> used b' \<le> cap b \<and> cap b' = cap b"
    and reserve_refused: "reserve b n = None \<longleftrightarrow> cap b < used b + amount n"
    and release_exact:
      "amount n \<le> used b \<Longrightarrow> used (release b n) = used b - amount n"
    and release_cap: "cap (release b n) = cap b"
begin

text \<open>The outstanding reservations account for the counter exactly.\<close>

definition accounted :: "'b \<Rightarrow> 'n list \<Rightarrow> bool" where
  "accounted b out \<longleftrightarrow> used b = sum_list (map amount out) \<and> used b \<le> cap b"

lemma accounted_reserve:
  "accounted b out \<Longrightarrow> reserve b n = Some b' \<Longrightarrow> accounted b' (out @ [n])"
  using reserve_granted [of b n b'] by (simp add: accounted_def)

lemma accounted_release:
  assumes "accounted b out" and "i < length out"
  shows "accounted (release b (out ! i)) (take i out @ drop (Suc i) out)"
proof -
  have "out = take i out @ out ! i # drop (Suc i) out"
    using assms(2) by (rule id_take_nth_drop)
  then have s: "sum_list (map amount out)
      = sum_list (map amount (take i out)) + amount (out ! i) + sum_list (map amount (drop (Suc i) out))"
    by (metis (no_types, lifting) add.assoc list.simps(9) map_append sum_list.Cons sum_list_append)
  with assms have "amount (out ! i) \<le> used b" by (simp add: accounted_def)
  then have "used (release b (out ! i)) = used b - amount (out ! i)" by (rule release_exact)
  with s assms show ?thesis by (simp add: accounted_def release_cap)
qed

lemma release_then_reserve:
  "amount n \<le> used b \<Longrightarrow> used b \<le> cap b \<Longrightarrow> reserve (release b n) n \<noteq> None"
  using release_exact [of n b] release_cap [of b n] reserve_refused [of "release b n" n] by auto

end

lemma word_checked_add_Some:
  "word_checked_add a b = Some c \<Longrightarrow> unat c = unat a + unat b"
  by (auto simp: word_checked_add_def unat_word_ariths split: if_splits)

lemma word_checked_add_None:
  "word_checked_add a b = None \<longleftrightarrow> 2 ^ 64 \<le> unat a + unat b"
  by (auto simp: word_checked_add_def)

lemma unat_lt_64: "unat (a :: 64 word) < 18446744073709551616"
  using unsigned_less [of a] by simp

interpretation mb: budget "\<lambda>b. unat (mb_limit b)" "\<lambda>b. unat (mb_used b)" mb_reserve mb_drop unat
proof (unfold_locales, goal_cases)
  case (1 b n b')
  then show ?case
    by (auto simp: mb_reserve_def word_checked_add_Some word_le_nat_alt split: option.splits if_splits)
next
  case (2 b n)
  show ?case
  proof (cases "word_checked_add (mb_used b) n")
    case None
    then have "2 ^ 64 \<le> unat (mb_used b) + unat n" by (simp only: word_checked_add_None)
    with unat_lt_64 [of "mb_limit b"] None show ?thesis by (simp add: mb_reserve_def)
  next
    case (Some c)
    with word_checked_add_Some [OF Some] show ?thesis
      by (auto simp: mb_reserve_def word_le_nat_alt)
  qed
next
  case (3 n b)
  then show ?case by (simp add: mb_drop_def unat_sub word_le_nat_alt)
next
  case (4 b n)
  show ?case by (simp add: mb_drop_def)
qed

section \<open>Interleavings of reservations and drops\<close>

datatype budget_op = Reserve "64 word" | Drop_reservation nat

text \<open>The counter beside the reservations alive in the program; each of them is
  dropped at most once.\<close>

fun budget_step :: "budget_op \<Rightarrow> memory_budget \<times> 64 word list \<Rightarrow> memory_budget \<times> 64 word list" where
  "budget_step (Reserve n) (b, out) =
    (case mb_reserve b n of None \<Rightarrow> (b, out) | Some b' \<Rightarrow> (b', out @ [n]))"
| "budget_step (Drop_reservation i) (b, out) =
    (if i < length out then (mb_drop b (out ! i), take i out @ drop (Suc i) out) else (b, out))"

definition budget_run :: "64 word \<Rightarrow> budget_op list \<Rightarrow> memory_budget \<times> 64 word list" where
  "budget_run limit ops = fold budget_step ops (mb_new limit, [])"

lemma budget_step_accounted:
  "mb.accounted b out \<Longrightarrow> budget_step op (b, out) = (b', out') \<Longrightarrow> mb.accounted b' out'"
  by (cases op) (auto split: option.splits if_splits dest: mb.accounted_reserve mb.accounted_release)

lemma budget_step_limit: "mb_limit (fst (budget_step op s)) = mb_limit (fst s)"
  by (cases s; cases op)
     (auto simp: mb_drop_def mb_reserve_def split: option.splits if_splits)

lemma budget_run_limit: "mb_limit (fst (budget_run limit ops)) = max limit 1"
proof -
  have "mb_limit (fst (fold budget_step ops s)) = mb_limit (fst s)" for s
    by (induction ops arbitrary: s) (simp_all add: budget_step_limit)
  then show ?thesis by (simp add: budget_run_def mb_new_def)
qed

lemma budget_run_accounted:
  "budget_run limit ops = (b, out) \<Longrightarrow> mb.accounted b out"
proof -
  have "mb.accounted (fst s) (snd s) \<Longrightarrow>
      mb.accounted (fst (fold budget_step ops s)) (snd (fold budget_step ops s))" for s
  proof (induction ops arbitrary: s)
    case (Cons op ops)
    show ?case using Cons.IH [of "budget_step op s"] Cons.prems
        budget_step_accounted [of "fst s" "snd s" op] by (cases "budget_step op s") simp
  qed simp
  from this [of "(mb_new limit, [])"]
  show "budget_run limit ops = (b, out) \<Longrightarrow> mb.accounted b out"
    by (simp add: budget_run_def mb.accounted_def mb_new_def)
qed

text \<open>Whatever the interleaving of reservations and drops, the 64-bit counter
  is exactly the sum of the reservations alive, it never exceeds the limit (so
  neither the addition nor the wrapping subtraction ever wraps), and the next
  request is granted exactly when it fits.\<close>

theorem memory_budget_exact:
  "case budget_run limit ops of (b, out) \<Rightarrow>
     unat (mb_used b) = sum_list (map unat out) \<and>
     unat (mb_used b) \<le> unat (max limit 1) \<and>
     (mb_reserve b n \<noteq> None \<longleftrightarrow> sum_list (map unat out) + unat n \<le> unat (max limit 1))"
proof (cases "budget_run limit ops")
  case (Pair b out)
  with budget_run_accounted [OF Pair] budget_run_limit [of limit ops] mb.reserve_refused [of b n]
  show ?thesis by (auto simp: mb.accounted_def)
qed

section \<open>The size charged for an event\<close>

text \<open>\<open>event_bytes\<close> reads allocated capacities, which are a fact of the allocator
  and not of the contents; they are the input here, in the shape in which the
  code traverses them.\<close>

datatype json_alloc =
    CString nat
  | CArray nat "json_alloc list"
  | CObject "(nat \<times> json_alloc) list"
  | COther

record event_alloc =
  request_body_cap :: nat
  response_body_cap :: nat
  timings_cap :: nat
  json_fields :: "json_alloc list"
  required_texts :: "nat list"
  optional_texts :: "nat option list"
  tags_cap :: nat
  tag_caps :: "nat list"
  messages_cap :: nat
  message_caps :: "(nat \<times> nat) list"

text \<open>The \<open>size_of\<close> constants depend on the compiler's layout and are arguments.\<close>

record layout =
  size_event :: nat
  size_value :: nat
  size_timing :: nat
  size_string :: nat
  size_message :: nat

fun json_bytes :: "layout \<Rightarrow> json_alloc \<Rightarrow> nat" where
  "json_bytes l (CString c) = saturating_add (size_value l) c"
| "json_bytes l (CArray c items) =
    saturating_add (size_value l)
      (fold (\<lambda>v n. saturating_add n (json_bytes l v)) items (saturating_mul c (size_value l)))"
| "json_bytes l (CObject members) =
    saturating_add (size_value l)
      (fold (\<lambda>kv n. saturating_add (saturating_add (saturating_add n (fst kv)) (json_bytes l (snd kv))) 64)
        members 0)"
| "json_bytes l COther = saturating_add (size_value l) 0"

definition event_bytes :: "layout \<Rightarrow> event_alloc \<Rightarrow> nat" where
  "event_bytes l e =
    (let size = saturating_add (saturating_add (saturating_add (size_event l) (request_body_cap e))
                  (response_body_cap e)) (saturating_mul (timings_cap e) (size_timing l));
         size = fold (\<lambda>v n. saturating_add n (json_bytes l v)) (json_fields e) size;
         size = fold (\<lambda>t n. saturating_add n t)
                  (required_texts e @ List.map_filter id (optional_texts e)) size;
         size = saturating_add size (saturating_mul (tags_cap e) (size_string l));
         size = fold (\<lambda>t n. saturating_add n t) (tag_caps e) size;
         size = saturating_add size (saturating_mul (messages_cap e) (size_message l))
     in fold (\<lambda>m n. saturating_add (saturating_add n (fst m)) (snd m)) (message_caps e) size)"

lemma fold_saturating:
  "n \<le> u64_max \<Longrightarrow>
    fold (\<lambda>x n. saturating_add n (f x)) xs n = min (n + sum_list (map f xs)) u64_max"
proof (induction xs arbitrary: n)
  case (Cons x xs)
  show ?case using Cons.IH [of "saturating_add n (f x)"]
    by (auto simp: saturating_add_def min_def)
qed simp

text \<open>The exact size, without saturation.\<close>

fun json_size :: "layout \<Rightarrow> json_alloc \<Rightarrow> nat" where
  "json_size l (CString c) = size_value l + c"
| "json_size l (CArray c items) = size_value l + c * size_value l + sum_list (map (json_size l) items)"
| "json_size l (CObject members) =
    size_value l + sum_list (map (\<lambda>kv. fst kv + json_size l (snd kv) + 64) members)"
| "json_size l COther = size_value l"

definition event_size :: "layout \<Rightarrow> event_alloc \<Rightarrow> nat" where
  "event_size l e =
    size_event l + request_body_cap e + response_body_cap e + timings_cap e * size_timing l +
    sum_list (map (json_size l) (json_fields e)) +
    sum_list (required_texts e @ List.map_filter id (optional_texts e)) +
    tags_cap e * size_string l + sum_list (tag_caps e) +
    messages_cap e * size_message l + sum_list (map (\<lambda>m. fst m + snd m) (message_caps e))"

lemma saturating_min [simp]:
  "saturating_add (min a u64_max) (min b u64_max) = min (a + b) u64_max"
  "saturating_add (min a u64_max) b = min (a + b) u64_max"
  "saturating_add a (min b u64_max) = min (a + b) u64_max"
  by (auto simp: saturating_add_def min_def)

lemma fold_saturating_min:
  assumes "\<And>x n. x \<in> set xs \<Longrightarrow> g x (min n u64_max) = min (n + f x) u64_max"
  shows "fold g xs (min n u64_max) = min (n + sum_list (map f xs)) u64_max"
  using assms by (induction xs arbitrary: n) (simp_all add: add.assoc)

lemma json_bytes_exact: "json_bytes l v = min (json_size l v) u64_max"
proof (induction l v rule: json_bytes.induct)
  case (2 l c items)
  have "fold (\<lambda>v n. saturating_add n (json_bytes l v)) items (min (c * size_value l) u64_max)
      = min (c * size_value l + sum_list (map (json_size l) items)) u64_max"
    by (rule fold_saturating_min) (simp add: 2)
  then show ?case by (simp add: saturating_mul_def add.assoc)
next
  case (3 l members)
  have "fold (\<lambda>kv n. saturating_add (saturating_add (saturating_add n (fst kv)) (json_bytes l (snd kv))) 64)
        members (min 0 u64_max)
      = min (0 + sum_list (map (\<lambda>kv. fst kv + json_size l (snd kv) + 64) members)) u64_max"
    by (rule fold_saturating_min) (simp add: 3 add.assoc)
  then show ?case by simp
qed (simp_all add: saturating_add_def)

text \<open>The size charged for a queued event is the exact sum of its allocations,
  capped at the largest machine word: no intermediate saturation loses or
  double-counts a part.\<close>

theorem event_bytes_exact: "event_bytes l e = min (event_size l e) u64_max"
proof -
  let ?add = "\<lambda>t n. saturating_add n t"
  have num: "fold ?add ts (min n u64_max) = min (n + sum_list ts) u64_max" for ts :: "nat list" and n
    using fold_saturating_min [of ts ?add id n] by simp
  have js: "fold (\<lambda>v n. saturating_add n (json_bytes l v)) vs (min n u64_max)
      = min (n + sum_list (map (json_size l) vs)) u64_max" for vs n
    by (rule fold_saturating_min) (simp add: json_bytes_exact)
  have ms: "fold (\<lambda>m n. saturating_add (saturating_add n (fst m)) (snd m)) ps (min n u64_max)
      = min (n + sum_list (map (\<lambda>m. fst m + snd m) ps)) u64_max" for ps :: "(nat \<times> nat) list" and n
    by (rule fold_saturating_min) (simp add: add.assoc)
  have start: "saturating_add (size_event l) (request_body_cap e)
      = min (size_event l + request_body_cap e) u64_max" by (simp add: saturating_add_def)
  show ?thesis
    unfolding event_bytes_def Let_def start saturating_mul_def saturating_min js num ms
    by (simp add: event_size_def add.assoc)
qed

end
