(* ===== verification/LT_Journal.thy ===== *)
theory LT_Journal
  imports LT_Journal_Codec LT_Memory "HOL-Library.Product_Lexorder"
begin

text \<open>
  The capture journal (\<open>trace/journal.rs\<close>): the in-memory catalog, the directory
  of record files, and the operations \<open>open\<close>, \<open>append\<close>, \<open>claim\<close>, \<open>retry\<close>, \<open>read\<close>,
  \<open>acknowledge\<close>, \<open>quarantine\<close> and \<open>snapshot\<close>. The outcome of every file-system
  call is an argument, so each error branch of the code is a branch here; the
  directory is kept twice, as the process sees it and as it was at the last
  \<open>sync_directory\<close>, which is what a power failure may leave.
\<close>

section \<open>State\<close>

record entry =
  e_size :: nat
  e_memory :: nat
  e_created :: nat
  e_due :: nanos
  e_recovered :: bool

record catalog =
  entries :: "(uuid \<times> entry) list"
  ready :: "uuid list"
  cat_bytes :: nat
  quarantined :: nat
  quarantine_bytes :: nat
  quarantine_ids :: "uuid set"

definition catalog_default :: catalog where
  "catalog_default = \<lparr>entries = [], ready = [], cat_bytes = 0, quarantined = 0,
     quarantine_bytes = 0, quarantine_ids = {}\<rparr>"

text \<open>A directory entry: a regular file with its content and modification time, or
  anything else (symbolic link, directory).\<close>

datatype node = Reg bytes nat | Nonreg

type_synonym directory = "(string \<times> node) list"

record journal =
  catalog :: catalog
  dir :: directory
  synced :: directory

text \<open>Configuration and the code outside the repository: UUID text, SHA-256, JSON.\<close>

record jenv =
  uuid_fmt :: "uuid \<Rightarrow> string"
  uuid_parse :: "string \<Rightarrow> uuid option"
  sha256 :: "bytes \<Rightarrow> bytes"
  to_json :: "trace_event \<Rightarrow> bytes option"
  from_json :: "bytes \<Rightarrow> trace_event option"
  max_bytes :: nat
  max_records :: nat
  retry_interval_secs :: nat

definition MAX_SCAN_RECORDS :: nat where
  "MAX_SCAN_RECORDS = 1000000"

definition from_secs :: "nat \<Rightarrow> nanos" where
  "from_secs s = s * 1000000000"

section \<open>Names and file-system primitives\<close>

definition path :: "jenv \<Rightarrow> uuid \<Rightarrow> string" where
  "path env i = uuid_fmt env i @ ''.trace''"

definition partial_path :: "jenv \<Rightarrow> uuid \<Rightarrow> string" where
  "partial_path env i = uuid_fmt env i @ ''.partial''"

definition quarantine_path :: "jenv \<Rightarrow> uuid \<Rightarrow> uuid \<Rightarrow> string" where
  "quarantine_path env i q = uuid_fmt env i @ ''.'' @ uuid_fmt env q @ ''.quarantine''"

definition path_exists :: "directory \<Rightarrow> string \<Rightarrow> bool" where
  "path_exists d n \<longleftrightarrow> map_of d n \<noteq> None"

definition rename :: "string \<Rightarrow> string \<Rightarrow> directory \<Rightarrow> directory" where
  "rename a b d = (case map_of d a of None \<Rightarrow> d | Some f \<Rightarrow> AList.update b f (AList.delete a d))"

definition node_len :: "node option \<Rightarrow> nat" where
  "node_len f = (case f of Some (Reg c _) \<Rightarrow> length c | _ \<Rightarrow> 0)"

definition reject_symlink :: "directory \<Rightarrow> string \<Rightarrow> journal_error + unit" where
  "reject_symlink d n =
    (case map_of d n of None \<Rightarrow> Inr () | Some (Reg _ _) \<Rightarrow> Inr () | Some Nonreg \<Rightarrow> Inl Not_regular_file)"

section \<open>quarantine, acknowledge, retry\<close>

definition remove_entry :: "uuid \<Rightarrow> catalog \<Rightarrow> catalog" where
  "remove_entry i c =
    (case map_of (entries c) i of
       None \<Rightarrow> c
     | Some e \<Rightarrow> c\<lparr>entries := bt_remove i (entries c), cat_bytes := wrapping_sub (cat_bytes c) (e_size e)\<rparr>)"

record quarantine_io =
  q_uuid :: uuid
  q_metadata_ok :: bool
  q_rename_ok :: bool
  q_sync_ok :: bool

definition quarantine_files :: "jenv \<Rightarrow> quarantine_io \<Rightarrow> uuid \<Rightarrow> journal \<Rightarrow> (journal_error + nat) \<times> journal" where
  "quarantine_files env io i j =
    (let destination = quarantine_path env i (q_uuid io);
         source = (if path_exists (dir j) (path env i) then path env i else partial_path env i) in
     if path_exists (dir j) source then
       (if \<not> q_metadata_ok io then (Inl Io_error, j)
        else if \<not> q_rename_ok io then (Inl Io_error, j)
        else (Inr (node_len (map_of (dir j) source)), j\<lparr>dir := rename source destination (dir j)\<rparr>))
     else (Inr 0, j))"

definition quarantine_catalog :: "jenv \<Rightarrow> quarantine_io \<Rightarrow> uuid \<Rightarrow> nat \<Rightarrow> journal \<Rightarrow> journal" where
  "quarantine_catalog env io i size' j =
    (let c = remove_entry i (catalog j) in
     j\<lparr>catalog :=
        (if path_exists (dir j) (quarantine_path env i (q_uuid io))
         then c\<lparr>quarantined := quarantined c + 1,
                quarantine_bytes := wrapping_add (quarantine_bytes c) size',
                quarantine_ids := insert i (quarantine_ids c)\<rparr>
         else c)\<rparr>)"

definition sync_directory :: "journal \<Rightarrow> journal" where
  "sync_directory j = j\<lparr>synced := dir j\<rparr>"

definition quarantine :: "jenv \<Rightarrow> quarantine_io \<Rightarrow> uuid \<Rightarrow> journal \<Rightarrow> (journal_error + unit) \<times> journal" where
  "quarantine env io i j =
    (case quarantine_files env io i j of
       (Inl e, j1) \<Rightarrow> (Inl e, j1)
     | (Inr size', j1) \<Rightarrow>
         if \<not> q_sync_ok io then (Inl Io_error, j1)
         else (Inr (), quarantine_catalog env io i size' (sync_directory j1)))"

record ack_io =
  a_remove_ok :: bool
  a_sync_ok :: bool

text \<open>Removing a file that is not there is \<open>ErrorKind::NotFound\<close>, which is success.\<close>

definition acknowledge_remove :: "jenv \<Rightarrow> ack_io \<Rightarrow> uuid \<Rightarrow> journal \<Rightarrow> (journal_error + unit) \<times> journal" where
  "acknowledge_remove env io i j =
    (if \<not> path_exists (dir j) (path env i) then (Inr (), j)
     else if \<not> a_remove_ok io then (Inl Io_error, j)
     else (Inr (), j\<lparr>dir := AList.delete (path env i) (dir j)\<rparr>))"

definition acknowledge_finish :: "uuid \<Rightarrow> journal \<Rightarrow> journal" where
  "acknowledge_finish i j = (sync_directory j)\<lparr>catalog := remove_entry i (catalog j)\<rparr>"

definition acknowledge :: "jenv \<Rightarrow> ack_io \<Rightarrow> uuid \<Rightarrow> journal \<Rightarrow> (journal_error + unit) \<times> journal" where
  "acknowledge env io i j =
    (case acknowledge_remove env io i j of
       (Inl e, j1) \<Rightarrow> (Inl e, j1)
     | (Inr _, j1) \<Rightarrow>
         if \<not> a_sync_ok io then (Inl Io_error, j1) else (Inr (), acknowledge_finish i j1))"

definition retry_catalog :: "jenv \<Rightarrow> nanos \<Rightarrow> uuid \<Rightarrow> catalog \<Rightarrow> catalog" where
  "retry_catalog env now i c =
    (case map_of (entries c) i of
       None \<Rightarrow> c
     | Some e \<Rightarrow>
         c\<lparr>entries := bt_insert i (e\<lparr>e_due := now + from_secs (retry_interval_secs env)\<rparr>) (entries c),
           ready := ready c @ [i]\<rparr>)"

definition retry :: "jenv \<Rightarrow> nanos \<Rightarrow> uuid \<Rightarrow> journal \<Rightarrow> journal" where
  "retry env now i j = j\<lparr>catalog := retry_catalog env now i (catalog j)\<rparr>"

section \<open>append\<close>

record append_plan =
  p_metadata :: bytes
  p_size :: nat
  p_memory :: nat

text \<open>\<open>charged\<close> is \<open>event_bytes(event)\<close>, a function of allocator capacities.\<close>

definition append_prepare :: "jenv \<Rightarrow> nat \<Rightarrow> trace_event \<Rightarrow> journal_error + append_plan" where
  "append_prepare env charged e =
    bind_res (ok_or (to_json env e) Serialize_failed) (\<lambda>metadata.
    bind_res (ensure (length metadata \<le> MAX_METADATA_BYTES) Metadata_too_large) (\<lambda>_.
    let request = length (te_request_body e); response = length (te_response_body e) in
    Inr \<lparr>p_metadata = metadata,
         p_size = HEADER_BYTES + length metadata + request + response,
         p_memory = max charged
           (saturating_add (saturating_add (saturating_add request response)
              (saturating_mul (length metadata) 8)) 65536)\<rparr>))"

record clock =
  c_system :: nat
  c_instant :: nanos

definition append_admit :: "jenv \<Rightarrow> clock \<Rightarrow> uuid \<Rightarrow> append_plan \<Rightarrow> catalog \<Rightarrow> journal_error + catalog" where
  "append_admit env now i p c =
    bind_res (ensure (map_of (entries c) i = None) Duplicate_id) (\<lambda>_.
    if max_bytes env < saturating_add (saturating_add (cat_bytes c) (quarantine_bytes c)) (p_size p)
       \<or> max_records env \<le> saturating_add (length (entries c)) (quarantined c)
    then Inl Full
    else Inr (c\<lparr>cat_bytes := wrapping_add (cat_bytes c) (p_size p),
                entries := bt_insert i \<lparr>e_size = p_size p, e_memory = p_memory p,
                  e_created = c_system now, e_due = c_instant now, e_recovered = False\<rparr> (entries c)\<rparr>))"

text \<open>\<open>s_written\<close>: None when every \<open>write_all\<close> succeeds, otherwise the number of
  bytes in the file when one failed.\<close>

record store_io =
  s_create_ok :: bool
  s_written :: "nat option"
  s_sync_ok :: bool
  s_rename_ok :: bool
  s_dirsync_ok :: bool
  s_mtime :: nat

definition record_bytes :: "jenv \<Rightarrow> trace_event \<Rightarrow> append_plan \<Rightarrow> bytes" where
  "record_bytes env e p =
    encode_record (sha256 env) (p_metadata p) (te_request_body e) (te_response_body e) (p_memory p)"

definition append_write ::
  "jenv \<Rightarrow> store_io \<Rightarrow> trace_event \<Rightarrow> append_plan \<Rightarrow> journal \<Rightarrow> (journal_error + unit) \<times> journal" where
  "append_write env io e p j =
    (let temporary = partial_path env (te_id e);
         full = record_bytes env e p;
         put = (\<lambda>c. j\<lparr>dir := AList.update temporary (Reg c (s_mtime io)) (dir j)\<rparr>) in
     if path_exists (dir j) temporary \<or> \<not> s_create_ok io then (Inl Io_error, j)
     else case s_written io of
       Some k \<Rightarrow> (Inl Io_error, put (take k full))
     | None \<Rightarrow> if \<not> s_sync_ok io then (Inl Io_error, put full) else (Inr (), put full))"

definition append_rename ::
  "jenv \<Rightarrow> store_io \<Rightarrow> uuid \<Rightarrow> journal \<Rightarrow> (journal_error + unit) \<times> journal" where
  "append_rename env io i j =
    (if path_exists (dir j) (path env i) then (Inl Destination_exists, j)
     else if \<not> s_rename_ok io then (Inl Io_error, j)
     else (Inr (), j\<lparr>dir := rename (partial_path env i) (path env i) (dir j)\<rparr>))"

definition append_sync :: "store_io \<Rightarrow> journal \<Rightarrow> (journal_error + unit) \<times> journal" where
  "append_sync io j = (if s_dirsync_ok io then (Inr (), sync_directory j) else (Inl Io_error, j))"

definition append_store ::
  "jenv \<Rightarrow> store_io \<Rightarrow> trace_event \<Rightarrow> append_plan \<Rightarrow> journal \<Rightarrow> (journal_error + unit) \<times> journal" where
  "append_store env io e p j =
    (case append_write env io e p j of
       (Inl err, j1) \<Rightarrow> (Inl err, j1)
     | (Inr _, j1) \<Rightarrow>
       (case append_rename env io (te_id e) j1 of
          (Inl err, j2) \<Rightarrow> (Inl err, j2)
        | (Inr _, j2) \<Rightarrow> append_sync io j2))"

definition append_publish :: "uuid \<Rightarrow> journal \<Rightarrow> journal" where
  "append_publish i j = j\<lparr>catalog := (catalog j)\<lparr>ready := ready (catalog j) @ [i]\<rparr>\<rparr>"

definition append_journal ::
  "jenv \<Rightarrow> clock \<Rightarrow> nat \<Rightarrow> store_io \<Rightarrow> quarantine_io \<Rightarrow> trace_event \<Rightarrow> journal
    \<Rightarrow> (journal_error + unit) \<times> journal" where
  "append_journal env now charged io qio e j =
    (case append_prepare env charged e of
       Inl err \<Rightarrow> (Inl err, j)
     | Inr p \<Rightarrow>
       (case append_admit env now (te_id e) p (catalog j) of
          Inl err \<Rightarrow> (Inl err, j)
        | Inr c \<Rightarrow>
          (case append_store env io e p (j\<lparr>catalog := c\<rparr>) of
             (Inl err, j1) \<Rightarrow>
               (case quarantine env qio (te_id e) j1 of
                  (Inl qerr, j2) \<Rightarrow> (Inl qerr, j2)
                | (Inr _, j2) \<Rightarrow> (Inl err, j2))
           | (Inr _, j1) \<Rightarrow> (Inr (), append_publish (te_id e) j1))))"

section \<open>claim, read, receipts, snapshot\<close>

record claimed =
  cl_id :: uuid
  cl_recovered :: bool
  cl_bytes :: "64 word"

fun claim_loop :: "nat \<Rightarrow> nanos \<Rightarrow> memory_budget \<Rightarrow> catalog \<Rightarrow> (claimed \<times> memory_budget) option \<times> catalog" where
  "claim_loop 0 now mem c = (None, c)"
| "claim_loop (Suc n) now mem c =
    (case ready c of
       [] \<Rightarrow> (None, c)
     | i # rest \<Rightarrow>
       let c1 = c\<lparr>ready := rest\<rparr> in
       (case map_of (entries c1) i of
          None \<Rightarrow> (None, c1)
        | Some e \<Rightarrow>
          (case (if e_due e \<le> now then mb_reserve mem (of_nat (e_memory e)) else None) of
             Some mem' \<Rightarrow>
               (Some (\<lparr>cl_id = i, cl_recovered = e_recovered e, cl_bytes = of_nat (e_memory e)\<rparr>, mem'), c1)
           | None \<Rightarrow> claim_loop n now mem (c1\<lparr>ready := rest @ [i]\<rparr>))))"

definition claim :: "nanos \<Rightarrow> memory_budget \<Rightarrow> journal \<Rightarrow> (claimed \<times> memory_budget) option \<times> journal" where
  "claim now mem j =
    (case claim_loop (length (ready (catalog j))) now mem (catalog j) of
       (r, c) \<Rightarrow> (r, j\<lparr>catalog := c\<rparr>))"

definition read_journal :: "jenv \<Rightarrow> bool \<Rightarrow> uuid \<Rightarrow> journal \<Rightarrow> journal_error + trace_event" where
  "read_journal env open_ok i j =
    bind_res (reject_symlink (dir j) (path env i)) (\<lambda>_.
      case map_of (dir j) (path env i) of
        Some (Reg c _) \<Rightarrow> if open_ok then decode_record (sha256 env) (from_json env) i c else Inl Io_error
      | _ \<Rightarrow> Inl Io_error)"

definition receipt_can_be_removed :: "uuid \<Rightarrow> catalog \<Rightarrow> bool" where
  "receipt_can_be_removed i c \<longleftrightarrow> map_of (entries c) i = None \<and> i \<notin> quarantine_ids c"

record journal_snapshot =
  js_enabled :: bool
  js_pending_records :: nat
  js_pending_bytes :: nat
  js_max_bytes :: nat
  js_max_records :: nat
  js_quarantined_records :: nat
  js_quarantined_bytes :: nat
  js_oldest_pending_age_secs :: nat
  js_blocked_records :: nat

text \<open>\<open>SystemTime::elapsed\<close> fails for a time in the future; times are nanoseconds.\<close>

definition snapshot :: "jenv \<Rightarrow> nat \<Rightarrow> nat \<Rightarrow> catalog \<Rightarrow> journal_snapshot" where
  "snapshot env now memory_limit c =
    (let ages = map (\<lambda>p. now - e_created (snd p)) (filter (\<lambda>p. e_created (snd p) \<le> now) (entries c)) in
     \<lparr>js_enabled = True, js_pending_records = length (entries c), js_pending_bytes = cat_bytes c,
      js_max_bytes = max_bytes env, js_max_records = max_records env,
      js_quarantined_records = quarantined c, js_quarantined_bytes = quarantine_bytes c,
      js_oldest_pending_age_secs = fold max ages 0 div 1000000000,
      js_blocked_records = length (filter (\<lambda>p. memory_limit < e_memory (snd p)) (entries c))\<rparr>)"

section \<open>open: recovery of the catalog from the directory\<close>

definition reserved_names :: "string list" where
  "reserved_names = [''lock'', ''manifest.json'', ''manifest.partial'']"

text \<open>A file is adopted when its name is a record name and its header is valid.\<close>

definition adoptable :: "jenv \<Rightarrow> string \<Rightarrow> bytes \<Rightarrow> (uuid \<times> nat) option" where
  "adoptable env name c =
    (case Option.bind (strip_suffix ''.trace'' name) (uuid_parse env) of
       None \<Rightarrow> None
     | Some i \<Rightarrow> (case read_header c (length c) of Inl _ \<Rightarrow> None | Inr h \<Rightarrow> Some (i, h_memory h)))"

definition quarantine_owner :: "jenv \<Rightarrow> string \<Rightarrow> uuid option" where
  "quarantine_owner env name = uuid_parse env (hd (split_on (CHR ''.'') name))"

definition rescue_name :: "jenv \<Rightarrow> uuid \<Rightarrow> string \<Rightarrow> string" where
  "rescue_name env q name = name @ ''.'' @ uuid_fmt env q @ ''.quarantine''"

text \<open>\<open>scan_ok\<close> tells for which files the metadata, open and rename calls succeed;
  \<open>fresh\<close> is the UUID drawn for a renamed file.\<close>

definition open_entry ::
  "jenv \<Rightarrow> (string \<Rightarrow> bool) \<Rightarrow> nanos \<Rightarrow> (string \<Rightarrow> uuid) \<Rightarrow> string \<times> node \<Rightarrow> catalog \<times> directory
    \<Rightarrow> journal_error + (catalog \<times> directory)" where
  "open_entry env scan_ok now fresh f s =
    (case (f, s) of ((name, nd), (c, d)) \<Rightarrow>
      if name \<in> set reserved_names then Inr (c, d)
      else if \<not> scan_ok name then Inl Io_error
      else case nd of
        Nonreg \<Rightarrow> Inl Unexpected_non_file
      | Reg content mtime \<Rightarrow>
        if \<not> length (entries c) + quarantined c < MAX_SCAN_RECORDS then Inl Too_many_files
        else case adoptable env name content of
          Some (i, memory) \<Rightarrow>
            Inr (c\<lparr>entries := bt_insert i \<lparr>e_size = length content, e_memory = memory,
                      e_created = mtime, e_due = now, e_recovered = True\<rparr> (entries c),
                   cat_bytes := saturating_add (cat_bytes c) (length content)\<rparr>, d)
        | None \<Rightarrow>
            Inr (c\<lparr>quarantined := quarantined c + 1,
                   quarantine_bytes := saturating_add (quarantine_bytes c) (length content),
                   quarantine_ids := (case quarantine_owner env name of
                      None \<Rightarrow> quarantine_ids c | Some i \<Rightarrow> insert i (quarantine_ids c))\<rparr>,
                 if ends_with name ''.quarantine'' then d
                 else rename name (rescue_name env (fresh name) name) d))"

fun open_scan ::
  "jenv \<Rightarrow> (string \<Rightarrow> bool) \<Rightarrow> nanos \<Rightarrow> (string \<Rightarrow> uuid) \<Rightarrow> (string \<times> node) list
    \<Rightarrow> catalog \<times> directory \<Rightarrow> journal_error + (catalog \<times> directory)" where
  "open_scan env scan_ok now fresh [] s = Inr s"
| "open_scan env scan_ok now fresh (f # fs) s =
    bind_res (open_entry env scan_ok now fresh f s) (\<lambda>s'. open_scan env scan_ok now fresh fs s')"

definition open_catalog ::
  "jenv \<Rightarrow> (string \<Rightarrow> bool) \<Rightarrow> nanos \<Rightarrow> (string \<Rightarrow> uuid) \<Rightarrow> directory \<Rightarrow> journal_error + journal" where
  "open_catalog env scan_ok now fresh d =
    bind_res (open_scan env scan_ok now fresh d (catalog_default, d)) (\<lambda>(c, d').
      let ordered = sort (map (\<lambda>p. (e_created (snd p), fst p)) (entries c)) in
      Inr \<lparr>catalog = c\<lparr>ready := map snd ordered\<rparr>, dir = d', synced = d'\<rparr>)"

text \<open>The manifest ties the directory to one database and one receipt namespace.\<close>

record manifest =
  m_version :: nat
  m_id :: uuid
  m_database :: string

record manifest_codec =
  manifest_read :: "bytes \<Rightarrow> manifest option"
  manifest_write :: "manifest \<Rightarrow> bytes"

definition open_manifest ::
  "manifest_codec \<Rightarrow> uuid \<Rightarrow> nat \<Rightarrow> string \<Rightarrow> directory \<Rightarrow> journal_error + (uuid \<times> directory)" where
  "open_manifest mc new_id mtime database d =
    bind_res (reject_symlink d ''manifest.json'') (\<lambda>_.
    case map_of d ''manifest.json'' of
      Some (Reg c _) \<Rightarrow>
        bind_res (ensure (length c \<le> 4096) Invalid_manifest) (\<lambda>_.
        bind_res (ok_or (manifest_read mc c) Invalid_manifest) (\<lambda>m.
        bind_res (ensure (m_version m = 1 \<and> m_database m = database) Wrong_database) (\<lambda>_.
        Inr (m_id m, d))))
    | Some Nonreg \<Rightarrow> Inl Not_regular_file
    | None \<Rightarrow>
        bind_res (ensure (list_all (\<lambda>f. fst f = ''lock'' \<or> fst f = ''manifest.partial'') d) Manifest_missing) (\<lambda>_.
        bind_res (reject_symlink d ''manifest.partial'') (\<lambda>_.
        Inr (new_id,
          AList.update ''manifest.json''
            (Reg (manifest_write mc \<lparr>m_version = 1, m_id = new_id, m_database = database\<rparr>) mtime)
            (AList.delete ''manifest.partial'' d)))))"

definition open_journal ::
  "jenv \<Rightarrow> manifest_codec \<Rightarrow> uuid \<Rightarrow> string \<Rightarrow> (string \<Rightarrow> bool) \<Rightarrow> clock \<Rightarrow> (string \<Rightarrow> uuid)
    \<Rightarrow> directory \<Rightarrow> journal_error + (uuid \<times> journal)" where
  "open_journal env mc new_id database scan_ok now fresh d =
    bind_res (reject_symlink d ''lock'') (\<lambda>_.
    bind_res (open_manifest mc new_id (c_system now) database d) (\<lambda>(i, d1).
    bind_res (open_catalog env scan_ok (c_instant now) fresh d1) (\<lambda>j. Inr (i, j))))"

section \<open>The catalog invariant\<close>

abbreviation pending :: "catalog \<Rightarrow> uuid set" where
  "pending c \<equiv> fst ` set (entries c)"

definition catalog_inv :: "catalog \<Rightarrow> bool" where
  "catalog_inv c \<longleftrightarrow>
    bt_wf (entries c) \<and>
    cat_bytes c = sum_list (map (\<lambda>p. e_size (snd p)) (entries c)) \<and>
    cat_bytes c \<le> u64_max \<and>
    distinct (ready c) \<and> set (ready c) \<subseteq> pending c"

text \<open>The limits of a validated configuration (\<open>Config::validate\<close>).\<close>

definition env_ok :: "jenv \<Rightarrow> bool" where
  "env_ok env \<longleftrightarrow> max_bytes env \<le> 1024 * 1024 * 1024 * 1024 \<and> max_records env \<le> 1000000"

lemma catalog_inv_default: "catalog_inv catalog_default"
  by (simp add: catalog_inv_def catalog_default_def)

lemma catalog_inv_wf: "catalog_inv c \<Longrightarrow> bt_wf (entries c)"
  by (simp add: catalog_inv_def)

lemma pending_lookup: "i \<in> pending c \<longleftrightarrow> map_of (entries c) i \<noteq> None"
  by (simp add: map_of_eq_None_iff)

lemma remove_entry_none: "map_of (entries c) i = None \<Longrightarrow> remove_entry i c = c"
  by (simp add: remove_entry_def)

lemma remove_entry_simps [simp]:
  "ready (remove_entry i c) = ready c"
  "quarantined (remove_entry i c) = quarantined c"
  "quarantine_bytes (remove_entry i c) = quarantine_bytes c"
  "quarantine_ids (remove_entry i c) = quarantine_ids c"
  by (simp_all add: remove_entry_def split: option.splits)

lemma remove_entry_entries:
  "bt_wf (entries c) \<Longrightarrow> map_of (entries (remove_entry i c)) = (map_of (entries c))(i := None)"
  by (auto simp: remove_entry_def bt.lookup_del fun_eq_iff split: option.splits)

lemma remove_entry_pending:
  "bt_wf (entries c) \<Longrightarrow> pending (remove_entry i c) = pending c - {i}"
  using bt.keys_del [of "entries c" i]
  by (auto simp: remove_entry_def pending_lookup split: option.splits)

lemma remove_entry_bytes:
  assumes "catalog_inv c"
  shows "cat_bytes (remove_entry i c) =
    cat_bytes c - (case map_of (entries c) i of None \<Rightarrow> 0 | Some e \<Rightarrow> e_size e)"
  using assms bt.sum_del [of "entries c" i _ e_size]
  by (auto simp: remove_entry_def catalog_inv_def split: option.splits)

lemma remove_entry_inv:
  assumes inv: "catalog_inv c" and "i \<notin> set (ready c)"
  shows "catalog_inv (remove_entry i c)"
proof (cases "map_of (entries c) i")
  case None
  then show ?thesis using inv by (simp add: remove_entry_none)
next
  case (Some e)
  have wf: "bt_wf (entries c)" using inv by (rule catalog_inv_wf)
  have "cat_bytes c = sum_list (map (\<lambda>p. e_size (snd p)) (bt_remove i (entries c))) + e_size e"
    using inv bt.sum_del [OF wf Some, of e_size] by (simp add: catalog_inv_def)
  moreover have "set (ready c) \<subseteq> fst ` set (bt_remove i (entries c))"
    using inv assms(2) by (auto simp: bt.keys_del [OF wf] catalog_inv_def)
  ultimately show ?thesis
    using inv wf by (auto simp: catalog_inv_def remove_entry_def Some)
qed

lemma append_admit_Inr:
  assumes "append_admit env now i p c = Inr c'"
  shows "i \<notin> pending c"
    and "c' = c\<lparr>cat_bytes := wrapping_add (cat_bytes c) (p_size p),
           entries := bt_insert i \<lparr>e_size = p_size p, e_memory = p_memory p,
             e_created = c_system now, e_due = c_instant now, e_recovered = False\<rparr> (entries c)\<rparr>"
    and "saturating_add (saturating_add (cat_bytes c) (quarantine_bytes c)) (p_size p) \<le> max_bytes env"
    and "saturating_add (length (entries c)) (quarantined c) < max_records env"
  using assms
  by (auto simp: append_admit_def pending_lookup split: if_splits)

lemma append_admit_fits:
  assumes "append_admit env now i p c = Inr c'" and "env_ok env"
  shows "cat_bytes c + quarantine_bytes c + p_size p \<le> max_bytes env"
    and "cat_bytes c + quarantine_bytes c + p_size p \<le> u64_max"
    and "length (entries c) + quarantined c < max_records env"
proof -
  have m: "max_bytes env < u64_max" "max_records env < u64_max"
    using assms(2) by (simp_all add: env_ok_def u64_max_def)
  have a: "saturating_add (cat_bytes c) (quarantine_bytes c) + p_size p \<le> max_bytes env"
    using append_admit_Inr(3) [OF assms(1)] m(1) by (rule saturating_add_below)
  then have "saturating_add (cat_bytes c) (quarantine_bytes c) \<le> max_bytes env" by simp
  then have "cat_bytes c + quarantine_bytes c \<le> max_bytes env"
    using m(1) by (rule saturating_add_below)
  with a m show "cat_bytes c + quarantine_bytes c + p_size p \<le> max_bytes env"
    by (simp add: saturating_add_def)
  with m show "cat_bytes c + quarantine_bytes c + p_size p \<le> u64_max" by simp
  show "length (entries c) + quarantined c < max_records env"
    using append_admit_Inr(4) [OF assms(1)] m(2) by (auto simp: saturating_add_def min_def split: if_splits)
qed

lemma append_admit_inv:
  assumes inv: "catalog_inv c" and adm: "append_admit env now i p c = Inr c'" and "env_ok env"
  shows "catalog_inv c'" and "pending c' = insert i (pending c)" and "ready c' = ready c"
    and "cat_bytes c' = cat_bytes c + p_size p" and "quarantine_bytes c' = quarantine_bytes c"
    and "quarantined c' = quarantined c" and "quarantine_ids c' = quarantine_ids c"
    and "length (entries c') = Suc (length (entries c))"
proof -
  note c' = append_admit_Inr(2) [OF adm] and new = append_admit_Inr(1) [OF adm]
  have wf: "bt_wf (entries c)" using inv by (rule catalog_inv_wf)
  have fits: "cat_bytes c + p_size p \<le> u64_max" using append_admit_fits(2) [OF adm assms(3)] by simp
  show b: "cat_bytes c' = cat_bytes c + p_size p" using fits by (simp add: c')
  show k: "pending c' = insert i (pending c)" by (simp add: c' bt_insert_set)
  show "ready c' = ready c" "quarantine_bytes c' = quarantine_bytes c"
    "quarantined c' = quarantined c" "quarantine_ids c' = quarantine_ids c" by (simp_all add: c')
  show "length (entries c') = Suc (length (entries c))" using new by (simp add: c' bt.length_ins [OF wf])
  have "cat_bytes c' = sum_list (map (\<lambda>p. e_size (snd p)) (entries c'))"
    using inv bt.sum_ins_new [OF wf new, of e_size] b by (simp add: c' catalog_inv_def)
  then show "catalog_inv c'"
    using inv b k fits bt_insert_wf [OF wf] by (auto simp: catalog_inv_def c')
qed

lemma retry_catalog_inv:
  assumes inv: "catalog_inv c" and "i \<notin> set (ready c)"
  shows "catalog_inv (retry_catalog env now i c)"
    and "pending (retry_catalog env now i c) = pending c"
    and "set (ready (retry_catalog env now i c)) = (if i \<in> pending c then insert i (set (ready c)) else set (ready c))"
proof -
  have wf: "bt_wf (entries c)" using inv by (rule catalog_inv_wf)
  show k: "pending (retry_catalog env now i c) = pending c"
    by (auto simp: retry_catalog_def bt_insert_set pending_lookup split: option.splits)
  show r: "set (ready (retry_catalog env now i c)) = (if i \<in> pending c then insert i (set (ready c)) else set (ready c))"
    by (auto simp: retry_catalog_def pending_lookup split: option.splits)
  show "catalog_inv (retry_catalog env now i c)"
  proof (cases "map_of (entries c) i")
    case None then show ?thesis using inv by (simp add: retry_catalog_def)
  next
    case (Some e)
    let ?v = "e\<lparr>e_due := now + from_secs (retry_interval_secs env)\<rparr>"
    have "sum_list (map (\<lambda>p. e_size (snd p)) (bt_insert i ?v (entries c)))
        = sum_list (map (\<lambda>p. e_size (snd p)) (entries c))"
      using bt.sum_ins [OF wf, of e_size i ?v] bt.sum_del [OF wf Some, of e_size] by simp
    then show ?thesis
      using inv assms(2) k r bt_insert_wf [OF wf] Some
      by (auto simp: catalog_inv_def retry_catalog_def pending_lookup)
  qed
qed

section \<open>claim\<close>

definition claimable :: "nanos \<Rightarrow> memory_budget \<Rightarrow> catalog \<Rightarrow> uuid \<Rightarrow> bool" where
  "claimable now mem c i =
    (case map_of (entries c) i of
       None \<Rightarrow> False
     | Some e \<Rightarrow> e_due e \<le> now \<and> mb_reserve mem (of_nat (e_memory e)) \<noteq> None)"

text \<open>A claim only takes its record out of the ready queue.\<close>

definition claim_result :: "nanos \<Rightarrow> memory_budget \<Rightarrow> catalog \<Rightarrow> claimed \<Rightarrow> memory_budget \<Rightarrow> catalog \<Rightarrow> bool" where
  "claim_result now mem c cl mem' c' \<longleftrightarrow>
    (case map_of (entries c) (cl_id cl) of
       None \<Rightarrow> False
     | Some e \<Rightarrow> e_due e \<le> now \<and> mb_reserve mem (of_nat (e_memory e)) = Some mem' \<and>
         cl_recovered cl = e_recovered e \<and> cl_bytes cl = of_nat (e_memory e)) \<and>
    cl_id cl \<in> set (ready c) \<and> set (ready c') = set (ready c) - {cl_id cl}"

lemma catalog_inv_ready:
  "catalog_inv c \<Longrightarrow> distinct xs \<Longrightarrow> set xs \<subseteq> set (ready c) \<Longrightarrow> catalog_inv (c\<lparr>ready := xs\<rparr>)"
  by (auto simp: catalog_inv_def)

lemma claim_loop_head:
  assumes "catalog_inv c" and "ready c = i # rest" and "\<not> claimable now mem c i"
  shows "claim_loop (Suc n) now mem c = claim_loop n now mem (c\<lparr>ready := rest @ [i]\<rparr>)"
proof -
  have "i \<in> pending c" using assms(1,2) by (auto simp: catalog_inv_def)
  then obtain e where "map_of (entries c) i = Some e" by (auto simp: pending_lookup)
  with assms(2,3) show ?thesis by (auto simp: claimable_def)
qed

lemma claim_loop_take:
  assumes "ready c = i # rest" and "claimable now mem c i"
  obtains cl mem' where "claim_loop (Suc n) now mem c = (Some (cl, mem'), c\<lparr>ready := rest\<rparr>)"
    and "cl_id cl = i"
    and "case map_of (entries c) (cl_id cl) of
       None \<Rightarrow> False
     | Some e \<Rightarrow> e_due e \<le> now \<and> mb_reserve mem (of_nat (e_memory e)) = Some mem' \<and>
         cl_recovered cl = e_recovered e \<and> cl_bytes cl = of_nat (e_memory e)"
proof -
  obtain e mem' where e: "map_of (entries c) i = Some e" "e_due e \<le> now"
      "mb_reserve mem (of_nat (e_memory e)) = Some mem'"
    using assms(2) by (auto simp: claimable_def split: option.splits)
  show thesis
    by (rule that [of "\<lparr>cl_id = i, cl_recovered = e_recovered e, cl_bytes = of_nat (e_memory e)\<rparr>" mem'])
       (use assms(1) e in simp_all)
qed

lemma claim_loop_spec:
  assumes "catalog_inv c" and "n \<le> length (ready c)" and "claim_loop n now mem c = (r, c')"
  shows "catalog_inv c' \<and> (\<exists>xs. c' = c\<lparr>ready := xs\<rparr>) \<and>
    (case r of
       None \<Rightarrow> set (ready c') = set (ready c) \<and> (\<forall>i \<in> set (take n (ready c)). \<not> claimable now mem c i)
     | Some (cl, mem') \<Rightarrow> claim_result now mem c cl mem' c')"
  using assms
proof (induction n arbitrary: c)
  case 0
  then show ?case by (auto intro: exI [of _ "ready c"])
next
  case (Suc n)
  then obtain i rest where q: "ready c = i # rest" by (cases "ready c") auto
  have dist: "i \<notin> set rest" "distinct rest" using Suc.prems(1) q by (auto simp: catalog_inv_def)
  show ?case
  proof (cases "claimable now mem c i")
    case True
    obtain cl mem' where step: "claim_loop (Suc n) now mem c = (Some (cl, mem'), c\<lparr>ready := rest\<rparr>)"
      and cl: "cl_id cl = i" "case map_of (entries c) (cl_id cl) of
       None \<Rightarrow> False
     | Some e \<Rightarrow> e_due e \<le> now \<and> mb_reserve mem (of_nat (e_memory e)) = Some mem' \<and>
         cl_recovered cl = e_recovered e \<and> cl_bytes cl = of_nat (e_memory e)"
      using claim_loop_take [OF q True] by blast
    have "r = Some (cl, mem')" "c' = c\<lparr>ready := rest\<rparr>" using Suc.prems(3) step by simp_all
    moreover have "catalog_inv (c\<lparr>ready := rest\<rparr>)"
      using Suc.prems(1) dist q by (intro catalog_inv_ready) auto
    ultimately show ?thesis using cl q dist by (auto simp: claim_result_def)
  next
    case False
    let ?c = "c\<lparr>ready := rest @ [i]\<rparr>"
    have inv: "catalog_inv ?c" using Suc.prems(1) dist q by (intro catalog_inv_ready) auto
    have loop: "claim_loop n now mem ?c = (r, c')"
      using Suc.prems(3) claim_loop_head [OF Suc.prems(1) q False] by simp
    have n: "n \<le> length rest" using Suc.prems(2) q by simp
    have "claimable now mem ?c = claimable now mem c" by (simp add: claimable_def fun_eq_iff)
    then show ?thesis
      using Suc.IH [OF inv _ loop] n False q
      by (auto simp: claim_result_def split: option.splits prod.splits)
  qed
qed

lemma claim_spec:
  assumes "catalog_inv (catalog j)" and "claim now mem j = (r, j')"
  shows "catalog_inv (catalog j')" and "\<exists>xs. j' = j\<lparr>catalog := (catalog j)\<lparr>ready := xs\<rparr>\<rparr>"
    and "r = None \<Longrightarrow> set (ready (catalog j')) = set (ready (catalog j))"
    and "r = None \<Longrightarrow> i \<in> set (ready (catalog j)) \<Longrightarrow> \<not> claimable now mem (catalog j) i"
    and "r = Some (cl, mem') \<Longrightarrow> claim_result now mem (catalog j) cl mem' (catalog j')"
proof -
  obtain c' where loop: "claim_loop (length (ready (catalog j))) now mem (catalog j) = (r, c')"
    and j': "j' = j\<lparr>catalog := c'\<rparr>"
    using assms(2) by (auto simp: claim_def split: prod.splits)
  note spec = claim_loop_spec [OF assms(1) order_refl loop]
  from spec j' show "catalog_inv (catalog j')" by simp
  from spec j' show "\<exists>xs. j' = j\<lparr>catalog := (catalog j)\<lparr>ready := xs\<rparr>\<rparr>" by auto
  from spec j' show "r = None \<Longrightarrow> set (ready (catalog j')) = set (ready (catalog j))" by simp
  from spec show "r = None \<Longrightarrow> i \<in> set (ready (catalog j)) \<Longrightarrow> \<not> claimable now mem (catalog j) i" by simp
  from spec j' show "r = Some (cl, mem') \<Longrightarrow> claim_result now mem (catalog j) cl mem' (catalog j')" by simp
qed

section \<open>File names\<close>

text \<open>What the code relies on of the uuid crate: the canonical text parses back and
  has no dot.\<close>

definition uuid_text_ok :: "jenv \<Rightarrow> bool" where
  "uuid_text_ok env \<longleftrightarrow>
    (\<forall>i. uuid_parse env (uuid_fmt env i) = Some i) \<and> (\<forall>i. CHR ''.'' \<notin> set (uuid_fmt env i))"

lemma uuid_fmt_inj: "uuid_text_ok env \<Longrightarrow> uuid_fmt env a = uuid_fmt env b \<Longrightarrow> a = b"
  by (metis option.inject uuid_text_ok_def)

lemma append_suffix_neq: "last b \<noteq> last d \<Longrightarrow> b \<noteq> [] \<Longrightarrow> d \<noteq> [] \<Longrightarrow> a @ b \<noteq> c @ d"
  by (metis last_appendR)

lemma path_inj: "uuid_text_ok env \<Longrightarrow> path env a = path env b \<longleftrightarrow> a = b"
  by (auto simp: path_def dest: uuid_fmt_inj)

lemma partial_path_inj: "uuid_text_ok env \<Longrightarrow> partial_path env a = partial_path env b \<longleftrightarrow> a = b"
  by (auto simp: partial_path_def dest: uuid_fmt_inj)

lemma ends_with_append: "ends_with (a @ b) b"
  by (simp add: ends_with_def suffix_def)

lemma suffix_append_iff: "length t = length b \<Longrightarrow> suffix t (a @ b) \<longleftrightarrow> t = b"
  by (metis append_eq_append_conv suffix_def)

lemma suffix_last: "suffix t s \<Longrightarrow> t \<noteq> [] \<Longrightarrow> last s = last t"
  by (auto simp: suffix_def)

lemma last_paths [simp]:
  "last (path env i) = CHR ''e''" "last (partial_path env i) = CHR ''l''"
  "last (quarantine_path env i q) = CHR ''e''"
  by (simp_all add: path_def partial_path_def quarantine_path_def)

lemma path_not_quarantine: "\<not> ends_with (path env i) ''.quarantine''"
proof
  assume "ends_with (path env i) ''.quarantine''"
  then obtain x where "uuid_fmt env i @ ''.trace'' = x @ ''.quarantine''"
    by (auto simp: ends_with_def path_def suffix_def)
  then have "rev (uuid_fmt env i @ ''.trace'') = rev (x @ ''.quarantine'')" by simp
  then show False by simp
qed

lemma quarantine_path_ends [simp]: "ends_with (quarantine_path env i q) ''.quarantine''"
  by (simp add: ends_with_def quarantine_path_def suffix_def)

lemma names_distinct [simp]:
  "path env a \<noteq> partial_path env b" "partial_path env b \<noteq> path env a"
  "path env a \<noteq> quarantine_path env b q" "quarantine_path env b q \<noteq> path env a"
  "partial_path env a \<noteq> quarantine_path env b q" "quarantine_path env b q \<noteq> partial_path env a"
proof -
  show a: "path env a \<noteq> partial_path env b"
  proof -
    have "last (path env a) \<noteq> last (partial_path env b)" by simp
    then show ?thesis by metis
  qed
  show b: "path env a \<noteq> quarantine_path env b q"
    using path_not_quarantine quarantine_path_ends by metis
  show c: "partial_path env a \<noteq> quarantine_path env b q"
  proof -
    have "last (partial_path env a) \<noteq> last (quarantine_path env b q)" by simp
    then show ?thesis by metis
  qed
  show "partial_path env b \<noteq> path env a" using a by simp
  show "quarantine_path env b q \<noteq> path env a" using b by simp
  show "quarantine_path env b q \<noteq> partial_path env a" using c by simp
qed

lemma strip_path: "strip_suffix ''.trace'' (path env i) = Some (uuid_fmt env i)"
  by (simp add: strip_suffix_def path_def suffix_def)

section \<open>Directories\<close>

lemma rename_lookup:
  "map_of (rename a b d) = (case map_of d a of None \<Rightarrow> map_of d | Some f \<Rightarrow> (map_of d)(a := None, b := Some f))"
  by (simp add: rename_def update_conv' delete_conv' split: option.splits)

lemma rename_other: "n \<noteq> a \<Longrightarrow> n \<noteq> b \<Longrightarrow> map_of (rename a b d) n = map_of d n"
  by (simp add: rename_lookup split: option.splits)

lemma rename_wf [intro]: "hm_wf d \<Longrightarrow> hm_wf (rename a b d)"
  by (auto simp: rename_def split: option.splits intro: hm.wf_ins hm.wf_del)

lemma sync_directory_simps [simp]:
  "catalog (sync_directory j) = catalog j" "dir (sync_directory j) = dir j"
  "synced (sync_directory j) = dir j"
  by (simp_all add: sync_directory_def)

section \<open>Effects of the file operations\<close>

lemma append_write_frame:
  "append_write env io e p j = (r, j') \<Longrightarrow>
    catalog j' = catalog j \<and> synced j' = synced j \<and>
    (\<forall>n. n \<noteq> partial_path env (te_id e) \<longrightarrow> map_of (dir j') n = map_of (dir j) n) \<and>
    (map_of (dir j') (partial_path env (te_id e)) = map_of (dir j) (partial_path env (te_id e)) \<or>
     map_of (dir j) (partial_path env (te_id e)) = None \<and>
     (\<exists>k. map_of (dir j') (partial_path env (te_id e)) = Some (Reg (take k (record_bytes env e p)) (s_mtime io))))"
  by (auto simp: append_write_def Let_def update_conv' path_exists_def
      intro: exI [of _ "length (record_bytes env e p)"] split: if_splits option.splits)

lemma append_write_ok:
  "append_write env io e p j = (Inr u, j') \<Longrightarrow>
    map_of (dir j') = (map_of (dir j))(partial_path env (te_id e) \<mapsto> Reg (record_bytes env e p) (s_mtime io))"
  by (auto simp: append_write_def Let_def update_conv' split: if_splits option.splits)

lemma append_rename_ok:
  "append_rename env io i j = (Inr u, j') \<Longrightarrow>
    \<not> path_exists (dir j) (path env i) \<and> j' = j\<lparr>dir := rename (partial_path env i) (path env i) (dir j)\<rparr>"
  by (auto simp: append_rename_def split: if_splits)

lemma append_rename_error: "append_rename env io i j = (Inl e, j') \<Longrightarrow> j' = j"
  by (auto simp: append_rename_def split: if_splits)

lemma append_sync_cases:
  "append_sync io j = (r, j') \<longleftrightarrow>
    (s_dirsync_ok io \<and> r = Inr () \<and> j' = sync_directory j) \<or> (\<not> s_dirsync_ok io \<and> r = Inl Io_error \<and> j' = j)"
  by (auto simp: append_sync_def)

lemma append_store_ok:
  assumes "append_store env io e p j = (Inr u, j')"
  shows "catalog j' = catalog j" and "synced j' = dir j'"
    and "map_of (dir j') = (map_of (dir j))(partial_path env (te_id e) := None,
           path env (te_id e) \<mapsto> Reg (record_bytes env e p) (s_mtime io))"
proof -
  obtain u1 j1 where w: "append_write env io e p j = (Inr u1, j1)"
    using assms by (auto simp: append_store_def split: prod.splits sum.splits)
  obtain u2 j2 where r: "append_rename env io (te_id e) j1 = (Inr u2, j2)"
    and s: "append_sync io j2 = (Inr u, j')"
    using assms w by (auto simp: append_store_def split: prod.splits sum.splits)
  have j': "j' = sync_directory j2" using s by (auto simp: append_sync_cases)
  note j2 = append_rename_ok [OF r]
  show "catalog j' = catalog j" using append_write_frame [OF w] j2 j' by simp
  show "synced j' = dir j'" using j' by simp
  show "map_of (dir j') = (map_of (dir j))(partial_path env (te_id e) := None,
           path env (te_id e) \<mapsto> Reg (record_bytes env e p) (s_mtime io))"
    using append_write_ok [OF w] j2 j' by (simp add: rename_lookup fun_eq_iff)
qed

lemma append_store_error:
  assumes "append_store env io e p j = (Inl err, j')"
  shows "catalog j' = catalog j" and "synced j' = synced j"
    and "n \<noteq> path env (te_id e) \<Longrightarrow> n \<noteq> partial_path env (te_id e) \<Longrightarrow> map_of (dir j') n = map_of (dir j) n"
    and "\<not> path_exists (dir j) (path env (te_id e)) \<Longrightarrow> \<not> path_exists (dir j) (partial_path env (te_id e)) \<Longrightarrow>
      n = path env (te_id e) \<or> n = partial_path env (te_id e) \<Longrightarrow>
      map_of (dir j') n = None \<or> (\<exists>k. map_of (dir j') n = Some (Reg (take k (record_bytes env e p)) (s_mtime io)))"
proof -
  obtain r1 j1 where w: "append_write env io e p j = (r1, j1)" by (cases "append_write env io e p j")
  note fw = append_write_frame [OF w]
  have cases: "j' = j1 \<or> (\<exists>u. r1 = Inr u) \<and>
      j' = j1\<lparr>dir := rename (partial_path env (te_id e)) (path env (te_id e)) (dir j1)\<rparr>"
    using assms w
    by (auto simp: append_store_def append_sync_cases split: prod.splits sum.splits
        dest!: append_rename_ok append_rename_error)
  show "catalog j' = catalog j" "synced j' = synced j" using cases fw by auto
  show "n \<noteq> path env (te_id e) \<Longrightarrow> n \<noteq> partial_path env (te_id e) \<Longrightarrow> map_of (dir j') n = map_of (dir j) n"
    using cases fw by (auto simp: rename_other)
  assume fresh: "\<not> path_exists (dir j) (path env (te_id e))" "\<not> path_exists (dir j) (partial_path env (te_id e))"
    and n: "n = path env (te_id e) \<or> n = partial_path env (te_id e)"
  from cases show "map_of (dir j') n = None \<or> (\<exists>k. map_of (dir j') n = Some (Reg (take k (record_bytes env e p)) (s_mtime io)))"
  proof
    assume "j' = j1"
    with fw fresh n show ?thesis by (auto simp: path_exists_def)
  next
    assume a: "(\<exists>u. r1 = Inr u) \<and>
      j' = j1\<lparr>dir := rename (partial_path env (te_id e)) (path env (te_id e)) (dir j1)\<rparr>"
    with w append_write_ok have "map_of (dir j1)
      = (map_of (dir j))(partial_path env (te_id e) \<mapsto> Reg (record_bytes env e p) (s_mtime io))" by blast
    with a fresh n show ?thesis
      by (auto simp: rename_lookup intro: exI [of _ "length (record_bytes env e p)"])
  qed
qed

lemma append_prepare_Inr:
  assumes "append_prepare env charged e = Inr p"
  shows "to_json env e = Some (p_metadata p)" and "length (p_metadata p) \<le> MAX_METADATA_BYTES"
    and "p_size p = HEADER_BYTES + length (p_metadata p) + length (te_request_body e) + length (te_response_body e)"
    and "p_memory p < u64_max \<Longrightarrow>
      length (te_request_body e) + length (te_response_body e) + 8 * length (p_metadata p) + 65536 \<le> p_memory p"
    and "charged \<le> p_memory p"
proof -
  let ?m = "saturating_add (saturating_add (saturating_add (length (te_request_body e))
      (length (te_response_body e))) (saturating_mul (length (p_metadata p)) 8)) 65536"
  obtain metadata where m: "to_json env e = Some metadata" "length metadata \<le> MAX_METADATA_BYTES"
    and p: "p = \<lparr>p_metadata = metadata,
         p_size = HEADER_BYTES + length metadata + length (te_request_body e) + length (te_response_body e),
         p_memory = max charged (saturating_add (saturating_add (saturating_add (length (te_request_body e))
           (length (te_response_body e))) (saturating_mul (length metadata) 8)) 65536)\<rparr>"
    using assms by (cases "to_json env e") (simp_all add: append_prepare_def Let_def split: if_splits)
  show "to_json env e = Some (p_metadata p)" "length (p_metadata p) \<le> MAX_METADATA_BYTES"
    "p_size p = HEADER_BYTES + length (p_metadata p) + length (te_request_body e) + length (te_response_body e)"
    "charged \<le> p_memory p"
    using m p by simp_all
  have "?m \<le> p_memory p" by (simp add: p)
  then show "p_memory p < u64_max \<Longrightarrow>
      length (te_request_body e) + length (te_response_body e) + 8 * length (p_metadata p) + 65536 \<le> p_memory p"
    by (auto simp: saturating_add_def saturating_mul_def min_def split: if_splits)
qed

lemma length_record_bytes:
  "sha256_length (sha256 env) \<Longrightarrow> append_prepare env charged e = Inr p \<Longrightarrow>
    length (record_bytes env e p) = p_size p"
  by (simp add: record_bytes_def encode_record_def Let_def sha256_length_def append_prepare_Inr(3) HEADER_BYTES_def)

text \<open>What the code relies on of serde: metadata decodes to the event without the
  skipped bodies.\<close>

definition json_round_trip :: "jenv \<Rightarrow> bool" where
  "json_round_trip env \<longleftrightarrow>
    (\<forall>e m. to_json env e = Some m \<longrightarrow> from_json env m = Some (without_bodies e))"

definition record_intact :: "jenv \<Rightarrow> trace_event \<Rightarrow> append_plan \<Rightarrow> directory \<Rightarrow> bool" where
  "record_intact env e p d =
    (case map_of d (path env (te_id e)) of
       Some (Reg c _) \<Rightarrow> c = record_bytes env e p
     | _ \<Rightarrow> False)"

lemma plan_memory_lower:
  "append_prepare env charged e = Inr p \<Longrightarrow> p_memory p \<le> MAX_RECORD_MEMORY \<Longrightarrow>
    length (te_request_body e) + length (te_response_body e) + 8 * length (p_metadata p) + 65536 \<le> p_memory p"
  by (rule append_prepare_Inr(4)) (simp_all add: MAX_RECORD_MEMORY_def u64_max_def)

lemma decode_record_bytes:
  assumes "append_prepare env charged e = Inr p" and "sha256_length (sha256 env)"
    and "json_round_trip env" and "p_memory p \<le> MAX_RECORD_MEMORY"
  shows "decode_record (sha256 env) (from_json env) (te_id e) (record_bytes env e p) = Inr e"
proof -
  have "from_json env (p_metadata p) = Some (without_bodies e)"
    using assms(1,3) append_prepare_Inr(1) by (auto simp: json_round_trip_def)
  then show ?thesis
    unfolding record_bytes_def
    using decode_encode_record [OF assms(2) append_prepare_Inr(2) [OF assms(1)]
        plan_memory_lower [OF assms(1,4)] assms(4), where i = "te_id e"]
    by simp
qed

lemma read_intact:
  assumes "record_intact env e p (dir j)" and "append_prepare env charged e = Inr p"
    and "sha256_length (sha256 env)" and "json_round_trip env" and "p_memory p \<le> MAX_RECORD_MEMORY"
  shows "read_journal env ok (te_id e) j = (if ok then Inr e else Inl Io_error)"
  using assms(1) decode_record_bytes [OF assms(2-5)]
  by (auto simp: record_intact_def read_journal_def reject_symlink_def split: option.splits node.splits)

lemma read_header_record:
  assumes "append_prepare env charged e = Inr p" and "sha256_length (sha256 env)"
    and "p_memory p \<le> MAX_RECORD_MEMORY"
  shows "\<exists>h. read_header (record_bytes env e p) (length (record_bytes env e p)) = Inr h \<and> h_memory h = p_memory p"
  unfolding record_bytes_def
  using read_header_encode [OF assms(2) append_prepare_Inr(2) [OF assms(1)] plan_memory_lower [OF assms(1,3)] assms(3)]
  by simp

lemma adoptable_intact:
  assumes "append_prepare env charged e = Inr p" and "sha256_length (sha256 env)"
    and "p_memory p \<le> MAX_RECORD_MEMORY" and "uuid_text_ok env"
  shows "adoptable env (path env (te_id e)) (record_bytes env e p) = Some (te_id e, p_memory p)"
  using read_header_record [OF assms(1-3)] assms(4)
  by (auto simp: adoptable_def strip_path uuid_text_ok_def)

section \<open>Effects of quarantine and acknowledge\<close>

lemma quarantine_files_ok:
  assumes "quarantine_files env io i j = (Inr n, j')"
  shows "catalog j' = catalog j" and "synced j' = synced j"
    and "m \<noteq> path env i \<Longrightarrow> m \<noteq> partial_path env i \<Longrightarrow> m \<noteq> quarantine_path env i (q_uuid io) \<Longrightarrow>
      map_of (dir j') m = map_of (dir j) m"
    and "\<not> path_exists (dir j') (path env i)"
  using assms
  by (auto simp: quarantine_files_def Let_def rename_other rename_lookup path_exists_def split: if_splits option.splits)

lemma quarantine_files_error: "quarantine_files env io i j = (Inl e, j') \<Longrightarrow> j' = j"
  by (auto simp: quarantine_files_def Let_def split: if_splits)

lemma quarantine_files_size:
  assumes "quarantine_files env io i j = (Inr n, j')"
  shows "n = max (node_len (map_of (dir j) (path env i)))
      (if path_exists (dir j) (path env i) then 0 else node_len (map_of (dir j) (partial_path env i)))"
  using assms by (auto simp: quarantine_files_def Let_def path_exists_def node_len_def split: if_splits)

lemma quarantine_catalog_simps [simp]:
  "dir (quarantine_catalog env io i n j) = dir j" "synced (quarantine_catalog env io i n j) = synced j"
  "entries (catalog (quarantine_catalog env io i n j)) = entries (remove_entry i (catalog j))"
  "ready (catalog (quarantine_catalog env io i n j)) = ready (catalog j)"
  "cat_bytes (catalog (quarantine_catalog env io i n j)) = cat_bytes (remove_entry i (catalog j))"
  by (simp_all add: quarantine_catalog_def Let_def)

lemma quarantine_catalog_inv:
  "catalog_inv (catalog j) \<Longrightarrow> i \<notin> set (ready (catalog j)) \<Longrightarrow>
    catalog_inv (catalog (quarantine_catalog env io i n j))"
  using remove_entry_inv [of "catalog j" i] by (simp add: catalog_inv_def)

lemma acknowledge_remove_ok:
  assumes "acknowledge_remove env io i j = (Inr u, j')"
  shows "catalog j' = catalog j" and "synced j' = synced j"
    and "map_of (dir j') = (map_of (dir j))(path env i := None)"
  using assms by (auto simp: acknowledge_remove_def path_exists_def delete_conv' fun_eq_iff split: if_splits)

lemma acknowledge_remove_error: "acknowledge_remove env io i j = (Inl e, j') \<Longrightarrow> j' = j"
  by (auto simp: acknowledge_remove_def split: if_splits)

lemma acknowledge_finish_simps [simp]:
  "catalog (acknowledge_finish i j) = remove_entry i (catalog j)"
  "dir (acknowledge_finish i j) = dir j" "synced (acknowledge_finish i j) = dir j"
  by (simp_all add: acknowledge_finish_def)

section \<open>append as a whole\<close>

definition total_bytes :: "catalog \<Rightarrow> nat" where
  "total_bytes c = cat_bytes c + quarantine_bytes c"

lemma append_journal_ok:
  assumes "append_journal env now charged io qio e j = (Inr u, j')"
  obtains p c j1 where "append_prepare env charged e = Inr p"
    and "append_admit env now (te_id e) p (catalog j) = Inr c"
    and "append_store env io e p (j\<lparr>catalog := c\<rparr>) = (Inr (), j1)"
    and "j' = append_publish (te_id e) j1"
  using assms by (auto simp: append_journal_def split: sum.splits prod.splits)

lemma append_journal_error:
  assumes "append_journal env now charged io qio e j = (Inl err, j')"
  obtains (rejected) "j' = j"
  | (failed) p c err1 j1 r where "append_prepare env charged e = Inr p"
    and "append_admit env now (te_id e) p (catalog j) = Inr c"
    and "append_store env io e p (j\<lparr>catalog := c\<rparr>) = (Inl err1, j1)"
    and "quarantine env qio (te_id e) j1 = (r, j')"
  using assms by (auto simp: append_journal_def split: sum.splits prod.splits)

lemma quarantine_cases:
  assumes "quarantine env io i j = (r, j')"
  obtains (refused) "j' = j"
  | (unsynced) n where "quarantine_files env io i j = (Inr n, j')"
  | (completed) n j1 where "quarantine_files env io i j = (Inr n, j1)"
    and "j' = quarantine_catalog env io i n (sync_directory j1)"
  using assms by (auto simp: quarantine_def split: sum.splits prod.splits if_splits dest: quarantine_files_error)

lemma quarantine_ready: "quarantine env io i j = (r, j') \<Longrightarrow> ready (catalog j') = ready (catalog j)"
  by (erule quarantine_cases) (simp_all add: quarantine_files_ok(1))

lemma quarantine_inv:
  "quarantine env io i j = (r, j') \<Longrightarrow> catalog_inv (catalog j) \<Longrightarrow> i \<notin> set (ready (catalog j)) \<Longrightarrow>
    catalog_inv (catalog j')"
  by (erule quarantine_cases) (simp_all add: quarantine_files_ok(1) quarantine_catalog_inv)

lemma quarantine_total:
  assumes q: "quarantine env io i j = (r, j')" and inv: "catalog_inv (catalog j)"
    and e: "map_of (entries (catalog j)) i = Some e"
    and small: "node_len (map_of (dir j) (path env i)) \<le> e_size e"
      "node_len (map_of (dir j) (partial_path env i)) \<le> e_size e"
    and fits: "total_bytes (catalog j) \<le> u64_max"
  shows "total_bytes (catalog j') \<le> total_bytes (catalog j)"
  using q
proof (cases rule: quarantine_cases)
  case (completed n j1)
  have n: "n \<le> e_size e" using quarantine_files_size [OF completed(1)] small by auto
  have c: "catalog j1 = catalog j" using quarantine_files_ok(1) [OF completed(1)] .
  have b: "cat_bytes (catalog j') = cat_bytes (catalog j) - e_size e"
    using remove_entry_bytes [OF inv, of i] e c by (simp add: completed(2))
  have le: "e_size e \<le> cat_bytes (catalog j)"
    using inv bt.sum_del [OF catalog_inv_wf [OF inv] e, of e_size] by (simp add: catalog_inv_def)
  have "quarantine_bytes (catalog j) + n \<le> u64_max" using fits n le by (simp add: total_bytes_def)
  then have "quarantine_bytes (catalog j') \<le> quarantine_bytes (catalog j) + n"
    by (simp add: completed(2) quarantine_catalog_def Let_def c)
  with b le n show ?thesis by (simp add: total_bytes_def)
qed (simp_all add: quarantine_files_ok(1))

lemma append_publish_simps [simp]:
  "dir (append_publish i j) = dir j" "synced (append_publish i j) = synced j"
  "entries (catalog (append_publish i j)) = entries (catalog j)"
  "ready (catalog (append_publish i j)) = ready (catalog j) @ [i]"
  "cat_bytes (catalog (append_publish i j)) = cat_bytes (catalog j)"
  "quarantine_bytes (catalog (append_publish i j)) = quarantine_bytes (catalog j)"
  "quarantined (catalog (append_publish i j)) = quarantined (catalog j)"
  "quarantine_ids (catalog (append_publish i j)) = quarantine_ids (catalog j)"
  by (simp_all add: append_publish_def)

lemma append_publish_inv:
  "catalog_inv (catalog j) \<Longrightarrow> i \<in> pending (catalog j) \<Longrightarrow> i \<notin> set (ready (catalog j)) \<Longrightarrow>
    catalog_inv (catalog (append_publish i j))"
  by (simp add: catalog_inv_def)

text \<open>C3: a record that \<open>append\<close> accepts is read back exactly as it was captured, both
  bodies included; it is durable (the directory is synced), it is queued for
  replay, and no other file of the journal has changed.\<close>

theorem append_then_read:
  assumes "append_journal env now charged io qio e j = (Inr (), j')"
    and "append_prepare env charged e = Inr p" and "p_memory p \<le> MAX_RECORD_MEMORY"
    and "sha256_length (sha256 env)" and "json_round_trip env"
  shows "read_journal env True (te_id e) j' = Inr e \<and> synced j' = dir j' \<and>
    te_id e \<in> set (ready (catalog j')) \<and>
    (\<forall>n. n \<noteq> path env (te_id e) \<and> n \<noteq> partial_path env (te_id e) \<longrightarrow> map_of (dir j') n = map_of (dir j) n)"
proof -
  obtain p' c j1 where p': "append_prepare env charged e = Inr p'"
    and st: "append_store env io e p' (j\<lparr>catalog := c\<rparr>) = (Inr (), j1)"
    and j': "j' = append_publish (te_id e) j1"
    using assms(1) by (rule append_journal_ok)
  have p: "p' = p" using p' assms(2) by simp
  note files = append_store_ok(3) [OF st]
  have "record_intact env e p (dir j')" by (simp add: record_intact_def j' files p)
  from read_intact [OF this assms(2,4,5,3)] append_store_ok(2) [OF st]
  show ?thesis by (simp add: j' files)
qed

text \<open>The byte capacity holds through every outcome of \<open>append\<close>: the catalog
  accounting stays exact, a failed append is never queued, and pending plus
  quarantined bytes exceed neither the configured maximum nor what was there before.\<close>

theorem append_capacity:
  assumes "append_journal env now charged io qio e j = (r, j')"
    and inv: "catalog_inv (catalog j)" and ok: "env_ok env" and sha: "sha256_length (sha256 env)"
    and fresh: "\<not> path_exists (dir j) (path env (te_id e))" "\<not> path_exists (dir j) (partial_path env (te_id e))"
  shows "catalog_inv (catalog j') \<and>
    total_bytes (catalog j') \<le> max (max_bytes env) (total_bytes (catalog j)) \<and>
    (case r of Inr _ \<Rightarrow> ready (catalog j') = ready (catalog j) @ [te_id e]
               \<and> total_bytes (catalog j') \<le> max_bytes env
     | Inl _ \<Rightarrow> ready (catalog j') = ready (catalog j))"
proof (cases r)
  case (Inr u)
  with assms(1) have "append_journal env now charged io qio e j = (Inr u, j')" by simp
  then obtain p c j1 where adm: "append_admit env now (te_id e) p (catalog j) = Inr c"
    and st: "append_store env io e p (j\<lparr>catalog := c\<rparr>) = (Inr (), j1)" and j': "j' = append_publish (te_id e) j1"
    by (rule append_journal_ok)
  note a = append_admit_inv [OF inv adm ok]
  have c: "catalog j1 = c" using append_store_ok(1) [OF st] by simp
  have new: "te_id e \<notin> set (ready c)"
    using append_admit_Inr(1) [OF adm] inv a(3) by (auto simp: catalog_inv_def)
  have "catalog_inv (catalog j')" unfolding j' using a(1,2) new c by (intro append_publish_inv) auto
  moreover have "total_bytes (catalog j') \<le> max_bytes env"
    using append_admit_fits(1) [OF adm ok] a(4,5) c by (simp add: total_bytes_def j')
  ultimately show ?thesis using Inr a(3) c by (simp add: j')
next
  case (Inl err)
  with assms(1) have "append_journal env now charged io qio e j = (Inl err, j')" by simp
  then show ?thesis
  proof (cases rule: append_journal_error)
    case rejected then show ?thesis using Inl inv by simp
  next
    case (failed p c err1 j1 r')
    note a = append_admit_inv [OF inv failed(2) ok]
    note st = append_store_error [OF failed(3)]
    have c: "catalog j1 = c" using st(1) by simp
    have new: "te_id e \<notin> set (ready c)"
      using append_admit_Inr(1) [OF failed(2)] inv a(3) by (auto simp: catalog_inv_def)
    have len: "length (record_bytes env e p) = p_size p" using sha failed(1) by (rule length_record_bytes)
    have small: "node_len (map_of (dir j1) n) \<le> p_size p"
      if "n = path env (te_id e) \<or> n = partial_path env (te_id e)" for n
      using st(4) [of n] fresh that len by (fastforce simp: node_len_def)
    have "map_of (entries c) (te_id e) = Some \<lparr>e_size = p_size p, e_memory = p_memory p,
        e_created = c_system now, e_due = c_instant now, e_recovered = False\<rparr>"
      using append_admit_Inr(2) [OF failed(2)] by (simp add: bt.lookup_ins [OF catalog_inv_wf [OF inv]])
    then have "total_bytes (catalog j') \<le> total_bytes c"
      using quarantine_total [OF failed(4), unfolded c, OF a(1)] small
        append_admit_fits(2) [OF failed(2) ok] a(4,5) by (simp add: total_bytes_def)
    also have "total_bytes c \<le> max_bytes env"
      using append_admit_fits(1) [OF failed(2) ok] a(4,5) by (simp add: total_bytes_def)
    finally have "total_bytes (catalog j') \<le> max_bytes env" .
    moreover have "catalog_inv (catalog j')" using quarantine_inv [OF failed(4)] a(1) new c by simp
    moreover have "ready (catalog j') = ready (catalog j)" using quarantine_ready [OF failed(4)] a(3) c by simp
    ultimately show ?thesis using Inl by simp
  qed
qed

text \<open>\<open>claim\<close> is complete: it returns a record exactly when some queued record is
  due and fits the memory budget; it hands out such a record, and removes only that
  record from the queue.\<close>

theorem claim_complete:
  assumes "catalog_inv (catalog j)" and "claim now mem j = (r, j')"
  shows "(r \<noteq> None \<longleftrightarrow> (\<exists>i \<in> set (ready (catalog j)). claimable now mem (catalog j) i)) \<and>
    entries (catalog j') = entries (catalog j) \<and> catalog_inv (catalog j') \<and>
    (case r of None \<Rightarrow> set (ready (catalog j')) = set (ready (catalog j))
     | Some (cl, mem') \<Rightarrow> claim_result now mem (catalog j) cl mem' (catalog j'))"
proof (cases r)
  case None
  with claim_spec [OF assms] show ?thesis by auto
next
  case (Some q)
  obtain cl mem' where q: "q = (cl, mem')" by (cases q)
  have cr: "claim_result now mem (catalog j) cl mem' (catalog j')"
    using claim_spec(5) [OF assms] Some q by simp
  then have "cl_id cl \<in> set (ready (catalog j)) \<and> claimable now mem (catalog j) (cl_id cl)"
    by (auto simp: claim_result_def claimable_def split: option.splits)
  with Some q cr claim_spec(1,2) [OF assms] show ?thesis by auto
qed

text \<open>A successful acknowledgement removes the record for good: its file is gone
  from the directory and from what a power failure can bring back, its catalog entry
  and its bytes are released, and every other record is untouched.\<close>

theorem acknowledge_forgets:
  assumes "acknowledge env io i j = (Inr (), j')" and "catalog_inv (catalog j)"
    and "i \<notin> set (ready (catalog j))"
  shows "\<not> path_exists (dir j') (path env i) \<and> synced j' = dir j' \<and>
    map_of (entries (catalog j')) = (map_of (entries (catalog j)))(i := None) \<and>
    catalog_inv (catalog j') \<and>
    map_of (dir j') = (map_of (dir j))(path env i := None)"
proof -
  obtain j1 where rm: "acknowledge_remove env io i j = (Inr (), j1)" and j': "j' = acknowledge_finish i j1"
    using assms(1) by (auto simp: acknowledge_def split: prod.splits sum.splits if_splits)
  note r = acknowledge_remove_ok [OF rm]
  show ?thesis
    using r remove_entry_entries [OF catalog_inv_wf [OF assms(2)], of i] remove_entry_inv [OF assms(2,3)]
    by (simp add: j' path_exists_def)
qed

section \<open>A concrete instance\<close>

definition demo_event :: trace_event where
  "demo_event = (trace_event_base 7 0)\<lparr>te_request_body := ''hi'', te_response_body := ''you''\<rparr>"

definition demo_env :: jenv where
  "demo_env =
    \<lparr>uuid_fmt = (\<lambda>n. replicate n (CHR ''a'')),
     uuid_parse = (\<lambda>s. if list_all (\<lambda>c. c = CHR ''a'') s then Some (length s) else None),
     sha256 = (\<lambda>_. replicate 32 (CHR ''x'')),
     to_json = (\<lambda>e. if without_bodies e = without_bodies demo_event then Some ''{}'' else None),
     from_json = (\<lambda>m. if m = ''{}'' then Some (without_bodies demo_event) else None),
     max_bytes = 1000, max_records = 10, retry_interval_secs = 2\<rparr>"

definition demo_clock :: clock where
  "demo_clock = \<lparr>c_system = 5, c_instant = 3\<rparr>"

definition demo_store :: store_io where
  "demo_store = \<lparr>s_create_ok = True, s_written = None, s_sync_ok = True, s_rename_ok = True,
     s_dirsync_ok = True, s_mtime = 5\<rparr>"

definition demo_quarantine :: quarantine_io where
  "demo_quarantine = \<lparr>q_uuid = 2, q_metadata_ok = True, q_rename_ok = True, q_sync_ok = True\<rparr>"

definition demo_journal :: journal where
  "demo_journal = \<lparr>catalog = catalog_default, dir = [(''lock'', Reg [] 0)], synced = [(''lock'', Reg [] 0)]\<rparr>"

definition demo_plan :: append_plan where
  "demo_plan = \<lparr>p_metadata = ''{}'', p_size = 79, p_memory = 65557\<rparr>"

lemma demo_env_ok [simp]: "env_ok demo_env" "sha256_length (sha256 demo_env)"
    "json_round_trip demo_env" "uuid_text_ok demo_env"
  by (auto simp: env_ok_def demo_env_def sha256_length_def json_round_trip_def uuid_text_ok_def list_all_iff)

lemma demo_prepare: "append_prepare demo_env 100 demo_event = Inr demo_plan"
  by (simp add: append_prepare_def demo_env_def demo_event_def demo_plan_def trace_event_base_def
      HEADER_BYTES_def MAX_METADATA_BYTES_def saturating_add_def saturating_mul_def u64_max_def without_bodies_def)

lemma demo_admit:
  "append_admit demo_env demo_clock (te_id demo_event) demo_plan (catalog demo_journal) =
    Inr \<lparr>entries = [(7, \<lparr>e_size = 79, e_memory = 65557, e_created = 5, e_due = 3, e_recovered = False\<rparr>)],
      ready = [], cat_bytes = 79, quarantined = 0, quarantine_bytes = 0, quarantine_ids = {}\<rparr>"
  by (simp add: append_admit_def demo_env_def demo_clock_def demo_event_def trace_event_base_def demo_plan_def
      demo_journal_def catalog_default_def saturating_add_def u64_max_def)

lemma demo_names: "path demo_env 7 = ''aaaaaaa.trace''" "partial_path demo_env 7 = ''aaaaaaa.partial''"
  by (simp_all add: path_def partial_path_def demo_env_def numeral_eq_Suc)

lemma demo_id [simp]: "te_id demo_event = 7"
  by (simp add: demo_event_def trace_event_base_def)

definition demo_appended :: journal where
  "demo_appended = \<lparr>catalog = \<lparr>entries = [(7, \<lparr>e_size = 79, e_memory = 65557, e_created = 5, e_due = 3, e_recovered = False\<rparr>)],
        ready = [7], cat_bytes = 79, quarantined = 0, quarantine_bytes = 0, quarantine_ids = {}\<rparr>,
      dir = [(''lock'', Reg [] 0), (''aaaaaaa.trace'', Reg (record_bytes demo_env demo_event demo_plan) 5)],
      synced = [(''lock'', Reg [] 0), (''aaaaaaa.trace'', Reg (record_bytes demo_env demo_event demo_plan) 5)]\<rparr>"

lemma demo_append:
  "append_journal demo_env demo_clock 100 demo_store demo_quarantine demo_event demo_journal = (Inr (), demo_appended)"
  unfolding append_journal_def demo_prepare sum.case demo_admit
  by (simp add: append_store_def append_write_def append_rename_def append_sync_def demo_store_def demo_journal_def
      demo_names path_exists_def rename_def sync_directory_def append_publish_def demo_appended_def)

lemma demo_fresh: "\<not> path_exists (dir demo_journal) (path demo_env (te_id demo_event))"
    "\<not> path_exists (dir demo_journal) (partial_path demo_env (te_id demo_event))"
  by (simp_all add: demo_names path_exists_def demo_journal_def)

lemma demo_journal_inv: "catalog_inv (catalog demo_journal)"
  by (simp add: demo_journal_def catalog_inv_default)

lemma demo_appended_inv: "catalog_inv (catalog demo_appended)"
  by (simp add: demo_appended_def catalog_inv_def u64_max_def)

theorem append_then_read_witness: "read_journal demo_env True 7 demo_appended = Inr demo_event"
proof -
  have "p_memory demo_plan \<le> MAX_RECORD_MEMORY" by (simp add: demo_plan_def MAX_RECORD_MEMORY_def)
  from append_then_read [OF demo_append demo_prepare this demo_env_ok(2,3)] show ?thesis by simp
qed

theorem append_capacity_witness: "total_bytes (catalog demo_appended) \<le> 1000"
  using append_capacity [OF demo_append demo_journal_inv demo_env_ok(1,2) demo_fresh]
  by (simp add: demo_env_def)

theorem claim_complete_witness: "fst (claim 3 (mb_new 100000) demo_appended) \<noteq> None"
proof -
  have "claimable 3 (mb_new 100000) (catalog demo_appended) 7" "7 \<in> set (ready (catalog demo_appended))"
    by (simp_all add: demo_appended_def claimable_def mb_new_def mb_reserve_def word_checked_add_def)
  then show ?thesis
    using claim_complete [OF demo_appended_inv, of 3 "mb_new 100000"]
    by (cases "claim 3 (mb_new 100000) demo_appended") auto
qed

definition demo_claimed :: journal where
  "demo_claimed = demo_appended\<lparr>catalog := (catalog demo_appended)\<lparr>ready := []\<rparr>\<rparr>"

theorem acknowledge_forgets_witness:
  "path_exists (dir demo_claimed) (path demo_env 7) \<and>
   \<not> path_exists (dir (snd (acknowledge demo_env \<lparr>a_remove_ok = True, a_sync_ok = True\<rparr> 7 demo_claimed)))
       (path demo_env 7)"
proof -
  let ?r = "acknowledge demo_env \<lparr>a_remove_ok = True, a_sync_ok = True\<rparr> 7 demo_claimed"
  have "fst ?r = Inr ()" by (simp add: acknowledge_def acknowledge_remove_def)
  then have r: "?r = (Inr (), snd ?r)" by (simp add: prod_eq_iff)
  have inv: "catalog_inv (catalog demo_claimed)" "7 \<notin> set (ready (catalog demo_claimed))"
    using demo_appended_inv by (simp_all add: demo_claimed_def catalog_inv_def)
  from acknowledge_forgets [OF r inv] show ?thesis
    by (simp add: demo_claimed_def demo_appended_def demo_names path_exists_def)
qed

section \<open>Recovery\<close>

definition scan_entry :: "nanos \<Rightarrow> bytes \<Rightarrow> nat \<Rightarrow> nat \<Rightarrow> entry" where
  "scan_entry now content mtime memory =
    \<lparr>e_size = length content, e_memory = memory, e_created = mtime, e_due = now, e_recovered = True\<rparr>"

lemma open_entry_cases:
  assumes "open_entry env scan_ok now fresh (n, f) (c, d) = Inr (c1, d1)"
  obtains (skip) "n \<in> set reserved_names" "c1 = c" "d1 = d"
  | (adopt) ct t i m where "n \<notin> set reserved_names" "f = Reg ct t" "adoptable env n ct = Some (i, m)"
      "c1 = c\<lparr>entries := bt_insert i (scan_entry now ct t m) (entries c),
              cat_bytes := saturating_add (cat_bytes c) (length ct)\<rparr>" "d1 = d"
  | (quar) ct t where "n \<notin> set reserved_names" "f = Reg ct t" "adoptable env n ct = None"
      "entries c1 = entries c" "ready c1 = ready c" "cat_bytes c1 = cat_bytes c"
      "quarantined c1 = quarantined c + 1"
      "quarantine_bytes c1 = saturating_add (quarantine_bytes c) (length ct)"
      "d1 = (if ends_with n ''.quarantine'' then d
             else rename n (rescue_name env (fresh n) n) d)"
  using assms
  by (auto simp: open_entry_def scan_entry_def split: if_splits node.splits option.splits)

definition adopts :: "jenv \<Rightarrow> (string \<times> node) list \<Rightarrow> uuid \<Rightarrow> bool" where
  "adopts env fs i \<longleftrightarrow>
    (\<exists>n ct t m. (n, Reg ct t) \<in> set fs \<and> n \<notin> set reserved_names \<and> adoptable env n ct = Some (i, m))"

lemma adopts_Nil [simp]: "\<not> adopts env [] i" "Collect (adopts env []) = {}"
  by (simp_all add: adopts_def)

lemma adopts_Cons:
  "adopts env ((n, f) # fs) i \<longleftrightarrow>
    adopts env fs i \<or> (n \<notin> set reserved_names \<and> (\<exists>ct t m. f = Reg ct t \<and> adoptable env n ct = Some (i, m)))"
  by (simp add: adopts_def) blast

lemma open_scan_Cons:
  assumes "open_scan env scan_ok now fresh ((n, f) # fs) (c, d) = Inr (c', d')"
  obtains c1 d1 where "open_entry env scan_ok now fresh (n, f) (c, d) = Inr (c1, d1)"
    and "open_scan env scan_ok now fresh fs (c1, d1) = Inr (c', d')"
  using assms by (auto simp: bind_res_Inr)

lemma open_scan_pending:
  "open_scan env scan_ok now fresh fs (c, d) = Inr (c', d') \<Longrightarrow>
    pending c' = pending c \<union> {i. adopts env fs i} \<and> ready c' = ready c"
proof (induction fs arbitrary: c d)
  case (Cons nf fs)
  obtain n f where nf: "nf = (n, f)" by (cases nf)
  obtain c1 d1 where e: "open_entry env scan_ok now fresh (n, f) (c, d) = Inr (c1, d1)"
    and s: "open_scan env scan_ok now fresh fs (c1, d1) = Inr (c', d')"
    using Cons.prems unfolding nf by (rule open_scan_Cons)
  show ?case using Cons.IH [OF s] unfolding nf
    by (cases rule: open_entry_cases [OF e]) (auto simp: adopts_Cons bt_insert_set)
qed simp

lemma rescue_name_ends: "ends_with (rescue_name env q n) ''.quarantine''"
  unfolding ends_with_def suffix_def rescue_name_def by (rule exI [of _ "n @ ''.'' @ uuid_fmt env q"]) simp

lemma open_scan_frame:
  "open_scan env scan_ok now fresh fs (c, d) = Inr (c', d') \<Longrightarrow> \<not> ends_with m ''.quarantine'' \<Longrightarrow>
    (\<And>ct t. (m, Reg ct t) \<in> set fs \<Longrightarrow> m \<in> set reserved_names \<or> adoptable env m ct \<noteq> None) \<Longrightarrow>
    map_of d' m = map_of d m"
proof (induction fs arbitrary: c d)
  case (Cons nf fs)
  obtain n f where nf: "nf = (n, f)" by (cases nf)
  obtain c1 d1 where e: "open_entry env scan_ok now fresh (n, f) (c, d) = Inr (c1, d1)"
    and s: "open_scan env scan_ok now fresh fs (c1, d1) = Inr (c', d')"
    using Cons.prems(1) unfolding nf by (rule open_scan_Cons)
  have ih: "map_of d' m = map_of d1 m" using Cons.prems(2,3) by (intro Cons.IH [OF s]) auto
  show ?case
    using e
  proof (cases rule: open_entry_cases)
    case (quar ct t)
    have "n \<noteq> m" using Cons.prems(3) [of ct t] nf quar(1-3) by auto
    moreover have "m \<noteq> rescue_name env (fresh n) n"
      using Cons.prems(2) rescue_name_ends [of env "fresh n" n] by metis
    ultimately show ?thesis using ih quar(9) by (simp add: rename_other)
  qed (use ih in simp_all)
qed simp

lemma open_scan_moved:
  "open_scan env scan_ok now fresh fs (c, d) = Inr (c', d') \<Longrightarrow> \<not> ends_with m ''.quarantine'' \<Longrightarrow>
    (m, Reg ct t) \<in> set fs \<Longrightarrow> m \<notin> set reserved_names \<Longrightarrow> adoptable env m ct = None \<Longrightarrow>
    map_of d' m = None"
proof (induction fs arbitrary: c d)
  case (Cons nf fs)
  obtain n f where nf: "nf = (n, f)" by (cases nf)
  obtain c1 d1 where e: "open_entry env scan_ok now fresh (n, f) (c, d) = Inr (c1, d1)"
    and s: "open_scan env scan_ok now fresh fs (c1, d1) = Inr (c', d')"
    using Cons.prems(1) unfolding nf by (rule open_scan_Cons)
  have keep: "map_of d2 m = None \<Longrightarrow> open_scan env scan_ok now fresh gs (c2, d2) = Inr (c', d') \<Longrightarrow> map_of d' m = None"
    for gs c2 d2
  proof (induction gs arbitrary: c2 d2)
    case (Cons ng gs)
    obtain k g where ng: "ng = (k, g)" by (cases ng)
    obtain c3 d3 where e3: "open_entry env scan_ok now fresh (k, g) (c2, d2) = Inr (c3, d3)"
      and s3: "open_scan env scan_ok now fresh gs (c3, d3) = Inr (c', d')"
      using Cons.prems(2) unfolding ng by (rule open_scan_Cons)
    have ne: "m \<noteq> rescue_name env (fresh k) k"
      using \<open>\<not> ends_with m ''.quarantine''\<close> rescue_name_ends [of env "fresh k" k] by metis
    have "map_of d3 m = None"
      using e3 Cons.prems(1)
      by (cases rule: open_entry_cases) (auto simp: rename_lookup ne split: option.splits)
    then show ?case using s3 by (rule Cons.IH)
  qed simp
  show ?case
  proof (cases "(m, Reg ct t) \<in> set fs")
    case True
    then show ?thesis using Cons.IH [OF s] Cons.prems by blast
  next
    case False
    then have m: "n = m" "f = Reg ct t" using Cons.prems(3) nf by auto
    have ne: "m \<noteq> rescue_name env (fresh m) m" by (simp add: rescue_name_def)
    from e have "map_of d1 m = None"
      by (cases rule: open_entry_cases)
         (use m ne Cons.prems(2,4,5) in \<open>auto simp: rename_lookup split: option.splits\<close>)
    then show ?thesis using s by (rule keep)
  qed
qed simp

text \<open>The files carry the names the journal gives them.\<close>

definition canonical_names :: "jenv \<Rightarrow> (string \<times> node) list \<Rightarrow> bool" where
  "canonical_names env fs \<longleftrightarrow>
    (\<forall>n ct t i m. (n, Reg ct t) \<in> set fs \<and> adoptable env n ct = Some (i, m) \<longrightarrow> n = path env i)"

lemma canonical_names_Cons: "canonical_names env (nf # fs) \<Longrightarrow> canonical_names env fs"
  by (simp add: canonical_names_def) blast

definition files_size :: "(string \<times> node) list \<Rightarrow> nat" where
  "files_size fs = sum_list (map (\<lambda>p. node_len (Some (snd p))) fs)"

lemma open_scan_accounting:
  assumes "open_scan env scan_ok now fresh fs (c, d) = Inr (c', d')"
    and "bt_wf (entries c)" and "cat_bytes c = sum_list (map (\<lambda>p. e_size (snd p)) (entries c))"
    and "cat_bytes c + files_size fs \<le> u64_max" and "hm_wf fs" and "canonical_names env fs"
    and "\<And>i. adopts env fs i \<Longrightarrow> i \<notin> pending c"
  shows "bt_wf (entries c') \<and> cat_bytes c' = sum_list (map (\<lambda>p. e_size (snd p)) (entries c')) \<and> cat_bytes c' \<le> u64_max"
  using assms
proof (induction fs arbitrary: c d)
  case (Cons nf fs)
  obtain n f where nf: "nf = (n, f)" by (cases nf)
  obtain c1 d1 where e: "open_entry env scan_ok now fresh (n, f) (c, d) = Inr (c1, d1)"
    and s: "open_scan env scan_ok now fresh fs (c1, d1) = Inr (c', d')"
    using Cons.prems(1) unfolding nf by (rule open_scan_Cons)
  have rest: "hm_wf fs" "canonical_names env fs" and fits: "cat_bytes c + files_size fs \<le> u64_max"
    using Cons.prems(4-6) by (simp_all add: canonical_names_Cons files_size_def)
  have fresh': "\<And>i. adopts env fs i \<Longrightarrow> i \<notin> pending c" using Cons.prems(7) by (simp add: nf adopts_Cons)
  show ?case
    using e
  proof (cases rule: open_entry_cases)
    case skip
    then show ?thesis using Cons.IH [OF s] Cons.prems(2,3) rest fits fresh' by simp
  next
    case (quar ct t)
    then show ?thesis using Cons.IH [OF s] Cons.prems(2,3) rest fits fresh' by simp
  next
    case (adopt ct t i m)
    have i: "i \<notin> pending c" using Cons.prems(7) [of i] adopt nf by (auto simp: adopts_Cons)
    have n: "n = path env i" using Cons.prems(6) adopt(2,3) nf unfolding canonical_names_def by (metis list.set_intros(1))
    have room: "cat_bytes c + length ct + files_size fs \<le> u64_max"
      using Cons.prems(4) by (simp add: nf adopt(2) files_size_def node_len_def)
    have b: "cat_bytes c1 = cat_bytes c + length ct"
      using room by (simp add: adopt(4) saturating_add_exact)
    have "i' \<notin> pending c1" if a: "adopts env fs i'" for i'
    proof -
      have "i' \<noteq> i"
      proof
        assume "i' = i"
        with a rest(2) have "n \<in> fst ` set fs" unfolding n by (force simp: adopts_def canonical_names_def)
        with Cons.prems(5) nf show False by simp
      qed
      with fresh' [OF a] show ?thesis by (simp add: adopt(4) bt_insert_set)
    qed
    moreover have "cat_bytes c1 = sum_list (map (\<lambda>p. e_size (snd p)) (entries c1))"
      using bt.sum_ins_new [OF Cons.prems(2) i, of e_size "scan_entry now ct t m"] b Cons.prems(3)
      by (simp add: adopt(4) scan_entry_def)
    moreover have "bt_wf (entries c1)" using bt_insert_wf [OF Cons.prems(2)] by (simp add: adopt(4))
    ultimately show ?thesis using Cons.IH [OF s] rest b room by simp
  qed
qed (simp add: files_size_def)

lemma recovered_queue:
  assumes "bt_wf es"
  defines "q \<equiv> map snd (sort (map (\<lambda>p. (e_created (snd p), fst p)) es))"
  shows "set q = fst ` set es" and "distinct q"
    and "sorted (map (\<lambda>i. (e_created (the (map_of es i)), i)) q)"
proof -
  let ?l = "map (\<lambda>p. (e_created (snd p), fst p)) es"
  show "set q = fst ` set es" by (simp add: q_def image_image)
  have "distinct (map snd ?l)" using bt_wf_distinct [OF assms(1)] by (simp add: comp_def)
  then have "distinct ?l \<and> inj_on snd (set ?l)" by (simp only: distinct_map)
  then show "distinct q" unfolding q_def distinct_map [of snd] by (simp only: distinct_sort set_sort)
  have key: "map (\<lambda>i. (e_created (the (map_of es i)), i)) (map snd xs) = xs" if "set xs \<subseteq> set ?l" for xs
    using that
  proof (induction xs)
    case (Cons x xs)
    then obtain p where p: "p \<in> set es" "x = (e_created (snd p), fst p)" by auto
    then have "map_of es (fst p) = Some (snd p)"
      using bt_wf_distinct [OF assms(1)] by simp
    with p Cons show ?case by simp
  qed simp
  have "map (\<lambda>i. (e_created (the (map_of es i)), i)) q = sort ?l"
    unfolding q_def by (rule key) simp
  then show "sorted (map (\<lambda>i. (e_created (the (map_of es i)), i)) q)" by (simp only: sorted_sort)
qed

lemma open_catalog_Inr:
  assumes "open_catalog env scan_ok now fresh d = Inr j"
  obtains c d' where "open_scan env scan_ok now fresh d (catalog_default, d) = Inr (c, d')"
    and "j = \<lparr>catalog = c\<lparr>ready := map snd (sort (map (\<lambda>p. (e_created (snd p), fst p)) (entries c)))\<rparr>,
              dir = d', synced = d'\<rparr>"
  using assms by (auto simp: open_catalog_def bind_res_Inr)

lemma open_catalog_inv:
  assumes op: "open_catalog env scan_ok now fresh d = Inr j"
    and "hm_wf d" and "canonical_names env d" and "files_size d \<le> u64_max"
  shows "catalog_inv (catalog j)" and "set (ready (catalog j)) = pending (catalog j)"
    and "pending (catalog j) = {i. adopts env d i}" and "synced j = dir j"
    and "sorted (map (\<lambda>i. (e_created (the (map_of (entries (catalog j)) i)), i)) (ready (catalog j)))"
proof -
  obtain c d' where s: "open_scan env scan_ok now fresh d (catalog_default, d) = Inr (c, d')"
    and j: "j = \<lparr>catalog = c\<lparr>ready := map snd (sort (map (\<lambda>p. (e_created (snd p), fst p)) (entries c)))\<rparr>,
              dir = d', synced = d'\<rparr>"
    using op by (rule open_catalog_Inr)
  have acc: "bt_wf (entries c) \<and> cat_bytes c = sum_list (map (\<lambda>p. e_size (snd p)) (entries c)) \<and> cat_bytes c \<le> u64_max"
    by (rule open_scan_accounting [OF s]) (use assms in \<open>simp_all add: catalog_default_def\<close>)
  note q = recovered_queue [OF conjunct1 [OF acc]]
  show "catalog_inv (catalog j)" using acc q(1,2) by (simp add: catalog_inv_def j)
  show "set (ready (catalog j)) = pending (catalog j)" using q(1) by (simp add: j)
  show "pending (catalog j) = {i. adopts env d i}"
    using open_scan_pending [OF s] by (simp add: j catalog_default_def)
  show "synced j = dir j" by (simp add: j)
  show "sorted (map (\<lambda>i. (e_created (the (map_of (entries (catalog j)) i)), i)) (ready (catalog j)))"
    using q(3) by (simp add: j)
qed

lemma open_catalog_frame:
  assumes "open_catalog env scan_ok now fresh d = Inr j" and "\<not> ends_with m ''.quarantine''"
    and "\<And>ct t. (m, Reg ct t) \<in> set d \<Longrightarrow> m \<in> set reserved_names \<or> adoptable env m ct \<noteq> None"
  shows "map_of (dir j) m = map_of d m"
proof -
  obtain c d' where s: "open_scan env scan_ok now fresh d (catalog_default, d) = Inr (c, d')"
    and "j = \<lparr>catalog = c\<lparr>ready := map snd (sort (map (\<lambda>p. (e_created (snd p), fst p)) (entries c)))\<rparr>,
              dir = d', synced = d'\<rparr>"
    using assms(1) by (rule open_catalog_Inr)
  then show ?thesis using open_scan_frame [OF s assms(2,3)] by simp
qed

lemma open_catalog_moved:
  assumes "open_catalog env scan_ok now fresh d = Inr j" and "\<not> ends_with m ''.quarantine''"
    and "(m, Reg ct t) \<in> set d" and "m \<notin> set reserved_names" and "adoptable env m ct = None"
  shows "map_of (dir j) m = None"
proof -
  obtain c d' where s: "open_scan env scan_ok now fresh d (catalog_default, d) = Inr (c, d')"
    and "j = \<lparr>catalog = c\<lparr>ready := map snd (sort (map (\<lambda>p. (e_created (snd p), fst p)) (entries c)))\<rparr>,
              dir = d', synced = d'\<rparr>"
    using assms(1) by (rule open_catalog_Inr)
  then show ?thesis using open_scan_moved [OF s assms(2-5)] by simp
qed

text \<open>Recovery after a restart. The rebuilt catalog accounts exactly for the
  record files: every valid record and nothing else is queued for replay, oldest
  first, the files of those records are left in place, and the directory is synced
  before any receipt may be cleaned.\<close>

theorem open_recovers:
  assumes "open_catalog env scan_ok now fresh d = Inr j"
    and "hm_wf d" and "canonical_names env d" and "files_size d \<le> u64_max"
  shows "catalog_inv (catalog j) \<and> set (ready (catalog j)) = {i. adopts env d i} \<and>
    sorted (map (\<lambda>i. (e_created (the (map_of (entries (catalog j)) i)), i)) (ready (catalog j))) \<and>
    synced j = dir j \<and>
    (\<forall>n ct t. map_of d n = Some (Reg ct t) \<and> n \<notin> set reserved_names \<and> adoptable env n ct \<noteq> None
       \<longrightarrow> map_of (dir j) n = Some (Reg ct t))"
proof -
  note inv = open_catalog_inv [OF assms]
  have "map_of (dir j) n = Some (Reg ct t)"
    if n: "map_of d n = Some (Reg ct t)" "adoptable env n ct \<noteq> None" for n ct t
  proof -
    obtain i m where "adoptable env n ct = Some (i, m)" using n(2) by auto
    with n(1) assms(3) have p: "n = path env i"
      unfolding canonical_names_def by (meson map_of_SomeD)
    have "map_of (dir j) n = map_of d n"
    proof (rule open_catalog_frame [OF assms(1)])
      show "\<not> ends_with n ''.quarantine''" unfolding p by (rule path_not_quarantine)
      fix ct' t' assume "(n, Reg ct' t') \<in> set d"
      then have "map_of d n = Some (Reg ct' t')" using assms(2) by simp
      then show "n \<in> set reserved_names \<or> adoptable env n ct' \<noteq> None" using n by simp
    qed
    then show ?thesis using n by simp
  qed
  then show ?thesis using inv by auto
qed

text \<open>The manifest binds a journal to one database. Opening succeeds under an
  existing manifest only for the same database and keeps its namespace and files; a
  namespace is created only in a directory without captures, and then reopening for
  the same database finds it again.\<close>

theorem open_manifest_binds:
  assumes "open_manifest mc new_id mtime database d = Inr (i, d')"
    and "manifest_read mc (manifest_write mc \<lparr>m_version = 1, m_id = new_id, m_database = database\<rparr>)
           = Some \<lparr>m_version = 1, m_id = new_id, m_database = database\<rparr>"
    and "length (manifest_write mc \<lparr>m_version = 1, m_id = new_id, m_database = database\<rparr>) \<le> 4096"
  shows "((\<exists>c t m. map_of d ''manifest.json'' = Some (Reg c t) \<and> manifest_read mc c = Some m \<and>
            m_database m = database \<and> m_id m = i) \<and> d' = d \<or>
          i = new_id \<and> fst ` set d \<subseteq> {''lock'', ''manifest.partial''}) \<and>
    open_manifest mc other_id mtime' database d' = Inr (i, d') \<and>
    (other \<noteq> database \<longrightarrow> open_manifest mc other_id mtime' other d' = Inl Wrong_database)"
proof (cases "map_of d ''manifest.json''")
  case None
  then have "list_all (\<lambda>f. fst f = ''lock'' \<or> fst f = ''manifest.partial'') d" and i: "i = new_id"
    and d': "d' = AList.update ''manifest.json''
      (Reg (manifest_write mc \<lparr>m_version = 1, m_id = new_id, m_database = database\<rparr>) mtime)
      (AList.delete ''manifest.partial'' d)"
    using assms(1) by (auto simp: open_manifest_def bind_res_Inr split: if_splits)
  then have "fst ` set d \<subseteq> {''lock'', ''manifest.partial''}" by (auto simp: list_all_iff)
  with i assms(2,3) show ?thesis
    by (simp add: open_manifest_def d' reject_symlink_def update_conv')
next
  case (Some nd)
  then show ?thesis using assms(1)
    by (cases nd) (auto simp: open_manifest_def reject_symlink_def bind_res_Inr ok_or_def split: if_splits option.splits)
qed

lemma demo_adoptable:
  "adoptable demo_env ''aaaaaaa.trace'' (record_bytes demo_env demo_event demo_plan) = Some (7, 65557)"
proof -
  have "p_memory demo_plan \<le> MAX_RECORD_MEMORY" by (simp add: demo_plan_def MAX_RECORD_MEMORY_def)
  from adoptable_intact [OF demo_prepare demo_env_ok(2) this demo_env_ok(4)]
  show ?thesis by (simp add: demo_names) (simp add: demo_plan_def)
qed

lemma demo_dir_canonical: "canonical_names demo_env (dir demo_appended)"
proof -
  have "adoptable demo_env ''lock'' [] = None" by (simp add: adoptable_def strip_suffix_def suffix_def)
  with demo_adoptable show ?thesis
    by (auto simp: canonical_names_def demo_appended_def demo_names)
qed

lemma demo_dir_size: "files_size (dir demo_appended) \<le> u64_max"
  using length_record_bytes [OF demo_env_ok(2) demo_prepare]
  by (simp add: files_size_def demo_appended_def node_len_def demo_plan_def u64_max_def)

theorem open_recovers_witness:
  "\<exists>j. open_catalog demo_env (\<lambda>_. True) 9 (\<lambda>_. 1) (dir demo_appended) = Inr j \<and> 7 \<in> set (ready (catalog j))"
proof -
  obtain j where j: "open_catalog demo_env (\<lambda>_. True) 9 (\<lambda>_. 1) (dir demo_appended) = Inr j"
    using demo_adoptable
    by (simp add: open_catalog_def demo_appended_def open_entry_def reserved_names_def catalog_default_def MAX_SCAN_RECORDS_def)
  have "hm_wf (dir demo_appended)" by (simp add: demo_appended_def)
  from open_recovers [OF j this demo_dir_canonical demo_dir_size]
  have "set (ready (catalog j)) = {i. adopts demo_env (dir demo_appended) i}" by blast
  moreover have "adopts demo_env (dir demo_appended) 7"
    using demo_adoptable by (auto simp: adopts_def demo_appended_def reserved_names_def)
  ultimately show ?thesis using j by blast
qed

definition demo_codec :: manifest_codec where
  "demo_codec =
    \<lparr>manifest_read = (\<lambda>c. if c = ''A'' then Some \<lparr>m_version = 1, m_id = 4, m_database = ''db''\<rparr> else None),
     manifest_write = (\<lambda>m. ''A'')\<rparr>"

theorem open_manifest_binds_witness:
  "\<exists>d'. open_manifest demo_codec 4 0 ''db'' [(''lock'', Reg [] 0)] = Inr (4, d') \<and>
     open_manifest demo_codec 9 1 ''other'' d' = Inl Wrong_database"
proof -
  obtain d' where d': "open_manifest demo_codec 4 0 ''db'' [(''lock'', Reg [] 0)] = Inr (4, d')"
    by (simp add: open_manifest_def reject_symlink_def)
  have "manifest_read demo_codec (manifest_write demo_codec \<lparr>m_version = 1, m_id = 4, m_database = ''db''\<rparr>)
      = Some \<lparr>m_version = 1, m_id = 4, m_database = ''db''\<rparr>"
    "length (manifest_write demo_codec \<lparr>m_version = 1, m_id = 4, m_database = ''db''\<rparr>) \<le> 4096"
    by (simp_all add: demo_codec_def)
  from open_manifest_binds [OF d' this, where other = "''other''" and other_id = 9 and mtime' = 1] d'
  show ?thesis by auto
qed

end
