(* ===== verification/LT_Durable.thy ===== *)
theory LT_Durable 
  imports LT_Journal
begin

text \<open>
  The durable pipeline (\<open>trace/durable.rs\<close> with the receipt transaction of
  \<open>storage/ingest.rs\<close>): a writer that journals captured events, replay workers that
  move journaled records into the database, the receipt cleaner, and restarts after
  a crash. The concurrent tasks are a step relation whose steps are the critical
  sections and file or database calls of the code; its reachable states satisfy the
  delivery guarantees, at most one insertion per record and no loss.
\<close>

section \<open>The database\<close>

text \<open>The receipts table (trace id to journal id, primary key on the trace id) and the
  log of trace rows inserted.\<close>

record db =
  receipts :: "(uuid \<times> uuid) list"
  traces :: "uuid list"

datatype durable_error = Foreign_receipt | Db_error | Journal_failure journal_error | Build_error

definition journal_trace_persisted :: "uuid \<Rightarrow> uuid \<Rightarrow> db \<Rightarrow> durable_error + bool" where
  "journal_trace_persisted i me d =
    (case map_of (receipts d) i of
       None \<Rightarrow> Inr False
     | Some owner \<Rightarrow> bind_res (ensure (owner = me) Foreign_receipt) (\<lambda>_. Inr True))"

text \<open>The receipt part of \<open>insert_trace_internal\<close>: the receipt row is inserted with
  \<open>ON CONFLICT DO NOTHING\<close>; on a conflict the owner is checked and the transaction
  commits without a trace row.\<close>

definition insert_journaled_trace :: "uuid \<Rightarrow> uuid \<Rightarrow> db \<Rightarrow> (durable_error + unit) \<times> db" where
  "insert_journaled_trace i me d =
    (case map_of (receipts d) i of
       None \<Rightarrow> (Inr (), d\<lparr>receipts := bt_insert i me (receipts d), traces := traces d @ [i]\<rparr>)
     | Some owner \<Rightarrow> if owner = me then (Inr (), d) else (Inl Foreign_receipt, d))"

section \<open>Processing one claimed record\<close>

text \<open>A transaction commits, aborts, or commits while the client only sees an error.\<close>

datatype tx = Committed | Aborted | Commit_unknown

definition run_tx :: "tx \<Rightarrow> (durable_error + unit) \<times> db \<Rightarrow> db \<Rightarrow> (durable_error + unit) \<times> db" where
  "run_tx t r d =
    (case t of Committed \<Rightarrow> r | Aborted \<Rightarrow> (Inl Db_error, d)
     | Commit_unknown \<Rightarrow> (case r of (Inl e, d') \<Rightarrow> (Inl e, d') | (Inr _, d') \<Rightarrow> (Inl Db_error, d')))"

record process_io =
  pi_check_ok :: bool
  pi_open_ok :: bool
  pi_quarantine :: quarantine_io
  pi_build_ok :: bool
  pi_tx :: tx
  pi_ack :: ack_io

definition acknowledge_claim :: "jenv \<Rightarrow> process_io \<Rightarrow> uuid \<Rightarrow> journal \<times> db \<Rightarrow> (durable_error + unit) \<times> journal \<times> db" where
  "acknowledge_claim env io i s =
    (case acknowledge env (pi_ack io) i (fst s) of
       (Inl e, j) \<Rightarrow> (Inl (Journal_failure e), j, snd s)
     | (Inr _, j) \<Rightarrow> (Inr (), j, snd s))"

text \<open>The part of \<open>process_inner\<close> after the receipt check.\<close>

definition read_part :: "jenv \<Rightarrow> uuid \<Rightarrow> process_io \<Rightarrow> uuid \<Rightarrow> journal \<times> db \<Rightarrow> (durable_error + unit) \<times> journal \<times> db" where
  "read_part env me io i s =
    (case s of (j, d) \<Rightarrow>
      (case read_journal env (pi_open_ok io) i j of
         Inl e \<Rightarrow>
           if e = Io_error then (Inl (Journal_failure e), j, d)
           else (case quarantine env (pi_quarantine io) i j of
                   (Inl qe, j1) \<Rightarrow> (Inl (Journal_failure qe), j1, d)
                 | (Inr _, j1) \<Rightarrow> (Inr (), j1, d))
       | Inr event \<Rightarrow>
           if \<not> pi_build_ok io then (Inl Build_error, j, d)
           else (case run_tx (pi_tx io) (insert_journaled_trace i me d) d of
                   (Inl e, d1) \<Rightarrow> (Inl e, j, d1)
                 | (Inr _, d1) \<Rightarrow> acknowledge_claim env io i (j, d1))))"

definition process_inner :: "jenv \<Rightarrow> uuid \<Rightarrow> process_io \<Rightarrow> uuid \<Rightarrow> journal \<times> db \<Rightarrow> (durable_error + unit) \<times> journal \<times> db" where
  "process_inner env me io i s =
    (if \<not> pi_check_ok io then (Inl Db_error, s)
     else case journal_trace_persisted i me (snd s) of
       Inl e \<Rightarrow> (Inl e, s)
     | Inr already_persisted \<Rightarrow>
         if \<not> already_persisted then read_part env me io i s else acknowledge_claim env io i s)"

text \<open>\<open>process\<close>: whatever the outcome, dropping the claim calls \<open>retry\<close>.\<close>

definition process :: "jenv \<Rightarrow> uuid \<Rightarrow> process_io \<Rightarrow> nanos \<Rightarrow> uuid \<Rightarrow> journal \<times> db \<Rightarrow> (durable_error + unit) \<times> journal \<times> db" where
  "process env me io now i s =
    (case process_inner env me io i s of (r, j, d) \<Rightarrow> (r, retry env now i j, d))"

section \<open>Receipt cleanup\<close>

definition nil_uuid :: uuid where
  "nil_uuid = 0"

definition page_limit :: nat where
  "page_limit = 4096"

definition receipt_page :: "uuid \<Rightarrow> uuid \<Rightarrow> db \<Rightarrow> uuid list" where
  "receipt_page me cursor d =
    take page_limit (map fst (filter (\<lambda>p. snd p = me \<and> cursor < fst p) (receipts d)))"

definition delete_receipts :: "uuid \<Rightarrow> uuid list \<Rightarrow> db \<Rightarrow> db" where
  "delete_receipts me ids d =
    d\<lparr>receipts := filter (\<lambda>p. \<not> (snd p = me \<and> fst p \<in> set ids)) (receipts d)\<rparr>"

definition clean_receipt_page :: "uuid \<Rightarrow> uuid \<Rightarrow> catalog \<Rightarrow> db \<Rightarrow> uuid \<times> db" where
  "clean_receipt_page me cursor c d =
    (let ids = receipt_page me cursor d;
         nxt = (if length ids = page_limit then last ids else nil_uuid);
         removable = filter (\<lambda>i. receipt_can_be_removed i c) ids in
     (nxt, if removable = [] then d else delete_receipts me removable d))"

section \<open>The concurrent pipeline\<close>

datatype append_phase = A_admitted | A_written | A_renamed | A_failed | A_moved nat quarantine_io

datatype worker_phase = W_start | W_read | W_built | W_ack | W_acksync | W_invalid | W_moved nat quarantine_io

record dsys =
  jr :: journal
  database :: db
  appends :: "uuid \<rightharpoonup> trace_event \<times> append_plan \<times> append_phase"
  workers :: "uuid \<rightharpoonup> worker_phase"
  clean_page :: "uuid list"
  clean_removable :: "uuid list"
  used_ids :: "uuid set"
  journaled :: "(trace_event \<times> append_plan) set"

text \<open>A crash keeps, for each name, either the entry the process saw last or the one
  that was last synced.\<close>

definition crash_dir :: "journal \<Rightarrow> directory \<Rightarrow> bool" where
  "crash_dir j d \<longleftrightarrow> hm_wf d \<and> (\<forall>n. map_of d n = map_of (dir j) n \<or> map_of d n = map_of (synced j) n)"

inductive dstep :: "jenv \<Rightarrow> uuid \<Rightarrow> dsys \<Rightarrow> dsys \<Rightarrow> bool" for env me where
  admit: "te_id e \<notin> used_ids s \<Longrightarrow> append_prepare env charged e = Inr p \<Longrightarrow>
    append_admit env now (te_id e) p (catalog (jr s)) = Inr c \<Longrightarrow>
    dstep env me s (s\<lparr>jr := (jr s)\<lparr>catalog := c\<rparr>, appends := (appends s)(te_id e \<mapsto> (e, p, A_admitted)),
      used_ids := insert (te_id e) (used_ids s)\<rparr>)"
| write_ok: "appends s i = Some (e, p, A_admitted) \<Longrightarrow> append_write env io e p (jr s) = (Inr (), j) \<Longrightarrow>
    dstep env me s (s\<lparr>jr := j, appends := (appends s)(i \<mapsto> (e, p, A_written))\<rparr>)"
| write_failed: "appends s i = Some (e, p, A_admitted) \<Longrightarrow> append_write env io e p (jr s) = (Inl err, j) \<Longrightarrow>
    dstep env me s (s\<lparr>jr := j, appends := (appends s)(i \<mapsto> (e, p, A_failed))\<rparr>)"
| rename_ok: "appends s i = Some (e, p, A_written) \<Longrightarrow> append_rename env io i (jr s) = (Inr (), j) \<Longrightarrow>
    dstep env me s (s\<lparr>jr := j, appends := (appends s)(i \<mapsto> (e, p, A_renamed))\<rparr>)"
| rename_failed: "appends s i = Some (e, p, A_written) \<Longrightarrow> append_rename env io i (jr s) = (Inl err, j) \<Longrightarrow>
    dstep env me s (s\<lparr>jr := j, appends := (appends s)(i \<mapsto> (e, p, A_failed))\<rparr>)"
| publish: "appends s i = Some (e, p, A_renamed) \<Longrightarrow> append_sync io (jr s) = (Inr (), j) \<Longrightarrow>
    dstep env me s (s\<lparr>jr := append_publish i j, appends := (appends s)(i := None),
      journaled := insert (e, p) (journaled s)\<rparr>)"
| sync_failed: "appends s i = Some (e, p, A_renamed) \<Longrightarrow> append_sync io (jr s) = (Inl err, j) \<Longrightarrow>
    dstep env me s (s\<lparr>jr := j, appends := (appends s)(i \<mapsto> (e, p, A_failed))\<rparr>)"
| append_quarantine: "appends s i = Some (e, p, A_failed) \<Longrightarrow> quarantine_files env io i (jr s) = (Inr n, j) \<Longrightarrow>
    dstep env me s (s\<lparr>jr := j, appends := (appends s)(i \<mapsto> (e, p, A_moved n io))\<rparr>)"
| append_quarantined: "appends s i = Some (e, p, A_moved n io) \<Longrightarrow>
    dstep env me s (s\<lparr>jr := quarantine_catalog env io i n (sync_directory (jr s)),
      appends := (appends s)(i := None)\<rparr>)"
| append_stuck: "appends s i = Some (e, p, ph) \<Longrightarrow>
    dstep env me s (s\<lparr>appends := (appends s)(i := None)\<rparr>)"
| claim: "claim now mem (jr s) = (Some (cl, mem'), j) \<Longrightarrow>
    dstep env me s (s\<lparr>jr := j, workers := (workers s)(cl_id cl \<mapsto> W_start)\<rparr>)"
| claim_none: "claim now mem (jr s) = (None, j) \<Longrightarrow> dstep env me s (s\<lparr>jr := j\<rparr>)"
| check_new: "workers s i = Some W_start \<Longrightarrow> journal_trace_persisted i me (database s) = Inr False \<Longrightarrow>
    dstep env me s (s\<lparr>workers := (workers s)(i \<mapsto> W_read)\<rparr>)"
| check_persisted: "workers s i = Some W_start \<Longrightarrow> journal_trace_persisted i me (database s) = Inr True \<Longrightarrow>
    dstep env me s (s\<lparr>workers := (workers s)(i \<mapsto> W_ack)\<rparr>)"
| read_ok: "workers s i = Some W_read \<Longrightarrow> read_journal env ok i (jr s) = Inr e \<Longrightarrow>
    dstep env me s (s\<lparr>workers := (workers s)(i \<mapsto> W_built)\<rparr>)"
| read_invalid: "workers s i = Some W_read \<Longrightarrow> read_journal env ok i (jr s) = Inl err \<Longrightarrow> err \<noteq> Io_error \<Longrightarrow>
    dstep env me s (s\<lparr>workers := (workers s)(i \<mapsto> W_invalid)\<rparr>)"
| insert_ok: "workers s i = Some W_built \<Longrightarrow> insert_journaled_trace i me (database s) = (Inr (), d) \<Longrightarrow>
    dstep env me s (s\<lparr>database := d, workers := (workers s)(i \<mapsto> W_ack)\<rparr>)"
| insert_unknown: "workers s i = Some W_built \<Longrightarrow> insert_journaled_trace i me (database s) = (Inr (), d) \<Longrightarrow>
    dstep env me s (s\<lparr>database := d, jr := retry env now i (jr s), workers := (workers s)(i := None)\<rparr>)"
| ack_remove: "workers s i = Some W_ack \<Longrightarrow> acknowledge_remove env io i (jr s) = (Inr (), j) \<Longrightarrow>
    dstep env me s (s\<lparr>jr := j, workers := (workers s)(i \<mapsto> W_acksync)\<rparr>)"
| ack_finish: "workers s i = Some W_acksync \<Longrightarrow>
    dstep env me s (s\<lparr>jr := acknowledge_finish i (jr s), workers := (workers s)(i := None)\<rparr>)"
| invalid_quarantine: "workers s i = Some W_invalid \<Longrightarrow> quarantine_files env io i (jr s) = (Inr n, j) \<Longrightarrow>
    dstep env me s (s\<lparr>jr := j, workers := (workers s)(i \<mapsto> W_moved n io)\<rparr>)"
| invalid_quarantined: "workers s i = Some (W_moved n io) \<Longrightarrow>
    dstep env me s (s\<lparr>jr := quarantine_catalog env io i n (sync_directory (jr s)),
      workers := (workers s)(i := None)\<rparr>)"
| give_up: "workers s i = Some ph \<Longrightarrow>
    dstep env me s (s\<lparr>jr := retry env now i (jr s), workers := (workers s)(i := None)\<rparr>)"
| select_page: "dstep env me s (s\<lparr>clean_page := receipt_page me cursor (database s), clean_removable := []\<rparr>)"
| check_receipt: "i \<in> set (clean_page s) \<Longrightarrow> receipt_can_be_removed i (catalog (jr s)) \<Longrightarrow>
    dstep env me s (s\<lparr>clean_removable := i # clean_removable s\<rparr>)"
| delete_page: "dstep env me s (s\<lparr>database := delete_receipts me (clean_removable s) (database s),
    clean_page := [], clean_removable := []\<rparr>)"
| crash: "crash_dir (jr s) d \<Longrightarrow> files_size d \<le> u64_max \<Longrightarrow>
    open_catalog env scan_ok now fresh d = Inr j \<Longrightarrow>
    dstep env me s (s\<lparr>jr := j, appends := Map.empty, workers := Map.empty, clean_page := [],
      clean_removable := []\<rparr>)"

inductive dreach :: "jenv \<Rightarrow> uuid \<Rightarrow> dsys \<Rightarrow> dsys \<Rightarrow> bool" for env me s0 where
  refl: "dreach env me s0 s0"
| step: "dreach env me s0 s \<Longrightarrow> dstep env me s s' \<Longrightarrow> dreach env me s0 s'"

text \<open>The start: a journal opened on a directory whose record files carry canonical
  names, and no receipt of this journal in the database.\<close>

definition name_ok :: "jenv \<Rightarrow> string \<Rightarrow> bool" where
  "name_ok env n \<longleftrightarrow>
    (\<forall>i. Option.bind (strip_suffix ''.trace'' n) (uuid_parse env) = Some i \<longrightarrow> n = path env i)"

definition dinit :: "jenv \<Rightarrow> uuid \<Rightarrow> dsys \<Rightarrow> bool" where
  "dinit env me s \<longleftrightarrow>
    (\<exists>scan_ok now fresh d. hm_wf d \<and> list_all (\<lambda>p. name_ok env (fst p)) d \<and> files_size d \<le> u64_max \<and>
       open_catalog env scan_ok now fresh d = Inr (jr s)) \<and>
    bt_wf (receipts (database s)) \<and> list_all (\<lambda>p. snd p \<noteq> me) (receipts (database s)) \<and>
    traces (database s) = [] \<and> appends s = Map.empty \<and> workers s = Map.empty \<and> clean_page s = [] \<and>
    clean_removable s = [] \<and> used_ids s = pending (catalog (jr s)) \<and> journaled s = {}"

section \<open>The invariant, record by record\<close>

text \<open>Everything the pipeline knows of one record.\<close>

record view =
  v_pending :: bool
  v_ready :: bool
  v_append :: "(trace_event \<times> append_plan \<times> append_phase) option"
  v_worker :: "worker_phase option"
  v_file :: "node option"
  v_partial :: "node option"
  v_synced :: "node option"
  v_traced :: bool
  v_receipt :: "uuid option"
  v_page :: bool
  v_removable :: bool
  v_used :: bool
  v_journaled :: "(trace_event \<times> append_plan) set"

definition view :: "jenv \<Rightarrow> dsys \<Rightarrow> uuid \<Rightarrow> view" where
  "view env s i =
    \<lparr>v_pending = (i \<in> pending (catalog (jr s))), v_ready = (i \<in> set (ready (catalog (jr s)))),
     v_append = appends s i, v_worker = workers s i, v_file = map_of (dir (jr s)) (path env i),
     v_partial = map_of (dir (jr s)) (partial_path env i),
     v_synced = map_of (synced (jr s)) (path env i), v_traced = (i \<in> set (traces (database s))),
     v_receipt = map_of (receipts (database s)) i, v_page = (i \<in> set (clean_page s)),
     v_removable = (i \<in> set (clean_removable s)), v_used = (i \<in> used_ids s),
     v_journaled = {q \<in> journaled s. te_id (fst q) = i}\<rparr>"

definition holds :: "jenv \<Rightarrow> trace_event \<Rightarrow> append_plan \<Rightarrow> node option \<Rightarrow> bool" where
  "holds env e p f = (case f of Some (Reg c _) \<Rightarrow> c = record_bytes env e p | _ \<Rightarrow> False)"

definition prepared :: "jenv \<Rightarrow> trace_event \<Rightarrow> append_plan \<Rightarrow> bool" where
  "prepared env e p \<longleftrightarrow> (\<exists>charged. append_prepare env charged e = Inr p)"

text \<open>One owner at most: the ready queue, an append, or a worker.\<close>

definition owner_inv :: "view \<Rightarrow> bool" where
  "owner_inv v \<longleftrightarrow>
    (v_ready v \<longrightarrow> v_pending v \<and> v_append v = None \<and> v_worker v = None) \<and>
    (v_append v \<noteq> None \<longrightarrow> v_pending v \<and> v_worker v = None) \<and>
    (v_worker v \<noteq> None \<longrightarrow> v_pending v) \<and>
    (v_pending v \<or> v_traced v \<or> v_journaled v \<noteq> {} \<longrightarrow> v_used v) \<and>
    (v_file v \<noteq> None \<or> v_synced v \<noteq> None \<longrightarrow> v_pending v)"

text \<open>A pending record that is in the database has its receipt.\<close>

definition receipt_inv :: "uuid \<Rightarrow> view \<Rightarrow> bool" where
  "receipt_inv me v \<longleftrightarrow>
    (v_receipt v = Some me \<longrightarrow> v_traced v) \<and>
    (v_traced v \<and> v_pending v \<longrightarrow> v_receipt v = Some me) \<and>
    (v_page v \<longrightarrow> v_traced v) \<and>
    (v_removable v \<longrightarrow> v_traced v \<and> \<not> v_pending v) \<and>
    (v_worker v = Some W_ack \<or> v_worker v = Some W_acksync \<longrightarrow> v_traced v)"

definition phase_inv :: "jenv \<Rightarrow> uuid \<Rightarrow> view \<Rightarrow> bool" where
  "phase_inv env i v \<longleftrightarrow>
    (v_worker v = Some W_acksync \<or> (\<exists>n io. v_worker v = Some (W_moved n io)) \<longrightarrow> v_file v = None) \<and>
    (\<forall>e p ph. v_append v = Some (e, p, ph) \<longrightarrow>
       te_id e = i \<and> prepared env e p \<and> v_journaled v = {} \<and>
       (ph = A_written \<longrightarrow> holds env e p (v_partial v)) \<and>
       (ph = A_renamed \<longrightarrow> holds env e p (v_file v)) \<and>
       (\<forall>n io. ph = A_moved n io \<longrightarrow> v_file v = None))"

text \<open>A journaled record is in the database, or its file is intact both in the
  directory and in what a crash leaves, and no worker takes it for invalid.\<close>

definition kept_inv :: "jenv \<Rightarrow> view \<Rightarrow> bool" where
  "kept_inv env v \<longleftrightarrow>
    (\<forall>e p. (e, p) \<in> v_journaled v \<longrightarrow> prepared env e p \<and>
      (p_memory p \<le> MAX_RECORD_MEMORY \<longrightarrow>
        v_traced v \<or>
        holds env e p (v_file v) \<and> holds env e p (v_synced v) \<and>
        v_worker v \<noteq> Some W_invalid \<and> (\<forall>n io. v_worker v \<noteq> Some (W_moved n io))))"

definition local_inv :: "jenv \<Rightarrow> uuid \<Rightarrow> uuid \<Rightarrow> view \<Rightarrow> bool" where
  "local_inv env me i v \<longleftrightarrow> owner_inv v \<and> receipt_inv me v \<and> phase_inv env i v \<and> kept_inv env v"

definition global_inv :: "jenv \<Rightarrow> dsys \<Rightarrow> bool" where
  "global_inv env s \<longleftrightarrow>
    catalog_inv (catalog (jr s)) \<and> bt_wf (receipts (database s)) \<and> distinct (traces (database s)) \<and>
    (\<forall>n. map_of (dir (jr s)) n \<noteq> None \<or> map_of (synced (jr s)) n \<noteq> None \<longrightarrow> name_ok env n)"

definition dinv :: "jenv \<Rightarrow> uuid \<Rightarrow> dsys \<Rightarrow> bool" where
  "dinv env me s \<longleftrightarrow> global_inv env s \<and> (\<forall>i. local_inv env me i (view env s i))"

text \<open>A step on one record leaves the others as they are, up to a directory sync.\<close>

definition same_or_synced :: "view \<Rightarrow> view \<Rightarrow> bool" where
  "same_or_synced v v' \<longleftrightarrow> v' = v \<or> v' = v\<lparr>v_synced := v_file v\<rparr>"

lemma owner_inv_synced: "owner_inv v \<Longrightarrow> owner_inv (v\<lparr>v_synced := v_file v\<rparr>)"
  by (cases v) (auto simp: owner_inv_def)

lemma kept_inv_synced: "kept_inv env v \<Longrightarrow> kept_inv env (v\<lparr>v_synced := v_file v\<rparr>)"
  by (cases v) (auto simp: kept_inv_def)

lemma phase_inv_synced: "phase_inv env i (v\<lparr>v_synced := f\<rparr>) = phase_inv env i v"
  by (cases v) (simp add: phase_inv_def)

lemma local_inv_synced: "local_inv env me i v \<Longrightarrow> local_inv env me i (v\<lparr>v_synced := v_file v\<rparr>)"
  by (simp add: local_inv_def owner_inv_synced kept_inv_synced phase_inv_synced receipt_inv_def)

lemma dinv_update:
  assumes "dinv env me s" and "global_inv env s'" and "local_inv env me i (view env s' i)"
    and "\<And>k. k \<noteq> i \<Longrightarrow> same_or_synced (view env s k) (view env s' k)"
  shows "dinv env me s'"
proof -
  have "local_inv env me k (view env s' k)" for k
  proof (cases "k = i")
    case False
    then show ?thesis using assms(1) assms(4) [of k] local_inv_synced [of env me k "view env s k"]
      by (auto simp: dinv_def same_or_synced_def)
  qed (use assms(3) in simp)
  then show ?thesis using assms(2) by (simp add: dinv_def)
qed

lemma dinv_local: "dinv env me s \<Longrightarrow> local_inv env me i (view env s i)"
  by (simp add: dinv_def)

lemma dinv_global: "dinv env me s \<Longrightarrow> global_inv env s"
  by (simp add: dinv_def)

lemma name_ok_path [simp]: "uuid_text_ok env \<Longrightarrow> name_ok env (path env i)"
  by (auto simp: name_ok_def strip_path uuid_text_ok_def)

lemma strip_trace_last: "strip_suffix ''.trace'' n = Some x \<Longrightarrow> ends_with n ''.trace''"
  by (auto simp: strip_suffix_def ends_with_def split: if_splits)

lemma not_trace_name_ok: "\<not> ends_with n ''.trace'' \<Longrightarrow> name_ok env n"
  by (auto simp: name_ok_def bind_eq_Some_conv dest: strip_trace_last)

lemma name_ok_partial [simp]: "name_ok env (partial_path env i)"
proof (rule not_trace_name_ok)
  have "last (partial_path env i) \<noteq> last ''.trace''" by simp
  then show "\<not> ends_with (partial_path env i) ''.trace''"
    unfolding ends_with_def using suffix_last by fastforce
qed

lemma quarantine_not_trace: "ends_with n ''.quarantine'' \<Longrightarrow> \<not> ends_with n ''.trace''"
proof
  assume "ends_with n ''.quarantine''" "ends_with n ''.trace''"
  then obtain a b where "n = a @ ''.quarantine''" "n = b @ ''.trace''" by (auto simp: ends_with_def suffix_def)
  then have "rev (a @ ''.quarantine'') = rev (b @ ''.trace'')" by simp
  then show False by simp
qed

lemma name_ok_quarantine [simp]: "name_ok env (quarantine_path env i q)" "name_ok env (rescue_name env q n)"
  by (intro not_trace_name_ok quarantine_not_trace quarantine_path_ends rescue_name_ends)+

lemma name_ok_adoptable: "name_ok env n \<Longrightarrow> adoptable env n c = Some (i, m) \<Longrightarrow> n = path env i"
  by (auto simp: name_ok_def adoptable_def split: option.splits sum.splits)

section \<open>Preservation, step by step\<close>

lemmas inv_defs = view_def local_inv_def owner_inv_def receipt_inv_def phase_inv_def kept_inv_def

lemma view_frame:
  assumes "\<And>k. k \<noteq> i \<Longrightarrow> (k \<in> pending (catalog (jr s'))) = (k \<in> pending (catalog (jr s)))"
    and "\<And>k. k \<noteq> i \<Longrightarrow> (k \<in> set (ready (catalog (jr s')))) = (k \<in> set (ready (catalog (jr s))))"
    and "\<And>k. k \<noteq> i \<Longrightarrow> appends s' k = appends s k" and "\<And>k. k \<noteq> i \<Longrightarrow> workers s' k = workers s k"
    and "\<And>k. k \<noteq> i \<Longrightarrow> map_of (dir (jr s')) (path env k) = map_of (dir (jr s)) (path env k)"
    and "\<And>k. k \<noteq> i \<Longrightarrow> map_of (dir (jr s')) (partial_path env k) = map_of (dir (jr s)) (partial_path env k)"
    and "synced (jr s') = synced (jr s) \<or> synced (jr s') = dir (jr s')"
    and "\<And>k. k \<noteq> i \<Longrightarrow> (k \<in> set (traces (database s'))) = (k \<in> set (traces (database s)))"
    and "\<And>k. k \<noteq> i \<Longrightarrow> map_of (receipts (database s')) k = map_of (receipts (database s)) k"
    and "clean_page s' = clean_page s" and "clean_removable s' = clean_removable s"
    and "\<And>k. k \<noteq> i \<Longrightarrow> (k \<in> used_ids s') = (k \<in> used_ids s)"
    and "\<And>k. k \<noteq> i \<Longrightarrow> {q \<in> journaled s'. te_id (fst q) = k} = {q \<in> journaled s. te_id (fst q) = k}"
    and "k \<noteq> i"
  shows "same_or_synced (view env s k) (view env s' k)"
  using assms(7)
proof
  assume "synced (jr s') = synced (jr s)"
  then have "view env s' k = view env s k"
    unfolding view_def by (simp add: assms)
  then show ?thesis by (simp add: same_or_synced_def)
next
  assume "synced (jr s') = dir (jr s')"
  then have "view env s' k = (view env s k)\<lparr>v_synced := v_file (view env s k)\<rparr>"
    unfolding view_def by (simp add: assms)
  then show ?thesis by (simp add: same_or_synced_def)
qed


lemma append_phase:
  assumes "dinv env me s" and "appends s i = Some (e, p, ph)"
  shows "te_id e = i" and "prepared env e p" and "{q \<in> journaled s. te_id (fst q) = i} = {}"
    and "i \<in> pending (catalog (jr s))" and "i \<notin> set (ready (catalog (jr s)))" and "workers s i = None"
    and "ph = A_written \<Longrightarrow> holds env e p (map_of (dir (jr s)) (partial_path env i))"
    and "ph = A_renamed \<Longrightarrow> holds env e p (map_of (dir (jr s)) (path env i))"
    and "ph = A_moved n io \<Longrightarrow> map_of (dir (jr s)) (path env i) = None"
proof -
  have L: "owner_inv (view env s i)" "phase_inv env i (view env s i)"
    using dinv_local [OF assms(1), of i] by (simp_all add: local_inv_def)
  from L(2) assms(2) show "te_id e = i" "prepared env e p" "{q \<in> journaled s. te_id (fst q) = i} = {}"
    "ph = A_written \<Longrightarrow> holds env e p (map_of (dir (jr s)) (partial_path env i))"
    "ph = A_renamed \<Longrightarrow> holds env e p (map_of (dir (jr s)) (path env i))"
    "ph = A_moved n io \<Longrightarrow> map_of (dir (jr s)) (path env i) = None"
    by (simp_all add: phase_inv_def view_def)
  from L(1) assms(2) show "i \<in> pending (catalog (jr s))" "i \<notin> set (ready (catalog (jr s)))" "workers s i = None"
    by (auto simp: owner_inv_def view_def)
qed

text \<open>Changing the files and the phase of an append, the catalog staying as it is.\<close>

lemma dinv_append_files:
  assumes inv: "dinv env me s" and ap: "appends s i = Some (e, p, ph)"
    and cat: "catalog j = catalog (jr s)" and syn: "synced j = synced (jr s)"
    and other: "\<And>k. k \<noteq> i \<Longrightarrow> map_of (dir j) (path env k) = map_of (dir (jr s)) (path env k)"
      "\<And>k. k \<noteq> i \<Longrightarrow> map_of (dir j) (partial_path env k) = map_of (dir (jr s)) (partial_path env k)"
    and names: "\<And>n. map_of (dir j) n \<noteq> None \<Longrightarrow> name_ok env n"
    and phase: "ph' = A_written \<Longrightarrow> holds env e p (map_of (dir j) (partial_path env i))"
      "ph' = A_renamed \<Longrightarrow> holds env e p (map_of (dir j) (path env i))"
      "\<And>n io. ph' = A_moved n io \<Longrightarrow> map_of (dir j) (path env i) = None"
  shows "dinv env me (s\<lparr>jr := j, appends := (appends s)(i \<mapsto> (e, p, ph'))\<rparr>)"
proof (rule dinv_update [OF inv, where i = i])
  show "global_inv env (s\<lparr>jr := j, appends := (appends s)(i \<mapsto> (e, p, ph'))\<rparr>)"
    using dinv_global [OF inv] names by (auto simp: global_inv_def cat syn)
  show "local_inv env me i (view env (s\<lparr>jr := j, appends := (appends s)(i \<mapsto> (e, p, ph'))\<rparr>) i)"
    using dinv_local [OF inv, of i] append_phase [OF inv ap] phase by (simp add: inv_defs cat syn) blast
  fix k assume "k \<noteq> i"
  then show "same_or_synced (view env s k) (view env (s\<lparr>jr := j, appends := (appends s)(i \<mapsto> (e, p, ph'))\<rparr>) k)"
    by (rule view_frame [rotated -1]) (simp_all add: cat syn other)
qed

lemma global_names: "dinv env me s \<Longrightarrow> map_of (dir (jr s)) n \<noteq> None \<Longrightarrow> name_ok env n"
  by (auto dest!: dinv_global simp: global_inv_def)

lemma inv_write:
  assumes "uuid_text_ok env" and inv: "dinv env me s" and ap: "appends s i = Some (e, p, A_admitted)"
    and w: "append_write env io e p (jr s) = (r, j)" and ph: "ph' = (if r = Inr () then A_written else A_failed)"
  shows "dinv env me (s\<lparr>jr := j, appends := (appends s)(i \<mapsto> (e, p, ph'))\<rparr>)"
proof (rule dinv_append_files [OF inv ap])
  note i = append_phase(1) [OF inv ap]
  note f = append_write_frame [OF w, unfolded i]
  show "catalog j = catalog (jr s)" "synced j = synced (jr s)" using f by simp_all
  show "\<And>k. k \<noteq> i \<Longrightarrow> map_of (dir j) (path env k) = map_of (dir (jr s)) (path env k)" using f by simp
  show "\<And>k. k \<noteq> i \<Longrightarrow> map_of (dir j) (partial_path env k) = map_of (dir (jr s)) (partial_path env k)"
    using f partial_path_inj [OF assms(1)] by simp
  show "\<And>n. map_of (dir j) n \<noteq> None \<Longrightarrow> name_ok env n"
    using f global_names [OF inv] by (metis name_ok_partial)
  show "ph' = A_written \<Longrightarrow> holds env e p (map_of (dir j) (partial_path env i))"
    using append_write_ok w ph i by (auto simp: holds_def split: if_splits)
qed (simp_all add: ph split: if_splits)

lemma inv_rename:
  assumes "uuid_text_ok env" and inv: "dinv env me s" and ap: "appends s i = Some (e, p, A_written)"
    and r: "append_rename env io i (jr s) = (r, j)" and ph: "ph' = (if r = Inr () then A_renamed else A_failed)"
  shows "dinv env me (s\<lparr>jr := j, appends := (appends s)(i \<mapsto> (e, p, ph'))\<rparr>)"
proof (cases r)
  case (Inl err)
  have "j = jr s" using append_rename_error r Inl by auto
  then show ?thesis using global_names [OF inv] ph Inl by (intro dinv_append_files [OF inv ap]) auto
next
  case (Inr u)
  have j: "j = (jr s)\<lparr>dir := rename (partial_path env i) (path env i) (dir (jr s))\<rparr>"
    using append_rename_ok r Inr by blast
  show ?thesis
  proof (rule dinv_append_files [OF inv ap])
    show "\<And>k. k \<noteq> i \<Longrightarrow> map_of (dir j) (path env k) = map_of (dir (jr s)) (path env k)"
      "\<And>k. k \<noteq> i \<Longrightarrow> map_of (dir j) (partial_path env k) = map_of (dir (jr s)) (partial_path env k)"
      by (simp_all add: j rename_other path_inj partial_path_inj assms(1))
    show "\<And>n. map_of (dir j) n \<noteq> None \<Longrightarrow> name_ok env n"
      using global_names [OF inv] assms(1) by (auto simp: j rename_lookup split: option.splits if_splits)
    show "ph' = A_renamed \<Longrightarrow> holds env e p (map_of (dir j) (path env i))"
      using append_phase(7) [OF inv ap] by (auto simp: j rename_lookup holds_def split: option.splits)
  qed (simp_all add: j ph Inr)
qed

lemma inv_append_quarantine:
  assumes "uuid_text_ok env" and inv: "dinv env me s" and ap: "appends s i = Some (e, p, A_failed)"
    and q: "quarantine_files env io i (jr s) = (Inr n, j)"
  shows "dinv env me (s\<lparr>jr := j, appends := (appends s)(i \<mapsto> (e, p, A_moved n io))\<rparr>)"
proof (rule dinv_append_files [OF inv ap])
  note f = quarantine_files_ok [OF q]
  show "catalog j = catalog (jr s)" "synced j = synced (jr s)" using f(1,2) by simp_all
  show "\<And>k. k \<noteq> i \<Longrightarrow> map_of (dir j) (path env k) = map_of (dir (jr s)) (path env k)"
    "\<And>k. k \<noteq> i \<Longrightarrow> map_of (dir j) (partial_path env k) = map_of (dir (jr s)) (partial_path env k)"
    by (simp_all add: f(3) path_inj partial_path_inj assms(1))
  show "\<And>m. map_of (dir j) m \<noteq> None \<Longrightarrow> name_ok env m"
    using f(3) global_names [OF inv] assms(1) by (metis name_ok_partial name_ok_path name_ok_quarantine(1))
  show "\<And>n' io'. A_moved n io = A_moved n' io' \<Longrightarrow> map_of (dir j) (path env i) = None"
    using f(4) by (simp add: path_exists_def)
qed simp_all

lemma inv_admit:
  assumes ok: "env_ok env" and inv: "dinv env me s" and new: "te_id e \<notin> used_ids s"
    and p: "append_prepare env charged e = Inr p"
    and adm: "append_admit env now (te_id e) p (catalog (jr s)) = Inr c"
  shows "dinv env me (s\<lparr>jr := (jr s)\<lparr>catalog := c\<rparr>,
    appends := (appends s)(te_id e \<mapsto> (e, p, A_admitted)), used_ids := insert (te_id e) (used_ids s)\<rparr>)"
    (is "dinv env me ?s")
proof (rule dinv_update [OF inv, where i = "te_id e"])
  have cinv: "catalog_inv (catalog (jr s))" using dinv_global [OF inv] by (simp add: global_inv_def)
  note a = append_admit_inv [OF cinv adm ok]
  have L: "owner_inv (view env s (te_id e))" "receipt_inv me (view env s (te_id e))"
    using dinv_local [OF inv, of "te_id e"] by (simp_all add: local_inv_def)
  have fresh: "te_id e \<notin> pending (catalog (jr s))" "te_id e \<notin> set (traces (database s))"
    "{q \<in> journaled s. te_id (fst q) = te_id e} = {}" "te_id e \<notin> set (ready (catalog (jr s)))"
    "workers s (te_id e) = None"
    using L(1) new by (auto simp: owner_inv_def view_def)
  have clean: "te_id e \<notin> set (clean_page s)" "te_id e \<notin> set (clean_removable s)"
    "map_of (receipts (database s)) (te_id e) \<noteq> Some me"
    using L(2) fresh by (auto simp: receipt_inv_def view_def)
  show "global_inv env ?s" using dinv_global [OF inv] a(1) by (simp add: global_inv_def)
  have pr: "prepared env e p" using p by (auto simp: prepared_def)
  show "local_inv env me (te_id e) (view env ?s (te_id e))"
    using fresh clean a(2,3) pr by (simp add: inv_defs) blast
  fix k assume "k \<noteq> te_id e"
  then show "same_or_synced (view env s k) (view env ?s k)"
    by (rule view_frame [rotated -1]) (simp_all add: a(2,3))
qed

lemma inv_publish:
  assumes inv: "dinv env me s" and ap: "appends s i = Some (e, p, A_renamed)"
    and sy: "append_sync io (jr s) = (Inr (), j)"
  shows "dinv env me (s\<lparr>jr := append_publish i j, appends := (appends s)(i := None),
      journaled := insert (e, p) (journaled s)\<rparr>)" (is "dinv env me ?s")
proof (rule dinv_update [OF inv, where i = i])
  have j: "j = sync_directory (jr s)" using sy by (auto simp: append_sync_cases)
  note a = append_phase [OF inv ap]
  have L: "owner_inv (view env s i)" "receipt_inv me (view env s i)"
    using dinv_local [OF inv, of i] by (simp_all add: local_inv_def)
  note G = dinv_global [OF inv]
  show "global_inv env ?s"
    using G append_publish_inv [of j i] a(4,5) by (simp add: global_inv_def j)
  have "{q. (q = (e, p) \<or> q \<in> journaled s) \<and> te_id (fst q) = i} = {(e, p)}" using a(1,3) by auto
  then have v: "view env ?s i = (view env s i)\<lparr>v_ready := True, v_append := None,
      v_synced := v_file (view env s i), v_journaled := {(e, p)}\<rparr>"
    by (simp add: view_def j)
  have w: "v_pending (view env s i)" "v_worker (view env s i) = None" "holds env e p (v_file (view env s i))"
    using a(4,6,8) by (simp_all add: view_def)
  have "owner_inv (view env ?s i)" using L(1) w unfolding v by (simp add: owner_inv_def)
  moreover have "receipt_inv me (view env ?s i)" using L(2) w unfolding v by (simp add: receipt_inv_def)
  moreover have "phase_inv env i (view env ?s i)" using w unfolding v by (simp add: phase_inv_def)
  moreover have "kept_inv env (view env ?s i)" using w a(2) unfolding v by (simp add: kept_inv_def)
  ultimately show "local_inv env me i (view env ?s i)" by (simp add: local_inv_def)
  fix k assume "k \<noteq> i"
  then show "same_or_synced (view env s k) (view env ?s k)"
    by (rule view_frame [rotated -1]) (auto simp: j a(1))
qed

lemma inv_sync_failed:
  assumes inv: "dinv env me s" and ap: "appends s i = Some (e, p, A_renamed)"
    and sy: "append_sync io (jr s) = (Inl err, j)"
  shows "dinv env me (s\<lparr>jr := j, appends := (appends s)(i \<mapsto> (e, p, A_failed))\<rparr>)"
  using sy global_names [OF inv] by (intro dinv_append_files [OF inv ap]) (auto simp: append_sync_cases)

lemma inv_append_stuck:
  assumes inv: "dinv env me s" and ap: "appends s i = Some (e, p, ph)"
  shows "dinv env me (s\<lparr>appends := (appends s)(i := None)\<rparr>)" (is "dinv env me ?s")
proof (rule dinv_update [OF inv, where i = i])
  show "global_inv env ?s" using dinv_global [OF inv] by (simp add: global_inv_def)
  have v: "view env ?s i = (view env s i)\<lparr>v_append := None\<rparr>" by (simp add: view_def)
  have "local_inv env me i (view env s i)" by (rule dinv_local [OF inv])
  then show "local_inv env me i (view env ?s i)"
    unfolding v by (simp add: local_inv_def owner_inv_def receipt_inv_def phase_inv_def kept_inv_def)
  fix k assume "k \<noteq> i"
  then show "same_or_synced (view env s k) (view env ?s k)"
    by (rule view_frame [rotated -1]) simp_all
qed

text \<open>Removing a record from the catalog after its file is gone and the directory synced.\<close>

lemma dinv_forget:
  assumes inv: "dinv env me s" and gone: "map_of (dir (jr s)) (path env i) = None"
    and nr: "i \<notin> set (ready (catalog (jr s)))"
    and kept: "\<And>e p. (e, p) \<in> journaled s \<Longrightarrow> te_id e = i \<Longrightarrow> p_memory p \<le> MAX_RECORD_MEMORY \<Longrightarrow> i \<in> set (traces (database s))"
    and j: "entries (catalog j) = entries (remove_entry i (catalog (jr s)))" "ready (catalog j) = ready (catalog (jr s))"
      "catalog_inv (catalog j)" "dir j = dir (jr s)" "synced j = dir (jr s)"
    and w: "\<And>k. k \<noteq> i \<Longrightarrow> A k = appends s k \<and> W k = workers s k" "A i = None" "W i = None"
  shows "dinv env me (s\<lparr>jr := j, appends := A, workers := W\<rparr>)" (is "dinv env me ?s")
proof (rule dinv_update [OF inv, where i = i])
  have cinv: "catalog_inv (catalog (jr s))" using dinv_global [OF inv] by (simp add: global_inv_def)
  have pend: "pending (catalog j) = pending (catalog (jr s)) - {i}"
    using remove_entry_pending [OF catalog_inv_wf [OF cinv], of i] j(1) by simp
  show "global_inv env ?s" using dinv_global [OF inv] j by (simp add: global_inv_def)
  have L: "owner_inv (view env s i)" "receipt_inv me (view env s i)" "kept_inv env (view env s i)"
    using dinv_local [OF inv, of i] by (simp_all add: local_inv_def)
  have v: "view env ?s i = (view env s i)\<lparr>v_pending := False, v_ready := False, v_append := None,
      v_worker := None, v_file := None, v_synced := None\<rparr>"
    using gone nr w(2,3) pend j(2,4,5) by (simp add: view_def)
  have "owner_inv (view env ?s i)" using L(1) unfolding v by (simp add: owner_inv_def)
  moreover have "receipt_inv me (view env ?s i)" using L(2) unfolding v by (simp add: receipt_inv_def)
  moreover have "phase_inv env i (view env ?s i)" unfolding v by (simp add: phase_inv_def)
  moreover have "kept_inv env (view env ?s i)"
    using L(3) kept unfolding v by (simp add: kept_inv_def view_def) blast
  ultimately show "local_inv env me i (view env ?s i)" by (simp add: local_inv_def)
  fix k assume "k \<noteq> i"
  then show "same_or_synced (view env s k) (view env ?s k)"
    by (rule view_frame [rotated -1]) (simp_all add: remove_entry_pending [OF catalog_inv_wf [OF cinv]] j w(1))
qed

lemma inv_append_quarantined:
  assumes inv: "dinv env me s" and ap: "appends s i = Some (e, p, A_moved n io)"
  shows "dinv env me (s\<lparr>jr := quarantine_catalog env io i n (sync_directory (jr s)), appends := (appends s)(i := None)\<rparr>)"
proof -
  note a = append_phase [OF inv ap]
  have cinv: "catalog_inv (catalog (jr s))" using dinv_global [OF inv] by (simp add: global_inv_def)
  have "dinv env me (s\<lparr>jr := quarantine_catalog env io i n (sync_directory (jr s)),
      appends := (appends s)(i := None), workers := workers s\<rparr>)"
    using a cinv
    by (intro dinv_forget [OF inv]) (auto intro!: quarantine_catalog_inv)
  then show ?thesis by simp
qed

lemma worker_phase:
  assumes "dinv env me s" and "workers s i = Some ph"
  shows "i \<in> pending (catalog (jr s))" and "i \<notin> set (ready (catalog (jr s)))" and "appends s i = None"
    and "ph = W_ack \<or> ph = W_acksync \<Longrightarrow> i \<in> set (traces (database s))"
    and "ph = W_acksync \<or> ph = W_moved n io \<Longrightarrow> map_of (dir (jr s)) (path env i) = None"
    and "(e, p) \<in> journaled s \<Longrightarrow> te_id e = i \<Longrightarrow> p_memory p \<le> MAX_RECORD_MEMORY \<Longrightarrow>
      ph = W_invalid \<or> ph = W_moved n io \<Longrightarrow> i \<in> set (traces (database s))"
    and "i \<in> set (traces (database s)) \<longleftrightarrow> map_of (receipts (database s)) i = Some me"
proof -
  have L: "owner_inv (view env s i)" "receipt_inv me (view env s i)" "phase_inv env i (view env s i)"
    "kept_inv env (view env s i)"
    using dinv_local [OF assms(1), of i] by (simp_all add: local_inv_def)
  from L(1) assms(2) show "i \<in> pending (catalog (jr s))" "i \<notin> set (ready (catalog (jr s)))" "appends s i = None"
    by (cases "appends s i", simp_all add: owner_inv_def view_def)+
  with L(2) assms(2) show "ph = W_ack \<or> ph = W_acksync \<Longrightarrow> i \<in> set (traces (database s))"
    "i \<in> set (traces (database s)) \<longleftrightarrow> map_of (receipts (database s)) i = Some me"
    by (auto simp: receipt_inv_def view_def)
  from L(3) assms(2) show "ph = W_acksync \<or> ph = W_moved n io \<Longrightarrow> map_of (dir (jr s)) (path env i) = None"
    by (auto simp: phase_inv_def view_def)
  from L(4) assms(2) show "(e, p) \<in> journaled s \<Longrightarrow> te_id e = i \<Longrightarrow> p_memory p \<le> MAX_RECORD_MEMORY \<Longrightarrow>
      ph = W_invalid \<or> ph = W_moved n io \<Longrightarrow> i \<in> set (traces (database s))"
    by (auto simp: kept_inv_def view_def)
qed

lemma inv_invalid_quarantined:
  assumes inv: "dinv env me s" and wk: "workers s i = Some (W_moved n io)"
  shows "dinv env me (s\<lparr>jr := quarantine_catalog env io i n (sync_directory (jr s)), workers := (workers s)(i := None)\<rparr>)"
proof -
  note a = worker_phase [OF inv wk]
  have cinv: "catalog_inv (catalog (jr s))" using dinv_global [OF inv] by (simp add: global_inv_def)
  have "dinv env me (s\<lparr>jr := quarantine_catalog env io i n (sync_directory (jr s)),
      appends := appends s, workers := (workers s)(i := None)\<rparr>)"
    using a cinv
    by (intro dinv_forget [OF inv]) (auto intro!: quarantine_catalog_inv)
  then show ?thesis by simp
qed

lemma inv_ack_finish:
  assumes inv: "dinv env me s" and wk: "workers s i = Some W_acksync"
  shows "dinv env me (s\<lparr>jr := acknowledge_finish i (jr s), workers := (workers s)(i := None)\<rparr>)"
proof -
  note a = worker_phase [OF inv wk]
  have cinv: "catalog_inv (catalog (jr s))" using dinv_global [OF inv] by (simp add: global_inv_def)
  have "dinv env me (s\<lparr>jr := acknowledge_finish i (jr s), appends := appends s, workers := (workers s)(i := None)\<rparr>)"
    using a cinv by (intro dinv_forget [OF inv]) (auto intro!: remove_entry_inv)
  then show ?thesis by simp
qed

text \<open>A worker's next phase, possibly with its record's file changed.\<close>

lemma dinv_worker_files:
  assumes inv: "dinv env me s" and wk: "workers s i = Some ph"
    and cat: "catalog j = catalog (jr s)" and syn: "synced j = synced (jr s)"
    and other: "\<And>k. k \<noteq> i \<Longrightarrow> map_of (dir j) (path env k) = map_of (dir (jr s)) (path env k)"
      "\<And>k. k \<noteq> i \<Longrightarrow> map_of (dir j) (partial_path env k) = map_of (dir (jr s)) (partial_path env k)"
    and names: "\<And>n. map_of (dir j) n \<noteq> None \<Longrightarrow> name_ok env n"
    and traced: "ph' = W_ack \<or> ph' = W_acksync \<Longrightarrow> i \<in> set (traces (database s))"
    and gone: "\<And>n io. ph' = W_acksync \<or> ph' = W_moved n io \<Longrightarrow> map_of (dir j) (path env i) = None"
    and kept: "\<And>e p. (e, p) \<in> journaled s \<Longrightarrow> te_id e = i \<Longrightarrow> p_memory p \<le> MAX_RECORD_MEMORY \<Longrightarrow>
      i \<in> set (traces (database s)) \<or> (map_of (dir j) (path env i) = map_of (dir (jr s)) (path env i) \<and>
        ph' \<noteq> W_invalid \<and> (\<forall>n io. ph' \<noteq> W_moved n io))"
  shows "dinv env me (s\<lparr>jr := j, workers := (workers s)(i \<mapsto> ph')\<rparr>)" (is "dinv env me ?s")
proof (rule dinv_update [OF inv, where i = i])
  show "global_inv env ?s" using dinv_global [OF inv] names by (auto simp: global_inv_def cat syn)
  have L: "owner_inv (view env s i)" "receipt_inv me (view env s i)" "kept_inv env (view env s i)"
    using dinv_local [OF inv, of i] by (simp_all add: local_inv_def)
  have v: "view env ?s i = (view env s i)\<lparr>v_worker := Some ph', v_file := map_of (dir j) (path env i),
      v_partial := map_of (dir j) (partial_path env i)\<rparr>"
    by (simp add: view_def cat syn)
  note a = worker_phase(1-3) [OF inv wk]
  have w: "v_pending (view env s i)" "\<not> v_ready (view env s i)" "v_append (view env s i) = None"
    "v_traced (view env s i) = (i \<in> set (traces (database s)))" "v_worker (view env s i) = Some ph"
    using a wk by (simp_all add: view_def)
  have "owner_inv (view env ?s i)" using L(1) w unfolding v by (simp add: owner_inv_def)
  moreover have "receipt_inv me (view env ?s i)"
    using L(2) w traced unfolding v by (simp add: receipt_inv_def)
  moreover have "phase_inv env i (view env ?s i)"
    using w gone unfolding v by (simp add: phase_inv_def) blast
  moreover have "kept_inv env (view env ?s i)"
    using L(3) kept unfolding v by (simp add: kept_inv_def view_def) metis
  ultimately show "local_inv env me i (view env ?s i)" by (simp add: local_inv_def)
  fix k assume "k \<noteq> i"
  then show "same_or_synced (view env s k) (view env ?s k)"
    by (rule view_frame [rotated -1]) (simp_all add: cat syn other)
qed

lemma dinv_worker_phase:
  assumes inv: "dinv env me s" and wk: "workers s i = Some ph"
    and traced: "ph' = W_ack \<Longrightarrow> i \<in> set (traces (database s))"
    and no: "ph' \<noteq> W_acksync" "\<And>n io. ph' \<noteq> W_moved n io"
    and kept: "\<And>e p. (e, p) \<in> journaled s \<Longrightarrow> te_id e = i \<Longrightarrow> p_memory p \<le> MAX_RECORD_MEMORY \<Longrightarrow>
      ph' = W_invalid \<Longrightarrow> i \<in> set (traces (database s))"
  shows "dinv env me (s\<lparr>workers := (workers s)(i \<mapsto> ph')\<rparr>)"
proof -
  have "dinv env me (s\<lparr>jr := jr s, workers := (workers s)(i \<mapsto> ph')\<rparr>)"
    by (rule dinv_worker_files [OF inv wk])
       (use global_names [OF inv] traced no kept in \<open>simp_all, blast?\<close>)
  then show ?thesis by simp
qed

lemma persisted_iff:
  assumes "dinv env me s" and "workers s i = Some ph"
  shows "journal_trace_persisted i me (database s) = Inr True \<Longrightarrow> i \<in> set (traces (database s))"
    and "journal_trace_persisted i me (database s) = Inr False \<Longrightarrow> i \<notin> set (traces (database s))"
  using worker_phase(7) [OF assms]
  by (auto simp: journal_trace_persisted_def split: option.splits if_splits)

text \<open>Reading an intact record never finds it invalid.\<close>

lemma read_never_invalid:
  assumes inv: "dinv env me s" and env: "sha256_length (sha256 env)" "json_round_trip env"
    and rd: "read_journal env ok i (jr s) = Inl err" and "err \<noteq> Io_error"
    and q: "(e, p) \<in> journaled s" "te_id e = i" "p_memory p \<le> MAX_RECORD_MEMORY"
  shows "i \<in> set (traces (database s))"
proof (rule ccontr)
  assume "i \<notin> set (traces (database s))"
  moreover have "kept_inv env (view env s i)" using dinv_local [OF inv, of i] by (simp add: local_inv_def)
  ultimately have h: "holds env e p (map_of (dir (jr s)) (path env i))" and "prepared env e p"
    using q by (auto simp: kept_inv_def view_def)
  then obtain charged where p: "append_prepare env charged e = Inr p" by (auto simp: prepared_def)
  have "record_intact env e p (dir (jr s))" using h q(2) by (simp add: record_intact_def holds_def)
  from read_intact [OF this p env q(3), of ok] rd assms(5) q(2) show False by (cases ok) simp_all
qed

lemma inv_retry:
  assumes inv: "dinv env me s" and wk: "workers s i = Some ph"
  shows "dinv env me (s\<lparr>jr := retry env now i (jr s), workers := (workers s)(i := None)\<rparr>)" (is "dinv env me ?s")
proof (rule dinv_update [OF inv, where i = i])
  note a = worker_phase(1-3) [OF inv wk]
  have cinv: "catalog_inv (catalog (jr s))" using dinv_global [OF inv] by (simp add: global_inv_def)
  note r = retry_catalog_inv [OF cinv a(2), of env now]
  show "global_inv env ?s" using dinv_global [OF inv] r(1) by (simp add: global_inv_def retry_def)
  have L: "owner_inv (view env s i)" "receipt_inv me (view env s i)" "kept_inv env (view env s i)"
    using dinv_local [OF inv, of i] by (simp_all add: local_inv_def)
  have v: "view env ?s i = (view env s i)\<lparr>v_worker := None, v_ready := True\<rparr>"
    using a r(2,3) by (simp add: view_def retry_def)
  have w: "v_pending (view env s i)" "v_append (view env s i) = None" using a by (simp_all add: view_def)
  have "owner_inv (view env ?s i)" using L(1) w unfolding v by (simp add: owner_inv_def)
  moreover have "receipt_inv me (view env ?s i)" using L(2) unfolding v by (simp add: receipt_inv_def)
  moreover have "phase_inv env i (view env ?s i)" using w unfolding v by (simp add: phase_inv_def)
  moreover have "kept_inv env (view env ?s i)" using L(3) unfolding v by (simp add: kept_inv_def) blast
  ultimately show "local_inv env me i (view env ?s i)" by (simp add: local_inv_def)
  fix k assume "k \<noteq> i"
  then show "same_or_synced (view env s k) (view env ?s k)"
    by (rule view_frame [rotated -1]) (use a r(2,3) in \<open>simp_all add: retry_def\<close>)
qed

lemma inv_claim:
  assumes inv: "dinv env me s" and cl: "claim now mem (jr s) = (Some (cl, mem'), j)"
  shows "dinv env me (s\<lparr>jr := j, workers := (workers s)(cl_id cl \<mapsto> W_start)\<rparr>)" (is "dinv env me ?s")
proof (rule dinv_update [OF inv, where i = "cl_id cl"])
  have cinv: "catalog_inv (catalog (jr s))" using dinv_global [OF inv] by (simp add: global_inv_def)
  note c = claim_spec [OF cinv cl]
  obtain xs where j: "j = (jr s)\<lparr>catalog := (catalog (jr s))\<lparr>ready := xs\<rparr>\<rparr>" using c(2) by blast
  have r: "cl_id cl \<in> set (ready (catalog (jr s)))" "set xs = set (ready (catalog (jr s))) - {cl_id cl}"
    using c(5) j by (simp_all add: claim_result_def)
  show "global_inv env ?s" using dinv_global [OF inv] c(1) j by (simp add: global_inv_def)
  have L: "owner_inv (view env s (cl_id cl))" "receipt_inv me (view env s (cl_id cl))" "kept_inv env (view env s (cl_id cl))"
    using dinv_local [OF inv, of "cl_id cl"] by (simp_all add: local_inv_def)
  have v: "view env ?s (cl_id cl) = (view env s (cl_id cl))\<lparr>v_worker := Some W_start, v_ready := False\<rparr>"
    by (simp add: view_def j r)
  have w: "v_ready (view env s (cl_id cl))" using r by (simp add: view_def)
  have "owner_inv (view env ?s (cl_id cl))" using L(1) w unfolding v by (simp add: owner_inv_def)
  moreover have "receipt_inv me (view env ?s (cl_id cl))" using L(2) unfolding v by (simp add: receipt_inv_def)
  moreover have "phase_inv env (cl_id cl) (view env ?s (cl_id cl))"
    using L(1) w unfolding v by (simp add: phase_inv_def owner_inv_def)
  moreover have "kept_inv env (view env ?s (cl_id cl))" using L(3) unfolding v by (simp add: kept_inv_def) blast
  ultimately show "local_inv env me (cl_id cl) (view env ?s (cl_id cl))" by (simp add: local_inv_def)
  fix k assume "k \<noteq> cl_id cl"
  then show "same_or_synced (view env s k) (view env ?s k)"
    by (rule view_frame [rotated -1]) (simp_all add: j r)
qed

lemma inv_claim_none:
  assumes inv: "dinv env me s" and cl: "claim now mem (jr s) = (None, j)"
  shows "dinv env me (s\<lparr>jr := j\<rparr>)" (is "dinv env me ?s")
proof -
  have cinv: "catalog_inv (catalog (jr s))" using dinv_global [OF inv] by (simp add: global_inv_def)
  note c = claim_spec [OF cinv cl]
  obtain xs where j: "j = (jr s)\<lparr>catalog := (catalog (jr s))\<lparr>ready := xs\<rparr>\<rparr>" using c(2) by blast
  have "view env ?s k = view env s k" for k using c(3) by (simp add: view_def j)
  then show ?thesis using inv c(1) j by (simp add: dinv_def global_inv_def)
qed

lemma insert_journaled_cases:
  assumes "insert_journaled_trace i me d = (Inr (), d')"
  obtains (new) "map_of (receipts d) i = None" "d' = d\<lparr>receipts := bt_insert i me (receipts d), traces := traces d @ [i]\<rparr>"
  | (known) "map_of (receipts d) i = Some me" "d' = d"
  using assms by (auto simp: insert_journaled_trace_def split: option.splits if_splits)

text \<open>The insertion itself, the worker staying where it is.\<close>

lemma inv_insert:
  assumes inv: "dinv env me s" and wk: "workers s i = Some ph"
    and ins: "insert_journaled_trace i me (database s) = (Inr (), d)"
  shows "dinv env me (s\<lparr>database := d\<rparr>)" (is "dinv env me ?s") and "i \<in> set (traces d)"
proof -
  note a = worker_phase [OF inv wk]
  have G: "bt_wf (receipts (database s))" "distinct (traces (database s))"
    using dinv_global [OF inv] by (simp_all add: global_inv_def)
  show "i \<in> set (traces d)" using ins a(7) by (cases rule: insert_journaled_cases) auto
  show "dinv env me ?s"
    using ins
  proof (cases rule: insert_journaled_cases)
    case known then show ?thesis using inv by simp
  next
    case new
    have fresh: "i \<notin> set (traces (database s))" using a(7) new(1) by simp
    show ?thesis
    proof (rule dinv_update [OF inv, where i = i])
      show "global_inv env ?s"
        using dinv_global [OF inv] fresh new(2) by (auto simp: global_inv_def)
      have L: "owner_inv (view env s i)" "receipt_inv me (view env s i)" "phase_inv env i (view env s i)"
        "kept_inv env (view env s i)"
        using dinv_local [OF inv, of i] by (simp_all add: local_inv_def)
      have v: "view env ?s i = (view env s i)\<lparr>v_traced := True, v_receipt := Some me\<rparr>"
        by (simp add: view_def new(2) bt.lookup_ins [OF G(1)])
      have w: "v_pending (view env s i)" using a(1) by (simp add: view_def)
      have "owner_inv (view env ?s i)" using L(1) w unfolding v by (simp add: owner_inv_def)
      moreover have "receipt_inv me (view env ?s i)" using L(2) w unfolding v by (simp add: receipt_inv_def)
      moreover have "phase_inv env i (view env ?s i)" using L(3) unfolding v by (simp add: phase_inv_def)
      moreover have "kept_inv env (view env ?s i)" using L(4) unfolding v by (simp add: kept_inv_def)
      ultimately show "local_inv env me i (view env ?s i)" by (simp add: local_inv_def)
      fix k assume "k \<noteq> i"
      then show "same_or_synced (view env s k) (view env ?s k)"
        by (rule view_frame [rotated -1]) (simp_all add: new(2) bt.lookup_ins [OF G(1)])
    qed
  qed
qed

lemma inv_insert_ok:
  assumes "dinv env me s" and "workers s i = Some ph" and "insert_journaled_trace i me (database s) = (Inr (), d)"
  shows "dinv env me (s\<lparr>database := d, workers := (workers s)(i \<mapsto> W_ack)\<rparr>)"
  using dinv_worker_phase [OF inv_insert(1) [OF assms], of i ph W_ack] inv_insert(2) [OF assms] assms(2) by simp

lemma inv_insert_unknown:
  assumes "dinv env me s" and "workers s i = Some ph" and "insert_journaled_trace i me (database s) = (Inr (), d)"
  shows "dinv env me (s\<lparr>database := d, jr := retry env now i (jr s), workers := (workers s)(i := None)\<rparr>)"
  using inv_retry [OF inv_insert(1) [OF assms], of i ph now] assms(2) by simp

lemma inv_ack_remove:
  assumes "uuid_text_ok env" and inv: "dinv env me s" and wk: "workers s i = Some W_ack"
    and rm: "acknowledge_remove env io i (jr s) = (Inr (), j)"
  shows "dinv env me (s\<lparr>jr := j, workers := (workers s)(i \<mapsto> W_acksync)\<rparr>)"
proof (rule dinv_worker_files [OF inv wk])
  note f = acknowledge_remove_ok [OF rm]
  show "catalog j = catalog (jr s)" "synced j = synced (jr s)" using f by simp_all
  show "\<And>k. k \<noteq> i \<Longrightarrow> map_of (dir j) (path env k) = map_of (dir (jr s)) (path env k)"
    "\<And>k. k \<noteq> i \<Longrightarrow> map_of (dir j) (partial_path env k) = map_of (dir (jr s)) (partial_path env k)"
    by (simp_all add: f(3) path_inj assms(1))
  show "\<And>n. map_of (dir j) n \<noteq> None \<Longrightarrow> name_ok env n"
    using global_names [OF inv] by (simp add: f(3) split: if_splits)
  show "map_of (dir j) (path env i) = None" by (simp add: f(3))
  show t: "i \<in> set (traces (database s))" using worker_phase(4) [OF inv wk] by simp
  then show "i \<in> set (traces (database s)) \<or> (map_of (dir j) (path env i) = map_of (dir (jr s)) (path env i) \<and>
        W_acksync \<noteq> W_invalid \<and> (\<forall>n io. W_acksync \<noteq> W_moved n io))" by simp
qed

lemma inv_invalid_quarantine:
  assumes "uuid_text_ok env" and inv: "dinv env me s" and wk: "workers s i = Some W_invalid"
    and q: "quarantine_files env io i (jr s) = (Inr n, j)"
  shows "dinv env me (s\<lparr>jr := j, workers := (workers s)(i \<mapsto> W_moved n io)\<rparr>)"
proof (rule dinv_worker_files [OF inv wk])
  note f = quarantine_files_ok [OF q]
  show "catalog j = catalog (jr s)" "synced j = synced (jr s)" using f(1,2) by simp_all
  show "\<And>k. k \<noteq> i \<Longrightarrow> map_of (dir j) (path env k) = map_of (dir (jr s)) (path env k)"
    "\<And>k. k \<noteq> i \<Longrightarrow> map_of (dir j) (partial_path env k) = map_of (dir (jr s)) (partial_path env k)"
    by (simp_all add: f(3) path_inj partial_path_inj assms(1))
  show "\<And>m. map_of (dir j) m \<noteq> None \<Longrightarrow> name_ok env m"
    using f(3) global_names [OF inv] assms(1) by (metis name_ok_partial name_ok_path name_ok_quarantine(1))
  show "map_of (dir j) (path env i) = None" using f(4) by (simp add: path_exists_def)
  fix e p assume "(e, p) \<in> journaled s" "te_id e = i" "p_memory p \<le> MAX_RECORD_MEMORY"
  then show "i \<in> set (traces (database s)) \<or> (map_of (dir j) (path env i) = map_of (dir (jr s)) (path env i) \<and>
        W_moved n io \<noteq> W_invalid \<and> (\<forall>n' io'. W_moved n io \<noteq> W_moved n' io'))"
    using worker_phase(6) [OF inv wk] by blast
qed simp_all

section \<open>The cleaner\<close>

lemma receipt_page_owned:
  "bt_wf (receipts d) \<Longrightarrow> i \<in> set (receipt_page me cursor d) \<Longrightarrow> map_of (receipts d) i = Some me \<and> cursor < i"
  by (auto simp: receipt_page_def bt_wf_distinct dest!: in_set_takeD)

lemma receipt_fields_irrelevant [simp]:
  "owner_inv (v\<lparr>v_page := apage\<rparr>) = owner_inv v"
  "owner_inv (v\<lparr>v_removable := aremovable\<rparr>) = owner_inv v"
  "owner_inv (v\<lparr>v_receipt := areceipt\<rparr>) = owner_inv v"
  "phase_inv env i (v\<lparr>v_page := apage\<rparr>) = phase_inv env i v"
  "phase_inv env i (v\<lparr>v_removable := aremovable\<rparr>) = phase_inv env i v"
  "phase_inv env i (v\<lparr>v_receipt := areceipt\<rparr>) = phase_inv env i v"
  "kept_inv env (v\<lparr>v_page := apage\<rparr>) = kept_inv env v"
  "kept_inv env (v\<lparr>v_removable := aremovable\<rparr>) = kept_inv env v"
  "kept_inv env (v\<lparr>v_receipt := areceipt\<rparr>) = kept_inv env v"
  by (simp_all add: owner_inv_def phase_inv_def kept_inv_def)

lemma inv_select_page:
  assumes inv: "dinv env me s"
  shows "dinv env me (s\<lparr>clean_page := receipt_page me cursor (database s), clean_removable := []\<rparr>)" (is "dinv env me ?s")
proof -
  have G: "bt_wf (receipts (database s))" using dinv_global [OF inv] by (simp add: global_inv_def)
  have "local_inv env me k (view env ?s k)" for k
  proof -
    have v: "view env ?s k = (view env s k)\<lparr>v_page := (k \<in> set (receipt_page me cursor (database s))), v_removable := False\<rparr>"
      by (simp add: view_def)
    have "k \<in> set (receipt_page me cursor (database s)) \<Longrightarrow> v_receipt (view env s k) = Some me"
      using receipt_page_owned [OF G] by (simp add: view_def)
    then show ?thesis using dinv_local [OF inv, of k] unfolding v
      by (simp add: local_inv_def receipt_inv_def)
  qed
  then show ?thesis using dinv_global [OF inv] by (simp add: dinv_def global_inv_def)
qed

lemma inv_check_receipt:
  assumes inv: "dinv env me s" and pg: "i \<in> set (clean_page s)" and rm: "receipt_can_be_removed i (catalog (jr s))"
  shows "dinv env me (s\<lparr>clean_removable := i # clean_removable s\<rparr>)" (is "dinv env me ?s")
proof (rule dinv_update [OF inv, where i = i])
  show "global_inv env ?s" using dinv_global [OF inv] by (simp add: global_inv_def)
  have v: "view env ?s i = (view env s i)\<lparr>v_removable := True\<rparr>" by (simp add: view_def)
  have w: "v_page (view env s i)" "\<not> v_pending (view env s i)"
    using pg rm pending_lookup [of i "catalog (jr s)"] by (simp_all add: view_def receipt_can_be_removed_def)
  show "local_inv env me i (view env ?s i)"
    using dinv_local [OF inv, of i] w unfolding v
    by (simp add: local_inv_def receipt_inv_def)
  fix k assume "k \<noteq> i"
  then have "view env ?s k = view env s k" by (simp add: view_def)
  then show "same_or_synced (view env s k) (view env ?s k)" by (simp add: same_or_synced_def)
qed

lemma delete_receipts_lookup:
  assumes "bt_wf (receipts d)"
  shows "bt_wf (receipts (delete_receipts me ids d))" and "traces (delete_receipts me ids d) = traces d"
    and "map_of (receipts (delete_receipts me ids d)) k =
      (if k \<in> set ids \<and> map_of (receipts d) k = Some me then None else map_of (receipts d) k)"
proof -
  show "bt_wf (receipts (delete_receipts me ids d))"
    using assms by (simp add: delete_receipts_def sorted_wrt_map sorted_wrt_filter)
  show "traces (delete_receipts me ids d) = traces d" by (simp add: delete_receipts_def)
  note f = hm_filter_lookup [OF bt_wf_distinct [OF assms], of "\<lambda>p. \<not> (snd p = me \<and> fst p \<in> set ids)" k]
  show "map_of (receipts (delete_receipts me ids d)) k =
      (if k \<in> set ids \<and> map_of (receipts d) k = Some me then None else map_of (receipts d) k)"
  proof (cases "map_of (receipts (delete_receipts me ids d)) k")
    case None
    then show ?thesis using f by (cases "map_of (receipts d) k") (auto simp: delete_receipts_def)
  next
    case (Some v)
    then show ?thesis using f [of v] by (auto simp: delete_receipts_def)
  qed
qed

lemma inv_delete_page:
  assumes inv: "dinv env me s"
  shows "dinv env me (s\<lparr>database := delete_receipts me (clean_removable s) (database s),
    clean_page := [], clean_removable := []\<rparr>)" (is "dinv env me ?s")
proof -
  have G: "bt_wf (receipts (database s))" using dinv_global [OF inv] by (simp add: global_inv_def)
  note d = delete_receipts_lookup [OF G, of me "clean_removable s"]
  have "local_inv env me k (view env ?s k)" for k
  proof -
    have v: "view env ?s k = (view env s k)\<lparr>v_page := False, v_removable := False,
       v_receipt := (if v_removable (view env s k) \<and> v_receipt (view env s k) = Some me then None else v_receipt (view env s k))\<rparr>"
      by (simp add: view_def d)
    show ?thesis using dinv_local [OF inv, of k] unfolding v
      by (simp add: local_inv_def receipt_inv_def)
  qed
  then show ?thesis using dinv_global [OF inv] d by (simp add: dinv_def global_inv_def)
qed

section \<open>Restart\<close>

lemma open_scan_names:
  "open_scan env scan_ok now fresh fs (c, d) = Inr (c', d') \<Longrightarrow> map_of d' n \<noteq> None \<Longrightarrow>
    map_of d n \<noteq> None \<or> ends_with n ''.quarantine''"
proof (induction fs arbitrary: c d)
  case (Cons nf fs)
  obtain m f where nf: "nf = (m, f)" by (cases nf)
  obtain c1 d1 where e: "open_entry env scan_ok now fresh (m, f) (c, d) = Inr (c1, d1)"
    and s: "open_scan env scan_ok now fresh fs (c1, d1) = Inr (c', d')"
    using Cons.prems(1) unfolding nf by (rule open_scan_Cons)
  have "map_of d1 n \<noteq> None \<or> ends_with n ''.quarantine''" using Cons.IH [OF s Cons.prems(2)] .
  with e show ?case
    by (cases rule: open_entry_cases) (auto simp: rename_lookup rescue_name_ends split: option.splits if_splits)
qed simp

lemma open_scan_regular:
  "open_scan env scan_ok now fresh fs s = Inr s' \<Longrightarrow> (n, f) \<in> set fs \<Longrightarrow> n \<notin> set reserved_names \<Longrightarrow>
    \<exists>ct t. f = Reg ct t"
proof (induction fs arbitrary: s)
  case (Cons nf fs)
  then show ?case
    by (auto simp: bind_res_Inr open_entry_def split: prod.splits node.splits if_splits)
qed simp

lemma path_not_reserved: "path env i \<notin> set reserved_names"
proof
  assume "path env i \<in> set reserved_names"
  then have "last (path env i) \<in> last ` set reserved_names" by (rule imageI)
  then show False by (simp add: reserved_names_def)
qed

text \<open>What is left of a record's file after the scan.\<close>

lemma open_catalog_file:
  assumes op: "open_catalog env scan_ok now fresh d = Inr j" and wf: "hm_wf d"
    and uid: "uuid_text_ok env" and names: "\<forall>n. map_of d n \<noteq> None \<longrightarrow> name_ok env n"
  shows "map_of (dir j) (path env i) = (if adopts env d i then map_of d (path env i) else None)"
    and "adopts env d i \<Longrightarrow> \<exists>ct t m. map_of d (path env i) = Some (Reg ct t) \<and> adoptable env (path env i) ct = Some (i, m)"
    and "canonical_names env d"
proof -
  show can: "canonical_names env d"
    unfolding canonical_names_def using names name_ok_adoptable wf
    by (metis map_of_is_SomeI option.distinct(1))
  show a: "adopts env d i \<Longrightarrow> \<exists>ct t m. map_of d (path env i) = Some (Reg ct t) \<and> adoptable env (path env i) ct = Some (i, m)"
    for i
    using can wf unfolding adopts_def canonical_names_def by (metis map_of_is_SomeI)
  obtain c d' where s: "open_scan env scan_ok now fresh d (catalog_default, d) = Inr (c, d')"
    using op by (rule open_catalog_Inr)
  show "map_of (dir j) (path env i) = (if adopts env d i then map_of d (path env i) else None)"
  proof (cases "map_of d (path env i)")
    case None
    then have "\<not> adopts env d i" using a by force
    moreover have "map_of (dir j) (path env i) = map_of d (path env i)"
      using None by (intro open_catalog_frame [OF op path_not_quarantine]) (auto simp: wf)
    ultimately show ?thesis using None by simp
  next
    case (Some f)
    then obtain ct t where f: "f = Reg ct t"
      using open_scan_regular [OF s map_of_SomeD [OF Some] path_not_reserved] by blast
    have uniq: "ct' = ct" if "(path env i, Reg ct' t') \<in> set d" for ct' t'
      using that Some f wf by simp
    show ?thesis
    proof (cases "adoptable env (path env i) ct")
      case None
      then have "\<not> adopts env d i" using a [of i] Some f by auto
      moreover have "map_of (dir j) (path env i) = None"
        using None Some f by (intro open_catalog_moved [OF op path_not_quarantine _ path_not_reserved]) (auto dest: map_of_SomeD)
      ultimately show ?thesis by simp
    next
      case (Some q)
      obtain i' m where q: "q = (i', m)" by (cases q)
      have mem: "(path env i, Reg ct t) \<in> set d" using \<open>map_of d (path env i) = Some f\<close> f by (auto dest: map_of_SomeD)
      then have "path env i = path env i'" using can Some q unfolding canonical_names_def by blast
      then have "i' = i" using path_inj [OF uid] by simp
      then have "adopts env d i"
        using mem Some q path_not_reserved [of env i] unfolding adopts_def by blast
      moreover have "map_of (dir j) (path env i) = map_of d (path env i)"
        using Some uniq by (intro open_catalog_frame [OF op path_not_quarantine]) auto
      ultimately show ?thesis by simp
    qed
  qed
qed

lemma open_catalog_names:
  assumes op: "open_catalog env scan_ok now fresh d = Inr j"
    and names: "\<forall>n. map_of d n \<noteq> None \<longrightarrow> name_ok env n" and "map_of (dir j) n \<noteq> None"
  shows "name_ok env n"
proof -
  obtain c d' where s: "open_scan env scan_ok now fresh d (catalog_default, d) = Inr (c, d')"
    and j: "j = \<lparr>catalog = c\<lparr>ready := map snd (sort (map (\<lambda>p. (e_created (snd p), fst p)) (entries c)))\<rparr>,
              dir = d', synced = d'\<rparr>"
    using op by (rule open_catalog_Inr)
  show ?thesis using open_scan_names [OF s, of n] assms(3) names quarantine_not_trace not_trace_name_ok
    by (auto simp: j)
qed

lemma inv_crash:
  assumes uid: "uuid_text_ok env" and sha: "sha256_length (sha256 env)" and inv: "dinv env me s"
    and cd: "crash_dir (jr s) d" and sz: "files_size d \<le> u64_max"
    and op: "open_catalog env scan_ok now fresh d = Inr j"
  shows "dinv env me (s\<lparr>jr := j, appends := Map.empty, workers := Map.empty, clean_page := [], clean_removable := []\<rparr>)"
    (is "dinv env me ?s")
proof -
  have wf: "hm_wf d" using cd by (simp add: crash_dir_def)
  have look: "map_of d n = map_of (dir (jr s)) n \<or> map_of d n = map_of (synced (jr s)) n" for n
    using cd by (simp add: crash_dir_def)
  have names: "\<forall>n. map_of d n \<noteq> None \<longrightarrow> name_ok env n"
    using dinv_global [OF inv] look by (metis global_inv_def)
  note fl = open_catalog_file [OF op wf uid names]
  note oc = open_catalog_inv [OF op wf fl(3) sz]
  have "local_inv env me i (view env ?s i)" for i
  proof -
    let ?v = "view env s i"
    let ?f = "if adopts env d i then map_of d (path env i) else None"
    have v: "view env ?s i = ?v\<lparr>v_pending := adopts env d i, v_ready := adopts env d i, v_append := None,
        v_worker := None, v_file := ?f, v_partial := map_of (dir j) (partial_path env i), v_synced := ?f,
        v_page := False, v_removable := False\<rparr>"
      using oc(2,3) by (simp add: view_def oc(4) fl(1))
    have L: "owner_inv ?v" "receipt_inv me ?v" "kept_inv env ?v"
      using dinv_local [OF inv, of i] by (simp_all add: local_inv_def)
    have pend: "v_pending ?v" if "adopts env d i"
      using fl(2) [OF that] look [of "path env i"] L(1) by (auto simp: owner_inv_def view_def)
    have "owner_inv (view env ?s i)" using L(1) pend unfolding v by (simp add: owner_inv_def)
    moreover have "receipt_inv me (view env ?s i)" using L(2) pend unfolding v by (simp add: receipt_inv_def)
    moreover have "phase_inv env i (view env ?s i)" unfolding v by (simp add: phase_inv_def)
    moreover have "kept_inv env (view env ?s i)"
      unfolding kept_inv_def
    proof (intro allI impI)
      fix e p assume "(e, p) \<in> v_journaled (view env ?s i)"
      then have q: "(e, p) \<in> v_journaled ?v" and i: "te_id e = i" by (simp_all add: view_def)
      have pr: "prepared env e p" using L(3) q by (simp add: kept_inv_def)
      have "holds env e p ?f"
        if m: "p_memory p \<le> MAX_RECORD_MEMORY" and "\<not> v_traced ?v"
      proof -
        have h: "holds env e p (map_of d (path env i))"
          using L(3) q that look [of "path env i"] by (auto simp: kept_inv_def view_def)
        then obtain t where t: "map_of d (path env i) = Some (Reg (record_bytes env e p) t)"
          by (auto simp: holds_def split: option.splits node.splits)
        obtain charged where "append_prepare env charged e = Inr p" using pr by (auto simp: prepared_def)
        from adoptable_intact [OF this sha m uid] i
        have "adopts env d i" using map_of_SomeD [OF t] path_not_reserved [of env i] unfolding adopts_def by blast
        then show ?thesis using h by simp
      qed
      then show "prepared env e p \<and> (p_memory p \<le> MAX_RECORD_MEMORY \<longrightarrow> v_traced (view env ?s i) \<or>
          holds env e p (v_file (view env ?s i)) \<and> holds env e p (v_synced (view env ?s i)) \<and>
          v_worker (view env ?s i) \<noteq> Some W_invalid \<and> (\<forall>n io. v_worker (view env ?s i) \<noteq> Some (W_moved n io)))"
        using pr unfolding v by (cases "adopts env d i") auto
    qed
    ultimately show ?thesis by (simp add: local_inv_def)
  qed
  moreover have "global_inv env ?s"
    using dinv_global [OF inv] oc(1) open_catalog_names [OF op names] by (simp add: global_inv_def oc(4))
  ultimately show ?thesis by (simp add: dinv_def)
qed

lemma inv_init:
  assumes uid: "uuid_text_ok env" and init: "dinit env me s"
  shows "dinv env me s"
proof -
  obtain scan_ok now fresh d where wf: "hm_wf d" and nm: "list_all (\<lambda>p. name_ok env (fst p)) d"
    and sz: "files_size d \<le> u64_max" and op: "open_catalog env scan_ok now fresh d = Inr (jr s)"
    using init by (auto simp: dinit_def)
  have names: "\<forall>n. map_of d n \<noteq> None \<longrightarrow> name_ok env n"
    using nm by (auto simp: list_all_iff dest!: map_of_SomeD)
  note fl = open_catalog_file [OF op wf uid names]
  note oc = open_catalog_inv [OF op wf fl(3) sz]
  have "map_of (receipts (database s)) i \<noteq> Some me" for i
    using init by (auto simp: dinit_def list_all_iff dest!: map_of_SomeD)
  then have "local_inv env me i (view env s i)" for i
    using init oc(2,3) by (simp add: inv_defs dinit_def fl(1) oc(4))
  moreover have "global_inv env s"
    using init oc(1) open_catalog_names [OF op names] by (simp add: global_inv_def dinit_def oc(4))
  ultimately show ?thesis by (simp add: dinv_def)
qed

section \<open>Reachable states\<close>

text \<open>The assumptions on the configuration and on the code outside the repository.\<close>

definition pipeline_ok :: "jenv \<Rightarrow> bool" where
  "pipeline_ok env \<longleftrightarrow> env_ok env \<and> uuid_text_ok env \<and> sha256_length (sha256 env) \<and> json_round_trip env"

lemma dstep_inv:
  assumes ok: "pipeline_ok env" and inv: "dinv env me s" and st: "dstep env me s s'"
  shows "dinv env me s'"
proof -
  have e: "env_ok env" "uuid_text_ok env" "sha256_length (sha256 env)" "json_round_trip env"
    using ok by (simp_all add: pipeline_ok_def)
  from st show ?thesis
  proof cases
    case admit then show ?thesis using inv_admit [OF e(1) inv] by simp
  next
    case (write_ok i e' p io j) then show ?thesis using inv_write [OF e(2) inv write_ok(2,3)] by simp
  next
    case (write_failed i e' p io err j) then show ?thesis using inv_write [OF e(2) inv write_failed(2,3)] by simp
  next
    case (rename_ok i e' p io j) then show ?thesis using inv_rename [OF e(2) inv rename_ok(2,3)] by simp
  next
    case (rename_failed i e' p io err j) then show ?thesis using inv_rename [OF e(2) inv rename_failed(2,3)] by simp
  next
    case publish then show ?thesis using inv_publish [OF inv] by simp
  next
    case sync_failed then show ?thesis using inv_sync_failed [OF inv] by simp
  next
    case append_quarantine then show ?thesis using inv_append_quarantine [OF e(2) inv] by simp
  next
    case append_quarantined then show ?thesis using inv_append_quarantined [OF inv] by simp
  next
    case append_stuck then show ?thesis using inv_append_stuck [OF inv] by simp
  next
    case claim then show ?thesis using inv_claim [OF inv] by simp
  next
    case claim_none then show ?thesis using inv_claim_none [OF inv] by simp
  next
    case (check_new i) then show ?thesis using dinv_worker_phase [OF inv check_new(2), of W_read] by simp
  next
    case (check_persisted i)
    then show ?thesis using dinv_worker_phase [OF inv check_persisted(2), of W_ack] persisted_iff(1) [OF inv check_persisted(2,3)] by simp
  next
    case (read_ok i) then show ?thesis using dinv_worker_phase [OF inv read_ok(2), of W_built] by simp
  next
    case (read_invalid i okf err)
    then show ?thesis
      using dinv_worker_phase [OF inv read_invalid(2), of W_invalid] read_never_invalid [OF inv e(3,4) read_invalid(3,4)] by simp
  next
    case insert_ok then show ?thesis using inv_insert_ok [OF inv] by simp
  next
    case insert_unknown then show ?thesis using inv_insert_unknown [OF inv] by simp
  next
    case ack_remove then show ?thesis using inv_ack_remove [OF e(2) inv] by simp
  next
    case ack_finish then show ?thesis using inv_ack_finish [OF inv] by simp
  next
    case invalid_quarantine then show ?thesis using inv_invalid_quarantine [OF e(2) inv] by simp
  next
    case invalid_quarantined then show ?thesis using inv_invalid_quarantined [OF inv] by simp
  next
    case give_up then show ?thesis using inv_retry [OF inv] by simp
  next
    case select_page then show ?thesis using inv_select_page [OF inv] by simp
  next
    case check_receipt then show ?thesis using inv_check_receipt [OF inv] by simp
  next
    case delete_page then show ?thesis using inv_delete_page [OF inv] by simp
  next
    case crash then show ?thesis using inv_crash [OF e(2,3) inv] by simp
  qed
qed

lemma dreach_inv:
  assumes "pipeline_ok env" and "dinit env me s0" and "dreach env me s0 s"
  shows "dinv env me s"
  using assms(3)
proof induction
  case refl
  show ?case using assms(1,2) by (intro inv_init) (simp_all add: pipeline_ok_def)
next
  case (step s s')
  then show ?case using dstep_inv [OF assms(1)] by blast
qed

lemma dreach_trans: "dreach env me a b \<Longrightarrow> dreach env me b c \<Longrightarrow> dreach env me a c"
  by (erule dreach.induct [where P = "\<lambda>c. dreach env me a c", rotated]) (auto intro: dreach.step)

lemma dreach_one: "dstep env me a b \<Longrightarrow> dreach env me a b"
  by (rule dreach.step [OF dreach.refl])

text \<open>C1: at-most-once delivery. Under every interleaving of captures, workers,
  receipt cleanup and crashes with recovery, lost commits included, no record is
  inserted into the database twice.\<close>

theorem delivered_at_most_once:
  assumes "pipeline_ok env" and "dinit env me s0" and "dreach env me s0 s"
  shows "distinct (traces (database s))"
  using dreach_inv [OF assms] by (simp add: dinv_def global_inv_def)

text \<open>C2: no loss. A record whose append returned success is in the database, or its
  file can still be read back exactly, is the same in what a crash would leave, and
  is pending, so that replay will find it.\<close>

theorem journaled_never_lost:
  assumes ok: "pipeline_ok env" and init: "dinit env me s0" and reach: "dreach env me s0 s"
    and q: "(e, p) \<in> journaled s" and mem: "p_memory p \<le> MAX_RECORD_MEMORY"
  shows "te_id e \<in> set (traces (database s)) \<or>
    read_journal env True (te_id e) (jr s) = Inr e \<and> record_intact env e p (synced (jr s)) \<and>
    te_id e \<in> pending (catalog (jr s))"
  unfolding disj_imp
proof
  assume nt: "te_id e \<notin> set (traces (database s))"
  have inv: "dinv env me s" using ok init reach by (rule dreach_inv)
  let ?v = "view env s (te_id e)"
  have L: "owner_inv ?v" "kept_inv env ?v" using dinv_local [OF inv, of "te_id e"] by (simp_all add: local_inv_def)
  from L(2) q mem nt have h: "holds env e p (map_of (dir (jr s)) (path env (te_id e)))"
    "holds env e p (map_of (synced (jr s)) (path env (te_id e)))" and pr: "prepared env e p"
    by (auto simp: kept_inv_def view_def)
  obtain charged where p: "append_prepare env charged e = Inr p" using pr by (auto simp: prepared_def)
  have "record_intact env e p (dir (jr s))" "record_intact env e p (synced (jr s))"
    using h by (simp_all add: record_intact_def holds_def)
  moreover have "te_id e \<in> pending (catalog (jr s))"
    using L(1) h(1) by (auto simp: owner_inv_def view_def holds_def split: option.splits)
  ultimately show "read_journal env True (te_id e) (jr s) = Inr e \<and> record_intact env e p (synced (jr s)) \<and>
    te_id e \<in> pending (catalog (jr s))"
    using read_intact [OF _ p _ _ mem, of "jr s" True] ok by (simp add: pipeline_ok_def)
qed

text \<open>C5: ownership and accounting. In every reachable state the catalog accounts
  exactly for its records, a record belongs to at most one of the ready queue, an
  append in progress and a worker, and a record that is still pending although it is
  already in the database keeps its receipt, whatever the cleaner does.\<close>

theorem pipeline_ownership:
  assumes "pipeline_ok env" and "dinit env me s0" and "dreach env me s0 s"
  shows "catalog_inv (catalog (jr s)) \<and>
    set (ready (catalog (jr s))) \<inter> dom (workers s) = {} \<and>
    set (ready (catalog (jr s))) \<inter> dom (appends s) = {} \<and> dom (appends s) \<inter> dom (workers s) = {} \<and>
    dom (workers s) \<union> dom (appends s) \<subseteq> pending (catalog (jr s)) \<and>
    (\<forall>i. i \<in> set (traces (database s)) \<and> i \<in> pending (catalog (jr s)) \<longrightarrow>
      map_of (receipts (database s)) i = Some me)"
proof -
  have inv: "dinv env me s" using assms by (rule dreach_inv)
  have o: "(i \<in> set (ready (catalog (jr s))) \<longrightarrow> appends s i = None \<and> workers s i = None) \<and>
      (appends s i \<noteq> None \<longrightarrow> i \<in> pending (catalog (jr s)) \<and> workers s i = None) \<and>
      (workers s i \<noteq> None \<longrightarrow> i \<in> pending (catalog (jr s)))" for i
    using dinv_local [OF inv, of i] by (simp add: local_inv_def owner_inv_def view_def)
  have r: "i \<in> set (traces (database s)) \<Longrightarrow> i \<in> pending (catalog (jr s)) \<Longrightarrow>
      map_of (receipts (database s)) i = Some me" for i
    using dinv_local [OF inv, of i] by (simp add: local_inv_def receipt_inv_def view_def)
  have "set (ready (catalog (jr s))) \<inter> dom (workers s) = {}" "set (ready (catalog (jr s))) \<inter> dom (appends s) = {}"
    "dom (appends s) \<inter> dom (workers s) = {}" "dom (workers s) \<union> dom (appends s) \<subseteq> pending (catalog (jr s))"
    using o by (auto simp: dom_def)
  then show ?thesis using dinv_global [OF inv] r by (simp add: global_inv_def)
qed

section \<open>A worker's code as steps\<close>

lemma retry_absent: "map_of (entries (catalog j)) i = None \<Longrightarrow> retry env now i j = j"
  by (simp add: retry_def retry_catalog_def)

lemma dreach_give_up:
  assumes "dreach env me s0 s" and "workers s i = Some ph"
    and "s' = s\<lparr>jr := retry env now i (jr s), workers := (workers s)(i := None)\<rparr>"
  shows "dreach env me s0 s'"
  using dreach.step [OF assms(1) give_up [OF assms(2)]] assms(3) by simp

lemma acknowledge_steps:
  assumes wk: "workers s i = Some W_ack" and wf: "bt_wf (entries (catalog (jr s)))"
    and ack: "acknowledge_claim env io i (jr s, database s) = (r, j', d')"
  shows "dreach env me s (s\<lparr>jr := retry env now i j', database := d', workers := (workers s)(i := None)\<rparr>)"
proof (cases "acknowledge_remove env (pi_ack io) i (jr s)")
  case (Pair r1 j1)
  show ?thesis
  proof (cases r1)
    case (Inl err)
    then have "j' = jr s" "d' = database s" using ack Pair acknowledge_remove_error [of env "pi_ack io" i "jr s" err j1]
      by (auto simp: acknowledge_claim_def acknowledge_def)
    then show ?thesis using dreach_give_up [OF dreach.refl wk] by simp
  next
    case (Inr u)
    have rm: "acknowledge_remove env (pi_ack io) i (jr s) = (Inr (), j1)" using Pair Inr by simp
    note one = dreach_one [OF ack_remove [OF wk rm, of me]]
    have cat: "catalog j1 = catalog (jr s)" using acknowledge_remove_ok(1) [OF rm] .
    show ?thesis
    proof (cases "a_sync_ok (pi_ack io)")
      case False
      then have "j' = j1" "d' = database s" using ack rm by (auto simp: acknowledge_claim_def acknowledge_def)
      then show ?thesis by (intro dreach_give_up [OF one, where i = i and ph = W_acksync]) simp_all
    next
      case True
      then have j': "j' = acknowledge_finish i j1" "d' = database s"
        using ack rm by (auto simp: acknowledge_claim_def acknowledge_def)
      have "retry env now i j' = j'" using wf by (intro retry_absent) (simp add: j' cat remove_entry_entries)
      then show ?thesis
        using dreach.step [OF one ack_finish [of _ i]] j' by simp
    qed
  qed
qed


lemma quarantine_steps:
  assumes wk: "workers s i = Some W_invalid" and wf: "bt_wf (entries (catalog (jr s)))"
    and q: "quarantine env io i (jr s) = (r, j)"
  shows "dreach env me s (s\<lparr>jr := retry env now i j, workers := (workers s)(i := None)\<rparr>)"
  using q
proof (cases rule: quarantine_cases)
  case refused
  then show ?thesis using dreach_give_up [OF dreach.refl wk] by simp
next
  case (unsynced n)
  show ?thesis
    by (rule dreach_give_up [OF dreach_one [OF invalid_quarantine [OF wk unsynced]], where i = i and ph = "W_moved n io"])
       simp_all
next
  case (completed n j1)
  have "map_of (entries (catalog j)) i = None"
    using wf by (simp add: completed(2) remove_entry_entries quarantine_files_ok(1) [OF completed(1)])
  then have "retry env now i j = j" by (rule retry_absent)
  then show ?thesis
    using dreach.step [OF dreach_one [OF invalid_quarantine [OF wk completed(1)]] invalid_quarantined [of _ i n io]]
      completed(2) by simp
qed

lemma read_steps:
  assumes wk: "workers s i = Some W_read" and wf: "bt_wf (entries (catalog (jr s)))"
    and rp: "read_part env me io i (jr s, database s) = (r, j, d')"
  shows "dreach env me s (s\<lparr>jr := retry env now i j, database := d', workers := (workers s)(i := None)\<rparr>)"
proof (cases "read_journal env (pi_open_ok io) i (jr s)")
  case (Inl err)
  show ?thesis
  proof (cases "err = Io_error")
    case True
    then have "j = jr s" "d' = database s" using rp Inl by (auto simp: read_part_def)
    then show ?thesis using dreach_give_up [OF dreach.refl wk] by simp
  next
    case False
    let ?s = "s\<lparr>workers := (workers s)(i \<mapsto> W_invalid)\<rparr>"
    have one: "dreach env me s ?s" by (rule dreach_one) (rule read_invalid [OF wk Inl False])
    obtain r' where q: "quarantine env (pi_quarantine io) i (jr ?s) = (r', j)" and d: "d' = database s"
      using rp Inl False by (auto simp: read_part_def split: prod.splits sum.splits)
    have "dreach env me ?s (?s\<lparr>jr := retry env now i j, workers := (workers ?s)(i := None)\<rparr>)"
      by (rule quarantine_steps [OF _ _ q]) (use wf in simp_all)
    then show ?thesis using dreach_trans [OF one] d by simp
  qed
next
  case (Inr event)
  let ?s = "s\<lparr>workers := (workers s)(i \<mapsto> W_built)\<rparr>"
  have one: "dreach env me s ?s" by (rule dreach_one) (rule read_ok [OF wk Inr])
  have stay: "dreach env me s (s\<lparr>jr := retry env now i j, database := d', workers := (workers s)(i := None)\<rparr>)"
    if "j = jr s" "d' = database s"
    by (rule dreach_give_up [OF one, where i = i and ph = W_built]) (simp_all add: that)
  show ?thesis
  proof (cases "pi_build_ok io \<and> pi_tx io \<noteq> Aborted \<and> fst (insert_journaled_trace i me (database s)) = Inr ()")
    case False
    then have "j = jr s \<and> d' = database s"
      using rp Inr by (auto simp: read_part_def run_tx_def insert_journaled_trace_def split: tx.splits option.splits if_splits)
    then show ?thesis using stay by simp
  next
    case True
    then obtain d1 where ins: "insert_journaled_trace i me (database s) = (Inr (), d1)"
      by (cases "insert_journaled_trace i me (database s)") auto
    show ?thesis
    proof (cases "pi_tx io")
      case Committed
      let ?t = "?s\<lparr>database := d1, workers := (workers ?s)(i \<mapsto> W_ack)\<rparr>"
      have two: "dreach env me s ?t"
        by (rule dreach.step [OF one]) (rule insert_ok, use ins in simp_all)
      have "dreach env me ?t (?t\<lparr>jr := retry env now i j, database := d', workers := (workers ?t)(i := None)\<rparr>)"
        by (rule acknowledge_steps) (use rp Inr True Committed ins wf in \<open>auto simp: read_part_def run_tx_def\<close>)
      then show ?thesis using dreach_trans [OF two] by simp
    next
      case Commit_unknown
      then have "j = jr s" "d' = d1" using rp Inr True ins by (auto simp: read_part_def run_tx_def)
      then have eq: "s\<lparr>jr := retry env now i j, database := d', workers := (workers s)(i := None)\<rparr>
          = ?s\<lparr>database := d1, jr := retry env now i (jr ?s), workers := (workers ?s)(i := None)\<rparr>" by simp
      have "dstep env me ?s (?s\<lparr>database := d1, jr := retry env now i (jr ?s), workers := (workers ?s)(i := None)\<rparr>)"
        by (rule insert_unknown) (use ins in simp_all)
      then show ?thesis unfolding eq by (rule dreach.step [OF one])
    qed (use True in simp)
  qed
qed

text \<open>C4: the code of a replay worker refines the protocol: each run of \<open>process\<close> on a
  claimed record, on every success and failure path, is a sequence of protocol steps
  that ends with the claim dropped.\<close>

theorem process_refines_steps:
  assumes wk: "workers s i = Some W_start" and wf: "bt_wf (entries (catalog (jr s)))"
    and pr: "process env me io now i (jr s, database s) = (r, j', d')"
  shows "dreach env me s (s\<lparr>jr := j', database := d', workers := (workers s)(i := None)\<rparr>)"
proof -
  obtain j where inner: "process_inner env me io i (jr s, database s) = (r, j, d')" and j': "j' = retry env now i j"
    using pr by (auto simp: process_def split: prod.splits)
  have stay: "dreach env me s (s\<lparr>jr := j', database := d', workers := (workers s)(i := None)\<rparr>)"
    if "j = jr s" "d' = database s"
    using that dreach_give_up [OF dreach.refl wk] by (simp add: j')
  show ?thesis
  proof (cases "pi_check_ok io")
    case False
    then show ?thesis using inner by (intro stay) (auto simp: process_inner_def)
  next
    case ck: True
    show ?thesis
    proof (cases "journal_trace_persisted i me (database s)")
      case (Inl err)
      then show ?thesis using inner ck by (intro stay) (auto simp: process_inner_def)
    next
      case (Inr persisted)
      show ?thesis
      proof (cases persisted)
        case True
        let ?s = "s\<lparr>workers := (workers s)(i \<mapsto> W_ack)\<rparr>"
        have one: "dreach env me s ?s" using Inr True by (intro dreach_one check_persisted [OF wk]) simp
        have "dreach env me ?s (?s\<lparr>jr := retry env now i j, database := d', workers := (workers ?s)(i := None)\<rparr>)"
          by (rule acknowledge_steps) (use inner ck Inr True wf in \<open>auto simp: process_inner_def\<close>)
        then show ?thesis using dreach_trans [OF one] by (simp add: j')
      next
        case False
        let ?s = "s\<lparr>workers := (workers s)(i \<mapsto> W_read)\<rparr>"
        have one: "dreach env me s ?s" using Inr False by (intro dreach_one check_new [OF wk]) simp
        have rest: "dreach env me ?s (?s\<lparr>jr := retry env now i j, database := d', workers := (workers ?s)(i := None)\<rparr>)"
          by (rule read_steps) (use inner ck Inr False wf in \<open>auto simp: process_inner_def\<close>)
        then show ?thesis using dreach_trans [OF one] by (simp add: j')
      qed
    qed
  qed
qed

section \<open>Receipt pages\<close>

text \<open>One page of receipt cleanup deletes exactly the receipts of this journal that
  lie in the page and whose record is neither pending nor quarantined; every other
  receipt, those of other journals included, and all traces stay. The cursor moves
  past the page, or back to the start when the page was the last.\<close>

theorem clean_receipt_page_exact:
  assumes "bt_wf (receipts d)" and "clean_receipt_page me cursor c d = (nxt, d')"
  shows "map_of (receipts d') k =
      (if k \<in> set (receipt_page me cursor d) \<and> map_of (entries c) k = None \<and> k \<notin> quarantine_ids c
       then None else map_of (receipts d) k) \<and>
    traces d' = traces d \<and>
    (nxt = nil_uuid \<or> cursor < nxt \<and> nxt \<in> set (receipt_page me cursor d)) \<and>
    (map_of (receipts d) k = Some me \<and> cursor < k \<and> (nxt = nil_uuid \<or> k \<le> nxt)
       \<longrightarrow> k \<in> set (receipt_page me cursor d))"
proof -
  let ?ids = "receipt_page me cursor d"
  let ?rm = "filter (\<lambda>i. receipt_can_be_removed i c) ?ids"
  let ?all = "map fst (filter (\<lambda>p. snd p = me \<and> cursor < fst p) (receipts d))"
  have d': "d' = (if ?rm = [] then d else delete_receipts me ?rm d)"
    and nxt: "nxt = (if length ?ids = page_limit then last ?ids else nil_uuid)"
    using assms(2) by (auto simp: clean_receipt_page_def Let_def)
  have own: "k \<in> set ?ids \<Longrightarrow> map_of (receipts d) k = Some me \<and> cursor < k" for k
    using receipt_page_owned [OF assms(1)] .
  have keys: "map_of (receipts d') k =
      (if k \<in> set ?ids \<and> map_of (entries c) k = None \<and> k \<notin> quarantine_ids c then None else map_of (receipts d) k)"
    using own [of k] delete_receipts_lookup(3) [OF assms(1), of me ?rm k]
    by (auto simp: d' receipt_can_be_removed_def filter_empty_conv)
  have tr: "traces d' = traces d" by (simp add: d' delete_receipts_def)
  have "page_limit > 0" by (simp add: page_limit_def)
  then have lst: "length ?ids = page_limit \<Longrightarrow> last ?ids \<in> set ?ids"
    by (metis last_in_set length_greater_0_conv)
  then have cur: "nxt = nil_uuid \<or> cursor < nxt \<and> nxt \<in> set ?ids"
    using own [of "last ?ids"] by (auto simp: nxt)
  have "k \<in> set ?ids" if k: "map_of (receipts d) k = Some me" "cursor < k" and le: "nxt = nil_uuid \<or> k \<le> nxt"
  proof -
    have all: "k \<in> set ?all" using k by (force dest: map_of_SomeD)
    have srt: "sorted_wrt (<) ?all"
      using assms(1) by (simp add: sorted_wrt_map sorted_wrt_filter)
    show ?thesis
    proof (cases "length ?all \<le> page_limit")
      case True
      then show ?thesis using all by (simp add: receipt_page_def)
    next
      case False
      then have len: "length ?ids = page_limit" by (simp add: receipt_page_def)
      then have "last ?ids \<in> set ?ids" by (rule lst)
      then have "nxt = last ?ids" "0 < nxt" using own [of "last ?ids"] len by (auto simp: nxt)
      then have kl: "k \<le> last ?ids" using le by (simp add: nil_uuid_def)
      have eq: "?ids @ drop page_limit ?all = ?all" by (simp add: receipt_page_def)
      have "sorted_wrt (<) (?ids @ drop page_limit ?all)" using srt by (simp only: eq)
      then have "\<forall>x \<in> set ?ids. \<forall>y \<in> set (drop page_limit ?all). x < y" unfolding sorted_wrt_append by blast
      then have "k \<notin> set (drop page_limit ?all)" using \<open>last ?ids \<in> set ?ids\<close> kl by force
      moreover have "k \<in> set (?ids @ drop page_limit ?all)" using all by (simp only: eq)
      ultimately show ?thesis by (simp only: set_append Un_iff) blast
    qed
  qed
  then show ?thesis using keys tr cur by blast
qed

theorem clean_receipt_page_exact_witness:
  "map_of (receipts (snd (clean_receipt_page 1 0 catalog_default \<lparr>receipts = [(5, 1), (6, 2)], traces = [5]\<rparr>))) 5 = None"
proof -
  let ?d = "\<lparr>receipts = [(5::nat, 1), (6, 2)], traces = [5]\<rparr>"
  have page: "receipt_page 1 0 ?d = [5]" by (simp add: receipt_page_def page_limit_def)
  obtain nxt d' where c: "clean_receipt_page 1 0 catalog_default ?d = (nxt, d')"
    by (cases "clean_receipt_page 1 0 catalog_default ?d")
  have "bt_wf (receipts ?d)" by simp
  from clean_receipt_page_exact [OF this c, of 5] show ?thesis
    using c page by (simp add: catalog_default_def)
qed

section \<open>A concrete run\<close>

definition demo_start :: dsys where
  "demo_start = \<lparr>jr = demo_journal, database = \<lparr>receipts = [], traces = []\<rparr>, appends = Map.empty,
     workers = Map.empty, clean_page = [], clean_removable = [], used_ids = {}, journaled = {}\<rparr>"

definition demo_final :: dsys where
  "demo_final = demo_start\<lparr>jr := demo_appended, used_ids := {7}, journaled := {(demo_event, demo_plan)}\<rparr>"

lemma demo_pipeline_ok: "pipeline_ok demo_env"
  by (simp add: pipeline_ok_def)

lemma demo_init: "dinit demo_env 1 demo_start"
proof -
  have "open_catalog demo_env (\<lambda>_. True) 0 (\<lambda>_. 0) [(''lock'', Reg [] 0)] = Inr demo_journal"
    by (simp add: open_catalog_def open_entry_def reserved_names_def demo_journal_def catalog_default_def)
  moreover have "list_all (\<lambda>p. name_ok demo_env (fst p)) [(''lock'', Reg [] 0)]"
    by (simp add: name_ok_def strip_suffix_def suffix_def)
  moreover have "files_size [(''lock'', Reg [] 0)] \<le> u64_max" by (simp add: files_size_def node_len_def)
  ultimately show ?thesis
    unfolding dinit_def by (intro conjI exI) (auto simp: demo_start_def demo_journal_def catalog_default_def)
qed

lemma demo_reach: "dreach demo_env 1 demo_start demo_final"
proof -
  let ?c = "catalog demo_appended\<lparr>ready := []\<rparr>"
  let ?file = "Reg (record_bytes demo_env demo_event demo_plan) 5"
  let ?s1 = "demo_start\<lparr>jr := demo_journal\<lparr>catalog := ?c\<rparr>,
    appends := [7 \<mapsto> (demo_event, demo_plan, A_admitted)], used_ids := {7}\<rparr>"
  let ?s2 = "?s1\<lparr>jr := (jr ?s1)\<lparr>dir := [(''lock'', Reg [] 0), (''aaaaaaa.partial'', ?file)]\<rparr>,
    appends := [7 \<mapsto> (demo_event, demo_plan, A_written)]\<rparr>"
  let ?s3 = "?s1\<lparr>jr := (jr ?s1)\<lparr>dir := [(''lock'', Reg [] 0), (''aaaaaaa.trace'', ?file)]\<rparr>,
    appends := [7 \<mapsto> (demo_event, demo_plan, A_renamed)]\<rparr>"
  have "dstep demo_env 1 demo_start ?s1"
    using admit [of demo_event demo_start demo_env 100 demo_plan demo_clock _ 1, OF _ demo_prepare] demo_admit
    by (simp add: demo_start_def demo_appended_def)
  moreover have "dstep demo_env 1 ?s1 ?s2"
    using write_ok [of ?s1 7 demo_event demo_plan demo_env demo_store "jr ?s2" 1]
    by (simp add: append_write_def demo_store_def demo_names path_exists_def demo_journal_def)
  moreover have "dstep demo_env 1 ?s2 ?s3"
    using rename_ok [of ?s2 7 demo_event demo_plan demo_env demo_store "jr ?s3" 1]
    by (simp add: append_rename_def demo_store_def demo_names path_exists_def demo_journal_def rename_def)
  moreover have "dstep demo_env 1 ?s3 demo_final"
    using publish [of ?s3 7 demo_event demo_plan demo_store "sync_directory (jr ?s3)" demo_env 1]
    by (simp add: append_sync_def demo_store_def demo_final_def demo_start_def append_publish_def sync_directory_def
        demo_journal_def demo_appended_def)
  ultimately show ?thesis by (meson dreach.intros)
qed

theorem delivered_at_most_once_witness: "distinct (traces (database demo_final))"
  using delivered_at_most_once [OF demo_pipeline_ok demo_init demo_reach] .

theorem journaled_never_lost_witness:
  "7 \<in> set (traces (database demo_final)) \<or> read_journal demo_env True 7 (jr demo_final) = Inr demo_event"
proof -
  have "(demo_event, demo_plan) \<in> journaled demo_final" "p_memory demo_plan \<le> MAX_RECORD_MEMORY"
    by (simp_all add: demo_final_def demo_plan_def MAX_RECORD_MEMORY_def)
  from journaled_never_lost [OF demo_pipeline_ok demo_init demo_reach this] show ?thesis by auto
qed

theorem pipeline_ownership_witness: "catalog_inv (catalog (jr demo_final))"
  using pipeline_ownership [OF demo_pipeline_ok demo_init demo_reach] by blast

definition demo_process :: process_io where
  "demo_process = \<lparr>pi_check_ok = True, pi_open_ok = True, pi_quarantine = demo_quarantine, pi_build_ok = True,
     pi_tx = Commit_unknown, pi_ack = \<lparr>a_remove_ok = True, a_sync_ok = True\<rparr>\<rparr>"

theorem process_refines_steps_witness:
  "\<exists>s'. dreach demo_env 1 (demo_final\<lparr>jr := demo_claimed, workers := [7 \<mapsto> W_start]\<rparr>) s' \<and> workers s' 7 = None"
proof -
  let ?s = "demo_final\<lparr>jr := demo_claimed, workers := [7 \<mapsto> W_start]\<rparr>"
  obtain r j' d' where p: "process demo_env 1 demo_process 0 7 (jr ?s, database ?s) = (r, j', d')"
    by (cases "process demo_env 1 demo_process 0 7 (jr ?s, database ?s)")
  have "bt_wf (entries (catalog (jr ?s)))" by (simp add: demo_claimed_def demo_appended_def)
  from process_refines_steps [OF _ this p] show ?thesis by fastforce
qed

end
