(* ===== verification/LT_Throttle.thy ===== *)
theory LT_Throttle
  imports LT_Text
begin

text \<open>
  The login throttle (\<open>login_throttle.rs\<close>): a bounded table of failed attempts per
  user name and address, with a failure window and a lockout. It is compared with a
  machine for a single key: as long as the table has room for the keys in play,
  the table is the product of independent machines.
\<close>

section \<open>The table\<close>

record rate_config =
  rl_enabled :: bool
  rl_max_failures :: nat
  rl_window_secs :: nat
  rl_lockout_secs :: nat
  rl_max_tracked_entries :: nat

record throttle_key =
  tk_username :: string
  tk_remote_addr :: string

record throttle_state =
  ts_failures :: nat
  ts_first_failure :: nanos
  ts_locked_until :: "nanos option"
  ts_last_seen :: nanos

datatype decision = Allowed | Limited nanos

type_synonym attempts = "(throttle_key \<times> throttle_state) list"

definition MAX_LOGIN_THROTTLE_USERNAME_BYTES :: nat where
  "MAX_LOGIN_THROTTLE_USERNAME_BYTES = 320"

definition secs :: "nat \<Rightarrow> nanos" where
  "secs n = n * 1000000000"

definition throttle_truncate :: "nat \<Rightarrow> string \<Rightarrow> string" where
  "throttle_truncate max_bytes value =
    (if length value \<le> max_bytes then value else take (boundary_floor value max_bytes) value)"

definition throttle_key_new :: "string \<Rightarrow> string \<Rightarrow> throttle_key" where
  "throttle_key_new username remote_addr =
    \<lparr>tk_username = throttle_truncate MAX_LOGIN_THROTTLE_USERNAME_BYTES (to_ascii_lowercase (trim username)),
     tk_remote_addr = trim remote_addr\<rparr>"

definition throttle_enabled :: "rate_config \<Rightarrow> bool" where
  "throttle_enabled cfg \<longleftrightarrow>
    rl_enabled cfg \<and> rl_max_failures cfg > 0 \<and> rl_window_secs cfg > 0 \<and>
    rl_lockout_secs cfg > 0 \<and> rl_max_tracked_entries cfg > 0"

text \<open>\<open>Instant::duration_since\<close> saturates to zero.\<close>

definition limited_until :: "nanos option \<Rightarrow> nanos \<Rightarrow> nanos option" where
  "limited_until locked now =
    (case locked of
       None \<Rightarrow> None
     | Some u \<Rightarrow> if u \<le> now then None else Some (max (u - now) (secs 1)))"

definition unexpired :: "rate_config \<Rightarrow> nanos \<Rightarrow> throttle_state \<Rightarrow> bool" where
  "unexpired cfg now s \<longleftrightarrow>
    limited_until (ts_locked_until s) now \<noteq> None \<or> now - ts_first_failure s \<le> secs (rl_window_secs cfg)"

definition prune_expired :: "rate_config \<Rightarrow> nanos \<Rightarrow> attempts \<Rightarrow> attempts" where
  "prune_expired cfg now m = filter (\<lambda>p. unexpired cfg now (snd p)) m"

text \<open>\<open>Iterator::min_by_key\<close> returns the first minimum.\<close>

fun oldest :: "attempts \<Rightarrow> (throttle_key \<times> throttle_state) option" where
  "oldest [] = None"
| "oldest (p # ps) =
    (case oldest ps of
       None \<Rightarrow> Some p
     | Some q \<Rightarrow> if ts_last_seen (snd p) \<le> ts_last_seen (snd q) then Some p else Some q)"

definition remove_oldest :: "attempts \<Rightarrow> attempts" where
  "remove_oldest m = (case oldest m of None \<Rightarrow> m | Some p \<Rightarrow> AList.delete (fst p) m)"

definition fresh_state :: "nanos \<Rightarrow> throttle_state" where
  "fresh_state now = \<lparr>ts_failures = 0, ts_first_failure = now, ts_locked_until = None, ts_last_seen = now\<rparr>"

text \<open>The update of one entry by a failed login.\<close>

definition fail_state :: "rate_config \<Rightarrow> nanos \<Rightarrow> throttle_state \<Rightarrow> nanos option \<times> throttle_state" where
  "fail_state cfg now s =
    (case limited_until (ts_locked_until s) now of
       Some r \<Rightarrow> (Some r, s\<lparr>ts_last_seen := now\<rparr>)
     | None \<Rightarrow>
       let s1 = (if now - ts_first_failure s > secs (rl_window_secs cfg)
                 then s\<lparr>ts_failures := 0, ts_first_failure := now, ts_locked_until := None\<rparr> else s);
           s2 = s1\<lparr>ts_failures := min (ts_failures s1 + 1) u32_max, ts_last_seen := now\<rparr> in
       if rl_max_failures cfg \<le> ts_failures s2
       then let s3 = s2\<lparr>ts_locked_until := Some (now + secs (rl_lockout_secs cfg))\<rparr> in
            (limited_until (ts_locked_until s3) now, s3)
       else (None, s2))"

definition check_at :: "rate_config \<Rightarrow> throttle_key \<Rightarrow> nanos \<Rightarrow> attempts \<Rightarrow> decision \<times> attempts" where
  "check_at cfg key now m =
    (if \<not> throttle_enabled cfg then (Allowed, m)
     else let m1 = prune_expired cfg now m in
       (case map_of m1 key of
          None \<Rightarrow> Allowed
        | Some s \<Rightarrow> (case limited_until (ts_locked_until s) now of None \<Rightarrow> Allowed | Some r \<Rightarrow> Limited r), m1))"

definition record_failure_at :: "rate_config \<Rightarrow> throttle_key \<Rightarrow> nanos \<Rightarrow> attempts \<Rightarrow> nanos option \<times> attempts" where
  "record_failure_at cfg key now m =
    (if \<not> throttle_enabled cfg then (None, m)
     else let m1 = prune_expired cfg now m;
              m2 = (if map_of m1 key = None \<and> rl_max_tracked_entries cfg \<le> length m1
                    then remove_oldest m1 else m1);
              s = (case map_of m2 key of None \<Rightarrow> fresh_state now | Some s \<Rightarrow> s) in
       (case fail_state cfg now s of (r, s') \<Rightarrow> (r, AList.update key s' m2)))"

definition record_success_at :: "rate_config \<Rightarrow> throttle_key \<Rightarrow> attempts \<Rightarrow> attempts" where
  "record_success_at cfg key m = (if \<not> throttle_enabled cfg then m else AList.delete key m)"

text \<open>Sequences of logins.\<close>

datatype login_op = Check throttle_key nanos | Failure throttle_key nanos | Success throttle_key nanos

fun login_step :: "rate_config \<Rightarrow> login_op \<Rightarrow> attempts \<Rightarrow> attempts" where
  "login_step cfg (Check k t) m = snd (check_at cfg k t m)"
| "login_step cfg (Failure k t) m = snd (record_failure_at cfg k t m)"
| "login_step cfg (Success k t) m = record_success_at cfg k m"

definition login_run :: "rate_config \<Rightarrow> login_op list \<Rightarrow> attempts" where
  "login_run cfg ops = fold (login_step cfg) ops []"

fun op_time :: "login_op \<Rightarrow> nanos" where
  "op_time (Check k t) = t"
| "op_time (Failure k t) = t"
| "op_time (Success k t) = t"

fun op_key :: "login_op \<Rightarrow> throttle_key" where
  "op_key (Check k t) = k"
| "op_key (Failure k t) = k"
| "op_key (Success k t) = k"

section \<open>One key\<close>

definition live :: "rate_config \<Rightarrow> nanos \<Rightarrow> throttle_state option \<Rightarrow> throttle_state option" where
  "live cfg now st = (case st of None \<Rightarrow> None | Some s \<Rightarrow> if unexpired cfg now s then Some s else None)"

definition key_check :: "rate_config \<Rightarrow> nanos \<Rightarrow> throttle_state option \<Rightarrow> decision" where
  "key_check cfg now st =
    (case live cfg now st of
       None \<Rightarrow> Allowed
     | Some s \<Rightarrow> (case limited_until (ts_locked_until s) now of None \<Rightarrow> Allowed | Some r \<Rightarrow> Limited r))"

definition key_fail :: "rate_config \<Rightarrow> nanos \<Rightarrow> throttle_state option \<Rightarrow> nanos option \<times> throttle_state option" where
  "key_fail cfg now st =
    (case fail_state cfg now (case live cfg now st of None \<Rightarrow> fresh_state now | Some s \<Rightarrow> s) of
       (r, s) \<Rightarrow> (r, Some s))"

fun key_step :: "rate_config \<Rightarrow> throttle_key \<Rightarrow> login_op \<Rightarrow> throttle_state option \<Rightarrow> throttle_state option" where
  "key_step cfg k (Check k' t) st = st"
| "key_step cfg k (Failure k' t) st = (if k' = k then snd (key_fail cfg t st) else st)"
| "key_step cfg k (Success k' t) st = (if k' = k then None else st)"

definition key_run :: "rate_config \<Rightarrow> throttle_key \<Rightarrow> login_op list \<Rightarrow> throttle_state option" where
  "key_run cfg k ops = fold (key_step cfg k) ops None"

section \<open>Truncation and pruning\<close>

interpretation thr: bounded_prefix throttle_truncate
proof -
  have "throttle_truncate = utf8_floor_prefix"
    by (simp add: fun_eq_iff throttle_truncate_def utf8_floor_prefix_def)
  then show "bounded_prefix throttle_truncate" using fp.bounded_prefix_axioms by simp
qed

lemma throttle_key_bounded: "length (tk_username (throttle_key_new u a)) \<le> 320"
  using thr.trunc_bound [of 320] by (simp add: throttle_key_new_def MAX_LOGIN_THROTTLE_USERNAME_BYTES_def)

lemma limited_until_mono: "t \<le> t' \<Longrightarrow> limited_until l t = None \<Longrightarrow> limited_until l t' = None"
  by (auto simp: limited_until_def split: option.splits if_splits)

lemma unexpired_mono: "t \<le> t' \<Longrightarrow> unexpired cfg t' s \<Longrightarrow> unexpired cfg t s"
  using limited_until_mono [of t t' "ts_locked_until s"]
  by (cases "limited_until (ts_locked_until s) t") (auto simp: unexpired_def)

lemma live_live: "t \<le> t' \<Longrightarrow> live cfg t' (live cfg t st) = live cfg t' st"
  using unexpired_mono [of t t' cfg] by (auto simp: live_def split: option.splits)

lemma prune_lookup: "hm_wf m \<Longrightarrow> map_of (prune_expired cfg now m) k = live cfg now (map_of m k)"
proof -
  assume wf: "hm_wf m"
  note f = hm_filter_lookup [OF wf, of "\<lambda>p. unexpired cfg now (snd p)" k]
  show ?thesis
  proof (cases "map_of (prune_expired cfg now m) k")
    case None
    then show ?thesis using f by (cases "map_of m k") (auto simp: prune_expired_def live_def)
  next
    case (Some s)
    then show ?thesis using f [of s] by (auto simp: prune_expired_def live_def)
  qed
qed

lemma prune_wf: "hm_wf m \<Longrightarrow> hm_wf (prune_expired cfg now m)"
  by (auto simp: prune_expired_def)

lemma oldest_in: "oldest m = Some p \<Longrightarrow> p \<in> set m"
  by (induction m arbitrary: p) (auto split: option.splits if_splits)

lemma oldest_None: "oldest m = None \<longleftrightarrow> m = []"
  by (cases m) (auto split: option.splits)

lemma oldest_least: "oldest m = Some p \<Longrightarrow> q \<in> set m \<Longrightarrow> ts_last_seen (snd p) \<le> ts_last_seen (snd q)"
proof (induction m arbitrary: p)
  case (Cons x m)
  show ?case
  proof (cases "oldest m")
    case None
    then show ?thesis using Cons.prems by (simp add: oldest_None)
  next
    case (Some a)
    then show ?thesis using Cons.IH [OF Some] Cons.prems by (auto split: if_splits)
  qed
qed simp

lemma remove_oldest_wf: "hm_wf m \<Longrightarrow> hm_wf (remove_oldest m)"
  by (auto simp: remove_oldest_def split: option.splits intro: hm.wf_del)

lemma remove_oldest_length: "hm_wf m \<Longrightarrow> m \<noteq> [] \<Longrightarrow> length (remove_oldest m) = length m - 1"
proof -
  assume wf: "hm_wf m" and "m \<noteq> []"
  then obtain p where p: "oldest m = Some p" using oldest_None by fastforce
  then have "fst p \<in> fst ` set m" by (intro imageI oldest_in)
  then show ?thesis using hm.length_del [OF wf, of "fst p"] by (simp add: remove_oldest_def p)
qed

section \<open>The table stays bounded\<close>

lemma record_failure_table:
  assumes "throttle_enabled cfg" and "hm_wf m"
  obtains m2 s where "snd (record_failure_at cfg k t m) = AList.update k s m2" and "hm_wf m2"
    and "map_of m2 k = map_of (prune_expired cfg t m) k"
    and "map_of m2 k = None \<Longrightarrow> length m2 < max (rl_max_tracked_entries cfg) 1 \<or> length m2 < length m"
    and "length m2 \<le> length m"
proof -
  let ?m1 = "prune_expired cfg t m"
  let ?m2 = "if map_of ?m1 k = None \<and> rl_max_tracked_entries cfg \<le> length ?m1 then remove_oldest ?m1 else ?m1"
  have wf1: "hm_wf ?m1" using assms(2) by (rule prune_wf)
  have len1: "length ?m1 \<le> length m" by (simp add: prune_expired_def)
  have rm: "map_of (remove_oldest ?m1) k = None" if "map_of ?m1 k = None"
    using that by (auto simp: remove_oldest_def delete_conv' split: option.splits)
  show thesis
  proof (rule that [of "snd (fail_state cfg t (case map_of ?m2 k of None \<Rightarrow> fresh_state t | Some s \<Rightarrow> s))" ?m2])
    show "snd (record_failure_at cfg k t m)
        = AList.update k (snd (fail_state cfg t (case map_of ?m2 k of None \<Rightarrow> fresh_state t | Some s \<Rightarrow> s))) ?m2"
      using assms(1) by (simp add: record_failure_at_def Let_def split: prod.splits)
    show "hm_wf ?m2" using wf1 remove_oldest_wf [OF wf1] by simp
    show "map_of ?m2 k = map_of ?m1 k" using rm by simp
    show "length ?m2 < max (rl_max_tracked_entries cfg) 1 \<or> length ?m2 < length m" if "map_of ?m2 k = None"
    proof (cases "?m1 = []")
      case False
      then show ?thesis using that rm remove_oldest_length [OF wf1 False] len1 by (auto split: if_splits)
    qed (simp add: remove_oldest_def)
    show "length ?m2 \<le> length m"
      using remove_oldest_length [OF wf1] len1 by (cases "?m1 = []") (auto simp: remove_oldest_def)
  qed
qed

lemma login_step_bounded:
  assumes "hm_wf m" and "length m \<le> rl_max_tracked_entries cfg"
  shows "hm_wf (login_step cfg op m) \<and> length (login_step cfg op m) \<le> rl_max_tracked_entries cfg"
proof (cases "throttle_enabled cfg")
  case False
  then show ?thesis using assms by (cases op) (simp_all add: check_at_def record_failure_at_def record_success_at_def)
next
  case True
  have pos: "1 \<le> rl_max_tracked_entries cfg" using True by (simp add: throttle_enabled_def)
  show ?thesis
  proof (cases op)
    case (Check k t)
    have "length (prune_expired cfg t m) \<le> length m" by (simp add: prune_expired_def)
    then show ?thesis using Check True assms prune_wf [OF assms(1)] by (simp add: check_at_def Let_def)
  next
    case (Failure k t)
    obtain m2 s where m2: "snd (record_failure_at cfg k t m) = AList.update k s m2" "hm_wf m2"
      "map_of m2 k = None \<Longrightarrow> length m2 < max (rl_max_tracked_entries cfg) 1 \<or> length m2 < length m"
      "length m2 \<le> length m"
      using record_failure_table [OF True assms(1)] by metis
    show ?thesis
      using m2 hm.wf_ins [OF m2(2)] hm.length_ins [OF m2(2), of k s] assms(2) pos
      by (cases "k \<in> fst ` set m2") (auto simp: Failure map_of_eq_None_iff)
  next
    case (Success k t)
    show ?thesis using True hm.wf_del [OF assms(1)] hm.length_del [OF assms(1), of k] assms
      by (cases "k \<in> fst ` set m") (auto simp: Success record_success_at_def)
  qed
qed

lemma login_run_bounded:
  "hm_wf (login_run cfg ops) \<and> length (login_run cfg ops) \<le> rl_max_tracked_entries cfg"
proof -
  have "hm_wf m \<and> length m \<le> rl_max_tracked_entries cfg \<Longrightarrow>
      hm_wf (fold (login_step cfg) ops m) \<and> length (fold (login_step cfg) ops m) \<le> rl_max_tracked_entries cfg" for m
    by (induction ops arbitrary: m) (simp_all add: login_step_bounded)
  from this [of "[]"] show ?thesis by (simp add: login_run_def)
qed

section \<open>Independence of the keys\<close>

lemma few_keys_no_eviction:
  assumes "hm_wf m" and "fst ` set m \<subseteq> K" and "finite K" and "card K \<le> n" and "k \<in> K" and "map_of m k = None"
  shows "length m < n"
proof -
  have "k \<notin> fst ` set m" using assms(6) by (simp add: map_of_eq_None_iff)
  then have "fst ` set m \<subset> K" using assms(2,5) by auto
  then have "card (fst ` set m) < card K" using assms(3) by (rule psubset_card_mono [rotated])
  then show ?thesis using hm.length_keys [OF assms(1)] assms(4) by simp
qed

lemma prune_keys: "fst ` set (prune_expired cfg t m) \<subseteq> fst ` set m"
  by (auto simp: prune_expired_def)

lemma record_failure_roomy:
  assumes "throttle_enabled cfg" and "hm_wf m" and "fst ` set m \<subseteq> K" and "finite K"
    and "card K \<le> rl_max_tracked_entries cfg" and "k \<in> K"
  shows "record_failure_at cfg k t m =
    (fst (key_fail cfg t (map_of m k)), AList.update k (the (snd (key_fail cfg t (map_of m k)))) (prune_expired cfg t m))"
proof -
  let ?m1 = "prune_expired cfg t m"
  have "\<not> (map_of ?m1 k = None \<and> rl_max_tracked_entries cfg \<le> length ?m1)"
    using few_keys_no_eviction [OF prune_wf [OF assms(2)] _ assms(4-6), of cfg t] prune_keys [of cfg t m] assms(3)
    by fastforce
  then show ?thesis
    using assms(1) prune_lookup [OF assms(2), of cfg t k]
    by (auto simp: record_failure_at_def key_fail_def Let_def split: prod.splits)
qed

lemma login_fold_independent:
  assumes "throttle_enabled cfg" and "finite K" and "card K \<le> rl_max_tracked_entries cfg"
    and "hm_wf m" and "fst ` set m \<subseteq> K" and "op_key ` set ops \<subseteq> K"
    and "sorted (now # map op_time ops)" and "\<And>t. now \<le> t \<Longrightarrow> live cfg t (map_of m k) = live cfg t st"
    and "\<forall>x \<in> set (now # map op_time ops). x \<le> t"
  shows "live cfg t (map_of (fold (login_step cfg) ops m) k) = live cfg t (fold (key_step cfg k) ops st)"
  using assms(4-9)
proof (induction ops arbitrary: m now st)
  case Nil
  then show ?case by simp
next
  case (Cons op ops)
  have t0: "now \<le> op_time op" and srt: "sorted (op_time op # map op_time ops)"
    and all: "\<forall>x \<in> set (op_time op # map op_time ops). x \<le> t"
    using Cons.prems(4,6) by simp_all
  have later: "live cfg u (map_of (prune_expired cfg (op_time op) m) k') = live cfg u (map_of m k')"
    if "op_time op \<le> u" for u k'
    using that by (simp add: prune_lookup [OF Cons.prems(1)] live_live)
  have wf1: "hm_wf (prune_expired cfg (op_time op) m)" using Cons.prems(1) by (rule prune_wf)
  have keys1: "fst ` set (prune_expired cfg (op_time op) m) \<subseteq> K"
    using prune_keys [of cfg "op_time op" m] Cons.prems(2) by auto
  have ok: "op_key ` set ops \<subseteq> K" "op_key op \<in> K" using Cons.prems(3) by simp_all
  have step: "live cfg u (map_of (login_step cfg op m) k) = live cfg u (key_step cfg k op st) \<and>
      hm_wf (login_step cfg op m) \<and> fst ` set (login_step cfg op m) \<subseteq> K" if u: "op_time op \<le> u" for u
  proof (cases op)
    case (Check k' t')
    then show ?thesis using u later [OF u] wf1 keys1 t0 Cons.prems(5) [of u] assms(1)
      by (simp add: check_at_def Let_def)
  next
    case (Failure k' t')
    have k': "k' \<in> K" using ok Failure by simp
    note rf = record_failure_roomy [OF assms(1) Cons.prems(1,2) assms(2,3) k', of t']
    have wf': "hm_wf (prune_expired cfg t' m)" and keys': "fst ` set (prune_expired cfg t' m) \<subseteq> K"
      using wf1 keys1 Failure by simp_all
    have same: "key_fail cfg t' (map_of m k) = key_fail cfg t' st" if "k' = k"
      using Cons.prems(5) [of t'] t0 Failure by (simp add: key_fail_def)
    have sm: "\<exists>s. snd (key_fail cfg t' x) = Some s" for x by (simp add: key_fail_def split: prod.splits)
    have "map_of (login_step cfg op m) k = (if k' = k then snd (key_fail cfg t' st) else map_of (prune_expired cfg t' m) k)"
      using same sm [of st] by (auto simp: Failure rf update_conv')
    moreover have "hm_wf (login_step cfg op m) \<and> fst ` set (login_step cfg op m) \<subseteq> K"
      using hm.wf_ins [OF wf'] hm.keys_ins [OF wf'] keys' k' by (simp add: Failure rf)
    ultimately show ?thesis using u later [OF u, of k] Cons.prems(5) [of u] t0 Failure by auto
  next
    case (Success k' t')
    then show ?thesis
      using hm.wf_del [OF Cons.prems(1)] hm.keys_del [OF Cons.prems(1)] Cons.prems(2) Cons.prems(5) [of u] t0 u assms(1)
      by (auto simp: record_success_at_def delete_conv')
  qed
  have "live cfg t (map_of (fold (login_step cfg) ops (login_step cfg op m)) k)
      = live cfg t (fold (key_step cfg k) ops (key_step cfg k op st))"
    by (rule Cons.IH [OF _ _ ok(1) srt _ all]) (use step in blast)+
  then show ?case by simp
qed

lemma throttle_decision:
  assumes "throttle_enabled cfg" and "card (op_key ` set ops \<union> {k}) \<le> rl_max_tracked_entries cfg"
    and "sorted (map op_time ops)" and "\<forall>op \<in> set ops. op_time op \<le> t"
  shows "fst (check_at cfg k t (login_run cfg ops)) = key_check cfg t (key_run cfg k ops)"
proof -
  have "live cfg t (map_of (login_run cfg ops) k) = live cfg t (key_run cfg k ops)"
    unfolding login_run_def key_run_def
    by (rule login_fold_independent [OF assms(1) _ assms(2), where now = 0]) (use assms(3,4) in auto)
  then show ?thesis
    using assms(1) prune_lookup [OF conjunct1 [OF login_run_bounded], of cfg t cfg ops k]
    by (simp add: check_at_def key_check_def Let_def)
qed

text \<open>C8: the table behaves as one independent machine per user name and address.
  Whatever the interleaving of logins, as long as the keys in play fit the table,
  the decision for a key depends only on that key's own attempts, and the table
  never exceeds its configured size.\<close>

theorem throttle_keys_independent:
  assumes "throttle_enabled cfg" and "card (op_key ` set ops \<union> {k}) \<le> rl_max_tracked_entries cfg"
    and "sorted (map op_time ops)" and "\<forall>op \<in> set ops. op_time op \<le> t"
  shows "fst (check_at cfg k t (login_run cfg ops)) = key_check cfg t (key_run cfg k ops) \<and>
    length (login_run cfg ops) \<le> rl_max_tracked_entries cfg"
  using throttle_decision [OF assms] login_run_bounded [of cfg ops] by simp

section \<open>Lockout\<close>

definition within_window :: "rate_config \<Rightarrow> nanos list \<Rightarrow> bool" where
  "within_window cfg ts \<longleftrightarrow> sorted ts \<and> ts \<noteq> [] \<and> last ts - hd ts \<le> secs (rl_window_secs cfg)"

lemma key_run_snoc: "key_run cfg k (ops @ [op]) = key_step cfg k op (key_run cfg k ops)"
  by (simp add: key_run_def)

lemma within_window_snoc:
  "within_window cfg (ts @ [t]) \<Longrightarrow> ts \<noteq> [] \<Longrightarrow> within_window cfg ts \<and> last ts \<le> t \<and> t - hd ts \<le> secs (rl_window_secs cfg)"
proof -
  assume a: "within_window cfg (ts @ [t])" "ts \<noteq> []"
  then have lt: "last ts \<le> t" by (auto simp: within_window_def sorted_append)
  have "last ts - hd ts \<le> t - hd ts" using lt by (rule diff_le_mono)
  with a lt show ?thesis by (simp add: within_window_def sorted_append)
qed

lemma below_threshold_state:
  assumes "within_window cfg ts" and "length ts < rl_max_failures cfg" and "rl_max_failures cfg \<le> u32_max"
  shows "key_run cfg k (map (Failure k) ts) =
    Some \<lparr>ts_failures = length ts, ts_first_failure = hd ts, ts_locked_until = None, ts_last_seen = last ts\<rparr>"
  using assms(1,2)
proof (induction ts rule: rev_induct)
  case (snoc t ts)
  have u: "Suc (length ts) \<le> u32_max" using snoc.prems(2) assms(3) by simp
  show ?case
  proof (cases "ts = []")
    case True
    then show ?thesis using snoc.prems(2) u
      by (simp add: key_run_def key_fail_def live_def fail_state_def fresh_state_def limited_until_def Let_def)
  next
    case False
    note w = within_window_snoc [OF snoc.prems(1) False]
    have ih: "key_run cfg k (map (Failure k) ts) =
      Some \<lparr>ts_failures = length ts, ts_first_failure = hd ts, ts_locked_until = None, ts_last_seen = last ts\<rparr>"
      using snoc.IH w snoc.prems(2) by simp
    show ?thesis using w u snoc.prems(2) False
      by (simp add: key_run_snoc ih key_fail_def live_def unexpired_def fail_state_def limited_until_def Let_def)
  qed
qed (simp add: within_window_def)

lemma at_threshold_state:
  assumes "within_window cfg ts" and "length ts = rl_max_failures cfg" and "rl_max_failures cfg \<le> u32_max"
  shows "key_run cfg k (map (Failure k) ts) =
    Some \<lparr>ts_failures = length ts, ts_first_failure = hd ts,
      ts_locked_until = Some (last ts + secs (rl_lockout_secs cfg)), ts_last_seen = last ts\<rparr>"
proof -
  obtain t us where ts: "ts = us @ [t]" using assms(1) by (metis rev_exhaust within_window_def)
  have u: "Suc (length us) \<le> u32_max" using assms(2,3) ts by simp
  show ?thesis
  proof (cases "us = []")
    case True
    then show ?thesis using assms(2) u ts
      by (simp add: key_run_def key_fail_def live_def fail_state_def fresh_state_def limited_until_def Let_def)
  next
    case False
    note w = within_window_snoc [OF assms(1) [unfolded ts] False]
    have st: "key_run cfg k (map (Failure k) us) =
      Some \<lparr>ts_failures = length us, ts_first_failure = hd us, ts_locked_until = None, ts_last_seen = last us\<rparr>"
      using below_threshold_state [OF conjunct1 [OF w] _ assms(3)] assms(2) ts by simp
    show ?thesis using w u assms(2) False
      by (simp add: ts key_run_snoc st key_fail_def live_def unexpired_def fail_state_def limited_until_def Let_def)
  qed
qed

text \<open>Lockout. After a run of failed logins of one key within the window, a login
  attempt is refused exactly when the run has reached the configured number of
  failures and the lockout has not passed; the wait announced is the time left, at
  least one second. Fewer failures never lock, and no lock is permanent.\<close>

theorem throttle_lockout:
  assumes en: "throttle_enabled cfg" and u: "rl_max_failures cfg \<le> u32_max"
    and win: "within_window cfg ts" and len: "length ts \<le> rl_max_failures cfg" and t: "last ts \<le> t"
  shows "fst (check_at cfg k t (login_run cfg (map (Failure k) ts))) =
    (if length ts = rl_max_failures cfg \<and> t < last ts + secs (rl_lockout_secs cfg)
     then Limited (max (last ts + secs (rl_lockout_secs cfg) - t) (secs 1)) else Allowed)"
proof -
  have ne: "ts \<noteq> []" and srt: "sorted ts" using win by (simp_all add: within_window_def)
  have le: "x \<le> t" if "x \<in> set ts" for x
  proof -
    have "sorted (butlast ts @ [last ts])" "x \<in> set (butlast ts @ [last ts])" using srt ne that by simp_all
    then have "x \<le> last ts" by (auto simp: sorted_append)
    then show ?thesis using t by simp
  qed
  have one: "op_key ` set (map (Failure k) ts) \<union> {k} = {k}" by auto
  have card: "card (op_key ` set (map (Failure k) ts) \<union> {k}) \<le> rl_max_tracked_entries cfg"
    unfolding one using en by (simp add: throttle_enabled_def)
  have "fst (check_at cfg k t (login_run cfg (map (Failure k) ts))) = key_check cfg t (key_run cfg k (map (Failure k) ts))"
    using throttle_decision [OF en card, of t] srt le by (simp add: comp_def)
  also have "\<dots> = (if length ts = rl_max_failures cfg \<and> t < last ts + secs (rl_lockout_secs cfg)
     then Limited (max (last ts + secs (rl_lockout_secs cfg) - t) (secs 1)) else Allowed)"
  proof (cases "length ts = rl_max_failures cfg")
    case True
    then show ?thesis using at_threshold_state [OF win True u, of k]
      by (auto simp: key_check_def live_def unexpired_def limited_until_def)
  next
    case False
    then show ?thesis using below_threshold_state [OF win _ u, of k] len
      by (simp add: key_check_def live_def limited_until_def)
  qed
  finally show ?thesis .
qed

lemma fail_state_result:
  assumes "fail_state cfg t s = (r, s')"
  shows "r = limited_until (ts_locked_until s') t" and "unexpired cfg t s'"
proof -
  have [simp]: "limited_until None t = None" by (simp add: limited_until_def)
  show "r = limited_until (ts_locked_until s') t" "unexpired cfg t s'"
    using assms
    by (cases "limited_until (ts_locked_until s) t";
        auto simp: fail_state_def unexpired_def Let_def split: if_splits)+
qed

text \<open>The answer to a failed login agrees with the next check at the same instant,
  and a successful login clears the key.\<close>

theorem throttle_failure_check_agree:
  assumes "hm_wf m"
  shows "fst (check_at cfg k t (snd (record_failure_at cfg k t m))) =
      (case fst (record_failure_at cfg k t m) of None \<Rightarrow> Allowed | Some r \<Rightarrow> Limited r) \<and>
    fst (check_at cfg k t' (record_success_at cfg k m)) = Allowed"
proof (cases "throttle_enabled cfg")
  case False
  then show ?thesis by (simp add: check_at_def record_failure_at_def record_success_at_def)
next
  case True
  let ?m1 = "prune_expired cfg t m"
  let ?m2 = "if map_of ?m1 k = None \<and> rl_max_tracked_entries cfg \<le> length ?m1 then remove_oldest ?m1 else ?m1"
  let ?s = "case map_of ?m2 k of None \<Rightarrow> fresh_state t | Some s \<Rightarrow> s"
  obtain r s' where f: "fail_state cfg t ?s = (r, s')" by (cases "fail_state cfg t ?s")
  have rf: "record_failure_at cfg k t m = (r, AList.update k s' ?m2)"
    using True f by (simp add: record_failure_at_def Let_def)
  have wf: "hm_wf (AList.update k s' ?m2)"
    using prune_wf [OF assms] remove_oldest_wf [OF prune_wf [OF assms]] by (auto intro: hm.wf_ins)
  have r: "r = limited_until (ts_locked_until s') t" and ux: "unexpired cfg t s'"
    using fail_state_result [OF f] by simp_all
  have "map_of (prune_expired cfg t (AList.update k s' ?m2)) k = Some s'"
    using prune_lookup [OF wf, of cfg t k] ux by (simp add: update_conv' live_def)
  moreover have "map_of (prune_expired cfg t' (AList.delete k m)) k = None"
    using prune_lookup [OF hm.wf_del [OF assms], of cfg t' k k] by (simp add: delete_conv' live_def)
  ultimately show ?thesis using True r
    by (simp add: rf check_at_def record_success_at_def Let_def split: option.splits)
qed

section \<open>Instances\<close>

definition demo_rate :: rate_config where
  "demo_rate = \<lparr>rl_enabled = True, rl_max_failures = 2, rl_window_secs = 60, rl_lockout_secs = 30,
     rl_max_tracked_entries = 5\<rparr>"

theorem throttle_keys_independent_witness:
  "fst (check_at demo_rate (\<lparr>tk_username = ''b'', tk_remote_addr = ''x''\<rparr>) 9
     (login_run demo_rate [Failure (\<lparr>tk_username = ''a'', tk_remote_addr = ''x''\<rparr>) 1, Failure (\<lparr>tk_username = ''a'', tk_remote_addr = ''x''\<rparr>) 2])) = Allowed"
proof -
  let ?a = "\<lparr>tk_username = ''a'', tk_remote_addr = ''x''\<rparr>" and ?b = "\<lparr>tk_username = ''b'', tk_remote_addr = ''x''\<rparr>"
  let ?ops = "[Failure ?a 1, Failure ?a 2]"
  have ne: "?a \<noteq> ?b" by simp
  have "throttle_enabled demo_rate" by (simp add: throttle_enabled_def demo_rate_def)
  moreover have "card (op_key ` set ?ops \<union> {?b}) \<le> rl_max_tracked_entries demo_rate"
    using ne by (simp add: demo_rate_def)
  ultimately have "fst (check_at demo_rate ?b 9 (login_run demo_rate ?ops)) = key_check demo_rate 9 (key_run demo_rate ?b ?ops)"
    using throttle_keys_independent [of demo_rate ?ops ?b 9] by simp
  then show ?thesis using ne by (simp add: key_run_def key_check_def live_def)
qed

theorem throttle_lockout_witness:
  "fst (check_at demo_rate \<lparr>tk_username = ''a'', tk_remote_addr = ''x''\<rparr> 5
     (login_run demo_rate (map (Failure \<lparr>tk_username = ''a'', tk_remote_addr = ''x''\<rparr>) [3, 4]))) \<noteq> Allowed"
proof -
  have "throttle_enabled demo_rate" "rl_max_failures demo_rate \<le> u32_max" "within_window demo_rate [3, 4]"
    "length [3, 4 :: nat] \<le> rl_max_failures demo_rate" "last [3, 4 :: nat] \<le> 5"
    by (simp_all add: throttle_enabled_def demo_rate_def u32_max_def within_window_def secs_def)
  from throttle_lockout [OF this] show ?thesis by (simp add: demo_rate_def secs_def)
qed

theorem throttle_failure_check_agree_witness:
  "fst (check_at demo_rate (\<lparr>tk_username = ''a'', tk_remote_addr = ''x''\<rparr>) 8
     (record_success_at demo_rate (\<lparr>tk_username = ''a'', tk_remote_addr = ''x''\<rparr>) (login_run demo_rate [Failure (\<lparr>tk_username = ''a'', tk_remote_addr = ''x''\<rparr>) 1])))
   = Allowed"
  using throttle_failure_check_agree [OF conjunct1 [OF login_run_bounded], of demo_rate] by blast

end
