(* ===== verification/LT_Plugin_Cache.thy ===== *)
theory LT_Plugin_Cache 
  imports LT_Json
begin

text \<open>
  The key-value cache the host offers to plugins (\<open>plugins/cache.rs\<close>): a hash map
  beside a recency queue, and the two functions exported to WebAssembly, over the
  plugin's linear memory. The pair refines a single list ordered by recency.
\<close>

section \<open>The cache\<close>

record cached_value =
  cv_value :: bytes
  cv_expires_at :: nanos

record plugin_cache =
  pc_entries :: "(string \<times> cached_value) list"
  pc_order :: "string list"
  pc_capacity :: nat
  pc_default_ttl :: nanos

definition MAX_KEY_BYTES :: nat where
  "MAX_KEY_BYTES = 256"

definition MAX_VALUE_BYTES :: nat where
  "MAX_VALUE_BYTES = 16 * 1024"

definition MAX_ENTRY_TTL_SECS :: nat where
  "MAX_ENTRY_TTL_SECS = 3600"

definition ttl_nanos :: "nat \<Rightarrow> nanos" where
  "ttl_nanos s = s * 1000000000"

definition cache_new :: "nat \<Rightarrow> nat \<Rightarrow> plugin_cache" where
  "cache_new capacity default_ttl_secs =
    \<lparr>pc_entries = [], pc_order = [], pc_capacity = capacity, pc_default_ttl = ttl_nanos default_ttl_secs\<rparr>"

text \<open>\<open>sha256_hex\<close> maps a key to the digest under which it is stored.\<close>

definition cache_lookup :: "(bytes \<Rightarrow> string) \<Rightarrow> nanos \<Rightarrow> bytes \<Rightarrow> plugin_cache \<Rightarrow> bytes option \<times> plugin_cache" where
  "cache_lookup sha256_hex now key c =
    (if pc_capacity c = 0 then (None, c)
     else let digest = sha256_hex key in
       case map_of (pc_entries c) digest of
         Some e \<Rightarrow>
           if now < cv_expires_at e
           then (Some (cv_value e),
                 if digest \<in> set (pc_order c)
                 then c\<lparr>pc_order := remove1 digest (pc_order c) @ [digest]\<rparr> else c)
           else (None, c\<lparr>pc_entries := AList.delete digest (pc_entries c),
                         pc_order := filter (\<lambda>d. d \<noteq> digest) (pc_order c)\<rparr>)
       | None \<Rightarrow> (None, c))"

fun evict :: "nat \<Rightarrow> (string \<times> cached_value) list \<Rightarrow> string list \<Rightarrow> (string \<times> cached_value) list \<times> string list" where
  "evict capacity es [] = (es, [])"
| "evict capacity es (d # ds) =
    (if capacity \<le> length es then evict capacity (AList.delete d es) ds else (es, d # ds))"

definition cache_store :: "(bytes \<Rightarrow> string) \<Rightarrow> nanos \<Rightarrow> bytes \<Rightarrow> bytes \<Rightarrow> nat \<Rightarrow> plugin_cache \<Rightarrow> bool \<times> plugin_cache" where
  "cache_store sha256_hex now key val ttl_secs c =
    (if pc_capacity c = 0 \<or> length key > MAX_KEY_BYTES \<or> length val > MAX_VALUE_BYTES
        \<or> ttl_secs > MAX_ENTRY_TTL_SECS
     then (False, c)
     else
       let ttl = (if ttl_secs = 0 then pc_default_ttl c else ttl_nanos ttl_secs);
           digest = sha256_hex key;
           (es, ord) = (if map_of (pc_entries c) digest = None
                        then evict (pc_capacity c) (pc_entries c) (pc_order c)
                        else (pc_entries c, pc_order c));
           replaced = (map_of es digest \<noteq> None);
           es' = AList.update digest \<lparr>cv_value = val, cv_expires_at = now + ttl\<rparr> es;
           ord' = (if replaced \<and> digest \<in> set ord then remove1 digest ord else ord) in
       (True, c\<lparr>pc_entries := es', pc_order := ord' @ [digest]\<rparr>))"

section \<open>The exported functions\<close>

text \<open>\<open>Memory::read\<close> and \<open>Memory::write\<close> fail outside the linear memory.\<close>

definition mem_read :: "bytes \<Rightarrow> nat \<Rightarrow> nat \<Rightarrow> bytes option" where
  "mem_read mem p n = (if p + n \<le> length mem then Some (take n (drop p mem)) else None)"

definition mem_write :: "bytes \<Rightarrow> nat \<Rightarrow> bytes \<Rightarrow> bytes option" where
  "mem_write mem p bs =
    (if p + length bs \<le> length mem then Some (take p mem @ bs @ drop (p + length bs) mem) else None)"

text \<open>The results are the return value (minus one for a rejected call), the memory and
  the cache.\<close>

definition cache_get ::
  "(bytes \<Rightarrow> string) \<Rightarrow> nanos \<Rightarrow> int \<Rightarrow> int \<Rightarrow> int \<Rightarrow> int \<Rightarrow> bytes \<times> plugin_cache \<Rightarrow> int \<times> bytes \<times> plugin_cache" where
  "cache_get sha256_hex now key_ptr key_len out_ptr out_capacity s =
    (case s of (mem, c) \<Rightarrow>
      if key_ptr < 0 \<or> key_len \<le> 0 \<or> nat key_len > MAX_KEY_BYTES then (-1, mem, c)
      else case mem_read mem (nat key_ptr) (nat key_len) of
        None \<Rightarrow> (-1, mem, c)
      | Some key \<Rightarrow>
        (case cache_lookup sha256_hex now key c of
           (None, c1) \<Rightarrow> (0, mem, c1)
         | (Some v, c1) \<Rightarrow>
             if out_ptr < 0 \<or> out_capacity < 0 then (-1, mem, c1)
             else if length v > nat out_capacity then (-1, mem, c1)
             else (case mem_write mem (nat out_ptr) v of
                     None \<Rightarrow> (-1, mem, c1)
                   | Some mem1 \<Rightarrow> (int (length v), mem1, c1))))"

definition cache_put ::
  "(bytes \<Rightarrow> string) \<Rightarrow> nanos \<Rightarrow> int \<Rightarrow> int \<Rightarrow> int \<Rightarrow> int \<Rightarrow> int \<Rightarrow> bytes \<times> plugin_cache \<Rightarrow> int \<times> bytes \<times> plugin_cache" where
  "cache_put sha256_hex now key_ptr key_len value_ptr value_len ttl_secs s =
    (case s of (mem, c) \<Rightarrow>
      if key_ptr < 0 \<or> key_len \<le> 0 \<or> nat key_len > MAX_KEY_BYTES \<or> value_ptr < 0 \<or> value_len \<le> 0
         \<or> nat value_len > MAX_VALUE_BYTES \<or> ttl_secs < 0 \<or> nat ttl_secs > MAX_ENTRY_TTL_SECS
      then (-1, mem, c)
      else case mem_read mem (nat key_ptr) (nat key_len) of
        None \<Rightarrow> (-1, mem, c)
      | Some key \<Rightarrow>
        (case mem_read mem (nat value_ptr) (nat value_len) of
           None \<Rightarrow> (-1, mem, c)
         | Some val \<Rightarrow>
           (case cache_store sha256_hex now key val (nat ttl_secs) c of
              (True, c1) \<Rightarrow> (0, mem, c1)
            | (False, c1) \<Rightarrow> (-1, mem, c1))))"

section \<open>The abstract cache\<close>

text \<open>One list, least recently used first, without repeated digests.\<close>

type_synonym lru = "(string \<times> cached_value) list"

definition lru_touch :: "string \<Rightarrow> lru \<Rightarrow> lru" where
  "lru_touch d l =
    (case map_of l d of None \<Rightarrow> l | Some v \<Rightarrow> filter (\<lambda>p. fst p \<noteq> d) l @ [(d, v)])"

definition lru_drop :: "string \<Rightarrow> lru \<Rightarrow> lru" where
  "lru_drop d l = filter (\<lambda>p. fst p \<noteq> d) l"

definition lru_put :: "nat \<Rightarrow> string \<Rightarrow> cached_value \<Rightarrow> lru \<Rightarrow> lru" where
  "lru_put capacity d v l =
    (if map_of l d = None \<and> capacity \<le> length l then tl l else lru_drop d l) @ [(d, v)]"

definition lru_of :: "plugin_cache \<Rightarrow> lru" where
  "lru_of c = map (\<lambda>d. (d, the (map_of (pc_entries c) d))) (pc_order c)"

definition cache_inv :: "plugin_cache \<Rightarrow> bool" where
  "cache_inv c \<longleftrightarrow>
    hm_wf (pc_entries c) \<and> distinct (pc_order c) \<and> set (pc_order c) = fst ` set (pc_entries c) \<and>
    length (pc_entries c) \<le> pc_capacity c"

lemma cache_inv_length: "cache_inv c \<Longrightarrow> length (pc_order c) = length (pc_entries c)"
  by (metis cache_inv_def distinct_card hm.length_keys)

lemma lru_of_keys: "map fst (lru_of c) = pc_order c"
  by (simp add: lru_of_def comp_def)

lemma lru_lookup: "cache_inv c \<Longrightarrow> map_of (lru_of c) d = map_of (pc_entries c) d"
proof (cases "d \<in> set (pc_order c)")
  case True
  assume inv: "cache_inv c"
  have "map_of (lru_of c) d = Some (the (map_of (pc_entries c) d))"
    using True by (simp add: lru_of_def map_of_map_restrict)
  moreover have "map_of (pc_entries c) d \<noteq> None" using True inv by (simp add: cache_inv_def map_of_eq_None_iff)
  ultimately show ?thesis by auto
next
  case False
  assume inv: "cache_inv c"
  have "map_of (lru_of c) d = None" using False by (metis list.set_map lru_of_keys map_of_none_fst)
  moreover have "map_of (pc_entries c) d = None" using False inv by (simp add: cache_inv_def map_of_eq_None_iff)
  ultimately show ?thesis by simp
qed


lemma lru_filter: "map (\<lambda>d. (d, f d)) (filter (\<lambda>x. x \<noteq> d) ord) = lru_drop d (map (\<lambda>d. (d, f d)) ord)"
  by (simp add: lru_drop_def filter_map comp_def)

lemma remove1_filter: "distinct ord \<Longrightarrow> remove1 d ord = filter (\<lambda>x. x \<noteq> d) ord"
  by (induction ord) (auto intro: filter_True [symmetric])

definition with_values :: "(string \<times> cached_value) list \<Rightarrow> string list \<Rightarrow> lru" where
  "with_values es ord = map (\<lambda>d. (d, the (map_of es d))) ord"

lemma with_values_update: "d \<notin> set ord \<Longrightarrow> with_values (AList.update d v es) ord = with_values es ord"
  by (auto simp: with_values_def update_conv')

lemma with_values_delete: "d \<notin> set ord \<Longrightarrow> with_values (AList.delete d es) ord = with_values es ord"
  by (auto simp: with_values_def delete_conv')

lemma with_values_snoc: "with_values (AList.update d v es) (ord @ [d]) = with_values (AList.update d v es) ord @ [(d, v)]"
  by (simp add: with_values_def update_conv')

lemma with_values_drop: "with_values es (filter (\<lambda>x. x \<noteq> d) ord) = lru_drop d (with_values es ord)"
  unfolding with_values_def by (rule lru_filter)

lemma lru_of_with_values: "lru_of c = with_values (pc_entries c) (pc_order c)"
  by (simp add: lru_of_def with_values_def)

lemma cache_lookup_refines:
  assumes inv: "cache_inv c" and cap: "pc_capacity c \<noteq> 0" and get: "cache_lookup h now key c = (r, c')"
  shows "cache_inv c'"
    and "lru_of c' = (case map_of (lru_of c) (h key) of
        None \<Rightarrow> lru_of c
      | Some e \<Rightarrow> if now < cv_expires_at e then lru_touch (h key) (lru_of c) else lru_drop (h key) (lru_of c))"
    and "r = (case map_of (lru_of c) (h key) of
        None \<Rightarrow> None | Some e \<Rightarrow> if now < cv_expires_at e then Some (cv_value e) else None)"
    and "pc_capacity c' = pc_capacity c" and "pc_default_ttl c' = pc_default_ttl c"
proof -
  let ?d = "h key"
  have wf: "hm_wf (pc_entries c)" and dist: "distinct (pc_order c)" and keys: "set (pc_order c) = fst ` set (pc_entries c)"
    and len: "length (pc_entries c) \<le> pc_capacity c"
    using inv by (simp_all add: cache_inv_def)
  consider (none) "map_of (pc_entries c) ?d = None" | (hit) e where "map_of (pc_entries c) ?d = Some e" "now < cv_expires_at e"
    | (stale) e where "map_of (pc_entries c) ?d = Some e" "\<not> now < cv_expires_at e"
    by (cases "map_of (pc_entries c) ?d") blast+
  then have "cache_inv c' \<and> lru_of c' = (case map_of (lru_of c) (h key) of
        None \<Rightarrow> lru_of c
      | Some e \<Rightarrow> if now < cv_expires_at e then lru_touch (h key) (lru_of c) else lru_drop (h key) (lru_of c)) \<and>
    r = (case map_of (lru_of c) (h key) of
        None \<Rightarrow> None | Some e \<Rightarrow> if now < cv_expires_at e then Some (cv_value e) else None) \<and>
    pc_capacity c' = pc_capacity c \<and> pc_default_ttl c' = pc_default_ttl c"
  proof cases
    case none
    then have "r = None" "c' = c" using get cap by (simp_all add: cache_lookup_def Let_def)
    then show ?thesis using none inv by (simp add: lru_lookup [OF inv])
  next
    case hit
    have "?d \<in> fst ` set (pc_entries c)" using hit(1) by (metis map_of_eq_None_iff option.distinct(1))
    then have c': "c' = c\<lparr>pc_order := filter (\<lambda>x. x \<noteq> ?d) (pc_order c) @ [?d]\<rparr>" and r: "r = Some (cv_value e)"
      using get cap hit keys remove1_filter [OF dist, of ?d] by (simp_all add: cache_lookup_def Let_def)
    have "lru_of c' = lru_touch ?d (lru_of c)"
      using hit(1) lru_lookup [OF inv, of ?d] lru_filter [of "\<lambda>d. the (map_of (pc_entries c) d)" ?d "pc_order c"]
      by (simp add: c' lru_of_def lru_touch_def lru_drop_def)
    moreover have "cache_inv c'" using \<open>?d \<in> fst ` set (pc_entries c)\<close> dist keys wf len by (auto simp: c' cache_inv_def)
    ultimately show ?thesis using hit r by (simp add: lru_lookup [OF inv] c')
  next
    case stale
    have c': "c' = c\<lparr>pc_entries := AList.delete ?d (pc_entries c), pc_order := filter (\<lambda>x. x \<noteq> ?d) (pc_order c)\<rparr>"
      and r: "r = None"
      using get cap stale by (simp_all add: cache_lookup_def Let_def)
    have "lru_of c' = map (\<lambda>d. (d, the (map_of (pc_entries c) d))) (filter (\<lambda>x. x \<noteq> ?d) (pc_order c))"
      by (simp add: c' lru_of_def delete_conv')
    then have "lru_of c' = lru_drop ?d (lru_of c)" by (simp add: lru_filter lru_of_def)
    moreover have "cache_inv c'"
    proof -
      have "{x \<in> set (pc_order c). x \<noteq> ?d} = fst ` set (pc_entries c) - {?d}" using keys by auto
      moreover have "length (AList.delete ?d (pc_entries c)) \<le> pc_capacity c"
        using hm.length_del [OF wf, of ?d] len by (cases "?d \<in> fst ` set (pc_entries c)") simp_all
      ultimately show ?thesis using dist hm.wf_del [OF wf] hm.keys_del [OF wf, of ?d] by (simp add: c' cache_inv_def)
    qed
    ultimately show ?thesis using stale r by (simp add: lru_lookup [OF inv] c')
  qed
  then show "cache_inv c'"
    and "lru_of c' = (case map_of (lru_of c) (h key) of
        None \<Rightarrow> lru_of c
      | Some e \<Rightarrow> if now < cv_expires_at e then lru_touch (h key) (lru_of c) else lru_drop (h key) (lru_of c))"
    and "r = (case map_of (lru_of c) (h key) of
        None \<Rightarrow> None | Some e \<Rightarrow> if now < cv_expires_at e then Some (cv_value e) else None)"
    and "pc_capacity c' = pc_capacity c" and "pc_default_ttl c' = pc_default_ttl c"
    by blast+
qed

lemma evict_full:
  assumes "hm_wf es" and "distinct ord" and "set ord = fst ` set es" and "length es \<le> cap" and "0 < cap"
  shows "evict cap es ord = (if cap \<le> length es then (AList.delete (hd ord) es, tl ord) else (es, ord))"
proof (cases ord)
  case Nil
  then have "es = []" using assms(3) by simp
  then show ?thesis using Nil assms(5) by simp
next
  case (Cons d ds)
  have d: "d \<in> fst ` set es" using assms(3) Cons by auto
  then have "length (AList.delete d es) = length es - 1" using hm.length_del [OF assms(1), of d] by simp
  moreover have "es \<noteq> []" using d by auto
  ultimately have "\<not> cap \<le> length (AList.delete d es)" using assms(4,5) by (cases es) auto
  then show ?thesis by (cases ds) (simp_all add: Cons)
qed

lemma cache_store_refines:
  assumes inv: "cache_inv c" and put: "cache_store h now key val ttl c = (True, c')"
  shows "cache_inv c'"
    and "lru_of c' = lru_put (pc_capacity c) (h key)
      \<lparr>cv_value = val, cv_expires_at = now + (if ttl = 0 then pc_default_ttl c else ttl_nanos ttl)\<rparr> (lru_of c)"
    and "pc_capacity c' = pc_capacity c" and "pc_default_ttl c' = pc_default_ttl c"
proof -
  let ?d = "h key"
  let ?v = "\<lparr>cv_value = val, cv_expires_at = now + (if ttl = 0 then pc_default_ttl c else ttl_nanos ttl)\<rparr>"
  let ?es = "pc_entries c" and ?ord = "pc_order c"
  have wf: "hm_wf ?es" and dist: "distinct ?ord" and keys: "set ?ord = fst ` set ?es"
    and len: "length ?es \<le> pc_capacity c"
    using inv by (simp_all add: cache_inv_def)
  have cap: "0 < pc_capacity c" using put by (auto simp: cache_store_def split: if_splits)
  have lenl: "length (lru_of c) = length ?es" using cache_inv_length [OF inv] by (simp add: lru_of_def)
  have "cache_inv c' \<and> lru_of c' = lru_put (pc_capacity c) ?d ?v (lru_of c) \<and>
    pc_capacity c' = pc_capacity c \<and> pc_default_ttl c' = pc_default_ttl c"
  proof (cases "map_of ?es ?d")
    case None
    have nd: "?d \<notin> set ?ord" using None keys by (simp add: map_of_eq_None_iff)
    show ?thesis
    proof (cases "pc_capacity c \<le> length ?es")
      case True
      have ne: "?ord \<noteq> []" using True cap cache_inv_length [OF inv] by auto
      obtain o1 os where ord: "?ord = o1 # os" using ne by (cases ?ord) auto
      let ?es1 = "AList.delete o1 ?es"
      have ev: "evict (pc_capacity c) ?es ?ord = (?es1, os)"
        using evict_full [OF wf dist keys len cap] True ord by simp
      have none1: "map_of ?es1 ?d = None" using None by (simp add: delete_conv')
      have c': "c' = c\<lparr>pc_entries := AList.update ?d ?v ?es1, pc_order := os @ [?d]\<rparr>"
        using put None ev none1 by (auto simp: cache_store_def Let_def split: if_splits)
      have wf1: "hm_wf ?es1" using wf by (rule hm.wf_del)
      have o1: "o1 \<in> fst ` set ?es" using keys ord by auto
      have "length (AList.update ?d ?v ?es1) \<le> pc_capacity c"
        using hm.length_ins [OF wf1, of ?d ?v] hm.length_del [OF wf, of o1] o1 len cap none1
        by (auto simp: map_of_eq_None_iff)
      moreover have "fst ` set (AList.update ?d ?v ?es1) = insert ?d (set os)"
        using hm.keys_ins [OF wf1, of ?d ?v] hm.keys_del [OF wf, of o1] keys ord dist by auto
      ultimately have "cache_inv c'"
        using hm.wf_ins [OF wf1] dist nd ord by (simp add: c' cache_inv_def)
      moreover have "lru_of c' = tl (lru_of c) @ [(?d, ?v)]"
        using nd dist ord
        by (simp add: c' lru_of_with_values with_values_snoc with_values_update with_values_delete)
           (simp add: with_values_def)
      ultimately show ?thesis
        using True None lenl by (simp add: lru_put_def lru_lookup [OF inv] c')
    next
      case False
      have ev: "evict (pc_capacity c) ?es ?ord = (?es, ?ord)"
        using evict_full [OF wf dist keys len cap] False by simp
      have c': "c' = c\<lparr>pc_entries := AList.update ?d ?v ?es, pc_order := ?ord @ [?d]\<rparr>"
        using put None ev by (auto simp: cache_store_def Let_def split: if_splits)
      have "cache_inv c'"
        using hm.wf_ins [OF wf] hm.keys_ins [OF wf, of ?d ?v] hm.length_ins [OF wf, of ?d ?v] keys dist nd False len
        by (auto simp: c' cache_inv_def)
      moreover have "lru_of c' = lru_drop ?d (lru_of c) @ [(?d, ?v)]"
      proof -
        have "filter (\<lambda>x. x \<noteq> ?d) ?ord = ?ord" using nd by (intro filter_True) auto
        then have "lru_drop ?d (lru_of c) = lru_of c"
          using with_values_drop [of ?es ?d ?ord] by (simp add: lru_of_with_values)
        then show ?thesis using nd by (simp add: c' lru_of_with_values with_values_snoc with_values_update)
      qed
      ultimately show ?thesis using False None lenl by (simp add: lru_put_def lru_lookup [OF inv] c')
    qed
  next
    case (Some e)
    have d: "?d \<in> fst ` set ?es" using Some by (metis map_of_eq_None_iff option.distinct(1))
    have c': "c' = c\<lparr>pc_entries := AList.update ?d ?v ?es, pc_order := filter (\<lambda>x. x \<noteq> ?d) ?ord @ [?d]\<rparr>"
      using put Some d keys remove1_filter [OF dist, of ?d] by (auto simp: cache_store_def Let_def split: if_splits)
    have "cache_inv c'"
      using hm.wf_ins [OF wf] hm.keys_ins [OF wf, of ?d ?v] hm.length_ins [OF wf, of ?d ?v] keys dist d len
      by (auto simp: c' cache_inv_def)
    moreover have "lru_of c' = lru_drop ?d (lru_of c) @ [(?d, ?v)]"
      by (simp add: c' lru_of_with_values with_values_snoc with_values_update with_values_drop [symmetric])
    ultimately show ?thesis using Some lenl by (simp add: lru_put_def lru_lookup [OF inv] c')
  qed
  then show "cache_inv c'"
    and "lru_of c' = lru_put (pc_capacity c) (h key)
      \<lparr>cv_value = val, cv_expires_at = now + (if ttl = 0 then pc_default_ttl c else ttl_nanos ttl)\<rparr> (lru_of c)"
    and "pc_capacity c' = pc_capacity c" and "pc_default_ttl c' = pc_default_ttl c"
    by blast+
qed


section \<open>Properties\<close>

datatype cache_op = Cache_get nanos bytes | Cache_put nanos bytes bytes nat

fun cache_step :: "(bytes \<Rightarrow> string) \<Rightarrow> cache_op \<Rightarrow> plugin_cache \<Rightarrow> plugin_cache" where
  "cache_step h (Cache_get now key) c = snd (cache_lookup h now key c)"
| "cache_step h (Cache_put now key val ttl) c = snd (cache_store h now key val ttl c)"

fun lru_step :: "(bytes \<Rightarrow> string) \<Rightarrow> nat \<Rightarrow> nanos \<Rightarrow> cache_op \<Rightarrow> lru \<Rightarrow> lru" where
  "lru_step h capacity ttl0 (Cache_get now key) l =
    (case map_of l (h key) of
       None \<Rightarrow> l
     | Some e \<Rightarrow> if now < cv_expires_at e then lru_touch (h key) l else lru_drop (h key) l)"
| "lru_step h capacity ttl0 (Cache_put now key val ttl) l =
    (if capacity = 0 \<or> length key > MAX_KEY_BYTES \<or> length val > MAX_VALUE_BYTES \<or> ttl > MAX_ENTRY_TTL_SECS then l
     else lru_put capacity (h key) \<lparr>cv_value = val, cv_expires_at = now + (if ttl = 0 then ttl0 else ttl_nanos ttl)\<rparr> l)"

lemma cache_inv_zero: "cache_inv c \<Longrightarrow> pc_capacity c = 0 \<Longrightarrow> lru_of c = []"
  by (auto simp: cache_inv_def lru_of_def)

lemma cache_store_rejects:
  "fst (cache_store h now key val ttl c) \<longleftrightarrow>
    \<not> (pc_capacity c = 0 \<or> length key > MAX_KEY_BYTES \<or> length val > MAX_VALUE_BYTES \<or> ttl > MAX_ENTRY_TTL_SECS)"
  "\<not> fst (cache_store h now key val ttl c) \<Longrightarrow> snd (cache_store h now key val ttl c) = c"
  by (auto simp: cache_store_def Let_def split: prod.splits)

lemma cache_step_refines:
  assumes inv: "cache_inv c"
  shows "cache_inv (cache_step h op c) \<and>
    lru_of (cache_step h op c) = lru_step h (pc_capacity c) (pc_default_ttl c) op (lru_of c) \<and>
    pc_capacity (cache_step h op c) = pc_capacity c \<and> pc_default_ttl (cache_step h op c) = pc_default_ttl c"
proof (cases op)
  case (Cache_get now key)
  show ?thesis
  proof (cases "pc_capacity c = 0")
    case True
    then show ?thesis using inv cache_inv_zero [OF inv] by (simp add: Cache_get cache_lookup_def)
  next
    case False
    obtain r c' where g: "cache_lookup h now key c = (r, c')" by (cases "cache_lookup h now key c")
    show ?thesis using cache_lookup_refines [OF inv False g] by (simp add: Cache_get g)
  qed
next
  case (Cache_put now key val ttl)
  obtain b c' where p: "cache_store h now key val ttl c = (b, c')" by (cases "cache_store h now key val ttl c")
  show ?thesis
  proof (cases b)
    case True
    with p have "cache_store h now key val ttl c = (True, c')" by simp
    from cache_store_refines [OF inv this] cache_store_rejects(1) [of h now key val ttl c] p True
    show ?thesis by (simp add: Cache_put)
  next
    case False
    then show ?thesis using cache_store_rejects [of h now key val ttl c] p inv by (auto simp: Cache_put)
  qed
qed

definition cache_run :: "(bytes \<Rightarrow> string) \<Rightarrow> nat \<Rightarrow> nat \<Rightarrow> cache_op list \<Rightarrow> plugin_cache" where
  "cache_run h capacity ttl ops = fold (cache_step h) ops (cache_new capacity ttl)"

lemma cache_fold_refines:
  "cache_inv c \<Longrightarrow> cache_inv (fold (cache_step h) ops c) \<and>
    lru_of (fold (cache_step h) ops c) = fold (lru_step h (pc_capacity c) (pc_default_ttl c)) ops (lru_of c) \<and>
    pc_capacity (fold (cache_step h) ops c) = pc_capacity c"
proof (induction ops arbitrary: c)
  case (Cons op ops)
  show ?case using Cons.IH [of "cache_step h op c"] cache_step_refines [OF Cons.prems, of h op] by simp
qed simp

text \<open>C9: the plugin cache is a least-recently-used cache. For every sequence of
  operations the map and the recency queue stay mirrors of each other, together they
  are the list in recency order that the abstract cache maintains, and the number of
  entries never exceeds the capacity.\<close>

theorem plugin_cache_refines_lru:
  "lru_of (cache_run h capacity ttl ops) = fold (lru_step h capacity (ttl_nanos ttl)) ops [] \<and>
   set (pc_order (cache_run h capacity ttl ops)) = fst ` set (pc_entries (cache_run h capacity ttl ops)) \<and>
   length (pc_entries (cache_run h capacity ttl ops)) \<le> capacity"
proof -
  have "cache_inv (cache_new capacity ttl)" by (simp add: cache_inv_def cache_new_def)
  from cache_fold_refines [OF this, of h ops] show ?thesis
    by (simp add: cache_run_def cache_inv_def) (simp add: cache_new_def lru_of_def)
qed

text \<open>A stored value is returned until its time to live has passed and never
  after; storing it changes what is returned for another key only if that key's entry
  was the least recently used one of a full cache.\<close>

theorem plugin_cache_put_get:
  assumes inv: "cache_inv c" and put: "cache_store h now key val ttl c = (True, c')"
  shows "fst (cache_lookup h t key c') =
      (if t < now + (if ttl = 0 then pc_default_ttl c else ttl_nanos ttl) then Some val else None) \<and>
    (h key2 \<noteq> h key \<longrightarrow>
      fst (cache_lookup h t key2 c') = fst (cache_lookup h t key2 c) \<or>
      length (pc_order c) = pc_capacity c \<and> hd (pc_order c) = h key2 \<and> map_of (pc_entries c) (h key) = None)"
proof -
  note p = cache_store_refines [OF inv put]
  have cap: "pc_capacity c \<noteq> 0" using put by (auto simp: cache_store_def split: if_splits)
  have look: "fst (cache_lookup h t k d) = (case map_of (lru_of d) (h k) of
        None \<Rightarrow> None | Some e \<Rightarrow> if t < cv_expires_at e then Some (cv_value e) else None)"
    if "cache_inv d" "pc_capacity d \<noteq> 0" for k d
    using cache_lookup_refines(3) [OF that] by (metis prod.collapse)
  let ?v = "\<lparr>cv_value = val, cv_expires_at = now + (if ttl = 0 then pc_default_ttl c else ttl_nanos ttl)\<rparr>"
  have nf: "map_of (filter (\<lambda>p. fst p \<noteq> h key) (lru_of c)) (h key) = None"
    by (auto simp: map_of_eq_None_iff)
  have own: "map_of (lru_of c') (h key) = Some ?v"
  proof -
    have "map_of (tl (lru_of c)) (h key) = None" if "map_of (lru_of c) (h key) = None"
      using that by (cases "lru_of c") (auto split: if_splits)
    then show ?thesis using nf by (auto simp: p(2) lru_put_def lru_drop_def map_add_def split: option.splits)
  qed
  have other: "map_of (lru_of c') (h key2) = map_of (lru_of c) (h key2) \<or>
      length (pc_order c) = pc_capacity c \<and> hd (pc_order c) = h key2 \<and> map_of (pc_entries c) (h key) = None"
    if ne: "h key2 \<noteq> h key"
  proof (cases "map_of (lru_of c) (h key) = None \<and> pc_capacity c \<le> length (lru_of c)")
    case True
    have len: "length (pc_order c) = pc_capacity c" "length (lru_of c) = pc_capacity c"
      using True inv cache_inv_length [OF inv] by (simp_all add: lru_of_def cache_inv_def)
    obtain x l where l: "lru_of c = x # l" using len cap by (cases "lru_of c") auto
    have hd: "hd (pc_order c) = fst x" using l lru_of_keys [of c] by (metis list.sel(1) list.simps(9))
    show ?thesis
      using True ne len hd by (auto simp: p(2) lru_put_def l lru_lookup [OF inv, symmetric] map_add_def split: option.splits)
  next
    case False
    have "map_of (filter (\<lambda>p. fst p \<noteq> h key) l) (h key2) = map_of l (h key2)" for l :: lru
      using ne by (induction l) auto
    then show ?thesis using False ne by (auto simp: p(2) lru_put_def lru_drop_def map_add_def split: option.splits)
  qed
  show ?thesis
    using look [OF p(1), of key] look [OF p(1), of key2] look [OF inv cap, of key2] own other p(3) cap by auto
qed

lemma mem_write_frame:
  assumes "mem_write mem p bs = Some mem'"
  shows "length mem' = length mem" and "i < length mem \<Longrightarrow> i < p \<or> p + length bs \<le> i \<Longrightarrow> mem' ! i = mem ! i"
    and "take (length bs) (drop p mem') = bs"
  using assms by (auto simp: mem_write_def nth_append split: if_splits)

lemma mem_write_empty: "mem_write mem p [] = Some mem' \<Longrightarrow> mem' = mem"
  by (simp add: mem_write_def split: if_splits)

lemma cache_get_cases:
  assumes "cache_get h now key_ptr key_len out_ptr out_capacity (mem, c) = (r, mem', c')"
  obtains (quiet) "r = - 1 \<or> r = 0" "mem' = mem"
  | (written) key v where "mem_read mem (nat key_ptr) (nat key_len) = Some key"
      "fst (cache_lookup h now key c) = Some v" "0 \<le> out_capacity" "length v \<le> nat out_capacity"
      "mem_write mem (nat out_ptr) v = Some mem'" "r = int (length v)"
proof (cases "mem_read mem (nat key_ptr) (nat key_len)")
  case None
  then show thesis using assms that(1) by (simp add: cache_get_def split: if_splits)
next
  case (Some key)
  obtain v1 c1 where l: "cache_lookup h now key c = (v1, c1)" by (cases "cache_lookup h now key c")
  show thesis
  proof (cases v1)
    case None
    then show thesis using assms Some l that(1) by (simp add: cache_get_def split: if_splits)
  next
    case (Some v)
    then show thesis
      using assms \<open>mem_read mem (nat key_ptr) (nat key_len) = Some key\<close> l that
      by (cases "mem_write mem (nat out_ptr) v") (simp_all add: cache_get_def split: if_splits)
  qed
qed

text \<open>\<open>cache_get\<close> respects the plugin's memory: it never changes its size, writes at
  most the announced capacity, touches no byte outside the output buffer, and writes
  nothing at all on a miss or a rejected call.\<close>

theorem cache_get_memory_safe:
  assumes "cache_get h now key_ptr key_len out_ptr out_capacity (mem, c) = (r, mem', c')"
  shows "length mem' = length mem \<and> - 1 \<le> r \<and> (r \<le> 0 \<longrightarrow> mem' = mem) \<and>
    (0 < r \<longrightarrow> r \<le> out_capacity \<and>
      (\<forall>i < length mem. i < nat out_ptr \<or> nat out_ptr + nat r \<le> i \<longrightarrow> mem' ! i = mem ! i) \<and>
      (\<exists>key. mem_read mem (nat key_ptr) (nat key_len) = Some key \<and>
        fst (cache_lookup h now key c) = Some (take (nat r) (drop (nat out_ptr) mem'))))"
  using assms
proof (cases rule: cache_get_cases)
  case quiet
  then show ?thesis by auto
next
  case (written key v)
  note f = mem_write_frame [OF written(5)]
  have "nat r = length v" using written(6) by simp
  moreover have "r = 0 \<Longrightarrow> mem' = mem" using mem_write_empty written(5,6) by auto
  moreover have "r \<le> out_capacity" using written(3,4,6) by simp
  ultimately show ?thesis using f written(1,2,6) by (simp add: nth_append)
qed


section \<open>Instances\<close>

definition demo_cache :: plugin_cache where
  "demo_cache = \<lparr>pc_entries = [(''k'', \<lparr>cv_value = ''v'', cv_expires_at = 100\<rparr>)], pc_order = [''k''],
     pc_capacity = 2, pc_default_ttl = 50\<rparr>"

theorem plugin_cache_put_get_witness:
  "fst (cache_lookup (\<lambda>k. k) 10 ''j'' (snd (cache_store (\<lambda>k. k) 1 ''j'' ''w'' 0 demo_cache))) = Some ''w''"
proof -
  have inv: "cache_inv demo_cache" by (simp add: cache_inv_def demo_cache_def)
  have "fst (cache_store (\<lambda>k. k) 1 ''j'' ''w'' 0 demo_cache)"
    by (simp add: cache_store_rejects demo_cache_def MAX_KEY_BYTES_def MAX_VALUE_BYTES_def)
  then have p: "cache_store (\<lambda>k. k) 1 ''j'' ''w'' 0 demo_cache = (True, snd (cache_store (\<lambda>k. k) 1 ''j'' ''w'' 0 demo_cache))"
    by (simp add: prod_eq_iff)
  from plugin_cache_put_get [OF inv p, of 10] show ?thesis by (simp add: demo_cache_def)
qed

theorem cache_get_memory_safe_witness:
  "length (fst (snd (cache_get (\<lambda>k. k) 10 0 1 1 4 (''k.......'', demo_cache)))) = 8"
proof -
  obtain r m c where g: "cache_get (\<lambda>k. k) 10 0 1 1 4 (''k.......'', demo_cache) = (r, m, c)"
    by (cases "cache_get (\<lambda>k. k) 10 0 1 1 4 (''k.......'', demo_cache)")
  from cache_get_memory_safe [OF g] g show ?thesis by simp
qed

end
