(* ===== verification/LT_Http.thy ===== *)
theory LT_Http
  imports LT_Json
begin

text \<open>
  URLs and header maps as the program sees them. The crates \<open>url\<close>, \<open>http\<close>,
  \<open>sha2\<close> and \<open>hex\<close> are external: their functions are the fields of \<open>web_lib\<close>, an
  argument of every definition that calls them. A parsed URL is the record of its
  documented components.
\<close>

record url =
  u_scheme :: string
  u_username :: string
  u_password :: "string option"
  u_host :: "string option"
  u_port :: "nat option"
  u_path :: string
  u_query :: "string option"
  u_fragment :: "string option"

text \<open>
  \<open>url_query_form\<close> and \<open>url_path_form\<close> are the encodings \<open>Url::set_query\<close> and
  \<open>Url::set_path\<close> apply to their argument (they depend on the scheme);
  \<open>hv_to_str\<close> is \<open>HeaderValue::to_str\<close>.
\<close>

record web_lib =
  url_parse :: "string \<Rightarrow> url option"
  url_to_string :: "url \<Rightarrow> string"
  url_origin :: "url \<Rightarrow> string"
  url_query_form :: "string \<Rightarrow> string \<Rightarrow> string"
  url_path_form :: "string \<Rightarrow> string \<Rightarrow> string"
  known_default_port :: "string \<Rightarrow> nat option"
  hv_to_str :: "bytes \<Rightarrow> string option"
  sha256 :: "bytes \<Rightarrow> bytes"
  hex_encode :: "bytes \<Rightarrow> string"

definition set_query :: "web_lib \<Rightarrow> string option \<Rightarrow> url \<Rightarrow> url" where
  "set_query W q u = u\<lparr>u_query := map_option (url_query_form W (u_scheme u)) q\<rparr>"

definition set_path :: "web_lib \<Rightarrow> string \<Rightarrow> url \<Rightarrow> url" where
  "set_path W p u = u\<lparr>u_path := url_path_form W (u_scheme u) p\<rparr>"

definition port_or_known_default :: "web_lib \<Rightarrow> url \<Rightarrow> nat option" where
  "port_or_known_default W u =
    (case u_port u of Some p \<Rightarrow> Some p | None \<Rightarrow> known_default_port W (u_scheme u))"

text \<open>A header map, in iteration order; names are stored in lower case.\<close>

type_synonym headers = "(string \<times> bytes) list"

definition header_get :: "headers \<Rightarrow> string \<Rightarrow> bytes option" where
  "header_get h name = map_of h (to_ascii_lowercase name)"

definition header_get_all :: "headers \<Rightarrow> string \<Rightarrow> bytes list" where
  "header_get_all h name = map snd (filter (\<lambda>p. fst p = to_ascii_lowercase name) h)"

text \<open>\<open>iter().find_map(f)\<close>\<close>

fun find_map :: "('a \<Rightarrow> 'b option) \<Rightarrow> 'a list \<Rightarrow> 'b option" where
  "find_map f [] = None"
| "find_map f (x # xs) = (case f x of Some y \<Rightarrow> Some y | None \<Rightarrow> find_map f xs)"

lemma find_map_None: "find_map f xs = None \<longleftrightarrow> (\<forall>x\<in>set xs. f x = None)"
  by (induction xs) (auto split: option.splits)

lemma find_map_Some: "find_map f xs = Some y \<Longrightarrow> \<exists>x\<in>set xs. f x = Some y"
  by (induction xs) (auto split: option.splits)

lemma find_map_cong:
  "xs = ys \<Longrightarrow> (\<And>x. x \<in> set ys \<Longrightarrow> f x = g x) \<Longrightarrow> find_map f xs = find_map g ys"
  by (induction xs arbitrary: ys) (auto split: option.splits)

text \<open>An instance for the witnesses: it knows the URLs it is given and uses
  the identity as encoding and digest.\<close>

definition demo_web :: "(string \<times> url) list \<Rightarrow> web_lib" where
  "demo_web urls =
    \<lparr>url_parse = map_of urls,
     url_to_string = (\<lambda>u. u_scheme u @ ''://'' @ u_username u @
       (case u_host u of None \<Rightarrow> [] | Some h \<Rightarrow> h) @ u_path u @
       (case u_query u of None \<Rightarrow> [] | Some q \<Rightarrow> CHR ''?'' # q)),
     url_origin = (\<lambda>u. u_scheme u @ ''://'' @ (case u_host u of None \<Rightarrow> [] | Some h \<Rightarrow> h)),
     url_query_form = (\<lambda>_ q. q), url_path_form = (\<lambda>_ p. p),
     known_default_port =
       (\<lambda>s. if s = ''http'' \<or> s = ''ws'' then Some 80
            else if s = ''https'' \<or> s = ''wss'' then Some 443 else None),
     hv_to_str = (\<lambda>b. if list_all (\<lambda>c. 32 \<le> byte c \<and> byte c < 127) b then Some b else None),
     sha256 = (\<lambda>b. b), hex_encode = (\<lambda>b. b)\<rparr>"

lemma demo_web_simps [simp]:
  "url_parse (demo_web us) = map_of us"
  "url_query_form (demo_web us) s q = q"
  "url_path_form (demo_web us) s p = p"
  "sha256 (demo_web us) b = b"
  "hex_encode (demo_web us) b = b"
  by (simp_all add: demo_web_def)

end
