(* ===== verification/LT_Redaction.thy ===== *)
theory LT_Redaction
  imports LT_Http
begin

text \<open>
  \<open>redaction.rs\<close>: what is kept of headers and URIs in a stored trace. The main
  theorems are non-interference statements: what is stored is determined by the
  public part of the input, so it carries nothing else.
\<close>

section \<open>Query strings and URIs\<close>

definition REDACTED_QUERY_VALUE :: string where
  "REDACTED_QUERY_VALUE = ''REDACTED''"

definition pair_name :: "string \<Rightarrow> string" where
  "pair_name pair = (case split_once CHR ''='' pair of None \<Rightarrow> pair | Some (name, _) \<Rightarrow> name)"

definition redact_query_string :: "string \<Rightarrow> string" where
  "redact_query_string query =
    (if query = [] then []
     else join_with ''&''
       (map (\<lambda>pair. pair_name pair @ ''='' @ REDACTED_QUERY_VALUE) (split_on CHR ''&'' query)))"

definition redact_uri_query_values :: "web_lib \<Rightarrow> string \<Rightarrow> string" where
  "redact_uri_query_values W val =
    (case url_parse W val of
       Some url \<Rightarrow>
         (let url = url\<lparr>u_username := []\<rparr>;
              url = url\<lparr>u_password := None\<rparr>;
              url = (case u_query url of
                       None \<Rightarrow> url
                     | Some query \<Rightarrow> set_query W (Some (redact_query_string query)) url);
              url = url\<lparr>u_fragment := None\<rparr>
          in url_to_string W url)
     | None \<Rightarrow>
         (let without_fragment =
                (case split_once CHR ''#'' val of None \<Rightarrow> val | Some (p, _) \<Rightarrow> p)
          in case split_once CHR ''?'' without_fragment of
               None \<Rightarrow> without_fragment
             | Some (path, query) \<Rightarrow> path @ ''?'' @ redact_query_string query))"

section \<open>Headers\<close>

record redaction_config =
  sensitive_headers :: "string list"
  store_header_hash :: bool

record redacted_headers =
  rh_json :: json
  rh_first_secret_hash :: "string option"
  rh_credential_scope_hash :: "string option"

definition CREDENTIAL_HEADERS :: "string list" where
  "CREDENTIAL_HEADERS =
    [''authorization'', ''x-api-key'', ''api-key'', ''openai-api-key'', ''anthropic-api-key'',
     ''x-goog-api-key'']"

definition sha256_hex :: "web_lib \<Rightarrow> bytes \<Rightarrow> string" where
  "sha256_hex W b = hex_encode W (sha256 W b)"

definition header_name_matches :: "string \<Rightarrow> string \<Rightarrow> bool" where
  "header_name_matches name candidate \<longleftrightarrow>
    name = candidate \<or>
    ends_with candidate ''*'' \<and> starts_with name (trim_end_matches (\<lambda>c. c = CHR ''*'') candidate)"

definition is_sensitive_header :: "redaction_config \<Rightarrow> string \<Rightarrow> bool" where
  "is_sensitive_header config name \<longleftrightarrow>
    list_ex (\<lambda>candidate. header_name_matches name (to_ascii_lowercase candidate))
      (sensitive_headers config)
    \<or> sublist ''api-key'' name
    \<or> sublist ''apikey'' name
    \<or> sublist ''token'' name
    \<or> sublist ''secret'' name
    \<or> sublist ''password'' name
    \<or> name = ''authorization''
    \<or> name = ''proxy-authorization''
    \<or> name = ''cookie''
    \<or> name = ''set-cookie''"

definition opt_string :: "string option \<Rightarrow> json" where
  "opt_string x = (case x of None \<Rightarrow> JNull | Some s \<Rightarrow> JString s)"

definition value_scheme :: "string \<Rightarrow> string option" where
  "value_scheme val =
    (case split_once (CHR '' '') val of
       None \<Rightarrow> None
     | Some (scheme, _) \<Rightarrow>
         if eq_ignore_ascii_case scheme ''bearer'' \<or> eq_ignore_ascii_case scheme ''basic''
         then Some scheme else None)"

definition redacted_value :: "string \<Rightarrow> string option \<Rightarrow> json" where
  "redacted_value val hash =
    JObject (bt_collect
      [(''redacted'', JBool True),
       (''scheme'', opt_string (value_scheme val)),
       (''sha256'', opt_string hash),
       (''length'', JNumber (PosInt (length val)))])"

definition redact_upstream_header :: "web_lib \<Rightarrow> string \<Rightarrow> json" where
  "redact_upstream_header W val =
    (case url_parse W val of
       Some url \<Rightarrow>
         (let had_secret = (u_username url \<noteq> [] \<or> u_password url \<noteq> None);
              redacted_url = redact_uri_query_values W val
          in if had_secret
             then JObject (bt_collect
               [(''redacted'', JBool True),
                (''url'', JString redacted_url),
                (''sha256'', JString (sha256_hex W val))])
             else JString redacted_url)
     | None \<Rightarrow> JString val)"

definition value_text :: "web_lib \<Rightarrow> bytes \<Rightarrow> string" where
  "value_text W v = (case hv_to_str W v of Some s \<Rightarrow> s | None \<Rightarrow> ''<non-utf8>'')"

text \<open>The body of the loop of \<open>redact_headers\<close>: what is stored for one header.\<close>

definition stored_header :: "web_lib \<Rightarrow> redaction_config \<Rightarrow> string \<Rightarrow> string \<Rightarrow> string \<Rightarrow> json" where
  "stored_header W config upstream_header name_text txt =
    (if is_sensitive_header config name_text
     then redacted_value txt (if store_header_hash config then Some (sha256_hex W txt) else None)
     else if name_text = upstream_header then redact_upstream_header W txt
     else JString txt)"

definition credential_scope_hash :: "web_lib \<Rightarrow> headers \<Rightarrow> string option" where
  "credential_scope_hash W headers =
    map_option (sha256_hex W) (find_map (header_get headers) CREDENTIAL_HEADERS)"

definition redact_headers :: "web_lib \<Rightarrow> redaction_config \<Rightarrow> string \<Rightarrow> headers \<Rightarrow> redacted_headers" where
  "redact_headers W config upstream_header headers =
    (let scope = credential_scope_hash W headers;
         first = (if store_header_hash config then scope else None);
         upstream_header = to_ascii_lowercase (trim upstream_header)
     in \<lparr>rh_json = JObject (fold (\<lambda>(name, val).
             bt_insert (to_ascii_lowercase name)
               (stored_header W config upstream_header (to_ascii_lowercase name)
                 (value_text W val))) headers []),
         rh_first_secret_hash = first,
         rh_credential_scope_hash = scope\<rparr>)"

definition credential_scope_from_headers :: "web_lib \<Rightarrow> json \<Rightarrow> string option" where
  "credential_scope_from_headers W headers =
    (case find_map (get_str headers) CREDENTIAL_HEADERS of
       None \<Rightarrow> None
     | Some v \<Rightarrow> if v \<noteq> ''<non-utf8>'' then Some (sha256_hex W v) else None)"

definition headers_to_json :: "web_lib \<Rightarrow> headers \<Rightarrow> json" where
  "headers_to_json W headers =
    JObject (fold (\<lambda>(name, val). bt_insert (to_ascii_lowercase name) (JString (value_text W val)))
      headers [])"

section \<open>What a redacted query and URI keep\<close>

definition query_names :: "string \<Rightarrow> string list" where
  "query_names q = (if q = [] then [] else map pair_name (split_on CHR ''&'' q))"

text \<open>The part of a URI that may be stored: its location and the names of its
  query parameters.\<close>

definition relative_parts :: "string \<Rightarrow> string \<times> string option" where
  "relative_parts val =
    (let p = (case split_once CHR ''#'' val of None \<Rightarrow> val | Some (p, _) \<Rightarrow> p) in
     case split_once CHR ''?'' p of None \<Rightarrow> (p, None) | Some (path, q) \<Rightarrow> (path, Some q))"

definition relative_public :: "string \<Rightarrow> string \<times> string list option" where
  "relative_public val = (fst (relative_parts val), map_option query_names (snd (relative_parts val)))"

definition url_public :: "url \<Rightarrow> string \<times> string option \<times> nat option \<times> string \<times> string list option" where
  "url_public u = (u_scheme u, u_host u, u_port u, u_path u, map_option query_names (u_query u))"

definition uri_public :: "web_lib \<Rightarrow> string \<Rightarrow>
    string \<times> string list option + string \<times> string option \<times> nat option \<times> string \<times> string list option" where
  "uri_public W val =
    (case url_parse W val of None \<Rightarrow> Inl (relative_public val) | Some u \<Rightarrow> Inr (url_public u))"

lemma redact_query_by_names:
  "redact_query_string q =
    join_with ''&'' (map (\<lambda>n. n @ ''='' @ REDACTED_QUERY_VALUE) (query_names q))"
  by (simp add: redact_query_string_def query_names_def comp_def)

lemma pair_name_no_eq: "CHR ''='' \<notin> set (pair_name p)"
  by (auto simp: pair_name_def split_once_None split: option.splits dest: split_once_Some)

lemma pair_name_set: "set (pair_name p) \<subseteq> set p"
proof (cases "split_once CHR ''='' p")
  case (Some ab)
  obtain a b where "ab = (a, b)" by (cases ab)
  with Some have "split_once CHR ''='' p = Some (a, b)" by simp
  from split_once_Some [OF this] \<open>ab = (a, b)\<close> Some show ?thesis by (auto simp: pair_name_def)
qed (simp add: pair_name_def)

lemma split_once_append [simp]: "c \<notin> set a \<Longrightarrow> split_once c (a @ c # b) = Some (a, b)"
  by (induction a) auto

lemma pair_name_redacted: "CHR ''='' \<notin> set n \<Longrightarrow> pair_name (n @ ''='' @ r) = n"
  by (simp add: pair_name_def)

lemma split_on_append: "c \<notin> set a \<Longrightarrow> split_on c (a @ c # b) = a # split_on c b"
  by (induction a) auto

lemma split_on_none: "c \<notin> set a \<Longrightarrow> split_on c a = [a]"
  by (induction a) auto

lemma split_join:
  "xs \<noteq> [] \<Longrightarrow> \<forall>x\<in>set xs. c \<notin> set x \<Longrightarrow> split_on c (join_with [c] xs) = xs"
  by (induction "[c]" xs rule: join_with.induct) (simp_all add: split_on_append split_on_none)

lemma query_names_clean: "n \<in> set (query_names q) \<Longrightarrow> CHR ''='' \<notin> set n \<and> CHR ''&'' \<notin> set n \<and> set n \<subseteq> set q"
proof -
  assume "n \<in> set (query_names q)"
  then obtain p where p: "p \<in> set (split_on CHR ''&'' q)" "n = pair_name p"
    by (auto simp: query_names_def split: if_splits)
  have "set p \<subseteq> set (join_with ''&'' (split_on CHR ''&'' q))"
  proof -
    have "x \<in> set xs \<Longrightarrow> set x \<subseteq> set (join_with sep xs)" for x sep xs
      by (induction sep xs rule: join_with.induct) auto
    with p show ?thesis by blast
  qed
  with p pair_name_no_eq [of p] pair_name_set [of p] split_on_pieces [OF p(1)] show ?thesis by auto
qed

lemma split_redacted:
  "q \<noteq> [] \<Longrightarrow> split_on CHR ''&'' (redact_query_string q) =
    map (\<lambda>n. n @ ''='' @ REDACTED_QUERY_VALUE) (query_names q)"
  unfolding redact_query_by_names
  by (rule split_join) (auto simp: query_names_def REDACTED_QUERY_VALUE_def
      dest!: split_on_pieces pair_name_set [THEN subsetD])

lemma redact_query_empty [simp]: "redact_query_string q = [] \<longleftrightarrow> q = []"
proof
  assume "redact_query_string q = []"
  then show "q = []"
    using split_redacted [of q] by (auto simp: REDACTED_QUERY_VALUE_def)
qed (simp add: redact_query_string_def)

lemma redact_query_names: "query_names (redact_query_string q) = query_names q"
proof (cases "q = []")
  case False
  have "map pair_name (map (\<lambda>n. n @ ''='' @ REDACTED_QUERY_VALUE) (query_names q)) = query_names q"
    using query_names_clean [of _ q] pair_name_redacted
    by (simp add: map_idI)
  with False show ?thesis by (simp add: query_names_def [of "redact_query_string q"] split_redacted)
qed (simp add: redact_query_string_def)

lemma redact_query_chars:
  "c \<in> set (redact_query_string q) \<Longrightarrow> c \<in> set q \<union> set ''&=REDACTED''"
proof -
  have join: "c \<in> set (join_with sep xs) \<Longrightarrow> c \<in> set sep \<or> (\<exists>x\<in>set xs. c \<in> set x)" for sep xs
    by (induction sep xs rule: join_with.induct) auto
  assume "c \<in> set (redact_query_string q)"
  moreover have "x \<in> set q" if "n \<in> set (query_names q)" "x \<in> set n" for n x
    using query_names_clean [OF that(1)] that(2) by blast
  ultimately show ?thesis unfolding redact_query_by_names
    by (auto dest!: join simp: REDACTED_QUERY_VALUE_def)
qed

lemma redact_relative:
  "url_parse W val = None \<Longrightarrow> redact_uri_query_values W val =
    (case relative_parts val of (p, None) \<Rightarrow> p | (p, Some q) \<Rightarrow> p @ ''?'' @ redact_query_string q)"
  by (auto simp: redact_uri_query_values_def relative_parts_def Let_def split: option.splits)

lemma redact_absolute:
  "url_parse W val = Some u \<Longrightarrow> redact_uri_query_values W val =
    url_to_string W (u\<lparr>u_username := [], u_password := None,
      u_query := map_option (\<lambda>q. url_query_form W (u_scheme u) (redact_query_string q)) (u_query u),
      u_fragment := None\<rparr>)"
  by (cases u; cases "u_query u") (simp_all add: redact_uri_query_values_def Let_def set_query_def)

lemma relative_parts_clean:
  "relative_parts val = (p, q) \<Longrightarrow>
    CHR ''#'' \<notin> set p \<and> CHR ''?'' \<notin> set p \<and> (\<forall>s. q = Some s \<longrightarrow> CHR ''#'' \<notin> set s)"
proof -
  assume a: "relative_parts val = (p, q)"
  let ?w = "case split_once CHR ''#'' val of None \<Rightarrow> val | Some (p, _) \<Rightarrow> p"
  have h: "CHR ''#'' \<notin> set ?w"
    using split_once_None [of "CHR ''#''" val] split_once_Some [of "CHR ''#''" val]
    by (cases "split_once CHR ''#'' val") auto
  show ?thesis
  proof (cases "split_once CHR ''?'' ?w")
    case None
    with a h split_once_None [of "CHR ''?''" ?w] show ?thesis by (simp add: relative_parts_def)
  next
    case (Some ab)
    then obtain x y where xy: "split_once CHR ''?'' ?w = Some (x, y)" by (cases ab) simp
    with a have "p = x" "q = Some y" by (simp_all add: relative_parts_def Let_def)
    with split_once_Some [OF xy] h show ?thesis by simp
  qed
qed

lemma relative_parts_of:
  "CHR ''#'' \<notin> set p \<Longrightarrow> CHR ''?'' \<notin> set p \<Longrightarrow> relative_parts p = (p, None)"
  "CHR ''#'' \<notin> set p \<Longrightarrow> CHR ''?'' \<notin> set p \<Longrightarrow> CHR ''#'' \<notin> set q \<Longrightarrow>
    relative_parts (p @ ''?'' @ q) = (p, Some q)"
proof -
  assume p: "CHR ''#'' \<notin> set p" "CHR ''?'' \<notin> set p"
  then have "split_once CHR ''#'' p = None" "split_once CHR ''?'' p = None"
    by (simp_all add: split_once_None)
  then show "relative_parts p = (p, None)" by (simp add: relative_parts_def)
  assume "CHR ''#'' \<notin> set q"
  with p have "split_once CHR ''#'' (p @ ''?'' @ q) = None" by (simp add: split_once_None)
  with p show "relative_parts (p @ ''?'' @ q) = (p, Some q)" by (simp add: relative_parts_def)
qed

lemma redact_relative_parts:
  "url_parse W val = None \<Longrightarrow> relative_parts (redact_uri_query_values W val) =
    (fst (relative_parts val), map_option redact_query_string (snd (relative_parts val)))"
proof -
  assume none: "url_parse W val = None"
  obtain p q where pq: "relative_parts val = (p, q)" by (cases "relative_parts val")
  note c = relative_parts_clean [OF pq]
  show ?thesis
  proof (cases q)
    case None with pq c none show ?thesis by (simp add: redact_relative relative_parts_of)
  next
    case (Some s)
    from c Some have "CHR ''#'' \<notin> set (redact_query_string s)"
      using redact_query_chars [of "CHR ''#''" s] by auto
    with pq c none Some show ?thesis
      using relative_parts_of(2) [of p "redact_query_string s"] by (simp add: redact_relative)
  qed
qed

lemma query_by_names_cong:
  "map_option query_names a = map_option query_names b \<Longrightarrow>
    map_option redact_query_string a = map_option redact_query_string b"
  by (cases a; cases b) (simp_all add: redact_query_by_names)

lemma redact_uri_by_public:
  "uri_public W a = uri_public W b \<Longrightarrow> redact_uri_query_values W a = redact_uri_query_values W b"
proof -
  assume pub: "uri_public W a = uri_public W b"
  show ?thesis
  proof (cases "url_parse W a")
    case None
    with pub have b: "url_parse W b = None" and rel: "relative_public a = relative_public b"
      by (simp_all add: uri_public_def split: option.splits)
    from rel query_by_names_cong [of "snd (relative_parts a)" "snd (relative_parts b)"]
    show ?thesis
      by (cases "relative_parts a"; cases "relative_parts b";
          cases "snd (relative_parts a)"; cases "snd (relative_parts b)")
         (auto simp: redact_relative [OF None] redact_relative [OF b] relative_public_def
           split: option.splits)
  next
    case (Some u)
    with pub obtain v where v: "url_parse W b = Some v" and uv: "url_public u = url_public v"
      by (auto simp: uri_public_def split: option.splits)
    have eq: "map_option redact_query_string (u_query u) = map_option redact_query_string (u_query v)"
      by (rule query_by_names_cong) (use uv in \<open>simp add: url_public_def\<close>)
    have sch: "u_scheme u = u_scheme v" using uv by (simp add: url_public_def)
    have "map_option (\<lambda>q. url_query_form W (u_scheme u) (redact_query_string q)) (u_query u)
        = map_option (\<lambda>q. url_query_form W (u_scheme v) (redact_query_string q)) (u_query v)"
      using arg_cong [OF eq, of "map_option (url_query_form W (u_scheme v))"]
      by (simp only: option.map_comp comp_def sch)
    with uv show ?thesis
      unfolding redact_absolute [OF Some] redact_absolute [OF v]
      by (cases u; cases v) (simp add: url_public_def)
  qed
qed

text \<open>C6: The stored form of a URI is a function of its public part: two URIs
  that differ only in the values of query parameters, in embedded credentials
  or in the fragment are stored identically, so none of these can be read off a
  trace. For a URI that is not absolute the stored form keeps the path and the
  parameter names, carries the literal REDACTED as every value, and redacting
  again changes nothing as long as it stays relative.\<close>

theorem redact_uri_noninterference:
  "(uri_public W a = uri_public W b \<longrightarrow>
      redact_uri_query_values W a = redact_uri_query_values W b) \<and>
   (url_parse W a = None \<longrightarrow>
      relative_public (redact_uri_query_values W a) = relative_public a \<and>
      (\<forall>q. snd (relative_parts (redact_uri_query_values W a)) = Some q \<longrightarrow> q \<noteq> [] \<longrightarrow>
        split_on CHR ''&'' q = map (\<lambda>n. n @ ''=REDACTED'') (query_names q)) \<and>
      (url_parse W (redact_uri_query_values W a) = None \<longrightarrow>
        redact_uri_query_values W (redact_uri_query_values W a) = redact_uri_query_values W a))"
proof -
  have idem: "redact_query_string (redact_query_string q) = redact_query_string q" for q
    by (simp add: redact_query_by_names [of "redact_query_string q"] redact_query_names)
       (simp add: redact_query_by_names)
  note redact_uri_by_public [of W a b]
  moreover have "relative_public (redact_uri_query_values W a) = relative_public a"
    if "url_parse W a = None"
    using redact_relative_parts [OF that]
    by (simp add: relative_public_def option.map_comp comp_def redact_query_names cong: map_option_cong)
  moreover have "split_on CHR ''&'' q = map (\<lambda>n. n @ ''=REDACTED'') (query_names q)"
    if "url_parse W a = None" "snd (relative_parts (redact_uri_query_values W a)) = Some q" "q \<noteq> []"
    for q
    using redact_relative_parts [OF that(1)] that(2,3) split_redacted redact_query_names
    by (auto simp: REDACTED_QUERY_VALUE_def)
  moreover have "redact_uri_query_values W (redact_uri_query_values W a) = redact_uri_query_values W a"
    if "url_parse W a = None" "url_parse W (redact_uri_query_values W a) = None"
    unfolding redact_relative [OF that(2)] redact_relative_parts [OF that(1)]
    by (auto simp: redact_relative [OF that(1)] idem split: option.splits prod.splits)
  ultimately show ?thesis by blast
qed

theorem redact_uri_noninterference_witness:
  "redact_uri_query_values (demo_web []) ''/v1/x?key=s3cret&n=1#top'' =
     redact_uri_query_values (demo_web []) ''/v1/x?key=other&n'' \<and>
   redact_uri_query_values (demo_web []) ''/v1/x?key=other&n'' = ''/v1/x?key=REDACTED&n=REDACTED''"
proof -
  let ?a = "''/v1/x?key=s3cret&n=1#top''" and ?b = "''/v1/x?key=other&n''"
  have "uri_public (demo_web []) ?a = uri_public (demo_web []) ?b"
    by (simp add: uri_public_def demo_web_def relative_public_def relative_parts_def query_names_def
        pair_name_def)
  with redact_uri_noninterference [of "demo_web []" ?a ?b]
  have "redact_uri_query_values (demo_web []) ?a = redact_uri_query_values (demo_web []) ?b" by blast
  moreover have "redact_uri_query_values (demo_web []) ?b = ''/v1/x?key=REDACTED&n=REDACTED''"
    by (simp add: redact_uri_query_values_def demo_web_def redact_query_string_def pair_name_def
        REDACTED_QUERY_VALUE_def)
  ultimately show ?thesis by simp
qed

section \<open>What stored headers keep\<close>

text \<open>The public part of one header. Of a sensitive value only the length, the
  scheme and, if configured, the digest are public; of the upstream override
  only its public URL, unless it is not a URL.\<close>

definition upstream_public where
  "upstream_public W txt =
    (case url_parse W txt of
       None \<Rightarrow> Inl txt
     | Some u \<Rightarrow> Inr (uri_public W txt,
         if u_username u \<noteq> [] \<or> u_password u \<noteq> None then Some (sha256_hex W txt) else None))"

definition header_public where
  "header_public W config up name txt =
    (if is_sensitive_header config name
     then Inl (length txt, value_scheme txt,
       if store_header_hash config then Some (sha256_hex W txt) else None)
     else if name = up then Inr (Inl (upstream_public W txt)) else Inr (Inr txt))"

lemma upstream_by_public:
  "upstream_public W a = upstream_public W b \<Longrightarrow>
    redact_upstream_header W a = redact_upstream_header W b"
proof -
  assume eq: "upstream_public W a = upstream_public W b"
  show ?thesis
  proof (cases "url_parse W a")
    case None
    with eq show ?thesis
      by (cases "url_parse W b") (simp_all add: upstream_public_def redact_upstream_header_def)
  next
    case (Some u)
    with eq obtain v where v: "url_parse W b = Some v"
      by (cases "url_parse W b") (simp_all add: upstream_public_def)
    have "redact_uri_query_values W a = redact_uri_query_values W b"
      by (rule redact_uri_by_public) (use eq Some v in \<open>simp add: upstream_public_def\<close>)
    with eq Some v show ?thesis
      by (auto simp: upstream_public_def redact_upstream_header_def split: if_splits)
  qed
qed

lemma stored_by_public:
  "header_public W config up n a = header_public W config up n b \<Longrightarrow>
    stored_header W config up n a = stored_header W config up n b"
  using upstream_by_public [of W a b]
  by (auto simp: header_public_def stored_header_def redacted_value_def split: if_splits)

definition upstream_name :: "string \<Rightarrow> string" where
  "upstream_name up = to_ascii_lowercase (trim up)"

definition headers_public where
  "headers_public W config up hs =
    map (\<lambda>p. (to_ascii_lowercase (fst p),
      header_public W config (upstream_name up) (to_ascii_lowercase (fst p)) (value_text W (snd p)))) hs"

definition stored_headers where
  "stored_headers W config up hs =
    map (\<lambda>p. (to_ascii_lowercase (fst p),
      stored_header W config (upstream_name up) (to_ascii_lowercase (fst p)) (value_text W (snd p)))) hs"

lemma rh_json_collect: "rh_json (redact_headers W config up hs) = JObject (bt_collect (stored_headers W config up hs))"
proof -
  have "fold (\<lambda>(name, val). bt_insert (to_ascii_lowercase name)
      (stored_header W config u (to_ascii_lowercase name) (value_text W val))) hs m
    = fold (\<lambda>(k, v). bt_insert k v) (map (\<lambda>p. (to_ascii_lowercase (fst p),
      stored_header W config u (to_ascii_lowercase (fst p)) (value_text W (snd p)))) hs) m" for m u
    by (induction hs arbitrary: m) auto
  then show ?thesis
    by (simp add: redact_headers_def Let_def bt_collect_def stored_headers_def upstream_name_def)
qed

lemma stored_headers_by_public:
  "headers_public W config up hs = headers_public W config up hs' \<Longrightarrow>
    stored_headers W config up hs = stored_headers W config up hs'"
proof (induction hs arbitrary: hs')
  case (Cons p hs)
  from Cons.prems obtain q ks where hs': "hs' = q # ks" by (cases hs') (auto simp: headers_public_def)
  with Cons.prems have n: "to_ascii_lowercase (fst p) = to_ascii_lowercase (fst q)"
    and pub: "header_public W config (upstream_name up) (to_ascii_lowercase (fst q)) (value_text W (snd p))
      = header_public W config (upstream_name up) (to_ascii_lowercase (fst q)) (value_text W (snd q))"
    and rest: "headers_public W config up hs = headers_public W config up ks"
    by (auto simp: headers_public_def)
  from Cons.IH [OF rest] stored_by_public [OF pub] n hs' show ?case by (simp add: stored_headers_def)
qed (auto simp: headers_public_def stored_headers_def)

lemma bt_collect_last:
  "map_of (bt_collect kvs) k = map_of (rev kvs) k"
proof -
  have "bt_wf m \<Longrightarrow> map_of (fold (\<lambda>(k, v). bt_insert k v) kvs m) = map_of m ++ map_of (rev kvs)" for m
  proof (induction kvs arbitrary: m)
    case (Cons p kvs)
    obtain a b where p: "p = (a, b)" by (cases p)
    from Cons.IH [OF bt_insert_wf [OF Cons.prems, of a b]] Cons.prems p
    show ?case by (simp add: bt_insert_lookup map_add_upd_left fun_eq_iff map_add_def split: option.splits)
  qed simp
  from this [of "[]"] show ?thesis by (simp add: bt_collect_def)
qed

text \<open>C7: The stored headers are a function of the public part of the request
  headers: two requests whose sensitive values agree in length, scheme and (when
  hashes are stored) digest have identical stored headers, whatever the secrets
  are. Every header name of the request is stored, and the value stored under a
  sensitive name is a redaction marker whose only text fields are the scheme
  and the digest.\<close>

theorem redact_headers_noninterference:
  "(headers_public W config up hs = headers_public W config up hs' \<longrightarrow>
      rh_json (redact_headers W config up hs) = rh_json (redact_headers W config up hs')) \<and>
   (\<exists>m. rh_json (redact_headers W config up hs) = JObject m \<and> bt_wf m \<and>
      fst ` set m = to_ascii_lowercase ` fst ` set hs \<and>
      (\<forall>n v. map_of m n = Some v \<longrightarrow> is_sensitive_header config n \<longrightarrow>
        (\<exists>len sch hash. v = JObject
          [(''length'', JNumber (PosInt len)), (''redacted'', JBool True),
           (''scheme'', opt_string sch), (''sha256'', opt_string hash)] \<and>
         (\<forall>s. sch = Some s \<longrightarrow> eq_ignore_ascii_case s ''bearer'' \<or> eq_ignore_ascii_case s ''basic'') \<and>
         (\<not> store_header_hash config \<longrightarrow> hash = None))))"
proof -
  let ?m = "bt_collect (stored_headers W config up hs)"
  have keys: "fst ` set ?m = to_ascii_lowercase ` fst ` set hs"
    by (simp add: bt_collect_keys stored_headers_def image_image)
  have shape: "redacted_value t h = JObject
      [(''length'', JNumber (PosInt (length t))), (''redacted'', JBool True),
       (''scheme'', opt_string (value_scheme t)), (''sha256'', opt_string h)]" for t h
    by (simp add: redacted_value_def bt_collect_def less_char_def)
  have scheme: "value_scheme t = Some s \<Longrightarrow>
      eq_ignore_ascii_case s ''bearer'' \<or> eq_ignore_ascii_case s ''basic''" for t s
    by (auto simp: value_scheme_def split: option.splits if_splits)
  have marker: "\<exists>len sch hash. v = JObject
          [(''length'', JNumber (PosInt len)), (''redacted'', JBool True),
           (''scheme'', opt_string sch), (''sha256'', opt_string hash)] \<and>
         (\<forall>s. sch = Some s \<longrightarrow> eq_ignore_ascii_case s ''bearer'' \<or> eq_ignore_ascii_case s ''basic'') \<and>
         (\<not> store_header_hash config \<longrightarrow> hash = None)"
    if v: "map_of ?m n = Some v" and sens: "is_sensitive_header config n" for n v
  proof -
    from v have "(n, v) \<in> set (stored_headers W config up hs)"
      using map_of_SomeD by (fastforce simp: bt_collect_last)
    then obtain t where "v = stored_header W config (upstream_name up) n t"
      by (auto simp: stored_headers_def)
    then have v: "v = redacted_value t (if store_header_hash config then Some (sha256_hex W t) else None)"
      using sens by (simp add: stored_header_def)
    show ?thesis unfolding v shape
      by (intro exI conjI allI impI, rule refl, erule scheme) simp
  qed
  show ?thesis
    using stored_headers_by_public [of W config up hs hs'] keys marker
    by (auto simp: rh_json_collect)
qed

text \<open>A configuration and two requests for the witnesses.\<close>

definition demo_redaction :: redaction_config where
  "demo_redaction = \<lparr>sensitive_headers = [''X-Private-*''], store_header_hash = False\<rparr>"

theorem redact_headers_noninterference_witness:
  "rh_json (redact_headers (demo_web []) demo_redaction ''x-up''
      [(''authorization'', ''Bearer abc''), (''accept'', ''*'')]) =
   rh_json (redact_headers (demo_web []) demo_redaction ''x-up''
      [(''authorization'', ''Bearer xyz''), (''accept'', ''*'')])"
proof -
  let ?h = "[(''authorization'', ''Bearer abc''), (''accept'', ''*'')]"
  let ?k = "[(''authorization'', ''Bearer xyz''), (''accept'', ''*'')]"
  have low: "to_ascii_lowercase ''authorization'' = ''authorization''"
    "to_ascii_lowercase ''accept'' = ''accept''"
    by (simp_all add: to_ascii_lowercase_def ascii_lower_def byte_def)
  have sens: "is_sensitive_header demo_redaction ''authorization''"
    by (simp add: is_sensitive_header_def)
  have "headers_public (demo_web []) demo_redaction ''x-up'' ?h =
      headers_public (demo_web []) demo_redaction ''x-up'' ?k"
    by (simp add: headers_public_def low header_public_def sens)
       (simp add: value_text_def demo_web_def demo_redaction_def value_scheme_def byte_def)
  with redact_headers_noninterference [of "demo_web []" demo_redaction "''x-up''" ?h ?k]
  show ?thesis by blast
qed

lemma map_of_rev_distinct: "distinct (map fst xs) \<Longrightarrow> map_of (rev xs) = map_of xs"
  by (rule map_of_eqI) (auto simp: rev_map [symmetric] map_of_eq_Some_iff)

lemma headers_to_json_collect:
  "headers_to_json W hs =
    JObject (bt_collect (map (\<lambda>p. (to_ascii_lowercase (fst p), JString (value_text W (snd p)))) hs))"
proof -
  have "fold (\<lambda>(name, val). bt_insert (to_ascii_lowercase name) (JString (value_text W val))) hs m
    = fold (\<lambda>(k, v). bt_insert k v)
        (map (\<lambda>p. (to_ascii_lowercase (fst p), JString (value_text W (snd p)))) hs) m" for m
    by (induction hs arbitrary: m) auto
  then show ?thesis by (simp add: headers_to_json_def bt_collect_def)
qed

lemma headers_to_json_get:
  assumes lower: "\<forall>p\<in>set hs. to_ascii_lowercase (fst p) = fst p" and dist: "distinct (map fst hs)"
  shows "get_str (headers_to_json W hs) n = map_option (value_text W) (map_of hs n)"
proof -
  have "map (\<lambda>p. (to_ascii_lowercase (fst p), JString (value_text W (snd p)))) hs
      = map (\<lambda>p. (fst p, JString (value_text W (snd p)))) hs"
    using lower by simp
  then have "get_str (headers_to_json W hs) n
      = Option.bind (map_of (rev (map (\<lambda>p. (fst p, JString (value_text W (snd p)))) hs)) n) as_str"
    by (simp only: headers_to_json_collect get_str_def json_get.simps bt_collect_last)
  also have "map_of (rev (map (\<lambda>p. (fst p, JString (value_text W (snd p)))) hs)) n
      = map_of (map (\<lambda>p. (fst p, JString (value_text W (snd p)))) hs) n"
    by (rule fun_cong [OF map_of_rev_distinct]) (use dist in \<open>simp add: comp_def\<close>)
  also have "\<dots> = map_option (\<lambda>v. JString (value_text W v)) (map_of hs n)"
    by (induction hs) auto
  finally show ?thesis by (cases "map_of hs n") simp_all
qed

lemma credential_names_lower: "n \<in> set CREDENTIAL_HEADERS \<Longrightarrow> to_ascii_lowercase n = n"
  by (auto simp: CREDENTIAL_HEADERS_def to_ascii_lowercase_def ascii_lower_def byte_def)

lemma rh_scope [simp]:
  "rh_credential_scope_hash (redact_headers W config up hs) = credential_scope_hash W hs"
  by (simp add: redact_headers_def Let_def)

text \<open>The account fingerprint of a request can be recovered on replay: from the
  captured headers \<open>credential_scope_from_headers\<close> computes the same value that
  \<open>redact_headers\<close> computed from the live request, whatever the header hash
  setting is, provided no header is repeated and the credentials are text.\<close>

theorem credential_scope_recovered:
  assumes lower: "\<forall>p\<in>set hs. to_ascii_lowercase (fst p) = fst p" and dist: "distinct (map fst hs)"
    and str: "\<forall>p\<in>set hs. fst p \<in> set CREDENTIAL_HEADERS \<longrightarrow>
      hv_to_str W (snd p) = Some (snd p) \<and> snd p \<noteq> ''<non-utf8>''"
  shows "credential_scope_from_headers W (headers_to_json W hs) =
      rh_credential_scope_hash (redact_headers W config up hs)"
proof -
  have get: "get_str (headers_to_json W hs) n = header_get hs n \<and>
      header_get hs n \<noteq> Some ''<non-utf8>''" if "n \<in> set CREDENTIAL_HEADERS" for n
    using str that headers_to_json_get [OF lower dist, of W n]
    by (cases "map_of hs n")
       (auto simp: header_get_def credential_names_lower value_text_def dest!: map_of_SomeD)
  then have eq: "find_map (get_str (headers_to_json W hs)) CREDENTIAL_HEADERS
      = find_map (header_get hs) CREDENTIAL_HEADERS"
    by (intro find_map_cong) auto
  have "find_map (header_get hs) CREDENTIAL_HEADERS \<noteq> Some ''<non-utf8>''"
    using get find_map_Some by metis
  then show ?thesis unfolding credential_scope_from_headers_def eq
    by (cases "find_map (header_get hs) CREDENTIAL_HEADERS")
       (simp_all add: credential_scope_hash_def)
qed

theorem credential_scope_recovered_witness:
  "credential_scope_from_headers (demo_web []) (headers_to_json (demo_web [])
      [(''accept'', ''*''), (''x-api-key'', ''k1'')]) =
    rh_credential_scope_hash (redact_headers (demo_web []) demo_redaction ''x-up''
      [(''accept'', ''*''), (''x-api-key'', ''k1'')]) \<and>
   rh_credential_scope_hash (redact_headers (demo_web []) demo_redaction ''x-up''
      [(''accept'', ''*''), (''x-api-key'', ''k1'')]) = Some ''k1''"
proof -
  let ?h = "[(''accept'', ''*''), (''x-api-key'', ''k1'')]"
  have "credential_scope_from_headers (demo_web []) (headers_to_json (demo_web []) ?h) =
      rh_credential_scope_hash (redact_headers (demo_web []) demo_redaction ''x-up'' ?h)"
    by (rule credential_scope_recovered)
       (simp_all add: to_ascii_lowercase_def ascii_lower_def byte_def demo_web_def CREDENTIAL_HEADERS_def)
  moreover have "rh_credential_scope_hash (redact_headers (demo_web []) demo_redaction ''x-up'' ?h) = Some ''k1''"
    by (simp add: credential_scope_hash_def CREDENTIAL_HEADERS_def header_get_def
        to_ascii_lowercase_def ascii_lower_def byte_def sha256_hex_def demo_web_def)
  ultimately show ?thesis by simp
qed

text \<open>The override header is the exception to the hash setting: an upstream URL with
  embedded credentials is stored with the digest of the whole value although
  the configuration says that no hashes are stored.\<close>

lemma upstream_digest_ignores_setting:
  "url_parse W txt = Some u \<Longrightarrow> u_password u \<noteq> None \<Longrightarrow>
    \<not> is_sensitive_header (config\<lparr>store_header_hash := False\<rparr>) n \<Longrightarrow>
    json_get (stored_header W (config\<lparr>store_header_hash := False\<rparr>) n n txt) ''sha256'' =
      Some (JString (sha256_hex W txt))"
  by (simp add: stored_header_def redact_upstream_header_def bt_collect_def less_char_def)

end
