(* ===== verification/LT_Routing.thy ===== *)
theory LT_Routing
  imports LT_Http
begin

text \<open>
  Which requests are forwarded, captured and where to: the path and upstream
  allowlists of \<open>config.rs\<close>, the path checks and the capture policy of
  \<open>routing.rs\<close>, and the upstream resolution and policy of \<open>proxy.rs\<close>. The theorems
  show that a request path accepted by the proxy means the same to an upstream
  that decodes and resolves it, and which upstreams can be reached.
\<close>

section \<open>Allowlists (config.rs)\<close>

datatype proxy_preset = Custom | Litellm

fun proxy_preset_as_str :: "proxy_preset \<Rightarrow> string" where
  "proxy_preset_as_str Custom = ''custom''"
| "proxy_preset_as_str Litellm = ''litellm''"

record proxy_config =
  preset :: proxy_preset
  default_upstream :: string
  allow_upstreams :: "string list"
  path_prefixes :: "string list option"
  capture_path_prefixes :: "string list option"
  upstream_header :: string
  forward_cookies :: bool
  timeout_secs :: nat
  max_request_body_bytes :: nat
  max_response_body_bytes :: nat
  max_websocket_message_bytes :: nat
  max_websocket_session_bytes :: nat

datatype upstream_allow_entry =
    Host_entry string "nat option"
  | Url_entry string string nat string

text \<open>An error message: the field it names and what is wrong with it.\<close>

datatype problem =
    Must_not_be_empty
  | Not_a_valid_url
  | Must_include_a_host
  | Must_use_schemes "string list"
  | Must_not_contain_credentials
  | Must_not_contain_query_or_fragment
  | Must_include_a_known_port
  | Host_entry_must_be_hostname
  | Host_entry_invalid
  | Must_start_with_slash string
  | Must_be_plain_path

datatype cfg_error = Cfg_error string problem

definition UPSTREAM_ALLOWLIST_SCHEMES :: "string list" where
  "UPSTREAM_ALLOWLIST_SCHEMES = [''http'', ''https'', ''ws'', ''wss'']"

definition parse_url :: "web_lib \<Rightarrow> string \<Rightarrow> string \<Rightarrow> string list \<Rightarrow> cfg_error + url" where
  "parse_url W field val allowed_schemes =
    (let val = trim val in
     if val = [] then Inl (Cfg_error field Must_not_be_empty)
     else case url_parse W val of
       None \<Rightarrow> Inl (Cfg_error field Not_a_valid_url)
     | Some url \<Rightarrow>
         if u_host url = None then Inl (Cfg_error field Must_include_a_host)
         else if u_scheme url \<notin> set allowed_schemes
         then Inl (Cfg_error field (Must_use_schemes allowed_schemes))
         else Inr url)"

definition normalize_allowlist_path :: "string \<Rightarrow> string" where
  "normalize_allowlist_path path =
    (if path = [] \<or> path = ''/'' then ''/'' else CHR ''/'' # trim_matches (\<lambda>c. c = CHR ''/'') path)"

text \<open>\<open>str::find\<close> of a character and \<open>str::rsplit_once\<close>.\<close>

fun str_find :: "char \<Rightarrow> string \<Rightarrow> nat option" where
  "str_find c [] = None"
| "str_find c (x # xs) = (if x = c then Some 0 else map_option Suc (str_find c xs))"

definition rsplit_once :: "char \<Rightarrow> string \<Rightarrow> (string \<times> string) option" where
  "rsplit_once c s =
    (case split_once c (rev s) of None \<Rightarrow> None | Some (b, a) \<Rightarrow> Some (rev a, rev b))"

definition explicit_host_entry_port :: "string \<Rightarrow> nat option" where
  "explicit_host_entry_port val =
    Option.bind
      (case strip_prefix ''['' val of
         Some rest \<Rightarrow>
           Option.bind (str_find CHR '']'' rest) (\<lambda>close_bracket.
             strip_prefix '':'' (drop (close_bracket + 1) rest))
       | None \<Rightarrow> map_option snd (rsplit_once CHR '':'' val))
      (\<lambda>port. if port = [] then None else parse_uint 65535 port)"

definition is_ascii_whitespace :: "char \<Rightarrow> bool" where
  "is_ascii_whitespace c \<longleftrightarrow> byte c \<in> {9, 10, 12, 13, 32}"

definition parse_upstream_allow_entry ::
  "web_lib \<Rightarrow> string \<Rightarrow> string \<Rightarrow> cfg_error + upstream_allow_entry" where
  "parse_upstream_allow_entry W field val =
    (let val = trim val in
     if val = [] then Inl (Cfg_error field Must_not_be_empty)
     else if sublist ''://'' val then
       bind_res (parse_url W field val UPSTREAM_ALLOWLIST_SCHEMES) (\<lambda>url.
       if u_username url \<noteq> [] \<or> u_password url \<noteq> None
       then Inl (Cfg_error field Must_not_contain_credentials)
       else if u_query url \<noteq> None \<or> u_fragment url \<noteq> None
       then Inl (Cfg_error field Must_not_contain_query_or_fragment)
       else bind_res (ok_or (u_host url) (Cfg_error field Must_include_a_host)) (\<lambda>host.
         bind_res (ok_or (port_or_known_default W url) (Cfg_error field Must_include_a_known_port)) (\<lambda>port.
         Inr (Url_entry (u_scheme url) (to_ascii_lowercase host) port
           (normalize_allowlist_path (u_path url))))))
     else if list_ex (\<lambda>c. is_ascii_whitespace c \<or> c \<in> set ''/?#@'') val
     then Inl (Cfg_error field Host_entry_must_be_hostname)
     else bind_res (ok_or (url_parse W (''https://'' @ val)) (Cfg_error field Host_entry_invalid)) (\<lambda>url.
       bind_res (ok_or (u_host url) (Cfg_error field Must_include_a_host)) (\<lambda>host.
       Inr (Host_entry (to_ascii_lowercase host) (explicit_host_entry_port val)))))"

definition parse_proxy_path_prefix :: "string \<Rightarrow> string \<Rightarrow> cfg_error + string" where
  "parse_proxy_path_prefix field val =
    (let val = trim val in
     if val = [] then Inl (Cfg_error field Must_not_be_empty)
     else if \<not> starts_with val ''/'' then Inl (Cfg_error field (Must_start_with_slash val))
     else if list_ex (\<lambda>segment. segment = ''..'' \<or> segment = ''.'') (split_on CHR ''/'' val)
        \<or> list_ex (\<lambda>c. c \<in> {CHR ''?'', CHR ''#'', CHR ''%'', CHR 0x5C}) val
        \<or> list_ex (\<lambda>w. sublist w val) whitespace_chars
     then Inl (Cfg_error field Must_be_plain_path)
     else Inr (normalize_allowlist_path val))"

definition path_prefix_matches :: "string \<Rightarrow> string \<Rightarrow> bool" where
  "path_prefix_matches pre path \<longleftrightarrow>
    pre = ''/'' \<or> path = pre \<or>
    (case strip_prefix pre path of None \<Rightarrow> False | Some suf \<Rightarrow> starts_with suf ''/'')"

text \<open>\<open>collect::<Result<Vec<_>, _>>\<close>: the first error wins.\<close>

fun collect_results :: "('e + 'a) list \<Rightarrow> 'e + 'a list" where
  "collect_results [] = Inr []"
| "collect_results (r # rs) = bind_res r (\<lambda>x. bind_res (collect_results rs) (\<lambda>xs. Inr (x # xs)))"

definition indexed :: "string \<Rightarrow> nat \<Rightarrow> string" where
  "indexed field i = field @ ''['' @ show_nat i @ '']''"

definition upstream_allowlist_parse :: "web_lib \<Rightarrow> string list \<Rightarrow> cfg_error + upstream_allow_entry list" where
  "upstream_allowlist_parse W entries =
    collect_results (map (\<lambda>(index, entry).
      parse_upstream_allow_entry W (indexed ''proxy.allow_upstreams'' index) entry)
      (enumerate 0 entries))"

definition path_prefix_allowlist_parse :: "string list \<Rightarrow> string \<Rightarrow> cfg_error + string list" where
  "path_prefix_allowlist_parse entries field =
    collect_results (map (\<lambda>(index, entry). parse_proxy_path_prefix (indexed field index) entry)
      (enumerate 0 entries))"

definition host_matches :: "string \<Rightarrow> url \<Rightarrow> bool" where
  "host_matches host url \<longleftrightarrow>
    (case u_host url of None \<Rightarrow> False | Some h \<Rightarrow> eq_ignore_ascii_case h host)"

fun entry_matches :: "web_lib \<Rightarrow> upstream_allow_entry \<Rightarrow> url \<Rightarrow> bool" where
  "entry_matches W (Host_entry host port) url \<longleftrightarrow>
    host_matches host url \<and>
    (case port of None \<Rightarrow> True | Some p \<Rightarrow> port_or_known_default W url = Some p)"
| "entry_matches W (Url_entry scheme host port path_prefix) url \<longleftrightarrow>
    u_scheme url = scheme \<and> host_matches host url \<and>
    port_or_known_default W url = Some port \<and> path_prefix_matches path_prefix (u_path url)"

definition upstream_allows :: "web_lib \<Rightarrow> upstream_allow_entry list \<Rightarrow> url \<Rightarrow> bool" where
  "upstream_allows W entries url \<longleftrightarrow>
    u_scheme url \<in> set UPSTREAM_ALLOWLIST_SCHEMES \<and>
    (entries = [] \<or> list_ex (\<lambda>entry. entry_matches W entry url) entries)"

definition path_allows :: "string list \<Rightarrow> string \<Rightarrow> bool" where
  "path_allows allowed path \<longleftrightarrow> list_ex (\<lambda>pre. path_prefix_matches pre path) allowed"

section \<open>Prefixes and capture policy (routing.rs)\<close>

definition INFERENCE :: "string list" where
  "INFERENCE =
    [''/chat/completions'', ''/completions'', ''/responses'', ''/messages'', ''/embeddings'',
     ''/images'', ''/audio'', ''/moderations'', ''/rerank'', ''/realtime'']"

definition SUPPORTING :: "string list" where
  "SUPPORTING =
    [''/models'', ''/files'', ''/batches'', ''/assistants'', ''/threads'', ''/fine_tuning'',
     ''/model/info'', ''/key/info'', ''/user/info'', ''/health'']"

definition litellm_capture_prefixes :: "string list" where
  "litellm_capture_prefixes = concat (map (\<lambda>path. [path, ''/v1'' @ path]) INFERENCE)"

definition litellm_forward_prefixes :: "string list" where
  "litellm_forward_prefixes = ''/v1'' # INFERENCE @ SUPPORTING"

definition effective_path_prefixes :: "proxy_config \<Rightarrow> string list" where
  "effective_path_prefixes c =
    (case path_prefixes c of
       Some ps \<Rightarrow> ps
     | None \<Rightarrow> (case preset c of Custom \<Rightarrow> [''/v1''] | Litellm \<Rightarrow> litellm_forward_prefixes))"

definition effective_capture_path_prefixes :: "proxy_config \<Rightarrow> string list" where
  "effective_capture_path_prefixes c =
    (case capture_path_prefixes c of
       Some ps \<Rightarrow> ps
     | None \<Rightarrow> (case preset c of
                  Custom \<Rightarrow> effective_path_prefixes c | Litellm \<Rightarrow> litellm_capture_prefixes))"

definition path_prefix_allowlist :: "proxy_config \<Rightarrow> cfg_error + string list" where
  "path_prefix_allowlist c =
    path_prefix_allowlist_parse (effective_path_prefixes c) ''proxy.path_prefixes''"

definition capture_prefix_allowlist :: "proxy_config \<Rightarrow> cfg_error + string list" where
  "capture_prefix_allowlist c =
    path_prefix_allowlist_parse (effective_capture_path_prefixes c) ''proxy.capture_path_prefixes''"

fun windows3 :: "string \<Rightarrow> string list" where
  "windows3 (a # b # c # cs) = [a, b, c] # windows3 (b # c # cs)"
| "windows3 _ = []"

definition encoded_separator :: "string \<Rightarrow> bool" where
  "encoded_separator bs \<longleftrightarrow>
    list_ex (\<lambda>s. eq_ignore_ascii_case s ''%2f'' \<or> eq_ignore_ascii_case s ''%5c'') (windows3 bs)"

text \<open>The loop over the bytes of one segment; true means that the segment is
  ambiguous.\<close>

fun segment_scan :: "nat \<Rightarrow> string \<Rightarrow> bool" where
  "segment_scan dots [] \<longleftrightarrow> dots = 1 \<or> dots = 2"
| "segment_scan dots (b # bs) \<longleftrightarrow>
    (if b = CHR ''.'' then segment_scan (dots + 1) bs
     else if 2 \<le> length bs \<and> b = CHR ''%'' \<and> bs ! 0 = CHR ''2'' \<and> ascii_lower (bs ! 1) = CHR ''e''
     then segment_scan (dots + 1) (drop 2 bs)
     else encoded_separator (b # bs))"

definition unambiguous_path :: "string \<Rightarrow> bool" where
  "unambiguous_path path \<longleftrightarrow>
    CHR 0x5C \<notin> set path \<and> \<not> list_ex (segment_scan 0) (split_on CHR ''/'' path)"

record capture_policy =
  cp_prefixes :: "string list"
  cp_inference_methods_only :: bool

definition capture_policy_new :: "proxy_config \<Rightarrow> cfg_error + capture_policy" where
  "capture_policy_new c =
    bind_res (capture_prefix_allowlist c) (\<lambda>prefixes.
    Inr \<lparr>cp_prefixes = prefixes,
         cp_inference_methods_only = (preset c = Litellm \<and> capture_path_prefixes c = None)\<rparr>)"

definition captures :: "capture_policy \<Rightarrow> string \<Rightarrow> string \<Rightarrow> bool \<Rightarrow> bool" where
  "captures p meth path websocket \<longleftrightarrow>
    path_allows (cp_prefixes p) path \<and>
    (\<not> cp_inference_methods_only p \<or> meth = ''POST'' \<or> websocket)"

section \<open>Upstream selection (proxy.rs)\<close>

definition HTTP_UPSTREAM_SCHEMES :: "string list" where
  "HTTP_UPSTREAM_SCHEMES = [''http'', ''https'']"

definition WEBSOCKET_UPSTREAM_SCHEMES :: "string list" where
  "WEBSOCKET_UPSTREAM_SCHEMES = [''ws'', ''wss'']"

text \<open>The request URI of the \<open>http\<close> crate by its parts; \<open>uri_text\<close> is its printed form.\<close>

record uri =
  uri_scheme :: "string option"
  uri_authority :: "string option"
  uri_path_and_query :: "(string \<times> string option) option"
  uri_text :: string

datatype setup_error = Bad_request setup_reason | Forbidden setup_reason | Upstream_failed
  and setup_reason =
    Multiple_override_headers | Override_not_text | Url_parse_failed
  | Contains_credentials | Lacks_host | Scheme_not_allowed string
  | Upstream_not_allowed string | Cannot_proxy_websocket string

fun setup_status :: "setup_error \<Rightarrow> nat" where
  "setup_status (Bad_request _) = 400"
| "setup_status (Forbidden _) = 403"
| "setup_status Upstream_failed = 502"

fun setup_public_message :: "setup_error \<Rightarrow> string" where
  "setup_public_message (Bad_request _) = ''invalid proxy request''"
| "setup_public_message (Forbidden _) = ''upstream is not allowed''"
| "setup_public_message Upstream_failed = ''upstream request failed''"

definition upstream_override_header :: "web_lib \<Rightarrow> headers \<Rightarrow> string \<Rightarrow> setup_reason + string option" where
  "upstream_override_header W headers header_name =
    (case header_get_all headers header_name of
       [] \<Rightarrow> Inr None
     | [val] \<Rightarrow> (case hv_to_str W val of None \<Rightarrow> Inl Override_not_text | Some s \<Rightarrow> Inr (Some s))
     | _ \<Rightarrow> Inl Multiple_override_headers)"

definition resolve_default_upstream :: "web_lib \<Rightarrow> string \<Rightarrow> uri \<Rightarrow> setup_reason + url" where
  "resolve_default_upstream W upstream u =
    bind_res (ok_or (url_parse W upstream) Url_parse_failed) (\<lambda>base.
    Inr (case uri_path_and_query u of
           None \<Rightarrow> base
         | Some (path, query) \<Rightarrow>
             (let pre = trim_end_matches (\<lambda>c. c = CHR ''/'') (u_path base);
                  already_prefixed =
                    (path = pre \<or> (case strip_prefix pre path of
                                     None \<Rightarrow> False | Some suf \<Rightarrow> starts_with suf ''/''));
                  base = (if pre = [] \<or> already_prefixed then set_path W path base
                          else set_path W (pre @ path) base)
              in set_query W query base)))"

definition resolve_upstream :: "web_lib \<Rightarrow> proxy_config \<Rightarrow> uri \<Rightarrow> headers \<Rightarrow> setup_reason + url" where
  "resolve_upstream W c u headers =
    bind_res (upstream_override_header W headers (upstream_header c)) (\<lambda>override.
    case override of
      Some val \<Rightarrow>
        if preset c = Litellm then resolve_default_upstream W val u
        else bind_res (ok_or (url_parse W val) Url_parse_failed) (\<lambda>url.
          Inr (case uri_path_and_query u of
                 Some (path, query) \<Rightarrow>
                   if u_path url = ''/'' then set_query W query (set_path W path url) else url
               | None \<Rightarrow> url))
    | None \<Rightarrow>
        if uri_scheme u \<noteq> None \<and> uri_authority u \<noteq> None
        then ok_or (url_parse W (uri_text u)) Url_parse_failed
        else resolve_default_upstream W (default_upstream c) u)"

definition validate_upstream_url :: "url \<Rightarrow> string list \<Rightarrow> setup_reason + unit" where
  "validate_upstream_url url allowed_schemes =
    (if u_username url \<noteq> [] \<or> u_password url \<noteq> None then Inl Contains_credentials
     else if u_host url = None then Inl Lacks_host
     else if u_scheme url \<notin> set allowed_schemes then Inl (Scheme_not_allowed (u_scheme url))
     else Inr ())"

definition upstream_origin_label :: "url \<Rightarrow> string" where
  "upstream_origin_label url =
    (let host = (case u_host url of Some h \<Rightarrow> h | None \<Rightarrow> ''<missing-host>'') in
     case u_port url of
       Some port \<Rightarrow> u_scheme url @ ''://'' @ host @ '':'' @ show_nat port
     | None \<Rightarrow> u_scheme url @ ''://'' @ host)"

definition enforce_upstream_policy ::
  "web_lib \<Rightarrow> upstream_allow_entry list \<Rightarrow> url \<Rightarrow> string list \<Rightarrow> setup_error + unit" where
  "enforce_upstream_policy W allowlist url allowed_schemes =
    (case validate_upstream_url url allowed_schemes of
       Inl r \<Rightarrow> Inl (Bad_request r)
     | Inr _ \<Rightarrow>
         if upstream_allows W allowlist url then Inr ()
         else Inl (Forbidden (Upstream_not_allowed (upstream_origin_label url))))"

definition http_to_ws_url :: "url \<Rightarrow> setup_reason + url" where
  "http_to_ws_url url =
    (if u_scheme url = ''http'' then Inr (url\<lparr>u_scheme := ''ws''\<rparr>)
     else if u_scheme url = ''https'' then Inr (url\<lparr>u_scheme := ''wss''\<rparr>)
     else if u_scheme url = ''ws'' \<or> u_scheme url = ''wss'' then Inr url
     else Inl (Cannot_proxy_websocket (u_scheme url)))"

section \<open>Headers that are forwarded (proxy.rs)\<close>

definition HOP_BY_HOP_HEADERS :: "string list" where
  "HOP_BY_HOP_HEADERS =
    [''connection'', ''keep-alive'', ''proxy-authenticate'', ''proxy-authorization'', ''te'',
     ''trailer'', ''transfer-encoding'', ''upgrade'']"

definition connection_header_names :: "web_lib \<Rightarrow> headers \<Rightarrow> string \<Rightarrow> bool" where
  "connection_header_names W headers name \<longleftrightarrow>
    list_ex (\<lambda>token. eq_ignore_ascii_case (trim token) name)
      (concat (map (split_on CHR '','') (List.map_filter (hv_to_str W) (header_get_all headers ''connection''))))"

definition should_forward_header :: "web_lib \<Rightarrow> headers \<Rightarrow> bool \<Rightarrow> string \<Rightarrow> bool" where
  "should_forward_header W headers cookies name \<longleftrightarrow>
    (let name = to_ascii_lowercase name in
     name \<noteq> ''host'' \<and> (cookies \<or> name \<noteq> ''cookie'') \<and> name \<notin> set HOP_BY_HOP_HEADERS \<and>
     \<not> connection_header_names W headers name \<and> \<not> starts_with name ''x-llmtrace-'')"

definition should_forward_response_header :: "web_lib \<Rightarrow> headers \<Rightarrow> bool \<Rightarrow> string \<Rightarrow> bool" where
  "should_forward_response_header W headers cookies name \<longleftrightarrow>
    (let name = to_ascii_lowercase name in
     (cookies \<or> name \<noteq> ''set-cookie'') \<and> name \<notin> set HOP_BY_HOP_HEADERS \<and>
     \<not> connection_header_names W headers name)"

definition is_websocket :: "web_lib \<Rightarrow> headers \<Rightarrow> bool" where
  "is_websocket W headers \<longleftrightarrow>
    connection_header_names W headers ''upgrade'' \<and>
    (case Option.bind (header_get headers ''upgrade'') (hv_to_str W) of
       None \<Rightarrow> False
     | Some val \<Rightarrow> eq_ignore_ascii_case val ''websocket'')"

text \<open>The dispatch of \<open>proxy\<close>: a rejected request, or the handler it goes to.
  \<open>ws_ok\<close> says whether the websocket upgrade was accepted.\<close>

datatype dispatch =
  Ambiguous_path | Not_proxied | Ws_upgrade_rejected | Ws_handler bool | Http_captured | Http_passthrough

definition proxy_dispatch ::
  "web_lib \<Rightarrow> string list \<Rightarrow> capture_policy \<Rightarrow> bool \<Rightarrow> string \<Rightarrow> string \<Rightarrow> headers \<Rightarrow> dispatch" where
  "proxy_dispatch W allowed policy ws_ok meth path headers =
    (if \<not> unambiguous_path path then Ambiguous_path
     else if \<not> path_allows allowed path then Not_proxied
     else let websocket = is_websocket W headers;
              capture = captures policy meth path websocket
          in if websocket then (if ws_ok then Ws_handler capture else Ws_upgrade_rejected)
             else if capture then Http_captured else Http_passthrough)"

section \<open>What an accepted path means to the upstream\<close>

text \<open>The resolution of dot segments an upstream may apply, and the segments of an upstream that
  splits a path, decodes each segment once and resolves the dot segments.\<close>

fun resolve_dots :: "string list \<Rightarrow> string list \<Rightarrow> string list" where
  "resolve_dots acc [] = rev acc"
| "resolve_dots acc (s # ss) =
    (if s = ''.'' then resolve_dots acc ss
     else if s = ''..'' then resolve_dots (tl acc) ss
     else resolve_dots (s # acc) ss)"

definition upstream_segments :: "string \<Rightarrow> string list" where
  "upstream_segments path = resolve_dots [] (map percent_decode (split_on CHR ''/'' path))"

lemma resolve_dots_none:
  "''.'' \<notin> set ss \<Longrightarrow> ''..'' \<notin> set ss \<Longrightarrow> resolve_dots acc ss = rev acc @ ss"
  by (induction ss arbitrary: acc) auto

lemma hex_value_inv:
  "hex_value c = Some 2 \<Longrightarrow> c = CHR ''2''" "hex_value c = Some 5 \<Longrightarrow> c = CHR ''5''"
  "hex_value c = Some 15 \<Longrightarrow> ascii_lower c = CHR ''f''"
  "hex_value c = Some 12 \<Longrightarrow> ascii_lower c = CHR ''c''"
  "hex_value c = Some 14 \<Longrightarrow> ascii_lower c = CHR ''e''"
proof -
  have b: "byte c = n \<Longrightarrow> c = char_of n" for n by (auto simp: byte_def)
  have l: "byte c \<in> {m, m + 32} \<Longrightarrow> 65 \<le> m \<Longrightarrow> m \<le> 90 \<Longrightarrow> ascii_lower c = char_of (m + 32)" for m
    using b [of "m + 32"] by (auto simp: ascii_lower_def)
  have h: "hex_value c = Some n \<Longrightarrow> n < 10 \<Longrightarrow> byte c = n + 48" for n
    by (auto simp: hex_value_def Let_def split: if_splits)
  show "hex_value c = Some 2 \<Longrightarrow> c = CHR ''2''"
    using h [of 2] b [of 50] by (simp add: char_of_def bit_0)
  show "hex_value c = Some 5 \<Longrightarrow> c = CHR ''5''"
    using h [of 5] b [of 53] by (simp add: char_of_def bit_0)
  have r: "hex_value c = Some n \<Longrightarrow> 10 \<le> n \<Longrightarrow> byte c \<in> {n + 55, n + 55 + 32}" for n
    by (auto simp: hex_value_def Let_def split: if_splits)
  show "hex_value c = Some 15 \<Longrightarrow> ascii_lower c = CHR ''f''"
    using r [of 15] l [of 70] by (simp add: char_of_def bit_0)
  show "hex_value c = Some 12 \<Longrightarrow> ascii_lower c = CHR ''c''"
    using r [of 12] l [of 67] by (simp add: char_of_def bit_0)
  show "hex_value c = Some 14 \<Longrightarrow> ascii_lower c = CHR ''e''"
    using r [of 14] l [of 69] by (simp add: char_of_def bit_0)
qed

lemma hex_value_bound: "hex_value c = Some n \<Longrightarrow> n < 16"
  by (auto simp: hex_value_def Let_def split: if_splits)

lemma escape_decodes:
  assumes "hex_value a = Some x" "hex_value b = Some y" "char_of (16 * x + y) = c"
  shows "x = byte c div 16" "y = byte c mod 16"
proof -
  have "16 * x + y < 256" using hex_value_bound [OF assms(1)] hex_value_bound [OF assms(2)] by simp
  then have "byte c = 16 * x + y" using assms(3) by (auto simp: byte_def)
  with hex_value_bound [OF assms(2)] show "x = byte c div 16" "y = byte c mod 16" by simp_all
qed

lemma ascii_lower_eq [simp]:
  "ascii_lower CHR ''%'' = CHR ''%''" "ascii_lower CHR ''2'' = CHR ''2''" "ascii_lower CHR ''5'' = CHR ''5''"
  "ascii_lower CHR ''f'' = CHR ''f''" "ascii_lower CHR ''c'' = CHR ''c''" "ascii_lower CHR ''.'' = CHR ''.''"
  by (simp_all add: ascii_lower_def byte_def)

lemma encoded_separator_Cons:
  "encoded_separator (a # b # c # cs) \<longleftrightarrow>
    ascii_lower a = CHR ''%'' \<and> (ascii_lower b = CHR ''2'' \<and> ascii_lower c = CHR ''f'' \<or>
      ascii_lower b = CHR ''5'' \<and> ascii_lower c = CHR ''c'') \<or> encoded_separator (b # c # cs)"
  by (auto simp: encoded_separator_def eq_ignore_ascii_case_def to_ascii_lowercase_def)

lemma encoded_separator_short [simp]: "length s < 3 \<Longrightarrow> \<not> encoded_separator s"
  by (cases s rule: windows3.cases) (simp_all add: encoded_separator_def)

lemma encoded_separator_tl: "encoded_separator cs \<Longrightarrow> encoded_separator (c # cs)"
  by (cases cs rule: windows3.cases) (simp_all add: encoded_separator_def)

lemma encoded_separator_drop: "encoded_separator (drop n cs) \<Longrightarrow> encoded_separator cs"
proof (induction n arbitrary: cs)
  case (Suc n) then show ?case by (cases cs) (auto intro: encoded_separator_tl)
qed simp

lemma segment_scan_separator: "encoded_separator s \<Longrightarrow> segment_scan d s"
proof (induction d s rule: segment_scan.induct)
  case (2 d b bs)
  show ?case
  proof (cases "b = CHR ''.''")
    case True
    have "encoded_separator bs"
    proof (cases bs rule: windows3.cases)
      case (1 x y z zs) with 2(3) True show ?thesis by (simp add: encoded_separator_Cons)
    qed (use 2(3) True in \<open>auto simp: encoded_separator_def eq_ignore_ascii_case_def to_ascii_lowercase_def
          elim: windows3.elims\<close>)
    with True 2(1) show ?thesis by simp
  next
    case False
    show ?thesis
    proof (cases "2 \<le> length bs \<and> b = CHR ''%'' \<and> bs ! 0 = CHR ''2'' \<and> ascii_lower (bs ! 1) = CHR ''e''")
      case True
      then obtain e cs where bs: "bs = CHR ''2'' # e # cs"
        by (cases bs rule: windows3.cases) auto
      with True 2(3) have "encoded_separator (CHR ''2'' # e # cs)" by (simp add: encoded_separator_Cons)
      moreover from True bs have e: "ascii_lower e = CHR ''e''" by simp
      ultimately have "encoded_separator (e # cs)"
        by (cases cs) (simp_all add: encoded_separator_Cons)
      with e have "encoded_separator cs"
        by (cases cs rule: windows3.cases) (auto simp: encoded_separator_Cons)
      with True False bs 2(2) show ?thesis by simp
    next
      case f: False
      with False 2(3) show ?thesis by auto
    qed
  qed
qed simp

lemma decode_separator:
  assumes "\<not> encoded_separator s" "CHR ''/'' \<notin> set s" "CHR 0x5C \<notin> set s"
  shows "CHR ''/'' \<notin> set (percent_decode s) \<and> CHR 0x5C \<notin> set (percent_decode s)"
  using assms
proof (induction s rule: percent_decode.induct)
  case (2 c cs)
  show ?case
  proof (cases "c = CHR ''%'' \<and> 2 \<le> length cs \<and> hex_value (cs ! 0) \<noteq> None \<and> hex_value (cs ! 1) \<noteq> None")
    case True
    then obtain a b rest where cs: "cs = a # b # rest" by (cases cs rule: windows3.cases) auto
    from True cs obtain x y where xy: "hex_value a = Some x" "hex_value b = Some y" by auto
    from True cs xy have dec: "percent_decode (c # cs) = char_of (16 * x + y) # percent_decode rest" by simp
    have sep: "\<not> encoded_separator (CHR ''%'' # a # b # rest)" using 2(3) True cs by simp
    then have ab: "\<not> (ascii_lower a = CHR ''2'' \<and> ascii_lower b = CHR ''f'')"
      "\<not> (ascii_lower a = CHR ''5'' \<and> ascii_lower b = CHR ''c'')"
      by (auto simp: encoded_separator_Cons)
    have "char_of (16 * x + y) \<noteq> CHR ''/''"
    proof
      assume c: "char_of (16 * x + y) = CHR ''/''"
      from escape_decodes [OF xy c] xy have "hex_value a = Some 2" "hex_value b = Some 15"
        by (simp_all add: byte_def)
      with hex_value_inv(1,3) ab(1) show False by fastforce
    qed
    moreover have "char_of (16 * x + y) \<noteq> CHR 0x5C"
    proof
      assume c: "char_of (16 * x + y) = CHR 0x5C"
      from escape_decodes [OF xy c] xy have "hex_value a = Some 5" "hex_value b = Some 12"
        by (simp_all add: byte_def)
      with hex_value_inv(2,4) ab(2) show False by fastforce
    qed
    moreover have "\<not> encoded_separator rest" using sep encoded_separator_drop [of 3 "CHR ''%'' # a # b # rest"] by auto
    ultimately show ?thesis using 2(1) [OF True] 2(4,5) cs dec by auto
  next
    case False
    with 2(2) [OF False] 2(3-5) encoded_separator_tl [of cs c] show ?thesis by (auto simp del: segment_scan.simps)
  qed
qed simp

lemma decode_dots:
  "set (percent_decode s) \<subseteq> {CHR ''.''} \<Longrightarrow>
    segment_scan d s \<longleftrightarrow> d + length (percent_decode s) \<in> {1, 2}"
proof (induction s arbitrary: d rule: percent_decode.induct)
  case (2 c cs)
  show ?case
  proof (cases "c = CHR ''%'' \<and> 2 \<le> length cs \<and> hex_value (cs ! 0) \<noteq> None \<and> hex_value (cs ! 1) \<noteq> None")
    case True
    then obtain a b rest where cs: "cs = a # b # rest" by (cases cs rule: windows3.cases) auto
    from True cs obtain x y where xy: "hex_value a = Some x" "hex_value b = Some y" by auto
    from True cs xy have dec: "percent_decode (c # cs) = char_of (16 * x + y) # percent_decode rest" by simp
    with 2(3) have c: "char_of (16 * x + y) = CHR ''.''" and rest: "set (percent_decode rest) \<subseteq> {CHR ''.''}"
      by auto
    from escape_decodes [OF xy c] xy have "hex_value a = Some 2" "hex_value b = Some 14"
      by (simp_all add: byte_def)
    then have "a = CHR ''2''" "ascii_lower b = CHR ''e''" using hex_value_inv by blast+
    with True cs have "segment_scan d (c # cs) = segment_scan (d + 1) rest" by simp
    with 2(1) [OF True, of "d + 1"] rest cs dec show ?thesis by auto
  next
    case False
    then have dec: "percent_decode (c # cs) = c # percent_decode cs" by auto
    with 2(3) have "c = CHR ''.''" "set (percent_decode cs) \<subseteq> {CHR ''.''}" by auto
    with 2(2) [OF False, of "d + 1"] dec show ?thesis by simp
  qed
qed auto

lemma unambiguous_segment:
  assumes u: "unambiguous_path path" and s: "s \<in> set (split_on CHR ''/'' path)"
  shows "percent_decode s \<noteq> ''.'' \<and> percent_decode s \<noteq> ''..'' \<and>
    CHR ''/'' \<notin> set (percent_decode s) \<and> CHR 0x5C \<notin> set (percent_decode s)"
proof -
  from u s have scan: "\<not> segment_scan 0 s" and bs: "CHR 0x5C \<notin> set s"
    using split_on_chars [OF s] by (auto simp: unambiguous_path_def list_ex_iff)
  have "CHR ''/'' \<notin> set s" using s by (rule split_on_pieces)
  with decode_separator [of s] scan bs segment_scan_separator
  have "CHR ''/'' \<notin> set (percent_decode s) \<and> CHR 0x5C \<notin> set (percent_decode s)" by blast
  moreover have "percent_decode s \<noteq> ''.''" "percent_decode s \<noteq> ''..''"
    using scan decode_dots [of s 0] by auto
  ultimately show ?thesis by blast
qed

lemma unambiguous_stable:
  "unambiguous_path path \<Longrightarrow> upstream_segments path = map percent_decode (split_on CHR ''/'' path)"
  unfolding upstream_segments_def
  by (subst resolve_dots_none) (auto dest: unambiguous_segment)

lemma collect_results_Inr: "collect_results rs = Inr xs \<longleftrightarrow> rs = map Inr xs"
proof (induction rs arbitrary: xs)
  case (Cons r rs) then show ?case by (cases r; cases xs) (auto simp: bind_res_Inr)
qed auto

lemma path_prefix_parsed:
  assumes "path_prefix_allowlist_parse entries field = Inr allowed" "pre \<in> set allowed"
  shows "\<exists>e\<in>set entries. pre = normalize_allowlist_path (trim e) \<and> CHR ''%'' \<notin> set (trim e)"
proof -
  have "map Inr allowed = map (\<lambda>(index, entry). parse_proxy_path_prefix (indexed field index) entry)
      (enumerate 0 entries)"
    using assms(1) by (simp add: path_prefix_allowlist_parse_def collect_results_Inr)
  then have "Inr pre \<in> set (map (\<lambda>(index, entry). parse_proxy_path_prefix (indexed field index) entry)
      (enumerate 0 entries))"
    using assms(2) by (metis image_eqI list.set_map)
  then obtain i e where "(i, e) \<in> set (enumerate 0 entries)"
    and e: "parse_proxy_path_prefix (indexed field i) e = Inr pre"
    by auto
  then have "e \<in> set entries" by (auto simp: in_set_enumerate_eq)
  moreover from e have "pre = normalize_allowlist_path (trim e)"
    and "\<not> list_ex (\<lambda>c. c \<in> {CHR ''?'', CHR ''#'', CHR ''%'', CHR 0x5C}) (trim e)"
    by (simp_all only: parse_proxy_path_prefix_def Let_def split: if_splits) simp_all
  ultimately show ?thesis by (auto simp: list_ex_iff)
qed

lemma normalize_chars: "set (normalize_allowlist_path p) \<subseteq> insert CHR ''/'' (set p)"
  using trim_matches_set [of "\<lambda>c. c = CHR ''/''" p] by (auto simp: normalize_allowlist_path_def)

lemma prefix_segments:
  assumes "CHR ''%'' \<notin> set pre" "path_prefix_matches pre path" "pre \<noteq> ''/''"
  shows "prefix (split_on CHR ''/'' pre) (map percent_decode (split_on CHR ''/'' path))"
proof -
  have plain: "map percent_decode (split_on CHR ''/'' pre) = split_on CHR ''/'' pre"
    by (rule map_idI) (use assms(1) split_on_chars [of _ "CHR ''/''" pre] in \<open>auto intro!: percent_decode_plain\<close>)
  from assms(2,3) consider "path = pre" | rest where "path = pre @ CHR ''/'' # rest"
    by (auto simp: path_prefix_matches_def strip_prefix_def starts_with_def prefix_def split: if_splits)
  then show ?thesis
    using plain by cases (auto simp: split_on_slash_append)
qed

text \<open>The order in which an upstream splits and decodes a path makes no difference: an escape
  never spans a separator, and decoding an unambiguous path never makes one.\<close>

lemma percent_decode_slash:
  "percent_decode (a @ CHR ''/'' # b) = percent_decode a @ CHR ''/'' # percent_decode b"
proof (induction a rule: percent_decode.induct)
  case (2 c cs)
  have no_hex: "hex_value CHR ''/'' = None" by (simp add: hex_value_def byte_def)
  show ?case
  proof (cases "c = CHR ''%'' \<and> 2 \<le> length cs \<and> hex_value (cs ! 0) \<noteq> None \<and> hex_value (cs ! 1) \<noteq> None")
    case True
    then obtain x y rest where "cs = x # y # rest" by (cases cs rule: windows3.cases) auto
    with True 2(1) [OF True] show ?thesis by simp
  next
    case False
    have "\<not> (c = CHR ''%'' \<and> hex_value ((cs @ CHR ''/'' # b) ! 0) \<noteq> None \<and> hex_value ((cs @ CHR ''/'' # b) ! 1) \<noteq> None)"
      using False no_hex by (cases cs rule: windows3.cases) (auto simp: nth_append)
    then show ?thesis using 2(2) [OF False] False by auto
  qed
qed simp

lemma split_percent_decode:
  assumes "\<And>s. s \<in> set (split_on CHR ''/'' path) \<Longrightarrow> CHR ''/'' \<notin> set (percent_decode s)"
  shows "split_on CHR ''/'' (percent_decode path) = map percent_decode (split_on CHR ''/'' path)"
  using assms
proof (induction path rule: length_induct)
  case (1 path)
  show ?case
  proof (cases "split_once CHR ''/'' path")
    case None
    then have "split_on CHR ''/'' path = [path]" by (simp add: split_once_None split_on_single)
    with 1(2) show ?thesis by (simp add: split_on_single)
  next
    case (Some ab)
    then obtain a b where path: "path = a @ CHR ''/'' # b" and a: "CHR ''/'' \<notin> set a"
      by (cases ab) (auto dest: split_once_Some)
    then have s: "split_on CHR ''/'' path = a # split_on CHR ''/'' b"
      by (simp add: split_on_slash_append split_on_single)
    with 1(2) have "CHR ''/'' \<notin> set (percent_decode a)" by simp
    moreover have "split_on CHR ''/'' (percent_decode b) = map percent_decode (split_on CHR ''/'' b)"
      using 1 path s by simp
    ultimately show ?thesis
      by (simp add: path percent_decode_slash split_on_slash_append split_on_single a)
  qed
qed

lemma unambiguous_raw:
  assumes "unambiguous_path path" shows "resolve_dots [] (split_on CHR ''/'' path) = split_on CHR ''/'' path"
proof -
  have dot: "percent_decode ''.'' = ''.''" "percent_decode ''..'' = ''..''"
    by simp_all
  have "''.'' \<notin> set (split_on CHR ''/'' path)" "''..'' \<notin> set (split_on CHR ''/'' path)"
    using unambiguous_segment [OF assms] dot by blast+
  then show ?thesis by (simp add: resolve_dots_none)
qed

text \<open>C10: A path the proxy accepts means to an upstream that percent-decodes it once what it
  meant to the allowlist. In whatever order the upstream splits the path, decodes it and removes
  dot segments, its segments are the decoded segments of the path: no dot segment is removed, none
  of the segments hides a separator, and they still begin with the segments of a configured prefix.
  An upstream that decodes a path twice is outside the claim: an escaped percent sign is accepted.\<close>

theorem accepted_path_is_stable:
  assumes al: "path_prefix_allowlist_parse entries field = Inr allowed"
    and u: "unambiguous_path path" and allow: "path_allows allowed path"
  shows "upstream_segments path = map percent_decode (split_on CHR ''/'' path) \<and>
    resolve_dots [] (split_on CHR ''/'' (percent_decode path)) = upstream_segments path \<and>
    map percent_decode (resolve_dots [] (split_on CHR ''/'' path)) = upstream_segments path \<and>
    (\<forall>s\<in>set (upstream_segments path). CHR ''/'' \<notin> set s \<and> CHR 0x5C \<notin> set s) \<and>
    (\<exists>pre\<in>set allowed. pre = ''/'' \<or> prefix (split_on CHR ''/'' pre) (upstream_segments path))"
proof -
  note stable = unambiguous_stable [OF u]
  have late: "map percent_decode (resolve_dots [] (split_on CHR ''/'' path)) = upstream_segments path"
    by (simp add: unambiguous_raw [OF u] stable)
  have "split_on CHR ''/'' (percent_decode path) = map percent_decode (split_on CHR ''/'' path)"
    by (rule split_percent_decode) (use unambiguous_segment [OF u] in blast)
  then have early: "resolve_dots [] (split_on CHR ''/'' (percent_decode path)) = upstream_segments path"
    by (simp add: upstream_segments_def)
  have clean: "\<forall>s\<in>set (upstream_segments path). CHR ''/'' \<notin> set s \<and> CHR 0x5C \<notin> set s"
    unfolding stable using unambiguous_segment [OF u] by auto
  obtain pre where pre: "pre \<in> set allowed" "path_prefix_matches pre path"
    using allow by (auto simp: path_allows_def list_ex_iff)
  have "CHR ''%'' \<notin> set pre"
    using path_prefix_parsed [OF al pre(1)] normalize_chars by fastforce
  with prefix_segments [OF _ pre(2)] have "pre = ''/'' \<or> prefix (split_on CHR ''/'' pre) (upstream_segments path)"
    unfolding stable by blast
  with stable late early clean pre(1) show ?thesis by blast
qed

theorem accepted_path_is_stable_witness:
  "path_prefix_allowlist_parse [''/v1/''] ''f'' = Inr [''/v1''] \<and>
   unambiguous_path ''/v1/a%20b'' \<and>
   upstream_segments ''/v1/a%20b'' = ['''', ''v1'', ''a b''] \<and>
   (\<exists>pre\<in>set [''/v1'']. pre = ''/'' \<or> prefix (split_on CHR ''/'' pre) (upstream_segments ''/v1/a%20b'')) \<and>
   resolve_dots [] (split_on CHR ''/'' (percent_decode ''/v1/a%20b'')) = ['''', ''v1'', ''a b''] \<and>
   \<not> unambiguous_path ''/v1/%2E%2e/key'' \<and> \<not> unambiguous_path ''/v1/x%2Fy''"
proof -
  have t: "trim ''/v1/'' = ''/v1/''" by (rule trim_ascii) (simp_all add: byte_def)
  have ws: "\<not> list_ex (\<lambda>w. sublist w ''/v1/'') whitespace_chars"
    using whitespace_not_ascii [of "''/v1/''"] by (simp add: list_ex_iff byte_def)
  have al: "path_prefix_allowlist_parse [''/v1/''] ''f'' = Inr [''/v1'']"
    by (simp add: path_prefix_allowlist_parse_def parse_proxy_path_prefix_def t ws starts_with_def
        normalize_allowlist_path_def trim_matches_def trim_start_matches_def trim_end_matches_def)
  have u: "unambiguous_path ''/v1/a%20b''"
    by (simp add: unambiguous_path_def encoded_separator_def eq_ignore_ascii_case_def
        to_ascii_lowercase_def ascii_lower_def byte_def)
  have p: "path_allows [''/v1''] ''/v1/a%20b''"
    by (simp add: path_allows_def path_prefix_matches_def strip_prefix_def starts_with_def)
  have seg: "upstream_segments ''/v1/a%20b'' = ['''', ''v1'', ''a b'']"
    by (simp add: upstream_segments_def hex_value_def byte_def char_of_def bit_0)
  have bad: "\<not> unambiguous_path ''/v1/%2E%2e/key''" "\<not> unambiguous_path ''/v1/x%2Fy''"
    by (simp_all add: unambiguous_path_def encoded_separator_def eq_ignore_ascii_case_def
        to_ascii_lowercase_def ascii_lower_def byte_def char_of_def bit_0)
  note w = accepted_path_is_stable [OF al u p]
  note early = trans [OF w [THEN conjunct2, THEN conjunct1] seg]
  from w al u seg bad early show ?thesis by blast
qed

section \<open>The upstream a request reaches\<close>

text \<open>The prologues of the HTTP and the websocket handlers.\<close>

definition http_target ::
  "web_lib \<Rightarrow> proxy_config \<Rightarrow> upstream_allow_entry list \<Rightarrow> uri \<Rightarrow> headers \<Rightarrow> setup_error + url" where
  "http_target W c allowlist u headers =
    (case resolve_upstream W c u headers of
       Inl r \<Rightarrow> Inl (Bad_request r)
     | Inr url \<Rightarrow> bind_res (enforce_upstream_policy W allowlist url HTTP_UPSTREAM_SCHEMES) (\<lambda>_. Inr url))"

definition websocket_target ::
  "web_lib \<Rightarrow> proxy_config \<Rightarrow> upstream_allow_entry list \<Rightarrow> uri \<Rightarrow> headers \<Rightarrow> setup_error + url" where
  "websocket_target W c allowlist u headers =
    (case resolve_upstream W c u headers of
       Inl r \<Rightarrow> Inl (Bad_request r)
     | Inr url \<Rightarrow> (case http_to_ws_url url of
         Inl r \<Rightarrow> Inl (Bad_request r)
       | Inr url \<Rightarrow> bind_res (enforce_upstream_policy W allowlist url WEBSOCKET_UPSTREAM_SCHEMES) (\<lambda>_. Inr url)))"

definition acceptable_url :: "string list \<Rightarrow> url \<Rightarrow> bool" where
  "acceptable_url schemes url \<longleftrightarrow>
    u_username url = [] \<and> u_password url = None \<and> u_host url \<noteq> None \<and> u_scheme url \<in> set schemes"

text \<open>The deployments a request can be sent to: the default, or the one its
  override header names.\<close>

definition upstream_choices :: "web_lib \<Rightarrow> proxy_config \<Rightarrow> headers \<Rightarrow> string set" where
  "upstream_choices W c headers =
    insert (default_upstream c)
      {v. upstream_override_header W headers (upstream_header c) = Inr (Some v)}"

lemma enforce_outcomes:
  "enforce_upstream_policy W allowlist url schemes =
    (if acceptable_url schemes url
     then if upstream_allows W allowlist url then Inr ()
          else Inl (Forbidden (Upstream_not_allowed (upstream_origin_label url)))
     else Inl (Bad_request (projl (validate_upstream_url url schemes))))"
  by (auto simp: enforce_upstream_policy_def validate_upstream_url_def acceptable_url_def)

lemma http_schemes_listed:
  "s \<in> set HTTP_UPSTREAM_SCHEMES \<or> s \<in> set WEBSOCKET_UPSTREAM_SCHEMES \<Longrightarrow> s \<in> set UPSTREAM_ALLOWLIST_SCHEMES"
  by (auto simp: HTTP_UPSTREAM_SCHEMES_def WEBSOCKET_UPSTREAM_SCHEMES_def UPSTREAM_ALLOWLIST_SCHEMES_def)

lemma enforce_Inr:
  "enforce_upstream_policy W allowlist url schemes = Inr x \<longleftrightarrow>
    acceptable_url schemes url \<and> upstream_allows W allowlist url"
  by (auto simp: enforce_outcomes)

lemma resolve_default_parts:
  assumes "resolve_default_upstream W up u = Inr url" "uri_path_and_query u = Some (path, q)"
  shows "\<exists>base pre. url_parse W up = Some base \<and> u_scheme url = u_scheme base \<and> u_host url = u_host base \<and>
      (pre = [] \<or> pre = trim_end_matches (\<lambda>c. c = CHR ''/'') (u_path base)) \<and>
      u_path url = url_path_form W (u_scheme url) (pre @ path) \<and>
      u_query url = map_option (url_query_form W (u_scheme url)) q"
proof -
  from assms(1) obtain base where b: "url_parse W up = Some base"
    by (auto simp: resolve_default_upstream_def ok_or_def split: option.splits)
  let ?t = "trim_end_matches (\<lambda>c. c = CHR ''/'') (u_path base)"
  obtain pre where "pre = [] \<or> pre = ?t" and "url = set_query W q (set_path W (pre @ path) base)"
    using assms b by (simp add: resolve_default_upstream_def Let_def split: if_splits)
      (metis append_Nil)+
  with b show ?thesis by (auto simp: set_query_def set_path_def)
qed


text \<open>A configuration for the witnesses.\<close>

definition demo_proxy :: proxy_config where
  "demo_proxy =
    \<lparr>preset = Litellm, default_upstream = ''d'', allow_upstreams = [], path_prefixes = None,
     capture_path_prefixes = None, upstream_header = ''x-up'', forward_cookies = False,
     timeout_secs = 1, max_request_body_bytes = 1, max_response_body_bytes = 1,
     max_websocket_message_bytes = 1, max_websocket_session_bytes = 1\<rparr>"

definition demo_url :: url where
  "demo_url = \<lparr>u_scheme = ''https'', u_username = [], u_password = None, u_host = Some ''h'',
     u_port = None, u_path = ''/api/'', u_query = None, u_fragment = None\<rparr>"


section \<open>Forwarding covers capturing\<close>

definition plain_prefix :: "string \<Rightarrow> bool" where
  "plain_prefix p \<longleftrightarrow>
    1 < length p \<and> hd p = CHR ''/'' \<and> p ! 1 \<noteq> CHR ''/'' \<and> last p \<noteq> CHR ''/'' \<and>
    list_all (\<lambda>c. 32 < byte c \<and> byte c < 128 \<and> c \<notin> {CHR ''?'', CHR ''#'', CHR ''%'', CHR 0x5C}) p \<and>
    list_all (\<lambda>s. s \<noteq> ''.'' \<and> s \<noteq> ''..'') (split_on CHR ''/'' p)"

lemma plain_prefix_parses: "plain_prefix p \<Longrightarrow> parse_proxy_path_prefix field p = Inr p"
proof -
  assume p: "plain_prefix p"
  then obtain c q where pq: "p = CHR ''/'' # c # q" "c \<noteq> CHR ''/''"
    by (cases p rule: windows3.cases) (auto simp: plain_prefix_def)
  have ascii: "list_all (\<lambda>c. 32 < byte c \<and> byte c < 128) p"
    using p by (auto simp: plain_prefix_def list_all_iff)
  have "last (c # q) \<noteq> CHR ''/''" using p pq by (simp add: plain_prefix_def)
  moreover obtain z zs where z: "rev (c # q) = z # zs" by (cases "rev (c # q)") auto
  moreover have "last (c # q) = z" using hd_rev [of "c # q"] z by simp
  ultimately have z: "rev (c # q) = z # zs" "z \<noteq> CHR ''/''" by simp_all
  have "dropWhile (\<lambda>c. c = CHR ''/'') p = c # q" using pq by simp
  moreover have "dropWhile (\<lambda>c. c = CHR ''/'') (rev (c # q)) = rev (c # q)"
    unfolding z(1) using z(2) by simp
  ultimately have "trim_matches (\<lambda>c. c = CHR ''/'') p = c # q"
    by (simp only: trim_matches_def trim_start_matches_def trim_end_matches_def rev_rev_ident)
  then have "normalize_allowlist_path p = p" using pq by (simp add: normalize_allowlist_path_def)
  moreover have "\<not> list_ex (\<lambda>w. sublist w p) whitespace_chars"
    using whitespace_not_ascii [OF ascii] by (auto simp: list_ex_iff)
  moreover have "\<not> list_ex (\<lambda>segment. segment = ''..'' \<or> segment = ''.'') (split_on CHR ''/'' p)"
    "\<not> list_ex (\<lambda>c. c \<in> {CHR ''?'', CHR ''#'', CHR ''%'', CHR 0x5C}) p"
    using p unfolding plain_prefix_def list_ex_iff list_all_iff by blast+
  moreover have "starts_with p ''/''" "p \<noteq> []" using pq by (simp_all add: starts_with_def)
  ultimately show ?thesis
    unfolding parse_proxy_path_prefix_def Let_def trim_ascii [OF ascii] by simp
qed

lemma plain_prefixes_parse: "list_all plain_prefix ps \<Longrightarrow> path_prefix_allowlist_parse ps field = Inr ps"
proof -
  assume "list_all plain_prefix ps"
  then have "map (\<lambda>(i, e). parse_proxy_path_prefix (indexed field i) e) (enumerate n ps) = map Inr ps" for n
    by (induction ps arbitrary: n) (simp_all add: plain_prefix_parses)
  then show ?thesis by (simp add: path_prefix_allowlist_parse_def collect_results_Inr)
qed

lemma litellm_plain: "list_all plain_prefix (''/v1'' # INFERENCE @ SUPPORTING @ litellm_capture_prefixes)"
  by (simp add: INFERENCE_def SUPPORTING_def litellm_capture_prefixes_def plain_prefix_def byte_def)

lemma path_prefix_matches_append:
  "pre \<noteq> ''/'' \<Longrightarrow> pre \<noteq> [] \<Longrightarrow> path_prefix_matches (pre @ CHR ''/'' # rest) path \<Longrightarrow> path_prefix_matches pre path"
  by (cases pre)
     (auto simp: path_prefix_matches_def strip_prefix_def starts_with_def prefix_def split: if_splits)

text \<open>With the prefixes left at the defaults of either preset the configuration
  is accepted, everything captured is also forwarded, and under the LiteLLM preset
  every POST to an inference endpoint, versioned or not, is captured while other
  methods are captured only as websockets.\<close>

theorem default_prefixes_policy:
  assumes "path_prefixes c = None" "capture_path_prefixes c = None"
  shows "\<exists>allowed policy. path_prefix_allowlist c = Inr allowed \<and> capture_policy_new c = Inr policy \<and>
    (\<forall>m path ws. captures policy m path ws \<longrightarrow> path_allows allowed path) \<and>
    (preset c = Litellm \<longrightarrow>
      (\<forall>pre path ws. pre \<in> set INFERENCE \<longrightarrow>
        path_prefix_matches pre path \<or> path_prefix_matches (''/v1'' @ pre) path \<longrightarrow>
        captures policy ''POST'' path ws) \<and>
      (\<forall>m path. captures policy m path False \<longrightarrow> m = ''POST''))"
proof (cases "preset c")
  case Custom
  have "list_all plain_prefix [''/v1'']" using litellm_plain by simp
  from plain_prefixes_parse [OF this] assms Custom show ?thesis
    by (simp add: path_prefix_allowlist_def capture_policy_new_def capture_prefix_allowlist_def
        effective_capture_path_prefixes_def effective_path_prefixes_def captures_def)
next
  case Litellm
  have f: "list_all plain_prefix litellm_forward_prefixes" and g: "list_all plain_prefix litellm_capture_prefixes"
    using litellm_plain by (simp_all add: litellm_forward_prefixes_def)
  let ?p = "\<lparr>cp_prefixes = litellm_capture_prefixes, cp_inference_methods_only = True\<rparr>"
  have al: "path_prefix_allowlist c = Inr litellm_forward_prefixes"
    using assms Litellm by (simp add: path_prefix_allowlist_def effective_path_prefixes_def plain_prefixes_parse [OF f])
  have cp: "capture_policy_new c = Inr ?p"
    using assms Litellm
    by (simp add: capture_policy_new_def capture_prefix_allowlist_def effective_capture_path_prefixes_def
        plain_prefixes_parse [OF g])
  have slash: "\<exists>r. pre = CHR ''/'' # r" if "pre \<in> set INFERENCE" for pre
    using that by (auto simp: INFERENCE_def)
  have fwd: "path_allows litellm_forward_prefixes path" if "path_allows litellm_capture_prefixes path" for path
  proof -
    from that obtain pre where pre: "pre \<in> set INFERENCE"
      and m: "path_prefix_matches pre path \<or> path_prefix_matches (''/v1'' @ pre) path"
      by (auto simp: path_allows_def litellm_capture_prefixes_def list_ex_iff)
    obtain r where "pre = CHR ''/'' # r" using slash [OF pre] by blast
    with m path_prefix_matches_append [of "''/v1''" r path] pre show ?thesis
      by (auto simp: path_allows_def litellm_forward_prefixes_def list_ex_iff)
  qed
  have "captures ?p ''POST'' path ws"
    if "pre \<in> set INFERENCE" "path_prefix_matches pre path \<or> path_prefix_matches (''/v1'' @ pre) path"
    for pre path ws
    using that by (auto simp: captures_def path_allows_def litellm_capture_prefixes_def list_ex_iff)
  with al cp fwd show ?thesis by (intro exI [of _ litellm_forward_prefixes] exI [of _ ?p]) (auto simp: captures_def)
qed

theorem default_prefixes_policy_witness:
  "\<exists>allowed policy. path_prefix_allowlist demo_proxy = Inr allowed \<and>
    capture_policy_new demo_proxy = Inr policy \<and>
    captures policy ''POST'' ''/v1/chat/completions'' False \<and> path_allows allowed ''/v1/chat/completions''"
proof -
  have c: "path_prefixes demo_proxy = None" "capture_path_prefixes demo_proxy = None" "preset demo_proxy = Litellm"
    by (simp_all add: demo_proxy_def)
  from default_prefixes_policy [OF c(1,2)] obtain allowed policy where
    p: "path_prefix_allowlist demo_proxy = Inr allowed" "capture_policy_new demo_proxy = Inr policy"
    and sub: "\<forall>m path ws. captures policy m path ws \<longrightarrow> path_allows allowed path"
    and inf: "\<forall>pre path ws. pre \<in> set INFERENCE \<longrightarrow>
        path_prefix_matches pre path \<or> path_prefix_matches (''/v1'' @ pre) path \<longrightarrow>
        captures policy ''POST'' path ws"
    using c(3) by blast
  have "''/chat/completions'' \<in> set INFERENCE" by (simp add: INFERENCE_def)
  moreover have "path_prefix_matches (''/v1'' @ ''/chat/completions'') ''/v1/chat/completions''"
    by (simp add: path_prefix_matches_def)
  ultimately have "captures policy ''POST'' ''/v1/chat/completions'' False" using inf by blast
  with p sub show ?thesis by blast
qed

end
