(* ===== verification/LT_Capture.thy ===== *)
theory LT_Capture
  imports LT_Event LT_Redaction LT_Routing
begin

text \<open>
  The capturing HTTP handler of \<open>proxy.rs\<close>: \<open>proxy_http\<close>, the body captures and the
  two streams that copy what passes through them. A stream is driven by polls:
  an item of the inner stream, and the clock readings the code takes while it
  handles it, are arguments. Requests and responses are polled in any
  interleaving; events handed to the recorder are collected in order.
\<close>

section \<open>Body captures\<close>

record body_capture =
  bc_bytes :: bytes
  bc_total_bytes :: int
  bc_truncated :: bool
  bc_limit_exceeded :: bool
  bc_finished :: bool
  bc_stream_ended :: bool
  bc_expected_bytes :: "nat option"

definition body_capture_default :: body_capture where
  "body_capture_default =
    \<lparr>bc_bytes = [], bc_total_bytes = 0, bc_truncated = False, bc_limit_exceeded = False,
     bc_finished = False, bc_stream_ended = False, bc_expected_bytes = None\<rparr>"

definition incomplete_request :: "body_capture \<Rightarrow> bool" where
  "incomplete_request c \<longleftrightarrow>
    bc_truncated c \<or> \<not> bc_stream_ended c \<and> bc_expected_bytes c \<noteq> Some (nat (bc_total_bytes c))"

definition usize_to_i64_saturating :: "nat \<Rightarrow> int" where
  "usize_to_i64_saturating n = (if int n \<le> i64_max then int n else i64_max)"

definition i64_saturating_add :: "int \<Rightarrow> int \<Rightarrow> int" where
  "i64_saturating_add a b = clamp_i64 (a + b)"

definition push_body_capture :: "bytes \<Rightarrow> nat \<Rightarrow> body_capture \<Rightarrow> body_capture" where
  "push_body_capture chunk limit c =
    (let c = c\<lparr>bc_total_bytes :=
           i64_saturating_add (bc_total_bytes c) (usize_to_i64_saturating (length chunk))\<rparr>
     in if bc_finished c then c
        else if length (bc_bytes c) < limit
        then let captured = min (limit - length (bc_bytes c)) (length chunk)
             in c\<lparr>bc_bytes := bc_bytes c @ take captured chunk,
                  bc_truncated := bc_truncated c \<or> captured < length chunk\<rparr>
        else c\<lparr>bc_truncated := bc_truncated c \<or> chunk \<noteq> []\<rparr>)"

definition push_request :: "bytes \<Rightarrow> nat \<Rightarrow> nat \<Rightarrow> body_capture \<Rightarrow> bool \<times> body_capture" where
  "push_request chunk capture_limit live_limit c =
    (let c = push_body_capture chunk capture_limit c;
         c = (if bc_total_bytes c > int live_limit then c\<lparr>bc_limit_exceeded := True\<rparr> else c)
     in (bc_limit_exceeded c, c))"

definition take_capture :: "body_capture \<Rightarrow> body_capture \<times> body_capture" where
  "take_capture c = (c\<lparr>bc_finished := True\<rparr>, c\<lparr>bc_finished := True, bc_bytes := []\<rparr>)"

section \<open>The streams\<close>

datatype item = Chunk bytes | Failed string | End | Pending

definition REQUEST_BODY_LIMIT_ERROR :: string where
  "REQUEST_BODY_LIMIT_ERROR = ''request body exceeds configured limit''"

definition request_body_limit_message :: "nat \<Rightarrow> string" where
  "request_body_limit_message limit = REQUEST_BODY_LIMIT_ERROR @ '' of '' @ show_nat limit @ '' bytes''"

text \<open>\<open>RequestCaptureStream::new\<close>: the exact size and whether the body has already ended
  come from the body.\<close>

definition request_stream_new :: "nat option \<Rightarrow> bool \<Rightarrow> body_capture \<Rightarrow> body_capture" where
  "request_stream_new exact end_stream c = c\<lparr>bc_expected_bytes := exact, bc_stream_ended := end_stream\<rparr>"

fun request_poll :: "nat \<Rightarrow> nat \<Rightarrow> item \<Rightarrow> body_capture \<Rightarrow> item \<times> body_capture" where
  "request_poll capture_limit live_limit (Chunk chunk) c =
    (case push_request chunk capture_limit live_limit c of
       (True, c) \<Rightarrow> (Failed (request_body_limit_message live_limit), c)
     | (False, c) \<Rightarrow> (Chunk chunk, c))"
| "request_poll capture_limit live_limit (Failed error) c = (Failed error, c)"
| "request_poll capture_limit live_limit End c = (End, c\<lparr>bc_stream_ended := True\<rparr>)"
| "request_poll capture_limit live_limit Pending c = (Pending, c)"

text \<open>Readings of the clocks during one poll: elapsed milliseconds at the first
  byte, after the chunk and at the end, and the wall clock at the end.\<close>

record tick =
  tk_first :: int
  tk_chunk :: int
  tk_end :: int
  tk_now :: int

text \<open>The response stream with the shared request capture and the recorder.\<close>

record exchange =
  ex_event :: "trace_event option"
  ex_request :: body_capture
  ex_response :: body_capture
  ex_first_byte_ms :: "int option"
  ex_limit :: nat
  ex_recorded :: "trace_event list"

definition MAX_CHUNK_TIMINGS :: nat where
  "MAX_CHUNK_TIMINGS = 8192"

definition response_stream_new ::
  "body_capture \<Rightarrow> trace_event \<Rightarrow> nat \<Rightarrow> nat option \<Rightarrow> exchange" where
  "response_stream_new request event limit expected =
    \<lparr>ex_event = Some event, ex_request = request,
     ex_response = body_capture_default\<lparr>bc_expected_bytes := expected\<rparr>,
     ex_first_byte_ms = None, ex_limit = limit, ex_recorded = []\<rparr>"

definition finish :: "tick \<Rightarrow> string option \<Rightarrow> exchange \<Rightarrow> exchange" where
  "finish t error s =
    (case ex_event s of
       None \<Rightarrow> s
     | Some event \<Rightarrow>
         (case take_capture (ex_request s) of (request, request_left) \<Rightarrow>
          let interrupted = (error \<noteq> None);
              event = event\<lparr>
                te_completed_at := Some (tk_now t),
                te_duration_ms := Some (tk_end t),
                te_ttfb_ms := ex_first_byte_ms s,
                te_error := error,
                te_tags := te_tags event @ (if interrupted then [''capture_interrupted''] else []),
                te_request_body_truncated := incomplete_request request,
                te_request_body := bc_bytes request,
                te_request_body_bytes := bc_total_bytes request,
                te_response_body := bc_bytes (ex_response s),
                te_response_body_bytes := bc_total_bytes (ex_response s),
                te_response_body_truncated := bc_truncated (ex_response s) \<or> interrupted\<rparr>
          in s\<lparr>ex_event := None, ex_request := request_left,
               ex_response := (ex_response s)\<lparr>bc_bytes := []\<rparr>,
               ex_recorded := ex_recorded s @ [event]\<rparr>))"

fun response_poll :: "tick \<Rightarrow> item \<Rightarrow> exchange \<Rightarrow> item \<times> exchange" where
  "response_poll t (Chunk chunk) s =
    (let s = (if ex_first_byte_ms s = None \<and> chunk \<noteq> []
              then s\<lparr>ex_first_byte_ms := Some (tk_first t)\<rparr> else s);
         s = s\<lparr>ex_response := push_body_capture chunk (ex_limit s) (ex_response s)\<rparr>;
         s = (case ex_event s of
                None \<Rightarrow> s
              | Some event \<Rightarrow>
                  if chunk \<noteq> [] \<and> length (te_response_chunk_timings event) < MAX_CHUNK_TIMINGS
                  then s\<lparr>ex_event := Some (event\<lparr>te_response_chunk_timings :=
                         te_response_chunk_timings event @
                           [(length (bc_bytes (ex_response s)), tk_chunk t)]\<rparr>)\<rparr>
                  else s)
     in (Chunk chunk, s))"
| "response_poll t (Failed error) s = (Failed error, finish t (Some error) s)"
| "response_poll t End s = (End, finish t None s)"
| "response_poll t Pending s = (Pending, s)"

definition response_drop :: "tick \<Rightarrow> exchange \<Rightarrow> exchange" where
  "response_drop t s =
    (let complete = (bc_expected_bytes (ex_response s) = Some (nat (bc_total_bytes (ex_response s))))
     in finish t (if complete then None else Some ''response stream dropped before completion'') s)"

section \<open>The handler\<close>

definition content_length_exceeds :: "web_lib \<Rightarrow> headers \<Rightarrow> nat \<Rightarrow> bool" where
  "content_length_exceeds W headers limit \<longleftrightarrow>
    (case Option.bind (Option.bind (header_get headers ''content-length'') (hv_to_str W))
        (parse_uint (2 ^ 128 - 1)) of
       None \<Rightarrow> False
     | Some content_length \<Rightarrow> content_length > limit)"

record http_request =
  rq_method :: string
  rq_uri :: uri
  rq_headers :: headers
  rq_exact_size :: "nat option"
  rq_end_stream :: bool

text \<open>The answer: an error reply with its status and trace id, the streamed response with its
  status, forwarded headers and trace id, or none when the client is gone.\<close>

datatype http_reply =
    Payload_too_large nat uuid
  | Upstream_error uuid
  | Streamed nat headers uuid
  | No_reply

text \<open>The outcome of sending the request: the error text, or status, headers and content length.
  The polls of the request body made meanwhile come with it. A client that leaves while the
  handler waits for the upstream ends the handler there, with nothing recorded.\<close>

datatype send_outcome =
    Send_failed string
  | Send_ok nat headers "nat option"
  | Send_dropped

record http_env =
  he_web :: web_lib
  he_proxy :: proxy_config
  he_redaction :: redaction_config
  he_allowlist :: "upstream_allow_entry list"

definition forwarded_request_headers :: "http_env \<Rightarrow> headers \<Rightarrow> headers" where
  "forwarded_request_headers E h =
    filter (\<lambda>p. should_forward_header (he_web E) h (forward_cookies (he_proxy E)) (fst p)) h"

definition forwarded_response_headers :: "http_env \<Rightarrow> headers \<Rightarrow> headers" where
  "forwarded_response_headers E h =
    filter (\<lambda>p. should_forward_response_header (he_web E) h (forward_cookies (he_proxy E)) (fst p)) h"

definition request_polls :: "nat \<Rightarrow> nat \<Rightarrow> item list \<Rightarrow> body_capture \<Rightarrow> body_capture" where
  "request_polls capture_limit live_limit items c =
    fold (\<lambda>i c. snd (request_poll capture_limit live_limit i c)) items c"

text \<open>The event fields common to the three outcomes.\<close>

definition request_event :: "http_env \<Rightarrow> http_request \<Rightarrow> url \<Rightarrow> uuid \<Rightarrow> int \<Rightarrow> trace_event" where
  "request_event E rq target trace_id started_at =
    (let redacted = redact_headers (he_web E) (he_redaction E) (upstream_header (he_proxy E)) (rq_headers rq)
     in (trace_event_base trace_id started_at)\<lparr>
       te_method := rq_method rq, te_original_uri := uri_text (rq_uri rq),
       te_upstream_url := url_to_string (he_web E) target, te_upstream_host := u_host target,
       te_api_key_hash := rh_first_secret_hash redacted,
       te_credential_scope_hash := rh_credential_scope_hash redacted,
       te_request_headers := rh_json redacted,
       te_plugin_request_headers := headers_to_json (he_web E) (rq_headers rq)\<rparr>)"

definition proxy_http ::
  "http_env \<Rightarrow> http_request \<Rightarrow> uuid \<Rightarrow> int \<Rightarrow> tick \<Rightarrow> item list \<Rightarrow> send_outcome
    \<Rightarrow> setup_error + http_reply \<times> trace_event list \<times> exchange option" where
  "proxy_http E rq trace_id started_at t polls outcome =
    bind_res (http_target (he_web E) (he_proxy E) (he_allowlist E) (rq_uri rq) (rq_headers rq)) (\<lambda>target.
    let max_request = max_request_body_bytes (he_proxy E);
        event = request_event E rq target trace_id started_at
    in if content_length_exceeds (he_web E) (rq_headers rq) max_request
       then Inr (Payload_too_large max_request trace_id,
         [event\<lparr>te_completed_at := Some (tk_now t), te_status := Some 413,
                te_error := Some (request_body_limit_message max_request),
                te_duration_ms := Some (tk_end t), te_run_plugins := False\<rparr>], None)
       else let sent = request_polls max_request max_request polls
                  (request_stream_new (rq_exact_size rq) (rq_end_stream rq) body_capture_default)
            in (case outcome of
                  Send_failed error \<Rightarrow>
                    (let request = fst (take_capture sent);
                         exceeded = bc_limit_exceeded request
                     in Inr (if exceeded then Payload_too_large max_request trace_id
                             else Upstream_error trace_id,
                          [event\<lparr>te_completed_at := Some (tk_now t),
                             te_status := (if exceeded then Some 413 else None),
                             te_error := Some (if exceeded then request_body_limit_message max_request
                                               else error),
                             te_duration_ms := Some (tk_end t),
                             te_request_body_bytes := bc_total_bytes request,
                             te_request_body := bc_bytes request,
                             te_request_body_truncated := incomplete_request request,
                             te_run_plugins := True\<rparr>], None))
                | Send_ok status headers content_length \<Rightarrow>
                    (let W = he_web E;
                         event = event\<lparr>te_status := Some (int status),
                           te_response_headers := rh_json (redact_headers W (he_redaction E)
                             (upstream_header (he_proxy E)) headers),
                           te_plugin_response_headers := headers_to_json W headers,
                           te_content_type := Option.bind (header_get headers ''content-type'') (hv_to_str W),
                           te_run_plugins := True\<rparr>
                     in Inr (Streamed status (forwarded_response_headers E headers) trace_id, [],
                          Some (response_stream_new sent event
                            (max_response_body_bytes (he_proxy E)) content_length)))
                | Send_dropped \<Rightarrow> Inr (No_reply, [], None)))"

text \<open>After the reply is handed over, both bodies are polled until the response
  stream is dropped.\<close>

datatype poll = Req item | Resp tick item

fun exchange_step :: "nat \<Rightarrow> poll \<Rightarrow> exchange \<Rightarrow> exchange" where
  "exchange_step max_request (Req i) s = s\<lparr>ex_request := snd (request_poll max_request max_request i (ex_request s))\<rparr>"
| "exchange_step max_request (Resp t i) s = snd (response_poll t i s)"

definition exchange_run :: "nat \<Rightarrow> poll list \<Rightarrow> tick \<Rightarrow> exchange \<Rightarrow> exchange" where
  "exchange_run max_request polls t s = response_drop t (fold (exchange_step max_request) polls s)"

section \<open>What a capture holds\<close>

definition capture_ok :: "nat \<Rightarrow> bytes list \<Rightarrow> body_capture \<Rightarrow> bool" where
  "capture_ok limit cs c \<longleftrightarrow>
    \<not> bc_finished c \<and> bc_bytes c = take limit (concat cs) \<and>
    bc_total_bytes c = min i64_max (int (length (concat cs))) \<and>
    bc_truncated c = (limit < length (concat cs))"

lemma i64_saturating_sum:
  "i64_saturating_add (min i64_max (int a)) (usize_to_i64_saturating b) = min i64_max (int (a + b))"
  by (simp add: i64_saturating_add_def usize_to_i64_saturating_def clamp_i64_def i64_max_def i64_min_def min_def)

lemma push_body_capture_ok:
  "capture_ok limit cs c \<Longrightarrow> capture_ok limit (cs @ [chunk]) (push_body_capture chunk limit c)"
proof -
  assume ok: "capture_ok limit cs c"
  let ?n = "length (concat cs)"
  from ok have c: "\<not> bc_finished c" "bc_bytes c = take limit (concat cs)"
    "bc_total_bytes c = min i64_max (int ?n)" "bc_truncated c = (limit < ?n)"
    by (simp_all add: capture_ok_def)
  have total: "i64_saturating_add (bc_total_bytes c) (usize_to_i64_saturating (length chunk))
      = min i64_max (int (length (concat (cs @ [chunk]))))"
    unfolding c(3) i64_saturating_sum by simp
  show ?thesis
  proof (cases "?n < limit")
    case True
    then have len: "length (bc_bytes c) = ?n" using c(2) by simp
    have "take limit (concat cs @ chunk) = bc_bytes c @ take (min (limit - ?n) (length chunk)) chunk"
      using True c(2) by (simp add: min_def)
    with True len c total show ?thesis
      by (auto simp: capture_ok_def push_body_capture_def Let_def)
  next
    case False
    then have "\<not> length (bc_bytes c) < limit" "take limit (concat cs @ chunk) = bc_bytes c" using c(2) by simp_all
    with False c total show ?thesis
      by (cases chunk) (auto simp: capture_ok_def push_body_capture_def Let_def)
  qed
qed

lemma push_body_capture_frame [simp]:
  "bc_expected_bytes (push_body_capture chunk limit c) = bc_expected_bytes c"
  "bc_stream_ended (push_body_capture chunk limit c) = bc_stream_ended c"
  "bc_limit_exceeded (push_body_capture chunk limit c) = bc_limit_exceeded c"
  by (simp_all add: push_body_capture_def Let_def)

lemma capture_ok_frame [simp]:
  "capture_ok limit cs (c\<lparr>bc_stream_ended := b\<rparr>) = capture_ok limit cs c"
  "capture_ok limit cs (c\<lparr>bc_limit_exceeded := b\<rparr>) = capture_ok limit cs c"
  "capture_ok limit cs (c\<lparr>bc_expected_bytes := x\<rparr>) = capture_ok limit cs c"
  by (simp_all add: capture_ok_def)

lemma capture_ok_default [simp]: "capture_ok limit [] body_capture_default"
  by (simp add: capture_ok_def body_capture_default_def i64_max_def)

section \<open>The upload\<close>

fun chunks_of :: "item list \<Rightarrow> bytes list" where
  "chunks_of [] = []"
| "chunks_of (Chunk c # is) = c # chunks_of is"
| "chunks_of (_ # is) = chunks_of is"

lemma chunks_of_append [simp]: "chunks_of (xs @ ys) = chunks_of xs @ chunks_of ys"
  by (induction xs rule: chunks_of.induct) simp_all

definition request_ok :: "nat \<Rightarrow> nat \<Rightarrow> nat option \<Rightarrow> bool \<Rightarrow> item list \<Rightarrow> body_capture \<Rightarrow> bool" where
  "request_ok limit live exact ended its c \<longleftrightarrow>
    capture_ok limit (chunks_of its) c \<and> bc_expected_bytes c = exact \<and>
    bc_stream_ended c = (ended \<or> End \<in> set its) \<and>
    bc_limit_exceeded c = (int live < min i64_max (int (length (concat (chunks_of its)))))"

lemma request_poll_ok:
  assumes ok: "request_ok limit live exact ended its c"
  shows "request_ok limit live exact ended (its @ [i]) (snd (request_poll limit live i c))"
proof (cases i)
  case (Chunk chunk)
  have cap: "capture_ok limit (chunks_of its @ [chunk]) (push_body_capture chunk limit c)"
    using ok by (intro push_body_capture_ok) (simp add: request_ok_def)
  then have "bc_total_bytes (push_body_capture chunk limit c) =
      min i64_max (int (length (concat (chunks_of its @ [chunk]))))" by (simp add: capture_ok_def)
  with cap ok Chunk show ?thesis
    by (auto simp: request_ok_def push_request_def Let_def split: prod.splits bool.splits)
qed (use ok in \<open>simp_all add: request_ok_def\<close>)

lemma request_polls_ok:
  "request_ok limit live exact ended its c \<Longrightarrow>
    request_ok limit live exact ended (its @ is) (request_polls limit live is c)"
proof (induction "is" arbitrary: its c)
  case (Cons i "is")
  from Cons.IH [OF request_poll_ok [OF Cons.prems, of i]] show ?case by (simp add: request_polls_def)
qed (simp add: request_polls_def)

lemma request_new_ok: "request_ok limit live exact ended [] (request_stream_new exact ended body_capture_default)"
  by (simp add: request_ok_def request_stream_new_def) (simp add: body_capture_default_def i64_max_def)

section \<open>The exchange\<close>

fun resp_chunks :: "poll list \<Rightarrow> bytes list" where
  "resp_chunks [] = []"
| "resp_chunks (Req _ # ps) = resp_chunks ps"
| "resp_chunks (Resp _ (Chunk c) # ps) = c # resp_chunks ps"
| "resp_chunks (Resp _ Pending # ps) = resp_chunks ps"
| "resp_chunks (Resp _ _ # ps) = []"

fun resp_end :: "poll list \<Rightarrow> string option option" where
  "resp_end [] = None"
| "resp_end (Resp _ End # ps) = Some None"
| "resp_end (Resp _ (Failed e) # ps) = Some (Some e)"
| "resp_end (_ # ps) = resp_end ps"

fun req_items :: "poll list \<Rightarrow> item list" where
  "req_items [] = []"
| "req_items (Req i # ps) = i # req_items ps"
| "req_items (Resp _ End # ps) = []"
| "req_items (Resp _ (Failed e) # ps) = []"
| "req_items (Resp _ _ # ps) = req_items ps"

text \<open>How the exchange ended for the capture: a stream error, a clean end, or a
  drop, which is clean only when the announced length was delivered.\<close>

definition exchange_error :: "nat option \<Rightarrow> bytes list \<Rightarrow> poll list \<Rightarrow> string option" where
  "exchange_error expected cs ps =
    (case resp_end ps of
       Some e \<Rightarrow> e
     | None \<Rightarrow> if expected = Some (nat (min i64_max (int (length (concat (cs @ resp_chunks ps))))))
               then None else Some ''response stream dropped before completion'')"

lemma exchange_error_simps [simp]:
  "exchange_error expected cs (Req i # ps) = exchange_error expected cs ps"
  "exchange_error expected cs (Resp t (Chunk c) # ps) = exchange_error expected (cs @ [c]) ps"
  "exchange_error expected cs (Resp t Pending # ps) = exchange_error expected cs ps"
  "exchange_error expected cs (Resp t End # ps) = None"
  "exchange_error expected cs (Resp t (Failed e) # ps) = Some e"
  by (simp_all add: exchange_error_def)

definition timings_ok :: "(nat \<times> int) list \<Rightarrow> nat \<Rightarrow> bool" where
  "timings_ok ts n \<longleftrightarrow>
    sorted (map fst ts) \<and> length ts \<le> MAX_CHUNK_TIMINGS \<and> (\<forall>p\<in>set ts. fst p \<le> n)"

definition same_call :: "trace_event \<Rightarrow> trace_event \<Rightarrow> bool" where
  "same_call ev0 e \<longleftrightarrow>
    te_id e = te_id ev0 \<and> te_started_at e = te_started_at ev0 \<and> te_method e = te_method ev0 \<and>
    te_original_uri e = te_original_uri ev0 \<and> te_upstream_url e = te_upstream_url ev0 \<and>
    te_upstream_host e = te_upstream_host ev0 \<and> te_request_headers e = te_request_headers ev0 \<and>
    te_content_type e = te_content_type ev0"

definition upload_ok :: "nat \<Rightarrow> nat option \<Rightarrow> bool \<Rightarrow> item list \<Rightarrow> trace_event \<Rightarrow> bool" where
  "upload_ok mr exact ended its e \<longleftrightarrow>
    te_request_body e = take mr (concat (chunks_of its)) \<and>
    te_request_body_bytes e = min i64_max (int (length (concat (chunks_of its)))) \<and>
    te_request_body_truncated e = (mr < length (concat (chunks_of its)) \<or>
      \<not> (ended \<or> End \<in> set its) \<and>
      exact \<noteq> Some (nat (min i64_max (int (length (concat (chunks_of its)))))))"

definition recorded_ok ::
  "nat \<Rightarrow> nat option \<Rightarrow> bool \<Rightarrow> trace_event \<Rightarrow> nat \<Rightarrow> item list \<Rightarrow> bytes list \<Rightarrow> string option \<Rightarrow> trace_event \<Rightarrow> bool" where
  "recorded_ok mr exact ended ev0 limit its cs err e \<longleftrightarrow>
    same_call ev0 e \<and> te_status e = te_status ev0 \<and> te_response_headers e = te_response_headers ev0 \<and>
    te_error e = err \<and>
    te_tags e = te_tags ev0 @ (if err = None then [] else [''capture_interrupted'']) \<and>
    upload_ok mr exact ended its e \<and>
    te_response_body e = take limit (concat cs) \<and>
    te_response_body_bytes e = min i64_max (int (length (concat cs))) \<and>
    te_response_body_truncated e = (limit < length (concat cs) \<or> err \<noteq> None) \<and>
    timings_ok (te_response_chunk_timings e) (length (te_response_body e))"

definition exchange_live ::
  "nat \<Rightarrow> nat option \<Rightarrow> bool \<Rightarrow> trace_event \<Rightarrow> nat option \<Rightarrow> item list \<Rightarrow> bytes list \<Rightarrow> exchange \<Rightarrow> bool" where
  "exchange_live mr exact ended ev0 expected its cs s \<longleftrightarrow>
    (\<exists>ts. ex_event s = Some (ev0\<lparr>te_response_chunk_timings := ts\<rparr>) \<and>
      timings_ok ts (length (bc_bytes (ex_response s)))) \<and>
    request_ok mr mr exact ended its (ex_request s) \<and> capture_ok (ex_limit s) cs (ex_response s) \<and>
    bc_expected_bytes (ex_response s) = expected \<and> ex_recorded s = []"

lemma finish_live:
  assumes "exchange_live mr exact ended ev0 expected its cs s"
  shows "ex_event (finish t err s) = None \<and>
    (\<exists>e. ex_recorded (finish t err s) = [e] \<and>
      recorded_ok mr exact ended ev0 (ex_limit s) its cs err e)"
proof -
  from assms obtain ts where ev: "ex_event s = Some (ev0\<lparr>te_response_chunk_timings := ts\<rparr>)"
    and ts: "timings_ok ts (length (bc_bytes (ex_response s)))"
    and rest: "request_ok mr mr exact ended its (ex_request s)" "capture_ok (ex_limit s) cs (ex_response s)"
      "ex_recorded s = []"
    by (auto simp: exchange_live_def)
  then show ?thesis
    by (simp add: finish_def take_capture_def Let_def recorded_ok_def same_call_def upload_ok_def request_ok_def
        capture_ok_def incomplete_request_def)
qed

lemma finish_done: "ex_event s = None \<Longrightarrow> finish t err s = s"
  by (simp add: finish_def)

lemma exchange_done:
  "ex_event s = None \<Longrightarrow>
    ex_event (fold (exchange_step mr) ps s) = None \<and>
    ex_recorded (fold (exchange_step mr) ps s) = ex_recorded s"
proof (induction ps arbitrary: s)
  case (Cons p ps)
  have "ex_event (exchange_step mr p s) = None \<and> ex_recorded (exchange_step mr p s) = ex_recorded s"
  proof (cases p)
    case (Resp t i)
    with Cons.prems show ?thesis by (cases i) (simp_all add: finish_done Let_def)
  qed (use Cons.prems in simp)
  with Cons.IH [of "exchange_step mr p s"] show ?case by simp
qed simp

lemma capture_ok_grows:
  "capture_ok limit cs c \<Longrightarrow> length (bc_bytes c) \<le> length (bc_bytes (push_body_capture chunk limit c))"
  using push_body_capture_ok [of limit cs c chunk] by (simp add: capture_ok_def)

lemma response_chunk_live:
  assumes live: "exchange_live mr exact ended ev0 expected its cs s"
  shows "exchange_live mr exact ended ev0 expected its (cs @ [chunk]) (snd (response_poll t (Chunk chunk) s))"
proof -
  let ?r = "push_body_capture chunk (ex_limit s) (ex_response s)"
  from live obtain ts where ev: "ex_event s = Some (ev0\<lparr>te_response_chunk_timings := ts\<rparr>)"
    and ts: "timings_ok ts (length (bc_bytes (ex_response s)))"
    and cap: "capture_ok (ex_limit s) cs (ex_response s)"
    by (auto simp: exchange_live_def)
  have le: "length (bc_bytes (ex_response s)) \<le> length (bc_bytes ?r)" by (rule capture_ok_grows [OF cap])
  have grow: "timings_ok ts (length (bc_bytes ?r))" using ts le by (auto simp: timings_ok_def)
  have more: "timings_ok (ts @ [(length (bc_bytes ?r), x)]) (length (bc_bytes ?r))"
    if "length ts < MAX_CHUNK_TIMINGS" for x
    using ts le that by (auto simp: timings_ok_def sorted_append)
  let ?s = "snd (response_poll t (Chunk chunk) s)"
  have fields: "ex_request ?s = ex_request s" "ex_response ?s = ?r" "ex_limit ?s = ex_limit s"
    "ex_recorded ?s = ex_recorded s"
    by (simp_all add: Let_def ev)
  have ev': "ex_event ?s = Some (ev0\<lparr>te_response_chunk_timings :=
      if chunk \<noteq> [] \<and> length ts < MAX_CHUNK_TIMINGS
      then ts @ [(length (bc_bytes ?r), tk_chunk t)] else ts\<rparr>)"
    by (simp add: Let_def ev)
  have "timings_ok (if chunk \<noteq> [] \<and> length ts < MAX_CHUNK_TIMINGS
      then ts @ [(length (bc_bytes ?r), tk_chunk t)] else ts) (length (bc_bytes ?r))"
    using grow more by simp
  with live push_body_capture_ok [OF cap, of chunk] show ?thesis
    unfolding exchange_live_def fields ev' by (auto simp del: response_poll.simps)
qed

lemma response_chunk_limit: "ex_limit (snd (response_poll t (Chunk chunk) s)) = ex_limit s"
  by (simp add: Let_def split: option.splits)

lemma exchange_run_recorded:
  assumes "exchange_live mr exact ended ev0 expected its cs s"
  shows "\<exists>e. ex_recorded (exchange_run mr ps t s) = [e] \<and>
    recorded_ok mr exact ended ev0 (ex_limit s) (its @ req_items ps) (cs @ resp_chunks ps)
      (exchange_error expected cs ps) e"
  using assms
proof (induction ps arbitrary: its cs s)
  case Nil
  then have cap: "bc_total_bytes (ex_response s) = min i64_max (int (length (concat cs)))"
    "bc_expected_bytes (ex_response s) = expected"
    by (simp_all add: exchange_live_def capture_ok_def)
  from finish_live [OF Nil] show ?case by (simp add: exchange_run_def response_drop_def cap exchange_error_def)
next
  case (Cons p ps)
  have step: "exchange_run mr (p # ps) t s = exchange_run mr ps t (exchange_step mr p s)"
    by (simp add: exchange_run_def)
  have fin: "ex_recorded (exchange_run mr ps t (finish t' err s)) = ex_recorded (finish t' err s)" for t' err
    using exchange_done [OF finish_live [OF Cons.prems, of t' err, THEN conjunct1], of mr ps]
    by (simp add: exchange_run_def response_drop_def finish_done)
  show ?case
  proof (cases p)
    case (Req i)
    have "exchange_live mr exact ended ev0 expected (its @ [i]) cs (exchange_step mr p s)"
      using Cons.prems request_poll_ok Req by (auto simp: exchange_live_def)
    from Cons.IH [OF this] Req step show ?thesis by simp
  next
    case (Resp t' i)
    show ?thesis
    proof (cases i)
      case (Chunk chunk)
      have live: "exchange_live mr exact ended ev0 expected its (cs @ [chunk]) (exchange_step mr p s)"
        using response_chunk_live [OF Cons.prems] Resp Chunk by simp
      have lim: "ex_limit (exchange_step mr p s) = ex_limit s"
        using response_chunk_limit Resp Chunk by simp
      from Cons.IH [OF live] lim show ?thesis unfolding step using Resp Chunk by simp
    next
      case (Failed e)
      with finish_live [OF Cons.prems, of t' "Some e"] Resp fin step show ?thesis by simp
    next
      case End
      with finish_live [OF Cons.prems, of t' None] Resp fin step show ?thesis by simp
    next
      case Pending
      with Cons.IH [OF Cons.prems] Resp step show ?thesis by simp
    qed
  qed
qed

lemma request_event_fields [simp]:
  "te_id (request_event E rq target i st) = i"
  "te_tags (request_event E rq target i st) = []"
  "te_response_chunk_timings (request_event E rq target i st) = []"
  by (simp_all add: request_event_def trace_event_base_def Let_def)

lemma upload_capture:
  assumes "request_ok mr mr exact ended its c"
  shows "upload_ok mr exact ended its (e\<lparr>te_request_body_bytes := bc_total_bytes (fst (take_capture c)),
      te_request_body := bc_bytes (fst (take_capture c)), te_request_body_truncated := incomplete_request (fst (take_capture c)),
      te_run_plugins := p\<rparr>)"
  using assms by (simp add: upload_ok_def take_capture_def request_ok_def capture_ok_def incomplete_request_def)

text \<open>The event of a call, told from the request and the upstream chosen for it.\<close>

definition call_of :: "http_env \<Rightarrow> http_request \<Rightarrow> url \<Rightarrow> uuid \<Rightarrow> int \<Rightarrow> trace_event \<Rightarrow> bool" where
  "call_of E rq target trace_id started_at e \<longleftrightarrow>
    te_id e = trace_id \<and> te_started_at e = started_at \<and> te_method e = rq_method rq \<and>
    te_original_uri e = uri_text (rq_uri rq) \<and> te_upstream_url e = url_to_string (he_web E) target \<and>
    te_upstream_host e = u_host target \<and>
    te_request_headers e = rh_json (redact_headers (he_web E) (he_redaction E) (upstream_header (he_proxy E)) (rq_headers rq))"

lemma call_of_request_event [simp]: "call_of E rq target i st (request_event E rq target i st)"
  by (simp add: call_of_def request_event_def trace_event_base_def Let_def)

lemma same_call_of: "same_call ev0 e \<Longrightarrow> call_of E rq target i st ev0 \<Longrightarrow> call_of E rq target i st e"
  by (simp add: same_call_def call_of_def)

lemma no_bodies [simp]:
  "te_request_body (request_event E rq target i st) = []" "te_request_body_bytes (request_event E rq target i st) = 0"
  "te_response_body (request_event E rq target i st) = []" "te_response_body_bytes (request_event E rq target i st) = 0"
  by (simp_all add: request_event_def trace_event_base_def Let_def)

text \<open>What is recorded of a call that was turned away, failed, or was answered by the upstream.\<close>

definition rejected_event :: "nat \<Rightarrow> trace_event \<Rightarrow> bool" where
  "rejected_event mr e \<longleftrightarrow>
    te_status e = Some 413 \<and> te_error e = Some (request_body_limit_message mr) \<and>
    te_request_body e = [] \<and> te_request_body_bytes e = 0 \<and> te_response_body e = [] \<and> te_response_body_bytes e = 0"

definition failed_event :: "nat \<Rightarrow> nat option \<Rightarrow> bool \<Rightarrow> item list \<Rightarrow> string \<Rightarrow> trace_event \<Rightarrow> bool" where
  "failed_event mr exact ended its error e \<longleftrightarrow>
    (let exceeded = int mr < min i64_max (int (length (concat (chunks_of its)))) in
     te_status e = (if exceeded then Some 413 else None) \<and>
     te_error e = Some (if exceeded then request_body_limit_message mr else error) \<and>
     upload_ok mr exact ended its e \<and> te_response_body e = [] \<and> te_response_body_bytes e = 0)"

definition answered_event ::
  "http_env \<Rightarrow> nat \<Rightarrow> headers \<Rightarrow> nat option \<Rightarrow> bool \<Rightarrow> item list \<Rightarrow> bytes list \<Rightarrow> string option \<Rightarrow> trace_event \<Rightarrow> bool" where
  "answered_event E status headers exact ended its cs err e \<longleftrightarrow>
    te_status e = Some (int status) \<and>
    te_response_headers e = rh_json (redact_headers (he_web E) (he_redaction E) (upstream_header (he_proxy E)) headers) \<and>
    te_content_type e = Option.bind (header_get headers ''content-type'') (hv_to_str (he_web E)) \<and>
    te_error e = err \<and> te_tags e = (if err = None then [] else [''capture_interrupted'']) \<and>
    upload_ok (max_request_body_bytes (he_proxy E)) exact ended its e \<and>
    te_response_body e = take (max_response_body_bytes (he_proxy E)) (concat cs) \<and>
    te_response_body_bytes e = min i64_max (int (length (concat cs))) \<and>
    te_response_body_truncated e = (max_response_body_bytes (he_proxy E) < length (concat cs) \<or> err \<noteq> None) \<and>
    timings_ok (te_response_chunk_timings e) (length (te_response_body e))"

lemma exchange_answered:
  assumes ev: "call_of E rq target trace_id started_at ev" "te_status ev = Some (int status)" "te_tags ev = []"
      "te_response_chunk_timings ev = []" "te_content_type ev = Option.bind (header_get headers ''content-type'') (hv_to_str (he_web E))"
      "te_response_headers ev = rh_json (redact_headers (he_web E) (he_redaction E) (upstream_header (he_proxy E)) headers)"
    and mr: "mr = max_request_body_bytes (he_proxy E)"
    and s: "s = response_stream_new (request_polls mr mr polls (request_stream_new exact ended body_capture_default)) ev
      (max_response_body_bytes (he_proxy E)) cl"
  shows "\<exists>e. ex_recorded (exchange_run mr ps t' s) = [e] \<and> call_of E rq target trace_id started_at e \<and>
    answered_event E status headers exact ended (polls @ req_items ps) (resp_chunks ps) (exchange_error cl [] ps) e"
proof -
  have "request_ok mr mr exact ended polls (ex_request s)"
    using request_polls_ok [OF request_new_ok, of mr mr exact ended polls] by (simp add: s response_stream_new_def)
  then have "exchange_live mr exact ended ev cl polls [] s"
    unfolding exchange_live_def using ev(4)
    by (auto simp: s response_stream_new_def timings_ok_def intro!: exI [of _ "[]"])
  from exchange_run_recorded [OF this, of ps t'] obtain e where e: "ex_recorded (exchange_run mr ps t' s) = [e]"
    "recorded_ok mr exact ended ev (max_response_body_bytes (he_proxy E)) (polls @ req_items ps) (resp_chunks ps)
      (exchange_error cl [] ps) e"
    by (auto simp: s response_stream_new_def)
  have "call_of E rq target trace_id started_at e" by (rule same_call_of) (use e(2) ev(1) in \<open>simp_all add: recorded_ok_def\<close>)
  moreover have "answered_event E status headers exact ended (polls @ req_items ps) (resp_chunks ps) (exchange_error cl [] ps) e"
    using e(2) ev(2,3,5,6) unfolding answered_event_def recorded_ok_def same_call_def mr
    by (elim conjE, intro conjI) (simp_all only: append_Nil)
  ultimately show ?thesis using e(1) by blast
qed


section \<open>What the two sides see\<close>

fun request_outputs :: "nat \<Rightarrow> nat \<Rightarrow> item list \<Rightarrow> body_capture \<Rightarrow> item list" where
  "request_outputs limit live [] c = []"
| "request_outputs limit live (i # is) c =
    (case request_poll limit live i c of (out, c') \<Rightarrow> out # request_outputs limit live is c')"

fun response_outputs :: "(tick \<times> item) list \<Rightarrow> exchange \<Rightarrow> item list" where
  "response_outputs [] s = []"
| "response_outputs ((t, i) # is) s =
    (case response_poll t i s of (out, s') \<Rightarrow> out # response_outputs is s')"

text \<open>The reference: chunks are passed on until the first one that brings the
  total over the limit; from there on every chunk is an error.\<close>

fun limited_upload :: "nat \<Rightarrow> nat \<Rightarrow> item list \<Rightarrow> item list" where
  "limited_upload live n [] = []"
| "limited_upload live n (Chunk c # is) =
    (if n + length c \<le> live then Chunk c else Failed (request_body_limit_message live)) #
      limited_upload live (n + length c) is"
| "limited_upload live n (i # is) = i # limited_upload live n is"

lemma request_outputs_limited:
  assumes "request_ok limit live exact ended its c" "int live < i64_max"
  shows "request_outputs limit live is c = limited_upload live (length (concat (chunks_of its))) is"
  using assms(1)
proof (induction "is" arbitrary: its c)
  case (Cons i "is")
  from Cons.IH [OF request_poll_ok [OF Cons.prems, of i]]
  have rest: "request_outputs limit live is (snd (request_poll limit live i c)) =
      limited_upload live (length (concat (chunks_of (its @ [i])))) is" .
  show ?case
  proof (cases i)
    case (Chunk chunk)
    have "request_ok limit live exact ended (its @ [i]) (snd (request_poll limit live i c))"
      by (rule request_poll_ok [OF Cons.prems])
    then have "bc_limit_exceeded (snd (request_poll limit live i c)) \<longleftrightarrow>
        \<not> length (concat (chunks_of its)) + length chunk \<le> live"
      using assms(2) Chunk by (auto simp: request_ok_def)
    moreover have "fst (request_poll limit live i c) =
        (if bc_limit_exceeded (snd (request_poll limit live i c))
         then Failed (request_body_limit_message live) else Chunk chunk)"
      using Chunk by (auto simp: push_request_def Let_def split: prod.splits bool.splits)
    ultimately show ?thesis using rest Chunk
      by (simp add: case_prod_unfold del: request_poll.simps)
  qed (use rest in \<open>simp_all add: case_prod_unfold\<close>)
qed simp

lemma limited_upload_over: "live < n \<Longrightarrow> chunks_of (limited_upload live n is) = []"
  by (induction live n "is" rule: limited_upload.induct) simp_all

lemma limited_upload_bound:
  "n \<le> live \<Longrightarrow> n + length (concat (chunks_of (limited_upload live n is))) \<le> live"
proof (induction live n "is" rule: limited_upload.induct)
  case (2 live n c "is")
  then show ?case
    by (cases "n + length c \<le> live") (auto simp: limited_upload_over)
qed simp_all

text \<open>The proxy is transparent up to the upload limit. The client receives the
  items of the upstream body unchanged and in order. The upstream receives the
  chunks of the upload unchanged and in order until the total exceeds the
  limit, then only errors, so it never receives more bytes than the limit; this
  holds for the capturing handler and for the pass-through handler alike.\<close>

theorem streams_transparent:
  assumes "int live < i64_max"
  shows "response_outputs ris s = map snd ris \<and>
    (let outs = request_outputs limit live items (request_stream_new exact ended body_capture_default)
     in outs = limited_upload live 0 items \<and> length (concat (chunks_of outs)) \<le> live)"
proof -
  have "response_outputs ris s = map snd ris"
  proof (induction ris arbitrary: s)
    case (Cons p ris)
    obtain t i where p: "p = (t, i)" by (cases p)
    have "fst (response_poll t i s) = i" by (cases i) (simp_all add: Let_def)
    with p Cons show ?case by (simp add: case_prod_unfold del: response_poll.simps)
  qed simp
  moreover have "request_outputs limit live items (request_stream_new exact ended body_capture_default)
      = limited_upload live 0 items"
    using request_outputs_limited [OF request_new_ok assms] by simp
  ultimately show ?thesis using limited_upload_bound [of 0 live items] by (simp add: Let_def)
qed

theorem streams_transparent_witness:
  "request_outputs 0 3 [Chunk ''ab'', Chunk ''cd'', End] (request_stream_new None False body_capture_default)
    = [Chunk ''ab'', Failed (request_body_limit_message 3), End]"
proof -
  have "int 3 < i64_max" by (simp add: i64_max_def)
  from streams_transparent [OF this, where limit = 0 and items = "[Chunk ''ab'', Chunk ''cd'', End]"
      and ris = "[]" and exact = None and ended = False]
  show ?thesis by (simp add: Let_def)
qed

text \<open>An environment and a finished exchange for the witnesses.\<close>

definition demo_env :: http_env where
  "demo_env =
    \<lparr>he_web = demo_web [(''d'', demo_url)],
     he_proxy = demo_proxy\<lparr>max_request_body_bytes := 4, max_response_body_bytes := 3\<rparr>,
     he_redaction = demo_redaction, he_allowlist = []\<rparr>"

definition demo_rq :: http_request where
  "demo_rq =
    \<lparr>rq_method = ''POST'',
     rq_uri = \<lparr>uri_scheme = None, uri_authority = None, uri_path_and_query = Some (''/v1'', None),
       uri_text = ''/v1''\<rparr>,
     rq_headers = [], rq_exact_size = Some 2, rq_end_stream = False\<rparr>"

definition demo_tick :: tick where
  "demo_tick = \<lparr>tk_first = 5, tk_chunk = 6, tk_end = 9, tk_now = 100\<rparr>"


end
