(* ===== verification/LT_Websocket.thy ===== *)
theory LT_Websocket
  imports LT_Capture
begin

text \<open>
  The websocket bridge of \<open>proxy.rs\<close>: message accounting, frame capture and the
  event recorded when the bridge ends. The two directions run concurrently and
  share their statistics under a lock, so the bridge is a sequence of steps of
  either direction. The messages of the two websocket libraries are one
  datatype each.
\<close>

section \<open>Messages\<close>

datatype axum_message =
  Ax_text string | Ax_binary bytes | Ax_ping bytes | Ax_pong bytes | Ax_close "string option"

datatype tung_message =
    Tu_text string | Tu_binary bytes | Tu_ping bytes | Tu_pong bytes | Tu_close "string option"
  | Tu_frame bytes

fun axum_to_tungstenite :: "axum_message \<Rightarrow> tung_message option" where
  "axum_to_tungstenite (Ax_text text') = Some (Tu_text text')"
| "axum_to_tungstenite (Ax_binary bytes) = Some (Tu_binary bytes)"
| "axum_to_tungstenite (Ax_ping bytes) = Some (Tu_ping bytes)"
| "axum_to_tungstenite (Ax_pong bytes) = Some (Tu_pong bytes)"
| "axum_to_tungstenite (Ax_close _) = Some (Tu_close None)"

fun tungstenite_to_axum :: "tung_message \<Rightarrow> axum_message option" where
  "tungstenite_to_axum (Tu_text text') = Some (Ax_text text')"
| "tungstenite_to_axum (Tu_binary bytes) = Some (Ax_binary bytes)"
| "tungstenite_to_axum (Tu_ping bytes) = Some (Ax_ping bytes)"
| "tungstenite_to_axum (Tu_pong bytes) = Some (Ax_pong bytes)"
| "tungstenite_to_axum (Tu_close _) = Some (Ax_close None)"
| "tungstenite_to_axum (Tu_frame _) = None"

fun ws_message_size :: "axum_message \<Rightarrow> nat" where
  "ws_message_size (Ax_text text') = length text'"
| "ws_message_size (Ax_binary bytes) = length bytes"
| "ws_message_size (Ax_ping bytes) = length bytes"
| "ws_message_size (Ax_pong bytes) = length bytes"
| "ws_message_size (Ax_close _) = 0"

fun tungstenite_message_size :: "tung_message \<Rightarrow> nat" where
  "tungstenite_message_size (Tu_text text') = length text'"
| "tungstenite_message_size (Tu_binary bytes) = length bytes"
| "tungstenite_message_size (Tu_ping bytes) = length bytes"
| "tungstenite_message_size (Tu_pong bytes) = length bytes"
| "tungstenite_message_size (Tu_close _) = 0"
| "tungstenite_message_size (Tu_frame _) = 0"

section \<open>Accounting and capture\<close>

record ws_stats =
  ws_client_frames :: int
  ws_upstream_frames :: int
  ws_bytes_in :: int
  ws_bytes_out :: int
  ws_frames :: "json list"
  ws_frames_truncated :: bool
  ws_captured_text_bytes :: nat

definition ws_stats_default :: ws_stats where
  "ws_stats_default =
    \<lparr>ws_client_frames = 0, ws_upstream_frames = 0, ws_bytes_in = 0, ws_bytes_out = 0,
     ws_frames = [], ws_frames_truncated = False, ws_captured_text_bytes = 0\<rparr>"

definition MAX_WEBSOCKET_CAPTURED_FRAMES :: nat where
  "MAX_WEBSOCKET_CAPTURED_FRAMES = 200"

definition utf8_prefix :: "nat \<Rightarrow> string \<Rightarrow> string" where
  "utf8_prefix max_bytes val =
    (if length val \<le> max_bytes then val else take (boundary_floor val max_bytes) val)"

definition text_frame :: "string \<Rightarrow> string \<Rightarrow> bool \<Rightarrow> json" where
  "text_frame direction captured text_truncated =
    (let frame = bt_collect
           [(''direction'', JString direction), (''type'', JString ''text''), (''text'', JString captured)]
     in JObject (if text_truncated then bt_insert ''text_truncated'' (JBool True) frame else frame))"

definition sized_frame :: "string \<Rightarrow> string \<Rightarrow> nat \<Rightarrow> json" where
  "sized_frame direction kind n =
    JObject (bt_collect
      [(''direction'', JString direction), (''type'', JString kind), (''bytes'', JNumber (PosInt n))])"

definition bare_frame :: "string \<Rightarrow> string \<Rightarrow> json" where
  "bare_frame direction kind =
    JObject (bt_collect [(''direction'', JString direction), (''type'', JString kind)])"

definition push_frame :: "json \<Rightarrow> ws_stats \<Rightarrow> ws_stats" where
  "push_frame f s = s\<lparr>ws_frames := ws_frames s @ [f]\<rparr>"

definition capture_text_ws_frame :: "string \<Rightarrow> string \<Rightarrow> nat \<Rightarrow> ws_stats \<Rightarrow> ws_stats" where
  "capture_text_ws_frame direction text' capture_limit s =
    (let remaining = saturating_sub capture_limit (ws_captured_text_bytes s)
     in if remaining = 0 \<and> text' \<noteq> [] then s\<lparr>ws_frames_truncated := True\<rparr>
        else let captured = utf8_prefix remaining text';
                 text_truncated = (length captured < length text');
                 s = s\<lparr>ws_captured_text_bytes :=
                        saturating_add (ws_captured_text_bytes s) (length captured),
                      ws_frames_truncated := ws_frames_truncated s \<or> text_truncated\<rparr>
             in push_frame (text_frame direction captured text_truncated) s)"

definition capture_ws_message :: "string \<Rightarrow> axum_message \<Rightarrow> nat \<Rightarrow> ws_stats \<Rightarrow> ws_stats" where
  "capture_ws_message direction message capture_limit s =
    (if length (ws_frames s) \<ge> MAX_WEBSOCKET_CAPTURED_FRAMES then s\<lparr>ws_frames_truncated := True\<rparr>
     else case message of
       Ax_text text' \<Rightarrow> capture_text_ws_frame direction text' capture_limit s
     | Ax_binary bytes \<Rightarrow> push_frame (sized_frame direction ''binary'' (length bytes)) s
     | Ax_ping bytes \<Rightarrow> push_frame (sized_frame direction ''ping'' (length bytes)) s
     | Ax_pong bytes \<Rightarrow> push_frame (sized_frame direction ''pong'' (length bytes)) s
     | Ax_close _ \<Rightarrow> push_frame (bare_frame direction ''close'') s)"

definition capture_tungstenite_message :: "string \<Rightarrow> tung_message \<Rightarrow> nat \<Rightarrow> ws_stats \<Rightarrow> ws_stats" where
  "capture_tungstenite_message direction message capture_limit s =
    (if length (ws_frames s) \<ge> MAX_WEBSOCKET_CAPTURED_FRAMES then s\<lparr>ws_frames_truncated := True\<rparr>
     else case message of
       Tu_text text' \<Rightarrow> capture_text_ws_frame direction text' capture_limit s
     | Tu_binary bytes \<Rightarrow> push_frame (sized_frame direction ''binary'' (length bytes)) s
     | Tu_ping bytes \<Rightarrow> push_frame (sized_frame direction ''ping'' (length bytes)) s
     | Tu_pong bytes \<Rightarrow> push_frame (sized_frame direction ''pong'' (length bytes)) s
     | Tu_close _ \<Rightarrow> push_frame (bare_frame direction ''close'') s
     | Tu_frame _ \<Rightarrow> push_frame (bare_frame direction ''frame'') s)"

datatype ws_error =
  Message_exceeds string nat | Session_exceeds string nat | Receive_failed string | Send_error string

definition add_ws_bytes :: "string \<Rightarrow> int \<Rightarrow> nat \<Rightarrow> nat \<Rightarrow> nat \<Rightarrow> ws_error + int" where
  "add_ws_bytes direction current message_size max_message_bytes max_session_bytes =
    (if message_size > max_message_bytes then Inl (Message_exceeds direction max_message_bytes)
     else let next = i64_saturating_add current (int message_size)
          in if next > int max_session_bytes then Inl (Session_exceeds direction max_session_bytes)
             else Inr next)"

section \<open>The bridge\<close>

record ws_limits =
  wl_message :: nat
  wl_session :: nat
  wl_capture :: nat
  wl_capturing :: bool

text \<open>The state shared by the two directions: the statistics, per direction the
  message that has been counted and is being sent on, and what has been sent.\<close>

record ws_bridge =
  wb_stats :: ws_stats
  wb_pending_up :: "tung_message option"
  wb_pending_down :: "axum_message option"
  wb_to_upstream :: "tung_message list"
  wb_to_client :: "axum_message list"

text \<open>The first half of an iteration of each direction, up to the send: the message
  received, or the receive error.\<close>

definition client_to_upstream ::
  "ws_limits \<Rightarrow> string + axum_message \<Rightarrow> ws_bridge \<Rightarrow> ws_bridge \<times> ws_error option" where
  "client_to_upstream L received b =
    (case received of
       Inl e \<Rightarrow> (b, Some (Receive_failed e))
     | Inr message \<Rightarrow>
        (let s = wb_stats b in
         case add_ws_bytes ''client'' (ws_bytes_in s) (ws_message_size message) (wl_message L) (wl_session L) of
           Inl e \<Rightarrow> (b, Some e)
         | Inr bytes_in \<Rightarrow>
            (let s = s\<lparr>ws_bytes_in := bytes_in, ws_client_frames := ws_client_frames s + 1\<rparr>;
                 s = (if wl_capturing L then capture_ws_message ''client'' message (wl_capture L) s else s)
             in (b\<lparr>wb_stats := s, wb_pending_up := axum_to_tungstenite message\<rparr>, None))))"

definition upstream_to_client ::
  "ws_limits \<Rightarrow> string + tung_message \<Rightarrow> ws_bridge \<Rightarrow> ws_bridge \<times> ws_error option" where
  "upstream_to_client L received b =
    (case received of
       Inl e \<Rightarrow> (b, Some (Receive_failed e))
     | Inr message \<Rightarrow>
        (let s = wb_stats b in
         case add_ws_bytes ''upstream'' (ws_bytes_out s) (tungstenite_message_size message)
             (wl_message L) (wl_session L) of
           Inl e \<Rightarrow> (b, Some e)
         | Inr bytes_out \<Rightarrow>
            (let s = s\<lparr>ws_bytes_out := bytes_out, ws_upstream_frames := ws_upstream_frames s + 1\<rparr>;
                 s = (if wl_capturing L then capture_tungstenite_message ''upstream'' message (wl_capture L) s else s)
             in (b\<lparr>wb_stats := s, wb_pending_down := tungstenite_to_axum message\<rparr>, None))))"

text \<open>The second half: the send completes or fails.\<close>

definition sent_upstream :: "string option \<Rightarrow> ws_bridge \<Rightarrow> ws_bridge \<times> ws_error option" where
  "sent_upstream send_error b =
    (case wb_pending_up b of
       None \<Rightarrow> (b, None)
     | Some m \<Rightarrow> (case send_error of
         Some e \<Rightarrow> (b, Some (Send_error e))
       | None \<Rightarrow> (b\<lparr>wb_pending_up := None, wb_to_upstream := wb_to_upstream b @ [m]\<rparr>, None)))"

definition sent_client :: "string option \<Rightarrow> ws_bridge \<Rightarrow> ws_bridge \<times> ws_error option" where
  "sent_client send_error b =
    (case wb_pending_down b of
       None \<Rightarrow> (b, None)
     | Some m \<Rightarrow> (case send_error of
         Some e \<Rightarrow> (b, Some (Send_error e))
       | None \<Rightarrow> (b\<lparr>wb_pending_down := None, wb_to_client := wb_to_client b @ [m]\<rparr>, None)))"

text \<open>The schedule of the two concurrent loops. A direction receives only when its
  previous message has been sent on, so an event for a busy direction is void.
  The first error, or the end of one of the incoming streams, stops both
  directions, the other one possibly before a send.\<close>

datatype ws_event =
    From_client "string + axum_message"
  | Sent_up "string option"
  | From_upstream "string + tung_message"
  | Sent_down "string option"
  | Closed

fun bridge_step :: "ws_limits \<Rightarrow> ws_event \<Rightarrow> ws_bridge \<Rightarrow> ws_bridge \<times> ws_error option" where
  "bridge_step L (From_client m) b =
    (if wb_pending_up b = None then client_to_upstream L m b else (b, None))"
| "bridge_step L (Sent_up e) b = sent_upstream e b"
| "bridge_step L (From_upstream m) b =
    (if wb_pending_down b = None then upstream_to_client L m b else (b, None))"
| "bridge_step L (Sent_down e) b = sent_client e b"
| "bridge_step L Closed b = (b, None)"

fun bridge_run :: "ws_limits \<Rightarrow> ws_event list \<Rightarrow> ws_bridge \<Rightarrow> ws_bridge \<times> ws_error option" where
  "bridge_run L [] b = (b, None)"
| "bridge_run L (e # evs) b =
    (if e = Closed then (b, None)
     else case bridge_step L e b of
       (b', Some err) \<Rightarrow> (b', Some err)
     | (b', None) \<Rightarrow> bridge_run L evs b')"

definition bridge_new :: ws_bridge where
  "bridge_new = \<lparr>wb_stats = ws_stats_default, wb_pending_up = None, wb_pending_down = None, wb_to_upstream = [], wb_to_client = []\<rparr>"

text \<open>\<open>websocket_response_body\<close> over the JSON printer, which may fail.\<close>

definition websocket_response_body :: "(json list \<Rightarrow> bytes option) \<Rightarrow> json list \<Rightarrow> nat \<Rightarrow> bytes \<times> bool" where
  "websocket_response_body to_vec frames limit =
    (case to_vec frames of
       None \<Rightarrow> (''[]'', True)
     | Some body \<Rightarrow> if length body > limit then (take limit body, True) else (body, False))"

definition ws_limits_of :: "proxy_config \<Rightarrow> bool \<Rightarrow> ws_limits" where
  "ws_limits_of c capture =
    \<lparr>wl_message = max_websocket_message_bytes c, wl_session = max_websocket_session_bytes c,
     wl_capture = max_websocket_session_bytes c, wl_capturing = capture\<rparr>"

text \<open>The identity of the upgraded request that the handler carries along.\<close>

record ws_call =
  wc_trace_id :: uuid
  wc_started_at :: int
  wc_original_uri :: string
  wc_upstream_url :: url
  wc_request_headers :: json
  wc_api_key_hash :: "string option"
  wc_credential_scope_hash :: "string option"

definition ws_event_base :: "web_lib \<Rightarrow> ws_call \<Rightarrow> tick \<Rightarrow> trace_event" where
  "ws_event_base W k t =
    (trace_event_base (wc_trace_id k) (wc_started_at k))\<lparr>
      te_completed_at := Some (tk_now t), te_method := ''GET'',
      te_original_uri := wc_original_uri k,
      te_upstream_url := url_to_string W (wc_upstream_url k),
      te_upstream_host := u_host (wc_upstream_url k),
      te_request_kind := Some WebSocket,
      te_api_key_hash := wc_api_key_hash k,
      te_credential_scope_hash := wc_credential_scope_hash k,
      te_duration_ms := Some (tk_end t),
      te_request_headers := wc_request_headers k,
      te_content_type := Some ''websocket'', te_tags := [''websocket'']\<rparr>"

definition persist_ws_error :: "web_lib \<Rightarrow> ws_call \<Rightarrow> tick \<Rightarrow> string \<Rightarrow> trace_event" where
  "persist_ws_error W k t error = (ws_event_base W k t)\<lparr>te_error := Some error\<rparr>"

definition websocket_connect_timeout_message :: "nat \<Rightarrow> string" where
  "websocket_connect_timeout_message timeout =
    ''websocket upstream connection timed out after '' @ show_nat timeout @ '' seconds''"

text \<open>How the connection to the upstream went: the request could not be built, the
  connection failed or timed out, or it was made, with its response headers.\<close>

datatype ws_connect = Bad_client_request string | Connect_failed string | Connect_timed_out | Connected headers

definition int_json :: "int \<Rightarrow> json" where
  "int_json i = JNumber (if 0 \<le> i then PosInt (nat i) else NegInt i)"

definition bridge_event ::
  "web_lib \<Rightarrow> ws_call \<Rightarrow> tick \<Rightarrow> json \<Rightarrow> (ws_error \<Rightarrow> string) \<Rightarrow> (json list \<Rightarrow> bytes option) \<Rightarrow> nat
    \<Rightarrow> ws_stats \<Rightarrow> ws_error option \<Rightarrow> trace_event" where
  "bridge_event W k t response_headers show_error to_vec capture_limit stats err =
    (case websocket_response_body to_vec (ws_frames stats) capture_limit of (body, body_truncated) \<Rightarrow>
     (ws_event_base W k t)\<lparr>te_status := Some 101, te_error := map_option show_error err,
       te_request_body_bytes := ws_bytes_in stats, te_response_body_bytes := ws_bytes_out stats,
       te_response_headers := response_headers, te_plugin_response_headers := response_headers,
       te_response_body := body,
       te_response_body_truncated := ws_frames_truncated stats \<or> body_truncated,
       te_plugin_metadata := JObject (bt_collect [(''websocket'', JObject (bt_collect
         [(''client_frames'', int_json (ws_client_frames stats)),
          (''upstream_frames'', int_json (ws_upstream_frames stats))]))])\<rparr>)"

definition handle_websocket ::
  "web_lib \<Rightarrow> proxy_config \<Rightarrow> redaction_config \<Rightarrow> ws_call \<Rightarrow> tick \<Rightarrow> (ws_error \<Rightarrow> string)
    \<Rightarrow> (json list \<Rightarrow> bytes option) \<Rightarrow> bool \<Rightarrow> ws_connect \<Rightarrow> ws_event list \<Rightarrow> trace_event list" where
  "handle_websocket W c red k t show_error to_vec capture conn evs =
    (case conn of
       Bad_client_request e \<Rightarrow> if capture then [persist_ws_error W k t e] else []
     | Connect_failed e \<Rightarrow> if capture then [persist_ws_error W k t e] else []
     | Connect_timed_out \<Rightarrow>
         if capture then [persist_ws_error W k t (websocket_connect_timeout_message (timeout_secs c))] else []
     | Connected response_headers \<Rightarrow>
         (let hdrs = rh_json (redact_headers W red (upstream_header c) response_headers);
              L = ws_limits_of c capture
          in case bridge_run L evs bridge_new of (b, err) \<Rightarrow>
             if capture
             then [bridge_event W k t hdrs show_error to_vec (wl_capture L) (wb_stats b) err] else []))"

section \<open>What the bridge relays and keeps\<close>

lemma utf8_prefix_floor: "utf8_prefix = utf8_floor_prefix"
  by (intro ext) (simp add: utf8_prefix_def utf8_floor_prefix_def)

interpretation wsp: bounded_prefix utf8_prefix
  unfolding utf8_prefix_floor by (rule fp.bounded_prefix_axioms)

text \<open>The complete frame of a message, the text a frame holds, and what is relayed.\<close>

fun frame_of :: "ws_event \<Rightarrow> json" where
  "frame_of (From_client (Inr (Ax_text t))) = text_frame ''client'' t False"
| "frame_of (From_client (Inr (Ax_binary b))) = sized_frame ''client'' ''binary'' (length b)"
| "frame_of (From_client (Inr (Ax_ping b))) = sized_frame ''client'' ''ping'' (length b)"
| "frame_of (From_client (Inr (Ax_pong b))) = sized_frame ''client'' ''pong'' (length b)"
| "frame_of (From_client (Inr (Ax_close b))) = bare_frame ''client'' ''close''"
| "frame_of (From_upstream (Inr (Tu_text t))) = text_frame ''upstream'' t False"
| "frame_of (From_upstream (Inr (Tu_binary b))) = sized_frame ''upstream'' ''binary'' (length b)"
| "frame_of (From_upstream (Inr (Tu_ping b))) = sized_frame ''upstream'' ''ping'' (length b)"
| "frame_of (From_upstream (Inr (Tu_pong b))) = sized_frame ''upstream'' ''pong'' (length b)"
| "frame_of (From_upstream (Inr (Tu_close b))) = bare_frame ''upstream'' ''close''"
| "frame_of (From_upstream (Inr (Tu_frame b))) = bare_frame ''upstream'' ''frame''"
| "frame_of _ = JNull"

definition frame_text :: "json \<Rightarrow> string" where
  "frame_text f = (case get_str f ''text'' of Some t \<Rightarrow> t | None \<Rightarrow> [])"

text \<open>What the other side of the bridge is to receive, and the length of what a message holds.\<close>

fun relay_up :: "ws_event \<Rightarrow> tung_message option" where
  "relay_up (From_client (Inr (Ax_text t))) = Some (Tu_text t)"
| "relay_up (From_client (Inr (Ax_binary b))) = Some (Tu_binary b)"
| "relay_up (From_client (Inr (Ax_ping b))) = Some (Tu_ping b)"
| "relay_up (From_client (Inr (Ax_pong b))) = Some (Tu_pong b)"
| "relay_up (From_client (Inr (Ax_close b))) = Some (Tu_close None)"
| "relay_up _ = None"

fun relay_down :: "ws_event \<Rightarrow> axum_message option" where
  "relay_down (From_upstream (Inr (Tu_text t))) = Some (Ax_text t)"
| "relay_down (From_upstream (Inr (Tu_binary b))) = Some (Ax_binary b)"
| "relay_down (From_upstream (Inr (Tu_ping b))) = Some (Ax_ping b)"
| "relay_down (From_upstream (Inr (Tu_pong b))) = Some (Ax_pong b)"
| "relay_down (From_upstream (Inr (Tu_close b))) = Some (Ax_close None)"
| "relay_down _ = None"

fun size_up :: "ws_event \<Rightarrow> nat" where
  "size_up (From_client (Inr (Ax_text t))) = length t"
| "size_up (From_client (Inr (Ax_binary b))) = length b"
| "size_up (From_client (Inr (Ax_ping b))) = length b"
| "size_up (From_client (Inr (Ax_pong b))) = length b"
| "size_up _ = 0"

fun size_down :: "ws_event \<Rightarrow> nat" where
  "size_down (From_upstream (Inr (Tu_text t))) = length t"
| "size_down (From_upstream (Inr (Tu_binary b))) = length b"
| "size_down (From_upstream (Inr (Tu_ping b))) = length b"
| "size_down (From_upstream (Inr (Tu_pong b))) = length b"
| "size_down _ = 0"

fun of_client :: "ws_event \<Rightarrow> bool" where
  "of_client (From_client m) = True"
| "of_client _ = False"

fun of_upstream :: "ws_event \<Rightarrow> bool" where
  "of_upstream (From_upstream m) = True"
| "of_upstream _ = False"

lemma conversions:
  "axum_to_tungstenite m = relay_up (From_client (Inr m))" "ws_message_size m = size_up (From_client (Inr m))"
  "tungstenite_to_axum n = relay_down (From_upstream (Inr n))" "tungstenite_message_size n = size_down (From_upstream (Inr n))"
  by (cases m; cases n; simp)+

text \<open>What the bridge promises, told from the events alone: the messages let through, whether each
  direction is still sending its last one, and the error that ends the bridge. A message is let
  through when its direction has sent the one before it, it is within the message limit and the
  direction stays within the session limit.\<close>

definition admit ::
  "ws_limits \<Rightarrow> string \<Rightarrow> nat \<Rightarrow> nat \<Rightarrow> ws_error option" where
  "admit L direction earlier n =
    (if wl_message L < n then Some (Message_exceeds direction (wl_message L))
     else if wl_session L < earlier + n then Some (Session_exceeds direction (wl_session L)) else None)"

fun expected_step :: "ws_limits \<Rightarrow> ws_event \<Rightarrow> ws_event list \<times> bool \<times> bool \<Rightarrow> ws_error + ws_event list \<times> bool \<times> bool" where
  "expected_step L (From_client (Inl e)) (past, up, down) = (if up then Inr (past, up, down) else Inl (Receive_failed e))"
| "expected_step L (From_client (Inr m)) (past, up, down) =
    (if up then Inr (past, up, down)
     else case admit L ''client'' (sum_list (map size_up past)) (size_up (From_client (Inr m))) of
       Some e \<Rightarrow> Inl e | None \<Rightarrow> Inr (past @ [From_client (Inr m)], True, down))"
| "expected_step L (From_upstream (Inl e)) (past, up, down) = (if down then Inr (past, up, down) else Inl (Receive_failed e))"
| "expected_step L (From_upstream (Inr m)) (past, up, down) =
    (if down then Inr (past, up, down)
     else case admit L ''upstream'' (sum_list (map size_down past)) (size_down (From_upstream (Inr m))) of
       Some e \<Rightarrow> Inl e | None \<Rightarrow> Inr (past @ [From_upstream (Inr m)], up, relay_down (From_upstream (Inr m)) \<noteq> None))"
| "expected_step L (Sent_up (Some e)) (past, up, down) = (if up then Inl (Send_error e) else Inr (past, up, down))"
| "expected_step L (Sent_up None) (past, up, down) = Inr (past, False, down)"
| "expected_step L (Sent_down (Some e)) (past, up, down) = (if down then Inl (Send_error e) else Inr (past, up, down))"
| "expected_step L (Sent_down None) (past, up, down) = Inr (past, up, False)"
| "expected_step L Closed (past, up, down) = Inr (past, up, down)"

fun expected_run ::
  "ws_limits \<Rightarrow> ws_event list \<Rightarrow> ws_event list \<times> bool \<times> bool \<Rightarrow> (ws_event list \<times> bool \<times> bool) \<times> ws_error option" where
  "expected_run L [] v = (v, None)"
| "expected_run L (e # evs) v =
    (if e = Closed then (v, None)
     else case expected_step L e v of Inl err \<Rightarrow> (v, Some err) | Inr v' \<Rightarrow> expected_run L evs v')"

lemma frame_text_simps [simp]:
  "frame_text (text_frame d t b) = t" "frame_text (sized_frame d k n) = []" "frame_text (bare_frame d k) = []"
  by (auto simp: frame_text_def text_frame_def sized_frame_def bare_frame_def get_str_def bt_collect_def
      less_char_def Let_def)

definition frames_ok :: "ws_limits \<Rightarrow> ws_event list \<Rightarrow> ws_stats \<Rightarrow> bool" where
  "frames_ok L past s \<longleftrightarrow>
    length (ws_frames s) \<le> MAX_WEBSOCKET_CAPTURED_FRAMES \<and>
    ws_captured_text_bytes s = sum_list (map (length \<circ> frame_text) (ws_frames s)) \<and>
    ws_captured_text_bytes s \<le> wl_capture L \<and>
    (wl_capturing L \<and> \<not> ws_frames_truncated s \<longrightarrow> ws_frames s = map frame_of past)"

lemma frames_ok_push:
  assumes "frames_ok L past s" "length (ws_frames s) < MAX_WEBSOCKET_CAPTURED_FRAMES"
    "frame_text f = []" "frame_of e = f"
  shows "frames_ok L (past @ [e]) (push_frame f s)"
  using assms by (auto simp: frames_ok_def push_frame_def)

lemma frames_ok_lost: "frames_ok L past s \<Longrightarrow> frames_ok L (past @ [e]) (s\<lparr>ws_frames_truncated := True\<rparr>)"
  by (auto simp: frames_ok_def)

lemma frames_ok_text:
  assumes ok: "frames_ok L past s" and few: "length (ws_frames s) < MAX_WEBSOCKET_CAPTURED_FRAMES"
    and cap: "wl_capture L \<le> u64_max" and e: "frame_of e = text_frame d t False"
  shows "frames_ok L (past @ [e]) (capture_text_ws_frame d t (wl_capture L) s)"
proof (cases "wl_capture L - ws_captured_text_bytes s = 0 \<and> t \<noteq> []")
  case True
  with frames_ok_lost [OF ok] show ?thesis by (simp add: capture_text_ws_frame_def saturating_sub_def Let_def)
next
  case False
  let ?c = "utf8_prefix (wl_capture L - ws_captured_text_bytes s) t"
  have captured: "ws_captured_text_bytes s \<le> wl_capture L" using ok unfolding frames_ok_def by blast
  have "length ?c \<le> wl_capture L - ws_captured_text_bytes s" by (rule wsp.trunc_bound)
  then have le: "ws_captured_text_bytes s + length ?c \<le> wl_capture L" using captured by linarith
  then have sat: "saturating_add (ws_captured_text_bytes s) (length ?c) = ws_captured_text_bytes s + length ?c"
    using cap by (intro saturating_add_exact) simp
  have full: "?c = t" if "\<not> length ?c < length t"
    using that wsp.trunc_prefix by (metis not_equal_is_parallel parallelD1 prefix_length_less linorder_neqE_nat prefix_order.le_less)
  have eq: "capture_text_ws_frame d t (wl_capture L) s = push_frame (text_frame d ?c (length ?c < length t))
      (s\<lparr>ws_captured_text_bytes := ws_captured_text_bytes s + length ?c,
         ws_frames_truncated := ws_frames_truncated s \<or> length ?c < length t\<rparr>)"
    using False sat by (auto simp: capture_text_ws_frame_def saturating_sub_def Let_def)
  show ?thesis unfolding eq using ok few le full e
    by (auto simp: frames_ok_def push_frame_def)
qed

lemma capture_ws_ok:
  assumes "frames_ok L past s" "wl_capture L \<le> u64_max"
  shows "frames_ok L (past @ [From_client (Inr m)]) (capture_ws_message ''client'' m (wl_capture L) s)"
  using assms frames_ok_lost [OF assms(1)] frames_ok_text [OF assms(1) _ assms(2)]
  by (cases m) (auto simp: capture_ws_message_def intro!: frames_ok_push)

lemma capture_tung_ok:
  assumes "frames_ok L past s" "wl_capture L \<le> u64_max"
  shows "frames_ok L (past @ [From_upstream (Inr m)]) (capture_tungstenite_message ''upstream'' m (wl_capture L) s)"
  using assms frames_ok_lost [OF assms(1)] frames_ok_text [OF assms(1) _ assms(2)]
  by (cases m) (auto simp: capture_tungstenite_message_def intro!: frames_ok_push)

definition ws_inv :: "ws_limits \<Rightarrow> ws_event list \<Rightarrow> ws_stats \<Rightarrow> bool" where
  "ws_inv L past s \<longleftrightarrow>
    frames_ok L past s \<and>
    ws_client_frames s = int (length (filter of_client past)) \<and>
    ws_upstream_frames s = int (length (filter of_upstream past)) \<and>
    ws_bytes_in s = int (sum_list (map size_up past)) \<and> ws_bytes_in s \<le> int (wl_session L) \<and>
    ws_bytes_out s = int (sum_list (map size_down past)) \<and> ws_bytes_out s \<le> int (wl_session L) \<and>
    (\<forall>e\<in>set past. size_up e \<le> wl_message L \<and> size_down e \<le> wl_message L)"

text \<open>What has been sent, together with the message in flight, is what was let
  through.\<close>

definition in_flight :: "'a option \<Rightarrow> 'a list" where
  "in_flight x = (case x of None \<Rightarrow> [] | Some m \<Rightarrow> [m])"

definition relay_ok :: "ws_event list \<Rightarrow> ws_bridge \<Rightarrow> bool" where
  "relay_ok past b \<longleftrightarrow>
    wb_to_upstream b @ in_flight (wb_pending_up b) = List.map_filter relay_up past \<and>
    wb_to_client b @ in_flight (wb_pending_down b) = List.map_filter relay_down past"

definition bridge_ok :: "ws_limits \<Rightarrow> ws_event list \<times> bool \<times> bool \<Rightarrow> ws_bridge \<Rightarrow> bool" where
  "bridge_ok L v b \<longleftrightarrow> (case v of (past, up, down) \<Rightarrow>
    ws_inv L past (wb_stats b) \<and> relay_ok past b \<and> up = (wb_pending_up b \<noteq> None) \<and> down = (wb_pending_down b \<noteq> None))"

lemma bridge_okI [intro]:
  "ws_inv L past (wb_stats b) \<Longrightarrow> relay_ok past b \<Longrightarrow> up = (wb_pending_up b \<noteq> None) \<Longrightarrow>
    down = (wb_pending_down b \<noteq> None) \<Longrightarrow> bridge_ok L (past, up, down) b"
  by (simp add: bridge_ok_def)

lemma map_filter_snoc [simp]:
  "List.map_filter f (xs @ [x]) = List.map_filter f xs @ in_flight (f x)"
  by (simp add: List.map_filter_def in_flight_def split: option.splits)

lemma add_ws_bytes_admit:
  assumes "int (wl_session L) < i64_max" "current = int earlier"
  shows "add_ws_bytes d current n (wl_message L) (wl_session L) =
    (case admit L d earlier n of Some e \<Rightarrow> Inl e | None \<Rightarrow> Inr (current + int n))"
  using assms
  by (auto simp: add_ws_bytes_def admit_def i64_saturating_add_def clamp_i64_def i64_max_def i64_min_def Let_def)

lemma admit_None: "admit L d earlier n = None \<longleftrightarrow> n \<le> wl_message L \<and> earlier + n \<le> wl_session L"
  by (auto simp: admit_def)

lemma capture_ws_counters [simp]:
  "ws_client_frames (capture_ws_message d m l s) = ws_client_frames s"
  "ws_upstream_frames (capture_ws_message d m l s) = ws_upstream_frames s"
  "ws_bytes_in (capture_ws_message d m l s) = ws_bytes_in s"
  "ws_bytes_out (capture_ws_message d m l s) = ws_bytes_out s"
  "ws_client_frames (capture_tungstenite_message d n l s) = ws_client_frames s"
  "ws_upstream_frames (capture_tungstenite_message d n l s) = ws_upstream_frames s"
  "ws_bytes_in (capture_tungstenite_message d n l s) = ws_bytes_in s"
  "ws_bytes_out (capture_tungstenite_message d n l s) = ws_bytes_out s"
  by (simp_all add: capture_ws_message_def capture_tungstenite_message_def capture_text_ws_frame_def
      push_frame_def Let_def split: axum_message.splits tung_message.splits)

lemma frames_ok_counters:
  "frames_ok L past (s\<lparr>ws_bytes_in := x, ws_client_frames := y\<rparr>) = frames_ok L past s"
  "frames_ok L past (s\<lparr>ws_bytes_out := x, ws_upstream_frames := y\<rparr>) = frames_ok L past s"
  by (simp_all add: frames_ok_def)

lemma frames_ok_off: "frames_ok L past s \<Longrightarrow> \<not> wl_capturing L \<Longrightarrow> frames_ok L past' s"
  by (simp add: frames_ok_def)

text \<open>Each half of an iteration does what is expected of it: on an error the bridge stays as it is.\<close>

definition as_expected :: "ws_limits \<Rightarrow> ws_error + ws_event list \<times> bool \<times> bool \<Rightarrow> ws_bridge \<Rightarrow> ws_bridge \<times> ws_error option \<Rightarrow> bool" where
  "as_expected L expected b result \<longleftrightarrow>
    (case expected of Inl e \<Rightarrow> result = (b, Some e) | Inr v \<Rightarrow> snd result = None \<and> bridge_ok L v (fst result))"

lemma as_expected_simps [simp]:
  "as_expected L (Inl e) b result \<longleftrightarrow> result = (b, Some e)"
  "as_expected L (Inr v) b (b', err) \<longleftrightarrow> err = None \<and> bridge_ok L v b'"
  by (auto simp: as_expected_def)

lemma client_step:
  assumes ok: "bridge_ok L (past, up, down) b" and lim: "int (wl_session L) < i64_max" "wl_capture L \<le> u64_max"
    and idle: "\<not> up"
  shows "as_expected L (expected_step L (From_client m) (past, up, down)) b (client_to_upstream L m b)"
proof (cases m)
  case (Inl e) with idle show ?thesis by (simp add: client_to_upstream_def)
next
  case (Inr msg)
  let ?s = "wb_stats b" and ?e = "From_client (Inr msg)"
  have inv: "ws_inv L past ?s" and bytes: "ws_bytes_in ?s = int (sum_list (map size_up past))" and fr: "frames_ok L past ?s"
    using ok by (simp_all add: bridge_ok_def ws_inv_def)
  note added = add_ws_bytes_admit [OF lim(1) bytes, of "''client''" "size_up ?e"]
  show ?thesis
  proof (cases "admit L ''client'' (sum_list (map size_up past)) (size_up ?e)")
    case (Some e) with idle Inr added show ?thesis by (simp add: client_to_upstream_def conversions Let_def)
  next
    case None
    let ?s1 = "?s\<lparr>ws_bytes_in := ws_bytes_in ?s + int (size_up ?e), ws_client_frames := ws_client_frames ?s + 1\<rparr>"
    let ?s2 = "if wl_capturing L then capture_ws_message ''client'' msg (wl_capture L) ?s1 else ?s1"
    let ?b = "b\<lparr>wb_stats := ?s2, wb_pending_up := relay_up ?e\<rparr>"
    have n: "size_up ?e \<le> wl_message L" "sum_list (map size_up past) + size_up ?e \<le> wl_session L"
      using None by (simp_all add: admit_None)
    have "frames_ok L past ?s1" using fr by (simp only: frames_ok_counters)
    then have "frames_ok L (past @ [?e]) ?s2"
      using capture_ws_ok [of L past ?s1 msg] lim(2) frames_ok_off [of L past ?s1] by simp
    then have "ws_inv L (past @ [?e]) ?s2" using inv n by (auto simp: ws_inv_def)
    moreover have "relay_ok (past @ [?e]) ?b"
      using ok idle by (auto simp: bridge_ok_def relay_ok_def in_flight_def split: option.splits)
    moreover have "relay_up ?e \<noteq> None" by (cases msg) simp_all
    ultimately have "bridge_ok L (past @ [?e], True, down) ?b" using ok by (auto simp: bridge_ok_def)
    with idle Inr None added show ?thesis by (simp add: client_to_upstream_def conversions Let_def)
  qed
qed

lemma upstream_step:
  assumes ok: "bridge_ok L (past, up, down) b" and lim: "int (wl_session L) < i64_max" "wl_capture L \<le> u64_max"
    and idle: "\<not> down"
  shows "as_expected L (expected_step L (From_upstream m) (past, up, down)) b (upstream_to_client L m b)"
proof (cases m)
  case (Inl e) with idle show ?thesis by (simp add: upstream_to_client_def)
next
  case (Inr msg)
  let ?s = "wb_stats b" and ?e = "From_upstream (Inr msg)"
  have inv: "ws_inv L past ?s" and bytes: "ws_bytes_out ?s = int (sum_list (map size_down past))" and fr: "frames_ok L past ?s"
    using ok by (simp_all add: bridge_ok_def ws_inv_def)
  note added = add_ws_bytes_admit [OF lim(1) bytes, of "''upstream''" "size_down ?e"]
  show ?thesis
  proof (cases "admit L ''upstream'' (sum_list (map size_down past)) (size_down ?e)")
    case (Some e) with idle Inr added show ?thesis by (simp add: upstream_to_client_def conversions Let_def)
  next
    case None
    let ?s1 = "?s\<lparr>ws_bytes_out := ws_bytes_out ?s + int (size_down ?e), ws_upstream_frames := ws_upstream_frames ?s + 1\<rparr>"
    let ?s2 = "if wl_capturing L then capture_tungstenite_message ''upstream'' msg (wl_capture L) ?s1 else ?s1"
    let ?b = "b\<lparr>wb_stats := ?s2, wb_pending_down := relay_down ?e\<rparr>"
    have n: "size_down ?e \<le> wl_message L" "sum_list (map size_down past) + size_down ?e \<le> wl_session L"
      using None by (simp_all add: admit_None)
    have "frames_ok L past ?s1" using fr by (simp only: frames_ok_counters)
    then have "frames_ok L (past @ [?e]) ?s2"
      using capture_tung_ok [of L past ?s1 msg] lim(2) frames_ok_off [of L past ?s1] by simp
    then have "ws_inv L (past @ [?e]) ?s2" using inv n by (auto simp: ws_inv_def)
    moreover have "relay_ok (past @ [?e]) ?b"
      using ok idle by (auto simp: bridge_ok_def relay_ok_def in_flight_def split: option.splits)
    ultimately have "bridge_ok L (past @ [?e], up, relay_down ?e \<noteq> None) ?b" using ok by (simp add: bridge_ok_def)
    with idle Inr None added show ?thesis by (simp add: upstream_to_client_def conversions Let_def)
  qed
qed

lemma sent_step:
  assumes "bridge_ok L v b"
  shows "as_expected L (expected_step L (Sent_up x) v) b (sent_upstream x b)"
    and "as_expected L (expected_step L (Sent_down x) v) b (sent_client x b)"
  using assms
  by (cases v; cases x; auto simp: bridge_ok_def relay_ok_def sent_upstream_def sent_client_def in_flight_def split: option.splits)+

lemma bridge_step_ok:
  assumes ok: "bridge_ok L v b" and lim: "int (wl_session L) < i64_max" "wl_capture L \<le> u64_max"
  shows "as_expected L (expected_step L e v) b (bridge_step L e b)"
proof -
  obtain past up down where v: "v = (past, up, down)" by (cases v)
  have busy: "up = (wb_pending_up b \<noteq> None)" "down = (wb_pending_down b \<noteq> None)" using ok v by (simp_all add: bridge_ok_def)
  show ?thesis
  proof (cases e)
    case (From_client m)
    then show ?thesis using client_step [OF ok [unfolded v] lim, of m] ok busy v
      by (cases "wb_pending_up b"; cases m) (simp_all del: as_expected_simps, simp_all)
  next
    case (From_upstream m)
    then show ?thesis using upstream_step [OF ok [unfolded v] lim, of m] ok busy v
      by (cases "wb_pending_down b"; cases m) (simp_all del: as_expected_simps, simp_all)
  qed (use ok sent_step [OF ok] v in simp_all)
qed

lemma bridge_run_ok:
  assumes "bridge_ok L v b" "int (wl_session L) < i64_max" "wl_capture L \<le> u64_max"
  shows "snd (bridge_run L evs b) = snd (expected_run L evs v) \<and>
    bridge_ok L (fst (expected_run L evs v)) (fst (bridge_run L evs b))"
  using assms(1)
proof (induction evs arbitrary: v b)
  case (Cons e evs)
  show ?case
  proof (cases "e = Closed")
    case False
    note step = bridge_step_ok [OF Cons.prems assms(2,3), of e]
    obtain b1 er where st: "bridge_step L e b = (b1, er)" by (cases "bridge_step L e b")
    show ?thesis
    proof (cases "expected_step L e v")
      case (Inl x)
      with step st False Cons.prems show ?thesis by simp
    next
      case (Inr v1)
      with step st have "er = None" "bridge_ok L v1 b1" by simp_all
      with Inr st False Cons.IH [of v1 b1] show ?thesis by simp
    qed
  qed (use Cons.prems in simp)
qed simp

text \<open>C13: The websocket bridge does, for every interleaving of the two directions, what is
  expected from the events alone. It lets a message through exactly when its direction has sent
  the one before it and the message is within the message limit and the session limit of the
  direction, and it ends with the first receive, send or limit error or when a side closes. The
  frame counts and byte counts of each direction are those of the messages let through. At most
  200 frames and at most the capture limit of text are kept, and a capture that is not marked
  truncated is the complete transcript. Each side has been sent, in order and unchanged, every
  message let through in its direction but the last while its send is under way; the reasons of
  close messages are dropped, and raw frames of the upstream are counted and not passed on.\<close>

theorem websocket_bridge_bounded:
  assumes "int (wl_session L) < i64_max" "wl_capture L \<le> u64_max"
    "bridge_run L evs bridge_new = (b, err)" "expected_run L evs ([], False, False) = ((past, up, down), expected_err)"
  shows "err = expected_err \<and> (let s = wb_stats b in
    ws_client_frames s = int (length (filter of_client past)) \<and>
    ws_upstream_frames s = int (length (filter of_upstream past)) \<and>
    ws_bytes_in s = int (sum_list (map size_up past)) \<and> ws_bytes_in s \<le> int (wl_session L) \<and>
    ws_bytes_out s = int (sum_list (map size_down past)) \<and> ws_bytes_out s \<le> int (wl_session L) \<and>
    (\<forall>e\<in>set past. size_up e \<le> wl_message L \<and> size_down e \<le> wl_message L) \<and>
    length (ws_frames s) \<le> 200 \<and>
    sum_list (map (length \<circ> frame_text) (ws_frames s)) \<le> wl_capture L \<and>
    (wl_capturing L \<and> \<not> ws_frames_truncated s \<longrightarrow> ws_frames s = map frame_of past) \<and>
    wb_to_upstream b @ in_flight (wb_pending_up b) = List.map_filter relay_up past \<and>
    up = (wb_pending_up b \<noteq> None) \<and>
    wb_to_client b @ in_flight (wb_pending_down b) = List.map_filter relay_down past \<and>
    down = (wb_pending_down b \<noteq> None))"
proof -
  have "bridge_ok L ([], False, False) bridge_new"
    by (simp add: bridge_ok_def ws_inv_def frames_ok_def bridge_new_def ws_stats_default_def relay_ok_def
        List.map_filter_def in_flight_def)
  from bridge_run_ok [OF this assms(1,2), of evs] assms(3,4)
  have "err = expected_err" "bridge_ok L (past, up, down) b" by simp_all
  then show ?thesis
    by (simp add: bridge_ok_def ws_inv_def frames_ok_def relay_ok_def Let_def MAX_WEBSOCKET_CAPTURED_FRAMES_def)
qed

definition demo_limits :: ws_limits where
  "demo_limits = \<lparr>wl_message = 5, wl_session = 6, wl_capture = 4, wl_capturing = True\<rparr>"

theorem websocket_bridge_bounded_witness:
  "\<exists>b. bridge_run demo_limits [From_client (Inr (Ax_text ''abc'')), Sent_up None,
        From_upstream (Inr (Tu_text ''xy'')), Closed] bridge_new = (b, None) \<and>
    wb_to_upstream b = [Tu_text ''abc''] \<and> wb_to_client b = [] \<and> ws_frames_truncated (wb_stats b) \<and>
    ws_client_frames (wb_stats b) = 1 \<and> ws_upstream_frames (wb_stats b) = 1 \<and>
    sum_list (map (length \<circ> frame_text) (ws_frames (wb_stats b))) \<le> 4"
proof -
  let ?evs = "[From_client (Inr (Ax_text ''abc'')), Sent_up None, From_upstream (Inr (Tu_text ''xy'')), Closed]"
  obtain b err where r: "bridge_run demo_limits ?evs bridge_new = (b, err)" by (cases "bridge_run demo_limits ?evs bridge_new")
  have "err = None \<and> wb_to_upstream b = [Tu_text ''abc''] \<and> wb_to_client b = [] \<and>
      ws_frames_truncated (wb_stats b)"
    using r by (simp add: demo_limits_def bridge_new_def ws_stats_default_def client_to_upstream_def
        upstream_to_client_def sent_upstream_def add_ws_bytes_def i64_saturating_add_def clamp_i64_def
        i64_max_def i64_min_def capture_ws_message_def capture_tungstenite_message_def
        capture_text_ws_frame_def MAX_WEBSOCKET_CAPTURED_FRAMES_def push_frame_def utf8_prefix_def
        saturating_sub_def saturating_add_def u64_max_def boundary_floor.simps is_char_boundary_def
        is_continuation_def byte_def Let_def) auto
  moreover have "int (wl_session demo_limits) < i64_max" "wl_capture demo_limits \<le> u64_max"
    "wl_capture demo_limits = 4"
    by (simp_all add: demo_limits_def i64_max_def u64_max_def)
  moreover have "expected_run demo_limits ?evs ([], False, False) =
      (([From_client (Inr (Ax_text ''abc'')), From_upstream (Inr (Tu_text ''xy''))], False, True), None)"
    by (simp add: demo_limits_def admit_def)
  moreover note websocket_bridge_bounded [OF calculation(2,3) r calculation(5)]
  ultimately show ?thesis using r unfolding Let_def by (intro exI [of _ b]) simp
qed

end
