(* ===== verification/LT_Response.thy ===== *)
theory LT_Response
  imports LT_Event "HOL-Library.Product_Lexorder"
begin

text \<open>
  \<open>parsers/response.rs\<close>: what is extracted from a response body, which is one JSON
  value or a stream of server-sent events. The JSON parser and printer and the
  decoder of event streams are external, the fields of \<open>json_lib\<close>: the decoder
  gives, for each event before the end or the first error, its data and the
  number of bytes consumed so far.
\<close>

record json_lib =
  jl_parse :: "bytes \<Rightarrow> json option"
  jl_print :: "json \<Rightarrow> string"
  jl_print_tool :: "tool_call \<Rightarrow> string"
  sse_decode :: "bytes \<Rightarrow> (string option \<times> nat) list"

section \<open>State\<close>

record response_details =
  rd_usage :: token_usage
  rd_usage_complete :: bool
  rd_tool_calls :: "tool_call list"
  rd_tool_calls_truncated :: bool
  rd_error :: "string option"
  rd_model :: "string option"
  rd_text :: string
  rd_first_output_offset :: "nat option"
  rd_stream_complete :: "bool option"

definition token_usage_default :: token_usage where
  "token_usage_default =
    \<lparr>input_tokens = None, output_tokens = None, cached_input_tokens = None,
     cache_creation_input_tokens = None\<rparr>"

definition response_details_default :: response_details where
  "response_details_default =
    \<lparr>rd_usage = token_usage_default, rd_usage_complete = False, rd_tool_calls = [],
     rd_tool_calls_truncated = False, rd_error = None, rd_model = None, rd_text = [],
     rd_first_output_offset = None, rd_stream_complete = None\<rparr>"

record response_parser =
  rp_kind :: request_kind
  rp_details :: response_details
  rp_tools :: "(string \<times> tool_call) list"
  rp_texts :: "((int \<times> int) \<times> string) list"
  rp_terminal :: bool
  rp_final_usage_seen :: bool

definition response_parser_new :: "request_kind \<Rightarrow> response_parser" where
  "response_parser_new kind =
    \<lparr>rp_kind = kind, rp_details = response_details_default, rp_tools = [], rp_texts = [],
     rp_terminal = False, rp_final_usage_seen = False\<rparr>"

definition MAX_TOOLS :: nat where
  "MAX_TOOLS = 128"

definition MAX_TOOL_TEXT_BYTES :: nat where
  "MAX_TOOL_TEXT_BYTES = 16384"

section \<open>Helpers\<close>

definition nonnegative :: "json \<Rightarrow> int option" where
  "nonnegative v = (case as_i64 v of Some i \<Rightarrow> if i \<ge> 0 then Some i else None | None \<Rightarrow> None)"

definition count :: "json \<Rightarrow> string \<Rightarrow> int option" where
  "count v key = Option.bind (json_get v key) nonnegative"

definition or_else :: "'a option \<Rightarrow> 'a option \<Rightarrow> 'a option" where
  "or_else a b = (case a of Some x \<Rightarrow> Some x | None \<Rightarrow> b)"

definition append_bounded :: "string \<Rightarrow> string \<Rightarrow> string \<times> bool" where
  "append_bounded target val =
    (let end' = boundary_floor val (min (length val) (MAX_TOOL_TEXT_BYTES - length target))
     in (target @ take end' val, end' < length val))"

definition bounded :: "string \<Rightarrow> string \<times> bool" where
  "bounded val = append_bounded [] val"

definition note_truncated :: "bool \<Rightarrow> response_parser \<Rightarrow> response_parser" where
  "note_truncated t p =
    p\<lparr>rp_details := (rp_details p)\<lparr>rd_tool_calls_truncated := rd_tool_calls_truncated (rp_details p) \<or> t\<rparr>\<rparr>"

section \<open>The parser\<close>

definition observe_usage :: "json \<Rightarrow> token_usage \<Rightarrow> token_usage" where
  "observe_usage usage tokens =
    tokens\<lparr>
      input_tokens := or_else (or_else (count usage ''input_tokens'') (count usage ''prompt_tokens''))
        (input_tokens tokens),
      output_tokens := or_else (or_else (count usage ''output_tokens'') (count usage ''completion_tokens''))
        (output_tokens tokens),
      cached_input_tokens :=
        or_else (or_else (count usage ''cache_read_input_tokens'')
          (or_else
            (Option.bind (json_pointer usage [''input_tokens_details'', ''cached_tokens'']) nonnegative)
            (Option.bind (json_pointer usage [''prompt_tokens_details'', ''cached_tokens'']) nonnegative)))
        (cached_input_tokens tokens),
      cache_creation_input_tokens := or_else (count usage ''cache_creation_input_tokens'')
        (cache_creation_input_tokens tokens)\<rparr>"

definition observe_error :: "json_lib \<Rightarrow> json \<Rightarrow> string option \<Rightarrow> string option" where
  "observe_error J v err =
    (let err = (case json_get v ''error'' of
           Some e \<Rightarrow>
             if is_null e then err
             else Some (fst (bounded (case or_else (get_str e ''message'') (get_str e ''type'') of
                    Some m \<Rightarrow> m | None \<Rightarrow> ''upstream reported an error'')))
         | None \<Rightarrow> err)
     in if get_str v ''status'' \<in> {Some ''failed'', Some ''incomplete'', Some ''cancelled''}
        then or_else err (Some (''upstream response '' @ jl_print J (json_index v ''status'')))
        else err)"

definition observe :: "json_lib \<Rightarrow> json \<Rightarrow> response_parser \<Rightarrow> response_parser" where
  "observe J v p =
    (let d = rp_details p;
         d = d\<lparr>rd_model := or_else (get_str v ''model'') (rd_model d)\<rparr>;
         d = d\<lparr>rd_error := observe_error J v (rd_error d)\<rparr>;
         d = (case json_get v ''usage'' of
                Some usage \<Rightarrow>
                  if is_object usage then d\<lparr>rd_usage := observe_usage usage (rd_usage d)\<rparr> else d
              | None \<Rightarrow> d)
     in p\<lparr>rp_details := d\<rparr>)"

text \<open>The three updates of one tool call: identifier, name and arguments.\<close>

definition set_text :: "bool \<Rightarrow> string \<Rightarrow> string \<Rightarrow> string \<times> bool" where
  "set_text appending old new = (if appending then append_bounded old new else bounded new)"

definition tool_id :: "json \<Rightarrow> tool_call \<Rightarrow> tool_call \<times> bool" where
  "tool_id v t =
    (case Option.bind (or_else (json_get v ''call_id'') (json_get v ''id'')) as_str of
       Some i \<Rightarrow> (case bounded i of (x, tr) \<Rightarrow> (t\<lparr>tc_id := x\<rparr>, tr))
     | None \<Rightarrow> (t, False))"

definition tool_name :: "bool \<Rightarrow> json \<Rightarrow> tool_call \<Rightarrow> tool_call \<times> bool" where
  "tool_name appending function t =
    (case get_str function ''name'' of
       Some n \<Rightarrow> (case set_text appending (tc_name t) n of (x, tr) \<Rightarrow> (t\<lparr>tc_name := x\<rparr>, tr))
     | None \<Rightarrow> (t, False))"

definition tool_arguments :: "json_lib \<Rightarrow> bool \<Rightarrow> json \<Rightarrow> json \<Rightarrow> tool_call \<Rightarrow> tool_call \<times> bool" where
  "tool_arguments J appending function v t =
    (case get_str function ''arguments'' of
       Some a \<Rightarrow> (case set_text appending (tc_arguments t) a of (x, tr) \<Rightarrow> (t\<lparr>tc_arguments := x\<rparr>, tr))
     | None \<Rightarrow>
        (case json_get v ''input'' of
           Some input \<Rightarrow>
             if input \<noteq> JObject []
             then (case bounded (jl_print J input) of (x, tr) \<Rightarrow> (t\<lparr>tc_arguments := x\<rparr>, tr))
             else (t, False)
         | None \<Rightarrow> (t, False)))"

definition tool_call_default :: tool_call where
  "tool_call_default = \<lparr>tc_id = [], tc_name = [], tc_arguments = []\<rparr>"

definition tool :: "json_lib \<Rightarrow> string \<Rightarrow> json \<Rightarrow> bool \<Rightarrow> response_parser \<Rightarrow> response_parser" where
  "tool J key v appending p =
    (if map_of (rp_tools p) key = None \<and> length (rp_tools p) \<ge> MAX_TOOLS
     then p\<lparr>rp_details := (rp_details p)\<lparr>rd_tool_calls_truncated := True\<rparr>\<rparr>
     else let t0 = (case map_of (rp_tools p) key of Some t \<Rightarrow> t | None \<Rightarrow> tool_call_default);
              function = (case json_get v ''function'' of Some f \<Rightarrow> f | None \<Rightarrow> v)
          in (case tool_id v t0 of (t1, c1) \<Rightarrow>
              case tool_name appending function t1 of (t2, c2) \<Rightarrow>
              case tool_arguments J appending function v t2 of (t3, c3) \<Rightarrow>
              note_truncated (c1 \<or> c2 \<or> c3) (p\<lparr>rp_tools := bt_insert key t3 (rp_tools p)\<rparr>)))"

definition chat_key :: "int \<Rightarrow> int \<Rightarrow> string" where
  "chat_key choice_index index = ''chat:'' @ show_int choice_index @ '':'' @ show_int index"

definition response_key :: "int \<Rightarrow> string" where
  "response_key index = ''response:'' @ show_int index"

definition anthropic_key :: "int \<Rightarrow> string" where
  "anthropic_key index = ''anthropic:'' @ show_int index"

definition collect_choice_tools :: "json_lib \<Rightarrow> nat \<times> json \<Rightarrow> response_parser \<Rightarrow> response_parser" where
  "collect_choice_tools J ic p =
    (case Option.bind (json_pointer (snd ic) [''message'', ''tool_calls'']) as_array of
       Some tools \<Rightarrow>
         fold (\<lambda>(index, t). tool J (chat_key (int (fst ic)) (int index)) t False) (enumerate 0 tools) p
     | None \<Rightarrow> p)"

definition is_tool_use :: "json \<Rightarrow> bool" where
  "is_tool_use v \<longleftrightarrow> as_str (json_index v ''type'') \<in> {Some ''tool_use'', Some ''server_tool_use''}"

definition collect_tools :: "json_lib \<Rightarrow> json \<Rightarrow> response_parser \<Rightarrow> response_parser" where
  "collect_tools J v p =
    (let p = (case Option.bind (json_get v ''choices'') as_array of
           Some choices \<Rightarrow> fold (collect_choice_tools J) (enumerate 0 choices) p
         | None \<Rightarrow> p);
         p = (case Option.bind (json_get v ''output'') as_array of
           Some items \<Rightarrow>
             fold (\<lambda>(index, item) p.
               if json_index item ''type'' = JString ''function_call''
               then tool J (response_key (int index)) item False p else p) (enumerate 0 items) p
         | None \<Rightarrow> p)
     in case Option.bind (json_get v ''content'') as_array of
          Some items \<Rightarrow>
            fold (\<lambda>(index, item) p.
              if is_tool_use item then tool J (anthropic_key (int index)) item False p else p)
              (enumerate 0 items) p
        | None \<Rightarrow> p)"

definition text_delta :: "int \<times> int \<Rightarrow> string option \<Rightarrow> response_parser \<Rightarrow> bool \<times> response_parser" where
  "text_delta key txt p =
    (case txt of
       Some t \<Rightarrow>
         if t \<noteq> []
         then (True, p\<lparr>rp_texts := bt_insert key
                 ((case map_of (rp_texts p) key of Some old \<Rightarrow> old | None \<Rightarrow> []) @ t) (rp_texts p)\<rparr>)
         else (False, p)
     | None \<Rightarrow> (False, p))"

definition nonempty_str :: "json \<Rightarrow> bool" where
  "nonempty_str v \<longleftrightarrow> (case as_str v of Some t \<Rightarrow> t \<noteq> [] | None \<Rightarrow> False)"

definition index_or_zero :: "json \<Rightarrow> string \<Rightarrow> int" where
  "index_or_zero v k = (case as_i64 (json_index v k) of Some i \<Rightarrow> i | None \<Rightarrow> 0)"

definition str_or_empty :: "json \<Rightarrow> string" where
  "str_or_empty v = (case as_str v of Some s \<Rightarrow> s | None \<Rightarrow> [])"

section \<open>Assistant text of a complete response (parsers.rs)\<close>

definition assistant :: "string \<Rightarrow> parsed_message" where
  "assistant txt = \<lparr>pm_content_truncated = False, pm_role = ''assistant'', pm_content = txt\<rparr>"

definition has_tool_item :: "json list \<Rightarrow> bool" where
  "has_tool_item items \<longleftrightarrow>
    list_ex (\<lambda>item. get_str item ''type'' \<in> {Some ''tool_use'', Some ''tool_result''}) items"

definition item_text :: "json \<Rightarrow> string option" where
  "item_text item = Option.bind (or_else (json_get item ''text'') (json_get item ''content'')) as_str"

fun stringify_value :: "json_lib \<Rightarrow> json \<Rightarrow> string option" where
  "stringify_value J JNull = None"
| "stringify_value J (JString txt) = Some txt"
| "stringify_value J (JArray items) =
    (if has_tool_item items then Some (jl_print J (JArray items))
     else let parts = List.map_filter item_text items
          in if parts = [] then Some (jl_print J (JArray items)) else Some (concat parts))"
| "stringify_value J other = Some (jl_print J other)"

definition stringify_content :: "json_lib \<Rightarrow> json option \<Rightarrow> string option" where
  "stringify_content J v = Option.bind v (stringify_value J)"

definition output_part_text :: "json \<Rightarrow> string option" where
  "output_part_text part =
    (case get_str part ''type'' of
       Some k \<Rightarrow> if k \<noteq> ''output_text'' \<and> k \<noteq> ''text'' then None else get_str part ''text''
     | None \<Rightarrow> get_str part ''text'')"

definition collect_response_messages :: "json_lib \<Rightarrow> json \<Rightarrow> parsed_message list" where
  "collect_response_messages J v =
    (case stringify_content J (json_pointer v [''choices'', ''0'', ''message'', ''content'']) of
       Some txt \<Rightarrow> [assistant txt]
     | None \<Rightarrow>
     (case get_str v ''output_text'' of
        Some txt \<Rightarrow> [assistant txt]
      | None \<Rightarrow>
      (case Option.bind (json_get v ''output'') as_array of
         Some items \<Rightarrow>
           (let txt = concat (List.map_filter output_part_text
                  (concat (List.map_filter (\<lambda>item. Option.bind (json_get item ''content'') as_array) items)))
            in if txt \<noteq> [] then [assistant txt] else [])
       | None \<Rightarrow>
       (case Option.bind (json_get v ''content'') as_array of
          Some items \<Rightarrow>
            (let txt = concat (List.map_filter (\<lambda>item. get_str item ''text'') items)
             in if txt \<noteq> [] then [assistant txt] else [])
        | None \<Rightarrow> []))))"

section \<open>Events of a stream\<close>

definition final_usage_event :: "string \<Rightarrow> json \<Rightarrow> bool" where
  "final_usage_event event_type v \<longleftrightarrow>
    event_type = ''message_delta'' \<and> count (json_index v ''usage'') ''output_tokens'' \<noteq> None \<or>
    as_array (json_index v ''choices'') \<noteq> None \<and> is_object (json_index v ''usage'')"

definition arguments_json :: "string \<Rightarrow> json" where
  "arguments_json delta = JObject [(''arguments'', JString delta)]"

definition finished_response :: "json_lib \<Rightarrow> json \<Rightarrow> response_parser \<Rightarrow> response_parser" where
  "finished_response J v p =
    (let r = json_index v ''response'';
         p = collect_tools J r (observe J r p);
         p = p\<lparr>rp_terminal := True, rp_final_usage_seen := is_object (json_index r ''usage'')\<rparr>
     in if rp_texts p = []
        then p\<lparr>rp_texts := bt_insert (0, 0) (concat (map pm_content (collect_response_messages J r)))
                 (rp_texts p)\<rparr>
        else p)"

text \<open>The match on the event type: whether the event carries generated output, and
  the new state.\<close>

definition typed_event :: "json_lib \<Rightarrow> string \<Rightarrow> json \<Rightarrow> response_parser \<Rightarrow> bool \<times> response_parser" where
  "typed_event J event_type v p =
    (let output_index = index_or_zero v ''output_index'';
         content_index = index_or_zero v ''content_index'';
         index = index_or_zero v ''index''
     in if event_type = ''message_start'' then (False, observe J (json_index v ''message'') p)
        else if event_type = ''message_stop'' then (False, p\<lparr>rp_terminal := True\<rparr>)
        else if event_type \<in> {''response.completed'', ''response.failed'', ''response.incomplete''}
        then (False, finished_response J v p)
        else if event_type = ''response.created'' then (False, observe J (json_index v ''response'') p)
        else if event_type = ''response.output_text.delta''
        then text_delta (output_index, content_index) (as_str (json_index v ''delta'')) p
        else if event_type = ''response.output_text.done''
        then (False, if map_of (rp_texts p) (output_index, content_index) = None
                     then p\<lparr>rp_texts := bt_insert (output_index, content_index)
                            (str_or_empty (json_index v ''text'')) (rp_texts p)\<rparr>
                     else p)
        else if event_type = ''response.output_item.added'' \<or> event_type = ''response.output_item.done''
        then (False, if json_index (json_index v ''item'') ''type'' = JString ''function_call''
                     then tool J (response_key output_index) (json_index v ''item'') False p else p)
        else if event_type = ''response.function_call_arguments.delta''
        then (let delta = str_or_empty (json_index v ''delta'')
              in (delta \<noteq> [], tool J (response_key output_index) (arguments_json delta) True p))
        else if event_type = ''content_block_start''
        then (let block = json_index v ''content_block''
              in if is_tool_use block then (False, tool J (anthropic_key index) block False p)
                 else text_delta (index, 0) (as_str (json_index block ''text'')) p)
        else if event_type = ''content_block_delta''
        then (let delta = json_index v ''delta''
              in case text_delta (index, 0) (as_str (json_index delta ''text'')) p of
                   (g1, p) \<Rightarrow>
                     (case as_str (json_index delta ''partial_json'') of
                        Some arguments \<Rightarrow>
                          (g1 \<or> arguments \<noteq> [] \<or> nonempty_str (json_index delta ''thinking''),
                           tool J (anthropic_key index) (arguments_json arguments) True p)
                      | None \<Rightarrow> (g1 \<or> nonempty_str (json_index delta ''thinking''), p)))
        else (False, p))"

definition choice_tool_event :: "json_lib \<Rightarrow> int \<Rightarrow> json \<Rightarrow> bool \<times> response_parser \<Rightarrow> bool \<times> response_parser" where
  "choice_tool_event J choice_index t gp =
    (fst gp \<or> (case json_pointer t [''function'', ''arguments''] of Some a \<Rightarrow> nonempty_str a | None \<Rightarrow> False),
     tool J (chat_key choice_index (index_or_zero t ''index'')) t True (snd gp))"

definition choice_event :: "json_lib \<Rightarrow> json \<Rightarrow> bool \<times> response_parser \<Rightarrow> bool \<times> response_parser" where
  "choice_event J choice gp =
    (let choice_index = index_or_zero choice ''index'';
         delta = json_index choice ''delta'';
         (g, p) = gp;
         (g, p) = (if choice_index = 0
                   then (case text_delta (0, 0) (as_str (json_index delta ''content'')) p of
                           (g', p') \<Rightarrow> (g \<or> g', p'))
                   else (g, p));
         g = (g \<or> nonempty_str (json_index delta ''refusal''))
     in case as_array (json_index delta ''tool_calls'') of
          Some tools \<Rightarrow> fold (choice_tool_event J choice_index) tools (g, p)
        | None \<Rightarrow> (g, p))"

definition event :: "json_lib \<Rightarrow> json \<Rightarrow> nat \<Rightarrow> response_parser \<Rightarrow> response_parser" where
  "event J v offset p =
    (let p = observe J v p;
         event_type = str_or_empty (json_index v ''type'');
         p = (if final_usage_event event_type v then p\<lparr>rp_final_usage_seen := True\<rparr> else p);
         gp = typed_event J event_type v p;
         gp = (case Option.bind (json_get v ''choices'') as_array of
                 Some choices \<Rightarrow> fold (choice_event J) choices gp
               | None \<Rightarrow> gp);
         (generated, p) = gp
     in if generated \<and> rd_first_output_offset (rp_details p) = None
        then p\<lparr>rp_details := (rp_details p)\<lparr>rd_first_output_offset := Some offset\<rparr>\<rparr>
        else p)"

definition i64_checked_add :: "int \<Rightarrow> int \<Rightarrow> int option" where
  "i64_checked_add a b = (if i64_min \<le> a + b \<and> a + b \<le> i64_max then Some (a + b) else None)"

definition value_or_zero :: "int option \<Rightarrow> int" where
  "value_or_zero x = (case x of Some i \<Rightarrow> i | None \<Rightarrow> 0)"

definition finish_parser :: "response_parser \<Rightarrow> response_details" where
  "finish_parser p =
    (let d = rp_details p;
         usage = rd_usage d;
         usage = (if rp_kind p = AnthropicMessages
                  then usage\<lparr>input_tokens :=
                    Option.bind (input_tokens usage) (\<lambda>i.
                    Option.bind (i64_checked_add i (value_or_zero (cached_input_tokens usage))) (\<lambda>j.
                    i64_checked_add j (value_or_zero (cache_creation_input_tokens usage))))\<rparr>
                  else usage)
     in d\<lparr>rd_usage := usage,
          rd_usage_complete := rp_terminal p \<and> rp_final_usage_seen p \<and>
            input_tokens usage \<noteq> None \<and> output_tokens usage \<noteq> None,
          rd_tool_calls := map snd (rp_tools p),
          rd_text := concat (map snd (rp_texts p))\<rparr>)"

definition stream_event :: "json_lib \<Rightarrow> string option \<times> nat \<Rightarrow> response_parser \<Rightarrow> response_parser" where
  "stream_event J e p =
    (case fst e of
       None \<Rightarrow> p
     | Some dat \<Rightarrow>
         if dat = ''[DONE]'' then p\<lparr>rp_terminal := True\<rparr>
         else case jl_parse J dat of Some v \<Rightarrow> event J v (snd e) p | None \<Rightarrow> p)"

definition response_details_parse ::
  "json_lib \<Rightarrow> bytes \<Rightarrow> json option \<Rightarrow> request_kind \<Rightarrow> response_details" where
  "response_details_parse J body json kind =
    (let p = response_parser_new kind
     in case json of
          Some v \<Rightarrow>
            finish_parser ((collect_tools J v (observe J v p))\<lparr>rp_terminal := True, rp_final_usage_seen := True\<rparr>)
        | None \<Rightarrow>
            (let p = fold (stream_event J) (sse_decode J body) p
             in finish_parser (p\<lparr>rp_details := (rp_details p)\<lparr>rd_stream_complete := Some (rp_terminal p)\<rparr>\<rparr>)))"

section \<open>Bounds\<close>

definition tool_fits :: "tool_call \<Rightarrow> bool" where
  "tool_fits t \<longleftrightarrow> length (tc_id t) \<le> MAX_TOOL_TEXT_BYTES \<and> length (tc_name t) \<le> MAX_TOOL_TEXT_BYTES \<and>
    length (tc_arguments t) \<le> MAX_TOOL_TEXT_BYTES"

definition nonneg_option :: "int option \<Rightarrow> bool" where
  "nonneg_option x \<longleftrightarrow> (case x of None \<Rightarrow> True | Some i \<Rightarrow> 0 \<le> i)"

definition usage_nonneg :: "token_usage \<Rightarrow> bool" where
  "usage_nonneg u \<longleftrightarrow> nonneg_option (input_tokens u) \<and> nonneg_option (output_tokens u) \<and>
    nonneg_option (cached_input_tokens u) \<and> nonneg_option (cache_creation_input_tokens u)"

definition parser_ok :: "response_parser \<Rightarrow> bool" where
  "parser_ok p \<longleftrightarrow> bt_wf (rp_tools p) \<and> length (rp_tools p) \<le> MAX_TOOLS \<and> (\<forall>kt\<in>set (rp_tools p). tool_fits (snd kt)) \<and>
    usage_nonneg (rd_usage (rp_details p))"

lemma append_bounded_fits:
  "length target \<le> MAX_TOOL_TEXT_BYTES \<Longrightarrow> length (fst (append_bounded target val)) \<le> MAX_TOOL_TEXT_BYTES"
  using boundary_floor_le [of val "min (length val) (MAX_TOOL_TEXT_BYTES - length target)"]
  by (auto simp: append_bounded_def Let_def)

lemma bounded_fits: "length (fst (bounded val)) \<le> MAX_TOOL_TEXT_BYTES"
  unfolding bounded_def by (rule append_bounded_fits) simp

lemma set_text_fits:
  "length old \<le> MAX_TOOL_TEXT_BYTES \<Longrightarrow> length (fst (set_text a old new)) \<le> MAX_TOOL_TEXT_BYTES"
  by (simp add: set_text_def append_bounded_fits bounded_fits)

lemma tool_id_fits: "tool_fits t \<Longrightarrow> tool_fits (fst (tool_id v t))"
  by (simp add: tool_id_def tool_fits_def case_prod_unfold bounded_fits split: option.split)

lemma tool_name_fits: "tool_fits t \<Longrightarrow> tool_fits (fst (tool_name a f t))"
  by (simp add: tool_name_def tool_fits_def case_prod_unfold set_text_fits split: option.split)

lemma tool_arguments_fits: "tool_fits t \<Longrightarrow> tool_fits (fst (tool_arguments J a f v t))"
  by (simp add: tool_arguments_def tool_fits_def case_prod_unfold set_text_fits bounded_fits split: option.split)

lemma tool_call_default_fits: "tool_fits tool_call_default"
  by (simp add: tool_fits_def tool_call_default_def)

lemma tool_parser_ok: "parser_ok p \<Longrightarrow> parser_ok (tool J key v a p)"
proof -
  assume ok: "parser_ok p"
  show ?thesis
  proof (cases "map_of (rp_tools p) key = None \<and> length (rp_tools p) \<ge> MAX_TOOLS")
    case True with ok show ?thesis by (simp add: tool_def parser_ok_def)
  next
    case False
    let ?t0 = "case map_of (rp_tools p) key of Some t \<Rightarrow> t | None \<Rightarrow> tool_call_default"
    have t0: "tool_fits ?t0"
      using ok by (auto simp: parser_ok_def tool_call_default_fits split: option.split dest!: map_of_SomeD)
    let ?f = "case json_get v ''function'' of Some f \<Rightarrow> f | None \<Rightarrow> v"
    let ?t = "fst (tool_arguments J a ?f v (fst (tool_name a ?f (fst (tool_id v ?t0)))))"
    have t: "tool_fits ?t" by (intro tool_arguments_fits tool_name_fits tool_id_fits t0)
    have "length (bt_insert key ?t (rp_tools p)) \<le> MAX_TOOLS"
      using bt_insert_length [of "rp_tools p" key ?t] False ok
      by (auto simp: parser_ok_def map_of_eq_None_iff split: if_splits)
    moreover have "set (bt_insert key ?t (rp_tools p)) \<subseteq> insert (key, ?t) (set (rp_tools p))"
      by (rule bt_insert_subset)
    moreover have "rp_tools (tool J key v a p) = bt_insert key ?t (rp_tools p)"
      "rd_usage (rp_details (tool J key v a p)) = rd_usage (rp_details p)"
      unfolding tool_def if_not_P [OF False] by (simp_all add: case_prod_unfold Let_def note_truncated_def)
    ultimately show ?thesis using ok t unfolding parser_ok_def by (auto intro: bt_insert_wf)
  qed
qed

lemma fold_parser_ok:
  "(\<And>x p. parser_ok p \<Longrightarrow> parser_ok (f x p)) \<Longrightarrow> parser_ok p \<Longrightarrow> parser_ok (fold f xs p)"
  by (induction xs arbitrary: p) auto

lemma nonneg_or_else: "nonneg_option a \<Longrightarrow> nonneg_option b \<Longrightarrow> nonneg_option (or_else a b)"
  by (cases a) (simp_all add: or_else_def)

lemma nonneg_nonnegative: "nonneg_option (Option.bind x nonnegative)" "nonneg_option (count v k)"
  by (auto simp: nonneg_option_def nonnegative_def count_def split: option.split bind_split)

lemma observe_usage_nonneg: "usage_nonneg u \<Longrightarrow> usage_nonneg (observe_usage v u)"
  by (simp add: usage_nonneg_def observe_usage_def nonneg_or_else nonneg_nonnegative del: json_pointer.simps)

lemma observe_parser_ok: "parser_ok p \<Longrightarrow> parser_ok (observe J v p)"
  by (auto simp: parser_ok_def observe_def Let_def observe_usage_nonneg split: option.split)

lemma collect_tools_parser_ok: "parser_ok p \<Longrightarrow> parser_ok (collect_tools J v p)"
  by (auto simp: collect_tools_def Let_def collect_choice_tools_def tool_parser_ok
      split: option.split intro!: fold_parser_ok)

lemma text_delta_parser_ok: "parser_ok p \<Longrightarrow> parser_ok (snd (text_delta k t p))"
  by (simp add: text_delta_def parser_ok_def split: option.split)

lemma parser_ok_if:
  "(b \<Longrightarrow> parser_ok (snd x)) \<Longrightarrow> (\<not> b \<Longrightarrow> parser_ok (snd y)) \<Longrightarrow> parser_ok (snd (if b then x else y))"
  by simp

lemma parser_ok_frame [simp]:
  "parser_ok (p\<lparr>rp_terminal := b\<rparr>) = parser_ok p" "parser_ok (p\<lparr>rp_texts := ts\<rparr>) = parser_ok p"
  "parser_ok (p\<lparr>rp_final_usage_seen := b\<rparr>) = parser_ok p"
  "parser_ok (p\<lparr>rp_details := (rp_details p)\<lparr>rd_first_output_offset := off\<rparr>\<rparr>) = parser_ok p"
  "parser_ok (p\<lparr>rp_details := (rp_details p)\<lparr>rd_stream_complete := c\<rparr>\<rparr>) = parser_ok p"
  by (simp_all add: parser_ok_def)

lemmas parser_ok_steps = observe_parser_ok collect_tools_parser_ok text_delta_parser_ok tool_parser_ok

lemma finished_response_parser_ok: "parser_ok p \<Longrightarrow> parser_ok (finished_response J v p)"
  by (simp add: finished_response_def Let_def parser_ok_steps)

lemma typed_event_parser_ok: "parser_ok p \<Longrightarrow> parser_ok (snd (typed_event J et v p))"
  unfolding typed_event_def Let_def
  by (intro parser_ok_if) (simp_all add: parser_ok_steps finished_response_parser_ok case_prod_unfold
      split: option.split)

lemma fold_snd_parser_ok:
  "(\<And>x gp. parser_ok (snd gp) \<Longrightarrow> parser_ok (snd (f x gp))) \<Longrightarrow> parser_ok (snd gp) \<Longrightarrow>
    parser_ok (snd (fold f xs gp))"
  by (induction xs arbitrary: gp) auto

lemma choice_event_parser_ok: "parser_ok (snd gp) \<Longrightarrow> parser_ok (snd (choice_event J c gp))"
  by (auto simp: choice_event_def choice_tool_event_def Let_def case_prod_unfold parser_ok_steps
      split: option.split intro!: fold_snd_parser_ok)

lemma event_parser_ok: "parser_ok p \<Longrightarrow> parser_ok (event J v n p)"
proof -
  assume ok: "parser_ok p"
  let ?et = "str_or_empty (json_index v ''type'')"
  let ?p = "if final_usage_event ?et v then (observe J v p)\<lparr>rp_final_usage_seen := True\<rparr> else observe J v p"
  let ?gp = "case Option.bind (json_get v ''choices'') as_array of
      Some choices \<Rightarrow> fold (choice_event J) choices (typed_event J ?et v ?p) | None \<Rightarrow> typed_event J ?et v ?p"
  have "parser_ok ?p" using ok by (simp add: parser_ok_steps)
  then have "parser_ok (snd ?gp)"
    by (auto intro!: typed_event_parser_ok fold_snd_parser_ok choice_event_parser_ok split: option.split)
  then show ?thesis by (simp add: event_def Let_def case_prod_unfold)
qed

lemma stream_event_parser_ok: "parser_ok p \<Longrightarrow> parser_ok (stream_event J e p)"
  by (simp add: stream_event_def event_parser_ok split: option.split)

lemma response_parser_new_ok: "parser_ok (response_parser_new kind)"
  by (simp add: parser_ok_def response_parser_new_def response_details_default_def token_usage_default_def
      usage_nonneg_def nonneg_option_def)

definition details_ok :: "response_details \<Rightarrow> bool" where
  "details_ok d \<longleftrightarrow> length (rd_tool_calls d) \<le> MAX_TOOLS \<and> list_all tool_fits (rd_tool_calls d) \<and>
    usage_nonneg (rd_usage d) \<and>
    (rd_usage_complete d \<longrightarrow> input_tokens (rd_usage d) \<noteq> None \<and> output_tokens (rd_usage d) \<noteq> None)"

lemma finish_parser_ok: "parser_ok p \<Longrightarrow> details_ok (finish_parser p)"
  by (auto simp: details_ok_def finish_parser_def Let_def parser_ok_def list_all_iff usage_nonneg_def
      nonneg_option_def i64_checked_add_def value_or_zero_def split: option.splits bind_splits if_splits)

text \<open>C17: whatever an upstream answers, JSON or event stream, what is extracted stays
  within bounds: at most 128 tool calls with fields of at most 16 KiB, no negative
  token count even after the cached tokens are added under overflow checks, and a
  usage reported as complete has both its input and its output count.
\<close>

theorem response_details_bounded:
  "details_ok (response_details_parse J body json kind)"
proof (cases json)
  case None
  have "parser_ok (fold (stream_event J) (sse_decode J body) (response_parser_new kind))"
    by (intro fold_parser_ok stream_event_parser_ok response_parser_new_ok)
  with None show ?thesis by (simp add: response_details_parse_def Let_def finish_parser_ok)
next
  case (Some v)
  then show ?thesis
    by (simp add: response_details_parse_def Let_def finish_parser_ok parser_ok_steps response_parser_new_ok)
qed

section \<open>Assembling a chat stream\<close>

text \<open>The reference: the text and the presence of output in one chat event, read off
  its choices.\<close>

definition stream_types :: "string set" where
  "stream_types = {''message_start'', ''message_stop'', ''response.completed'', ''response.failed'',
    ''response.incomplete'', ''response.created'', ''response.output_text.delta'',
    ''response.output_text.done'', ''response.output_item.added'', ''response.output_item.done'',
    ''response.function_call_arguments.delta'', ''content_block_start'', ''content_block_delta''}"

definition choices_of :: "json \<Rightarrow> json list" where
  "choices_of v = (case Option.bind (json_get v ''choices'') as_array of Some cs \<Rightarrow> cs | None \<Rightarrow> [])"

definition choice_text :: "json \<Rightarrow> string" where
  "choice_text c =
    (if index_or_zero c ''index'' = 0 then str_or_empty (json_index (json_index c ''delta'') ''content'') else [])"

definition choice_output :: "json \<Rightarrow> bool" where
  "choice_output c \<longleftrightarrow> choice_text c \<noteq> [] \<or> nonempty_str (json_index (json_index c ''delta'') ''refusal'') \<or>
    list_ex (\<lambda>t. case json_pointer t [''function'', ''arguments''] of Some a \<Rightarrow> nonempty_str a | None \<Rightarrow> False)
      (case as_array (json_index (json_index c ''delta'') ''tool_calls'') of Some ts \<Rightarrow> ts | None \<Rightarrow> [])"

definition chat_value :: "json_lib \<Rightarrow> string option \<times> nat \<Rightarrow> json option" where
  "chat_value J e =
    (case fst e of None \<Rightarrow> None | Some dat \<Rightarrow> if dat = ''[DONE]'' then None else jl_parse J dat)"

definition chat_text :: "json_lib \<Rightarrow> string option \<times> nat \<Rightarrow> string" where
  "chat_text J e = (case chat_value J e of None \<Rightarrow> [] | Some v \<Rightarrow> concat (map choice_text (choices_of v)))"

definition chat_output :: "json_lib \<Rightarrow> string option \<times> nat \<Rightarrow> bool" where
  "chat_output J e \<longleftrightarrow> (case chat_value J e of None \<Rightarrow> False | Some v \<Rightarrow> list_ex choice_output (choices_of v))"

definition chat_stream :: "json_lib \<Rightarrow> (string option \<times> nat) list \<Rightarrow> bool" where
  "chat_stream J es \<longleftrightarrow>
    list_all (\<lambda>e. case chat_value J e of None \<Rightarrow> True
      | Some v \<Rightarrow> str_or_empty (json_index v ''type'') \<notin> stream_types) es"

text \<open>The part of the parser state these events change.\<close>

definition progress :: "response_parser \<Rightarrow> ((int \<times> int) \<times> string) list \<times> bool \<times> nat option" where
  "progress p = (rp_texts p, rp_terminal p, rd_first_output_offset (rp_details p))"

lemma tool_progress [simp]: "progress (tool J k v a p) = progress p"
  by (simp add: tool_def progress_def Let_def note_truncated_def case_prod_unfold)

lemma observe_progress [simp]: "progress (observe J v p) = progress p"
  by (simp add: observe_def progress_def Let_def split: option.split)

definition texts_of :: "string \<Rightarrow> ((int \<times> int) \<times> string) list" where
  "texts_of t = (if t = [] then [] else [((0, 0), t)])"

lemma text_delta_chat:
  assumes "progress p = (texts_of t, trm, off)"
  shows "progress (snd (text_delta (0, 0) (Some s) p)) = (texts_of (t @ s), trm, off)"
    "fst (text_delta (0, 0) (Some s) p) \<longleftrightarrow> s \<noteq> []"
    "text_delta (0, 0) None p = (False, p)"
  using assms by (auto simp: text_delta_def progress_def texts_of_def)

lemma choice_tools_chat:
  "progress (snd (fold (choice_tool_event J i) ts gp)) = progress (snd gp) \<and>
   (fst (fold (choice_tool_event J i) ts gp) \<longleftrightarrow> fst gp \<or>
     list_ex (\<lambda>t. case json_pointer t [''function'', ''arguments''] of Some a \<Rightarrow> nonempty_str a | None \<Rightarrow> False) ts)"
  by (induction ts arbitrary: gp) (auto simp: choice_tool_event_def)

lemma choice_event_chat:
  assumes "progress (snd gp) = (texts_of t, trm, off)"
  shows "progress (snd (choice_event J c gp)) = (texts_of (t @ choice_text c), trm, off) \<and>
    (fst (choice_event J c gp) \<longleftrightarrow> fst gp \<or> choice_output c)"
proof -
  let ?delta = "json_index c ''delta''" and ?i = "index_or_zero c ''index''"
  let ?td = "text_delta (0, 0) (as_str (json_index ?delta ''content'')) (snd gp)"
  let ?gp = "if ?i = 0 then (fst gp \<or> fst ?td, snd ?td) else gp"
  let ?gp' = "(fst ?gp \<or> nonempty_str (json_index ?delta ''refusal''), snd ?gp)"
  let ?tools = "case as_array (json_index ?delta ''tool_calls'') of Some ts \<Rightarrow> ts | None \<Rightarrow> []"
  have eq: "choice_event J c gp = fold (choice_tool_event J ?i) ?tools ?gp'"
    by (simp add: choice_event_def Let_def case_prod_unfold split: option.split)
  have "progress (snd ?gp) = (texts_of (t @ choice_text c), trm, off) \<and> (fst ?gp \<longleftrightarrow> fst gp \<or> choice_text c \<noteq> [])"
    using assms text_delta_chat [OF assms]
    by (cases "as_str (json_index ?delta ''content'')") (simp_all add: choice_text_def str_or_empty_def)
  then show ?thesis
    unfolding eq using choice_tools_chat [of J ?i ?tools ?gp'] by (auto simp: choice_output_def)
qed

lemma choices_chat:
  assumes "progress (snd gp) = (texts_of t, trm, off)"
  shows "progress (snd (fold (choice_event J) cs gp)) = (texts_of (t @ concat (map choice_text cs)), trm, off) \<and>
    (fst (fold (choice_event J) cs gp) \<longleftrightarrow> fst gp \<or> list_ex choice_output cs)"
  using assms
proof (induction cs arbitrary: gp t)
  case (Cons c cs)
  from choice_event_chat [OF Cons.prems, of J c] Cons.IH [of "choice_event J c gp" "t @ choice_text c"]
  show ?case by auto
qed simp

lemma typed_event_chat: "et \<notin> stream_types \<Longrightarrow> typed_event J et v p = (False, p)"
  by (simp add: typed_event_def stream_types_def Let_def)

lemma event_chat:
  assumes "progress p = (texts_of t, trm, off)" "str_or_empty (json_index v ''type'') \<notin> stream_types"
  shows "progress (event J v n p) = (texts_of (t @ concat (map choice_text (choices_of v))), trm,
    or_else off (if list_ex choice_output (choices_of v) then Some n else None))"
proof -
  let ?et = "str_or_empty (json_index v ''type'')"
  let ?p = "if final_usage_event ?et v then (observe J v p)\<lparr>rp_final_usage_seen := True\<rparr> else observe J v p"
  let ?gp = "fold (choice_event J) (choices_of v) (False, ?p)"
  have "progress ?p = progress p"
    using observe_progress [of J v p] by (simp add: progress_def)
  with choices_chat [of "(False, ?p)" t trm off J "choices_of v"] assms(1)
  have g: "progress (snd ?gp) = (texts_of (t @ concat (map choice_text (choices_of v))), trm, off)"
    "fst ?gp \<longleftrightarrow> list_ex choice_output (choices_of v)" by simp_all
  have "event J v n p = (if fst ?gp \<and> rd_first_output_offset (rp_details (snd ?gp)) = None
      then (snd ?gp)\<lparr>rp_details := (rp_details (snd ?gp))\<lparr>rd_first_output_offset := Some n\<rparr>\<rparr> else snd ?gp)"
    by (simp add: event_def Let_def case_prod_unfold typed_event_chat [OF assms(2)] choices_of_def split: option.split)
  with g show ?thesis by (cases off) (auto simp: progress_def or_else_def)
qed

lemma stream_chat:
  assumes "chat_stream J es" "progress p = (texts_of t, trm, off)"
  shows "progress (fold (stream_event J) es p) = (texts_of (t @ concat (map (chat_text J) es)),
    trm \<or> Some ''[DONE]'' \<in> fst ` set es, or_else off (map_option snd (find (chat_output J) es)))"
  using assms
proof (induction es arbitrary: p t trm off)
  case Nil then show ?case by (cases off) (simp_all add: or_else_def)
next
  case (Cons e es)
  let ?t = "t @ chat_text J e" and ?trm = "trm \<or> fst e = Some ''[DONE]''"
  let ?off = "or_else off (if chat_output J e then Some (snd e) else None)"
  have "progress (stream_event J e p) = (texts_of ?t, ?trm, ?off)"
  proof (cases "chat_value J e")
    case None
    then have "progress (stream_event J e p) = (texts_of t, ?trm, off)"
      using Cons.prems(2) by (auto simp: chat_value_def stream_event_def progress_def split: option.splits if_splits)
    with None show ?thesis by (cases off) (simp_all add: chat_text_def chat_output_def or_else_def)
  next
    case (Some v)
    then obtain dat where d: "fst e = Some dat" "dat \<noteq> ''[DONE]''" "jl_parse J dat = Some v"
      by (auto simp: chat_value_def split: option.splits if_splits)
    from Cons.prems(1) Some have "str_or_empty (json_index v ''type'') \<notin> stream_types"
      by (simp add: chat_stream_def)
    from event_chat [OF Cons.prems(2) this, of J "snd e"] d Some show ?thesis
      by (simp add: stream_event_def chat_text_def chat_output_def)
  qed
  from Cons.IH [OF _ this] Cons.prems(1) show ?case
    by (cases off) (auto simp: chat_stream_def or_else_def)
qed

text \<open>C18: a streamed chat completion is assembled as if it had been sent at once. For
  every sequence of chat events the recorded text is the concatenation, in order, of
  the content deltas of choice 0, the stream counts as complete exactly when the
  \<open>[DONE]\<close> marker arrived, and the first output is located at the first event that
  carries text, a refusal or tool arguments: role and usage events are not output.
\<close>

theorem chat_stream_assembled:
  assumes "chat_stream J (sse_decode J body)"
  shows "rd_text (response_details_parse J body None kind) = concat (map (chat_text J) (sse_decode J body)) \<and>
    rd_stream_complete (response_details_parse J body None kind) =
      Some (Some ''[DONE]'' \<in> fst ` set (sse_decode J body)) \<and>
    rd_first_output_offset (response_details_parse J body None kind) =
      map_option snd (find (chat_output J) (sse_decode J body))"
proof -
  have "progress (response_parser_new kind) = (texts_of [], False, None)"
    by (simp add: progress_def response_parser_new_def texts_of_def response_details_default_def)
  from stream_chat [OF assms this] show ?thesis
    by (auto simp: response_details_parse_def Let_def finish_parser_def progress_def texts_of_def or_else_def)
qed

definition demo_delta :: "string \<Rightarrow> json" where
  "demo_delta s = JObject [(''choices'', JArray [JObject [(''delta'', JObject [(''content'', JString s)])]])]"

definition demo_sse :: json_lib where
  "demo_sse =
    \<lparr>jl_parse = (\<lambda>b. if b = ''1'' then Some (demo_delta []) else if b = ''2'' then Some (demo_delta ''he'')
                    else if b = ''3'' then Some (demo_delta ''llo'') else None),
     jl_print = (\<lambda>_. []), jl_print_tool = tc_name,
     sse_decode = (\<lambda>_. [(Some ''1'', 9), (Some ''2'', 20), (None, 25), (Some ''3'', 40), (Some ''[DONE]'', 50)])\<rparr>"

theorem chat_stream_assembled_witness:
  "rd_text (response_details_parse demo_sse [] None OpenAiChatCompletions) = ''hello'' \<and>
    rd_stream_complete (response_details_parse demo_sse [] None OpenAiChatCompletions) = Some True \<and>
    rd_first_output_offset (response_details_parse demo_sse [] None OpenAiChatCompletions) = Some 20"
proof -
  note eval = demo_sse_def chat_value_def chat_text_def chat_output_def choices_of_def choice_text_def
    choice_output_def demo_delta_def str_or_empty_def index_or_zero_def json_index_def nonempty_str_def
  have "chat_stream demo_sse (sse_decode demo_sse [])"
    by (simp add: chat_stream_def eval stream_types_def)
  from chat_stream_assembled [OF this, of OpenAiChatCompletions] show ?thesis by (simp add: eval)
qed

end
