(* ===== verification/LT_Parsers.thy ===== *)
theory LT_Parsers
  imports LT_Response
begin

text \<open>
  \<open>parsers.rs\<close>: classification of a request and extraction of its messages, model and
  session hint, together with what \<open>parsers/response.rs\<close> extracts from the response.
\<close>

record parsed_trace =
  pt_request_kind :: request_kind
  pt_model :: "string option"
  pt_messages :: "parsed_message list"
  pt_session_key_hint :: "string option"
  pt_response :: response_details

definition message :: "string \<Rightarrow> string \<Rightarrow> parsed_message" where
  "message role txt = \<lparr>pm_content_truncated = False, pm_role = role, pm_content = txt\<rparr>"

definition classify :: "string \<Rightarrow> json option \<Rightarrow> request_kind" where
  "classify uri request_json =
    (let path = hd (split_on CHR ''?'' uri)
     in if ends_with path ''/chat/completions'' then OpenAiChatCompletions
        else if ends_with path ''/responses'' then OpenAiResponses
        else if ends_with path ''/messages'' \<and>
            Option.bind request_json (\<lambda>v. json_get v ''max_tokens'') \<noteq> None
        then AnthropicMessages
        else if request_json \<noteq> None then GenericJson
        else GenericHttp)"

definition role_of :: "json \<Rightarrow> string" where
  "role_of item = (case get_str item ''role'' of Some r \<Rightarrow> r | None \<Rightarrow> ''user'')"

definition item_messages :: "json_lib \<Rightarrow> json \<Rightarrow> parsed_message list" where
  "item_messages J item =
    (case stringify_content J (json_get item ''content'') of
       Some txt \<Rightarrow> [message (role_of item) txt] | None \<Rightarrow> []) @
    (case Option.bind (json_get item ''tool_calls'') as_array of
       Some tools \<Rightarrow> map (\<lambda>t. message ''tool_call'' (jl_print J t)) tools | None \<Rightarrow> [])"

definition input_object_messages :: "json_lib \<Rightarrow> json \<Rightarrow> parsed_message list" where
  "input_object_messages J item =
    (if get_str item ''type'' \<in> {Some ''function_call'', Some ''function_call_output''}
     then [message (if json_index item ''type'' = JString ''function_call'' then ''tool_call'' else ''tool'')
            (jl_print J item)]
     else case stringify_content J (json_get item ''content'') of
       Some txt \<Rightarrow> if txt \<noteq> [] then [message (role_of item) txt] else []
     | None \<Rightarrow>
        (case get_str item ''text'' of
           Some txt \<Rightarrow> if txt \<noteq> [] then [message (role_of item) txt] else []
         | None \<Rightarrow> []))"

fun input_item_messages :: "json_lib \<Rightarrow> json \<Rightarrow> parsed_message list" where
  "input_item_messages J (JString txt) = [message ''user'' txt]"
| "input_item_messages J (JObject m) = input_object_messages J (JObject m)"
| "input_item_messages J _ = []"

fun responses_input_messages :: "json_lib \<Rightarrow> json \<Rightarrow> parsed_message list" where
  "responses_input_messages J (JArray items) = concat (map (input_item_messages J) items)"
| "responses_input_messages J (JString s) = input_item_messages J (JString s)"
| "responses_input_messages J (JObject m) = input_item_messages J (JObject m)"
| "responses_input_messages J _ = []"

definition collect_request_messages :: "json_lib \<Rightarrow> request_kind \<Rightarrow> json \<Rightarrow> parsed_message list" where
  "collect_request_messages J kind v =
    (case stringify_content J (or_else (json_get v ''system'') (json_get v ''instructions'')) of
       Some txt \<Rightarrow> [message ''system'' txt] | None \<Rightarrow> []) @
    (case Option.bind (json_get v ''messages'') as_array of
       Some items \<Rightarrow> concat (map (item_messages J) items)
     | None \<Rightarrow>
         if kind = OpenAiResponses
         then (case json_get v ''input'' of Some input \<Rightarrow> responses_input_messages J input | None \<Rightarrow> [])
         else [])"

definition session_hint :: "json \<Rightarrow> string option" where
  "session_hint v =
    Option.bind
      (or_else (json_pointer v [''metadata'', ''session_id''])
      (or_else (json_pointer v [''metadata'', ''conversation_id''])
      (or_else (json_pointer v [''conversation'', ''id''])
        (json_get v ''conversation''))))
      as_str"

definition parse_trace :: "json_lib \<Rightarrow> string \<Rightarrow> bytes \<Rightarrow> bytes \<Rightarrow> parsed_trace" where
  "parse_trace J uri request_body response_body =
    (let request_json = jl_parse J request_body;
         response_json = jl_parse J response_body;
         request_kind = classify uri request_json;
         response = response_details_parse J response_body response_json request_kind;
         model = or_else (rd_model response)
           (or_else (Option.bind request_json (\<lambda>v. get_str v ''model''))
             (Option.bind response_json (\<lambda>v. get_str v ''model'')));
         messages =
           (case request_json of Some v \<Rightarrow> collect_request_messages J request_kind v | None \<Rightarrow> []) @
           (case response_json of
              Some v \<Rightarrow> collect_response_messages J v
            | None \<Rightarrow> if rd_text response \<noteq> [] then [message ''assistant'' (rd_text response)] else []) @
           map (\<lambda>t. message ''tool_call'' (jl_print_tool J t)) (rd_tool_calls response)
     in \<lparr>pt_request_kind = request_kind, pt_model = model, pt_messages = messages,
         pt_session_key_hint = Option.bind request_json session_hint,
         pt_response = response\<rparr>)"

end
