(* ===== verification/LT_Plugins.thy ===== *)
theory LT_Plugins
  imports LT_Event LT_Http
begin

unbundle bit_operations_syntax

text \<open>
  \<open>plugins.rs\<close>: the data exchanged with plugins, how the effects of several plugins
  are merged, and how the packed result of a plugin call is read. Running the
  WebAssembly module is external: a plugin carries the outcome of its call as a
  function of the input.
\<close>

section \<open>Inputs and outputs\<close>

record hook_input =
  hi_hook :: plugin_hook
  hi_trace_id :: string
  hi_method :: string
  hi_uri :: string
  hi_upstream_url :: string
  hi_headers :: json
  hi_body_utf8 :: "string option"

record hook_output =
  ho_custom_fields :: "(string \<times> json) list"
  ho_tags :: "string list"
  ho_session_key :: "string option"
  ho_user_id :: "string option"
  ho_user_name :: "string option"
  ho_warnings :: "string list"

record plugin_effects =
  pe_metadata :: "(string \<times> json) list"
  pe_tags :: "string list"
  pe_session_key :: "string option"
  pe_user_id :: "string option"
  pe_user_name :: "string option"
  pe_warnings :: "string list"

definition plugin_effects_default :: plugin_effects where
  "plugin_effects_default =
    \<lparr>pe_metadata = [], pe_tags = [], pe_session_key = None, pe_user_id = None,
     pe_user_name = None, pe_warnings = []\<rparr>"

definition first_some :: "'a option \<Rightarrow> 'a option \<Rightarrow> 'a option" where
  "first_some a b = (if a = None then b else a)"

definition effects_merge :: "string \<Rightarrow> hook_output \<Rightarrow> plugin_effects \<Rightarrow> plugin_effects" where
  "effects_merge plugin_name out e =
    (let e = (if ho_custom_fields out \<noteq> []
              then e\<lparr>pe_metadata := bt_insert plugin_name (JObject (ho_custom_fields out)) (pe_metadata e)\<rparr>
              else e)
     in e\<lparr>pe_tags := pe_tags e @ ho_tags out,
          pe_warnings := pe_warnings e @ ho_warnings out,
          pe_session_key := first_some (pe_session_key e) (ho_session_key out),
          pe_user_id := first_some (pe_user_id e) (ho_user_id out),
          pe_user_name := first_some (pe_user_name e) (ho_user_name out)\<rparr>)"

section \<open>Running a hook\<close>

record plugin =
  pl_name :: string
  pl_wasm_path :: string
  pl_hooks :: "plugin_hook list"
  pl_invoke :: "hook_input \<Rightarrow> string + hook_output option"

definition run_hook :: "plugin list \<Rightarrow> plugin_hook \<Rightarrow> hook_input \<Rightarrow> plugin_effects" where
  "run_hook plugins hook inp =
    (let inp = inp\<lparr>hi_hook := hook\<rparr>
     in fold (\<lambda>pl e.
          if hook \<notin> set (pl_hooks pl) then e
          else case pl_invoke pl inp of
            Inr (Some out) \<Rightarrow> effects_merge (pl_name pl) out e
          | Inr None \<Rightarrow> e
          | Inl err \<Rightarrow> e\<lparr>pe_warnings := pe_warnings e @
                [pl_name pl @ '' ('' @ pl_wasm_path pl @ ''): '' @ err]\<rparr>)
        plugins plugin_effects_default)"

section \<open>The result of a plugin call\<close>

definition MAX_PLUGIN_OUTPUT_BYTES :: int where
  "MAX_PLUGIN_OUTPUT_BYTES = 65536"

datatype plugin_error =
    Wasm_error string
  | Invalid_output_pointer
  | Invalid_output_length
  | Output_exceeds_limit
  | Memory_out_of_bounds
  | Output_not_json

definition unpack_plugin_output :: "64 word \<Rightarrow> plugin_error + (int \<times> int) option" where
  "unpack_plugin_output packed =
    (let output_ptr = sint (ucast (signed_drop_bit 32 packed) :: 32 word);
         output_len = sint (ucast (packed AND 0xffffffff) :: 32 word)
     in if output_ptr = 0 \<or> output_len = 0 then Inr None
        else if output_ptr < 0 then Inl Invalid_output_pointer
        else if output_len < 0 then Inl Invalid_output_length
        else if output_len > MAX_PLUGIN_OUTPUT_BYTES then Inl Output_exceeds_limit
        else Inr (Some (output_ptr, output_len)))"

text \<open>The outcome of instantiating the module and calling the hook: an error, no such
  export, or the packed value with the memory after the call.\<close>

datatype wasm_outcome = Call_failed string | No_export | Returned "64 word" bytes

definition invoke :: "(bytes \<Rightarrow> hook_output option) \<Rightarrow> wasm_outcome \<Rightarrow> plugin_error + hook_output option" where
  "invoke decode outcome =
    (case outcome of
       Call_failed e \<Rightarrow> Inl (Wasm_error e)
     | No_export \<Rightarrow> Inr None
     | Returned packed mem \<Rightarrow>
         bind_res (unpack_plugin_output packed) (\<lambda>r.
         case r of
           None \<Rightarrow> Inr None
         | Some (output_ptr, output_len) \<Rightarrow>
             if nat output_ptr + nat output_len \<le> length mem
             then (case decode (take (nat output_len) (drop (nat output_ptr) mem)) of
                     Some out \<Rightarrow> Inr (Some out)
                   | None \<Rightarrow> Inl Output_not_json)
             else Inl Memory_out_of_bounds))"

definition EPOCH_TICK_MS :: nat where
  "EPOCH_TICK_MS = 10"

definition epoch_deadline :: "nat \<Rightarrow> nat" where
  "epoch_deadline timeout_ms = max ((timeout_ms + EPOCH_TICK_MS - 1) div EPOCH_TICK_MS) 1"

section \<open>Loading\<close>

record plugin_config =
  pc_name :: string
  pc_wasm_path :: string
  pc_hooks :: "plugin_hook list"
  pc_timeout_ms :: nat
  pc_http_get_urls :: "string list"
  pc_http_auth_header :: "string option"
  pc_http_auth_env :: "string option"

record plugin_status =
  ps_name :: string
  ps_wasm_path :: string
  ps_hooks :: "plugin_hook list"
  ps_loaded :: bool
  ps_error :: "string option"

record loaded_plugin =
  lp_name :: string
  lp_wasm_path :: string
  lp_hooks :: "plugin_hook list"
  lp_epoch_deadline :: nat
  lp_timeout_ms :: nat
  lp_http_get_urls :: "string list"
  lp_http_auth :: "(string \<times> string) option"

text \<open>\<open>module_file\<close> is the outcome of compiling the module, \<open>env\<close> the process
  environment. A configured URL that does not parse fails the whole load.\<close>

definition status_of :: "plugin_config \<Rightarrow> string \<Rightarrow> string option \<Rightarrow> plugin_status" where
  "status_of c name err =
    \<lparr>ps_name = name, ps_wasm_path = pc_wasm_path c, ps_hooks = pc_hooks c,
     ps_loaded = (err = None), ps_error = err\<rparr>"

definition plugin_auth :: "(string \<Rightarrow> string option) \<Rightarrow> plugin_config \<Rightarrow> string + (string \<times> string) option" where
  "plugin_auth env c =
    (case (pc_http_auth_header c, pc_http_auth_env c) of
       (Some header, Some environment) \<Rightarrow>
         (case env environment of
            Some val \<Rightarrow> if trim val \<noteq> [] then Inr (Some (header, val))
                        else Inl (''http_auth_env '' @ environment @ '' is not set or empty'')
          | None \<Rightarrow> Inl (''http_auth_env '' @ environment @ '' is not set or empty''))
     | _ \<Rightarrow> Inr None)"

fun load_plugins ::
  "(string \<Rightarrow> string + unit) \<Rightarrow> (string \<Rightarrow> string option) \<Rightarrow> (string \<Rightarrow> bool) \<Rightarrow> plugin_config list
    \<Rightarrow> (loaded_plugin list \<times> plugin_status list) option" where
  "load_plugins module_file env url_ok [] = Some ([], [])"
| "load_plugins module_file env url_ok (c # cs) =
    (let name = trim (pc_name c);
         skip = (\<lambda>n err. map_option (\<lambda>(ps, ss). (ps, status_of c n (Some err) # ss))
                   (load_plugins module_file env url_ok cs))
     in if name = [] then skip ''<unnamed>'' ''plugin name is empty''
        else case module_file (pc_wasm_path c) of
          Inl err \<Rightarrow> skip name err
        | Inr _ \<Rightarrow>
           (case plugin_auth env c of
              Inl err \<Rightarrow> skip name err
            | Inr auth \<Rightarrow>
                if list_all url_ok (pc_http_get_urls c)
                then map_option (\<lambda>(ps, ss).
                  (\<lparr>lp_name = name, lp_wasm_path = pc_wasm_path c, lp_hooks = pc_hooks c,
                    lp_epoch_deadline = epoch_deadline (pc_timeout_ms c),
                    lp_timeout_ms = pc_timeout_ms c, lp_http_get_urls = pc_http_get_urls c,
                    lp_http_auth = auth\<rparr> # ps, status_of c name None # ss))
                  (load_plugins module_file env url_ok cs)
                else None))"

section \<open>Unpacking is exact\<close>

lemma packed_high: "(ucast (signed_drop_bit 32 (p :: 64 word)) :: 32 word) = ucast (drop_bit 32 p)"
  by (rule bit_word_eqI) (auto simp: bit_ucast_iff bit_signed_drop_bit_iff bit_drop_bit_eq min_def)

lemma packed_low: "(ucast ((p :: 64 word) AND 0xffffffff) :: 32 word) = ucast p"
proof -
  have eq: "(0xffffffff :: 64 word) = mask 32" by (simp add: mask_eq_decr_exp)
  show ?thesis unfolding eq by (rule bit_word_eqI, auto simp: bit_ucast_iff bit_and_iff bit_mask_iff)
qed

lemma packed_halves:
  "uint (p :: 64 word) = uint (ucast (drop_bit 32 p) :: 32 word) * 2 ^ 32 + uint (ucast p :: 32 word)"
proof -
  have "uint (ucast (drop_bit 32 p) :: 32 word) = uint p div 2 ^ 32 mod 2 ^ 32"
    by (simp add: unsigned_ucast_eq take_bit_eq_mod drop_bit_eq_div uint_div)
  moreover have "uint p div 2 ^ 32 < 2 ^ 32" using uint_lt2p [of p] by simp
  moreover have "0 \<le> uint p div 2 ^ 32" by (rule div_int_pos_iff [THEN iffD2]) simp
  moreover have "uint (ucast p :: 32 word) = uint p mod 2 ^ 32"
    by (simp add: unsigned_ucast_eq take_bit_eq_mod)
  ultimately show ?thesis by (simp add: mod_pos_pos_trivial div_mult_mod_eq)
qed

lemma sint_nonneg_32: "0 \<le> sint (w :: 32 word) \<Longrightarrow> sint w = uint w \<and> uint w < 2 ^ 31"
proof -
  assume a: "0 \<le> sint w"
  have s: "sint w = (uint w + 2 ^ 31) mod 2 ^ 32 - 2 ^ 31"
    by (simp add: sint_uint signed_take_bit_eq_take_bit_shift take_bit_eq_mod)
  have b: "0 \<le> uint w" "uint w < 2 ^ 32" using uint_lt2p [of w] by simp_all
  show ?thesis
  proof (cases "uint w < 2 ^ 31")
    case True
    with b s show ?thesis by (simp add: mod_pos_pos_trivial)
  next
    case False
    with b have "(uint w + 2 ^ 31) mod 2 ^ 32 = uint w + 2 ^ 31 - 2 ^ 32"
      using minus_mod_self2 [of "uint w + 2 ^ 31" "2 ^ 32"] by (simp add: mod_pos_pos_trivial)
    with a b s show ?thesis by simp
  qed
qed

lemma unpack_halves:
  "unpack_plugin_output p =
    (let ptr = sint (ucast (drop_bit 32 p) :: 32 word); len = sint (ucast p :: 32 word)
     in if ptr = 0 \<or> len = 0 then Inr None
        else if ptr < 0 then Inl Invalid_output_pointer
        else if len < 0 then Inl Invalid_output_length
        else if len > MAX_PLUGIN_OUTPUT_BYTES then Inl Output_exceeds_limit
        else Inr (Some (ptr, len)))"
  unfolding unpack_plugin_output_def packed_high packed_low ..

lemma sint_small_32: "uint (w :: 32 word) < 2 ^ 31 \<Longrightarrow> sint w = uint w"
  by (simp add: sint_uint signed_take_bit_eq_take_bit_shift take_bit_eq_mod mod_pos_pos_trivial)

lemma halves_unique:
  fixes x y a b :: int
  assumes "x * 2 ^ 32 + y = a * 2 ^ 32 + b" "0 \<le> y" "y < 2 ^ 32" "0 \<le> b" "b < 2 ^ 32"
  shows "x = a"
proof (rule ccontr)
  assume "x \<noteq> a"
  then consider "x + 1 \<le> a" | "a + 1 \<le> x" by linarith
  then show False
    using assms by cases simp_all
qed

lemma unpack_iff:
  "unpack_plugin_output p = Inr (Some (ptr, len)) \<longleftrightarrow>
    0 < ptr \<and> ptr < 2 ^ 31 \<and> 0 < len \<and> len \<le> MAX_PLUGIN_OUTPUT_BYTES \<and> uint p = ptr * 2 ^ 32 + len"
proof
  let ?hi = "ucast (drop_bit 32 p) :: 32 word" and ?lo = "ucast p :: 32 word"
  assume "unpack_plugin_output p = Inr (Some (ptr, len))"
  then have v: "ptr = sint ?hi" "len = sint ?lo" "0 < ptr" "0 < len" "len \<le> MAX_PLUGIN_OUTPUT_BYTES"
    by (auto simp: unpack_halves Let_def split: if_splits)
  then have "ptr = uint ?hi" "len = uint ?lo" "ptr < 2 ^ 31"
    using sint_nonneg_32 [of ?hi] sint_nonneg_32 [of ?lo] by simp_all
  with v packed_halves [of p] show "0 < ptr \<and> ptr < 2 ^ 31 \<and> 0 < len \<and> len \<le> MAX_PLUGIN_OUTPUT_BYTES \<and>
      uint p = ptr * 2 ^ 32 + len" by simp
next
  let ?hi = "ucast (drop_bit 32 p) :: 32 word" and ?lo = "ucast p :: 32 word"
  assume a: "0 < ptr \<and> ptr < 2 ^ 31 \<and> 0 < len \<and> len \<le> MAX_PLUGIN_OUTPUT_BYTES \<and> uint p = ptr * 2 ^ 32 + len"
  have "uint ?lo < 2 ^ 32" "0 \<le> uint ?lo" using uint_lt2p [of ?lo] by simp_all
  moreover have "len < 2 ^ 31" using a by (simp add: MAX_PLUGIN_OUTPUT_BYTES_def)
  ultimately have "uint ?hi = ptr"
    using halves_unique [of "uint ?hi" "uint ?lo" ptr len] a packed_halves [of p] by simp
  moreover from this have "uint ?lo = len" using a packed_halves [of p] by simp
  ultimately have "sint ?hi = ptr" "sint ?lo = len"
    using a \<open>len < 2 ^ 31\<close> sint_small_32 [of ?hi] sint_small_32 [of ?lo] by simp_all
  with a show "unpack_plugin_output p = Inr (Some (ptr, len))"
    by (simp add: unpack_halves Let_def)
qed

text \<open>What a plugin call returns is read exactly and in bounds. The host accepts an
  output precisely when the packed 64-bit result is a positive 31-bit pointer above
  a length of at most 64 KiB, the range lies inside the memory of the plugin, and
  these bytes decode; nothing outside the range is read, and the sign bits of the
  two halves cannot make a range that wraps.
\<close>

theorem plugin_output_exact:
  "invoke decode (Returned packed mem) = Inr (Some out) \<longleftrightarrow>
    (\<exists>ptr len. 0 < ptr \<and> ptr < 2 ^ 31 \<and> 0 < len \<and> len \<le> MAX_PLUGIN_OUTPUT_BYTES \<and>
      uint packed = ptr * 2 ^ 32 + len \<and> ptr + len \<le> int (length mem) \<and>
      decode (take (nat len) (drop (nat ptr) mem)) = Some out)"
proof -
  have "invoke decode (Returned packed mem) = Inr (Some out) \<longleftrightarrow>
    (\<exists>ptr len. unpack_plugin_output packed = Inr (Some (ptr, len)) \<and> nat ptr + nat len \<le> length mem \<and>
      decode (take (nat len) (drop (nat ptr) mem)) = Some out)"
    by (auto simp: invoke_def bind_res_def split: sum.splits option.splits)
  also have "\<dots> \<longleftrightarrow> (\<exists>ptr len. 0 < ptr \<and> ptr < 2 ^ 31 \<and> 0 < len \<and> len \<le> MAX_PLUGIN_OUTPUT_BYTES \<and>
      uint packed = ptr * 2 ^ 32 + len \<and> ptr + len \<le> int (length mem) \<and>
      decode (take (nat len) (drop (nat ptr) mem)) = Some out)"
    unfolding unpack_iff by (intro ex_cong1) auto
  finally show ?thesis .
qed

section \<open>The effects of a hook\<close>

text \<open>The reference: the outputs of the subscribed plugins in configuration order.\<close>

definition hook_results :: "plugin list \<Rightarrow> plugin_hook \<Rightarrow> hook_input \<Rightarrow> (plugin \<times> (string + hook_output option)) list" where
  "hook_results plugins hook inp =
    map (\<lambda>pl. (pl, pl_invoke pl (inp\<lparr>hi_hook := hook\<rparr>))) (filter (\<lambda>pl. hook \<in> set (pl_hooks pl)) plugins)"

definition hook_outputs :: "plugin list \<Rightarrow> plugin_hook \<Rightarrow> hook_input \<Rightarrow> (string \<times> hook_output) list" where
  "hook_outputs plugins hook inp =
    List.map_filter (\<lambda>(pl, r). case r of Inr (Some out) \<Rightarrow> Some (pl_name pl, out) | _ \<Rightarrow> None)
      (hook_results plugins hook inp)"

definition hook_warnings :: "plugin \<times> (string + hook_output option) \<Rightarrow> string list" where
  "hook_warnings pr =
    (case snd pr of
       Inr (Some out) \<Rightarrow> ho_warnings out
     | Inr None \<Rightarrow> []
     | Inl err \<Rightarrow> [pl_name (fst pr) @ '' ('' @ pl_wasm_path (fst pr) @ ''): '' @ err])"


lemma first_some_assoc: "first_some (first_some a b) c = first_some a (first_some b c)"
  by (cases a) (simp_all add: first_some_def)

lemma first_some_find_map:
  "first_some a (find_map f (x # xs)) = first_some (first_some a (f x)) (find_map f xs)"
  by (cases "f x"; cases a) (simp_all add: first_some_def)

lemma effects_merge_sel [simp]:
  "pe_tags (effects_merge n out e) = pe_tags e @ ho_tags out"
  "pe_warnings (effects_merge n out e) = pe_warnings e @ ho_warnings out"
  "pe_session_key (effects_merge n out e) = first_some (pe_session_key e) (ho_session_key out)"
  "pe_user_id (effects_merge n out e) = first_some (pe_user_id e) (ho_user_id out)"
  "pe_user_name (effects_merge n out e) = first_some (pe_user_name e) (ho_user_name out)"
  "pe_metadata (effects_merge n out e) =
    (if ho_custom_fields out \<noteq> [] then bt_insert n (JObject (ho_custom_fields out)) (pe_metadata e)
     else pe_metadata e)"
  by (simp_all add: effects_merge_def Let_def)

lemma hook_results_Cons:
  "hook_results (pl # pls) hook inp =
    (if hook \<in> set (pl_hooks pl) then [(pl, pl_invoke pl (inp\<lparr>hi_hook := hook\<rparr>))] else []) @
      hook_results pls hook inp"
  by (simp add: hook_results_def)

lemma hook_outputs_Cons:
  "hook_outputs (pl # pls) hook inp =
    (if hook \<in> set (pl_hooks pl)
     then (case pl_invoke pl (inp\<lparr>hi_hook := hook\<rparr>) of
             Inr (Some out) \<Rightarrow> [(pl_name pl, out)] | _ \<Rightarrow> [])
     else []) @ hook_outputs pls hook inp"
  by (simp add: hook_outputs_def hook_results_Cons map_filter_simps split: sum.split option.split)

definition plugin_fields :: "(string \<times> hook_output) list \<Rightarrow> (string \<times> json) list \<Rightarrow> (string \<times> json) list" where
  "plugin_fields outs m =
    fold (\<lambda>(n, out). bt_insert n (JObject (ho_custom_fields out)))
      (filter (\<lambda>p. ho_custom_fields (snd p) \<noteq> []) outs) m"

text \<open>Running a hook merges the subscribed plugins in configuration order: tags
  and warnings are appended, a plugin that fails adds one warning and nothing else, the
  first plugin to name a session or user wins, and each plugin writes only the
  metadata entry of its own name.
\<close>

theorem run_hook_merges:
  "run_hook plugins hook inp =
    \<lparr>pe_metadata = plugin_fields (hook_outputs plugins hook inp) [],
     pe_tags = concat (map (ho_tags \<circ> snd) (hook_outputs plugins hook inp)),
     pe_session_key = find_map (ho_session_key \<circ> snd) (hook_outputs plugins hook inp),
     pe_user_id = find_map (ho_user_id \<circ> snd) (hook_outputs plugins hook inp),
     pe_user_name = find_map (ho_user_name \<circ> snd) (hook_outputs plugins hook inp),
     pe_warnings = concat (map hook_warnings (hook_results plugins hook inp))\<rparr>"
proof -
  let ?step = "\<lambda>pl e. if hook \<notin> set (pl_hooks pl) then e
          else case pl_invoke pl (inp\<lparr>hi_hook := hook\<rparr>) of
            Inr (Some out) \<Rightarrow> effects_merge (pl_name pl) out e
          | Inr None \<Rightarrow> e
          | Inl err \<Rightarrow> e\<lparr>pe_warnings := pe_warnings e @
                [pl_name pl @ '' ('' @ pl_wasm_path pl @ ''): '' @ err]\<rparr>"
  have "fold ?step plugins e =
    \<lparr>pe_metadata = plugin_fields (hook_outputs plugins hook inp) (pe_metadata e),
     pe_tags = pe_tags e @ concat (map (ho_tags \<circ> snd) (hook_outputs plugins hook inp)),
     pe_session_key = first_some (pe_session_key e) (find_map (ho_session_key \<circ> snd) (hook_outputs plugins hook inp)),
     pe_user_id = first_some (pe_user_id e) (find_map (ho_user_id \<circ> snd) (hook_outputs plugins hook inp)),
     pe_user_name = first_some (pe_user_name e) (find_map (ho_user_name \<circ> snd) (hook_outputs plugins hook inp)),
     pe_warnings = pe_warnings e @ concat (map hook_warnings (hook_results plugins hook inp))\<rparr>" for e
  proof (induction plugins arbitrary: e)
    case Nil
    then show ?case
      by (cases e) (simp add: hook_results_def hook_outputs_def map_filter_simps plugin_fields_def first_some_def)
  next
    case (Cons pl plugins)
    let ?r = "pl_invoke pl (inp\<lparr>hi_hook := hook\<rparr>)"
    consider "hook \<notin> set (pl_hooks pl)" | err where "hook \<in> set (pl_hooks pl)" "?r = Inl err"
      | "hook \<in> set (pl_hooks pl)" "?r = Inr None" | out where "hook \<in> set (pl_hooks pl)" "?r = Inr (Some out)"
      by (metis option.exhaust sum.exhaust)
    then show ?case
      by cases (simp_all add: Cons.IH hook_outputs_Cons hook_results_Cons first_some_find_map
          hook_warnings_def plugin_fields_def del: find_map.simps)
  qed
  from this [of plugin_effects_default] show ?thesis
    by (simp add: run_hook_def Let_def plugin_effects_default_def first_some_def)
qed

end
