(* ===== verification/LT_Trace.thy ===== *)
theory LT_Trace
  imports LT_Parsers LT_Plugins LT_Redaction LT_Memory
begin

text \<open>
  \<open>trace.rs\<close>: admission of captured events to the kept queue, and how an event
  becomes the record that is stored: plugin effects, session scoping, bounding
  of messages, tags and identity, and removal of NUL characters, which the
  database does not accept.
\<close>

section \<open>Limits\<close>

definition MAX_SESSION_MESSAGES_PER_TRACE :: nat where
  [limits]: "MAX_SESSION_MESSAGES_PER_TRACE = 128"

definition MAX_SESSION_MESSAGE_ROLE_BYTES :: nat where
  [limits]: "MAX_SESSION_MESSAGE_ROLE_BYTES = 64"

definition MAX_SESSION_MESSAGE_CONTENT_BYTES :: nat where
  [limits]: "MAX_SESSION_MESSAGE_CONTENT_BYTES = 16384"

definition MAX_TRACE_SESSION_KEY_BYTES :: nat where
  [limits]: "MAX_TRACE_SESSION_KEY_BYTES = 1024"

definition MAX_TRACE_IDENTITY_BYTES :: nat where
  [limits]: "MAX_TRACE_IDENTITY_BYTES = 1024"

definition MAX_TRACE_TAGS :: nat where
  [limits]: "MAX_TRACE_TAGS = 64"

definition MAX_TRACE_TAG_BYTES :: nat where
  [limits]: "MAX_TRACE_TAG_BYTES = 128"

definition SESSION_MESSAGES_TRUNCATED_TAG :: string where
  "SESSION_MESSAGES_TRUNCATED_TAG = ''session_messages_truncated''"

definition TRACE_ENRICHMENT_TRUNCATED_TAG :: string where
  "TRACE_ENRICHMENT_TRUNCATED_TAG = ''trace_enrichment_truncated''"

section \<open>Text and values\<close>

definition NUL :: char where
  "NUL = CHR 0x00"

definition strip_nul :: "string \<Rightarrow> string" where
  "strip_nul s = filter (\<lambda>c. c \<noteq> NUL) s"

definition strip_nul_bytes_owned :: "string \<Rightarrow> string \<times> bool" where
  "strip_nul_bytes_owned val = (if NUL \<notin> set val then (val, False) else (strip_nul val, True))"

definition truncate_utf8_owned :: "string \<Rightarrow> nat \<Rightarrow> string \<times> bool" where
  "truncate_utf8_owned val max_bytes =
    (if length val \<le> max_bytes then (val, False)
     else (take (boundary_floor val max_bytes) val, True))"

definition strip_tool_call :: "tool_call \<Rightarrow> tool_call" where
  "strip_tool_call c =
    \<lparr>tc_id = fst (strip_nul_bytes_owned (tc_id c)), tc_name = fst (strip_nul_bytes_owned (tc_name c)),
     tc_arguments = fst (strip_nul_bytes_owned (tc_arguments c))\<rparr>"

definition strip_tool_call_nul_bytes :: "tool_call list \<Rightarrow> tool_call list" where
  "strip_tool_call_nul_bytes calls = map strip_tool_call calls"

fun strip_nul_bytes_from_value :: "json \<Rightarrow> json" where
  "strip_nul_bytes_from_value (JString txt) = JString (fst (strip_nul_bytes_owned txt))"
| "strip_nul_bytes_from_value (JArray items) = JArray (map strip_nul_bytes_from_value items)"
| "strip_nul_bytes_from_value (JObject m) =
    JObject (bt_collect (map (\<lambda>p. (fst (strip_nul_bytes_owned (fst p)), strip_nul_bytes_from_value (snd p))) m))"
| "strip_nul_bytes_from_value v = v"

definition object_or_empty :: "json \<Rightarrow> (string \<times> json) list" where
  "object_or_empty v =
    (case v of JObject m \<Rightarrow> m | JNull \<Rightarrow> [] | other \<Rightarrow> bt_insert ''value'' other [])"

section \<open>Bounding\<close>

definition bound_optional_text :: "string option \<Rightarrow> nat \<Rightarrow> string option \<times> bool" where
  "bound_optional_text val max_bytes =
    (case val of
       None \<Rightarrow> (None, False)
     | Some v \<Rightarrow>
        (case strip_nul_bytes_owned v of (v, modified) \<Rightarrow>
         if v = [] then (None, modified)
         else case truncate_utf8_owned v max_bytes of (v, truncated) \<Rightarrow> (Some v, modified \<or> truncated)))"

definition bound_trace_identity_fields ::
  "string option \<Rightarrow> string option \<Rightarrow> string option \<Rightarrow> string option \<times> string option \<times> string option \<times> bool" where
  "bound_trace_identity_fields session_key user_id user_name =
    (case bound_optional_text session_key MAX_TRACE_SESSION_KEY_BYTES of (session_key, t1) \<Rightarrow>
     case bound_optional_text user_id MAX_TRACE_IDENTITY_BYTES of (user_id, t2) \<Rightarrow>
     case bound_optional_text user_name MAX_TRACE_IDENTITY_BYTES of (user_name, t3) \<Rightarrow>
     (session_key, user_id, user_name, t1 \<or> t2 \<or> t3))"

fun normalize_tags :: "string list \<Rightarrow> string list \<Rightarrow> bool \<Rightarrow> string list \<times> bool" where
  "normalize_tags [] normalized truncated = (normalized, truncated)"
| "normalize_tags (tag # tags) normalized truncated =
    (if tag = [] then normalize_tags tags normalized truncated
     else case strip_nul_bytes_owned tag of (tag, stripped) \<Rightarrow>
       if tag = [] then normalize_tags tags normalized (truncated \<or> stripped)
       else case truncate_utf8_owned tag MAX_TRACE_TAG_BYTES of (tag, shortened) \<Rightarrow>
         normalize_tags tags (if tag \<in> set normalized then normalized else normalized @ [tag])
           (truncated \<or> stripped \<or> shortened))"

fun fill_tags :: "string list \<Rightarrow> nat \<Rightarrow> string list \<Rightarrow> string list \<Rightarrow> string list" where
  "fill_tags required capacity [] kept = kept"
| "fill_tags required capacity (tag # tags) kept =
    (if tag \<in> set required then fill_tags required capacity tags kept
     else if length kept \<ge> capacity then fill_tags required capacity tags kept
     else fill_tags required capacity tags (kept @ [tag]))"

fun add_required :: "string list \<Rightarrow> string list \<Rightarrow> string list" where
  "add_required [] kept = kept"
| "add_required (tag # tags) kept =
    add_required tags (if tag \<in> set kept then kept else kept @ [tag])"

definition required_tags :: "string list \<Rightarrow> bool \<Rightarrow> bool \<Rightarrow> bool \<Rightarrow> string list" where
  "required_tags normalized tags_truncated messages_truncated identity_truncated =
    (let required = (if messages_truncated then [SESSION_MESSAGES_TRUNCATED_TAG] else []);
         user_capacity_without_enrichment = saturating_sub MAX_TRACE_TAGS (length required)
     in if identity_truncated \<or> tags_truncated \<or> length normalized > user_capacity_without_enrichment
        then required @ [TRACE_ENRICHMENT_TRUNCATED_TAG] else required)"

definition bound_trace_tags :: "string list \<Rightarrow> bool \<Rightarrow> bool \<Rightarrow> string list" where
  "bound_trace_tags tags messages_truncated identity_truncated =
    (case normalize_tags tags [] False of (normalized, tags_truncated) \<Rightarrow>
     let required = required_tags normalized tags_truncated messages_truncated identity_truncated;
         user_capacity = saturating_sub MAX_TRACE_TAGS (length required)
     in add_required required (fill_tags required user_capacity normalized []))"

definition bound_message :: "parsed_message \<Rightarrow> parsed_message \<times> bool" where
  "bound_message m =
    (case strip_nul_bytes_owned (pm_role m) of (role, role_nul) \<Rightarrow>
     case strip_nul_bytes_owned (pm_content m) of (txt, content_nul) \<Rightarrow>
     case truncate_utf8_owned role MAX_SESSION_MESSAGE_ROLE_BYTES of (role, role_truncated) \<Rightarrow>
     case truncate_utf8_owned txt MAX_SESSION_MESSAGE_CONTENT_BYTES of (txt, content_truncated) \<Rightarrow>
     (\<lparr>pm_content_truncated = pm_content_truncated m \<or> content_nul \<or> content_truncated,
       pm_role = role, pm_content = txt\<rparr>,
      role_nul \<or> content_nul \<or> role_truncated \<or> content_truncated \<or> pm_content_truncated m))"

definition drain_messages :: "parsed_message list \<Rightarrow> parsed_message list" where
  "drain_messages messages =
    (if length messages > MAX_SESSION_MESSAGES_PER_TRACE
     then let keep_start = MAX_SESSION_MESSAGES_PER_TRACE div 2;
              keep_end = length messages - (MAX_SESSION_MESSAGES_PER_TRACE - keep_start)
          in take keep_start messages @ drop keep_end messages
     else messages)"

definition bound_session_messages :: "parsed_message list \<Rightarrow> parsed_message list \<times> bool" where
  "bound_session_messages messages =
    (let truncated = (length messages > MAX_SESSION_MESSAGES_PER_TRACE);
         kept = map bound_message (take MAX_SESSION_MESSAGES_PER_TRACE (drain_messages messages))
     in (map fst kept, truncated \<or> list_ex snd kept))"

section \<open>Plugin effects\<close>

text \<open>What the effects of a hook are merged into.\<close>

record enrichment =
  en_metadata :: "(string \<times> json) list"
  en_tags :: "string list"
  en_session_key :: "string option"
  en_user_id :: "string option"
  en_user_name :: "string option"

definition extend_object :: "(string \<times> json) list \<Rightarrow> (string \<times> json) list \<Rightarrow> (string \<times> json) list" where
  "extend_object existing new_fields = fold (\<lambda>(k, v). bt_insert k v) new_fields existing"

definition merge_metadata :: "string \<times> json \<Rightarrow> (string \<times> json) list \<Rightarrow> (string \<times> json) list" where
  "merge_metadata kv metadata =
    (case (map_of metadata (fst kv), snd kv) of
       (Some (JObject existing), JObject new_fields) \<Rightarrow>
         bt_insert (fst kv) (JObject (extend_object existing new_fields)) metadata
     | (_, v) \<Rightarrow> bt_insert (fst kv) v metadata)"

definition merge_warnings :: "string list \<Rightarrow> (string \<times> json) list \<Rightarrow> (string \<times> json) list" where
  "merge_warnings warnings metadata =
    (if warnings = [] then metadata
     else let metadata = (if map_of metadata ''plugin_warnings'' = None
                          then bt_insert ''plugin_warnings'' (JArray []) metadata else metadata)
          in case map_of metadata ''plugin_warnings'' of
               Some (JArray existing) \<Rightarrow>
                 bt_insert ''plugin_warnings'' (JArray (existing @ map JString warnings)) metadata
             | _ \<Rightarrow> metadata)"

definition merge_effects :: "plugin_effects \<Rightarrow> enrichment \<Rightarrow> enrichment" where
  "merge_effects effects en =
    en\<lparr>en_metadata := merge_warnings (pe_warnings effects)
         (fold merge_metadata (pe_metadata effects) (en_metadata en)),
       en_tags := en_tags en @ pe_tags effects,
       en_session_key := first_some (en_session_key en) (pe_session_key effects),
       en_user_id := first_some (en_user_id en) (pe_user_id effects),
       en_user_name := first_some (en_user_name en) (pe_user_name effects)\<rparr>"

section \<open>Session scoping\<close>

text \<open>The printer of identifiers and the serialisation of the scope triple are
  external.\<close>

record build_env =
  be_json :: json_lib
  be_web :: web_lib
  be_show_uuid :: "uuid \<Rightarrow> string"
  be_scope_json :: "string \<times> string option \<times> string \<Rightarrow> bytes"
  be_plugins :: "plugin list"

definition scoped_session_key ::
  "build_env \<Rightarrow> string \<Rightarrow> string option \<Rightarrow> string option \<Rightarrow> uuid \<Rightarrow> string" where
  "scoped_session_key E upstream credential hint trace_id =
    (case hint of
       Some h \<Rightarrow>
         if h \<noteq> []
         then let origin = (case url_parse (be_web E) upstream of
                     Some url \<Rightarrow> url_origin (be_web E) url | None \<Rightarrow> [])
              in ''session:'' @ sha256_hex (be_web E) (be_scope_json E (origin, credential, h))
         else ''request:'' @ be_show_uuid E trace_id
     | None \<Rightarrow> ''request:'' @ be_show_uuid E trace_id)"

section \<open>The stored record\<close>

record trace_record =
  tr_id :: uuid
  tr_started_at :: int
  tr_completed_at :: "int option"
  tr_method :: string
  tr_original_uri :: string
  tr_upstream_url :: string
  tr_upstream_host :: "string option"
  tr_status :: "int option"
  tr_error :: "string option"
  tr_request_kind :: request_kind
  tr_model :: "string option"
  tr_api_key_hash :: "string option"
  tr_session_key :: "string option"
  tr_session_id :: "uuid option"
  tr_ttft_ms :: "int option"
  tr_ttfb_ms :: "int option"
  tr_usage :: token_usage
  tr_usage_complete :: bool
  tr_tool_calls :: "tool_call list"
  tr_estimated_cost_microusd :: "int option"
  tr_duration_ms :: "int option"
  tr_bytes_in :: int
  tr_bytes_out :: int
  tr_request_headers :: json
  tr_response_headers :: json
  tr_request_body :: bytes
  tr_response_body :: bytes
  tr_request_body_bytes :: int
  tr_response_body_bytes :: int
  tr_request_body_truncated :: bool
  tr_response_body_truncated :: bool
  tr_content_type :: "string option"
  tr_plugin_metadata :: json
  tr_tags :: "string list"

definition from_utf8 :: "bytes \<Rightarrow> string option" where
  "from_utf8 b = (if utf8_valid b then Some b else None)"

definition hook_input_of :: "build_env \<Rightarrow> trace_event \<Rightarrow> plugin_hook \<Rightarrow> json \<Rightarrow> string option \<Rightarrow> hook_input" where
  "hook_input_of E e hook headers body =
    \<lparr>hi_hook = hook, hi_trace_id = be_show_uuid E (te_id e), hi_method = te_method e,
     hi_uri = te_original_uri e, hi_upstream_url = te_upstream_url e, hi_headers = headers,
     hi_body_utf8 = body\<rparr>"

text \<open>The hooks run in order: the response hooks see the request only through the
  event, and their effects are merged after both have run.\<close>

definition run_plugins :: "build_env \<Rightarrow> trace_event \<Rightarrow> enrichment \<Rightarrow> enrichment" where
  "run_plugins E e en =
    (if te_run_plugins e \<and> be_plugins E \<noteq> []
     then let run = (\<lambda>hook headers body. run_hook (be_plugins E) hook (hook_input_of E e hook headers body));
              en = merge_effects
                (run RequestStart (te_plugin_request_headers e) (from_utf8 (te_request_body e))) en
          in if te_status e \<noteq> None
             then merge_effects
                    (run ResponseEnd (te_plugin_response_headers e) (from_utf8 (te_response_body e)))
                    (merge_effects (run ResponseHeaders (te_plugin_response_headers e) None) en)
             else en
     else en)"

text \<open>\<open>partition_point\<close> on a list sorted by offset.\<close>

definition partition_point :: "('a \<Rightarrow> bool) \<Rightarrow> 'a list \<Rightarrow> nat" where
  "partition_point P xs = length (takeWhile P xs)"

definition ttft :: "trace_event \<Rightarrow> nat option \<Rightarrow> int option" where
  "ttft e first_output_offset =
    or_else (te_ttft_ms e)
      (Option.bind first_output_offset (\<lambda>offset.
        let index = partition_point (\<lambda>p. fst p < offset) (te_response_chunk_timings e)
        in if index < length (te_response_chunk_timings e)
           then Some (snd (te_response_chunk_timings e ! index)) else None))"

definition incomplete_stream :: "trace_event \<Rightarrow> parsed_trace \<Rightarrow> bool" where
  "incomplete_stream e p \<longleftrightarrow>
    rd_stream_complete (pt_response p) = Some False \<and>
    \<not> te_response_body_truncated e \<and>
    (case te_status e of Some s \<Rightarrow> 200 \<le> s \<and> s < 300 | None \<Rightarrow> False) \<and>
    (case te_content_type e of Some v \<Rightarrow> starts_with v ''text/event-stream'' | None \<Rightarrow> False) \<and>
    pt_request_kind p \<in> {OpenAiChatCompletions, OpenAiResponses, AnthropicMessages}"

definition clean_text :: "string option \<Rightarrow> string option" where
  "clean_text x =
    (case map_option (\<lambda>s. fst (strip_nul_bytes_owned s)) x of
       Some s \<Rightarrow> if s \<noteq> [] then Some s else None
     | None \<Rightarrow> None)"

text \<open>The tags of the event after parsing.\<close>

definition trace_tags :: "string list \<Rightarrow> string option \<Rightarrow> bool \<Rightarrow> string list" where
  "trace_tags tags explicit_session_key tool_calls_truncated =
    tags @ (if explicit_session_key = None then [''session_unlinked''] else []) @
      (if tool_calls_truncated then [''tool_calls_truncated''] else [])"

definition event_scope :: "build_env \<Rightarrow> trace_event \<Rightarrow> string option" where
  "event_scope E e =
    or_else (or_else (te_credential_scope_hash e) (te_api_key_hash e))
      (credential_scope_from_headers (be_web E) (te_plugin_request_headers e))"

definition event_enrichment :: "build_env \<Rightarrow> trace_event \<Rightarrow> enrichment" where
  "event_enrichment E e =
    run_plugins E e
      \<lparr>en_metadata = object_or_empty (te_plugin_metadata e), en_tags = te_tags e,
       en_session_key = te_session_key e, en_user_id = te_user_id e, en_user_name = te_user_name e\<rparr>"

definition build_trace ::
  "build_env \<Rightarrow> trace_event \<Rightarrow> trace_record \<times> parsed_message list \<times> string option \<times> string option" where
  "build_trace E e =
    (let parsed = parse_trace (be_json E) (te_original_uri e) (te_request_body e) (te_response_body e);
         response = pt_response parsed;
         en = event_enrichment E e;
         explicit_session_key = or_else (en_session_key en) (pt_session_key_hint parsed);
         tags = trace_tags (en_tags en) explicit_session_key (rd_tool_calls_truncated response);
         session_key = Some (scoped_session_key E (te_upstream_url e) (event_scope E e)
           explicit_session_key (te_id e));
         ttft_ms = ttft e (rd_first_output_offset response);
         (session_key, user_id, user_name, identity_truncated) =
           bound_trace_identity_fields session_key (en_user_id en) (en_user_name en);
         (messages, messages_truncated) = bound_session_messages (te_messages e @ pt_messages parsed);
         tags = bound_trace_tags tags messages_truncated identity_truncated
     in (\<lparr>tr_id = te_id e, tr_started_at = te_started_at e, tr_completed_at = te_completed_at e,
          tr_method = te_method e,
          tr_original_uri = redact_uri_query_values (be_web E) (te_original_uri e),
          tr_upstream_url = redact_uri_query_values (be_web E) (te_upstream_url e),
          tr_upstream_host = te_upstream_host e, tr_status = te_status e,
          tr_error = clean_text (or_else (te_error e) (or_else (rd_error response)
            (if incomplete_stream e parsed
             then Some ''upstream stream ended without a terminal event'' else None))),
          tr_request_kind = (case te_request_kind e of Some k \<Rightarrow> k | None \<Rightarrow> pt_request_kind parsed),
          tr_model = clean_text (or_else (te_model e) (pt_model parsed)),
          tr_api_key_hash = te_api_key_hash e, tr_session_key = session_key, tr_session_id = None,
          tr_ttft_ms = ttft_ms, tr_ttfb_ms = te_ttfb_ms e, tr_usage = rd_usage response,
          tr_usage_complete = (rd_usage_complete response \<and> \<not> te_response_body_truncated e),
          tr_tool_calls = strip_tool_call_nul_bytes (rd_tool_calls response),
          tr_estimated_cost_microusd = None, tr_duration_ms = te_duration_ms e,
          tr_bytes_in = te_request_body_bytes e, tr_bytes_out = te_response_body_bytes e,
          tr_request_headers = te_request_headers e, tr_response_headers = te_response_headers e,
          tr_request_body = te_request_body e, tr_response_body = te_response_body e,
          tr_request_body_bytes = te_request_body_bytes e,
          tr_response_body_bytes = te_response_body_bytes e,
          tr_request_body_truncated = te_request_body_truncated e,
          tr_response_body_truncated = te_response_body_truncated e,
          tr_content_type = te_content_type e,
          tr_plugin_metadata = strip_nul_bytes_from_value (JObject (en_metadata en)),
          tr_tags = tags\<rparr>, messages, user_id, user_name))"

section \<open>Admission to the queue\<close>

record recorder =
  rc_memory :: memory_budget
  rc_queue :: "(trace_event \<times> 64 word) list"
  rc_capacity :: nat
  rc_closed :: bool
  rc_dropped :: "64 word"
  rc_enqueued :: nat
  rc_dropped_memory :: nat
  rc_dropped_full :: nat
  rc_dropped_closed :: nat
  rc_warnings :: nat

text \<open>A warning is logged when the wrapped count of drops is a power of two.\<close>

definition is_power_of_two :: "64 word \<Rightarrow> bool" where
  "is_power_of_two w \<longleftrightarrow> list_ex (\<lambda>k. w = push_bit k 1) [0..<64]"

definition warn_dropped :: "recorder \<Rightarrow> recorder" where
  "warn_dropped r =
    (let n = rc_dropped r + 1
     in r\<lparr>rc_dropped := n, rc_warnings := rc_warnings r + (if is_power_of_two n then 1 else 0)\<rparr>)"

text \<open>The reservation travels with the event and is released when the event is not
  queued.\<close>

definition record_event :: "64 word \<Rightarrow> trace_event \<Rightarrow> recorder \<Rightarrow> recorder" where
  "record_event n e r =
    (case mb_reserve (rc_memory r) n of
       None \<Rightarrow> warn_dropped (r\<lparr>rc_dropped_memory := rc_dropped_memory r + 1\<rparr>)
     | Some mem \<Rightarrow>
         if rc_closed r
         then warn_dropped (r\<lparr>rc_memory := mb_drop mem n, rc_dropped_closed := rc_dropped_closed r + 1\<rparr>)
         else if length (rc_queue r) \<ge> rc_capacity r
         then warn_dropped (r\<lparr>rc_memory := mb_drop mem n, rc_dropped_full := rc_dropped_full r + 1\<rparr>)
         else r\<lparr>rc_memory := mem, rc_queue := rc_queue r @ [(e, n)], rc_enqueued := rc_enqueued r + 1\<rparr>)"

section \<open>Stripping and truncating\<close>

lemma strip_nul_fst: "fst (strip_nul_bytes_owned s) = strip_nul s"
  by (auto simp: strip_nul_bytes_owned_def strip_nul_def intro: filter_True [symmetric])

lemma strip_nul_snd: "snd (strip_nul_bytes_owned s) \<longleftrightarrow> NUL \<in> set s"
  by (simp add: strip_nul_bytes_owned_def)

lemma strip_nul_bytes: "strip_nul_bytes_owned s = (strip_nul s, NUL \<in> set s)"
  by (rule prod_eqI) (simp_all add: strip_nul_fst strip_nul_snd)

lemma strip_nul_clean [simp]: "NUL \<notin> set (strip_nul s)"
  by (simp add: strip_nul_def)

lemma strip_nul_id [simp]: "NUL \<notin> set s \<Longrightarrow> strip_nul s = s"
  by (auto simp: strip_nul_def intro: filter_True)

definition cut_to :: "nat \<Rightarrow> string \<Rightarrow> string" where
  "cut_to n s = fst (truncate_utf8_owned s n)"

lemma cut_to_floor: "cut_to = utf8_floor_prefix"
  by (intro ext) (simp add: cut_to_def truncate_utf8_owned_def utf8_floor_prefix_def)

interpretation tro: bounded_prefix cut_to
  unfolding cut_to_floor by (rule fp.bounded_prefix_axioms)

lemma truncate_utf8: "truncate_utf8_owned s n = (cut_to n s, n < length s)"
  by (auto simp: cut_to_def truncate_utf8_owned_def)

lemma cut_to_clean: "NUL \<notin> set s \<Longrightarrow> NUL \<notin> set (cut_to n s)"
  using tro.trunc_set by blast

lemmas bounding = strip_nul_bytes truncate_utf8

lemma bt_collect_subset: "set (bt_collect kvs) \<subseteq> set kvs"
proof -
  have "set (fold (\<lambda>(k, v). bt_insert k v) kvs m) \<subseteq> set kvs \<union> set m" for m
  proof (induction kvs arbitrary: m)
    case (Cons p kvs)
    obtain k v where "p = (k, v)" by (cases p)
    with Cons.IH [of "bt_insert k v m"] bt_insert_subset [of k v m] show ?case by auto
  qed simp
  from this [of "[]"] show ?thesis by (simp add: bt_collect_def)
qed

lemma strip_value_clean: "t \<in> set (json_strings (strip_nul_bytes_from_value v)) \<Longrightarrow> NUL \<notin> set t"
proof (induction v arbitrary: t rule: strip_nul_bytes_from_value.induct)
  case (3 m)
  then obtain p where p: "p \<in> set (bt_collect (map (\<lambda>p. (fst (strip_nul_bytes_owned (fst p)),
      strip_nul_bytes_from_value (snd p))) m))" and t: "t = fst p \<or> t \<in> set (json_strings (snd p))"
    by auto
  from p bt_collect_subset obtain q where q: "q \<in> set m"
    "p = (strip_nul (fst q), strip_nul_bytes_from_value (snd q))"
    by (fastforce simp: strip_nul_fst)
  from t show ?case
  proof
    assume "t = fst p" then show ?thesis using q by simp
  next
    assume "t \<in> set (json_strings (snd p))"
    then show ?thesis using 3(1) [OF q(1)] q(2) by simp
  qed
qed (auto simp: strip_nul_fst)

lemma strip_value_wf: "json_wf v \<Longrightarrow> json_wf (strip_nul_bytes_from_value v)"
proof (induction v rule: strip_nul_bytes_from_value.induct)
  case (3 m)
  have "json_wf (snd p)" if "p \<in> set (bt_collect (map (\<lambda>p. (fst (strip_nul_bytes_owned (fst p)),
      strip_nul_bytes_from_value (snd p))) m))" for p
  proof -
    from that bt_collect_subset obtain q where "q \<in> set m" "snd p = strip_nul_bytes_from_value (snd q)"
      by fastforce
    with 3 show ?thesis by (auto simp: list_all_iff)
  qed
  then show ?case by (simp add: list_all_iff)
qed (auto simp: list_all_iff)

section \<open>Identity\<close>

lemma bound_optional_text_spec:
  "bound_optional_text x n = (y, c) \<Longrightarrow>
    (\<forall>s. y = Some s \<longrightarrow> length s \<le> n \<and> NUL \<notin> set s) \<and> (\<not> c \<longrightarrow> y = (if x = Some [] then None else x))"
  by (cases x) (auto simp: bound_optional_text_def bounding cut_to_clean tro.trunc_bound
      tro.trunc_short split: if_splits)

section \<open>Tags\<close>

lemma normalize_tags_spec:
  assumes "normalize_tags tags acc c0 = (norm, c)" "distinct acc"
    "\<forall>t\<in>set acc. length t \<le> MAX_TRACE_TAG_BYTES \<and> NUL \<notin> set t"
  shows "distinct norm \<and> (\<forall>t\<in>set norm. length t \<le> MAX_TRACE_TAG_BYTES \<and> NUL \<notin> set t) \<and>
    set acc \<subseteq> set norm \<and> (c0 \<longrightarrow> c) \<and> (\<not> c \<longrightarrow> (\<forall>t\<in>set tags. t \<noteq> [] \<longrightarrow> t \<in> set norm))"
  using assms
proof (induction tags arbitrary: acc c0)
  case (Cons tag tags)
  consider "tag = []" | "tag \<noteq> []" "strip_nul tag = []" | "tag \<noteq> []" "strip_nul tag \<noteq> []" by blast
  then show ?case
  proof cases
    case 1
    with Cons.prems(1) have "normalize_tags tags acc c0 = (norm, c)" by simp
    from Cons.IH [OF this Cons.prems(2,3)] 1 show ?thesis by simp
  next
    case 2
    then have n: "NUL \<in> set tag" by (cases "NUL \<in> set tag") auto
    with 2 Cons.prems(1) have r: "normalize_tags tags acc True = (norm, c)" by (simp add: bounding)
    from Cons.IH [OF r Cons.prems(2,3)] show ?thesis by simp
  next
    case 3
    let ?t = "cut_to MAX_TRACE_TAG_BYTES (strip_nul tag)"
    let ?acc = "if ?t \<in> set acc then acc else acc @ [?t]"
    let ?c = "c0 \<or> NUL \<in> set tag \<or> MAX_TRACE_TAG_BYTES < length (strip_nul tag)"
    have r: "normalize_tags tags ?acc ?c = (norm, c)" using Cons.prems(1) 3 by (simp add: bounding)
    have d: "distinct ?acc" using Cons.prems(2) by simp
    have t: "length ?t \<le> MAX_TRACE_TAG_BYTES \<and> NUL \<notin> set ?t"
      using tro.trunc_bound cut_to_clean [OF strip_nul_clean] by blast
    have b: "\<forall>t\<in>set ?acc. length t \<le> MAX_TRACE_TAG_BYTES \<and> NUL \<notin> set t"
      using Cons.prems(3) t by simp
    note ih = Cons.IH [OF r d b]
    have same: "?t = tag" if "\<not> c"
    proof -
      from that ih have "\<not> ?c" by blast
      then have "NUL \<notin> set tag" "length (strip_nul tag) \<le> MAX_TRACE_TAG_BYTES" by (blast, linarith)
      then show ?thesis using tro.trunc_short [of "strip_nul tag" MAX_TRACE_TAG_BYTES] by simp
    qed
    have sub: "set acc \<subseteq> set ?acc" "?t \<in> set ?acc" by auto
    have "set acc \<subseteq> set norm" "?t \<in> set norm" using sub ih by blast+
    moreover have "tag \<in> set norm" if "\<not> c" using same [OF that] \<open>?t \<in> set norm\<close> by (rule subst)
    ultimately show ?thesis unfolding list.set using ih by blast
  qed
qed simp

lemma fill_tags_spec:
  "distinct tags \<Longrightarrow> distinct kept \<Longrightarrow> set tags \<inter> set kept = {} \<Longrightarrow> set required \<inter> set kept = {} \<Longrightarrow>
    length kept \<le> cap \<Longrightarrow>
    distinct (fill_tags required cap tags kept) \<and> length (fill_tags required cap tags kept) \<le> cap \<and>
    set (fill_tags required cap tags kept) \<subseteq> (set tags - set required) \<union> set kept"
proof (induction tags arbitrary: kept)
  case (Cons t tags)
  then show ?case using Cons.IH [of kept] Cons.IH [of "kept @ [t]"] by auto
qed auto

lemma fill_tags_all:
  "length kept + length tags \<le> cap \<Longrightarrow>
    fill_tags required cap tags kept = kept @ filter (\<lambda>t. t \<notin> set required) tags"
  by (induction tags arbitrary: kept) auto

lemma add_required_spec:
  "distinct kept \<Longrightarrow> distinct (add_required required kept) \<and>
    set (add_required required kept) = set kept \<union> set required \<and>
    length (add_required required kept) \<le> length kept + length required"
proof (induction required arbitrary: kept)
  case (Cons t required)
  then show ?case using Cons.IH [of kept] Cons.IH [of "kept @ [t]"]
    by (cases "t \<in> set kept") (simp_all add: insert_absorb le_SucI)
qed simp

lemma required_tags_spec:
  "length (required_tags norm c m i) \<le> 2 \<and> distinct (required_tags norm c m i) \<and>
    (m \<longleftrightarrow> SESSION_MESSAGES_TRUNCATED_TAG \<in> set (required_tags norm c m i)) \<and>
    (TRACE_ENRICHMENT_TRUNCATED_TAG \<in> set (required_tags norm c m i) \<longleftrightarrow>
      i \<or> c \<or> length norm > MAX_TRACE_TAGS - (if m then 1 else 0)) \<and>
    set (required_tags norm c m i) \<subseteq> {SESSION_MESSAGES_TRUNCATED_TAG, TRACE_ENRICHMENT_TRUNCATED_TAG}"
  by (simp add: required_tags_def Let_def saturating_sub_def SESSION_MESSAGES_TRUNCATED_TAG_def
      TRACE_ENRICHMENT_TRUNCATED_TAG_def)

definition tags_ok :: "string list \<Rightarrow> bool" where
  "tags_ok tags \<longleftrightarrow> length tags \<le> MAX_TRACE_TAGS \<and> distinct tags \<and>
    (\<forall>t\<in>set tags. length t \<le> MAX_TRACE_TAG_BYTES \<and> NUL \<notin> set t)"

lemma bound_trace_tags_spec:
  "tags_ok (bound_trace_tags tags m i) \<and>
   (m \<longrightarrow> SESSION_MESSAGES_TRUNCATED_TAG \<in> set (bound_trace_tags tags m i)) \<and>
   (i \<longrightarrow> TRACE_ENRICHMENT_TRUNCATED_TAG \<in> set (bound_trace_tags tags m i)) \<and>
   (TRACE_ENRICHMENT_TRUNCATED_TAG \<notin> set (bound_trace_tags tags m i) \<longrightarrow>
     (\<forall>t\<in>set tags. t \<noteq> [] \<longrightarrow> t \<in> set (bound_trace_tags tags m i)))"
proof -
  obtain norm c where n: "normalize_tags tags [] False = (norm, c)" by (cases "normalize_tags tags [] False")
  let ?req = "required_tags norm c m i"
  let ?cap = "MAX_TRACE_TAGS - length ?req"
  let ?fill = "fill_tags ?req ?cap norm []"
  have eq: "bound_trace_tags tags m i = add_required ?req ?fill"
    by (simp add: bound_trace_tags_def n Let_def saturating_sub_def)
  note norm = normalize_tags_spec [OF n, simplified]
  note req = required_tags_spec [of norm c m i]
  note fill = fill_tags_spec [of norm "[]" ?req ?cap, simplified, OF norm [THEN conjunct1]]
  note add = add_required_spec [of ?fill ?req, OF fill [THEN conjunct1]]
  have short: "t \<in> set ?req \<Longrightarrow> length t \<le> MAX_TRACE_TAG_BYTES \<and> NUL \<notin> set t" for t
  proof -
    assume "t \<in> set ?req"
    with req have "t = SESSION_MESSAGES_TRUNCATED_TAG \<or> t = TRACE_ENRICHMENT_TRUNCATED_TAG" by blast
    then show ?thesis by (elim disjE) (simp_all add: SESSION_MESSAGES_TRUNCATED_TAG_def
        TRACE_ENRICHMENT_TRUNCATED_TAG_def NUL_def MAX_TRACE_TAG_BYTES_def)
  qed
  have "length (add_required ?req ?fill) \<le> MAX_TRACE_TAGS"
    using add [THEN conjunct2, THEN conjunct2] fill [THEN conjunct2, THEN conjunct1]
      req [THEN conjunct1] by (simp add: MAX_TRACE_TAGS_def)
  moreover have "length t \<le> MAX_TRACE_TAG_BYTES \<and> NUL \<notin> set t" if "t \<in> set (add_required ?req ?fill)" for t
  proof -
    from that add have "t \<in> set ?fill \<or> t \<in> set ?req" by blast
    then show ?thesis using fill norm short by blast
  qed
  ultimately have "tags_ok (bound_trace_tags tags m i)"
    unfolding tags_ok_def eq using add by blast
  moreover have "t \<in> set (bound_trace_tags tags m i)"
    if "TRACE_ENRICHMENT_TRUNCATED_TAG \<notin> set (bound_trace_tags tags m i)" "t \<in> set tags" "t \<noteq> []" for t
  proof -
    from that(1) add eq have no: "TRACE_ENRICHMENT_TRUNCATED_TAG \<notin> set ?req" by auto
    with req have c: "\<not> c" "length norm \<le> MAX_TRACE_TAGS - (if m then 1 else 0)" by auto
    have "length ?req = (if m then 1 else 0)"
      using no by (cases m) (simp_all add: required_tags_def Let_def split: if_splits)
    with c(2) have "?fill = filter (\<lambda>t. t \<notin> set ?req) norm"
      using fill_tags_all [of "[]" norm ?cap ?req] by simp
    moreover have "t \<in> set norm" using norm c that by blast
    ultimately show ?thesis using add eq by auto
  qed
  ultimately show ?thesis using add req eq by auto
qed

section \<open>Messages\<close>

definition message_ok :: "parsed_message \<Rightarrow> bool" where
  "message_ok m \<longleftrightarrow> length (pm_role m) \<le> MAX_SESSION_MESSAGE_ROLE_BYTES \<and>
    length (pm_content m) \<le> MAX_SESSION_MESSAGE_CONTENT_BYTES \<and>
    NUL \<notin> set (pm_role m) \<and> NUL \<notin> set (pm_content m)"

lemma strip_nul_eq_iff: "strip_nul s = s \<longleftrightarrow> NUL \<notin> set s"
  by (auto simp: strip_nul_def filter_id_conv)

lemma bound_message_spec:
  "bound_message m = (m', c) \<Longrightarrow> message_ok m' \<and> (\<not> c \<longrightarrow> m' = m) \<and>
    (pm_content m' \<noteq> pm_content m \<longrightarrow> pm_content_truncated m')"
  by (cases m) (auto simp: bound_message_def bounding message_ok_def cut_to_clean tro.trunc_bound
      tro.trunc_short strip_nul_eq_iff)

lemma drain_length: "length (drain_messages ms) \<le> MAX_SESSION_MESSAGES_PER_TRACE"
  by (auto simp: drain_messages_def Let_def MAX_SESSION_MESSAGES_PER_TRACE_def)

lemma bound_session_messages_spec:
  "bound_session_messages ms = (out, c) \<Longrightarrow>
    length out \<le> MAX_SESSION_MESSAGES_PER_TRACE \<and> (\<forall>m\<in>set out. message_ok m) \<and> (\<not> c \<longrightarrow> out = ms)"
proof -
  assume eq: "bound_session_messages ms = (out, c)"
  have out: "out = map (fst \<circ> bound_message) (drain_messages ms)"
    and c: "c = (length ms > MAX_SESSION_MESSAGES_PER_TRACE \<or> (\<exists>m\<in>set (drain_messages ms). snd (bound_message m)))"
    using eq drain_length [of ms] by (auto simp: bound_session_messages_def Let_def list_ex_iff)
  have spec: "message_ok (fst (bound_message m)) \<and> (\<not> snd (bound_message m) \<longrightarrow> fst (bound_message m) = m)" for m
    using bound_message_spec [of m "fst (bound_message m)" "snd (bound_message m)"] by simp
  have "out = ms" if "\<not> c"
  proof -
    from that c have "drain_messages ms = ms" by (simp add: drain_messages_def)
    with that c spec out show ?thesis by (auto intro: map_idI)
  qed
  with out spec drain_length [of ms] show ?thesis by auto
qed

section \<open>The stored record\<close>

definition clean_option :: "string option \<Rightarrow> bool" where
  "clean_option x \<longleftrightarrow> (\<forall>s. x = Some s \<longrightarrow> s \<noteq> [] \<and> NUL \<notin> set s)"

definition clean_tool :: "tool_call \<Rightarrow> bool" where
  "clean_tool c \<longleftrightarrow> NUL \<notin> set (tc_id c) \<and> NUL \<notin> set (tc_name c) \<and> NUL \<notin> set (tc_arguments c)"

definition bounded_option :: "nat \<Rightarrow> string option \<Rightarrow> bool" where
  "bounded_option n x \<longleftrightarrow> (\<forall>s. x = Some s \<longrightarrow> length s \<le> n \<and> NUL \<notin> set s)"

definition nonempty_option :: "string option \<Rightarrow> string option" where
  "nonempty_option x = (if x = Some [] then None else x)"

lemma bounded_optional_text: "bounded_option n (fst (bound_optional_text x n))"
  using bound_optional_text_spec [OF surjective_pairing]
  by (simp add: bounded_option_def)

lemma exact_optional_text:
  "\<not> snd (bound_optional_text x n) \<Longrightarrow> fst (bound_optional_text x n) = nonempty_option x"
  using bound_optional_text_spec [OF surjective_pairing]
  by (simp add: nonempty_option_def)

lemma clean_text_clean: "clean_option (clean_text x)"
  by (cases x) (simp_all add: clean_text_def clean_option_def strip_nul_fst)

lemma clean_tool_strip: "clean_tool (strip_tool_call c)"
  by (simp add: clean_tool_def strip_tool_call_def strip_nul_fst)

definition event_messages :: "build_env \<Rightarrow> trace_event \<Rightarrow> parsed_message list" where
  "event_messages E e = te_messages e @
    pt_messages (parse_trace (be_json E) (te_original_uri e) (te_request_body e) (te_response_body e))"

definition event_hint :: "build_env \<Rightarrow> trace_event \<Rightarrow> string option" where
  "event_hint E e = or_else (en_session_key (event_enrichment E e))
    (pt_session_key_hint (parse_trace (be_json E) (te_original_uri e) (te_request_body e) (te_response_body e)))"

definition event_key :: "build_env \<Rightarrow> trace_event \<Rightarrow> string" where
  "event_key E e = scoped_session_key E (te_upstream_url e) (event_scope E e) (event_hint E e) (te_id e)"

definition event_tags :: "build_env \<Rightarrow> trace_event \<Rightarrow> string list" where
  "event_tags E e = trace_tags (en_tags (event_enrichment E e)) (event_hint E e)
    (rd_tool_calls_truncated (pt_response
      (parse_trace (be_json E) (te_original_uri e) (te_request_body e) (te_response_body e))))"

definition identity_cut :: "build_env \<Rightarrow> trace_event \<Rightarrow> bool" where
  "identity_cut E e \<longleftrightarrow>
    snd (bound_optional_text (Some (event_key E e)) MAX_TRACE_SESSION_KEY_BYTES) \<or>
    snd (bound_optional_text (en_user_id (event_enrichment E e)) MAX_TRACE_IDENTITY_BYTES) \<or>
    snd (bound_optional_text (en_user_name (event_enrichment E e)) MAX_TRACE_IDENTITY_BYTES)"

text \<open>The parts of the stored record the theorems speak about.\<close>

lemma built_trace:
  assumes "build_trace E e = (t, ms, uid, uname)"
  shows "ms = fst (bound_session_messages (event_messages E e))"
    and "tr_tags t = bound_trace_tags (event_tags E e) (snd (bound_session_messages (event_messages E e))) (identity_cut E e)"
    and "tr_session_key t = fst (bound_optional_text (Some (event_key E e)) MAX_TRACE_SESSION_KEY_BYTES)"
    and "uid = fst (bound_optional_text (en_user_id (event_enrichment E e)) MAX_TRACE_IDENTITY_BYTES)"
    and "uname = fst (bound_optional_text (en_user_name (event_enrichment E e)) MAX_TRACE_IDENTITY_BYTES)"
    and "\<exists>x. tr_error t = clean_text x" and "\<exists>x. tr_model t = clean_text x"
    and "\<exists>x. tr_tool_calls t = map strip_tool_call x"
    and "tr_plugin_metadata t = strip_nul_bytes_from_value (JObject (en_metadata (event_enrichment E e)))"
  using assms
  by (auto simp: build_trace_def bound_trace_identity_fields_def Let_def event_messages_def event_tags_def
      event_key_def event_hint_def identity_cut_def strip_tool_call_nul_bytes_def case_prod_unfold)


definition storable :: "trace_record \<Rightarrow> parsed_message list \<Rightarrow> string option \<Rightarrow> string option \<Rightarrow> bool" where
  "storable t messages user_id user_name \<longleftrightarrow>
    tags_ok (tr_tags t) \<and>
    length messages \<le> MAX_SESSION_MESSAGES_PER_TRACE \<and> list_all message_ok messages \<and>
    bounded_option MAX_TRACE_SESSION_KEY_BYTES (tr_session_key t) \<and>
    bounded_option MAX_TRACE_IDENTITY_BYTES user_id \<and>
    bounded_option MAX_TRACE_IDENTITY_BYTES user_name \<and>
    clean_option (tr_error t) \<and> clean_option (tr_model t) \<and>
    list_all clean_tool (tr_tool_calls t) \<and>
    list_all (\<lambda>s. NUL \<notin> set s) (json_strings (tr_plugin_metadata t))"

text \<open>The columns taken from the HTTP exchange itself, which neither a body nor a plugin can
  reach.\<close>

definition http_columns :: "build_env \<Rightarrow> trace_event \<Rightarrow> trace_record \<Rightarrow> bool" where
  "http_columns E e t \<longleftrightarrow>
    tr_method t = te_method e \<and> tr_upstream_host t = te_upstream_host e \<and>
    tr_original_uri t = redact_uri_query_values (be_web E) (te_original_uri e) \<and>
    tr_upstream_url t = redact_uri_query_values (be_web E) (te_upstream_url e) \<and>
    tr_api_key_hash t = te_api_key_hash e \<and> tr_content_type t = te_content_type e \<and>
    tr_request_headers t = te_request_headers e \<and> tr_response_headers t = te_response_headers e"

text \<open>C14: whatever event is captured and whatever the plugins return, what the stored record
  takes from bodies and plugins satisfies what the database requires: at most 64 distinct tags of
  at most 128 bytes, at most 128 messages with roles of 64 bytes and contents of 16 KiB, session
  key, user and user name within 1024 bytes, and no NUL character in the tags, messages, session
  key, user, user name, error, model, tool calls or any string of the plugin metadata. The other
  text columns depend on neither: method, host, key hash, content type and headers are those of
  the HTTP exchange, and the two addresses are its redacted addresses.
\<close>

theorem built_trace_storable:
  "case build_trace E e of (t, messages, user_id, user_name) \<Rightarrow>
    storable t messages user_id user_name \<and> http_columns E e t"
proof -
  obtain t ms uid uname where b: "build_trace E e = (t, ms, uid, uname)" by (cases "build_trace E e")
  note parts = built_trace [OF b]
  note m = bound_session_messages_spec [OF surjective_pairing, of "event_messages E e"]
  obtain x y z where "tr_error t = clean_text x" "tr_model t = clean_text y"
    "tr_tool_calls t = map strip_tool_call z" using parts(6-8) by blast
  then have "list_all clean_tool (tr_tool_calls t)" "clean_option (tr_error t)" "clean_option (tr_model t)"
    by (simp_all add: list_all_iff clean_tool_strip clean_text_clean)
  moreover have "list_all (\<lambda>s. NUL \<notin> set s) (json_strings (tr_plugin_metadata t))"
    unfolding parts(9) list_all_iff using strip_value_clean by blast
  moreover have "list_all message_ok ms" "length ms \<le> MAX_SESSION_MESSAGES_PER_TRACE"
    using m unfolding parts(1) list_all_iff by blast+
  moreover have "tags_ok (tr_tags t)" unfolding parts(2) using bound_trace_tags_spec by blast
  ultimately have "storable t ms uid uname"
    unfolding storable_def parts(3-5) using bounded_optional_text by blast
  moreover have "http_columns E e t"
    using b by (auto simp: build_trace_def http_columns_def Let_def case_prod_unfold)
  ultimately show ?thesis by (simp add: b)
qed

lemma event_key_nonempty: "event_key E e \<noteq> []"
  by (auto simp: event_key_def scoped_session_key_def Let_def split: option.splits if_splits)

text \<open>Nothing is dropped silently. Without the tag of truncated messages
  the stored messages are exactly those captured and parsed; without the tag of
  truncated enrichment every tag, the session key and the user are stored unchanged.
\<close>

theorem built_trace_truncation_marked:
  assumes "build_trace E e = (t, messages, user_id, user_name)"
  shows "(SESSION_MESSAGES_TRUNCATED_TAG \<notin> set (tr_tags t) \<longrightarrow> messages = event_messages E e) \<and>
    (TRACE_ENRICHMENT_TRUNCATED_TAG \<notin> set (tr_tags t) \<longrightarrow>
      (\<forall>tag\<in>set (event_tags E e). tag \<noteq> [] \<longrightarrow> tag \<in> set (tr_tags t)) \<and>
      tr_session_key t = Some (event_key E e) \<and>
      user_id = nonempty_option (en_user_id (event_enrichment E e)) \<and>
      user_name = nonempty_option (en_user_name (event_enrichment E e)))"
proof (rule conjI; rule impI)
  note parts = built_trace [OF assms]
  note m = bound_session_messages_spec [OF surjective_pairing, of "event_messages E e"]
  note tags = bound_trace_tags_spec [of "event_tags E e" "snd (bound_session_messages (event_messages E e))" "identity_cut E e"]
  {
    assume "SESSION_MESSAGES_TRUNCATED_TAG \<notin> set (tr_tags t)"
    then show "messages = event_messages E e" using m tags unfolding parts(1,2) by blast
  next
    assume "TRACE_ENRICHMENT_TRUNCATED_TAG \<notin> set (tr_tags t)"
    with tags have tag: "\<forall>tag\<in>set (event_tags E e). tag \<noteq> [] \<longrightarrow> tag \<in> set (tr_tags t)"
      and cut: "\<not> identity_cut E e" unfolding parts(2) by blast+
    have "tr_session_key t = Some (event_key E e)"
      using cut exact_optional_text event_key_nonempty unfolding parts(3) identity_cut_def
      by (simp add: nonempty_option_def)
    with tag cut exact_optional_text show "(\<forall>tag\<in>set (event_tags E e). tag \<noteq> [] \<longrightarrow> tag \<in> set (tr_tags t)) \<and>
      tr_session_key t = Some (event_key E e) \<and>
      user_id = nonempty_option (en_user_id (event_enrichment E e)) \<and>
      user_name = nonempty_option (en_user_name (event_enrichment E e))"
      unfolding parts(4,5) identity_cut_def by blast
  }
qed

section \<open>Sessions\<close>

text \<open>What identifies a conversation: the origin, the credential and the hint, or
  without a hint the trace itself.\<close>

definition upstream_origin :: "build_env \<Rightarrow> string \<Rightarrow> string" where
  "upstream_origin E upstream =
    (case url_parse (be_web E) upstream of Some url \<Rightarrow> url_origin (be_web E) url | None \<Rightarrow> [])"

definition session_scope :: "build_env \<Rightarrow> trace_event \<Rightarrow> uuid + string \<times> string option \<times> string" where
  "session_scope E e =
    (case nonempty_option (event_hint E e) of
       Some h \<Rightarrow> Inr (upstream_origin E (te_upstream_url e), event_scope E e, h)
     | None \<Rightarrow> Inl (te_id e))"

lemma session_scope_Inl: "session_scope E e = Inl i \<Longrightarrow> i = te_id e"
  by (simp add: session_scope_def split: option.splits)

lemma event_key_scope:
  "event_key E e =
    (case session_scope E e of
       Inr s \<Rightarrow> ''session:'' @ sha256_hex (be_web E) (be_scope_json E s)
     | Inl i \<Rightarrow> ''request:'' @ be_show_uuid E i)"
  by (cases "event_hint E e") (simp_all add: event_key_def scoped_session_key_def session_scope_def
      nonempty_option_def upstream_origin_def Let_def)

lemma built_session_key:
  assumes "length (event_key E e) \<le> MAX_TRACE_SESSION_KEY_BYTES" "NUL \<notin> set (event_key E e)"
  shows "tr_session_key (fst (build_trace E e)) = Some (event_key E e)"
proof -
  obtain t ms uid uname where b: "build_trace E e = (t, ms, uid, uname)" by (cases "build_trace E e")
  from built_trace(3) [OF b] assms show ?thesis
    by (simp add: b bound_optional_text_def bounding tro.trunc_short event_key_nonempty)
qed

text \<open>C15: a conversation is scoped by upstream origin, credential and client hint,
  and nothing else. Two stored traces share their session key exactly when all three
  agree, and traces without a hint share theirs only when they are the same trace,
  whatever the hint or identifier looks like. Hexadecimal digests have 64 characters,
  printed identifiers 36, identifiers and scopes are printed injectively, and the two
  scopes do not collide under SHA-256.
\<close>

theorem session_key_scopes:
  assumes digest: "\<And>b. length (sha256_hex (be_web E) b) = 64 \<and> NUL \<notin> set (sha256_hex (be_web E) b)"
    and ids: "inj (be_show_uuid E)" "\<And>x. x \<in> {e, e'} \<Longrightarrow> length (be_show_uuid E (te_id x)) = 36 \<and> NUL \<notin> set (be_show_uuid E (te_id x))"
    and scopes: "inj (be_scope_json E)"
    and no_collision: "\<And>s s'. session_scope E e = Inr s \<Longrightarrow> session_scope E e' = Inr s' \<Longrightarrow>
      sha256_hex (be_web E) (be_scope_json E s) = sha256_hex (be_web E) (be_scope_json E s') \<Longrightarrow>
      be_scope_json E s = be_scope_json E s'"
  shows "tr_session_key (fst (build_trace E e)) = tr_session_key (fst (build_trace E e')) \<longleftrightarrow>
    session_scope E e = session_scope E e'"
proof -
  have "length (event_key E x) \<le> MAX_TRACE_SESSION_KEY_BYTES \<and> NUL \<notin> set (event_key E x)"
    if "x \<in> {e, e'}" for x
    using digest ids(2) [OF that] session_scope_Inl [of E x]
    by (cases "session_scope E x") (auto simp: event_key_scope NUL_def limits)
  then have "tr_session_key (fst (build_trace E x)) = Some (event_key E x)" if "x \<in> {e, e'}" for x
    using that by (simp add: built_session_key)
  moreover have "event_key E e = event_key E e' \<longleftrightarrow> session_scope E e = session_scope E e'"
  proof (cases "session_scope E e"; cases "session_scope E e'")
    fix s s' assume "session_scope E e = Inr s" "session_scope E e' = Inr s'"
    with no_collision [OF this] show ?thesis
      by (simp add: event_key_scope) (metis injD [OF scopes])
  qed (auto simp: event_key_scope inj_eq [OF ids(1)])
  ultimately show ?thesis by simp
qed

definition demo_json_lib :: json_lib where
  "demo_json_lib = \<lparr>jl_parse = (\<lambda>_. None), jl_print = (\<lambda>_. []), jl_print_tool = tc_name,
    sse_decode = (\<lambda>_. [])\<rparr>"

definition demo_quote :: "string \<Rightarrow> string" where
  "demo_quote s = concat (map (\<lambda>c. [CHR ''+'', c]) s) @ ''.''"

lemma demo_quote_inj: "demo_quote s @ r = demo_quote s' @ r' \<Longrightarrow> s = s' \<and> r = r'"
proof (induction s arbitrary: s')
  case Nil then show ?case by (cases s') (simp_all add: demo_quote_def)
next
  case (Cons c s) then show ?case by (cases s') (auto simp: demo_quote_def)
qed

definition demo_scope :: "string \<times> string option \<times> string \<Rightarrow> bytes" where
  "demo_scope s = (case s of (a, b, c) \<Rightarrow>
    demo_quote a @ (case b of None \<Rightarrow> ''-'' | Some x \<Rightarrow> demo_quote x) @ demo_quote c)"

lemma demo_quote_hd: "demo_quote s @ r \<noteq> CHR ''-'' # r'"
  by (cases s) (simp_all add: demo_quote_def)

lemma demo_scope_inj: "inj demo_scope"
proof (rule injI)
  fix s s' assume eq: "demo_scope s = demo_scope s'"
  obtain a b c a' b' c' where s: "s = (a, b, c)" "s' = (a', b', c')" by (cases s; cases s')
  let ?rest = "\<lambda>b c. (case b of None \<Rightarrow> ''-'' | Some x \<Rightarrow> demo_quote x) @ demo_quote c"
  from eq have "demo_quote a @ ?rest b c = demo_quote a' @ ?rest b' c'"
    unfolding demo_scope_def s prod.case .
  from demo_quote_inj [OF this] have "a = a'" and r: "?rest b c = ?rest b' c'" by (rule conjunct1, rule conjunct2)
  moreover have "b = b' \<and> c = c'"
  proof (cases b; cases b')
    assume "b = None" "b' = None"
    with r demo_quote_inj [of c "[]" c' "[]"] show ?thesis by simp
  next
    fix x assume "b = None" "b' = Some x"
    with r demo_quote_hd [of x "demo_quote c'" "demo_quote c"] show ?thesis by simp
  next
    fix x assume "b = Some x" "b' = None"
    with r demo_quote_hd [of x "demo_quote c" "demo_quote c'"] show ?thesis by simp
  next
    fix x x' assume "b = Some x" "b' = Some x'"
    with r demo_quote_inj [of x "demo_quote c" x' "demo_quote c'"] demo_quote_inj [of c "[]" c' "[]"]
    show ?thesis by simp
  qed
  ultimately show "s = s'" by (simp add: s)
qed

definition demo_build :: build_env where
  "demo_build =
    \<lparr>be_json = demo_json_lib,
     be_web = (demo_web [])\<lparr>hex_encode := (\<lambda>b. take 64 (filter (\<lambda>c. c \<noteq> NUL) b @ replicate 64 CHR ''0''))\<rparr>,
     be_show_uuid = (\<lambda>i. replicate 35 CHR ''0'' @ show_nat i),
     be_scope_json = demo_scope,
     be_plugins = []\<rparr>"

definition demo_capture :: "string \<Rightarrow> trace_event" where
  "demo_capture credential = (trace_event_base 7 0)\<lparr>te_upstream_url := ''https://api.test/v1'',
    te_credential_scope_hash := Some credential, te_session_key := Some ''conv'',
    te_tags := [''one'', ''two''], te_user_id := Some ''u1''\<rparr>"


lemma show_nat_inj: "inj show_nat"
  by (rule injI) (metis show_nat_digits)

lemma demo_build_scope: "session_scope demo_build (demo_capture c) = Inr ([], Some c, ''conv'')"
  by (simp add: session_scope_def event_hint_def event_enrichment_def run_plugins_def demo_capture_def
      demo_build_def or_else_def nonempty_option_def upstream_origin_def event_scope_def
      trace_event_base_def)

lemma demo_build_digest:
  "sha256_hex (be_web demo_build) b = take 64 (filter (\<lambda>c. c \<noteq> NUL) b @ replicate 64 CHR ''0'')"
  by (simp add: demo_build_def sha256_hex_def demo_web_def)

lemma demo_build_scope_json: "be_scope_json demo_build = demo_scope"
  by (simp add: demo_build_def)

theorem session_key_scopes_witness:
  "tr_session_key (fst (build_trace demo_build (demo_capture ''a''))) \<noteq>
    tr_session_key (fst (build_trace demo_build (demo_capture ''b'')))"
proof -
  have "tr_session_key (fst (build_trace demo_build (demo_capture ''a''))) =
      tr_session_key (fst (build_trace demo_build (demo_capture ''b''))) \<longleftrightarrow>
    session_scope demo_build (demo_capture ''a'') = session_scope demo_build (demo_capture ''b'')"
  proof (rule session_key_scopes)
    show "length (sha256_hex (be_web demo_build) b) = 64 \<and> NUL \<notin> set (sha256_hex (be_web demo_build) b)" for b
      by (auto simp: demo_build_digest NUL_def dest!: in_set_takeD)
    show "inj (be_show_uuid demo_build)"
      using show_nat_inj by (simp add: demo_build_def inj_def)
    show "length (be_show_uuid demo_build (te_id x)) = 36 \<and> NUL \<notin> set (be_show_uuid demo_build (te_id x))"
      if "x \<in> {demo_capture ''a'', demo_capture ''b''}" for x
    proof -
      from that have "te_id x = 7" by (auto simp: demo_capture_def trace_event_base_def)
      moreover have "show_nat 7 = ''7''" by (subst show_nat.simps) (simp add: char_of_def bit_0)
      ultimately show ?thesis by (simp add: demo_build_def NUL_def)
    qed
    show "inj (be_scope_json demo_build)" by (simp add: demo_build_def demo_scope_inj)
    show "be_scope_json demo_build s = be_scope_json demo_build s'"
      if "session_scope demo_build (demo_capture ''a'') = Inr s"
        "session_scope demo_build (demo_capture ''b'') = Inr s'"
        "sha256_hex (be_web demo_build) (be_scope_json demo_build s) =
         sha256_hex (be_web demo_build) (be_scope_json demo_build s')" for s s'
    proof -
      from that(1,2) have "s = ([], Some ''a'', ''conv'')" "s' = ([], Some ''b'', ''conv'')"
        by (simp_all add: demo_build_scope)
      with that(3) show ?thesis
        by (simp add: demo_build_digest demo_build_scope_json demo_scope_def demo_quote_def NUL_def)
    qed
  qed
  then show ?thesis by (simp add: demo_build_scope)
qed

theorem built_trace_truncation_marked_witness:
  "case build_trace demo_build (demo_capture ''a'') of (t, messages, user_id, user_name) \<Rightarrow>
    SESSION_MESSAGES_TRUNCATED_TAG \<notin> set (tr_tags t) \<and> messages = [] \<and>
    TRACE_ENRICHMENT_TRUNCATED_TAG \<notin> set (tr_tags t) \<and> ''two'' \<in> set (tr_tags t) \<and> user_id = Some ''u1''"
proof -
  let ?e = "demo_capture ''a''"
  obtain t ms uid uname where b: "build_trace demo_build ?e = (t, ms, uid, uname)" by (cases "build_trace demo_build ?e")
  have m: "event_messages demo_build ?e = []"
    by (simp add: event_messages_def demo_capture_def trace_event_base_def parse_trace_def demo_build_def
        demo_json_lib_def response_details_parse_def finish_parser_def response_parser_new_def
        response_details_default_def Let_def)
  have tags: "event_tags demo_build ?e = [''one'', ''two'']" "en_user_id (event_enrichment demo_build ?e) = Some ''u1''"
    "en_user_name (event_enrichment demo_build ?e) = None" "event_hint demo_build ?e = Some ''conv''"
    by (simp_all add: event_tags_def event_enrichment_def run_plugins_def event_hint_def demo_capture_def trace_event_base_def parse_trace_def demo_build_def
        demo_json_lib_def response_details_parse_def finish_parser_def response_parser_new_def or_else_def
        response_details_default_def Let_def trace_tags_def)
  have k: "\<not> identity_cut demo_build ?e"
    by (simp add: identity_cut_def tags event_key_scope demo_build_scope demo_build_digest
        demo_build_scope_json demo_scope_def demo_quote_def bound_optional_text_def bounding limits NUL_def strip_nul_def)
  have "tr_tags t = [''one'', ''two'']"
    unfolding built_trace(2) [OF b]
    using k by (simp add: m tags bound_session_messages_def drain_messages_def bound_trace_tags_def bounding required_tags_def
      Let_def saturating_sub_def limits NUL_def tro.trunc_short)
  then show ?thesis
    using built_trace_truncation_marked [OF b]
    by (simp add: b m tags nonempty_option_def SESSION_MESSAGES_TRUNCATED_TAG_def TRACE_ENRICHMENT_TRUNCATED_TAG_def)
qed

section \<open>The dispatcher\<close>

text \<open>
  \<open>run_dispatcher\<close> without a journal: events wait in the queue, the dispatcher
  holds the one it has received until a worker is free, and a worker releases the
  reservation after \<open>process_trace\<close>. Aborting the pipeline closes the channel and
  drops everything in flight.
\<close>

datatype process_outcome = Build_failed | Persist_failed | Persisted

record dispatcher =
  dp_recorder :: recorder
  dp_worker_count :: nat
  dp_held :: "(trace_event \<times> 64 word) option"
  dp_workers :: "(trace_event \<times> 64 word) list"
  dp_recorded :: nat
  dp_persisted :: "uuid list"
  dp_build_failed :: nat
  dp_persist_failed :: nat
  dp_aborted :: nat

definition recorder_new :: "nat \<Rightarrow> 64 word \<Rightarrow> recorder" where
  "recorder_new queue_capacity max_bytes =
    \<lparr>rc_memory = mb_new max_bytes, rc_queue = [], rc_capacity = max queue_capacity 1, rc_closed = False,
     rc_dropped = 0, rc_enqueued = 0, rc_dropped_memory = 0, rc_dropped_full = 0,
     rc_dropped_closed = 0, rc_warnings = 0\<rparr>"

definition dispatcher_new :: "nat \<Rightarrow> 64 word \<Rightarrow> nat \<Rightarrow> dispatcher" where
  "dispatcher_new queue_capacity max_bytes worker_count =
    \<lparr>dp_recorder = recorder_new queue_capacity max_bytes, dp_worker_count = max worker_count 1,
     dp_held = None, dp_workers = [], dp_recorded = 0, dp_persisted = [], dp_build_failed = 0,
     dp_persist_failed = 0, dp_aborted = 0\<rparr>"

definition process_trace :: "process_outcome \<Rightarrow> trace_event \<Rightarrow> dispatcher \<Rightarrow> dispatcher" where
  "process_trace outcome e d =
    (case outcome of
       Build_failed \<Rightarrow> d\<lparr>dp_build_failed := dp_build_failed d + 1\<rparr>
     | Persist_failed \<Rightarrow> d\<lparr>dp_persist_failed := dp_persist_failed d + 1\<rparr>
     | Persisted \<Rightarrow> d\<lparr>dp_persisted := dp_persisted d @ [te_id e]\<rparr>)"

definition in_flight :: "dispatcher \<Rightarrow> (trace_event \<times> 64 word) list" where
  "in_flight d = dp_workers d @ (case dp_held d of None \<Rightarrow> [] | Some q \<Rightarrow> [q]) @ rc_queue (dp_recorder d)"

inductive dispatch :: "dispatcher \<Rightarrow> dispatcher \<Rightarrow> bool" where
  disp_record: "dispatch d (d\<lparr>dp_recorder := record_event n e (dp_recorder d), dp_recorded := dp_recorded d + 1\<rparr>)"
| disp_recv: "rc_queue (dp_recorder d) = q # qs \<Longrightarrow> dp_held d = None \<Longrightarrow>
    dispatch d (d\<lparr>dp_recorder := (dp_recorder d)\<lparr>rc_queue := qs\<rparr>, dp_held := Some q\<rparr>)"
| disp_spawn: "dp_held d = Some q \<Longrightarrow> length (dp_workers d) < dp_worker_count d \<Longrightarrow>
    dispatch d (d\<lparr>dp_held := None, dp_workers := dp_workers d @ [q]\<rparr>)"
| disp_finish: "i < length (dp_workers d) \<Longrightarrow> dp_workers d ! i = (e, n) \<Longrightarrow>
    dispatch d (process_trace outcome e
      (d\<lparr>dp_workers := take i (dp_workers d) @ drop (Suc i) (dp_workers d),
         dp_recorder := (dp_recorder d)\<lparr>rc_memory := mb_drop (rc_memory (dp_recorder d)) n\<rparr>\<rparr>))"
| disp_abort: "dispatch d (d\<lparr>dp_recorder := (dp_recorder d)\<lparr>rc_closed := True, rc_queue := [],
      rc_memory := foldr (\<lambda>q b. mb_drop b (snd q)) (in_flight d) (rc_memory (dp_recorder d))\<rparr>,
    dp_held := None, dp_workers := [], dp_aborted := dp_aborted d + length (in_flight d)\<rparr>)"

inductive dispatched :: "dispatcher \<Rightarrow> dispatcher \<Rightarrow> bool" where
  dispatched_refl: "dispatched d d"
| dispatched_step: "dispatched d d' \<Longrightarrow> dispatch d' d'' \<Longrightarrow> dispatched d d''"

definition dropped_total :: "recorder \<Rightarrow> nat" where
  "dropped_total r = rc_dropped_memory r + rc_dropped_full r + rc_dropped_closed r"

definition dispatcher_inv :: "dispatcher \<Rightarrow> bool" where
  "dispatcher_inv d \<longleftrightarrow>
    mb.accounted (rc_memory (dp_recorder d)) (map snd (in_flight d)) \<and>
    length (rc_queue (dp_recorder d)) \<le> rc_capacity (dp_recorder d) \<and>
    length (dp_workers d) \<le> dp_worker_count d \<and>
    dp_recorded d = rc_enqueued (dp_recorder d) + dropped_total (dp_recorder d) \<and>
    rc_enqueued (dp_recorder d) = length (in_flight d) + length (dp_persisted d) + dp_build_failed d +
      dp_persist_failed d + dp_aborted d \<and>
    rc_dropped (dp_recorder d) = of_nat (dropped_total (dp_recorder d))"

lemma release_last:
  "mb.accounted b (out @ [n]) \<Longrightarrow> mb.accounted (mb_drop b n) out"
  using mb.accounted_release [of b "out @ [n]" "length out"] by simp

lemma release_all:
  "mb.accounted b (map snd qs) \<Longrightarrow> mb.accounted (foldr (\<lambda>q b. mb_drop b (snd q)) qs b) []"
proof (induction qs arbitrary: b rule: rev_induct)
  case (snoc q qs) then show ?case by (simp add: release_last)
qed simp

lemma recorder_step:
  assumes "mb.accounted (rc_memory r) (pre @ map snd (rc_queue r))" "length (rc_queue r) \<le> rc_capacity r"
  shows "mb.accounted (rc_memory (record_event n e r)) (pre @ map snd (rc_queue (record_event n e r))) \<and>
    length (rc_queue (record_event n e r)) \<le> rc_capacity (record_event n e r) \<and>
    rc_enqueued (record_event n e r) + dropped_total (record_event n e r) =
      rc_enqueued r + dropped_total r + 1 \<and>
    rc_enqueued (record_event n e r) + length (rc_queue r) =
      rc_enqueued r + length (rc_queue (record_event n e r)) \<and>
    (rc_dropped r = of_nat (dropped_total r) \<longrightarrow>
      rc_dropped (record_event n e r) = of_nat (dropped_total (record_event n e r)))"
proof (cases "mb_reserve (rc_memory r) n")
  case None
  with assms show ?thesis by (simp add: record_event_def warn_dropped_def Let_def dropped_total_def)
next
  case (Some mem)
  note acc = mb.accounted_reserve [OF assms(1) Some]
  from release_last [OF acc] acc assms(2) Some show ?thesis
    by (simp add: record_event_def warn_dropped_def Let_def dropped_total_def)
qed

lemma dispatch_inv: "dispatch d d' \<Longrightarrow> dispatcher_inv d \<Longrightarrow> dispatcher_inv d'"
proof (induction rule: dispatch.induct)
  case (disp_record d n e)
  let ?pre = "map snd (dp_workers d @ (case dp_held d of None \<Rightarrow> [] | Some q \<Rightarrow> [q]))"
  from disp_record recorder_step [of "dp_recorder d" ?pre n e] show ?case
    by (simp add: dispatcher_inv_def in_flight_def)
next
  case (disp_finish i d e n outcome)
  have f: "map snd (in_flight d) ! i = n" "i < length (in_flight d)"
    using disp_finish by (auto simp: in_flight_def nth_append)
  from mb.accounted_release [of "rc_memory (dp_recorder d)" "map snd (in_flight d)" i] f disp_finish
  show ?case
    by (cases outcome) (auto simp: dispatcher_inv_def in_flight_def process_trace_def dropped_total_def
        take_map drop_map)
next
  case (disp_abort d)
  from release_all [of _ "in_flight d"] disp_abort show ?case
    by (auto simp: dispatcher_inv_def dropped_total_def in_flight_def)
qed (auto simp: dispatcher_inv_def in_flight_def dropped_total_def)

lemma dispatched_inv: "dispatched d d' \<Longrightarrow> dispatcher_inv d \<Longrightarrow> dispatcher_inv d'"
  by (induction rule: dispatched.induct) (auto intro: dispatch_inv)

lemma record_event_frame [simp]:
  "rc_capacity (record_event n e r) = rc_capacity r"
  "mb_limit (rc_memory (record_event n e r)) = mb_limit (rc_memory r)"
  by (auto simp: record_event_def warn_dropped_def Let_def mb_drop_def mb_reserve_def
      split: option.splits if_splits)

lemma release_all_limit: "mb_limit (foldr (\<lambda>q b. mb_drop b (snd q)) qs b) = mb_limit b"
  by (induction qs) (simp_all add: mb_drop_def)

lemma process_trace_frame [simp]:
  "dp_worker_count (process_trace outcome e d) = dp_worker_count d"
  "dp_recorder (process_trace outcome e d) = dp_recorder d"
  by (cases outcome; simp add: process_trace_def)+

lemma mb_drop_limit: "mb_limit (mb_drop b n) = mb_limit b"
  by (simp add: mb_drop_def)

lemma dispatch_frame:
  "dispatch d d' \<Longrightarrow> dp_worker_count d' = dp_worker_count d \<and>
    rc_capacity (dp_recorder d') = rc_capacity (dp_recorder d) \<and>
    mb_limit (rc_memory (dp_recorder d')) = mb_limit (rc_memory (dp_recorder d))"
  by (induction rule: dispatch.induct) (simp_all add: release_all_limit mb_drop_limit)

lemma dispatched_frame:
  "dispatched d d' \<Longrightarrow> dp_worker_count d' = dp_worker_count d \<and>
    rc_capacity (dp_recorder d') = rc_capacity (dp_recorder d) \<and>
    mb_limit (rc_memory (dp_recorder d')) = mb_limit (rc_memory (dp_recorder d))"
  by (induction rule: dispatched.induct) (auto dest: dispatch_frame)

lemma dispatcher_new_inv: "dispatcher_inv (dispatcher_new c m w)"
  by (simp add: dispatcher_inv_def dispatcher_new_def recorder_new_def in_flight_def mb.accounted_def
      mb_new_def dropped_total_def)

text \<open>C16: for every interleaving of captures, the dispatcher, worker completions
  with any outcome and an abort, the byte counter is the exact sum of the reservations
  of the queued, held and processed events and stays within the limit, the queue and
  the workers stay within their configured sizes, and every event recorded is counted
  exactly once: dropped, in flight, persisted, failed or aborted.
\<close>

theorem dispatcher_accounting:
  assumes "dispatched (dispatcher_new queue_capacity max_bytes worker_count) d"
  shows "unat (mb_used (rc_memory (dp_recorder d))) = sum_list (map (unat \<circ> snd) (in_flight d)) \<and>
    mb_used (rc_memory (dp_recorder d)) \<le> max max_bytes 1 \<and>
    length (rc_queue (dp_recorder d)) \<le> max queue_capacity 1 \<and>
    length (dp_workers d) \<le> max worker_count 1 \<and>
    dp_recorded d = dropped_total (dp_recorder d) + length (in_flight d) + length (dp_persisted d) +
      dp_build_failed d + dp_persist_failed d + dp_aborted d"
  using dispatched_inv [OF assms dispatcher_new_inv] dispatched_frame [OF assms]
  by (simp add: dispatcher_inv_def mb.accounted_def dispatcher_new_def recorder_new_def mb_new_def
      word_le_nat_alt comp_def)

theorem dispatcher_accounting_witness:
  "\<exists>d. dispatched (dispatcher_new 1 100 1) d \<and> dp_persisted d = [7] \<and> dropped_total (dp_recorder d) = 1 \<and>
    dp_recorded d = 2 \<and> unat (mb_used (rc_memory (dp_recorder d))) = sum_list (map (unat \<circ> snd) (in_flight d))"
proof -
  let ?e = "trace_event_base 7 0"
  define d1 where "d1 = (dispatcher_new 1 100 1)\<lparr>dp_recorder := record_event 10 ?e (dp_recorder (dispatcher_new 1 100 1)),
    dp_recorded := dp_recorded (dispatcher_new 1 100 1) + 1\<rparr>"
  define d2 where "d2 = d1\<lparr>dp_recorder := record_event 10 ?e (dp_recorder d1), dp_recorded := dp_recorded d1 + 1\<rparr>"
  define d3 where "d3 = d2\<lparr>dp_recorder := (dp_recorder d2)\<lparr>rc_queue := []\<rparr>, dp_held := Some (?e, 10)\<rparr>"
  define d4 where "d4 = d3\<lparr>dp_held := None, dp_workers := dp_workers d3 @ [(?e, 10)]\<rparr>"
  define d5 where "d5 = process_trace Persisted ?e (d4\<lparr>dp_workers := take 0 (dp_workers d4) @ drop (Suc 0) (dp_workers d4),
    dp_recorder := (dp_recorder d4)\<lparr>rc_memory := mb_drop (rc_memory (dp_recorder d4)) 10\<rparr>\<rparr>)"
  note eval = dispatcher_new_def recorder_new_def record_event_def mb_reserve_def mb_new_def word_checked_add_def
    warn_dropped_def Let_def
  have q1: "rc_queue (dp_recorder d1) = [(?e, 10)]" "rc_capacity (dp_recorder d1) = 1" "\<not> rc_closed (dp_recorder d1)"
    "rc_memory (dp_recorder d1) = \<lparr>mb_limit = 100, mb_used = 10\<rparr>" "dp_held d1 = None" "dp_workers d1 = []"
    "dp_worker_count d1 = 1" "dropped_total (dp_recorder d1) = 0" "dp_recorded d1 = 1" "dp_persisted d1 = []"
    by (simp_all add: d1_def eval dropped_total_def)
  have q2: "rc_queue (dp_recorder d2) = [(?e, 10)]" "dp_held d2 = None" "dp_workers d2 = []"
    "dp_worker_count d2 = 1" "dropped_total (dp_recorder d2) = 1" "dp_recorded d2 = 2" "dp_persisted d2 = []"
    using q1 by (simp_all add: d2_def record_event_def mb_reserve_def word_checked_add_def warn_dropped_def
        Let_def dropped_total_def)
  have "dispatched (dispatcher_new 1 100 1) d1"
    unfolding d1_def by (rule dispatched_step [OF dispatched_refl disp_record])
  then have "dispatched (dispatcher_new 1 100 1) d2" unfolding d2_def by (rule dispatched_step [OF _ disp_record])
  then have "dispatched (dispatcher_new 1 100 1) d3"
    unfolding d3_def by (rule dispatched_step [OF _ disp_recv]) (use q2 in simp_all)
  then have "dispatched (dispatcher_new 1 100 1) d4"
    unfolding d4_def by (rule dispatched_step [OF _ disp_spawn]) (use q2 in \<open>simp_all add: d3_def\<close>)
  then have r: "dispatched (dispatcher_new 1 100 1) d5"
    unfolding d5_def by (rule dispatched_step [OF _ disp_finish]) (use q2 in \<open>simp_all add: d4_def d3_def\<close>)
  have "dp_persisted d5 = [7]" "dropped_total (dp_recorder d5) = 1" "dp_recorded d5 = 2"
    using q2 by (simp_all add: d5_def d4_def d3_def process_trace_def trace_event_base_def dropped_total_def)
  with r dispatcher_accounting [OF r] show ?thesis by blast
qed

end
