(* ===== verification/LT_Archive.thy ===== *)
theory LT_Archive
  imports LT_Trace LT_Journal_Codec
begin

text \<open>
  \<open>storage/archive.rs\<close> and \<open>storage/bodies.rs\<close>: how the two captured bodies of a trace
  are framed, compressed, stored in the archive tables or files, and read back. The
  compressor, the digest, the serialised frame header and the printing of identifiers
  are external, the fields of \<open>archive_lib\<close>; \<open>zstd_read\<close> reads at most the given number
  of decompressed bytes.
\<close>

record archive_lib =
  zstd_encode :: "int \<Rightarrow> bytes \<Rightarrow> bytes option"
  zstd_read :: "bytes \<Rightarrow> nat \<Rightarrow> bytes option"
  al_sha256 :: "bytes \<Rightarrow> bytes"
  al_hex :: "bytes \<Rightarrow> string"
  frame_header :: "uuid \<Rightarrow> string \<Rightarrow> string option \<Rightarrow> bytes"
  al_show_uuid :: "uuid \<Rightarrow> string"
  uuid_bytes :: "uuid \<Rightarrow> bytes"
  uuid_from_bytes :: "bytes \<Rightarrow> uuid"
  base64 :: "bytes \<Rightarrow> string"

definition archive_digest :: "archive_lib \<Rightarrow> bytes \<Rightarrow> string" where
  "archive_digest L b = al_hex L (al_sha256 L b)"

datatype archive_error =
    Compression_failed
  | Limit_too_large
  | Decompression_failed
  | Exceeds_limit nat
  | Exceeds_i64
  | Header_too_large
  | Segment_too_large
  | Negative_offset
  | Frame_overflows
  | Frame_out_of_bounds
  | Negative_size
  | Invalid_key
  | Blob_missing
  | Unknown_backend string
  | Archive_io
  | Archive_checksum_mismatch
  | Body_length_mismatch
  | Body_checksum_mismatch
  | Index_overflow

section \<open>Compression and frames\<close>

definition MAX_ARCHIVE_SEGMENT_DECODE_BYTES :: nat where
  "MAX_ARCHIVE_SEGMENT_DECODE_BYTES = 2147483648"

definition compress_with_level :: "archive_lib \<Rightarrow> bytes \<Rightarrow> int \<Rightarrow> archive_error + bytes" where
  "compress_with_level L dat level =
    (if dat = [] then Inr [] else ok_or (zstd_encode L level dat) Compression_failed)"

definition decompress_with_limit :: "archive_lib \<Rightarrow> bytes \<Rightarrow> nat \<Rightarrow> archive_error + bytes" where
  "decompress_with_limit L dat limit =
    (if dat = [] then Inr []
     else bind_res (ok_or (checked_add limit 1) Limit_too_large) (\<lambda>read_limit.
          bind_res (ok_or (zstd_read L dat read_limit) Decompression_failed) (\<lambda>output.
          if length output > limit then Inl (Exceeds_limit limit) else Inr output)))"

definition usize_to_i64_checked :: "nat \<Rightarrow> archive_error + int" where
  "usize_to_i64_checked n = (if int n \<le> i64_max then Inr (int n) else Inl Exceeds_i64)"

datatype payload_direction = RequestBody | ResponseBody

fun direction_as_str :: "payload_direction \<Rightarrow> string" where
  "direction_as_str RequestBody = ''request_body''"
| "direction_as_str ResponseBody = ''response_body''"

definition encode_archive_frame ::
  "archive_lib \<Rightarrow> uuid \<Rightarrow> payload_direction \<Rightarrow> string option \<Rightarrow> bytes \<Rightarrow> archive_error + bytes" where
  "encode_archive_frame L trace_id direction content_type body =
    (let header = frame_header L trace_id (direction_as_str direction) content_type
     in if length header > u32_max then Inl Header_too_large
        else Inr (be_bytes 4 (length header) @ header @ be_bytes 8 (length body) @ body))"

text \<open>\<open>segment.get(a..b)\<close>\<close>

definition slice_get :: "bytes \<Rightarrow> nat \<Rightarrow> nat \<Rightarrow> bytes option" where
  "slice_get s a b = (if a \<le> b \<and> b \<le> length s then Some (take (b - a) (drop a s)) else None)"

definition frame_part :: "bytes \<Rightarrow> nat \<Rightarrow> nat \<Rightarrow> archive_error + bytes \<times> nat" where
  "frame_part segment cursor len =
    bind_res (ok_or (checked_add cursor len) Frame_overflows) (\<lambda>part_end.
    bind_res (ok_or (slice_get segment cursor part_end) Frame_out_of_bounds) (\<lambda>part.
    Inr (part, part_end)))"

definition decode_archive_frame_body :: "bytes \<Rightarrow> int \<Rightarrow> archive_error + bytes" where
  "decode_archive_frame_body segment offset =
    (if offset < 0 then Inl Negative_offset
     else bind_res (frame_part segment (nat offset) 4) (\<lambda>(header_len_bytes, cursor).
          bind_res (frame_part segment cursor (be_value header_len_bytes)) (\<lambda>(_, cursor).
          bind_res (frame_part segment cursor 8) (\<lambda>(body_len_bytes, cursor).
          bind_res (frame_part segment cursor (be_value body_len_bytes)) (\<lambda>(body, _).
          Inr body)))))"

section \<open>Preparing the segments of a trace\<close>

record prepared_record =
  pr_direction :: payload_direction
  pr_content_type :: "string option"
  pr_uncompressed_len :: int
  pr_body_sha256 :: string
  pr_frame :: bytes

record archive_write =
  aw_direction :: payload_direction
  aw_content_type :: "string option"
  aw_uncompressed_offset :: int
  aw_uncompressed_len :: int
  aw_body_sha256 :: string

record prepared_segment =
  sg_compressed :: bytes
  sg_checksum :: string
  sg_uncompressed_bytes :: int
  sg_writes :: "archive_write list"

definition prepare_archive_record ::
  "archive_lib \<Rightarrow> uuid \<Rightarrow> payload_direction \<Rightarrow> string option \<Rightarrow> bytes \<Rightarrow> archive_error + prepared_record" where
  "prepare_archive_record L trace_id direction content_type body =
    bind_res (encode_archive_frame L trace_id direction content_type body) (\<lambda>frame.
    bind_res (usize_to_i64_checked (length body)) (\<lambda>len.
    Inr \<lparr>pr_direction = direction, pr_content_type = content_type, pr_uncompressed_len = len,
         pr_body_sha256 = archive_digest L body, pr_frame = frame\<rparr>))"

fun segment_writes ::
  "prepared_record list \<Rightarrow> bytes \<Rightarrow> archive_write list \<Rightarrow> archive_error + bytes \<times> archive_write list" where
  "segment_writes [] buffer writes = Inr (buffer, writes)"
| "segment_writes (r # rs) buffer writes =
    bind_res (usize_to_i64_checked (length buffer)) (\<lambda>offset.
    segment_writes rs (buffer @ pr_frame r)
      (writes @ [\<lparr>aw_direction = pr_direction r, aw_content_type = pr_content_type r,
                  aw_uncompressed_offset = offset, aw_uncompressed_len = pr_uncompressed_len r,
                  aw_body_sha256 = pr_body_sha256 r\<rparr>]))"

definition prepare_archive_segment ::
  "archive_lib \<Rightarrow> prepared_record list \<Rightarrow> int \<Rightarrow> archive_error + prepared_segment" where
  "prepare_archive_segment L records level =
    bind_res (segment_writes records [] []) (\<lambda>(buffer, writes).
    bind_res (usize_to_i64_checked (length buffer)) (\<lambda>uncompressed_bytes.
    bind_res (compress_with_level L buffer level) (\<lambda>compressed.
    Inr \<lparr>sg_compressed = compressed, sg_checksum = archive_digest L compressed,
         sg_uncompressed_bytes = uncompressed_bytes, sg_writes = writes\<rparr>)))"

datatype storage_backend = Filesystem | Postgres

fun storage_backend_as_str :: "storage_backend \<Rightarrow> string" where
  "storage_backend_as_str Filesystem = ''filesystem''"
| "storage_backend_as_str Postgres = ''postgres''"

record archive_config =
  ac_storage_backend :: storage_backend
  ac_filesystem_root :: string
  ac_segment_uncompressed_bytes :: nat
  ac_compression_level :: int

text \<open>The bodies are taken out of the trace; a trace whose frames do not fit one
  segment gets one segment per body.\<close>

definition prepare_trace_payloads ::
  "archive_lib \<Rightarrow> archive_config \<Rightarrow> trace_record \<Rightarrow> archive_error + prepared_segment list" where
  "prepare_trace_payloads L cfg t =
    bind_res (prepare_archive_record L (tr_id t) RequestBody None (tr_request_body t)) (\<lambda>req.
    bind_res (prepare_archive_record L (tr_id t) ResponseBody (tr_content_type t) (tr_response_body t)) (\<lambda>resp.
    bind_res (ok_or (checked_add (length (pr_frame req)) (length (pr_frame resp))) Segment_too_large) (\<lambda>total.
    if total > ac_segment_uncompressed_bytes cfg
    then bind_res (prepare_archive_segment L [req] (ac_compression_level cfg)) (\<lambda>s1.
         bind_res (prepare_archive_segment L [resp] (ac_compression_level cfg)) (\<lambda>s2. Inr [s1, s2]))
    else bind_res (prepare_archive_segment L [req, resp] (ac_compression_level cfg)) (\<lambda>s. Inr [s]))))"

section \<open>The archive tables and files\<close>

record archive_segment =
  as_session :: "uuid option"
  as_index :: int
  as_uncompressed_bytes :: int
  as_compressed_bytes :: int
  as_record_count :: int
  as_backend :: string
  as_key :: string
  as_checksum :: string
  as_sealed :: bool

record archive_record =
  ar_trace_id :: uuid
  ar_session :: "uuid option"
  ar_segment_id :: uuid
  ar_index :: int
  ar_direction :: string
  ar_content_type :: "string option"
  ar_uncompressed_offset :: int
  ar_uncompressed_len :: int
  ar_body_sha256 :: string
  ar_complete :: bool

record archive_store =
  st_segments :: "(uuid \<times> archive_segment) list"
  st_blobs :: "(uuid \<times> bytes) list"
  st_records :: "archive_record list"
  st_files :: "(string \<times> bytes) list"

text \<open>A storage key is a relative path without parent components; paths are the
  keys below the configured root.\<close>

definition archive_file_path :: "string \<Rightarrow> archive_error + string" where
  "archive_file_path key =
    (if starts_with key ''/'' \<or> ''..'' \<in> set (split_on CHR ''/'' key) then Inl Invalid_key else Inr key)"

text \<open>The file is written beside its destination, synced and renamed, then the directories are
  synced: a failure up to the renaming leaves the destination as it was, a failure after it leaves
  the new file there and is reported all the same.\<close>

datatype file_write = Write_done | Write_failed | Sync_failed

definition write_archive_file :: "file_write \<Rightarrow> string \<Rightarrow> bytes \<Rightarrow> archive_store \<Rightarrow> (archive_error + unit) \<times> archive_store" where
  "write_archive_file io key compressed s =
    (case archive_file_path key of
       Inl e \<Rightarrow> (Inl e, s)
     | Inr path \<Rightarrow>
         (let renamed = s\<lparr>st_files := AList.update path compressed (st_files s)\<rparr> in
          case io of
            Write_done \<Rightarrow> (Inr (), renamed)
          | Write_failed \<Rightarrow> (Inl Archive_io, s)
          | Sync_failed \<Rightarrow> (Inl Archive_io, renamed)))"

definition read_archive_file :: "string \<Rightarrow> archive_store \<Rightarrow> archive_error + bytes" where
  "read_archive_file key s =
    bind_res (archive_file_path key) (\<lambda>path. ok_or (map_of (st_files s) path) Archive_io)"

definition next_archive_segment_index :: "uuid option \<Rightarrow> archive_store \<Rightarrow> archive_error + int" where
  "next_archive_segment_index session s =
    (let indexes = map (as_index \<circ> snd) (filter (\<lambda>p. as_session (snd p) = session) (st_segments s));
         m = foldr max indexes (-1)
     in if m + 1 \<le> i64_max then Inr (m + 1) else Inl Index_overflow)"

definition pad20 :: "int \<Rightarrow> string" where
  "pad20 i = replicate (20 - length (show_int i)) CHR ''0'' @ show_int i"

definition archive_storage_key :: "archive_lib \<Rightarrow> uuid option \<Rightarrow> uuid \<Rightarrow> int \<Rightarrow> string" where
  "archive_storage_key L session segment_id segment_index =
    (case session of Some i \<Rightarrow> al_show_uuid L i | None \<Rightarrow> ''unscoped/'' @ al_show_uuid L segment_id) @
    ''/'' @ pad20 segment_index @ ''-'' @ al_show_uuid L segment_id @ ''.zst''"

text \<open>With a journal the segment and its key are functions of the content, so that a
  retried transaction reuses them; \<open>fresh\<close> is the random identifier used otherwise.\<close>

definition segment_id_of :: "archive_lib \<Rightarrow> uuid option \<Rightarrow> uuid \<Rightarrow> uuid \<Rightarrow> prepared_segment \<Rightarrow> uuid" where
  "segment_id_of L journal trace_id fresh sg =
    (case journal of
       Some j \<Rightarrow> uuid_from_bytes L
         (take 16 (al_sha256 L (uuid_bytes L j @ uuid_bytes L trace_id @ sg_checksum sg)))
     | None \<Rightarrow> fresh)"

definition storage_key_of ::
  "archive_lib \<Rightarrow> uuid option \<Rightarrow> trace_record \<Rightarrow> uuid \<Rightarrow> int \<Rightarrow> prepared_segment \<Rightarrow> string" where
  "storage_key_of L journal t segment_id index sg =
    (case journal of
       Some j \<Rightarrow> ''journal/'' @ al_show_uuid L j @ ''/'' @ al_show_uuid L (tr_id t) @ ''/'' @ sg_checksum sg @ ''.zst''
     | None \<Rightarrow> archive_storage_key L (tr_session_id t) segment_id index)"

text \<open>On conflict the session and the index of the existing row stay.\<close>

definition upsert_archive_segment :: "uuid \<Rightarrow> archive_segment \<Rightarrow> archive_store \<Rightarrow> archive_store" where
  "upsert_archive_segment segment_id row s =
    (let row = (case map_of (st_segments s) segment_id of
         None \<Rightarrow> row
       | Some old \<Rightarrow> row\<lparr>as_session := as_session old, as_index := as_index old\<rparr>)
     in s\<lparr>st_segments := AList.update segment_id row (st_segments s)\<rparr>)"

definition update_segment :: "uuid \<Rightarrow> (archive_segment \<Rightarrow> archive_segment) \<Rightarrow> archive_store \<Rightarrow> archive_store" where
  "update_segment segment_id f s =
    s\<lparr>st_segments := map (\<lambda>p. if fst p = segment_id then (fst p, f (snd p)) else p) (st_segments s)\<rparr>"

definition persist_archive_segment ::
  "archive_lib \<Rightarrow> archive_config \<Rightarrow> file_write \<Rightarrow> uuid \<Rightarrow> string \<Rightarrow> bytes \<Rightarrow> archive_store
    \<Rightarrow> (string \<times> string) \<times> archive_store" where
  "persist_archive_segment L cfg io segment_id preferred_storage_key compressed s =
    (let in_postgres = (\<lambda>s. ((storage_backend_as_str Postgres, al_show_uuid L segment_id),
           s\<lparr>st_blobs := AList.update segment_id compressed (st_blobs s)\<rparr>))
     in if ac_storage_backend cfg = Filesystem
        then (case write_archive_file io preferred_storage_key compressed s of
                (Inr _, s) \<Rightarrow>
                  ((storage_backend_as_str Filesystem, preferred_storage_key),
                   s\<lparr>st_blobs := filter (\<lambda>p. fst p \<noteq> segment_id) (st_blobs s)\<rparr>)
              | (Inl _, s) \<Rightarrow> in_postgres s)
        else in_postgres s)"

definition record_row :: "trace_record \<Rightarrow> uuid \<Rightarrow> int \<Rightarrow> archive_write \<Rightarrow> archive_record" where
  "record_row t segment_id index w =
    \<lparr>ar_trace_id = tr_id t, ar_session = tr_session_id t, ar_segment_id = segment_id, ar_index = index,
     ar_direction = direction_as_str (aw_direction w), ar_content_type = aw_content_type w,
     ar_uncompressed_offset = aw_uncompressed_offset w, ar_uncompressed_len = aw_uncompressed_len w,
     ar_body_sha256 = aw_body_sha256 w,
     ar_complete = (case aw_direction w of
        RequestBody \<Rightarrow> \<not> tr_request_body_truncated t | ResponseBody \<Rightarrow> \<not> tr_response_body_truncated t)\<rparr>"

definition insert_archive_records :: "trace_record \<Rightarrow> uuid \<Rightarrow> archive_write list \<Rightarrow> archive_store \<Rightarrow> archive_store" where
  "insert_archive_records t segment_id writes s =
    s\<lparr>st_records := st_records s @
      map (\<lambda>(i, w). record_row t segment_id (int i) w) (enumerate 0 writes)\<rparr>"

definition archive_prepared_payloads ::
  "archive_lib \<Rightarrow> archive_config \<Rightarrow> uuid option \<Rightarrow> trace_record \<Rightarrow> file_write \<Rightarrow> uuid \<Rightarrow> prepared_segment
    \<Rightarrow> archive_store \<Rightarrow> archive_error + archive_store" where
  "archive_prepared_payloads L cfg journal t io fresh sg s =
    (let segment_id = segment_id_of L journal (tr_id t) fresh sg in
     bind_res (next_archive_segment_index (tr_session_id t) s) (\<lambda>segment_index.
     let storage_key = storage_key_of L journal t segment_id segment_index sg in
     bind_res (usize_to_i64_checked (length (sg_compressed sg))) (\<lambda>compressed_bytes.
     let s = upsert_archive_segment segment_id
           \<lparr>as_session = tr_session_id t, as_index = segment_index,
            as_uncompressed_bytes = sg_uncompressed_bytes sg, as_compressed_bytes = compressed_bytes,
            as_record_count = int (length (sg_writes sg)),
            as_backend = storage_backend_as_str (ac_storage_backend cfg), as_key = storage_key,
            as_checksum = sg_checksum sg, as_sealed = False\<rparr> s;
         ((backend, key), s) = persist_archive_segment L cfg io segment_id storage_key (sg_compressed sg) s;
         s = update_segment segment_id (\<lambda>r. r\<lparr>as_backend := backend, as_key := key\<rparr>) s;
         s = update_segment segment_id (\<lambda>r. r\<lparr>as_sealed := True\<rparr>) s
     in Inr (insert_archive_records t segment_id (sg_writes sg) s))))"

text \<open>The loop over the payloads in \<open>insert_trace_internal\<close>, with the outcome of each
  file write and the random identifiers given.\<close>

fun archive_payloads ::
  "archive_lib \<Rightarrow> archive_config \<Rightarrow> uuid option \<Rightarrow> trace_record \<Rightarrow> (file_write \<times> uuid) list \<Rightarrow> prepared_segment list
    \<Rightarrow> archive_store \<Rightarrow> archive_error + archive_store" where
  "archive_payloads L cfg journal t ((io, fresh) # choices) (sg # sgs) s =
    bind_res (archive_prepared_payloads L cfg journal t io fresh sg s)
      (archive_payloads L cfg journal t choices sgs)"
| "archive_payloads L cfg journal t _ _ s = Inr s"

section \<open>Reading the bodies back\<close>

datatype body_status = Available | Missing | Unreadable

record captured_body =
  cb_status :: body_status
  cb_bytes :: "bytes option"
  cb_truncated :: bool

definition body_available :: "bytes \<Rightarrow> bool \<Rightarrow> captured_body" where
  "body_available b truncated = \<lparr>cb_status = Available, cb_bytes = Some b, cb_truncated = truncated\<rparr>"

definition body_unavailable :: "body_status \<Rightarrow> bool \<Rightarrow> captured_body" where
  "body_unavailable status truncated = \<lparr>cb_status = status, cb_bytes = None, cb_truncated = truncated\<rparr>"

record export_body =
  eb_status :: body_status
  eb_encoding :: "string option"
  eb_data :: "string option"
  eb_captured_bytes :: "nat option"
  eb_truncated :: bool

definition into_export :: "archive_lib \<Rightarrow> captured_body \<Rightarrow> export_body" where
  "into_export L c =
    (let (encoding, dat) = (case cb_bytes c of
           Some b \<Rightarrow> if utf8_valid b then (Some ''utf8'', Some b) else (Some ''base64'', Some (base64 L b))
         | None \<Rightarrow> (None, None))
     in \<lparr>eb_status = cb_status c, eb_encoding = encoding, eb_data = dat,
         eb_captured_bytes = map_option length (cb_bytes c), eb_truncated = cb_truncated c\<rparr>)"

definition archive_decode_limit :: "int \<Rightarrow> archive_error + nat" where
  "archive_decode_limit uncompressed_bytes =
    (if uncompressed_bytes < 0 then Inl Negative_size
     else if nat uncompressed_bytes > MAX_ARCHIVE_SEGMENT_DECODE_BYTES
     then Inl (Exceeds_limit MAX_ARCHIVE_SEGMENT_DECODE_BYTES)
     else Inr (nat uncompressed_bytes))"

definition decode_segment :: "archive_lib \<Rightarrow> archive_store \<Rightarrow> uuid \<times> archive_segment \<Rightarrow> archive_error + bytes" where
  "decode_segment L s sg =
    bind_res (if as_backend (snd sg) = ''filesystem'' then read_archive_file (as_key (snd sg)) s
              else if as_backend (snd sg) = ''postgres'' then ok_or (map_of (st_blobs s) (fst sg)) Blob_missing
              else Inl (Unknown_backend (as_backend (snd sg)))) (\<lambda>compressed.
    bind_res (ensure (archive_digest L compressed = as_checksum (snd sg)) Archive_checksum_mismatch) (\<lambda>_.
    bind_res (archive_decode_limit (as_uncompressed_bytes (snd sg))) (\<lambda>limit.
    decompress_with_limit L compressed limit)))"

definition decode_record :: "archive_lib \<Rightarrow> bytes \<Rightarrow> archive_record \<Rightarrow> archive_error + bytes" where
  "decode_record L segment r =
    bind_res (decode_archive_frame_body segment (ar_uncompressed_offset r)) (\<lambda>body.
    bind_res (ensure (int (length body) = ar_uncompressed_len r) Body_length_mismatch) (\<lambda>_.
    bind_res (ensure (archive_digest L body = ar_body_sha256 r) Body_checksum_mismatch) (\<lambda>_.
    Inr body)))"

text \<open>The pair of bodies, indexed by whether the direction is the response.\<close>

definition is_response :: "archive_record \<Rightarrow> bool" where
  "is_response r \<longleftrightarrow> ar_direction r = ''response_body''"

definition set_body :: "bool \<Rightarrow> (captured_body \<Rightarrow> captured_body) \<Rightarrow> captured_body \<times> captured_body \<Rightarrow> captured_body \<times> captured_body" where
  "set_body resp f bs = (if resp then (fst bs, f (snd bs)) else (f (fst bs), snd bs))"

definition decode_into :: "archive_lib \<Rightarrow> bytes \<Rightarrow> archive_record \<Rightarrow> captured_body \<times> captured_body \<Rightarrow> captured_body \<times> captured_body" where
  "decode_into L segment r bs =
    (case decode_record L segment r of
       Inr body \<Rightarrow> set_body (is_response r) (\<lambda>b. body_available body (cb_truncated b)) bs
     | Inl _ \<Rightarrow> bs)"

definition decode_segment_bodies ::
  "archive_lib \<Rightarrow> archive_store \<Rightarrow> archive_record list \<Rightarrow> uuid \<times> archive_segment
    \<Rightarrow> captured_body \<times> captured_body \<Rightarrow> captured_body \<times> captured_body" where
  "decode_segment_bodies L s records sg bs =
    (case decode_segment L s sg of
       Inr segment \<Rightarrow> fold (decode_into L segment) (filter (\<lambda>r. ar_segment_id r = fst sg) records) bs
     | Inl _ \<Rightarrow> bs)"

definition inline_body :: "archive_lib \<Rightarrow> bytes \<Rightarrow> int \<Rightarrow> bool \<Rightarrow> captured_body" where
  "inline_body L compressed observed truncated =
    (if compressed = []
     then (if observed = 0 then body_available [] truncated else body_unavailable Missing truncated)
     else case bind_res (archive_decode_limit observed) (decompress_with_limit L compressed) of
            Inr b \<Rightarrow> body_available b truncated
          | Inl _ \<Rightarrow> body_unavailable Unreadable truncated)"

definition decode_bodies ::
  "archive_lib \<Rightarrow> archive_store \<Rightarrow> archive_record list \<Rightarrow> (uuid \<times> archive_segment) list \<Rightarrow> bytes \<times> bytes
    \<Rightarrow> int \<times> int \<Rightarrow> bool \<times> bool \<Rightarrow> captured_body \<times> captured_body" where
  "decode_bodies L s records segments inl observed truncated =
    (let bodies = (body_unavailable Unreadable (fst truncated), body_unavailable Unreadable (snd truncated));
         bodies = fold (\<lambda>r. set_body (is_response r)
           (\<lambda>b. b\<lparr>cb_truncated := cb_truncated b \<or> \<not> ar_complete r\<rparr>)) records bodies;
         bodies = fold (decode_segment_bodies L s records) segments bodies;
         bodies = (if list_ex (\<lambda>r. \<not> is_response r) records then bodies
           else set_body False (\<lambda>_. inline_body L (fst inl) (fst observed) (fst truncated)) bodies)
     in if list_ex is_response records then bodies
        else set_body True (\<lambda>_. inline_body L (snd inl) (snd observed) (snd truncated)) bodies)"

text \<open>The rows the two queries return, and the inline columns of older traces, which
  are read only when an archive record is absent.\<close>

definition trace_records :: "uuid \<Rightarrow> archive_store \<Rightarrow> archive_record list" where
  "trace_records i s = filter (\<lambda>r. ar_trace_id r = i \<and>
    (ar_direction r = ''request_body'' \<or> ar_direction r = ''response_body'')) (st_records s)"

definition load_trace_bodies ::
  "archive_lib \<Rightarrow> archive_store \<Rightarrow> uuid \<Rightarrow> (bytes \<times> bytes) option \<Rightarrow> int \<times> int \<Rightarrow> bool \<times> bool
    \<Rightarrow> captured_body \<times> captured_body" where
  "load_trace_bodies L s i inline_row observed truncated =
    (let records = trace_records i s;
         segments = filter (\<lambda>p. fst p \<in> ar_segment_id ` set records) (st_segments s);
         inl = (if length records < 2 then (case inline_row of Some r \<Rightarrow> r | None \<Rightarrow> ([], [])) else ([], []))
     in decode_bodies L s records segments inl observed truncated)"

section \<open>Frames\<close>

lemma slice_get_append: "slice_get (pre @ part @ post) (length pre) (length pre + length part) = Some part"
  by (simp add: slice_get_def)

lemma frame_part_append:
  assumes "length pre + length part \<le> u64_max"
  shows "frame_part (pre @ part @ post) (length pre) (length part) = Inr (part, length pre + length part)"
  using assms by (simp add: frame_part_def checked_add_def ok_or_def slice_get_append)

text \<open>A frame anywhere in a segment decodes to the body it was made of.\<close>

lemma frame_round_trip:
  assumes "encode_archive_frame L i d ct body = Inr frame"
    and "length (pre @ frame) \<le> u64_max"
  shows "decode_archive_frame_body (pre @ frame @ post) (int (length pre)) = Inr body"
proof -
  let ?h = "frame_header L i (direction_as_str d) ct"
  let ?hl = "be_bytes 4 (length ?h)" and ?bl = "be_bytes 8 (length body)"
  have f: "frame = ?hl @ ?h @ ?bl @ body" and h: "length ?h \<le> u32_max"
    using assms(1) by (auto simp: encode_archive_frame_def Let_def split: if_splits)
  have l [simp]: "length ?hl = 4" "length ?bl = 8" by (simp_all add: be.enc_length)
  have lens: "length pre + 4 + length ?h + 8 + length body \<le> u64_max" using assms(2) by (simp add: f)
  have hv: "be_value ?hl = length ?h" by (rule be.dec_enc) (use h in \<open>simp add: u32_max_def\<close>)
  have bv: "be_value ?bl = length body" by (rule be.dec_enc) (use lens in \<open>simp add: u64_max_def\<close>)
  have "frame_part (pre @ frame @ post) (length pre) 4 = Inr (?hl, length pre + 4)"
    using frame_part_append [of pre ?hl "?h @ ?bl @ body @ post"] lens by (simp add: f)
  moreover have "frame_part (pre @ frame @ post) (length pre + 4) (length ?h) = Inr (?h, length pre + 4 + length ?h)"
    using frame_part_append [of "pre @ ?hl" ?h "?bl @ body @ post"] lens by (simp add: f)
  moreover have "frame_part (pre @ frame @ post) (length pre + 4 + length ?h) 8 = Inr (?bl, length pre + 4 + length ?h + 8)"
    using frame_part_append [of "pre @ ?hl @ ?h" ?bl "body @ post"] lens by (simp add: f add.assoc)
  moreover have "frame_part (pre @ frame @ post) (length pre + 4 + length ?h + 8) (length body) =
      Inr (body, length pre + 4 + length ?h + 8 + length body)"
    using frame_part_append [of "pre @ ?hl @ ?h @ ?bl" body post] lens by (simp add: f add.assoc)
  ultimately show ?thesis by (simp add: decode_archive_frame_body_def hv bv)
qed

section \<open>Prepared segments\<close>

definition zstd_lossless :: "archive_lib \<Rightarrow> bool" where
  "zstd_lossless L \<longleftrightarrow> (\<forall>level b c. zstd_encode L level b = Some c \<longrightarrow>
    c \<noteq> [] \<and> (\<forall>n. zstd_read L c n = Some (take n b)))"

lemma compress_round_trip:
  assumes "zstd_lossless L" "compress_with_level L b level = Inr c" "length b < u64_max"
  shows "decompress_with_limit L c (length b) = Inr b"
proof (cases "b = []")
  case True with assms show ?thesis by (simp add: compress_with_level_def decompress_with_limit_def)
next
  case False
  with assms have "zstd_encode L level b = Some c" by (simp add: compress_with_level_def ok_or_def split: option.splits)
  with assms(1) have "c \<noteq> []" "\<forall>n. zstd_read L c n = Some (take n b)" by (auto simp: zstd_lossless_def)
  with assms(3) show ?thesis by (simp add: decompress_with_limit_def checked_add_def ok_or_def)
qed

definition record_of :: "archive_lib \<Rightarrow> uuid \<Rightarrow> payload_direction \<Rightarrow> bytes \<Rightarrow> prepared_record \<Rightarrow> bool" where
  "record_of L i d body r \<longleftrightarrow> prepare_archive_record L i d (pr_content_type r) body = Inr r"

lemma prepare_record_of: "prepare_archive_record L i d ct body = Inr r \<Longrightarrow> record_of L i d body r"
  by (auto simp: record_of_def prepare_archive_record_def bind_res_def split: sum.splits)

text \<open>What a segment holds: the frames of its records at the offsets of its writes.\<close>

lemma prepare_segment_spec:
  assumes "prepare_archive_segment L records level = Inr sg"
  shows "\<exists>buf. compress_with_level L buf level = Inr (sg_compressed sg) \<and>
    sg_uncompressed_bytes sg = int (length buf) \<and> int (length buf) \<le> i64_max \<and>
    sg_checksum sg = archive_digest L (sg_compressed sg) \<and>
    segment_writes records [] [] = Inr (buf, sg_writes sg)"
  using assms by (auto simp: prepare_archive_segment_def bind_res_def usize_to_i64_checked_def
      split: sum.splits if_splits)

lemma written_record_decodes:
  assumes r: "record_of L i d body r" and "length (pre @ pr_frame r) \<le> u64_max"
    and row: "ar_uncompressed_offset row = int (length pre)" "ar_uncompressed_len row = pr_uncompressed_len r"
      "ar_body_sha256 row = pr_body_sha256 r"
  shows "decode_record L (pre @ pr_frame r @ post) row = Inr body"
proof -
  have "encode_archive_frame L i d (pr_content_type r) body = Inr (pr_frame r)"
    "pr_uncompressed_len r = int (length body)" "pr_body_sha256 r = archive_digest L body"
    using r by (cases r; auto simp: record_of_def prepare_archive_record_def bind_res_def
        usize_to_i64_checked_def split: sum.splits if_splits)+
  with frame_round_trip [OF this(1) assms(2)] row show ?thesis
    by (simp add: decode_record_def ensure_def)
qed


section \<open>One segment in the store\<close>

text \<open>A storage key determines the segment it was made for. What the code relies on: identifiers
  print differently, with hexadecimal digits and dashes only, and no digest holds a separator.\<close>

definition archive_names :: "archive_lib \<Rightarrow> bool" where
  "archive_names L \<longleftrightarrow> inj (al_show_uuid L) \<and>
    (\<forall>u. set (al_show_uuid L u) \<subseteq> set ''0123456789abcdef-'') \<and> (\<forall>b. CHR ''/'' \<notin> set (archive_digest L b))"

definition key_names :: "archive_lib \<Rightarrow> string \<Rightarrow> uuid \<Rightarrow> bool" where
  "key_names L k i \<longleftrightarrow>
    (\<exists>session n. 0 \<le> n \<and> k = archive_storage_key L session i n) \<or>
    (\<exists>j t b. k = ''journal/'' @ al_show_uuid L j @ ''/'' @ al_show_uuid L t @ ''/'' @ archive_digest L b @ ''.zst'' \<and>
      i = uuid_from_bytes L (take 16 (al_sha256 L (uuid_bytes L j @ uuid_bytes L t @ archive_digest L b))))"

lemma archive_namesD:
  assumes "archive_names L"
  shows "al_show_uuid L i = al_show_uuid L j \<longleftrightarrow> i = j" "CHR ''/'' \<notin> set (al_show_uuid L i)" "CHR ''j'' \<notin> set (al_show_uuid L i)"
    "CHR ''/'' \<notin> set (archive_digest L b)"
proof -
  have "set (al_show_uuid L i) \<subseteq> set ''0123456789abcdef-''" using assms by (simp add: archive_names_def)
  then show "CHR ''/'' \<notin> set (al_show_uuid L i)" "CHR ''j'' \<notin> set (al_show_uuid L i)" by auto
qed (use assms in \<open>auto simp: archive_names_def inj_eq\<close>)

lemma pad20_digits: "0 \<le> n \<Longrightarrow> list_all is_digit (pad20 n)"
  using show_nat_digits [of "nat n"] by (auto simp: pad20_def show_int_def is_digit_def byte_def list_all_iff)

lemma key_segments:
  assumes "archive_names L" "0 \<le> n"
  shows "split_on CHR ''/'' (archive_storage_key L session i n) =
    (case session of Some j \<Rightarrow> [al_show_uuid L j] | None \<Rightarrow> [''unscoped'', al_show_uuid L i]) @
      [pad20 n @ CHR ''-'' # al_show_uuid L i @ ''.zst'']"
proof -
  have "CHR ''/'' \<notin> set (pad20 n)" using pad20_digits [OF assms(2)] by (auto simp: list_all_iff is_digit_def byte_def)
  then have "CHR ''/'' \<notin> set (pad20 n @ CHR ''-'' # al_show_uuid L i @ ''.zst'')" using archive_namesD(2) [OF assms(1)] by simp
  note file_name = split_on_single [OF this] and plain = split_on_single [OF archive_namesD(2) [OF assms(1)]]
  have "split_on CHR ''/'' (al_show_uuid L x @ CHR ''/'' # (pad20 n @ CHR ''-'' # al_show_uuid L i @ ''.zst'')) =
      [al_show_uuid L x, pad20 n @ CHR ''-'' # al_show_uuid L i @ ''.zst'']" for x
    by (simp only: split_on_slash_append file_name plain append.simps)
  then show ?thesis by (cases session) (simp_all add: archive_storage_key_def)
qed

lemma journal_segments:
  assumes "archive_names L"
  shows "split_on CHR ''/'' (''journal/'' @ al_show_uuid L j @ ''/'' @ al_show_uuid L t @ ''/'' @ archive_digest L b @ ''.zst'') =
    [''journal'', al_show_uuid L j, al_show_uuid L t, archive_digest L b @ ''.zst'']"
proof -
  have c: "CHR ''/'' \<notin> set (archive_digest L b @ ''.zst'')" using archive_namesD(4) [OF assms] by simp
  have "''journal/'' @ al_show_uuid L j @ ''/'' @ al_show_uuid L t @ ''/'' @ archive_digest L b @ ''.zst'' =
      ''journal'' @ CHR ''/'' # al_show_uuid L j @ CHR ''/'' # al_show_uuid L t @ CHR ''/'' # (archive_digest L b @ ''.zst'')" by simp
  then show ?thesis
    by (simp only: split_on_slash_append split_on_single [OF c] split_on_single [OF archive_namesD(2) [OF assms]]) simp
qed

lemma split_at_dash:
  assumes "a @ CHR ''-'' # x = b @ CHR ''-'' # y" "list_all is_digit a" "list_all is_digit b"
  shows "x = y"
proof -
  have no: "CHR ''-'' \<notin> set a" "CHR ''-'' \<notin> set b" using assms(2,3) by (auto simp: list_all_iff is_digit_def byte_def)
  have "takeWhile (\<lambda>c. c \<noteq> CHR ''-'') (a @ CHR ''-'' # x) = a" "takeWhile (\<lambda>c. c \<noteq> CHR ''-'') (b @ CHR ''-'' # y) = b"
    using no by (auto intro: takeWhile_tail simp: takeWhile_append)
  with assms(1) show ?thesis by (metis append_eq_append_conv list.inject)
qed

lemma key_names_unique:
  assumes L: "archive_names L" and k: "key_names L k i" "key_names L k j"
  shows "i = j"
proof -
  have plain: "x = y" if "0 \<le> n" "0 \<le> m" "archive_storage_key L s x n = archive_storage_key L s' y m" for s s' n m x y
  proof -
    have "List.last (split_on CHR ''/'' (archive_storage_key L s x n)) = List.last (split_on CHR ''/'' (archive_storage_key L s' y m))"
      using that(3) by simp
    then have "pad20 n @ CHR ''-'' # al_show_uuid L x @ ''.zst'' = pad20 m @ CHR ''-'' # al_show_uuid L y @ ''.zst''"
      by (simp only: key_segments [OF L that(1)] key_segments [OF L that(2)]) simp
    from split_at_dash [OF this pad20_digits [OF that(1)] pad20_digits [OF that(2)]]
    show ?thesis using archive_namesD(1) [OF L] by simp
  qed
  have mixed: "archive_storage_key L s x n \<noteq>
      ''journal/'' @ al_show_uuid L u @ ''/'' @ al_show_uuid L t @ ''/'' @ archive_digest L b @ ''.zst''" if "0 \<le> n" for s x n u t b
  proof
    assume eq: "archive_storage_key L s x n = ''journal/'' @ al_show_uuid L u @ ''/'' @ al_show_uuid L t @ ''/'' @ archive_digest L b @ ''.zst''"
    have "hd (split_on CHR ''/'' (archive_storage_key L s x n)) = ''journal''" unfolding eq journal_segments [OF L] by simp
    moreover have "al_show_uuid L v \<noteq> ''journal''" for v using archive_namesD(3) [OF L, of v] by auto
    ultimately show False unfolding key_segments [OF L that] by (cases s) auto
  qed
  have journal: "u = u' \<and> t = t' \<and> archive_digest L b = archive_digest L b'"
    if "''journal/'' @ al_show_uuid L u @ ''/'' @ al_show_uuid L t @ ''/'' @ archive_digest L b @ ''.zst'' =
      ''journal/'' @ al_show_uuid L u' @ ''/'' @ al_show_uuid L t' @ ''/'' @ archive_digest L b' @ ''.zst''" for u t b u' t' b'
    using arg_cong [OF that, of "split_on CHR ''/''"] unfolding journal_segments [OF L]
    by (simp add: archive_namesD(1) [OF L])
  from k show ?thesis unfolding key_names_def using plain mixed journal by metis
qed

text \<open>How a segment with a fresh identifier changes the store. A segment kept in the database may
  leave a file under the key it was first meant for.\<close>

definition stored ::
  "archive_lib \<Rightarrow> trace_record \<Rightarrow> prepared_segment \<Rightarrow> uuid \<times> archive_segment \<Rightarrow> archive_store \<Rightarrow> archive_store \<Rightarrow> bool" where
  "stored L t sg p s s' \<longleftrightarrow>
    st_segments s' = st_segments s @ [p] \<and> fst p \<notin> fst ` set (st_segments s) \<and>
    st_records s' = st_records s @ map (\<lambda>(i, w). record_row t (fst p) (int i) w) (enumerate 0 (sg_writes sg)) \<and>
    as_session (snd p) = tr_session_id t \<and> as_compressed_bytes (snd p) = int (length (sg_compressed sg)) \<and>
    as_uncompressed_bytes (snd p) = sg_uncompressed_bytes sg \<and> as_checksum (snd p) = sg_checksum sg \<and>
    (\<exists>k. key_names L k (fst p) \<and>
      (as_backend (snd p) = ''filesystem'' \<and> as_key (snd p) = k \<and> archive_file_path k = Inr k \<and>
        st_files s' = AList.update k (sg_compressed sg) (st_files s) \<and>
        st_blobs s' = filter (\<lambda>b. fst b \<noteq> fst p) (st_blobs s) \<or>
       as_backend (snd p) = ''postgres'' \<and>
        (st_files s' = st_files s \<or> st_files s' = AList.update k (sg_compressed sg) (st_files s)) \<and>
        st_blobs s' = AList.update (fst p) (sg_compressed sg) (st_blobs s)))"

lemma update_fresh: "k \<notin> fst ` set al \<Longrightarrow> AList.update k v al = al @ [(k, v)]"
  by (induction al) auto

lemma update_segment_fresh:
  assumes "st_segments s = al @ [(i, row)]" "i \<notin> fst ` set al"
  shows "st_segments (update_segment i f s) = al @ [(i, f row)]"
proof -
  have "map (\<lambda>p. if fst p = i then (fst p, f (snd p)) else p) al = al"
    using assms(2) by (induction al) auto
  with assms show ?thesis by (simp add: update_segment_def)
qed

lemma update_segment_frame [simp]:
  "st_records (update_segment i f s) = st_records s" "st_files (update_segment i f s) = st_files s"
  "st_blobs (update_segment i f s) = st_blobs s"
  by (simp_all add: update_segment_def)

lemma upsert_fresh:
  "i \<notin> fst ` set (st_segments s) \<Longrightarrow>
    upsert_archive_segment i row s = s\<lparr>st_segments := st_segments s @ [(i, row)]\<rparr>"
  using map_of_eq_None_iff [of "st_segments s" i] by (simp add: upsert_archive_segment_def update_fresh)

lemma archive_file_path_id: "archive_file_path k = Inr p \<Longrightarrow> p = k"
  by (simp add: archive_file_path_def split: if_splits)

lemma map_of_filter_neq: "k \<noteq> i \<Longrightarrow> map_of (filter (\<lambda>b. fst b \<noteq> i) al) k = map_of al k"
  by (induction al) auto

lemma persist_cases:
  assumes "persist_archive_segment L cfg io i key c s = ((backend, k), s')"
  shows "st_segments s' = st_segments s \<and> st_records s' = st_records s \<and>
    (backend = ''filesystem'' \<and> k = key \<and> archive_file_path k = Inr k \<and> st_files s' = AList.update k c (st_files s) \<and>
      st_blobs s' = filter (\<lambda>b. fst b \<noteq> i) (st_blobs s) \<or>
     backend = ''postgres'' \<and> (st_files s' = st_files s \<or> st_files s' = AList.update key c (st_files s)) \<and>
      st_blobs s' = AList.update i c (st_blobs s))"
proof (cases "archive_file_path key")
  case (Inl e)
  with assms show ?thesis
    by (auto simp: persist_archive_segment_def write_archive_file_def split: if_splits)
next
  case (Inr p)
  with archive_file_path_id [OF Inr] assms show ?thesis
    by (cases io) (auto simp: persist_archive_segment_def write_archive_file_def Let_def split: if_splits)
qed

lemma next_index_nonneg: "next_archive_segment_index session s = Inr n \<Longrightarrow> 0 \<le> n"
proof -
  have "-1 \<le> foldr max xs (-1 :: int)" for xs by (induction xs) (simp_all add: le_max_iff_disj)
  then show "next_archive_segment_index session s = Inr n \<Longrightarrow> 0 \<le> n"
    by (auto simp: next_archive_segment_index_def Let_def split: if_splits) (smt (verit))
qed

lemma storage_key_names:
  assumes "0 \<le> n" "sg_checksum sg = archive_digest L (sg_compressed sg)"
  shows "key_names L (storage_key_of L journal t (segment_id_of L journal (tr_id t) fresh sg) n sg)
    (segment_id_of L journal (tr_id t) fresh sg)"
proof (cases journal)
  case None
  with assms(1) show ?thesis unfolding key_names_def by (intro disjI1) (auto simp: storage_key_of_def segment_id_of_def)
next
  case (Some j)
  with assms(2) show ?thesis unfolding key_names_def by (intro disjI2) (auto simp: storage_key_of_def segment_id_of_def)
qed

lemma archive_step:
  assumes ok: "archive_prepared_payloads L cfg journal t io fresh sg s = Inr s'"
    and fresh: "segment_id_of L journal (tr_id t) fresh sg \<notin> fst ` set (st_segments s)"
    and sum: "sg_checksum sg = archive_digest L (sg_compressed sg)"
  shows "\<exists>row. stored L t sg (segment_id_of L journal (tr_id t) fresh sg, row) s s'"
proof -
  let ?i = "segment_id_of L journal (tr_id t) fresh sg"
  obtain n c where n: "next_archive_segment_index (tr_session_id t) s = Inr n"
    and c: "usize_to_i64_checked (length (sg_compressed sg)) = Inr c"
    using ok by (auto simp: archive_prepared_payloads_def Let_def bind_res_def split: sum.splits)
  let ?key = "storage_key_of L journal t ?i n sg"
  define row where "row = \<lparr>as_session = tr_session_id t, as_index = n,
    as_uncompressed_bytes = sg_uncompressed_bytes sg, as_compressed_bytes = c,
    as_record_count = int (length (sg_writes sg)),
    as_backend = storage_backend_as_str (ac_storage_backend cfg), as_key = ?key,
    as_checksum = sg_checksum sg, as_sealed = False\<rparr>"
  let ?s1 = "s\<lparr>st_segments := st_segments s @ [(?i, row)]\<rparr>"
  obtain backend key s2 where p: "persist_archive_segment L cfg io ?i ?key (sg_compressed sg) ?s1 = ((backend, key), s2)"
    by (metis surj_pair)
  let ?f = "\<lambda>r. r\<lparr>as_backend := backend, as_key := key\<rparr>" and ?g = "\<lambda>r. r\<lparr>as_sealed := True\<rparr>"
  have s': "s' = insert_archive_records t ?i (sg_writes sg) (update_segment ?i ?g (update_segment ?i ?f s2))"
    using ok n c p by (simp add: archive_prepared_payloads_def Let_def upsert_fresh [OF fresh] row_def)
  note pc = persist_cases [OF p]
  have "st_segments s2 = st_segments s @ [(?i, row)]" using pc by simp
  from update_segment_fresh [OF update_segment_fresh [OF this fresh] fresh, of ?g ?f]
  have "st_segments s' = st_segments s @ [(?i, ?g (?f row))]" by (simp add: s' insert_archive_records_def)
  moreover have "key_names L ?key ?i" by (rule storage_key_names [OF next_index_nonneg [OF n] sum])
  moreover have "c = int (length (sg_compressed sg))" using c by (simp add: usize_to_i64_checked_def split: if_splits)
  ultimately have "stored L t sg (?i, ?g (?f row)) s s'"
    using pc fresh by (auto simp: stored_def s' insert_archive_records_def row_def)
  then show ?thesis by blast
qed

lemma decode_stored:
  assumes "stored L t sg p s s'" "zstd_lossless L" "prepare_archive_segment L records level = Inr sg"
    "segment_writes records [] [] = Inr (buf, sg_writes sg)"
    "sg_uncompressed_bytes sg \<le> int MAX_ARCHIVE_SEGMENT_DECODE_BYTES"
  shows "decode_segment L s' p = Inr buf"
proof -
  from prepare_segment_spec [OF assms(3)] assms(4)
  have b: "compress_with_level L buf level = Inr (sg_compressed sg)" "sg_uncompressed_bytes sg = int (length buf)"
    "sg_checksum sg = archive_digest L (sg_compressed sg)" by auto
  have "length buf < u64_max" using b(2) assms(5) by (simp add: MAX_ARCHIVE_SEGMENT_DECODE_BYTES_def u64_max_def)
  note dec = compress_round_trip [OF assms(2) b(1) this]
  have lim: "archive_decode_limit (sg_uncompressed_bytes sg) = Inr (length buf)"
    using b(2) assms(5) by (simp add: archive_decode_limit_def)
  from assms(1) consider "as_backend (snd p) = ''filesystem''" "read_archive_file (as_key (snd p)) s' = Inr (sg_compressed sg)"
    | "as_backend (snd p) = ''postgres''" "map_of (st_blobs s') (fst p) = Some (sg_compressed sg)"
    by (auto simp: stored_def read_archive_file_def ok_or_def update_conv')
  then show ?thesis
    using assms(1) b(3) lim dec
    by cases (simp_all add: decode_segment_def stored_def ok_or_def ensure_def)
qed

text \<open>The segments that were there are not affected.\<close>

lemma decode_other:
  assumes "stored L t sg p s s'" "fst q \<noteq> fst p"
    "\<And>k. as_backend (snd q) = ''filesystem'' \<Longrightarrow> key_names L k (fst p) \<Longrightarrow> as_key (snd q) \<noteq> k"
  shows "decode_segment L s' q = decode_segment L s q"
proof -
  have "read_archive_file (as_key (snd q)) s' = read_archive_file (as_key (snd q)) s"
    if "as_backend (snd q) = ''filesystem''"
    using assms(1) assms(3) [OF that]
    by (cases "archive_file_path (as_key (snd q))")
      (auto simp: stored_def read_archive_file_def update_conv' ok_or_def dest!: archive_file_path_id)
  moreover have "map_of (st_blobs s') (fst q) = map_of (st_blobs s) (fst q)"
    using assms(1,2) by (auto simp: stored_def update_conv' map_of_filter_neq)
  ultimately show ?thesis by (simp add: decode_segment_def)
qed

section \<open>The bodies of a trace\<close>

lemma decode_bodies_pair:
  assumes "\<not> is_response r1" "is_response r2" "ar_complete r1 \<longleftrightarrow> \<not> tq" "ar_complete r2 \<longleftrightarrow> \<not> tp"
    and "fold (decode_segment_bodies L s [r1, r2]) segs (body_unavailable Unreadable tq, body_unavailable Unreadable tp) =
      (body_available bq tq, body_available bp tp)"
  shows "decode_bodies L s [r1, r2] segs inl obs (tq, tp) = (body_available bq tq, body_available bp tp)"
proof -
  have "fold (\<lambda>r. set_body (is_response r) (\<lambda>b. b\<lparr>cb_truncated := cb_truncated b \<or> \<not> ar_complete r\<rparr>)) [r1, r2]
      (body_unavailable Unreadable tq, body_unavailable Unreadable tp) =
      (body_unavailable Unreadable tq, body_unavailable Unreadable tp)"
    using assms(1-4) by (simp add: set_body_def body_unavailable_def)
  then show ?thesis using assms(1,2,5) unfolding decode_bodies_def Let_def fst_conv snd_conv by (simp only:) simp
qed

lemma decode_into_request:
  "decode_record L buf r = Inr b \<Longrightarrow> \<not> is_response r \<Longrightarrow>
    decode_into L buf r bs = (body_available b (cb_truncated (fst bs)), snd bs)"
  by (simp add: decode_into_def set_body_def)

lemma decode_into_response:
  "decode_record L buf r = Inr b \<Longrightarrow> is_response r \<Longrightarrow>
    decode_into L buf r bs = (fst bs, body_available b (cb_truncated (snd bs)))"
  by (simp add: decode_into_def set_body_def)

lemma body_truncated [simp]:
  "cb_truncated (body_available b t) = t" "cb_truncated (body_unavailable st t) = t"
  by (simp_all add: body_available_def body_unavailable_def)

lemma shared_segment_bodies:
  assumes "decode_segment L s p = Inr buf" "decode_record L buf r1 = Inr bq" "decode_record L buf r2 = Inr bp"
    "\<not> is_response r1" "is_response r2" "ar_segment_id r1 = fst p" "ar_segment_id r2 = fst p"
  shows "decode_segment_bodies L s [r1, r2] p (body_unavailable Unreadable tq, body_unavailable Unreadable tp) =
    (body_available bq tq, body_available bp tp)"
  using assms by (simp add: decode_segment_bodies_def decode_into_request decode_into_response)

lemma separate_segment_bodies:
  assumes "decode_segment L s p1 = Inr buf1" "decode_record L buf1 r1 = Inr bq"
    "decode_segment L s p2 = Inr buf2" "decode_record L buf2 r2 = Inr bp"
    "\<not> is_response r1" "is_response r2" "ar_segment_id r1 = fst p1" "ar_segment_id r2 = fst p2" "fst p1 \<noteq> fst p2"
  shows "fold (decode_segment_bodies L s [r1, r2]) [p1, p2] (body_unavailable Unreadable tq, body_unavailable Unreadable tp) =
    (body_available bq tq, body_available bp tp)"
  using assms by (simp add: decode_segment_bodies_def decode_into_request decode_into_response)

text \<open>The rows of a segment with one or two records.\<close>

lemma row_decodes:
  assumes "record_of L i d body r" "length (pre @ pr_frame r) \<le> u64_max"
    "w = \<lparr>aw_direction = pr_direction r, aw_content_type = pr_content_type r, aw_uncompressed_offset = int (length pre),
      aw_uncompressed_len = pr_uncompressed_len r, aw_body_sha256 = pr_body_sha256 r\<rparr>"
  shows "decode_record L (pre @ pr_frame r @ post) (record_row t sid n w) = Inr body"
  by (rule written_record_decodes [OF assms(1,2)]) (simp_all add: assms(3) record_row_def)


definition write_of :: "prepared_record \<Rightarrow> nat \<Rightarrow> archive_write" where
  "write_of r n = \<lparr>aw_direction = pr_direction r, aw_content_type = pr_content_type r,
    aw_uncompressed_offset = int n, aw_uncompressed_len = pr_uncompressed_len r, aw_body_sha256 = pr_body_sha256 r\<rparr>"

lemma segment_writes_one:
  "segment_writes [r] [] [] = Inr (buf, ws) \<Longrightarrow> buf = pr_frame r \<and> ws = [write_of r 0]"
  by (auto simp: bind_res_def usize_to_i64_checked_def write_of_def split: sum.splits if_splits)

lemma segment_writes_two:
  "segment_writes [r1, r2] [] [] = Inr (buf, ws) \<Longrightarrow>
    buf = pr_frame r1 @ pr_frame r2 \<and> ws = [write_of r1 0, write_of r2 (length (pr_frame r1))]"
  by (auto simp: bind_res_def usize_to_i64_checked_def write_of_def split: sum.splits if_splits)

lemma record_of_direction: "record_of L i d body r \<Longrightarrow> pr_direction r = d"
  by (cases r) (auto simp: record_of_def prepare_archive_record_def bind_res_def split: sum.splits)

lemma written_row:
  assumes "record_of L i d body r"
  shows "is_response (record_row t sid n (write_of r k)) \<longleftrightarrow> d = ResponseBody"
    "ar_segment_id (record_row t sid n w) = sid" "ar_trace_id (record_row t sid n w) = tr_id t"
    "ar_complete (record_row t sid n (write_of r k)) \<longleftrightarrow>
      \<not> (case d of RequestBody \<Rightarrow> tr_request_body_truncated t | ResponseBody \<Rightarrow> tr_response_body_truncated t)"
  using record_of_direction [OF assms]
  by (cases d; simp add: is_response_def record_row_def write_of_def)+

lemma trace_records_new:
  assumes "stored L t sg p s s'"
  shows "trace_records i s' = trace_records i s @
    (if i = tr_id t then map (\<lambda>(n, w). record_row t (fst p) (int n) w) (enumerate 0 (sg_writes sg)) else [])"
proof -
  have dir: "direction_as_str d = ''request_body'' \<or> direction_as_str d = ''response_body''" for d by (cases d) simp_all
  have "filter (\<lambda>r. ar_trace_id r = i \<and> (ar_direction r = ''request_body'' \<or> ar_direction r = ''response_body''))
      (map (\<lambda>(n, w). record_row t (fst p) (int n) w) xs) =
    (if i = tr_id t then map (\<lambda>(n, w). record_row t (fst p) (int n) w) xs else [])" for xs :: "(nat \<times> archive_write) list"
    by (induction xs) (simp_all add: record_row_def dir case_prod_unfold)
  with assms show ?thesis by (simp add: stored_def trace_records_def)
qed

definition store_wf :: "archive_store \<Rightarrow> bool" where
  "store_wf s \<longleftrightarrow> distinct (map fst (st_segments s)) \<and>
    ar_segment_id ` set (st_records s) \<subseteq> fst ` set (st_segments s)"

definition keys_separate :: "archive_store \<Rightarrow> bool" where
  "keys_separate s \<longleftrightarrow> (\<forall>p\<in>set (st_segments s). \<forall>q\<in>set (st_segments s).
    as_backend (snd p) = ''filesystem'' \<and> as_backend (snd q) = ''filesystem'' \<and> as_key (snd p) = as_key (snd q) \<longrightarrow>
    fst p = fst q)"

definition keys_named :: "archive_lib \<Rightarrow> archive_store \<Rightarrow> bool" where
  "keys_named L s \<longleftrightarrow> (\<forall>p\<in>set (st_segments s). as_backend (snd p) = ''filesystem'' \<longrightarrow> key_names L (as_key (snd p)) (fst p))"

lemma keys_named_separate: "archive_names L \<Longrightarrow> keys_named L s \<Longrightarrow> keys_separate s"
  unfolding keys_named_def keys_separate_def using key_names_unique by metis

lemma stored_wf: "stored L t sg p s s' \<Longrightarrow> store_wf s \<Longrightarrow> store_wf s'"
  by (auto simp: stored_def store_wf_def record_row_def)

lemma stored_segments:
  assumes "stored L t sg p s s'"
  shows "set (st_segments s') = insert p (set (st_segments s))" "fst p \<notin> fst ` set (st_segments s)"
  using assms by (simp_all add: stored_def)

lemma stored_named: "stored L t sg p s s' \<Longrightarrow> keys_named L s \<Longrightarrow> keys_named L s'"
  by (auto simp: stored_def keys_named_def)

lemma decode_old:
  assumes "archive_names L" "stored L t sg p s s'" "keys_named L s" "q \<in> set (st_segments s)"
  shows "decode_segment L s' q = decode_segment L s q"
proof (rule decode_other [OF assms(2)])
  show ne: "fst q \<noteq> fst p" using stored_segments(2) [OF assms(2)] assms(4) by (metis imageI)
  fix k assume "as_backend (snd q) = ''filesystem''" "key_names L k (fst p)"
  then show "as_key (snd q) \<noteq> k" using key_names_unique [OF assms(1), of k "fst p" "fst q"] assms(3,4) ne
    unfolding keys_named_def by metis
qed

lemma fold_cong_set: "(\<And>x a. x \<in> set xs \<Longrightarrow> f x a = g x a) \<Longrightarrow> fold f xs a = fold g xs a"
  by (induction xs arbitrary: a) auto

lemma decode_bodies_cong:
  assumes "\<And>p. p \<in> set segs \<Longrightarrow> decode_segment L s' p = decode_segment L s p"
  shows "decode_bodies L s' records segs inl obs tr = decode_bodies L s records segs inl obs tr"
proof -
  have "fold (decode_segment_bodies L s' records) segs bs = fold (decode_segment_bodies L s records) segs bs" for bs
    by (rule fold_cong_set) (simp add: decode_segment_bodies_def assms)
  then show ?thesis by (simp add: decode_bodies_def)
qed

lemma load_other:
  assumes st: "stored L t sg p s s'" and wf: "store_wf s" and keys: "archive_names L" "keys_named L s" and "i \<noteq> tr_id t"
  shows "load_trace_bodies L s' i inl obs tr = load_trace_bodies L s i inl obs tr"
proof -
  have r: "trace_records i s' = trace_records i s" using trace_records_new [OF st, of i] assms(5) by simp
  have "ar_segment_id ` set (trace_records i s) \<subseteq> fst ` set (st_segments s)"
    using wf by (auto simp: store_wf_def trace_records_def)
  then have seg: "filter (\<lambda>q. fst q \<in> ar_segment_id ` set (trace_records i s)) (st_segments s') =
      filter (\<lambda>q. fst q \<in> ar_segment_id ` set (trace_records i s)) (st_segments s)"
    using st by (auto simp: stored_def)
  show ?thesis
    unfolding load_trace_bodies_def Let_def r seg
    by (rule decode_bodies_cong) (simp add: decode_old [OF keys(1) st keys(2)])
qed


section \<open>Storing and loading\<close>

lemma prepare_payloads_cases:
  assumes "prepare_trace_payloads L cfg t = Inr sgs"
  obtains req resp where "record_of L (tr_id t) RequestBody (tr_request_body t) req"
    "record_of L (tr_id t) ResponseBody (tr_response_body t) resp"
    "length (pr_frame req) + length (pr_frame resp) \<le> u64_max"
    "(\<exists>sg. sgs = [sg] \<and> prepare_archive_segment L [req, resp] (ac_compression_level cfg) = Inr sg) \<or>
     (\<exists>s1 s2. sgs = [s1, s2] \<and> prepare_archive_segment L [req] (ac_compression_level cfg) = Inr s1 \<and>
       prepare_archive_segment L [resp] (ac_compression_level cfg) = Inr s2)"
  using assms
  by (auto simp: prepare_trace_payloads_def bind_res_def ok_or_def checked_add_def dest!: prepare_record_of
      split: sum.splits option.splits if_splits)

text \<open>What holds of every segment made for a trace.\<close>

definition segment_ok :: "archive_lib \<Rightarrow> prepared_segment \<Rightarrow> bool" where
  "segment_ok L sg \<longleftrightarrow> sg_checksum sg = archive_digest L (sg_compressed sg) \<and> sg_writes sg \<noteq> []"

lemma prepared_segment_ok:
  assumes "prepare_archive_segment L (r # rs) level = Inr sg"
  shows "segment_ok L sg"
proof -
  have "length ws \<le> length ws'" if "segment_writes rs buf ws = Inr (buf', ws')" for rs buf ws buf' ws'
    using that
  proof (induction rs arbitrary: buf ws)
    case (Cons r rs)
    then show ?case by (fastforce simp: bind_res_Inr)
  qed simp
  then have "sg_writes sg \<noteq> []" if "segment_writes (r # rs) [] [] = Inr (buf, sg_writes sg)" for buf
    using that by (fastforce simp: bind_res_Inr)
  then show ?thesis using prepare_segment_spec [OF assms] unfolding segment_ok_def by blast
qed

lemma prepared_payloads_ok: "prepare_trace_payloads L cfg t = Inr sgs \<Longrightarrow> list_all (segment_ok L) sgs"
  by (erule prepare_payloads_cases) (auto dest: prepared_segment_ok)

lemma segment_ok_sum: "segment_ok L sg \<Longrightarrow> sg_checksum sg = archive_digest L (sg_compressed sg)"
  by (simp add: segment_ok_def)

definition segment_ids :: "archive_lib \<Rightarrow> uuid option \<Rightarrow> uuid \<Rightarrow> (file_write \<times> uuid) list \<Rightarrow> prepared_segment list \<Rightarrow> uuid list" where
  "segment_ids L journal trace_id choices sgs =
    map (\<lambda>(c, sg). segment_id_of L journal trace_id (snd c) sg) (zip choices sgs)"

lemma load_shared:
  assumes st: "stored L t sg p s s'" and z: "zstd_lossless L"
    and recs: "record_of L (tr_id t) RequestBody (tr_request_body t) req"
      "record_of L (tr_id t) ResponseBody (tr_response_body t) resp"
      "length (pr_frame req) + length (pr_frame resp) \<le> u64_max"
    and sg: "prepare_archive_segment L [req, resp] level = Inr sg"
    and size: "sg_uncompressed_bytes sg \<le> int MAX_ARCHIVE_SEGMENT_DECODE_BYTES"
    and new: "trace_records (tr_id t) s = []"
  shows "load_trace_bodies L s' (tr_id t) inl obs (tr_request_body_truncated t, tr_response_body_truncated t) =
    (body_available (tr_request_body t) (tr_request_body_truncated t),
     body_available (tr_response_body t) (tr_response_body_truncated t))"
proof -
  obtain buf where "segment_writes [req, resp] [] [] = Inr (buf, sg_writes sg)"
    using prepare_segment_spec [OF sg] by blast
  note dec = decode_stored [OF st z sg this size]
  from segment_writes_two [OF \<open>segment_writes _ _ _ = _\<close>]
  have buf: "buf = pr_frame req @ pr_frame resp"
    and ws: "sg_writes sg = [write_of req 0, write_of resp (length (pr_frame req))]" by simp_all
  let ?r1 = "record_row t (fst p) 0 (write_of req 0)"
  let ?r2 = "record_row t (fst p) 1 (write_of resp (length (pr_frame req)))"
  have rows: "trace_records (tr_id t) s' = [?r1, ?r2]"
    using trace_records_new [OF st, of "tr_id t"] by (simp add: new ws)
  have segs: "filter (\<lambda>q. fst q \<in> ar_segment_id ` set [?r1, ?r2]) (st_segments s') = [p]"
    using st by (auto simp: stored_def record_row_def filter_empty_conv image_iff)
  have d1: "decode_record L buf ?r1 = Inr (tr_request_body t)"
    using row_decodes [OF recs(1), of "[]" "write_of req 0" "pr_frame resp" t "fst p" 0] recs(3) buf
    by (simp add: write_of_def)
  have d2: "decode_record L buf ?r2 = Inr (tr_response_body t)"
    using row_decodes [OF recs(2), of "pr_frame req" "write_of resp (length (pr_frame req))" "[]" t "fst p" 1] recs(3) buf
    by (simp add: write_of_def)
  show ?thesis
    unfolding load_trace_bodies_def Let_def rows segs
    using written_row [OF recs(1)] written_row [OF recs(2)]
      shared_segment_bodies [OF dec d1 d2]
    by (intro decode_bodies_pair) simp_all
qed

lemma load_separate:
  assumes st1: "stored L t s1 p1 s s'" and st2: "stored L t s2 p2 s' s''" and z: "zstd_lossless L"
    and recs: "record_of L (tr_id t) RequestBody (tr_request_body t) req"
      "record_of L (tr_id t) ResponseBody (tr_response_body t) resp"
      "length (pr_frame req) + length (pr_frame resp) \<le> u64_max"
    and sg: "prepare_archive_segment L [req] level = Inr s1" "prepare_archive_segment L [resp] level = Inr s2"
    and size: "sg_uncompressed_bytes s1 \<le> int MAX_ARCHIVE_SEGMENT_DECODE_BYTES"
      "sg_uncompressed_bytes s2 \<le> int MAX_ARCHIVE_SEGMENT_DECODE_BYTES"
    and new: "trace_records (tr_id t) s = []" and keys: "archive_names L" "keys_named L s"
  shows "load_trace_bodies L s'' (tr_id t) inl obs (tr_request_body_truncated t, tr_response_body_truncated t) =
    (body_available (tr_request_body t) (tr_request_body_truncated t),
     body_available (tr_response_body t) (tr_response_body_truncated t))"
proof -
  obtain b1 b2 where w: "segment_writes [req] [] [] = Inr (b1, sg_writes s1)"
    "segment_writes [resp] [] [] = Inr (b2, sg_writes s2)"
    using prepare_segment_spec [OF sg(1)] prepare_segment_spec [OF sg(2)] by blast
  have p1: "p1 \<in> set (st_segments s')" using st1 by (simp add: stored_def)
  have dec1: "decode_segment L s'' p1 = Inr b1"
    using decode_stored [OF st1 z sg(1) w(1) size(1)] decode_old [OF keys(1) st2 stored_named [OF st1 keys(2)] p1] by simp
  have dec2: "decode_segment L s'' p2 = Inr b2" by (rule decode_stored [OF st2 z sg(2) w(2) size(2)])
  from segment_writes_one [OF w(1)] segment_writes_one [OF w(2)]
  have b: "b1 = pr_frame req" "b2 = pr_frame resp"
    and ws: "sg_writes s1 = [write_of req 0]" "sg_writes s2 = [write_of resp 0]" by simp_all
  let ?r1 = "record_row t (fst p1) 0 (write_of req 0)" and ?r2 = "record_row t (fst p2) 0 (write_of resp 0)"
  have rows: "trace_records (tr_id t) s'' = [?r1, ?r2]"
    using trace_records_new [OF st1, of "tr_id t"] trace_records_new [OF st2, of "tr_id t"] by (simp add: new ws)
  have ne: "fst p1 \<noteq> fst p2" using stored_segments(2) [OF st2] p1 by (metis imageI)
  have old: "q \<in> set (st_segments s) \<Longrightarrow> fst q \<noteq> fst p1 \<and> fst q \<noteq> fst p2" for q
    using stored_segments [OF st1] stored_segments(2) [OF st2] by (metis imageI insertI2)
  have "st_segments s'' = st_segments s @ [p1, p2]" using st1 st2 by (simp add: stored_def)
  then have segs: "filter (\<lambda>q. fst q \<in> ar_segment_id ` set [?r1, ?r2]) (st_segments s'') = [p1, p2]"
    using old by (simp add: record_row_def filter_empty_conv)
  have d1: "decode_record L b1 ?r1 = Inr (tr_request_body t)"
    using row_decodes [OF recs(1), of "[]" "write_of req 0" "[]" t "fst p1" 0] recs(3) b by (simp add: write_of_def)
  have d2: "decode_record L b2 ?r2 = Inr (tr_response_body t)"
    using row_decodes [OF recs(2), of "[]" "write_of resp 0" "[]" t "fst p2" 0] recs(3) b by (simp add: write_of_def)
  show ?thesis
    unfolding load_trace_bodies_def Let_def rows segs
    using written_row [OF recs(1)] written_row [OF recs(2)] ne separate_segment_bodies [OF dec1 d1 dec2 d2]
    by (intro decode_bodies_pair) simp_all
qed

text \<open>C19: what is archived is read back. Once the segments of a new trace are stored, with or
  without a journal, whatever file writes fail, before or after the file is in place, and fall back
  to the database, and whether the bodies share a segment or not, loading the trace yields both
  bodies byte for byte with their truncation flags, and every trace stored before loads as it did.
  The files of the segments stored before have keys made for them by the program, and so have
  those stored now, so no file is overwritten. Decompression inverts compression, identifiers print
  differently and without a separator, the identifiers of the new segments are new, and a segment
  is at most 2 GiB.\<close>

theorem archive_round_trip:
  assumes "zstd_lossless L" "archive_names L" "prepare_trace_payloads L cfg t = Inr sgs"
    and "archive_payloads L cfg journal t choices sgs s = Inr s'" "length choices = length sgs"
    and "list_all (\<lambda>sg. sg_uncompressed_bytes sg \<le> int MAX_ARCHIVE_SEGMENT_DECODE_BYTES) sgs"
    and "store_wf s" "keys_named L s" "trace_records (tr_id t) s = []"
    and "distinct (segment_ids L journal (tr_id t) choices sgs)"
      "set (segment_ids L journal (tr_id t) choices sgs) \<inter> fst ` set (st_segments s) = {}"
  shows "load_trace_bodies L s' (tr_id t) inl obs (tr_request_body_truncated t, tr_response_body_truncated t) =
      (body_available (tr_request_body t) (tr_request_body_truncated t),
       body_available (tr_response_body t) (tr_response_body_truncated t)) \<and>
    (\<forall>i inl obs tr. i \<noteq> tr_id t \<longrightarrow> load_trace_bodies L s' i inl obs tr = load_trace_bodies L s i inl obs tr) \<and>
    store_wf s' \<and> keys_named L s'"
proof -
  note sums = prepared_payloads_ok [OF assms(3)]
  from assms(3) obtain req resp where recs: "record_of L (tr_id t) RequestBody (tr_request_body t) req"
    "record_of L (tr_id t) ResponseBody (tr_response_body t) resp"
    "length (pr_frame req) + length (pr_frame resp) \<le> u64_max"
    and "(\<exists>sg. sgs = [sg] \<and> prepare_archive_segment L [req, resp] (ac_compression_level cfg) = Inr sg) \<or>
     (\<exists>s1 s2. sgs = [s1, s2] \<and> prepare_archive_segment L [req] (ac_compression_level cfg) = Inr s1 \<and>
       prepare_archive_segment L [resp] (ac_compression_level cfg) = Inr s2)"
    by (rule prepare_payloads_cases)
  then consider sg where "sgs = [sg]" "prepare_archive_segment L [req, resp] (ac_compression_level cfg) = Inr sg"
    | s1 s2 where "sgs = [s1, s2]" "prepare_archive_segment L [req] (ac_compression_level cfg) = Inr s1"
       "prepare_archive_segment L [resp] (ac_compression_level cfg) = Inr s2" by blast
  then show ?thesis
  proof cases
    case 1
    then obtain io i where c: "choices = [(io, i)]" using assms(5) by (cases choices) auto
    let ?i = "segment_id_of L journal (tr_id t) i sg"
    have "archive_prepared_payloads L cfg journal t io i sg s = Inr s'"
      using assms(4) by (simp add: c 1 bind_res_def split: sum.splits)
    moreover have "?i \<notin> fst ` set (st_segments s)" using assms(11) by (simp add: c 1 segment_ids_def)
    ultimately obtain row where st: "stored L t sg (?i, row) s s'"
      using archive_step sums segment_ok_sum by (fastforce simp: 1)
    have "sg_uncompressed_bytes sg \<le> int MAX_ARCHIVE_SEGMENT_DECODE_BYTES" using assms(6) 1 by simp
    from load_shared [OF st assms(1) recs 1(2) this assms(9)] load_other [OF st assms(7,2,8)]
      stored_wf [OF st assms(7)] stored_named [OF st assms(8)]
    show ?thesis by simp
  next
    case 2
    then obtain io1 i1 io2 i2 where c: "choices = [(io1, i1), (io2, i2)]"
      using assms(5) by (auto simp: length_Suc_conv)
    let ?i1 = "segment_id_of L journal (tr_id t) i1 s1" and ?i2 = "segment_id_of L journal (tr_id t) i2 s2"
    obtain sm where a: "archive_prepared_payloads L cfg journal t io1 i1 s1 s = Inr sm"
      "archive_prepared_payloads L cfg journal t io2 i2 s2 sm = Inr s'"
      using assms(4) by (auto simp: c 2 bind_res_def split: sum.splits)
    have ids: "?i1 \<noteq> ?i2" "?i1 \<notin> fst ` set (st_segments s)" "?i2 \<notin> fst ` set (st_segments s)"
      using assms(10,11) by (simp_all add: c 2 segment_ids_def)
    obtain r1 where st1: "stored L t s1 (?i1, r1) s sm" using archive_step [OF a(1) ids(2)] sums segment_ok_sum by (auto simp: 2)
    have "?i2 \<notin> fst ` set (st_segments sm)" using stored_segments(1) [OF st1] ids by simp
    then obtain r2 where st2: "stored L t s2 (?i2, r2) sm s'" using archive_step [OF a(2)] sums segment_ok_sum by (auto simp: 2)
    have size: "sg_uncompressed_bytes s1 \<le> int MAX_ARCHIVE_SEGMENT_DECODE_BYTES"
      "sg_uncompressed_bytes s2 \<le> int MAX_ARCHIVE_SEGMENT_DECODE_BYTES" using assms(6) 2 by simp_all
    note mid = stored_wf [OF st1 assms(7)] stored_named [OF st1 assms(8)]
    from load_separate [OF st1 st2 assms(1) recs 2(2,3) size assms(9,2,8)]
      load_other [OF st2 mid(1) assms(2) mid(2)] load_other [OF st1 assms(7,2,8)] stored_wf [OF st2 mid(1)] stored_named [OF st2 mid(2)]
    show ?thesis by simp
  qed
qed

definition demo_archive_lib :: archive_lib where
  "demo_archive_lib =
    \<lparr>zstd_encode = (\<lambda>_ b. Some (CHR ''z'' # b)), zstd_read = (\<lambda>c n. Some (take n (tl c))), al_sha256 = (\<lambda>_. ''d''),
     al_hex = (\<lambda>b. b), frame_header = (\<lambda>_ d _. d), al_show_uuid = show_nat, uuid_bytes = show_nat,
     uuid_from_bytes = length, base64 = (\<lambda>b. b)\<rparr>"

definition demo_archive_config :: archive_config where
  "demo_archive_config =
    \<lparr>ac_storage_backend = Filesystem, ac_filesystem_root = ''spool/archive'', ac_segment_uncompressed_bytes = 10, ac_compression_level = 3\<rparr>"

definition demo_archive_trace :: trace_record where
  "demo_archive_trace = (fst (build_trace demo_build (demo_capture ''a'')))\<lparr>tr_id := 1, tr_session_id := None,
    tr_request_body := ''hi'', tr_response_body := ''yo'', tr_content_type := None,
    tr_request_body_truncated := False, tr_response_body_truncated := True\<rparr>"

definition demo_archive_empty :: archive_store where
  "demo_archive_empty = \<lparr>st_segments = [], st_blobs = [], st_records = [], st_files = []\<rparr>"

lemma demo_archive_lossless: "zstd_lossless demo_archive_lib"
  by (simp add: zstd_lossless_def demo_archive_lib_def)

lemma demo_archive_names: "archive_names demo_archive_lib"
proof -
  have "inj show_nat" by (rule injI) (metis show_nat_digits)
  moreover have "set (show_nat u) \<subseteq> set ''0123456789abcdef-''" for u
  proof
    fix c assume "c \<in> set (show_nat u)"
    then have "is_digit c" using show_nat_digits [of u] by (auto simp: list_all_iff)
    then have "byte c \<in> {48, 49, 50, 51, 52, 53, 54, 55, 56, 57}" unfolding is_digit_def insert_iff empty_iff by presburger
    moreover have "c = char_of (byte c)" by (simp add: byte_def)
    ultimately show "c \<in> set ''0123456789abcdef-''" by (auto simp: char_of_def bit_0)
  qed
  ultimately show ?thesis by (simp add: archive_names_def demo_archive_lib_def archive_digest_def)
qed

lemma demo_frame: "encode_archive_frame demo_archive_lib i d ct body =
    Inr (be_bytes 4 (length (direction_as_str d)) @ direction_as_str d @ be_bytes 8 (length body) @ body)"
  by (cases d) (simp_all add: encode_archive_frame_def demo_archive_lib_def u32_max_def)

lemma demo_archive_digest: "archive_digest demo_archive_lib b = ''d''"
  by (simp add: archive_digest_def demo_archive_lib_def)

definition demo_segment :: "payload_direction \<Rightarrow> bytes \<Rightarrow> prepared_segment" where
  "demo_segment d body = (let frame = be_bytes 4 (length (direction_as_str d)) @ direction_as_str d @ be_bytes 8 (length body) @ body in
    \<lparr>sg_compressed = CHR ''z'' # frame, sg_checksum = ''d'', sg_uncompressed_bytes = int (length frame),
     sg_writes = [\<lparr>aw_direction = d, aw_content_type = None, aw_uncompressed_offset = 0,
       aw_uncompressed_len = int (length body), aw_body_sha256 = ''d''\<rparr>]\<rparr>)"

lemma demo_payloads:
  "prepare_trace_payloads demo_archive_lib demo_archive_config demo_archive_trace =
    Inr [demo_segment RequestBody ''hi'', demo_segment ResponseBody ''yo'']"
  by (simp add: prepare_trace_payloads_def prepare_archive_record_def demo_frame demo_archive_digest
      prepare_archive_segment_def usize_to_i64_checked_def i64_max_def checked_add_def ok_or_def u64_max_def
      demo_archive_config_def demo_archive_trace_def compress_with_level_def demo_segment_def Let_def be.enc_length)
    (simp add: demo_archive_lib_def)

lemma replicate_nineteen: "replicate 19 c = [c, c, c, c, c, c, c, c, c, c, c, c, c, c, c, c, c, c, c]"
  by (simp add: numeral_eq_Suc)

lemma demo_archive_path: "archive_file_path (archive_storage_key demo_archive_lib None 5 0) =
    Inr (archive_storage_key demo_archive_lib None 5 0)"
  by (simp add: archive_file_path_def archive_storage_key_def demo_archive_lib_def pad20_def show_int_def show_nat.simps
      starts_with_def char_of_def bit_0 replicate_nineteen)


lemma update_not_Nil [simp]: "AList.update k v al \<noteq> []"
  by (cases al) auto

theorem archive_round_trip_witness:
  "\<exists>s. archive_payloads demo_archive_lib demo_archive_config None demo_archive_trace [(Write_done, 5), (Sync_failed, 6)]
      [demo_segment RequestBody ''hi'', demo_segment ResponseBody ''yo''] demo_archive_empty = Inr s \<and>
    st_files s \<noteq> [] \<and> length (st_blobs s) = 1 \<and>
    load_trace_bodies demo_archive_lib s 1 None (0, 0) (False, True) =
      (body_available ''hi'' False, body_available ''yo'' True)"
proof -
  let ?sgs = "[demo_segment RequestBody ''hi'', demo_segment ResponseBody ''yo'']"
  let ?ch = "[(Write_done, 5), (Sync_failed, 6 :: uuid)]"
  let ?key = "archive_storage_key demo_archive_lib None 5 0"
  note eval = archive_prepared_payloads_def segment_id_of_def next_archive_segment_index_def storage_key_of_def
    demo_archive_trace_def demo_archive_empty_def usize_to_i64_checked_def i64_max_def demo_segment_def
    upsert_archive_segment_def persist_archive_segment_def write_archive_file_def update_segment_def
    insert_archive_records_def demo_archive_config_def be.enc_length Let_def
  obtain s1 where s1: "archive_prepared_payloads demo_archive_lib demo_archive_config None demo_archive_trace Write_done 5
      (demo_segment RequestBody ''hi'') demo_archive_empty = Inr s1"
    and seg1: "\<exists>row. st_segments s1 = [(5, row)] \<and> as_index row = 0 \<and> as_session row = None"
    and st1: "st_files s1 \<noteq> []" "st_blobs s1 = []"
    by (simp add: eval demo_archive_path)
  obtain s2 where s2: "archive_prepared_payloads demo_archive_lib demo_archive_config None demo_archive_trace Sync_failed 6
      (demo_segment ResponseBody ''yo'') s1 = Inr s2"
    and seg2: "\<exists>row row'. st_segments s2 = [(5, row), (6, row')] \<and> as_backend row' = ''postgres''"
    and st2: "st_files s2 \<noteq> []" "length (st_blobs s2) = 1"
    using seg1 st1 update_not_Nil
    by (cases "archive_file_path (archive_storage_key demo_archive_lib None 6 1)") (auto simp: eval)
  have run: "archive_payloads demo_archive_lib demo_archive_config None demo_archive_trace ?ch ?sgs demo_archive_empty = Inr s2"
    by (simp add: s1 s2)
  have "load_trace_bodies demo_archive_lib s2 (tr_id demo_archive_trace) None (0, 0)
      (tr_request_body_truncated demo_archive_trace, tr_response_body_truncated demo_archive_trace) =
    (body_available (tr_request_body demo_archive_trace) (tr_request_body_truncated demo_archive_trace),
     body_available (tr_response_body demo_archive_trace) (tr_response_body_truncated demo_archive_trace))"
  proof (rule archive_round_trip [OF demo_archive_lossless demo_archive_names demo_payloads run, THEN conjunct1])
    show "list_all (\<lambda>sg. sg_uncompressed_bytes sg \<le> int MAX_ARCHIVE_SEGMENT_DECODE_BYTES) ?sgs"
      by (simp add: demo_segment_def Let_def be.enc_length MAX_ARCHIVE_SEGMENT_DECODE_BYTES_def)
  qed (simp_all add: store_wf_def keys_named_def demo_archive_empty_def trace_records_def segment_ids_def segment_id_of_def)
  with run st2 show ?thesis by (simp add: demo_archive_trace_def)
qed

end
