(* ===== verification/LT_Plugin_Http.thy ===== *)
theory LT_Plugin_Http
  imports LT_Plugins LT_Plugin_Cache
begin

text \<open>
  \<open>plugins/http.rs\<close>: the \<open>http_get\<close> function the host offers to plugins. A call reads a
  request from the memory of the plugin, checks the destination against the allowlist
  of the plugin, injects the service credential and writes the response back. The
  network is external: its outcome is a function of the request that is sent.
\<close>

section \<open>Allowed destinations\<close>

record allowed_url =
  au_url :: url
  au_any_query :: bool

definition allowed_url_parse :: "web_lib \<Rightarrow> string \<Rightarrow> allowed_url option" where
  "allowed_url_parse W entry =
    (case strip_suffix ''?*'' entry of
       Some base \<Rightarrow>
         Option.bind (url_parse W base) (\<lambda>u.
         if u_query u \<noteq> None then None
         else Some \<lparr>au_url = set_query W None u, au_any_query = True\<rparr>)
     | None \<Rightarrow> map_option (\<lambda>u. \<lparr>au_url = u, au_any_query = False\<rparr>) (url_parse W entry))"

definition allowed_url_allows :: "web_lib \<Rightarrow> allowed_url \<Rightarrow> url \<Rightarrow> bool" where
  "allowed_url_allows W a candidate \<longleftrightarrow>
    (if \<not> au_any_query a then au_url a = candidate else set_query W None candidate = au_url a)"

section \<open>A call from a plugin\<close>

definition MAX_REQUEST_BYTES :: nat where
  "MAX_REQUEST_BYTES = 16384"

definition MAX_RESPONSE_BYTES :: nat where
  "MAX_RESPONSE_BYTES = 65536"

datatype http_outcome = Net_failed | Net_response nat "bytes list"

text \<open>Whether the host runs inside a runtime, the request decoder, the header constructors of the HTTP client, the printer of
  the answer and the network.\<close>

record http_host =
  hh_web :: web_lib
  hh_runtime :: bool
  hh_decode :: "bytes \<Rightarrow> (string \<times> (string \<times> string) list) option"
  hh_header_name_ok :: "string \<Rightarrow> bool"
  hh_header_value_ok :: "string \<Rightarrow> bool"
  hh_answer :: "nat \<Rightarrow> string \<Rightarrow> bytes"
  hh_network :: "url \<Rightarrow> (string \<times> string) list \<Rightarrow> http_outcome"

record host_state =
  hs_urls :: "allowed_url list"
  hs_calls :: nat
  hs_auth :: "(string \<times> string) option"
  hs_memory :: bytes
  hs_sent :: "(url \<times> (string \<times> string) list) list"

definition host_state_new :: "allowed_url list \<Rightarrow> (string \<times> string) option \<Rightarrow> bytes \<Rightarrow> host_state" where
  "host_state_new urls auth mem =
    \<lparr>hs_urls = urls, hs_calls = 0, hs_auth = auth, hs_memory = mem, hs_sent = []\<rparr>"

definition forbidden_header :: "string \<Rightarrow> bool" where
  "forbidden_header name \<longleftrightarrow>
    to_ascii_lowercase name \<in> {''host'', ''connection'', ''content-length'', ''transfer-encoding''}"

definition add_header :: "http_host \<Rightarrow> string \<times> string \<Rightarrow> (string \<times> string) list \<Rightarrow> (string \<times> string) list option" where
  "add_header H nv hs =
    (if hh_header_name_ok H (fst nv) \<and> hh_header_value_ok H (snd nv) then Some (hs @ [nv]) else None)"

fun build_headers ::
  "http_host \<Rightarrow> (string \<times> string) option \<Rightarrow> (string \<times> string) list \<Rightarrow> (string \<times> string) list
    \<Rightarrow> (string \<times> string) list option" where
  "build_headers H auth [] hs = (case auth of Some nv \<Rightarrow> add_header H nv hs | None \<Rightarrow> Some hs)"
| "build_headers H auth ((name, val) # rest) hs =
    (if forbidden_header name then None
     else if (case auth of Some (n, _) \<Rightarrow> to_ascii_lowercase n = to_ascii_lowercase name | None \<Rightarrow> False)
     then build_headers H auth rest hs
     else Option.bind (add_header H (name, val) hs) (build_headers H auth rest))"

fun read_chunks :: "bytes list \<Rightarrow> bytes \<Rightarrow> bytes option" where
  "read_chunks [] body = Some body"
| "read_chunks (chunk # chunks) body =
    (if saturating_add (length body) (length chunk) > MAX_RESPONSE_BYTES then None
     else read_chunks chunks (body @ chunk))"

definition lookup :: "http_host \<Rightarrow> url \<Rightarrow> (string \<times> string) list \<Rightarrow> bytes option" where
  "lookup H u hs =
    (case hh_network H u hs of
       Net_failed \<Rightarrow> None
     | Net_response status chunks \<Rightarrow>
         Option.bind (read_chunks chunks []) (\<lambda>body.
         if utf8_valid body then Some (hh_answer H status body) else None))"

text \<open>The guards before the call is counted; after it every failure returns -1.\<close>

definition call_bounds :: "int \<Rightarrow> int \<Rightarrow> int \<Rightarrow> int \<Rightarrow> host_state \<Rightarrow> bool" where
  "call_bounds ptr len out capacity s \<longleftrightarrow>
    \<not> (ptr < 0 \<or> len \<le> 0 \<or> nat len > MAX_REQUEST_BYTES \<or> out < 0 \<or> capacity \<le> 0 \<or>
       nat capacity > MAX_RESPONSE_BYTES \<or> hs_calls s \<ge> 4)"

definition prepare_get :: "http_host \<Rightarrow> int \<Rightarrow> int \<Rightarrow> int \<Rightarrow> int \<Rightarrow> host_state
    \<Rightarrow> (url \<times> (string \<times> string) list) option" where
  "prepare_get H ptr len out capacity s =
    Option.bind (mem_read (hs_memory s) (nat ptr) (nat len)) (\<lambda>request.
    Option.bind (hh_decode H request) (\<lambda>(url_text, headers).
    Option.bind (url_parse (hh_web H) url_text) (\<lambda>u.
    if \<not> list_ex (\<lambda>a. allowed_url_allows (hh_web H) a u) (hs_urls s) then None
    else if nat out + nat capacity > length (hs_memory s) then None
    else Option.bind (build_headers H (hs_auth s) headers []) (\<lambda>hs.
         if hh_runtime H then Some (u, hs) else None))))"

definition http_get :: "http_host \<Rightarrow> int \<Rightarrow> int \<Rightarrow> int \<Rightarrow> int \<Rightarrow> host_state \<Rightarrow> int \<times> host_state" where
  "http_get H ptr len out capacity s =
    (if \<not> call_bounds ptr len out capacity s then (-1, s)
     else let s = s\<lparr>hs_calls := hs_calls s + 1\<rparr>
          in case prepare_get H ptr len out capacity s of
            None \<Rightarrow> (-1, s)
          | Some (u, hs) \<Rightarrow>
             (let s = s\<lparr>hs_sent := hs_sent s @ [(u, hs)]\<rparr>
              in case lookup H u hs of
                   None \<Rightarrow> (-1, s)
                 | Some b \<Rightarrow>
                     if length b > nat capacity then (-1, s)
                     else (case mem_write (hs_memory s) (nat out) b of
                             None \<Rightarrow> (-1, s)
                           | Some mem \<Rightarrow> (int (length b), s\<lparr>hs_memory := mem\<rparr>))))"

section \<open>Confinement\<close>

text \<open>Between host calls the plugin may leave anything in its memory.\<close>

datatype guest_op = Guest_memory bytes | Guest_get int int int int

fun guest_step :: "http_host \<Rightarrow> guest_op \<Rightarrow> host_state \<Rightarrow> host_state" where
  "guest_step H (Guest_memory mem) s = s\<lparr>hs_memory := mem\<rparr>"
| "guest_step H (Guest_get ptr len out capacity) s = snd (http_get H ptr len out capacity s)"

definition guest_run :: "http_host \<Rightarrow> guest_op list \<Rightarrow> host_state \<Rightarrow> host_state" where
  "guest_run H ops s = fold (guest_step H) ops s"

text \<open>The reference: what an allowed request looks like.\<close>

definition same_destination :: "url \<Rightarrow> url \<Rightarrow> bool" where
  "same_destination u v \<longleftrightarrow> u_scheme u = u_scheme v \<and> u_username u = u_username v \<and> u_password u = u_password v \<and>
    u_host u = u_host v \<and> u_port u = u_port v \<and> u_path u = u_path v \<and> u_fragment u = u_fragment v"

definition request_allowed :: "allowed_url list \<Rightarrow> (string \<times> string) option \<Rightarrow> url \<times> (string \<times> string) list \<Rightarrow> bool" where
  "request_allowed urls auth r \<longleftrightarrow>
    (\<exists>a\<in>set urls. same_destination (au_url a) (fst r) \<and> (\<not> au_any_query a \<longrightarrow> u_query (au_url a) = u_query (fst r))) \<and>
    (\<forall>p\<in>set (snd r). forbidden_header (fst p) \<longrightarrow> auth = Some p) \<and>
    (\<forall>n v. auth = Some (n, v) \<longrightarrow>
      filter (\<lambda>p. to_ascii_lowercase (fst p) = to_ascii_lowercase n) (snd r) = [(n, v)])"

lemma allowed_destination:
  "allowed_url_allows W a u \<Longrightarrow>
    same_destination (au_url a) u \<and> (\<not> au_any_query a \<longrightarrow> u_query (au_url a) = u_query u)"
  by (auto simp: allowed_url_allows_def same_destination_def set_query_def split: if_splits dest!: sym [of "u\<lparr>u_query := _\<rparr>"])

lemma build_headers_spec:
  assumes "build_headers H auth req acc = Some hs"
    and "\<forall>p\<in>set acc. \<not> forbidden_header (fst p)"
    and "\<forall>n v. auth = Some (n, v) \<longrightarrow> (\<forall>p\<in>set acc. to_ascii_lowercase (fst p) \<noteq> to_ascii_lowercase n)"
  shows "(\<forall>p\<in>set hs. forbidden_header (fst p) \<longrightarrow> auth = Some p) \<and>
    (\<forall>n v. auth = Some (n, v) \<longrightarrow>
      filter (\<lambda>p. to_ascii_lowercase (fst p) = to_ascii_lowercase n) hs = [(n, v)])"
  using assms
proof (induction H auth req acc rule: build_headers.induct)
  case (1 H auth hs')
  then show ?case by (auto simp: add_header_def filter_empty_conv split: option.splits if_splits)
next
  case (2 H auth name val rest hs')
  show ?case
  proof (cases "case auth of Some (n, _) \<Rightarrow> to_ascii_lowercase n = to_ascii_lowercase name | None \<Rightarrow> False")
    case True
    with 2(3) have "\<not> forbidden_header name" "build_headers H auth rest hs' = Some hs" by (simp_all split: if_splits)
    from 2(1) [OF this(1) True this(2) 2(4,5)] show ?thesis .
  next
    case False
    with 2(3) obtain hs1 where "add_header H (name, val) hs' = Some hs1" "build_headers H auth rest hs1 = Some hs"
      and ok: "\<not> forbidden_header name" by (auto split: if_splits bind_splits)
    moreover from this have "hs1 = hs' @ [(name, val)]" by (simp add: add_header_def split: if_splits)
    moreover have "\<forall>p\<in>set (hs' @ [(name, val)]). \<not> forbidden_header (fst p)" using 2(4) ok by simp
    moreover have "\<forall>n v. auth = Some (n, v) \<longrightarrow>
        (\<forall>p\<in>set (hs' @ [(name, val)]). to_ascii_lowercase (fst p) \<noteq> to_ascii_lowercase n)"
      using 2(5) False by auto
    ultimately show ?thesis using 2(2) [OF ok False] by blast
  qed
qed

lemma prepare_get_allowed:
  "prepare_get H ptr len out capacity s = Some r \<Longrightarrow> request_allowed (hs_urls s) (hs_auth s) r"
proof -
  assume "prepare_get H ptr len out capacity s = Some r"
  then obtain u headers where a: "list_ex (\<lambda>a. allowed_url_allows (hh_web H) a u) (hs_urls s)"
    and h: "build_headers H (hs_auth s) headers [] = Some (snd r)" and u: "fst r = u"
    by (auto simp: prepare_get_def split: bind_splits if_splits)
  from a obtain a where "a \<in> set (hs_urls s)" "allowed_url_allows (hh_web H) a u" by (auto simp: list_ex_iff)
  with allowed_destination [of "hh_web H" a u] u
  have "\<exists>a\<in>set (hs_urls s). same_destination (au_url a) (fst r) \<and>
      (\<not> au_any_query a \<longrightarrow> u_query (au_url a) = u_query (fst r))" by blast
  moreover have "(\<forall>p\<in>set (snd r). forbidden_header (fst p) \<longrightarrow> hs_auth s = Some p) \<and>
      (\<forall>n v. hs_auth s = Some (n, v) \<longrightarrow>
        filter (\<lambda>p. to_ascii_lowercase (fst p) = to_ascii_lowercase n) (snd r) = [(n, v)])"
    by (rule build_headers_spec [OF h]) simp_all
  ultimately show ?thesis unfolding request_allowed_def by blast
qed

lemma http_get_cases:
  assumes "http_get H ptr len out capacity s = (r, s')"
  obtains (rejected) "r = -1" "s' = s"
  | (failed) "r = -1" "s' = s\<lparr>hs_calls := hs_calls s + 1\<rparr>" "hs_calls s < 4"
  | (sent) req where "request_allowed (hs_urls s) (hs_auth s) req" "hs_calls s < 4"
      "hs_sent s' = hs_sent s @ [req]" "hs_calls s' = hs_calls s + 1" "hs_urls s' = hs_urls s" "hs_auth s' = hs_auth s"
      "r = -1 \<and> hs_memory s' = hs_memory s \<or>
       (\<exists>b. r = int (length b) \<and> length b \<le> nat capacity \<and> mem_write (hs_memory s) (nat out) b = Some (hs_memory s'))"
proof (cases "call_bounds ptr len out capacity s")
  case False
  with assms show ?thesis using that(1) by (simp add: http_get_def)
next
  case True
  let ?s = "s\<lparr>hs_calls := hs_calls s + 1\<rparr>"
  have c: "hs_calls s < 4" using True by (simp add: call_bounds_def)
  show ?thesis
  proof (cases "prepare_get H ptr len out capacity ?s")
    case None
    with True assms c show ?thesis using that(2) by (simp add: http_get_def)
  next
    case (Some req)
    have "request_allowed (hs_urls s) (hs_auth s) req" using prepare_get_allowed [OF Some] by simp
    moreover have "hs_sent s' = hs_sent s @ [req] \<and> hs_calls s' = hs_calls s + 1 \<and> hs_urls s' = hs_urls s \<and> hs_auth s' = hs_auth s \<and>
      (r = -1 \<and> hs_memory s' = hs_memory s \<or>
       (\<exists>b. r = int (length b) \<and> length b \<le> nat capacity \<and> mem_write (hs_memory s) (nat out) b = Some (hs_memory s')))"
      using assms True Some
      by (cases req) (auto simp: http_get_def Let_def split: option.splits if_splits)
    ultimately show ?thesis using that(3) c by blast
  qed
qed

definition confined :: "allowed_url list \<Rightarrow> (string \<times> string) option \<Rightarrow> host_state \<Rightarrow> bool" where
  "confined urls auth s \<longleftrightarrow> hs_urls s = urls \<and> hs_auth s = auth \<and> length (hs_sent s) \<le> hs_calls s \<and> hs_calls s \<le> 4 \<and>
    list_all (request_allowed urls auth) (hs_sent s)"

lemma guest_step_confined: "confined urls auth s \<Longrightarrow> confined urls auth (guest_step H op s)"
proof (cases op)
  case (Guest_memory mem)
  assume "confined urls auth s" with Guest_memory show ?thesis by (simp add: confined_def)
next
  case (Guest_get ptr len out capacity)
  assume ok: "confined urls auth s"
  obtain r s' where g: "http_get H ptr len out capacity s = (r, s')" by (cases "http_get H ptr len out capacity s")
  from g have "confined urls auth s'"
    by (cases rule: http_get_cases) (use ok in \<open>auto simp: confined_def\<close>)
  with g Guest_get show ?thesis by simp
qed

lemma guest_run_confined: "confined urls auth s \<Longrightarrow> confined urls auth (guest_run H ops s)"
  unfolding guest_run_def by (induction ops arbitrary: s) (simp_all add: guest_step_confined)

definition unchanged_outside :: "nat \<Rightarrow> nat \<Rightarrow> bytes \<Rightarrow> bytes \<Rightarrow> bool" where
  "unchanged_outside p n mem mem' \<longleftrightarrow> length mem' = length mem \<and>
    (\<forall>i<length mem. i < p \<or> p + n \<le> i \<longrightarrow> mem' ! i = mem ! i)"

text \<open>C24: a plugin cannot use the host to reach anything but its allowlist. However it
  calls the host and whatever it leaves in its memory, one invocation sends at most four
  requests, each to a destination of the allowlist with the same scheme, credentials, host,
  port, path and fragment and, unless the entry is relaxed, the same query; the service
  credential is sent exactly once under its header and cannot be overridden, framing
  headers are refused, and an answer is written only inside the buffer the plugin gave.\<close>

theorem plugin_http_confined:
  "length (hs_sent (guest_run H ops (host_state_new urls auth mem))) \<le> 4 \<and>
    list_all (request_allowed urls auth) (hs_sent (guest_run H ops (host_state_new urls auth mem))) \<and>
    unchanged_outside (nat out) (nat capacity) (hs_memory s) (hs_memory (snd (http_get H ptr len out capacity s)))"
proof -
  have "confined urls auth (host_state_new urls auth mem)" by (simp add: confined_def host_state_new_def)
  note c = guest_run_confined [OF this, of H ops]
  obtain r s' where g: "http_get H ptr len out capacity s = (r, s')" by (cases "http_get H ptr len out capacity s")
  then have "unchanged_outside (nat out) (nat capacity) (hs_memory s) (hs_memory s')"
  proof (cases rule: http_get_cases)
    case (sent req)
    from sent(7) show ?thesis
    proof
      assume "\<exists>b. r = int (length b) \<and> length b \<le> nat capacity \<and> mem_write (hs_memory s) (nat out) b = Some (hs_memory s')"
      then obtain b where "length b \<le> nat capacity" and w: "mem_write (hs_memory s) (nat out) b = Some (hs_memory s')" by blast
      then show ?thesis using mem_write_frame(1,2) [OF w] by (auto simp: unchanged_outside_def)
    qed (simp add: unchanged_outside_def)
  qed (simp_all add: unchanged_outside_def)
  with c g show ?thesis by (simp add: confined_def)
qed

end
