(* ===== verification/LT_Query.thy ===== *)
theory LT_Query
  imports LT_Json
begin

text \<open>
  \<open>storage/query.rs\<close>: structured queries over allowlisted datasets and the schema that
  describes them. The SQL builder is external: a query is the sequence of calls made on
  it, text that is pushed and values that are bound. The parsers of timestamps and
  UUIDs, the size of printed JSON and the execution of the query are arguments.
\<close>

section \<open>Requests\<close>

datatype query_op = Eq | Ne | Contains | Gt | Gte | Lt | Lte | IsNull | IsNotNull

datatype sort_direction = Asc | Desc

record query_filter =
  qf_field :: string
  qf_op :: query_op
  qf_value :: "json option"

record query_order =
  qo_field :: string
  qo_direction :: sort_direction

record structured_query =
  sq_dataset :: string
  sq_fields :: "string list option"
  sq_filters :: "query_filter list"
  sq_order_by :: "query_order list"
  sq_limit :: "int option"

definition MAX_STRUCTURED_QUERY_FIELDS :: nat where
  "MAX_STRUCTURED_QUERY_FIELDS = 64"

definition MAX_STRUCTURED_QUERY_FILTERS :: nat where
  "MAX_STRUCTURED_QUERY_FILTERS = 32"

definition MAX_STRUCTURED_QUERY_ORDER_BY :: nat where
  "MAX_STRUCTURED_QUERY_ORDER_BY = 8"

definition MAX_STRUCTURED_QUERY_STRING_VALUE_BYTES :: nat where
  "MAX_STRUCTURED_QUERY_STRING_VALUE_BYTES = 4096"

definition MAX_STRUCTURED_QUERY_JSON_VALUE_BYTES :: nat where
  "MAX_STRUCTURED_QUERY_JSON_VALUE_BYTES = 16384"

fun direction_as_str :: "sort_direction \<Rightarrow> string" where
  "direction_as_str Asc = ''asc''"
| "direction_as_str Desc = ''desc''"

section \<open>Datasets\<close>

datatype filter_kind = KText | KInt | KBool | KTimestamp | KUuid | KJson | KJsonPath | KTextArray

fun kind_as_str :: "filter_kind \<Rightarrow> string" where
  "kind_as_str KText = ''text''"
| "kind_as_str KInt = ''int''"
| "kind_as_str KBool = ''bool''"
| "kind_as_str KTimestamp = ''timestamp''"
| "kind_as_str KUuid = ''uuid''"
| "kind_as_str KJson = ''json''"
| "kind_as_str KJsonPath = ''json_path''"
| "kind_as_str KTextArray = ''text_array''"

fun operators :: "filter_kind \<Rightarrow> string list" where
  "operators KText = [''eq'', ''ne'', ''contains'', ''gt'', ''gte'', ''lt'', ''lte'', ''is_null'', ''is_not_null'']"
| "operators KInt = [''eq'', ''ne'', ''gt'', ''gte'', ''lt'', ''lte'', ''is_null'', ''is_not_null'']"
| "operators KTimestamp = [''eq'', ''ne'', ''gt'', ''gte'', ''lt'', ''lte'', ''is_null'', ''is_not_null'']"
| "operators KUuid = [''eq'', ''ne'', ''gt'', ''gte'', ''lt'', ''lte'', ''is_null'', ''is_not_null'']"
| "operators KBool = [''eq'', ''ne'', ''is_null'', ''is_not_null'']"
| "operators KJson = [''eq'', ''ne'', ''contains'', ''is_null'', ''is_not_null'']"
| "operators KJsonPath = [''eq'', ''ne'', ''contains'', ''is_null'', ''is_not_null'']"
| "operators KTextArray = [''contains'', ''is_null'', ''is_not_null'']"

record field_spec =
  fs_name :: string
  fs_filter :: "filter_kind option"

record default_order =
  do_field :: string
  do_direction :: sort_direction

record dataset_spec =
  ds_name :: string
  ds_relation :: string
  ds_fields :: "field_spec list"
  ds_default_fields :: "string list"
  ds_default_order :: "default_order list"

definition field_of :: "string \<Rightarrow> filter_kind \<Rightarrow> field_spec" where
  "field_of name kind = \<lparr>fs_name = name, fs_filter = Some kind\<rparr>"

definition REQUEST_FIELDS :: "field_spec list" where
  "REQUEST_FIELDS =
    [field_of ''ttfb_ms'' KInt, field_of ''input_tokens'' KInt, field_of ''output_tokens'' KInt,
     field_of ''cached_input_tokens'' KInt, field_of ''cache_creation_input_tokens'' KInt,
     field_of ''estimated_cost_microusd'' KInt, field_of ''tool_call_count'' KInt, field_of ''usage_complete'' KBool,
     field_of ''id'' KUuid, field_of ''started_at'' KTimestamp, field_of ''completed_at'' KTimestamp,
     field_of ''method'' KText, field_of ''original_uri'' KText, field_of ''upstream_url'' KText,
     field_of ''upstream_host'' KText, field_of ''status'' KInt, field_of ''error'' KText,
     field_of ''request_kind'' KText, field_of ''model'' KText, field_of ''api_key_hash'' KText,
     field_of ''session_key'' KText, field_of ''session_id'' KUuid, field_of ''ttft_ms'' KInt,
     field_of ''duration_ms'' KInt, field_of ''bytes_in'' KInt, field_of ''bytes_out'' KInt,
     field_of ''request_headers'' KJson, field_of ''response_headers'' KJson, field_of ''request_body_bytes'' KInt,
     field_of ''response_body_bytes'' KInt, field_of ''request_body_truncated'' KBool,
     field_of ''response_body_truncated'' KBool, field_of ''content_type'' KText, field_of ''plugin_metadata'' KJson,
     field_of ''tags'' KTextArray]"

definition SESSION_FIELDS :: "field_spec list" where
  "SESSION_FIELDS =
    [field_of ''id'' KUuid, field_of ''session_key'' KText, field_of ''first_seen'' KTimestamp,
     field_of ''last_seen'' KTimestamp, field_of ''user_id'' KText, field_of ''user_name'' KText,
     field_of ''summary'' KJson]"

definition MESSAGE_FIELDS :: "field_spec list" where
  "MESSAGE_FIELDS =
    [field_of ''id'' KInt, field_of ''request_id'' KUuid, field_of ''session_id'' KUuid, field_of ''role'' KText,
     field_of ''content'' KText, field_of ''content_truncated'' KBool, field_of ''created_at'' KTimestamp]"

definition ROLLUP_FIELDS :: "field_spec list" where
  "ROLLUP_FIELDS =
    [field_of ''bucket'' KTimestamp, field_of ''last_seen'' KTimestamp, field_of ''total'' KInt,
     field_of ''errors'' KInt, field_of ''captured_bytes'' KInt, field_of ''duration_count'' KInt,
     field_of ''duration_sum_ms'' KInt, field_of ''ttft_count'' KInt, field_of ''ttft_sum_ms'' KInt]"

definition newest_first :: "string \<Rightarrow> default_order list" where
  "newest_first name = [\<lparr>do_field = name, do_direction = Desc\<rparr>]"

definition DATASETS :: "dataset_spec list" where
  "DATASETS =
    [\<lparr>ds_name = ''requests'', ds_relation = ''trace_requests'', ds_fields = REQUEST_FIELDS,
      ds_default_fields = [''id'', ''started_at'', ''method'', ''original_uri'', ''upstream_host'', ''status'',
        ''request_kind'', ''model'', ''duration_ms'', ''bytes_in'', ''bytes_out'', ''tags''],
      ds_default_order = newest_first ''started_at''\<rparr>,
     \<lparr>ds_name = ''sessions'', ds_relation = ''trace_sessions'', ds_fields = SESSION_FIELDS,
      ds_default_fields = [''id'', ''session_key'', ''first_seen'', ''last_seen'', ''user_id'', ''user_name''],
      ds_default_order = newest_first ''last_seen''\<rparr>,
     \<lparr>ds_name = ''messages'', ds_relation = ''trace_messages'', ds_fields = MESSAGE_FIELDS,
      ds_default_fields = [''id'', ''request_id'', ''session_id'', ''role'', ''content'', ''created_at''],
      ds_default_order = newest_first ''created_at''\<rparr>,
     \<lparr>ds_name = ''rollups_minute'', ds_relation = ''trace_rollups_minute'', ds_fields = ROLLUP_FIELDS,
      ds_default_fields = [''bucket'', ''last_seen'', ''total'', ''errors'', ''captured_bytes'', ''duration_count'',
        ''duration_sum_ms'', ''ttft_count'', ''ttft_sum_ms''],
      ds_default_order = newest_first ''bucket''\<rparr>]"

section \<open>The builder\<close>

datatype bind_value =
    Bind_text string
  | Bind_i64 int
  | Bind_bool bool
  | Bind_timestamp int
  | Bind_uuid uuid
  | Bind_json json
  | Bind_text_array "string list"

datatype piece = Push string | Push_bind bind_value

type_synonym builder = "piece list"

definition push :: "string \<Rightarrow> builder \<Rightarrow> builder" where
  "push s b = b @ [Push s]"

definition push_bind :: "bind_value \<Rightarrow> builder \<Rightarrow> builder" where
  "push_bind v b = b @ [Push_bind v]"

record query_lib =
  ql_parse_rfc3339 :: "string \<Rightarrow> int option"
  ql_parse_uuid :: "string \<Rightarrow> uuid option"
  ql_json_len :: "json \<Rightarrow> nat option"

datatype query_error =
    Unknown_dataset string
  | Fields_empty
  | Too_many_fields
  | No_field_selected
  | Too_many_order_by
  | Too_many_filters
  | Field_not_allowed string
  | Path_empty
  | Path_too_long
  | Path_segment_invalid string
  | Not_filterable string
  | Value_required string
  | Operator_unsupported query_op string
  | Not_a_comparison query_op
  | Wrong_value string
  | Value_too_long string

datatype queryField = Static field_spec | Plugin_metadata_path string "string list"

fun field_name :: "queryField \<Rightarrow> string" where
  "field_name (Static f) = fs_name f"
| "field_name (Plugin_metadata_path name path) = name"

fun field_filter :: "queryField \<Rightarrow> filter_kind option" where
  "field_filter (Static f) = fs_filter f"
| "field_filter (Plugin_metadata_path name path) = Some KJsonPath"

fun append_sql :: "queryField \<Rightarrow> builder \<Rightarrow> builder" where
  "append_sql (Static f) b = push (fs_name f) b"
| "append_sql (Plugin_metadata_path name path) b =
    push '')'' (push_bind (Bind_text_array path) (push ''(plugin_metadata #> '' b))"

section \<open>Fields\<close>

definition PLUGIN_METADATA_FIELD_PREFIX :: string where
  "PLUGIN_METADATA_FIELD_PREFIX = ''plugin_metadata.''"

definition MAX_PLUGIN_METADATA_PATH_SEGMENTS :: nat where
  "MAX_PLUGIN_METADATA_PATH_SEGMENTS = 16"

definition MAX_PLUGIN_METADATA_PATH_SEGMENT_LEN :: nat where
  "MAX_PLUGIN_METADATA_PATH_SEGMENT_LEN = 64"

definition valid_plugin_metadata_path_segment :: "string \<Rightarrow> bool" where
  "valid_plugin_metadata_path_segment segment \<longleftrightarrow>
    segment \<noteq> [] \<and> length segment \<le> MAX_PLUGIN_METADATA_PATH_SEGMENT_LEN \<and>
    list_all (\<lambda>c. is_ascii_alphanumeric c \<or> c = CHR ''_'' \<or> c = CHR ''-'') segment"

definition plugin_metadata_path :: "string \<Rightarrow> query_error + string list option" where
  "plugin_metadata_path name =
    (case strip_prefix PLUGIN_METADATA_FIELD_PREFIX name of
       None \<Rightarrow> Inr None
     | Some path \<Rightarrow>
         if path = [] then Inl Path_empty
         else let segments = split_on CHR ''.'' path in
           if length segments > MAX_PLUGIN_METADATA_PATH_SEGMENTS then Inl Path_too_long
           else (case find (\<lambda>segment. \<not> valid_plugin_metadata_path_segment segment) segments of
                   Some segment \<Rightarrow> Inl (Path_segment_invalid segment)
                 | None \<Rightarrow> Inr (Some segments)))"

definition find_dataset :: "string \<Rightarrow> query_error + dataset_spec" where
  "find_dataset name = ok_or (find (\<lambda>d. ds_name d = name) DATASETS) (Unknown_dataset name)"

definition find_field :: "dataset_spec \<Rightarrow> string \<Rightarrow> query_error + field_spec" where
  "find_field d name = ok_or (find (\<lambda>f. fs_name f = name) (ds_fields d)) (Field_not_allowed name)"

definition query_field :: "dataset_spec \<Rightarrow> string \<Rightarrow> query_error + queryField" where
  "query_field d name =
    (case find_field d name of
       Inr f \<Rightarrow> Inr (Static f)
     | Inl _ \<Rightarrow>
         if ds_name d = ''requests''
         then bind_res (plugin_metadata_path name) (\<lambda>path.
           (case path of
              Some path \<Rightarrow> Inr (Plugin_metadata_path name path)
            | None \<Rightarrow> Inl (Field_not_allowed name)))
         else Inl (Field_not_allowed name))"

fun select_fields :: "dataset_spec \<Rightarrow> string list \<Rightarrow> queryField list \<Rightarrow> query_error + queryField list" where
  "select_fields d [] selected = Inr selected"
| "select_fields d (name # names) selected =
    bind_res (query_field d name) (\<lambda>field.
      if list_ex (\<lambda>s. field_name s = field_name field) selected then select_fields d names selected
      else select_fields d names (selected @ [field]))"

definition selected_fields :: "dataset_spec \<Rightarrow> string list option \<Rightarrow> query_error + queryField list" where
  "selected_fields d requested =
    bind_res
      (case requested of
         Some [] \<Rightarrow> Inl Fields_empty
       | Some names \<Rightarrow> if length names > MAX_STRUCTURED_QUERY_FIELDS then Inl Too_many_fields else Inr names
       | None \<Rightarrow> Inr (ds_default_fields d))
      (\<lambda>names. bind_res (select_fields d names []) (\<lambda>selected.
         if selected = [] then Inl No_field_selected else Inr selected))"

fun resolve_order :: "dataset_spec \<Rightarrow> (string \<times> sort_direction) list \<Rightarrow> query_error + (queryField \<times> sort_direction) list" where
  "resolve_order d [] = Inr []"
| "resolve_order d ((name, direction) # rest) =
    bind_res (query_field d name) (\<lambda>field.
    bind_res (resolve_order d rest) (\<lambda>xs. Inr ((field, direction) # xs)))"

definition selected_order :: "dataset_spec \<Rightarrow> query_order list \<Rightarrow> query_error + (queryField \<times> sort_direction) list" where
  "selected_order d requested =
    (if length requested > MAX_STRUCTURED_QUERY_ORDER_BY then Inl Too_many_order_by
     else if requested = []
     then resolve_order d (map (\<lambda>x. (do_field x, do_direction x)) (ds_default_order d))
     else resolve_order d (map (\<lambda>x. (qo_field x, qo_direction x)) requested))"

definition validate_structured_query_filters :: "query_filter list \<Rightarrow> query_error + unit" where
  "validate_structured_query_filters filters =
    (if length filters > MAX_STRUCTURED_QUERY_FILTERS then Inl Too_many_filters else Inr ())"

section \<open>Values\<close>

definition value_as_string :: "string \<Rightarrow> json \<Rightarrow> query_error + string" where
  "value_as_string field v =
    bind_res (ok_or (as_str v) (Wrong_value field)) (\<lambda>s.
      if length s > MAX_STRUCTURED_QUERY_STRING_VALUE_BYTES then Inl (Value_too_long field) else Inr s)"

definition validate_json_filter_value_size :: "query_lib \<Rightarrow> string \<Rightarrow> json \<Rightarrow> query_error + unit" where
  "validate_json_filter_value_size L field v =
    bind_res (ok_or (ql_json_len L v) (Wrong_value field)) (\<lambda>n.
      if n > MAX_STRUCTURED_QUERY_JSON_VALUE_BYTES then Inl (Value_too_long field) else Inr ())"

definition value_as_i64 :: "string \<Rightarrow> json \<Rightarrow> query_error + int" where
  "value_as_i64 field v = ok_or (as_i64 v) (Wrong_value field)"

definition value_as_bool :: "string \<Rightarrow> json \<Rightarrow> query_error + bool" where
  "value_as_bool field v = ok_or (as_bool v) (Wrong_value field)"

definition value_as_timestamp :: "query_lib \<Rightarrow> string \<Rightarrow> json \<Rightarrow> query_error + int" where
  "value_as_timestamp L field v =
    bind_res (value_as_string field v) (\<lambda>s. ok_or (ql_parse_rfc3339 L s) (Wrong_value field))"

definition value_as_uuid :: "query_lib \<Rightarrow> string \<Rightarrow> json \<Rightarrow> query_error + uuid" where
  "value_as_uuid L field v =
    bind_res (value_as_string field v) (\<lambda>s. ok_or (ql_parse_uuid L s) (Wrong_value field))"

fun comparison_operator :: "query_op \<Rightarrow> query_error + string" where
  "comparison_operator Eq = Inr '' = ''"
| "comparison_operator Ne = Inr '' <> ''"
| "comparison_operator Gt = Inr '' > ''"
| "comparison_operator Gte = Inr '' >= ''"
| "comparison_operator Lt = Inr '' < ''"
| "comparison_operator Lte = Inr '' <= ''"
| "comparison_operator op = Inl (Not_a_comparison op)"

definition replace_char :: "char \<Rightarrow> string \<Rightarrow> string \<Rightarrow> string" where
  "replace_char c r s = concat (map (\<lambda>x. if x = c then r else [x]) s)"

definition escape_like :: "string \<Rightarrow> string" where
  "escape_like v =
    replace_char CHR ''_'' [CHR 0x5C, CHR ''_'']
      (replace_char CHR ''%'' [CHR 0x5C, CHR ''%'']
        (replace_char CHR 0x5C [CHR 0x5C, CHR 0x5C] v))"

section \<open>Filters\<close>

definition append_comparison :: "queryField \<Rightarrow> query_op \<Rightarrow> bind_value \<Rightarrow> builder \<Rightarrow> query_error + builder" where
  "append_comparison field op v b =
    bind_res (comparison_operator op) (\<lambda>sql. Inr (push_bind v (push sql (append_sql field b))))"

definition json_null :: string where
  "json_null = [CHR 0x27] @ ''null'' @ [CHR 0x27] @ ''::jsonb''"

fun append_null_filter :: "queryField \<Rightarrow> bool \<Rightarrow> builder \<Rightarrow> builder" where
  "append_null_filter (Plugin_metadata_path name path) null b =
    push '')''
      (push (if null then '' = '' @ json_null else '' <> '' @ json_null)
        (append_sql (Plugin_metadata_path name path)
          (push (if null then '' IS NULL OR '' else '' IS NOT NULL AND '')
            (append_sql (Plugin_metadata_path name path) (push ''('' b)))))"
| "append_null_filter (Static f) null b =
    push (if null then '' IS NULL'' else '' IS NOT NULL'') (append_sql (Static f) b)"

definition append_text_filter :: "queryField \<Rightarrow> query_op \<Rightarrow> json \<Rightarrow> builder \<Rightarrow> query_error + builder" where
  "append_text_filter field op v b =
    bind_res (value_as_string (field_name field) v) (\<lambda>s.
      if op = Contains
      then Inr (push ('' ESCAPE '' @ [CHR 0x27, CHR 0x5C, CHR 0x27])
        (push_bind (Bind_text (''%'' @ escape_like s @ ''%'')) (push '' ILIKE '' (append_sql field b))))
      else append_comparison field op (Bind_text s) b)"

definition append_int_filter :: "queryField \<Rightarrow> query_op \<Rightarrow> json \<Rightarrow> builder \<Rightarrow> query_error + builder" where
  "append_int_filter field op v b =
    bind_res (value_as_i64 (field_name field) v) (\<lambda>i. append_comparison field op (Bind_i64 i) b)"

definition append_bool_filter :: "queryField \<Rightarrow> query_op \<Rightarrow> json \<Rightarrow> builder \<Rightarrow> query_error + builder" where
  "append_bool_filter field op v b =
    bind_res (value_as_bool (field_name field) v) (\<lambda>x.
      if op = Eq \<or> op = Ne then append_comparison field op (Bind_bool x) b
      else Inl (Operator_unsupported op (field_name field)))"

definition append_timestamp_filter :: "query_lib \<Rightarrow> queryField \<Rightarrow> query_op \<Rightarrow> json \<Rightarrow> builder \<Rightarrow> query_error + builder" where
  "append_timestamp_filter L field op v b =
    bind_res (value_as_timestamp L (field_name field) v) (\<lambda>t. append_comparison field op (Bind_timestamp t) b)"

definition append_uuid_filter :: "query_lib \<Rightarrow> queryField \<Rightarrow> query_op \<Rightarrow> json \<Rightarrow> builder \<Rightarrow> query_error + builder" where
  "append_uuid_filter L field op v b =
    bind_res (value_as_uuid L (field_name field) v) (\<lambda>u.
      if op \<in> {Eq, Ne, Gt, Gte, Lt, Lte} then append_comparison field op (Bind_uuid u) b
      else Inl (Operator_unsupported op (field_name field)))"

definition append_json_filter :: "query_lib \<Rightarrow> queryField \<Rightarrow> query_op \<Rightarrow> json \<Rightarrow> builder \<Rightarrow> query_error + builder" where
  "append_json_filter L field op v b =
    bind_res (validate_json_filter_value_size L (field_name field) v) (\<lambda>_.
      if op = Eq \<or> op = Ne then append_comparison field op (Bind_json v) b
      else if op = Contains then Inr (push_bind (Bind_json v) (push '' @> '' (append_sql field b)))
      else Inl (Operator_unsupported op (field_name field)))"

definition append_text_array_filter :: "queryField \<Rightarrow> query_op \<Rightarrow> json \<Rightarrow> builder \<Rightarrow> query_error + builder" where
  "append_text_array_filter field op v b =
    bind_res (value_as_string (field_name field) v) (\<lambda>s.
      if op = Contains
      then Inr (push '')'' (append_sql field (push '' = ANY('' (push_bind (Bind_text s) b))))
      else Inl (Operator_unsupported op (field_name field)))"

fun append_kind_filter ::
  "query_lib \<Rightarrow> filter_kind \<Rightarrow> queryField \<Rightarrow> query_op \<Rightarrow> json \<Rightarrow> builder \<Rightarrow> query_error + builder" where
  "append_kind_filter L KText field op v b = append_text_filter field op v b"
| "append_kind_filter L KInt field op v b = append_int_filter field op v b"
| "append_kind_filter L KBool field op v b = append_bool_filter field op v b"
| "append_kind_filter L KTimestamp field op v b = append_timestamp_filter L field op v b"
| "append_kind_filter L KUuid field op v b = append_uuid_filter L field op v b"
| "append_kind_filter L KJson field op v b = append_json_filter L field op v b"
| "append_kind_filter L KJsonPath field op v b = append_json_filter L field op v b"
| "append_kind_filter L KTextArray field op v b = append_text_array_filter field op v b"

definition append_filter :: "query_lib \<Rightarrow> dataset_spec \<Rightarrow> query_filter \<Rightarrow> builder \<Rightarrow> query_error + builder" where
  "append_filter L d f b =
    bind_res (query_field d (qf_field f)) (\<lambda>field.
    bind_res (ok_or (field_filter field) (Not_filterable (qf_field f))) (\<lambda>kind.
      if qf_op f = IsNull then Inr (append_null_filter field True b)
      else if qf_op f = IsNotNull then Inr (append_null_filter field False b)
      else if (qf_op f = Eq \<or> qf_op f = Ne) \<and> qf_value f = Some JNull
      then Inr (append_null_filter field (qf_op f = Eq) b)
      else bind_res (ok_or (qf_value f) (Value_required (qf_field f))) (\<lambda>v.
        append_kind_filter L kind field (qf_op f) v b)))"

section \<open>The query\<close>

definition append_identifier :: "string \<Rightarrow> builder \<Rightarrow> builder" where
  "append_identifier name b = push [CHR 0x22] (push name (push [CHR 0x22] b))"

definition append_selected :: "queryField \<Rightarrow> builder \<Rightarrow> builder" where
  "append_selected field b = append_identifier (field_name field) (push '' AS '' (append_sql field b))"

fun append_all_selected :: "queryField list \<Rightarrow> builder \<Rightarrow> builder" where
  "append_all_selected [] b = b"
| "append_all_selected [f] b = append_selected f b"
| "append_all_selected (f # fs) b = append_all_selected fs (push '', '' (append_selected f b))"

fun append_filters :: "query_lib \<Rightarrow> dataset_spec \<Rightarrow> query_filter list \<Rightarrow> builder \<Rightarrow> query_error + builder" where
  "append_filters L d [] b = Inr b"
| "append_filters L d [f] b = append_filter L d f b"
| "append_filters L d (f # fs) b = bind_res (append_filter L d f b) (\<lambda>b. append_filters L d fs (push '' AND '' b))"

definition append_direction :: "queryField \<times> sort_direction \<Rightarrow> builder \<Rightarrow> builder" where
  "append_direction x b =
    push (case snd x of Asc \<Rightarrow> '' ASC'' | Desc \<Rightarrow> '' DESC'') (append_sql (fst x) b)"

fun append_order :: "(queryField \<times> sort_direction) list \<Rightarrow> builder \<Rightarrow> builder" where
  "append_order [] b = b"
| "append_order [x] b = append_direction x b"
| "append_order (x # xs) b = append_order xs (push '', '' (append_direction x b))"

definition SELECT_TEXT :: string where
  "SELECT_TEXT = ''SELECT COALESCE(jsonb_agg(to_jsonb(q)), '' @ [CHR 0x27] @ ''[]'' @ [CHR 0x27] @
    ''::jsonb) AS rows FROM (SELECT ''"

definition query_limit :: "structured_query \<Rightarrow> int" where
  "query_limit q = max 1 (min 500 (case sq_limit q of None \<Rightarrow> 100 | Some n \<Rightarrow> n))"

definition build_structured_query ::
  "query_lib \<Rightarrow> structured_query \<Rightarrow> query_error + (dataset_spec \<times> queryField list \<times> int \<times> builder)" where
  "build_structured_query L q =
    bind_res (find_dataset (sq_dataset q)) (\<lambda>d.
    bind_res (selected_fields d (sq_fields q)) (\<lambda>selected.
    bind_res (selected_order d (sq_order_by q)) (\<lambda>order_by.
    bind_res (validate_structured_query_filters (sq_filters q)) (\<lambda>_.
    let b = push (ds_relation d) (push '' FROM '' (append_all_selected selected (push SELECT_TEXT [])))
    in bind_res (if sq_filters q = [] then Inr b else append_filters L d (sq_filters q) (push '' WHERE '' b)) (\<lambda>b.
    let b = (if order_by = [] then b else append_order order_by (push '' ORDER BY '' b));
        limit = query_limit q
    in Inr (d, selected, limit, push '') q'' (push_bind (Bind_i64 limit) (push '' LIMIT '' b))))))))"

datatype structured_query_error = Invalid query_error | Execution

definition run_structured_query ::
  "query_lib \<Rightarrow> (builder \<Rightarrow> json option) \<Rightarrow> structured_query \<Rightarrow> structured_query_error + json" where
  "run_structured_query L execute q =
    (case build_structured_query L q of
       Inl e \<Rightarrow> Inl (Invalid e)
     | Inr (d, selected, limit, b) \<Rightarrow>
         (case execute b of
            None \<Rightarrow> Inl Execution
          | Some rows \<Rightarrow>
              Inr (JObject [(''dataset'', JString (ds_name d)),
                (''fields'', JArray (map (\<lambda>f. JString (field_name f)) selected)),
                (''limit'', JNumber (PosInt (nat limit))), (''rows'', rows)])))"

section \<open>The published schema\<close>

definition field_schema :: "field_spec \<Rightarrow> json" where
  "field_schema f =
    JObject [(''filter_kind'', case fs_filter f of Some k \<Rightarrow> JString (kind_as_str k) | None \<Rightarrow> JNull),
      (''name'', JString (fs_name f)),
      (''operators'', JArray (map JString (case fs_filter f of Some k \<Rightarrow> operators k | None \<Rightarrow> [])))]"

definition default_order_schema :: "default_order \<Rightarrow> json" where
  "default_order_schema x =
    JObject [(''direction'', JString (direction_as_str (do_direction x))), (''field'', JString (do_field x))]"

definition dataset_schema :: "dataset_spec \<Rightarrow> json" where
  "dataset_schema d =
    JObject [(''default_fields'', JArray (map JString (ds_default_fields d))),
      (''default_order'', JArray (map default_order_schema (ds_default_order d))),
      (''fields'', JArray (map field_schema (ds_fields d))), (''name'', JString (ds_name d))]"

definition structured_query_schema :: json where
  "structured_query_schema =
    JObject
      [(''datasets'', JArray (map dataset_schema DATASETS)),
       (''limits'', JObject
         [(''max_fields'', JNumber (PosInt MAX_STRUCTURED_QUERY_FIELDS)),
          (''max_filters'', JNumber (PosInt MAX_STRUCTURED_QUERY_FILTERS)),
          (''max_json_value_bytes'', JNumber (PosInt MAX_STRUCTURED_QUERY_JSON_VALUE_BYTES)),
          (''max_limit'', JNumber (PosInt 500)),
          (''max_order_by'', JNumber (PosInt MAX_STRUCTURED_QUERY_ORDER_BY)),
          (''max_string_value_bytes'', JNumber (PosInt MAX_STRUCTURED_QUERY_STRING_VALUE_BYTES))]),
       (''plugin_metadata'', JObject
         [(''dataset'', JString ''requests''), (''field_prefix'', JString PLUGIN_METADATA_FIELD_PREFIX),
          (''filter_kind'', JString (kind_as_str KJsonPath)),
          (''max_segment_bytes'', JNumber (PosInt MAX_PLUGIN_METADATA_PATH_SEGMENT_LEN)),
          (''max_segments'', JNumber (PosInt MAX_PLUGIN_METADATA_PATH_SEGMENTS)),
          (''operators'', JArray (map JString (operators KJsonPath))),
          (''segment_pattern'', JString ''[A-Za-z0-9_-]+'')]),
       (''sort_directions'', JArray [JString ''asc'', JString ''desc''])]"

section \<open>What reaches the builder\<close>

fun text_of :: "piece \<Rightarrow> string option" where
  "text_of (Push s) = Some s"
| "text_of (Push_bind v) = None"

fun bind_of :: "piece \<Rightarrow> bind_value option" where
  "bind_of (Push s) = None"
| "bind_of (Push_bind v) = Some v"

definition texts :: "builder \<Rightarrow> string list" where
  "texts b = List.map_filter text_of b"

definition binds :: "builder \<Rightarrow> bind_value list" where
  "binds b = List.map_filter bind_of b"

lemma builder_simps [simp]:
  "texts [] = []" "binds [] = []"
  "texts (push s b) = texts b @ [s]" "texts (push_bind v b) = texts b"
  "binds (push s b) = binds b" "binds (push_bind v b) = binds b @ [v]"
  by (simp_all add: texts_def binds_def push_def push_bind_def map_filter_simps List.map_filter_def)

fun sql_texts :: "queryField \<Rightarrow> string list" where
  "sql_texts (Static f) = [fs_name f]"
| "sql_texts (Plugin_metadata_path name path) = [''(plugin_metadata #> '', '')'']"

fun sql_binds :: "queryField \<Rightarrow> bind_value list" where
  "sql_binds (Static f) = []"
| "sql_binds (Plugin_metadata_path name path) = [Bind_text_array path]"

lemma append_sql_parts [simp]:
  "texts (append_sql f b) = texts b @ sql_texts f" "binds (append_sql f b) = binds b @ sql_binds f"
  by (cases f; simp)+

text \<open>The text a filter contributes, from its field, its operator and whether its
  value is null.\<close>

fun null_texts :: "queryField \<Rightarrow> bool \<Rightarrow> string list" where
  "null_texts (Static f) null = [fs_name f, if null then '' IS NULL'' else '' IS NOT NULL'']"
| "null_texts (Plugin_metadata_path name path) null =
    [''('', ''(plugin_metadata #> '', '')'', if null then '' IS NULL OR '' else '' IS NOT NULL AND '',
     ''(plugin_metadata #> '', '')'', (if null then '' = '' else '' <> '') @ json_null, '')'']"

definition comparison_texts :: "query_op \<Rightarrow> string list" where
  "comparison_texts op = (case comparison_operator op of Inr s \<Rightarrow> [s] | Inl _ \<Rightarrow> [])"

definition escape_text :: string where
  "escape_text = '' ESCAPE '' @ [CHR 0x27, CHR 0x5C, CHR 0x27]"

definition kind_texts :: "filter_kind \<Rightarrow> queryField \<Rightarrow> query_op \<Rightarrow> string list" where
  "kind_texts k f op =
    (if k = KTextArray then ['' = ANY(''] @ sql_texts f @ ['')'']
     else sql_texts f @
       (if op = Contains then (if k = KText then ['' ILIKE '', escape_text] else ['' @> '']) else comparison_texts op))"

definition filter_texts :: "queryField \<Rightarrow> query_op \<Rightarrow> bool \<Rightarrow> string list" where
  "filter_texts f op null =
    (if op = IsNull then null_texts f True
     else if op = IsNotNull then null_texts f False
     else if (op = Eq \<or> op = Ne) \<and> null then null_texts f (op = Eq)
     else kind_texts (the (field_filter f)) f op)"

definition query_shape ::
  "structured_query \<Rightarrow> string \<times> string list option \<times> (string \<times> query_op \<times> bool) list \<times> query_order list" where
  "query_shape q =
    (sq_dataset q, sq_fields q, map (\<lambda>f. (qf_field f, qf_op f, qf_value f = Some JNull)) (sq_filters q), sq_order_by q)"

lemma append_null_parts [simp]:
  "texts (append_null_filter f null b) = texts b @ null_texts f null"
  "list_all P (binds (append_null_filter f null b)) \<longleftrightarrow> list_all P (binds b) \<and> list_all P (sql_binds f)"
  by (cases f; auto)+

lemma append_comparison_parts:
  "append_comparison f op v b = Inr b' \<Longrightarrow>
    texts b' = texts b @ sql_texts f @ comparison_texts op \<and> binds b' = binds b @ sql_binds f @ [v] \<and> op \<noteq> Contains"
  by (cases op) (auto simp: append_comparison_def comparison_texts_def)

text \<open>Values that may be bound: a pattern can be twice as long as its text.\<close>

fun bind_ok :: "query_lib \<Rightarrow> bind_value \<Rightarrow> bool" where
  "bind_ok L (Bind_text s) \<longleftrightarrow> length s \<le> 2 * MAX_STRUCTURED_QUERY_STRING_VALUE_BYTES + 2"
| "bind_ok L (Bind_json v) \<longleftrightarrow> (\<exists>n. ql_json_len L v = Some n \<and> n \<le> MAX_STRUCTURED_QUERY_JSON_VALUE_BYTES)"
| "bind_ok L (Bind_text_array path) \<longleftrightarrow>
    length path \<le> MAX_PLUGIN_METADATA_PATH_SEGMENTS \<and> list_all valid_plugin_metadata_path_segment path"
| "bind_ok L _ \<longleftrightarrow> True"

lemma value_as_string_length: "value_as_string f v = Inr s \<Longrightarrow> length s \<le> MAX_STRUCTURED_QUERY_STRING_VALUE_BYTES"
  by (auto simp: value_as_string_def ok_or_def bind_res_def split: option.splits if_splits)

lemma escape_like_alt:
  "escape_like v = concat (map (\<lambda>c. if c \<in> {CHR 0x5C, CHR ''%'', CHR ''_''} then [CHR 0x5C, c] else [c]) v)"
  by (induction v) (auto simp: escape_like_def replace_char_def)

lemma escape_like_length: "length (escape_like v) \<le> 2 * length v"
  unfolding escape_like_alt by (induction v) auto

lemma text_binds: "value_as_string f v = Inr s \<Longrightarrow> bind_ok L (Bind_text s) \<and> bind_ok L (Bind_text (''%'' @ escape_like s @ ''%''))"
  using value_as_string_length [of f v s] escape_like_length [of s] by simp

lemma append_text_parts:
  "append_text_filter f op v b = Inr b' \<Longrightarrow>
    texts b' = texts b @ kind_texts KText f op \<and> (\<exists>w. bind_ok L w \<and> binds b' = binds b @ sql_binds f @ [w])"
  using text_binds [of "field_name f" v _ L]
  by (auto simp: append_text_filter_def bind_res_Inr kind_texts_def escape_text_def dest!: append_comparison_parts
      split: if_splits)

lemma append_json_parts:
  "append_json_filter L f op v b = Inr b' \<Longrightarrow> k \<noteq> KText \<Longrightarrow> k \<noteq> KTextArray \<Longrightarrow>
    texts b' = texts b @ kind_texts k f op \<and> (\<exists>w. bind_ok L w \<and> binds b' = binds b @ sql_binds f @ [w])"
  by (auto simp: append_json_filter_def validate_json_filter_value_size_def ok_or_def bind_res_Inr kind_texts_def
      dest!: append_comparison_parts split: if_splits option.splits)

lemma append_array_parts:
  "append_text_array_filter f op v b = Inr b' \<Longrightarrow>
    texts b' = texts b @ kind_texts KTextArray f op \<and> (\<exists>w. bind_ok L w \<and> binds b' = binds b @ [w] @ sql_binds f)"
  using text_binds [of "field_name f" v _ L]
  by (auto simp: append_text_array_filter_def bind_res_Inr kind_texts_def split: if_splits)

lemma append_scalar_parts:
  "append_comparison f op w b = Inr b' \<Longrightarrow> bind_ok L w \<Longrightarrow> k \<noteq> KText \<Longrightarrow> k \<noteq> KTextArray \<Longrightarrow>
    texts b' = texts b @ kind_texts k f op \<and> (\<exists>w. bind_ok L w \<and> binds b' = binds b @ sql_binds f @ [w])"
  by (drule append_comparison_parts) (auto simp: kind_texts_def)

lemmas scalar_filters = append_int_filter_def append_bool_filter_def append_timestamp_filter_def append_uuid_filter_def
  bind_res_Inr

lemma append_kind_parts:
  assumes "append_kind_filter L k f op v b = Inr b'"
  shows "texts b' = texts b @ kind_texts k f op \<and>
    (\<exists>w. bind_ok L w \<and> set (binds b') = set (binds b) \<union> set (sql_binds f) \<union> {w})"
proof -
  have c: "texts b' = texts b @ kind_texts k f op \<and>
    (\<exists>w. bind_ok L w \<and> (binds b' = binds b @ sql_binds f @ [w] \<or> binds b' = binds b @ [w] @ sql_binds f))"
  proof (cases k)
    case KText
    with assms append_text_parts [of f op v b b' L] show ?thesis by auto
  next
    case KTextArray
    with assms append_array_parts [of f op v b b' L] show ?thesis by auto
  next
    case KJson
    with assms append_json_parts [of L f op v b b' KJson] show ?thesis by auto
  next
    case KJsonPath
    with assms append_json_parts [of L f op v b b' KJsonPath] show ?thesis by auto
  next
    case KInt
    with assms obtain i where "append_comparison f op (Bind_i64 i) b = Inr b'" by (auto simp: scalar_filters)
    from append_scalar_parts [OF this, of L KInt] KInt show ?thesis by auto
  next
    case KBool
    with assms obtain i where "append_comparison f op (Bind_bool i) b = Inr b'" by (auto simp: scalar_filters split: if_splits)
    from append_scalar_parts [OF this, of L KBool] KBool show ?thesis by auto
  next
    case KTimestamp
    with assms obtain i where "append_comparison f op (Bind_timestamp i) b = Inr b'" by (auto simp: scalar_filters)
    from append_scalar_parts [OF this, of L KTimestamp] KTimestamp show ?thesis by auto
  next
    case KUuid
    with assms obtain i where "append_comparison f op (Bind_uuid i) b = Inr b'" by (auto simp: scalar_filters split: if_splits)
    from append_scalar_parts [OF this, of L KUuid] KUuid show ?thesis by auto
  qed
  then show ?thesis by fastforce
qed

section \<open>Fields and filters\<close>

definition safe_name :: "string \<Rightarrow> bool" where
  "safe_name s \<longleftrightarrow>
    starts_with s PLUGIN_METADATA_FIELD_PREFIX \<and>
    list_all (\<lambda>c. is_ascii_alphanumeric c \<or> c \<in> {CHR ''_'', CHR ''-'', CHR ''.''}) s"

fun field_ok :: "dataset_spec \<Rightarrow> queryField \<Rightarrow> bool" where
  "field_ok d (Static f) \<longleftrightarrow> f \<in> set (ds_fields d)"
| "field_ok d (Plugin_metadata_path name path) \<longleftrightarrow> safe_name name \<and>
    length path \<le> MAX_PLUGIN_METADATA_PATH_SEGMENTS \<and> list_all valid_plugin_metadata_path_segment path"

lemma split_on_members: "c \<in> set s \<Longrightarrow> c = x \<or> (\<exists>p\<in>set (split_on x s). c \<in> set p)"
  by (induction s) (auto split: list.splits)

lemma metadata_path_ok:
  assumes "plugin_metadata_path name = Inr (Some path)"
  shows "field_ok d (Plugin_metadata_path name path)"
proof -
  obtain rest where r: "name = PLUGIN_METADATA_FIELD_PREFIX @ rest" "path = split_on CHR ''.'' rest"
      "length path \<le> MAX_PLUGIN_METADATA_PATH_SEGMENTS" "list_all valid_plugin_metadata_path_segment path"
    using assms by (auto simp: plugin_metadata_path_def strip_prefix_def starts_with_def prefix_def Let_def find_None_iff
        list_all_iff split: option.splits if_splits)
  have "is_ascii_alphanumeric c \<or> c \<in> {CHR ''_'', CHR ''-'', CHR ''.''}" if "c \<in> set rest" for c
    using split_on_members [OF that, of "CHR ''.''"] r(2,4)
    by (auto simp: list_all_iff valid_plugin_metadata_path_segment_def)
  moreover have "list_all (\<lambda>c. is_ascii_alphanumeric c \<or> c \<in> {CHR ''_'', CHR ''-'', CHR ''.''}) PLUGIN_METADATA_FIELD_PREFIX"
    by (simp add: PLUGIN_METADATA_FIELD_PREFIX_def is_ascii_alphanumeric_def byte_def)
  ultimately show ?thesis using r by (auto simp: safe_name_def starts_with_def list_all_iff)
qed

lemma query_field_ok: "query_field d name = Inr f \<Longrightarrow> field_ok d f \<and> field_name f = name"
  using metadata_path_ok [of name _ d]
  by (auto simp: query_field_def find_field_def ok_or_def find_Some_iff bind_res_Inr
      split: option.splits sum.splits if_splits)

lemma append_filter_parts:
  assumes "append_filter L d f b = Inr b'"
  obtains field where "query_field d (qf_field f) = Inr field"
    "texts b' = texts b @ filter_texts field (qf_op f) (qf_value f = Some JNull)"
    "list_all (bind_ok L) (binds b) \<Longrightarrow> list_all (bind_ok L) (binds b')"
proof -
  from assms obtain field k where f: "query_field d (qf_field f) = Inr field" "field_filter field = Some k"
    by (auto simp: append_filter_def bind_res_Inr ok_or_def split: option.splits)
  have sql: "list_all (bind_ok L) (sql_binds field)" using query_field_ok [OF f(1)] by (cases field) auto
  show thesis
  proof (cases "qf_op f = IsNull \<or> qf_op f = IsNotNull \<or> (qf_op f = Eq \<or> qf_op f = Ne) \<and> qf_value f = Some JNull")
    case True
    then have "b' = append_null_filter field (qf_op f = IsNull \<or> qf_op f = Eq) b"
      using assms f by (auto simp: append_filter_def ok_or_def split: if_splits)
    with True sql show thesis by (intro that [OF f(1)]) (auto simp: filter_texts_def)
  next
    case False
    then obtain v where v: "qf_value f = Some v" "append_kind_filter L k field (qf_op f) v b = Inr b'"
      using assms f by (auto simp: append_filter_def ok_or_def bind_res_Inr split: option.splits)
    note p = append_kind_parts [OF v(2)]
    have "texts b' = texts b @ filter_texts field (qf_op f) (qf_value f = Some JNull)"
      using p False f(2) by (auto simp: filter_texts_def)
    moreover have "list_all (bind_ok L) (binds b) \<Longrightarrow> list_all (bind_ok L) (binds b')"
      using p sql by (auto simp: list_all_iff)
    ultimately show thesis using that [OF f(1)] by blast
  qed
qed

section \<open>The text of a query\<close>

definition one_filter :: "dataset_spec \<Rightarrow> string \<times> query_op \<times> bool \<Rightarrow> string list" where
  "one_filter d x = (case query_field d (fst x) of Inr f \<Rightarrow> filter_texts f (fst (snd x)) (snd (snd x)) | Inl _ \<Rightarrow> [])"

fun filters_texts :: "dataset_spec \<Rightarrow> (string \<times> query_op \<times> bool) list \<Rightarrow> string list" where
  "filters_texts d [] = []"
| "filters_texts d [x] = one_filter d x"
| "filters_texts d (x # xs) = one_filter d x @ '' AND '' # filters_texts d xs"

definition filter_shape :: "query_filter \<Rightarrow> string \<times> query_op \<times> bool" where
  "filter_shape f = (qf_field f, qf_op f, qf_value f = Some JNull)"

lemma append_filters_parts:
  "append_filters L d fs b = Inr b' \<Longrightarrow>
    texts b' = texts b @ filters_texts d (map filter_shape fs) \<and>
    (list_all (bind_ok L) (binds b) \<longrightarrow> list_all (bind_ok L) (binds b'))"
proof (induction L d fs b arbitrary: b' rule: append_filters.induct)
  case (2 L d f b)
  then have "append_filter L d f b = Inr b'" by simp
  from append_filter_parts [OF this] show ?case
    by (metis (no_types, lifting) filter_shape_def filters_texts.simps(2) fst_conv list.simps(8,9) old.sum.simps(6)
        one_filter_def snd_conv)
next
  case (3 L d f g fs b)
  then obtain c where c: "append_filter L d f b = Inr c" "append_filters L d (g # fs) (push '' AND '' c) = Inr b'"
    by (auto simp: bind_res_Inr)
  from append_filter_parts [OF c(1)] have
    f: "texts c = texts b @ one_filter d (filter_shape f)" "list_all (bind_ok L) (binds b) \<longrightarrow> list_all (bind_ok L) (binds c)"
    by (metis (no_types, lifting) filter_shape_def fst_conv old.sum.simps(6) one_filter_def snd_conv)+
  from 3(1) [OF c(2)] f show ?case by simp
qed simp

fun selected_texts :: "queryField list \<Rightarrow> string list" where
  "selected_texts [] = []"
| "selected_texts [f] = sql_texts f @ ['' AS '', [CHR 0x22], field_name f, [CHR 0x22]]"
| "selected_texts (f # fs) = sql_texts f @ ['' AS '', [CHR 0x22], field_name f, [CHR 0x22], '', ''] @ selected_texts fs"

lemma append_selected_parts:
  "texts (append_all_selected fs b) = texts b @ selected_texts fs"
  "list_all P (binds (append_all_selected fs b)) \<longleftrightarrow> list_all P (binds b) \<and> list_all (\<lambda>f. list_all P (sql_binds f)) fs"
  by (induction fs b rule: append_all_selected.induct) (auto simp: append_selected_def append_identifier_def)

fun direction_text :: "sort_direction \<Rightarrow> string" where
  "direction_text Asc = '' ASC''"
| "direction_text Desc = '' DESC''"

fun order_texts :: "(queryField \<times> sort_direction) list \<Rightarrow> string list" where
  "order_texts [] = []"
| "order_texts [x] = sql_texts (fst x) @ [direction_text (snd x)]"
| "order_texts (x # xs) = sql_texts (fst x) @ [direction_text (snd x), '', ''] @ order_texts xs"

lemma append_direction_parts:
  "texts (append_direction x b) = texts b @ sql_texts (fst x) @ [direction_text (snd x)]"
  "binds (append_direction x b) = binds b @ sql_binds (fst x)"
  by (cases "snd x"; simp add: append_direction_def)+

lemma append_order_parts:
  "texts (append_order xs b) = texts b @ order_texts xs"
  "list_all P (binds (append_order xs b)) \<longleftrightarrow> list_all P (binds b) \<and> list_all (\<lambda>x. list_all P (sql_binds (fst x))) xs"
  by (induction xs b rule: append_order.induct) (auto simp: append_direction_parts)

definition query_texts ::
  "dataset_spec \<Rightarrow> queryField list \<Rightarrow> (string \<times> query_op \<times> bool) list \<Rightarrow> (queryField \<times> sort_direction) list \<Rightarrow> string list" where
  "query_texts d selected filters order_by =
    [SELECT_TEXT] @ selected_texts selected @ ['' FROM '', ds_relation d] @
    (if filters = [] then [] else '' WHERE '' # filters_texts d filters) @
    (if order_by = [] then [] else '' ORDER BY '' # order_texts order_by) @ ['' LIMIT '', '') q'']"

lemma select_fields_ok:
  "select_fields d names sel = Inr sel' \<Longrightarrow> list_all (field_ok d) sel \<Longrightarrow> distinct (map field_name sel) \<Longrightarrow>
    list_all (field_ok d) sel' \<and> distinct (map field_name sel') \<and> length sel' \<le> length sel + length names"
  by (induction d names sel arbitrary: sel' rule: select_fields.induct)
    (fastforce simp: bind_res_Inr list_ex_iff dest!: query_field_ok split: if_splits)+

lemma resolve_order_ok: "resolve_order d xs = Inr ys \<Longrightarrow> list_all (\<lambda>y. field_ok d (fst y)) ys"
  by (induction d xs arbitrary: ys rule: resolve_order.induct) (auto simp: bind_res_Inr dest: query_field_ok)

lemma selected_order_ok: "selected_order d xs = Inr ys \<Longrightarrow> list_all (\<lambda>y. field_ok d (fst y)) ys"
  by (auto simp: selected_order_def dest: resolve_order_ok split: if_splits)

lemma datasets_in: "find_dataset name = Inr d \<Longrightarrow> d \<in> set DATASETS"
  by (auto simp: find_dataset_def ok_or_def find_Some_iff split: option.splits)

lemma default_fields_short: "d \<in> set DATASETS \<Longrightarrow> length (ds_default_fields d) \<le> MAX_STRUCTURED_QUERY_FIELDS"
  by (auto simp: DATASETS_def MAX_STRUCTURED_QUERY_FIELDS_def)

lemma selected_fields_ok:
  assumes "selected_fields d requested = Inr sel" "d \<in> set DATASETS"
  shows "list_all (field_ok d) sel \<and> distinct (map field_name sel) \<and> sel \<noteq> [] \<and> length sel \<le> MAX_STRUCTURED_QUERY_FIELDS"
proof -
  from assms(1) obtain names where
    r: "(case requested of Some [] \<Rightarrow> Inl Fields_empty
       | Some names \<Rightarrow> if length names > MAX_STRUCTURED_QUERY_FIELDS then Inl Too_many_fields else Inr names
       | None \<Rightarrow> Inr (ds_default_fields d)) = Inr names"
    and n: "select_fields d names [] = Inr sel" "sel \<noteq> []"
    unfolding selected_fields_def bind_res_Inr by (metis sum.distinct(1) sum.inject(2))
  from r default_fields_short [OF assms(2)] have "length names \<le> MAX_STRUCTURED_QUERY_FIELDS"
    by (auto split: option.splits list.splits if_splits)
  note n = n this
  from select_fields_ok [OF n(1)] n(2,3) show ?thesis by simp
qed

lemma built_query:
  assumes "build_structured_query L q = Inr (d, selected, limit, b)"
  obtains order_by where "find_dataset (sq_dataset q) = Inr d" "selected_fields d (sq_fields q) = Inr selected"
    "selected_order d (sq_order_by q) = Inr order_by" "limit = query_limit q"
    "texts b = query_texts d selected (map filter_shape (sq_filters q)) order_by"
    "list_all (bind_ok L) (binds b)" "last (binds b) = Bind_i64 limit"
proof -
  from assms obtain order_by c where c: "find_dataset (sq_dataset q) = Inr d" "selected_fields d (sq_fields q) = Inr selected"
    "selected_order d (sq_order_by q) = Inr order_by" "limit = query_limit q"
    "(if sq_filters q = [] then Inr (push (ds_relation d) (push '' FROM '' (append_all_selected selected (push SELECT_TEXT []))))
      else append_filters L d (sq_filters q) (push '' WHERE '' (push (ds_relation d) (push '' FROM ''
        (append_all_selected selected (push SELECT_TEXT [])))))) = Inr c"
    "b = push '') q'' (push_bind (Bind_i64 limit) (push '' LIMIT ''
      (if order_by = [] then c else append_order order_by (push '' ORDER BY '' c))))"
    unfolding build_structured_query_def bind_res_Inr Let_def by auto
  have sel: "list_all (field_ok d) selected" using selected_fields_ok [OF c(2) datasets_in [OF c(1)]] by blast
  have ok: "list_all (bind_ok L) (sql_binds f)" if "field_ok d f" for f using that by (cases f) auto
  have t: "texts c = [SELECT_TEXT] @ selected_texts selected @ ['' FROM '', ds_relation d] @
      (if sq_filters q = [] then [] else '' WHERE '' # filters_texts d (map filter_shape (sq_filters q)))"
    "list_all (bind_ok L) (binds c)"
  proof -
    let ?b = "push (ds_relation d) (push '' FROM '' (append_all_selected selected (push SELECT_TEXT [])))"
    have b: "texts ?b = [SELECT_TEXT] @ selected_texts selected @ ['' FROM '', ds_relation d]" "list_all (bind_ok L) (binds ?b)"
      using sel ok by (simp_all add: append_selected_parts list.pred_mono_strong)
    have cases: "sq_filters q = [] \<and> c = ?b \<or> sq_filters q \<noteq> [] \<and> append_filters L d (sq_filters q) (push '' WHERE '' ?b) = Inr c"
      using c(5) by (cases "sq_filters q = []") simp_all
    then show "texts c = [SELECT_TEXT] @ selected_texts selected @ ['' FROM '', ds_relation d] @
      (if sq_filters q = [] then [] else '' WHERE '' # filters_texts d (map filter_shape (sq_filters q)))"
      "list_all (bind_ok L) (binds c)"
      using b by (auto dest!: append_filters_parts)
  qed
  show thesis
  proof (rule that [OF c(1-4)])
    show "texts b = query_texts d selected (map filter_shape (sq_filters q)) order_by"
      by (simp add: c(6) t query_texts_def append_order_parts)
    show "list_all (bind_ok L) (binds b)" using selected_order_ok [OF c(3)] ok t(2)
      by (auto simp: c(6) append_order_parts intro: list.pred_mono_strong)
    show "last (binds b) = Bind_i64 limit" by (simp add: c(6))
  qed
qed

text \<open>Text that may be pushed: fixed fragments, the relation and the columns of the
  dataset, and quoted names under \<open>plugin_metadata\<close>.\<close>

definition SQL_FRAGMENTS :: "string list" where
  "SQL_FRAGMENTS =
    [SELECT_TEXT, '' AS '', [CHR 0x22], '', '', '' FROM '', '' WHERE '', '' AND '', '' ORDER BY '', '' ASC'', '' DESC'',
     '' LIMIT '', '') q'', ''('', '')'', ''(plugin_metadata #> '', '' IS NULL'', '' IS NOT NULL'', '' IS NULL OR '',
     '' IS NOT NULL AND '', '' = '' @ json_null, '' <> '' @ json_null, '' = '', '' <> '', '' > '', '' >= '', '' < '', '' <= '',
     '' ILIKE '', escape_text, '' @> '', '' = ANY('']"

definition trusted_text :: "dataset_spec \<Rightarrow> string \<Rightarrow> bool" where
  "trusted_text d s \<longleftrightarrow>
    s \<in> set SQL_FRAGMENTS \<or> s = ds_relation d \<or> s \<in> fs_name ` set (ds_fields d) \<or> safe_name s"

lemma trusted_fragment: "s \<in> set SQL_FRAGMENTS \<Longrightarrow> trusted_text d s"
  by (simp add: trusted_text_def)

lemma field_trusted: "field_ok d f \<Longrightarrow> list_all (trusted_text d) (sql_texts f) \<and> trusted_text d (field_name f)"
  by (cases f) (auto simp: trusted_text_def SQL_FRAGMENTS_def)

lemma fragments_trusted:
  "list_all (trusted_text d) (comparison_texts op)" "trusted_text d (direction_text dir)"
  by (cases op; simp add: comparison_texts_def trusted_text_def SQL_FRAGMENTS_def)
     (cases dir; simp add: trusted_text_def SQL_FRAGMENTS_def)

lemma filter_trusted:
  assumes "field_ok d f"
  shows "list_all (trusted_text d) (filter_texts f op null)"
proof -
  have "list_all (trusted_text d) (null_texts f n)" for n
    using field_trusted [OF assms] by (cases f) (auto intro!: trusted_fragment simp: SQL_FRAGMENTS_def)
  moreover have "list_all (trusted_text d) (kind_texts k f op)" for k
    using field_trusted [OF assms] fragments_trusted(1) [of d op]
    by (auto simp: kind_texts_def intro!: trusted_fragment) (simp_all add: SQL_FRAGMENTS_def)
  ultimately show ?thesis by (simp add: filter_texts_def)
qed

lemma filters_trusted: "list_all (trusted_text d) (filters_texts d xs)"
proof (induction d xs rule: filters_texts.induct)
  case (2 d x)
  then show ?case by (auto simp: one_filter_def filter_trusted dest: query_field_ok split: sum.splits)
next
  case (3 d x y xs)
  then show ?case
    by (auto simp: one_filter_def filter_trusted trusted_fragment SQL_FRAGMENTS_def dest: query_field_ok split: sum.splits)
qed simp

lemma selected_trusted: "list_all (field_ok d) fs \<Longrightarrow> list_all (trusted_text d) (selected_texts fs)"
  by (induction fs rule: selected_texts.induct) (auto simp: field_trusted trusted_fragment SQL_FRAGMENTS_def)

lemma order_trusted: "list_all (\<lambda>x. field_ok d (fst x)) xs \<Longrightarrow> list_all (trusted_text d) (order_texts xs)"
  by (induction xs rule: order_texts.induct)
    (auto simp: field_trusted fragments_trusted trusted_fragment SQL_FRAGMENTS_def)

text \<open>C28: a structured query cannot change the SQL that is run. Every text pushed to the
  builder is a fixed fragment, the relation or a column of an allowlisted dataset, or a
  plugin field name free of quotes; the texts depend only on the names, the operators and
  the null tests of the request, never on its values or its limit. Values are only bound,
  each within its size limit, between one and 64 distinct fields are selected, and the
  row limit is the last value bound and between 1 and 500.\<close>

theorem structured_query_confined:
  assumes "build_structured_query L q = Inr (d, selected, limit, b)"
  shows "d \<in> set DATASETS \<and> list_all (trusted_text d) (texts b) \<and> list_all (bind_ok L) (binds b) \<and>
    (\<forall>L' q' d' selected' limit' b'. build_structured_query L' q' = Inr (d', selected', limit', b') \<and>
      query_shape q' = query_shape q \<longrightarrow> texts b' = texts b) \<and>
    distinct (map field_name selected) \<and> selected \<noteq> [] \<and> length selected \<le> 64 \<and>
    last (binds b) = Bind_i64 limit \<and> 1 \<le> limit \<and> limit \<le> 500"
proof -
  obtain order_by where p: "find_dataset (sq_dataset q) = Inr d" "selected_fields d (sq_fields q) = Inr selected"
    "selected_order d (sq_order_by q) = Inr order_by" "limit = query_limit q"
    "texts b = query_texts d selected (map filter_shape (sq_filters q)) order_by"
    "list_all (bind_ok L) (binds b)" "last (binds b) = Bind_i64 limit"
    by (rule built_query [OF assms])
  note sel = selected_fields_ok [OF p(2) datasets_in [OF p(1)]]
  have trusted: "list_all (trusted_text d) (texts b)"
    using selected_trusted [OF conjunct1 [OF sel]] filters_trusted [of d] order_trusted [OF selected_order_ok [OF p(3)]]
    by (simp add: p(5) query_texts_def trusted_text_def [of d "ds_relation d"] trusted_fragment SQL_FRAGMENTS_def)
  have same: "texts b' = texts b" if b': "build_structured_query L' q' = Inr (d', selected', limit', b')"
      and shape: "query_shape q' = query_shape q" for L' q' d' selected' limit' b'
  proof -
    have "map filter_shape (sq_filters q') = map filter_shape (sq_filters q)" "sq_dataset q' = sq_dataset q"
      "sq_fields q' = sq_fields q" "sq_order_by q' = sq_order_by q"
      using shape by (simp_all add: query_shape_def filter_shape_def [abs_def])
    moreover obtain order' where
      "find_dataset (sq_dataset q') = Inr d'" "selected_fields d' (sq_fields q') = Inr selected'"
      "selected_order d' (sq_order_by q') = Inr order'"
      "texts b' = query_texts d' selected' (map filter_shape (sq_filters q')) order'"
      by (rule built_query [OF b'])
    ultimately show ?thesis using p(1,2,3,5) by simp
  qed
  have "1 \<le> limit \<and> limit \<le> 500" by (simp add: p(4) query_limit_def)
  with trusted same p(6,7) sel datasets_in [OF p(1)] show ?thesis
    by (auto simp: MAX_STRUCTURED_QUERY_FIELDS_def)
qed

section \<open>The schema tells the truth\<close>

fun op_as_str :: "query_op \<Rightarrow> string" where
  "op_as_str Eq = ''eq''"
| "op_as_str Ne = ''ne''"
| "op_as_str Contains = ''contains''"
| "op_as_str Gt = ''gt''"
| "op_as_str Gte = ''gte''"
| "op_as_str Lt = ''lt''"
| "op_as_str Lte = ''lte''"
| "op_as_str IsNull = ''is_null''"
| "op_as_str IsNotNull = ''is_not_null''"

definition accepts :: "query_lib \<Rightarrow> dataset_spec \<Rightarrow> string \<Rightarrow> query_op \<Rightarrow> bool" where
  "accepts L d name op \<longleftrightarrow>
    (\<exists>v b'. v \<noteq> JNull \<and> append_filter L d \<lparr>qf_field = name, qf_op = op, qf_value = Some v\<rparr> [] = Inr b')"

text \<open>The libraries accept some text.\<close>

definition lib_usable :: "query_lib \<Rightarrow> bool" where
  "lib_usable L \<longleftrightarrow>
    (\<exists>s t. ql_parse_rfc3339 L s = Some t \<and> length s \<le> MAX_STRUCTURED_QUERY_STRING_VALUE_BYTES) \<and>
    (\<exists>s u. ql_parse_uuid L s = Some u \<and> length s \<le> MAX_STRUCTURED_QUERY_STRING_VALUE_BYTES) \<and>
    (\<exists>n. ql_json_len L (JBool True) = Some n \<and> n \<le> MAX_STRUCTURED_QUERY_JSON_VALUE_BYTES)"

lemma kind_accepts:
  assumes "lib_usable L" "op \<noteq> IsNull" "op \<noteq> IsNotNull"
  shows "(\<exists>v b'. v \<noteq> JNull \<and> append_kind_filter L k f op v b = Inr b') \<longleftrightarrow> op_as_str op \<in> set (operators k)"
proof -
  obtain ts t us u n where lib: "ql_parse_rfc3339 L ts = Some t" "length ts \<le> MAX_STRUCTURED_QUERY_STRING_VALUE_BYTES"
    "ql_parse_uuid L us = Some u" "length us \<le> MAX_STRUCTURED_QUERY_STRING_VALUE_BYTES"
    "ql_json_len L (JBool True) = Some n" "n \<le> MAX_STRUCTURED_QUERY_JSON_VALUE_BYTES"
    using assms(1) by (auto simp: lib_usable_def)
  define v where "v = (case k of KText \<Rightarrow> JString [] | KInt \<Rightarrow> JNumber (PosInt 0) | KBool \<Rightarrow> JBool True
    | KTimestamp \<Rightarrow> JString ts | KUuid \<Rightarrow> JString us | KJson \<Rightarrow> JBool True | KJsonPath \<Rightarrow> JBool True | KTextArray \<Rightarrow> JString [])"
  note defs = append_text_filter_def append_int_filter_def append_bool_filter_def append_timestamp_filter_def
    append_uuid_filter_def append_json_filter_def append_text_array_filter_def append_comparison_def value_as_string_def
    value_as_i64_def value_as_bool_def value_as_timestamp_def value_as_uuid_def validate_json_filter_value_size_def ok_or_def
  have "\<exists>b'. append_kind_filter L k f op v b = Inr b'" if "op_as_str op \<in> set (operators k)"
    using that lib assms(2,3) by (cases k; cases op) (simp_all add: v_def defs i64_max_def)
  moreover have "v \<noteq> JNull" by (cases k) (simp_all add: v_def)
  moreover have "op_as_str op \<in> set (operators k)" if "append_kind_filter L k f op w b = Inr b'" for w b'
    using that assms(2,3) by (cases k; cases op) (auto simp: defs bind_res_Inr split: option.splits if_splits)
  ultimately show ?thesis by blast
qed

lemma operators_null: "''is_null'' \<in> set (operators k)" "''is_not_null'' \<in> set (operators k)"
  by (cases k; simp)+

lemma find_named: "distinct (map fs_name xs) \<Longrightarrow> f \<in> set xs \<Longrightarrow> find (\<lambda>g. fs_name g = fs_name f) xs = Some f"
  by (induction xs) (auto simp: image_iff)

lemma static_field_resolves:
  assumes "d \<in> set DATASETS" "f \<in> set (ds_fields d)"
  shows "query_field d (fs_name f) = Inr (Static f)" "\<exists>k. fs_filter f = Some k"
proof -
  have "distinct (map fs_name (ds_fields d)) \<and> list_all (\<lambda>f. \<exists>k. fs_filter f = Some k) (ds_fields d)"
    using assms(1) by (auto simp: DATASETS_def REQUEST_FIELDS_def SESSION_FIELDS_def MESSAGE_FIELDS_def ROLLUP_FIELDS_def
        field_of_def)
  then show "query_field d (fs_name f) = Inr (Static f)" "\<exists>k. fs_filter f = Some k"
    using find_named [of "ds_fields d" f] assms(2) by (auto simp: query_field_def find_field_def ok_or_def list_all_iff)
qed

lemma field_accepts:
  assumes "lib_usable L" "query_field d name = Inr f" "field_filter f = Some k"
  shows "accepts L d name op \<longleftrightarrow> op_as_str op \<in> set (operators k)"
proof (cases "op = IsNull \<or> op = IsNotNull")
  case True
  then have "\<exists>b'. append_filter L d \<lparr>qf_field = name, qf_op = op, qf_value = Some (JBool True)\<rparr> [] = Inr b'"
    using assms(2,3) by (auto simp: append_filter_def ok_or_def)
  with True operators_null [of k] show ?thesis unfolding accepts_def by fastforce
next
  case False
  then have "append_filter L d \<lparr>qf_field = name, qf_op = op, qf_value = Some v\<rparr> [] = append_kind_filter L k f op v []"
    if "v \<noteq> JNull" for v
    using that assms(2,3) by (simp add: append_filter_def ok_or_def)
  then show ?thesis using kind_accepts [OF assms(1), of op k f "[]"] False by (auto simp: accepts_def)
qed

definition schema_operators :: "json \<Rightarrow> string \<Rightarrow> string set" where
  "schema_operators v key = (case json_get v key of Some (JArray xs) \<Rightarrow> {s. JString s \<in> set xs} | _ \<Rightarrow> {})"

lemma schema_operators_of: "fs_filter f = Some k \<Longrightarrow> schema_operators (field_schema f) ''operators'' = set (operators k)"
  by (auto simp: schema_operators_def field_schema_def)

definition default_query :: "dataset_spec \<Rightarrow> structured_query" where
  "default_query d = \<lparr>sq_dataset = ds_name d, sq_fields = None, sq_filters = [], sq_order_by = [], sq_limit = None\<rparr>"

definition field_table :: "dataset_spec \<Rightarrow> bool" where
  "field_table d \<longleftrightarrow> find_dataset (ds_name d) = Inr d \<and> ds_default_fields d \<noteq> [] \<and> distinct (ds_default_fields d) \<and>
    set (ds_default_fields d) \<subseteq> fs_name ` set (ds_fields d) \<and>
    do_field ` set (ds_default_order d) \<subseteq> fs_name ` set (ds_fields d)"

lemma dataset_found: "list_all (\<lambda>d. find_dataset (ds_name d) = Inr d) DATASETS"
proof -
  have "distinct (map ds_name DATASETS)" by (simp add: DATASETS_def)
  moreover have "find (\<lambda>e. ds_name e = ds_name d) ds = Some d" if "distinct (map ds_name ds)" "d \<in> set ds" for d ds
    using that by (induction ds) (auto simp: image_iff)
  ultimately have "find (\<lambda>e. ds_name e = ds_name d) DATASETS = Some d" if "d \<in> set DATASETS" for d using that by blast
  then show ?thesis by (simp add: list_all_iff find_dataset_def ok_or_def)
qed

lemma dataset_defaults:
  "list_all (\<lambda>d. ds_default_fields d \<noteq> [] \<and> distinct (ds_default_fields d) \<and>
    set (ds_default_fields d) \<subseteq> fs_name ` set (ds_fields d) \<and>
    do_field ` set (ds_default_order d) \<subseteq> fs_name ` set (ds_fields d)) DATASETS"
  by (simp add: DATASETS_def newest_first_def REQUEST_FIELDS_def SESSION_FIELDS_def MESSAGE_FIELDS_def ROLLUP_FIELDS_def
      field_of_def)

lemma dataset_tables: "d \<in> set DATASETS \<Longrightarrow> field_table d"
  using dataset_found dataset_defaults by (simp add: field_table_def list_all_iff)

lemma select_static:
  assumes "d \<in> set DATASETS"
  shows "set names \<subseteq> fs_name ` set (ds_fields d) \<Longrightarrow> \<exists>sel'. select_fields d names sel = Inr sel' \<and> set sel \<subseteq> set sel' \<and>
    (names \<noteq> [] \<longrightarrow> sel' \<noteq> [])"
proof (induction names arbitrary: sel)
  case (Cons n names)
  then obtain f where f: "f \<in> set (ds_fields d)" "n = fs_name f" by auto
  show ?case
  proof (cases "list_ex (\<lambda>s. field_name s = n) sel")
    case True
    with Cons.IH [of sel] Cons.prems f static_field_resolves(1) [OF assms f(1)] show ?thesis by fastforce
  next
    case False
    with Cons.IH [of "sel @ [Static f]"] Cons.prems f static_field_resolves(1) [OF assms f(1)] show ?thesis by fastforce
  qed
qed simp

lemma resolve_static:
  assumes "d \<in> set DATASETS"
  shows "fst ` set xs \<subseteq> fs_name ` set (ds_fields d) \<Longrightarrow> \<exists>ys. resolve_order d xs = Inr ys"
proof (induction xs)
  case (Cons x xs)
  then obtain f where "f \<in> set (ds_fields d)" "fst x = fs_name f" by auto
  with Cons static_field_resolves(1) [OF assms] show ?case by (cases x) auto
qed simp

lemma default_order_resolves:
  assumes "d \<in> set DATASETS"
  shows "\<exists>ys. selected_order d [] = Inr ys"
  using resolve_static [OF assms, of "map (\<lambda>x. (do_field x, do_direction x)) (ds_default_order d)"] dataset_tables [OF assms]
  by (simp add: selected_order_def field_table_def image_image)

lemma default_query_builds:
  assumes "d \<in> set DATASETS"
  shows "\<exists>r. build_structured_query L (default_query d) = Inr r"
proof -
  note t = dataset_tables [OF assms, unfolded field_table_def]
  obtain sel where "select_fields d (ds_default_fields d) [] = Inr sel" "sel \<noteq> []"
    using select_static [OF assms, of "ds_default_fields d" "[]"] t by auto
  moreover obtain ys where "selected_order d [] = Inr ys" using default_order_resolves [OF assms] by blast
  ultimately show ?thesis using t
    by (simp add: build_structured_query_def default_query_def selected_fields_def
        validate_structured_query_filters_def Let_def)
qed

text \<open>The published schema is exact. For every column of every dataset, and for every
  plugin field of requests, an operator is listed exactly when some non-null value makes a
  filter with it acceptable, and the default query of every dataset is accepted.\<close>

theorem query_schema_exact:
  assumes "lib_usable L" "d \<in> set DATASETS"
  shows "(\<forall>f\<in>set (ds_fields d). \<forall>op.
      accepts L d (fs_name f) op \<longleftrightarrow> op_as_str op \<in> schema_operators (field_schema f) ''operators'') \<and>
    (\<forall>name path op. query_field d name = Inr (Plugin_metadata_path name path) \<longrightarrow>
      (accepts L d name op \<longleftrightarrow> op_as_str op \<in> schema_operators (json_index structured_query_schema ''plugin_metadata'') ''operators'')) \<and>
    (\<exists>r. build_structured_query L (default_query d) = Inr r)"
proof -
  have "accepts L d (fs_name f) op \<longleftrightarrow> op_as_str op \<in> schema_operators (field_schema f) ''operators''"
    if f: "f \<in> set (ds_fields d)" for f op
  proof -
    obtain k where "fs_filter f = Some k" using static_field_resolves(2) [OF assms(2) f] by blast
    then show ?thesis
      using field_accepts [OF assms(1) static_field_resolves(1) [OF assms(2) f], of k] schema_operators_of by simp
  qed
  moreover have "schema_operators (json_index structured_query_schema ''plugin_metadata'') ''operators'' = set (operators KJsonPath)"
    by (auto simp: schema_operators_def structured_query_schema_def json_index_def)
  moreover have "accepts L d name op \<longleftrightarrow> op_as_str op \<in> set (operators KJsonPath)"
    if "query_field d name = Inr (Plugin_metadata_path name path)" for name path op
    using field_accepts [OF assms(1) that, of KJsonPath] by simp
  ultimately show ?thesis using default_query_builds [OF assms(2)] by simp
qed

definition demo_query_lib :: query_lib where
  "demo_query_lib = \<lparr>ql_parse_rfc3339 = (\<lambda>_. Some 0), ql_parse_uuid = (\<lambda>_. Some 0), ql_json_len = (\<lambda>_. Some 1)\<rparr>"

theorem query_schema_exact_witness:
  "accepts demo_query_lib (hd DATASETS) ''tags'' Contains \<and> \<not> accepts demo_query_lib (hd DATASETS) ''tags'' Eq \<and>
   lib_usable demo_query_lib"
proof -
  have l: "lib_usable demo_query_lib"
    by (auto simp: lib_usable_def demo_query_lib_def MAX_STRUCTURED_QUERY_STRING_VALUE_BYTES_def
        MAX_STRUCTURED_QUERY_JSON_VALUE_BYTES_def intro: exI [of _ "[]"])
  have d: "hd DATASETS \<in> set DATASETS" by (simp add: DATASETS_def)
  have f: "field_of ''tags'' KTextArray \<in> set (ds_fields (hd DATASETS))" by (simp add: DATASETS_def REQUEST_FIELDS_def)
  from query_schema_exact [OF l d] f have
    "accepts demo_query_lib (hd DATASETS) (fs_name (field_of ''tags'' KTextArray)) op \<longleftrightarrow>
      op_as_str op \<in> schema_operators (field_schema (field_of ''tags'' KTextArray)) ''operators''" for op by blast
  then show ?thesis using l by (auto simp: schema_operators_of [of _ KTextArray] field_of_def)
qed

definition demo_structured_query :: structured_query where
  "demo_structured_query = \<lparr>sq_dataset = ''sessions'', sq_fields = Some [''id'', ''id''],
    sq_filters = [\<lparr>qf_field = ''user_id'', qf_op = Contains, qf_value = Some (JString ''a%'')\<rparr>],
    sq_order_by = [], sq_limit = Some 9999\<rparr>"

theorem structured_query_confined_witness:
  "\<exists>d b. build_structured_query demo_query_lib demo_structured_query = Inr (d, [Static (field_of ''id'' KUuid)], 500, b) \<and>
    list_all (trusted_text d) (texts b) \<and> last (binds b) = Bind_i64 500"
proof -
  let ?id = "Static (field_of ''id'' KUuid)"
  define d where "d = DATASETS ! 1"
  have d: "find_dataset ''sessions'' = Inr d" "d \<in> set DATASETS"
    by (simp_all add: d_def find_dataset_def DATASETS_def ok_or_def)
  have f: "query_field d ''id'' = Inr ?id" "query_field d ''user_id'' = Inr (Static (field_of ''user_id'' KText))"
    by (simp_all add: d_def query_field_def find_field_def DATASETS_def SESSION_FIELDS_def field_of_def ok_or_def)
  obtain ys where ys: "selected_order d [] = Inr ys" using default_order_resolves [OF d(2)] by blast
  have "\<exists>b. build_structured_query demo_query_lib demo_structured_query = Inr (d, [?id], 500, b)"
    by (simp add: build_structured_query_def demo_structured_query_def d f ys selected_fields_def query_limit_def
        validate_structured_query_filters_def append_filter_def append_text_filter_def value_as_string_def ok_or_def
        field_of_def MAX_STRUCTURED_QUERY_FIELDS_def MAX_STRUCTURED_QUERY_FILTERS_def Let_def
        MAX_STRUCTURED_QUERY_STRING_VALUE_BYTES_def)
  then obtain b where b: "build_structured_query demo_query_lib demo_structured_query = Inr (d, [?id], 500, b)" by blast
  from structured_query_confined [OF b] b show ?thesis by blast
qed

end
