(* ===== verification/LT_Auth.thy ===== *)
theory LT_Auth
  imports LT_Config
begin

text \<open>
  \<open>auth.rs\<close>: logins, sessions and the check in front of the administration API. The
  session, OAuth-state and audit tables are explicit stores; a statement has an outcome
  that says whether it took effect and whether the caller saw it succeed, which covers
  errors and timeouts. The identity provider is a function of the request sent to it.
  The cookie parser, the password hash, random bytes, their encoding and the JSON
  decoder are external. Times are in nanoseconds. The handler of \<open>api.rs\<close> that revokes a
  session of the interface is here as well, with its statement in \<open>storage/audit.rs\<close>.
\<close>

section \<open>State and environment\<close>

record login_request =
  lq_username :: string
  lq_password :: string

record me_response =
  me_user_id :: string
  me_display_name :: string
  me_login_method :: login_method

record oauth_callback_query =
  cb_code :: string
  cb_state :: string

record oidc_metadata =
  om_authorization_endpoint :: "string option"
  om_token_endpoint :: "string option"
  om_userinfo_endpoint :: "string option"

record session_row =
  sr_user_id :: string
  sr_display_name :: string
  sr_login_method :: string
  sr_created_at :: int
  sr_expires_at :: int

record audit_row =
  ar_created_at :: int
  ar_event_type :: string
  ar_user_id :: "string option"
  ar_remote_addr :: "string option"
  ar_detail :: json

record auth_state =
  as_sessions :: "(string \<times> session_row) list"
  as_oauth_states :: "(string \<times> int) list"
  as_audit :: "audit_row list"
  as_attempts :: attempts

datatype db_outcome = Committed | Committed_unseen | Failed

fun took_effect :: "db_outcome \<Rightarrow> bool" where
  "took_effect Committed = True"
| "took_effect Committed_unseen = True"
| "took_effect Failed = False"

text \<open>A reply of the identity provider: a status and the chunks of its body, of which
  one may fail to arrive.\<close>

datatype reply = Net_error | Reply nat "bytes option list"

record auth_env =
  ae_config :: config
  ae_web :: web_lib
  ae_split_cookies :: "string \<Rightarrow> (string \<times> string) list"
  ae_password_hash :: "string \<Rightarrow> (bytes \<Rightarrow> bool) option"
  ae_base64url :: "bytes \<Rightarrow> string"
  ae_json :: "bytes \<Rightarrow> json option"
  ae_metadata :: "bytes \<Rightarrow> oidc_metadata option"
  ae_append_pairs :: "url \<Rightarrow> (string \<times> string) list \<Rightarrow> url"
  ae_show_time :: "int \<Rightarrow> string"

text \<open>What the outside contributes while one request is handled: the clocks of the
  program, of the database and of the throttle, random bytes, the outcome of the
  statements and the answers of the identity provider.\<close>

record moment =
  mo_now :: int
  mo_db_now :: int
  mo_check :: nanos
  mo_record :: nanos
  mo_random :: bytes
  mo_db :: db_outcome
  mo_session_db :: db_outcome
  mo_audit :: db_outcome
  mo_verified :: bool
  mo_get :: "string \<Rightarrow> reply"
  mo_post :: "string \<Rightarrow> (string \<times> string) list \<Rightarrow> reply"
  mo_get_bearer :: "string \<Rightarrow> string \<Rightarrow> reply"

record set_cookie =
  sc_name :: string
  sc_value :: string
  sc_path :: string
  sc_http_only :: bool
  sc_lax :: bool
  sc_max_age :: int
  sc_secure :: bool

record auth_response =
  rs_status :: nat
  rs_body :: json
  rs_location :: "string option"
  rs_retry_after :: "nat option"
  rs_cookies :: "set_cookie list"

section \<open>Constants and helpers\<close>

definition SESSION_COOKIE :: string where
  "SESSION_COOKIE = ''llmtrace_session''"

definition OAUTH_STATE_COOKIE :: string where
  "OAUTH_STATE_COOKIE = ''llmtrace_oauth_state''"

definition OAUTH_STATE_TTL_SECS :: int where
  "OAUTH_STATE_TTL_SECS = 600"

definition OAUTH_JSON_BODY_LIMIT_BYTES :: nat where
  "OAUTH_JSON_BODY_LIMIT_BYTES = 65536"

definition MAX_OAUTH_CODE_BYTES :: nat where
  "MAX_OAUTH_CODE_BYTES = 4096"

definition MAX_LOGIN_USERNAME_BYTES :: nat where
  "MAX_LOGIN_USERNAME_BYTES = 320"

definition MAX_LOGIN_PASSWORD_BYTES :: nat where
  "MAX_LOGIN_PASSWORD_BYTES = 4096"

definition MAX_SESSION_IDENTITY_BYTES :: nat where
  "MAX_SESSION_IDENTITY_BYTES = 1024"

definition MAX_AUDIT_TEXT_BYTES :: nat where
  "MAX_AUDIT_TEXT_BYTES = 1024"

definition AUTH_TOKEN_ENCODED_LEN :: nat where
  "AUTH_TOKEN_ENCODED_LEN = 43"

definition json_response :: "nat \<Rightarrow> json \<Rightarrow> auth_response" where
  "json_response status body = \<lparr>rs_status = status, rs_body = body, rs_location = None, rs_retry_after = None, rs_cookies = []\<rparr>"

definition error_response :: "nat \<Rightarrow> string \<Rightarrow> auth_response" where
  "error_response status msg = json_response status (JObject [(''error'', JString msg)])"

definition redirect_temporary :: "string \<Rightarrow> auth_response" where
  "redirect_temporary location = (json_response 307 JNull)\<lparr>rs_location := Some location\<rparr>"

definition server_error :: auth_response where
  "server_error = error_response 500 ''internal server error''"

definition retry_after_secs :: "nanos \<Rightarrow> nat" where
  "retry_after_secs d = max (d div 1000000000) 1"

definition throttled_response :: "nanos \<Rightarrow> auth_response" where
  "throttled_response d =
    (json_response 429 (JObject [(''error'', JString ''too many login attempts''),
      (''retry_after_secs'', JNumber (PosInt (retry_after_secs d)))]))\<lparr>rs_retry_after := Some (retry_after_secs d)\<rparr>"

definition invalid_login_response :: auth_response where
  "invalid_login_response = error_response 401 ''invalid username or password''"

definition cross_site_request_response :: auth_response where
  "cross_site_request_response = error_response 403 ''cross-site request rejected''"

definition random_token :: "auth_env \<Rightarrow> moment \<Rightarrow> string" where
  "random_token E m = ae_base64url E (mo_random m)"

definition valid_auth_token :: "string \<Rightarrow> bool" where
  "valid_auth_token v \<longleftrightarrow>
    length v = AUTH_TOKEN_ENCODED_LEN \<and> list_all (\<lambda>c. is_ascii_alphanumeric c \<or> c = CHR ''-'' \<or> c = CHR ''_'') v"

definition valid_oauth_code :: "string \<Rightarrow> bool" where
  "valid_oauth_code v \<longleftrightarrow> v \<noteq> [] \<and> length v \<le> MAX_OAUTH_CODE_BYTES"

definition auth_cookie :: "auth_env \<Rightarrow> headers \<Rightarrow> string \<Rightarrow> string option" where
  "auth_cookie E headers cookie_name =
    find_map (\<lambda>cookie. map_option snd (find (\<lambda>p. fst p = cookie_name \<and> valid_auth_token (snd p)) (ae_split_cookies E cookie)))
      (List.map_filter (hv_to_str (ae_web E)) (header_get_all headers ''cookie''))"

definition session_cookie :: "auth_env \<Rightarrow> headers \<Rightarrow> string option" where
  "session_cookie E headers = auth_cookie E headers SESSION_COOKIE"

definition oauth_state_cookie :: "auth_env \<Rightarrow> headers \<Rightarrow> string option" where
  "oauth_state_cookie E headers = auth_cookie E headers OAUTH_STATE_COOKIE"

text \<open>An empty value removes the cookie under the same scope.\<close>

definition write_auth_cookie :: "string \<Rightarrow> string option \<Rightarrow> string \<Rightarrow> int \<Rightarrow> bool \<Rightarrow> auth_response \<Rightarrow> auth_response" where
  "write_auth_cookie name v path max_age secure r =
    r\<lparr>rs_cookies := rs_cookies r @
      [\<lparr>sc_name = name, sc_value = (case v of Some v \<Rightarrow> v | None \<Rightarrow> []), sc_path = path, sc_http_only = True, sc_lax = True,
        sc_max_age = (case v of Some _ \<Rightarrow> max_age | None \<Rightarrow> 0), sc_secure = secure\<rparr>]\<rparr>"

definition set_session_cookie :: "auth_env \<Rightarrow> string option \<Rightarrow> auth_response \<Rightarrow> auth_response" where
  "set_session_cookie E v =
    write_auth_cookie SESSION_COOKIE v ''/'' (au_session_ttl_hours (cf_auth (ae_config E)) * 3600)
      (au_cookie_secure (cf_auth (ae_config E)))"

definition set_oauth_state_cookie :: "auth_env \<Rightarrow> string option \<Rightarrow> auth_response \<Rightarrow> auth_response" where
  "set_oauth_state_cookie E v =
    write_auth_cookie OAUTH_STATE_COOKIE v ''/api/auth/oauth'' OAUTH_STATE_TTL_SECS (au_cookie_secure (cf_auth (ae_config E)))"

section \<open>Requests from the same origin\<close>

definition safe_method :: "string \<Rightarrow> bool" where
  "safe_method m \<longleftrightarrow> m \<in> {''GET'', ''HEAD'', ''OPTIONS'', ''TRACE''}"

definition header_to_str :: "web_lib \<Rightarrow> headers \<Rightarrow> string \<Rightarrow> string option" where
  "header_to_str W headers name = Option.bind (header_get headers name) (hv_to_str W)"

definition origin_matches_public_url :: "web_lib \<Rightarrow> string \<Rightarrow> string \<Rightarrow> bool" where
  "origin_matches_public_url W public_url candidate \<longleftrightarrow>
    (case (url_parse W public_url, url_parse W candidate) of
       (Some p, Some c) \<Rightarrow>
         u_scheme p = u_scheme c \<and>
         (case (u_host p, u_host c) of (Some ph, Some ch) \<Rightarrow> eq_ignore_ascii_case ph ch | _ \<Rightarrow> False) \<and>
         port_or_known_default W p = port_or_known_default W c
     | _ \<Rightarrow> False)"

definition same_origin_request_allowed :: "auth_env \<Rightarrow> string \<Rightarrow> headers \<Rightarrow> bool" where
  "same_origin_request_allowed E m headers \<longleftrightarrow>
    (if safe_method m then True
     else (case header_to_str (ae_web E) headers ''origin'' of
       Some origin \<Rightarrow> origin_matches_public_url (ae_web E) (sc_public_url (cf_server (ae_config E))) origin
     | None \<Rightarrow>
         (case header_to_str (ae_web E) headers ''referer'' of
            Some referer \<Rightarrow> origin_matches_public_url (ae_web E) (sc_public_url (cf_server (ae_config E))) referer
          | None \<Rightarrow> True)))"

section \<open>Credentials\<close>

definition constant_time_eq :: "web_lib \<Rightarrow> bytes \<Rightarrow> bytes \<Rightarrow> bool" where
  "constant_time_eq W left right \<longleftrightarrow> sha256 W left = sha256 W right"

definition verify_password :: "auth_env \<Rightarrow> string \<Rightarrow> string option \<Rightarrow> string option \<Rightarrow> bool" where
  "verify_password E password hash development_password \<longleftrightarrow>
    (case Option.bind hash (ae_password_hash E) of
       Some verify \<Rightarrow> verify password
     | None \<Rightarrow> (case development_password of
         Some expected \<Rightarrow> constant_time_eq (ae_web E) expected password | None \<Rightarrow> False))"

definition verify_local_admin_credentials :: "auth_env \<Rightarrow> local_admin_config \<Rightarrow> string \<Rightarrow> string \<Rightarrow> bool" where
  "verify_local_admin_credentials E admin username password \<longleftrightarrow>
    verify_password E password (la_password_hash admin) (la_password admin) \<and>
    constant_time_eq (ae_web E) (la_username admin) username"

definition login_payload_size_error :: "login_request \<Rightarrow> string option" where
  "login_payload_size_error p =
    (if length (lq_username p) > MAX_LOGIN_USERNAME_BYTES then Some ''username_too_long''
     else if length (lq_password p) > MAX_LOGIN_PASSWORD_BYTES then Some ''password_too_long'' else None)"

definition login_failure_detail :: "nanos option \<Rightarrow> string option \<Rightarrow> json" where
  "login_failure_detail retry_after invalid_payload =
    JObject ((case invalid_payload of Some reason \<Rightarrow> [(''invalid_payload'', JString reason)] | None \<Rightarrow> []) @
      (case retry_after of
         Some d \<Rightarrow> [(''retry_after_secs'', JNumber (PosInt (retry_after_secs d))), (''throttled'', JBool True)]
       | None \<Rightarrow> []))"

section \<open>Tables\<close>

definition audit_truncate :: "string \<Rightarrow> string" where
  "audit_truncate v =
    (if length v \<le> MAX_AUDIT_TEXT_BYTES then v else take (boundary_floor v MAX_AUDIT_TEXT_BYTES) v)"

definition audit :: "moment \<Rightarrow> string \<Rightarrow> string option \<Rightarrow> string option \<Rightarrow> json \<Rightarrow> auth_state \<Rightarrow> auth_state" where
  "audit m event_type user_id remote_addr detail s =
    (if took_effect (mo_audit m)
     then s\<lparr>as_audit := as_audit s @
       [\<lparr>ar_created_at = mo_db_now m, ar_event_type = event_type, ar_user_id = map_option audit_truncate user_id,
         ar_remote_addr = map_option audit_truncate remote_addr, ar_detail = detail\<rparr>]\<rparr>
     else s)"

datatype auth_error = Identity_too_long | Db_error | Unknown_login_method | Oauth_failed

definition validate_identity_field :: "string \<Rightarrow> auth_error + unit" where
  "validate_identity_field v = (if length v > MAX_SESSION_IDENTITY_BYTES then Inl Identity_too_long else Inr ())"

definition hours :: "int \<Rightarrow> int" where
  "hours n = n * 3600 * 1000000000"

text \<open>The identifier is the primary key: a second insert of it fails.\<close>

definition create_session ::
  "auth_env \<Rightarrow> moment \<Rightarrow> string \<Rightarrow> string \<Rightarrow> login_method \<Rightarrow> auth_state \<Rightarrow> (auth_error + string) \<times> auth_state" where
  "create_session E m user_id display_name login_method s =
    (case bind_res (validate_identity_field user_id) (\<lambda>_. validate_identity_field display_name) of
       Inl e \<Rightarrow> (Inl e, s)
     | Inr _ \<Rightarrow>
         let session_id = random_token E m;
             row = \<lparr>sr_user_id = user_id, sr_display_name = display_name,
               sr_login_method = login_method_as_str login_method, sr_created_at = mo_db_now m,
               sr_expires_at = mo_now m + hours (au_session_ttl_hours (cf_auth (ae_config E)))\<rparr>
         in if map_of (as_sessions s) session_id \<noteq> None then (Inl Db_error, s)
            else (if mo_session_db m = Committed then Inr session_id else Inl Db_error,
              if took_effect (mo_session_db m) then s\<lparr>as_sessions := (session_id, row) # as_sessions s\<rparr> else s))"

definition current_user :: "auth_env \<Rightarrow> moment \<Rightarrow> headers \<Rightarrow> auth_state \<Rightarrow> auth_error + me_response option" where
  "current_user E m headers s =
    (case session_cookie E headers of
       None \<Rightarrow> Inr None
     | Some session_id \<Rightarrow>
         if mo_db m \<noteq> Committed then Inl Db_error
         else (case map_of (as_sessions s) session_id of
             Some row \<Rightarrow>
               if sr_expires_at row > mo_db_now m
               then (case login_method_from_str (sr_login_method row) of
                   Some lm \<Rightarrow> Inr (Some \<lparr>me_user_id = sr_user_id row, me_display_name = sr_display_name row, me_login_method = lm\<rparr>)
                 | None \<Rightarrow> Inl Unknown_login_method)
               else Inr None
           | None \<Rightarrow> Inr None))"

section \<open>Handlers\<close>

datatype guard_result = Proceed me_response | Respond auth_response

definition require_auth :: "auth_env \<Rightarrow> moment \<Rightarrow> string \<Rightarrow> headers \<Rightarrow> auth_state \<Rightarrow> guard_result" where
  "require_auth E m meth headers s =
    (if \<not> same_origin_request_allowed E meth headers then Respond cross_site_request_response
     else (case current_user E m headers s of
         Inr (Some user) \<Rightarrow> Proceed user
       | Inr None \<Rightarrow> Respond (error_response 401 ''login required'')
       | Inl _ \<Rightarrow> Respond server_error))"

definition login_methods :: "auth_env \<Rightarrow> json" where
  "login_methods E =
    (let admin = au_local_admin (cf_auth (ae_config E)) in
     JObject [(''local'', JBool (la_password admin \<noteq> None \<or> la_password_hash admin \<noteq> None)),
       (''oauth'', JBool (oa_enabled (au_oauth (cf_auth (ae_config E)))))])"

text \<open>A failed login is counted, audited and answered.\<close>

definition login_failed ::
  "auth_env \<Rightarrow> moment \<Rightarrow> login_request \<Rightarrow> string \<Rightarrow> string option \<Rightarrow> auth_state \<Rightarrow> auth_response \<times> auth_state" where
  "login_failed E m payload remote_ip reason s =
    (case record_failure_at (au_login_rate_limit (cf_auth (ae_config E)))
        (throttle_key_new (lq_username payload) remote_ip) (mo_record m) (as_attempts s) of (retry_after, attempts) \<Rightarrow>
     (case retry_after of Some d \<Rightarrow> throttled_response d | None \<Rightarrow> invalid_login_response,
      audit m ''login_failed'' (Some (lq_username payload)) (Some remote_ip) (login_failure_detail retry_after reason)
        (s\<lparr>as_attempts := attempts\<rparr>)))"

definition login_succeeded :: "auth_env \<Rightarrow> moment \<Rightarrow> login_request \<Rightarrow> string \<Rightarrow> auth_state \<Rightarrow> auth_response \<times> auth_state" where
  "login_succeeded E m payload remote_ip s =
    (let admin = au_local_admin (cf_auth (ae_config E));
         s1 = s\<lparr>as_attempts := record_success_at (au_login_rate_limit (cf_auth (ae_config E)))
           (throttle_key_new (lq_username payload) remote_ip) (as_attempts s)\<rparr>
     in case create_session E m (la_username admin) (la_username admin) Local_login s1 of
          (Inr session_id, s2) \<Rightarrow>
            (set_session_cookie E (Some session_id) (json_response 200 (JObject [(''ok'', JBool True)])),
             audit m ''login_ok'' (Some (la_username admin)) (Some remote_ip)
               (JObject [(''method'', JString (login_method_as_str Local_login))]) s2)
        | (Inl _, s2) \<Rightarrow> (server_error, s2))"

definition login ::
  "auth_env \<Rightarrow> moment \<Rightarrow> string \<Rightarrow> headers \<Rightarrow> login_request \<Rightarrow> auth_state \<Rightarrow> auth_response \<times> auth_state" where
  "login E m remote_ip headers payload s =
    (if \<not> same_origin_request_allowed E ''POST'' headers then (cross_site_request_response, s)
     else case check_at (au_login_rate_limit (cf_auth (ae_config E)))
         (throttle_key_new (lq_username payload) remote_ip) (mo_check m) (as_attempts s) of (decision, attempts) \<Rightarrow>
       let s1 = s\<lparr>as_attempts := attempts\<rparr> in
       (case decision of
          Limited d \<Rightarrow>
            (throttled_response d, audit m ''login_throttled'' (Some (lq_username payload)) (Some remote_ip)
              (JObject [(''retry_after_secs'', JNumber (PosInt (retry_after_secs d)))]) s1)
        | Allowed \<Rightarrow>
            (case login_payload_size_error payload of
               Some reason \<Rightarrow> login_failed E m payload remote_ip (Some reason) s1
             | None \<Rightarrow>
                 if \<not> mo_verified m then (server_error, s1)
                 else if verify_local_admin_credentials E (au_local_admin (cf_auth (ae_config E)))
                     (lq_username payload) (lq_password payload)
                 then login_succeeded E m payload remote_ip s1
                 else login_failed E m payload remote_ip None s1)))"

definition logout :: "auth_env \<Rightarrow> moment \<Rightarrow> headers \<Rightarrow> auth_state \<Rightarrow> auth_response \<times> auth_state" where
  "logout E m headers s =
    (if \<not> same_origin_request_allowed E ''POST'' headers then (cross_site_request_response, s)
     else (set_session_cookie E None (json_response 200 (JObject [(''ok'', JBool True)])),
       case session_cookie E headers of
         Some session_id \<Rightarrow>
           audit m ''logout'' None None (JObject [])
             (if took_effect (mo_db m) then s\<lparr>as_sessions := AList.delete session_id (as_sessions s)\<rparr> else s)
       | None \<Rightarrow> s))"

definition me :: "auth_env \<Rightarrow> moment \<Rightarrow> headers \<Rightarrow> auth_state \<Rightarrow> auth_response" where
  "me E m headers s =
    (case current_user E m headers s of
       Inr (Some user) \<Rightarrow> json_response 200 (JObject [(''authenticated'', JBool True),
         (''user'', JObject [(''display_name'', JString (me_display_name user)),
           (''login_method'', JString (login_method_as_str (me_login_method user))),
           (''user_id'', JString (me_user_id user))])])
     | Inr None \<Rightarrow> json_response 401 (JObject [(''authenticated'', JBool False)])
     | Inl _ \<Rightarrow> server_error)"

section \<open>OAuth\<close>

fun read_oauth_json_body :: "bytes \<Rightarrow> bytes option list \<Rightarrow> bytes option" where
  "read_oauth_json_body body [] = Some body"
| "read_oauth_json_body body (None # chunks) = None"
| "read_oauth_json_body body (Some chunk # chunks) =
    (if length chunk > OAUTH_JSON_BODY_LIMIT_BYTES - length body then None
     else read_oauth_json_body (body @ chunk) chunks)"

definition read_oauth_json :: "(bytes \<Rightarrow> 'a option) \<Rightarrow> bytes option list \<Rightarrow> auth_error + 'a" where
  "read_oauth_json decode chunks = ok_or (Option.bind (read_oauth_json_body [] chunks) decode) Oauth_failed"

definition endpoint_valid :: "web_lib \<Rightarrow> string \<Rightarrow> bool" where
  "endpoint_valid W endpoint \<longleftrightarrow>
    (case url_parse W endpoint of
       None \<Rightarrow> False
     | Some u \<Rightarrow> u_host u \<noteq> None \<and> u_scheme u \<in> {''http'', ''https''} \<and> u_username u = [] \<and> u_password u = None)"

definition validate_oauth_metadata_endpoints :: "web_lib \<Rightarrow> oidc_metadata \<Rightarrow> auth_error + unit" where
  "validate_oauth_metadata_endpoints W md =
    (if list_all (\<lambda>e. case e of Some endpoint \<Rightarrow> endpoint_valid W endpoint | None \<Rightarrow> True)
       [om_authorization_endpoint md, om_token_endpoint md, om_userinfo_endpoint md]
     then Inr () else Inl Oauth_failed)"

definition oauth_metadata :: "auth_env \<Rightarrow> moment \<Rightarrow> auth_error + oidc_metadata" where
  "oauth_metadata E m =
    (let issuer = trim_end_matches (\<lambda>c. c = CHR ''/'') (oa_issuer_url (au_oauth (cf_auth (ae_config E))));
         default = \<lparr>om_authorization_endpoint = Some (issuer @ ''/authorize''), om_token_endpoint = Some (issuer @ ''/token''),
           om_userinfo_endpoint = Some (issuer @ ''/userinfo'')\<rparr>
     in bind_res
          (case mo_get m (issuer @ ''/.well-known/openid-configuration'') of
             Net_error \<Rightarrow> Inr default
           | Reply status chunks \<Rightarrow>
               if 200 \<le> status \<and> status < 300 then read_oauth_json (ae_metadata E) chunks else Inr default)
          (\<lambda>md. bind_res (validate_oauth_metadata_endpoints (ae_web E) md) (\<lambda>_. Inr md)))"

definition oauth_redirect_url :: "auth_env \<Rightarrow> string" where
  "oauth_redirect_url E =
    (let configured = trim (oa_redirect_url (au_oauth (cf_auth (ae_config E)))) in
     if configured \<noteq> [] then configured
     else trim_end_matches (\<lambda>c. c = CHR ''/'') (sc_public_url (cf_server (ae_config E))) @ ''/api/auth/oauth/callback'')"

definition enforce_oauth_email_verified :: "oauth_config \<Rightarrow> json \<Rightarrow> auth_error + unit" where
  "enforce_oauth_email_verified oauth userinfo =
    (if \<not> oa_require_email_verified oauth then Inr ()
     else if Option.bind (json_get userinfo ''email_verified'') as_bool = Some True then Inr () else Inl Oauth_failed)"

definition enforce_oauth_allowlist :: "oauth_config \<Rightarrow> string \<Rightarrow> auth_error + unit" where
  "enforce_oauth_allowlist oauth email =
    (if oa_allowed_emails oauth \<noteq> [] \<and> list_ex (\<lambda>allowed. eq_ignore_ascii_case allowed email) (oa_allowed_emails oauth)
     then Inr ()
     else if oa_allowed_domains oauth \<noteq> [] \<and>
       (case rsplit_once CHR ''@'' email of
          Some (_, domain) \<Rightarrow> list_ex (\<lambda>allowed. eq_ignore_ascii_case allowed domain) (oa_allowed_domains oauth)
        | None \<Rightarrow> False)
     then Inr ()
     else if oa_allowed_emails oauth = [] \<and> oa_allowed_domains oauth = [] then Inr () else Inl Oauth_failed)"

text \<open>\<open>send()?.error_for_status()?\<close> and reading the body.\<close>

definition read_reply :: "auth_env \<Rightarrow> reply \<Rightarrow> auth_error + json" where
  "read_reply E r =
    (case r of
       Net_error \<Rightarrow> Inl Oauth_failed
     | Reply status chunks \<Rightarrow>
         if 400 \<le> status \<and> status < 600 then Inl Oauth_failed else read_oauth_json (ae_json E) chunks)"

definition identity_of :: "auth_env \<Rightarrow> json \<Rightarrow> auth_error + me_response" where
  "identity_of E userinfo =
    (let oauth = au_oauth (cf_auth (ae_config E)) in
     bind_res (ok_or (get_str userinfo ''email'') Oauth_failed) (\<lambda>email.
     let email = to_ascii_lowercase email;
         display_name = (case get_str userinfo ''name'' of Some n \<Rightarrow> n | None \<Rightarrow> email) in
     bind_res (enforce_oauth_email_verified oauth userinfo) (\<lambda>_.
     bind_res (enforce_oauth_allowlist oauth email) (\<lambda>_.
     bind_res (validate_identity_field email) (\<lambda>_.
     bind_res (validate_identity_field display_name) (\<lambda>_.
     Inr \<lparr>me_user_id = email, me_display_name = display_name, me_login_method = OAuth_login\<rparr>))))))"

definition finish_oauth :: "auth_env \<Rightarrow> moment \<Rightarrow> string \<Rightarrow> auth_error + me_response" where
  "finish_oauth E m code =
    (let oauth = au_oauth (cf_auth (ae_config E)) in
     bind_res (oauth_metadata E m) (\<lambda>md.
     bind_res (ok_or (om_token_endpoint md) Oauth_failed) (\<lambda>token_endpoint.
     bind_res (ok_or (om_userinfo_endpoint md) Oauth_failed) (\<lambda>userinfo_endpoint.
     bind_res (read_reply E (mo_post m token_endpoint [(''grant_type'', ''authorization_code''), (''code'', code),
       (''redirect_uri'', oauth_redirect_url E), (''client_id'', oa_client_id oauth),
       (''client_secret'', oa_client_secret oauth)])) (\<lambda>token_response.
     bind_res (ok_or (get_str token_response ''access_token'') Oauth_failed) (\<lambda>access_token.
     bind_res (read_reply E (mo_get_bearer m userinfo_endpoint access_token)) (identity_of E)))))))"

definition oauth_authorization_location :: "auth_env \<Rightarrow> string \<Rightarrow> string \<Rightarrow> string \<Rightarrow> string \<Rightarrow> string option" where
  "oauth_authorization_location E endpoint client_id redirect_url state_value =
    map_option (\<lambda>u. url_to_string (ae_web E) (ae_append_pairs E u [(''response_type'', ''code''), (''client_id'', client_id),
      (''redirect_uri'', redirect_url), (''scope'', ''openid email profile''), (''state'', state_value)]))
      (url_parse (ae_web E) endpoint)"

definition minutes :: "int \<Rightarrow> int" where
  "minutes n = n * 60 * 1000000000"

definition oauth_start :: "auth_env \<Rightarrow> moment \<Rightarrow> auth_state \<Rightarrow> auth_response \<times> auth_state" where
  "oauth_start E m s =
    (let oauth = au_oauth (cf_auth (ae_config E)) in
     if \<not> oa_enabled oauth then (error_response 404 ''oauth is disabled'', s)
     else if oa_client_id oauth = [] \<or> oa_issuer_url oauth = []
     then (error_response 400 ''oauth issuer_url and client_id are required'', s)
     else case oauth_metadata E m of
         Inl _ \<Rightarrow> (error_response 502 ''failed to discover oauth provider'', s)
       | Inr md \<Rightarrow>
         (case om_authorization_endpoint md of
            None \<Rightarrow> (error_response 502 ''oauth provider has no authorization endpoint'', s)
          | Some auth_url \<Rightarrow>
            let state_value = random_token E m;
                inserted = map_of (as_oauth_states s) state_value = None \<and> took_effect (mo_db m);
                s1 = (if inserted
                  then s\<lparr>as_oauth_states := (state_value, mo_now m + minutes 10) # as_oauth_states s\<rparr> else s)
            in if \<not> (inserted \<and> mo_db m = Committed) then (server_error, s1)
               else case oauth_authorization_location E auth_url (oa_client_id oauth) (oauth_redirect_url E) state_value of
                 None \<Rightarrow> (error_response 502 ''oauth provider has an invalid authorization endpoint'', s1)
               | Some location \<Rightarrow> (set_oauth_state_cookie E (Some state_value) (redirect_temporary location), s1)))"

definition oauth_callback :: "auth_env \<Rightarrow> moment \<Rightarrow> headers \<Rightarrow> oauth_callback_query \<Rightarrow> auth_state \<Rightarrow> auth_response \<times> auth_state" where
  "oauth_callback E m headers cb s =
    (if \<not> valid_auth_token (cb_state cb) \<or> oauth_state_cookie E headers \<noteq> Some (cb_state cb)
     then (set_oauth_state_cookie E None (error_response 401 ''invalid oauth state''), s)
     else if \<not> valid_oauth_code (cb_code cb)
     then (set_oauth_state_cookie E None (error_response 400 ''invalid oauth code''), s)
     else
       let live = (case map_of (as_oauth_states s) (cb_state cb) of Some expires \<Rightarrow> expires > mo_db_now m | None \<Rightarrow> False);
           s1 = (if live \<and> took_effect (mo_db m)
             then s\<lparr>as_oauth_states := AList.delete (cb_state cb) (as_oauth_states s)\<rparr> else s)
       in if mo_db m \<noteq> Committed then (server_error, s1)
          else if \<not> live then (set_oauth_state_cookie E None (error_response 401 ''invalid oauth state''), s1)
          else case finish_oauth E m (cb_code cb) of
              Inl _ \<Rightarrow> (set_oauth_state_cookie E None (error_response 401 ''oauth login failed''), s1)
            | Inr user \<Rightarrow>
                (case create_session E m (me_user_id user) (me_display_name user) OAuth_login s1 of
                   (Inr session_id, s2) \<Rightarrow>
                     (set_oauth_state_cookie E None (set_session_cookie E (Some session_id) (redirect_temporary ''/ui/'')),
                      audit m ''login_ok'' (Some (me_user_id user)) None
                        (JObject [(''method'', JString (login_method_as_str OAuth_login))]) s2)
                 | (Inl _, s2) \<Rightarrow> (set_oauth_state_cookie E None server_error, s2)))"

section \<open>Histories of requests\<close>

section \<open>Revocation\<close>

text \<open>Sessions are shown and named to an administrator by the digest of their identifier.\<close>

definition UI_SESSION_HASH_BYTES :: nat where
  "UI_SESSION_HASH_BYTES = 64"

definition session_hash :: "auth_env \<Rightarrow> string \<Rightarrow> string" where
  "session_hash E i = hex_encode (ae_web E) (sha256 (ae_web E) i)"

definition normalize_ui_session_hash :: "string \<Rightarrow> string + string" where
  "normalize_ui_session_hash v =
    (let v = trim v in
     if length v \<noteq> UI_SESSION_HASH_BYTES then Inl ''session_hash must be a 64-character hexadecimal SHA-256 value''
     else if \<not> list_all (\<lambda>c. hex_value c \<noteq> None) v then Inl ''session_hash must contain only hexadecimal characters''
     else Inr (to_ascii_lowercase v))"

definition seconds_until :: "int \<Rightarrow> int \<Rightarrow> nat" where
  "seconds_until now t = nat ((t - now) div 1000000000)"

definition ui_session_row :: "auth_env \<Rightarrow> int \<Rightarrow> string \<times> session_row \<Rightarrow> json" where
  "ui_session_row E now = (\<lambda>(i, row). JObject
    [(''created_at'', JString (ae_show_time E (sr_created_at row))), (''display_name'', JString (sr_display_name row)),
     (''expired'', JBool (sr_expires_at row \<le> now)), (''expires_at'', JString (ae_show_time E (sr_expires_at row))),
     (''expires_in_secs'', JNumber (PosInt (seconds_until now (sr_expires_at row)))),
     (''login_method'', JString (sr_login_method row)), (''session_hash'', JString (session_hash E i)),
     (''user_id'', JString (sr_user_id row))])"

definition REVOKE_UI_SESSION_SQL :: "auth_env \<Rightarrow> string \<Rightarrow> auth_state \<Rightarrow> (string \<times> session_row) list \<times> auth_state" where
  "REVOKE_UI_SESSION_SQL E h s =
    (filter (\<lambda>p. session_hash E (fst p) = h) (as_sessions s),
     s\<lparr>as_sessions := filter (\<lambda>p. session_hash E (fst p) \<noteq> h) (as_sessions s)\<rparr>)"

definition record_ui_audit_event :: "moment \<Rightarrow> string \<Rightarrow> string option \<Rightarrow> json \<Rightarrow> auth_state \<Rightarrow> auth_state" where
  "record_ui_audit_event m event_type user_id detail s =
    (if took_effect (mo_audit m)
     then s\<lparr>as_audit := as_audit s @ [\<lparr>ar_created_at = mo_db_now m, ar_event_type = event_type, ar_user_id = user_id,
       ar_remote_addr = None, ar_detail = detail\<rparr>]\<rparr>
     else s)"

text \<open>The route lies behind the guard; the guard and the deletion are different statements.\<close>

definition revoke_ui_session :: "auth_env \<Rightarrow> moment \<Rightarrow> headers \<Rightarrow> string \<Rightarrow> auth_state \<Rightarrow> auth_response \<times> auth_state" where
  "revoke_ui_session E m headers h s =
    (case require_auth E m ''DELETE'' headers s of
       Respond r \<Rightarrow> (r, s)
     | Proceed user \<Rightarrow>
         (case normalize_ui_session_hash h of
            Inl msg \<Rightarrow> (error_response 400 msg, s)
          | Inr h \<Rightarrow>
              (case REVOKE_UI_SESSION_SQL E h s of (removed, s') \<Rightarrow>
                 if mo_session_db m \<noteq> Committed then (server_error, if took_effect (mo_session_db m) then s' else s)
                 else (case removed of
                     [] \<Rightarrow> (error_response 404 ''ui session not found'', s')
                   | p # _ \<Rightarrow>
                       (json_response 200 (JObject [(''revoked'', JBool True), (''session'', ui_session_row E (mo_now m) p)]),
                        record_ui_audit_event m ''ui_session_revoked'' (Some (me_user_id user))
                          (JObject [(''session_hash'', JString h)]) s')))))"

text \<open>Expired rows are removed in batches; the rows a batch picks are an argument.\<close>

definition delete_expired_ui_sessions :: "int \<Rightarrow> string list \<Rightarrow> auth_state \<Rightarrow> auth_state" where
  "delete_expired_ui_sessions now doomed s =
    s\<lparr>as_sessions := filter (\<lambda>p. \<not> (fst p \<in> set doomed \<and> sr_expires_at (snd p) < now)) (as_sessions s)\<rparr>"

definition delete_expired_oauth_states :: "int \<Rightarrow> string list \<Rightarrow> auth_state \<Rightarrow> auth_state" where
  "delete_expired_oauth_states now doomed s =
    s\<lparr>as_oauth_states := filter (\<lambda>p. \<not> (fst p \<in> set doomed \<and> snd p < now)) (as_oauth_states s)\<rparr>"

datatype auth_request =
    Login moment string headers login_request
  | Logout moment headers
  | Oauth_start moment
  | Oauth_callback moment headers oauth_callback_query
  | Prune_sessions int "string list"
  | Prune_states int "string list"
  | Revoke_session moment headers string

fun auth_step :: "auth_env \<Rightarrow> auth_state \<Rightarrow> auth_request \<Rightarrow> auth_state" where
  "auth_step E s (Login m remote_ip headers payload) = snd (login E m remote_ip headers payload s)"
| "auth_step E s (Logout m headers) = snd (logout E m headers s)"
| "auth_step E s (Oauth_start m) = snd (oauth_start E m s)"
| "auth_step E s (Oauth_callback m headers cb) = snd (oauth_callback E m headers cb s)"
| "auth_step E s (Prune_sessions now doomed) = delete_expired_ui_sessions now doomed s"
| "auth_step E s (Prune_states now doomed) = delete_expired_oauth_states now doomed s"
| "auth_step E s (Revoke_session m headers h) = snd (revoke_ui_session E m headers h s)"

definition auth_empty :: auth_state where
  "auth_empty = \<lparr>as_sessions = [], as_oauth_states = [], as_audit = [], as_attempts = []\<rparr>"

definition auth_run :: "auth_env \<Rightarrow> auth_request list \<Rightarrow> auth_state" where
  "auth_run E rs = foldl (auth_step E) auth_empty rs"

section \<open>Tables with a history\<close>

text \<open>A keyed table in which a step inserts at most one row and removes some keys: a row
  is present exactly when some step inserted it and no later step touched its key.\<close>

fun untouched ::
  "('s \<Rightarrow> 'r \<Rightarrow> 's) \<Rightarrow> ('s \<Rightarrow> 'r \<Rightarrow> ('k \<times> 'v) option) \<Rightarrow> ('s \<Rightarrow> 'r \<Rightarrow> 'k \<Rightarrow> bool) \<Rightarrow> 's \<Rightarrow> 'r list \<Rightarrow> 'k \<Rightarrow> bool" where
  "untouched step ins gone s [] k \<longleftrightarrow> True"
| "untouched step ins gone s (r # rs) k \<longleftrightarrow>
    \<not> gone s r k \<and> map_option fst (ins s r) \<noteq> Some k \<and> untouched step ins gone (step s r) rs k"

lemma untouched_append:
  "untouched step ins gone s (rs @ rs') k \<longleftrightarrow>
    untouched step ins gone s rs k \<and> untouched step ins gone (foldl step s rs) rs' k"
  by (induction rs arbitrary: s) auto

locale row_table =
  fixes lookup :: "'s \<Rightarrow> 'k \<Rightarrow> 'v option"
    and step :: "'s \<Rightarrow> 'r \<Rightarrow> 's"
    and init :: 's
    and wf :: "'s \<Rightarrow> bool"
    and ins :: "'s \<Rightarrow> 'r \<Rightarrow> ('k \<times> 'v) option"
    and gone :: "'s \<Rightarrow> 'r \<Rightarrow> 'k \<Rightarrow> bool"
  assumes empty: "lookup init k = None"
    and wf_init: "wf init"
    and wf_step: "wf s \<Longrightarrow> wf (step s r)"
    and inserted: "wf s \<Longrightarrow> ins s r = Some (k, v) \<Longrightarrow> lookup (step s r) k = Some v"
    and other: "wf s \<Longrightarrow> map_option fst (ins s r) \<noteq> Some k \<Longrightarrow>
      lookup (step s r) k = (if gone s r k then None else lookup s k)"
begin

lemma wf_run: "wf s \<Longrightarrow> wf (foldl step s rs)"
  by (induction rs arbitrary: s) (auto intro: wf_step)

lemma untouched_lookup: "wf s \<Longrightarrow> untouched step ins gone s rs k \<Longrightarrow> lookup (foldl step s rs) k = lookup s k"
  by (induction rs arbitrary: s) (auto simp: other wf_step)

lemma absent_stays:
  assumes "wf s" "lookup s k = None"
    and "\<And>pre r post. rs = pre @ r # post \<Longrightarrow> map_option fst (ins (foldl step s pre) r) \<noteq> Some k"
  shows "lookup (foldl step s rs) k = None"
  using assms(3)
proof (induction rs rule: rev_induct)
  case (snoc r rs)
  have "lookup (foldl step s rs) k = None" by (rule snoc.IH) (use snoc.prems in auto)
  moreover have "map_option fst (ins (foldl step s rs) r) \<noteq> Some k" using snoc.prems [of rs r "[]"] by simp
  ultimately show ?case using other [OF wf_run [OF assms(1)]] by simp
qed (use assms(2) in simp)

lemma present_iff:
  "lookup (foldl step init rs) k = Some v \<longleftrightarrow>
    (\<exists>pre r post. rs = pre @ r # post \<and> ins (foldl step init pre) r = Some (k, v) \<and>
      untouched step ins gone (foldl step init (pre @ [r])) post k)"
proof
  show "lookup (foldl step init rs) k = Some v \<Longrightarrow> \<exists>pre r post. rs = pre @ r # post \<and>
      ins (foldl step init pre) r = Some (k, v) \<and> untouched step ins gone (foldl step init (pre @ [r])) post k"
  proof (induction rs rule: rev_induct)
    case (snoc r rs)
    let ?s = "foldl step init rs"
    note wf = wf_run [OF wf_init, of rs]
    show ?case
    proof (cases "map_option fst (ins ?s r) = Some k")
      case False
      then have same: "\<not> gone ?s r k" "lookup ?s k = Some v"
        using snoc.prems other [OF wf False] by (auto split: if_splits)
      from snoc.IH [OF same(2)] obtain pre q post where p: "rs = pre @ q # post"
        "ins (foldl step init pre) q = Some (k, v)" "untouched step ins gone (foldl step init (pre @ [q])) post k" by blast
      then have "untouched step ins gone (foldl step init (pre @ [q])) (post @ [r]) k"
        using same(1) False by (simp add: untouched_append)
      with p show ?thesis by (intro exI [of _ pre] exI [of _ q] exI [of _ "post @ [r]"]) simp
    next
      case True
      then obtain w where w: "ins ?s r = Some (k, w)" by auto
      then have "w = v" using inserted [OF wf w] snoc.prems by simp
      with w show ?thesis by (intro exI [of _ rs] exI [of _ r] exI [of _ "[]"]) simp
    qed
  qed (simp add: empty)
next
  assume "\<exists>pre r post. rs = pre @ r # post \<and> ins (foldl step init pre) r = Some (k, v) \<and>
      untouched step ins gone (foldl step init (pre @ [r])) post k"
  then obtain pre r post where p: "rs = pre @ r # post" "ins (foldl step init pre) r = Some (k, v)"
    "untouched step ins gone (foldl step init (pre @ [r])) post k" by blast
  then show "lookup (foldl step init rs) k = Some v"
    using untouched_lookup [OF wf_run [OF wf_init] p(3)] inserted [OF wf_run [OF wf_init] p(2)] by simp
qed

end

section \<open>Who is granted a session\<close>

definition session_created ::
  "auth_env \<Rightarrow> moment \<Rightarrow> string \<Rightarrow> string \<Rightarrow> login_method \<Rightarrow> auth_state \<Rightarrow> (string \<times> session_row) option" where
  "session_created E m user_id display_name lm s =
    (if length user_id \<le> MAX_SESSION_IDENTITY_BYTES \<and> length display_name \<le> MAX_SESSION_IDENTITY_BYTES \<and>
        map_of (as_sessions s) (random_token E m) = None \<and> took_effect (mo_session_db m)
     then Some (random_token E m, \<lparr>sr_user_id = user_id, sr_display_name = display_name,
       sr_login_method = login_method_as_str lm, sr_created_at = mo_db_now m,
       sr_expires_at = mo_now m + hours (au_session_ttl_hours (cf_auth (ae_config E)))\<rparr>)
     else None)"

definition login_accepted :: "auth_env \<Rightarrow> moment \<Rightarrow> string \<Rightarrow> headers \<Rightarrow> login_request \<Rightarrow> auth_state \<Rightarrow> bool" where
  "login_accepted E m remote_ip headers payload s \<longleftrightarrow>
    same_origin_request_allowed E ''POST'' headers \<and>
    fst (check_at (au_login_rate_limit (cf_auth (ae_config E)))
      (throttle_key_new (lq_username payload) remote_ip) (mo_check m) (as_attempts s)) = Allowed \<and>
    login_payload_size_error payload = None \<and> mo_verified m \<and>
    verify_local_admin_credentials E (au_local_admin (cf_auth (ae_config E))) (lq_username payload) (lq_password payload)"

definition state_live :: "moment \<Rightarrow> string \<Rightarrow> auth_state \<Rightarrow> bool" where
  "state_live m st s \<longleftrightarrow> (\<exists>expires. map_of (as_oauth_states s) st = Some expires \<and> mo_db_now m < expires)"

definition callback_admissible :: "auth_env \<Rightarrow> moment \<Rightarrow> headers \<Rightarrow> oauth_callback_query \<Rightarrow> auth_state \<Rightarrow> bool" where
  "callback_admissible E m headers cb s \<longleftrightarrow>
    valid_auth_token (cb_state cb) \<and> oauth_state_cookie E headers = Some (cb_state cb) \<and> valid_oauth_code (cb_code cb) \<and>
    state_live m (cb_state cb) s"

fun session_granted :: "auth_env \<Rightarrow> auth_state \<Rightarrow> auth_request \<Rightarrow> (string \<times> session_row) option" where
  "session_granted E s (Login m remote_ip headers payload) =
    (if login_accepted E m remote_ip headers payload s
     then session_created E m (la_username (au_local_admin (cf_auth (ae_config E))))
       (la_username (au_local_admin (cf_auth (ae_config E)))) Local_login s
     else None)"
| "session_granted E s (Oauth_callback m headers cb) =
    (if callback_admissible E m headers cb s \<and> mo_db m = Committed
     then (case finish_oauth E m (cb_code cb) of
         Inr user \<Rightarrow> session_created E m (me_user_id user) (me_display_name user) OAuth_login s
       | Inl _ \<Rightarrow> None)
     else None)"
| "session_granted E s r = None"

fun session_ended :: "auth_env \<Rightarrow> auth_state \<Rightarrow> auth_request \<Rightarrow> string \<Rightarrow> bool" where
  "session_ended E s (Logout m headers) k \<longleftrightarrow>
    same_origin_request_allowed E ''POST'' headers \<and> session_cookie E headers = Some k \<and> took_effect (mo_db m)"
| "session_ended E s (Prune_sessions now doomed) k \<longleftrightarrow>
    k \<in> set doomed \<and> (case map_of (as_sessions s) k of Some row \<Rightarrow> sr_expires_at row < now | None \<Rightarrow> False)"
| "session_ended E s (Revoke_session m headers h) k \<longleftrightarrow>
    (case require_auth E m ''DELETE'' headers s of Proceed _ \<Rightarrow> True | Respond _ \<Rightarrow> False) \<and>
    normalize_ui_session_hash h = Inr (session_hash E k) \<and> took_effect (mo_session_db m)"
| "session_ended E s r k \<longleftrightarrow> False"

definition start_admissible :: "auth_env \<Rightarrow> moment \<Rightarrow> bool" where
  "start_admissible E m \<longleftrightarrow>
    (let oauth = au_oauth (cf_auth (ae_config E)) in
     oa_enabled oauth \<and> oa_client_id oauth \<noteq> [] \<and> oa_issuer_url oauth \<noteq> [] \<and>
     (case oauth_metadata E m of Inr md \<Rightarrow> om_authorization_endpoint md \<noteq> None | Inl _ \<Rightarrow> False))"

fun state_issued :: "auth_env \<Rightarrow> auth_state \<Rightarrow> auth_request \<Rightarrow> (string \<times> int) option" where
  "state_issued E s (Oauth_start m) =
    (if start_admissible E m \<and> map_of (as_oauth_states s) (random_token E m) = None \<and> took_effect (mo_db m)
     then Some (random_token E m, mo_now m + minutes 10) else None)"
| "state_issued E s r = None"

fun state_consumed :: "auth_env \<Rightarrow> auth_state \<Rightarrow> auth_request \<Rightarrow> string \<Rightarrow> bool" where
  "state_consumed E s (Oauth_callback m headers cb) k \<longleftrightarrow>
    k = cb_state cb \<and> callback_admissible E m headers cb s \<and> took_effect (mo_db m)"
| "state_consumed E s (Prune_states now doomed) k \<longleftrightarrow>
    k \<in> set doomed \<and> (case map_of (as_oauth_states s) k of Some expires \<Rightarrow> expires < now | None \<Rightarrow> False)"
| "state_consumed E s r k \<longleftrightarrow> False"

section \<open>The handlers and the tables\<close>

lemma audit_tables [simp]:
  "as_sessions (audit m t u r d s) = as_sessions s" "as_oauth_states (audit m t u r d s) = as_oauth_states s"
  by (simp_all add: audit_def)

definition with_session :: "(string \<times> session_row) option \<Rightarrow> (string \<times> session_row) list \<Rightarrow> (string \<times> session_row) list" where
  "with_session x xs = (case x of Some p \<Rightarrow> p # xs | None \<Rightarrow> xs)"

lemma create_session_tables:
  "as_sessions (snd (create_session E m u d lm s)) = with_session (session_created E m u d lm s) (as_sessions s)"
  "as_oauth_states (snd (create_session E m u d lm s)) = as_oauth_states s"
  by (auto simp: create_session_def session_created_def with_session_def validate_identity_field_def bind_res_def Let_def
      split: sum.splits if_splits)

lemma session_created_cong:
  "as_sessions s = as_sessions s' \<Longrightarrow> session_created E m u d lm s = session_created E m u d lm s'"
  by (simp add: session_created_def)

lemma login_failed_tables:
  "as_sessions (snd (login_failed E m p ip reason s)) = as_sessions s"
  "as_oauth_states (snd (login_failed E m p ip reason s)) = as_oauth_states s"
  by (simp_all add: login_failed_def split: prod.splits)

lemma login_succeeded_tables:
  "as_sessions (snd (login_succeeded E m p ip s)) =
    with_session (session_created E m (la_username (au_local_admin (cf_auth (ae_config E))))
      (la_username (au_local_admin (cf_auth (ae_config E)))) Local_login s) (as_sessions s)"
  "as_oauth_states (snd (login_succeeded E m p ip s)) = as_oauth_states s"
proof -
  let ?a = "la_username (au_local_admin (cf_auth (ae_config E)))"
  let ?s = "s\<lparr>as_attempts := record_success_at (au_login_rate_limit (cf_auth (ae_config E)))
    (throttle_key_new (lq_username p) ip) (as_attempts s)\<rparr>"
  obtain r s2 where c: "create_session E m ?a ?a Local_login ?s = (r, s2)" by (cases "create_session E m ?a ?a Local_login ?s")
  note t = create_session_tables [of E m ?a ?a Local_login ?s, unfolded c]
  show "as_sessions (snd (login_succeeded E m p ip s)) =
      with_session (session_created E m ?a ?a Local_login s) (as_sessions s)"
    "as_oauth_states (snd (login_succeeded E m p ip s)) = as_oauth_states s"
    using t session_created_cong [of ?s s E m ?a ?a Local_login] by (cases r; simp add: login_succeeded_def Let_def c)+
qed

lemma login_tables:
  "as_sessions (snd (login E m ip h p s)) = with_session (session_granted E s (Login m ip h p)) (as_sessions s)"
  "as_oauth_states (snd (login E m ip h p s)) = as_oauth_states s"
proof -
  let ?a = "la_username (au_local_admin (cf_auth (ae_config E)))"
  let ?c = "check_at (au_login_rate_limit (cf_auth (ae_config E))) (throttle_key_new (lq_username p) ip) (mo_check m) (as_attempts s)"
  obtain d at where c: "?c = (d, at)" by (cases ?c)
  have cong: "session_created E m ?a ?a Local_login (s\<lparr>as_attempts := at\<rparr>) = session_created E m ?a ?a Local_login s"
    by (rule session_created_cong) simp
  show "as_sessions (snd (login E m ip h p s)) = with_session (session_granted E s (Login m ip h p)) (as_sessions s)"
    "as_oauth_states (snd (login E m ip h p s)) = as_oauth_states s"
    by (cases d; cases "login_payload_size_error p"; simp add: login_def c Let_def login_accepted_def login_failed_tables
        login_succeeded_tables cong with_session_def)+
qed

lemma callback_tables:
  "as_sessions (snd (oauth_callback E m h cb s)) = with_session (session_granted E s (Oauth_callback m h cb)) (as_sessions s)"
  "as_oauth_states (snd (oauth_callback E m h cb s)) =
    (if callback_admissible E m h cb s \<and> took_effect (mo_db m) then AList.delete (cb_state cb) (as_oauth_states s)
     else as_oauth_states s)"
proof -
  have live: "(case map_of (as_oauth_states s) (cb_state cb) of Some expires \<Rightarrow> expires > mo_db_now m | None \<Rightarrow> False) \<longleftrightarrow>
      state_live m (cb_state cb) s"
    by (simp add: state_live_def split: option.splits)
  let ?s = "s\<lparr>as_oauth_states := AList.delete (cb_state cb) (as_oauth_states s)\<rparr>"
  have cong: "session_created E m u d lm ?s = session_created E m u d lm s" for u d lm
    by (rule session_created_cong) simp
  note created = create_session_tables [of E m _ _ OAuth_login ?s, unfolded cong]
  let ?r = "oauth_callback E m h cb s"
  have "as_sessions (snd ?r) = with_session (session_granted E s (Oauth_callback m h cb)) (as_sessions s) \<and>
      as_oauth_states (snd ?r) = (if callback_admissible E m h cb s \<and> took_effect (mo_db m)
        then AList.delete (cb_state cb) (as_oauth_states s) else as_oauth_states s)"
  proof (cases "valid_auth_token (cb_state cb) \<and> oauth_state_cookie E h = Some (cb_state cb) \<and> valid_oauth_code (cb_code cb)")
    case False
    then have "\<not> callback_admissible E m h cb s" "snd ?r = s" by (auto simp: callback_admissible_def oauth_callback_def)
    then show ?thesis by (simp add: with_session_def)
  next
    case True
    then have adm: "callback_admissible E m h cb s \<longleftrightarrow> state_live m (cb_state cb) s" by (simp add: callback_admissible_def)
    show ?thesis
    proof (cases "mo_db m = Committed \<and> state_live m (cb_state cb) s")
      case False
      then show ?thesis using True by (cases "mo_db m") (simp_all add: oauth_callback_def live adm with_session_def)
    next
      case ok: True
      show ?thesis
      proof (cases "finish_oauth E m (cb_code cb)")
        case (Inl e)
        then show ?thesis using True ok by (simp add: oauth_callback_def live adm with_session_def)
      next
        case (Inr user)
        obtain r s2 where cs: "create_session E m (me_user_id user) (me_display_name user) OAuth_login ?s = (r, s2)"
          by (cases "create_session E m (me_user_id user) (me_display_name user) OAuth_login ?s")
        note t = created [of "me_user_id user" "me_display_name user", unfolded cs]
        show ?thesis using True ok Inr t by (cases r) (simp_all add: oauth_callback_def live adm cs)
      qed
    qed
  qed
  then show "as_sessions (snd ?r) = with_session (session_granted E s (Oauth_callback m h cb)) (as_sessions s)"
    "as_oauth_states (snd ?r) = (if callback_admissible E m h cb s \<and> took_effect (mo_db m)
        then AList.delete (cb_state cb) (as_oauth_states s) else as_oauth_states s)" by blast+
qed

lemma start_tables:
  "as_sessions (snd (oauth_start E m s)) = as_sessions s"
  "as_oauth_states (snd (oauth_start E m s)) =
    (case state_issued E s (Oauth_start m) of Some p \<Rightarrow> p # as_oauth_states s | None \<Rightarrow> as_oauth_states s)"
  by (auto simp: oauth_start_def start_admissible_def Let_def split: sum.splits option.splits)

lemma logout_tables:
  "as_sessions (snd (logout E m h s)) =
    (if same_origin_request_allowed E ''POST'' h \<and> took_effect (mo_db m)
     then (case session_cookie E h of Some k \<Rightarrow> AList.delete k (as_sessions s) | None \<Rightarrow> as_sessions s) else as_sessions s)"
  "as_oauth_states (snd (logout E m h s)) = as_oauth_states s"
  by (auto simp: logout_def split: option.splits)

lemma revoke_tables:
  "as_sessions (snd (revoke_ui_session E m headers h s)) =
    (if (case require_auth E m ''DELETE'' headers s of Proceed _ \<Rightarrow> True | Respond _ \<Rightarrow> False) \<and> took_effect (mo_session_db m)
     then filter (\<lambda>p. normalize_ui_session_hash h \<noteq> Inr (session_hash E (fst p))) (as_sessions s) else as_sessions s)"
  "as_oauth_states (snd (revoke_ui_session E m headers h s)) = as_oauth_states s"
proof -
  have "as_sessions (snd (revoke_ui_session E m headers h s)) =
    (if (case require_auth E m ''DELETE'' headers s of Proceed _ \<Rightarrow> True | Respond _ \<Rightarrow> False) \<and> took_effect (mo_session_db m)
     then filter (\<lambda>p. normalize_ui_session_hash h \<noteq> Inr (session_hash E (fst p))) (as_sessions s) else as_sessions s) \<and>
    as_oauth_states (snd (revoke_ui_session E m headers h s)) = as_oauth_states s"
    by (cases "require_auth E m ''DELETE'' headers s"; cases "normalize_ui_session_hash h"; cases "mo_session_db m")
      (auto simp: revoke_ui_session_def REVOKE_UI_SESSION_SQL_def record_ui_audit_event_def split: list.splits intro: filter_cong)
  then show "as_sessions (snd (revoke_ui_session E m headers h s)) =
    (if (case require_auth E m ''DELETE'' headers s of Proceed _ \<Rightarrow> True | Respond _ \<Rightarrow> False) \<and> took_effect (mo_session_db m)
     then filter (\<lambda>p. normalize_ui_session_hash h \<noteq> Inr (session_hash E (fst p))) (as_sessions s) else as_sessions s)"
    "as_oauth_states (snd (revoke_ui_session E m headers h s)) = as_oauth_states s" by blast+
qed

definition auth_wf :: "auth_state \<Rightarrow> bool" where
  "auth_wf s \<longleftrightarrow> hm_wf (as_sessions s) \<and> hm_wf (as_oauth_states s)"

lemma session_created_fresh: "session_created E m u d lm s = Some (k, row) \<Longrightarrow> map_of (as_sessions s) k = None"
  by (auto simp: session_created_def split: if_splits)

lemma session_granted_fresh: "session_granted E s r = Some (k, row) \<Longrightarrow> map_of (as_sessions s) k = None"
  by (cases r) (auto dest: session_created_fresh split: if_splits sum.splits)

lemma step_sessions:
  "as_sessions (auth_step E s r) =
    (case r of
       Logout m h \<Rightarrow>
         (if same_origin_request_allowed E ''POST'' h \<and> took_effect (mo_db m)
          then (case session_cookie E h of Some k \<Rightarrow> AList.delete k (as_sessions s) | None \<Rightarrow> as_sessions s) else as_sessions s)
     | Prune_sessions now doomed \<Rightarrow> filter (\<lambda>p. \<not> (fst p \<in> set doomed \<and> sr_expires_at (snd p) < now)) (as_sessions s)
     | Revoke_session m h x \<Rightarrow>
         (if (case require_auth E m ''DELETE'' h s of Proceed _ \<Rightarrow> True | Respond _ \<Rightarrow> False) \<and> took_effect (mo_session_db m)
          then filter (\<lambda>p. normalize_ui_session_hash x \<noteq> Inr (session_hash E (fst p))) (as_sessions s) else as_sessions s)
     | _ \<Rightarrow> with_session (session_granted E s r) (as_sessions s))"
  by (cases r) (simp_all add: login_tables logout_tables start_tables callback_tables revoke_tables delete_expired_ui_sessions_def
      delete_expired_oauth_states_def with_session_def)

lemma step_states:
  "as_oauth_states (auth_step E s r) =
    (case r of
       Oauth_callback m h cb \<Rightarrow>
         (if callback_admissible E m h cb s \<and> took_effect (mo_db m) then AList.delete (cb_state cb) (as_oauth_states s)
          else as_oauth_states s)
     | Prune_states now doomed \<Rightarrow> filter (\<lambda>p. \<not> (fst p \<in> set doomed \<and> snd p < now)) (as_oauth_states s)
     | _ \<Rightarrow> (case state_issued E s r of Some p \<Rightarrow> p # as_oauth_states s | None \<Rightarrow> as_oauth_states s))"
  by (cases r) (simp_all add: login_tables logout_tables start_tables callback_tables revoke_tables delete_expired_ui_sessions_def
      delete_expired_oauth_states_def)

lemma map_of_filter: "hm_wf m \<Longrightarrow>
    map_of (filter P m) k = (case map_of m k of Some v \<Rightarrow> if P (k, v) then Some v else None | None \<Rightarrow> None)"
  by (induction m) (auto split: option.splits simp: map_of_eq_None_iff image_iff)

lemma with_session_wf: "hm_wf xs \<Longrightarrow> (\<And>k row. x = Some (k, row) \<Longrightarrow> map_of xs k = None) \<Longrightarrow> hm_wf (with_session x xs)"
  by (cases x) (force simp: with_session_def map_of_eq_None_iff)+

lemma auth_wf_step: "auth_wf s \<Longrightarrow> auth_wf (auth_step E s r)"
proof -
  assume wf: "auth_wf s"
  have "hm_wf (as_sessions (auth_step E s r))"
    unfolding step_sessions
    using wf with_session_wf [of "as_sessions s" "session_granted E s r"] session_granted_fresh [of E s r]
    by (cases r) (auto simp: auth_wf_def hm_filter_wf distinct_delete split: option.splits)
  moreover have "hm_wf (as_oauth_states (auth_step E s r))"
    unfolding step_states using wf
    by (cases r) (auto simp: auth_wf_def hm_filter_wf distinct_delete map_of_eq_None_iff split: option.splits if_splits)
  ultimately show ?thesis by (simp add: auth_wf_def)
qed

lemma sessions_law:
  assumes "auth_wf s"
  shows "session_granted E s r = Some (k, row) \<Longrightarrow> map_of (as_sessions (auth_step E s r)) k = Some row"
    "map_option fst (session_granted E s r) \<noteq> Some k \<Longrightarrow>
      map_of (as_sessions (auth_step E s r)) k = (if session_ended E s r k then None else map_of (as_sessions s) k)"
proof -
  show "session_granted E s r = Some (k, row) \<Longrightarrow> map_of (as_sessions (auth_step E s r)) k = Some row"
    unfolding step_sessions by (cases r) (auto simp: with_session_def simp del: session_granted.simps(1,2))
  show "map_option fst (session_granted E s r) \<noteq> Some k \<Longrightarrow>
      map_of (as_sessions (auth_step E s r)) k = (if session_ended E s r k then None else map_of (as_sessions s) k)"
    unfolding step_sessions using assms
    by (cases r) (auto simp: with_session_def map_of_filter auth_wf_def delete_conv' simp del: session_granted.simps(1,2)
        split: option.splits)
qed

lemma states_law:
  assumes "auth_wf s"
  shows "state_issued E s r = Some (k, t) \<Longrightarrow> map_of (as_oauth_states (auth_step E s r)) k = Some t"
    "map_option fst (state_issued E s r) \<noteq> Some k \<Longrightarrow>
      map_of (as_oauth_states (auth_step E s r)) k = (if state_consumed E s r k then None else map_of (as_oauth_states s) k)"
proof -
  show "state_issued E s r = Some (k, t) \<Longrightarrow> map_of (as_oauth_states (auth_step E s r)) k = Some t"
    unfolding step_states by (cases r) (auto simp del: state_issued.simps(1))
  show "map_option fst (state_issued E s r) \<noteq> Some k \<Longrightarrow>
      map_of (as_oauth_states (auth_step E s r)) k = (if state_consumed E s r k then None else map_of (as_oauth_states s) k)"
    unfolding step_states using assms
    by (cases r) (auto simp: map_of_filter auth_wf_def delete_conv' simp del: state_issued.simps(1) split: option.splits)
qed

lemma auth_empty_tables: "as_sessions auth_empty = []" "as_oauth_states auth_empty = []" "auth_wf auth_empty"
  by (simp_all add: auth_empty_def auth_wf_def)

interpretation sess: row_table "\<lambda>s. map_of (as_sessions s)" "auth_step E" auth_empty auth_wf "session_granted E" "session_ended E" for E
  by unfold_locales (simp_all add: auth_empty_tables auth_wf_step sessions_law)

interpretation states: row_table "\<lambda>s. map_of (as_oauth_states s)" "auth_step E" auth_empty auth_wf "state_issued E" "state_consumed E" for E
  by unfold_locales (simp_all add: auth_empty_tables auth_wf_step states_law)

definition user_of :: "session_row \<Rightarrow> me_response" where
  "user_of row = \<lparr>me_user_id = sr_user_id row, me_display_name = sr_display_name row,
    me_login_method = (if sr_login_method row = ''oauth'' then OAuth_login else Local_login)\<rparr>"

lemma session_granted_method:
  "session_granted E s r = Some (k, row) \<Longrightarrow> login_method_from_str (sr_login_method row) = Some (me_login_method (user_of row))"
  by (cases r) (auto simp: session_created_def user_of_def login_method_from_str_def split: if_splits sum.splits)

lemma current_user_row:
  "current_user E m headers s = Inr (Some u) \<longleftrightarrow> mo_db m = Committed \<and> (\<exists>k row. session_cookie E headers = Some k \<and>
    map_of (as_sessions s) k = Some row \<and> mo_db_now m < sr_expires_at row \<and>
    (\<exists>lm. login_method_from_str (sr_login_method row) = Some lm \<and>
      u = \<lparr>me_user_id = sr_user_id row, me_display_name = sr_display_name row, me_login_method = lm\<rparr>))"
  by (auto simp: current_user_def split: option.splits if_splits)

text \<open>C29: whoever passes the check in front of the administration API logged in before. In
  every history of requests, a request is admitted as a user exactly when it is not a
  forged cross-site request, its cookie names a session that a login was granted earlier,
  the session has not expired, and no logout, revocation or clean-up has removed it since. A grant is
  a local login that the throttle let through with the right credentials, or an OAuth
  callback whose identity the provider vouched for; the state of such a callback was
  issued to the same browser by an earlier start, is not older than ten minutes and has
  not been used before.\<close>

theorem session_provenance:
  "(require_auth E m meth headers (auth_run E rs) = Proceed u \<longleftrightarrow>
    same_origin_request_allowed E meth headers \<and> mo_db m = Committed \<and>
    (\<exists>k row pre r post. session_cookie E headers = Some k \<and> rs = pre @ r # post \<and>
      session_granted E (auth_run E pre) r = Some (k, row) \<and>
      untouched (auth_step E) (session_granted E) (session_ended E) (auth_run E (pre @ [r])) post k \<and>
      mo_db_now m < sr_expires_at row \<and> u = user_of row)) \<and>
   (session_granted E (auth_run E rs) (Oauth_callback cm ch cb) \<noteq> None \<longrightarrow>
     oauth_state_cookie E ch = Some (cb_state cb) \<and>
     (\<exists>user. finish_oauth E cm (cb_code cb) = Inr user) \<and>
     (\<exists>pre sm post. rs = pre @ Oauth_start sm # post \<and> cb_state cb = random_token E sm \<and>
       mo_db_now cm < mo_now sm + minutes 10 \<and>
       untouched (auth_step E) (state_issued E) (state_consumed E) (auth_run E (pre @ [Oauth_start sm])) post (cb_state cb)))"
proof (intro conjI impI)
  define has where "has k row \<longleftrightarrow> (\<exists>pre r post. rs = pre @ r # post \<and> session_granted E (auth_run E pre) r = Some (k, row) \<and>
      untouched (auth_step E) (session_granted E) (session_ended E) (auth_run E (pre @ [r])) post k)" for k row
  have has: "map_of (as_sessions (auth_run E rs)) k = Some row \<longleftrightarrow> has k row" for k row
    unfolding auth_run_def sess.present_iff by (simp add: has_def auth_run_def)
  have user: "(\<exists>lm. login_method_from_str (sr_login_method row) = Some lm \<and>
      u = \<lparr>me_user_id = sr_user_id row, me_display_name = sr_display_name row, me_login_method = lm\<rparr>) \<longleftrightarrow> u = user_of row"
    if "has k row" for k row
    using that session_granted_method [of E _ _ k row] by (auto simp: has_def user_of_def)
  have guard: "require_auth E m meth headers s = Proceed u \<longleftrightarrow>
      same_origin_request_allowed E meth headers \<and> current_user E m headers s = Inr (Some u)" for s
    by (auto simp: require_auth_def split: sum.splits option.splits)
  show "require_auth E m meth headers (auth_run E rs) = Proceed u \<longleftrightarrow>
    same_origin_request_allowed E meth headers \<and> mo_db m = Committed \<and>
    (\<exists>k row pre r post. session_cookie E headers = Some k \<and> rs = pre @ r # post \<and>
      session_granted E (auth_run E pre) r = Some (k, row) \<and>
      untouched (auth_step E) (session_granted E) (session_ended E) (auth_run E (pre @ [r])) post k \<and>
      mo_db_now m < sr_expires_at row \<and> u = user_of row)"
  proof -
    have "require_auth E m meth headers (auth_run E rs) = Proceed u \<longleftrightarrow> same_origin_request_allowed E meth headers \<and>
        mo_db m = Committed \<and> (\<exists>k row. session_cookie E headers = Some k \<and> has k row \<and>
          mo_db_now m < sr_expires_at row \<and> u = user_of row)"
      unfolding guard current_user_row has using user by blast
    then show ?thesis unfolding has_def by blast
  qed
next
  assume "session_granted E (auth_run E rs) (Oauth_callback cm ch cb) \<noteq> None"
  then have a: "callback_admissible E cm ch cb (auth_run E rs)" "\<exists>user. finish_oauth E cm (cb_code cb) = Inr user"
    by (auto split: if_splits sum.splits)
  then show "oauth_state_cookie E ch = Some (cb_state cb)" "\<exists>user. finish_oauth E cm (cb_code cb) = Inr user"
    by (auto simp: callback_admissible_def)
  from a(1) obtain t where t: "map_of (as_oauth_states (auth_run E rs)) (cb_state cb) = Some t" "mo_db_now cm < t"
    by (auto simp: callback_admissible_def state_live_def)
  from t(1) [unfolded auth_run_def states.present_iff] obtain pre r post where
    p: "rs = pre @ r # post" "state_issued E (auth_run E pre) r = Some (cb_state cb, t)"
      "untouched (auth_step E) (state_issued E) (state_consumed E) (auth_run E (pre @ [r])) post (cb_state cb)"
    unfolding auth_run_def by blast
  then obtain sm where "r = Oauth_start sm" "cb_state cb = random_token E sm" "t = mo_now sm + minutes 10"
    by (cases r) (auto split: if_splits)
  with p t(2) show "\<exists>pre sm post. rs = pre @ Oauth_start sm # post \<and> cb_state cb = random_token E sm \<and>
       mo_db_now cm < mo_now sm + minutes 10 \<and>
       untouched (auth_step E) (state_issued E) (state_consumed E) (auth_run E (pre @ [Oauth_start sm])) post (cb_state cb)"
    by blast
qed

text \<open>A start, the callback it leads to and a request with the session it creates.\<close>

definition demo_token :: string where
  "demo_token = replicate 43 CHR ''A''"

definition demo_digest :: "bytes \<Rightarrow> string" where
  "demo_digest b = take 64 (map (\<lambda>c. if c = CHR ''A'' then CHR ''a'' else CHR ''b'') b @ replicate 64 CHR ''c'')"

definition demo_auth_env :: auth_env where
  "demo_auth_env =
    \<lparr>ae_config = config_default\<lparr>cf_auth := auth_config_default\<lparr>au_oauth := oauth_config_default
       \<lparr>oa_enabled := True, oa_issuer_url := ''i'', oa_client_id := ''c'', oa_redirect_url := ''r''\<rparr>\<rparr>\<rparr>,
     ae_web = demo_web [(''i/authorize'', demo_url), (''i/token'', demo_url), (''i/userinfo'', demo_url)]\<lparr>hex_encode := demo_digest\<rparr>,
     ae_split_cookies = (\<lambda>_. [(OAUTH_STATE_COOKIE, demo_token), (SESSION_COOKIE, demo_token)]),
     ae_password_hash = (\<lambda>_. None), ae_base64url = (\<lambda>_. demo_token),
     ae_json = (\<lambda>b. if b = ''t'' then Some (JObject [(''access_token'', JString ''x'')])
       else Some (JObject [(''email'', JString ''A@b''), (''email_verified'', JBool True)])),
     ae_metadata = (\<lambda>_. None), ae_append_pairs = (\<lambda>u _. u), ae_show_time = (\<lambda>_. [])\<rparr>"

definition demo_moment :: moment where
  "demo_moment = \<lparr>mo_now = 0, mo_db_now = 0, mo_check = 0, mo_record = 0, mo_random = [], mo_db = Committed,
    mo_session_db = Committed, mo_audit = Committed, mo_verified = True, mo_get = (\<lambda>_. Net_error),
    mo_post = (\<lambda>_ _. Reply 200 [Some ''t'']), mo_get_bearer = (\<lambda>_ _. Reply 200 [Some ''u''])\<rparr>"

definition demo_headers :: headers where
  "demo_headers = [(''cookie'', ''x'')]"

definition demo_callback :: oauth_callback_query where
  "demo_callback = \<lparr>cb_code = ''c'', cb_state = demo_token\<rparr>"

lemma demo_token_valid: "valid_auth_token demo_token"
  by (simp add: valid_auth_token_def demo_token_def AUTH_TOKEN_ENCODED_LEN_def is_ascii_alphanumeric_def byte_def list_all_iff)

lemma demo_cookies:
  "session_cookie demo_auth_env demo_headers = Some demo_token" "oauth_state_cookie demo_auth_env demo_headers = Some demo_token"
  by (simp_all add: session_cookie_def oauth_state_cookie_def auth_cookie_def demo_headers_def header_get_all_def
      to_ascii_lowercase_def ascii_lower_def byte_def demo_auth_env_def demo_web_def List.map_filter_def
      demo_token_valid SESSION_COOKIE_def OAUTH_STATE_COOKIE_def)

lemma demo_metadata:
  "oauth_metadata demo_auth_env demo_moment = Inr \<lparr>om_authorization_endpoint = Some ''i/authorize'',
    om_token_endpoint = Some ''i/token'', om_userinfo_endpoint = Some ''i/userinfo''\<rparr>"
  by (simp add: oauth_metadata_def demo_moment_def demo_auth_env_def trim_end_matches_def Let_def
      validate_oauth_metadata_endpoints_def endpoint_valid_def demo_url_def)

lemma demo_started: "state_issued demo_auth_env auth_empty (Oauth_start demo_moment) = Some (demo_token, minutes 10)"
  by (simp add: start_admissible_def demo_metadata Let_def auth_empty_tables random_token_def)
    (simp add: demo_auth_env_def demo_moment_def)

lemma demo_identity:
  "finish_oauth demo_auth_env demo_moment ''c'' =
    Inr \<lparr>me_user_id = ''a@b'', me_display_name = ''a@b'', me_login_method = OAuth_login\<rparr>"
proof -
  have "to_ascii_lowercase ''A@b'' = ''a@b''" by (simp add: to_ascii_lowercase_def ascii_lower_def byte_def char_of_def bit_0)
  then show ?thesis
    by (simp add: finish_oauth_def demo_metadata Let_def ok_or_def)
      (simp add: demo_moment_def demo_auth_env_def read_reply_def read_oauth_json_def OAUTH_JSON_BODY_LIMIT_BYTES_def ok_or_def
        get_str_def identity_of_def Let_def enforce_oauth_email_verified_def enforce_oauth_allowlist_def
        validate_identity_field_def MAX_SESSION_IDENTITY_BYTES_def auth_config_default_def oauth_config_default_def)
qed

lemma demo_granted:
  "session_granted demo_auth_env (auth_run demo_auth_env [Oauth_start demo_moment])
      (Oauth_callback demo_moment demo_headers demo_callback) =
    Some (demo_token, \<lparr>sr_user_id = ''a@b'', sr_display_name = ''a@b'', sr_login_method = ''oauth'', sr_created_at = 0, sr_expires_at = hours 24\<rparr>)"
proof -
  let ?s = "auth_run demo_auth_env [Oauth_start demo_moment]"
  have s: "as_sessions ?s = []" "map_of (as_oauth_states ?s) demo_token = Some (minutes 10)"
    by (simp_all add: auth_run_def start_tables auth_empty_tables demo_started del: state_issued.simps)
  have "callback_admissible demo_auth_env demo_moment demo_headers demo_callback ?s"
    by (simp add: callback_admissible_def demo_callback_def demo_token_valid demo_cookies valid_oauth_code_def
        MAX_OAUTH_CODE_BYTES_def state_live_def s minutes_def) (simp add: demo_moment_def)
  then show ?thesis
    by (simp add: demo_callback_def demo_identity session_created_def s MAX_SESSION_IDENTITY_BYTES_def)
      (simp add: demo_moment_def demo_auth_env_def random_token_def auth_config_default_def config_default_def)
qed

theorem session_provenance_witness:
  "\<exists>u. require_auth demo_auth_env demo_moment ''GET'' demo_headers
      (auth_run demo_auth_env [Oauth_start demo_moment, Oauth_callback demo_moment demo_headers demo_callback]) = Proceed u \<and>
    me_user_id u = ''a@b'' \<and>
    (\<exists>pre sm post. [Oauth_start demo_moment] = pre @ Oauth_start sm # post \<and> cb_state demo_callback = random_token demo_auth_env sm)"
proof -
  let ?rs = "[Oauth_start demo_moment, Oauth_callback demo_moment demo_headers demo_callback]"
  let ?row = "\<lparr>sr_user_id = ''a@b'', sr_display_name = ''a@b'', sr_login_method = ''oauth'', sr_created_at = 0, sr_expires_at = hours 24\<rparr>"
  have "?rs = [Oauth_start demo_moment] @ Oauth_callback demo_moment demo_headers demo_callback # []" by simp
  moreover have "same_origin_request_allowed demo_auth_env ''GET'' demo_headers" "mo_db demo_moment = Committed"
    "mo_db_now demo_moment < sr_expires_at ?row"
    by (simp_all add: same_origin_request_allowed_def safe_method_def demo_moment_def hours_def)
  ultimately have "require_auth demo_auth_env demo_moment ''GET'' demo_headers (auth_run demo_auth_env ?rs) = Proceed (user_of ?row)"
    using session_provenance [of demo_auth_env demo_moment "''GET''" demo_headers ?rs "user_of ?row"] demo_cookies(1) demo_granted
    by (metis untouched.simps(1))
  moreover have "\<exists>pre sm post. [Oauth_start demo_moment] = pre @ Oauth_start sm # post \<and>
      cb_state demo_callback = random_token demo_auth_env sm"
    using session_provenance [of demo_auth_env demo_moment "''GET''" demo_headers "[Oauth_start demo_moment]" _ demo_moment
      demo_headers demo_callback] demo_granted by fastforce
  moreover have "me_user_id (user_of ?row) = ''a@b''" by (simp add: user_of_def)
  ultimately show ?thesis by blast
qed

end
