(* ===== verification/LT_Store.thy ===== *)
theory LT_Store
  imports LT_Archive
begin

text \<open>
  The tables of the trace database: ingestion (\<open>storage/ingest.rs\<close>), and deletion with the
  cascades and triggers of \<open>migrations/\<close> that every deleting statement relies on: an archive
  segment goes with its last record and its file is queued for removal, the minute rollup
  loses exactly what the row had added. The invariant of the tables and its preservation by
  insertion and deletion are at the end. Timestamps are microseconds, the precision of the
  database.
\<close>

section \<open>Tables\<close>

text \<open>Of a trace, the columns that ingestion, retention and rotation read.\<close>

record trace_row =
  rt_id :: uuid
  rt_started_at :: int
  rt_status :: "int option"
  rt_error :: "string option"
  rt_session :: "uuid option"
  rt_ttft_ms :: "int option"
  rt_duration_ms :: "int option"
  rt_request_body_bytes :: int
  rt_response_body_bytes :: int
  rt_inline :: "bytes \<times> bytes"

record trace_session =
  se_key :: string
  se_first_seen :: int
  se_last_seen :: int
  se_user_id :: "string option"
  se_user_name :: "string option"

record rollup_row =
  ru_last_seen :: int
  ru_total :: int
  ru_errors :: int
  ru_captured_bytes :: int
  ru_duration_count :: int
  ru_duration_sum_ms :: int
  ru_ttft_count :: int
  ru_ttft_sum_ms :: int

record message_row =
  mr_request_id :: uuid
  mr_session_id :: uuid
  mr_role :: string
  mr_content :: string
  mr_created_at :: int
  mr_content_truncated :: bool

record file_deletion =
  fd_key :: string
  fd_bytes :: int
  fd_queued_at :: int

record trace_db =
  rd_receipts :: "(uuid \<times> uuid) list"
  rd_traces :: "trace_row list"
  rd_sessions :: "(uuid \<times> trace_session) list"
  rd_messages :: "message_row list"
  rd_rollups :: "(int \<times> rollup_row) list"
  rd_store :: archive_store
  rd_deletions :: "file_deletion list"

definition empty_db :: trace_db where
  "empty_db = \<lparr>rd_receipts = [], rd_traces = [], rd_sessions = [], rd_messages = [], rd_rollups = [],
    rd_store = \<lparr>st_segments = [], st_blobs = [], st_records = [], st_files = []\<rparr>, rd_deletions = []\<rparr>"

definition on_store :: "(archive_store \<Rightarrow> archive_store) \<Rightarrow> trace_db \<Rightarrow> trace_db" where
  "on_store f d = d\<lparr>rd_store := f (rd_store d)\<rparr>"

definition minute_of :: "int \<Rightarrow> int" where
  "minute_of t = t - t mod 60000000"

section \<open>Ingestion\<close>

datatype ingest_error =
  Archive_failure archive_error | Receipt_of_other_journal | Duplicate_trace | Unknown_session | Bigint_out_of_range | Lost_connection

definition pg_bigint :: "int \<Rightarrow> ingest_error + int" where
  "pg_bigint x = (if i64_min \<le> x \<and> x \<le> i64_max then Inr x else Inl Bigint_out_of_range)"

text \<open>Addition of the program's own \<open>i64\<close> values wraps.\<close>

definition i64_add :: "int \<Rightarrow> int \<Rightarrow> int" where
  "i64_add a b = sint (word_of_int (a + b) :: 64 word)"

definition unwrap_or :: "'a \<Rightarrow> 'a option \<Rightarrow> 'a" where
  "unwrap_or a x = (case x of Some b \<Rightarrow> b | None \<Rightarrow> a)"

definition trace_row_of :: "trace_record \<Rightarrow> trace_row" where
  "trace_row_of t =
    \<lparr>rt_id = tr_id t, rt_started_at = tr_started_at t, rt_status = tr_status t, rt_error = tr_error t,
     rt_session = tr_session_id t, rt_ttft_ms = tr_ttft_ms t, rt_duration_ms = tr_duration_ms t,
     rt_request_body_bytes = tr_request_body_bytes t, rt_response_body_bytes = tr_response_body_bytes t,
     rt_inline = ([], [])\<rparr>"

definition session_by_key :: "string \<Rightarrow> trace_db \<Rightarrow> uuid option" where
  "session_by_key key d = map_option fst (find (\<lambda>p. se_key (snd p) = key) (rd_sessions d))"

definition coalesce :: "'a option \<Rightarrow> 'a option \<Rightarrow> 'a option" where
  "coalesce a b = (case a of Some x \<Rightarrow> Some x | None \<Rightarrow> b)"

definition upsert_session ::
  "uuid \<Rightarrow> string \<Rightarrow> string option \<Rightarrow> string option \<Rightarrow> int \<Rightarrow> int \<Rightarrow> trace_db \<Rightarrow> uuid \<times> trace_db" where
  "upsert_session fresh session_key user_id user_name first_seen last_seen d =
    (case session_by_key session_key d of
       None \<Rightarrow> (fresh, d\<lparr>rd_sessions := rd_sessions d @
         [(fresh, \<lparr>se_key = session_key, se_first_seen = first_seen, se_last_seen = last_seen,
            se_user_id = user_id, se_user_name = user_name\<rparr>)]\<rparr>)
     | Some i \<Rightarrow> (i, d\<lparr>rd_sessions := map (\<lambda>(j, r). if j = i
         then (j, r\<lparr>se_first_seen := min (se_first_seen r) first_seen, se_last_seen := max (se_last_seen r) last_seen,
           se_user_id := coalesce (se_user_id r) user_id, se_user_name := coalesce (se_user_name r) user_name\<rparr>)
         else (j, r)) (rd_sessions d)\<rparr>))"

definition row_is_error :: "string option \<Rightarrow> int option \<Rightarrow> bool" where
  "row_is_error err status \<longleftrightarrow> err \<noteq> None \<or> (case status of Some st \<Rightarrow> st \<ge> 400 | None \<Rightarrow> False)"

definition error_count :: "string option \<Rightarrow> int option \<Rightarrow> int" where
  "error_count err status = (if row_is_error err status then 1 else 0)"

definition count_of :: "int option \<Rightarrow> int" where
  "count_of x = (if x \<noteq> None then 1 else 0)"

definition rollup_of :: "trace_record \<Rightarrow> rollup_row" where
  "rollup_of t =
    \<lparr>ru_last_seen = tr_started_at t, ru_total = 1, ru_errors = error_count (tr_error t) (tr_status t),
     ru_captured_bytes = i64_add (tr_request_body_bytes t) (tr_response_body_bytes t),
     ru_duration_count = count_of (tr_duration_ms t), ru_duration_sum_ms = unwrap_or 0 (tr_duration_ms t),
     ru_ttft_count = count_of (tr_ttft_ms t), ru_ttft_sum_ms = unwrap_or 0 (tr_ttft_ms t)\<rparr>"

definition add_rollup :: "rollup_row \<Rightarrow> rollup_row \<Rightarrow> ingest_error + rollup_row" where
  "add_rollup r e =
    bind_res (pg_bigint (ru_total r + ru_total e)) (\<lambda>total_sum.
    bind_res (pg_bigint (ru_errors r + ru_errors e)) (\<lambda>errors.
    bind_res (pg_bigint (ru_captured_bytes r + ru_captured_bytes e)) (\<lambda>captured.
    bind_res (pg_bigint (ru_duration_count r + ru_duration_count e)) (\<lambda>dcount.
    bind_res (pg_bigint (ru_duration_sum_ms r + ru_duration_sum_ms e)) (\<lambda>dsum.
    bind_res (pg_bigint (ru_ttft_count r + ru_ttft_count e)) (\<lambda>tcount.
    bind_res (pg_bigint (ru_ttft_sum_ms r + ru_ttft_sum_ms e)) (\<lambda>tsum.
    Inr \<lparr>ru_last_seen = max (ru_last_seen r) (ru_last_seen e), ru_total = total_sum, ru_errors = errors,
      ru_captured_bytes = captured, ru_duration_count = dcount, ru_duration_sum_ms = dsum,
      ru_ttft_count = tcount, ru_ttft_sum_ms = tsum\<rparr>)))))))"

definition update_rollup :: "trace_record \<Rightarrow> trace_db \<Rightarrow> ingest_error + trace_db" where
  "update_rollup t d =
    (let b = minute_of (tr_started_at t) in
     case map_of (rd_rollups d) b of
       None \<Rightarrow> Inr (d\<lparr>rd_rollups := rd_rollups d @ [(b, rollup_of t)]\<rparr>)
     | Some r \<Rightarrow> bind_res (add_rollup r (rollup_of t)) (\<lambda>r'.
         Inr (d\<lparr>rd_rollups := AList.update b r' (rd_rollups d)\<rparr>)))"

definition message_rows :: "trace_record \<Rightarrow> uuid \<Rightarrow> parsed_message list \<Rightarrow> message_row list" where
  "message_rows t session_id messages =
    map (\<lambda>m. \<lparr>mr_request_id = tr_id t, mr_session_id = session_id, mr_role = pm_role m, mr_content = pm_content m,
      mr_created_at = tr_started_at t, mr_content_truncated = pm_content_truncated m\<rparr>) messages"

text \<open>What the world decides of one transaction: the identifier drawn for a new session,
  the outcome of each file write with the identifier drawn for its segment, and whether the
  transaction commits.\<close>

record ingest_io =
  ii_session :: uuid
  ii_segments :: "(file_write \<times> uuid) list"
  ii_commit :: bool

definition resolve_session ::
  "uuid \<Rightarrow> trace_record \<Rightarrow> string option \<Rightarrow> string option \<Rightarrow> trace_db \<Rightarrow> trace_record \<times> trace_db" where
  "resolve_session fresh t user_id user_name d =
    (case (tr_session_id t, tr_session_key t) of
       (None, Some session_key) \<Rightarrow>
         (case upsert_session fresh session_key user_id user_name (tr_started_at t)
             (unwrap_or (tr_started_at t) (tr_completed_at t)) d of
            (i, d) \<Rightarrow> (t\<lparr>tr_session_id := Some i\<rparr>, d))
     | _ \<Rightarrow> (t, d))"

text \<open>The statements after the receipt; the segment rows refer to their session.\<close>

definition insert_rows ::
  "archive_lib \<Rightarrow> archive_config \<Rightarrow> ingest_io \<Rightarrow> trace_record \<Rightarrow> prepared_segment list \<Rightarrow> parsed_message list
    \<Rightarrow> string option \<Rightarrow> string option \<Rightarrow> uuid option \<Rightarrow> trace_db \<Rightarrow> ingest_error + trace_db" where
  "insert_rows L cfg w t payloads messages user_id user_name journal_id d =
    (case resolve_session (ii_session w) t user_id user_name d of (t, d) \<Rightarrow>
       bind_res (ensure (tr_id t \<notin> rt_id ` set (rd_traces d)) Duplicate_trace) (\<lambda>_.
       let d = d\<lparr>rd_traces := rd_traces d @ [trace_row_of t]\<rparr> in
       bind_res (ensure (case tr_session_id t of Some i \<Rightarrow> i \<in> fst ` set (rd_sessions d) | None \<Rightarrow> True) Unknown_session) (\<lambda>_.
       bind_res (case archive_payloads L cfg journal_id t (ii_segments w) payloads (rd_store d) of
           Inl e \<Rightarrow> Inl (Archive_failure e) | Inr s \<Rightarrow> Inr (d\<lparr>rd_store := s\<rparr>)) (\<lambda>d.
       bind_res (update_rollup t d) (\<lambda>d.
       Inr (case tr_session_id t of
              Some i \<Rightarrow> d\<lparr>rd_messages := rd_messages d @ message_rows t i messages\<rparr>
            | None \<Rightarrow> d))))))"

text \<open>An error rolls the transaction back; the files it had written stay, see \<open>files_left\<close>.\<close>

definition insert_trace_internal ::
  "archive_lib \<Rightarrow> archive_config \<Rightarrow> ingest_io \<Rightarrow> trace_record \<Rightarrow> parsed_message list \<Rightarrow> string option \<Rightarrow> string option
    \<Rightarrow> uuid option \<Rightarrow> trace_db \<Rightarrow> ingest_error + trace_db" where
  "insert_trace_internal L cfg w t messages user_id user_name journal_id d =
    bind_res (case prepare_trace_payloads L cfg t of Inl e \<Rightarrow> Inl (Archive_failure e) | Inr p \<Rightarrow> Inr p) (\<lambda>payloads.
    let insert = insert_rows L cfg w (t\<lparr>tr_request_body := [], tr_response_body := []\<rparr>) payloads messages
          user_id user_name journal_id;
        commit = (\<lambda>d. if ii_commit w then Inr d else Inl Lost_connection)
    in case journal_id of
         None \<Rightarrow> bind_res (insert d) commit
       | Some me \<Rightarrow>
           (case map_of (rd_receipts d) (tr_id t) of
              None \<Rightarrow> bind_res (insert (d\<lparr>rd_receipts := (tr_id t, me) # rd_receipts d\<rparr>)) commit
            | Some owner \<Rightarrow> bind_res (ensure (owner = me) Receipt_of_other_journal) (\<lambda>_. commit d)))"

text \<open>What a transaction that is rolled back after \<open>k\<close> payloads leaves: the files of these
  payloads, without a row.\<close>

definition files_left ::
  "archive_lib \<Rightarrow> archive_config \<Rightarrow> ingest_io \<Rightarrow> trace_record \<Rightarrow> string option \<Rightarrow> string option
    \<Rightarrow> uuid option \<Rightarrow> nat \<Rightarrow> trace_db \<Rightarrow> trace_db" where
  "files_left L cfg w t user_id user_name journal_id k d =
    (case prepare_trace_payloads L cfg t of
       Inl _ \<Rightarrow> d
     | Inr payloads \<Rightarrow>
         (case resolve_session (ii_session w) (t\<lparr>tr_request_body := [], tr_response_body := []\<rparr>) user_id user_name d of (t, _) \<Rightarrow>
           (case archive_payloads L cfg journal_id t (take k (ii_segments w)) (take k payloads) (rd_store d) of
              Inl _ \<Rightarrow> d
            | Inr s \<Rightarrow> d\<lparr>rd_store := (rd_store d)\<lparr>st_files := st_files s\<rparr>\<rparr>)))"

section \<open>Deletion with its cascades\<close>

definition queue_deleted_archive_file :: "int \<Rightarrow> archive_segment \<Rightarrow> trace_db \<Rightarrow> trace_db" where
  "queue_deleted_archive_file now sg d =
    (if as_backend sg = ''filesystem'' \<and> as_key sg \<notin> fd_key ` set (rd_deletions d)
     then d\<lparr>rd_deletions := rd_deletions d @
       [\<lparr>fd_key = as_key sg, fd_bytes = as_compressed_bytes sg, fd_queued_at = now\<rparr>]\<rparr>
     else d)"

definition drop_segment :: "uuid \<Rightarrow> archive_store \<Rightarrow> archive_store" where
  "drop_segment i s =
    s\<lparr>st_segments := filter (\<lambda>p. fst p \<noteq> i) (st_segments s), st_blobs := filter (\<lambda>p. fst p \<noteq> i) (st_blobs s),
      st_records := filter (\<lambda>r. ar_segment_id r \<noteq> i) (st_records s)\<rparr>"

definition delete_segment :: "int \<Rightarrow> uuid \<Rightarrow> trace_db \<Rightarrow> trace_db" where
  "delete_segment now i d =
    (case map_of (st_segments (rd_store d)) i of
       None \<Rightarrow> d
     | Some sg \<Rightarrow> on_store (drop_segment i) (queue_deleted_archive_file now sg d))"

definition referenced :: "uuid \<Rightarrow> archive_store \<Rightarrow> bool" where
  "referenced i s \<longleftrightarrow> list_ex (\<lambda>r. ar_segment_id r = i) (st_records s)"

definition delete_unreferenced_archive_segment :: "int \<Rightarrow> uuid \<Rightarrow> trace_db \<Rightarrow> trace_db" where
  "delete_unreferenced_archive_segment now i d = (if referenced i (rd_store d) then d else delete_segment now i d)"

definition delete_records :: "int \<Rightarrow> (archive_record \<Rightarrow> bool) \<Rightarrow> trace_db \<Rightarrow> trace_db" where
  "delete_records now P d =
    fold (delete_unreferenced_archive_segment now) (map ar_segment_id (filter P (st_records (rd_store d))))
      (on_store (\<lambda>s. s\<lparr>st_records := filter (\<lambda>r. \<not> P r) (st_records s)\<rparr>) d)"

text \<open>The trigger on a deleted row: the maximum is taken over the rows that remain.\<close>

definition subtract_from_rollup :: "trace_row \<Rightarrow> int list \<Rightarrow> rollup_row \<Rightarrow> rollup_row" where
  "subtract_from_rollup t remaining r =
    \<lparr>ru_last_seen = (if ru_last_seen r = rt_started_at t \<and> remaining \<noteq> [] then Max (set remaining) else ru_last_seen r),
     ru_total = max 0 (ru_total r - 1),
     ru_errors = max 0 (ru_errors r - error_count (rt_error t) (rt_status t)),
     ru_captured_bytes = max 0 (ru_captured_bytes r - rt_request_body_bytes t - rt_response_body_bytes t),
     ru_duration_count = max 0 (ru_duration_count r - count_of (rt_duration_ms t)),
     ru_duration_sum_ms = max 0 (ru_duration_sum_ms r - unwrap_or 0 (rt_duration_ms t)),
     ru_ttft_count = max 0 (ru_ttft_count r - count_of (rt_ttft_ms t)),
     ru_ttft_sum_ms = max 0 (ru_ttft_sum_ms r - unwrap_or 0 (rt_ttft_ms t))\<rparr>"

definition remove_deleted_trace_from_rollup :: "trace_row \<Rightarrow> trace_db \<Rightarrow> trace_db" where
  "remove_deleted_trace_from_rollup t d =
    (let b = minute_of (rt_started_at t);
         remaining = filter (\<lambda>u. b \<le> u \<and> u < b + 60000000) (map rt_started_at (rd_traces d))
     in d\<lparr>rd_rollups := filter (\<lambda>p. \<not> (fst p = b \<and> ru_total (snd p) = 0))
       (map (\<lambda>p. if fst p = b then (b, subtract_from_rollup t remaining (snd p)) else p) (rd_rollups d))\<rparr>)"

text \<open>\<open>DELETE FROM request_traces\<close>: the rows go first, then the triggers and cascades of each.\<close>

definition delete_traces :: "int \<Rightarrow> (trace_row \<Rightarrow> bool) \<Rightarrow> trace_db \<Rightarrow> trace_db" where
  "delete_traces now P d =
    (let gone = filter P (rd_traces d);
         d = d\<lparr>rd_traces := filter (\<lambda>t. \<not> P t) (rd_traces d)\<rparr>;
         d = fold remove_deleted_trace_from_rollup gone d;
         d = d\<lparr>rd_messages := filter (\<lambda>m. mr_request_id m \<notin> rt_id ` set gone) (rd_messages d)\<rparr>
     in fold (\<lambda>t. delete_records now (\<lambda>r. ar_trace_id r = rt_id t)) gone d)"

definition delete_session :: "int \<Rightarrow> uuid \<Rightarrow> trace_db \<Rightarrow> trace_db" where
  "delete_session now i d =
    (let d = d\<lparr>rd_sessions := filter (\<lambda>p. fst p \<noteq> i) (rd_sessions d)\<rparr>;
         d = d\<lparr>rd_messages := filter (\<lambda>m. mr_session_id m \<noteq> i) (rd_messages d)\<rparr>;
         d = delete_records now (\<lambda>r. ar_session r = Some i) d
     in fold (delete_segment now)
          (map fst (filter (\<lambda>p. as_session (snd p) = Some i) (st_segments (rd_store d)))) d)"

section \<open>What deletion changes\<close>

text \<open>The tables that removing archive rows leaves alone.\<close>

definition core :: "trace_db \<Rightarrow> trace_db" where
  "core d = d\<lparr>rd_store := rd_store empty_db, rd_deletions := []\<rparr>"

lemma core_eqD:
  assumes "core d' = core d"
  shows "rd_receipts d' = rd_receipts d" "rd_traces d' = rd_traces d" "rd_sessions d' = rd_sessions d"
    "rd_messages d' = rd_messages d" "rd_rollups d' = rd_rollups d"
  using assms by (cases d; cases d'; simp add: core_def)+

lemma core_delete_segment [simp]: "core (delete_segment now i d) = core d"
  by (simp add: delete_segment_def queue_deleted_archive_file_def on_store_def core_def split: option.split)

lemma core_unreferenced [simp]: "core (delete_unreferenced_archive_segment now i d) = core d"
  by (simp add: delete_unreferenced_archive_segment_def)

lemma core_fold: "(\<And>x d. core (f x d) = core d) \<Longrightarrow> core (fold f xs d) = core d"
  by (induction xs arbitrary: d) simp_all

lemma core_on_store [simp]: "core (on_store f d) = core d"
  by (simp add: core_def on_store_def)

lemma core_delete_records [simp]: "core (delete_records now P d) = core d"
  by (simp add: delete_records_def core_fold)

definition segment_live :: "uuid set \<Rightarrow> archive_store \<Rightarrow> uuid \<times> 'a \<Rightarrow> bool" where
  "segment_live ids s p \<longleftrightarrow> fst p \<notin> ids \<or> referenced (fst p) s"

text \<open>Of the segments in \<open>ids\<close>, those no record refers to go, with their blobs; their files are queued.\<close>

definition purged :: "uuid set \<Rightarrow> trace_db \<Rightarrow> trace_db \<Rightarrow> bool" where
  "purged ids d d' \<longleftrightarrow>
    core d' = core d \<and> st_records (rd_store d') = st_records (rd_store d) \<and> st_files (rd_store d') = st_files (rd_store d) \<and>
    st_segments (rd_store d') = filter (segment_live ids (rd_store d)) (st_segments (rd_store d)) \<and>
    (\<forall>j. referenced j (rd_store d) \<longrightarrow> map_of (st_blobs (rd_store d')) j = map_of (st_blobs (rd_store d)) j) \<and>
    fd_key ` set (rd_deletions d) \<subseteq> fd_key ` set (rd_deletions d') \<and>
    fd_key ` set (rd_deletions d') \<subseteq> fd_key ` set (rd_deletions d) \<union>
      {as_key (snd p) |p. p \<in> set (st_segments (rd_store d)) \<and> \<not> segment_live ids (rd_store d) p \<and> as_backend (snd p) = ''filesystem''}"

lemma referenced_iff: "referenced i s \<longleftrightarrow> i \<in> ar_segment_id ` set (st_records s)"
  by (auto simp: referenced_def list_ex_iff)

lemma purged_unreferenced: "purged {i} d (delete_unreferenced_archive_segment now i d)"
proof (cases "referenced i (rd_store d)")
  case True
  then have "segment_live {i} (rd_store d) p" for p :: "uuid \<times> archive_segment" by (auto simp: segment_live_def)
  with True show ?thesis by (simp add: delete_unreferenced_archive_segment_def purged_def)
next
  case False
  then have segment_live: "segment_live {i} (rd_store d) = (\<lambda>p :: uuid \<times> archive_segment. fst p \<noteq> i)" by (auto simp: segment_live_def)
  have recs: "filter (\<lambda>r. ar_segment_id r \<noteq> i) (st_records (rd_store d)) = st_records (rd_store d)"
    using False by (auto simp: referenced_iff filter_id_conv)
  show ?thesis
  proof (cases "map_of (st_segments (rd_store d)) i")
    case None
    then have "filter (\<lambda>p. fst p \<noteq> i) (st_segments (rd_store d)) = st_segments (rd_store d)"
      by (auto simp: filter_id_conv map_of_eq_None_iff)
    with None False show ?thesis
      by (simp add: delete_unreferenced_archive_segment_def delete_segment_def purged_def segment_live)
  next
    case (Some sg)
    then have "(i, sg) \<in> set (st_segments (rd_store d))" by (rule map_of_SomeD)
    moreover have "map_of (filter (\<lambda>p. fst p \<noteq> i) (st_blobs (rd_store d))) j = map_of (st_blobs (rd_store d)) j"
      if "referenced j (rd_store d)" for j using that False map_of_filter_neq [of j i] by (cases "j = i") simp_all
    ultimately show ?thesis using False Some recs
      by (auto simp: delete_unreferenced_archive_segment_def delete_segment_def purged_def segment_live on_store_def
          drop_segment_def queue_deleted_archive_file_def core_def)
  qed
qed

lemma purged_empty: "purged {} d d"
  by (simp add: purged_def segment_live_def)

lemma purged_trans:
  assumes "purged A d d'" "purged B d' d''"
  shows "purged (A \<union> B) d d''"
proof -
  have r: "referenced j (rd_store d') = referenced j (rd_store d)" for j using assms(1) by (simp add: purged_def referenced_def)
  have l: "segment_live (A \<union> B) (rd_store d) = (\<lambda>p :: uuid \<times> archive_segment. segment_live A (rd_store d) p \<and> segment_live B (rd_store d') p)"
    by (auto simp: segment_live_def r)
  have segs: "st_segments (rd_store d'') = filter (segment_live (A \<union> B) (rd_store d)) (st_segments (rd_store d))"
    using assms by (simp add: purged_def l)
  have "fd_key ` set (rd_deletions d'') \<subseteq> fd_key ` set (rd_deletions d) \<union>
      {as_key (snd p) |p. p \<in> set (st_segments (rd_store d)) \<and> \<not> segment_live (A \<union> B) (rd_store d) p \<and> as_backend (snd p) = ''filesystem''}"
  proof
    fix k assume "k \<in> fd_key ` set (rd_deletions d'')"
    then consider "k \<in> fd_key ` set (rd_deletions d')" |
      p where "k = as_key (snd p)" "p \<in> set (st_segments (rd_store d'))" "\<not> segment_live B (rd_store d') p" "as_backend (snd p) = ''filesystem''"
      using assms(2) unfolding purged_def by blast
    then show "k \<in> fd_key ` set (rd_deletions d) \<union>
      {as_key (snd p) |p. p \<in> set (st_segments (rd_store d)) \<and> \<not> segment_live (A \<union> B) (rd_store d) p \<and> as_backend (snd p) = ''filesystem''}"
    proof cases
      case 1
      with assms(1) show ?thesis unfolding purged_def l by blast
    next
      case 2
      then have "p \<in> set (st_segments (rd_store d))" using assms(1) by (simp add: purged_def)
      with 2 show ?thesis unfolding l by blast
    qed
  qed
  moreover have "fd_key ` set (rd_deletions d) \<subseteq> fd_key ` set (rd_deletions d'')"
    using assms unfolding purged_def by (elim conjE) (rule subset_trans)
  ultimately show ?thesis using assms segs r by (simp add: purged_def)
qed

lemma purged_fold: "purged (set ids) d (fold (delete_unreferenced_archive_segment now) ids d)"
proof (induction ids arbitrary: d)
  case Nil
  show ?case by (simp add: purged_empty)
next
  case (Cons i ids)
  show ?case using purged_trans [OF purged_unreferenced Cons.IH] by simp
qed

lemma purged_segments:
  assumes "\<And>i. i \<in> set ids \<Longrightarrow> \<not> referenced i (rd_store d)"
  shows "purged (set ids) d (fold (delete_segment now) ids d)"
proof -
  have "fold (delete_segment now) ids d = fold (delete_unreferenced_archive_segment now) ids d"
    using assms
  proof (induction ids arbitrary: d)
    case (Cons i ids)
    have eq: "delete_segment now i d = delete_unreferenced_archive_segment now i d"
      using Cons.prems by (simp add: delete_unreferenced_archive_segment_def)
    have "\<not> referenced j (rd_store (delete_segment now i d))" if "j \<in> set ids" for j
      using Cons.prems that purged_unreferenced [of i d now] unfolding eq by (simp add: purged_def referenced_def)
    then show ?case using Cons.IH [of "delete_segment now i d"] by (simp add: eq)
  qed simp
  then show ?thesis by (simp add: purged_fold)
qed

section \<open>The bodies of the traces that stay\<close>

lemma decode_segment_cong:
  assumes "map_of (st_blobs s') (fst p) = map_of (st_blobs s) (fst p)"
    and "as_backend (snd p) = ''filesystem'' \<Longrightarrow> map_of (st_files s') (as_key (snd p)) = map_of (st_files s) (as_key (snd p))"
  shows "decode_segment L s' p = decode_segment L s p"
proof -
  have "read_archive_file (as_key (snd p)) s' = read_archive_file (as_key (snd p)) s" if "as_backend (snd p) = ''filesystem''"
    using assms(2) [OF that] archive_file_path_id [of "as_key (snd p)"]
    by (cases "archive_file_path (as_key (snd p))") (simp_all add: read_archive_file_def)
  then show ?thesis by (simp add: decode_segment_def assms(1))
qed

definition own_segments :: "uuid \<Rightarrow> archive_store \<Rightarrow> (uuid \<times> archive_segment) list" where
  "own_segments i s = filter (\<lambda>p. fst p \<in> ar_segment_id ` set (trace_records i s)) (st_segments s)"

definition same_bodies :: "uuid \<Rightarrow> archive_store \<Rightarrow> archive_store \<Rightarrow> bool" where
  "same_bodies i s s' \<longleftrightarrow> (\<forall>L inl obs tr. load_trace_bodies L s' i inl obs tr = load_trace_bodies L s i inl obs tr)"

lemma same_bodies_refl [simp]: "same_bodies i s s"
  by (simp add: same_bodies_def)

lemma same_bodies_trans: "same_bodies i s s' \<Longrightarrow> same_bodies i s' s'' \<Longrightarrow> same_bodies i s s''"
  by (simp add: same_bodies_def)

lemma same_bodiesI:
  assumes "trace_records i s' = trace_records i s" "own_segments i s' = own_segments i s"
    and "\<And>p. p \<in> set (own_segments i s) \<Longrightarrow> map_of (st_blobs s') (fst p) = map_of (st_blobs s) (fst p)"
    and "\<And>p. p \<in> set (own_segments i s) \<Longrightarrow> as_backend (snd p) = ''filesystem'' \<Longrightarrow>
      map_of (st_files s') (as_key (snd p)) = map_of (st_files s) (as_key (snd p))"
  shows "same_bodies i s s'"
proof -
  have "decode_bodies L s' rs (own_segments i s) inl obs tr = decode_bodies L s rs (own_segments i s) inl obs tr"
    for L rs inl obs tr
    by (intro decode_bodies_cong decode_segment_cong assms(3,4))
  then show ?thesis using assms(1,2) by (simp add: same_bodies_def load_trace_bodies_def own_segments_def Let_def)
qed

lemma own_segment_referenced: "p \<in> set (own_segments i s) \<Longrightarrow> p \<in> set (st_segments s) \<and> referenced (fst p) s"
  by (auto simp: own_segments_def referenced_iff trace_records_def)

lemma own_segments_live: "filter (segment_live ids s) (st_segments s) = st_segments s' \<Longrightarrow> st_records s' = st_records s \<Longrightarrow>
    own_segments i s' = own_segments i s"
proof -
  assume a: "filter (segment_live ids s) (st_segments s) = st_segments s'" "st_records s' = st_records s"
  have t: "trace_records i s' = trace_records i s" by (simp add: trace_records_def a(2))
  have "ar_segment_id ` set (trace_records i s) \<subseteq> ar_segment_id ` set (st_records s)" by (auto simp: trace_records_def)
  then show ?thesis
    unfolding own_segments_def t a(1) [symmetric] filter_filter
    by (intro filter_cong refl) (auto simp: segment_live_def referenced_iff)
qed

text \<open>The part of the invariant that concerns the archive.\<close>

definition archive_wf :: "trace_db \<Rightarrow> bool" where
  "archive_wf d \<longleftrightarrow> store_wf (rd_store d) \<and> keys_separate (rd_store d) \<and>
    (\<forall>p\<in>set (st_segments (rd_store d)). as_backend (snd p) = ''filesystem'' \<longrightarrow> as_key (snd p) \<notin> fd_key ` set (rd_deletions d)) \<and>
    (\<forall>r\<in>set (st_records (rd_store d)). \<forall>p\<in>set (st_segments (rd_store d)).
      fst p = ar_segment_id r \<longrightarrow> as_session (snd p) = ar_session r)"

lemma archive_wfD:
  assumes "archive_wf d"
  shows "store_wf (rd_store d)" "keys_separate (rd_store d)"
    "\<And>p. p \<in> set (st_segments (rd_store d)) \<Longrightarrow> as_backend (snd p) = ''filesystem'' \<Longrightarrow> as_key (snd p) \<notin> fd_key ` set (rd_deletions d)"
    "\<And>r p. r \<in> set (st_records (rd_store d)) \<Longrightarrow> p \<in> set (st_segments (rd_store d)) \<Longrightarrow> fst p = ar_segment_id r \<Longrightarrow>
      as_session (snd p) = ar_session r"
  using assms unfolding archive_wf_def by blast+

lemma purged_bodies:
  assumes "purged ids d d'"
  shows "same_bodies i (rd_store d) (rd_store d')"
proof (rule same_bodiesI)
  show "trace_records i (rd_store d') = trace_records i (rd_store d)" using assms by (simp add: purged_def trace_records_def)
  show "own_segments i (rd_store d') = own_segments i (rd_store d)"
    by (rule own_segments_live [of ids]) (use assms in \<open>simp_all add: purged_def\<close>)
  show "map_of (st_blobs (rd_store d')) (fst p) = map_of (st_blobs (rd_store d)) (fst p)"
    if "p \<in> set (own_segments i (rd_store d))" for p
    using assms own_segment_referenced [OF that] by (simp add: purged_def)
  show "map_of (st_files (rd_store d')) (as_key (snd p)) = map_of (st_files (rd_store d)) (as_key (snd p))" for p
    using assms by (simp add: purged_def)
qed

lemma store_wf_live:
  assumes "store_wf s" "st_segments s' = filter (segment_live ids s) (st_segments s)" "st_records s' = st_records s"
  shows "store_wf s'"
proof -
  have "ar_segment_id r \<in> fst ` set (filter (segment_live ids s) (st_segments s))" if r: "r \<in> set (st_records s)" for r
  proof -
    have "ar_segment_id r \<in> fst ` set (st_segments s)" using assms(1) r by (auto simp: store_wf_def)
    then obtain p where p: "p \<in> set (st_segments s)" "fst p = ar_segment_id r" by force
    then have "segment_live ids s p" using r by (simp add: segment_live_def referenced_iff)
    with p have "p \<in> set (filter (segment_live ids s) (st_segments s))" by simp
    with p(2) show ?thesis by (metis image_eqI)
  qed
  moreover have "distinct (map fst (filter (segment_live ids s) (st_segments s)))"
    using assms(1) by (simp add: store_wf_def distinct_map_filter)
  ultimately show ?thesis using assms(2,3) by (simp add: store_wf_def image_subset_iff)
qed

lemma archive_wf_fewer_records:
  assumes wf: "archive_wf d" and recs: "set (st_records (rd_store d')) \<subseteq> set (st_records (rd_store d))"
    and eq: "st_segments (rd_store d') = st_segments (rd_store d)" "rd_deletions d' = rd_deletions d"
  shows "archive_wf d'"
proof -
  have "store_wf (rd_store d')" using archive_wfD(1) [OF wf] recs unfolding store_wf_def eq by blast
  moreover have "keys_separate (rd_store d')" using archive_wfD(2) [OF wf] unfolding keys_separate_def eq .
  moreover have "as_session (snd p) = ar_session r" if "r \<in> set (st_records (rd_store d'))"
    "p \<in> set (st_segments (rd_store d'))" "fst p = ar_segment_id r" for r p
    using archive_wfD(4) [OF wf, of r p] that recs eq(1) by auto
  ultimately show ?thesis using archive_wfD(3) [OF wf] unfolding archive_wf_def eq by blast
qed

lemma purged_wf:
  assumes wf: "archive_wf d" and p: "purged ids d d'"
  shows "archive_wf d'"
proof -
  have segs: "st_segments (rd_store d') = filter (segment_live ids (rd_store d)) (st_segments (rd_store d))"
    and recs: "st_records (rd_store d') = st_records (rd_store d)"
    and keys: "fd_key ` set (rd_deletions d') \<subseteq> fd_key ` set (rd_deletions d) \<union>
      {as_key (snd p) |p. p \<in> set (st_segments (rd_store d)) \<and> \<not> segment_live ids (rd_store d) p \<and> as_backend (snd p) = ''filesystem''}"
    using p unfolding purged_def by blast+
  have "store_wf (rd_store d')"
    by (rule store_wf_live [OF _ segs recs]) (use wf in \<open>simp add: archive_wf_def\<close>)
  moreover have "keys_separate (rd_store d')"
    using archive_wfD(2) [OF wf] unfolding keys_separate_def segs set_filter by blast
  moreover have "as_key (snd p) \<notin> fd_key ` set (rd_deletions d')"
    if "p \<in> set (st_segments (rd_store d'))" "as_backend (snd p) = ''filesystem''" for p
  proof
    assume "as_key (snd p) \<in> fd_key ` set (rd_deletions d')"
    moreover have p: "p \<in> set (st_segments (rd_store d))" "segment_live ids (rd_store d) p" using that(1) by (simp_all add: segs)
    moreover have "as_key (snd p) \<notin> fd_key ` set (rd_deletions d)" by (rule archive_wfD(3) [OF wf p(1) that(2)])
    ultimately obtain q where q: "as_key (snd p) = as_key (snd q)" "q \<in> set (st_segments (rd_store d))"
      "\<not> segment_live ids (rd_store d) q" "as_backend (snd q) = ''filesystem''"
      using keys by blast
    with p(1) q that(2) archive_wfD(2) [OF wf] have "fst p = fst q" unfolding keys_separate_def by blast
    then show False using p(2) q(3) by (simp add: segment_live_def)
  qed
  moreover have "\<forall>r\<in>set (st_records (rd_store d')). \<forall>p\<in>set (st_segments (rd_store d')).
      fst p = ar_segment_id r \<longrightarrow> as_session (snd p) = ar_session r"
    using archive_wfD(4) [OF wf] unfolding segs recs set_filter by blast
  ultimately show ?thesis unfolding archive_wf_def by blast
qed

lemma delete_records_wf:
  assumes wf: "archive_wf d"
  shows "archive_wf (delete_records now P d)"
    and "st_records (rd_store (delete_records now P d)) = filter (\<lambda>r. \<not> P r) (st_records (rd_store d))"
    and "st_files (rd_store (delete_records now P d)) = st_files (rd_store d)"
    and "set (st_segments (rd_store (delete_records now P d))) \<subseteq> set (st_segments (rd_store d))"
    and "(\<And>r. r \<in> set (st_records (rd_store d)) \<Longrightarrow> P r \<Longrightarrow> ar_trace_id r \<noteq> i) \<Longrightarrow>
      same_bodies i (rd_store d) (rd_store (delete_records now P d))"
proof -
  define d1 where "d1 = on_store (\<lambda>s. s\<lparr>st_records := filter (\<lambda>r. \<not> P r) (st_records s)\<rparr>) d"
  have d1: "st_records (rd_store d1) = filter (\<lambda>r. \<not> P r) (st_records (rd_store d))"
    "st_segments (rd_store d1) = st_segments (rd_store d)" "st_blobs (rd_store d1) = st_blobs (rd_store d)"
    "st_files (rd_store d1) = st_files (rd_store d)" "rd_deletions d1 = rd_deletions d"
    by (simp_all add: d1_def on_store_def)
  have "archive_wf d1" by (rule archive_wf_fewer_records [OF wf]) (auto simp: d1)
  define ids where "ids = map ar_segment_id (filter P (st_records (rd_store d)))"
  have p: "purged (set ids) d1 (delete_records now P d)"
    unfolding delete_records_def d1_def [symmetric] ids_def [symmetric] by (rule purged_fold)
  show "archive_wf (delete_records now P d)" by (rule purged_wf [OF \<open>archive_wf d1\<close> p])
  show "st_records (rd_store (delete_records now P d)) = filter (\<lambda>r. \<not> P r) (st_records (rd_store d))"
    "st_files (rd_store (delete_records now P d)) = st_files (rd_store d)"
    "set (st_segments (rd_store (delete_records now P d))) \<subseteq> set (st_segments (rd_store d))"
    using p by (simp_all add: purged_def d1)
  assume "\<And>r. r \<in> set (st_records (rd_store d)) \<Longrightarrow> P r \<Longrightarrow> ar_trace_id r \<noteq> i"
  then have t: "trace_records i (rd_store d1) = trace_records i (rd_store d)"
    unfolding trace_records_def d1 filter_filter by (intro filter_cong) auto
  have "same_bodies i (rd_store d) (rd_store d1)"
    by (rule same_bodiesI) (simp_all add: t own_segments_def d1)
  then show "same_bodies i (rd_store d) (rd_store (delete_records now P d))"
    by (rule same_bodies_trans) (rule purged_bodies [OF p])
qed

section \<open>Rollups\<close>

definition in_minute :: "int \<Rightarrow> trace_row list \<Rightarrow> trace_row list" where
  "in_minute b ts = filter (\<lambda>t. minute_of (rt_started_at t) = b) ts"

definition errors_of :: "trace_row \<Rightarrow> int" where
  "errors_of t = error_count (rt_error t) (rt_status t)"

definition captured_of :: "trace_row \<Rightarrow> int" where
  "captured_of t = rt_request_body_bytes t + rt_response_body_bytes t"

text \<open>The reference: the row of a minute computed from the traces that started in it.\<close>

definition aggregate :: "trace_row list \<Rightarrow> rollup_row" where
  "aggregate ts =
    \<lparr>ru_last_seen = Max (rt_started_at ` set ts), ru_total = int (length ts),
     ru_errors = sum_list (map errors_of ts), ru_captured_bytes = sum_list (map captured_of ts),
     ru_duration_count = sum_list (map (count_of \<circ> rt_duration_ms) ts),
     ru_duration_sum_ms = sum_list (map (unwrap_or 0 \<circ> rt_duration_ms) ts),
     ru_ttft_count = sum_list (map (count_of \<circ> rt_ttft_ms) ts),
     ru_ttft_sum_ms = sum_list (map (unwrap_or 0 \<circ> rt_ttft_ms) ts)\<rparr>"

definition rollups_exact :: "trace_db \<Rightarrow> bool" where
  "rollups_exact d \<longleftrightarrow> distinct (map fst (rd_rollups d)) \<and>
    (\<forall>b. map_of (rd_rollups d) b =
      (let ts = in_minute b (rd_traces d) in if ts = [] then None else Some (aggregate ts)))"

text \<open>Sizes and durations are not negative, and the two bodies together have a 64-bit size.\<close>

definition row_ok :: "trace_row \<Rightarrow> bool" where
  "row_ok t \<longleftrightarrow> 0 \<le> rt_request_body_bytes t \<and> 0 \<le> rt_response_body_bytes t \<and>
    rt_request_body_bytes t + rt_response_body_bytes t \<le> i64_max \<and>
    0 \<le> unwrap_or 0 (rt_duration_ms t) \<and> 0 \<le> unwrap_or 0 (rt_ttft_ms t)"

text \<open>The row of a minute while the triggers of a deletion run: \<open>K\<close> stays, \<open>G\<close> is deleted
  and not yet subtracted.\<close>

definition between :: "trace_row list \<Rightarrow> trace_row list \<Rightarrow> rollup_row \<Rightarrow> bool" where
  "between K G r \<longleftrightarrow> r\<lparr>ru_last_seen := 0\<rparr> = (aggregate (G @ K))\<lparr>ru_last_seen := 0\<rparr> \<and>
    (K \<noteq> [] \<longrightarrow> ru_last_seen r = Max (rt_started_at ` set K) \<or> ru_last_seen r \<in> rt_started_at ` set G)"

lemma aggregate_between:
  assumes "K \<noteq> []"
  shows "between K G (aggregate (G @ K))"
proof -
  have "Max (rt_started_at ` set (G @ K)) \<in> rt_started_at ` set (G @ K)" using assms by (intro Max_in) auto
  moreover have "Max (rt_started_at ` set (G @ K)) = Max (rt_started_at ` set K)"
    if "Max (rt_started_at ` set (G @ K)) \<in> rt_started_at ` set K"
    using that assms by (intro antisym Max_ge Max_mono) auto
  ultimately show ?thesis by (auto simp: between_def aggregate_def image_Un)
qed

lemma between_done: "K \<noteq> [] \<Longrightarrow> between K [] r \<Longrightarrow> r = aggregate K"
  by (cases r) (simp add: between_def aggregate_def)

lemma sum_list_nonneg_map: "(\<And>t. t \<in> set ts \<Longrightarrow> 0 \<le> f t) \<Longrightarrow> 0 \<le> sum_list (map f ts)" for f :: "_ \<Rightarrow> int"
  by (induction ts) simp_all

lemma aggregate_nonneg:
  assumes "\<And>t. t \<in> set ts \<Longrightarrow> row_ok t"
  shows "0 \<le> sum_list (map errors_of ts)" "0 \<le> sum_list (map captured_of ts)"
    "0 \<le> sum_list (map (count_of \<circ> rt_duration_ms) ts)" "0 \<le> sum_list (map (unwrap_or 0 \<circ> rt_duration_ms) ts)"
    "0 \<le> sum_list (map (count_of \<circ> rt_ttft_ms) ts)" "0 \<le> sum_list (map (unwrap_or 0 \<circ> rt_ttft_ms) ts)"
  using assms by (intro sum_list_nonneg_map; force simp: row_ok_def errors_of_def error_count_def captured_of_def count_of_def)+

lemma between_step:
  assumes "between K (g # G) r" "\<And>t. t \<in> set G \<union> set K \<Longrightarrow> row_ok t" "set remaining = rt_started_at ` set K"
  shows "between K G (subtract_from_rollup g remaining r)"
proof -
  have rem: "remaining = [] \<longleftrightarrow> K = []" using assms(3) by (metis image_is_empty set_empty)
  have ok: "\<And>t. t \<in> set (G @ K) \<Longrightarrow> row_ok t" using assms(2) by simp
  note nonneg = aggregate_nonneg [of "G @ K", OF ok]
  have f: "ru_total r = 1 + int (length (G @ K))" "ru_errors r = errors_of g + sum_list (map errors_of (G @ K))"
    "ru_captured_bytes r = captured_of g + sum_list (map captured_of (G @ K))"
    "ru_duration_count r = count_of (rt_duration_ms g) + sum_list (map (count_of \<circ> rt_duration_ms) (G @ K))"
    "ru_duration_sum_ms r = unwrap_or 0 (rt_duration_ms g) + sum_list (map (unwrap_or 0 \<circ> rt_duration_ms) (G @ K))"
    "ru_ttft_count r = count_of (rt_ttft_ms g) + sum_list (map (count_of \<circ> rt_ttft_ms) (G @ K))"
    "ru_ttft_sum_ms r = unwrap_or 0 (rt_ttft_ms g) + sum_list (map (unwrap_or 0 \<circ> rt_ttft_ms) (G @ K))"
    using assms(1) unfolding between_def aggregate_def by (cases r, simp)+
  have "(subtract_from_rollup g remaining r)\<lparr>ru_last_seen := 0\<rparr> = (aggregate (G @ K))\<lparr>ru_last_seen := 0\<rparr>"
    using nonneg by (simp add: subtract_from_rollup_def aggregate_def f errors_of_def [symmetric] captured_of_def
        max_absorb2 del: map_append sum_list_append)
  moreover have "ru_last_seen (subtract_from_rollup g remaining r) = Max (rt_started_at ` set K) \<or>
      ru_last_seen (subtract_from_rollup g remaining r) \<in> rt_started_at ` set G" if "K \<noteq> []"
  proof (cases "ru_last_seen r = rt_started_at g")
    case True
    with that show ?thesis by (simp add: subtract_from_rollup_def rem assms(3))
  next
    case False
    with assms(1) that show ?thesis by (auto simp: between_def subtract_from_rollup_def)
  qed
  ultimately show ?thesis by (simp add: between_def)
qed

lemma minute_of_iff: "minute_of u = minute_of x \<longleftrightarrow> minute_of x \<le> u \<and> u < minute_of x + 60000000"
proof
  assume "minute_of u = minute_of x"
  then show "minute_of x \<le> u \<and> u < minute_of x + 60000000"
    using pos_mod_bound [of 60000000 u] pos_mod_sign [of 60000000 u] unfolding minute_of_def by linarith
next
  define q where "q = x div 60000000"
  have x: "minute_of x = 60000000 * q" by (simp add: minute_of_def q_def minus_mod_eq_mult_div)
  assume "minute_of x \<le> u \<and> u < minute_of x + 60000000"
  then obtain r where r: "u = 60000000 * q + r" "0 \<le> r" "r < 60000000"
    using x by (metis add.commute add_diff_cancel_left' diff_add_cancel diff_ge_0_iff_ge add_less_cancel_left)
  then have "u mod 60000000 = r" by simp
  then show "minute_of u = minute_of x" using r(1) x by (simp add: minute_of_def)
qed

text \<open>The table while the triggers of a deletion run.\<close>

definition between_table :: "trace_row list \<Rightarrow> trace_row list \<Rightarrow> (int \<times> rollup_row) list \<Rightarrow> bool" where
  "between_table K G rolls \<longleftrightarrow> distinct (map fst rolls) \<and>
    (\<forall>b. case map_of rolls b of
       None \<Rightarrow> in_minute b (G @ K) = []
     | Some r \<Rightarrow> in_minute b (G @ K) \<noteq> [] \<and> between (in_minute b K) (in_minute b G) r)"

lemma between_tableD:
  assumes "between_table K G rolls"
  shows "map_of rolls b = None \<Longrightarrow> in_minute b (G @ K) = []"
    and "map_of rolls b = Some r \<Longrightarrow> in_minute b (G @ K) \<noteq> []"
    and "map_of rolls b = Some r \<Longrightarrow> between (in_minute b K) (in_minute b G) r"
proof -
  have "case map_of rolls b of None \<Rightarrow> in_minute b (G @ K) = []
     | Some r \<Rightarrow> in_minute b (G @ K) \<noteq> [] \<and> between (in_minute b K) (in_minute b G) r"
    using assms unfolding between_table_def by blast
  then show "map_of rolls b = None \<Longrightarrow> in_minute b (G @ K) = []" "map_of rolls b = Some r \<Longrightarrow> in_minute b (G @ K) \<noteq> []"
    "map_of rolls b = Some r \<Longrightarrow> between (in_minute b K) (in_minute b G) r" by simp_all
qed

lemma map_of_update_drop:
  assumes "distinct (map fst al)"
  shows "map_of (filter (\<lambda>p. \<not> (fst p = b \<and> Q (snd p))) (map (\<lambda>p. if fst p = b then (b, f (snd p)) else p) al)) c =
    (if c = b then (case map_of al b of None \<Rightarrow> None | Some r \<Rightarrow> if Q (f r) then None else Some (f r)) else map_of al c)"
    (is "map_of (?F al) c = ?R al")
  using assms
proof (induction al)
  case (Cons p al)
  then have IH: "map_of (?F al) c = ?R al" by simp
  show ?case
  proof (cases "fst p = b")
    case True
    then have "map_of al b = None" using Cons.prems by (simp add: map_of_eq_None_iff)
    then show ?thesis using IH True by (cases "c = b") (simp_all add: split_pairs)
  next
    case False
    then show ?thesis using IH by (cases "c = b") (simp_all add: split_pairs)
  qed
qed simp

lemma distinct_update_drop:
  "distinct (map fst al) \<Longrightarrow>
    distinct (map fst (filter P (map (\<lambda>p. if fst p = b then (b, f (snd p)) else p) al)))"
proof -
  have "map fst (map (\<lambda>p. if fst p = b then (b, f (snd p)) else p) al) = map fst al" by simp
  then show "distinct (map fst al) \<Longrightarrow> ?thesis" by (intro distinct_map_filter) metis
qed

lemma in_minute_Cons:
  "in_minute b (t # ts) = (if minute_of (rt_started_at t) = b then t # in_minute b ts else in_minute b ts)"
  by (simp add: in_minute_def)

lemma in_minute_append: "in_minute b (xs @ ys) = in_minute b xs @ in_minute b ys"
  by (simp add: in_minute_def)

lemma between_table_step:
  assumes t: "between_table K (g # G) (rd_rollups d)" and d: "rd_traces d = K" and ok: "\<And>t. t \<in> set G \<union> set K \<Longrightarrow> row_ok t"
  shows "between_table K G (rd_rollups (remove_deleted_trace_from_rollup g d))"
proof -
  define b where "b = minute_of (rt_started_at g)"
  define remaining where "remaining = filter (\<lambda>u. b \<le> u \<and> u < b + 60000000) (map rt_started_at K)"
  have rem: "set remaining = rt_started_at ` set (in_minute b K)"
    by (auto simp: remaining_def in_minute_def b_def minute_of_iff)
  define f where "f = subtract_from_rollup g remaining"
  have rolls: "rd_rollups (remove_deleted_trace_from_rollup g d) =
      filter (\<lambda>p. \<not> (fst p = b \<and> ru_total (snd p) = 0)) (map (\<lambda>p. if fst p = b then (b, f (snd p)) else p) (rd_rollups d))"
    unfolding remove_deleted_trace_from_rollup_def b_def [symmetric] d Let_def remaining_def [symmetric] f_def [symmetric]
    by simp
  have dist: "distinct (map fst (rd_rollups d))" using t by (simp add: between_table_def)
  note look = map_of_update_drop [OF dist, of b "\<lambda>r. ru_total r = 0" f]
  obtain r where r: "map_of (rd_rollups d) b = Some r" "between (in_minute b K) (g # in_minute b G) r"
  proof (cases "map_of (rd_rollups d) b")
    case None
    from between_tableD(1) [OF t this] show ?thesis by (simp add: in_minute_Cons b_def)
  next
    case (Some r)
    from between_tableD(3) [OF t this] show ?thesis using Some that by (simp add: in_minute_Cons b_def)
  qed
  have step: "between (in_minute b K) (in_minute b G) (f r)"
    unfolding f_def by (rule between_step [OF r(2) _ rem]) (use ok in \<open>auto simp: in_minute_def\<close>)
  have total: "ru_total (f r) = int (length (in_minute b G @ in_minute b K))"
    using step unfolding between_def aggregate_def by (cases "f r") simp
  have zero: "ru_total (f r) = 0 \<longleftrightarrow> in_minute b (G @ K) = []"
    unfolding total in_minute_append of_nat_eq_0_iff length_0_conv ..
  have "case map_of (rd_rollups (remove_deleted_trace_from_rollup g d)) c of
       None \<Rightarrow> in_minute c (G @ K) = []
     | Some r \<Rightarrow> in_minute c (G @ K) \<noteq> [] \<and> between (in_minute c K) (in_minute c G) r" for c
  proof (cases "c = b")
    case True
    then show ?thesis using r(1) step zero unfolding rolls look by simp
  next
    case False
    then have same: "in_minute c (g # G) = in_minute c G" "in_minute c ((g # G) @ K) = in_minute c (G @ K)"
      by (simp_all add: in_minute_Cons b_def)
    show ?thesis using False between_tableD [OF t, of c] unfolding rolls look same by (simp split: option.split)
  qed
  moreover have "distinct (map fst (rd_rollups (remove_deleted_trace_from_rollup g d)))"
    unfolding rolls by (rule distinct_update_drop [OF dist])
  ultimately show ?thesis by (simp add: between_table_def)
qed

lemma sum_list_partition:
  "sum_list (map f (filter P xs @ filter (\<lambda>x. \<not> P x) xs)) = sum_list (map f xs)" for f :: "_ \<Rightarrow> int"
  by (induction xs) simp_all

lemma aggregate_partition: "aggregate (filter P ts @ filter (\<lambda>t. \<not> P t) ts) = aggregate ts"
proof -
  have "rt_started_at ` set (filter P ts @ filter (\<lambda>t. \<not> P t) ts) = rt_started_at ` set ts" by auto
  moreover have "length (filter P ts @ filter (\<lambda>t. \<not> P t) ts) = length ts" by (simp add: sum_length_filter_compl)
  ultimately show ?thesis unfolding aggregate_def sum_list_partition by simp
qed

lemma in_minute_filter: "in_minute b (filter P ts) = filter P (in_minute b ts)"
  unfolding in_minute_def filter_filter by (rule filter_cong) auto

lemma exact_between:
  assumes "rollups_exact d"
  shows "between_table (filter (\<lambda>t. \<not> P t) (rd_traces d)) (filter P (rd_traces d)) (rd_rollups d)"
proof -
  let ?K = "filter (\<lambda>t. \<not> P t) (rd_traces d)" and ?G = "filter P (rd_traces d)"
  have "case map_of (rd_rollups d) b of None \<Rightarrow> in_minute b (?G @ ?K) = []
     | Some r \<Rightarrow> in_minute b (?G @ ?K) \<noteq> [] \<and> between (in_minute b ?K) (in_minute b ?G) r" for b
  proof -
    let ?ts = "in_minute b (rd_traces d)"
    have m: "in_minute b ?K = filter (\<lambda>t. \<not> P t) ?ts" "in_minute b ?G = filter P ?ts" by (simp_all add: in_minute_filter)
    have e: "?ts = [] \<longleftrightarrow> in_minute b (?G @ ?K) = []"
      unfolding in_minute_append m by (cases ?ts) (auto simp: filter_empty_conv)
    have "between (in_minute b ?K) (in_minute b ?G) (aggregate ?ts)"
    proof (cases "in_minute b ?K = []")
      case True
      have "aggregate ?ts = aggregate (in_minute b ?G @ in_minute b ?K)" unfolding m aggregate_partition ..
      then show ?thesis by (simp add: between_def True)
    next
      case False
      from aggregate_between [OF this, of "in_minute b ?G"] show ?thesis unfolding m aggregate_partition .
    qed
    moreover have "map_of (rd_rollups d) b = (if ?ts = [] then None else Some (aggregate ?ts))"
      using assms by (simp add: rollups_exact_def Let_def)
    ultimately show ?thesis using e by simp
  qed
  then show ?thesis using assms by (simp add: between_table_def rollups_exact_def)
qed

lemma between_exact:
  assumes "between_table (rd_traces d) [] (rd_rollups d)"
  shows "rollups_exact d"
proof -
  have "map_of (rd_rollups d) b = (if in_minute b (rd_traces d) = [] then None else Some (aggregate (in_minute b (rd_traces d))))" for b
  proof (cases "map_of (rd_rollups d) b")
    case None
    from between_tableD(1) [OF assms this] None show ?thesis by simp
  next
    case (Some r)
    from between_tableD(2,3) [OF assms this] Some between_done show ?thesis by (simp add: in_minute_def)
  qed
  then show ?thesis using assms by (simp add: rollups_exact_def between_table_def Let_def)
qed

lemma remove_trigger_traces [simp]: "rd_traces (remove_deleted_trace_from_rollup g d) = rd_traces d"
  by (simp add: remove_deleted_trace_from_rollup_def Let_def)

lemma fold_trigger_table:
  assumes "between_table K G (rd_rollups d)" "rd_traces d = K" "\<And>t. t \<in> set G \<union> set K \<Longrightarrow> row_ok t"
  shows "between_table K [] (rd_rollups (fold remove_deleted_trace_from_rollup G d))"
  using assms
proof (induction G arbitrary: d)
  case (Cons g G)
  have "between_table K G (rd_rollups (remove_deleted_trace_from_rollup g d))"
    by (rule between_table_step [OF Cons.prems(1,2)]) (use Cons.prems(3) in auto)
  from Cons.IH [OF this] show ?case using Cons.prems(2,3) by simp
qed simp

section \<open>The invariant and deletion\<close>

text \<open>Trace and session identifiers are unique, every archive record belongs to a trace of the same session, sessions of
  traces and owners of messages exist; segment files have their own keys, none of them queued for removal.\<close>

definition db_wf :: "trace_db \<Rightarrow> bool" where
  "db_wf d \<longleftrightarrow> archive_wf d \<and> distinct (map rt_id (rd_traces d)) \<and> distinct (map fst (rd_sessions d)) \<and>
    (\<forall>t\<in>set (rd_traces d). row_ok t) \<and>
    (\<forall>r\<in>set (st_records (rd_store d)). \<exists>t\<in>set (rd_traces d). rt_id t = ar_trace_id r \<and> rt_session t = ar_session r) \<and>
    (\<forall>t\<in>set (rd_traces d). \<forall>i. rt_session t = Some i \<longrightarrow> i \<in> fst ` set (rd_sessions d)) \<and>
    (\<forall>m\<in>set (rd_messages d). \<exists>t\<in>set (rd_traces d). rt_id t = mr_request_id m \<and> rt_session t = Some (mr_session_id m))"

lemma db_wfD:
  assumes "db_wf d"
  shows "archive_wf d" "distinct (map rt_id (rd_traces d))" "distinct (map fst (rd_sessions d))"
    "\<And>t. t \<in> set (rd_traces d) \<Longrightarrow> row_ok t"
    "\<And>r. r \<in> set (st_records (rd_store d)) \<Longrightarrow> \<exists>t\<in>set (rd_traces d). rt_id t = ar_trace_id r \<and> rt_session t = ar_session r"
    "\<And>t i. t \<in> set (rd_traces d) \<Longrightarrow> rt_session t = Some i \<Longrightarrow> i \<in> fst ` set (rd_sessions d)"
    "\<And>m. m \<in> set (rd_messages d) \<Longrightarrow> \<exists>t\<in>set (rd_traces d). rt_id t = mr_request_id m \<and> rt_session t = Some (mr_session_id m)"
  using assms unfolding db_wf_def by blast+

text \<open>Archive rows in order: every segment holds a record, its size is not negative, and
  its storage key, like every queued key, is a valid path.\<close>

definition tidy :: "trace_db \<Rightarrow> bool" where
  "tidy d \<longleftrightarrow>
    (\<forall>p\<in>set (st_segments (rd_store d)). referenced (fst p) (rd_store d) \<and> 0 \<le> as_compressed_bytes (snd p) \<and>
      (as_backend (snd p) = ''filesystem'' \<longrightarrow> archive_file_path (as_key (snd p)) = Inr (as_key (snd p)))) \<and>
    (\<forall>k\<in>fd_key ` set (rd_deletions d). archive_file_path k = Inr k)"

lemma tidyD:
  assumes "tidy d" "p \<in> set (st_segments (rd_store d))"
  shows "referenced (fst p) (rd_store d)" "0 \<le> as_compressed_bytes (snd p)"
    "as_backend (snd p) = ''filesystem'' \<Longrightarrow> archive_file_path (as_key (snd p)) = Inr (as_key (snd p))"
  using assms unfolding tidy_def by blast+

lemma tidy_path: "tidy d \<Longrightarrow> f \<in> set (rd_deletions d) \<Longrightarrow> archive_file_path (fd_key f) = Inr (fd_key f)"
  unfolding tidy_def by blast

lemma tidyI:
  assumes "tidy d" "set (st_segments (rd_store d')) \<subseteq> set (st_segments (rd_store d))"
    and "\<And>p. p \<in> set (st_segments (rd_store d')) \<Longrightarrow> referenced (fst p) (rd_store d')"
    and "fd_key ` set (rd_deletions d') \<subseteq> fd_key ` set (rd_deletions d) \<union>
      {as_key (snd p) |p. p \<in> set (st_segments (rd_store d)) \<and> as_backend (snd p) = ''filesystem''}"
  shows "tidy d'"
proof -
  have "archive_file_path k = Inr k" if k: "k \<in> fd_key ` set (rd_deletions d')" for k
  proof -
    consider f where "f \<in> set (rd_deletions d)" "k = fd_key f"
      | p where "p \<in> set (st_segments (rd_store d))" "as_backend (snd p) = ''filesystem''" "k = as_key (snd p)"
      using k assms(4) by blast
    then show ?thesis
    proof cases
      case 1
      from tidy_path [OF assms(1) 1(1)] show ?thesis unfolding 1(2) .
    next
      case 2
      from tidyD(3) [OF assms(1) 2(1,2)] show ?thesis unfolding 2(3) .
    qed
  qed
  moreover have "0 \<le> as_compressed_bytes (snd p) \<and>
      (as_backend (snd p) = ''filesystem'' \<longrightarrow> archive_file_path (as_key (snd p)) = Inr (as_key (snd p)))"
    if "p \<in> set (st_segments (rd_store d'))" for p
    using tidyD(2,3) [OF assms(1)] assms(2) that by blast
  ultimately show ?thesis using assms(3) unfolding tidy_def by blast
qed

lemma purged_tidy:
  assumes "tidy d" "purged ids d d'"
  shows "tidy d' \<and> st_segments (rd_store d') = st_segments (rd_store d)"
proof -
  have "filter (segment_live ids (rd_store d)) (st_segments (rd_store d)) = st_segments (rd_store d)"
    using tidyD(1) [OF assms(1)] by (simp add: filter_id_conv segment_live_def)
  then have segs: "st_segments (rd_store d') = st_segments (rd_store d)" using assms(2) by (simp add: purged_def)
  have "tidy d'"
  proof (rule tidyI [OF assms(1)])
    show "referenced (fst p) (rd_store d')" if "p \<in> set (st_segments (rd_store d'))" for p
      using tidyD(1) [OF assms(1), of p] that assms(2) by (simp add: segs purged_def referenced_def)
    show "fd_key ` set (rd_deletions d') \<subseteq> fd_key ` set (rd_deletions d) \<union>
      {as_key (snd p) |p. p \<in> set (st_segments (rd_store d)) \<and> as_backend (snd p) = ''filesystem''}"
      using assms(2) unfolding purged_def by blast
  qed (simp add: segs)
  with segs show ?thesis by blast
qed

lemma delete_records_tidy:
  assumes "tidy d"
  shows "tidy (delete_records now P d)"
    and "st_segments (rd_store (delete_records now P d)) =
      filter (\<lambda>p. \<exists>r\<in>set (st_records (rd_store d)). ar_segment_id r = fst p \<and> \<not> P r) (st_segments (rd_store d))"
proof -
  define d1 where "d1 = on_store (\<lambda>s. s\<lparr>st_records := filter (\<lambda>r. \<not> P r) (st_records s)\<rparr>) d"
  define ids where "ids = map ar_segment_id (filter P (st_records (rd_store d)))"
  have d1: "st_records (rd_store d1) = filter (\<lambda>r. \<not> P r) (st_records (rd_store d))"
    "st_segments (rd_store d1) = st_segments (rd_store d)" "rd_deletions d1 = rd_deletions d"
    by (simp_all add: d1_def on_store_def)
  have pg: "purged (set ids) d1 (delete_records now P d)"
    unfolding delete_records_def d1_def [symmetric] ids_def [symmetric] by (rule purged_fold)
  have ref1: "referenced i (rd_store d1) \<longleftrightarrow> (\<exists>r\<in>set (st_records (rd_store d)). ar_segment_id r = i \<and> \<not> P r)" for i
    by (auto simp: referenced_iff d1)
  have live: "segment_live (set ids) (rd_store d1) p \<longleftrightarrow> referenced (fst p) (rd_store d1)"
    if "p \<in> set (st_segments (rd_store d))" for p
    using tidyD(1) [OF assms that] unfolding segment_live_def ref1 by (auto simp: referenced_iff ids_def image_iff)
  have "st_segments (rd_store (delete_records now P d)) = filter (segment_live (set ids) (rd_store d1)) (st_segments (rd_store d))"
    using pg by (simp add: purged_def d1)
  also have "\<dots> = filter (\<lambda>p. referenced (fst p) (rd_store d1)) (st_segments (rd_store d))"
    by (rule filter_cong) (simp_all add: live)
  finally have segs: "st_segments (rd_store (delete_records now P d)) =
      filter (\<lambda>p. referenced (fst p) (rd_store d1)) (st_segments (rd_store d))" .
  then show "st_segments (rd_store (delete_records now P d)) =
      filter (\<lambda>p. \<exists>r\<in>set (st_records (rd_store d)). ar_segment_id r = fst p \<and> \<not> P r) (st_segments (rd_store d))"
    unfolding ref1 .
  show "tidy (delete_records now P d)"
  proof (rule tidyI [OF assms])
    show "referenced (fst p) (rd_store (delete_records now P d))"
      if "p \<in> set (st_segments (rd_store (delete_records now P d)))" for p
      using that pg by (simp add: segs purged_def referenced_def)
    show "fd_key ` set (rd_deletions (delete_records now P d)) \<subseteq> fd_key ` set (rd_deletions d) \<union>
      {as_key (snd p) |p. p \<in> set (st_segments (rd_store d)) \<and> as_backend (snd p) = ''filesystem''}"
      using pg unfolding purged_def d1 by blast
  qed (simp add: segs)
qed

lemma tidy_frame: "rd_store d' = rd_store d \<Longrightarrow> rd_deletions d' = rd_deletions d \<Longrightarrow> tidy d' = tidy d"
  by (simp add: tidy_def)

text \<open>A step that removes the traces in \<open>P\<close> and nothing that a trace which stays needs.\<close>

definition removes :: "(trace_row \<Rightarrow> bool) \<Rightarrow> trace_db \<Rightarrow> trace_db \<Rightarrow> bool" where
  "removes P d d' \<longleftrightarrow> db_wf d' \<and> rd_receipts d' = rd_receipts d \<and> rd_traces d' = filter (\<lambda>t. \<not> P t) (rd_traces d) \<and>
    (rollups_exact d \<longrightarrow> rollups_exact d') \<and>
    set (st_segments (rd_store d')) \<subseteq> set (st_segments (rd_store d)) \<and> (tidy d \<longrightarrow> tidy d') \<and>
    (\<forall>t\<in>set (rd_traces d'). same_bodies (rt_id t) (rd_store d) (rd_store d'))"

lemma removesD:
  assumes "removes P d d'"
  shows "db_wf d'" "rd_traces d' = filter (\<lambda>t. \<not> P t) (rd_traces d)"
    "t \<in> set (rd_traces d') \<Longrightarrow> same_bodies (rt_id t) (rd_store d) (rd_store d')"
  using assms unfolding removes_def by blast+

lemma removes_refl: "db_wf d \<Longrightarrow> removes (\<lambda>_. False) d d"
  by (simp add: removes_def)

lemma removes_trans:
  assumes "removes P d d'" "removes Q d' d''"
  shows "removes (\<lambda>t. P t \<or> Q t) d d''"
proof -
  have "rd_traces d'' = filter (\<lambda>t. \<not> (P t \<or> Q t)) (rd_traces d)"
    using removesD(2) [OF assms(1)] removesD(2) [OF assms(2)] by (simp add: conj_commute)
  moreover have "same_bodies (rt_id t) (rd_store d) (rd_store d'')" if t: "t \<in> set (rd_traces d'')" for t
  proof -
    have "t \<in> set (rd_traces d')" using t removesD(2) [OF assms(2)] by simp
    from same_bodies_trans [OF removesD(3) [OF assms(1) this] removesD(3) [OF assms(2) t]] show ?thesis .
  qed
  ultimately show ?thesis using assms unfolding removes_def by auto
qed

lemma rollups_exact_core: "core d' = core d \<Longrightarrow> rollups_exact d' = rollups_exact d"
  using core_eqD(2,5) [of d' d] by (simp add: rollups_exact_def)

lemma same_core_removes:
  assumes wf: "db_wf d" and "core d' = core d" "archive_wf d'"
    and "set (st_records (rd_store d')) \<subseteq> set (st_records (rd_store d))"
    and "\<And>i. same_bodies i (rd_store d) (rd_store d')"
    and "set (st_segments (rd_store d')) \<subseteq> set (st_segments (rd_store d))" "tidy d \<longrightarrow> tidy d'"
  shows "removes (\<lambda>_. False) d d'"
proof -
  note c = core_eqD [OF assms(2)]
  have "db_wf d'" using db_wfD [OF wf] assms(3,4) unfolding db_wf_def c by blast
  then show ?thesis using assms(5-7) rollups_exact_core [OF assms(2)] by (simp add: removes_def c)
qed

lemma purged_removes:
  assumes "db_wf d" "purged ids d d'"
  shows "removes (\<lambda>_. False) d d'"
proof (rule same_core_removes [OF assms(1)])
  show "archive_wf d'" by (rule purged_wf [OF db_wfD(1) [OF assms(1)] assms(2)])
  show "same_bodies i (rd_store d) (rd_store d')" for i by (rule purged_bodies [OF assms(2)])
  show "tidy d \<longrightarrow> tidy d'" using purged_tidy [OF _ assms(2)] by blast
qed (use assms(2) in \<open>simp_all add: purged_def\<close>)

lemma fold_delete_records:
  assumes "archive_wf d"
    and "d' = fold (\<lambda>t. delete_records now (\<lambda>r. ar_trace_id r = rt_id t)) ts d"
  shows "archive_wf d' \<and> core d' = core d \<and>
    st_records (rd_store d') = filter (\<lambda>r. ar_trace_id r \<notin> rt_id ` set ts) (st_records (rd_store d)) \<and>
    set (st_segments (rd_store d')) \<subseteq> set (st_segments (rd_store d)) \<and> (tidy d \<longrightarrow> tidy d') \<and>
    (i \<notin> rt_id ` set ts \<longrightarrow> same_bodies i (rd_store d) (rd_store d'))"
  using assms(1) unfolding assms(2)
proof (induction ts arbitrary: d)
  case (Cons t ts)
  let ?d = "delete_records now (\<lambda>r. ar_trace_id r = rt_id t) d"
  note step = delete_records_wf [OF Cons.prems, where now = now and P = "\<lambda>r. ar_trace_id r = rt_id t"]
  have "st_records (rd_store (fold (\<lambda>t. delete_records now (\<lambda>r. ar_trace_id r = rt_id t)) ts ?d)) =
      filter (\<lambda>r. ar_trace_id r \<notin> rt_id ` set (t # ts)) (st_records (rd_store d))"
    using Cons.IH [OF step(1)] by (simp add: step(2) conj_commute)
  moreover have "same_bodies i (rd_store d) (rd_store (fold (\<lambda>t. delete_records now (\<lambda>r. ar_trace_id r = rt_id t)) ts ?d))"
    if "i \<notin> rt_id ` set (t # ts)"
    using that Cons.IH [OF step(1)] by (intro same_bodies_trans [OF step(5) [of i]]) auto
  moreover have "tidy d \<longrightarrow> tidy ?d" using delete_records_tidy(1) by blast
  moreover have "set (st_segments (rd_store (fold (\<lambda>t. delete_records now (\<lambda>r. ar_trace_id r = rt_id t)) ts ?d)))
      \<subseteq> set (st_segments (rd_store d))"
    using Cons.IH [OF step(1)] step(4) by (blast intro: subset_trans)
  ultimately show ?case using Cons.IH [OF step(1)] by simp
qed simp

lemma fold_trigger_frame:
  "rd_receipts (fold remove_deleted_trace_from_rollup ts d) = rd_receipts d \<and>
   rd_traces (fold remove_deleted_trace_from_rollup ts d) = rd_traces d \<and>
   rd_sessions (fold remove_deleted_trace_from_rollup ts d) = rd_sessions d \<and>
   rd_messages (fold remove_deleted_trace_from_rollup ts d) = rd_messages d \<and>
   rd_store (fold remove_deleted_trace_from_rollup ts d) = rd_store d \<and>
   rd_deletions (fold remove_deleted_trace_from_rollup ts d) = rd_deletions d"
  by (induction ts arbitrary: d) (simp_all add: remove_deleted_trace_from_rollup_def Let_def)

lemma delete_traces_removes:
  assumes wf: "db_wf d"
  shows "removes P d (delete_traces now P d)"
proof -
  let ?G = "filter P (rd_traces d)" and ?K = "filter (\<lambda>t. \<not> P t) (rd_traces d)"
  define d1 where "d1 = fold remove_deleted_trace_from_rollup ?G (d\<lparr>rd_traces := ?K\<rparr>)"
  define d2 where "d2 = d1\<lparr>rd_messages := filter (\<lambda>m. mr_request_id m \<notin> rt_id ` set ?G) (rd_messages d1)\<rparr>"
  define d3 where "d3 = fold (\<lambda>t. delete_records now (\<lambda>r. ar_trace_id r = rt_id t)) ?G d2"
  have d3: "delete_traces now P d = d3" by (simp add: delete_traces_def d1_def d2_def d3_def Let_def)
  have d2: "rd_receipts d2 = rd_receipts d" "rd_traces d2 = ?K" "rd_sessions d2 = rd_sessions d" "rd_store d2 = rd_store d"
    "rd_deletions d2 = rd_deletions d" "rd_messages d2 = filter (\<lambda>m. mr_request_id m \<notin> rt_id ` set ?G) (rd_messages d)"
    "rd_rollups d2 = rd_rollups d1"
    using fold_trigger_frame [of ?G "d\<lparr>rd_traces := ?K\<rparr>"] by (simp_all add: d1_def d2_def)
  have "archive_wf d2" using db_wfD(1) [OF wf] unfolding archive_wf_def d2 .
  note f = fold_delete_records [OF this d3_def]
  have c: "core d3 = core d2" and recs: "st_records (rd_store d3) = filter (\<lambda>r. ar_trace_id r \<notin> rt_id ` set ?G) (st_records (rd_store d))"
    using f by (simp_all add: d2)
  note eq = core_eqD [OF c, unfolded d2]
  have gone: "rt_id t \<notin> rt_id ` set ?G" if "t \<in> set ?K" for t
  proof
    assume "rt_id t \<in> rt_id ` set ?G"
    then obtain u where "u \<in> set (rd_traces d)" "P u" "rt_id u = rt_id t" by auto
    with that db_wfD(2) [OF wf] have "u = t" by (auto simp: distinct_map dest: inj_onD)
    with that \<open>P u\<close> show False by simp
  qed
  have kept: "t \<in> set ?K" if "t \<in> set (rd_traces d)" "rt_id t \<notin> rt_id ` set ?G" for t using that by auto
  have "db_wf d3"
    unfolding db_wf_def
  proof (intro conjI ballI allI impI)
    show "archive_wf d3" using f by blast
    show "distinct (map rt_id (rd_traces d3))" using db_wfD(2) [OF wf] by (simp add: eq distinct_map_filter)
    show "distinct (map fst (rd_sessions d3))" using db_wfD(3) [OF wf] by (simp add: eq)
    show "row_ok t" if "t \<in> set (rd_traces d3)" for t using db_wfD(4) [OF wf] that by (simp add: eq)
    show "\<exists>t\<in>set (rd_traces d3). rt_id t = ar_trace_id r \<and> rt_session t = ar_session r"
      if "r \<in> set (st_records (rd_store d3))" for r
    proof -
      have "r \<in> set (st_records (rd_store d))" using that unfolding recs by simp
      then obtain t where t: "t \<in> set (rd_traces d)" "rt_id t = ar_trace_id r" "rt_session t = ar_session r"
        using db_wfD(5) [OF wf] by blast
      moreover have "ar_trace_id r \<notin> rt_id ` set ?G" using that unfolding recs by simp
      ultimately show ?thesis using kept [OF t(1)] unfolding eq by metis
    qed
    show "i \<in> fst ` set (rd_sessions d3)" if "t \<in> set (rd_traces d3)" "rt_session t = Some i" for t i
      using db_wfD(6) [OF wf, of t i] that by (simp add: eq)
    show "\<exists>t\<in>set (rd_traces d3). rt_id t = mr_request_id m \<and> rt_session t = Some (mr_session_id m)"
      if "m \<in> set (rd_messages d3)" for m
    proof -
      have "m \<in> set (rd_messages d)" using that unfolding eq by simp
      then obtain t where t: "t \<in> set (rd_traces d)" "rt_id t = mr_request_id m" "rt_session t = Some (mr_session_id m)"
        using db_wfD(7) [OF wf] by blast
      moreover have "mr_request_id m \<notin> rt_id ` set ?G" using that unfolding eq by simp
      ultimately show ?thesis using kept [OF t(1)] unfolding eq by metis
    qed
  qed
  moreover have "rollups_exact d3" if "rollups_exact d"
  proof (rule between_exact)
    have "between_table ?K [] (rd_rollups d1)"
      unfolding d1_def using exact_between [OF that] db_wfD(4) [OF wf] by (intro fold_trigger_table) auto
    then show "between_table (rd_traces d3) [] (rd_rollups d3)" by (simp add: eq)
  qed
  moreover have "same_bodies (rt_id t) (rd_store d) (rd_store d3)" if "t \<in> set (rd_traces d3)" for t
    using f [of "rt_id t"] gone that by (simp add: eq d2)
  moreover have "set (st_segments (rd_store d3)) \<subseteq> set (st_segments (rd_store d))" "tidy d \<longrightarrow> tidy d3"
    using f tidy_frame [OF d2(4,5)] by (simp_all add: d2)
  ultimately show ?thesis by (simp add: removes_def d3 eq)
qed

lemma delete_session_purged:
  assumes wf: "db_wf d" and none: "\<And>t. t \<in> set (rd_traces d) \<Longrightarrow> rt_session t \<noteq> Some i"
    and d1_def: "d1 = d\<lparr>rd_sessions := filter (\<lambda>p. fst p \<noteq> i) (rd_sessions d),
      rd_messages := filter (\<lambda>m. mr_session_id m \<noteq> i) (rd_messages d)\<rparr>"
  shows "\<exists>ids. purged ids d1 (delete_session now i d)"
proof -
  have norec: "ar_session r \<noteq> Some i" if "r \<in> set (st_records (rd_store d))" for r
    using db_wfD(5) [OF wf that] none by metis
  then have "filter (\<lambda>r. ar_session r = Some i) (st_records (rd_store d)) = []"
    "filter (\<lambda>r. ar_session r \<noteq> Some i) (st_records (rd_store d)) = st_records (rd_store d)"
    by (simp_all add: filter_empty_conv filter_id_conv)
  then have "delete_records now (\<lambda>r. ar_session r = Some i) d1 = d1"
    by (simp add: delete_records_def on_store_def d1_def)
  then have del: "delete_session now i d =
      fold (delete_segment now) (map fst (filter (\<lambda>p. as_session (snd p) = Some i) (st_segments (rd_store d)))) d1"
    by (simp add: delete_session_def d1_def Let_def)
  have "purged (set (map fst (filter (\<lambda>p. as_session (snd p) = Some i) (st_segments (rd_store d))))) d1 (delete_session now i d)"
    unfolding del
  proof (rule purged_segments)
    fix j assume "j \<in> set (map fst (filter (\<lambda>p. as_session (snd p) = Some i) (st_segments (rd_store d))))"
    then obtain p where p: "p \<in> set (st_segments (rd_store d))" "as_session (snd p) = Some i" "fst p = j" by auto
    show "\<not> referenced j (rd_store d1)"
    proof
      assume "referenced j (rd_store d1)"
      then obtain r where r: "r \<in> set (st_records (rd_store d))" "ar_segment_id r = j" by (auto simp: referenced_iff d1_def)
      with archive_wfD(4) [OF db_wfD(1) [OF wf] r(1) p(1)] p norec [OF r(1)] show False by simp
    qed
  qed
  then show ?thesis by blast
qed

lemma delete_session_removes:
  assumes wf: "db_wf d" and none: "\<And>t. t \<in> set (rd_traces d) \<Longrightarrow> rt_session t \<noteq> Some i"
  shows "removes (\<lambda>_. False) d (delete_session now i d)"
proof -
  define d1 where "d1 = d\<lparr>rd_sessions := filter (\<lambda>p. fst p \<noteq> i) (rd_sessions d),
    rd_messages := filter (\<lambda>m. mr_session_id m \<noteq> i) (rd_messages d)\<rparr>"
  have d1: "rd_receipts d1 = rd_receipts d" "rd_traces d1 = rd_traces d" "rd_store d1 = rd_store d" "rd_deletions d1 = rd_deletions d"
    "rd_rollups d1 = rd_rollups d" "rd_sessions d1 = filter (\<lambda>p. fst p \<noteq> i) (rd_sessions d)"
    "set (rd_messages d1) \<subseteq> set (rd_messages d)" by (simp_all add: d1_def)
  have "j \<in> fst ` set (rd_sessions d1)" if t: "t \<in> set (rd_traces d)" "rt_session t = Some j" for t j
    using db_wfD(6) [OF wf t] none t by (auto simp: d1 image_iff)
  moreover have "distinct (map fst (rd_sessions d1))" using db_wfD(3) [OF wf] by (simp add: d1 distinct_map_filter)
  moreover have "archive_wf d1" using db_wfD(1) [OF wf] unfolding archive_wf_def d1 .
  ultimately have wf1: "db_wf d1"
    using db_wfD(2,4,5,7) [OF wf] d1(7) unfolding db_wf_def d1 by blast
  have "removes (\<lambda>_. False) d1 (delete_session now i d)"
    using delete_session_purged [OF wf none d1_def, of now] purged_removes [OF wf1] by blast
  moreover have "removes (\<lambda>_. False) d d1" using wf1 tidy_frame [OF d1(3,4)] by (simp add: removes_def d1 rollups_exact_def)
  ultimately show ?thesis using removes_trans by fastforce
qed

section \<open>The invariant and insertion\<close>

text \<open>What the identifiers drawn by one insertion satisfy, unless a receipt shows that there is
  nothing to insert: none of them is in use for a session or a segment or named by a file queued for removal.\<close>

definition fresh_ids ::
  "archive_lib \<Rightarrow> archive_config \<Rightarrow> ingest_io \<Rightarrow> trace_record \<Rightarrow> uuid option \<Rightarrow> trace_db \<Rightarrow> bool" where
  "fresh_ids L cfg w t journal_id d \<longleftrightarrow>
    journal_id \<noteq> None \<and> map_of (rd_receipts d) (tr_id t) \<noteq> None \<or>
    ii_session w \<notin> fst ` set (rd_sessions d) \<and>
    (case prepare_trace_payloads L cfg t of
       Inl _ \<Rightarrow> True
     | Inr sgs \<Rightarrow>
         (let ids = segment_ids L journal_id (tr_id t) (ii_segments w) sgs in
          length (ii_segments w) = length sgs \<and> distinct ids \<and> set ids \<inter> fst ` set (st_segments (rd_store d)) = {} \<and>
          (\<forall>i\<in>set ids. \<forall>f\<in>set (rd_deletions d). \<not> key_names L (fd_key f) i)))"

text \<open>The rows of new segments: each has a record, a size, and as a file a valid key made for it.\<close>

definition new_segment :: "archive_lib \<Rightarrow> trace_record \<Rightarrow> uuid \<times> archive_segment \<Rightarrow> bool" where
  "new_segment L t p \<longleftrightarrow> as_session (snd p) = tr_session_id t \<and> 0 \<le> as_compressed_bytes (snd p) \<and>
    (as_backend (snd p) = ''filesystem'' \<longrightarrow>
      key_names L (as_key (snd p)) (fst p) \<and> archive_file_path (as_key (snd p)) = Inr (as_key (snd p)))"

definition adds :: "archive_lib \<Rightarrow> uuid set \<Rightarrow> trace_record \<Rightarrow> archive_store \<Rightarrow> archive_store \<Rightarrow> bool" where
  "adds L ids t s s' \<longleftrightarrow> (\<exists>segs recs. st_segments s' = st_segments s @ segs \<and> st_records s' = st_records s @ recs \<and>
    (\<forall>p\<in>set segs. new_segment L t p \<and> fst p \<in> ids \<and> fst p \<notin> fst ` set (st_segments s)) \<and>
    (\<forall>r\<in>set recs. ar_trace_id r = tr_id t \<and> ar_session r = tr_session_id t) \<and>
    ar_segment_id ` set recs = fst ` set segs) \<and>
    (store_wf s \<longrightarrow> store_wf s')"

lemma addsE:
  assumes "adds L ids t s s'"
  obtains segs recs where "st_segments s' = st_segments s @ segs" "st_records s' = st_records s @ recs"
    "\<forall>p\<in>set segs. new_segment L t p \<and> fst p \<in> ids \<and> fst p \<notin> fst ` set (st_segments s)"
    "\<forall>r\<in>set recs. ar_trace_id r = tr_id t \<and> ar_session r = tr_session_id t"
    "ar_segment_id ` set recs = fst ` set segs" "store_wf s \<longrightarrow> store_wf s'"
  using assms unfolding adds_def by (elim conjE exE) (rule that)

lemma stored_adds:
  assumes st: "stored L t sg p s s'" and "segment_ok L sg"
  shows "adds L {fst p} t s s'"
proof -
  define recs where "recs = map (\<lambda>(i, w). record_row t (fst p) (int i) w) (enumerate 0 (sg_writes sg))"
  have "\<forall>r\<in>set recs. ar_trace_id r = tr_id t \<and> ar_session r = tr_session_id t"
    by (auto simp: recs_def record_row_def)
  moreover have "\<forall>r\<in>set recs. ar_segment_id r = fst p" "recs \<noteq> []"
    using assms(2) by (auto simp: recs_def record_row_def segment_ok_def enumerate_eq_zip)
  then have "ar_segment_id ` set recs = fst ` set [p]" by (cases recs) auto
  moreover have "st_segments s' = st_segments s @ [p]" "st_records s' = st_records s @ recs" "fst p \<notin> fst ` set (st_segments s)"
    using st by (simp_all add: stored_def recs_def)
  moreover have "new_segment L t p" using st by (auto simp: stored_def new_segment_def)
  ultimately show ?thesis using stored_wf [OF st] unfolding adds_def by (intro conjI exI [of _ "[p]"] exI [of _ recs]) simp_all
qed

lemma adds_refl: "adds L {} t s s"
  unfolding adds_def by (intro conjI exI [of _ "[]"]) simp_all

lemma adds_trans:
  assumes "adds L A t s s'" "adds L B t s' s''"
  shows "adds L (A \<union> B) t s s''"
proof -
  from assms(1) obtain S R where a: "st_segments s' = st_segments s @ S" "st_records s' = st_records s @ R"
    "\<forall>p\<in>set S. new_segment L t p \<and> fst p \<in> A \<and> fst p \<notin> fst ` set (st_segments s)"
    "\<forall>r\<in>set R. ar_trace_id r = tr_id t \<and> ar_session r = tr_session_id t"
    "ar_segment_id ` set R = fst ` set S" "store_wf s \<longrightarrow> store_wf s'" by (rule addsE)
  from assms(2) obtain T Q where b: "st_segments s'' = st_segments s' @ T" "st_records s'' = st_records s' @ Q"
    "\<forall>p\<in>set T. new_segment L t p \<and> fst p \<in> B \<and> fst p \<notin> fst ` set (st_segments s')"
    "\<forall>r\<in>set Q. ar_trace_id r = tr_id t \<and> ar_session r = tr_session_id t"
    "ar_segment_id ` set Q = fst ` set T" "store_wf s' \<longrightarrow> store_wf s''" by (rule addsE)
  have "\<forall>p\<in>set (S @ T). new_segment L t p \<and> fst p \<in> A \<union> B \<and> fst p \<notin> fst ` set (st_segments s)"
    using a(3) b(3) unfolding a(1) set_append image_Un by blast
  moreover have "\<forall>r\<in>set (R @ Q). ar_trace_id r = tr_id t \<and> ar_session r = tr_session_id t"
    using a(4) b(4) unfolding set_append by blast
  moreover have "ar_segment_id ` set (R @ Q) = fst ` set (S @ T)" by (simp add: image_Un a(5) b(5))
  ultimately show ?thesis unfolding adds_def using a(1,2,6) b(1,2,6)
    by (intro conjI exI [of _ "S @ T"] exI [of _ "R @ Q"]) simp_all
qed

lemma archive_payloads_adds:
  assumes "archive_payloads L cfg journal t choices sgs s = Inr s'" "length choices = length sgs"
    "distinct (segment_ids L journal (tr_id t) choices sgs)"
    "set (segment_ids L journal (tr_id t) choices sgs) \<inter> fst ` set (st_segments s) = {}" "list_all (segment_ok L) sgs"
  shows "adds L (set (segment_ids L journal (tr_id t) choices sgs)) t s s'"
  using assms
proof (induction L cfg journal t choices sgs s rule: archive_payloads.induct)
  case (1 L cfg journal t io i choices sg sgs s)
  let ?i = "segment_id_of L journal (tr_id t) i sg" and ?ids = "segment_ids L journal (tr_id t) choices sgs"
  obtain s1 where s1: "archive_prepared_payloads L cfg journal t io i sg s = Inr s1"
    and rest: "archive_payloads L cfg journal t choices sgs s1 = Inr s'"
    using 1(2) by (auto simp: bind_res_Inr)
  have all: "segment_ids L journal (tr_id t) ((io, i) # choices) (sg # sgs) = ?i # ?ids" by (simp add: segment_ids_def)
  have ids: "?i \<notin> fst ` set (st_segments s)" "?i \<notin> set ?ids" "set ?ids \<inter> fst ` set (st_segments s) = {}" "distinct ?ids"
    using 1(4,5) unfolding all by simp_all
  have ok: "segment_ok L sg" "list_all (segment_ok L) sgs" using 1(6) by simp_all
  obtain row where st: "stored L t sg (?i, row) s s1" using archive_step [OF s1 ids(1) segment_ok_sum [OF ok(1)]] by blast
  have "set ?ids \<inter> fst ` set (st_segments s1) = {}" using stored_segments(1) [OF st] ids by auto
  with 1(1,3) rest ids(4) ok(2) have "adds L (set ?ids) t s1 s'" by simp
  from adds_trans [OF stored_adds [OF st ok(1)] this] show ?case unfolding all by simp
qed (auto simp: adds_refl segment_ids_def)

lemma sint_of_i64: "i64_min \<le> x \<Longrightarrow> x \<le> i64_max \<Longrightarrow> sint (word_of_int x :: 64 word) = x"
  by (simp add: sint_sbintrunc' signed_take_bit_int_eq_self_iff i64_min_def i64_max_def)

lemma i64_add_exact: "0 \<le> a \<Longrightarrow> 0 \<le> b \<Longrightarrow> a + b \<le> i64_max \<Longrightarrow> i64_add a b = a + b"
  unfolding i64_add_def by (rule sint_of_i64) (simp_all add: i64_min_def)

lemma aggregate_one:
  assumes "row_ok (trace_row_of t)"
  shows "aggregate [trace_row_of t] = rollup_of t"
  using assms by (simp add: aggregate_def rollup_of_def trace_row_of_def row_ok_def errors_of_def captured_of_def i64_add_exact)

lemma aggregate_snoc:
  assumes "row_ok (trace_row_of t)" "ts \<noteq> []" "add_rollup (aggregate ts) (rollup_of t) = Inr r"
  shows "r = aggregate (ts @ [trace_row_of t])"
proof -
  have "Max (rt_started_at ` set (ts @ [trace_row_of t])) = max (Max (rt_started_at ` set ts)) (tr_started_at t)"
    using assms(2) by (simp add: trace_row_of_def Max_insert max.commute)
  moreover have "i64_add (tr_request_body_bytes t) (tr_response_body_bytes t) = captured_of (trace_row_of t)"
    using assms(1) by (simp add: row_ok_def trace_row_of_def captured_of_def i64_add_exact)
  ultimately show ?thesis using assms(3)
    unfolding add_rollup_def bind_res_Inr pg_bigint_def aggregate_def rollup_of_def
    by (auto simp: trace_row_of_def errors_of_def split: if_splits)
qed

lemma update_rollup_exact:
  assumes ex: "rollups_exact d" and ok: "row_ok (trace_row_of t)"
    and same: "rd_rollups d0 = rd_rollups d" "rd_traces d0 = rd_traces d @ [trace_row_of t]"
    and u: "update_rollup t d0 = Inr d'"
  shows "rollups_exact d' \<and> (\<exists>rolls. d' = d0\<lparr>rd_rollups := rolls\<rparr>)"
proof -
  let ?row = "trace_row_of t" and ?b = "minute_of (tr_started_at t)"
  have look: "map_of (rd_rollups d) c = (if in_minute c (rd_traces d) = [] then None else Some (aggregate (in_minute c (rd_traces d))))" for c
    using ex by (simp add: rollups_exact_def Let_def)
  have dist: "distinct (map fst (rd_rollups d))" using ex by (simp add: rollups_exact_def)
  have mins: "in_minute c (rd_traces d @ [?row]) = (if c = ?b then in_minute c (rd_traces d) @ [?row] else in_minute c (rd_traces d))" for c
    by (simp add: in_minute_def trace_row_of_def)
  show ?thesis
  proof (cases "in_minute ?b (rd_traces d) = []")
    case True
    then have none: "map_of (rd_rollups d) ?b = None" by (simp add: look)
    then have new: "?b \<notin> fst ` set (rd_rollups d)" by (simp add: map_of_eq_None_iff)
    have d': "d' = d0\<lparr>rd_rollups := rd_rollups d @ [(?b, rollup_of t)]\<rparr>"
      using u none by (simp add: update_rollup_def same Let_def)
    have "map_of (rd_rollups d') c = (let ts = in_minute c (rd_traces d') in if ts = [] then None else Some (aggregate ts))" for c
      using none look [of c] True aggregate_one [OF ok]
      by (cases "c = ?b") (simp_all add: d' same mins map_add_def split: option.split)
    then show ?thesis using dist new by (auto simp: rollups_exact_def d')
  next
    case False
    then have some: "map_of (rd_rollups d) ?b = Some (aggregate (in_minute ?b (rd_traces d)))" by (simp add: look)
    obtain r where r: "add_rollup (aggregate (in_minute ?b (rd_traces d))) (rollup_of t) = Inr r"
      and d': "d' = d0\<lparr>rd_rollups := AList.update ?b r (rd_rollups d)\<rparr>"
      using u some by (auto simp: update_rollup_def same Let_def bind_res_Inr)
    have "map_of (rd_rollups d') c = (let ts = in_minute c (rd_traces d') in if ts = [] then None else Some (aggregate ts))" for c
      using look [of c] aggregate_snoc [OF ok False r]
      by (cases "c = ?b") (simp_all add: d' same mins update_conv')
    then show ?thesis using dist by (auto simp: rollups_exact_def d' distinct_update)
  qed
qed

lemma map_value_keys:
  "map fst (map (\<lambda>(j, r). if j = i then (j, f r) else (j, r)) al) = map fst al"
  by (induction al) auto

lemma upsert_session_ids:
  assumes "upsert_session fresh key uid uname seen0 seen1 d = (i, d')" "distinct (map fst (rd_sessions d))"
    "fresh \<notin> fst ` set (rd_sessions d)"
  shows "d' = d\<lparr>rd_sessions := rd_sessions d'\<rparr>" "fst ` set (rd_sessions d) \<subseteq> fst ` set (rd_sessions d')"
    "distinct (map fst (rd_sessions d'))"
proof -
  have "d' = d\<lparr>rd_sessions := rd_sessions d'\<rparr> \<and> fst ` set (rd_sessions d) \<subseteq> fst ` set (rd_sessions d') \<and>
      distinct (map fst (rd_sessions d'))"
  proof (cases "session_by_key key d")
    case None
    with assms show ?thesis by (auto simp: upsert_session_def)
  next
    case (Some j)
    then have d': "d' = d\<lparr>rd_sessions := rd_sessions d'\<rparr>" and m: "map fst (rd_sessions d') = map fst (rd_sessions d)"
      using assms(1) map_value_keys by (auto simp: upsert_session_def simp del: map_map)
    from arg_cong [OF m, of set] have "fst ` set (rd_sessions d') = fst ` set (rd_sessions d)" by simp
    with d' m assms(2) show ?thesis by simp
  qed
  then show "d' = d\<lparr>rd_sessions := rd_sessions d'\<rparr>" "fst ` set (rd_sessions d) \<subseteq> fst ` set (rd_sessions d')"
    "distinct (map fst (rd_sessions d'))" by blast+
qed

lemma resolve_session_wf:
  assumes "resolve_session fresh t uid uname d = (t', d1)" "db_wf d" "fresh \<notin> fst ` set (rd_sessions d)"
  shows "db_wf d1 \<and> t' = t\<lparr>tr_session_id := tr_session_id t'\<rparr> \<and> (\<exists>ss. d1 = d\<lparr>rd_sessions := ss\<rparr>)"
proof (cases "tr_session_id t = None \<and> tr_session_key t \<noteq> None")
  case True
  then obtain key where key: "tr_session_id t = None" "tr_session_key t = Some key" by auto
  obtain i d2 where up: "upsert_session fresh key uid uname (tr_started_at t) (unwrap_or (tr_started_at t) (tr_completed_at t)) d =
      (i, d2)" by (metis surj_pair)
  define ss where "ss = rd_sessions d2"
  note ids = upsert_session_ids [OF up db_wfD(3) [OF assms(2)] assms(3), folded ss_def]
  have t': "t' = t\<lparr>tr_session_id := Some i\<rparr>" "d1 = d\<lparr>rd_sessions := ss\<rparr>"
    using assms(1) ids(1) by (simp_all add: resolve_session_def key up)
  have "archive_wf d1" using db_wfD(1) [OF assms(2)] by (simp add: archive_wf_def t')
  then have "db_wf d1" using db_wfD [OF assms(2)] ids unfolding db_wf_def by (simp add: t') blast
  then show ?thesis by (auto simp: t')
next
  case False
  then have "t' = t" "d1 = d" using assms(1) by (auto simp: resolve_session_def split: option.splits)
  then show ?thesis using assms(2) by (auto intro: exI [of _ "rd_sessions d"])
qed

lemma adds_archive_wf:
  assumes L: "archive_names L" and wf: "archive_wf d" and named: "keys_named L (rd_store d)"
    and a: "adds L ids t (rd_store d) (rd_store d')" and same: "rd_deletions d' = rd_deletions d"
    and queue: "\<And>i f. i \<in> ids \<Longrightarrow> f \<in> set (rd_deletions d) \<Longrightarrow> \<not> key_names L (fd_key f) i"
  shows "archive_wf d'" "keys_named L (rd_store d')" "tidy d \<Longrightarrow> tidy d'"
proof -
  from a obtain segs recs where sr0: "st_segments (rd_store d') = st_segments (rd_store d) @ segs"
    "st_records (rd_store d') = st_records (rd_store d) @ recs"
    "\<forall>p\<in>set segs. new_segment L t p \<and> fst p \<in> ids \<and> fst p \<notin> fst ` set (st_segments (rd_store d))"
    "\<forall>r\<in>set recs. ar_trace_id r = tr_id t \<and> ar_session r = tr_session_id t"
    "ar_segment_id ` set recs = fst ` set segs" "store_wf (rd_store d) \<longrightarrow> store_wf (rd_store d')" by (rule addsE)
  note sr = sr0 [rule_format]
  have old: "ar_segment_id r \<in> fst ` set (st_segments (rd_store d))" if "r \<in> set (st_records (rd_store d))" for r
    using archive_wfD(1) [OF wf] that by (auto simp: store_wf_def)
  have "as_session (snd p) = ar_session r"
    if r: "r \<in> set (st_records (rd_store d'))" and p: "p \<in> set (st_segments (rd_store d'))" and eq: "fst p = ar_segment_id r" for r p
  proof (cases "r \<in> set (st_records (rd_store d))")
    case True
    with old [OF True] sr(3) [of p] p eq have "p \<in> set (st_segments (rd_store d))" unfolding sr(1) by auto
    with archive_wfD(4) [OF wf True _ eq] show ?thesis by simp
  next
    case False
    with r have rn: "r \<in> set recs" by (simp add: sr)
    then have "fst p \<in> fst ` set segs" using sr(5) eq by auto
    then obtain q where "q \<in> set segs" "fst p = fst q" by blast
    with sr(3) [of q] have "p \<notin> set (st_segments (rd_store d))" by (metis imageI)
    with p have "p \<in> set segs" by (simp add: sr(1))
    with sr(3) [of p] sr(4) [OF rn] show ?thesis by (simp add: new_segment_def)
  qed
  moreover show named': "keys_named L (rd_store d')"
    using named sr(3) unfolding keys_named_def sr(1) by (auto simp: new_segment_def)
  moreover have "as_key (snd p) \<notin> fd_key ` set (rd_deletions d')"
    if p: "p \<in> set (st_segments (rd_store d'))" "as_backend (snd p) = ''filesystem''" for p
  proof (cases "p \<in> set (st_segments (rd_store d))")
    case True
    with archive_wfD(3) [OF wf _ p(2)] show ?thesis by (simp add: same)
  next
    case False
    with p(1) have "p \<in> set segs" by (simp add: sr)
    with sr(3) [of p] p(2) have "fst p \<in> ids" "key_names L (as_key (snd p)) (fst p)" by (simp_all add: new_segment_def)
    with queue show ?thesis unfolding same by auto
  qed
  ultimately show "archive_wf d'"
    using sr(6) archive_wfD(1) [OF wf] keys_named_separate [OF L named'] unfolding archive_wf_def by blast
  assume td: "tidy d"
  have "referenced (fst p) (rd_store d')" if "p \<in> set (st_segments (rd_store d'))" for p
  proof (cases "p \<in> set segs")
    case True
    then have "fst p \<in> ar_segment_id ` set recs" using sr(5) by simp
    then show ?thesis by (auto simp: referenced_iff sr(2))
  next
    case False
    with that tidyD(1) [OF td, of p] show ?thesis by (auto simp: referenced_iff sr(1,2))
  qed
  moreover have "0 \<le> as_compressed_bytes (snd p) \<and>
      (as_backend (snd p) = ''filesystem'' \<longrightarrow> archive_file_path (as_key (snd p)) = Inr (as_key (snd p)))"
    if "p \<in> set (st_segments (rd_store d'))" for p
    using that sr(3) [of p] tidyD(2,3) [OF td, of p] unfolding sr(1) by (auto simp: new_segment_def)
  ultimately show "tidy d'" using td unfolding tidy_def same by blast
qed

lemma insert_rows_inv:
  assumes ins: "insert_rows L cfg w t payloads messages uid uname journal_id d = Inr d'"
    and wf: "db_wf d" and ex: "rollups_exact d" and ok: "row_ok (trace_row_of t)"
    and L: "archive_names L" and named: "keys_named L (rd_store d)" and made: "list_all (segment_ok L) payloads"
    and fresh: "ii_session w \<notin> fst ` set (rd_sessions d)" "length (ii_segments w) = length payloads"
      "distinct (segment_ids L journal_id (tr_id t) (ii_segments w) payloads)"
      "set (segment_ids L journal_id (tr_id t) (ii_segments w) payloads) \<inter> fst ` set (st_segments (rd_store d)) = {}"
    and queue: "\<And>i f. i \<in> set (segment_ids L journal_id (tr_id t) (ii_segments w) payloads) \<Longrightarrow> f \<in> set (rd_deletions d) \<Longrightarrow>
      \<not> key_names L (fd_key f) i"
  shows "db_wf d' \<and> rollups_exact d' \<and> keys_named L (rd_store d') \<and> (tidy d \<longrightarrow> tidy d')"
proof -
  obtain t' d1 where r: "resolve_session (ii_session w) t uid uname d = (t', d1)" by (metis surj_pair)
  have "db_wf d1 \<and> t' = t\<lparr>tr_session_id := tr_session_id t'\<rparr> \<and> (\<exists>ss. d1 = d\<lparr>rd_sessions := ss\<rparr>)"
    by (rule resolve_session_wf [OF r wf fresh(1)])
  then obtain ss where wf1: "db_wf d1" and t': "t' = t\<lparr>tr_session_id := tr_session_id t'\<rparr>" and d1: "d1 = d\<lparr>rd_sessions := ss\<rparr>" by blast
  have id: "tr_id t' = tr_id t" by (subst t') simp
  have ok': "row_ok (trace_row_of t')" using ok by (subst t') (simp add: row_ok_def trace_row_of_def)
  define row where "row = trace_row_of t'"
  have row: "rt_id row = tr_id t'" "rt_session row = tr_session_id t'" by (simp_all add: row_def trace_row_of_def)
  obtain s' d3 where new: "tr_id t' \<notin> rt_id ` set (rd_traces d)"
    and sess: "\<And>i. tr_session_id t' = Some i \<Longrightarrow> i \<in> fst ` set (rd_sessions d1)"
    and arch: "archive_payloads L cfg journal_id t' (ii_segments w) payloads (rd_store d) = Inr s'"
    and roll: "update_rollup t' (d1\<lparr>rd_traces := rd_traces d @ [row], rd_store := s'\<rparr>) = Inr d3"
    and d': "d' = (case tr_session_id t' of Some i \<Rightarrow> d3\<lparr>rd_messages := rd_messages d3 @ message_rows t' i messages\<rparr> | None \<Rightarrow> d3)"
    using ins unfolding insert_rows_def r prod.case Let_def row_def
    by (auto simp: bind_res_Inr ensure_def d1 split: if_splits sum.splits option.splits)
  have "rollups_exact d3 \<and> (\<exists>rolls. d3 = (d1\<lparr>rd_traces := rd_traces d @ [row], rd_store := s'\<rparr>)\<lparr>rd_rollups := rolls\<rparr>)"
    by (rule update_rollup_exact [OF ex ok' _ _ roll]) (simp_all add: d1 row_def)
  then obtain rolls where ex3: "rollups_exact d3" and d3: "d3 = d1\<lparr>rd_traces := rd_traces d @ [row], rd_store := s', rd_rollups := rolls\<rparr>"
    by auto
  have rs: "rd_traces d' = rd_traces d @ [row]" "rd_sessions d' = rd_sessions d1" "rd_store d' = s'"
    "rd_deletions d' = rd_deletions d" "rd_rollups d' = rd_rollups d3"
    by (simp_all add: d' d3 d1 split: option.split)
  have msgs: "m \<in> set (rd_messages d) \<or> mr_request_id m = rt_id row \<and> rt_session row = Some (mr_session_id m)"
    if "m \<in> set (rd_messages d')" for m
    using that by (cases "tr_session_id t'") (auto simp: d' d3 d1 row message_rows_def)
  have "rollups_exact d'" using ex3 by (simp add: rollups_exact_def rs d3)
  have adds: "adds L (set (segment_ids L journal_id (tr_id t) (ii_segments w) payloads)) t' (rd_store d) (rd_store d')"
    using archive_payloads_adds [OF arch] fresh made unfolding rs(3) id by blast
  note keep = adds_archive_wf [OF L db_wfD(1) [OF wf] named adds rs(4) queue]
  have aw: "archive_wf d'" by (rule keep(1))
  obtain recs where recs: "st_records s' = st_records (rd_store d) @ recs"
    "\<And>r. r \<in> set recs \<Longrightarrow> ar_trace_id r = tr_id t' \<and> ar_session r = tr_session_id t'"
    using adds unfolding rs(3) by (rule addsE) blast
  have "db_wf d'"
    unfolding db_wf_def
  proof (intro conjI ballI allI impI)
    show "archive_wf d'" by (rule aw)
    show "distinct (map rt_id (rd_traces d'))" using db_wfD(2) [OF wf] new by (simp add: rs row)
    show "distinct (map fst (rd_sessions d'))" using db_wfD(3) [OF wf1] by (simp add: rs)
    show "row_ok u" if "u \<in> set (rd_traces d')" for u using that db_wfD(4) [OF wf] ok' by (auto simp: rs row_def)
    show "\<exists>u\<in>set (rd_traces d'). rt_id u = ar_trace_id r \<and> rt_session u = ar_session r"
      if "r \<in> set (st_records (rd_store d'))" for r
    proof (cases "r \<in> set recs")
      case True
      then show ?thesis using recs(2) by (simp add: rs row)
    next
      case False
      with that have "r \<in> set (st_records (rd_store d))" by (simp add: rs recs(1))
      from db_wfD(5) [OF wf this] show ?thesis unfolding rs by auto
    qed
    show "i \<in> fst ` set (rd_sessions d')" if "u \<in> set (rd_traces d')" "rt_session u = Some i" for u i
    proof (cases "u = row")
      case True
      with that(2) sess show ?thesis by (simp add: rs row)
    next
      case False
      with that(1) have "u \<in> set (rd_traces d1)" by (simp add: rs d1)
      from db_wfD(6) [OF wf1 this that(2)] show ?thesis by (simp add: rs)
    qed
    show "\<exists>u\<in>set (rd_traces d'). rt_id u = mr_request_id m \<and> rt_session u = Some (mr_session_id m)"
      if "m \<in> set (rd_messages d')" for m
      using msgs [OF that] db_wfD(7) [OF wf, of m] unfolding rs by auto
  qed
  with \<open>rollups_exact d'\<close> keep(2,3) show ?thesis by blast
qed

lemma insert_trace_inv:
  assumes ins: "insert_trace_internal L cfg w t messages uid uname journal_id d = Inr d'"
    and fresh: "fresh_ids L cfg w t journal_id d" and ok: "row_ok (trace_row_of t)" and wf: "db_wf d" and ex: "rollups_exact d"
    and L: "archive_names L" and named: "keys_named L (rd_store d)"
  shows "db_wf d' \<and> rollups_exact d' \<and> keys_named L (rd_store d') \<and> (tidy d \<longrightarrow> tidy d')"
proof -
  define t0 where "t0 = t\<lparr>tr_request_body := [], tr_response_body := []\<rparr>"
  have t0: "tr_id t0 = tr_id t" "row_ok (trace_row_of t0)" using ok by (simp_all add: t0_def row_ok_def trace_row_of_def)
  obtain payloads where p: "prepare_trace_payloads L cfg t = Inr payloads"
    using ins by (auto simp: insert_trace_internal_def bind_res_Inr split: sum.splits)
  define ins_rows where "ins_rows = insert_rows L cfg w t0 payloads messages uid uname journal_id"
  obtain d0 where d0: "rd_traces d0 = rd_traces d" "rd_sessions d0 = rd_sessions d" "rd_messages d0 = rd_messages d"
      "rd_rollups d0 = rd_rollups d" "rd_store d0 = rd_store d" "rd_deletions d0 = rd_deletions d"
    and c: "ins_rows d0 = Inr d' \<and> \<not> (journal_id \<noteq> None \<and> map_of (rd_receipts d) (tr_id t) \<noteq> None) \<or> d' = d"
  proof (cases journal_id)
    case None
    with ins p have "ins_rows d = Inr d'"
      by (auto simp: insert_trace_internal_def bind_res_Inr Let_def t0_def ins_rows_def split: if_splits)
    then show ?thesis using that None by blast
  next
    case (Some me)
    show ?thesis
    proof (cases "map_of (rd_receipts d) (tr_id t)")
      case None
      with ins p Some have "ins_rows (d\<lparr>rd_receipts := (tr_id t, me) # rd_receipts d\<rparr>) = Inr d'"
        by (auto simp: insert_trace_internal_def bind_res_Inr Let_def t0_def ins_rows_def split: if_splits)
      then show ?thesis using None by (intro that [of "d\<lparr>rd_receipts := (tr_id t, me) # rd_receipts d\<rparr>"]) simp_all
    next
      case (Some owner)
      with ins p \<open>journal_id = Some me\<close> have "d' = d"
        by (auto simp: insert_trace_internal_def bind_res_Inr Let_def split: if_splits)
      then show ?thesis using that by blast
    qed
  qed
  have "archive_wf d0" using db_wfD(1) [OF wf] unfolding archive_wf_def d0 .
  then have wf0: "db_wf d0" using db_wfD(2-7) [OF wf] unfolding db_wf_def d0 by blast
  have ex0: "rollups_exact d0" using ex unfolding rollups_exact_def d0 .
  show ?thesis
  proof (cases "d' = d")
    case False
    with c have ir: "insert_rows L cfg w t0 payloads messages uid uname journal_id d0 = Inr d'"
      and nr: "\<not> (journal_id \<noteq> None \<and> map_of (rd_receipts d) (tr_id t) \<noteq> None)"
      unfolding ins_rows_def by blast+
    let ?ids = "segment_ids L journal_id (tr_id t) (ii_segments w) payloads"
    from fresh nr have f: "ii_session w \<notin> fst ` set (rd_sessions d)" "length (ii_segments w) = length payloads"
      "distinct ?ids" "set ?ids \<inter> fst ` set (st_segments (rd_store d)) = {}"
      "\<forall>i\<in>set ?ids. \<forall>f\<in>set (rd_deletions d). \<not> key_names L (fd_key f) i"
      unfolding fresh_ids_def p by (simp_all only: Let_def sum.case simp_thms) blast
    have "db_wf d' \<and> rollups_exact d' \<and> keys_named L (rd_store d') \<and> (tidy d0 \<longrightarrow> tidy d')"
    proof (rule insert_rows_inv [OF ir wf0 ex0 t0(2) L _ prepared_payloads_ok [OF p]])
      show "\<not> key_names L (fd_key q) i"
        if "i \<in> set (segment_ids L journal_id (tr_id t0) (ii_segments w) payloads)" "q \<in> set (rd_deletions d0)" for i q
        using f(5) that unfolding t0 d0 by blast
    qed (use f(1-4) named in \<open>simp_all only: t0 d0 not_False_eq_True\<close>)
    then show ?thesis using tidy_frame [of d0 d] d0(5,6) by simp
  qed (use wf ex named in simp)
qed

lemma files_left_frame:
  "rd_traces (files_left L cfg w t user_id user_name journal_id k d) = rd_traces d"
  "db_wf (files_left L cfg w t user_id user_name journal_id k d) = db_wf d"
  "rollups_exact (files_left L cfg w t user_id user_name journal_id k d) = rollups_exact d"
  "keys_named L (rd_store (files_left L cfg w t user_id user_name journal_id k d)) = keys_named L (rd_store d)"
  "tidy (files_left L cfg w t user_id user_name journal_id k d) = tidy d"
proof -
  have "\<exists>fs. files_left L cfg w t user_id user_name journal_id k d = d\<lparr>rd_store := (rd_store d)\<lparr>st_files := fs\<rparr>\<rparr>"
    unfolding files_left_def by (auto split: sum.splits prod.splits intro: exI [of _ "st_files (rd_store d)"])
  then obtain fs where fs: "files_left L cfg w t user_id user_name journal_id k d = d\<lparr>rd_store := (rd_store d)\<lparr>st_files := fs\<rparr>\<rparr>" ..
  show "rd_traces (files_left L cfg w t user_id user_name journal_id k d) = rd_traces d"
    "db_wf (files_left L cfg w t user_id user_name journal_id k d) = db_wf d"
    "rollups_exact (files_left L cfg w t user_id user_name journal_id k d) = rollups_exact d"
    "keys_named L (rd_store (files_left L cfg w t user_id user_name journal_id k d)) = keys_named L (rd_store d)"
    "tidy (files_left L cfg w t user_id user_name journal_id k d) = tidy d"
    unfolding fs by (simp_all add: db_wf_def archive_wf_def store_wf_def keys_separate_def rollups_exact_def keys_named_def
        tidy_def referenced_def)
qed

end
