(* ===== verification/LT_Rotation.thy ===== *)
theory LT_Rotation
  imports LT_Store LT_Config "HOL-Library.Product_Lexorder"
begin

text \<open>
  \<open>storage/rotation.rs\<close> and \<open>storage/retention.rs\<close>: what removes stored traces, by size and by
  age. The outside (clocks, locks held elsewhere, how each transaction ends) is a function of a
  counter that every transaction and every reading of a clock advances. Maintenance always
  returns, evicts the oldest traces first, and never touches what a kept trace needs.
\<close>

section \<open>The world of a maintenance task\<close>

record rot_world =
  rw_db :: trace_db
  rw_audit :: "(nat \<times> int) list"
  rw_ui_sessions :: "(string \<times> int) list"
  rw_oauth_states :: "(string \<times> int) list"
  rw_tick :: nat

text \<open>How a transaction ends: it commits, fails before or at the removal of a file, fails at the
  commit, or commits while the client sees an error.\<close>

datatype tx_fault = No_fault | Early | File_fault | Late | Lost_ack

record rot_env =
  re_clock :: "nat \<Rightarrow> nanos"
  re_utc :: "nat \<Rightarrow> int"
  re_fault :: "nat \<Rightarrow> tx_fault"
  re_lock :: "nat \<Rightarrow> bool"
  re_busy_key :: "nat \<Rightarrow> string \<Rightarrow> bool"
  re_busy_session :: "nat \<Rightarrow> uuid \<Rightarrow> bool"
  re_busy_bucket :: "nat \<Rightarrow> int \<Rightarrow> bool"
  re_created :: "uuid \<Rightarrow> int"

definition tick :: "rot_world \<Rightarrow> rot_world" where
  "tick w = w\<lparr>rw_tick := rw_tick w + 1\<rparr>"

definition on_db :: "(trace_db \<Rightarrow> trace_db) \<Rightarrow> rot_world \<Rightarrow> rot_world" where
  "on_db f w = w\<lparr>rw_db := f (rw_db w)\<rparr>"

definition instant :: "rot_env \<Rightarrow> rot_world \<Rightarrow> nanos" where
  "instant E w = re_clock E (rw_tick w)"

definition utc_now :: "rot_env \<Rightarrow> rot_world \<Rightarrow> int" where
  "utc_now E w = re_utc E (rw_tick w)"

definition finish_tx :: "tx_fault \<Rightarrow> rot_world \<Rightarrow> 'a \<times> rot_world \<Rightarrow> (unit + 'a) \<times> rot_world" where
  "finish_tx f w r =
    (case f of No_fault \<Rightarrow> (Inr (fst r), snd r) | Lost_ack \<Rightarrow> (Inl (), snd r) | _ \<Rightarrow> (Inl (), w))"

definition trace_order :: "trace_row \<Rightarrow> int \<times> uuid" where
  "trace_order t = (rt_started_at t, rt_id t)"

section \<open>Rotation by size\<close>

definition MAINTENANCE_TIME_BUDGET :: nanos where
  "MAINTENANCE_TIME_BUDGET = secs 30"

definition inline_bytes :: "trace_row \<Rightarrow> int" where
  "inline_bytes t = int (length (fst (rt_inline t))) + int (length (snd (rt_inline t)))"

record archive_footprint =
  retained_bytes :: int
  pending_bytes :: int
  pending_files :: nat

definition archive_footprint_of :: "trace_db \<Rightarrow> archive_footprint" where
  "archive_footprint_of d =
    \<lparr>retained_bytes = sum_list (map (\<lambda>p. as_compressed_bytes (snd p)) (st_segments (rd_store d))) +
       sum_list (map inline_bytes (filter (\<lambda>t. fst (rt_inline t) \<noteq> [] \<or> snd (rt_inline t) \<noteq> []) (rd_traces d))),
     pending_bytes = sum_list (map fd_bytes (rd_deletions d)), pending_files = length (rd_deletions d)\<rparr>"

definition holds_record :: "uuid \<Rightarrow> (uuid \<Rightarrow> bool) \<Rightarrow> archive_store \<Rightarrow> bool" where
  "holds_record seg Q s \<longleftrightarrow> list_ex (\<lambda>r. ar_segment_id r = seg \<and> Q (ar_trace_id r)) (st_records s)"

definition freed_bytes :: "uuid \<Rightarrow> trace_db \<Rightarrow> int" where
  "freed_bytes i d =
    sum_list (map (\<lambda>p. as_compressed_bytes (snd p))
      (filter (\<lambda>p. holds_record (fst p) (\<lambda>j. j = i) (rd_store d) \<and> \<not> holds_record (fst p) (\<lambda>j. j \<noteq> i) (rd_store d))
        (st_segments (rd_store d)))) +
    sum_list (map inline_bytes (filter (\<lambda>t. rt_id t = i) (rd_traces d)))"

definition i64_saturating_sub :: "int \<Rightarrow> int \<Rightarrow> int" where
  "i64_saturating_sub a b = clamp_i64 (a - b)"

fun rotate_loop :: "rot_env \<Rightarrow> int \<Rightarrow> int \<Rightarrow> nanos \<Rightarrow> uuid list \<Rightarrow> int \<Rightarrow> nat \<Rightarrow> rot_world \<Rightarrow> nat \<times> rot_world" where
  "rotate_loop E now limit deadline [] sz deleted w = (deleted, w)"
| "rotate_loop E now limit deadline (i # ids) sz deleted w =
    (let freed = freed_bytes i (rw_db w);
         deleted = deleted + length (filter (\<lambda>t. rt_id t = i) (rd_traces (rw_db w)));
         w = on_db (delete_traces now (\<lambda>t. rt_id t = i)) w;
         sz = i64_saturating_sub sz freed
     in if sz \<le> limit then (deleted, w)
        else if instant E w \<ge> deadline then (deleted, tick w)
        else rotate_loop E now limit deadline ids sz deleted (tick w))"

definition orphan_segments :: "rot_env \<Rightarrow> int \<Rightarrow> archive_store \<Rightarrow> uuid list" where
  "orphan_segments E batch s =
    take (nat batch) (map fst (sort_key (\<lambda>p. (re_created E (fst p), fst p))
      (filter (\<lambda>p. \<not> referenced (fst p) s) (st_segments s))))"

definition oldest_ids :: "int \<Rightarrow> trace_db \<Rightarrow> uuid list" where
  "oldest_ids batch d = map rt_id (take (nat batch) (sort_key trace_order (rd_traces d)))"

definition rotate_batch :: "rot_env \<Rightarrow> storage_config \<Rightarrow> rot_world \<Rightarrow> (unit + nat) \<times> rot_world" where
  "rotate_batch E cfg w =
    (let deadline = instant E w + MAINTENANCE_TIME_BUDGET; w = tick w;
         t = rw_tick w; now = utc_now E w; w = tick w
     in if re_fault E t = Early then (Inl (), w)
     else if \<not> re_lock E t then (Inr 0, w)
     else let w1 = on_db (\<lambda>d. fold (delete_segment now)
              (orphan_segments E (st_retention_prune_batch_size cfg) (rd_store d)) d) w;
              footprint = archive_footprint_of (rw_db w1)
       in if pending_files footprint > 0 then finish_tx (re_fault E t) w (0, w1)
       else if int (st_rotate_size_bytes cfg) > i64_max then (Inl (), w)
       else let limit = int (st_rotate_size_bytes cfg) in
         finish_tx (re_fault E t) w
           (if retained_bytes footprint > limit
            then rotate_loop E now limit deadline (oldest_ids (st_retention_prune_batch_size cfg) (rw_db w1))
              (retained_bytes footprint) 0 w1
            else (0, w1)))"

definition next_deletion :: "rot_env \<Rightarrow> nat \<Rightarrow> trace_db \<Rightarrow> file_deletion option" where
  "next_deletion E t d =
    (case sort_key (\<lambda>f. (fd_queued_at f, fd_key f)) (filter (\<lambda>f. \<not> re_busy_key E t (fd_key f)) (rd_deletions d)) of
       [] \<Rightarrow> None | f # _ \<Rightarrow> Some f)"

text \<open>A file that is already gone counts as removed; the queue entry goes only with
  the commit, so a crash or an error repeats the removal.\<close>

definition remove_archive_file :: "string \<Rightarrow> trace_db \<Rightarrow> trace_db" where
  "remove_archive_file path = on_store (\<lambda>s. s\<lparr>st_files := filter (\<lambda>p. fst p \<noteq> path) (st_files s)\<rparr>)"

definition dequeue :: "string \<Rightarrow> trace_db \<Rightarrow> trace_db" where
  "dequeue key d = d\<lparr>rd_deletions := filter (\<lambda>g. fd_key g \<noteq> key) (rd_deletions d)\<rparr>"

partial_function (option) collect_archive_files ::
  "rot_env \<Rightarrow> nanos \<Rightarrow> rot_world \<Rightarrow> ((unit + bool) \<times> rot_world) option" where
  "collect_archive_files E deadline w =
    (if \<not> instant E w < deadline then Some (Inr False, tick w)
     else let w = tick w; t = rw_tick w; w = tick w in
       if re_fault E t = Early then Some (Inl (), w)
       else case next_deletion E t (rw_db w) of
         None \<Rightarrow> Some (finish_tx (re_fault E t) w (rd_deletions (rw_db w) = [], w))
       | Some f \<Rightarrow>
           (case archive_file_path (fd_key f) of
              Inl e \<Rightarrow> Some (Inl (), w)
            | Inr path \<Rightarrow>
                if re_fault E t = File_fault then Some (Inl (), w)
                else let w = on_db (remove_archive_file path) w in
                  (case finish_tx (re_fault E t) w ((), on_db (dequeue (fd_key f)) w) of
                     (Inl e, w) \<Rightarrow> Some (Inl (), w)
                   | (Inr _, w) \<Rightarrow> collect_archive_files E deadline w)))"

definition session_empty :: "uuid \<Rightarrow> trace_db \<Rightarrow> bool" where
  "session_empty i d \<longleftrightarrow> \<not> list_ex (\<lambda>t. rt_session t = Some i) (rd_traces d)"

definition doomed_sessions :: "rot_env \<Rightarrow> nat \<Rightarrow> int \<Rightarrow> int \<Rightarrow> trace_db \<Rightarrow> uuid list" where
  "doomed_sessions E t cutoff batch d =
    take (nat batch) (map fst (sort_key (\<lambda>p. (se_last_seen (snd p), fst p))
      (filter (\<lambda>p. se_last_seen (snd p) < cutoff \<and> session_empty (fst p) d \<and> \<not> re_busy_session E t (fst p)) (rd_sessions d))))"

definition delete_empty_sessions_before :: "rot_env \<Rightarrow> int \<Rightarrow> int \<Rightarrow> rot_world \<Rightarrow> (unit + nat) \<times> rot_world" where
  "delete_empty_sessions_before E cutoff batch w =
    (let t = rw_tick w; now = utc_now E w; w = tick w;
         ids = filter (\<lambda>i. session_empty i (rw_db w)) (doomed_sessions E t cutoff batch (rw_db w))
     in finish_tx (re_fault E t) w (length ids, on_db (fold (delete_session now) ids) w))"

partial_function (option) maintain_loop ::
  "rot_env \<Rightarrow> storage_config \<Rightarrow> nanos \<Rightarrow> nat \<Rightarrow> rot_world \<Rightarrow> ((unit + nat) \<times> rot_world) option" where
  "maintain_loop E cfg deadline deleted w =
    Option.bind (collect_archive_files E deadline w) (\<lambda>(collected, w).
    case collected of
      Inl e \<Rightarrow> Some (Inl (), w)
    | Inr ready \<Rightarrow>
        if \<not> ready then Some (Inr deleted, w)
        else if instant E w \<ge> deadline \<or> st_rotate_size_bytes cfg = 0 then Some (Inr deleted, tick w)
        else (case rotate_batch E cfg (tick w) of
            (Inl e, w) \<Rightarrow> Some (Inl (), w)
          | (Inr removed, w) \<Rightarrow>
              (case delete_empty_sessions_before E (utc_now E w) (st_retention_prune_batch_size cfg) (tick w) of
                 (Inl e, w) \<Rightarrow> Some (Inl (), w)
               | (Inr _, w) \<Rightarrow>
                   if removed = 0
                   then Option.bind (collect_archive_files E deadline w) (\<lambda>(collected, w).
                     Some (case collected of Inl e \<Rightarrow> Inl () | Inr _ \<Rightarrow> Inr (deleted + removed), w))
                   else maintain_loop E cfg deadline (deleted + removed) w)))"

definition maintain_archive :: "rot_env \<Rightarrow> storage_config \<Rightarrow> rot_world \<Rightarrow> ((unit + nat) \<times> rot_world) option" where
  "maintain_archive E cfg w = maintain_loop E cfg (instant E w + MAINTENANCE_TIME_BUDGET) 0 (tick w)"

section \<open>Retention by age\<close>

definition retention_cutoff :: "int \<Rightarrow> int \<Rightarrow> int" where
  "retention_cutoff now retention_days = now - retention_days * 86400000000"

text \<open>Rows of a table with a key and a time, older than the cutoff, oldest first.\<close>

definition doomed_rows :: "('k::linorder \<times> int) list \<Rightarrow> int \<Rightarrow> int \<Rightarrow> 'k list" where
  "doomed_rows rows cutoff batch =
    take (nat batch) (map fst (sort_key (\<lambda>p. (snd p, fst p)) (filter (\<lambda>p. snd p < cutoff) rows)))"

definition delete_request_traces_before :: "rot_env \<Rightarrow> int \<Rightarrow> int \<Rightarrow> rot_world \<Rightarrow> (unit + nat) \<times> rot_world" where
  "delete_request_traces_before E cutoff batch w =
    (let t = rw_tick w; now = utc_now E w; w = tick w in
     if re_fault E t = Early then (Inl (), w)
     else if \<not> re_lock E t then (Inr 0, w)
     else let doomed = doomed_rows (map (\<lambda>r. (rt_id r, rt_started_at r)) (rd_traces (rw_db w))) cutoff batch in
       finish_tx (re_fault E t) w
         (length (filter (\<lambda>r. rt_id r \<in> set doomed) (rd_traces (rw_db w))),
          on_db (delete_traces now (\<lambda>r. rt_id r \<in> set doomed)) w))"

definition bucket_empty :: "int \<Rightarrow> trace_db \<Rightarrow> bool" where
  "bucket_empty b d \<longleftrightarrow> \<not> list_ex (\<lambda>t. b \<le> rt_started_at t \<and> rt_started_at t < b + 60000000) (rd_traces d)"

definition delete_rollups_before :: "rot_env \<Rightarrow> int \<Rightarrow> int \<Rightarrow> rot_world \<Rightarrow> (unit + nat) \<times> rot_world" where
  "delete_rollups_before E cutoff batch w =
    (let t = rw_tick w; w = tick w; d = rw_db w;
         buckets = take (nat batch) (sort (filter (\<lambda>b. b < cutoff \<and> bucket_empty b d \<and> \<not> re_busy_bucket E t b)
           (map fst (rd_rollups d))));
         gone = (\<lambda>p. fst p \<in> set buckets \<and> bucket_empty (fst p) d)
     in finish_tx (re_fault E t) w
          (length (filter gone (rd_rollups d)), on_db (\<lambda>d. d\<lparr>rd_rollups := filter (\<lambda>p. \<not> gone p) (rd_rollups d)\<rparr>) w))"

definition delete_ui_audit_events_before :: "rot_env \<Rightarrow> int \<Rightarrow> int \<Rightarrow> rot_world \<Rightarrow> (unit + nat) \<times> rot_world" where
  "delete_ui_audit_events_before E cutoff batch w =
    (let t = rw_tick w; w = tick w; doomed = doomed_rows (rw_audit w) cutoff batch
     in finish_tx (re_fault E t) w (length (filter (\<lambda>p. fst p \<in> set doomed) (rw_audit w)),
          w\<lparr>rw_audit := filter (\<lambda>p. fst p \<notin> set doomed) (rw_audit w)\<rparr>))"

definition delete_expired_ui_sessions :: "rot_env \<Rightarrow> int \<Rightarrow> int \<Rightarrow> rot_world \<Rightarrow> (unit + nat) \<times> rot_world" where
  "delete_expired_ui_sessions E now batch w =
    (let t = rw_tick w; w = tick w; doomed = doomed_rows (rw_ui_sessions w) now batch
     in finish_tx (re_fault E t) w (length (filter (\<lambda>p. fst p \<in> set doomed) (rw_ui_sessions w)),
          w\<lparr>rw_ui_sessions := filter (\<lambda>p. fst p \<notin> set doomed) (rw_ui_sessions w)\<rparr>))"

definition delete_expired_oauth_states :: "rot_env \<Rightarrow> int \<Rightarrow> int \<Rightarrow> rot_world \<Rightarrow> (unit + nat) \<times> rot_world" where
  "delete_expired_oauth_states E now batch w =
    (let t = rw_tick w; w = tick w; doomed = doomed_rows (rw_oauth_states w) now batch
     in finish_tx (re_fault E t) w (length (filter (\<lambda>p. fst p \<in> set doomed) (rw_oauth_states w)),
          w\<lparr>rw_oauth_states := filter (\<lambda>p. fst p \<notin> set doomed) (rw_oauth_states w)\<rparr>))"

record retention_prune_result =
  rp_request_traces :: nat
  rp_trace_rollups_minute :: nat
  rp_trace_sessions :: nat
  rp_ui_audit_events :: nat
  rp_ui_sessions :: nat
  rp_oauth_states :: nat

definition total_deleted :: "retention_prune_result \<Rightarrow> nat" where
  "total_deleted r = rp_request_traces r + rp_trace_rollups_minute r + rp_trace_sessions r + rp_ui_audit_events r +
    rp_ui_sessions r + rp_oauth_states r"

definition tx_then :: "(unit + 'a) \<times> rot_world \<Rightarrow> ('a \<Rightarrow> rot_world \<Rightarrow> (unit + 'b) \<times> rot_world) \<Rightarrow> (unit + 'b) \<times> rot_world" where
  "tx_then r f = (case r of (Inl e, w) \<Rightarrow> (Inl (), w) | (Inr a, w) \<Rightarrow> f a w)"

definition prune_retention :: "rot_env \<Rightarrow> int \<Rightarrow> int \<Rightarrow> rot_world \<Rightarrow> (unit + retention_prune_result) \<times> rot_world" where
  "prune_retention E retention_days batch w =
    (if retention_days \<le> 0 then (Inl (), w)
     else if batch \<le> 0 then (Inl (), w)
     else let now = utc_now E w; cutoff = retention_cutoff now retention_days; w = tick w in
       tx_then (delete_request_traces_before E cutoff batch w) (\<lambda>request_traces w.
       tx_then (delete_rollups_before E cutoff batch w) (\<lambda>rollups w.
       tx_then (delete_empty_sessions_before E cutoff batch w) (\<lambda>sessions w.
       tx_then (delete_ui_audit_events_before E cutoff batch w) (\<lambda>audit w.
       tx_then (delete_expired_ui_sessions E now batch w) (\<lambda>ui w.
       tx_then (delete_expired_oauth_states E now batch w) (\<lambda>oauth w.
       (Inr \<lparr>rp_request_traces = request_traces, rp_trace_rollups_minute = rollups, rp_trace_sessions = sessions,
          rp_ui_audit_events = audit, rp_ui_sessions = ui, rp_oauth_states = oauth\<rparr>, w))))))))"

text \<open>The administration view: what a retention run would remove, and the footprint.\<close>

definition RETENTION_STATUS_SQL :: "int option \<Rightarrow> int \<Rightarrow> rot_world \<Rightarrow> int list" where
  "RETENTION_STATUS_SQL cutoff now w =
    (let rows = (\<lambda>P xs. int (length (filter P xs))); d = rw_db w;
         when = (\<lambda>f. case cutoff of None \<Rightarrow> 0 | Some c \<Rightarrow> f c)
     in [when (\<lambda>c. rows (\<lambda>t. t < c) (map rt_started_at (rd_traces d))), when (\<lambda>c. rows (\<lambda>b. b < c) (map fst (rd_rollups d))),
         when (\<lambda>c. int (length (filter (\<lambda>p. se_last_seen (snd p) < c \<and> session_empty (fst p) d) (rd_sessions d)))),
         when (\<lambda>c. rows (\<lambda>t. t < c) (map snd (rw_audit w))), rows (\<lambda>t. t < now) (map snd (rw_ui_sessions w)),
         rows (\<lambda>t. t < now) (map snd (rw_oauth_states w))])"

definition retention_expired_total :: "int list \<Rightarrow> int" where
  "retention_expired_total counts = sum_list (map (max 0) counts)"

definition retention_status :: "(int \<Rightarrow> string) \<Rightarrow> rot_env \<Rightarrow> storage_config \<Rightarrow> rot_world \<Rightarrow> unit + json" where
  "retention_status show_time E cfg w =
    (if (case st_retention_days cfg of Some days \<Rightarrow> days \<le> 0 | None \<Rightarrow> False) then Inl ()
     else let now = utc_now E w; cutoff = map_option (retention_cutoff now) (st_retention_days cfg);
              number = (\<lambda>i. JNumber (if i \<ge> 0 then PosInt (nat i) else NegInt i)); row = RETENTION_STATUS_SQL cutoff now w;
              footprint = archive_footprint_of (rw_db w); limit = int (st_rotate_size_bytes cfg)
       in if re_fault E (rw_tick w) \<noteq> No_fault then Inl ()
       else Inr (JObject
        [(''checked_at'', JString (show_time now)), (''cutoff'', case cutoff of Some c \<Rightarrow> JString (show_time c) | None \<Rightarrow> JNull),
         (''enabled'', JBool (st_retention_days cfg \<noteq> None)),
         (''expired'', JObject
           [(''oauth_states'', number (row ! 5)), (''request_traces'', number (row ! 0)), (''total'', number (retention_expired_total row)),
            (''trace_rollups_minute'', number (row ! 1)), (''trace_sessions'', number (row ! 2)),
            (''ui_audit_events'', number (row ! 3)), (''ui_sessions'', number (row ! 4))]),
         (''prune_batch_size'', number (st_retention_prune_batch_size cfg)),
         (''prune_interval_secs'', number (int (st_retention_prune_interval_secs cfg))),
         (''retention_days'', case st_retention_days cfg of Some days \<Rightarrow> number days | None \<Rightarrow> JNull),
         (''rotation'', JObject
           [(''check_interval_secs'', number (int (st_rotate_check_interval_secs cfg))), (''enabled'', JBool (limit > 0)),
            (''over_limit'', JBool (limit > 0 \<and>
               clamp_i64 (retained_bytes footprint + pending_bytes footprint) mod 18446744073709551616 > limit)),
            (''pending_delete_bytes'', number (pending_bytes footprint)),
            (''pending_delete_files'', number (int (pending_files footprint))),
            (''retained_bytes'', number (retained_bytes footprint)), (''size_bytes'', number limit)])]))"

section \<open>Each transaction\<close>

lemma world_simps [simp]:
  "rw_db (tick w) = rw_db w" "rw_db (on_db f w) = f (rw_db w)" "rw_tick (tick w) = rw_tick w + 1" "rw_tick (on_db f w) = rw_tick w"
  by (simp_all add: tick_def on_db_def)

lemma finish_tx_cases:
  assumes "finish_tx f w r = (res, w')"
  shows "w' = w \<and> res = Inl () \<or> w' = snd r \<and> (res = Inl () \<or> res = Inr (fst r))"
  using assms by (cases f) (auto simp: finish_tx_def)

lemma fold_removes:
  assumes "db_wf d" "\<And>x d. x \<in> set xs \<Longrightarrow> db_wf d \<Longrightarrow> rd_traces d = ts \<Longrightarrow> removes (\<lambda>_. False) d (f x d)" "rd_traces d = ts"
  shows "removes (\<lambda>_. False) d (fold f xs d)"
  using assms
proof (induction xs arbitrary: d)
  case Nil
  then show ?case by (simp add: removes_refl)
next
  case (Cons x xs)
  have s: "removes (\<lambda>_. False) d (f x d)" by (rule Cons.prems(2)) (use Cons.prems in simp_all)
  then have "removes (\<lambda>_. False) (f x d) (fold f xs (f x d))"
    using Cons.IH [OF removesD(1) [OF s]] Cons.prems removesD(2) [OF s] by simp
  from removes_trans [OF s this] show ?case by simp
qed

lemma orphans_removes:
  assumes "db_wf d"
  shows "removes (\<lambda>_. False) d (fold (delete_segment now) (orphan_segments E batch (rd_store d)) d)"
proof (rule purged_removes [OF assms purged_segments])
  fix i assume "i \<in> set (orphan_segments E batch (rd_store d))"
  then show "\<not> referenced i (rd_store d)" by (auto simp: orphan_segments_def dest!: in_set_takeD)
qed

lemma sessions_removes:
  assumes "db_wf d" "\<And>i. i \<in> set ids \<Longrightarrow> session_empty i d"
  shows "removes (\<lambda>_. False) d (fold (delete_session now) ids d)"
proof (rule fold_removes [OF assms(1)])
  fix i d' assume "i \<in> set ids" "db_wf d'" "rd_traces d' = rd_traces d"
  with assms(2) show "removes (\<lambda>_. False) d' (delete_session now i d')"
    by (intro delete_session_removes) (auto simp: session_empty_def list_ex_iff)
qed simp

lemma file_removes:
  assumes wf: "db_wf d" and f: "f \<in> set (rd_deletions d)" and p: "archive_file_path (fd_key f) = Inr path"
  shows "removes (\<lambda>_. False) d (remove_archive_file path d)"
    and "removes (\<lambda>_. False) d (dequeue (fd_key f) (remove_archive_file path d))"
proof -
  have path: "path = fd_key f" using archive_file_path_id [OF p] .
  have bodies: "same_bodies i (rd_store d) (rd_store (remove_archive_file path d))" for i
  proof (rule same_bodiesI)
    fix q assume q: "q \<in> set (own_segments i (rd_store d))" "as_backend (snd q) = ''filesystem''"
    have "as_key (snd q) \<notin> fd_key ` set (rd_deletions d)"
      using archive_wfD(3) [OF db_wfD(1) [OF wf]] own_segment_referenced [OF q(1)] q(2) by blast
    then have "as_key (snd q) \<noteq> path" using f path by auto
    then show "map_of (st_files (rd_store (remove_archive_file path d))) (as_key (snd q)) = map_of (st_files (rd_store d)) (as_key (snd q))"
      by (simp add: remove_archive_file_def on_store_def map_of_filter_neq)
  qed (simp_all add: remove_archive_file_def on_store_def trace_records_def own_segments_def)
  have aw: "archive_wf (remove_archive_file path d)"
    by (rule archive_wf_fewer_records [OF db_wfD(1) [OF wf]]) (simp_all add: remove_archive_file_def on_store_def)
  have td: "tidy d \<longrightarrow> tidy (remove_archive_file path d)"
    by (simp add: tidy_def referenced_def remove_archive_file_def on_store_def)
  show "removes (\<lambda>_. False) d (remove_archive_file path d)"
    by (rule same_core_removes [OF wf _ aw _ bodies _ td]) (simp_all add: remove_archive_file_def on_store_def core_def)
  have eq: "rd_store (dequeue (fd_key f) (remove_archive_file path d)) = rd_store (remove_archive_file path d)"
    "set (rd_deletions (dequeue (fd_key f) (remove_archive_file path d))) \<subseteq> set (rd_deletions (remove_archive_file path d))"
    by (auto simp: dequeue_def)
  have aw2: "archive_wf (dequeue (fd_key f) (remove_archive_file path d))"
    using archive_wfD [OF aw] eq(2) unfolding archive_wf_def eq(1) by blast
  have td2: "tidy d \<longrightarrow> tidy (dequeue (fd_key f) (remove_archive_file path d))"
    using td eq(2) unfolding tidy_def eq(1) by blast
  show "removes (\<lambda>_. False) d (dequeue (fd_key f) (remove_archive_file path d))"
    by (rule same_core_removes [OF wf _ aw2 _ _ _ td2])
      (simp_all add: bodies eq(1), simp_all add: dequeue_def remove_archive_file_def on_store_def core_def)
qed

section \<open>Oldest first\<close>

definition oldest_first :: "(trace_row \<Rightarrow> bool) \<Rightarrow> trace_db \<Rightarrow> bool" where
  "oldest_first P d \<longleftrightarrow>
    (\<forall>t\<in>set (rd_traces d). \<forall>u\<in>set (rd_traces d). P t \<and> \<not> P u \<longrightarrow> trace_order t \<le> trace_order u)"

definition evicts :: "trace_db \<Rightarrow> trace_db \<Rightarrow> bool" where
  "evicts d d' \<longleftrightarrow> (\<exists>P. removes P d d' \<and> oldest_first P d)"

lemma evicts_nothing: "removes (\<lambda>_. False) d d' \<Longrightarrow> evicts d d'"
  unfolding evicts_def oldest_first_def by blast

lemma evicts_trans:
  assumes "evicts d d'" "evicts d' d''"
  shows "evicts d d''"
proof -
  obtain P Q where p: "removes P d d'" "oldest_first P d" and q: "removes Q d' d''" "oldest_first Q d'"
    using assms unfolding evicts_def by blast
  have "oldest_first (\<lambda>t. P t \<or> Q t) d"
    using p(2) q(2) unfolding oldest_first_def removesD(2) [OF p(1)] set_filter by blast
  with removes_trans [OF p(1) q(1)] show ?thesis unfolding evicts_def by blast
qed

lemma evicts_wf: "evicts d d' \<Longrightarrow> db_wf d'"
  by (auto simp: evicts_def dest: removesD(1))

lemma evicts_fewer: "evicts d d' \<Longrightarrow> length (rd_traces d') \<le> length (rd_traces d)"
  by (auto simp: evicts_def removes_def)

lemma removed_count:
  assumes "db_wf d" "removes (\<lambda>t. rt_id t \<in> set ids) d d'" "distinct ids" "set ids \<subseteq> rt_id ` set (rd_traces d)"
  shows "length (rd_traces d) = length (rd_traces d') + length ids"
proof -
  have inj: "inj_on rt_id (set (rd_traces d))" and dist: "distinct (rd_traces d)"
    using db_wfD(2) [OF assms(1)] by (simp_all add: distinct_map)
  have img: "rt_id ` set (filter (\<lambda>t. rt_id t \<in> set ids) (rd_traces d)) = set ids" using assms(4) by auto
  have "length (filter (\<lambda>t. rt_id t \<in> set ids) (rd_traces d)) = card (set (filter (\<lambda>t. rt_id t \<in> set ids) (rd_traces d)))"
    using dist by (intro distinct_card [symmetric] distinct_filter)
  also have "\<dots> = card (rt_id ` set (filter (\<lambda>t. rt_id t \<in> set ids) (rd_traces d)))"
    by (rule card_image [symmetric]) (rule inj_on_subset [OF inj], simp)
  also have "\<dots> = card (set ids)" by (simp only: img)
  also have "\<dots> = length ids" using assms(3) by (rule distinct_card)
  finally show ?thesis
    using sum_length_filter_compl [of "\<lambda>t. rt_id t \<in> set ids" "rd_traces d"] removesD(2) [OF assms(2)] by simp
qed

lemma oldest_ids_first:
  assumes "db_wf d" "m \<le> length (oldest_ids batch d)"
  shows "oldest_first (\<lambda>t. rt_id t \<in> set (take m (oldest_ids batch d))) d"
    and "distinct (oldest_ids batch d)" and "set (oldest_ids batch d) \<subseteq> rt_id ` set (rd_traces d)"
proof -
  define xs where "xs = sort_key trace_order (rd_traces d)"
  have set: "set xs = set (rd_traces d)" by (simp add: xs_def)
  have inj: "inj_on rt_id (set xs)" and dist: "distinct xs"
    using db_wfD(2) [OF assms(1)] by (simp_all add: distinct_map set xs_def)
  have ids: "oldest_ids batch d = map rt_id (take (nat batch) xs)" by (simp add: oldest_ids_def xs_def)
  show "distinct (oldest_ids batch d)" "set (oldest_ids batch d) \<subseteq> rt_id ` set (rd_traces d)"
    unfolding ids set [symmetric] using inj dist
    by (auto simp: distinct_map dest: in_set_takeD intro: inj_on_subset [OF inj])
  define k where "k = min m (nat batch)"
  have take: "take m (oldest_ids batch d) = map rt_id (take k xs)" by (simp add: ids take_map k_def min.commute)
  have "sorted (map trace_order xs)" by (simp add: xs_def)
  then have "sorted (map trace_order (take k xs) @ map trace_order (drop k xs))" by (simp flip: map_append)
  then have le: "trace_order t \<le> trace_order u" if "t \<in> set (take k xs)" "u \<in> set (drop k xs)" for t u
    using that by (auto simp: sorted_append)
  show "oldest_first (\<lambda>t. rt_id t \<in> set (take m (oldest_ids batch d))) d"
    unfolding oldest_first_def
  proof (intro ballI impI, elim conjE)
    fix t u assume t: "t \<in> set (rd_traces d)" "rt_id t \<in> set (take m (oldest_ids batch d))"
      and u: "u \<in> set (rd_traces d)" "rt_id u \<notin> set (take m (oldest_ids batch d))"
    obtain v where v: "v \<in> set (take k xs)" "rt_id v = rt_id t" using t(2) unfolding take by auto
    have "v \<in> set xs" "t \<in> set xs" using v(1) t(1) by (auto simp: set dest: in_set_takeD)
    with inj_onD [OF inj v(2)] have "v = t" by blast
    moreover have "u \<in> set (drop k xs)"
      using u by (metis Un_iff append_take_drop_id image_eqI list.set_map set set_append take)
    ultimately show "trace_order t \<le> trace_order u" using le v(1) by blast
  qed
qed

lemma next_deletion_queued:
  assumes "next_deletion E t d = Some f"
  shows "f \<in> set (rd_deletions d)"
proof -
  define xs where "xs = sort_key (\<lambda>f. (fd_queued_at f, fd_key f)) (filter (\<lambda>f. \<not> re_busy_key E t (fd_key f)) (rd_deletions d))"
  have "f \<in> set xs" using assms by (simp add: next_deletion_def xs_def [symmetric] split: list.splits)
  then show ?thesis by (simp add: xs_def)
qed

lemma dequeue_shorter: "f \<in> set (rd_deletions d) \<Longrightarrow> length (rd_deletions (dequeue (fd_key f) d)) < length (rd_deletions d)"
  unfolding dequeue_def by (simp add: length_filter_less)

lemma collect_returns:
  assumes "db_wf (rw_db w)"
  shows "\<exists>res w'. collect_archive_files E deadline w = Some (res, w') \<and> removes (\<lambda>_. False) (rw_db w) (rw_db w') \<and>
    (res = Inr True \<longrightarrow> rd_deletions (rw_db w') = [])"
  using assms
proof (induction "length (rd_deletions (rw_db w))" arbitrary: w rule: less_induct)
  case less
  define t where "t = rw_tick (tick w)"
  define w1 where "w1 = tick (tick w)"
  have w1: "rw_db w1 = rw_db w" by (simp add: w1_def)
  have refl: "removes (\<lambda>_. False) (rw_db w) (rw_db w)" by (rule removes_refl [OF less.prems])
  show ?case
  proof (cases "instant E w < deadline \<and> re_fault E t \<noteq> Early")
    case False
    then show ?thesis using refl
      by (subst collect_archive_files.simps) (auto simp: Let_def t_def)
  next
    case go: True
    show ?thesis
    proof (cases "next_deletion E t (rw_db w)")
      case None
      then have "collect_archive_files E deadline w = Some (finish_tx (re_fault E t) w1 (rd_deletions (rw_db w) = [], w1))"
        using go by (subst collect_archive_files.simps) (simp add: Let_def t_def w1_def)
      then show ?thesis using refl by (cases "re_fault E t") (simp_all add: finish_tx_def w1)
    next
      case (Some f)
      note f = next_deletion_queued [OF Some]
      show ?thesis
      proof (cases "archive_file_path (fd_key f)")
        case (Inl e)
        then show ?thesis using refl go Some
          by (subst collect_archive_files.simps) (simp add: Let_def t_def)
      next
        case (Inr path)
        define w2 where "w2 = on_db (remove_archive_file path) w1"
        define w3 where "w3 = on_db (dequeue (fd_key f)) w2"
        have step: "collect_archive_files E deadline w = (if re_fault E t = File_fault then Some (Inl (), w1)
            else case finish_tx (re_fault E t) w2 ((), w3) of (Inl e, w) \<Rightarrow> Some (Inl (), w)
               | (Inr _, w) \<Rightarrow> collect_archive_files E deadline w)"
          using go Some Inr by (subst collect_archive_files.simps) (simp add: Let_def t_def w1_def w2_def w3_def)
        have r2: "removes (\<lambda>_. False) (rw_db w) (rw_db w2)" and r3: "removes (\<lambda>_. False) (rw_db w) (rw_db w3)"
          using file_removes [OF less.prems f Inr] by (simp_all add: w2_def w3_def w1)
        have "length (rd_deletions (rw_db w3)) < length (rd_deletions (rw_db w))"
          using dequeue_shorter [OF f] by (simp add: w3_def w2_def w1 remove_archive_file_def on_store_def dequeue_def)
        from less.hyps [OF this removesD(1) [OF r3]] obtain res w' where
          IH: "collect_archive_files E deadline w3 = Some (res, w')" "removes (\<lambda>_. False) (rw_db w3) (rw_db w')"
            "res = Inr True \<longrightarrow> rd_deletions (rw_db w') = []" by blast
        have "removes (\<lambda>_. False) (rw_db w) (rw_db w')" using removes_trans [OF r3 IH(2)] by simp
        with refl r2 r3 IH(1,3) show ?thesis unfolding step by (cases "re_fault E t") (simp_all add: finish_tx_def w1)
      qed
    qed
  qed
qed

lemma evict_one:
  assumes "db_wf d" "distinct (i # ids)" "set (i # ids) \<subseteq> rt_id ` set (rd_traces d)"
    and "d' = delete_traces now (\<lambda>t. rt_id t = i) d"
  shows "removes (\<lambda>t. rt_id t \<in> set [i]) d d'" "length (filter (\<lambda>t. rt_id t = i) (rd_traces d)) = 1"
    "set ids \<subseteq> rt_id ` set (rd_traces d')"
proof -
  show r: "removes (\<lambda>t. rt_id t \<in> set [i]) d d'" using delete_traces_removes [OF assms(1)] by (simp add: assms(4))
  have "length (rd_traces d) = length (rd_traces d') + length [i]"
    by (rule removed_count [OF assms(1) r]) (use assms(3) in auto)
  then show "length (filter (\<lambda>t. rt_id t = i) (rd_traces d)) = 1"
    using removesD(2) [OF r] sum_length_filter_compl [of "\<lambda>t. rt_id t = i" "rd_traces d"] by simp
  show "set ids \<subseteq> rt_id ` set (rd_traces d')"
  proof
    fix j assume "j \<in> set ids"
    then have "j \<in> rt_id ` set (rd_traces d)" and "j \<noteq> i" using assms(2,3) by auto
    then obtain u where "u \<in> set (rd_traces d)" "rt_id u = j" "j \<noteq> i" by blast
    then show "j \<in> rt_id ` set (rd_traces d')" using removesD(2) [OF r] by auto
  qed
qed

lemma rotate_loop_spec:
  assumes "rotate_loop E now limit deadline ids sz deleted w = (n, w')"
    and "db_wf (rw_db w)" "distinct ids" "set ids \<subseteq> rt_id ` set (rd_traces (rw_db w))"
  shows "\<exists>k\<le>length ids. removes (\<lambda>t. rt_id t \<in> set (take k ids)) (rw_db w) (rw_db w') \<and> n = deleted + k"
  using assms
proof (induction ids arbitrary: sz deleted w)
  case Nil
  then show ?case by (simp add: removes_refl)
next
  case (Cons i ids)
  define w1 where "w1 = on_db (delete_traces now (\<lambda>t. rt_id t = i)) w"
  define freed where "freed = freed_bytes i (rw_db w)"
  have "rw_db w1 = delete_traces now (\<lambda>t. rt_id t = i) (rw_db w)" by (simp add: w1_def)
  note one = evict_one [OF Cons.prems(2,3,4) this]
  show ?case
  proof (cases "i64_saturating_sub sz freed \<le> limit \<or> instant E w1 \<ge> deadline")
    case True
    then have "n = deleted + 1 \<and> rw_db w' = rw_db w1"
      using Cons.prems(1) by (auto simp: Let_def one(2) freed_def [symmetric] w1_def [symmetric] split: if_splits)
    with one(1) show ?thesis by (intro exI [of _ 1]) simp
  next
    case False
    then have run: "rotate_loop E now limit deadline ids (i64_saturating_sub sz freed) (deleted + 1) (tick w1) = (n, w')"
      using Cons.prems(1) by (simp add: Let_def one(2) freed_def [symmetric] w1_def [symmetric])
    from Cons.IH [OF run] removesD(1) [OF one(1)] one(3) Cons.prems(3) obtain k where k: "k \<le> length ids"
      "removes (\<lambda>t. rt_id t \<in> set (take k ids)) (rw_db w1) (rw_db w')" "n = deleted + 1 + k" by auto
    from removes_trans [OF one(1) k(2)] k(1,3) show ?thesis by (intro exI [of _ "Suc k"]) (simp add: conj_disj_distribR)
  qed
qed

definition reported :: "unit + nat \<Rightarrow> nat \<Rightarrow> trace_db \<Rightarrow> trace_db \<Rightarrow> bool" where
  "reported res before d d' \<longleftrightarrow> (\<forall>n. res = Inr n \<longrightarrow> n + length (rd_traces d') = before + length (rd_traces d))"

lemma rotate_batch_spec:
  assumes "db_wf (rw_db w)" "rotate_batch E cfg w = (res, w')"
  shows "evicts (rw_db w) (rw_db w') \<and> reported res 0 (rw_db w) (rw_db w')"
proof -
  let ?b = "st_retention_prune_batch_size cfg"
  define w0 where "w0 = tick (tick w)"
  define now where "now = utc_now E (tick w)"
  define t where "t = rw_tick (tick w)"
  define dl where "dl = instant E w + MAINTENANCE_TIME_BUDGET"
  define w1 where "w1 = on_db (\<lambda>d. fold (delete_segment now) (orphan_segments E ?b (rd_store d)) d) w0"
  have w0: "rw_db w0 = rw_db w" by (simp add: w0_def)
  have r1: "removes (\<lambda>_. False) (rw_db w) (rw_db w1)" using orphans_removes [OF assms(1)] by (simp add: w1_def w0)
  have same: "evicts (rw_db w) (rw_db w0)" "length (rd_traces (rw_db w0)) = length (rd_traces (rw_db w))"
    using evicts_nothing [OF removes_refl [OF assms(1)]] by (simp_all add: w0)
  have swept: "evicts (rw_db w) (rw_db w1)" "length (rd_traces (rw_db w1)) = length (rd_traces (rw_db w))"
    using evicts_nothing [OF r1] removesD(2) [OF r1] by simp_all
  obtain n w2 where loop: "rotate_loop E now (int (st_rotate_size_bytes cfg)) dl (oldest_ids ?b (rw_db w1))
      (retained_bytes (archive_footprint_of (rw_db w1))) 0 w1 = (n, w2)" by (metis surj_pair)
  have old: "distinct (oldest_ids ?b (rw_db w1))" "set (oldest_ids ?b (rw_db w1)) \<subseteq> rt_id ` set (rd_traces (rw_db w1))"
    by (rule oldest_ids_first [OF removesD(1) [OF r1], of 0], simp)+
  from rotate_loop_spec [OF loop removesD(1) [OF r1] old] obtain k where k: "k \<le> length (oldest_ids ?b (rw_db w1))"
    "removes (\<lambda>t. rt_id t \<in> set (take k (oldest_ids ?b (rw_db w1)))) (rw_db w1) (rw_db w2)" "n = k" by auto
  have "evicts (rw_db w1) (rw_db w2)"
    using k(2) oldest_ids_first(1) [OF removesD(1) [OF r1] k(1)] unfolding evicts_def by blast
  with swept(1) have ev: "evicts (rw_db w) (rw_db w2)" by (rule evicts_trans)
  have "length (rd_traces (rw_db w1)) = length (rd_traces (rw_db w2)) + length (take k (oldest_ids ?b (rw_db w1)))"
    by (rule removed_count [OF removesD(1) [OF r1] k(2)]) (use old in \<open>auto dest: in_set_takeD\<close>)
  then have cnt: "n + length (rd_traces (rw_db w2)) = length (rd_traces (rw_db w))" using k(1,3) swept(2) by simp
  have fin: "evicts (rw_db w) (rw_db w') \<and> reported res 0 (rw_db w) (rw_db w')"
    if "finish_tx (re_fault E t) w0 (m, wf) = (res, w')" "evicts (rw_db w) (rw_db wf)"
      "m + length (rd_traces (rw_db wf)) = length (rd_traces (rw_db w))" for m wf
    using finish_tx_cases [OF that(1)] that(2,3) same by (auto simp: reported_def)
  have eq: "rotate_batch E cfg w =
      (if re_fault E t = Early then (Inl (), w0) else if \<not> re_lock E t then (Inr 0, w0)
       else if pending_files (archive_footprint_of (rw_db w1)) > 0 then finish_tx (re_fault E t) w0 (0, w1)
       else if int (st_rotate_size_bytes cfg) > i64_max then (Inl (), w0)
       else finish_tx (re_fault E t) w0
         (if retained_bytes (archive_footprint_of (rw_db w1)) > int (st_rotate_size_bytes cfg) then (n, w2) else (0, w1)))"
    unfolding loop [symmetric] by (simp add: rotate_batch_def Let_def t_def now_def dl_def w0_def w1_def)
  have "rotate_batch E cfg w = (Inl (), w0) \<or> rotate_batch E cfg w = (Inr 0, w0) \<or>
      rotate_batch E cfg w = finish_tx (re_fault E t) w0 (0, w1) \<or> rotate_batch E cfg w = finish_tx (re_fault E t) w0 (n, w2)"
    unfolding eq by presburger
  then consider "res = Inl ()" "w' = w0" | "res = Inr 0" "w' = w0" | "finish_tx (re_fault E t) w0 (0, w1) = (res, w')"
    | "finish_tx (re_fault E t) w0 (n, w2) = (res, w')"
    unfolding assms(2) by fastforce
  then show ?thesis
  proof cases
    case 3
    from fin [OF this] swept show ?thesis by simp
  next
    case 4
    from fin [OF this ev cnt] show ?thesis .
  qed (use same in \<open>simp_all add: reported_def\<close>)
qed

lemma delete_sessions_spec:
  assumes "db_wf (rw_db w)" "delete_empty_sessions_before E cutoff batch w = (res, w')"
  shows "removes (\<lambda>_. False) (rw_db w) (rw_db w')"
proof -
  define now where "now = utc_now E w"
  define ids where "ids = filter (\<lambda>i. session_empty i (rw_db w)) (doomed_sessions E (rw_tick w) cutoff batch (rw_db w))"
  define w2 where "w2 = on_db (fold (delete_session now) ids) (tick w)"
  have "finish_tx (re_fault E (rw_tick w)) (tick w) (length ids, w2) = (res, w')"
    using assms(2) by (simp add: delete_empty_sessions_before_def Let_def ids_def w2_def now_def)
  moreover have "removes (\<lambda>_. False) (rw_db w) (rw_db w2)"
    unfolding w2_def using sessions_removes [OF assms(1), of ids now] by (simp add: ids_def)
  ultimately show ?thesis using finish_tx_cases removes_refl [OF assms(1)] by (metis snd_conv world_simps(1))
qed

lemma maintain_loop_spec:
  assumes "db_wf (rw_db w)"
  shows "\<exists>res w'. maintain_loop E cfg deadline deleted w = Some (res, w') \<and> evicts (rw_db w) (rw_db w') \<and>
    reported res deleted (rw_db w) (rw_db w')"
  using assms
proof (induction "length (rd_traces (rw_db w))" arbitrary: w deleted rule: less_induct)
  case less
  obtain collected w1 where c: "collect_archive_files E deadline w = Some (collected, w1)"
    and r1: "removes (\<lambda>_. False) (rw_db w) (rw_db w1)" using collect_returns [OF less.prems] by blast
  have ev1: "evicts (rw_db w) (rw_db w1)" and l1: "length (rd_traces (rw_db w1)) = length (rd_traces (rw_db w))"
    using evicts_nothing [OF r1] removesD(2) [OF r1] by simp_all
  show ?case
  proof (cases "collected = Inr True \<and> \<not> instant E w1 \<ge> deadline \<and> st_rotate_size_bytes cfg \<noteq> 0")
    case False
    then have "\<exists>res w'. maintain_loop E cfg deadline deleted w = Some (res, w') \<and> rw_db w' = rw_db w1 \<and> (res = Inl () \<or> res = Inr deleted)"
      by (subst maintain_loop.simps) (cases collected; auto simp: c)
    with ev1 l1 show ?thesis by (auto simp: reported_def)
  next
    case True
    obtain res2 w2 where rot: "rotate_batch E cfg (tick w1) = (res2, w2)" by (metis surj_pair)
    have wf1: "db_wf (rw_db (tick w1))" using removesD(1) [OF r1] by simp
    from rotate_batch_spec [OF wf1 rot] have ev2: "evicts (rw_db w1) (rw_db w2)" and rep2: "reported res2 0 (rw_db w1) (rw_db w2)"
      by simp_all
    obtain res3 w3 where del: "delete_empty_sessions_before E (utc_now E w2) (st_retention_prune_batch_size cfg) (tick w2) = (res3, w3)"
      by (metis surj_pair)
    have wf2: "db_wf (rw_db (tick w2))" using evicts_wf [OF ev2] by simp
    from delete_sessions_spec [OF wf2 del] have r3: "removes (\<lambda>_. False) (rw_db w2) (rw_db w3)" by simp
    have ev3: "evicts (rw_db w) (rw_db w3)" by (rule evicts_trans [OF evicts_trans [OF ev1 ev2] evicts_nothing [OF r3]])
    have l3: "length (rd_traces (rw_db w3)) = length (rd_traces (rw_db w2))" using removesD(2) [OF r3] by simp
    have run: "maintain_loop E cfg deadline deleted w =
      (case res2 of Inl e \<Rightarrow> Some (Inl (), w2) | Inr removed \<Rightarrow> (case res3 of Inl e \<Rightarrow> Some (Inl (), w3) | Inr _ \<Rightarrow>
        if removed = 0 then Option.bind (collect_archive_files E deadline w3) (\<lambda>(collected, w).
          Some (case collected of Inl e \<Rightarrow> Inl () | Inr _ \<Rightarrow> Inr (deleted + removed), w))
        else maintain_loop E cfg deadline (deleted + removed) w3))"
      using True by (subst maintain_loop.simps) (simp add: c rot del split: sum.split)
    show ?thesis
    proof (cases "\<exists>removed x. res2 = Inr removed \<and> res3 = Inr x")
      case False
      then show ?thesis using evicts_trans [OF ev1 ev2] ev3 unfolding run
        by (cases res2; cases res3) (auto simp: reported_def)
    next
      case True
      then obtain removed x where rx: "res2 = Inr removed" "res3 = Inr x" by blast
      have cnt: "removed + length (rd_traces (rw_db w3)) = length (rd_traces (rw_db w))"
        using rep2 l1 l3 by (simp add: reported_def rx)
      show ?thesis
      proof (cases "removed = 0")
        case True
        obtain col w4 where c4: "collect_archive_files E deadline w3 = Some (col, w4)"
          and r4: "removes (\<lambda>_. False) (rw_db w3) (rw_db w4)"
          using collect_returns [OF evicts_wf [OF ev3]] by blast
        have "evicts (rw_db w) (rw_db w4)" by (rule evicts_trans [OF ev3 evicts_nothing [OF r4]])
        then show ?thesis using cnt True removesD(2) [OF r4] unfolding run
          by (cases col) (simp_all add: rx c4 reported_def)
      next
        case False
        with cnt have "length (rd_traces (rw_db w3)) < length (rd_traces (rw_db w))" by simp
        from less.hyps [OF this evicts_wf [OF ev3], of "deleted + removed"] obtain res w'
          where IH: "maintain_loop E cfg deadline (deleted + removed) w3 = Some (res, w')" "evicts (rw_db w3) (rw_db w')"
            "reported res (deleted + removed) (rw_db w3) (rw_db w')" by blast
        from evicts_trans [OF ev3 IH(2)] IH(1,3) False cnt show ?thesis unfolding run by (simp add: rx reported_def)
      qed
    qed
  qed
qed

section \<open>Rotation meets the limit\<close>

lemma sum_list_filter_split:
  "sum_list (map f (filter P xs)) + sum_list (map f (filter (\<lambda>x. \<not> P x) xs)) = sum_list (map f xs)" for f :: "_ \<Rightarrow> int"
  by (induction xs) simp_all

lemma inline_filter:
  "sum_list (map inline_bytes (filter (\<lambda>t. fst (rt_inline t) \<noteq> [] \<or> snd (rt_inline t) \<noteq> []) ts)) = sum_list (map inline_bytes ts)"
  by (induction ts) (simp_all add: inline_bytes_def)

text \<open>Deleting one trace releases exactly the bytes computed beforehand.\<close>

lemma delete_one:
  assumes wf: "db_wf d" and tidy: "tidy d" and i: "i \<in> rt_id ` set (rd_traces d)"
    and d'_def: "d' = delete_traces now (\<lambda>t. rt_id t = i) d"
  shows "tidy d'" "retained_bytes (archive_footprint_of d') = retained_bytes (archive_footprint_of d) - freed_bytes i d"
proof -
  define gone where "gone = filter (\<lambda>t. rt_id t = i) (rd_traces d)"
  have "removes (\<lambda>t. rt_id t \<in> set [i]) d d'" using delete_traces_removes [OF wf] by (simp add: d'_def)
  from removed_count [OF wf this] i removesD(2) [OF this] have "length gone = 1"
    using sum_length_filter_compl [of "\<lambda>t. rt_id t = i" "rd_traces d"] by (simp add: gone_def)
  then obtain t where t: "gone = [t]" by (auto simp: length_Suc_conv)
  then have "t \<in> set gone" by simp
  then have ti: "rt_id t = i" by (simp add: gone_def)
  define d2 where "d2 = (remove_deleted_trace_from_rollup t (d\<lparr>rd_traces := filter (\<lambda>t. rt_id t \<noteq> i) (rd_traces d)\<rparr>))
    \<lparr>rd_messages := filter (\<lambda>m. mr_request_id m \<notin> {i}) (rd_messages d)\<rparr>"
  have d2: "rd_store d2 = rd_store d" "rd_deletions d2 = rd_deletions d" "rd_traces d2 = filter (\<lambda>t. rt_id t \<noteq> i) (rd_traces d)"
    by (simp_all add: d2_def remove_deleted_trace_from_rollup_def Let_def)
  have d': "d' = delete_records now (\<lambda>r. ar_trace_id r = i) d2"
    unfolding d'_def delete_traces_def gone_def [symmetric] t
    by (simp add: Let_def ti d2_def remove_deleted_trace_from_rollup_def)
  have "tidy d2" using tidy tidy_frame [OF d2(1,2)] by simp
  from delete_records_tidy [OF this, of now "\<lambda>r. ar_trace_id r = i"]
  have td: "tidy d'" and segs: "st_segments (rd_store d') =
      filter (\<lambda>p. holds_record (fst p) (\<lambda>j. j \<noteq> i) (rd_store d)) (st_segments (rd_store d))"
    by (simp_all add: d' d2 holds_record_def list_ex_iff)
  show "tidy d'" by (rule td)
  have tr: "rd_traces d' = filter (\<lambda>t. rt_id t \<noteq> i) (rd_traces d)"
    unfolding d' using core_eqD(2) [OF core_delete_records] d2(3) by simp
  have hold: "holds_record (fst p) (\<lambda>j. j = i) (rd_store d) \<and> \<not> holds_record (fst p) (\<lambda>j. j \<noteq> i) (rd_store d) \<longleftrightarrow>
      \<not> holds_record (fst p) (\<lambda>j. j \<noteq> i) (rd_store d)" if "p \<in> set (st_segments (rd_store d))" for p
    using tidyD(1) [OF tidy that] by (auto simp: holds_record_def list_ex_iff referenced_iff)
  have "filter (\<lambda>p. holds_record (fst p) (\<lambda>j. j = i) (rd_store d) \<and> \<not> holds_record (fst p) (\<lambda>j. j \<noteq> i) (rd_store d)) (st_segments (rd_store d)) =
      filter (\<lambda>p. \<not> holds_record (fst p) (\<lambda>j. j \<noteq> i) (rd_store d)) (st_segments (rd_store d))"
    by (rule filter_cong) (simp_all add: hold)
  then show "retained_bytes (archive_footprint_of d') = retained_bytes (archive_footprint_of d) - freed_bytes i d"
    unfolding freed_bytes_def archive_footprint_of_def inline_filter tr segs
    using sum_list_filter_split [of "\<lambda>p. as_compressed_bytes (snd p)" "\<lambda>p. holds_record (fst p) (\<lambda>j. j \<noteq> i) (rd_store d)"
        "st_segments (rd_store d)"]
      sum_list_filter_split [of inline_bytes "\<lambda>t. rt_id t = i" "rd_traces d"] by simp
qed

text \<open>An environment in which a pass runs undisturbed: no transaction fails, the locks are
  free, and all readings of the clock lie within the time budget.\<close>

definition calm :: "rot_env \<Rightarrow> bool" where
  "calm E \<longleftrightarrow> (\<forall>n. re_fault E n = No_fault \<and> re_lock E n \<and> (\<forall>k. \<not> re_busy_key E n k)) \<and>
    (\<forall>m n. re_clock E n < re_clock E m + MAINTENANCE_TIME_BUDGET)"

abbreviation retained :: "rot_world \<Rightarrow> int" where
  "retained w \<equiv> retained_bytes (archive_footprint_of (rw_db w))"

lemma finish_calm: "calm E \<Longrightarrow> finish_tx (re_fault E t) w r = (Inr (fst r), snd r)"
  by (simp add: calm_def finish_tx_def)

lemma next_deletion_calm: "calm E \<Longrightarrow> next_deletion E t d = None \<Longrightarrow> rd_deletions d = []"
proof -
  assume "calm E" "next_deletion E t d = None"
  then have "sort_key (\<lambda>f. (fd_queued_at f, fd_key f)) (rd_deletions d) = []"
    by (simp add: next_deletion_def calm_def split: list.splits)
  then show "rd_deletions d = []" by (metis set_empty set_sort)
qed

lemma retained_frame:
  "st_segments (rd_store d') = st_segments (rd_store d) \<Longrightarrow> rd_traces d' = rd_traces d \<Longrightarrow>
    retained_bytes (archive_footprint_of d') = retained_bytes (archive_footprint_of d)"
  by (simp add: archive_footprint_of_def)

lemma collect_calm:
  assumes "calm E" "\<And>n. re_clock E n < deadline" "db_wf (rw_db w)" "tidy (rw_db w)"
  shows "\<exists>w'. collect_archive_files E deadline w = Some (Inr True, w') \<and> db_wf (rw_db w') \<and> tidy (rw_db w') \<and>
    rd_deletions (rw_db w') = [] \<and> rd_traces (rw_db w') = rd_traces (rw_db w) \<and> retained w' = retained w"
  using assms(3,4)
proof (induction "length (rd_deletions (rw_db w))" arbitrary: w rule: less_induct)
  case less
  define t where "t = rw_tick (tick w)"
  define w1 where "w1 = tick (tick w)"
  have w1: "rw_db w1 = rw_db w" by (simp add: w1_def)
  have go: "instant E w < deadline" "re_fault E t \<noteq> Early" using assms(1,2) by (simp_all add: instant_def calm_def)
  show ?case
  proof (cases "next_deletion E t (rw_db w)")
    case None
    have "collect_archive_files E deadline w = Some (Inr (rd_deletions (rw_db w) = []), w1)"
      using go None by (subst collect_archive_files.simps) (simp add: Let_def t_def w1_def finish_calm [OF assms(1)])
    then show ?thesis using next_deletion_calm [OF assms(1) None] less.prems by (simp add: w1)
  next
    case (Some f)
    note f = next_deletion_queued [OF Some]
    note path = tidy_path [OF less.prems(2) f]
    define w3 where "w3 = on_db (dequeue (fd_key f)) (on_db (remove_archive_file (fd_key f)) w1)"
    have nf: "re_fault E t \<noteq> File_fault" using assms(1) by (simp add: calm_def)
    have step: "collect_archive_files E deadline w = collect_archive_files E deadline w3"
      using go Some path nf
      by (subst collect_archive_files.simps) (simp add: Let_def t_def w1_def w3_def finish_calm [OF assms(1)])
    have store: "st_segments (rd_store (rw_db w3)) = st_segments (rd_store (rw_db w))"
      "st_records (rd_store (rw_db w3)) = st_records (rd_store (rw_db w))"
      "rd_traces (rw_db w3) = rd_traces (rw_db w)" "set (rd_deletions (rw_db w3)) \<subseteq> set (rd_deletions (rw_db w))"
      "length (rd_deletions (rw_db w3)) < length (rd_deletions (rw_db w))"
      using dequeue_shorter [OF f] by (auto simp: w3_def w1 dequeue_def remove_archive_file_def on_store_def)
    have wf3: "db_wf (rw_db w3)"
      using removesD(1) [OF file_removes(2) [OF less.prems(1) f path]] by (simp add: w3_def w1)
    have td3: "tidy (rw_db w3)"
      by (rule tidyI [OF less.prems(2)]) (use store tidyD(1) [OF less.prems(2)] in \<open>auto simp: referenced_def\<close>)
    from less.hyps [OF store(5) wf3 td3] show ?thesis
      unfolding step using retained_frame [OF store(1,3)] store(3) by auto
  qed
qed

lemma retained_nonneg:
  assumes "tidy d"
  shows "0 \<le> retained_bytes (archive_footprint_of d)"
proof -
  have "0 \<le> sum_list (map (\<lambda>p. as_compressed_bytes (snd p)) (st_segments (rd_store d)))"
    by (rule sum_list_nonneg_map) (use tidyD(2) [OF assms] in blast)
  moreover have "0 \<le> sum_list (map inline_bytes ts)" for ts
    by (rule sum_list_nonneg_map) (simp add: inline_bytes_def)
  ultimately show ?thesis by (simp add: archive_footprint_of_def)
qed

lemma freed_nonneg:
  assumes "tidy d"
  shows "0 \<le> freed_bytes i d"
proof -
  have "0 \<le> sum_list (map (\<lambda>p. as_compressed_bytes (snd p)) (filter P (st_segments (rd_store d))))" for P
    by (rule sum_list_nonneg_map) (use tidyD(2) [OF assms] in auto)
  moreover have "0 \<le> sum_list (map inline_bytes ts)" for ts
    by (rule sum_list_nonneg_map) (simp add: inline_bytes_def)
  ultimately show ?thesis unfolding freed_bytes_def by (rule add_nonneg_nonneg)
qed

text \<open>The size the loop keeps is the footprint of the tables at every step.\<close>

lemma rotate_loop_calm:
  assumes "rotate_loop E now limit deadline ids (retained w) deleted w = (n, w')" "\<And>n. re_clock E n < deadline"
    and "db_wf (rw_db w)" "tidy (rw_db w)" "distinct ids" "set ids \<subseteq> rt_id ` set (rd_traces (rw_db w))" "retained w \<le> i64_max"
  shows "tidy (rw_db w') \<and> retained w' \<le> i64_max \<and> (retained w' \<le> limit \<or> n = deleted + length ids)"
  using assms
proof (induction ids arbitrary: deleted w)
  case (Cons i ids)
  define w1 where "w1 = on_db (delete_traces now (\<lambda>t. rt_id t = i)) w"
  have i: "i \<in> rt_id ` set (rd_traces (rw_db w))" using Cons.prems(6) by simp
  have one: "tidy (rw_db w1)" "retained w1 = retained w - freed_bytes i (rw_db w)"
    using delete_one [OF Cons.prems(3,4) i refl] by (simp_all add: w1_def)
  have le: "retained w1 \<le> i64_max" using one(2) freed_nonneg [OF Cons.prems(4)] Cons.prems(7) by (smt (verit))
  have sz: "i64_saturating_sub (retained w) (freed_bytes i (rw_db w)) = retained w1"
    unfolding i64_saturating_sub_def one(2) [symmetric]
    by (rule clamp_i64_id) (use retained_nonneg [OF one(1)] le in \<open>simp_all add: i64_min_def\<close>)
  have "rw_db w1 = delete_traces now (\<lambda>t. rt_id t = i) (rw_db w)" by (simp add: w1_def)
  note r1 = evict_one [OF Cons.prems(3,5,6) this]
  show ?case
  proof (cases "retained w1 \<le> limit")
    case True
    then have "w' = w1" using Cons.prems(1) by (simp add: Let_def w1_def [symmetric] sz)
    with True one le show ?thesis by simp
  next
    case False
    have clock: "\<not> deadline \<le> instant E w1" using Cons.prems(2) [of "rw_tick w1"] by (simp add: instant_def)
    have run: "rotate_loop E now limit deadline ids (retained (tick w1)) (deleted + 1) (tick w1) = (n, w')"
      using Cons.prems(1) False clock by (simp add: Let_def w1_def [symmetric] sz r1(2))
    from Cons.IH [OF run Cons.prems(2)] removesD(1) [OF r1(1)] one(1) Cons.prems(5) le r1(3) show ?thesis by simp
  qed
qed simp

lemma rotate_batch_calm:
  assumes E: "calm E" and wf: "db_wf (rw_db w)" and td: "tidy (rw_db w)" and q: "rd_deletions (rw_db w) = []"
    and cfg: "int (st_rotate_size_bytes cfg) \<le> i64_max" "0 < st_retention_prune_batch_size cfg" and big: "retained w \<le> i64_max"
    and run: "rotate_batch E cfg w = (res, w')"
  shows "\<exists>n. res = Inr n \<and> tidy (rw_db w') \<and> retained w' \<le> i64_max \<and>
    (n = 0 \<longrightarrow> retained w' \<le> int (st_rotate_size_bytes cfg) \<or> rd_traces (rw_db w') = [])"
proof -
  let ?b = "st_retention_prune_batch_size cfg" and ?limit = "int (st_rotate_size_bytes cfg)"
  define w0 where "w0 = tick (tick w)"
  define now where "now = utc_now E (tick w)"
  define dl where "dl = instant E w + MAINTENANCE_TIME_BUDGET"
  have w0: "rw_db w0 = rw_db w" by (simp add: w0_def)
  have orph: "orphan_segments E ?b (rd_store (rw_db w)) = []"
    using tidyD(1) [OF td] by (simp add: orphan_segments_def filter_empty_conv)
  have w1: "on_db (\<lambda>d. fold (delete_segment now) (orphan_segments E ?b (rd_store d)) d) w0 = w0"
    using orph by (simp add: on_db_def w0_def tick_def)
  obtain n w2 where loop: "rotate_loop E now ?limit dl (oldest_ids ?b (rw_db w0)) (retained w0) 0 w0 = (n, w2)"
    by (metis surj_pair)
  have eq: "rotate_batch E cfg w = (if retained w0 > ?limit then (Inr n, w2) else (Inr 0, w0))"
    using loop E q cfg(1) w1 orph unfolding now_def w0_def dl_def
    by (simp add: rotate_batch_def Let_def calm_def finish_tx_def archive_footprint_of_def)
  show ?thesis
  proof (cases "retained w0 > ?limit")
    case False
    then have "res = Inr 0" "w' = w0" using run unfolding eq by simp_all
    then show ?thesis using False td big w0 by simp
  next
    case True
    have old: "distinct (oldest_ids ?b (rw_db w0))" "set (oldest_ids ?b (rw_db w0)) \<subseteq> rt_id ` set (rd_traces (rw_db w0))"
      by (rule oldest_ids_first [of "rw_db w0" 0]; simp add: w0 wf)+
    have clock: "re_clock E m < dl" for m using E by (simp add: calm_def dl_def instant_def)
    have l: "tidy (rw_db w2) \<and> retained w2 \<le> i64_max \<and> (retained w2 \<le> ?limit \<or> n = 0 + length (oldest_ids ?b (rw_db w0)))"
      by (rule rotate_loop_calm [OF loop clock _ _ old]) (simp_all add: w0 wf td big)
    have spec: "reported (Inr n) 0 (rw_db w) (rw_db w2)"
      using rotate_batch_spec [OF wf, of E cfg "Inr n" w2] True unfolding eq by simp
    have "rd_traces (rw_db w2) = []" if "n = 0" "n = length (oldest_ids ?b (rw_db w0))"
    proof -
      have "rd_traces (rw_db w) = []" using that cfg(2) by (simp add: oldest_ids_def w0 min_def split: if_splits)
      then show ?thesis using spec by (simp add: reported_def)
    qed
    with l True run show ?thesis unfolding eq by auto
  qed
qed

lemma delete_session_tidy:
  assumes "db_wf d" "tidy d" "\<And>t. t \<in> set (rd_traces d) \<Longrightarrow> rt_session t \<noteq> Some i"
  shows "tidy (delete_session now i d) \<and> st_segments (rd_store (delete_session now i d)) = st_segments (rd_store d)"
proof -
  define d1 where "d1 = d\<lparr>rd_sessions := filter (\<lambda>p. fst p \<noteq> i) (rd_sessions d),
    rd_messages := filter (\<lambda>m. mr_session_id m \<noteq> i) (rd_messages d)\<rparr>"
  obtain ids where "purged ids d1 (delete_session now i d)" using delete_session_purged [OF assms(1,3) d1_def] by blast
  moreover have "tidy d1" using assms(2) tidy_frame [of d1 d] by (simp add: d1_def)
  ultimately show ?thesis using purged_tidy [of d1] by (simp add: d1_def)
qed

lemma delete_sessions_tidy:
  assumes "db_wf d" "tidy d" "\<And>i. i \<in> set ids \<Longrightarrow> session_empty i d"
  shows "tidy (fold (delete_session now) ids d) \<and> st_segments (rd_store (fold (delete_session now) ids d)) = st_segments (rd_store d)"
  using assms
proof (induction ids arbitrary: d)
  case (Cons i ids)
  have none: "rt_session t \<noteq> Some i" if "t \<in> set (rd_traces d)" for t
    using Cons.prems(3) [of i] that by (auto simp: session_empty_def list_ex_iff)
  note r = delete_session_removes [OF Cons.prems(1) none, where now = now] and td = delete_session_tidy [OF Cons.prems(1,2) none, where now = now]
  have "session_empty j (delete_session now i d)" if "j \<in> set ids" for j
    using Cons.prems(3) [of j] that removesD(2) [OF r] by (simp add: session_empty_def)
  with Cons.IH [OF removesD(1) [OF r]] td show ?case by simp
qed simp

lemma sessions_calm:
  assumes "calm E" "db_wf (rw_db w)" "tidy (rw_db w)" "delete_empty_sessions_before E cutoff batch w = (res, w')"
  shows "\<exists>n. res = Inr n \<and> db_wf (rw_db w') \<and> tidy (rw_db w') \<and> rd_traces (rw_db w') = rd_traces (rw_db w) \<and> retained w' = retained w"
proof -
  define now where "now = utc_now E w"
  define ids where "ids = filter (\<lambda>i. session_empty i (rw_db w)) (doomed_sessions E (rw_tick w) cutoff batch (rw_db w))"
  have eq: "res = Inr (length ids)" "rw_db w' = fold (delete_session now) ids (rw_db w)"
    using assms(4) by (auto simp: delete_empty_sessions_before_def Let_def ids_def now_def finish_calm [OF assms(1)])
  have td: "tidy (rw_db w') \<and> st_segments (rd_store (rw_db w')) = st_segments (rd_store (rw_db w))"
    unfolding eq by (rule delete_sessions_tidy [OF assms(2,3)]) (simp add: ids_def)
  have r: "removes (\<lambda>_. False) (rw_db w) (rw_db w')" by (rule delete_sessions_spec [OF assms(2,4)])
  then have tr: "rd_traces (rw_db w') = rd_traces (rw_db w)" using removesD(2) by fastforce
  with td removesD(1) [OF r] retained_frame [of "rw_db w'" "rw_db w"] eq(1) show ?thesis by auto
qed

lemma no_traces_no_bytes:
  assumes "db_wf d" "tidy d" "rd_traces d = []"
  shows "retained_bytes (archive_footprint_of d) = 0"
proof -
  have "st_records (rd_store d) = []" using db_wfD(5) [OF assms(1)] assms(3) by (cases "st_records (rd_store d)") auto
  then have "st_segments (rd_store d) = []"
    using tidyD(1) [OF assms(2)] by (cases "st_segments (rd_store d)") (auto simp: referenced_def)
  then show ?thesis by (simp add: archive_footprint_of_def assms(3))
qed

lemma maintain_calm:
  assumes E: "calm E" "\<And>n. re_clock E n < deadline"
    and cfg: "int (st_rotate_size_bytes cfg) \<le> i64_max" "0 < st_rotate_size_bytes cfg" "0 < st_retention_prune_batch_size cfg"
    and "db_wf (rw_db w)" "tidy (rw_db w)" "retained w \<le> i64_max"
  shows "\<exists>n w'. maintain_loop E cfg deadline deleted w = Some (Inr n, w') \<and> rd_deletions (rw_db w') = [] \<and>
    retained w' \<le> int (st_rotate_size_bytes cfg)"
  using assms(6-8)
proof (induction "length (rd_traces (rw_db w))" arbitrary: w deleted rule: less_induct)
  case less
  obtain w1 where c: "collect_archive_files E deadline w = Some (Inr True, w1)" and w1: "db_wf (rw_db w1)" "tidy (rw_db w1)"
    "rd_deletions (rw_db w1) = []" "rd_traces (rw_db w1) = rd_traces (rw_db w)" "retained w1 = retained w"
    using collect_calm [OF E less.prems(1,2)] by blast
  obtain res2 w2 where rot: "rotate_batch E cfg (tick w1) = (res2, w2)" by (metis surj_pair)
  obtain n where n: "res2 = Inr n" "tidy (rw_db w2)" "retained w2 \<le> i64_max"
    "n = 0 \<longrightarrow> retained w2 \<le> int (st_rotate_size_bytes cfg) \<or> rd_traces (rw_db w2) = []"
    using rotate_batch_calm [OF E(1) _ _ _ cfg(1,3) _ rot] w1 less.prems(3) by auto
  have ev: "evicts (rw_db w1) (rw_db w2)" "n + length (rd_traces (rw_db w2)) = length (rd_traces (rw_db w1))"
    using rotate_batch_spec [OF _ rot] w1(1) by (simp_all add: reported_def n(1))
  obtain res3 w3 where del: "delete_empty_sessions_before E (utc_now E w2) (st_retention_prune_batch_size cfg) (tick w2) = (res3, w3)"
    by (metis surj_pair)
  have wf2: "db_wf (rw_db w2)" by (rule evicts_wf [OF ev(1)])
  from sessions_calm [OF E(1) _ _ del] wf2 n(2) obtain m where w3: "res3 = Inr m" "db_wf (rw_db w3)" "tidy (rw_db w3)"
    "rd_traces (rw_db w3) = rd_traces (rw_db w2)" "retained w3 = retained w2" by auto
  have go: "\<not> deadline \<le> instant E w1" using E(2) [of "rw_tick w1"] by (simp add: instant_def)
  have run: "maintain_loop E cfg deadline deleted w =
      (if n = 0 then Option.bind (collect_archive_files E deadline w3) (\<lambda>(collected, w).
         Some (case collected of Inl e \<Rightarrow> Inl () | Inr _ \<Rightarrow> Inr (deleted + n), w))
       else maintain_loop E cfg deadline (deleted + n) w3)"
    using go cfg(2) by (subst maintain_loop.simps) (simp add: c rot del n(1) w3(1))
  show ?case
  proof (cases "n = 0")
    case True
    obtain w4 where w4: "collect_archive_files E deadline w3 = Some (Inr True, w4)" "rd_deletions (rw_db w4) = []"
      "retained w4 = retained w3" using collect_calm [OF E w3(2,3)] by blast
    have "retained w3 \<le> int (st_rotate_size_bytes cfg)"
      using n(4) True no_traces_no_bytes [OF w3(2,3)] w3(4,5) by auto
    then show ?thesis unfolding run using True w4 by simp
  next
    case False
    have "length (rd_traces (rw_db w3)) < length (rd_traces (rw_db w))" using ev(2) False w1(4) w3(4) by simp
    from less.hyps [OF this w3(2,3)] n(3) w3(5) False show ?thesis unfolding run by simp
  qed
qed

section \<open>Retention\<close>

lemma traces_before_removes:
  assumes "db_wf (rw_db w)" "delete_request_traces_before E cutoff batch w = (res, w')"
  shows "\<exists>P. removes P (rw_db w) (rw_db w') \<and> (\<forall>t\<in>set (rd_traces (rw_db w)). P t \<longrightarrow> rt_started_at t < cutoff) \<and>
    (\<forall>n. res = Inr n \<longrightarrow> length (rd_traces (rw_db w)) = length (rd_traces (rw_db w')) + n)"
proof -
  let ?rows = "map (\<lambda>r. (rt_id r, rt_started_at r)) (rd_traces (rw_db w))"
  define doomed where "doomed = doomed_rows ?rows cutoff batch"
  define P where "P = (\<lambda>r :: trace_row. rt_id r \<in> set doomed)"
  define w2 where "w2 = on_db (delete_traces (utc_now E w) P) (tick w)"
  have same: "removes (\<lambda>_. False) (rw_db w) (rw_db (tick w))" using removes_refl [OF assms(1)] by simp
  have r: "removes P (rw_db w) (rw_db w2)" using delete_traces_removes [OF assms(1)] by (simp add: w2_def)
  have "set doomed \<subseteq> fst ` set (filter (\<lambda>p. snd p < cutoff) ?rows)"
    unfolding doomed_def doomed_rows_def by (auto dest!: in_set_takeD)
  then have ids: "\<exists>u\<in>set (rd_traces (rw_db w)). rt_id u = i \<and> rt_started_at u < cutoff" if "i \<in> set doomed" for i
  proof -
    have "i \<in> fst ` set (filter (\<lambda>p. snd p < cutoff) ?rows)" using that \<open>set doomed \<subseteq> _\<close> by blast
    then show ?thesis by auto
  qed
  have old: "rt_started_at t < cutoff" if t: "t \<in> set (rd_traces (rw_db w))" "P t" for t
  proof -
    obtain u where u: "u \<in> set (rd_traces (rw_db w))" "rt_id u = rt_id t" "rt_started_at u < cutoff"
      using ids t(2) unfolding P_def by blast
    then have "u = t" using db_wfD(2) [OF assms(1)] t(1) by (auto simp: distinct_map dest: inj_onD)
    with u show ?thesis by simp
  qed
  have cnt: "length (rd_traces (rw_db w)) = length (rd_traces (rw_db w2)) + length (filter P (rd_traces (rw_db w)))"
    using removesD(2) [OF r] sum_length_filter_compl [of P "rd_traces (rw_db w)"] by simp
  have "delete_request_traces_before E cutoff batch w =
      (if re_fault E (rw_tick w) = Early then (Inl (), tick w) else if \<not> re_lock E (rw_tick w) then (Inr 0, tick w)
       else finish_tx (re_fault E (rw_tick w)) (tick w) (length (filter P (rd_traces (rw_db w))), w2))"
    by (simp add: delete_request_traces_before_def Let_def P_def doomed_def w2_def)
  then consider "w' = tick w" "res = Inl () \<or> res = Inr 0"
    | "finish_tx (re_fault E (rw_tick w)) (tick w) (length (filter P (rd_traces (rw_db w))), w2) = (res, w')"
    using assms(2) by (simp split: if_splits)
  then show ?thesis
  proof cases
    case 1
    with same show ?thesis by (intro exI [of _ "\<lambda>_. False"]) auto
  next
    case 2
    from finish_tx_cases [OF this] consider "w' = tick w" "res = Inl ()"
      | "w' = w2" "res = Inl () \<or> res = Inr (length (filter P (rd_traces (rw_db w))))" by auto
    then show ?thesis
    proof cases
      case 1
      with same show ?thesis by (intro exI [of _ "\<lambda>_. False"]) auto
    next
      case 2
      with r old cnt show ?thesis by (intro exI [of _ P]) auto
    qed
  qed
qed

text \<open>A rollup that a trace counts in is never removed.\<close>

lemma rollups_before_removes:
  assumes wf: "db_wf (rw_db w)" and run: "delete_rollups_before E cutoff batch w = (res, w')"
  shows "removes (\<lambda>_. False) (rw_db w) (rw_db w')"
proof -
  define buckets where "buckets = take (nat batch) (sort (filter (\<lambda>b. b < cutoff \<and> bucket_empty b (rw_db w) \<and>
    \<not> re_busy_bucket E (rw_tick w) b) (map fst (rd_rollups (rw_db w)))))"
  define gone where "gone = (\<lambda>p :: int \<times> rollup_row. fst p \<in> set buckets \<and> bucket_empty (fst p) (rw_db w))"
  have e: "gone p \<Longrightarrow> bucket_empty (fst p) (rw_db w)" for p by (simp add: gone_def)
  define w2 where "w2 = on_db (\<lambda>d. d\<lparr>rd_rollups := filter (\<lambda>p. \<not> gone p) (rd_rollups d)\<rparr>) (tick w)"
  have "finish_tx (re_fault E (rw_tick w)) (tick w) (length (filter gone (rd_rollups (rw_db w))), w2) = (res, w')"
    using run by (simp add: delete_rollups_before_def Let_def w2_def gone_def buckets_def)
  from finish_tx_cases [OF this] have w': "w' = tick w \<or> w' = w2" by auto
  define d' where "d' = (rw_db w)\<lparr>rd_rollups := filter (\<lambda>p. \<not> gone p) (rd_rollups (rw_db w))\<rparr>"
  have d': "rd_traces d' = rd_traces (rw_db w)" "rd_sessions d' = rd_sessions (rw_db w)" "rd_store d' = rd_store (rw_db w)"
    "rd_deletions d' = rd_deletions (rw_db w)" "rd_messages d' = rd_messages (rw_db w)" "rd_receipts d' = rd_receipts (rw_db w)"
    by (simp_all add: d'_def)
  have "archive_wf d'" using db_wfD(1) [OF wf] unfolding archive_wf_def d' .
  then have "db_wf d'" using db_wfD(2-7) [OF wf] unfolding db_wf_def d' by blast
  moreover have "rollups_exact d'" if ex: "rollups_exact (rw_db w)"
  proof -
    have "\<not> gone p" if "p \<in> set (rd_rollups (rw_db w))" for p
    proof
      assume "gone p"
      then have be: "bucket_empty (fst p) (rw_db w)" by (rule e)
      have "distinct (map fst (rd_rollups (rw_db w)))" using ex by (simp add: rollups_exact_def)
      then have "map_of (rd_rollups (rw_db w)) (fst p) = Some (snd p)" using that by (simp add: map_of_eq_Some_iff)
      then have "in_minute (fst p) (rd_traces (rw_db w)) \<noteq> []" using ex by (auto simp: rollups_exact_def Let_def split: if_splits)
      then obtain t where t: "t \<in> set (rd_traces (rw_db w))" "minute_of (rt_started_at t) = fst p"
        by (auto simp: in_minute_def filter_empty_conv)
      then have "fst p \<le> rt_started_at t \<and> rt_started_at t < fst p + 60000000"
        using minute_of_iff [of "rt_started_at t" "rt_started_at t"] by simp
      with be t(1) show False by (auto simp: bucket_empty_def list_ex_iff)
    qed
    then have "rd_rollups d' = rd_rollups (rw_db w)" by (simp add: d'_def filter_id_conv)
    with ex d' show ?thesis by (simp add: rollups_exact_def)
  qed
  ultimately have "removes (\<lambda>_. False) (rw_db w) d'" using tidy_frame [OF d'(3,4)] by (simp add: removes_def d')
  with w' removes_refl [OF wf] show ?thesis by (auto simp: d'_def w2_def)
qed

lemma aux_tables_db:
  assumes "delete_ui_audit_events_before E cutoff batch w = (res, w') \<or> delete_expired_ui_sessions E cutoff batch w = (res, w') \<or>
    delete_expired_oauth_states E cutoff batch w = (res, w')"
  shows "rw_db w' = rw_db w"
proof -
  have "rw_db w' = rw_db w" if "finish_tx f (tick w) (a, w2) = (res, w')" "rw_db w2 = rw_db (tick w)" for f a w2
    using finish_tx_cases [OF that(1)] that(2) by auto
  with assms show ?thesis
    unfolding delete_ui_audit_events_before_def delete_expired_ui_sessions_def delete_expired_oauth_states_def Let_def by force
qed

lemma tx_then_cases:
  assumes "tx_then r f = (res, w')"
  obtains e where "r = (Inl e, w')" "res = Inl ()" | a w where "r = (Inr a, w)" "f a w = (res, w')"
  using assms unfolding tx_then_def by (cases r; cases "fst r") (auto split: sum.splits)

text \<open>The contract of the transactions after the first: they keep every trace.\<close>

locale quiet_task =
  fixes run :: "rot_world \<Rightarrow> (unit + 'r) \<times> rot_world"
  assumes keeps_traces: "db_wf (rw_db w) \<Longrightarrow> run w = (res, w') \<Longrightarrow> removes (\<lambda>_. False) (rw_db w) (rw_db w')"
begin

lemma keeps_after: "run w = (res, w') \<Longrightarrow> removes (\<lambda>_. False) d (rw_db w) \<Longrightarrow> removes (\<lambda>_. False) d (rw_db w')"
  using removes_trans [of "\<lambda>_. False" d "rw_db w" "\<lambda>_. False" "rw_db w'"] keeps_traces removesD(1) by fastforce

end

interpretation rollup_task: quiet_task "delete_rollups_before E cutoff batch" for E cutoff batch
  by unfold_locales (rule rollups_before_removes)

interpretation session_task: quiet_task "delete_empty_sessions_before E cutoff batch" for E cutoff batch
  by unfold_locales (rule delete_sessions_spec)

interpretation audit_task: quiet_task "delete_ui_audit_events_before E cutoff batch" for E cutoff batch
  by unfold_locales (metis aux_tables_db removes_refl)

interpretation ui_task: quiet_task "delete_expired_ui_sessions E now batch" for E now batch
  by unfold_locales (metis aux_tables_db removes_refl)

interpretation oauth_task: quiet_task "delete_expired_oauth_states E now batch" for E now batch
  by unfold_locales (metis aux_tables_db removes_refl)

lemmas quiet_tasks = rollup_task.keeps_after session_task.keeps_after audit_task.keeps_after ui_task.keeps_after oauth_task.keeps_after

definition prune_rest :: "rot_env \<Rightarrow> int \<Rightarrow> int \<Rightarrow> int \<Rightarrow> nat \<Rightarrow> rot_world \<Rightarrow> (unit + retention_prune_result) \<times> rot_world" where
  "prune_rest E now cutoff batch request_traces w =
    tx_then (delete_rollups_before E cutoff batch w) (\<lambda>rollups w.
    tx_then (delete_empty_sessions_before E cutoff batch w) (\<lambda>sessions w.
    tx_then (delete_ui_audit_events_before E cutoff batch w) (\<lambda>audit w.
    tx_then (delete_expired_ui_sessions E now batch w) (\<lambda>ui w.
    tx_then (delete_expired_oauth_states E now batch w) (\<lambda>oauth w.
    (Inr \<lparr>rp_request_traces = request_traces, rp_trace_rollups_minute = rollups, rp_trace_sessions = sessions,
       rp_ui_audit_events = audit, rp_ui_sessions = ui, rp_oauth_states = oauth\<rparr>, w))))))"

lemma prune_rest_keeps:
  assumes "prune_rest E now cutoff batch n w = (res, w')" "removes (\<lambda>_. False) d (rw_db w)"
  shows "removes (\<lambda>_. False) d (rw_db w') \<and> (\<forall>r. res = Inr r \<longrightarrow> rp_request_traces r = n)"
  using assms unfolding prune_rest_def
  by (elim tx_then_cases) (auto elim!: quiet_tasks)

lemma prune_removes:
  assumes wf: "db_wf (rw_db w)" and run: "prune_retention E days batch w = (res, w')"
  shows "\<exists>P. removes P (rw_db w) (rw_db w') \<and>
    (\<forall>t\<in>set (rd_traces (rw_db w)). P t \<longrightarrow> rt_started_at t < retention_cutoff (utc_now E w) days) \<and>
    (\<forall>r. res = Inr r \<longrightarrow> length (rd_traces (rw_db w)) = length (rd_traces (rw_db w')) + rp_request_traces r)"
proof (cases "days \<le> 0 \<or> batch \<le> 0")
  case True
  then have "prune_retention E days batch w = (Inl (), w)" unfolding prune_retention_def by presburger
  then have "res = Inl ()" "w' = w" using run by simp_all
  with removes_refl [OF wf] show ?thesis by (intro exI [of _ "\<lambda>_. False"]) simp
next
  case False
  define cutoff where "cutoff = retention_cutoff (utc_now E w) days"
  obtain r1 w1 where s1: "delete_request_traces_before E cutoff batch (tick w) = (r1, w1)" by (metis surj_pair)
  from traces_before_removes [OF _ s1] wf obtain P where p: "removes P (rw_db w) (rw_db w1)"
    "\<forall>t\<in>set (rd_traces (rw_db w)). P t \<longrightarrow> rt_started_at t < cutoff"
    "\<forall>n. r1 = Inr n \<longrightarrow> length (rd_traces (rw_db w)) = length (rd_traces (rw_db w1)) + n" by auto
  have "prune_retention E days batch w = tx_then (delete_request_traces_before E cutoff batch (tick w)) (prune_rest E (utc_now E w) cutoff batch)"
    using False by (simp add: prune_retention_def Let_def cutoff_def prune_rest_def [abs_def])
  then have "tx_then (r1, w1) (prune_rest E (utc_now E w) cutoff batch) = (res, w')" using run s1 by simp
  then have rest: "removes (\<lambda>_. False) (rw_db w1) (rw_db w') \<and> (\<forall>r. res = Inr r \<longrightarrow> r1 = Inr (rp_request_traces r))"
  proof (cases rule: tx_then_cases)
    case 1
    then show ?thesis using removes_refl [OF removesD(1) [OF p(1)]] by simp
  next
    case (2 n w2)
    then show ?thesis using prune_rest_keeps [OF 2(2), of "rw_db w1"] removes_refl [OF removesD(1) [OF p(1)]] by simp
  qed
  show ?thesis
  proof (intro exI conjI)
    show "removes P (rw_db w) (rw_db w')" using rest removes_trans [OF p(1), of "\<lambda>_. False"] by simp
    show "\<forall>r. res = Inr r \<longrightarrow> length (rd_traces (rw_db w)) = length (rd_traces (rw_db w')) + rp_request_traces r"
      using rest p(3) removesD(2) [of "\<lambda>_. False" "rw_db w1" "rw_db w'"] by simp
  qed (use p(2) in \<open>simp add: cutoff_def\<close>)
qed

section \<open>What maintenance guarantees\<close>

text \<open>C21: a maintenance pass always returns, whatever transactions fail, locks are held or time
  passes. It removes traces oldest first, reports the number it removed, and every trace it
  keeps loads with the same bodies as before.\<close>

theorem maintenance_returns:
  assumes "db_wf (rw_db w)"
  shows "\<exists>res w' P. maintain_archive E cfg w = Some (res, w') \<and>
    rd_traces (rw_db w') = filter (\<lambda>t. \<not> P t) (rd_traces (rw_db w)) \<and>
    (\<forall>t\<in>set (rd_traces (rw_db w)). \<forall>u\<in>set (rd_traces (rw_db w)). P t \<and> \<not> P u \<longrightarrow> trace_order t \<le> trace_order u) \<and>
    (\<forall>n. res = Inr n \<longrightarrow> n = length (filter P (rd_traces (rw_db w)))) \<and>
    (\<forall>t\<in>set (rd_traces (rw_db w')). \<forall>L inl obs tr. load_trace_bodies L (rd_store (rw_db w')) (rt_id t) inl obs tr =
      load_trace_bodies L (rd_store (rw_db w)) (rt_id t) inl obs tr)"
proof -
  obtain res w' where run: "maintain_archive E cfg w = Some (res, w')" and ev: "evicts (rw_db w) (rw_db w')"
    and rep: "reported res 0 (rw_db w) (rw_db w')"
    using maintain_loop_spec [of "tick w"] assms unfolding maintain_archive_def by fastforce
  from ev obtain P where P: "removes P (rw_db w) (rw_db w')" "oldest_first P (rw_db w)" unfolding evicts_def by blast
  have "n = length (filter P (rd_traces (rw_db w)))" if "res = Inr n" for n
    using rep that removesD(2) [OF P(1)] sum_length_filter_compl [of P "rd_traces (rw_db w)"] by (simp add: reported_def)
  moreover have "load_trace_bodies L (rd_store (rw_db w')) (rt_id t) inl obs tr = load_trace_bodies L (rd_store (rw_db w)) (rt_id t) inl obs tr"
    if "t \<in> set (rd_traces (rw_db w'))" for t L inl obs tr
    using removesD(3) [OF P(1) that] unfolding same_bodies_def by blast
  ultimately show ?thesis using run removesD(2) [OF P(1)] P(2) unfolding oldest_first_def by blast
qed

text \<open>C23: age retention removes only what is older than the cutoff. Every trace that started at
  or after it stays and loads with the same bodies, the number of removed traces is reported,
  and a run that fails midway keeps the same promise.\<close>

theorem retention_removes_expired:
  assumes "db_wf (rw_db w)" "prune_retention E days batch w = (res, w')"
  shows "(\<forall>t\<in>set (rd_traces (rw_db w)). retention_cutoff (utc_now E w) days \<le> rt_started_at t \<longrightarrow> t \<in> set (rd_traces (rw_db w'))) \<and>
    set (rd_traces (rw_db w')) \<subseteq> set (rd_traces (rw_db w)) \<and>
    (\<forall>r. res = Inr r \<longrightarrow> length (rd_traces (rw_db w)) = length (rd_traces (rw_db w')) + rp_request_traces r) \<and>
    (\<forall>t\<in>set (rd_traces (rw_db w')). \<forall>L inl obs tr. load_trace_bodies L (rd_store (rw_db w')) (rt_id t) inl obs tr =
      load_trace_bodies L (rd_store (rw_db w)) (rt_id t) inl obs tr)"
proof -
  obtain P where P: "removes P (rw_db w) (rw_db w')"
    "\<forall>t\<in>set (rd_traces (rw_db w)). P t \<longrightarrow> rt_started_at t < retention_cutoff (utc_now E w) days"
    "\<forall>r. res = Inr r \<longrightarrow> length (rd_traces (rw_db w)) = length (rd_traces (rw_db w')) + rp_request_traces r"
    using prune_removes [OF assms] by blast
  have "t \<in> set (rd_traces (rw_db w'))" if "t \<in> set (rd_traces (rw_db w))" "retention_cutoff (utc_now E w) days \<le> rt_started_at t" for t
    using P(2) that unfolding removesD(2) [OF P(1)] by force
  moreover have "set (rd_traces (rw_db w')) \<subseteq> set (rd_traces (rw_db w))" unfolding removesD(2) [OF P(1)] by auto
  moreover have "load_trace_bodies L (rd_store (rw_db w')) (rt_id t) inl obs tr = load_trace_bodies L (rd_store (rw_db w)) (rt_id t) inl obs tr"
    if "t \<in> set (rd_traces (rw_db w'))" for t L inl obs tr
    using removesD(3) [OF P(1) that] unfolding same_bodies_def by blast
  ultimately show ?thesis using P(3) by blast
qed

section \<open>All the writers together\<close>

text \<open>An insertion that commits, one that is rolled back and leaves its files, a maintenance pass
  and a retention run, the last two with whatever faults and timing \<open>E\<close> gives them.\<close>

inductive storage_step :: "archive_lib \<Rightarrow> archive_config \<Rightarrow> rot_world \<Rightarrow> rot_world \<Rightarrow> bool" for L archive where
  ingest: "insert_trace_internal L archive io t messages user_id user_name journal_id (rw_db w) = Inr d' \<Longrightarrow>
    fresh_ids L archive io t journal_id (rw_db w) \<Longrightarrow> row_ok (trace_row_of t) \<Longrightarrow>
    storage_step L archive w (w\<lparr>rw_db := d'\<rparr>)"
| rollback: "insert_trace_internal L archive io t messages user_id user_name journal_id (rw_db w) = Inl e \<Longrightarrow>
    storage_step L archive w (w\<lparr>rw_db := files_left L archive io t user_id user_name journal_id k (rw_db w)\<rparr>)"
| maintain: "maintain_archive E cfg w = Some (res, w') \<Longrightarrow> storage_step L archive w w'"
| prune: "prune_retention E days batch w = (res, w') \<Longrightarrow> storage_step L archive w w'"

inductive storage_reach :: "archive_lib \<Rightarrow> archive_config \<Rightarrow> rot_world \<Rightarrow> bool" for L archive where
  start: "rw_db w = empty_db \<Longrightarrow> storage_reach L archive w"
| step: "storage_reach L archive w \<Longrightarrow> storage_step L archive w w' \<Longrightarrow> storage_reach L archive w'"

text \<open>What holds of the tables between any two steps.\<close>

definition storage_ok :: "archive_lib \<Rightarrow> trace_db \<Rightarrow> bool" where
  "storage_ok L d \<longleftrightarrow> db_wf d \<and> rollups_exact d \<and> keys_named L (rd_store d) \<and> tidy d"

lemma removes_storage_ok:
  assumes "removes P d d'" "storage_ok L d"
  shows "storage_ok L d'"
proof -
  have "keys_named L (rd_store d')" using assms unfolding removes_def storage_ok_def keys_named_def by blast
  with assms show ?thesis unfolding removes_def storage_ok_def by blast
qed

lemma storage_step_inv:
  assumes "storage_step L archive w w'" "archive_names L" "storage_ok L (rw_db w)"
  shows "storage_ok L (rw_db w')"
  using assms
proof (induction rule: storage_step.induct)
  case (ingest io t messages user_id user_name journal_id w d')
  from ingest(5) have "db_wf (rw_db w)" "rollups_exact (rw_db w)" "keys_named L (rd_store (rw_db w))" "tidy (rw_db w)"
    by (simp_all add: storage_ok_def)
  with insert_trace_inv [OF ingest(1-3) _ _ ingest(4)] show ?case by (simp add: storage_ok_def)
next
  case (rollback io t messages user_id user_name journal_id w e k)
  then show ?case by (simp add: storage_ok_def files_left_frame)
next
  case (maintain E cfg w res w')
  obtain res2 w2 where "maintain_archive E cfg w = Some (res2, w2)" "evicts (rw_db w) (rw_db w2)"
    using maintain_loop_spec [of "tick w"] maintain(3) unfolding maintain_archive_def storage_ok_def by fastforce
  with maintain show ?case by (auto simp: evicts_def intro: removes_storage_ok)
next
  case (prune E days batch w res w')
  then have "db_wf (rw_db w)" by (simp add: storage_ok_def)
  with prune_removes [OF _ prune(1)] prune(3) show ?case by (blast intro: removes_storage_ok)
qed

lemma storage_reach_inv:
  assumes "storage_reach L archive w" "archive_names L"
  shows "storage_ok L (rw_db w)"
  using assms
proof (induction rule: storage_reach.induct)
  case (start w)
  then show ?case
    by (simp add: storage_ok_def db_wf_def archive_wf_def store_wf_def keys_separate_def keys_named_def tidy_def rollups_exact_def
        empty_db_def in_minute_def)
next
  case (step w w')
  then show ?case using storage_step_inv by blast
qed

lemma reach_facts:
  assumes "storage_reach L archive w" "archive_names L"
  shows "db_wf (rw_db w)" "rollups_exact (rw_db w)" "tidy (rw_db w)"
  using storage_reach_inv [OF assms] by (simp_all add: storage_ok_def)

text \<open>C20: the minute rollups are exact at all times. Start from empty tables and take any sequence
  of insertions, committed or rolled back, maintenance passes and retention runs, the last two
  with whatever faults; an insertion draws identifiers that are not in use. Then the row of a
  minute exists exactly when a stored trace started in it, and its newest start, counts and sums
  are those of these traces; all foreign keys hold, no two live segments share a file, no file of
  a live segment is queued for removal, and every segment holds a record of a trace.\<close>

theorem storage_tables_invariant:
  assumes "archive_names L" "storage_reach L archive w"
  shows "map_of (rd_rollups (rw_db w)) b =
      (let ts = filter (\<lambda>t. minute_of (rt_started_at t) = b) (rd_traces (rw_db w)) in if ts = [] then None else Some (aggregate ts)) \<and>
    db_wf (rw_db w) \<and>
    (\<forall>p\<in>set (st_segments (rd_store (rw_db w))). \<exists>r\<in>set (st_records (rd_store (rw_db w))). ar_segment_id r = fst p)"
  using reach_facts [OF assms(2,1)] tidyD(1) by (fastforce simp: rollups_exact_def in_minute_def referenced_iff)

text \<open>C22: when nothing interferes, a maintenance pass over any reachable store brings the stored
  payloads down to the configured size: it returns without an error, no file is left queued for
  removal, and the retained bytes are at most the limit. The retained bytes before the pass must
  fit a signed 64-bit integer, as the query that sums them requires.\<close>

theorem rotation_meets_limit:
  assumes "calm E" "archive_names L" "storage_reach L archive w"
    and "0 < st_rotate_size_bytes cfg" "int (st_rotate_size_bytes cfg) \<le> i64_max" "0 < st_retention_prune_batch_size cfg"
    and "retained_bytes (archive_footprint_of (rw_db w)) \<le> i64_max"
  shows "\<exists>n w'. maintain_archive E cfg w = Some (Inr n, w') \<and> pending_files (archive_footprint_of (rw_db w')) = 0 \<and>
    retained_bytes (archive_footprint_of (rw_db w')) \<le> int (st_rotate_size_bytes cfg)"
proof -
  have "re_clock E n < instant E w + MAINTENANCE_TIME_BUDGET" for n using assms(1) by (simp add: calm_def instant_def)
  from maintain_calm [OF assms(1) this assms(5,4,6), of "tick w" 0] reach_facts(1,3) [OF assms(3,2)] assms(7)
  obtain n w' where "maintain_archive E cfg w = Some (Inr n, w')" "rd_deletions (rw_db w') = []"
    "retained w' \<le> int (st_rotate_size_bytes cfg)" by (auto simp: maintain_archive_def)
  then show ?thesis by (auto simp: archive_footprint_of_def)
qed

definition demo_row :: "uuid \<Rightarrow> int \<Rightarrow> trace_row" where
  "demo_row i t = \<lparr>rt_id = i, rt_started_at = t, rt_status = Some 200, rt_error = None, rt_session = None, rt_ttft_ms = None,
    rt_duration_ms = Some 5, rt_request_body_bytes = 3, rt_response_body_bytes = 2, rt_inline = (''abc'', ''de'')\<rparr>"

definition demo_rot_world :: rot_world where
  "demo_rot_world = \<lparr>rw_db = empty_db\<lparr>rd_traces := [demo_row 2 70000000, demo_row 1 10]\<rparr>, rw_audit = [], rw_ui_sessions = [],
    rw_oauth_states = [], rw_tick = 0\<rparr>"

definition demo_rot_env :: rot_env where
  "demo_rot_env = \<lparr>re_clock = (\<lambda>_. 0), re_utc = (\<lambda>_. 86400000050), re_fault = (\<lambda>_. No_fault), re_lock = (\<lambda>_. True),
    re_busy_key = (\<lambda>_ _. False), re_busy_session = (\<lambda>_ _. False), re_busy_bucket = (\<lambda>_ _. False), re_created = (\<lambda>_. 0)\<rparr>"

lemma demo_rot_wf: "db_wf (rw_db demo_rot_world)"
  by (simp add: demo_rot_world_def demo_row_def empty_db_def db_wf_def archive_wf_def store_wf_def keys_separate_def row_ok_def
      unwrap_or_def i64_max_def)

theorem maintenance_returns_witness:
  "\<exists>res w'. maintain_archive (demo_rot_env\<lparr>re_fault := (\<lambda>_. Late)\<rparr>) storage_config_default demo_rot_world = Some (res, w') \<and>
    set (rd_traces (rw_db w')) \<subseteq> set (rd_traces (rw_db demo_rot_world))"
  using maintenance_returns [OF demo_rot_wf, of "demo_rot_env\<lparr>re_fault := (\<lambda>_. Late)\<rparr>" storage_config_default]
  by (metis (no_types, lifting) filter_is_subset)

theorem retention_removes_expired_witness:
  "\<exists>res w'. prune_retention demo_rot_env 1 10 demo_rot_world = (res, w') \<and> demo_row 2 70000000 \<in> set (rd_traces (rw_db w'))"
proof -
  obtain res w' where run: "prune_retention demo_rot_env 1 10 demo_rot_world = (res, w')" by (metis surj_pair)
  have "demo_row 2 70000000 \<in> set (rd_traces (rw_db demo_rot_world))"
    "retention_cutoff (utc_now demo_rot_env demo_rot_world) 1 \<le> rt_started_at (demo_row 2 70000000)"
    by (simp_all add: demo_rot_world_def retention_cutoff_def utc_now_def demo_rot_env_def demo_row_def)
  with retention_removes_expired [OF demo_rot_wf run] run show ?thesis by blast
qed

definition demo_stored_trace :: trace_record where
  "demo_stored_trace = demo_archive_trace\<lparr>tr_session_key := None, tr_started_at := 90000000, tr_status := Some 503, tr_error := None,
    tr_duration_ms := Some 7, tr_ttft_ms := None, tr_request_body_bytes := 2, tr_response_body_bytes := 2\<rparr>"

definition demo_pg_config :: archive_config where
  "demo_pg_config = demo_archive_config\<lparr>ac_storage_backend := Postgres\<rparr>"

lemma demo_stored_payloads:
  "prepare_trace_payloads demo_archive_lib demo_pg_config demo_stored_trace =
    Inr [demo_segment RequestBody ''hi'', demo_segment ResponseBody ''yo'']"
proof -
  have cfg: "ac_compression_level demo_pg_config = ac_compression_level demo_archive_config"
    "ac_segment_uncompressed_bytes demo_pg_config = ac_segment_uncompressed_bytes demo_archive_config"
    by (simp_all add: demo_pg_config_def)
  have t: "tr_id demo_stored_trace = tr_id demo_archive_trace" "tr_request_body demo_stored_trace = tr_request_body demo_archive_trace"
    "tr_content_type demo_stored_trace = tr_content_type demo_archive_trace"
    "tr_response_body demo_stored_trace = tr_response_body demo_archive_trace"
    by (simp_all add: demo_stored_trace_def)
  show ?thesis using demo_payloads unfolding prepare_trace_payloads_def cfg t .
qed

definition demo_io :: ingest_io where
  "demo_io = \<lparr>ii_session = 9, ii_segments = [(Write_done, 5), (Write_done, 6)], ii_commit = True\<rparr>"

definition demo_taken_trace :: trace_record where
  "demo_taken_trace = demo_stored_trace\<lparr>tr_request_body := [], tr_response_body := []\<rparr>"

lemma demo_taken: "tr_id demo_taken_trace = 1" "tr_session_id demo_taken_trace = None" "tr_session_key demo_taken_trace = None"
  "tr_started_at demo_taken_trace = 90000000"
  by (simp_all add: demo_taken_trace_def demo_stored_trace_def demo_archive_trace_def)

lemma demo_pg_archive:
  "\<exists>s. archive_payloads demo_archive_lib demo_pg_config None demo_taken_trace [(Write_done, 5), (Write_done, 6)]
      [demo_segment RequestBody ''hi'', demo_segment ResponseBody ''yo''] (rd_store empty_db) = Inr s \<and>
    sum_list (map (\<lambda>p. as_compressed_bytes (snd p)) (st_segments s)) = 55"
proof -
  note eval = archive_prepared_payloads_def segment_id_of_def next_archive_segment_index_def demo_taken empty_db_def
    usize_to_i64_checked_def i64_max_def demo_segment_def upsert_archive_segment_def persist_archive_segment_def
    update_segment_def insert_archive_records_def demo_pg_config_def demo_archive_config_def be.enc_length Let_def
  obtain s1 where s1: "archive_prepared_payloads demo_archive_lib demo_pg_config None demo_taken_trace Write_done 5
      (demo_segment RequestBody ''hi'') (rd_store empty_db) = Inr s1"
    and seg1: "\<exists>row. st_segments s1 = [(5, row)] \<and> as_index row = 0 \<and> as_session row = None \<and> as_compressed_bytes row = 27"
    by (simp add: eval)
  obtain s2 where s2: "archive_prepared_payloads demo_archive_lib demo_pg_config None demo_taken_trace Write_done 6
      (demo_segment ResponseBody ''yo'') s1 = Inr s2"
    and seg2: "\<exists>row row'. st_segments s2 = [(5, row), (6, row')] \<and> as_compressed_bytes row = 27 \<and> as_compressed_bytes row' = 28"
    using seg1 by (auto simp: eval)
  from s1 s2 seg2 show ?thesis by auto
qed

lemma demo_insert:
  "\<exists>d. insert_trace_internal demo_archive_lib demo_pg_config demo_io demo_stored_trace [] None None None empty_db = Inr d \<and>
    fresh_ids demo_archive_lib demo_pg_config demo_io demo_stored_trace None empty_db \<and> rd_traces d = [trace_row_of demo_taken_trace] \<and>
    retained_bytes (archive_footprint_of d) = 55"
proof -
  obtain s where s: "archive_payloads demo_archive_lib demo_pg_config None demo_taken_trace [(Write_done, 5), (Write_done, 6)]
      [demo_segment RequestBody ''hi'', demo_segment ResponseBody ''yo''] (rd_store empty_db) = Inr s"
    and bytes: "sum_list (map (\<lambda>p. as_compressed_bytes (snd p)) (st_segments s)) = 55" using demo_pg_archive by blast
  define d where "d = empty_db\<lparr>rd_traces := [trace_row_of demo_taken_trace], rd_store := s,
    rd_rollups := [(60000000, rollup_of demo_taken_trace)]\<rparr>"
  have "insert_rows demo_archive_lib demo_pg_config demo_io demo_taken_trace
      [demo_segment RequestBody ''hi'', demo_segment ResponseBody ''yo''] [] None None None empty_db = Inr d"
    using s by (simp add: insert_rows_def resolve_session_def demo_taken demo_io_def ensure_def Let_def update_rollup_def
        minute_of_def d_def) (simp add: empty_db_def demo_taken)
  then have "insert_trace_internal demo_archive_lib demo_pg_config demo_io demo_stored_trace [] None None None empty_db = Inr d"
    by (simp add: insert_trace_internal_def demo_stored_payloads demo_taken_trace_def [symmetric]) (simp add: demo_io_def)
  moreover have "fresh_ids demo_archive_lib demo_pg_config demo_io demo_stored_trace None empty_db"
    by (simp add: fresh_ids_def demo_stored_payloads demo_io_def segment_ids_def segment_id_of_def empty_db_def)
  moreover have "retained_bytes (archive_footprint_of d) = 55"
    using bytes by (simp add: archive_footprint_of_def d_def trace_row_of_def)
  ultimately show ?thesis by (auto simp: d_def)
qed

lemma demo_storage_reach:
  "\<exists>w. storage_reach demo_archive_lib demo_pg_config w \<and> rd_traces (rw_db w) = [trace_row_of demo_taken_trace] \<and>
    retained_bytes (archive_footprint_of (rw_db w)) = 55"
proof -
  obtain d where d: "insert_trace_internal demo_archive_lib demo_pg_config demo_io demo_stored_trace [] None None None empty_db = Inr d"
    "fresh_ids demo_archive_lib demo_pg_config demo_io demo_stored_trace None empty_db" "rd_traces d = [trace_row_of demo_taken_trace]"
    "retained_bytes (archive_footprint_of d) = 55" using demo_insert by blast
  have "row_ok (trace_row_of demo_stored_trace)"
    by (simp add: row_ok_def trace_row_of_def demo_stored_trace_def i64_max_def unwrap_or_def)
  moreover define w where "w = demo_rot_world\<lparr>rw_db := empty_db\<rparr>"
  ultimately have "storage_step demo_archive_lib demo_pg_config w (w\<lparr>rw_db := d\<rparr>)" using d(1,2) by (intro storage_step.ingest) simp_all
  then have "storage_reach demo_archive_lib demo_pg_config (w\<lparr>rw_db := d\<rparr>)"
    by (rule storage_reach.step [rotated]) (simp add: storage_reach.start w_def)
  then show ?thesis using d(3,4) by (intro exI [of _ "w\<lparr>rw_db := d\<rparr>"]) simp
qed

theorem storage_tables_invariant_witness:
  "\<exists>w. storage_reach demo_archive_lib demo_pg_config w \<and> length (rd_traces (rw_db w)) = 1 \<and> db_wf (rw_db w)"
proof -
  obtain w where "storage_reach demo_archive_lib demo_pg_config w" "rd_traces (rw_db w) = [trace_row_of demo_taken_trace]"
    using demo_storage_reach by blast
  with storage_tables_invariant [OF demo_archive_names, of demo_pg_config w 0] show ?thesis by (intro exI [of _ w]) simp
qed

theorem rotation_meets_limit_witness:
  "\<exists>w n w'. retained_bytes (archive_footprint_of (rw_db w)) = 55 \<and>
    maintain_archive demo_rot_env (storage_config_default\<lparr>st_rotate_size_bytes := 40\<rparr>) w = Some (Inr n, w') \<and>
    retained_bytes (archive_footprint_of (rw_db w')) \<le> 40"
proof -
  let ?cfg = "storage_config_default\<lparr>st_rotate_size_bytes := 40\<rparr>"
  obtain w where w: "storage_reach demo_archive_lib demo_pg_config w" "retained_bytes (archive_footprint_of (rw_db w)) = 55"
    using demo_storage_reach by blast
  have "calm demo_rot_env" by (simp add: calm_def demo_rot_env_def MAINTENANCE_TIME_BUDGET_def secs_def)
  then have "\<exists>n w'. maintain_archive demo_rot_env ?cfg w = Some (Inr n, w') \<and> pending_files (archive_footprint_of (rw_db w')) = 0 \<and>
      retained_bytes (archive_footprint_of (rw_db w')) \<le> int (st_rotate_size_bytes ?cfg)"
    by (rule rotation_meets_limit [OF _ demo_archive_names w(1)]) (simp_all add: w(2) storage_config_default_def i64_max_def)
  with w(2) show ?thesis by auto
qed

end
