(* ===== verification/LT_Litellm.thy ===== *)
theory LT_Litellm
  imports LT_Routing LT_Plugins
begin

unbundle bit_operations_syntax

text \<open>
  The LiteLLM user plugin (\<open>crates/litellm-user-plugin/src/lib.rs\<close>): it reads the caller's
  credential from the hook input, looks the hash of the key up at the gateway through the host
  and caches the identity it found. The JSON text and the digest are the fields of
  \<open>plugin_lib\<close>; the calls to the host are an argument, and the effects of a call are listed
  in order. The plugin reveals nothing of the credential but its hash, and an answer from the
  cache is the answer that was cached.
\<close>

section \<open>Constants and host interface\<close>

record plugin_lib =
  pl_parse :: "bytes \<Rightarrow> json option"
  pl_print :: "json \<Rightarrow> bytes"
  pl_sha256_hex :: "bytes \<Rightarrow> string"

definition KEY_INFO_PATH :: string where
  "KEY_INFO_PATH = ''/key/info''"

definition USER_INFO_PATH :: string where
  "USER_INFO_PATH = ''/user/info''"

definition MAX_FIELD_BYTES :: nat where
  "MAX_FIELD_BYTES = 256"

definition MAX_TEAMS :: nat where
  "MAX_TEAMS = 16"

definition IDENTITY_CACHE_TTL_SECS :: nat where
  "IDENTITY_CACHE_TTL_SECS = 3600"

definition CACHE_DOC_VERSION :: int where
  "CACHE_DOC_VERSION = 1"

definition CREDENTIAL_HEADERS :: "string list" where
  "CREDENTIAL_HEADERS = [''authorization'', ''x-api-key'', ''api-key'']"

record lookup_response =
  lr_status :: nat
  lr_body :: string

text \<open>What the host answers: the value cached under a key, and the response to the n-th
  lookup of the call.\<close>

record plugin_host =
  ph_cache_get :: "bytes \<Rightarrow> bytes option"
  ph_lookup :: "nat \<Rightarrow> string \<Rightarrow> (string \<times> string) list \<Rightarrow> lookup_response option"

datatype plugin_effect =
    Looked string "(string \<times> string) list"
  | Stored bytes bytes nat

section \<open>Text\<close>

definition char_len :: "string \<Rightarrow> nat" where
  "char_len s = 1 + length (takeWhile is_continuation (tl s))"

function push_chars :: "nat \<Rightarrow> nat \<Rightarrow> string \<Rightarrow> string" where
  "push_chars limit used s =
    (if s = [] \<or> used + char_len s > limit then []
     else take (char_len s) s @ push_chars limit (used + char_len s) (drop (char_len s) s))"
  by pat_completeness auto
termination
  by (relation "measure (\<lambda>(_, _, s). length s)") (auto simp: char_len_def)

declare push_chars.simps [simp del]

definition bounded_field :: "string \<Rightarrow> string" where
  "bounded_field val = push_chars MAX_FIELD_BYTES 0 val"

definition upper_hex :: "nat \<Rightarrow> char" where
  "upper_hex n = ''0123456789ABCDEF'' ! n"

definition unreserved :: "char \<Rightarrow> bool" where
  "unreserved c \<longleftrightarrow> is_ascii_alphanumeric c \<or> c \<in> {CHR ''-'', CHR ''_'', CHR ''.'', CHR ''~''}"

fun percent_encode :: "string \<Rightarrow> string" where
  "percent_encode [] = []"
| "percent_encode (c # cs) =
    (if unreserved c then [c] else [CHR ''%'', upper_hex (byte c div 16), upper_hex (byte c mod 16)]) @ percent_encode cs"

definition bare_key :: "string \<Rightarrow> string \<Rightarrow> string" where
  "bare_key header val =
    (case (if header = ''authorization'' then split_once CHR '' '' val else None) of
       Some (scheme, rest) \<Rightarrow> if scheme \<noteq> [] \<and> list_all is_ascii_alphanumeric scheme then trim rest else trim val
     | None \<Rightarrow> trim val)"

fun split_scheme :: "string \<Rightarrow> (string \<times> string) option" where
  "split_scheme [] = None"
| "split_scheme (c # cs) =
    (if prefix ''://'' (c # cs) then Some ([], drop 3 (c # cs))
     else map_option (\<lambda>(a, b). (c # a, b)) (split_scheme cs))"

definition origin_of :: "string \<Rightarrow> string option" where
  "origin_of upstream_url =
    Option.bind (split_scheme upstream_url) (\<lambda>(scheme, rest).
    if scheme \<notin> {''http'', ''https''} then None
    else let authority = takeWhile (\<lambda>c. c \<notin> {CHR ''/'', CHR ''?'', CHR ''#''}) rest in
      if authority = [] then None else Some (scheme @ ''://'' @ authority))"

definition find_credential :: "(string \<times> json) list \<Rightarrow> (string \<times> string) option" where
  "find_credential headers =
    (case List.map_filter (\<lambda>name. case Option.bind (map_of headers name) as_str of
         Some val \<Rightarrow> if trim val \<noteq> [] \<and> val \<noteq> ''<non-utf8>'' then Some (name, val) else None
       | None \<Rightarrow> None) CREDENTIAL_HEADERS of
       [] \<Rightarrow> None | p # _ \<Rightarrow> Some p)"

section \<open>Resolving an identity\<close>

definition json_opt :: "string option \<Rightarrow> json" where
  "json_opt x = (case x of Some s \<Rightarrow> JString s | None \<Rightarrow> JNull)"

definition hook_output_json ::
  "string option \<Rightarrow> string option \<Rightarrow> (string \<times> json) list \<Rightarrow> string list \<Rightarrow> string list \<Rightarrow> json" where
  "hook_output_json user_id user_name custom_fields tags warnings =
    JObject [(''custom_fields'', JObject custom_fields), (''tags'', JArray (map JString tags)),
      (''user_id'', json_opt user_id), (''user_name'', json_opt user_name), (''warnings'', JArray (map JString warnings))]"

definition copy_string_field :: "(string \<times> json) list \<Rightarrow> string \<Rightarrow> (string \<times> json) list \<Rightarrow> (string \<times> json) list" where
  "copy_string_field source field target =
    (case Option.bind (map_of source field) as_str of
       Some val \<Rightarrow> if val \<noteq> [] then bt_insert field (JString (bounded_field val)) target else target
     | None \<Rightarrow> target)"

text \<open>The document, or the warning.\<close>

definition lookup_json :: "plugin_lib \<Rightarrow> lookup_response option \<Rightarrow> string \<Rightarrow> string + json" where
  "lookup_json L response what =
    (case response of
       None \<Rightarrow> Inl (what @ '' failed'')
     | Some r \<Rightarrow>
         if lr_status r \<noteq> 200 then Inl (what @ '' returned status '' @ show_nat (lr_status r))
         else (case pl_parse L (lr_body r) of
                 Some document \<Rightarrow> Inr document
               | None \<Rightarrow> Inl (what @ '' returned an unparseable body'')))"

definition cached_identity :: "plugin_lib \<Rightarrow> bytes option \<Rightarrow> json option" where
  "cached_identity L stored =
    Option.bind stored (\<lambda>bytes. Option.bind (pl_parse L bytes) (\<lambda>document.
    if Option.bind (json_get document ''v'') as_i64 = Some CACHE_DOC_VERSION \<and>
       Option.bind (json_get document ''custom_fields'') as_object \<noteq> None
    then Some document else None))"

definition emit_cached :: "json \<Rightarrow> (string \<times> json) list \<Rightarrow> string list \<Rightarrow> string list \<Rightarrow> json" where
  "emit_cached document custom_fields tags warnings =
    (let user_id = (case Option.bind (json_get document ''user_id'') as_str of
           Some s \<Rightarrow> if s \<noteq> [] then Some s else None | None \<Rightarrow> None);
         user_name = Option.bind (json_get document ''user_name'') as_str;
         custom_fields = (case Option.bind (json_get document ''custom_fields'') as_object of
           Some xs \<Rightarrow> fold (\<lambda>(name, val). bt_insert name val) xs custom_fields | None \<Rightarrow> custom_fields);
         tags = (case Option.bind (json_get document ''tags'') as_array of
           Some xs \<Rightarrow> tags @ List.map_filter as_str xs | None \<Rightarrow> tags)
     in hook_output_json user_id user_name custom_fields tags warnings)"

definition cache_document ::
  "string option \<Rightarrow> string option \<Rightarrow> (string \<times> json) list \<Rightarrow> string list \<Rightarrow> json" where
  "cache_document user_id user_name custom_fields tags =
    JObject [(''custom_fields'', JObject custom_fields), (''tags'', JArray (map JString tags)),
      (''user_id'', json_opt user_id), (''user_name'', json_opt user_name), (''v'', JNumber (PosInt (nat CACHE_DOC_VERSION)))]"

definition user_fields :: "(string \<times> json) list \<Rightarrow> (string \<times> json) list \<Rightarrow> string option \<times> (string \<times> json) list" where
  "user_fields info custom_fields =
    (let email = map_option bounded_field (Option.bind (map_of info ''user_email'') as_str);
         alias = map_option bounded_field (Option.bind (map_of info ''user_alias'') as_str);
         custom_fields = (case email of Some e \<Rightarrow> bt_insert ''user_email'' (JString e) custom_fields | None \<Rightarrow> custom_fields);
         custom_fields = (case alias of Some a \<Rightarrow> bt_insert ''user_alias'' (JString a) custom_fields | None \<Rightarrow> custom_fields);
         custom_fields = copy_string_field info ''user_role'' custom_fields;
         custom_fields = (case Option.bind (map_of info ''teams'') as_array of
           Some teams \<Rightarrow>
             (let teams = take MAX_TEAMS (map bounded_field (List.map_filter as_str teams)) in
              if teams \<noteq> [] then bt_insert ''teams'' (JArray (map JString teams)) custom_fields else custom_fields)
         | None \<Rightarrow> custom_fields)
     in (case email of Some e \<Rightarrow> Some e | None \<Rightarrow> alias, custom_fields))"

definition key_fields :: "(string \<times> json) list \<Rightarrow> (string \<times> json) list \<Rightarrow> string option \<times> (string \<times> json) list" where
  "key_fields info custom_fields =
    (let custom_fields = copy_string_field info ''key_alias'' custom_fields;
         custom_fields = copy_string_field info ''team_id'' custom_fields;
         custom_fields = copy_string_field info ''org_id'' custom_fields
     in (case Option.bind (map_of info ''user_id'') as_str of
           Some s \<Rightarrow> if s \<noteq> [] then Some (bounded_field s) else None | None \<Rightarrow> None, custom_fields))"

definition document_object :: "string \<Rightarrow> string + json \<Rightarrow> (string \<times> json) list option" where
  "document_object field document =
    (case document of Inr v \<Rightarrow> Option.bind (json_get v field) as_object | Inl _ \<Rightarrow> None)"

definition warning_of :: "string + json \<Rightarrow> string list" where
  "warning_of document = (case document of Inl w \<Rightarrow> [w] | Inr _ \<Rightarrow> [])"

definition base_fields :: "string \<Rightarrow> (string \<times> json) list" where
  "base_fields key_hash = bt_insert ''identity_source'' (JString ''litellm'') (bt_insert ''litellm_key_hash'' (JString key_hash) [])"

text \<open>The part after the cache missed and the origin is known. A document without an
  \<open>info\<close> object counts as a key without a user.\<close>

definition resolve_identity :: "plugin_lib \<Rightarrow> plugin_host \<Rightarrow> string \<Rightarrow> string \<Rightarrow> json \<times> plugin_effect list" where
  "resolve_identity L H key_hash origin =
    (let key_url = origin @ KEY_INFO_PATH @ ''?key='' @ key_hash;
         key_document = lookup_json L (ph_lookup H 0 key_url []) ''litellm key lookup'';
         warnings = warning_of key_document;
         custom_fields = base_fields key_hash
     in if (case key_document of Inl _ \<Rightarrow> True | Inr _ \<Rightarrow> False)
        then (hook_output_json None None custom_fields [''litellm_identity_lookup_failed''] warnings, [Looked key_url []])
        else
          (case (case document_object ''info'' key_document of
                   Some info \<Rightarrow> key_fields info custom_fields | None \<Rightarrow> (None, custom_fields)) of
             (None, custom_fields) \<Rightarrow>
               (hook_output_json None None custom_fields [''litellm_key_without_user''] warnings,
                [Looked key_url [], Stored key_hash
                   (pl_print L (cache_document None None custom_fields [''litellm_key_without_user''])) IDENTITY_CACHE_TTL_SECS])
           | (Some user_id, custom_fields) \<Rightarrow>
               (let user_url = origin @ USER_INFO_PATH @ ''?user_id='' @ percent_encode user_id;
                    user_document = lookup_json L (ph_lookup H 1 user_url []) ''litellm user lookup'';
                    warnings = warnings @ warning_of user_document
                in case document_object ''user_info'' user_document of
                     None \<Rightarrow> (hook_output_json (Some user_id) None custom_fields [] warnings,
                       [Looked key_url [], Looked user_url []])
                   | Some info \<Rightarrow>
                       (case user_fields info custom_fields of (user_name, custom_fields) \<Rightarrow>
                         (hook_output_json (Some user_id) user_name custom_fields [] warnings,
                          [Looked key_url [], Looked user_url [], Stored key_hash
                             (pl_print L (cache_document (Some user_id) user_name custom_fields [])) IDENTITY_CACHE_TTL_SECS])))))"

definition identity_by_hash :: "plugin_lib \<Rightarrow> plugin_host \<Rightarrow> string \<Rightarrow> string \<Rightarrow> json \<times> plugin_effect list" where
  "identity_by_hash L H key_hash upstream_url =
    (case cached_identity L (ph_cache_get H key_hash) of
       Some document \<Rightarrow> (emit_cached document (base_fields key_hash) [] [], [])
     | None \<Rightarrow>
         (case origin_of upstream_url of
            None \<Rightarrow> (hook_output_json None None (base_fields key_hash) []
              [''litellm plugin could not derive an origin from upstream_url''], [])
          | Some origin \<Rightarrow> resolve_identity L H key_hash origin))"

definition credential_hash :: "plugin_lib \<Rightarrow> json \<Rightarrow> string option" where
  "credential_hash L input =
    map_option (\<lambda>(header, val). pl_sha256_hex L (bare_key header val))
      (Option.bind (Option.bind (json_get input ''headers'') as_object) find_credential)"

definition upstream_url_of :: "json \<Rightarrow> string" where
  "upstream_url_of input = (case Option.bind (json_get input ''upstream_url'') as_str of Some s \<Rightarrow> s | None \<Rightarrow> [])"

definition identity :: "plugin_lib \<Rightarrow> plugin_host \<Rightarrow> json \<Rightarrow> json \<times> plugin_effect list" where
  "identity L H input =
    (case credential_hash L input of
       None \<Rightarrow> (hook_output_json None None [] [''litellm_no_credential''] [], [])
     | Some key_hash \<Rightarrow> identity_by_hash L H key_hash (upstream_url_of input))"

section \<open>The interface to the host\<close>

definition MAX_ALLOC_BYTES :: int where
  "MAX_ALLOC_BYTES = 16777216"

text \<open>\<open>buffer\<close> is the address of the allocation.\<close>

definition llmtrace_alloc :: "int \<Rightarrow> int \<Rightarrow> int" where
  "llmtrace_alloc buffer len = (if len < 0 then 0 else if len = 0 \<or> len > MAX_ALLOC_BYTES then 0 else buffer)"

definition i32_len :: "bytes \<Rightarrow> int option" where
  "i32_len b = (if length b < 2147483648 then Some (int (length b)) else None)"

definition copy_in :: "bytes \<Rightarrow> int \<Rightarrow> bytes \<Rightarrow> bytes" where
  "copy_in b ptr mem = take (nat ptr) mem @ b @ drop (nat ptr + length b) mem"

definition HOST_LOOKUP_CAPACITY :: int where
  "HOST_LOOKUP_CAPACITY = 65536"

text \<open>The request the host gets and what it writes back; no answer is an error of the call.\<close>

definition host_lookup ::
  "plugin_lib \<Rightarrow> int \<times> int \<Rightarrow> (bytes \<Rightarrow> bytes option) \<Rightarrow> string \<Rightarrow> (string \<times> string) list \<Rightarrow> lookup_response option" where
  "host_lookup L buffers http url headers =
    (let request = pl_print L (JObject [(''headers'', JObject (map (\<lambda>(k, v). (k, JString v)) headers)), (''url'', JString url)]) in
     Option.bind (i32_len request) (\<lambda>request_len.
     if llmtrace_alloc (fst buffers) request_len = 0 then None
     else if llmtrace_alloc (snd buffers) HOST_LOOKUP_CAPACITY = 0 then None
     else Option.bind (http request) (\<lambda>written.
       if written = [] then None
       else Option.bind (pl_parse L written) (\<lambda>envelope.
       Option.bind (Option.bind (json_get envelope ''status'') as_u64) (\<lambda>status.
       Option.bind (Option.bind (json_get envelope ''body'') as_str) (\<lambda>body.
       Some \<lparr>lr_status = status mod 65536, lr_body = body\<rparr>))))))"

definition HOST_CACHE_CAPACITY :: int where
  "HOST_CACHE_CAPACITY = 16384"

text \<open>\<open>cache\<close> is the import: what it wrote for a hit, nothing for a miss or a rejected call.\<close>

definition host_cache_get :: "int \<times> int \<Rightarrow> (bytes \<Rightarrow> bytes option) \<Rightarrow> bytes \<Rightarrow> bytes option" where
  "host_cache_get buffers cache key =
    Option.bind (i32_len key) (\<lambda>key_len.
    if llmtrace_alloc (fst buffers) key_len = 0 then None
    else if llmtrace_alloc (snd buffers) HOST_CACHE_CAPACITY = 0 then None
    else (case cache key of Some written \<Rightarrow> if written = [] then None else Some written | None \<Rightarrow> None))"

definition host_cache_put :: "int \<times> int \<Rightarrow> (bytes \<Rightarrow> bytes \<Rightarrow> nat \<Rightarrow> int) \<Rightarrow> bytes \<Rightarrow> bytes \<Rightarrow> nat \<Rightarrow> bool" where
  "host_cache_put buffers cache key val ttl_secs =
    (case (i32_len key, i32_len val) of
       (Some key_len, Some value_len) \<Rightarrow>
         if llmtrace_alloc (fst buffers) key_len = 0 then False
         else if llmtrace_alloc (snd buffers) value_len = 0 then False
         else cache key val ttl_secs = 0
     | _ \<Rightarrow> False)"

definition pack_output :: "int \<Rightarrow> int \<Rightarrow> 64 word" where
  "pack_output output_ptr output_len =
    push_bit 32 (word_of_int output_ptr) OR ucast (word_of_int output_len :: 32 word)"

definition llmtrace_on_request_start ::
  "plugin_lib \<Rightarrow> plugin_host \<Rightarrow> int \<Rightarrow> int \<Rightarrow> int \<Rightarrow> bytes \<Rightarrow> (64 word \<times> bytes) \<times> plugin_effect list" where
  "llmtrace_on_request_start L H buffer pointer len mem =
    (let input = (if pointer > 0 \<and> len > 0 then pl_parse L (take (nat len) (drop (nat pointer) mem)) else None);
         (output, effects) = (case input of
           Some input \<Rightarrow> identity L H input
         | None \<Rightarrow> (hook_output_json None None [] [] [''litellm plugin received an unreadable hook input''], []));
         bytes = pl_print L output
     in (case i32_len bytes of
           None \<Rightarrow> (0, mem)
         | Some output_len \<Rightarrow>
             (let output_ptr = llmtrace_alloc buffer output_len in
              if output_ptr = 0 then (0, mem) else (pack_output output_ptr output_len, copy_in bytes output_ptr mem)), effects))"

section \<open>Truncation\<close>

lemma char_len_pos: "0 < char_len s" by (simp add: char_len_def)

lemma char_len_le: "s \<noteq> [] \<Longrightarrow> char_len s \<le> length s"
  using length_takeWhile_le [of is_continuation "tl s"] by (cases s) (simp_all add: char_len_def)

text \<open>The first boundary after the start is the end of the first character.\<close>

lemma char_len_boundary:
  assumes "s \<noteq> []"
  shows "is_char_boundary s (char_len s)" "is_char_boundary s i \<Longrightarrow> 0 < i \<Longrightarrow> char_len s \<le> i"
proof -
  obtain c cs where s: "s = c # cs" using assms by (cases s) auto
  let ?k = "length (takeWhile is_continuation cs)"
  have k: "char_len s = Suc ?k" by (simp add: char_len_def s)
  have "\<not> is_continuation (cs ! ?k)" if "?k < length cs" using nth_length_takeWhile [OF that] .
  moreover have "?k \<le> length cs" by (rule length_takeWhile_le)
  ultimately show "is_char_boundary s (char_len s)" unfolding k by (auto simp: is_char_boundary_def s)
  assume b: "is_char_boundary s i" "0 < i"
  show "char_len s \<le> i"
  proof (rule ccontr)
    assume "\<not> char_len s \<le> i"
    then obtain j where j: "i = Suc j" "j < ?k" using b(2) k by (cases i) auto
    then have "is_continuation (cs ! j)" by (metis nth_mem set_takeWhileD takeWhile_nth)
    moreover have "i < length s" using j \<open>?k \<le> length cs\<close> by (simp add: s)
    ultimately show False using b j by (simp add: is_char_boundary_def s)
  qed
qed

lemma push_chars_spec:
  assumes "used \<le> limit"
  shows "prefix (push_chars limit used s) s \<and> used + length (push_chars limit used s) \<le> limit \<and>
    is_char_boundary s (length (push_chars limit used s)) \<and>
    (\<forall>i. is_char_boundary s i \<longrightarrow> used + i \<le> limit \<longrightarrow> i \<le> length (push_chars limit used s))"
  using assms
proof (induction limit used s rule: push_chars.induct)
  case (1 limit used s)
  let ?w = "char_len s"
  show ?case
  proof (cases "s = [] \<or> used + ?w > limit")
    case True
    then have "push_chars limit used s = []" by (subst push_chars.simps) simp
    moreover have "i = 0" if "is_char_boundary s i" "used + i \<le> limit" for i
      using True that char_len_boundary(2) [of s i] is_char_boundary_le [of s i] by (cases "s = []"; cases "i = 0") auto
    ultimately show ?thesis using 1(2) by auto
  next
    case False
    let ?r = "push_chars limit (used + ?w) (drop ?w s)"
    have s: "s \<noteq> []" "used + ?w \<le> limit" using False by auto
    have eq: "push_chars limit used s = take ?w s @ ?r" using False by (subst push_chars.simps) simp
    have w: "?w \<le> length s" by (rule char_len_le [OF s(1)])
    from 1(1) [OF False s(2)] have IH: "prefix ?r (drop ?w s)" "used + ?w + length ?r \<le> limit"
      "is_char_boundary (drop ?w s) (length ?r)"
      "\<And>i. is_char_boundary (drop ?w s) i \<Longrightarrow> used + ?w + i \<le> limit \<Longrightarrow> i \<le> length ?r" by blast+
    have len: "length (push_chars limit used s) = ?w + length ?r" using w by (simp add: eq)
    have "prefix (take ?w s @ ?r) (take ?w s @ drop ?w s)" using IH(1) by (simp only: same_prefix_prefix)
    then have "prefix (push_chars limit used s) s" by (simp add: eq)
    moreover have "is_char_boundary s (?w + length ?r)"
      using char_len_boundary(1) [OF s(1)] is_char_boundary_undrop [OF IH(3) _ w] by (cases "length ?r = 0") simp_all
    moreover have "i \<le> ?w + length ?r" if i: "is_char_boundary s i" "used + i \<le> limit" for i
    proof (cases "i = 0")
      case False
      then have "?w \<le> i" using char_len_boundary(2) [OF s(1) i(1)] by simp
      then have "i - ?w \<le> length ?r" using IH(4) [OF is_char_boundary_drop [OF i(1)]] i(2) by simp
      then show ?thesis by simp
    qed simp
    ultimately show ?thesis using IH(2) len by simp
  qed
qed

interpretation field_bound: bounded_prefix "\<lambda>n s. push_chars n 0 s"
proof (unfold_locales, goal_cases)
  case (3 s n)
  have "length s \<le> length (push_chars n 0 s)" using push_chars_spec [of 0 n s] 3 by simp
  moreover have "prefix (push_chars n 0 s) s" using push_chars_spec [of 0 n s] by simp
  ultimately show ?case by (metis append_eq_conv_conj prefix_def take_all)
qed (use push_chars_spec [of 0] in auto)

lemma bounded_field_valid: "utf8_valid s \<Longrightarrow> utf8_valid (bounded_field s)"
  unfolding bounded_field_def by (rule field_bound.trunc_valid)

lemma bounded_field_nonempty: "utf8_valid s \<Longrightarrow> s \<noteq> [] \<Longrightarrow> bounded_field s \<noteq> []"
  unfolding bounded_field_def by (rule field_bound.trunc_nonempty) (simp_all add: MAX_FIELD_BYTES_def)

section \<open>Percent encoding\<close>

lemma upper_hex_digit: "n < 16 \<Longrightarrow> hex_value (upper_hex n) = Some n"
  by (auto simp: less_Suc_eq numeral_eq_Suc upper_hex_def hex_value_def byte_def)

lemma percent_not_unreserved: "\<not> unreserved CHR ''%''"
  by (simp add: unreserved_def is_ascii_alphanumeric_def byte_def)

lemma percent_encode_decode: "percent_decode (percent_encode v) = v"
proof (induction v)
  case (Cons c v)
  have b: "byte c < 256" by (simp add: byte_def)
  then have "byte c div 16 < 16" by (simp add: div_less_iff_less_mult)
  then have h: "hex_value (upper_hex (byte c div 16)) = Some (byte c div 16)"
    "hex_value (upper_hex (byte c mod 16)) = Some (byte c mod 16)" by (simp_all add: upper_hex_digit)
  have "char_of (byte c div 16 * 16 + byte c mod 16) = c" by (simp only: div_mult_mod_eq) (simp add: byte_def)
  then have c: "char_of (16 * (byte c div 16) + byte c mod 16) = c" by (simp add: mult.commute)
  show ?case
  proof (cases "unreserved c")
    case True
    then have "c \<noteq> CHR ''%''" using percent_not_unreserved by blast
    then show ?thesis using True Cons by simp
  next
    case False then show ?thesis using Cons h c by simp
  qed
qed simp

section \<open>What leaves the plugin\<close>

abbreviation key_lookup_url :: "string \<Rightarrow> string \<Rightarrow> string" where
  "key_lookup_url origin key_hash \<equiv> origin @ KEY_INFO_PATH @ ''?key='' @ key_hash"

abbreviation user_lookup_url :: "string \<Rightarrow> string \<Rightarrow> string" where
  "user_lookup_url origin user_id \<equiv> origin @ USER_INFO_PATH @ ''?user_id='' @ percent_encode user_id"

lemma percent_encode_chars: "list_all (\<lambda>c. unreserved c \<or> c = CHR ''%'' \<or> hex_value c \<noteq> None) (percent_encode v)"
proof (induction v)
  case (Cons c v)
  have "byte c < 256" by (simp add: byte_def)
  then have "byte c div 16 < 16" by (simp add: div_less_iff_less_mult)
  then show ?case using Cons by (simp add: upper_hex_digit)
qed simp

text \<open>The effects of a resolution: the key, then perhaps the user, then perhaps the cache.\<close>

lemma resolve_effects:
  obtains v where "snd (resolve_identity L H k origin) \<in>
    {[Looked (key_lookup_url origin k) []],
     [Looked (key_lookup_url origin k) [], Stored k v IDENTITY_CACHE_TTL_SECS]}"
  | uid where "snd (resolve_identity L H k origin) =
      [Looked (key_lookup_url origin k) [], Looked (user_lookup_url origin uid) []]"
  | uid v where "snd (resolve_identity L H k origin) =
      [Looked (key_lookup_url origin k) [], Looked (user_lookup_url origin uid) [], Stored k v IDENTITY_CACHE_TTL_SECS]"
  unfolding resolve_identity_def Let_def
  by (atomize_elim, auto split: prod.splits option.splits sum.splits)

fun is_looked :: "plugin_effect \<Rightarrow> bool" where
  "is_looked (Looked _ _) = True"
| "is_looked (Stored _ _ _) = False"

text \<open>Without a resolution there is no effect.\<close>

lemma identity_effects:
  assumes "snd (identity L H i) \<noteq> []"
  obtains k origin where "credential_hash L i = Some k" "origin_of (upstream_url_of i) = Some origin"
    "snd (identity L H i) = snd (resolve_identity L H k origin)"
  using assms by (auto simp: identity_def identity_by_hash_def split: option.splits)

lemma resolve_confined:
  "(\<forall>url hs. Looked url hs \<in> set (snd (resolve_identity L H k origin)) \<longrightarrow>
      hs = [] \<and> (url = key_lookup_url origin k \<or> (\<exists>uid. url = user_lookup_url origin uid \<and> percent_decode (percent_encode uid) = uid))) \<and>
    (\<forall>k' v ttl. Stored k' v ttl \<in> set (snd (resolve_identity L H k origin)) \<longrightarrow> k' = k \<and> ttl = 3600) \<and>
    length (filter is_looked (snd (resolve_identity L H k origin))) \<le> 2"
  unfolding percent_encode_decode
  by (rule resolve_effects [of L H k origin]) (auto simp: IDENTITY_CACHE_TTL_SECS_def)

text \<open>C25: the credential stays inside the plugin. Two hook inputs whose credentials have
  the same hash and whose upstream is the same get the same output and cause the same calls to
  the host, so nothing else of the credential or of the headers leaves the plugin. A call
  makes at most two lookups, with no headers of its own, both at the origin of the upstream:
  the key information by the hash and the user information by a user id that the server decodes
  to the very id; what it caches is cached under the hash for an hour. An input without a
  credential causes no call at all.
\<close>

theorem litellm_lookups_confined:
  "(credential_hash L i = credential_hash L j \<longrightarrow> upstream_url_of i = upstream_url_of j \<longrightarrow> identity L H i = identity L H j) \<and>
    (credential_hash L i = None \<longrightarrow> snd (identity L H i) = []) \<and>
    (snd (identity L H i) \<noteq> [] \<longrightarrow>
      (\<exists>k origin. credential_hash L i = Some k \<and> origin_of (upstream_url_of i) = Some origin \<and>
        (\<forall>url hs. Looked url hs \<in> set (snd (identity L H i)) \<longrightarrow>
          hs = [] \<and> (url = origin @ KEY_INFO_PATH @ ''?key='' @ k \<or>
            (\<exists>uid. url = origin @ USER_INFO_PATH @ ''?user_id='' @ percent_encode uid \<and> percent_decode (percent_encode uid) = uid))) \<and>
        (\<forall>k' v ttl. Stored k' v ttl \<in> set (snd (identity L H i)) \<longrightarrow> k' = k \<and> ttl = 3600) \<and>
        length (filter is_looked (snd (identity L H i))) \<le> 2))"
proof (intro conjI impI)
  assume "snd (identity L H i) \<noteq> []"
  then obtain k origin where k: "credential_hash L i = Some k" "origin_of (upstream_url_of i) = Some origin"
    and e: "snd (identity L H i) = snd (resolve_identity L H k origin)" by (rule identity_effects)
  show "\<exists>k origin. credential_hash L i = Some k \<and> origin_of (upstream_url_of i) = Some origin \<and>
      (\<forall>url hs. Looked url hs \<in> set (snd (identity L H i)) \<longrightarrow>
        hs = [] \<and> (url = key_lookup_url origin k \<or> (\<exists>uid. url = user_lookup_url origin uid \<and> percent_decode (percent_encode uid) = uid))) \<and>
      (\<forall>k' v ttl. Stored k' v ttl \<in> set (snd (identity L H i)) \<longrightarrow> k' = k \<and> ttl = 3600) \<and>
      length (filter is_looked (snd (identity L H i))) \<le> 2"
    unfolding e by (intro exI [of _ k] exI [of _ origin] conjI k resolve_confined [THEN conjunct1]
      resolve_confined [THEN conjunct2, THEN conjunct1] resolve_confined [THEN conjunct2, THEN conjunct2])
qed (simp_all add: identity_def split: option.split)

section \<open>The cache\<close>

definition json_ok :: "json \<Rightarrow> bool" where
  "json_ok v \<longleftrightarrow> json_wf v \<and> list_all utf8_valid (json_strings v)"

lemma bt_ext:
  assumes a: "bt_wf a" and b: "bt_wf b" and m: "map_of a = map_of b"
  shows "a = b"
proof -
  have "dom (map_of a) = dom (map_of b)" using m by simp
  then have "set (map fst a) = set (map fst b)" by (simp add: dom_map_of_conv_image_fst)
  then have keys: "map fst a = map fst b" using strict_sorted_equal [OF a b] by simp
  have "x = map (\<lambda>k. (k, the (map_of x k))) (map fst x)" if "bt_wf x" for x :: "('a \<times> 'b) list"
    using bt_wf_distinct [OF that] by (auto intro!: map_idI [symmetric] simp: map_of_eq_Some_iff)
  from this [OF a] this [OF b] show ?thesis unfolding keys m by (rule box_equals [OF refl sym sym])
qed

lemma bt_refold:
  assumes m: "bt_wf m" and b: "bt_wf b" and sub: "map_of b \<subseteq>\<^sub>m map_of m"
  shows "fold (\<lambda>(k, v). bt_insert k v) m b = m"
proof -
  have "bt_wf (fold (\<lambda>(k, v). bt_insert k v) xs c) \<and>
      map_of (fold (\<lambda>(k, v). bt_insert k v) xs c) = map_of c ++ map_of xs" if "distinct (map fst xs)" "bt_wf c" for xs c
    using that
  proof (induction xs arbitrary: c)
    case (Cons p xs)
    obtain k v where p: "p = (k, v)" by (cases p)
    have "bt_wf (bt_insert k v c)" using Cons.prems by auto
    moreover have "k \<notin> dom (map_of xs)" using Cons.prems by (simp add: p dom_map_of_conv_image_fst)
    ultimately show ?case using Cons by (auto simp: p bt_insert_lookup fun_eq_iff map_add_def dom_def split: option.splits)
  qed simp
  from this [OF bt_wf_distinct [OF m] b] show ?thesis
    using map_add_subsumed1 [OF sub] by (intro bt_ext [OF _ m]) simp_all
qed

text \<open>The fields of an identity: sorted, well formed, and the two base fields as set.\<close>

definition fields_ok :: "string \<Rightarrow> (string \<times> json) list \<Rightarrow> bool" where
  "fields_ok h fs \<longleftrightarrow> bt_wf fs \<and> list_all (\<lambda>p. utf8_valid (fst p) \<and> json_ok (snd p)) fs \<and>
    map_of fs ''litellm_key_hash'' = Some (JString h) \<and> map_of fs ''identity_source'' = Some (JString ''litellm'')"

declare utf8_valid.simps(2) [simp del]

lemma json_ok_string [simp]: "json_ok (JString s) \<longleftrightarrow> utf8_valid s"
  by (simp add: json_ok_def)

lemma json_ok_strings: "json_ok (JArray (map JString xs)) \<longleftrightarrow> list_all utf8_valid xs"
  by (auto simp: json_ok_def list_all_iff)

lemma json_ok_object: "json_ok (JObject m) \<longleftrightarrow> bt_wf m \<and> list_all (\<lambda>p. utf8_valid (fst p) \<and> json_ok (snd p)) m"
  by (auto simp: json_ok_def list_all_iff)

lemma json_ok_get: "json_ok v \<Longrightarrow> json_get v k = Some w \<Longrightarrow> json_ok w"
  by (cases v) (auto simp: json_ok_object list_all_iff dest!: map_of_SomeD)

lemma json_ok_str: "json_ok v \<Longrightarrow> as_str v = Some s \<Longrightarrow> utf8_valid s"
  by (cases v) auto

lemma json_ok_array: "json_ok v \<Longrightarrow> as_array v = Some xs \<Longrightarrow> x \<in> set xs \<Longrightarrow> json_ok x"
  by (cases v) (auto simp: json_ok_def list_all_iff)

lemma json_ok_field: "json_ok (JObject info) \<Longrightarrow> Option.bind (map_of info f) as_str = Some s \<Longrightarrow> utf8_valid s"
  using json_ok_get [of "JObject info" f] json_ok_str by (auto simp: bind_eq_Some_conv)

lemma base_fields_ok: "utf8_valid h \<Longrightarrow> fields_ok h (base_fields h)"
  by (simp add: fields_ok_def base_fields_def utf8_valid_ascii byte_def)

lemma fields_ok_insert:
  assumes "fields_ok h fs" "utf8_valid k" "json_ok v" "k \<noteq> ''litellm_key_hash''" "k \<noteq> ''identity_source''"
  shows "fields_ok h (bt_insert k v fs)"
  using assms bt_insert_subset [of k v fs] by (auto simp: fields_ok_def bt_insert_lookup list_all_iff)

lemma fields_ok_copy:
  assumes "fields_ok h fs" "json_ok (JObject info)" "utf8_valid k" "k \<noteq> ''litellm_key_hash''" "k \<noteq> ''identity_source''"
  shows "fields_ok h (copy_string_field info k fs)"
  using assms json_ok_field [OF assms(2), of k]
  by (auto simp: copy_string_field_def bounded_field_valid split: option.split intro!: fields_ok_insert)

lemma key_fields_ok:
  assumes "key_fields info fs = (uid, fs')" "fields_ok h fs" "json_ok (JObject info)"
  shows "fields_ok h fs' \<and> (\<forall>u. uid = Some u \<longrightarrow> u \<noteq> [] \<and> utf8_valid u)"
  using assms json_ok_field [OF assms(3), of "''user_id''"]
  by (auto simp: key_fields_def Let_def utf8_valid_ascii byte_def bounded_field_valid bounded_field_nonempty
      split: option.splits if_splits intro!: fields_ok_copy)

lemma user_fields_ok:
  assumes "user_fields info fs = (name, fs')" "fields_ok h fs" "json_ok (JObject info)"
  shows "fields_ok h fs' \<and> (\<forall>u. name = Some u \<longrightarrow> utf8_valid u)"
proof -
  define email where "email = map_option bounded_field (Option.bind (map_of info ''user_email'') as_str)"
  define nick where "nick = map_option bounded_field (Option.bind (map_of info ''user_alias'') as_str)"
  have e: "utf8_valid s" if "email = Some s" for s
    using that json_ok_field [OF assms(3)] by (auto simp: email_def bounded_field_valid)
  have a: "utf8_valid s" if "nick = Some s" for s
    using that json_ok_field [OF assms(3)] by (auto simp: nick_def bounded_field_valid)
  have teams: "list_all utf8_valid (take MAX_TEAMS (map bounded_field (List.map_filter as_str ts)))"
    if t: "Option.bind (map_of info ''teams'') as_array = Some ts" for ts
  proof -
    obtain v where "map_of info ''teams'' = Some v" "as_array v = Some ts" using t by (cases "map_of info ''teams''") auto
    then have "utf8_valid s" if "x \<in> set ts" "as_str x = Some s" for x s using that json_ok_str [of x s] json_ok_get [OF assms(3), of "''teams''" v] json_ok_array [of v ts] by auto
    then show ?thesis
      by (auto simp: list_all_iff List.map_filter_def dest!: in_set_takeD intro!: bounded_field_valid)
  qed
  define f1 where "f1 = (case email of Some s \<Rightarrow> bt_insert ''user_email'' (JString s) fs | None \<Rightarrow> fs)"
  define f2 where "f2 = (case nick of Some s \<Rightarrow> bt_insert ''user_alias'' (JString s) f1 | None \<Rightarrow> f1)"
  define f3 where "f3 = copy_string_field info ''user_role'' f2"
  have "fields_ok h f1" using assms(2) e
    by (auto simp: f1_def utf8_valid_ascii byte_def split: option.split intro!: fields_ok_insert)
  then have "fields_ok h f2" using a
    by (auto simp: f2_def utf8_valid_ascii byte_def split: option.split intro!: fields_ok_insert)
  then have f3: "fields_ok h f3" using assms(3) by (auto simp: f3_def utf8_valid_ascii byte_def intro!: fields_ok_copy)
  have out: "name = (case email of Some e \<Rightarrow> Some e | None \<Rightarrow> nick)"
    "fs' = (case Option.bind (map_of info ''teams'') as_array of
       Some ts \<Rightarrow> (let ts = take MAX_TEAMS (map bounded_field (List.map_filter as_str ts)) in
         if ts \<noteq> [] then bt_insert ''teams'' (JArray (map JString ts)) f3 else f3) | None \<Rightarrow> f3)"
    using assms(1) unfolding user_fields_def Let_def email_def [symmetric] nick_def [symmetric] f1_def [symmetric]
      f2_def [symmetric] f3_def [symmetric] by auto
  have "fields_ok h fs'" unfolding out(2) Let_def using f3 teams
    by (auto simp: utf8_valid_ascii byte_def json_ok_strings split: option.split intro!: fields_ok_insert)
  then show ?thesis using e a out(1) by (auto split: option.splits)
qed

text \<open>What the answer stores: the document of exactly the identity it gives.\<close>

lemma document_object_ok:
  assumes "\<forall>b v. pl_parse L b = Some v \<longrightarrow> json_ok v" and "document_object f (lookup_json L r what) = Some info"
  shows "json_ok (JObject info)"
proof -
  obtain b v where v: "pl_parse L b = Some v" "Option.bind (json_get v f) as_object = Some info"
    using assms(2) by (auto simp: document_object_def lookup_json_def split: option.splits if_splits)
  then obtain w where "json_get v f = Some w" "as_object w = Some info" by (cases "json_get v f") auto
  then show ?thesis using json_ok_get [of v f w] assms(1) v(1) by (cases w) auto
qed

lemma warning_of_object: "document_object f d = Some info \<Longrightarrow> warning_of d = []"
  by (auto simp: document_object_def warning_of_def split: sum.splits)

lemma resolve_stored:
  assumes parse: "\<forall>b v. pl_parse L b = Some v \<longrightarrow> json_ok v" and h: "utf8_valid k"
    and s: "Stored k' b ttl \<in> set (snd (resolve_identity L H k origin))"
  obtains uid name fs tags where "fst (resolve_identity L H k origin) = hook_output_json uid name fs tags []"
    "b = pl_print L (cache_document uid name fs tags)" "k' = k" "fields_ok k fs" "list_all utf8_valid tags"
    "\<forall>u. uid = Some u \<longrightarrow> u \<noteq> [] \<and> utf8_valid u" "\<forall>u. name = Some u \<longrightarrow> utf8_valid u"
proof -
  define doc where "doc = lookup_json L (ph_lookup H 0 (key_lookup_url origin k) []) ''litellm key lookup''"
  define kf where "kf = (case document_object ''info'' doc of Some info \<Rightarrow> key_fields info (base_fields k) | None \<Rightarrow> (None, base_fields k))"
  obtain uid fs where kf: "kf = (uid, fs)" by (cases kf)
  have ok: "fields_ok k fs \<and> (\<forall>u. uid = Some u \<longrightarrow> u \<noteq> [] \<and> utf8_valid u)"
  proof (cases "document_object ''info'' doc")
    case None then show ?thesis using kf base_fields_ok [OF h] by (auto simp: kf_def)
  next
    case (Some info)
    then have "json_ok (JObject info)" unfolding doc_def by (auto intro: document_object_ok [OF parse])
    then show ?thesis using kf Some key_fields_ok [OF _ base_fields_ok [OF h]] by (simp add: kf_def)
  qed
  obtain d where d: "doc = Inr d" using s
    by (cases doc) (auto simp: resolve_identity_def Let_def doc_def)
  note res = resolve_identity_def [of L H k origin, unfolded Let_def doc_def [symmetric], unfolded kf_def [symmetric], unfolded kf d]
  show thesis
  proof (cases uid)
    case None
    have "list_all utf8_valid [''litellm_key_without_user'']" by (simp add: utf8_valid_ascii byte_def)
    then show thesis using s ok None that [of None None fs "[''litellm_key_without_user'']"]
      by (simp add: res warning_of_def)
  next
    case (Some u)
    define doc' where "doc' = lookup_json L (ph_lookup H 1 (user_lookup_url origin u) []) ''litellm user lookup''"
    obtain info where i: "document_object ''user_info'' doc' = Some info" using s Some
      by (cases "document_object ''user_info'' doc'") (auto simp: res doc'_def)
    obtain name fs' where uf: "user_fields info fs = (name, fs')" by (cases "user_fields info fs")
    have "json_ok (JObject info)" using i unfolding doc'_def by (auto intro: document_object_ok [OF parse])
    then have "fields_ok k fs' \<and> (\<forall>u. name = Some u \<longrightarrow> utf8_valid u)" using user_fields_ok [OF uf] ok by blast
    moreover have "resolve_identity L H k origin = (hook_output_json (Some u) name fs' [] [],
        [Looked (key_lookup_url origin k) [], Looked (user_lookup_url origin u) [],
         Stored k (pl_print L (cache_document (Some u) name fs' [])) IDENTITY_CACHE_TTL_SECS])"
      unfolding res Some warning_of_def [of "Inr d"]
      by (simp only: option.case prod.case sum.case if_False doc'_def [symmetric] i uf warning_of_object [OF i] append_Nil)
    ultimately show thesis using s ok Some that [of "Some u" name fs' "[]"] by simp
  qed
qed

text \<open>Reading a stored document back gives the output again.\<close>

lemma cache_document_ok:
  assumes "fields_ok k fs" "list_all utf8_valid tags" "\<forall>u. uid = Some u \<longrightarrow> u \<noteq> [] \<and> utf8_valid u"
    "\<forall>u. name = Some u \<longrightarrow> utf8_valid u"
  shows "json_ok (cache_document uid name fs tags)"
proof -
  have "json_ok (json_opt uid)" "json_ok (json_opt name)"
    using assms(3,4) by (auto simp: json_opt_def json_ok_def split: option.split)
  moreover have "json_ok (JObject fs)" using assms(1) by (simp add: fields_ok_def json_ok_object)
  moreover have "json_ok (JArray (map JString tags))" using assms(2) by (simp add: json_ok_strings)
  ultimately show ?thesis
    by (simp add: cache_document_def json_ok_object utf8_valid_ascii byte_def CACHE_DOC_VERSION_def json_ok_def [of "JNumber _"] u64_max_def)
qed

lemma emit_cache_document:
  assumes "fields_ok k fs" "\<forall>u. uid = Some u \<longrightarrow> u \<noteq> []"
  shows "emit_cached (cache_document uid name fs tags) (base_fields k) [] [] = hook_output_json uid name fs tags []"
proof -
  have "map_of (base_fields k) \<subseteq>\<^sub>m map_of fs"
    using assms(1) by (auto simp: fields_ok_def base_fields_def map_le_def)
  moreover have "bt_wf (base_fields k)" by (simp add: base_fields_def)
  ultimately have "fold (\<lambda>(k, v). bt_insert k v) fs (base_fields k) = fs"
    using assms(1) bt_refold by (auto simp: fields_ok_def)
  moreover have "List.map_filter as_str (map JString tags) = tags"
    by (induction tags) (simp_all add: List.map_filter_def)
  ultimately show ?thesis using assms(2)
    by (auto simp: emit_cached_def cache_document_def Let_def json_opt_def split: option.splits)
qed

lemma cached_cache_document:
  assumes "pl_parse L b = Some (cache_document uid name fs tags)"
  shows "cached_identity L (Some b) = Some (cache_document uid name fs tags)"
  using assms by (simp add: cached_identity_def cache_document_def CACHE_DOC_VERSION_def i64_max_def)

text \<open>C26: a cache hit repeats the fresh answer. When the JSON library reads back what it
  printed and yields only well-formed values, and a call stores a document under the hash of
  its key, then every later call with a credential of that hash which finds the document in the
  cache answers with the very output of the call that stored it, whatever the upstream of the
  later request and whatever the gateway would answer by then, and it makes no lookup.
\<close>

theorem cached_identity_identical:
  assumes parse: "\<And>b v. pl_parse L b = Some v \<Longrightarrow> json_ok v"
    and print: "\<And>v. json_ok v \<Longrightarrow> pl_parse L (pl_print L v) = Some v"
    and hash: "\<And>b. utf8_valid (pl_sha256_hex L b)"
    and stored: "Stored k b ttl \<in> set (snd (identity L H i))"
    and hit: "credential_hash L j = Some k" "ph_cache_get H' k = Some b"
  shows "identity L H' j = (fst (identity L H i), [])"
proof -
  have "snd (identity L H i) \<noteq> []" using stored by auto
  then obtain h origin where h: "credential_hash L i = Some h" "origin_of (upstream_url_of i) = Some origin"
    "snd (identity L H i) = snd (resolve_identity L H h origin)" by (rule identity_effects)
  have fresh: "identity L H i = resolve_identity L H h origin"
    using stored h(1,2) by (auto simp: identity_def identity_by_hash_def split: option.splits)
  have p: "\<forall>b v. pl_parse L b = Some v \<longrightarrow> json_ok v" using parse by blast
  have "utf8_valid h" using h(1) hash by (auto simp: credential_hash_def)
  from resolve_stored [OF p this stored [unfolded h(3)]]
  obtain uid name fs tags where r: "fst (resolve_identity L H h origin) = hook_output_json uid name fs tags []"
    "b = pl_print L (cache_document uid name fs tags)" "k = h" "fields_ok h fs" "list_all utf8_valid tags"
    "\<forall>u. uid = Some u \<longrightarrow> u \<noteq> [] \<and> utf8_valid u" "\<forall>u. name = Some u \<longrightarrow> utf8_valid u" by blast
  have "pl_parse L b = Some (cache_document uid name fs tags)"
    unfolding r(2) by (rule print [OF cache_document_ok [OF r(4-7)]])
  then have "cached_identity L (ph_cache_get H' k) = Some (cache_document uid name fs tags)"
    unfolding hit(2) by (rule cached_cache_document)
  then show ?thesis using emit_cache_document [OF r(4)] r(6) hit(1)
    by (simp add: identity_def [of L H' j] identity_by_hash_def fresh r(1,3))
qed

text \<open>A concrete library: a value is printed as the program of a stack machine that builds it,
  and parsed by running the program.\<close>

fun push_instr :: "char \<Rightarrow> json list \<Rightarrow> json list option" where
  "push_instr c st =
    (if c = CHR ''n'' then Some (JNull # st)
     else if c = CHR ''t'' then Some (JBool True # st)
     else if c = CHR ''f'' then Some (JBool False # st)
     else if c = CHR ''p'' then Some (JNumber (PosInt 0) # st)
     else if c = CHR ''m'' then Some (JNumber (NegInt 0) # st)
     else if c = CHR ''d'' then Some (JNumber (Float64 0) # st)
     else if c = CHR ''s'' then Some (JString [] # st)
     else if c = CHR ''['' then Some (JArray [] # st)
     else if c = CHR ''{'' then Some (JObject [] # st)
     else case (c = CHR ''+'', c = CHR ''-'', c = CHR ''a'', c = CHR ''o'', st) of
       (True, _, _, _, JNumber (PosInt n) # st) \<Rightarrow> Some (JNumber (PosInt (Suc n)) # st)
     | (True, _, _, _, JNumber (Float64 n) # st) \<Rightarrow> Some (JNumber (Float64 (Suc n)) # st)
     | (_, True, _, _, JNumber (NegInt i) # st) \<Rightarrow> Some (JNumber (NegInt (i - 1)) # st)
     | (_, _, True, _, v # JArray xs # st) \<Rightarrow> Some (JArray (xs @ [v]) # st)
     | (_, _, _, True, v # JString k # JObject m # st) \<Rightarrow> Some (JObject (m @ [(k, v)]) # st)
     | _ \<Rightarrow> None)"

fun run_code :: "string \<Rightarrow> json list \<Rightarrow> json list option" where
  "run_code [] st = Some st"
| "run_code [c] st = push_instr c st"
| "run_code (c # x # cs) st =
    (if c = CHR ''c'' then (case st of JString s # st \<Rightarrow> run_code cs (JString (s @ [x]) # st) | _ \<Rightarrow> None)
     else Option.bind (push_instr c st) (run_code (x # cs)))"

definition string_code :: "string \<Rightarrow> string" where
  "string_code s = CHR ''s'' # concat (map (\<lambda>x. [CHR ''c'', x]) s)"

fun json_code :: "json \<Rightarrow> string" where
  "json_code JNull = ''n''"
| "json_code (JBool b) = (if b then ''t'' else ''f'')"
| "json_code (JNumber (PosInt n)) = CHR ''p'' # replicate n CHR ''+''"
| "json_code (JNumber (NegInt i)) = CHR ''m'' # replicate (nat (- i)) CHR ''-''"
| "json_code (JNumber (Float64 n)) = CHR ''d'' # replicate n CHR ''+''"
| "json_code (JString s) = string_code s"
| "json_code (JArray xs) = CHR ''['' # concat (map (\<lambda>x. json_code x @ ''a'') xs)"
| "json_code (JObject m) = CHR ''{'' # concat (map (\<lambda>p. string_code (fst p) @ json_code (snd p) @ ''o'') m)"

definition stack_lib :: plugin_lib where
  "stack_lib = \<lparr>pl_parse = \<lambda>b. (case run_code b [] of Some [v] \<Rightarrow> if json_ok v then Some v else None | _ \<Rightarrow> None),
    pl_print = json_code,
    pl_sha256_hex = \<lambda>b. concat (map (\<lambda>c. [upper_hex (byte c div 16), upper_hex (byte c mod 16)]) b)\<rparr>"

declare push_instr.simps [simp del]

lemma run_code_step: "c \<noteq> CHR ''c'' \<Longrightarrow> run_code (c # r) st = Option.bind (push_instr c st) (run_code r)"
  by (cases r; cases "push_instr c st") simp_all

lemma run_string_code: "run_code (string_code s @ r) st = run_code r (JString s # st)"
proof -
  have "run_code (concat (map (\<lambda>x. [CHR ''c'', x]) s) @ r) (JString u # st) = run_code r (JString (u @ s) # st)" for u
    by (induction s arbitrary: u) simp_all
  from this [of "[]"] show ?thesis by (simp add: string_code_def run_code_step push_instr.simps)
qed

lemma run_counts:
  "run_code (replicate n CHR ''+'' @ r) (JNumber (PosInt k) # st) = run_code r (JNumber (PosInt (k + n)) # st)"
  "run_code (replicate n CHR ''+'' @ r) (JNumber (Float64 k) # st) = run_code r (JNumber (Float64 (k + n)) # st)"
  "run_code (replicate n CHR ''-'' @ r) (JNumber (NegInt i) # st) = run_code r (JNumber (NegInt (i - int n)) # st)"
  by (induction n arbitrary: k i) (simp_all add: run_code_step push_instr.simps algebra_simps)

lemma run_json_code: "json_wf v \<Longrightarrow> run_code (json_code v @ r) st = run_code r (v # st)"
proof (induction v arbitrary: r st rule: json_code.induct)
  case (7 xs)
  have "run_code (concat (map (\<lambda>x. json_code x @ ''a'') ys) @ r) (JArray us # st) = run_code r (JArray (us @ ys) # st)"
    if "set ys \<subseteq> set xs" for ys us
    using that 7 by (induction ys arbitrary: us) (simp_all add: run_code_step push_instr.simps list_all_iff)
  from this [of xs "[]"] show ?case by (simp add: run_code_step push_instr.simps)
next
  case (8 m)
  have "run_code (concat (map (\<lambda>p. string_code (fst p) @ json_code (snd p) @ ''o'') ys) @ r) (JObject us # st) =
      run_code r (JObject (us @ ys) # st)" if "set ys \<subseteq> set m" for ys us
    using that 8 by (induction ys arbitrary: us) (simp_all add: run_string_code run_code_step push_instr.simps list_all_iff)
  from this [of m "[]"] show ?case by (simp add: run_code_step push_instr.simps)
qed (simp_all add: run_code_step push_instr.simps run_string_code run_counts)

lemma stack_lib_sound: "pl_parse stack_lib b = Some v \<Longrightarrow> json_ok v"
  by (auto simp: stack_lib_def split: option.splits list.splits if_splits)

lemma stack_lib_print: "json_ok v \<Longrightarrow> pl_parse stack_lib (pl_print stack_lib v) = Some v"
  using run_json_code [of v "[]" "[]"] by (simp add: stack_lib_def json_ok_def)

lemma upper_hex_ascii: "n < 16 \<Longrightarrow> byte (upper_hex n) < 128"
  using upper_hex_digit [of n] by (auto simp: hex_value_def Let_def split: if_splits)

lemma stack_lib_hash: "utf8_valid (pl_sha256_hex stack_lib b)"
proof (rule utf8_valid_ascii, induction b)
  case (Cons c b)
  have "byte c < 256" by (simp add: byte_def)
  then have "byte c div 16 < 16" by (simp add: div_less_iff_less_mult)
  then show ?case using Cons by (simp add: stack_lib_def upper_hex_ascii)
qed (simp add: stack_lib_def)

definition key_request :: "string \<Rightarrow> json" where
  "key_request url = JObject [(''headers'', JObject [(''authorization'', JString ''Bearer k1'')]), (''upstream_url'', JString url)]"

definition key_gateway :: "(bytes \<Rightarrow> bytes option) \<Rightarrow> plugin_host" where
  "key_gateway cache = \<lparr>ph_cache_get = cache, ph_lookup = \<lambda>n url hs.
    if n = 0 then Some \<lparr>lr_status = 200, lr_body = pl_print stack_lib (JObject [(''info'', JObject [(''user_id'', JString ''a b'')])])\<rparr>
    else Some \<lparr>lr_status = 200, lr_body = pl_print stack_lib (JObject [(''user_info'', JObject [(''user_email'', JString ''a@b'')])])\<rparr>\<rparr>"

lemma key_request_hash: "credential_hash stack_lib (key_request url) = Some ''6B31''"
proof -
  have "bare_key ''authorization'' ''Bearer k1'' = ''k1'' \<and> trim ''Bearer k1'' \<noteq> [] \<and> pl_sha256_hex stack_lib ''k1'' = ''6B31''"
    by (simp add: bare_key_def trim_def whitespace_chars_def strip_leading.simps stack_lib_def upper_hex_def byte_def is_ascii_alphanumeric_def char_of_def bit_0)
  then show ?thesis
    by (simp add: credential_hash_def key_request_def find_credential_def CREDENTIAL_HEADERS_def List.map_filter_def)
qed

lemma key_resolution:
  "identity stack_lib (key_gateway (\<lambda>_. None)) (key_request ''http://g/v1'') =
    (hook_output_json (Some ''a b'') (Some ''a@b'') (bt_insert ''user_email'' (JString ''a@b'') (base_fields ''6B31'')) [] [],
     [Looked ''http://g/key/info?key=6B31'' [], Looked ''http://g/user/info?user_id=a%20b'' [],
      Stored ''6B31'' (pl_print stack_lib (cache_document (Some ''a b'') (Some ''a@b'')
        (bt_insert ''user_email'' (JString ''a@b'') (base_fields ''6B31'')) [])) 3600])"
proof -
  have ok: "json_ok (JObject [(''info'', JObject [(''user_id'', JString ''a b'')])])"
    "json_ok (JObject [(''user_info'', JObject [(''user_email'', JString ''a@b'')])])"
    by (simp_all add: json_ok_object utf8_valid_ascii byte_def)
  have o: "origin_of ''http://g/v1'' = Some ''http://g''" by (simp add: origin_of_def)
  have e: "percent_encode ''a b'' = ''a%20b''"
    by (simp add: unreserved_def is_ascii_alphanumeric_def byte_def upper_hex_def)
  have b: "bounded_field ''a b'' = ''a b''" "bounded_field ''a@b'' = ''a@b''"
    unfolding bounded_field_def by (simp_all add: field_bound.trunc_short MAX_FIELD_BYTES_def)
  show ?thesis
    unfolding identity_def key_request_hash option.case identity_by_hash_def
    by (simp add: key_request_def upstream_url_of_def o key_gateway_def cached_identity_def resolve_identity_def
        lookup_json_def stack_lib_print [OF ok(1)] stack_lib_print [OF ok(2)] document_object_def key_fields_def user_fields_def
        copy_string_field_def b warning_of_def e KEY_INFO_PATH_def USER_INFO_PATH_def IDENTITY_CACHE_TTL_SECS_def Let_def del: percent_encode.simps)
qed

theorem litellm_lookups_confined_witness:
  "length (filter is_looked (snd (identity stack_lib (key_gateway (\<lambda>_. None)) (key_request ''http://g/v1'')))) \<le> 2 \<and>
    identity stack_lib (key_gateway (\<lambda>_. None)) (key_request ''http://g/v1'') =
    identity stack_lib (key_gateway (\<lambda>_. None)) (JObject [(''headers'', JObject [(''authorization'', JString ''Bearer k1'')]),
      (''path'', JString ''/x''), (''upstream_url'', JString ''http://g/v1'')])"
proof -
  let ?i = "key_request ''http://g/v1''" and ?H = "key_gateway (\<lambda>_. None)"
  let ?j = "JObject [(''headers'', JObject [(''authorization'', JString ''Bearer k1'')]),
      (''path'', JString ''/x''), (''upstream_url'', JString ''http://g/v1'')]"
  have "credential_hash stack_lib ?i = credential_hash stack_lib ?j" "upstream_url_of ?i = upstream_url_of ?j"
    by (simp_all add: credential_hash_def upstream_url_of_def key_request_def)
  moreover have "snd (identity stack_lib ?H ?i) \<noteq> []" by (simp add: key_resolution)
  ultimately show ?thesis using litellm_lookups_confined [of stack_lib ?i ?j ?H] by blast
qed

theorem cached_identity_identical_witness:
  "identity stack_lib (key_gateway (\<lambda>k. if k = ''6B31'' then Some (pl_print stack_lib (cache_document (Some ''a b'') (Some ''a@b'')
      (bt_insert ''user_email'' (JString ''a@b'') (base_fields ''6B31'')) [])) else None)) (key_request ''http://other'') =
    (hook_output_json (Some ''a b'') (Some ''a@b'') (bt_insert ''user_email'' (JString ''a@b'') (base_fields ''6B31'')) [] [], [])"
proof -
  let ?b = "pl_print stack_lib (cache_document (Some ''a b'') (Some ''a@b'') (bt_insert ''user_email'' (JString ''a@b'') (base_fields ''6B31'')) [])"
  let ?i = "key_request ''http://g/v1''" and ?H = "key_gateway (\<lambda>_. None)"
  have "Stored ''6B31'' ?b 3600 \<in> set (snd (identity stack_lib ?H ?i))" by (simp add: key_resolution)
  moreover have "ph_cache_get (key_gateway (\<lambda>k. if k = ''6B31'' then Some ?b else None)) ''6B31'' = Some ?b"
    by (simp add: key_gateway_def)
  ultimately have "identity stack_lib (key_gateway (\<lambda>k. if k = ''6B31'' then Some ?b else None)) (key_request ''http://other'') =
      (fst (identity stack_lib ?H ?i), [])"
    by (intro cached_identity_identical [of stack_lib "''6B31''" ?b 3600 ?H ?i]) (auto intro: stack_lib_sound stack_lib_print stack_lib_hash key_request_hash)
  then show ?thesis by (simp only: key_resolution fst_conv)
qed

section \<open>Delivery to the host\<close>

lemma pack_output_value:
  assumes "0 \<le> ptr" "ptr < 2 ^ 31" "0 \<le> len" "len < 2 ^ 31"
  shows "uint (pack_output ptr len) = ptr * 2 ^ 32 + len"
proof -
  let ?p = "word_of_int ptr :: 64 word" and ?l = "ucast (word_of_int len :: 32 word) :: 64 word"
  have l: "uint ?l = len" using assms by (simp add: unsigned_ucast_eq uint_word_of_int take_bit_int_eq_self)
  have "uint ?p = ptr" using assms by (simp add: uint_word_of_int)
  then have "uint (push_bit 32 ?p) = take_bit 64 (push_bit 32 ptr)" by (simp add: unsigned_push_bit_eq)
  also have "\<dots> = ptr * 2 ^ 32" using assms by (simp add: push_bit_eq_mult take_bit_int_eq_self)
  finally have p: "uint (push_bit 32 ?p) = ptr * 2 ^ 32" .
  have "push_bit 32 ?p AND ?l = 0"
    by (auto simp: bit_simps intro!: bit_eqI)
  then have "push_bit 32 ?p OR ?l = push_bit 32 ?p + ?l" by (simp add: disjunctive_add_eq_or)
  moreover have "uint (push_bit 32 ?p + ?l) = ptr * 2 ^ 32 + len"
    using assms p l by (simp add: uint_plus_if_size word_size)
  ultimately show ?thesis by (simp add: pack_output_def)
qed

text \<open>The output reaches the host unchanged. When the allocator gives the plugin a range of
  its memory and the printed output is at most what the host accepts, the host decodes
  exactly the bytes the plugin printed for the identity of the input (or for the warning about
  an input it could not read), and no byte outside the allocated range changes.
\<close>

theorem plugin_output_delivered:
  fixes pointer len buffer :: int
  assumes out: "out = (case (if pointer > 0 \<and> len > 0 then pl_parse L (take (nat len) (drop (nat pointer) mem)) else None) of
      Some input \<Rightarrow> identity L H input
    | None \<Rightarrow> (hook_output_json None None [] [] [''litellm plugin received an unreadable hook input''], []))"
    and size: "pl_print L (fst out) \<noteq> []" "int (length (pl_print L (fst out))) \<le> MAX_PLUGIN_OUTPUT_BYTES"
    and buffer: "0 < buffer" "buffer < 2 ^ 31" "nat buffer + length (pl_print L (fst out)) \<le> length mem"
    and run: "llmtrace_on_request_start L H buffer pointer len mem = ((packed, mem'), effects)"
  shows "effects = snd out \<and>
    (\<forall>decode. invoke decode (Returned packed mem') =
      (case decode (pl_print L (fst out)) of Some o' \<Rightarrow> Inr (Some o') | None \<Rightarrow> Inl Output_not_json)) \<and>
    length mem' = length mem \<and>
    (\<forall>a<length mem. a < nat buffer \<or> nat buffer + length (pl_print L (fst out)) \<le> a \<longrightarrow> mem' ! a = mem ! a)"
proof -
  let ?b = "pl_print L (fst out)" and ?n = "int (length (pl_print L (fst out)))"
  have n: "0 < ?n" "?n < 2 ^ 31" "?n \<le> MAX_ALLOC_BYTES"
    using size by (simp_all add: MAX_PLUGIN_OUTPUT_BYTES_def MAX_ALLOC_BYTES_def)
  then have len: "i32_len ?b = Some ?n" by (simp add: i32_len_def)
  have alloc: "llmtrace_alloc buffer ?n = buffer" using n by (simp add: llmtrace_alloc_def)
  have res: "packed = pack_output buffer ?n" "mem' = copy_in ?b buffer mem" "effects = snd out"
    using run buffer(1) len alloc unfolding llmtrace_on_request_start_def Let_def out [symmetric]
    by (simp_all add: case_prod_beta)
  have "uint packed = buffer * 2 ^ 32 + ?n" unfolding res using buffer n by (intro pack_output_value) simp_all
  then have up: "unpack_plugin_output packed = Inr (Some (buffer, ?n))"
    using buffer n size unpack_iff by simp
  have read: "take (length ?b) (drop (nat buffer) mem') = ?b"
    using buffer(3) by (simp add: res copy_in_def)
  have lm: "length mem' = length mem" using buffer(3) by (simp add: res copy_in_def)
  have "invoke decode (Returned packed mem') =
      (case decode ?b of Some o' \<Rightarrow> Inr (Some o') | None \<Rightarrow> Inl Output_not_json)" for decode
    using up read buffer lm by (simp add: invoke_def bind_res_def)
  moreover have "mem' ! a = mem ! a" if "a < length mem" "a < nat buffer \<or> nat buffer + length ?b \<le> a" for a
    using that buffer(3) by (auto simp: res copy_in_def nth_append min_def)
  ultimately show ?thesis using res lm by blast
qed

theorem plugin_output_delivered_witness:
  "\<forall>h. \<exists>packed mem' effects. llmtrace_on_request_start \<lparr>pl_parse = \<lambda>b. if b = ''{}'' then Some (JObject []) else None, pl_print = \<lambda>_. ''[1]'', pl_sha256_hex = \<lambda>_. []\<rparr>
      (key_gateway (\<lambda>_. None)) 4 1 2 ''.{}......'' = ((packed, mem'), effects) \<and>
    invoke (\<lambda>b. if b = ''[1]'' then Some h else None) (Returned packed mem') = Inr (Some h) \<and> length mem' = 9"
proof
  fix h :: hook_output
  let ?L = "\<lparr>pl_parse = \<lambda>b. if b = ''{}'' then Some (JObject []) else None, pl_print = \<lambda>_. ''[1]'', pl_sha256_hex = \<lambda>_. []\<rparr>"
  obtain packed mem' effects where run: "llmtrace_on_request_start ?L (key_gateway (\<lambda>_. None)) 4 1 2 ''.{}......'' = ((packed, mem'), effects)"
    by (metis prod.exhaust)
  from plugin_output_delivered [OF refl _ _ _ _ _ run]
  have "invoke (\<lambda>b. if b = ''[1]'' then Some h else None) (Returned packed mem') = Inr (Some h) \<and> length mem' = 9"
    by (simp add: MAX_PLUGIN_OUTPUT_BYTES_def)
  then show "\<exists>packed mem' effects. llmtrace_on_request_start ?L (key_gateway (\<lambda>_. None)) 4 1 2 ''.{}......'' = ((packed, mem'), effects) \<and>
      invoke (\<lambda>b. if b = ''[1]'' then Some h else None) (Returned packed mem') = Inr (Some h) \<and> length mem' = 9" using run by blast
qed

end
