(* ===== verification/LT_Reads.thy ===== *)
theory LT_Reads
  imports LT_Rotation LT_Query "HOL-Library.Multiset"
begin

text \<open>
  The read side of the storage: pagination and time windows (\<open>storage/paging.rs\<close>), request
  listings, facets and details (\<open>storage/requests.rs\<close>), sessions (\<open>storage/sessions.rs\<close>) and
  audit events (\<open>storage/audit.rs\<close>). The rows of \<open>request_traces\<close> are the records ingestion
  writes; a statement is its selection, its order and its limit. Lower-casing for \<open>ILIKE\<close> and
  the collation of the database are arguments. Pages tile the listing, a search is literal, and
  facets count what the listing with that filter shows.
\<close>

section \<open>Pages and windows\<close>

record page =
  pg_limit :: int
  pg_offset :: int

record page_info =
  pi_limit :: int
  pi_offset :: int
  pi_has_more :: bool
  pi_next_offset :: "int option"

definition clamp :: "int \<Rightarrow> int \<Rightarrow> int \<Rightarrow> int" where
  "clamp lo hi x = (if x < lo then lo else if x > hi then hi else x)"

definition page_from_query :: "int option \<Rightarrow> int option \<Rightarrow> page" where
  "page_from_query limit offset =
    \<lparr>pg_limit = clamp 1 500 (unwrap_or 100 limit), pg_offset = clamp 0 1000000 (unwrap_or 0 offset)\<rparr>"

definition fetch_limit :: "page \<Rightarrow> int" where
  "fetch_limit p = pg_limit p + 1"

definition info :: "page \<Rightarrow> bool \<Rightarrow> page_info" where
  "info p has_more =
    \<lparr>pi_limit = pg_limit p, pi_offset = pg_offset p, pi_has_more = has_more,
     pi_next_offset = (if has_more then Some (clamp_i64 (pg_offset p + pg_limit p)) else None)\<rparr>"

text \<open>\<open>LIMIT\<close> and \<open>OFFSET\<close>, and the reading of one page: one row more than shown is fetched.\<close>

definition sql_limit :: "int \<Rightarrow> int \<Rightarrow> 'a list \<Rightarrow> 'a list" where
  "sql_limit limit offset rows = take (nat limit) (drop (nat offset) rows)"

definition paged :: "page \<Rightarrow> 'a list \<Rightarrow> 'a list \<times> page_info" where
  "paged p rows =
    (let fetched = sql_limit (fetch_limit p) (pg_offset p) rows;
         has_more = length fetched > nat (pg_limit p)
     in (take (nat (pg_limit p)) fetched, info p has_more))"

definition DEFAULT_HOURS :: int where
  "DEFAULT_HOURS = 24"

definition MAX_HOURS :: int where
  "MAX_HOURS = 24 * 90"

record window_spec =
  ws_default_limit :: int
  ws_max_limit :: int

definition TOP_N_WINDOW :: window_spec where
  "TOP_N_WINDOW = \<lparr>ws_default_limit = 10, ws_max_limit = 50\<rparr>"

definition REQUEST_FACET_WINDOW :: window_spec where
  "REQUEST_FACET_WINDOW = \<lparr>ws_default_limit = 25, ws_max_limit = 100\<rparr>"

definition RECENT_ERROR_WINDOW :: window_spec where
  "RECENT_ERROR_WINDOW = \<lparr>ws_default_limit = 50, ws_max_limit = 200\<rparr>"

record window =
  wi_since_hours :: int
  wi_limit :: int

definition bounded_hours :: "int option \<Rightarrow> int \<Rightarrow> int" where
  "bounded_hours hours max_hours = clamp 1 max_hours (unwrap_or DEFAULT_HOURS hours)"

definition resolve_window :: "window_spec \<Rightarrow> int option \<Rightarrow> int option \<Rightarrow> window" where
  "resolve_window spec hours limit =
    \<lparr>wi_since_hours = bounded_hours hours MAX_HOURS,
     wi_limit = clamp 1 (ws_max_limit spec) (unwrap_or (ws_default_limit spec) limit)\<rparr>"

text \<open>Times are microseconds.\<close>

definition hours_before :: "int \<Rightarrow> int \<Rightarrow> int" where
  "hours_before now hours = now - hours * 3600000000"

definition window_cutoff :: "window \<Rightarrow> int \<Rightarrow> int" where
  "window_cutoff w now = hours_before now (wi_since_hours w)"

definition window_fetch_limit :: "window \<Rightarrow> int" where
  "window_fetch_limit w = wi_limit w + 1"

record lookback_window =
  lw_since_hours :: int

definition lookback_from_query :: "int option \<Rightarrow> lookback_window" where
  "lookback_from_query hours = \<lparr>lw_since_hours = bounded_hours hours MAX_HOURS\<rparr>"

definition lookback_cutoff :: "lookback_window \<Rightarrow> int \<Rightarrow> int" where
  "lookback_cutoff w now = hours_before now (lw_since_hours w)"

datatype timeseries_bucket = Minute_bucket | Hour_bucket | Day_bucket

definition parse_bucket :: "string option \<Rightarrow> string + timeseries_bucket" where
  "parse_bucket val =
    (let s = map ascii_lower (trim (unwrap_or ''hour'' val)) in
     if s = [] \<or> s = ''hour'' then Inr Hour_bucket
     else if s = ''minute'' then Inr Minute_bucket
     else if s = ''day'' then Inr Day_bucket
     else Inl ''bucket must be one of minute, hour, or day'')"

fun bucket_as_str :: "timeseries_bucket \<Rightarrow> string" where
  "bucket_as_str Minute_bucket = ''minute''"
| "bucket_as_str Hour_bucket = ''hour''"
| "bucket_as_str Day_bucket = ''day''"

text \<open>The interval, in microseconds.\<close>

fun bucket_interval :: "timeseries_bucket \<Rightarrow> int" where
  "bucket_interval Minute_bucket = 60000000"
| "bucket_interval Hour_bucket = 3600000000"
| "bucket_interval Day_bucket = 86400000000"

fun bucket_max_since_hours :: "timeseries_bucket \<Rightarrow> int" where
  "bucket_max_since_hours Minute_bucket = 24"
| "bucket_max_since_hours Hour_bucket = MAX_HOURS"
| "bucket_max_since_hours Day_bucket = 24 * 365"

record timeseries_window =
  tw_since_hours :: int
  tw_bucket :: timeseries_bucket

definition timeseries_from_query :: "int option \<Rightarrow> string option \<Rightarrow> string + timeseries_window" where
  "timeseries_from_query hours bucket =
    bind_res (parse_bucket bucket) (\<lambda>b.
    Inr \<lparr>tw_since_hours = bounded_hours hours (bucket_max_since_hours b), tw_bucket = b\<rparr>)"

definition timeseries_cutoff :: "timeseries_window \<Rightarrow> int \<Rightarrow> int" where
  "timeseries_cutoff w now = hours_before now (tw_since_hours w)"

section \<open>Rows\<close>

text \<open>What the database brings: lower-casing as \<open>ILIKE\<close> applies it to text and pattern, the
  sort key of the collation, and the text of times and identifiers.\<close>

record read_lib =
  rl_lower :: "string \<Rightarrow> string"
  rl_collate :: "string \<Rightarrow> string"
  rl_show_time :: "int \<Rightarrow> string"
  rl_show_uuid :: "uuid \<Rightarrow> string"

record request_summary =
  rs_id :: uuid
  rs_started_at :: int
  rs_completed_at :: "int option"
  rs_method :: string
  rs_original_uri :: string
  rs_upstream_url :: string
  rs_upstream_host :: "string option"
  rs_status :: "int option"
  rs_error :: "string option"
  rs_request_kind :: string
  rs_model :: "string option"
  rs_api_key_hash :: "string option"
  rs_session_id :: "uuid option"
  rs_ttft_ms :: "int option"
  rs_duration_ms :: "int option"
  rs_bytes_in :: int
  rs_bytes_out :: int
  rs_request_body_truncated :: bool
  rs_response_body_truncated :: bool
  rs_plugin_metadata :: json
  rs_tags :: "string list"
  rs_ttfb_ms :: "int option"
  rs_input_tokens :: "int option"
  rs_output_tokens :: "int option"
  rs_cached_input_tokens :: "int option"
  rs_cache_creation_input_tokens :: "int option"
  rs_estimated_cost_microusd :: "int option"
  rs_usage_complete :: bool
  rs_tool_call_count :: int

record request_metadata = request_summary +
  rm_session_key :: "string option"
  rm_request_headers :: json
  rm_response_headers :: json
  rm_tool_calls :: "tool_call list"
  rm_request_body_bytes :: int
  rm_response_body_bytes :: int
  rm_content_type :: "string option"

text \<open>The columns of an inserted trace.\<close>

definition metadata_of :: "trace_record \<Rightarrow> request_metadata" where
  "metadata_of t =
    \<lparr>rs_id = tr_id t, rs_started_at = tr_started_at t, rs_completed_at = tr_completed_at t, rs_method = tr_method t,
     rs_original_uri = tr_original_uri t, rs_upstream_url = tr_upstream_url t, rs_upstream_host = tr_upstream_host t,
     rs_status = tr_status t, rs_error = tr_error t, rs_request_kind = request_kind_as_str (tr_request_kind t),
     rs_model = tr_model t, rs_api_key_hash = tr_api_key_hash t, rs_session_id = tr_session_id t,
     rs_ttft_ms = tr_ttft_ms t, rs_duration_ms = tr_duration_ms t, rs_bytes_in = tr_bytes_in t, rs_bytes_out = tr_bytes_out t,
     rs_request_body_truncated = tr_request_body_truncated t, rs_response_body_truncated = tr_response_body_truncated t,
     rs_plugin_metadata = tr_plugin_metadata t, rs_tags = tr_tags t, rs_ttfb_ms = tr_ttfb_ms t,
     rs_input_tokens = input_tokens (tr_usage t), rs_output_tokens = output_tokens (tr_usage t),
     rs_cached_input_tokens = cached_input_tokens (tr_usage t),
     rs_cache_creation_input_tokens = cache_creation_input_tokens (tr_usage t),
     rs_estimated_cost_microusd = tr_estimated_cost_microusd t, rs_usage_complete = tr_usage_complete t,
     rs_tool_call_count = int (length (tr_tool_calls t)), rm_session_key = tr_session_key t,
     rm_request_headers = tr_request_headers t, rm_response_headers = tr_response_headers t,
     rm_tool_calls = tr_tool_calls t, rm_request_body_bytes = tr_request_body_bytes t,
     rm_response_body_bytes = tr_response_body_bytes t, rm_content_type = tr_content_type t\<rparr>"

text \<open>The row that ingestion, rotation and retention see of the same trace.\<close>

definition row_of :: "request_metadata \<Rightarrow> trace_row" where
  "row_of m =
    \<lparr>rt_id = rs_id m, rt_started_at = rs_started_at m, rt_status = rs_status m, rt_error = rs_error m,
     rt_session = rs_session_id m, rt_ttft_ms = rs_ttft_ms m, rt_duration_ms = rs_duration_ms m,
     rt_request_body_bytes = rm_request_body_bytes m, rt_response_body_bytes = rm_response_body_bytes m,
     rt_inline = ([], [])\<rparr>"

definition summary_of :: "request_metadata \<Rightarrow> request_summary" where
  "summary_of m = request_summary.truncate m"

definition request_error :: "request_metadata \<Rightarrow> bool" where
  "request_error m \<longleftrightarrow> row_is_error (rs_error m) (rs_status m)"

definition status_class :: "int option \<Rightarrow> string" where
  "status_class status =
    (case status of
       None \<Rightarrow> ''no_status''
     | Some s \<Rightarrow>
         if 100 \<le> s \<and> s \<le> 199 then ''1xx''
         else if 200 \<le> s \<and> s \<le> 299 then ''2xx''
         else if 300 \<le> s \<and> s \<le> 399 then ''3xx''
         else if 400 \<le> s \<and> s \<le> 499 then ''4xx''
         else if 500 \<le> s \<and> s \<le> 599 then ''5xx''
         else ''other'')"

section \<open>Request listings\<close>

text \<open>\<open>LIKE\<close> with the backslash as escape character; \<open>_\<close> stands for one character. A pattern that
  ends in an escape, which the database refuses, does not occur.\<close>

function like :: "string \<Rightarrow> string \<Rightarrow> bool" where
  "like [] s \<longleftrightarrow> s = []"
| "like (p # ps) s \<longleftrightarrow>
    (if p = CHR ''%'' then like ps s \<or> (case s of [] \<Rightarrow> False | c # cs \<Rightarrow> like (p # ps) cs)
     else (case s of
             [] \<Rightarrow> False
           | c # cs \<Rightarrow>
               if p = CHR 0x5C then (case ps of [] \<Rightarrow> False | q # qs \<Rightarrow> c = q \<and> like qs cs)
               else if p = CHR ''_'' then like ps (dropWhile is_continuation cs)
               else c = p \<and> like ps cs))"
  by pat_completeness auto
termination
  by (relation "measure (\<lambda>(p, s). length p + length s)") (auto simp: less_Suc_eq_le le_SucI length_dropWhile_le)

declare like.simps(2) [simp del]

definition ilike :: "read_lib \<Rightarrow> string \<Rightarrow> string option \<Rightarrow> bool" where
  "ilike R pat val = (case val of Some s \<Rightarrow> like (rl_lower R pat) (rl_lower R s) | None \<Rightarrow> False)"

record request_list_filters =
  rf_q :: "string option"
  rf_status :: "int option"
  rf_status_class :: "string option"
  rf_has_error :: "bool option"
  rf_upstream_host :: "string option"
  rf_model :: "string option"
  rf_request_kind :: "string option"
  rf_session_id :: "uuid option"
  rf_api_key_hash :: "string option"
  rf_since :: "int option"
  rf_until :: "int option"
  rf_min_duration_ms :: "int option"
  rf_max_duration_ms :: "int option"
  rf_limit :: "int option"
  rf_offset :: "int option"

text \<open>A comparison of a parameter that is absent holds; a comparison with a missing column
  does not.\<close>

definition sql_given :: "'a option \<Rightarrow> ('a \<Rightarrow> bool) \<Rightarrow> bool" where
  "sql_given param P = (case param of Some x \<Rightarrow> P x | None \<Rightarrow> True)"

definition sql_some :: "'a option \<Rightarrow> ('a \<Rightarrow> bool) \<Rightarrow> bool" where
  "sql_some column P = (case column of Some x \<Rightarrow> P x | None \<Rightarrow> False)"

definition status_class_matches :: "string \<Rightarrow> int option \<Rightarrow> bool" where
  "status_class_matches c status \<longleftrightarrow>
    (c = ''no_status'' \<and> status = None) \<or>
    (c = ''1xx'' \<and> sql_some status (\<lambda>s. 100 \<le> s \<and> s \<le> 199)) \<or>
    (c = ''2xx'' \<and> sql_some status (\<lambda>s. 200 \<le> s \<and> s \<le> 299)) \<or>
    (c = ''3xx'' \<and> sql_some status (\<lambda>s. 300 \<le> s \<and> s \<le> 399)) \<or>
    (c = ''4xx'' \<and> sql_some status (\<lambda>s. 400 \<le> s \<and> s \<le> 499)) \<or>
    (c = ''5xx'' \<and> sql_some status (\<lambda>s. 500 \<le> s \<and> s \<le> 599)) \<or>
    (c = ''other'' \<and> sql_some status (\<lambda>s. s < 100 \<or> s > 599))"

definition LIST_REQUESTS_SQL :: "read_lib \<Rightarrow> string option \<Rightarrow> request_list_filters \<Rightarrow> request_metadata \<Rightarrow> bool" where
  "LIST_REQUESTS_SQL R q f m \<longleftrightarrow>
    sql_given q (\<lambda>p. ilike R (''%'' @ p @ ''%'') (Some (rs_upstream_url m)) \<or> ilike R (''%'' @ p @ ''%'') (rs_model m) \<or>
      ilike R (''%'' @ p @ ''%'') (Some (rs_request_kind m))) \<and>
    sql_given (rf_status f) (\<lambda>s. rs_status m = Some s) \<and>
    sql_given (rf_upstream_host f) (\<lambda>h. rs_upstream_host m = Some h) \<and>
    sql_given (rf_model f) (\<lambda>x. rs_model m = Some x) \<and>
    sql_given (rf_request_kind f) (\<lambda>k. rs_request_kind m = k) \<and>
    sql_given (rf_session_id f) (\<lambda>i. rs_session_id m = Some i) \<and>
    sql_given (rf_api_key_hash f) (\<lambda>h. rs_api_key_hash m = Some h) \<and>
    sql_given (rf_since f) (\<lambda>t. rs_started_at m \<ge> t) \<and>
    sql_given (rf_until f) (\<lambda>t. rs_started_at m \<le> t) \<and>
    sql_given (rf_min_duration_ms f) (\<lambda>d. sql_some (rs_duration_ms m) (\<lambda>x. x \<ge> d)) \<and>
    sql_given (rf_max_duration_ms f) (\<lambda>d. sql_some (rs_duration_ms m) (\<lambda>x. x \<le> d)) \<and>
    sql_given (rf_has_error f) (\<lambda>e.
      e \<and> (rs_error m \<noteq> None \<or> sql_some (rs_status m) (\<lambda>s. s \<ge> 400)) \<or>
      \<not> e \<and> rs_error m = None \<and> (rs_status m = None \<or> sql_some (rs_status m) (\<lambda>s. s < 400))) \<and>
    sql_given (rf_status_class f) (\<lambda>c. status_class_matches c (rs_status m))"

text \<open>\<open>ORDER BY started_at DESC, id DESC\<close>; identifiers are unique.\<close>

definition by_newest :: "request_metadata list \<Rightarrow> request_metadata list" where
  "by_newest rows = rev (sort_key (\<lambda>m. (rs_started_at m, rs_id m)) rows)"

definition list_requests :: "read_lib \<Rightarrow> request_list_filters \<Rightarrow> request_metadata list \<Rightarrow> request_summary list \<times> page_info" where
  "list_requests R f rows =
    (let q = map_option escape_like (rf_q f) in
     paged (page_from_query (rf_limit f) (rf_offset f))
       (map summary_of (by_newest (filter (LIST_REQUESTS_SQL R q f) rows))))"

definition list_session_requests ::
  "(uuid \<times> trace_session) list \<Rightarrow> uuid \<Rightarrow> int option \<Rightarrow> int option \<Rightarrow> request_metadata list
    \<Rightarrow> (request_summary list \<times> page_info) option" where
  "list_session_requests sessions session_id limit offset rows =
    (if session_id \<notin> fst ` set sessions then None
     else Some (paged (page_from_query limit offset)
       (map summary_of (by_newest (filter (\<lambda>m. rs_session_id m = Some session_id) rows)))))"

definition recent_error_requests ::
  "int option \<Rightarrow> int option \<Rightarrow> int \<Rightarrow> request_metadata list \<Rightarrow> (window \<times> int) \<times> request_summary list \<times> bool" where
  "recent_error_requests since_hours limit now rows =
    (let w = resolve_window RECENT_ERROR_WINDOW since_hours limit; cutoff = window_cutoff w now;
         fetched = sql_limit (window_fetch_limit w) 0
           (map summary_of (by_newest (filter (\<lambda>m. rs_started_at m \<ge> cutoff \<and> request_error m) rows)))
     in ((w, cutoff), take (nat (wi_limit w)) fetched, length fetched > nat (wi_limit w)))"

definition slowest_first :: "request_metadata list \<Rightarrow> request_metadata list" where
  "slowest_first rows = rev (sort_key (\<lambda>m. (unwrap_or 0 (rs_duration_ms m), rs_started_at m, rs_id m)) rows)"

definition slow_requests ::
  "int option \<Rightarrow> int option \<Rightarrow> int option \<Rightarrow> int option \<Rightarrow> int \<Rightarrow> request_metadata list
    \<Rightarrow> (lookback_window \<times> int \<times> int) \<times> request_summary list \<times> page_info" where
  "slow_requests since_hours min_duration_ms limit offset now rows =
    (let w = lookback_from_query since_hours;
         p = page_from_query (case limit of Some l \<Rightarrow> Some l | None \<Rightarrow> Some 50) offset;
         min_duration_ms = max 0 (unwrap_or 1000 min_duration_ms);
         cutoff = lookback_cutoff w now
     in ((w, cutoff, min_duration_ms), paged p (map summary_of (slowest_first
           (filter (\<lambda>m. rs_started_at m \<ge> cutoff \<and> sql_some (rs_duration_ms m) (\<lambda>d. d \<ge> min_duration_ms)) rows)))))"

section \<open>Facets\<close>

text \<open>\<open>GROUP BY value\<close> with the number of rows, most frequent first.\<close>

definition group_counts :: "('v \<Rightarrow> 'k::linorder) \<Rightarrow> 'v list \<Rightarrow> ('v \<times> int) list" where
  "group_counts key vs = sort_key (\<lambda>(v, n). (- n, key v)) (map (\<lambda>v. (v, int (count_list vs v))) (remdups vs))"

definition present :: "string option list \<Rightarrow> string list" where
  "present xs = List.map_filter (\<lambda>x. case x of Some s \<Rightarrow> if s \<noteq> [] then Some s else None | None \<Rightarrow> None) xs"

record request_facets_row =
  fa_models :: "(string \<times> int) list"
  fa_upstream_hosts :: "(string \<times> int) list"
  fa_request_kinds :: "(string \<times> int) list"
  fa_statuses :: "(int \<times> int) list"
  fa_status_classes :: "(string \<times> int) list"
  fa_error_states :: "(bool \<times> int) list"

definition request_facets :: "read_lib \<Rightarrow> int option \<Rightarrow> int option \<Rightarrow> int \<Rightarrow> request_metadata list \<Rightarrow> (window \<times> int) \<times> request_facets_row" where
  "request_facets R since_hours limit now rows =
    (let w = resolve_window REQUEST_FACET_WINDOW since_hours limit; cutoff = window_cutoff w now;
         recent = filter (\<lambda>m. rs_started_at m \<ge> cutoff) rows
     in ((w, cutoff),
         \<lparr>fa_models = sql_limit (wi_limit w) 0 (group_counts (rl_collate R) (present (map rs_model recent))),
          fa_upstream_hosts = sql_limit (wi_limit w) 0 (group_counts (rl_collate R) (present (map rs_upstream_host recent))),
          fa_request_kinds = sql_limit (wi_limit w) 0 (group_counts (rl_collate R) (filter (\<lambda>k. k \<noteq> []) (map rs_request_kind recent))),
          fa_statuses = sql_limit (wi_limit w) 0 (group_counts (\<lambda>s. s) (List.map_filter rs_status recent)),
          fa_status_classes = sql_limit (wi_limit w) 0 (group_counts (rl_collate R) (map (\<lambda>m. status_class (rs_status m)) recent)),
          fa_error_states = sort_key (\<lambda>(v, n). \<not> v) (group_counts (\<lambda>v. v) (map request_error recent))\<rparr>))"

section \<open>Details\<close>

text \<open>The body as text; the replacement of invalid sequences is the argument.\<close>

definition body_text :: "(bytes \<Rightarrow> string) \<Rightarrow> captured_body \<Rightarrow> string" where
  "body_text lossy c = (case cb_bytes c of Some b \<Rightarrow> lossy b | None \<Rightarrow> [])"

record request_detail =
  de_request :: request_metadata
  de_bodies_included :: bool
  de_request_body :: string
  de_response_body :: string
  de_request_body_status :: "body_status option"
  de_response_body_status :: "body_status option"

definition load_bodies :: "archive_lib \<Rightarrow> archive_store \<Rightarrow> (uuid \<Rightarrow> (bytes \<times> bytes) option) \<Rightarrow> request_metadata \<Rightarrow> captured_body \<times> captured_body" where
  "load_bodies L s inl m =
    load_trace_bodies L s (rs_id m) (inl (rs_id m)) (rm_request_body_bytes m, rm_response_body_bytes m)
      (rs_request_body_truncated m, rs_response_body_truncated m)"

definition get_request ::
  "archive_lib \<Rightarrow> (bytes \<Rightarrow> string) \<Rightarrow> archive_store \<Rightarrow> (uuid \<Rightarrow> (bytes \<times> bytes) option) \<Rightarrow> uuid \<Rightarrow> bool
    \<Rightarrow> request_metadata list \<Rightarrow> request_detail option" where
  "get_request L lossy s inl i include_bodies rows =
    (case find (\<lambda>m. rs_id m = i) rows of
       None \<Rightarrow> None
     | Some request \<Rightarrow>
         Some (if include_bodies
           then (case load_bodies L s inl request of (req, resp) \<Rightarrow>
             \<lparr>de_request = request\<lparr>rs_request_body_truncated := cb_truncated req, rs_response_body_truncated := cb_truncated resp\<rparr>,
              de_bodies_included = True, de_request_body = body_text lossy req, de_response_body = body_text lossy resp,
              de_request_body_status = Some (cb_status req), de_response_body_status = Some (cb_status resp)\<rparr>)
           else \<lparr>de_request = request, de_bodies_included = False, de_request_body = [], de_response_body = [],
              de_request_body_status = None, de_response_body_status = None\<rparr>))"

section \<open>Sessions\<close>

record session_summary =
  ss_id :: uuid
  ss_info :: trace_session
  ss_request_count :: int
  ss_max_duration_ms :: int

definition sql_max :: "int option list \<Rightarrow> int option" where
  "sql_max xs = (let ys = List.map_filter id xs in if ys = [] then None else Some (Max (set ys)))"

definition sql_min :: "int option list \<Rightarrow> int option" where
  "sql_min xs = (let ys = List.map_filter id xs in if ys = [] then None else Some (Min (set ys)))"

definition of_session :: "uuid \<Rightarrow> request_metadata list \<Rightarrow> request_metadata list" where
  "of_session i rows = filter (\<lambda>m. rs_session_id m = Some i) rows"

definition LIST_SESSIONS_SQL :: "read_lib \<Rightarrow> string option \<Rightarrow> (uuid \<times> trace_session) list \<Rightarrow> (uuid \<times> trace_session) list" where
  "LIST_SESSIONS_SQL R q sessions =
    rev (sort_key (\<lambda>p. (se_last_seen (snd p), fst p)) (filter (\<lambda>p. sql_given q (\<lambda>x.
      ilike R (''%'' @ x @ ''%'') (Some (se_key (snd p))) \<or> ilike R (''%'' @ x @ ''%'') (se_user_id (snd p)) \<or>
      ilike R (''%'' @ x @ ''%'') (se_user_name (snd p)))) sessions))"

definition list_sessions ::
  "read_lib \<Rightarrow> string option \<Rightarrow> int option \<Rightarrow> int option \<Rightarrow> (uuid \<times> trace_session) list \<Rightarrow> request_metadata list
    \<Rightarrow> session_summary list \<times> page_info" where
  "list_sessions R q limit offset sessions rows =
    (let q = map_option escape_like q in
     paged (page_from_query limit offset)
       (map (\<lambda>(i, s). \<lparr>ss_id = i, ss_info = s, ss_request_count = int (length (of_session i rows)),
          ss_max_duration_ms = unwrap_or 0 (sql_max (map rs_duration_ms (of_session i rows)))\<rparr>)
        (LIST_SESSIONS_SQL R q sessions)))"

text \<open>Aggregates: \<open>SUM\<close> of no value is missing, a sum beyond 64 bits is an error, and the cast of
  \<open>AVG\<close> rounds half away from zero.\<close>

definition sql_sum :: "int option list \<Rightarrow> ingest_error + int option" where
  "sql_sum xs = (let ys = List.map_filter id xs in if ys = [] then Inr None else bind_res (pg_bigint (sum_list ys)) (Inr \<circ> Some))"

definition sql_sum0 :: "int list \<Rightarrow> ingest_error + int" where
  "sql_sum0 xs = pg_bigint (sum_list xs)"

definition sql_avg :: "int option list \<Rightarrow> int option" where
  "sql_avg xs =
    (let ys = List.map_filter id xs; n = int (length ys); t = sum_list ys in
     if ys = [] then None else Some (sgn t * ((2 * \<bar>t\<bar> + n) div (2 * n))))"

definition sql_count :: "('a \<Rightarrow> bool) \<Rightarrow> 'a list \<Rightarrow> int" where
  "sql_count P xs = int (length (filter P xs))"

record session_request_stats =
  sq_request_count :: int
  sq_error_count :: int
  sq_input_tokens :: "int option"
  sq_output_tokens :: "int option"
  sq_estimated_cost_microusd :: "int option"
  sq_tool_call_count :: int
  sq_usage_known_count :: int
  sq_priced_request_count :: int
  sq_incomplete_capture_count :: int
  sq_bytes_in :: int
  sq_bytes_out :: int
  sq_captured_bytes :: int
  sq_avg_duration_ms :: "int option"
  sq_max_duration_ms :: "int option"
  sq_avg_ttft_ms :: "int option"
  sq_max_ttft_ms :: "int option"
  sq_first_request_at :: "int option"
  sq_last_request_at :: "int option"

definition captured_bytes_of :: "request_metadata \<Rightarrow> int" where
  "captured_bytes_of m = rm_request_body_bytes m + rm_response_body_bytes m"

definition SESSION_REQUEST_STATS_SQL :: "request_metadata list \<Rightarrow> ingest_error + session_request_stats" where
  "SESSION_REQUEST_STATS_SQL ms =
    bind_res (sql_sum (map rs_input_tokens ms)) (\<lambda>tokens_in.
    bind_res (sql_sum (map rs_output_tokens ms)) (\<lambda>tokens_out.
    bind_res (sql_sum (map rs_estimated_cost_microusd ms)) (\<lambda>cost.
    bind_res (sql_sum0 (map rs_tool_call_count ms)) (\<lambda>calls.
    bind_res (sql_sum0 (map rs_bytes_in ms)) (\<lambda>bytes_in.
    bind_res (sql_sum0 (map rs_bytes_out ms)) (\<lambda>bytes_out.
    bind_res (sql_sum0 (map captured_bytes_of ms)) (\<lambda>captured.
    Inr \<lparr>sq_request_count = int (length ms), sq_error_count = sql_count request_error ms,
      sq_input_tokens = tokens_in, sq_output_tokens = tokens_out, sq_estimated_cost_microusd = cost,
      sq_tool_call_count = calls, sq_usage_known_count = sql_count rs_usage_complete ms,
      sq_priced_request_count = sql_count (\<lambda>m. rs_estimated_cost_microusd m \<noteq> None) ms,
      sq_incomplete_capture_count = sql_count (\<lambda>m. rs_request_body_truncated m \<or> rs_response_body_truncated m \<or>
        ''session_messages_truncated'' \<in> set (rs_tags m)) ms,
      sq_bytes_in = bytes_in, sq_bytes_out = bytes_out, sq_captured_bytes = captured,
      sq_avg_duration_ms = sql_avg (map rs_duration_ms ms), sq_max_duration_ms = sql_max (map rs_duration_ms ms),
      sq_avg_ttft_ms = sql_avg (map rs_ttft_ms ms), sq_max_ttft_ms = sql_max (map rs_ttft_ms ms),
      sq_first_request_at = sql_min (map (Some \<circ> rs_started_at) ms),
      sq_last_request_at = sql_max (map (Some \<circ> rs_started_at) ms)\<rparr>)))))))"

text \<open>Message rows are kept in the order of their serial identifiers.\<close>

definition messages_of :: "uuid \<Rightarrow> message_row list \<Rightarrow> message_row list" where
  "messages_of i messages = sort_key mr_created_at (filter (\<lambda>r. mr_session_id r = i) messages)"

record session_detail =
  sd_id :: uuid
  sd_session :: trace_session
  sd_request_stats :: session_request_stats
  sd_messages :: "message_row list"
  sd_messages_page :: page_info

definition get_session ::
  "uuid \<Rightarrow> int option \<Rightarrow> int option \<Rightarrow> (uuid \<times> trace_session) list \<Rightarrow> message_row list \<Rightarrow> request_metadata list
    \<Rightarrow> ingest_error + session_detail option" where
  "get_session i messages_limit messages_offset sessions messages rows =
    (case map_of sessions i of
       None \<Rightarrow> Inr None
     | Some session \<Rightarrow>
         bind_res (SESSION_REQUEST_STATS_SQL (of_session i rows)) (\<lambda>stats.
         case paged (page_from_query messages_limit messages_offset) (messages_of i messages) of (shown, p) \<Rightarrow>
           Inr (Some \<lparr>sd_id = i, sd_session = session, sd_request_stats = stats, sd_messages = shown, sd_messages_page = p\<rparr>)))"

section \<open>Session export\<close>

datatype export_line =
    Session_line uuid trace_session int
  | Request_line request_metadata export_body export_body "message_row list"
  | End_line uuid int int int int

definition export_end_complete :: "export_line \<Rightarrow> bool" where
  "export_end_complete l = (case l of End_line _ _ _ truncated unavailable \<Rightarrow> truncated = 0 \<and> unavailable = 0 | _ \<Rightarrow> False)"

record export_counts =
  ex_requests :: int
  ex_message_previews :: int
  ex_truncated_bodies :: int
  ex_unavailable_bodies :: int

text \<open>The snapshot an export reads, and what can stop it, by the number of the operation: a
  statement or the task that renders a line fails, or the reader of the lines is gone.\<close>

record export_env =
  ee_lib :: archive_lib
  ee_store :: archive_store
  ee_inline :: "uuid \<Rightarrow> (bytes \<times> bytes) option"
  ee_session :: uuid
  ee_messages :: "message_row list"
  ee_rows :: "request_metadata list"
  ee_fault :: "nat \<Rightarrow> bool"

definition next_row :: "uuid \<Rightarrow> (int \<times> uuid) option \<Rightarrow> request_metadata list \<Rightarrow> request_metadata option" where
  "next_row i cursor rows =
    (case sort_key (\<lambda>m. (rs_started_at m, rs_id m))
        (filter (\<lambda>m. rs_session_id m = Some i \<and> sql_given cursor (\<lambda>c. c < (rs_started_at m, rs_id m))) rows) of
       [] \<Rightarrow> None | m # _ \<Rightarrow> Some m)"

definition request_previews :: "uuid \<Rightarrow> uuid \<Rightarrow> message_row list \<Rightarrow> message_row list" where
  "request_previews i session messages =
    sort_key mr_created_at (filter (\<lambda>r. mr_request_id r = i \<and> mr_session_id r = session) messages)"

definition bool_count :: "bool \<Rightarrow> int" where
  "bool_count b = (if b then 1 else 0)"

lemma next_row_later:
  assumes "next_row i cursor rows = Some m"
  shows "m \<in> set rows \<and> rs_session_id m = Some i \<and> sql_given cursor (\<lambda>c. c < (rs_started_at m, rs_id m))"
proof -
  let ?xs = "filter (\<lambda>m. rs_session_id m = Some i \<and> sql_given cursor (\<lambda>c. c < (rs_started_at m, rs_id m))) rows"
  obtain ms where "sort_key (\<lambda>m. (rs_started_at m, rs_id m)) ?xs = m # ms"
    using assms by (cases "sort_key (\<lambda>m. (rs_started_at m, rs_id m)) ?xs") (simp_all add: next_row_def)
  then have "m \<in> set (sort_key (\<lambda>m. (rs_started_at m, rs_id m)) ?xs)" by (simp only: list.set_intros)
  then show ?thesis by simp
qed

definition count_row :: "captured_body \<times> captured_body \<Rightarrow> message_row list \<Rightarrow> export_counts \<Rightarrow> export_counts" where
  "count_row bodies previews c =
    \<lparr>ex_requests = ex_requests c + 1,
     ex_message_previews = ex_message_previews c + int (length previews),
     ex_truncated_bodies = ex_truncated_bodies c + bool_count (cb_truncated (fst bodies)) + bool_count (cb_truncated (snd bodies)),
     ex_unavailable_bodies = ex_unavailable_bodies c + bool_count (cb_status (fst bodies) \<noteq> Available) +
       bool_count (cb_status (snd bodies) \<noteq> Available)\<rparr>"

text \<open>One row, unless one of its four operations fails.\<close>

definition export_row :: "export_env \<Rightarrow> nat \<Rightarrow> request_metadata \<Rightarrow> export_counts \<Rightarrow> (export_line \<times> export_counts) option" where
  "export_row E n row c =
    (if ee_fault E (n + 1) \<or> ee_fault E (n + 2) \<or> ee_fault E (n + 3) \<or> ee_fault E (n + 4) then None
     else let bodies = load_bodies (ee_lib E) (ee_store E) (ee_inline E) row;
              previews = request_previews (rs_id row) (ee_session E) (ee_messages E)
       in Some (Request_line row (into_export (ee_lib E) (fst bodies)) (into_export (ee_lib E) (snd bodies)) previews,
            count_row bodies previews c))"

function export_loop :: "export_env \<Rightarrow> nat \<Rightarrow> (int \<times> uuid) option \<Rightarrow> export_counts \<Rightarrow> export_line list \<times> export_counts option" where
  "export_loop E n cursor c =
    (if ee_fault E n then ([], None)
     else case next_row (ee_session E) cursor (ee_rows E) of
       None \<Rightarrow> ([], Some c)
     | Some row \<Rightarrow>
         (case export_row E n row c of
            None \<Rightarrow> ([], None)
          | Some (line, c') \<Rightarrow>
              (case export_loop E (n + 5) (Some (rs_started_at row, rs_id row)) c' of (ls, r) \<Rightarrow> (line # ls, r))))"
  by pat_completeness auto
termination
proof (relation "measure (\<lambda>(E, _, cursor, _). length (filter (\<lambda>m. rs_session_id m = Some (ee_session E) \<and>
    sql_given cursor (\<lambda>c. c < (rs_started_at m, rs_id m))) (ee_rows E)))", goal_cases)
  case (2 E n cursor c row)
  note r = next_row_later [OF 2(2)]
  let ?P = "\<lambda>m. rs_session_id m = Some (ee_session E) \<and> sql_given cursor (\<lambda>c. c < (rs_started_at m, rs_id m))"
  let ?Q = "\<lambda>m. rs_session_id m = Some (ee_session E) \<and> (rs_started_at row, rs_id row) < (rs_started_at m, rs_id m)"
  have "filter ?Q (ee_rows E) = filter ?Q (filter ?P (ee_rows E))"
    unfolding filter_filter by (rule filter_cong) (use r in \<open>auto simp: sql_given_def split: option.splits\<close>)
  moreover have "length (filter ?Q (filter ?P (ee_rows E))) < length (filter ?P (ee_rows E))"
    by (rule length_filter_less [of row]) (use r in auto)
  ultimately show ?case by (simp add: sql_given_def)
qed simp

declare export_loop.simps [simp del]

definition session_export_prepare :: "uuid \<Rightarrow> (uuid \<times> trace_session) list \<Rightarrow> request_metadata list \<Rightarrow> (trace_session \<times> int) option" where
  "session_export_prepare i sessions rows =
    map_option (\<lambda>s. (s, int (length (of_session i rows)))) (map_of sessions i)"

definition no_exports :: export_counts where
  "no_exports = \<lparr>ex_requests = 0, ex_message_previews = 0, ex_truncated_bodies = 0, ex_unavailable_bodies = 0\<rparr>"

text \<open>The lines that reach the reader, and whether the export ended well: the count is checked and
  the transaction committed before the final line is sent.\<close>

definition session_export_write :: "export_env \<Rightarrow> trace_session \<Rightarrow> int \<Rightarrow> export_line list \<times> bool" where
  "session_export_write E session expected =
    (let i = ee_session E; head = Session_line i session expected in
     if ee_fault E 0 then ([], False)
     else case export_loop E 3 None no_exports of
       (ls, None) \<Rightarrow> (head # ls, False)
     | (ls, Some c) \<Rightarrow>
         if ex_requests c \<noteq> expected then (head # ls, False)
         else if ee_fault E 1 \<or> ee_fault E 2 then (head # ls, False)
         else (head # ls @ [End_line i (ex_requests c) (ex_message_previews c) (ex_truncated_bodies c) (ex_unavailable_bodies c)], True))"

section \<open>Pages tile a listing\<close>

lemma clamp_range: "lo \<le> hi \<Longrightarrow> lo \<le> clamp lo hi x \<and> clamp lo hi x \<le> hi"
  by (simp add: clamp_def)

lemma page_range: "1 \<le> pg_limit (page_from_query l off) \<and> pg_limit (page_from_query l off) \<le> 500 \<and>
    0 \<le> pg_offset (page_from_query l off) \<and> pg_offset (page_from_query l off) \<le> 1000000"
  using clamp_range [of 1 500 "unwrap_or 100 l"] clamp_range [of 0 1000000 "unwrap_or 0 off"] by (simp add: page_from_query_def)

text \<open>A page shows its slice; there is more exactly when rows follow the slice.\<close>

lemma paged_slice:
  assumes "0 \<le> pg_limit p" "0 \<le> pg_offset p" "pg_offset p + pg_limit p \<le> i64_max"
  shows "fst (paged p rows) = take (nat (pg_limit p)) (drop (nat (pg_offset p)) rows)"
    and "pi_next_offset (snd (paged p rows)) =
      (if int (length rows) > pg_offset p + pg_limit p then Some (pg_offset p + pg_limit p) else None)"
proof -
  have "nat (pg_limit p + 1) = Suc (nat (pg_limit p))" using assms by simp
  then show "fst (paged p rows) = take (nat (pg_limit p)) (drop (nat (pg_offset p)) rows)"
    by (simp add: paged_def Let_def sql_limit_def fetch_limit_def min_def)
  have "clamp_i64 (pg_offset p + pg_limit p) = pg_offset p + pg_limit p"
    using assms by (simp add: clamp_i64_def i64_min_def)
  moreover have "nat (pg_limit p) < length (sql_limit (fetch_limit p) (pg_offset p) rows) \<longleftrightarrow>
      pg_offset p + pg_limit p < int (length rows)"
    using assms by (auto simp: sql_limit_def fetch_limit_def)
  ultimately show "pi_next_offset (snd (paged p rows)) =
      (if int (length rows) > pg_offset p + pg_limit p then Some (pg_offset p + pg_limit p) else None)"
    by (simp add: paged_def info_def Let_def)
qed

text \<open>A client that follows \<open>next_offset\<close> for at most so many pages.\<close>

fun crawl :: "nat \<Rightarrow> (int option \<Rightarrow> 'a list \<times> page_info) \<Rightarrow> int option \<Rightarrow> 'a list" where
  "crawl 0 get offset = []"
| "crawl (Suc n) get offset =
    (case get offset of (items, p) \<Rightarrow>
       items @ (case pi_next_offset p of Some offset' \<Rightarrow> crawl n get (Some offset') | None \<Rightarrow> []))"

locale paged_listing =
  fixes get :: "int option \<Rightarrow> 'a list \<times> page_info" and limit :: "int option" and rows :: "'a list"
  assumes get_page: "get offset = paged (page_from_query limit offset) rows"
begin

abbreviation size_of_page :: int where
  "size_of_page \<equiv> clamp 1 500 (unwrap_or 100 limit)"

lemma page_limit: "pg_limit (page_from_query limit offset) = size_of_page"
  by (simp add: page_from_query_def)

lemma get_slice:
  "fst (get offset) = take (nat size_of_page) (drop (nat (pg_offset (page_from_query limit offset))) rows)"
  "pi_next_offset (snd (get offset)) =
    (if int (length rows) > pg_offset (page_from_query limit offset) + size_of_page
     then Some (pg_offset (page_from_query limit offset) + size_of_page) else None)"
  using paged_slice [of "page_from_query limit offset" rows] page_range [of limit offset]
  by (simp_all add: get_page page_limit i64_max_def)

lemma crawl_from:
  assumes "0 \<le> off" "off \<le> 1000000" "int (length rows) \<le> 1000000" "length (drop (nat off) rows) \<le> n" "0 < n"
  shows "crawl n get (Some off) = drop (nat off) rows"
  using assms
proof (induction n arbitrary: off)
  case (Suc n)
  let ?k = size_of_page
  have k: "1 \<le> ?k" by (simp add: clamp_def)
  have off: "pg_offset (page_from_query limit (Some off)) = off"
    using Suc.prems by (simp add: page_from_query_def clamp_def unwrap_or_def)
  note g = get_slice [of "Some off", unfolded off]
  show ?case
  proof (cases "int (length rows) > off + ?k")
    case True
    have "nat (off + ?k) = nat off + nat ?k" using k Suc.prems by simp
    moreover have "crawl n get (Some (off + ?k)) = drop (nat (off + ?k)) rows"
      using True k Suc.prems by (intro Suc.IH) auto
    ultimately show ?thesis using g True
      by (simp add: case_prod_beta) (metis append_take_drop_id drop_drop add.commute)
  next
    case False
    then have "take (nat ?k) (drop (nat off) rows) = drop (nat off) rows" using Suc.prems by simp
    then show ?thesis using g False by (simp add: case_prod_beta)
  qed
qed simp

lemma crawl_complete:
  assumes "int (length rows) \<le> 1000000" "length rows < n"
  shows "crawl n get None = rows"
proof -
  have "page_from_query limit None = page_from_query limit (Some 0)" by (simp add: page_from_query_def unwrap_or_def)
  then have "get None = get (Some 0)" by (simp add: get_page)
  then have "crawl n get None = crawl n get (Some 0)" using assms by (cases n) simp_all
  then show ?thesis using crawl_from [of 0 n] assms by simp
qed

text \<open>Beyond the largest offset the same page comes back.\<close>

lemma deep_page:
  assumes "int (length rows) > 1000000 + size_of_page" "off \<ge> 1000000"
  shows "get (Some off) = get (Some 1000000) \<and> pi_next_offset (snd (get (Some off))) = Some (1000000 + size_of_page)"
proof -
  have p: "page_from_query limit (Some off) = page_from_query limit (Some 1000000)" "pg_offset (page_from_query limit (Some 1000000)) = 1000000"
    using assms by (simp_all add: page_from_query_def clamp_def unwrap_or_def)
  then show ?thesis using get_slice(2) [of "Some 1000000"] assms by (simp add: get_page)
qed

end

lemma list_filter_offset: "LIST_REQUESTS_SQL R q (f\<lparr>rf_offset := off\<rparr>) = LIST_REQUESTS_SQL R q f"
  by (simp add: LIST_REQUESTS_SQL_def fun_eq_iff)

interpretation request_pages: paged_listing "\<lambda>off. list_requests R (f\<lparr>rf_offset := off\<rparr>) rows" "rf_limit f"
  "map summary_of (by_newest (filter (LIST_REQUESTS_SQL R (map_option escape_like (rf_q f)) f) rows))"
  for R f rows
  by unfold_locales (simp add: list_requests_def Let_def list_filter_offset)

interpretation slow_pages: paged_listing "\<lambda>off. snd (slow_requests hours dur limit off now rows)"
  "case limit of Some l \<Rightarrow> Some l | None \<Rightarrow> Some 50"
  "map summary_of (slowest_first (filter (\<lambda>m. rs_started_at m \<ge> lookback_cutoff (lookback_from_query hours) now \<and>
     sql_some (rs_duration_ms m) (\<lambda>d. d \<ge> max 0 (unwrap_or 1000 dur))) rows))"
  for hours dur limit now rows
  by unfold_locales (simp add: slow_requests_def Let_def del: max.bounded_iff)

interpretation session_pages: paged_listing "\<lambda>off. list_sessions R q limit off sessions rows" limit
  "map (\<lambda>(i, s). \<lparr>ss_id = i, ss_info = s, ss_request_count = int (length (of_session i rows)),
      ss_max_duration_ms = unwrap_or 0 (sql_max (map rs_duration_ms (of_session i rows)))\<rparr>)
    (LIST_SESSIONS_SQL R (map_option escape_like q) sessions)"
  for R q limit sessions rows
  by unfold_locales (simp add: list_sessions_def Let_def)

text \<open>The listing itself: every matching row once, newest first.\<close>

lemma by_newest_spec:
  assumes "distinct (map rs_id rows)"
  shows "mset (by_newest rows) = mset rows \<and>
    sorted_wrt (\<lambda>a b. (rs_started_at b, rs_id b) < (rs_started_at a, rs_id a)) (by_newest rows)"
proof -
  let ?k = "\<lambda>m. (rs_started_at m, rs_id m)"
  have "distinct (map rs_id (sort_key ?k rows))"
    using assms by (simp add: distinct_map)
  then have "distinct (map ?k (sort_key ?k rows))"
    by (auto simp: distinct_map inj_on_def)
  then have "sorted_wrt (<) (map ?k (sort_key ?k rows))" by (simp add: strict_sorted_iff)
  then show ?thesis by (simp add: by_newest_def sorted_wrt_rev sorted_wrt_map)
qed


text \<open>Beyond the largest offset the same page comes back, and a client that follows the pages
  neither ends nor reaches the remaining rows.\<close>

lemma deep_pages_repeat:
  assumes "int (length (filter (LIST_REQUESTS_SQL R (map_option escape_like (rf_q f)) f) rows)) >
      1000000 + clamp 1 500 (unwrap_or 100 (rf_limit f))" "off \<ge> 1000000"
  shows "list_requests R (f\<lparr>rf_offset := Some off\<rparr>) rows = list_requests R (f\<lparr>rf_offset := Some 1000000\<rparr>) rows \<and>
    pi_next_offset (snd (list_requests R (f\<lparr>rf_offset := Some off\<rparr>) rows)) = Some (1000000 + clamp 1 500 (unwrap_or 100 (rf_limit f)))"
  by (rule request_pages.deep_page) (use assms in \<open>auto simp: by_newest_def\<close>)

section \<open>A search is literal\<close>

lemma like_escaped: "like (escape_like q @ ps) s \<longleftrightarrow> (\<exists>t. s = q @ t \<and> like ps t)"
proof (induction q arbitrary: s)
  case (Cons c q)
  have e: "escape_like (c # q) = (if c \<in> {CHR 0x5C, CHR ''%'', CHR ''_''} then [CHR 0x5C, c] else [c]) @ escape_like q"
    by (simp add: escape_like_alt)
  have "like (escape_like (c # q) @ ps) s \<longleftrightarrow> (\<exists>cs. s = c # cs \<and> like (escape_like q @ ps) cs)"
    by (cases s) (auto simp: e like.simps(2))
  then show ?case using Cons by auto
qed (simp add: escape_like_alt)

lemma like_percent: "like (CHR ''%'' # ps) s \<longleftrightarrow> (\<exists>u t. s = u @ t \<and> like ps t)"
proof (induction s)
  case Nil
  then show ?case by (simp add: like.simps(2))
next
  case (Cons c s)
  have "like (CHR ''%'' # ps) (c # s) \<longleftrightarrow> like ps (c # s) \<or> (\<exists>u t. s = u @ t \<and> like ps t)"
    using Cons by (subst like.simps(2)) simp
  also have "\<dots> \<longleftrightarrow> (\<exists>u t. c # s = u @ t \<and> like ps t)" by (auto simp: Cons_eq_append_conv)
  finally show ?case .
qed

lemma like_contains: "like (CHR ''%'' # escape_like q @ ''%'') s \<longleftrightarrow> sublist q s"
proof -
  have all: "like ''%'' t" for t unfolding like_percent by (intro exI [of _ t] exI [of _ "[]"]) simp
  have "like (CHR ''%'' # escape_like q @ ''%'') s \<longleftrightarrow> (\<exists>u t. s = u @ t \<and> like (escape_like q @ ''%'') t)"
    by (simp add: like_percent)
  also have "\<dots> \<longleftrightarrow> sublist q s" unfolding like_escaped using all by (auto simp: sublist_def)
  finally show ?thesis .
qed

text \<open>Lower-casing works character by character and leaves the characters of patterns alone.\<close>

definition lower_plain :: "read_lib \<Rightarrow> bool" where
  "lower_plain R \<longleftrightarrow> (\<forall>q. rl_lower R (''%'' @ escape_like q @ ''%'') = ''%'' @ escape_like (rl_lower R q) @ ''%'')"

lemma ilike_contains:
  "lower_plain R \<Longrightarrow> ilike R (CHR ''%'' # escape_like q @ ''%'') val \<longleftrightarrow> (\<exists>s. val = Some s \<and> sublist (rl_lower R q) (rl_lower R s))"
  by (cases val) (auto simp: ilike_def lower_plain_def like_contains)

text \<open>C34: a search text is taken literally. Whatever characters it has, wildcards and
  backslashes included, a request is listed exactly when the lower-cased text occurs in its
  upstream URL, its model or its kind, and a session exactly when it occurs in its key, user or
  user name.
\<close>

theorem search_is_literal:
  assumes "lower_plain R"
  shows "(m \<in> set (filter (LIST_REQUESTS_SQL R (map_option escape_like (Some q)) f) rows) \<longleftrightarrow>
      m \<in> set rows \<and> LIST_REQUESTS_SQL R None f m \<and>
      (\<exists>s \<in> set (rs_upstream_url m # rs_request_kind m # List.map_filter id [rs_model m]). sublist (rl_lower R q) (rl_lower R s))) \<and>
    (p \<in> set (LIST_SESSIONS_SQL R (map_option escape_like (Some q)) sessions) \<longleftrightarrow>
      p \<in> set sessions \<and>
      (\<exists>s \<in> set (se_key (snd p) # List.map_filter id [se_user_id (snd p), se_user_name (snd p)]). sublist (rl_lower R q) (rl_lower R s)))"
proof
  note c = ilike_contains [OF assms]
  show "m \<in> set (filter (LIST_REQUESTS_SQL R (map_option escape_like (Some q)) f) rows) \<longleftrightarrow>
      m \<in> set rows \<and> LIST_REQUESTS_SQL R None f m \<and>
      (\<exists>s \<in> set (rs_upstream_url m # rs_request_kind m # List.map_filter id [rs_model m]). sublist (rl_lower R q) (rl_lower R s))"
    by (cases "rs_model m") (auto simp: LIST_REQUESTS_SQL_def c sql_given_def [of "Some _"] sql_given_def [of None] List.map_filter_def)
  show "p \<in> set (LIST_SESSIONS_SQL R (map_option escape_like (Some q)) sessions) \<longleftrightarrow>
      p \<in> set sessions \<and>
      (\<exists>s \<in> set (se_key (snd p) # List.map_filter id [se_user_id (snd p), se_user_name (snd p)]). sublist (rl_lower R q) (rl_lower R s))"
    by (cases "se_user_id (snd p)"; cases "se_user_name (snd p)") (auto simp: LIST_SESSIONS_SQL_def c sql_given_def List.map_filter_def)
qed

section \<open>Facets count what the listing shows\<close>

lemma group_counts_set: "set (group_counts key vs) = (\<lambda>v. (v, int (count_list vs v))) ` set vs"
  by (simp add: group_counts_def)

lemma sum_list_sort_key: "sum_list (map f (sort_key k xs)) = (sum_list (map f xs) :: int)"
proof -
  have "mset (map f (sort_key k xs)) = mset (map f xs)" by simp
  then show ?thesis by (metis sum_mset_sum_list)
qed

lemma group_counts_total: "sum_list (map snd (group_counts key vs)) = int (length vs)"
proof -
  have "sum_list (map snd (group_counts key vs)) = sum_list (map (\<lambda>v. int (count_list vs v)) (remdups vs))"
    by (simp add: group_counts_def sum_list_sort_key comp_def)
  also have "\<dots> = (\<Sum>v\<in>set vs. int (count_list vs v))"
    by (simp add: sum_list_distinct_conv_sum_set)
  also have "\<dots> = int (length vs)"
    using sum_count_set [of vs "set vs"] by (simp flip: of_nat_sum)
  finally show ?thesis .
qed

text \<open>What a limit leaves out is never more frequent than what it keeps.\<close>

lemma group_counts_top:
  assumes "(v, n) \<in> set (take k (group_counts key vs))" "w \<in> set vs" "w \<notin> fst ` set (take k (group_counts key vs))"
  shows "int (count_list vs w) \<le> n"
proof -
  let ?g = "group_counts key vs"
  have s: "sorted (map (\<lambda>(v, n). (- n, key v)) ?g)" unfolding group_counts_def by (rule sorted_sort_key)
  have "(w, int (count_list vs w)) \<in> set ?g" using assms(2) by (simp add: group_counts_set)
  moreover have "(w, int (count_list vs w)) \<notin> set (take k ?g)" using assms(3) by force
  ultimately have "(w, int (count_list vs w)) \<in> set (drop k ?g)"
    using set_append [of "take k ?g" "drop k ?g"] by (metis Un_iff append_take_drop_id)
  moreover have "sorted (map (\<lambda>(v, n). (- n, key v)) (take k ?g @ drop k ?g))" using s by simp
  ultimately have "(- n, key v) \<le> (- int (count_list vs w), key w)"
    using assms(1) unfolding map_append sorted_append by (fastforce simp: image_iff)
  then show ?thesis by auto
qed

lemma count_list_map_filter: "count_list (List.map_filter f xs) v = length (filter (\<lambda>x. f x = Some v) xs)"
  by (induction xs) (auto simp: List.map_filter_def)

lemma count_list_map: "count_list (map f xs) v = length (filter (\<lambda>x. f x = v) xs)"
  by (induction xs) auto

lemma count_present: "v \<noteq> [] \<Longrightarrow> count_list (present (map f xs)) v = length (filter (\<lambda>x. f x = Some v) xs)"
  by (induction xs) (auto simp: present_def List.map_filter_def split: option.splits)

lemma present_nonempty: "v \<in> set (present xs) \<Longrightarrow> v \<noteq> []"
  by (induction xs) (auto simp: present_def List.map_filter_def split: option.split_asm if_split_asm)

definition no_filters :: request_list_filters where
  "no_filters = \<lparr>rf_q = None, rf_status = None, rf_status_class = None, rf_has_error = None, rf_upstream_host = None,
    rf_model = None, rf_request_kind = None, rf_session_id = None, rf_api_key_hash = None, rf_since = None,
    rf_until = None, rf_min_duration_ms = None, rf_max_duration_ms = None, rf_limit = None, rf_offset = None\<rparr>"

definition matching :: "read_lib \<Rightarrow> request_list_filters \<Rightarrow> request_metadata list \<Rightarrow> int" where
  "matching R f rows = int (length (filter (LIST_REQUESTS_SQL R (map_option escape_like (rf_q f)) f) rows))"

lemma since_filter:
  "LIST_REQUESTS_SQL R None (no_filters\<lparr>rf_since := Some t\<rparr>) m \<longleftrightarrow> t \<le> rs_started_at m"
  "LIST_REQUESTS_SQL R None (no_filters\<lparr>rf_since := Some t, rf_model := Some v\<rparr>) m \<longleftrightarrow> t \<le> rs_started_at m \<and> rs_model m = Some v"
  "LIST_REQUESTS_SQL R None (no_filters\<lparr>rf_since := Some t, rf_upstream_host := Some v\<rparr>) m \<longleftrightarrow>
    t \<le> rs_started_at m \<and> rs_upstream_host m = Some v"
  "LIST_REQUESTS_SQL R None (no_filters\<lparr>rf_since := Some t, rf_request_kind := Some v\<rparr>) m \<longleftrightarrow>
    t \<le> rs_started_at m \<and> rs_request_kind m = v"
  "LIST_REQUESTS_SQL R None (no_filters\<lparr>rf_since := Some t, rf_status := Some s\<rparr>) m \<longleftrightarrow> t \<le> rs_started_at m \<and> rs_status m = Some s"
  "LIST_REQUESTS_SQL R None (no_filters\<lparr>rf_since := Some t, rf_status_class := Some v\<rparr>) m \<longleftrightarrow>
    t \<le> rs_started_at m \<and> status_class_matches v (rs_status m)"
  by (simp_all add: LIST_REQUESTS_SQL_def no_filters_def sql_given_def conj_commute)

lemma since_error_filter:
  "LIST_REQUESTS_SQL R None (no_filters\<lparr>rf_since := Some t, rf_has_error := Some e\<rparr>) m \<longleftrightarrow>
    t \<le> rs_started_at m \<and> request_error m = e"
  by (cases e; cases "rs_status m"; cases "rs_error m")
    (auto simp: LIST_REQUESTS_SQL_def no_filters_def sql_given_def sql_some_def request_error_def row_is_error_def)

text \<open>The class a facet names is the class the filter selects.\<close>

lemma status_class_filter: "status_class_matches c s \<longleftrightarrow> c = status_class s"
proof (cases s)
  case (Some n)
  consider "n < 100" | "100 \<le> n" "n \<le> 199" | "200 \<le> n" "n \<le> 299" | "300 \<le> n" "n \<le> 399" | "400 \<le> n" "n \<le> 499"
    | "500 \<le> n" "n \<le> 599" | "599 < n" by linarith
  then show ?thesis by cases (simp_all add: Some status_class_matches_def status_class_def sql_some_def)
qed (simp add: status_class_matches_def status_class_def sql_some_def)

lemma status_class_values: "status_class s \<in> {''no_status'', ''1xx'', ''2xx'', ''3xx'', ''4xx'', ''5xx'', ''other''}"
  by (auto simp: status_class_def split: option.split)

lemma matching_since:
  assumes "rf_q f = None" "\<And>m. LIST_REQUESTS_SQL R None f m \<longleftrightarrow> t \<le> rs_started_at m \<and> P m"
  shows "matching R f rows = int (length (filter P (filter (\<lambda>m. t \<le> rs_started_at m) rows)))"
proof -
  have "LIST_REQUESTS_SQL R None f = (\<lambda>m. t \<le> rs_started_at m \<and> P m)" by (rule ext) (rule assms(2))
  then show ?thesis by (simp add: matching_def assms(1) conj_commute)
qed

lemma no_filters_q [simp]: "rf_q no_filters = None"
  by (simp add: no_filters_def)

lemma facet_listed:
  assumes "(v, n) \<in> set (sql_limit k 0 (group_counts key (map g (filter (\<lambda>m. t \<le> rs_started_at m) rows))))"
    and "rf_q f = None" "\<And>m. LIST_REQUESTS_SQL R None f m \<longleftrightarrow> t \<le> rs_started_at m \<and> g m = v"
  shows "n = matching R f rows"
proof -
  have "(v, n) \<in> set (group_counts key (map g (filter (\<lambda>m. t \<le> rs_started_at m) rows)))"
    using assms(1) by (auto simp: sql_limit_def dest: in_set_takeD)
  then show ?thesis using matching_since [OF assms(2,3)] by (auto simp: group_counts_set count_list_map)
qed

lemma facet_listed_some:
  assumes "(v, n) \<in> set (sql_limit k 0 (group_counts key (List.map_filter g (filter (\<lambda>m. t \<le> rs_started_at m) rows))))"
    and "rf_q f = None" "\<And>m. LIST_REQUESTS_SQL R None f m \<longleftrightarrow> t \<le> rs_started_at m \<and> g m = Some v"
  shows "n = matching R f rows"
proof -
  have "(v, n) \<in> set (group_counts key (List.map_filter g (filter (\<lambda>m. t \<le> rs_started_at m) rows)))"
    using assms(1) by (auto simp: sql_limit_def dest: in_set_takeD)
  then show ?thesis using matching_since [OF assms(2,3)] by (auto simp: group_counts_set count_list_map_filter)
qed

lemma filter_present: "filter (\<lambda>k. k \<noteq> []) (map g xs) = present (map (Some \<circ> g) xs)"
  by (induction xs) (auto simp: present_def List.map_filter_def)

lemma facet_listed_present:
  assumes "(v, n) \<in> set (sql_limit k 0 (group_counts key (present (map g (filter (\<lambda>m. t \<le> rs_started_at m) rows)))))"
    and "rf_q f = None" "\<And>m. LIST_REQUESTS_SQL R None f m \<longleftrightarrow> t \<le> rs_started_at m \<and> g m = Some v"
  shows "n = matching R f rows"
proof -
  have in_g: "(v, n) \<in> set (group_counts key (present (map g (filter (\<lambda>m. t \<le> rs_started_at m) rows))))"
    using assms(1) by (auto simp: sql_limit_def dest: in_set_takeD)
  then have "v \<noteq> []" using present_nonempty by (auto simp: group_counts_set)
  then show ?thesis using in_g matching_since [OF assms(2,3)] by (auto simp: group_counts_set count_present)
qed

lemma status_classes_all:
  assumes "7 \<le> k"
  shows "sql_limit k 0 (group_counts key (map (\<lambda>m. status_class (rs_status m)) rows)) = group_counts key (map (\<lambda>m. status_class (rs_status m)) rows)"
proof -
  have "card (set (map (\<lambda>m. status_class (rs_status m)) rows)) \<le> card {''no_status'', ''1xx'', ''2xx'', ''3xx'', ''4xx'', ''5xx'', ''other''}"
    by (rule card_mono) (use status_class_values in auto)
  then have "length (group_counts key (map (\<lambda>m. status_class (rs_status m)) rows)) \<le> 7"
    by (simp add: group_counts_def length_remdups_card_conv)
  then show ?thesis using assms by (simp add: sql_limit_def)
qed

text \<open>Facets and listing agree. The number beside a model, host, kind, status, status class or
  error state is the number of requests the listing shows when filtered by that value from the
  start of the window on; a model that the limit leaves out is not more frequent than one that is
  shown; and the error states, like the status classes when at least seven are asked for, add up
  to all requests of the window.
\<close>

theorem facets_count_listing:
  assumes "request_facets R hours limit now rows = ((w, cutoff), fa)"
  shows "((v, n) \<in> set (fa_models fa) \<longrightarrow> n = matching R (no_filters\<lparr>rf_since := Some cutoff, rf_model := Some v\<rparr>) rows) \<and>
    ((v, n) \<in> set (fa_upstream_hosts fa) \<longrightarrow> n = matching R (no_filters\<lparr>rf_since := Some cutoff, rf_upstream_host := Some v\<rparr>) rows) \<and>
    ((v, n) \<in> set (fa_request_kinds fa) \<longrightarrow> n = matching R (no_filters\<lparr>rf_since := Some cutoff, rf_request_kind := Some v\<rparr>) rows) \<and>
    ((s, n) \<in> set (fa_statuses fa) \<longrightarrow> n = matching R (no_filters\<lparr>rf_since := Some cutoff, rf_status := Some s\<rparr>) rows) \<and>
    ((v, n) \<in> set (fa_status_classes fa) \<longrightarrow> n = matching R (no_filters\<lparr>rf_since := Some cutoff, rf_status_class := Some v\<rparr>) rows) \<and>
    ((e, n) \<in> set (fa_error_states fa) \<longrightarrow> n = matching R (no_filters\<lparr>rf_since := Some cutoff, rf_has_error := Some e\<rparr>) rows) \<and>
    ((v, n) \<in> set (fa_models fa) \<longrightarrow> u \<noteq> [] \<longrightarrow> u \<notin> fst ` set (fa_models fa) \<longrightarrow>
      matching R (no_filters\<lparr>rf_since := Some cutoff, rf_model := Some u\<rparr>) rows \<le> n) \<and>
    sum_list (map snd (fa_error_states fa)) = matching R (no_filters\<lparr>rf_since := Some cutoff\<rparr>) rows \<and>
    (7 \<le> wi_limit w \<longrightarrow> sum_list (map snd (fa_status_classes fa)) = matching R (no_filters\<lparr>rf_since := Some cutoff\<rparr>) rows)"
proof -
  let ?rec = "filter (\<lambda>m. cutoff \<le> rs_started_at m) rows"
  have w: "w = resolve_window REQUEST_FACET_WINDOW hours limit" "cutoff = window_cutoff w now"
    using assms by (auto simp: request_facets_def Let_def)
  have fa: "fa_models fa = sql_limit (wi_limit w) 0 (group_counts (rl_collate R) (present (map rs_model ?rec)))"
    "fa_upstream_hosts fa = sql_limit (wi_limit w) 0 (group_counts (rl_collate R) (present (map rs_upstream_host ?rec)))"
    "fa_request_kinds fa = sql_limit (wi_limit w) 0 (group_counts (rl_collate R) (present (map (Some \<circ> rs_request_kind) ?rec)))"
    "fa_statuses fa = sql_limit (wi_limit w) 0 (group_counts (\<lambda>s. s) (List.map_filter rs_status ?rec))"
    "fa_status_classes fa = sql_limit (wi_limit w) 0 (group_counts (rl_collate R) (map (\<lambda>m. status_class (rs_status m)) ?rec))"
    "fa_error_states fa = sort_key (\<lambda>(v, n). \<not> v) (group_counts (\<lambda>v. v) (map request_error ?rec))"
    using assms by (auto simp: request_facets_def Let_def filter_present simp del: filter_map)
  have err: "matching R (no_filters\<lparr>rf_since := Some cutoff, rf_has_error := Some e\<rparr>) rows = int (length (filter (\<lambda>m. request_error m = e) ?rec))" for e
    by (rule matching_since, simp, rule since_error_filter)
  have mods: "matching R (no_filters\<lparr>rf_since := Some cutoff, rf_model := Some u\<rparr>) rows = int (length (filter (\<lambda>m. rs_model m = Some u) ?rec))" for u
    by (rule matching_since, simp, rule since_filter)
  have all: "matching R (no_filters\<lparr>rf_since := Some cutoff\<rparr>) rows = int (length ?rec)"
    by (subst matching_since [where t = cutoff and P = "\<lambda>_. True"]) (simp_all add: since_filter)
  have "(v, n) \<in> set (fa_models fa) \<longrightarrow> n = matching R (no_filters\<lparr>rf_since := Some cutoff, rf_model := Some v\<rparr>) rows"
    unfolding fa by (intro impI, erule facet_listed_present) (simp_all add: since_filter)
  moreover have "(v, n) \<in> set (fa_upstream_hosts fa) \<longrightarrow> n = matching R (no_filters\<lparr>rf_since := Some cutoff, rf_upstream_host := Some v\<rparr>) rows"
    unfolding fa by (intro impI, erule facet_listed_present) (simp_all add: since_filter)
  moreover have "(v, n) \<in> set (fa_request_kinds fa) \<longrightarrow> n = matching R (no_filters\<lparr>rf_since := Some cutoff, rf_request_kind := Some v\<rparr>) rows"
    unfolding fa by (intro impI, erule facet_listed_present) (simp_all add: since_filter)
  moreover have "(s, n) \<in> set (fa_statuses fa) \<longrightarrow> n = matching R (no_filters\<lparr>rf_since := Some cutoff, rf_status := Some s\<rparr>) rows"
    unfolding fa by (intro impI, erule facet_listed_some) (simp_all add: since_filter)
  moreover have "(v, n) \<in> set (fa_status_classes fa) \<longrightarrow> n = matching R (no_filters\<lparr>rf_since := Some cutoff, rf_status_class := Some v\<rparr>) rows"
    unfolding fa by (intro impI, erule facet_listed) (auto simp: since_filter status_class_filter)
  moreover have "(e, n) \<in> set (fa_error_states fa) \<longrightarrow> n = matching R (no_filters\<lparr>rf_since := Some cutoff, rf_has_error := Some e\<rparr>) rows"
    using err by (auto simp: fa group_counts_set count_list_map)
  moreover have "(v, n) \<in> set (fa_models fa) \<longrightarrow> u \<noteq> [] \<longrightarrow> u \<notin> fst ` set (fa_models fa) \<longrightarrow>
      matching R (no_filters\<lparr>rf_since := Some cutoff, rf_model := Some u\<rparr>) rows \<le> n"
  proof (intro impI)
    assume a: "(v, n) \<in> set (fa_models fa)" "u \<noteq> []" "u \<notin> fst ` set (fa_models fa)"
    have c: "matching R (no_filters\<lparr>rf_since := Some cutoff, rf_model := Some u\<rparr>) rows = int (count_list (present (map rs_model ?rec)) u)"
      using a(2) mods [of u] by (simp add: count_present)
    show "matching R (no_filters\<lparr>rf_since := Some cutoff, rf_model := Some u\<rparr>) rows \<le> n"
    proof (cases "u \<in> set (present (map rs_model ?rec))")
      case True
      then show ?thesis unfolding c using a(1,3) by (intro group_counts_top) (simp_all add: fa sql_limit_def)
    next
      case False
      have "0 \<le> n" using a(1) by (auto simp: fa sql_limit_def group_counts_set dest!: in_set_takeD)
      then show ?thesis using False unfolding c by (simp add: count_list_0_iff)
    qed
  qed
  moreover have "sum_list (map snd (fa_error_states fa)) = matching R (no_filters\<lparr>rf_since := Some cutoff\<rparr>) rows"
    by (simp add: fa all sum_list_sort_key group_counts_total)
  moreover have "7 \<le> wi_limit w \<longrightarrow> sum_list (map snd (fa_status_classes fa)) = matching R (no_filters\<lparr>rf_since := Some cutoff\<rparr>) rows"
    by (simp add: fa all status_classes_all group_counts_total)
  ultimately show ?thesis by blast
qed

section \<open>A session export is complete\<close>

text \<open>The reference: the session, its requests oldest first with their bodies and previews, and
  the totals.\<close>

abbreviation row_order :: "request_metadata \<Rightarrow> int \<times> uuid" where
  "row_order \<equiv> \<lambda>m. (rs_started_at m, rs_id m)"

definition bodies_of :: "export_env \<Rightarrow> request_metadata \<Rightarrow> captured_body \<times> captured_body" where
  "bodies_of E m = load_bodies (ee_lib E) (ee_store E) (ee_inline E) m"

definition previews_of :: "export_env \<Rightarrow> request_metadata \<Rightarrow> message_row list" where
  "previews_of E m = request_previews (rs_id m) (ee_session E) (ee_messages E)"

definition request_line :: "export_env \<Rightarrow> request_metadata \<Rightarrow> export_line" where
  "request_line E m = Request_line m (into_export (ee_lib E) (fst (bodies_of E m))) (into_export (ee_lib E) (snd (bodies_of E m))) (previews_of E m)"

definition oldest_first_rows :: "export_env \<Rightarrow> request_metadata list" where
  "oldest_first_rows E = sort_key row_order (of_session (ee_session E) (ee_rows E))"

definition all_bodies :: "export_env \<Rightarrow> captured_body list" where
  "all_bodies E = concat (map (\<lambda>m. [fst (bodies_of E m), snd (bodies_of E m)]) (oldest_first_rows E))"

definition full_export :: "export_env \<Rightarrow> trace_session \<Rightarrow> export_line list" where
  "full_export E session =
    (let ms = oldest_first_rows E in
     Session_line (ee_session E) session (int (length ms)) # map (request_line E) ms @
     [End_line (ee_session E) (int (length ms)) (int (length (concat (map (previews_of E) ms))))
       (sql_count cb_truncated (all_bodies E)) (sql_count (\<lambda>b. cb_status b \<noteq> Available) (all_bodies E))])"

lemma export_row_line:
  "export_row E n m c =
    (if ee_fault E (n + 1) \<or> ee_fault E (n + 2) \<or> ee_fault E (n + 3) \<or> ee_fault E (n + 4) then None
     else Some (request_line E m, count_row (bodies_of E m) (previews_of E m) c))"
  by (simp add: export_row_def request_line_def bodies_of_def previews_of_def Let_def)

text \<open>The cursor moves through the rows in their order.\<close>

lemma next_row_sorted:
  assumes "sort_key row_order (of_session i rows) = xs @ ys" "sorted_wrt (\<lambda>a b. row_order a < row_order b) (xs @ ys)"
    and "cursor = (if xs = [] then None else Some (row_order (last xs)))"
  shows "next_row i cursor rows = (case ys of [] \<Rightarrow> None | y # _ \<Rightarrow> Some y)"
proof -
  let ?P = "\<lambda>m. sql_given cursor (\<lambda>c. c < row_order m)"
  have "filter ?P (sort_key row_order (of_session i rows)) = sort_key row_order (filter ?P (of_session i rows))"
    by (rule filter_sort)
  moreover have "filter ?P (of_session i rows) = filter (\<lambda>m. rs_session_id m = Some i \<and> ?P m) rows"
    by (auto simp: of_session_def conj_commute intro: filter_cong)
  moreover have "filter ?P (xs @ ys) = ys"
  proof (cases "xs = []")
    case False
    have "\<not> row_order (last xs) < row_order x" if x: "x \<in> set xs" for x
    proof -
      obtain zs where zs: "xs = zs @ [last xs]" using False by (metis append_butlast_last_id)
      then have "sorted_wrt (\<lambda>a b. row_order a < row_order b) ((zs @ [last xs]) @ ys)" using assms(2) by simp
      then have "z \<in> set zs \<Longrightarrow> row_order z < row_order (last xs)" for z by (auto simp: sorted_wrt_append)
      then show ?thesis using x zs by (metis Un_iff less_asym less_irrefl list.set(1,2) set_append singletonD)
    qed
    moreover have "row_order (last xs) < row_order y" if "y \<in> set ys" for y
      using assms(2) False that by (auto simp: sorted_wrt_append)
    ultimately have "filter ?P xs = []" "filter ?P ys = ys"
      using assms(3) False by (simp_all add: filter_empty_conv filter_id_conv sql_given_def)
    then show ?thesis by simp
  qed (use assms(3) in \<open>simp add: sql_given_def\<close>)
  ultimately show ?thesis unfolding next_row_def using assms(1) by (cases ys) simp_all
qed

definition counts_of :: "export_env \<Rightarrow> request_metadata list \<Rightarrow> export_counts \<Rightarrow> export_counts" where
  "counts_of E ms c = fold (\<lambda>m. count_row (bodies_of E m) (previews_of E m)) ms c"

lemma export_loop_lines:
  assumes "oldest_first_rows E = xs @ ys" "sorted_wrt (\<lambda>a b. row_order a < row_order b) (xs @ ys)"
    and "cursor = (if xs = [] then None else Some (row_order (last xs)))"
  shows "\<exists>k\<le>length ys. fst (export_loop E n cursor c) = take k (map (request_line E) ys) \<and>
    (case snd (export_loop E n cursor c) of None \<Rightarrow> \<exists>j. ee_fault E j | Some c' \<Rightarrow> k = length ys \<and> c' = counts_of E ys c)"
  using assms
proof (induction ys arbitrary: xs n cursor c)
  case Nil
  have "next_row (ee_session E) cursor (ee_rows E) = None"
    using next_row_sorted [OF Nil(1) [unfolded oldest_first_rows_def] Nil(2,3)] by simp
  then show ?case by (subst (1 2) export_loop.simps) (auto simp: counts_of_def)
next
  case (Cons y ys)
  have nx: "next_row (ee_session E) cursor (ee_rows E) = Some y"
    using next_row_sorted [OF Cons.prems(1) [unfolded oldest_first_rows_def] Cons.prems(2,3)] by simp
  show ?case
  proof (cases "ee_fault E n \<or> ee_fault E (n + 1) \<or> ee_fault E (n + 2) \<or> ee_fault E (n + 3) \<or> ee_fault E (n + 4)")
    case True
    then have "export_loop E n cursor c = ([], None)"
      by (subst export_loop.simps) (auto simp: nx export_row_line)
    then show ?thesis using True by (intro exI [of _ 0]) auto
  next
    case False
    let ?c = "count_row (bodies_of E y) (previews_of E y) c"
    let ?r = "export_loop E (n + 5) (Some (row_order y)) ?c"
    have eq: "export_loop E n cursor c = (request_line E y # fst ?r, snd ?r)"
      using False by (subst export_loop.simps) (simp add: nx export_row_line case_prod_beta)
    obtain k where k: "k \<le> length ys" "fst ?r = take k (map (request_line E) ys)"
      "case snd ?r of None \<Rightarrow> \<exists>j. ee_fault E j | Some c' \<Rightarrow> k = length ys \<and> c' = counts_of E ys ?c"
      using Cons.IH [of "xs @ [y]" "Some (row_order y)" "n + 5" ?c] Cons.prems by auto
    then show ?thesis unfolding eq
      by (intro exI [of _ "Suc k"]) (auto simp: counts_of_def split: option.splits)
  qed
qed

lemma counts_of_totals:
  "counts_of E ms c =
    \<lparr>ex_requests = ex_requests c + int (length ms),
     ex_message_previews = ex_message_previews c + int (length (concat (map (previews_of E) ms))),
     ex_truncated_bodies = ex_truncated_bodies c + sql_count cb_truncated (concat (map (\<lambda>m. [fst (bodies_of E m), snd (bodies_of E m)]) ms)),
     ex_unavailable_bodies = ex_unavailable_bodies c +
       sql_count (\<lambda>b. cb_status b \<noteq> Available) (concat (map (\<lambda>m. [fst (bodies_of E m), snd (bodies_of E m)]) ms))\<rparr>"
proof (induction ms arbitrary: c)
  case (Cons m ms)
  have "counts_of E (m # ms) c = counts_of E ms (count_row (bodies_of E m) (previews_of E m) c)"
    by (simp add: counts_of_def)
  then show ?case unfolding Cons by (simp add: count_row_def sql_count_def bool_count_def)
qed (simp add: counts_of_def sql_count_def)

lemma oldest_first_sorted:
  assumes "distinct (map rs_id (ee_rows E))"
  shows "sorted_wrt (\<lambda>a b. row_order a < row_order b) (oldest_first_rows E)"
proof -
  have "distinct (map rs_id (of_session (ee_session E) (ee_rows E)))" unfolding of_session_def by (rule distinct_map_filter [OF assms])
  then have "distinct (map row_order (oldest_first_rows E))" by (auto simp: oldest_first_rows_def distinct_map inj_on_def)
  then have "sorted_wrt (<) (map row_order (oldest_first_rows E))" by (simp add: strict_sorted_iff oldest_first_rows_def)
  then show ?thesis by (simp add: sorted_wrt_map)
qed

text \<open>C35: a session export is complete or visibly cut off. Whatever fails, a statement, a rendering
  task or the reader, the lines that reach the reader are the beginning of the reference export:
  the session, each of its requests exactly once, oldest first, with both bodies as loaded from
  the archive and its message previews, and the totals; the final line is sent exactly when all
  of it was, and without a failure it is sent.
\<close>

theorem session_export_exact:
  assumes "distinct (map rs_id (ee_rows E))" "session_export_prepare (ee_session E) sessions (ee_rows E) = Some (session, expected)"
  shows "(\<exists>k. fst (session_export_write E session expected) = take k (full_export E session)) \<and>
    (snd (session_export_write E session expected) \<longleftrightarrow> fst (session_export_write E session expected) = full_export E session) \<and>
    (snd (session_export_write E session expected) \<longleftrightarrow>
      (\<exists>i a b c d. End_line i a b c d \<in> set (fst (session_export_write E session expected)))) \<and>
    ((\<forall>n. \<not> ee_fault E n) \<longrightarrow> snd (session_export_write E session expected)) \<and>
    mset (oldest_first_rows E) = mset (filter (\<lambda>m. rs_session_id m = Some (ee_session E)) (ee_rows E)) \<and>
    sorted_wrt (\<lambda>a b. (rs_started_at a, rs_id a) < (rs_started_at b, rs_id b)) (oldest_first_rows E)"
proof -
  let ?ms = "oldest_first_rows E" and ?w = "session_export_write E session expected"
  let ?hd = "Session_line (ee_session E) session expected" and ?r = "export_loop E 3 None no_exports"
  have exp: "expected = int (length ?ms)" using assms(2) by (auto simp: session_export_prepare_def oldest_first_rows_def)
  obtain k where k: "k \<le> length ?ms" "fst ?r = take k (map (request_line E) ?ms)"
    "case snd ?r of None \<Rightarrow> \<exists>j. ee_fault E j | Some c' \<Rightarrow> k = length ?ms \<and> c' = counts_of E ?ms no_exports"
    using export_loop_lines [of E "[]" ?ms None 3 no_exports] oldest_first_sorted [OF assms(1)] by auto
  define ed where "ed = End_line (ee_session E) (int (length ?ms)) (int (length (concat (map (previews_of E) ?ms))))
       (sql_count cb_truncated (all_bodies E)) (sql_count (\<lambda>b. cb_status b \<noteq> Available) (all_bodies E))"
  have full: "full_export E session = ?hd # map (request_line E) ?ms @ [ed]"
    by (simp add: full_export_def Let_def exp ed_def)
  have no_end: "End_line i a b c d \<notin> set (?hd # take k' (map (request_line E) ?ms))" for i a b c d k'
    by (auto simp: request_line_def dest: in_set_takeD)
  consider (none) "?w = ([], False)" "\<exists>n. ee_fault E n"
    | (cut) "?w = (?hd # take k (map (request_line E) ?ms), False)" "\<exists>n. ee_fault E n"
    | (all) "?w = (?hd # map (request_line E) ?ms @ [ed], True)"
  proof (cases "ee_fault E 0")
    case False
    show thesis
    proof (cases "snd ?r")
      case None
      then have "?w = (?hd # take k (map (request_line E) ?ms), False)"
        using False k(2) by (simp add: session_export_write_def Let_def case_prod_beta split: prod.split)
      then show thesis using k(3) None cut by simp
    next
      case (Some c)
      then have r: "?r = (map (request_line E) ?ms, Some c)" "k = length ?ms" "c = counts_of E ?ms no_exports"
        using k by (cases ?r; simp)+
      have "ex_requests c = expected"
        "End_line (ee_session E) (ex_requests c) (ex_message_previews c) (ex_truncated_bodies c) (ex_unavailable_bodies c) = ed"
        by (simp_all add: r(3) exp counts_of_totals no_exports_def ed_def all_bodies_def)
      then have "?w = (if ee_fault E 1 \<or> ee_fault E 2 then (?hd # map (request_line E) ?ms, False) else (?hd # map (request_line E) ?ms @ [ed], True))"
        using False by (simp add: session_export_write_def Let_def r(1))
      then show thesis using cut all r(2) by (auto split: if_splits)
    qed
  next
    case True
    then show thesis by (intro none) (auto simp: session_export_write_def Let_def)
  qed
  then have main: "(\<exists>k. fst ?w = take k (full_export E session)) \<and> (snd ?w \<longleftrightarrow> fst ?w = full_export E session) \<and>
      (snd ?w \<longleftrightarrow> (\<exists>i a b c d. End_line i a b c d \<in> set (fst ?w))) \<and> ((\<forall>n. \<not> ee_fault E n) \<longrightarrow> snd ?w)"
  proof cases
    case none
    then show ?thesis by (auto simp: full intro: exI [of _ 0])
  next
    case cut
    have "length (?hd # take k (map (request_line E) ?ms)) \<noteq> length (full_export E session)" using k(1) by (simp add: full)
    then have "?hd # take k (map (request_line E) ?ms) \<noteq> full_export E session" by metis
    moreover have "?hd # take k (map (request_line E) ?ms) = take (Suc k) (full_export E session)" using k(1) by (simp add: full)
    ultimately show ?thesis using cut no_end by (metis fst_conv snd_conv)
  next
    case all
    moreover have "full_export E session = take (length (full_export E session)) (full_export E session)" by simp
    moreover have "ed \<in> set (full_export E session)" by (simp add: full)
    ultimately show ?thesis unfolding full ed_def by (metis fst_conv snd_conv)
  qed
  have "mset ?ms = mset (filter (\<lambda>m. rs_session_id m = Some (ee_session E)) (ee_rows E))"
    by (simp add: oldest_first_rows_def of_session_def)
  with main oldest_first_sorted [OF assms(1)] show ?thesis by blast
qed

section \<open>Witnesses\<close>

definition demo_request :: "uuid \<Rightarrow> int \<Rightarrow> string \<Rightarrow> request_metadata" where
  "demo_request i t model =
    \<lparr>rs_id = i, rs_started_at = t, rs_completed_at = None, rs_method = ''POST'', rs_original_uri = ''/v1'',
     rs_upstream_url = ''http://up/100%'', rs_upstream_host = Some ''up'', rs_status = Some 200, rs_error = None,
     rs_request_kind = ''chat'', rs_model = Some model, rs_api_key_hash = None, rs_session_id = Some 7, rs_ttft_ms = None,
     rs_duration_ms = Some 5, rs_bytes_in = 0, rs_bytes_out = 0, rs_request_body_truncated = False,
     rs_response_body_truncated = False, rs_plugin_metadata = JObject [], rs_tags = [], rs_ttfb_ms = None,
     rs_input_tokens = None, rs_output_tokens = None, rs_cached_input_tokens = None, rs_cache_creation_input_tokens = None,
     rs_estimated_cost_microusd = None, rs_usage_complete = False, rs_tool_call_count = 0, rm_session_key = Some ''k'',
     rm_request_headers = JObject [], rm_response_headers = JObject [], rm_tool_calls = [], rm_request_body_bytes = 0,
     rm_response_body_bytes = 0, rm_content_type = None\<rparr>"

definition demo_requests :: "request_metadata list" where
  "demo_requests = [demo_request 1 10 ''a'', demo_request 2 30 ''b'', demo_request 3 20 ''a'']"

definition demo_read_lib :: read_lib where
  "demo_read_lib = \<lparr>rl_lower = map ascii_lower, rl_collate = id, rl_show_time = show_int, rl_show_uuid = show_nat\<rparr>"

lemma demo_distinct: "distinct (map rs_id demo_requests)"
  by (simp add: demo_requests_def demo_request_def)

lemma demo_lower_plain: "lower_plain demo_read_lib"
proof -
  have pair: "map ascii_lower (if c \<in> {CHR 0x5C, CHR ''%'', CHR ''_''} then [CHR 0x5C, c] else [c]) =
      (if ascii_lower c \<in> {CHR 0x5C, CHR ''%'', CHR ''_''} then [CHR 0x5C, ascii_lower c] else [ascii_lower c])" for c
  proof (cases "65 \<le> byte c \<and> byte c \<le> 90")
    case True
    then have "byte c + 32 < 256" "byte c + 32 \<noteq> 92" "byte c + 32 \<noteq> 37" "byte c + 32 \<noteq> 95" by auto
    then have "char_of (byte c + 32) \<notin> {CHR 0x5C, CHR ''%'', CHR ''_''}"
      by (auto simp: char_of_eq_iff take_bit_nat_eq_self)
    moreover have "c \<notin> {CHR 0x5C, CHR ''%'', CHR ''_''}" using True by (auto simp: byte_def)
    ultimately show ?thesis using True by (simp add: ascii_lower_def)
  next
    case False
    then have "ascii_lower c = c" unfolding ascii_lower_def by (rule if_not_P)
    moreover have "ascii_lower CHR 0x5C = CHR 0x5C" by (simp add: ascii_lower_def byte_def)
    ultimately show ?thesis by simp
  qed
  have "map ascii_lower (escape_like q) = escape_like (map ascii_lower q)" for q
    unfolding escape_like_alt map_concat map_map comp_def pair ..
  moreover have "ascii_lower CHR ''%'' = CHR ''%''" by (simp add: ascii_lower_def byte_def)
  ultimately show ?thesis by (simp add: lower_plain_def demo_read_lib_def)
qed


theorem search_is_literal_witness:
  "demo_request 1 10 ''a'' \<in> set (filter (LIST_REQUESTS_SQL demo_read_lib (map_option escape_like (Some ''0%'')) no_filters) demo_requests) \<and>
    demo_request 1 10 ''a'' \<notin> set (filter (LIST_REQUESTS_SQL demo_read_lib (map_option escape_like (Some ''%1'')) no_filters) demo_requests)"
proof -
  note lit = search_is_literal [OF demo_lower_plain, THEN conjunct1, of "demo_request 1 10 ''a''" _ no_filters demo_requests]
  have m: "demo_request 1 10 ''a'' \<in> set demo_requests" "LIST_REQUESTS_SQL demo_read_lib None no_filters (demo_request 1 10 ''a'')"
    by (simp_all add: demo_requests_def LIST_REQUESTS_SQL_def no_filters_def sql_given_def)
  have cols: "set (rs_upstream_url (demo_request 1 10 ''a'') # rs_request_kind (demo_request 1 10 ''a'') #
      List.map_filter id [rs_model (demo_request 1 10 ''a'')]) = {''http://up/100%'', ''chat'', ''a''}"
    by (simp add: demo_request_def List.map_filter_def)
  have "sublist (rl_lower demo_read_lib ''0%'') (rl_lower demo_read_lib ''http://up/100%'')"
    by (simp add: demo_read_lib_def ascii_lower_def byte_def sublist_Cons_right)
  moreover have "\<not> sublist (rl_lower demo_read_lib ''%1'') (rl_lower demo_read_lib s)" if "s \<in> {''http://up/100%'', ''chat'', ''a''}" for s
    using that by (auto simp: demo_read_lib_def ascii_lower_def byte_def sublist_Cons_right)
  ultimately show ?thesis using lit [of "''0%''"] lit [of "''%1''"] m unfolding cols by blast
qed

theorem facets_count_listing_witness:
  "(''a'', 2) \<in> set (fa_models (snd (request_facets demo_read_lib None None 40 demo_requests))) \<and>
    matching demo_read_lib (no_filters\<lparr>rf_since := Some (hours_before 40 24), rf_model := Some ''a''\<rparr>) demo_requests = 2"
proof -
  let ?f = "request_facets demo_read_lib None None 40 demo_requests"
  have f: "?f = ((fst (fst ?f), hours_before 40 24), snd ?f)"
    by (simp add: request_facets_def Let_def window_cutoff_def resolve_window_def bounded_hours_def clamp_def MAX_HOURS_def
        DEFAULT_HOURS_def unwrap_or_def)
  have "(''a'', 2) \<in> set (fa_models (snd ?f))"
    by (simp add: request_facets_def Let_def window_cutoff_def resolve_window_def bounded_hours_def clamp_def MAX_HOURS_def
        DEFAULT_HOURS_def unwrap_or_def REQUEST_FACET_WINDOW_def hours_before_def demo_requests_def demo_request_def present_def
        List.map_filter_def group_counts_def sql_limit_def)
  with facets_count_listing [OF f, of "''a''" 2] show ?thesis by simp
qed

definition demo_export :: export_env where
  "demo_export = \<lparr>ee_lib = demo_archive_lib, ee_store = demo_archive_empty, ee_inline = (\<lambda>_. None), ee_session = 7,
    ee_messages = [], ee_rows = demo_requests, ee_fault = (\<lambda>_. False)\<rparr>"

definition demo_session :: trace_session where
  "demo_session = \<lparr>se_key = ''k'', se_first_seen = 10, se_last_seen = 30, se_user_id = None, se_user_name = None\<rparr>"

theorem session_export_exact_witness:
  "snd (session_export_write demo_export demo_session 3) \<and>
    length (fst (session_export_write demo_export demo_session 3)) = 5"
proof -
  have p: "session_export_prepare (ee_session demo_export) [(7, demo_session)] (ee_rows demo_export) = Some (demo_session, 3)"
    by (simp add: session_export_prepare_def demo_export_def of_session_def demo_requests_def demo_request_def)
  have d: "distinct (map rs_id (ee_rows demo_export))" using demo_distinct by (simp add: demo_export_def)
  have "length (oldest_first_rows demo_export) = 3"
    by (simp add: oldest_first_rows_def demo_export_def of_session_def demo_requests_def demo_request_def)
  then have "length (full_export demo_export demo_session) = 5" by (simp add: full_export_def Let_def)
  moreover have "\<forall>n. \<not> ee_fault demo_export n" by (simp add: demo_export_def)
  ultimately show ?thesis using session_export_exact [OF d p] by metis
qed

end
