(* ===== verification/LT_Analytics.thy ===== *)
theory LT_Analytics
  imports LT_Reads
begin

text \<open>
  The aggregations of \<open>storage/analytics.rs\<close>: totals and breakdowns over the request rows, the
  dashboard figures and the time series that are read from the minute rollups, and the
  integrity report that compares both. What the rollups show is what the traces add up to, the
  report finds every difference, and for the tables the program itself writes it finds none.
  Sessions of the database run in UTC.
\<close>

section \<open>Grouping\<close>

text \<open>The database function for percentiles of a sorted list, by the percentage.\<close>

record analytics_lib = read_lib +
  al_percentile :: "nat \<Rightarrow> int list \<Rightarrow> int"

fun map_res :: "('a \<Rightarrow> 'e + 'b) \<Rightarrow> 'a list \<Rightarrow> 'e + 'b list" where
  "map_res f [] = Inr []"
| "map_res f (x # xs) = bind_res (f x) (\<lambda>y. bind_res (map_res f xs) (\<lambda>ys. Inr (y # ys)))"

datatype group_by = By_model | By_upstream | By_request_kind | Raw_request_kind | By_status_class | By_error_source

definition or_unknown :: "string option \<Rightarrow> string" where
  "or_unknown x = (case x of Some s \<Rightarrow> if s = [] then ''unknown'' else s | None \<Rightarrow> ''unknown'')"

definition error_source :: "request_metadata \<Rightarrow> string" where
  "error_source m =
    (if rs_error m \<noteq> None \<and> sql_some (rs_status m) (\<lambda>s. s \<ge> 500) then ''proxy_error_and_http_5xx''
     else if rs_error m \<noteq> None then ''proxy_error''
     else if sql_some (rs_status m) (\<lambda>s. s \<ge> 500) then ''http_5xx''
     else if sql_some (rs_status m) (\<lambda>s. s \<ge> 400) then ''http_4xx''
     else ''other'')"

fun group_key :: "group_by \<Rightarrow> request_metadata \<Rightarrow> string" where
  "group_key By_model m = or_unknown (rs_model m)"
| "group_key By_upstream m = or_unknown (rs_upstream_host m)"
| "group_key By_request_kind m = or_unknown (Some (rs_request_kind m))"
| "group_key Raw_request_kind m = rs_request_kind m"
| "group_key By_status_class m = status_class (rs_status m)"
| "group_key By_error_source m = error_source m"

definition group_rows :: "('a \<Rightarrow> 'k) \<Rightarrow> 'a list \<Rightarrow> ('k \<times> 'a list) list" where
  "group_rows key rows = map (\<lambda>k. (k, filter (\<lambda>m. key m = k) rows)) (remdups (map key rows))"

record named_metric =
  nm_name :: string
  nm_request_count :: int
  nm_error_count :: int
  nm_avg_duration_ms :: "int option"
  nm_avg_ttft_ms :: "int option"

definition USAGE_COLUMNS :: "string \<times> request_metadata list \<Rightarrow> named_metric" where
  "USAGE_COLUMNS g =
    \<lparr>nm_name = fst g, nm_request_count = int (length (snd g)), nm_error_count = sql_count request_error (snd g),
     nm_avg_duration_ms = sql_avg (map rs_duration_ms (snd g)), nm_avg_ttft_ms = sql_avg (map rs_ttft_ms (snd g))\<rparr>"

record error_metric =
  em_name :: string
  em_error_count :: int
  em_proxy_error_count :: int
  em_http_5xx_count :: int
  em_avg_duration_ms :: "int option"
  em_max_duration_ms :: "int option"

definition proxy_error :: "request_metadata \<Rightarrow> bool" where
  "proxy_error m \<longleftrightarrow> rs_error m \<noteq> None"

definition status_from :: "int \<Rightarrow> request_metadata \<Rightarrow> bool" where
  "status_from lo m \<longleftrightarrow> sql_some (rs_status m) (\<lambda>s. s \<ge> lo)"

definition status_between :: "int \<Rightarrow> int \<Rightarrow> request_metadata \<Rightarrow> bool" where
  "status_between lo hi m \<longleftrightarrow> sql_some (rs_status m) (\<lambda>s. lo \<le> s \<and> s \<le> hi)"

definition ERROR_COLUMNS :: "string \<times> request_metadata list \<Rightarrow> error_metric" where
  "ERROR_COLUMNS g =
    \<lparr>em_name = fst g, em_error_count = int (length (snd g)), em_proxy_error_count = sql_count proxy_error (snd g),
     em_http_5xx_count = sql_count (status_from 500) (snd g), em_avg_duration_ms = sql_avg (map rs_duration_ms (snd g)),
     em_max_duration_ms = sql_max (map rs_duration_ms (snd g))\<rparr>"

record series_metrics =
  sm_count :: int
  sm_avg :: "int option"
  sm_max :: "int option"
  sm_percentiles :: "(nat \<times> int option) list"

definition percentile :: "analytics_lib \<Rightarrow> nat \<Rightarrow> int option list \<Rightarrow> int option" where
  "percentile A p xs = (let ys = sort (List.map_filter id xs) in if ys = [] then None else Some (al_percentile A p ys))"

definition series_of :: "analytics_lib \<Rightarrow> int option list \<Rightarrow> series_metrics" where
  "series_of A xs =
    \<lparr>sm_count = sql_count (\<lambda>x. x \<noteq> None) xs, sm_avg = sql_avg xs, sm_max = sql_max xs,
     sm_percentiles = map (\<lambda>p. (p, percentile A p xs)) [50, 90, 95, 99]\<rparr>"

record latency_metrics =
  lm_request_count :: int
  lm_duration :: series_metrics
  lm_ttft :: series_metrics

definition LATENCY_COLUMNS :: "analytics_lib \<Rightarrow> request_metadata list \<Rightarrow> latency_metrics" where
  "LATENCY_COLUMNS A ms =
    \<lparr>lm_request_count = int (length ms), lm_duration = series_of A (map rs_duration_ms ms), lm_ttft = series_of A (map rs_ttft_ms ms)\<rparr>"

definition p95 :: "series_metrics \<Rightarrow> int option" where
  "p95 s = (case map_of (sm_percentiles s) 95 of Some x \<Rightarrow> x | None \<Rightarrow> None)"

text \<open>\<open>DESC NULLS LAST\<close> as a sort key.\<close>

definition desc_nulls_last :: "int option \<Rightarrow> bool \<times> int" where
  "desc_nulls_last x = (case x of Some v \<Rightarrow> (False, - v) | None \<Rightarrow> (True, 0))"

definition recent_rows :: "int \<Rightarrow> request_metadata list \<Rightarrow> request_metadata list" where
  "recent_rows cutoff rows = filter (\<lambda>m. rs_started_at m \<ge> cutoff) rows"

definition usage_breakdown :: "analytics_lib \<Rightarrow> group_by \<Rightarrow> int \<Rightarrow> int \<Rightarrow> request_metadata list \<Rightarrow> named_metric list" where
  "usage_breakdown A g cutoff limit rows =
    sql_limit limit 0 (sort_key (\<lambda>r. (- nm_request_count r, rl_collate A (nm_name r)))
      (map USAGE_COLUMNS (group_rows (group_key g) (recent_rows cutoff rows))))"

definition error_breakdown :: "analytics_lib \<Rightarrow> group_by \<Rightarrow> int \<Rightarrow> int \<Rightarrow> request_metadata list \<Rightarrow> error_metric list" where
  "error_breakdown A g cutoff limit rows =
    sql_limit limit 0 (sort_key (\<lambda>r. (- em_error_count r, rl_collate A (em_name r)))
      (map ERROR_COLUMNS (group_rows (group_key g) (filter request_error (recent_rows cutoff rows)))))"

definition latency_breakdown :: "analytics_lib \<Rightarrow> group_by \<Rightarrow> int \<Rightarrow> int \<Rightarrow> request_metadata list \<Rightarrow> (string \<times> latency_metrics) list" where
  "latency_breakdown A g cutoff limit rows =
    sql_limit limit 0 (sort_key (\<lambda>r. (desc_nulls_last (p95 (lm_duration (snd r))), - lm_request_count (snd r), rl_collate A (fst r)))
      (filter (\<lambda>r. sm_count (lm_duration (snd r)) > 0 \<or> sm_count (lm_ttft (snd r)) > 0)
        (map (\<lambda>(k, ms). (k, LATENCY_COLUMNS A ms)) (group_rows (group_key g) (recent_rows cutoff rows)))))"

section \<open>Summaries\<close>

record usage_totals =
  ut_request_count :: int
  ut_error_count :: int
  ut_bytes_in :: int
  ut_bytes_out :: int
  ut_captured_bytes :: int
  ut_avg_duration_ms :: "int option"
  ut_avg_ttft_ms :: "int option"

definition usage_totals_of :: "request_metadata list \<Rightarrow> ingest_error + usage_totals" where
  "usage_totals_of ms =
    bind_res (sql_sum0 (map rs_bytes_in ms)) (\<lambda>bytes_in.
    bind_res (sql_sum0 (map rs_bytes_out ms)) (\<lambda>bytes_out.
    bind_res (sql_sum0 (map captured_bytes_of ms)) (\<lambda>captured.
    Inr \<lparr>ut_request_count = int (length ms), ut_error_count = sql_count request_error ms, ut_bytes_in = bytes_in,
      ut_bytes_out = bytes_out, ut_captured_bytes = captured, ut_avg_duration_ms = sql_avg (map rs_duration_ms ms),
      ut_avg_ttft_ms = sql_avg (map rs_ttft_ms ms)\<rparr>)))"

record usage_summary_view =
  us_totals :: usage_totals
  us_status_classes :: "(string \<times> int) list"
  us_top_models :: "named_metric list"
  us_top_upstreams :: "named_metric list"
  us_request_kinds :: "named_metric list"

definition usage_summary ::
  "analytics_lib \<Rightarrow> int option \<Rightarrow> int option \<Rightarrow> int \<Rightarrow> request_metadata list \<Rightarrow> ingest_error + usage_summary_view" where
  "usage_summary A since_hours limit now rows =
    (let w = resolve_window TOP_N_WINDOW since_hours limit; cutoff = window_cutoff w now; n = wi_limit w in
     bind_res (usage_totals_of (recent_rows cutoff rows)) (\<lambda>totals.
     Inr \<lparr>us_totals = totals,
       us_status_classes = group_counts (rl_collate A) (map (\<lambda>m. status_class (rs_status m)) (recent_rows cutoff rows)),
       us_top_models = usage_breakdown A By_model cutoff n rows,
       us_top_upstreams = usage_breakdown A By_upstream cutoff n rows,
       us_request_kinds = usage_breakdown A Raw_request_kind cutoff n rows\<rparr>))"

record error_totals =
  et_error_count :: int
  et_proxy_error_count :: int
  et_http_5xx_count :: int
  et_affected_sessions :: int
  et_avg_duration_ms :: "int option"
  et_max_duration_ms :: "int option"
  et_first_seen_at :: "int option"
  et_last_seen_at :: "int option"

definition count_distinct :: "'a option list \<Rightarrow> int" where
  "count_distinct xs = int (card (set (List.map_filter id xs)))"

definition ERROR_SUMMARY_TOTALS_SQL :: "request_metadata list \<Rightarrow> error_totals" where
  "ERROR_SUMMARY_TOTALS_SQL ms =
    \<lparr>et_error_count = int (length ms), et_proxy_error_count = sql_count proxy_error ms,
     et_http_5xx_count = sql_count (status_from 500) ms, et_affected_sessions = count_distinct (map rs_session_id ms),
     et_avg_duration_ms = sql_avg (map rs_duration_ms ms), et_max_duration_ms = sql_max (map rs_duration_ms ms),
     et_first_seen_at = sql_min (map (Some \<circ> rs_started_at) ms), et_last_seen_at = sql_max (map (Some \<circ> rs_started_at) ms)\<rparr>"

record error_summary_view =
  ev_totals :: error_totals
  ev_sources :: "error_metric list"
  ev_top_upstreams :: "error_metric list"
  ev_top_models :: "error_metric list"
  ev_status_classes :: "error_metric list"
  ev_request_kinds :: "error_metric list"

definition error_summary :: "analytics_lib \<Rightarrow> int option \<Rightarrow> int option \<Rightarrow> int \<Rightarrow> request_metadata list \<Rightarrow> error_summary_view" where
  "error_summary A since_hours limit now rows =
    (let w = resolve_window TOP_N_WINDOW since_hours limit; cutoff = window_cutoff w now; n = wi_limit w in
     \<lparr>ev_totals = ERROR_SUMMARY_TOTALS_SQL (filter request_error (recent_rows cutoff rows)),
      ev_sources = error_breakdown A By_error_source cutoff n rows,
      ev_top_upstreams = error_breakdown A By_upstream cutoff n rows,
      ev_top_models = error_breakdown A By_model cutoff n rows,
      ev_status_classes = error_breakdown A By_status_class cutoff n rows,
      ev_request_kinds = error_breakdown A By_request_kind cutoff n rows\<rparr>)"

record latency_summary_view =
  lv_totals :: latency_metrics
  lv_top_upstreams :: "(string \<times> latency_metrics) list"
  lv_top_models :: "(string \<times> latency_metrics) list"
  lv_request_kinds :: "(string \<times> latency_metrics) list"

definition latency_summary :: "analytics_lib \<Rightarrow> int option \<Rightarrow> int option \<Rightarrow> int \<Rightarrow> request_metadata list \<Rightarrow> latency_summary_view" where
  "latency_summary A since_hours limit now rows =
    (let w = resolve_window TOP_N_WINDOW since_hours limit; cutoff = window_cutoff w now; n = wi_limit w in
     \<lparr>lv_totals = LATENCY_COLUMNS A (recent_rows cutoff rows),
      lv_top_upstreams = latency_breakdown A By_upstream cutoff n rows,
      lv_top_models = latency_breakdown A By_model cutoff n rows,
      lv_request_kinds = latency_breakdown A By_request_kind cutoff n rows\<rparr>)"

section \<open>Usage by key, upstream, model and user\<close>

text \<open>The columns the four statements share, and those only some of them select.\<close>

record usage_row =
  uw_request_count :: int
  uw_error_count :: int
  uw_session_count :: int
  uw_bytes_in :: int
  uw_bytes_out :: int
  uw_captured_bytes :: int
  uw_avg_duration_ms :: "int option"
  uw_max_duration_ms :: "int option"
  uw_avg_ttft_ms :: "int option"
  uw_max_ttft_ms :: "int option"
  uw_first_seen_at :: "int option"
  uw_last_seen_at :: "int option"

record token_row =
  tk_input_tokens :: "int option"
  tk_output_tokens :: "int option"
  tk_estimated_cost_microusd :: "int option"
  tk_tool_call_count :: "int option"
  tk_usage_known_count :: int
  tk_priced_request_count :: int

record latency_row =
  lt_duration_count :: int
  lt_p95_duration_ms :: "int option"
  lt_ttft_count :: int
  lt_p95_ttft_ms :: "int option"

definition usage_row_of :: "request_metadata list \<Rightarrow> ingest_error + usage_row" where
  "usage_row_of ms =
    bind_res (sql_sum0 (map rs_bytes_in ms)) (\<lambda>bytes_in.
    bind_res (sql_sum0 (map rs_bytes_out ms)) (\<lambda>bytes_out.
    bind_res (sql_sum0 (map captured_bytes_of ms)) (\<lambda>captured.
    Inr \<lparr>uw_request_count = int (length ms), uw_error_count = sql_count request_error ms,
      uw_session_count = count_distinct (map rs_session_id ms), uw_bytes_in = bytes_in, uw_bytes_out = bytes_out,
      uw_captured_bytes = captured, uw_avg_duration_ms = sql_avg (map rs_duration_ms ms),
      uw_max_duration_ms = sql_max (map rs_duration_ms ms), uw_avg_ttft_ms = sql_avg (map rs_ttft_ms ms),
      uw_max_ttft_ms = sql_max (map rs_ttft_ms ms), uw_first_seen_at = sql_min (map (Some \<circ> rs_started_at) ms),
      uw_last_seen_at = sql_max (map (Some \<circ> rs_started_at) ms)\<rparr>)))"

definition token_row_of :: "request_metadata list \<Rightarrow> ingest_error + token_row" where
  "token_row_of ms =
    bind_res (sql_sum (map rs_input_tokens ms)) (\<lambda>tokens_in.
    bind_res (sql_sum (map rs_output_tokens ms)) (\<lambda>tokens_out.
    bind_res (sql_sum (map rs_estimated_cost_microusd ms)) (\<lambda>cost.
    bind_res (sql_sum (map (Some \<circ> rs_tool_call_count) ms)) (\<lambda>calls.
    Inr \<lparr>tk_input_tokens = tokens_in, tk_output_tokens = tokens_out, tk_estimated_cost_microusd = cost,
      tk_tool_call_count = calls, tk_usage_known_count = sql_count rs_usage_complete ms,
      tk_priced_request_count = sql_count (\<lambda>m. rs_estimated_cost_microusd m \<noteq> None) ms\<rparr>))))"

definition latency_row_of :: "analytics_lib \<Rightarrow> request_metadata list \<Rightarrow> latency_row" where
  "latency_row_of A ms =
    \<lparr>lt_duration_count = sql_count (\<lambda>m. rs_duration_ms m \<noteq> None) ms, lt_p95_duration_ms = percentile A 95 (map rs_duration_ms ms),
     lt_ttft_count = sql_count (\<lambda>m. rs_ttft_ms m \<noteq> None) ms, lt_p95_ttft_ms = percentile A 95 (map rs_ttft_ms ms)\<rparr>"

definition API_KEY_USAGE_SQL :: "analytics_lib \<Rightarrow> int \<Rightarrow> int \<Rightarrow> request_metadata list \<Rightarrow> ingest_error + (string \<times> usage_row \<times> token_row) list" where
  "API_KEY_USAGE_SQL A cutoff limit rows =
    bind_res (map_res (\<lambda>(k, ms). bind_res (usage_row_of ms) (\<lambda>u. bind_res (token_row_of ms) (\<lambda>t. Inr (the k, u, t))))
        (group_rows rs_api_key_hash (filter (\<lambda>m. sql_some (rs_api_key_hash m) (\<lambda>h. h \<noteq> [])) (recent_rows cutoff rows)))) (\<lambda>items.
    Inr (sql_limit limit 0 (sort_key (\<lambda>(k, u, t). (- uw_request_count u, rl_collate A k)) items)))"

record health_row =
  hr_proxy_error_count :: int
  hr_http_2xx_count :: int
  hr_http_3xx_count :: int
  hr_http_4xx_count :: int
  hr_http_5xx_count :: int
  hr_no_status_count :: int

definition health_row_of :: "request_metadata list \<Rightarrow> health_row" where
  "health_row_of ms =
    \<lparr>hr_proxy_error_count = sql_count proxy_error ms, hr_http_2xx_count = sql_count (status_between 200 299) ms,
     hr_http_3xx_count = sql_count (status_between 300 399) ms, hr_http_4xx_count = sql_count (status_between 400 499) ms,
     hr_http_5xx_count = sql_count (status_from 500) ms, hr_no_status_count = sql_count (\<lambda>m. rs_status m = None) ms\<rparr>"

definition UPSTREAM_HEALTH_SQL ::
  "analytics_lib \<Rightarrow> int \<Rightarrow> int \<Rightarrow> request_metadata list \<Rightarrow> ingest_error + (string \<times> usage_row \<times> health_row \<times> latency_row) list" where
  "UPSTREAM_HEALTH_SQL A cutoff limit rows =
    bind_res (map_res (\<lambda>(k, ms). bind_res (usage_row_of ms) (\<lambda>u. Inr (k, u, health_row_of ms, latency_row_of A ms)))
        (group_rows (group_key By_upstream) (recent_rows cutoff rows))) (\<lambda>items.
    Inr (sql_limit limit 0 (sort_key (\<lambda>(k, u, h, l).
      (- uw_error_count u, desc_nulls_last (lt_p95_duration_ms l), - uw_request_count u, rl_collate A k)) items)))"

record reach_row =
  re_proxy_error_count :: int
  re_http_5xx_count :: int
  re_upstream_count :: int
  re_api_key_count :: int

definition reach_row_of :: "request_metadata list \<Rightarrow> reach_row" where
  "reach_row_of ms =
    \<lparr>re_proxy_error_count = sql_count proxy_error ms, re_http_5xx_count = sql_count (status_from 500) ms,
     re_upstream_count = int (card (set (present (map rs_upstream_host ms)))),
     re_api_key_count = int (card (set (present (map rs_api_key_hash ms))))\<rparr>"

definition MODEL_USAGE_SQL ::
  "analytics_lib \<Rightarrow> int \<Rightarrow> int \<Rightarrow> request_metadata list \<Rightarrow> ingest_error + (string \<times> usage_row \<times> token_row \<times> reach_row \<times> latency_row) list" where
  "MODEL_USAGE_SQL A cutoff limit rows =
    bind_res (map_res (\<lambda>(k, ms). bind_res (usage_row_of ms) (\<lambda>u. bind_res (token_row_of ms) (\<lambda>t.
        Inr (k, u, t, reach_row_of ms, latency_row_of A ms))))
        (group_rows (group_key By_model) (recent_rows cutoff rows))) (\<lambda>items.
    Inr (sql_limit limit 0 (sort_key (\<lambda>(k, u, t, r, l). (- uw_request_count u, - uw_error_count u, rl_collate A k)) items)))"

text \<open>The user of the session the request belongs to, if any.\<close>

definition user_key :: "(uuid \<times> trace_session) list \<Rightarrow> request_metadata \<Rightarrow> string \<times> string" where
  "user_key sessions m =
    (let s = Option.bind (rs_session_id m) (map_of sessions)
     in (or_unknown (Option.bind s se_user_id), or_unknown (Option.bind s se_user_name)))"

definition USER_USAGE_SQL ::
  "analytics_lib \<Rightarrow> (uuid \<times> trace_session) list \<Rightarrow> int \<Rightarrow> int \<Rightarrow> request_metadata list
    \<Rightarrow> ingest_error + ((string \<times> string) \<times> usage_row \<times> token_row \<times> reach_row \<times> latency_row) list" where
  "USER_USAGE_SQL A sessions cutoff limit rows =
    bind_res (map_res (\<lambda>(k, ms). bind_res (usage_row_of ms) (\<lambda>u. bind_res (token_row_of ms) (\<lambda>t.
        Inr (k, u, t, reach_row_of ms, latency_row_of A ms))))
        (group_rows (user_key sessions) (recent_rows cutoff rows))) (\<lambda>items.
    Inr (sql_limit limit 0 (sort_key (\<lambda>(k, u, t, r, l). (- uw_request_count u, rl_collate A (fst k), rl_collate A (snd k))) items)))"

definition usage_items :: "int option \<Rightarrow> int option \<Rightarrow> int \<Rightarrow> (int \<Rightarrow> int \<Rightarrow> ingest_error + 'a list) \<Rightarrow> ingest_error + (window \<times> int) \<times> 'a list" where
  "usage_items since_hours limit now sql =
    (let w = resolve_window TOP_N_WINDOW since_hours limit; cutoff = window_cutoff w now in
     bind_res (sql cutoff (wi_limit w)) (\<lambda>items. Inr ((w, cutoff), items)))"

section \<open>Figures from the rollups\<close>

text \<open>Division of 64-bit integers truncates.\<close>

definition trunc_div :: "int \<Rightarrow> int \<Rightarrow> int" where
  "trunc_div a b = sgn a * sgn b * (\<bar>a\<bar> div \<bar>b\<bar>)"

definition ratio :: "int \<Rightarrow> int \<Rightarrow> int option" where
  "ratio total_sum n = (if n = 0 then None else Some (trunc_div total_sum n))"

text \<open>Sums over rollup rows, each cast to 64 bits.\<close>

record rollup_sums =
  rx_total :: int
  rx_errors :: int
  rx_captured_bytes :: int
  rx_duration_count :: int
  rx_duration_sum_ms :: int
  rx_ttft_count :: int
  rx_ttft_sum_ms :: int

definition rollup_sums_of :: "rollup_row list \<Rightarrow> ingest_error + rollup_sums" where
  "rollup_sums_of rs =
    bind_res (sql_sum0 (map ru_total rs)) (\<lambda>total_sum.
    bind_res (sql_sum0 (map ru_errors rs)) (\<lambda>errors.
    bind_res (sql_sum0 (map ru_captured_bytes rs)) (\<lambda>captured.
    bind_res (sql_sum0 (map ru_duration_count rs)) (\<lambda>dcount.
    bind_res (sql_sum0 (map ru_duration_sum_ms rs)) (\<lambda>dsum.
    bind_res (sql_sum0 (map ru_ttft_count rs)) (\<lambda>tcount.
    bind_res (sql_sum0 (map ru_ttft_sum_ms rs)) (\<lambda>tsum.
    Inr \<lparr>rx_total = total_sum, rx_errors = errors, rx_captured_bytes = captured, rx_duration_count = dcount,
      rx_duration_sum_ms = dsum, rx_ttft_count = tcount, rx_ttft_sum_ms = tsum\<rparr>)))))))"

record stats_view =
  sv_total :: int
  sv_last_hour :: int
  sv_errors :: int
  sv_captured_bytes :: int
  sv_avg_duration_ms :: "int option"
  sv_avg_ttft_ms :: "int option"

definition stats :: "int \<Rightarrow> trace_db \<Rightarrow> ingest_error + stats_view" where
  "stats now d =
    bind_res (rollup_sums_of (map snd (rd_rollups d))) (\<lambda>sums.
    bind_res (sql_sum0 (map (ru_total \<circ> snd) (filter (\<lambda>p. fst p \<ge> minute_of (hours_before now 1)) (rd_rollups d)))) (\<lambda>last_hour.
    Inr \<lparr>sv_total = rx_total sums, sv_last_hour = last_hour, sv_errors = rx_errors sums, sv_captured_bytes = rx_captured_bytes sums,
      sv_avg_duration_ms = ratio (rx_duration_sum_ms sums) (rx_duration_count sums),
      sv_avg_ttft_ms = ratio (rx_ttft_sum_ms sums) (rx_ttft_count sums)\<rparr>))"

definition date_trunc :: "timeseries_bucket \<Rightarrow> int \<Rightarrow> int" where
  "date_trunc b t = t - t mod bucket_interval b"

record usage_point =
  up_bucket :: int
  up_request_count :: int
  up_error_count :: int
  up_captured_bytes :: int
  up_avg_duration_ms :: "int option"
  up_avg_ttft_ms :: "int option"

definition generate_series :: "int \<Rightarrow> int \<Rightarrow> int \<Rightarrow> int list" where
  "generate_series start stop step =
    (if stop < start then [] else map (\<lambda>i. start + int i * step) [0..<nat ((stop - start) div step) + 1])"

definition usage_point_of :: "int \<Rightarrow> rollup_sums \<Rightarrow> usage_point" where
  "usage_point_of b r =
    \<lparr>up_bucket = b, up_request_count = rx_total r, up_error_count = rx_errors r, up_captured_bytes = rx_captured_bytes r,
     up_avg_duration_ms = ratio (rx_duration_sum_ms r) (rx_duration_count r),
     up_avg_ttft_ms = ratio (rx_ttft_sum_ms r) (rx_ttft_count r)\<rparr>"

definition usage_timeseries :: "int option \<Rightarrow> string option \<Rightarrow> int \<Rightarrow> trace_db \<Rightarrow> (string + ingest_error) + usage_point list" where
  "usage_timeseries since_hours bucket now d =
    (case timeseries_from_query since_hours bucket of
       Inl e \<Rightarrow> Inl (Inl e)
     | Inr w \<Rightarrow>
         (let cutoff = timeseries_cutoff w now; trunc = date_trunc (tw_bucket w);
              rollups = filter (\<lambda>p. fst p \<ge> cutoff \<and> fst p \<le> now) (rd_rollups d)
          in case map_res (\<lambda>b. bind_res (rollup_sums_of (map snd (filter (\<lambda>p. trunc (fst p) = b) rollups))) (\<lambda>r. Inr (usage_point_of b r)))
               (generate_series (trunc cutoff) (trunc now) (bucket_interval (tw_bucket w))) of
               Inl e \<Rightarrow> Inl (Inr e) | Inr points \<Rightarrow> Inr points))"

section \<open>Overview\<close>

definition seconds_since :: "int \<Rightarrow> int option \<Rightarrow> int option" where
  "seconds_since now t = map_option (\<lambda>v. max 0 (trunc_div (now - v) 1000000)) t"

record overview_rollups =
  ov_request_count :: int
  ov_error_count :: int
  ov_captured_bytes :: int
  ov_first_bucket_at :: "int option"
  ov_last_bucket_at :: "int option"
  ov_last_seen_at :: "int option"

definition DATA_OVERVIEW_ROLLUPS_SQL :: "trace_db \<Rightarrow> ingest_error + overview_rollups" where
  "DATA_OVERVIEW_ROLLUPS_SQL d =
    (let rs = map snd (rd_rollups d) in
     bind_res (sql_sum0 (map ru_total rs)) (\<lambda>total_sum.
     bind_res (sql_sum0 (map ru_errors rs)) (\<lambda>errors.
     bind_res (sql_sum0 (map ru_captured_bytes rs)) (\<lambda>captured.
     Inr \<lparr>ov_request_count = total_sum, ov_error_count = errors, ov_captured_bytes = captured,
       ov_first_bucket_at = sql_min (map (Some \<circ> fst) (rd_rollups d)), ov_last_bucket_at = sql_max (map (Some \<circ> fst) (rd_rollups d)),
       ov_last_seen_at = sql_max (map (Some \<circ> ru_last_seen) rs)\<rparr>))))"

record overview_recent =
  orc_usage :: usage_row
  orc_proxy_error_count :: int
  orc_http_5xx_count :: int
  orc_upstream_count :: int
  orc_model_count :: int

definition DATA_OVERVIEW_RECENT_REQUESTS_SQL :: "int \<Rightarrow> request_metadata list \<Rightarrow> ingest_error + overview_recent" where
  "DATA_OVERVIEW_RECENT_REQUESTS_SQL cutoff rows =
    (let ms = recent_rows cutoff rows in
     bind_res (usage_row_of ms) (\<lambda>u.
     Inr \<lparr>orc_usage = u, orc_proxy_error_count = sql_count proxy_error ms, orc_http_5xx_count = sql_count (status_from 500) ms,
       orc_upstream_count = int (card (set (present (map rs_upstream_host ms)))),
       orc_model_count = int (card (set (present (map rs_model ms))))\<rparr>))"

definition DATA_OVERVIEW_SESSIONS_SQL :: "int \<Rightarrow> trace_db \<Rightarrow> int \<times> int \<times> int option \<times> int option" where
  "DATA_OVERVIEW_SESSIONS_SQL cutoff d =
    (let ss = map snd (rd_sessions d) in
     (int (length ss), sql_count (\<lambda>s. se_last_seen s \<ge> cutoff) ss, sql_min (map (Some \<circ> se_first_seen) ss),
      sql_max (map (Some \<circ> se_last_seen) ss)))"

definition DATA_OVERVIEW_AUTH_STATE_SQL :: "int \<Rightarrow> rot_world \<Rightarrow> int \<times> int \<times> int \<times> int" where
  "DATA_OVERVIEW_AUTH_STATE_SQL now w =
    (sql_count (\<lambda>p. snd p \<ge> now) (rw_ui_sessions w), sql_count (\<lambda>p. snd p < now) (rw_ui_sessions w),
     sql_count (\<lambda>p. snd p \<ge> now) (rw_oauth_states w), sql_count (\<lambda>p. snd p < now) (rw_oauth_states w))"

record overview =
  oo_totals :: overview_rollups
  oo_recent :: overview_recent
  oo_sessions :: "int \<times> int \<times> int option \<times> int option"
  oo_auth_state :: "int \<times> int \<times> int \<times> int"
  oo_request_lag_secs :: "int option"
  oo_session_lag_secs :: "int option"

definition data_overview :: "int option \<Rightarrow> int \<Rightarrow> rot_world \<Rightarrow> request_metadata list \<Rightarrow> ingest_error + overview" where
  "data_overview since_hours now w rows =
    (let cutoff = lookback_cutoff (lookback_from_query since_hours) now; d = rw_db w; s = DATA_OVERVIEW_SESSIONS_SQL cutoff d in
     bind_res (DATA_OVERVIEW_ROLLUPS_SQL d) (\<lambda>r.
     bind_res (DATA_OVERVIEW_RECENT_REQUESTS_SQL cutoff rows) (\<lambda>recent.
     Inr \<lparr>oo_totals = r, oo_recent = recent, oo_sessions = s, oo_auth_state = DATA_OVERVIEW_AUTH_STATE_SQL now w,
       oo_request_lag_secs = seconds_since now (ov_last_seen_at r),
       oo_session_lag_secs = seconds_since now (snd (snd (snd s)))\<rparr>)))"

section \<open>The integrity report\<close>

definition DATA_INTEGRITY_MISMATCH_LIMIT :: int where
  "DATA_INTEGRITY_MISMATCH_LIMIT = 50"

text \<open>One compared minute: whether each side has it, and the seven figures of each side.\<close>

record rollup_diff =
  dif_bucket :: int
  dif_raw :: "rollup_sums option"
  dif_rollup :: "rollup_sums option"

definition no_sums :: rollup_sums where
  "no_sums = \<lparr>rx_total = 0, rx_errors = 0, rx_captured_bytes = 0, rx_duration_count = 0, rx_duration_sum_ms = 0,
    rx_ttft_count = 0, rx_ttft_sum_ms = 0\<rparr>"

definition or_zero :: "rollup_sums option \<Rightarrow> rollup_sums" where
  "or_zero x = (case x of Some s \<Rightarrow> s | None \<Rightarrow> no_sums)"

definition mismatched :: "rollup_diff \<Rightarrow> bool" where
  "mismatched x \<longleftrightarrow> or_zero (dif_raw x) \<noteq> or_zero (dif_rollup x)"

definition raw_sums_of :: "trace_row list \<Rightarrow> ingest_error + rollup_sums" where
  "raw_sums_of ts =
    bind_res (map_res (\<lambda>t. pg_bigint (captured_of t)) ts) (\<lambda>captured_bytes.
    bind_res (sql_sum0 captured_bytes) (\<lambda>captured.
    bind_res (sql_sum0 (map (unwrap_or 0 \<circ> rt_duration_ms) ts)) (\<lambda>dsum.
    bind_res (sql_sum0 (map (unwrap_or 0 \<circ> rt_ttft_ms) ts)) (\<lambda>tsum.
    Inr \<lparr>rx_total = int (length ts), rx_errors = sql_count (\<lambda>t. row_is_error (rt_error t) (rt_status t)) ts, rx_captured_bytes = captured,
      rx_duration_count = sql_count (\<lambda>t. rt_duration_ms t \<noteq> None) ts, rx_duration_sum_ms = dsum,
      rx_ttft_count = sql_count (\<lambda>t. rt_ttft_ms t \<noteq> None) ts, rx_ttft_sum_ms = tsum\<rparr>))))"

definition window_traces :: "int \<Rightarrow> int \<Rightarrow> trace_db \<Rightarrow> trace_row list" where
  "window_traces cutoff now d = filter (\<lambda>t. rt_started_at t \<ge> minute_of cutoff \<and> rt_started_at t \<le> now) (rd_traces d)"

definition window_rollups :: "int \<Rightarrow> int \<Rightarrow> trace_db \<Rightarrow> (int \<times> rollup_row) list" where
  "window_rollups cutoff now d = filter (\<lambda>p. fst p \<ge> minute_of cutoff \<and> fst p \<le> minute_of now) (rd_rollups d)"

text \<open>The full outer join of the two groupings by minute.\<close>

definition data_integrity_rollup_diffs :: "int \<Rightarrow> int \<Rightarrow> trace_db \<Rightarrow> ingest_error + rollup_diff list" where
  "data_integrity_rollup_diffs cutoff now d =
    (let ts = window_traces cutoff now d; rs = window_rollups cutoff now d;
         buckets = remdups (map (minute_of \<circ> rt_started_at) ts @ map fst rs)
     in map_res (\<lambda>b.
          let raw = filter (\<lambda>t. minute_of (rt_started_at t) = b) ts; roll = map snd (filter (\<lambda>p. fst p = b) rs) in
          bind_res (raw_sums_of raw) (\<lambda>raw_sums.
          bind_res (rollup_sums_of roll) (\<lambda>roll_sums.
          Inr \<lparr>dif_bucket = b, dif_raw = (if raw = [] then None else Some raw_sums), dif_rollup = (if roll = [] then None else Some roll_sums)\<rparr>)))
        buckets)"

definition DATA_INTEGRITY_ROLLUP_MISMATCHES_SQL :: "rollup_diff list \<Rightarrow> rollup_diff list" where
  "DATA_INTEGRITY_ROLLUP_MISMATCHES_SQL diffs =
    sql_limit DATA_INTEGRITY_MISMATCH_LIMIT 0 (rev (sort_key dif_bucket (filter mismatched diffs)))"

text \<open>The seven figures compared: what the traces and the rollups give and the difference, which is
  taken per minute and may leave the 64-bit range.\<close>

definition rollup_integrity_metric :: "(rollup_sums \<Rightarrow> int) \<Rightarrow> rollup_diff list \<Rightarrow> ingest_error + int \<times> int \<times> int" where
  "rollup_integrity_metric figure diffs =
    bind_res (map_res (\<lambda>x. pg_bigint (figure (or_zero (dif_raw x)) - figure (or_zero (dif_rollup x)))) diffs) (\<lambda>deltas.
    bind_res (sql_sum0 (map (figure \<circ> or_zero \<circ> dif_raw) diffs)) (\<lambda>raw.
    bind_res (sql_sum0 (map (figure \<circ> or_zero \<circ> dif_rollup) diffs)) (\<lambda>roll.
    bind_res (sql_sum0 deltas) (\<lambda>delta.
    Inr (raw, roll, delta)))))"

definition rollup_integrity_metrics :: "rollup_diff list \<Rightarrow> ingest_error + (int \<times> int \<times> int) list" where
  "rollup_integrity_metrics diffs =
    map_res (\<lambda>figure. rollup_integrity_metric figure diffs)
      [rx_total, rx_errors, rx_captured_bytes, rx_duration_count, rx_duration_sum_ms, rx_ttft_count, rx_ttft_sum_ms]"

record relationships =
  rel_request_missing_session :: int
  rel_empty_session :: int
  rel_message_missing_request :: int
  rel_message_missing_session :: int

definition DATA_INTEGRITY_RELATIONSHIP_SQL :: "int \<Rightarrow> int \<Rightarrow> trace_db \<Rightarrow> relationships" where
  "DATA_INTEGRITY_RELATIONSHIP_SQL cutoff now d =
    (let inside = (\<lambda>t. t \<ge> minute_of cutoff \<and> t \<le> now) in
     \<lparr>rel_request_missing_session = sql_count (\<lambda>t. inside (rt_started_at t) \<and>
        sql_some (rt_session t) (\<lambda>i. i \<notin> fst ` set (rd_sessions d))) (rd_traces d),
      rel_empty_session = sql_count (\<lambda>p. inside (se_last_seen (snd p)) \<and> (\<forall>t\<in>set (rd_traces d). rt_session t \<noteq> Some (fst p))) (rd_sessions d),
      rel_message_missing_request = sql_count (\<lambda>m. inside (mr_created_at m) \<and> mr_request_id m \<notin> rt_id ` set (rd_traces d)) (rd_messages d),
      rel_message_missing_session = sql_count (\<lambda>m. inside (mr_created_at m) \<and> mr_session_id m \<notin> fst ` set (rd_sessions d)) (rd_messages d)\<rparr>)"

record integrity_report =
  ir_ok :: bool
  ir_compared_bucket_count :: int
  ir_mismatched_bucket_count :: int
  ir_missing_rollup_bucket_count :: int
  ir_extra_rollup_bucket_count :: int
  ir_first_mismatch_bucket :: "int option"
  ir_last_mismatch_bucket :: "int option"
  ir_metrics :: "(int \<times> int \<times> int) list"
  ir_mismatches :: "rollup_diff list"
  ir_relationships :: relationships

definition data_integrity :: "int option \<Rightarrow> int \<Rightarrow> trace_db \<Rightarrow> ingest_error + integrity_report" where
  "data_integrity since_hours now d =
    (let cutoff = lookback_cutoff (lookback_from_query since_hours) now in
     bind_res (data_integrity_rollup_diffs cutoff now d) (\<lambda>diffs.
     bind_res (rollup_integrity_metrics diffs) (\<lambda>metrics.
     let rel = DATA_INTEGRITY_RELATIONSHIP_SQL cutoff now d; mismatched_count = sql_count mismatched diffs in
     Inr \<lparr>ir_ok = (mismatched_count = 0 \<and> rel_request_missing_session rel = 0 \<and> rel_message_missing_request rel = 0 \<and>
         rel_message_missing_session rel = 0),
       ir_compared_bucket_count = int (length diffs), ir_mismatched_bucket_count = mismatched_count,
       ir_missing_rollup_bucket_count = sql_count (\<lambda>x. dif_raw x \<noteq> None \<and> dif_rollup x = None) diffs,
       ir_extra_rollup_bucket_count = sql_count (\<lambda>x. dif_rollup x \<noteq> None \<and> dif_raw x = None) diffs,
       ir_first_mismatch_bucket = sql_min (map (Some \<circ> dif_bucket) (filter mismatched diffs)),
       ir_last_mismatch_bucket = sql_max (map (Some \<circ> dif_bucket) (filter mismatched diffs)),
       ir_metrics = metrics,
       ir_mismatches = DATA_INTEGRITY_ROLLUP_MISMATCHES_SQL diffs, ir_relationships = rel\<rparr>)))"

section \<open>Groups and sums\<close>

lemma sum_groups:
  fixes g :: "'a \<Rightarrow> int"
  assumes "finite B"
  shows "(\<Sum>b\<in>B. sum_list (map g (filter (\<lambda>x. k x = b) xs))) = sum_list (map g (filter (\<lambda>x. k x \<in> B) xs))"
proof (induction xs)
  case (Cons x xs)
  have "(\<Sum>b\<in>B. sum_list (map g (filter (\<lambda>y. k y = b) (x # xs)))) =
      (\<Sum>b\<in>B. (if k x = b then g x else 0) + sum_list (map g (filter (\<lambda>y. k y = b) xs)))"
    by (rule sum.cong) auto
  also have "\<dots> = (if k x \<in> B then g x else 0) + sum_list (map g (filter (\<lambda>y. k y \<in> B) xs))"
    using assms Cons by (simp add: sum.distrib sum.delta)
  finally show ?case by auto
qed simp

text \<open>The rows of the rollups are the groups of the traces by minute.\<close>

lemma rollup_row_iff:
  assumes "rollups_exact d"
  shows "(b, r) \<in> set (rd_rollups d) \<longleftrightarrow> in_minute b (rd_traces d) \<noteq> [] \<and> r = aggregate (in_minute b (rd_traces d))"
  using assms map_of_eq_Some_iff [of "rd_rollups d" b r] by (auto simp: rollups_exact_def Let_def split: if_splits)

lemma rollup_sum:
  fixes g :: "trace_row \<Rightarrow> int"
  assumes "rollups_exact d" and f: "\<And>ts. f (aggregate ts) = sum_list (map g ts)"
  shows "sum_list (map (f \<circ> snd) (filter (P \<circ> fst) (rd_rollups d))) =
    sum_list (map g (filter (\<lambda>t. P (minute_of (rt_started_at t))) (rd_traces d)))"
proof -
  let ?R = "filter (P \<circ> fst) (rd_rollups d)" and ?k = "\<lambda>t. minute_of (rt_started_at t)"
  define B where "B = fst ` set ?R"
  have dist: "distinct (map fst (rd_rollups d))" using assms(1) by (simp add: rollups_exact_def)
  then have "distinct ?R" "inj_on fst (set ?R)" by (auto simp: distinct_map intro: inj_on_subset)
  then have "sum_list (map (f \<circ> snd) ?R) = (\<Sum>p\<in>set ?R. f (snd p))"
    by (simp add: sum_list_distinct_conv_sum_set)
  also have "\<dots> = (\<Sum>p\<in>set ?R. sum_list (map g (filter (\<lambda>t. ?k t = fst p) (rd_traces d))))"
  proof (rule sum.cong)
    fix p assume "p \<in> set ?R"
    then have "snd p = aggregate (in_minute (fst p) (rd_traces d))" using rollup_row_iff [OF assms(1), of "fst p" "snd p"] by simp
    then show "f (snd p) = sum_list (map g (filter (\<lambda>t. ?k t = fst p) (rd_traces d)))" by (simp add: f in_minute_def)
  qed simp
  also have "\<dots> = (\<Sum>b\<in>B. sum_list (map g (filter (\<lambda>t. ?k t = b) (rd_traces d))))"
    unfolding B_def using \<open>inj_on fst (set ?R)\<close> by (simp add: sum.reindex)
  also have "\<dots> = sum_list (map g (filter (\<lambda>t. ?k t \<in> B) (rd_traces d)))"
    by (rule sum_groups) (simp add: B_def)
  also have "filter (\<lambda>t. ?k t \<in> B) (rd_traces d) = filter (\<lambda>t. P (?k t)) (rd_traces d)"
  proof (rule filter_cong)
    fix t assume t: "t \<in> set (rd_traces d)"
    then have "t \<in> set (in_minute (?k t) (rd_traces d))" by (simp add: in_minute_def)
    then have "in_minute (?k t) (rd_traces d) \<noteq> []" by force
    then have "(?k t, aggregate (in_minute (?k t) (rd_traces d))) \<in> set (rd_rollups d)"
      by (simp add: rollup_row_iff [OF assms(1)])
    then show "?k t \<in> B \<longleftrightarrow> P (?k t)" by (force simp: B_def)
  qed simp
  finally show ?thesis .
qed

lemma aggregate_sums:
  "ru_total (aggregate ts) = sum_list (map (\<lambda>_. 1) ts)"
  "ru_errors (aggregate ts) = sum_list (map errors_of ts)"
  "ru_captured_bytes (aggregate ts) = sum_list (map captured_of ts)"
  "ru_duration_count (aggregate ts) = sum_list (map (count_of \<circ> rt_duration_ms) ts)"
  "ru_duration_sum_ms (aggregate ts) = sum_list (map (unwrap_or 0 \<circ> rt_duration_ms) ts)"
  "ru_ttft_count (aggregate ts) = sum_list (map (count_of \<circ> rt_ttft_ms) ts)"
  "ru_ttft_sum_ms (aggregate ts) = sum_list (map (unwrap_or 0 \<circ> rt_ttft_ms) ts)"
  by (simp_all add: aggregate_def sum_list_triv)

text \<open>The figures of a list of traces, without the 64-bit limit.\<close>

definition trace_sums :: "trace_row list \<Rightarrow> rollup_sums" where
  "trace_sums ts =
    \<lparr>rx_total = int (length ts), rx_errors = sql_count (\<lambda>t. row_is_error (rt_error t) (rt_status t)) ts,
     rx_captured_bytes = sum_list (map captured_of ts), rx_duration_count = sql_count (\<lambda>t. rt_duration_ms t \<noteq> None) ts,
     rx_duration_sum_ms = sum_list (map (unwrap_or 0 \<circ> rt_duration_ms) ts),
     rx_ttft_count = sql_count (\<lambda>t. rt_ttft_ms t \<noteq> None) ts, rx_ttft_sum_ms = sum_list (map (unwrap_or 0 \<circ> rt_ttft_ms) ts)\<rparr>"

definition sums_fit :: "rollup_sums \<Rightarrow> bool" where
  "sums_fit s \<longleftrightarrow> list_all (\<lambda>x. i64_min \<le> x \<and> x \<le> i64_max) [rx_total s, rx_errors s, rx_captured_bytes s, rx_duration_count s,
    rx_duration_sum_ms s, rx_ttft_count s, rx_ttft_sum_ms s]"

lemma errors_count: "sum_list (map errors_of ts) = sql_count (\<lambda>t. row_is_error (rt_error t) (rt_status t)) ts"
  by (induction ts) (simp_all add: sql_count_def errors_of_def error_count_def)

lemma some_count: "sum_list (map (count_of \<circ> f) ts) = sql_count (\<lambda>t. f t \<noteq> None) ts"
  by (induction ts) (simp_all add: sql_count_def count_of_def)

lemma rollup_sums_traces:
  assumes "rollups_exact d"
  shows "rollup_sums_of (map snd (filter (P \<circ> fst) (rd_rollups d))) =
    (let s = trace_sums (filter (\<lambda>t. P (minute_of (rt_started_at t))) (rd_traces d))
     in if sums_fit s then Inr s else Inl Bigint_out_of_range)"
proof -
  let ?ts = "filter (\<lambda>t. P (minute_of (rt_started_at t))) (rd_traces d)" and ?R = "filter (P \<circ> fst) (rd_rollups d)"
  note s = rollup_sum [OF assms, of ru_total "\<lambda>_. 1" P, OF aggregate_sums(1)] rollup_sum [OF assms, of ru_errors _ P, OF aggregate_sums(2)]
    rollup_sum [OF assms, of ru_captured_bytes _ P, OF aggregate_sums(3)] rollup_sum [OF assms, of ru_duration_count _ P, OF aggregate_sums(4)]
    rollup_sum [OF assms, of ru_duration_sum_ms _ P, OF aggregate_sums(5)] rollup_sum [OF assms, of ru_ttft_count _ P, OF aggregate_sums(6)]
    rollup_sum [OF assms, of ru_ttft_sum_ms _ P, OF aggregate_sums(7)]
  show ?thesis
    unfolding rollup_sums_of_def sql_sum0_def map_map s errors_count some_count
    by (simp add: trace_sums_def sums_fit_def pg_bigint_def bind_res_def Let_def sum_list_triv)
qed

section \<open>The dashboard shows what is stored\<close>

lemma minute_window:
  "minute_of c \<le> minute_of t \<longleftrightarrow> minute_of c \<le> t" "minute_of t \<le> t" "minute_of t < minute_of u \<Longrightarrow> t < u"
  "t \<le> u \<Longrightarrow> minute_of t \<le> minute_of u" "minute_of (minute_of c) = minute_of c"
proof -
  have div: "minute_of x = 60000000 * (x div 60000000)" for x by (simp add: minute_of_def minus_mod_eq_mult_div)
  have mono: "minute_of x \<le> minute_of y" if "x \<le> y" for x y using zdiv_mono1 [OF that, of 60000000] by (simp add: div)
  have idem: "minute_of (minute_of x) = minute_of x" for x by (simp add: div)
  have le: "minute_of x \<le> x" for x using minute_of_iff [of x x] by simp
  show "minute_of c \<le> minute_of t \<longleftrightarrow> minute_of c \<le> t"
    using le [of t] mono [of "minute_of c" t] by (auto simp: idem)
  show "minute_of t < minute_of u \<Longrightarrow> t < u" using mono [of u t] by linarith
  show "minute_of t \<le> t" "t \<le> u \<Longrightarrow> minute_of t \<le> minute_of u" "minute_of (minute_of c) = minute_of c"
    by (fact le mono idem)+
qed

text \<open>The figures of the dashboard are those of the stored traces. After any sequence of
  insertions, maintenance passes and retention runs, the statistics read from the minute rollups
  are the number of traces, of those that started within the last hour to the minute and of the
  failed ones, their captured bytes and their average times; they are refused only when a sum
  exceeds 64 bits.
\<close>

theorem stats_exact:
  assumes "archive_names L" "storage_reach L archive w"
  shows "stats now (rw_db w) =
    (let ts = rd_traces (rw_db w); s = trace_sums ts;
         recent = filter (\<lambda>t. rt_started_at t \<ge> minute_of (hours_before now 1)) ts
     in if sums_fit s then Inr \<lparr>sv_total = int (length ts), sv_last_hour = int (length recent),
          sv_errors = sql_count (\<lambda>t. row_is_error (rt_error t) (rt_status t)) ts,
          sv_captured_bytes = sum_list (map captured_of ts),
          sv_avg_duration_ms = ratio (sum_list (map (unwrap_or 0 \<circ> rt_duration_ms) ts)) (sql_count (\<lambda>t. rt_duration_ms t \<noteq> None) ts),
          sv_avg_ttft_ms = ratio (sum_list (map (unwrap_or 0 \<circ> rt_ttft_ms) ts)) (sql_count (\<lambda>t. rt_ttft_ms t \<noteq> None) ts)\<rparr>
        else Inl Bigint_out_of_range)"
proof -
  let ?d = "rw_db w" and ?c = "hours_before now 1"
  have ex: "rollups_exact ?d" using reach_facts(2) [OF assms(2,1)] .
  have all: "rollup_sums_of (map snd (rd_rollups ?d)) =
      (if sums_fit (trace_sums (rd_traces ?d)) then Inr (trace_sums (rd_traces ?d)) else Inl Bigint_out_of_range)"
    using rollup_sums_traces [OF ex, of "\<lambda>_. True"] by (simp add: comp_def Let_def)
  have hour: "sum_list (map (ru_total \<circ> snd) (filter (\<lambda>p. fst p \<ge> minute_of ?c) (rd_rollups ?d))) =
      int (length (filter (\<lambda>t. rt_started_at t \<ge> minute_of ?c) (rd_traces ?d)))"
    using rollup_sum [OF ex aggregate_sums(1), of "\<lambda>b. b \<ge> minute_of ?c"] by (simp add: comp_def sum_list_triv minute_window(1))
  have "pg_bigint (int (length (filter P (rd_traces ?d)))) = Inr (int (length (filter P (rd_traces ?d))))"
    if "sums_fit (trace_sums (rd_traces ?d))" for P
  proof -
    have "int (length (rd_traces ?d)) \<le> i64_max" using that by (simp add: sums_fit_def trace_sums_def)
    moreover have "length (filter P (rd_traces ?d)) \<le> length (rd_traces ?d)" by (rule length_filter_le)
    ultimately have "int (length (filter P (rd_traces ?d))) \<le> i64_max" by linarith
    then show ?thesis by (simp add: pg_bigint_def i64_min_def)
  qed
  then show ?thesis unfolding stats_def all sql_sum0_def hour
    by (simp add: bind_res_def Let_def trace_sums_def)
qed

lemma demo_sums:
  "trace_sums [trace_row_of demo_taken_trace] =
    \<lparr>rx_total = 1, rx_errors = 1, rx_captured_bytes = 4, rx_duration_count = 1, rx_duration_sum_ms = 7, rx_ttft_count = 0, rx_ttft_sum_ms = 0\<rparr>"
  "rt_started_at (trace_row_of demo_taken_trace) = 90000000"
  by (simp_all add: trace_sums_def sql_count_def row_is_error_def captured_of_def trace_row_of_def demo_taken_trace_def
      demo_stored_trace_def unwrap_or_def)

lemma demo_row_ok: "row_ok (trace_row_of demo_taken_trace)"
  by (simp add: row_ok_def trace_row_of_def demo_taken_trace_def demo_stored_trace_def unwrap_or_def i64_max_def)

theorem stats_exact_witness:
  "\<exists>w. storage_reach demo_archive_lib demo_pg_config w \<and> stats 3700000000 (rw_db w) =
    Inr \<lparr>sv_total = 1, sv_last_hour = 1, sv_errors = 1, sv_captured_bytes = 4, sv_avg_duration_ms = Some 7, sv_avg_ttft_ms = None\<rparr>"
proof -
  obtain w where w: "storage_reach demo_archive_lib demo_pg_config w" "rd_traces (rw_db w) = [trace_row_of demo_taken_trace]"
    using demo_storage_reach by blast
  from stats_exact [OF demo_archive_names w(1), of 3700000000] have "stats 3700000000 (rw_db w) =
    Inr \<lparr>sv_total = 1, sv_last_hour = 1, sv_errors = 1, sv_captured_bytes = 4, sv_avg_duration_ms = Some 7, sv_avg_ttft_ms = None\<rparr>"
    using demo_sums unfolding w(2) by (simp add: trace_sums_def sums_fit_def i64_min_def i64_max_def Let_def minute_of_def hours_before_def ratio_def trunc_div_def)
  with w(1) show ?thesis by blast
qed

section \<open>The integrity report\<close>

lemma map_res_ok: "(\<And>x. x \<in> set xs \<Longrightarrow> f x = Inr (g x)) \<Longrightarrow> map_res f xs = Inr (map g xs)"
  by (induction xs) (simp_all add: bind_res_def)

lemma map_res_set:
  "map_res f xs = Inr ys \<Longrightarrow> (\<forall>x\<in>set xs. \<exists>y\<in>set ys. f x = Inr y) \<and> (\<forall>y\<in>set ys. \<exists>x\<in>set xs. f x = Inr y)"
  by (induction xs arbitrary: ys) (auto simp: bind_res_def split: sum.splits)

lemma sql_count_zero: "sql_count P xs = 0 \<longleftrightarrow> (\<forall>x\<in>set xs. \<not> P x)"
  by (simp add: sql_count_def filter_empty_conv)

lemma sums_fit_filter:
  assumes "sums_fit (trace_sums ts)" "\<forall>t\<in>set ts. row_ok t"
  shows "sums_fit (trace_sums (filter P ts))"
proof -
  have le: "0 \<le> sum_list (map g (filter P ts)) \<and> sum_list (map g (filter P ts)) \<le> sum_list (map g ts)"
    if "\<And>t. t \<in> set ts \<Longrightarrow> 0 \<le> g t" for g :: "trace_row \<Rightarrow> int"
    using that by (induction ts) (auto simp: add_increasing)
  have c: "sql_count Q (filter P ts) \<le> sql_count Q ts \<and> 0 \<le> sql_count Q (filter P ts)" for Q
    by (induction ts) (auto simp: sql_count_def)
  have ok: "0 \<le> captured_of t" "0 \<le> (unwrap_or 0 \<circ> rt_duration_ms) t" "0 \<le> (unwrap_or 0 \<circ> rt_ttft_ms) t" if "t \<in> set ts" for t
    using assms(2) that by (auto simp: row_ok_def captured_of_def)
  have "int (length (filter P ts)) \<le> int (length ts)" by simp
  then show ?thesis
    using assms(1) le [of captured_of] le [of "unwrap_or 0 \<circ> rt_duration_ms"] le [of "unwrap_or 0 \<circ> rt_ttft_ms"] ok
      c [of "\<lambda>t. row_is_error (rt_error t) (rt_status t)"] c [of "\<lambda>t. rt_duration_ms t \<noteq> None"] c [of "\<lambda>t. rt_ttft_ms t \<noteq> None"]
    unfolding sums_fit_def trace_sums_def by (simp add: i64_min_def del: length_filter_le)
qed

lemma raw_sums_traces:
  assumes "sums_fit (trace_sums ts)" "\<forall>t\<in>set ts. row_ok t"
  shows "raw_sums_of ts = Inr (trace_sums ts)"
proof -
  have "map_res (\<lambda>t. pg_bigint (captured_of t)) ts = Inr (map captured_of ts)"
    by (rule map_res_ok) (use assms(2) in \<open>auto simp: pg_bigint_def row_ok_def captured_of_def i64_min_def\<close>)
  then show ?thesis using assms(1)
    by (simp add: raw_sums_of_def sql_sum0_def pg_bigint_def bind_res_def sums_fit_def trace_sums_def)
qed

definition minute_side :: "trace_row list \<Rightarrow> int \<Rightarrow> rollup_sums option" where
  "minute_side ts b = (if in_minute b ts = [] then None else Some (trace_sums (in_minute b ts)))"

text \<open>No trace of the current minute starts after the time the report was asked for.\<close>

definition none_later :: "int \<Rightarrow> trace_db \<Rightarrow> bool" where
  "none_later now d \<longleftrightarrow>
    (\<forall>t\<in>set (rd_traces d). minute_of (rt_started_at t) = minute_of now \<longrightarrow> rt_started_at t \<le> now)"

lemma diffs_agree:
  assumes ex: "rollups_exact d" and ok: "\<forall>t\<in>set (rd_traces d). row_ok t" and fit: "sums_fit (trace_sums (rd_traces d))"
    and past: "none_later now d"
  shows "\<exists>buckets. distinct buckets \<and> data_integrity_rollup_diffs cutoff now d =
    Inr (map (\<lambda>b. \<lparr>dif_bucket = b, dif_raw = minute_side (rd_traces d) b, dif_rollup = minute_side (rd_traces d) b\<rparr>) buckets)"
proof -
  let ?ts = "window_traces cutoff now d" and ?rs = "window_rollups cutoff now d"
  let ?buckets = "remdups (map (minute_of \<circ> rt_started_at) ?ts @ map fst ?rs)"
  let ?side = "minute_side (rd_traces d)"
  have row: "(let raw = filter (\<lambda>t. minute_of (rt_started_at t) = b) ?ts; roll = map snd (filter (\<lambda>p. fst p = b) ?rs) in
      bind_res (raw_sums_of raw) (\<lambda>raw_sums. bind_res (rollup_sums_of roll) (\<lambda>roll_sums.
      Inr \<lparr>dif_bucket = b, dif_raw = (if raw = [] then None else Some raw_sums), dif_rollup = (if roll = [] then None else Some roll_sums)\<rparr>))) =
      Inr \<lparr>dif_bucket = b, dif_raw = ?side b, dif_rollup = ?side b\<rparr>" if b: "b \<in> set ?buckets" for b
  proof -
    have range: "minute_of cutoff \<le> b \<and> b \<le> minute_of now"
    proof (cases "b \<in> fst ` set ?rs")
      case True
      then show ?thesis by (auto simp: window_rollups_def)
    next
      case False
      then obtain t where "t \<in> set ?ts" "b = minute_of (rt_started_at t)" using b by auto
      then show ?thesis using minute_window(1) [of cutoff "rt_started_at t"] minute_window(4) [of "rt_started_at t" now]
        by (auto simp: window_traces_def)
    qed
    have raw: "filter (\<lambda>t. minute_of (rt_started_at t) = b) ?ts = in_minute b (rd_traces d)"
      unfolding window_traces_def in_minute_def filter_filter
    proof (rule filter_cong)
      fix t assume t: "t \<in> set (rd_traces d)"
      have "rt_started_at t \<le> now" if "minute_of (rt_started_at t) = b"
        using that range past [unfolded none_later_def] t minute_window(3) [of "rt_started_at t" now] by (cases "b = minute_of now") force+
      then show "((minute_of cutoff \<le> rt_started_at t \<and> rt_started_at t \<le> now) \<and> minute_of (rt_started_at t) = b) \<longleftrightarrow>
          minute_of (rt_started_at t) = b" using range minute_window(2) [of "rt_started_at t"] by auto
    qed simp
    have roll: "filter (\<lambda>p. fst p = b) ?rs = filter ((\<lambda>x. x = b) \<circ> fst) (rd_rollups d)"
      unfolding window_rollups_def filter_filter by (rule filter_cong) (use range in auto)
    have fitb: "sums_fit (trace_sums (in_minute b (rd_traces d)))" unfolding in_minute_def by (rule sums_fit_filter [OF fit ok])
    have okb: "\<forall>t\<in>set (in_minute b (rd_traces d)). row_ok t" using ok by (simp add: in_minute_def)
    have "rollup_sums_of (map snd (filter ((\<lambda>x. x = b) \<circ> fst) (rd_rollups d))) = Inr (trace_sums (in_minute b (rd_traces d)))"
      using fitb unfolding rollup_sums_traces [OF ex] by (simp add: in_minute_def Let_def)
    moreover have "filter ((\<lambda>x. x = b) \<circ> fst) (rd_rollups d) = [] \<longleftrightarrow> in_minute b (rd_traces d) = []"
      using rollup_row_iff [OF ex, of b] by (force simp: filter_empty_conv)
    ultimately show ?thesis unfolding raw roll Let_def
      by (simp add: raw_sums_traces [OF fitb okb] bind_res_def minute_side_def)
  qed
  have "data_integrity_rollup_diffs cutoff now d = Inr (map (\<lambda>b. \<lparr>dif_bucket = b, dif_raw = ?side b, dif_rollup = ?side b\<rparr>) ?buckets)"
    unfolding data_integrity_rollup_diffs_def Let_def by (rule map_res_ok) (use row in \<open>simp add: Let_def\<close>)
  then show ?thesis by (intro exI [of _ ?buckets]) simp
qed

lemma minute_side_sums:
  "or_zero (minute_side ts b) = trace_sums (in_minute b ts)"
  by (simp add: or_zero_def minute_side_def no_sums_def trace_sums_def sql_count_def)

lemma figure_sums:
  assumes "figure \<in> set [rx_total, rx_errors, rx_captured_bytes, rx_duration_count, rx_duration_sum_ms, rx_ttft_count, rx_ttft_sum_ms]"
  shows "\<exists>g. \<forall>ts. figure (trace_sums ts) = sum_list (map g ts)"
proof -
  have "rx_total (trace_sums ts) = sum_list (map (\<lambda>_. 1) ts)" "rx_errors (trace_sums ts) = sum_list (map errors_of ts)"
    "rx_captured_bytes (trace_sums ts) = sum_list (map captured_of ts)"
    "rx_duration_count (trace_sums ts) = sum_list (map (count_of \<circ> rt_duration_ms) ts)"
    "rx_duration_sum_ms (trace_sums ts) = sum_list (map (unwrap_or 0 \<circ> rt_duration_ms) ts)"
    "rx_ttft_count (trace_sums ts) = sum_list (map (count_of \<circ> rt_ttft_ms) ts)"
    "rx_ttft_sum_ms (trace_sums ts) = sum_list (map (unwrap_or 0 \<circ> rt_ttft_ms) ts)" for ts
    unfolding errors_count some_count by (simp_all add: trace_sums_def sum_list_triv)
  with assms show ?thesis by (simp; blast)
qed

lemma metrics_agree:
  assumes "distinct buckets" and "\<forall>t\<in>set ts. row_ok t" and "sums_fit (trace_sums ts)"
  shows "\<exists>ms. rollup_integrity_metrics
      (map (\<lambda>b. \<lparr>dif_bucket = b, dif_raw = minute_side ts b, dif_rollup = minute_side ts b\<rparr>) buckets) = Inr ms \<and>
    (\<forall>m\<in>set ms. fst m = fst (snd m) \<and> snd (snd m) = 0)"
proof -
  let ?diffs = "map (\<lambda>b. \<lparr>dif_bucket = b, dif_raw = minute_side ts b, dif_rollup = minute_side ts b\<rparr>) buckets"
  let ?all = "trace_sums (filter (\<lambda>t. minute_of (rt_started_at t) \<in> set buckets) ts)"
  let ?figures = "[rx_total, rx_errors, rx_captured_bytes, rx_duration_count, rx_duration_sum_ms, rx_ttft_count, rx_ttft_sum_ms]"
  have zero: "pg_bigint 0 = Inr 0" "sql_sum0 (map (\<lambda>b. 0) xs) = Inr 0" for xs :: "int list"
    by (simp_all add: pg_bigint_def sql_sum0_def i64_min_def i64_max_def sum_list_triv)
  have "rollup_integrity_metric figure ?diffs = Inr (figure ?all, figure ?all, 0)" if figure: "figure \<in> set ?figures" for figure
  proof -
    obtain g where g: "\<And>xs. figure (trace_sums xs) = sum_list (map g xs)" using figure_sums [OF figure] by blast
    have "sum_list (map (\<lambda>b. sum_list (map g (in_minute b ts))) buckets) = (\<Sum>b\<in>set buckets. sum_list (map g (in_minute b ts)))"
      using assms(1) by (simp add: sum_list_distinct_conv_sum_set)
    also have "\<dots> = figure ?all" unfolding in_minute_def g by (rule sum_groups) simp
    finally have total: "sum_list (map (\<lambda>b. figure (trace_sums (in_minute b ts))) buckets) = figure ?all" by (simp add: g)
    have "sums_fit ?all" by (rule sums_fit_filter [OF assms(3,2)])
    then have "pg_bigint (figure ?all) = Inr (figure ?all)" using figure by (auto simp: sums_fit_def pg_bigint_def)
    moreover have "map_res (\<lambda>x. pg_bigint (figure (or_zero (dif_raw x)) - figure (or_zero (dif_rollup x)))) ?diffs = Inr (map (\<lambda>b. 0) ?diffs)"
      by (rule map_res_ok) (auto simp: zero)
    ultimately show ?thesis unfolding rollup_integrity_metric_def
      by (simp add: bind_res_def comp_def minute_side_sums sql_sum0_def total zero [unfolded sql_sum0_def])
  qed
  then have "rollup_integrity_metrics ?diffs = Inr (map (\<lambda>figure. (figure ?all, figure ?all, 0)) ?figures)"
    unfolding rollup_integrity_metrics_def by (rule map_res_ok)
  then show ?thesis by (intro exI [of _ "map (\<lambda>figure. (figure ?all, figure ?all, 0)) ?figures"]) simp
qed

definition clean_report :: "integrity_report \<Rightarrow> bool" where
  "clean_report r \<longleftrightarrow> ir_ok r \<and> ir_mismatched_bucket_count r = 0 \<and>
    ir_missing_rollup_bucket_count r = 0 \<and> ir_extra_rollup_bucket_count r = 0 \<and> ir_mismatches r = [] \<and>
    (\<forall>m\<in>set (ir_metrics r). fst m = fst (snd m) \<and> snd (snd m) = 0) \<and>
    rel_request_missing_session (ir_relationships r) = 0 \<and> rel_message_missing_request (ir_relationships r) = 0 \<and>
    rel_message_missing_session (ir_relationships r) = 0"

lemma report_clean:
  assumes wf: "db_wf d" and ex: "rollups_exact d" and fit: "sums_fit (trace_sums (rd_traces d))" and past: "none_later now d"
  shows "\<exists>r. data_integrity since_hours now d = Inr r \<and> clean_report r"
proof -
  let ?c = "lookback_cutoff (lookback_from_query since_hours) now"
  have ok: "\<forall>t\<in>set (rd_traces d). row_ok t" using db_wfD(4) [OF wf] by blast
  obtain buckets where buckets: "distinct buckets" "data_integrity_rollup_diffs ?c now d =
      Inr (map (\<lambda>b. \<lparr>dif_bucket = b, dif_raw = minute_side (rd_traces d) b, dif_rollup = minute_side (rd_traces d) b\<rparr>) buckets)"
    using diffs_agree [OF ex ok fit past] by blast
  define diffs where "diffs = map (\<lambda>b. \<lparr>dif_bucket = b, dif_raw = minute_side (rd_traces d) b, dif_rollup = minute_side (rd_traces d) b\<rparr>) buckets"
  have diffs: "data_integrity_rollup_diffs ?c now d = Inr diffs" using buckets(2) by (simp add: diffs_def)
  obtain ms where ms: "rollup_integrity_metrics diffs = Inr ms" "\<forall>m\<in>set ms. fst m = fst (snd m) \<and> snd (snd m) = 0"
    using metrics_agree [OF buckets(1) ok fit] unfolding diffs_def by blast
  have agree: "\<forall>x\<in>set diffs. dif_raw x = dif_rollup x" by (auto simp: diffs_def)
  have none: "sql_count mismatched diffs = 0" "sql_count (\<lambda>x. dif_raw x \<noteq> None \<and> dif_rollup x = None) diffs = 0"
    "sql_count (\<lambda>x. dif_rollup x \<noteq> None \<and> dif_raw x = None) diffs = 0"
    using agree by (auto simp: sql_count_zero mismatched_def)
  have empty: "filter mismatched diffs = []" using agree by (simp add: filter_empty_conv mismatched_def)
  have message: "mr_request_id m \<in> rt_id ` set (rd_traces d) \<and> mr_session_id m \<in> fst ` set (rd_sessions d)" if m: "m \<in> set (rd_messages d)" for m
    using db_wfD(7) [OF wf m] db_wfD(6) [OF wf] by (metis imageI)
  have rel: "rel_request_missing_session (DATA_INTEGRITY_RELATIONSHIP_SQL ?c now d) = 0"
    "rel_message_missing_request (DATA_INTEGRITY_RELATIONSHIP_SQL ?c now d) = 0"
    "rel_message_missing_session (DATA_INTEGRITY_RELATIONSHIP_SQL ?c now d) = 0"
    using db_wfD(6) [OF wf] message
    by (auto simp: DATA_INTEGRITY_RELATIONSHIP_SQL_def Let_def sql_count_zero sql_some_def split: option.splits)
  show ?thesis unfolding clean_report_def
    by (simp only: data_integrity_def Let_def diffs ms(1) bind_res_def sum.case)
      (simp add: ms(2) none none [simplified] rel empty DATA_INTEGRITY_ROLLUP_MISMATCHES_SQL_def sql_limit_def)
qed

lemma report_ok_iff:
  assumes "data_integrity since_hours now d = Inr r"
    and "c = lookback_cutoff (lookback_from_query since_hours) now"
  shows "ir_ok r \<longleftrightarrow>
    (\<forall>b. raw_sums_of (filter (\<lambda>t. minute_of (rt_started_at t) = b) (window_traces c now d)) =
      rollup_sums_of (map snd (filter (\<lambda>p. fst p = b) (window_rollups c now d)))) \<and>
    (\<forall>t\<in>set (window_traces c now d). \<forall>i. rt_session t = Some i \<longrightarrow> i \<in> fst ` set (rd_sessions d)) \<and>
    (\<forall>m\<in>set (rd_messages d). minute_of c \<le> mr_created_at m \<and> mr_created_at m \<le> now \<longrightarrow>
      mr_request_id m \<in> rt_id ` set (rd_traces d) \<and> mr_session_id m \<in> fst ` set (rd_sessions d))"
proof -
  let ?raw = "\<lambda>b. filter (\<lambda>t. minute_of (rt_started_at t) = b) (window_traces c now d)"
  let ?roll = "\<lambda>b. map snd (filter (\<lambda>p. fst p = b) (window_rollups c now d))"
  let ?B = "remdups (map (minute_of \<circ> rt_started_at) (window_traces c now d) @ map fst (window_rollups c now d))"
  define row where "row b = bind_res (raw_sums_of (?raw b)) (\<lambda>raw_sums. bind_res (rollup_sums_of (?roll b)) (\<lambda>roll_sums.
      Inr \<lparr>dif_bucket = b, dif_raw = (if ?raw b = [] then None else Some raw_sums), dif_rollup = (if ?roll b = [] then None else Some roll_sums)\<rparr>))" for b
  obtain diffs where diffs: "map_res row ?B = Inr diffs"
    and ok: "ir_ok r \<longleftrightarrow> sql_count mismatched diffs = 0 \<and> rel_request_missing_session (DATA_INTEGRITY_RELATIONSHIP_SQL c now d) = 0 \<and>
      rel_message_missing_request (DATA_INTEGRITY_RELATIONSHIP_SQL c now d) = 0 \<and> rel_message_missing_session (DATA_INTEGRITY_RELATIONSHIP_SQL c now d) = 0"
    using assms(1) unfolding data_integrity_def assms(2) [symmetric] Let_def data_integrity_rollup_diffs_def row_def [abs_def]
    by (auto simp: bind_res_def split: sum.splits)
  have none: "raw_sums_of [] = Inr no_sums" "rollup_sums_of [] = Inr no_sums"
    by (simp_all add: raw_sums_of_def rollup_sums_of_def sql_sum0_def pg_bigint_def bind_res_def no_sums_def sql_count_def i64_min_def i64_max_def)
  have same: "(\<not> mismatched x) \<longleftrightarrow> raw_sums_of (?raw b) = rollup_sums_of (?roll b)" if "row b = Inr x" for b x
    using that none unfolding row_def
    by (cases "?raw b = []"; cases "?roll b = []") (auto simp: bind_res_def mismatched_def or_zero_def split: sum.splits)
  have outside: "raw_sums_of (?raw b) = rollup_sums_of (?roll b)" if "b \<notin> set ?B" for b
  proof -
    have "?raw b = []" "?roll b = []" using that by (auto simp: filter_empty_conv)
    then show ?thesis by (simp only: none)
  qed
  have "sql_count mismatched diffs = 0 \<longleftrightarrow> (\<forall>b. raw_sums_of (?raw b) = rollup_sums_of (?roll b))"
    unfolding sql_count_zero using map_res_set [OF diffs] same outside by blast
  then show ?thesis unfolding ok
    by (auto simp: DATA_INTEGRITY_RELATIONSHIP_SQL_def Let_def sql_count_zero sql_some_def window_traces_def split: option.splits)
qed

lemma later_reported:
  assumes ex: "rollups_exact d" and ok: "\<forall>t\<in>set (rd_traces d). row_ok t" and fit: "sums_fit (trace_sums (rd_traces d))"
    and late: "\<not> none_later now d" and c: "c \<le> now"
  shows "raw_sums_of (filter (\<lambda>t. minute_of (rt_started_at t) = minute_of now) (window_traces c now d)) \<noteq>
    rollup_sums_of (map snd (filter (\<lambda>p. fst p = minute_of now) (window_rollups c now d)))"
proof -
  let ?b = "minute_of now" and ?ts = "rd_traces d"
  let ?raw = "filter (\<lambda>t. minute_of (rt_started_at t) = ?b) (window_traces c now d)"
  obtain t where t: "t \<in> set (in_minute ?b ?ts)" "\<not> rt_started_at t \<le> now"
    using late by (auto simp: none_later_def in_minute_def)
  have raw: "?raw = filter (\<lambda>t. minute_of c \<le> rt_started_at t \<and> rt_started_at t \<le> now) (in_minute ?b ?ts)"
    by (simp add: window_traces_def in_minute_def conj_commute)
  have "length ?raw < length (in_minute ?b ?ts)"
    unfolding raw using t by (intro length_filter_less) auto
  moreover have "sums_fit (trace_sums ?raw)" "\<forall>t\<in>set ?raw. row_ok t"
    unfolding window_traces_def filter_filter using ok by (auto intro: sums_fit_filter [OF fit ok])
  then have "raw_sums_of ?raw = Inr (trace_sums ?raw)" by (rule raw_sums_traces)
  moreover have "minute_of c \<le> ?b" using c by (rule minute_window(4))
  then have roll: "filter (\<lambda>p. fst p = ?b) (window_rollups c now d) = filter ((\<lambda>x. x = ?b) \<circ> fst) (rd_rollups d)"
    unfolding window_rollups_def filter_filter by (intro filter_cong) auto
  have "sums_fit (trace_sums (in_minute ?b ?ts))" unfolding in_minute_def by (rule sums_fit_filter [OF fit ok])
  then have "rollup_sums_of (map snd (filter (\<lambda>p. fst p = ?b) (window_rollups c now d))) = Inr (trace_sums (in_minute ?b ?ts))"
    unfolding roll rollup_sums_traces [OF ex] by (simp add: in_minute_def Let_def)
  ultimately show ?thesis by (auto simp: trace_sums_def)
qed

lemma lookback_past: "lookback_cutoff (lookback_from_query since_hours) now \<le> now"
  by (simp add: lookback_cutoff_def lookback_from_query_def hours_before_def bounded_hours_def clamp_def MAX_HOURS_def)

text \<open>C36: the integrity report of a store that only the program has written. After any sequence
  of insertions, committed or rolled back, maintenance passes and retention runs, and as long as the sums fit into 64 bits,
  a report says ok exactly when no trace of the current minute starts after the time the report
  was asked for. If there is none, the report is produced, counts no differing, missing or extra
  minute and no dangling reference, and its totals agree. The exception is real: the time is taken
  before the tables are read, so a trace that starts and is stored in between makes the report of
  a sound store ask for attention.
\<close>

theorem integrity_report_clean:
  assumes "archive_names L" "storage_reach L archive w" and "sums_fit (trace_sums (rd_traces (rw_db w)))"
  shows "(\<forall>r. data_integrity since_hours now (rw_db w) = Inr r \<longrightarrow> ir_ok r = none_later now (rw_db w)) \<and>
    (none_later now (rw_db w) \<longrightarrow>
     (\<exists>r. data_integrity since_hours now (rw_db w) = Inr r \<and> ir_ok r \<and> ir_mismatched_bucket_count r = 0 \<and>
      ir_missing_rollup_bucket_count r = 0 \<and> ir_extra_rollup_bucket_count r = 0 \<and> ir_mismatches r = [] \<and>
      (\<forall>m\<in>set (ir_metrics r). fst m = fst (snd m) \<and> snd (snd m) = 0) \<and>
      rel_request_missing_session (ir_relationships r) = 0 \<and> rel_message_missing_request (ir_relationships r) = 0 \<and>
      rel_message_missing_session (ir_relationships r) = 0))"
proof -
  have wf: "db_wf (rw_db w)" and ex: "rollups_exact (rw_db w)" using reach_facts [OF assms(2,1)] by simp_all
  have ok: "\<forall>t\<in>set (rd_traces (rw_db w)). row_ok t" using db_wfD(4) [OF wf] by blast
  have clean: "none_later now (rw_db w) \<Longrightarrow> \<exists>r. data_integrity since_hours now (rw_db w) = Inr r \<and> clean_report r"
    by (rule report_clean [OF wf ex assms(3)])
  have "ir_ok r = none_later now (rw_db w)" if r: "data_integrity since_hours now (rw_db w) = Inr r" for r
  proof (cases "none_later now (rw_db w)")
    case True
    then show ?thesis using clean r by (auto simp: clean_report_def)
  next
    case False
    then show ?thesis
      using later_reported [OF ex ok assms(3) False lookback_past] report_ok_iff [OF r refl] by blast
  qed
  with clean show ?thesis unfolding clean_report_def by blast
qed

text \<open>C37: the integrity report misses nothing in its window. On any tables, whether or not the
  program wrote them, a report says ok exactly when in every minute the traces of the window and
  the rollup rows give the same seven figures, every trace of the window that names a session has
  it, and every message of the window has its trace and its session.
\<close>

theorem integrity_report_exact:
  assumes "data_integrity since_hours now d = Inr r"
    and "c = lookback_cutoff (lookback_from_query since_hours) now"
  shows "ir_ok r \<longleftrightarrow>
    (\<forall>b. raw_sums_of (filter (\<lambda>t. minute_of (rt_started_at t) = b) (window_traces c now d)) =
      rollup_sums_of (map snd (filter (\<lambda>p. fst p = b) (window_rollups c now d)))) \<and>
    (\<forall>t\<in>set (window_traces c now d). \<forall>i. rt_session t = Some i \<longrightarrow> i \<in> fst ` set (rd_sessions d)) \<and>
    (\<forall>m\<in>set (rd_messages d). minute_of c \<le> mr_created_at m \<and> mr_created_at m \<le> now \<longrightarrow>
      mr_request_id m \<in> rt_id ` set (rd_traces d) \<and> mr_session_id m \<in> fst ` set (rd_sessions d))"
  using assms by (rule report_ok_iff)

theorem integrity_report_clean_witness:
  "\<exists>w r. storage_reach demo_archive_lib demo_pg_config w \<and> rd_traces (rw_db w) \<noteq> [] \<and>
    data_integrity (Some 24) 95000000 (rw_db w) = Inr r \<and> ir_ok r \<and> ir_mismatches r = []"
proof -
  obtain w where w: "storage_reach demo_archive_lib demo_pg_config w" "rd_traces (rw_db w) = [trace_row_of demo_taken_trace]"
    using demo_storage_reach by blast
  have "sums_fit (trace_sums (rd_traces (rw_db w)))" unfolding w(2) demo_sums by (simp add: sums_fit_def i64_min_def i64_max_def)
  moreover have "none_later 95000000 (rw_db w)"
    unfolding none_later_def w(2) by (simp add: demo_sums)
  ultimately show ?thesis using integrity_report_clean [OF demo_archive_names w(1), of "Some 24" 95000000] w by fastforce
qed

text \<open>A trace without its rollup row is reported.\<close>

theorem integrity_report_exact_witness:
  "\<exists>r. data_integrity (Some 24) 95000000 (empty_db\<lparr>rd_traces := [trace_row_of demo_taken_trace]\<rparr>) = Inr r \<and> \<not> ir_ok r"
proof -
  let ?d = "empty_db\<lparr>rd_traces := [trace_row_of demo_taken_trace]\<rparr>" and ?c = "lookback_cutoff (lookback_from_query (Some 24)) 95000000"
  have m: "minute_of ?c \<le> 60000000" "minute_of 90000000 = 60000000"
    by (simp_all add: minute_of_def lookback_cutoff_def lookback_from_query_def hours_before_def bounded_hours_def clamp_def DEFAULT_HOURS_def MAX_HOURS_def unwrap_or_def)
  have ts: "window_traces ?c 95000000 ?d = [trace_row_of demo_taken_trace]" and rs: "window_rollups ?c 95000000 ?d = []"
    using m(1) by (simp_all add: window_traces_def window_rollups_def demo_sums empty_db_def)
  have raw: "raw_sums_of [trace_row_of demo_taken_trace] = Inr (trace_sums [trace_row_of demo_taken_trace])"
    by (rule raw_sums_traces) (simp add: demo_sums sums_fit_def i64_min_def i64_max_def, simp add: demo_row_ok)
  have roll: "rollup_sums_of [] = Inr no_sums"
    by (simp add: rollup_sums_of_def sql_sum0_def pg_bigint_def bind_res_def no_sums_def i64_min_def i64_max_def)
  obtain r where r: "data_integrity (Some 24) 95000000 ?d = Inr r"
    by (simp add: data_integrity_def data_integrity_rollup_diffs_def ts rs raw roll bind_res_def Let_def demo_sums or_zero_def no_sums_def
        rollup_integrity_metrics_def rollup_integrity_metric_def pg_bigint_def sql_sum0_def i64_min_def i64_max_def)
  have "raw_sums_of (filter (\<lambda>t. minute_of (rt_started_at t) = 60000000) (window_traces ?c 95000000 ?d)) \<noteq>
      rollup_sums_of (map snd (filter (\<lambda>p. fst p = 60000000) (window_rollups ?c 95000000 ?d)))"
    unfolding ts rs by (simp add: raw roll demo_sums m(2) no_sums_def)
  with integrity_report_exact [OF r refl] have "\<not> ir_ok r" by blast
  with r show ?thesis by blast
qed

section \<open>The time series\<close>

lemma bucket_interval_pos: "0 < bucket_interval b" "60000000 dvd bucket_interval b"
  by (cases b; simp)+

lemma date_trunc_div: "date_trunc b t = bucket_interval b * (t div bucket_interval b)"
  by (simp add: date_trunc_def minus_mod_eq_mult_div)

lemma date_trunc_minute: "date_trunc b (minute_of t) = date_trunc b t"
proof -
  obtain k where k: "bucket_interval b = 60000000 * k" "0 < k"
    using bucket_interval_pos [of b] by (cases b) (auto elim!: dvdE)
  have "minute_of t = 60000000 * (t div 60000000)" by (simp add: minute_of_def minus_mod_eq_mult_div)
  then have "minute_of t div bucket_interval b = t div bucket_interval b"
    using k by (simp add: zdiv_zmult2_eq)
  then show ?thesis by (simp add: date_trunc_div)
qed

lemma generate_series_set:
  assumes "c \<le> t" "t \<le> now"
  shows "date_trunc b t \<in> set (generate_series (date_trunc b c) (date_trunc b now) (bucket_interval b))"
proof -
  let ?I = "bucket_interval b"
  have I: "0 < ?I" by (rule bucket_interval_pos)
  have le: "c div ?I \<le> t div ?I" "t div ?I \<le> now div ?I" using assms I by (simp_all add: zdiv_mono1)
  have n: "(date_trunc b now - date_trunc b c) div ?I = now div ?I - c div ?I"
    using I by (simp add: date_trunc_div right_diff_distrib [symmetric])
  define i where "i = nat (t div ?I - c div ?I)"
  have i: "int i = t div ?I - c div ?I" using le by (simp add: i_def)
  have "date_trunc b t = date_trunc b c + int i * ?I" 
    unfolding date_trunc_div i by (subst mult.commute [of "t div ?I - c div ?I"]) (simp add: right_diff_distrib)
  moreover have "i \<in> set [0..<nat (now div ?I - c div ?I) + 1]" using i le by auto
  ultimately have "date_trunc b t \<in> set (map (\<lambda>i. date_trunc b c + int i * ?I) [0..<nat (now div ?I - c div ?I) + 1])"
    unfolding set_map by (rule image_eqI)
  moreover have "\<not> date_trunc b now < date_trunc b c"
    using mult_left_mono [OF order_trans [OF le], of ?I] I by (simp add: date_trunc_div not_less)
  ultimately show ?thesis by (simp only: generate_series_def n if_False)
qed

lemma generate_series_steps:
  assumes "0 < step" "a \<le> z" "step dvd z - a" "xs = generate_series a z step"
  shows "xs \<noteq> [] \<and> hd xs = a \<and> List.last xs = z \<and> (\<forall>i. Suc i < length xs \<longrightarrow> xs ! Suc i = xs ! i + step)"
proof -
  define n where "n = nat ((z - a) div step)"
  have xs: "xs = map (\<lambda>i. a + int i * step) [0..<Suc n]" using assms(2,4) by (simp add: generate_series_def n_def del: upt_Suc)
  have "int n * step = z - a" using assms(1-3) by (simp add: n_def pos_imp_zdiv_nonneg_iff)
  moreover have "[0..<Suc n] = 0 # [1..<Suc n]" by (simp add: upt_conv_Cons del: upt_Suc)
  moreover have "xs ! Suc i = xs ! i + step" if "Suc i < length xs" for i
    using that unfolding xs by (simp add: distrib_right del: upt_Suc)
  ultimately show ?thesis unfolding xs by (cases n) (auto simp: last_map)
qed

lemma date_trunc_dvd: "bucket_interval b dvd date_trunc b t - date_trunc b c"
  by (simp add: date_trunc_div)

lemma date_trunc_mono: "c \<le> t \<Longrightarrow> date_trunc b c \<le> date_trunc b t"
  using bucket_interval_pos [of b] by (simp add: date_trunc_div mult_left_mono zdiv_mono1)

lemma bucket_hours_pos: "0 \<le> bucket_max_since_hours b"
  by (cases b) (simp_all add: MAX_HOURS_def)

lemma timeseries_past: "timeseries_from_query since_hours bucket = Inr tw \<Longrightarrow> timeseries_cutoff tw now \<le> now"
  by (auto simp: timeseries_from_query_def bind_res_def timeseries_cutoff_def hours_before_def bounded_hours_def clamp_def
      intro: bucket_hours_pos split: sum.splits)

lemma generate_series_distinct: "0 < step \<Longrightarrow> distinct (generate_series a z step)"
  by (auto simp: generate_series_def distinct_map inj_on_def)


text \<open>C38: the points of the usage chart follow each other without a gap or an overlap. The first
  is the minute, hour or day in which the window begins, the last the one of now, and each begins
  where the one before it ends, whether or not there were requests in it. For a store that only
  the program has written, each point counts the traces of its bucket, their errors and their
  bytes, and together the points count every trace of the window once; a trace belongs to the
  window when its minute begins in it, so the traces of the minute that the start of the window
  cuts are left out. The chart is produced whenever the sums fit into 64 bits and the bucket is
  known.
\<close>

theorem usage_timeseries_exact:
  assumes L: "archive_names L" and reach: "storage_reach L archive w" and q: "timeseries_from_query since_hours bucket = Inr tw"
    and fit: "sums_fit (trace_sums (rd_traces (rw_db w)))"
    and inside: "inside = filter (\<lambda>t. timeseries_cutoff tw now \<le> minute_of (rt_started_at t) \<and> minute_of (rt_started_at t) \<le> now) (rd_traces (rw_db w))"
  shows "\<exists>points. usage_timeseries since_hours bucket now (rw_db w) = Inr points \<and> points \<noteq> [] \<and>
    up_bucket (hd points) = date_trunc (tw_bucket tw) (timeseries_cutoff tw now) \<and>
    up_bucket (List.last points) = date_trunc (tw_bucket tw) now \<and>
    (\<forall>i. Suc i < length points \<longrightarrow> up_bucket (points ! Suc i) = up_bucket (points ! i) + bucket_interval (tw_bucket tw)) \<and>
    (\<forall>p\<in>set points. p = usage_point_of (up_bucket p)
      (trace_sums (filter (\<lambda>t. date_trunc (tw_bucket tw) (rt_started_at t) = up_bucket p) inside))) \<and>
    sum_list (map up_request_count points) = int (length inside)"
proof -
  let ?d = "rw_db w" and ?c = "timeseries_cutoff tw now" and ?b = "tw_bucket tw"
  let ?S = "generate_series (date_trunc ?b ?c) (date_trunc ?b now) (bucket_interval ?b)"
  let ?at = "\<lambda>x. filter (\<lambda>t. date_trunc ?b (rt_started_at t) = x) inside"
  have ex: "rollups_exact ?d" using reach_facts(2) [OF reach L] .
  have fits: "sums_fit (trace_sums (?at x))" for x
    unfolding inside by (intro sums_fit_filter fit) (use db_wfD(4) reach_facts(1) [OF reach L] in auto)
  have group: "rollup_sums_of (map snd (filter (\<lambda>p. date_trunc ?b (fst p) = x) (filter (\<lambda>p. fst p \<ge> ?c \<and> fst p \<le> now) (rd_rollups ?d)))) =
      Inr (trace_sums (?at x))" for x
    using rollup_sums_traces [OF ex, of "\<lambda>m. (?c \<le> m \<and> m \<le> now) \<and> date_trunc ?b m = x"] fits [of x]
    by (simp add: comp_def inside date_trunc_minute Let_def)
  define point where "point x = usage_point_of x (trace_sums (?at x))" for x
  define points where "points = map point ?S"
  have "map_res (\<lambda>x. bind_res (Inr (trace_sums (?at x))) (\<lambda>r. Inr (usage_point_of x r))) ?S = (Inr points :: ingest_error + usage_point list)"
    unfolding points_def by (rule map_res_ok) (simp add: bind_res_def point_def)
  then have run: "usage_timeseries since_hours bucket now ?d = Inr points"
    unfolding usage_timeseries_def q Let_def sum.case group by simp
  have key: "up_bucket (point x) = x" "up_request_count (point x) = int (length (?at x))" for x
    by (simp_all add: point_def usage_point_of_def trace_sums_def)
  have dist: "distinct ?S" by (rule generate_series_distinct) (rule bucket_interval_pos)
  have cover: "date_trunc ?b (rt_started_at t) \<in> set ?S" if "t \<in> set inside" for t
    using that generate_series_set [of ?c "minute_of (rt_started_at t)" now ?b] by (simp add: inside date_trunc_minute)
  have "sum_list (map up_request_count points) = sum_list (map (\<lambda>x. sum_list (map (\<lambda>_. 1) (?at x))) ?S)"
    by (simp add: points_def comp_def key sum_list_triv)
  also have "\<dots> = (\<Sum>x\<in>set ?S. sum_list (map (\<lambda>_. 1) (?at x)))" using dist by (simp add: sum_list_distinct_conv_sum_set)
  also have "\<dots> = sum_list (map (\<lambda>_. 1) (filter (\<lambda>t. date_trunc ?b (rt_started_at t) \<in> set ?S) inside))" by (rule sum_groups) simp
  also have "filter (\<lambda>t. date_trunc ?b (rt_started_at t) \<in> set ?S) inside = inside" using cover by (simp add: filter_id_conv)
  finally have "sum_list (map up_request_count points) = int (length inside)" by (simp add: sum_list_triv)
  moreover have "points \<noteq> [] \<and> up_bucket (hd points) = date_trunc ?b ?c \<and> up_bucket (List.last points) = date_trunc ?b now \<and>
      (\<forall>i. Suc i < length points \<longrightarrow> up_bucket (points ! Suc i) = up_bucket (points ! i) + bucket_interval ?b)"
    using generate_series_steps [OF bucket_interval_pos(1) date_trunc_mono [OF timeseries_past [OF q]] date_trunc_dvd refl]
    by (simp add: points_def key hd_map last_map)
  moreover have "\<forall>p\<in>set points. p = point (up_bucket p)" by (auto simp: points_def key)
  ultimately show ?thesis using run unfolding point_def by blast
qed

theorem usage_timeseries_exact_witness:
  "\<exists>w points. storage_reach demo_archive_lib demo_pg_config w \<and>
    usage_timeseries (Some 1) (Some ''minute'') 200000000 (rw_db w) = Inr points \<and> sum_list (map up_request_count points) = 1"
proof -
  obtain w where w: "storage_reach demo_archive_lib demo_pg_config w" "rd_traces (rw_db w) = [trace_row_of demo_taken_trace]"
    using demo_storage_reach by blast
  have fit: "sums_fit (trace_sums (rd_traces (rw_db w)))" unfolding w(2) demo_sums by (simp add: sums_fit_def i64_min_def i64_max_def)
  have q: "timeseries_from_query (Some 1) (Some ''minute'') = Inr \<lparr>tw_since_hours = 1, tw_bucket = Minute_bucket\<rparr>"
    by (simp add: timeseries_from_query_def parse_bucket_def unwrap_or_def trim_ascii byte_def ascii_lower_def bind_res_def
        bounded_hours_def clamp_def DEFAULT_HOURS_def)
  from usage_timeseries_exact [OF demo_archive_names w(1) q fit refl, of 200000000] w show ?thesis
    by (auto simp: demo_sums timeseries_cutoff_def hours_before_def minute_of_def)
qed

end
