(* ===== verification/LT_Metrics.thy ===== *)
theory LT_Metrics
  imports LT_Rotation LT_Journal LT_Memory LT_Http "HOL-Library.Word"
begin

text \<open>
  \<open>metrics.rs\<close> and \<open>health.rs\<close>: the process counters, the two views of them (the JSON document
  of the API and the text a Prometheus server scrapes) and the guarded endpoint. Every figure
  shown is the number of events that happened, both views agree, and the text parses back to
  the figures it was printed from.
\<close>

unbundle bit_operations_syntax

section \<open>Counters\<close>

text \<open>Times are microseconds since the epoch.\<close>

record retention_metrics =
  rn_runs :: "64 word"
  rn_failures :: "64 word"
  rn_last_success_at :: "int option"
  rn_last_failure_at :: "int option"
  rn_last_error :: "string option"
  rn_last_deleted :: retention_prune_result

record runtime_metrics =
  mx_traces_enqueued :: "64 word"
  mx_journal_written :: "64 word"
  mx_journal_dropped_full :: "64 word"
  mx_journal_write_failed :: "64 word"
  mx_journal_read_failed :: "64 word"
  mx_journal_ack_failed :: "64 word"
  mx_journal_retry :: "64 word"
  mx_journal_recovered :: "64 word"
  mx_traces_dropped_full :: "64 word"
  mx_traces_dropped_memory :: "64 word"
  mx_traces_dropped_closed :: "64 word"
  mx_trace_build_failures :: "64 word"
  mx_trace_persist_failures :: "64 word"
  mx_traces_persisted :: "64 word"
  mx_plugin_cache_hits :: "64 word"
  mx_plugin_cache_misses :: "64 word"
  mx_plugin_cache_stores :: "64 word"
  mx_retention :: retention_metrics

definition no_prune :: retention_prune_result where
  "no_prune = \<lparr>rp_request_traces = 0, rp_trace_rollups_minute = 0, rp_trace_sessions = 0, rp_ui_audit_events = 0,
    rp_ui_sessions = 0, rp_oauth_states = 0\<rparr>"

definition runtime_metrics_default :: runtime_metrics where
  "runtime_metrics_default =
    \<lparr>mx_traces_enqueued = 0, mx_journal_written = 0, mx_journal_dropped_full = 0, mx_journal_write_failed = 0,
     mx_journal_read_failed = 0, mx_journal_ack_failed = 0, mx_journal_retry = 0, mx_journal_recovered = 0,
     mx_traces_dropped_full = 0, mx_traces_dropped_memory = 0, mx_traces_dropped_closed = 0,
     mx_trace_build_failures = 0, mx_trace_persist_failures = 0, mx_traces_persisted = 0,
     mx_plugin_cache_hits = 0, mx_plugin_cache_misses = 0, mx_plugin_cache_stores = 0,
     mx_retention = \<lparr>rn_runs = 0, rn_failures = 0, rn_last_success_at = None, rn_last_failure_at = None,
       rn_last_error = None, rn_last_deleted = no_prune\<rparr>\<rparr>"

text \<open>\<open>u64::is_power_of_two\<close>: one bit is set.\<close>

definition is_power_of_two :: "64 word \<Rightarrow> bool" where
  "is_power_of_two w \<longleftrightarrow> length (filter (bit w) [0..<64]) = 1"

text \<open>Four of the methods tell the caller whether to log; \<open>journal_dropped_full\<close> logs itself.\<close>

definition journal_written :: "runtime_metrics \<Rightarrow> runtime_metrics" where
  "journal_written m = m\<lparr>mx_journal_written := mx_journal_written m + 1\<rparr>"

definition journal_dropped_full :: "runtime_metrics \<Rightarrow> bool \<times> runtime_metrics" where
  "journal_dropped_full m =
    (let dropped = mx_journal_dropped_full m + 1 in (is_power_of_two dropped, m\<lparr>mx_journal_dropped_full := dropped\<rparr>))"

definition journal_write_failed :: "runtime_metrics \<Rightarrow> bool \<times> runtime_metrics" where
  "journal_write_failed m =
    (let n = mx_journal_write_failed m + 1 in (is_power_of_two n, m\<lparr>mx_journal_write_failed := n\<rparr>))"

definition journal_read_failed :: "runtime_metrics \<Rightarrow> bool \<times> runtime_metrics" where
  "journal_read_failed m =
    (let n = mx_journal_read_failed m + 1 in (is_power_of_two n, m\<lparr>mx_journal_read_failed := n\<rparr>))"

definition journal_ack_failed :: "runtime_metrics \<Rightarrow> runtime_metrics" where
  "journal_ack_failed m = m\<lparr>mx_journal_ack_failed := mx_journal_ack_failed m + 1\<rparr>"

definition journal_retry :: "runtime_metrics \<Rightarrow> bool \<times> runtime_metrics" where
  "journal_retry m = (let n = mx_journal_retry m + 1 in (is_power_of_two n, m\<lparr>mx_journal_retry := n\<rparr>))"

definition journal_recovered :: "runtime_metrics \<Rightarrow> runtime_metrics" where
  "journal_recovered m = m\<lparr>mx_journal_recovered := mx_journal_recovered m + 1\<rparr>"

definition trace_dropped_memory :: "runtime_metrics \<Rightarrow> runtime_metrics" where
  "trace_dropped_memory m = m\<lparr>mx_traces_dropped_memory := mx_traces_dropped_memory m + 1\<rparr>"

definition trace_enqueued :: "runtime_metrics \<Rightarrow> runtime_metrics" where
  "trace_enqueued m = m\<lparr>mx_traces_enqueued := mx_traces_enqueued m + 1\<rparr>"

definition trace_dropped_full :: "runtime_metrics \<Rightarrow> runtime_metrics" where
  "trace_dropped_full m = m\<lparr>mx_traces_dropped_full := mx_traces_dropped_full m + 1\<rparr>"

definition trace_dropped_closed :: "runtime_metrics \<Rightarrow> runtime_metrics" where
  "trace_dropped_closed m = m\<lparr>mx_traces_dropped_closed := mx_traces_dropped_closed m + 1\<rparr>"

definition trace_build_failed :: "runtime_metrics \<Rightarrow> runtime_metrics" where
  "trace_build_failed m = m\<lparr>mx_trace_build_failures := mx_trace_build_failures m + 1\<rparr>"

definition trace_persist_failed :: "runtime_metrics \<Rightarrow> runtime_metrics" where
  "trace_persist_failed m = m\<lparr>mx_trace_persist_failures := mx_trace_persist_failures m + 1\<rparr>"

definition trace_persisted :: "runtime_metrics \<Rightarrow> runtime_metrics" where
  "trace_persisted m = m\<lparr>mx_traces_persisted := mx_traces_persisted m + 1\<rparr>"

definition plugin_cache_hit :: "runtime_metrics \<Rightarrow> runtime_metrics" where
  "plugin_cache_hit m = m\<lparr>mx_plugin_cache_hits := mx_plugin_cache_hits m + 1\<rparr>"

definition plugin_cache_miss :: "runtime_metrics \<Rightarrow> runtime_metrics" where
  "plugin_cache_miss m = m\<lparr>mx_plugin_cache_misses := mx_plugin_cache_misses m + 1\<rparr>"

definition plugin_cache_store :: "runtime_metrics \<Rightarrow> runtime_metrics" where
  "plugin_cache_store m = m\<lparr>mx_plugin_cache_stores := mx_plugin_cache_stores m + 1\<rparr>"

definition saturating_inc :: "64 word \<Rightarrow> 64 word" where
  "saturating_inc w = (if w = - 1 then w else w + 1)"

definition retention_succeeded :: "int \<Rightarrow> retention_prune_result \<Rightarrow> runtime_metrics \<Rightarrow> runtime_metrics" where
  "retention_succeeded now result m =
    (let r = mx_retention m in
     m\<lparr>mx_retention := r\<lparr>rn_runs := saturating_inc (rn_runs r), rn_last_success_at := Some now, rn_last_deleted := result\<rparr>\<rparr>)"

definition retention_failed :: "int \<Rightarrow> string \<Rightarrow> runtime_metrics \<Rightarrow> runtime_metrics" where
  "retention_failed now error m =
    (let r = mx_retention m in
     m\<lparr>mx_retention := r\<lparr>rn_failures := saturating_inc (rn_failures r), rn_last_failure_at := Some now, rn_last_error := Some error\<rparr>\<rparr>)"

section \<open>Gauges\<close>

record trace_queue_metrics =
  qm_capacity :: nat
  qm_available :: nat
  qm_depth :: nat
  qm_memory_limit_bytes :: nat
  qm_memory_used_bytes :: nat
  qm_journal :: journal_snapshot

definition no_journal :: journal_snapshot where
  "no_journal = \<lparr>js_enabled = False, js_pending_records = 0, js_pending_bytes = 0, js_max_bytes = 0, js_max_records = 0,
    js_quarantined_records = 0, js_quarantined_bytes = 0, js_oldest_pending_age_secs = 0, js_blocked_records = 0\<rparr>"

definition trace_queue_metrics_new :: "nat \<Rightarrow> nat \<Rightarrow> trace_queue_metrics" where
  "trace_queue_metrics_new capacity available =
    (let available = min available capacity in
     \<lparr>qm_capacity = capacity, qm_available = available, qm_depth = capacity - available,
      qm_memory_limit_bytes = 0, qm_memory_used_bytes = 0, qm_journal = no_journal\<rparr>)"

definition queue_metrics :: "nat \<Rightarrow> nat \<Rightarrow> memory_budget \<Rightarrow> journal_snapshot option \<Rightarrow> trace_queue_metrics" where
  "queue_metrics queue_capacity available memory journal =
    (trace_queue_metrics_new queue_capacity available)
      \<lparr>qm_memory_limit_bytes := unat (mb_limit memory), qm_memory_used_bytes := unat (mb_used memory),
       qm_journal := unwrap_or no_journal journal\<rparr>"

section \<open>The JSON view\<close>

definition jcount :: "64 word \<Rightarrow> json" where
  "jcount w = JNumber (PosInt (unat w))"

definition jnat :: "nat \<Rightarrow> json" where
  "jnat n = JNumber (PosInt n)"

definition jopt :: "('a \<Rightarrow> json) \<Rightarrow> 'a option \<Rightarrow> json" where
  "jopt f x = (case x of Some y \<Rightarrow> f y | None \<Rightarrow> JNull)"

text \<open>\<open>json!\<close> with literal keys: an object keeps its members sorted by name.\<close>

definition jobject :: "(string \<times> json) list \<Rightarrow> json" where
  "jobject kvs = JObject (bt_collect kvs)"

definition word_saturating_sub :: "64 word \<Rightarrow> 64 word \<Rightarrow> 64 word" where
  "word_saturating_sub a b = (if a < b then 0 else a - b)"

definition not_yet_durable :: "runtime_metrics \<Rightarrow> 64 word" where
  "not_yet_durable m =
    word_saturating_sub (word_saturating_sub (word_saturating_sub (mx_traces_enqueued m) (mx_journal_written m))
      (mx_journal_dropped_full m)) (mx_journal_write_failed m)"

definition trace_pipeline_json :: "runtime_metrics \<Rightarrow> trace_queue_metrics \<Rightarrow> (string \<times> json) list" where
  "trace_pipeline_json m q =
    [(''enqueued'', jcount (mx_traces_enqueued m)),
     (''persisted'', jcount (mx_traces_persisted m)),
     (''dropped_full'', jcount (mx_traces_dropped_full m)),
     (''dropped_memory'', jcount (mx_traces_dropped_memory m)),
     (''dropped_closed'', jcount (mx_traces_dropped_closed m)),
     (''build_failures'', jcount (mx_trace_build_failures m)),
     (''persist_failures'', jcount (mx_trace_persist_failures m)),
     (''queue_capacity'', jnat (qm_capacity q)),
     (''queue_available'', jnat (qm_available q)),
     (''queue_depth'', jnat (qm_depth q)),
     (''memory_limit_bytes'', jnat (qm_memory_limit_bytes q)),
     (''memory_used_bytes'', jnat (qm_memory_used_bytes q))]"

definition trace_journal_json :: "runtime_metrics \<Rightarrow> trace_queue_metrics \<Rightarrow> (string \<times> json) list" where
  "trace_journal_json m q =
    (let j = qm_journal q in
    [(''enabled'', JBool (js_enabled j)),
     (''acknowledgement'', JString ''background_fsync_after_response''),
     (''not_yet_durable'', jcount (if js_enabled j then not_yet_durable m else 0)),
     (''pending_records'', jnat (js_pending_records j)),
     (''pending_bytes'', jnat (js_pending_bytes j)),
     (''max_bytes'', jnat (js_max_bytes j)),
     (''max_records'', jnat (js_max_records j)),
     (''quarantined_records'', jnat (js_quarantined_records j)),
     (''quarantined_bytes'', jnat (js_quarantined_bytes j)),
     (''oldest_pending_age_secs'', jnat (js_oldest_pending_age_secs j)),
     (''blocked_records'', jnat (js_blocked_records j)),
     (''written'', jcount (mx_journal_written m)),
     (''dropped_full'', jcount (mx_journal_dropped_full m)),
     (''write_failed'', jcount (mx_journal_write_failed m)),
     (''read_failed'', jcount (mx_journal_read_failed m)),
     (''ack_failed'', jcount (mx_journal_ack_failed m)),
     (''retry'', jcount (mx_journal_retry m)),
     (''recovered'', jcount (mx_journal_recovered m))])"

definition retention_json :: "(int \<Rightarrow> string) \<Rightarrow> retention_metrics \<Rightarrow> (string \<times> json) list" where
  "retention_json show_time r =
    (let d = rn_last_deleted r in
    [(''runs'', jcount (rn_runs r)),
     (''failures'', jcount (rn_failures r)),
     (''last_success_at'', jopt (JString \<circ> show_time) (rn_last_success_at r)),
     (''last_failure_at'', jopt (JString \<circ> show_time) (rn_last_failure_at r)),
     (''last_error'', jopt JString (rn_last_error r)),
     (''last_deleted'', jobject
       [(''request_traces'', jnat (rp_request_traces d)),
        (''trace_rollups_minute'', jnat (rp_trace_rollups_minute d)),
        (''trace_sessions'', jnat (rp_trace_sessions d)),
        (''ui_audit_events'', jnat (rp_ui_audit_events d)),
        (''ui_sessions'', jnat (rp_ui_sessions d)),
        (''oauth_states'', jnat (rp_oauth_states d)),
        (''total'', jnat (total_deleted d))])])"

definition metrics_snapshot :: "(int \<Rightarrow> string) \<Rightarrow> trace_queue_metrics \<Rightarrow> runtime_metrics \<Rightarrow> json" where
  "metrics_snapshot show_time q m =
    jobject
      [(''trace_pipeline'', jobject (trace_pipeline_json m q)),
       (''trace_journal'', jobject (trace_journal_json m q)),
       (''plugins'', jobject [(''cache'', jobject
          [(''hits'', jcount (mx_plugin_cache_hits m)),
           (''misses'', jcount (mx_plugin_cache_misses m)),
           (''stores'', jcount (mx_plugin_cache_stores m))])]),
       (''retention'', jobject (retention_json show_time (mx_retention m)))]"

section \<open>The text view\<close>

record runtime_counters =
  ct_traces_enqueued :: "64 word"
  ct_traces_dropped_full :: "64 word"
  ct_traces_dropped_closed :: "64 word"
  ct_trace_build_failures :: "64 word"
  ct_trace_persist_failures :: "64 word"
  ct_traces_persisted :: "64 word"
  ct_plugin_cache_hits :: "64 word"
  ct_plugin_cache_misses :: "64 word"
  ct_plugin_cache_stores :: "64 word"

definition counters_of :: "runtime_metrics \<Rightarrow> runtime_counters" where
  "counters_of m =
    \<lparr>ct_traces_enqueued = mx_traces_enqueued m, ct_traces_dropped_full = mx_traces_dropped_full m,
     ct_traces_dropped_closed = mx_traces_dropped_closed m, ct_trace_build_failures = mx_trace_build_failures m,
     ct_trace_persist_failures = mx_trace_persist_failures m, ct_traces_persisted = mx_traces_persisted m,
     ct_plugin_cache_hits = mx_plugin_cache_hits m, ct_plugin_cache_misses = mx_plugin_cache_misses m,
     ct_plugin_cache_stores = mx_plugin_cache_stores m\<rparr>"

datatype metric_kind = Counter_kind | Gauge_kind

fun kind_text :: "metric_kind \<Rightarrow> string" where
  "kind_text Counter_kind = ''counter''"
| "kind_text Gauge_kind = ''gauge''"

type_synonym metric = "metric_kind \<times> string \<times> string \<times> nat"

abbreviation newline :: string where
  "newline \<equiv> [char_of (10 :: nat)]"

definition push_metric :: "metric \<Rightarrow> string \<Rightarrow> string" where
  "push_metric = (\<lambda>(kind, name, help, figure) output.
    output @ ''# HELP '' @ name @ '' '' @ help @ newline @
    ''# TYPE '' @ name @ '' '' @ kind_text kind @ newline @
    name @ '' '' @ show_nat figure @ newline)"

text \<open>Seconds since the epoch; a time before it does not convert.\<close>

definition timestamp_seconds :: "int option \<Rightarrow> nat" where
  "timestamp_seconds t = (case t of None \<Rightarrow> 0 | Some t \<Rightarrow> if t div 1000000 < 0 then 0 else nat (t div 1000000))"

definition journal_figures :: "trace_queue_metrics \<Rightarrow> runtime_metrics \<Rightarrow> metric list" where
  "journal_figures q m =
    [(Counter_kind, ''llmtrace_journal_written_total'',
      ''Process lifetime journal written count.'', unat (mx_journal_written m)),
     (Counter_kind, ''llmtrace_journal_dropped_full_total'',
      ''Process lifetime journal dropped full count.'', unat (mx_journal_dropped_full m)),
     (Counter_kind, ''llmtrace_journal_write_failed_total'',
      ''Process lifetime journal write failed count.'', unat (mx_journal_write_failed m)),
     (Counter_kind, ''llmtrace_journal_read_failed_total'',
      ''Process lifetime journal read failed count.'', unat (mx_journal_read_failed m)),
     (Counter_kind, ''llmtrace_journal_ack_failed_total'',
      ''Process lifetime journal ack failed count.'', unat (mx_journal_ack_failed m)),
     (Counter_kind, ''llmtrace_journal_retry_total'',
      ''Process lifetime journal retry count.'', unat (mx_journal_retry m)),
     (Counter_kind, ''llmtrace_journal_recovered_total'',
      ''Process lifetime journal recovered count.'', unat (mx_journal_recovered m)),
     (Gauge_kind, ''llmtrace_journal_pending_records'',
      ''Capture journal pending records.'', js_pending_records (qm_journal q)),
     (Gauge_kind, ''llmtrace_journal_pending_bytes'',
      ''Capture journal pending bytes.'', js_pending_bytes (qm_journal q)),
     (Gauge_kind, ''llmtrace_journal_max_bytes'',
      ''Capture journal max bytes.'', js_max_bytes (qm_journal q)),
     (Gauge_kind, ''llmtrace_journal_max_records'',
      ''Capture journal max records.'', js_max_records (qm_journal q)),
     (Gauge_kind, ''llmtrace_journal_quarantined_records'',
      ''Capture journal quarantined records.'', js_quarantined_records (qm_journal q)),
     (Gauge_kind, ''llmtrace_journal_quarantined_bytes'',
      ''Capture journal quarantined bytes.'', js_quarantined_bytes (qm_journal q)),
     (Gauge_kind, ''llmtrace_journal_oldest_pending_age_secs'',
      ''Capture journal oldest pending age secs.'', js_oldest_pending_age_secs (qm_journal q)),
     (Gauge_kind, ''llmtrace_journal_blocked_records'',
      ''Capture journal blocked records.'', js_blocked_records (qm_journal q)),
     (Gauge_kind, ''llmtrace_journal_enabled'',
      ''Whether asynchronous durable capture is enabled.'', of_bool (js_enabled (qm_journal q)))]"

definition pipeline_figures :: "trace_queue_metrics \<Rightarrow> runtime_metrics \<Rightarrow> metric list" where
  "pipeline_figures q m =
    (let counters = counters_of m in
     [(Counter_kind, ''llmtrace_trace_pipeline_dropped_memory_total'',
      ''Trace events dropped because the memory budget was full.'', unat (mx_traces_dropped_memory m)),
     (Gauge_kind, ''llmtrace_trace_pipeline_memory_limit_bytes'',
      ''Memory budget for captured events queued or being processed.'', qm_memory_limit_bytes q),
     (Gauge_kind, ''llmtrace_trace_pipeline_memory_used_bytes'',
      ''Estimated captured event allocations queued or being processed; excludes processing scratch space and live captures.'', qm_memory_used_bytes q),
     (Counter_kind, ''llmtrace_trace_pipeline_enqueued_total'',
      ''Trace events accepted by the bounded background queue.'', unat (ct_traces_enqueued counters)),
     (Counter_kind, ''llmtrace_trace_pipeline_persisted_total'',
      ''Trace events successfully persisted.'', unat (ct_traces_persisted counters)),
     (Counter_kind, ''llmtrace_trace_pipeline_dropped_full_total'',
      ''Trace events dropped because the bounded background queue was full.'', unat (ct_traces_dropped_full counters)),
     (Counter_kind, ''llmtrace_trace_pipeline_dropped_closed_total'',
      ''Trace events dropped because the background queue was closed.'', unat (ct_traces_dropped_closed counters)),
     (Counter_kind, ''llmtrace_trace_pipeline_build_failures_total'',
      ''Trace events that failed during parse, redaction, compression, or plugin processing.'', unat (ct_trace_build_failures counters)),
     (Counter_kind, ''llmtrace_trace_pipeline_persist_failures_total'',
      ''Trace events that failed during database persistence.'', unat (ct_trace_persist_failures counters)),
     (Counter_kind, ''llmtrace_plugin_cache_hits_total'',
      ''Plugin cache reads served before the entry expired.'', unat (ct_plugin_cache_hits counters)),
     (Counter_kind, ''llmtrace_plugin_cache_misses_total'',
      ''Plugin cache reads that found no live entry.'', unat (ct_plugin_cache_misses counters)),
     (Counter_kind, ''llmtrace_plugin_cache_stores_total'',
      ''Values accepted into the plugin cache.'', unat (ct_plugin_cache_stores counters)),
     (Gauge_kind, ''llmtrace_trace_pipeline_queue_capacity'',
      ''Configured capacity of the bounded trace pipeline queue.'', qm_capacity q),
     (Gauge_kind, ''llmtrace_trace_pipeline_queue_available'',
      ''Currently available slots in the bounded trace pipeline queue.'', qm_available q),
     (Gauge_kind, ''llmtrace_trace_pipeline_queue_depth'',
      ''Current number of events waiting in the bounded trace pipeline queue.'', qm_depth q)])"

definition retention_figures :: "retention_metrics \<Rightarrow> metric list" where
  "retention_figures retention =
    [(Counter_kind, ''llmtrace_retention_runs_total'',
      ''Successful retention prune runs.'', unat (rn_runs retention)),
     (Counter_kind, ''llmtrace_retention_failures_total'',
      ''Failed retention prune runs.'', unat (rn_failures retention)),
     (Gauge_kind, ''llmtrace_retention_last_success_timestamp_seconds'',
      ''Unix timestamp of the most recent successful retention prune run, or 0 if none.'', timestamp_seconds (rn_last_success_at retention)),
     (Gauge_kind, ''llmtrace_retention_last_failure_timestamp_seconds'',
      ''Unix timestamp of the most recent failed retention prune run, or 0 if none.'', timestamp_seconds (rn_last_failure_at retention)),
     (Gauge_kind, ''llmtrace_retention_last_deleted_total'',
      ''Rows deleted by the most recent successful retention prune run.'', total_deleted (rn_last_deleted retention)),
     (Gauge_kind, ''llmtrace_retention_last_deleted_request_traces'',
      ''Request trace rows deleted by the most recent successful retention prune run.'', rp_request_traces (rn_last_deleted retention)),
     (Gauge_kind, ''llmtrace_retention_last_deleted_trace_rollups_minute'',
      ''Minute rollup rows deleted by the most recent successful retention prune run.'', rp_trace_rollups_minute (rn_last_deleted retention)),
     (Gauge_kind, ''llmtrace_retention_last_deleted_trace_sessions'',
      ''Trace session rows deleted by the most recent successful retention prune run.'', rp_trace_sessions (rn_last_deleted retention)),
     (Gauge_kind, ''llmtrace_retention_last_deleted_ui_audit_events'',
      ''UI audit event rows deleted by the most recent successful retention prune run.'', rp_ui_audit_events (rn_last_deleted retention)),
     (Gauge_kind, ''llmtrace_retention_last_deleted_ui_sessions'',
      ''Expired UI session rows deleted by the most recent successful retention prune run.'', rp_ui_sessions (rn_last_deleted retention)),
     (Gauge_kind, ''llmtrace_retention_last_deleted_oauth_states'',
      ''Expired OAuth state rows deleted by the most recent successful retention prune run.'', rp_oauth_states (rn_last_deleted retention))]"

definition pool_figures :: "nat \<Rightarrow> nat \<Rightarrow> metric list" where
  "pool_figures db_pool_size db_pool_idle =
    [(Gauge_kind, ''llmtrace_db_pool_size'',
      ''Current number of database connections managed by the pool.'', db_pool_size),
     (Gauge_kind, ''llmtrace_db_pool_idle'',
      ''Current number of idle database connections in the pool.'', db_pool_idle)]"

definition exported_metrics :: "nat \<Rightarrow> nat \<Rightarrow> trace_queue_metrics \<Rightarrow> runtime_metrics \<Rightarrow> metric list" where
  "exported_metrics db_pool_size db_pool_idle q m =
    journal_figures q m @ pipeline_figures q m @ retention_figures (mx_retention m) @ pool_figures db_pool_size db_pool_idle"

definition prometheus_text :: "nat \<Rightarrow> nat \<Rightarrow> trace_queue_metrics \<Rightarrow> runtime_metrics \<Rightarrow> string" where
  "prometheus_text db_pool_size db_pool_idle q m = fold push_metric (exported_metrics db_pool_size db_pool_idle q m) []"

section \<open>Health endpoints\<close>

record reply =
  hp_status :: nat
  hp_headers :: "(string \<times> string) list"
  hp_body :: "string + json"

definition SERVICE_NAME :: string where
  "SERVICE_NAME = ''llmtrace''"

definition healthz :: "string \<Rightarrow> json" where
  "healthz version = jobject [(''service'', JString SERVICE_NAME), (''status'', JString ''ok''), (''version'', JString version)]"

definition readiness_payload :: "string \<Rightarrow> string \<Rightarrow> string \<Rightarrow> json" where
  "readiness_payload version status postgres =
    jobject [(''service'', JString SERVICE_NAME), (''status'', JString status), (''version'', JString version),
      (''checks'', jobject [(''postgres'', JString postgres)])]"

text \<open>The outcome of \<open>SELECT 1\<close>, or none within the time allowed; an error carries its text.\<close>

definition READINESS_CHECK_TIMEOUT :: nat where
  "READINESS_CHECK_TIMEOUT = 2000"

definition readiness_check_with_timeout :: "(string + unit) option \<Rightarrow> nat \<Rightarrow> string + unit" where
  "readiness_check_with_timeout outcome millis =
    (case outcome of Some result \<Rightarrow> result | None \<Rightarrow> Inl (''readiness check timed out after '' @ show_nat millis @ '' ms''))"

definition readiness_check :: "(string + unit) option \<Rightarrow> string + unit" where
  "readiness_check outcome = readiness_check_with_timeout outcome READINESS_CHECK_TIMEOUT"

definition readyz :: "string \<Rightarrow> (string + unit) option \<Rightarrow> reply" where
  "readyz version outcome =
    (case readiness_check outcome of
       Inr _ \<Rightarrow> \<lparr>hp_status = 200, hp_headers = [], hp_body = Inr (readiness_payload version ''ready'' ''ok'')\<rparr>
     | Inl _ \<Rightarrow> \<lparr>hp_status = 503, hp_headers = [], hp_body = Inr (readiness_payload version ''not_ready'' ''unavailable'')\<rparr>)"

definition byte_at :: "string \<Rightarrow> nat \<Rightarrow> 64 word" where
  "byte_at s i = (if i < length s then word_of_nat (of_char (s ! i)) else 0)"

definition constant_time_eq :: "string \<Rightarrow> string \<Rightarrow> bool" where
  "constant_time_eq left right =
    (let max_len = max (length left) (length right);
         diff = word_of_nat (length left) XOR word_of_nat (length right) :: 64 word
     in fold (\<lambda>i diff. diff OR (byte_at left i XOR byte_at right i)) [0..<max_len] diff = 0)"

definition bearer_token_authorized :: "web_lib \<Rightarrow> headers \<Rightarrow> string \<Rightarrow> bool" where
  "bearer_token_authorized W headers expected_token =
    (case Option.bind (header_get headers ''authorization'') (hv_to_str W) of
       None \<Rightarrow> False
     | Some header \<Rightarrow>
         (case strip_prefix ''Bearer '' header of
            None \<Rightarrow> False
          | Some token \<Rightarrow> constant_time_eq token expected_token))"

definition metrics_unauthorized_response :: reply where
  "metrics_unauthorized_response =
    \<lparr>hp_status = 401, hp_headers = [(''content-type'', ''text/plain; charset=utf-8''), (''www-authenticate'', ''Bearer'')],
     hp_body = Inl ''metrics authentication required''\<rparr>"

definition metrics_endpoint ::
  "web_lib \<Rightarrow> string option \<Rightarrow> headers \<Rightarrow> nat \<Rightarrow> nat \<Rightarrow> trace_queue_metrics \<Rightarrow> runtime_metrics \<Rightarrow> reply" where
  "metrics_endpoint W metrics_bearer_token headers pool_size pool_idle q m =
    (let guarded = (case metrics_bearer_token of None \<Rightarrow> False | Some expected \<Rightarrow> \<not> bearer_token_authorized W headers expected)
     in if guarded then metrics_unauthorized_response
        else \<lparr>hp_status = 200, hp_headers = [(''content-type'', ''text/plain; version=0.0.4; charset=utf-8'')],
               hp_body = Inl (prometheus_text pool_size pool_idle q m)\<rparr>)"

section \<open>Words\<close>

lemma word_or_zero: "(a :: 64 word) OR b = 0 \<longleftrightarrow> a = 0 \<and> b = 0"
  by (auto simp: bit_eq_iff bit_or_iff)

lemma word_xor_zero: "(a :: 64 word) XOR b = 0 \<longleftrightarrow> a = b"
  by (auto simp: bit_eq_iff bit_xor_iff)

lemma fold_or_zero: "fold (\<lambda>i d. d OR f i) xs (d :: 64 word) = 0 \<longleftrightarrow> d = 0 \<and> (\<forall>x\<in>set xs. f x = 0)"
  by (induction xs arbitrary: d) (auto simp: word_or_zero)

lemma unat_small: "n < 2 ^ 64 \<Longrightarrow> unat (word_of_nat n :: 64 word) = n"
  by (simp add: unsigned_of_nat take_bit_nat_eq_self_iff)

lemma unat_power: "k < 64 \<Longrightarrow> unat (2 ^ k :: 64 word) = 2 ^ k"
  using unat_small [of "2 ^ k"] power_strict_increasing [of k 64 "2 :: nat"] by simp

lemma byte_word_inj: "(word_of_nat (of_char c) :: 64 word) = word_of_nat (of_char d) \<longleftrightarrow> c = d"
proof
  assume "(word_of_nat (of_char c) :: 64 word) = word_of_nat (of_char d)"
  moreover have "of_char c < (2 :: nat) ^ 64" "of_char d < (2 :: nat) ^ 64" 
    by (rule order_less_trans [OF nat_of_char_less_256]; simp)+
  ultimately have "of_char c = (of_char d :: nat)" using unat_small by metis
  then show "c = d" by (simp add: of_char_eq_iff)
qed simp

lemma constant_time_eq_iff:
  assumes "length left < 2 ^ 64" "length right < 2 ^ 64"
  shows "constant_time_eq left right \<longleftrightarrow> left = right"
proof -
  have len: "(word_of_nat (length left) :: 64 word) = word_of_nat (length right) \<longleftrightarrow> length left = length right"
    using unat_small [OF assms(1)] unat_small [OF assms(2)] by metis
  show ?thesis
  proof (cases "length left = length right")
    case True
    have "constant_time_eq left right \<longleftrightarrow> (\<forall>i<length left. left ! i = right ! i)"
      using True unfolding constant_time_eq_def Let_def fold_or_zero word_xor_zero len
      by (auto simp: byte_at_def byte_word_inj)
    then show ?thesis using True by (auto intro: nth_equalityI)
  next
    case False
    then have "\<not> constant_time_eq left right"
      unfolding constant_time_eq_def Let_def fold_or_zero word_xor_zero len by simp
    then show ?thesis using False by auto
  qed
qed

text \<open>One set bit is a power of two.\<close>

lemma is_power_of_two_iff: "is_power_of_two w \<longleftrightarrow> (\<exists>k. unat w = 2 ^ k)"
proof
  assume "is_power_of_two w"
  then obtain k where k: "filter (bit w) [0..<64] = [k]" unfolding is_power_of_two_def by (auto simp: length_Suc_conv)
  have one: "n < 64 \<and> bit w n \<longleftrightarrow> n = k" for n
  proof -
    have "n \<in> set (filter (bit w) [0..<64]) \<longleftrightarrow> n = k" unfolding k by simp
    then show ?thesis by auto
  qed
  have "w = 2 ^ k" by (rule bit_word_eqI) (use one in \<open>auto simp: bit_simps\<close>)
  moreover have "k < 64" using one [of k] by simp
  ultimately have "unat w = 2 ^ k" by (simp add: unat_power)
  then show "\<exists>k. unat w = 2 ^ k" ..
next
  assume "\<exists>k. unat w = 2 ^ k"
  then obtain k where k: "unat w = 2 ^ k" by blast
  then have "(2 :: nat) ^ k < 2 ^ 64" using unat_lt_64 [of w] by simp
  then have lt: "k < 64" by (simp only: power_strict_increasing_iff)
  have "w = 2 ^ k" using k unat_power [OF lt] by (metis word_unat_eq_iff)
  then have "bit w n \<longleftrightarrow> n = k" if "n < 64" for n using that by (auto simp: bit_simps)
  then have "{n. bit w n} \<inter> set [0..<64] = {k}" using lt by auto
  then show "is_power_of_two w" by (simp add: is_power_of_two_def distinct_length_filter)
qed

section \<open>Warnings\<close>

text \<open>How many of \<open>n\<close> rejected captures are logged.\<close>

fun drop_warnings :: "nat \<Rightarrow> runtime_metrics \<Rightarrow> nat" where
  "drop_warnings 0 m = 0"
| "drop_warnings (Suc n) m = (case journal_dropped_full m of (logged, m') \<Rightarrow> of_bool logged + drop_warnings n m')"

lemma drop_warnings_count:
  assumes "unat (mx_journal_dropped_full m) + n < 2 ^ 64"
  shows "drop_warnings n m = card {k. unat (mx_journal_dropped_full m) < 2 ^ k \<and> 2 ^ k \<le> unat (mx_journal_dropped_full m) + n}"
  using assms
proof (induction n arbitrary: m)
  case 0
  have "{k. unat (mx_journal_dropped_full m) < 2 ^ k \<and> 2 ^ k \<le> unat (mx_journal_dropped_full m)} = {}" by auto
  then show ?case by (simp only: add_0_right drop_warnings.simps card.empty)
next
  case (Suc n)
  let ?d = "unat (mx_journal_dropped_full m)" and ?m = "m\<lparr>mx_journal_dropped_full := mx_journal_dropped_full m + 1\<rparr>"
  have succ: "unat (mx_journal_dropped_full ?m) = Suc ?d" using Suc.prems by (simp add: unat_word_ariths)
  have fin: "finite {k :: nat. 2 ^ k \<le> b}" for b :: nat
    by (rule finite_subset [of _ "{..b}"]) (auto intro: order_trans [OF less_imp_le [OF less_exp]])
  let ?rest = "{k. Suc ?d < 2 ^ k \<and> 2 ^ k \<le> Suc ?d + n}"
  have split: "{k. ?d < 2 ^ k \<and> 2 ^ k \<le> ?d + Suc n} = {k. 2 ^ k = Suc ?d} \<union> ?rest" by (auto simp: Suc_le_eq [symmetric])
  have "card {k :: nat. 2 ^ k = Suc ?d} = of_bool (is_power_of_two (mx_journal_dropped_full m + 1))"
  proof (cases "\<exists>k. Suc ?d = 2 ^ k")
    case True
    then obtain k where k: "Suc ?d = 2 ^ k" by blast
    then have "{j :: nat. 2 ^ j = Suc ?d} = {k}" by auto
    moreover have "is_power_of_two (mx_journal_dropped_full m + 1)" unfolding is_power_of_two_iff using succ k by auto
    ultimately show ?thesis by simp
  next
    case False
    then have "{j :: nat. 2 ^ j = Suc ?d} = {}" by (auto dest: sym)
    moreover have "\<not> is_power_of_two (mx_journal_dropped_full m + 1)" unfolding is_power_of_two_iff using succ False by simp
    ultimately show ?thesis by simp
  qed
  moreover have "card ({k :: nat. 2 ^ k = Suc ?d} \<union> ?rest) = card {k :: nat. 2 ^ k = Suc ?d} + card ?rest"
    by (rule card_Un_disjoint) (auto intro: finite_subset [OF _ fin [of "Suc ?d + n"]])
  moreover have "drop_warnings n ?m = card ?rest" using Suc.IH [of ?m] Suc.prems succ by simp
  ultimately show ?case unfolding split by (simp add: journal_dropped_full_def Let_def)
qed

section \<open>Reading the text back\<close>

lemmas figures = exported_metrics_def journal_figures_def pipeline_figures_def retention_figures_def pool_figures_def counters_of_def Let_def

abbreviation nl :: char where
  "nl \<equiv> char_of (10 :: nat)"

definition read_metric :: "string \<Rightarrow> string \<Rightarrow> string \<Rightarrow> (string \<times> string \<times> string \<times> nat) option" where
  "read_metric h t v =
    (case (Option.bind (strip_prefix ''# HELP '' h) (split_once (CHR '' '')), Option.bind (strip_prefix ''# TYPE '' t) (split_once (CHR '' '')),
       split_once (CHR '' '') v) of
       (Some (name, help), Some (name', kind), Some (name'', digits)) \<Rightarrow>
         if name' = name \<and> name'' = name \<and> digits \<noteq> [] \<and> list_all is_digit digits then Some (name, kind, help, digits_value digits) else None
     | _ \<Rightarrow> None)"

fun read_lines :: "string list \<Rightarrow> (string \<times> string \<times> string \<times> nat) list option" where
  "read_lines [[]] = Some []"
| "read_lines (h # t # v # rest) =
    (case read_metric h t v of None \<Rightarrow> None | Some x \<Rightarrow> map_option (Cons x) (read_lines rest))"
| "read_lines _ = None"

definition read_exposition :: "string \<Rightarrow> (string \<times> string \<times> string \<times> nat) list option" where
  "read_exposition text = read_lines (split_on nl text)"

definition metric_plain :: "metric \<Rightarrow> bool" where
  "metric_plain = (\<lambda>(kind, name, help, figure). CHR '' '' \<notin> set name \<and> nl \<notin> set name \<and> nl \<notin> set help)"

lemma split_on_line: "c \<notin> set a \<Longrightarrow> split_on c (a @ c # b) = a # split_on c b"
proof (induction a)
  case (Cons x a)
  then show ?case by (cases "split_on c (a @ c # b)") auto
qed simp

lemma split_once_line: "c \<notin> set a \<Longrightarrow> split_once c (a @ c # b) = Some (a, b)"
  by (induction a) auto

lemma strip_prefix_append: "strip_prefix p (p @ s) = Some s"
  by (simp add: strip_prefix_def)

lemma read_pushed:
  assumes "metric_plain (kind, name, help, figure)"
  shows "read_lines (split_on nl (push_metric (kind, name, help, figure) [] @ rest)) =
    map_option (Cons (name, kind_text kind, help, figure)) (read_lines (split_on nl rest))"
proof -
  have name: "CHR '' '' \<notin> set name" "nl \<notin> set name" "nl \<notin> set help" using assms by (simp_all add: metric_plain_def)
  have digits: "show_nat figure \<noteq> []" "list_all is_digit (show_nat figure)" "digits_value (show_nat figure) = figure"
    using show_nat_digits [of figure] by simp_all
  have "nl \<notin> set (show_nat figure)"
  proof
    assume "nl \<in> set (show_nat figure)"
    then have "is_digit nl" using digits(2) by (auto simp: list_all_iff)
    then show False by (simp add: is_digit_def byte_def)
  qed
  moreover have "nl \<notin> set (kind_text kind)" by (cases kind) (simp_all add: char_of_def bit_0)
  moreover have "nl \<notin> set ''# HELP ''" "nl \<notin> set ''# TYPE ''" "nl \<notin> set '' ''" by (simp_all add: char_of_def bit_0)
  ultimately have clean: "nl \<notin> set (''# HELP '' @ name @ '' '' @ help)" "nl \<notin> set (''# TYPE '' @ name @ '' '' @ kind_text kind)"
    "nl \<notin> set (name @ '' '' @ show_nat figure)" using name unfolding set_append by blast+
  have lines: "push_metric (kind, name, help, figure) [] @ rest =
      (''# HELP '' @ name @ '' '' @ help) @ nl # (''# TYPE '' @ name @ '' '' @ kind_text kind) @ nl # (name @ '' '' @ show_nat figure) @ nl # rest"
    by (simp add: push_metric_def)
  have "read_metric (''# HELP '' @ name @ '' '' @ help) (''# TYPE '' @ name @ '' '' @ kind_text kind) (name @ '' '' @ show_nat figure) =
      Some (name, kind_text kind, help, figure)"
    unfolding read_metric_def strip_prefix_append using digits split_once_line [OF name(1)] by simp
  then show ?thesis unfolding lines split_on_line [OF clean(1)] split_on_line [OF clean(2)] split_on_line [OF clean(3)] by simp
qed

lemma push_metric_append: "push_metric x out = out @ push_metric x []"
  by (cases x) (simp add: push_metric_def)

lemma fold_push_metric: "fold push_metric xs out = out @ concat (map (\<lambda>x. push_metric x []) xs)"
proof (induction xs arbitrary: out)
  case (Cons x xs)
  show ?case unfolding fold_simps Cons.IH by (subst push_metric_append) simp
qed simp

lemma read_pushed_all:
  "list_all metric_plain xs \<Longrightarrow> read_lines (split_on nl (concat (map (\<lambda>x. push_metric x []) xs))) =
    Some (map (\<lambda>(kind, name, help, figure). (name, kind_text kind, help, figure)) xs)"
proof (induction xs)
  case (Cons x xs)
  then show ?case using read_pushed [of "fst x" "fst (snd x)" "fst (snd (snd x))" "snd (snd (snd x))" "concat (map (\<lambda>x. push_metric x []) xs)"]
    by (simp add: case_prod_unfold)
qed simp

lemma exported_plain: "list_all metric_plain (exported_metrics a b q m)"
  by (simp add: figures metric_plain_def char_of_def bit_0)

lemma exported_names_distinct: "distinct (map (fst \<circ> snd) (exported_metrics a b q m))"
  by (simp add: figures)

section \<open>What the figures count\<close>

datatype counter_event =
    Journal_written
  | Journal_dropped_full
  | Journal_write_failed
  | Journal_read_failed
  | Journal_ack_failed
  | Journal_retry
  | Journal_recovered
  | Trace_dropped_memory
  | Trace_enqueued
  | Trace_dropped_full
  | Trace_dropped_closed
  | Trace_build_failed
  | Trace_persist_failed
  | Trace_persisted
  | Plugin_cache_hit
  | Plugin_cache_miss
  | Plugin_cache_store

fun count_event :: "counter_event \<Rightarrow> runtime_metrics \<Rightarrow> runtime_metrics" where
  "count_event Journal_written m = journal_written m"
| "count_event Journal_dropped_full m = snd (journal_dropped_full m)"
| "count_event Journal_write_failed m = snd (journal_write_failed m)"
| "count_event Journal_read_failed m = snd (journal_read_failed m)"
| "count_event Journal_ack_failed m = journal_ack_failed m"
| "count_event Journal_retry m = snd (journal_retry m)"
| "count_event Journal_recovered m = journal_recovered m"
| "count_event Trace_dropped_memory m = trace_dropped_memory m"
| "count_event Trace_enqueued m = trace_enqueued m"
| "count_event Trace_dropped_full m = trace_dropped_full m"
| "count_event Trace_dropped_closed m = trace_dropped_closed m"
| "count_event Trace_build_failed m = trace_build_failed m"
| "count_event Trace_persist_failed m = trace_persist_failed m"
| "count_event Trace_persisted m = trace_persisted m"
| "count_event Plugin_cache_hit m = plugin_cache_hit m"
| "count_event Plugin_cache_miss m = plugin_cache_miss m"
| "count_event Plugin_cache_store m = plugin_cache_store m"

text \<open>Everything that happens to the counters of a process.\<close>

datatype metric_event =
    Count counter_event
  | Retention_succeeded int retention_prune_result
  | Retention_failed int string

fun apply_event :: "metric_event \<Rightarrow> runtime_metrics \<Rightarrow> runtime_metrics" where
  "apply_event (Count e) m = count_event e m"
| "apply_event (Retention_succeeded now result) m = retention_succeeded now result m"
| "apply_event (Retention_failed now error) m = retention_failed now error m"

definition metrics_after :: "metric_event list \<Rightarrow> runtime_metrics" where
  "metrics_after es = fold apply_event es runtime_metrics_default"

fun counter :: "counter_event \<Rightarrow> runtime_metrics \<Rightarrow> 64 word" where
  "counter Journal_written m = mx_journal_written m"
| "counter Journal_dropped_full m = mx_journal_dropped_full m"
| "counter Journal_write_failed m = mx_journal_write_failed m"
| "counter Journal_read_failed m = mx_journal_read_failed m"
| "counter Journal_ack_failed m = mx_journal_ack_failed m"
| "counter Journal_retry m = mx_journal_retry m"
| "counter Journal_recovered m = mx_journal_recovered m"
| "counter Trace_dropped_memory m = mx_traces_dropped_memory m"
| "counter Trace_enqueued m = mx_traces_enqueued m"
| "counter Trace_dropped_full m = mx_traces_dropped_full m"
| "counter Trace_dropped_closed m = mx_traces_dropped_closed m"
| "counter Trace_build_failed m = mx_trace_build_failures m"
| "counter Trace_persist_failed m = mx_trace_persist_failures m"
| "counter Trace_persisted m = mx_traces_persisted m"
| "counter Plugin_cache_hit m = mx_plugin_cache_hits m"
| "counter Plugin_cache_miss m = mx_plugin_cache_misses m"
| "counter Plugin_cache_store m = mx_plugin_cache_stores m"

text \<open>The name in the text and the path in the document under which each counter is shown.\<close>

definition counter_table :: "(counter_event \<times> string \<times> string list) list" where
  "counter_table =
    [(Journal_written, ''llmtrace_journal_written_total'', [''trace_journal'', ''written'']),
     (Journal_dropped_full, ''llmtrace_journal_dropped_full_total'', [''trace_journal'', ''dropped_full'']),
     (Journal_write_failed, ''llmtrace_journal_write_failed_total'', [''trace_journal'', ''write_failed'']),
     (Journal_read_failed, ''llmtrace_journal_read_failed_total'', [''trace_journal'', ''read_failed'']),
     (Journal_ack_failed, ''llmtrace_journal_ack_failed_total'', [''trace_journal'', ''ack_failed'']),
     (Journal_retry, ''llmtrace_journal_retry_total'', [''trace_journal'', ''retry'']),
     (Journal_recovered, ''llmtrace_journal_recovered_total'', [''trace_journal'', ''recovered'']),
     (Trace_dropped_memory, ''llmtrace_trace_pipeline_dropped_memory_total'', [''trace_pipeline'', ''dropped_memory'']),
     (Trace_enqueued, ''llmtrace_trace_pipeline_enqueued_total'', [''trace_pipeline'', ''enqueued'']),
     (Trace_dropped_full, ''llmtrace_trace_pipeline_dropped_full_total'', [''trace_pipeline'', ''dropped_full'']),
     (Trace_dropped_closed, ''llmtrace_trace_pipeline_dropped_closed_total'', [''trace_pipeline'', ''dropped_closed'']),
     (Trace_build_failed, ''llmtrace_trace_pipeline_build_failures_total'', [''trace_pipeline'', ''build_failures'']),
     (Trace_persist_failed, ''llmtrace_trace_pipeline_persist_failures_total'', [''trace_pipeline'', ''persist_failures'']),
     (Trace_persisted, ''llmtrace_trace_pipeline_persisted_total'', [''trace_pipeline'', ''persisted'']),
     (Plugin_cache_hit, ''llmtrace_plugin_cache_hits_total'', [''plugins'', ''cache'', ''hits'']),
     (Plugin_cache_miss, ''llmtrace_plugin_cache_misses_total'', [''plugins'', ''cache'', ''misses'']),
     (Plugin_cache_store, ''llmtrace_plugin_cache_stores_total'', [''plugins'', ''cache'', ''stores''])]"

lemmas counting = journal_written_def journal_dropped_full_def journal_write_failed_def journal_read_failed_def journal_ack_failed_def journal_retry_def journal_recovered_def trace_dropped_memory_def trace_enqueued_def trace_dropped_full_def trace_dropped_closed_def trace_build_failed_def trace_persist_failed_def trace_persisted_def plugin_cache_hit_def plugin_cache_miss_def plugin_cache_store_def Let_def

lemma counter_step: "counter e (count_event e' m) = counter e m + of_bool (e = e')"
  by (cases e'; simp add: counting; cases e; simp)

lemma counter_retention: "counter e (retention_succeeded now result m) = counter e m" "counter e (retention_failed now error m) = counter e m"
  by (cases e; simp add: retention_succeeded_def retention_failed_def Let_def)+

lemma counter_fold: "counter e (fold apply_event es m) = counter e m + word_of_nat (count_list es (Count e))"
proof (induction es arbitrary: m)
  case (Cons x es)
  show ?case by (cases x) (simp_all add: Cons.IH counter_step counter_retention)
qed simp

lemma counter_exact: "unat (counter e (metrics_after es)) = count_list es (Count e) mod 2 ^ 64"
proof -
  have "counter e runtime_metrics_default = 0" by (cases e) (simp_all add: runtime_metrics_default_def)
  then have "counter e (metrics_after es) = word_of_nat (count_list es (Count e))" by (simp add: metrics_after_def counter_fold)
  then show ?thesis by (simp add: unsigned_of_nat take_bit_eq_mod)
qed

lemma table_exported:
  "list_all (\<lambda>(e, name, p). \<exists>help. (Counter_kind, name, help, unat (counter e m)) \<in> set (exported_metrics a b q m)) counter_table"
  by (simp add: counter_table_def figures)

lemma jobject_step: "json_step (jobject kvs) k = map_of (rev kvs) k"
  by (simp add: jobject_def bt_collect_last)

lemma table_snapshot:
  "list_all (\<lambda>(e, name, p). json_pointer (metrics_snapshot show_time q m) p = Some (JNumber (PosInt (unat (counter e m))))) counter_table"
  by (simp add: counter_table_def metrics_snapshot_def jobject_step trace_pipeline_json_def trace_journal_json_def jcount_def Let_def)

text \<open>The two counters of retention runs stop at the largest number instead of wrapping.\<close>

fun run_succeeded :: "metric_event \<Rightarrow> bool" where
  "run_succeeded (Retention_succeeded now result) = True"
| "run_succeeded _ = False"

fun run_failed :: "metric_event \<Rightarrow> bool" where
  "run_failed (Retention_failed now error) = True"
| "run_failed _ = False"

definition retention_table :: "metric_event list \<Rightarrow> (string \<times> string list \<times> nat) list" where
  "retention_table es =
    [(''llmtrace_retention_runs_total'', [''retention'', ''runs''], min (2 ^ 64 - 1) (length (filter run_succeeded es))),
     (''llmtrace_retention_failures_total'', [''retention'', ''failures''], min (2 ^ 64 - 1) (length (filter run_failed es)))]"

lemma unat_bound: "unat (w :: 64 word) < 2 ^ 64"
  by (rule order_less_le_trans [OF unsigned_less]) simp

lemma unat_saturating_inc: "unat (saturating_inc w) = min (2 ^ 64 - 1) (unat w + 1)"
proof (cases "w = - 1")
  case True
  then show ?thesis by (simp add: saturating_inc_def unsigned_minus_1_eq_mask mask_eq_exp_minus_1)
next
  case False
  have "unat (- 1 :: 64 word) = 2 ^ 64 - 1" by (simp add: unsigned_minus_1_eq_mask mask_eq_exp_minus_1)
  then have "unat w \<noteq> 2 ^ 64 - 1" using False by (metis word_unat_eq_iff)
  moreover have "unat w < 2 ^ 64" by (rule unat_bound)
  ultimately have "unat w + 1 < 2 ^ 64" by linarith
  then show ?thesis using False by (simp add: saturating_inc_def unat_word_ariths)
qed

lemma retention_step:
  "unat (rn_runs (mx_retention (apply_event e m))) = min (2 ^ 64 - 1) (unat (rn_runs (mx_retention m)) + of_bool (run_succeeded e))"
  "unat (rn_failures (mx_retention (apply_event e m))) = min (2 ^ 64 - 1) (unat (rn_failures (mx_retention m)) + of_bool (run_failed e))"
proof -
  have top: "min 18446744073709551615 (unat (w :: 64 word)) = unat w" for w using unat_bound [of w] by simp
  have count: "mx_retention (count_event c m) = mx_retention m" for c by (cases c) (simp_all add: counting)
  show "unat (rn_runs (mx_retention (apply_event e m))) = min (2 ^ 64 - 1) (unat (rn_runs (mx_retention m)) + of_bool (run_succeeded e))"
    by (cases e) (simp_all add: count top retention_succeeded_def retention_failed_def Let_def unat_saturating_inc)
  show "unat (rn_failures (mx_retention (apply_event e m))) = min (2 ^ 64 - 1) (unat (rn_failures (mx_retention m)) + of_bool (run_failed e))"
    by (cases e) (simp_all add: count top retention_succeeded_def retention_failed_def Let_def unat_saturating_inc)
qed

lemma retention_exact:
  "unat (rn_runs (mx_retention (metrics_after es))) = min (2 ^ 64 - 1) (length (filter run_succeeded es))"
  "unat (rn_failures (mx_retention (metrics_after es))) = min (2 ^ 64 - 1) (length (filter run_failed es))"
proof -
  have "unat (rn_runs (mx_retention (metrics_after es))) = min (2 ^ 64 - 1) (length (filter run_succeeded es)) \<and>
    unat (rn_failures (mx_retention (metrics_after es))) = min (2 ^ 64 - 1) (length (filter run_failed es))"
    unfolding metrics_after_def
  proof (induction es rule: rev_induct)
    case Nil
    show ?case by (simp add: runtime_metrics_default_def)
  next
    case (snoc e es)
    have add: "min a (min a k + j) = min a (k + j)" for a k j :: nat by simp
    show ?case using snoc retention_step [of e "fold apply_event es runtime_metrics_default"]
      by (simp only: fold_append fold_simps comp_apply filter_append length_append add) (simp only: filter.simps; simp)
  qed
  then show "unat (rn_runs (mx_retention (metrics_after es))) = min (2 ^ 64 - 1) (length (filter run_succeeded es))"
    "unat (rn_failures (mx_retention (metrics_after es))) = min (2 ^ 64 - 1) (length (filter run_failed es))" by simp_all
qed

lemma retention_exported:
  "list_all (\<lambda>(name, p, figure). \<exists>help. (Counter_kind, name, help, figure) \<in> set (exported_metrics a b q (metrics_after es)))
    (retention_table es)"
  by (simp add: retention_table_def figures retention_exact)

lemma retention_snapshot:
  "list_all (\<lambda>(name, p, figure). json_pointer (metrics_snapshot show_time q (metrics_after es)) p = Some (JNumber (PosInt figure)))
    (retention_table es)"
  by (simp add: retention_table_def metrics_snapshot_def jobject_step retention_json_def jcount_def Let_def retention_exact)

lemma counters_exported:
  "set (map (fst \<circ> snd) (filter (\<lambda>x. fst x = Counter_kind) (exported_metrics a b q m))) =
    set (map (fst \<circ> snd) counter_table) \<union> set (map fst (retention_table es))"
  by (simp add: counter_table_def retention_table_def figures insert_commute)

text \<open>C39: the figures are the numbers of events, in both views. Whatever sequence of events a
  process has seen, the text for Prometheus reads back as a list of metrics with different names.
  Those of the kind counter are the seventeen event counters, each the number of its events modulo
  two to the 64, and the two counters of retention runs, the numbers of successful and of failed
  runs up to the largest 64-bit number. The document of the API shows the same numbers at the
  paths of the counters.
\<close>

theorem metrics_views_exact:
  assumes "m = metrics_after es"
  shows "\<exists>ms. read_exposition (prometheus_text pool_size pool_idle q m) = Some ms \<and> distinct (map fst ms) \<and>
    {name. \<exists>help figure. (name, ''counter'', help, figure) \<in> set ms} =
      set (map (fst \<circ> snd) counter_table) \<union> set (map fst (retention_table es)) \<and>
    (\<forall>(e, name, p)\<in>set counter_table.
      (\<exists>help. map_of ms name = Some (''counter'', help, count_list es (Count e) mod 2 ^ 64)) \<and>
      json_pointer (metrics_snapshot show_time q m) p = Some (JNumber (PosInt (count_list es (Count e) mod 2 ^ 64)))) \<and>
    (\<forall>(name, p, figure)\<in>set (retention_table es).
      (\<exists>help. map_of ms name = Some (''counter'', help, figure)) \<and>
      json_pointer (metrics_snapshot show_time q m) p = Some (JNumber (PosInt figure)))"
proof -
  let ?x = "exported_metrics pool_size pool_idle q m"
  define ms where "ms = map (\<lambda>(kind, name, help, figure). (name, kind_text kind, help, figure)) ?x"
  have read: "read_exposition (prometheus_text pool_size pool_idle q m) = Some ms"
    unfolding read_exposition_def prometheus_text_def fold_push_metric ms_def append_Nil by (rule read_pushed_all [OF exported_plain])
  have "map fst ms = map (fst \<circ> snd) ?x" by (simp add: ms_def case_prod_unfold)
  then have dist: "distinct (map fst ms)" using exported_names_distinct by simp
  have figure: "unat (counter e m) = count_list es (Count e) mod 2 ^ 64" for e unfolding assms by (rule counter_exact)
  have found: "\<exists>help. map_of ms name = Some (''counter'', help, v)" if ex: "\<exists>h. (Counter_kind, name, h, v) \<in> set ?x" for name v
  proof -
    obtain h where "(Counter_kind, name, h, v) \<in> set ?x" using ex by blast
    then have "(name, ''counter'', h, v) \<in> set ms" unfolding ms_def by force
    then show ?thesis using dist by (auto intro: map_of_is_SomeI)
  qed
  have shown: "\<exists>help. map_of ms name = Some (''counter'', help, unat (counter e m))" if t: "(e, name, p) \<in> set counter_table" for e name p
    by (rule found) (use table_exported [of m pool_size pool_idle q] t in \<open>unfold list_all_iff, fast\<close>)
  have runs: "(\<exists>help. map_of ms name = Some (''counter'', help, v)) \<and>
      json_pointer (metrics_snapshot show_time q m) p = Some (JNumber (PosInt v))" if t: "(name, p, v) \<in> set (retention_table es)" for name p v
  proof
    show "\<exists>help. map_of ms name = Some (''counter'', help, v)"
      by (rule found) (use retention_exported [of pool_size pool_idle q es] t assms in \<open>unfold list_all_iff, fast\<close>)
    show "json_pointer (metrics_snapshot show_time q m) p = Some (JNumber (PosInt v))"
      using retention_snapshot [of show_time q es] t assms unfolding list_all_iff by fast
  qed
  have kind: "kind_text k = ''counter'' \<longleftrightarrow> k = Counter_kind" for k by (cases k) simp_all
  have "{name. \<exists>help figure. (name, ''counter'', help, figure) \<in> set ms} =
      set (map (fst \<circ> snd) (filter (\<lambda>x. fst x = Counter_kind) ?x))"
    unfolding ms_def by (force simp: kind [symmetric])
  then have all: "{name. \<exists>help figure. (name, ''counter'', help, figure) \<in> set ms} =
      set (map (fst \<circ> snd) counter_table) \<union> set (map fst (retention_table es))" unfolding counters_exported [of _ _ _ _ es] .
  have path: "json_pointer (metrics_snapshot show_time q m) p = Some (JNumber (PosInt (unat (counter e m))))" if "(e, name, p) \<in> set counter_table" for e name p
    using table_snapshot [of show_time q m] that unfolding list_all_iff by fast
  have "\<forall>(e, name, p)\<in>set counter_table.
      (\<exists>help. map_of ms name = Some (''counter'', help, unat (counter e m))) \<and>
      json_pointer (metrics_snapshot show_time q m) p = Some (JNumber (PosInt (unat (counter e m))))"
    using shown path by blast
  then show ?thesis using read dist all runs unfolding figure by blast
qed

text \<open>C40: a scrape needs the token. With a metrics token configured, the endpoint answers with the
  text exactly when the authorization header is the word Bearer, a space and that token; any other
  request gets the same fixed refusal, whatever the state of the process. Tokens are shorter than
  the address space.
\<close>

theorem metrics_endpoint_guarded:
  assumes "length token < 2 ^ 64"
    and "\<And>v. Option.bind (header_get headers ''authorization'') (hv_to_str W) = Some v \<Longrightarrow> length v < 2 ^ 64"
  shows "metrics_endpoint W (Some token) headers pool_size pool_idle q m =
    (if Option.bind (header_get headers ''authorization'') (hv_to_str W) = Some (''Bearer '' @ token)
     then metrics_endpoint W None headers pool_size pool_idle q m else metrics_unauthorized_response)"
proof -
  have "bearer_token_authorized W headers token \<longleftrightarrow>
      Option.bind (header_get headers ''authorization'') (hv_to_str W) = Some (''Bearer '' @ token)"
  proof (cases "Option.bind (header_get headers ''authorization'') (hv_to_str W)")
    case None
    then show ?thesis by (simp add: bearer_token_authorized_def)
  next
    case (Some v)
    show ?thesis
    proof (cases "prefix ''Bearer '' v")
      case True
      then obtain t where t: "v = ''Bearer '' @ t" by (auto simp: prefix_def)
      then have "length t < 2 ^ 64" using assms(2) [OF Some] by simp
      then show ?thesis using t Some constant_time_eq_iff [OF _ assms(1)]
        by (simp add: bearer_token_authorized_def strip_prefix_def)
    next
      case False
      then have "v \<noteq> ''Bearer '' @ token" by (metis prefixI)
      then show ?thesis using False Some by (simp add: bearer_token_authorized_def strip_prefix_def)
    qed
  qed
  then show ?thesis by (simp add: metrics_endpoint_def)
qed

text \<open>A full journal does not flood the log. Of any number of captures that a full journal
  rejects, those that are logged are the first, the second, the fourth and so on: as many as there
  are powers of two up to that number.
\<close>

theorem rejected_captures_logged:
  assumes "n < 2 ^ 64"
  shows "drop_warnings n runtime_metrics_default = card {k. 2 ^ k \<le> n}"
proof -
  have "{k. 0 < (2 :: nat) ^ k \<and> 2 ^ k \<le> n} = {k. 2 ^ k \<le> n}" by auto
  then show ?thesis using drop_warnings_count [of runtime_metrics_default n] assms by (simp add: runtime_metrics_default_def)
qed

theorem metrics_views_exact_witness:
  "\<exists>ms. read_exposition (prometheus_text 5 4 (queue_metrics 8 6 (mb_new 100) None)
      (metrics_after [Count Trace_enqueued, Retention_failed 0 ''secret'', Count Trace_enqueued])) = Some ms \<and>
    (\<exists>h. map_of ms ''llmtrace_trace_pipeline_enqueued_total'' = Some (''counter'', h, 2)) \<and>
    (\<exists>h. map_of ms ''llmtrace_retention_failures_total'' = Some (''counter'', h, 1))"
proof -
  let ?es = "[Count Trace_enqueued, Retention_failed 0 ''secret'', Count Trace_enqueued]"
  have f: "(''llmtrace_retention_failures_total'', [''retention'', ''failures''], 1) \<in> set (retention_table ?es)"
    by (simp add: retention_table_def)
  have t: "(Trace_enqueued, ''llmtrace_trace_pipeline_enqueued_total'', [''trace_pipeline'', ''enqueued'']) \<in> set counter_table"
    by (simp add: counter_table_def)
  have n: "count_list [Count Trace_enqueued, Retention_failed 0 ''secret'', Count Trace_enqueued] (Count Trace_enqueued) mod 2 ^ 64 = 2" by simp
  obtain ms where ms: "read_exposition (prometheus_text 5 4 (queue_metrics 8 6 (mb_new 100) None) (metrics_after ?es)) = Some ms"
    and c: "\<forall>(e, name, p)\<in>set counter_table. (\<exists>h. map_of ms name = Some (''counter'', h, count_list ?es (Count e) mod 2 ^ 64)) \<and>
      json_pointer (metrics_snapshot (\<lambda>_. []) (queue_metrics 8 6 (mb_new 100) None) (metrics_after ?es)) p =
        Some (JNumber (PosInt (count_list ?es (Count e) mod 2 ^ 64)))"
    and r: "\<forall>(name, p, figure)\<in>set (retention_table ?es). (\<exists>h. map_of ms name = Some (''counter'', h, figure)) \<and>
      json_pointer (metrics_snapshot (\<lambda>_. []) (queue_metrics 8 6 (mb_new 100) None) (metrics_after ?es)) p = Some (JNumber (PosInt figure))"
    using metrics_views_exact [OF refl, of 5 4 "queue_metrics 8 6 (mb_new 100) None" ?es "\<lambda>_. []"] by (elim exE conjE) rule
  from bspec [OF c t] bspec [OF r f] show ?thesis unfolding prod.case n using ms by blast
qed

definition ascii_web_lib :: web_lib where
  "ascii_web_lib = (demo_web [])\<lparr>hv_to_str := Some\<rparr>"

theorem metrics_endpoint_guarded_witness:
  "hp_status (metrics_endpoint ascii_web_lib (Some ''abc'') [(''authorization'', ''Bearer abc'')] 5 4
      (queue_metrics 8 6 (mb_new 100) None) runtime_metrics_default) = 200 \<and>
   hp_status (metrics_endpoint ascii_web_lib (Some ''abc'') [(''authorization'', ''Bearer abcd'')] 5 4
      (queue_metrics 8 6 (mb_new 100) None) runtime_metrics_default) = 401"
  using metrics_endpoint_guarded [of "''abc''" "[(''authorization'', ''Bearer abc'')]" ascii_web_lib 5 4 "queue_metrics 8 6 (mb_new 100) None" runtime_metrics_default]
    metrics_endpoint_guarded [of "''abc''" "[(''authorization'', ''Bearer abcd'')]" ascii_web_lib 5 4 "queue_metrics 8 6 (mb_new 100) None" runtime_metrics_default]
  by (simp add: header_get_def to_ascii_lowercase_def ascii_lower_def byte_def ascii_web_lib_def metrics_unauthorized_response_def)
    (simp add: metrics_endpoint_def)

theorem rejected_captures_logged_witness:
  "drop_warnings 5 runtime_metrics_default = card {k. 2 ^ k \<le> (5 :: nat)}"
  using rejected_captures_logged [of 5] by simp

end
