(* ===== verification/LT_Admin.thy ===== *)
theory LT_Admin
  imports LT_Auth LT_Analytics
begin

text \<open>
  \<open>storage/audit.rs\<close>: the views of the sessions of the interface and of the audit events.
  Sessions are listed by the digest of their identifier; what is listed can be revoked, and a
  revoked session is refused from then on. Times are in nanoseconds, as in \<open>LT_Auth\<close>; audit
  rows are kept in the order of their serial identifiers.
\<close>

section \<open>Sessions of the interface\<close>

text \<open>The collation of the database orders the digests.\<close>

definition LIST_UI_SESSIONS_SQL ::
  "read_lib \<Rightarrow> auth_env \<Rightarrow> int \<Rightarrow> bool \<Rightarrow> (string \<times> session_row) list \<Rightarrow> (string \<times> session_row) list" where
  "LIST_UI_SESSIONS_SQL R E now include_expired sessions =
    sort_key (\<lambda>(i, row). (- sr_expires_at row, - sr_created_at row, rl_collate R (session_hash E i)))
      (filter (\<lambda>(i, row). include_expired \<or> sr_expires_at row > now) sessions)"

definition list_ui_sessions ::
  "read_lib \<Rightarrow> auth_env \<Rightarrow> int \<Rightarrow> bool \<Rightarrow> int option \<Rightarrow> int option \<Rightarrow> auth_state \<Rightarrow> json list \<times> page_info" where
  "list_ui_sessions R E now include_expired limit offset s =
    (case paged (page_from_query limit offset) (LIST_UI_SESSIONS_SQL R E now include_expired (as_sessions s)) of
       (rows, p) \<Rightarrow> (map (ui_session_row E now) rows, p))"

section \<open>Audit events\<close>

definition list_audit_events ::
  "string option \<Rightarrow> string option \<Rightarrow> int option \<Rightarrow> int option \<Rightarrow> auth_state \<Rightarrow> (nat \<times> audit_row) list \<times> page_info" where
  "list_audit_events event_type user_id limit offset s =
    paged (page_from_query limit offset)
      (rev (sort_key (\<lambda>(i, r). (ar_created_at r, i))
        (filter (\<lambda>(i, r). sql_given event_type (\<lambda>t. ar_event_type r = t) \<and> sql_given user_id (\<lambda>u. ar_user_id r = Some u))
          (enumerate 1 (as_audit s)))))"

record audit_summary_row =
  asr_event_count :: int
  asr_user_count :: int
  asr_remote_addr_count :: int
  asr_first_seen_at :: "int option"
  asr_last_seen_at :: "int option"

definition audit_columns :: "audit_row list \<Rightarrow> audit_summary_row" where
  "audit_columns rs =
    \<lparr>asr_event_count = int (length rs), asr_user_count = int (card (set (present (map ar_user_id rs)))),
     asr_remote_addr_count = int (card (set (present (map ar_remote_addr rs)))),
     asr_first_seen_at = sql_min (map (Some \<circ> ar_created_at) rs), asr_last_seen_at = sql_max (map (Some \<circ> ar_created_at) rs)\<rparr>"

definition audit_groups :: "read_lib \<Rightarrow> (audit_row \<Rightarrow> string) \<Rightarrow> int \<Rightarrow> audit_row list \<Rightarrow> (string \<times> audit_summary_row) list" where
  "audit_groups R key limit rs =
    sql_limit limit 0 (sort_key (\<lambda>(name, c). (- asr_event_count c, rl_collate R name))
      (map (\<lambda>(name, g). (name, audit_columns g)) (group_rows key rs)))"

record audit_summary_view =
  av_totals :: audit_summary_row
  av_event_types :: "(string \<times> audit_summary_row) list"
  av_top_users :: "(string \<times> audit_summary_row) list"
  av_top_remote_addrs :: "(string \<times> audit_summary_row) list"

definition audit_window :: "int \<Rightarrow> int \<Rightarrow> audit_row list \<Rightarrow> audit_row list" where
  "audit_window now since_hours rs = filter (\<lambda>r. ar_created_at r \<ge> now - hours since_hours) rs"

definition audit_summary :: "read_lib \<Rightarrow> int option \<Rightarrow> int option \<Rightarrow> int \<Rightarrow> auth_state \<Rightarrow> audit_summary_view" where
  "audit_summary R since_hours limit now s =
    (let w = resolve_window TOP_N_WINDOW since_hours limit; rs = audit_window now (wi_since_hours w) (as_audit s) in
     \<lparr>av_totals = audit_columns rs,
      av_event_types = audit_groups R ar_event_type (wi_limit w) rs,
      av_top_users = audit_groups R (or_unknown \<circ> ar_user_id) (wi_limit w) rs,
      av_top_remote_addrs = audit_groups R (or_unknown \<circ> ar_remote_addr) (wi_limit w) rs\<rparr>)"

section \<open>Listed, revoked, refused\<close>

text \<open>What the code relies on: the hexadecimal digest of a string is 64 lower-case digits.\<close>

definition digest_hex :: "auth_env \<Rightarrow> bool" where
  "digest_hex E \<longleftrightarrow> (\<forall>i. length (session_hash E i) = 64 \<and>
    list_all (\<lambda>c. hex_value c \<noteq> None \<and> 32 < byte c \<and> byte c < 128 \<and> ascii_lower c = c) (session_hash E i))"

lemma normalize_digest:
  assumes "digest_hex E"
  shows "normalize_ui_session_hash (session_hash E i) = Inr (session_hash E i)"
proof -
  let ?h = "session_hash E i"
  have h: "length ?h = 64" "list_all (\<lambda>c. hex_value c \<noteq> None \<and> 32 < byte c \<and> byte c < 128 \<and> ascii_lower c = c) ?h"
    using assms by (simp_all add: digest_hex_def)
  have "trim ?h = ?h" by (rule trim_ascii) (use h(2) in \<open>auto simp: list_all_iff\<close>)
  moreover have "list_all (\<lambda>c. hex_value c \<noteq> None) ?h" using h(2) by (auto simp: list_all_iff)
  moreover have "to_ascii_lowercase ?h = ?h" unfolding to_ascii_lowercase_def by (rule map_idI) (use h(2) in \<open>auto simp: list_all_iff\<close>)
  ultimately show ?thesis using h(1) by (simp add: normalize_ui_session_hash_def UI_SESSION_HASH_BYTES_def)
qed

lemma listed_rows: "x \<in> set (fst (list_ui_sessions R E now ie l off s)) \<Longrightarrow>
    \<exists>i row. (i, row) \<in> set (as_sessions s) \<and> x = ui_session_row E now (i, row)"
proof -
  assume "x \<in> set (fst (list_ui_sessions R E now ie l off s))"
  then obtain p where "p \<in> set (fst (paged (page_from_query l off) (LIST_UI_SESSIONS_SQL R E now ie (as_sessions s))))"
    "x = ui_session_row E now p"
    by (auto simp: list_ui_sessions_def split: prod.splits)
  moreover from this(1) have "p \<in> set (LIST_UI_SESSIONS_SQL R E now ie (as_sessions s))"
    by (auto simp: paged_def sql_limit_def Let_def dest!: in_set_takeD in_set_dropD)
  ultimately show ?thesis by (cases p) (auto simp: LIST_UI_SESSIONS_SQL_def)
qed

text \<open>C30: a session an administrator sees can be ended, and stays ended. Whatever happened
  before, an admitted administrator who revokes a listed session by the digest shown for it gets
  as answer the row of a session with that digest that was stored, and an audit event of the
  administrator names the digest; when the audit event cannot be written, the answer is the same.
  No later request with a cookie of that digest is admitted, whatever requests come in between,
  as long as no later login is granted the very same identifier, and every other session remains.
\<close>

theorem listed_session_revoked:
  assumes d: "digest_hex E" and s: "s = auth_run E rs"
    and x: "x \<in> set (fst (list_ui_sessions R E now include_expired limit offset s))" "json_get x ''session_hash'' = Some (JString h)"
    and admin: "require_auth E m ''DELETE'' headers s = Proceed admin" and db: "mo_session_db m = Committed"
    and r: "revoke_ui_session E m headers h s = (response, s')"
  shows "auth_response.rs_status response = 200 \<and>
    (\<exists>i row. map_of (as_sessions s) i = Some row \<and> session_hash E i = h \<and>
      rs_body response = JObject [(''revoked'', JBool True), (''session'', ui_session_row E (mo_now m) (i, row))]) \<and>
    (if took_effect (mo_audit m)
     then \<exists>a. as_audit s' = as_audit s @ [a] \<and> ar_event_type a = ''ui_session_revoked'' \<and>
       ar_user_id a = Some (me_user_id admin) \<and> ar_detail a = JObject [(''session_hash'', JString h)]
     else as_audit s' = as_audit s) \<and>
    (\<forall>k. map_of (as_sessions s') k = (if session_hash E k = h then None else map_of (as_sessions s) k)) \<and>
    (\<forall>later m' meth headers' u k. session_cookie E headers' = Some k \<and> session_hash E k = h \<and>
      (\<forall>pre q post. later = pre @ q # post \<longrightarrow> map_option fst (session_granted E (foldl (auth_step E) s' pre) q) \<noteq> Some k) \<longrightarrow>
      require_auth E m' meth headers' (foldl (auth_step E) s' later) \<noteq> Proceed u)"
proof -
  obtain i row where i: "(i, row) \<in> set (as_sessions s)" "x = ui_session_row E now (i, row)" using listed_rows [OF x(1)] by blast
  have h: "h = session_hash E i" using x(2) i(2) by (simp add: ui_session_row_def)
  have norm: "normalize_ui_session_hash h = Inr h" unfolding h by (rule normalize_digest [OF d])
  have "filter (\<lambda>p. session_hash E (fst p) = h) (as_sessions s) \<noteq> []" using i(1) h by (force simp: filter_empty_conv)
  then obtain p ps where p: "filter (\<lambda>p. session_hash E (fst p) = h) (as_sessions s) = p # ps" by (meson neq_Nil_conv)
  let ?kept = "filter (\<lambda>p. session_hash E (fst p) \<noteq> h) (as_sessions s)"
  have s': "response = json_response 200 (JObject [(''revoked'', JBool True), (''session'', ui_session_row E (mo_now m) p)])" "s' = record_ui_audit_event m ''ui_session_revoked'' (Some (me_user_id admin))
      (JObject [(''session_hash'', JString h)]) (s\<lparr>as_sessions := ?kept\<rparr>)"
    using r unfolding revoke_ui_session_def admin guard_result.case norm sum.case REVOKE_UI_SESSION_SQL_def p
    by (auto simp: db)
  have wf: "hm_wf (as_sessions s)"
    using sess.wf_run [of auth_empty E rs] unfolding s auth_run_def by (simp add: auth_empty_tables auth_wf_def)
  have tables: "map_of (as_sessions s') k = (if session_hash E k = h then None else map_of (as_sessions s) k)" for k
    using map_of_filter [OF wf, of "\<lambda>p. session_hash E (fst p) \<noteq> h" k]
    by (simp add: s'(2) record_ui_audit_event_def split: option.splits)
  have "p \<in> set (filter (\<lambda>p. session_hash E (fst p) = h) (as_sessions s))" unfolding p by simp
  then have row: "map_of (as_sessions s) (fst p) = Some (snd p)" "session_hash E (fst p) = h"
    using wf by (auto simp: map_of_is_SomeI)
  then have answer: "\<exists>i row. map_of (as_sessions s) i = Some row \<and> session_hash E i = h \<and>
      rs_body response = JObject [(''revoked'', JBool True), (''session'', ui_session_row E (mo_now m) (i, row))]"
    unfolding s'(1) by (intro exI [of _ "fst p"] exI [of _ "snd p"]) (simp add: json_response_def)
  have "auth_wf s" using sess.wf_run [of auth_empty E rs] unfolding s auth_run_def by (simp add: auth_empty_tables)
  then have wf': "auth_wf s'" by (simp add: s'(2) record_ui_audit_event_def auth_wf_def hm_filter_wf)
  have gone: "require_auth E m' meth headers' (foldl (auth_step E) s' later) \<noteq> Proceed u"
    if "session_cookie E headers' = Some k" "session_hash E k = h"
      "\<forall>pre q post. later = pre @ q # post \<longrightarrow> map_option fst (session_granted E (foldl (auth_step E) s' pre) q) \<noteq> Some k"
    for later m' meth headers' u k
  proof -
    have "map_of (as_sessions (foldl (auth_step E) s' later)) k = None"
      by (rule sess.absent_stays [OF wf']) (use that tables [of k] in auto)
    then show ?thesis using that(1) by (auto simp: require_auth_def current_user_def split: if_splits)
  qed
  have audit: "if took_effect (mo_audit m)
     then \<exists>a. as_audit s' = as_audit s @ [a] \<and> ar_event_type a = ''ui_session_revoked'' \<and>
       ar_user_id a = Some (me_user_id admin) \<and> ar_detail a = JObject [(''session_hash'', JString h)]
     else as_audit s' = as_audit s"
    by (simp add: s'(2) record_ui_audit_event_def)
  have "auth_response.rs_status response = 200" by (simp add: s'(1) json_response_def)
  then show ?thesis using answer audit tables gone by blast
qed

lemma map_insort_key: "map f (insort_key (\<lambda>x. k (f x)) x xs) = insort_key k (f x) (map f xs)"
  by (induction xs) simp_all

lemma map_sort_key: "map f (sort_key (\<lambda>x. k (f x)) xs) = sort_key k (map f xs)"
  by (induction xs) (simp_all add: map_insort_key)

text \<open>The list of sessions does not give away an identifier that would admit a request. Two
  tables whose rows agree in everything but the identifiers, and whose identifiers have the same
  digests, give the same list.
\<close>

theorem session_list_by_digest:
  assumes "list_all2 (\<lambda>p p'. session_hash E (fst p) = session_hash E (fst p') \<and> snd p = snd p') (as_sessions s) (as_sessions s')"
  shows "list_ui_sessions R E now include_expired limit offset s = list_ui_sessions R E now include_expired limit offset s'"
proof -
  let ?shown = "\<lambda>p. (session_hash E (fst p), snd p :: session_row)"
  let ?key = "\<lambda>(h, row). (- sr_expires_at row, - sr_created_at row, rl_collate R h)"
  let ?row = "\<lambda>(h, row). JObject
    [(''created_at'', JString (ae_show_time E (sr_created_at row))), (''display_name'', JString (sr_display_name row)),
     (''expired'', JBool (sr_expires_at row \<le> now)), (''expires_at'', JString (ae_show_time E (sr_expires_at row))),
     (''expires_in_secs'', JNumber (PosInt (seconds_until now (sr_expires_at row)))),
     (''login_method'', JString (sr_login_method row)), (''session_hash'', JString h), (''user_id'', JString (sr_user_id row))]"
  have same: "map ?shown (as_sessions s) = map ?shown (as_sessions s')"
    using assms by (simp add: list_eq_iff_nth_eq list_all2_conv_all_nth)
  have sql: "map ?shown (LIST_UI_SESSIONS_SQL R E now include_expired xs) =
      sort_key ?key (filter (\<lambda>(h, row). include_expired \<or> sr_expires_at row > now) (map ?shown xs))" for xs
    using map_sort_key [where f = ?shown and k = ?key]
    by (simp add: LIST_UI_SESSIONS_SQL_def case_prod_unfold filter_map comp_def)
  have "map (ui_session_row E now) (fst (paged q (LIST_UI_SESSIONS_SQL R E now include_expired xs))) =
      map ?row (fst (paged q (map ?shown (LIST_UI_SESSIONS_SQL R E now include_expired xs))))" for q xs
    by (simp add: paged_def sql_limit_def Let_def take_map drop_map ui_session_row_def case_prod_unfold)
  moreover have "snd (paged q (LIST_UI_SESSIONS_SQL R E now include_expired xs)) =
      snd (paged q (map ?shown (LIST_UI_SESSIONS_SQL R E now include_expired xs)))" for q xs
    by (simp add: paged_def sql_limit_def Let_def)
  ultimately show ?thesis unfolding list_ui_sessions_def case_prod_unfold by (simp add: sql same)
qed

text \<open>The session of the example of \<open>LT_Auth\<close>, listed and revoked by its own user.\<close>

lemma demo_digest_hex: "digest_hex demo_auth_env"
proof -
  have hash: "session_hash demo_auth_env i = demo_digest i" for i by (simp add: session_hash_def demo_auth_env_def)
  have "hex_value c \<noteq> None \<and> 32 < byte c \<and> byte c < 128 \<and> ascii_lower c = c" if "c \<in> set (demo_digest b)" for b c
  proof -
    have "c \<in> {CHR ''a'', CHR ''b'', CHR ''c''}"
      using that by (auto simp: demo_digest_def dest!: in_set_takeD split: if_splits)
    then show ?thesis by (auto simp: hex_value_def byte_def ascii_lower_def)
  qed
  moreover have "length (demo_digest b) = 64" for b by (simp add: demo_digest_def)
  ultimately show ?thesis unfolding digest_hex_def hash list_all_iff by blast
qed

definition demo_login :: "auth_request list" where
  "demo_login = [Oauth_start demo_moment, Oauth_callback demo_moment demo_headers demo_callback]"

definition demo_session_row :: session_row where
  "demo_session_row = \<lparr>sr_user_id = ''a@b'', sr_display_name = ''a@b'', sr_login_method = ''oauth'', sr_created_at = 0, sr_expires_at = hours 24\<rparr>"

lemma demo_login_sessions: "as_sessions (auth_run demo_auth_env demo_login) = [(demo_token, demo_session_row)]"
proof -
  have "auth_run demo_auth_env demo_login =
      auth_step demo_auth_env (auth_run demo_auth_env [Oauth_start demo_moment]) (Oauth_callback demo_moment demo_headers demo_callback)"
    by (simp add: auth_run_def demo_login_def)
  moreover have "as_sessions (auth_run demo_auth_env [Oauth_start demo_moment]) = []"
    by (simp add: auth_run_def start_tables auth_empty_tables)
  ultimately show ?thesis by (simp only: step_sessions auth_request.case demo_granted) (simp add: with_session_def demo_session_row_def)
qed

lemma demo_admin: "require_auth demo_auth_env demo_moment ''DELETE'' demo_headers (auth_run demo_auth_env demo_login) = Proceed (user_of demo_session_row)"
proof -
  have "same_origin_request_allowed demo_auth_env ''DELETE'' demo_headers"
    by (simp add: same_origin_request_allowed_def safe_method_def header_to_str_def demo_headers_def header_get_def
        to_ascii_lowercase_def ascii_lower_def byte_def)
  then show ?thesis
    by (simp add: require_auth_def current_user_def demo_cookies demo_login_sessions)
      (simp add: demo_moment_def demo_session_row_def hours_def user_of_def login_method_from_str_def)
qed

lemma demo_listed:
  "list_ui_sessions demo_read_lib demo_auth_env 0 False None None (auth_run demo_auth_env demo_login) =
    ([ui_session_row demo_auth_env 0 (demo_token, demo_session_row)], info (page_from_query None None) False)"
  by (simp add: list_ui_sessions_def LIST_UI_SESSIONS_SQL_def demo_login_sessions demo_session_row_def hours_def paged_def sql_limit_def
      Let_def page_from_query_def fetch_limit_def clamp_def unwrap_or_def)

theorem listed_session_revoked_witness:
  "\<exists>response s'. revoke_ui_session demo_auth_env demo_moment demo_headers (session_hash demo_auth_env demo_token)
      (auth_run demo_auth_env demo_login) = (response, s') \<and>
    auth_response.rs_status response = 200 \<and> map_of (as_sessions s') demo_token = None \<and>
    rs_body response = JObject [(''revoked'', JBool True), (''session'', ui_session_row demo_auth_env 0 (demo_token, demo_session_row))] \<and>
    require_auth demo_auth_env demo_moment ''GET'' demo_headers (auth_step demo_auth_env s' (Oauth_start demo_moment))
      \<noteq> Proceed (user_of demo_session_row)"
proof -
  let ?h = "session_hash demo_auth_env demo_token" and ?s = "auth_run demo_auth_env demo_login"
  obtain response s' where r: "revoke_ui_session demo_auth_env demo_moment demo_headers ?h ?s = (response, s')" by fastforce
  have "json_get (ui_session_row demo_auth_env 0 (demo_token, demo_session_row)) ''session_hash'' = Some (JString ?h)"
    by (simp add: ui_session_row_def)
  moreover have "mo_session_db demo_moment = Committed" by (simp add: demo_moment_def)
  moreover have "ui_session_row demo_auth_env 0 (demo_token, demo_session_row) \<in>
      set (fst (list_ui_sessions demo_read_lib demo_auth_env 0 False None None ?s))"
    by (simp add: demo_listed)
  ultimately have *: "auth_response.rs_status response = 200"
    "\<exists>i row. map_of (as_sessions ?s) i = Some row \<and> session_hash demo_auth_env i = ?h \<and>
      rs_body response = JObject [(''revoked'', JBool True), (''session'', ui_session_row demo_auth_env (mo_now demo_moment) (i, row))]"
    "\<forall>k. map_of (as_sessions s') k = (if session_hash demo_auth_env k = ?h then None else map_of (as_sessions ?s) k)"
    "\<forall>later m' meth headers' u k. session_cookie demo_auth_env headers' = Some k \<and> session_hash demo_auth_env k = ?h \<and>
      (\<forall>pre q post. later = pre @ q # post \<longrightarrow>
        map_option fst (session_granted demo_auth_env (foldl (auth_step demo_auth_env) s' pre) q) \<noteq> Some k) \<longrightarrow>
      require_auth demo_auth_env m' meth headers' (foldl (auth_step demo_auth_env) s' later) \<noteq> Proceed u"
    using listed_session_revoked [OF demo_digest_hex refl _ _ demo_admin _ r] by blast+
  have "require_auth demo_auth_env demo_moment ''GET'' demo_headers (foldl (auth_step demo_auth_env) s' [Oauth_start demo_moment])
      \<noteq> Proceed (user_of demo_session_row)"
    using *(4) demo_cookies(1) by (auto simp: Cons_eq_append_conv simp del: foldl.simps)
  moreover have "rs_body response = JObject [(''revoked'', JBool True), (''session'', ui_session_row demo_auth_env 0 (demo_token, demo_session_row))]"
    using *(2) by (auto simp: demo_login_sessions demo_moment_def split: if_splits)
  ultimately show ?thesis using r *(1,3) by auto
qed

theorem session_list_by_digest_witness:
  "list_ui_sessions demo_read_lib demo_auth_env 0 False None None (auth_empty\<lparr>as_sessions := [(''x'', demo_session_row)]\<rparr>) =
   list_ui_sessions demo_read_lib demo_auth_env 0 False None None (auth_empty\<lparr>as_sessions := [(''y'', demo_session_row)]\<rparr>)"
  by (rule session_list_by_digest) (simp add: session_hash_def demo_auth_env_def demo_digest_def)

end
