(* ===== verification/LT_Api.thy ===== *)
theory LT_Api
  imports LT_Admin LT_Metrics LT_Query
begin

text \<open>
  \<open>api.rs\<close>: the handlers of the administration API over the reads of the other theories. Query
  parameters are trimmed, bounded and checked before they reach a statement, what goes wrong
  inside is answered with one fixed text, exports carry their number of rows, and the reports on
  the configuration say whether a secret is set and nothing else about it.
\<close>

section \<open>Answers\<close>

text \<open>A body of type \<open>'a\<close>, or a status with the text of its \<open>error\<close> member.\<close>

datatype 'a answer = Answer 'a | Refused nat string

definition bad_request :: "string \<Rightarrow> 'a answer" where
  "bad_request msg = Refused 400 msg"

definition api_error :: "nat \<Rightarrow> string \<Rightarrow> 'a answer" where
  "api_error status error = (if 500 \<le> status \<and> status < 600 then Refused status ''internal server error'' else Refused status error)"

definition json_answer :: "string + 'a \<Rightarrow> 'a answer" where
  "json_answer result = (case result of Inr v \<Rightarrow> Answer v | Inl error \<Rightarrow> api_error 500 error)"

definition optional_answer :: "string \<Rightarrow> string + 'a option \<Rightarrow> 'a answer" where
  "optional_answer missing result =
    (case result of Inr (Some v) \<Rightarrow> Answer v | Inr None \<Rightarrow> Refused 404 missing | Inl error \<Rightarrow> api_error 500 error)"

section \<open>Query parameters\<close>

definition MAX_REQUEST_SEARCH_BYTES :: nat where
  "MAX_REQUEST_SEARCH_BYTES = 512"

definition MAX_REQUEST_FILTER_BYTES :: nat where
  "MAX_REQUEST_FILTER_BYTES = 1024"

definition MAX_REQUEST_TIME_FILTER_BYTES :: nat where
  "MAX_REQUEST_TIME_FILTER_BYTES = 128"

definition MAX_AUDIT_FILTER_BYTES :: nat where
  "MAX_AUDIT_FILTER_BYTES = 1024"

definition REQUEST_KIND_FILTERS :: "string list" where
  "REQUEST_KIND_FILTERS = [''openai_chat_completions'', ''openai_responses'', ''anthropic_messages'', ''websocket'',
    ''generic_json'', ''generic_http'']"

definition STATUS_CLASS_FILTERS :: "string list" where
  "STATUS_CLASS_FILTERS = [''no_status'', ''1xx'', ''2xx'', ''3xx'', ''4xx'', ''5xx'', ''other'']"

definition USAGE_TIMESERIES_BUCKETS :: "string list" where
  "USAGE_TIMESERIES_BUCKETS = [''minute'', ''hour'', ''day'']"

definition normalize_text :: "string \<Rightarrow> string option \<Rightarrow> nat \<Rightarrow> string + string option" where
  "normalize_text name v most =
    (case v of
       None \<Rightarrow> Inr None
     | Some v \<Rightarrow>
         let v = trim v in
         if v = [] then Inr None
         else if length v > most then Inl (name @ '' must be at most '' @ show_nat most @ '' bytes'')
         else Inr (Some v))"

definition normalize_request_search :: "string option \<Rightarrow> string + string option" where
  "normalize_request_search q = normalize_text ''q'' q MAX_REQUEST_SEARCH_BYTES"

definition normalize_request_filter :: "string \<Rightarrow> string option \<Rightarrow> string + string option" where
  "normalize_request_filter name v = normalize_text name v MAX_REQUEST_FILTER_BYTES"

definition normalize_request_kind_filter :: "string option \<Rightarrow> string + string option" where
  "normalize_request_kind_filter v =
    bind_res (normalize_request_filter ''request_kind'' v) (\<lambda>v.
      case v of
        None \<Rightarrow> Inr None
      | Some v \<Rightarrow> if v \<in> set REQUEST_KIND_FILTERS then Inr (Some v)
          else Inl (''request_kind must be one of '' @ join_with '', '' REQUEST_KIND_FILTERS))"

definition normalize_status_class_filter :: "string option \<Rightarrow> string + string option" where
  "normalize_status_class_filter v =
    bind_res (normalize_request_filter ''status_class'' v) (\<lambda>v.
      case v of
        None \<Rightarrow> Inr None
      | Some v \<Rightarrow> let v = to_ascii_lowercase v in
          if v \<in> set STATUS_CLASS_FILTERS then Inr (Some v)
          else Inl (''status_class must be one of '' @ join_with '', '' STATUS_CLASS_FILTERS))"

text \<open>The parsers of UUIDs and RFC 3339 timestamps, what may stand in a header and the quoted
  form of a text are external.\<close>

record param_lib =
  pl_uuid :: "string \<Rightarrow> uuid option"
  pl_rfc3339 :: "string \<Rightarrow> int option"
  pl_header_name_ok :: "string \<Rightarrow> bool"
  pl_header_value_ok :: "string \<Rightarrow> bool"
  pl_debug :: "string \<Rightarrow> string"

definition normalize_optional_uuid_filter :: "param_lib \<Rightarrow> string \<Rightarrow> string option \<Rightarrow> string + uuid option" where
  "normalize_optional_uuid_filter P name v =
    bind_res (normalize_request_filter name v) (\<lambda>v.
      case v of
        None \<Rightarrow> Inr None
      | Some v \<Rightarrow> (case pl_uuid P v of Some i \<Rightarrow> Inr (Some i) | None \<Rightarrow> Inl (name @ '' must be a UUID'')))"

definition normalize_optional_duration_filter :: "string \<Rightarrow> int option \<Rightarrow> string + int option" where
  "normalize_optional_duration_filter name v =
    (case v of
       None \<Rightarrow> Inr None
     | Some v \<Rightarrow> if v < 0 then Inl (name @ '' must be greater than or equal to 0'') else Inr (Some v))"

definition normalize_request_duration_range :: "int option \<Rightarrow> int option \<Rightarrow> string + int option \<times> int option" where
  "normalize_request_duration_range lo hi =
    bind_res (normalize_optional_duration_filter ''min_duration_ms'' lo) (\<lambda>lo.
    bind_res (normalize_optional_duration_filter ''max_duration_ms'' hi) (\<lambda>hi.
    if (case (lo, hi) of (Some a, Some b) \<Rightarrow> a > b | _ \<Rightarrow> False)
    then Inl ''min_duration_ms must be less than or equal to max_duration_ms'' else Inr (lo, hi)))"

definition normalize_optional_timestamp_filter :: "param_lib \<Rightarrow> string \<Rightarrow> string option \<Rightarrow> string + int option" where
  "normalize_optional_timestamp_filter P name v =
    (case v of
       None \<Rightarrow> Inr None
     | Some v \<Rightarrow>
         let v = trim v in
         if v = [] then Inr None
         else if length v > MAX_REQUEST_TIME_FILTER_BYTES
           then Inl (name @ '' must be at most '' @ show_nat MAX_REQUEST_TIME_FILTER_BYTES @ '' bytes'')
         else (case pl_rfc3339 P v of Some t \<Rightarrow> Inr (Some t) | None \<Rightarrow> Inl (name @ '' must be an RFC3339 timestamp'')))"

definition normalize_request_time_range :: "param_lib \<Rightarrow> string option \<Rightarrow> string option \<Rightarrow> string + int option \<times> int option" where
  "normalize_request_time_range P since until =
    bind_res (normalize_optional_timestamp_filter P ''since'' since) (\<lambda>since.
    bind_res (normalize_optional_timestamp_filter P ''until'' until) (\<lambda>until.
    if (case (since, until) of (Some a, Some b) \<Rightarrow> a > b | _ \<Rightarrow> False)
    then Inl ''since must be earlier than or equal to until'' else Inr (since, until)))"

definition normalize_optional_filter :: "string \<Rightarrow> string option \<Rightarrow> string + string option" where
  "normalize_optional_filter name v = normalize_text name v MAX_AUDIT_FILTER_BYTES"

definition normalize_usage_timeseries_bucket :: "string option \<Rightarrow> string + string option" where
  "normalize_usage_timeseries_bucket v =
    (case v of
       None \<Rightarrow> Inr None
     | Some v \<Rightarrow>
         let v = trim v in
         if v = [] then Inr None
         else if to_ascii_lowercase v \<in> set USAGE_TIMESERIES_BUCKETS then Inr (Some (to_ascii_lowercase v))
         else Inl ''bucket must be one of minute, hour, or day'')"

record request_list_query =
  rq_q :: "string option"
  rq_status :: "int option"
  rq_status_class :: "string option"
  rq_has_error :: "bool option"
  rq_upstream_host :: "string option"
  rq_model :: "string option"
  rq_request_kind :: "string option"
  rq_session_id :: "string option"
  rq_api_key_hash :: "string option"
  rq_since :: "string option"
  rq_until :: "string option"
  rq_min_duration_ms :: "int option"
  rq_max_duration_ms :: "int option"
  rq_limit :: "int option"
  rq_offset :: "int option"

definition request_list_filters_of :: "param_lib \<Rightarrow> request_list_query \<Rightarrow> string + request_list_filters" where
  "request_list_filters_of P query =
    bind_res (normalize_request_search (rq_q query)) (\<lambda>q.
    bind_res (normalize_request_time_range P (rq_since query) (rq_until query)) (\<lambda>(since, until).
    bind_res (normalize_request_duration_range (rq_min_duration_ms query) (rq_max_duration_ms query)) (\<lambda>(lo, hi).
    bind_res (normalize_request_filter ''upstream_host'' (rq_upstream_host query)) (\<lambda>upstream_host.
    bind_res (normalize_request_filter ''model'' (rq_model query)) (\<lambda>model.
    bind_res (normalize_request_kind_filter (rq_request_kind query)) (\<lambda>kind.
    bind_res (normalize_optional_uuid_filter P ''session_id'' (rq_session_id query)) (\<lambda>session.
    bind_res (normalize_request_filter ''api_key_hash'' (rq_api_key_hash query)) (\<lambda>key.
    bind_res (normalize_status_class_filter (rq_status_class query)) (\<lambda>class.
    Inr \<lparr>rf_q = q, rf_status = rq_status query, rf_status_class = class, rf_has_error = rq_has_error query,
      rf_upstream_host = upstream_host, rf_model = model, rf_request_kind = kind, rf_session_id = session,
      rf_api_key_hash = key, rf_since = since, rf_until = until, rf_min_duration_ms = lo, rf_max_duration_ms = hi,
      rf_limit = rq_limit query, rf_offset = rq_offset query\<rparr>)))))))))"

definition audit_event_filters :: "string option \<Rightarrow> string option \<Rightarrow> string + string option \<times> string option" where
  "audit_event_filters event_type user_id =
    bind_res (normalize_optional_filter ''event_type'' event_type) (\<lambda>t.
    bind_res (normalize_optional_filter ''user_id'' user_id) (\<lambda>u. Inr (t, u)))"

section \<open>Exports as lines\<close>

definition JSONL_CONTENT_TYPE :: string where
  "JSONL_CONTENT_TYPE = ''application/x-ndjson; charset=utf-8''"

definition EXPORT_ROWS_HEADER :: string where
  "EXPORT_ROWS_HEADER = ''x-llmtrace-export-rows''"

record jsonl_export =
  je_body :: string
  je_headers :: "(string \<times> string) list"

text \<open>The text of a row is that of its JSON value.\<close>

definition jsonl_response :: "param_lib \<Rightarrow> ('a \<Rightarrow> string) \<Rightarrow> 'a list \<Rightarrow> string \<Rightarrow> string \<Rightarrow> jsonl_export" where
  "jsonl_response P to_string rows filename fallback_filename =
    (let disposition = (\<lambda>f. ''attachment; filename='' @ [CHR 34] @ f @ [CHR 34]);
         checked = (\<lambda>v otherwise. if pl_header_value_ok P v then v else otherwise)
     in \<lparr>je_body = fold (\<lambda>row body. body @ to_string row @ newline) rows [],
         je_headers = [(''content-type'', JSONL_CONTENT_TYPE),
           (''content-disposition'', checked (disposition filename) (checked (disposition fallback_filename) ''attachment'')),
           (EXPORT_ROWS_HEADER, checked (show_nat (length rows)) ''0'')]\<rparr>)"

definition request_list_jsonl_response :: "param_lib \<Rightarrow> (request_summary \<Rightarrow> string) \<Rightarrow> request_summary list \<Rightarrow> jsonl_export" where
  "request_list_jsonl_response P to_string rows = jsonl_response P to_string rows ''llmtrace-requests.jsonl'' ''llmtrace-requests.jsonl''"

definition session_messages_jsonl_response :: "param_lib \<Rightarrow> (message_row \<Rightarrow> string) \<Rightarrow> message_row list \<Rightarrow> jsonl_export" where
  "session_messages_jsonl_response P to_string rows =
    jsonl_response P to_string rows ''llmtrace-session-messages.jsonl'' ''llmtrace-session-messages.jsonl''"

definition audit_event_jsonl_response :: "param_lib \<Rightarrow> (nat \<times> audit_row \<Rightarrow> string) \<Rightarrow> (nat \<times> audit_row) list \<Rightarrow> jsonl_export" where
  "audit_event_jsonl_response P to_string rows = jsonl_response P to_string rows ''llmtrace-audit-events.jsonl'' ''llmtrace-audit-events.jsonl''"

definition structured_query_jsonl_response :: "param_lib \<Rightarrow> (json \<Rightarrow> string) \<Rightarrow> json \<Rightarrow> jsonl_export answer" where
  "structured_query_jsonl_response P to_string v =
    (let dataset = unwrap_or ''query'' (Option.bind (json_get v ''dataset'') as_str)
     in case Option.bind (json_get v ''rows'') as_array of
          Some rows \<Rightarrow> Answer (jsonl_response P to_string rows (''llmtrace-'' @ dataset @ ''.jsonl'') ''llmtrace-query.jsonl'')
        | None \<Rightarrow> api_error 500 ''export result is missing rows'')"

section \<open>Handlers\<close>

text \<open>A read fails as a whole when a statement of it does; \<open>up\<close> says that none did.\<close>

definition reading :: "bool \<Rightarrow> 'a \<Rightarrow> string + 'a" where
  "reading up v = (if up then Inr v else Inl ''database error'')"

definition checked_reading :: "bool \<Rightarrow> 'e + 'a \<Rightarrow> string + 'a" where
  "checked_reading up r = (case r of Inr v \<Rightarrow> reading up v | Inl _ \<Rightarrow> Inl ''database error'')"

definition with_params :: "string + 'p \<Rightarrow> ('p \<Rightarrow> 'a answer) \<Rightarrow> 'a answer" where
  "with_params r f = (case r of Inr p \<Rightarrow> f p | Inl msg \<Rightarrow> bad_request msg)"

fun map_answer :: "('a \<Rightarrow> 'b) \<Rightarrow> 'a answer \<Rightarrow> 'b answer" where
  "map_answer f (Answer v) = Answer (f v)"
| "map_answer f (Refused status msg) = Refused status msg"

definition get_requests :: "param_lib \<Rightarrow> read_lib \<Rightarrow> bool \<Rightarrow> request_list_query \<Rightarrow> request_metadata list \<Rightarrow> (request_summary list \<times> page_info) answer" where
  "get_requests P R up query rows =
    with_params (request_list_filters_of P query) (\<lambda>f. json_answer (reading up (list_requests R f rows)))"

definition export_requests_jsonl :: "param_lib \<Rightarrow> (request_summary \<Rightarrow> string) \<Rightarrow> read_lib \<Rightarrow> bool \<Rightarrow> request_list_query \<Rightarrow> request_metadata list \<Rightarrow> jsonl_export answer" where
  "export_requests_jsonl P to_string R up query rows =
    with_params (request_list_filters_of P query) (\<lambda>f.
      map_answer (request_list_jsonl_response P to_string \<circ> fst) (json_answer (reading up (list_requests R f rows))))"

definition get_slow_requests :: "bool \<Rightarrow> int option \<Rightarrow> int option \<Rightarrow> int option \<Rightarrow> int option \<Rightarrow> int \<Rightarrow> request_metadata list
    \<Rightarrow> ((lookback_window \<times> int \<times> int) \<times> request_summary list \<times> page_info) answer" where
  "get_slow_requests up since_hours min_duration_ms limit offset now rows =
    with_params (normalize_optional_duration_filter ''min_duration_ms'' min_duration_ms) (\<lambda>d.
      json_answer (reading up (slow_requests since_hours d limit offset now rows)))"

definition get_usage_timeseries :: "bool \<Rightarrow> int option \<Rightarrow> string option \<Rightarrow> int \<Rightarrow> trace_db \<Rightarrow> usage_point list answer" where
  "get_usage_timeseries up since_hours bucket now d =
    with_params (normalize_usage_timeseries_bucket bucket) (\<lambda>bucket.
      json_answer (checked_reading up (usage_timeseries since_hours bucket now d)))"

definition get_one_request :: "archive_lib \<Rightarrow> (bytes \<Rightarrow> string) \<Rightarrow> archive_store \<Rightarrow> (uuid \<Rightarrow> (bytes \<times> bytes) option) \<Rightarrow> bool \<Rightarrow> uuid
    \<Rightarrow> bool option \<Rightarrow> request_metadata list \<Rightarrow> request_detail answer" where
  "get_one_request L lossy store inl up i include_bodies rows =
    optional_answer ''request not found'' (reading up (get_request L lossy store inl i (unwrap_or True include_bodies) rows))"

definition get_sessions :: "read_lib \<Rightarrow> bool \<Rightarrow> string option \<Rightarrow> int option \<Rightarrow> int option \<Rightarrow> (uuid \<times> trace_session) list \<Rightarrow> request_metadata list
    \<Rightarrow> (session_summary list \<times> page_info) answer" where
  "get_sessions R up q limit offset sessions rows =
    with_params (normalize_request_search q) (\<lambda>q. json_answer (reading up (list_sessions R q limit offset sessions rows)))"

definition get_one_session :: "bool \<Rightarrow> uuid \<Rightarrow> int option \<Rightarrow> int option \<Rightarrow> (uuid \<times> trace_session) list \<Rightarrow> message_row list \<Rightarrow> request_metadata list
    \<Rightarrow> session_detail answer" where
  "get_one_session up i limit offset sessions messages rows =
    optional_answer ''session not found'' (checked_reading up (get_session i limit offset sessions messages rows))"

definition export_session_messages_jsonl :: "param_lib \<Rightarrow> (message_row \<Rightarrow> string) \<Rightarrow> bool \<Rightarrow> uuid \<Rightarrow> int option \<Rightarrow> int option
    \<Rightarrow> (uuid \<times> trace_session) list \<Rightarrow> message_row list \<Rightarrow> request_metadata list \<Rightarrow> jsonl_export answer" where
  "export_session_messages_jsonl P to_string up i limit offset sessions messages rows =
    map_answer (session_messages_jsonl_response P to_string \<circ> sd_messages) (get_one_session up i limit offset sessions messages rows)"

definition get_session_requests :: "bool \<Rightarrow> uuid \<Rightarrow> int option \<Rightarrow> int option \<Rightarrow> (uuid \<times> trace_session) list \<Rightarrow> request_metadata list
    \<Rightarrow> (request_summary list \<times> page_info) answer" where
  "get_session_requests up i limit offset sessions rows =
    optional_answer ''session not found'' (reading up (list_session_requests sessions i limit offset rows))"

definition export_session_requests_jsonl :: "param_lib \<Rightarrow> (request_summary \<Rightarrow> string) \<Rightarrow> bool \<Rightarrow> uuid \<Rightarrow> int option \<Rightarrow> int option
    \<Rightarrow> (uuid \<times> trace_session) list \<Rightarrow> request_metadata list \<Rightarrow> jsonl_export answer" where
  "export_session_requests_jsonl P to_string up i limit offset sessions rows =
    map_answer (request_list_jsonl_response P to_string \<circ> fst) (get_session_requests up i limit offset sessions rows)"

definition get_audit_events :: "bool \<Rightarrow> string option \<Rightarrow> string option \<Rightarrow> int option \<Rightarrow> int option \<Rightarrow> auth_state \<Rightarrow> ((nat \<times> audit_row) list \<times> page_info) answer" where
  "get_audit_events up event_type user_id limit offset s =
    with_params (audit_event_filters event_type user_id) (\<lambda>(t, u). json_answer (reading up (list_audit_events t u limit offset s)))"

definition export_audit_events_jsonl :: "param_lib \<Rightarrow> (nat \<times> audit_row \<Rightarrow> string) \<Rightarrow> bool \<Rightarrow> string option \<Rightarrow> string option \<Rightarrow> int option \<Rightarrow> int option
    \<Rightarrow> auth_state \<Rightarrow> jsonl_export answer" where
  "export_audit_events_jsonl P to_string up event_type user_id limit offset s =
    map_answer (audit_event_jsonl_response P to_string \<circ> fst) (get_audit_events up event_type user_id limit offset s)"

definition get_stats :: "bool \<Rightarrow> json \<Rightarrow> int \<Rightarrow> trace_db \<Rightarrow> (stats_view \<times> json) answer" where
  "get_stats up runtime now d = map_answer (\<lambda>v. (v, runtime)) (json_answer (checked_reading up (stats now d)))"

definition get_usage_summary :: "analytics_lib \<Rightarrow> bool \<Rightarrow> int option \<Rightarrow> int option \<Rightarrow> int \<Rightarrow> request_metadata list \<Rightarrow> usage_summary_view answer" where
  "get_usage_summary A up since_hours limit now rows = json_answer (checked_reading up (usage_summary A since_hours limit now rows))"

definition get_api_key_usage :: "analytics_lib \<Rightarrow> bool \<Rightarrow> int option \<Rightarrow> int option \<Rightarrow> int \<Rightarrow> request_metadata list
    \<Rightarrow> ((window \<times> int) \<times> (string \<times> usage_row \<times> token_row) list) answer" where
  "get_api_key_usage A up since_hours limit now rows =
    json_answer (checked_reading up (usage_items since_hours limit now (\<lambda>cutoff n. API_KEY_USAGE_SQL A cutoff n rows)))"

definition get_model_usage :: "analytics_lib \<Rightarrow> bool \<Rightarrow> int option \<Rightarrow> int option \<Rightarrow> int \<Rightarrow> request_metadata list
    \<Rightarrow> ((window \<times> int) \<times> (string \<times> usage_row \<times> token_row \<times> reach_row \<times> latency_row) list) answer" where
  "get_model_usage A up since_hours limit now rows =
    json_answer (checked_reading up (usage_items since_hours limit now (\<lambda>cutoff n. MODEL_USAGE_SQL A cutoff n rows)))"

definition get_user_usage :: "analytics_lib \<Rightarrow> bool \<Rightarrow> (uuid \<times> trace_session) list \<Rightarrow> int option \<Rightarrow> int option \<Rightarrow> int \<Rightarrow> request_metadata list
    \<Rightarrow> ((window \<times> int) \<times> ((string \<times> string) \<times> usage_row \<times> token_row \<times> reach_row \<times> latency_row) list) answer" where
  "get_user_usage A up sessions since_hours limit now rows =
    json_answer (checked_reading up (usage_items since_hours limit now (\<lambda>cutoff n. USER_USAGE_SQL A sessions cutoff n rows)))"

definition get_upstream_health :: "analytics_lib \<Rightarrow> bool \<Rightarrow> int option \<Rightarrow> int option \<Rightarrow> int \<Rightarrow> request_metadata list
    \<Rightarrow> ((window \<times> int) \<times> (string \<times> usage_row \<times> health_row \<times> latency_row) list) answer" where
  "get_upstream_health A up since_hours limit now rows =
    json_answer (checked_reading up (usage_items since_hours limit now (\<lambda>cutoff n. UPSTREAM_HEALTH_SQL A cutoff n rows)))"

definition get_retention_status :: "(int \<Rightarrow> string) \<Rightarrow> rot_env \<Rightarrow> bool \<Rightarrow> config \<Rightarrow> rot_world \<Rightarrow> json answer" where
  "get_retention_status show_time E up c w = json_answer (checked_reading up (retention_status show_time E (cf_storage c) w))"

definition get_error_summary :: "analytics_lib \<Rightarrow> bool \<Rightarrow> int option \<Rightarrow> int option \<Rightarrow> int \<Rightarrow> request_metadata list \<Rightarrow> error_summary_view answer" where
  "get_error_summary A up since_hours limit now rows = json_answer (reading up (error_summary A since_hours limit now rows))"

definition get_latency_summary :: "analytics_lib \<Rightarrow> bool \<Rightarrow> int option \<Rightarrow> int option \<Rightarrow> int \<Rightarrow> request_metadata list \<Rightarrow> latency_summary_view answer" where
  "get_latency_summary A up since_hours limit now rows = json_answer (reading up (latency_summary A since_hours limit now rows))"

definition get_data_overview :: "bool \<Rightarrow> int option \<Rightarrow> int \<Rightarrow> rot_world \<Rightarrow> request_metadata list \<Rightarrow> overview answer" where
  "get_data_overview up since_hours now w rows = json_answer (checked_reading up (data_overview since_hours now w rows))"

definition get_data_integrity :: "bool \<Rightarrow> int option \<Rightarrow> int \<Rightarrow> trace_db \<Rightarrow> integrity_report answer" where
  "get_data_integrity up since_hours now d = json_answer (checked_reading up (data_integrity since_hours now d))"

definition get_request_facets :: "read_lib \<Rightarrow> bool \<Rightarrow> int option \<Rightarrow> int option \<Rightarrow> int \<Rightarrow> request_metadata list
    \<Rightarrow> ((window \<times> int) \<times> request_facets_row) answer" where
  "get_request_facets R up since_hours limit now rows = json_answer (reading up (request_facets R since_hours limit now rows))"

definition get_recent_error_requests :: "bool \<Rightarrow> int option \<Rightarrow> int option \<Rightarrow> int \<Rightarrow> request_metadata list
    \<Rightarrow> ((window \<times> int) \<times> request_summary list \<times> bool) answer" where
  "get_recent_error_requests up since_hours limit now rows = json_answer (reading up (recent_error_requests since_hours limit now rows))"

definition get_ui_sessions :: "read_lib \<Rightarrow> auth_env \<Rightarrow> bool \<Rightarrow> int \<Rightarrow> bool option \<Rightarrow> int option \<Rightarrow> int option \<Rightarrow> auth_state
    \<Rightarrow> (json list \<times> page_info) answer" where
  "get_ui_sessions R E up now include_expired limit offset s =
    json_answer (reading up (list_ui_sessions R E now (unwrap_or False include_expired) limit offset s))"

definition get_audit_summary :: "read_lib \<Rightarrow> bool \<Rightarrow> int option \<Rightarrow> int option \<Rightarrow> int \<Rightarrow> auth_state \<Rightarrow> audit_summary_view answer" where
  "get_audit_summary R up since_hours limit now s = json_answer (reading up (audit_summary R since_hours limit now s))"

text \<open>Structured queries tell the administrator what is wrong with the query, and nothing about
  what went wrong in the database.\<close>

definition structured_query_error :: "(query_error \<Rightarrow> string) \<Rightarrow> structured_query_error \<Rightarrow> 'a answer" where
  "structured_query_error show_error e =
    (case e of Invalid msg \<Rightarrow> bad_request (show_error msg) | Execution \<Rightarrow> api_error 500 ''execution error'')"

definition run_query :: "query_lib \<Rightarrow> (query_error \<Rightarrow> string) \<Rightarrow> (builder \<Rightarrow> json option) \<Rightarrow> structured_query \<Rightarrow> json answer" where
  "run_query L show_error execute payload =
    (case run_structured_query L execute payload of Inr v \<Rightarrow> Answer v | Inl e \<Rightarrow> structured_query_error show_error e)"

definition export_query_jsonl :: "param_lib \<Rightarrow> (json \<Rightarrow> string) \<Rightarrow> query_lib \<Rightarrow> (query_error \<Rightarrow> string) \<Rightarrow> (builder \<Rightarrow> json option) \<Rightarrow> structured_query
    \<Rightarrow> jsonl_export answer" where
  "export_query_jsonl P to_string L show_error execute payload =
    (case run_structured_query L execute payload of
       Inr v \<Rightarrow> structured_query_jsonl_response P to_string v
     | Inl e \<Rightarrow> structured_query_error show_error e)"

text \<open>A whole session is exported by a task of its own, which holds one of two slots: the first
  component is what the task starts from, the second the number of free slots. The slot is given
  back when the task ends.\<close>

definition SESSION_EXPORT_SLOTS :: nat where
  "SESSION_EXPORT_SLOTS = 2"

definition export_session_jsonl :: "bool \<Rightarrow> uuid \<Rightarrow> (uuid \<times> trace_session) list \<Rightarrow> request_metadata list \<Rightarrow> nat
    \<Rightarrow> (trace_session \<times> int) answer \<times> nat" where
  "export_session_jsonl up i sessions rows free =
    (if free = 0 then (Refused 429 ''session export capacity reached; retry later'', free)
     else case reading up (session_export_prepare i sessions rows) of
         Inr (Some export) \<Rightarrow> (Answer export, free - 1)
       | Inr None \<Rightarrow> (Refused 404 ''session not found'', free)
       | Inl error \<Rightarrow> (api_error 500 error, free))"

section \<open>Redaction preview\<close>

definition MAX_REDACTION_PREVIEW_HEADERS :: nat where
  "MAX_REDACTION_PREVIEW_HEADERS = 64"

definition MAX_REDACTION_PREVIEW_HEADER_NAME_BYTES :: nat where
  "MAX_REDACTION_PREVIEW_HEADER_NAME_BYTES = 128"

definition MAX_REDACTION_PREVIEW_HEADER_VALUE_BYTES :: nat where
  "MAX_REDACTION_PREVIEW_HEADER_VALUE_BYTES = 8192"

definition MAX_REDACTION_PREVIEW_URI_BYTES :: nat where
  "MAX_REDACTION_PREVIEW_URI_BYTES = 8192"

definition MAX_REDACTION_PREVIEW_BODY_BYTES :: nat where
  "MAX_REDACTION_PREVIEW_BODY_BYTES = 65536"

definition preview_header :: "param_lib \<Rightarrow> string \<times> string \<Rightarrow> string + string \<times> string" where
  "preview_header P = (\<lambda>(name, v).
    let name = trim name in
    if name = [] then Inl ''header names must not be empty''
    else if length name > MAX_REDACTION_PREVIEW_HEADER_NAME_BYTES
      then Inl (''header names must be at most '' @ show_nat MAX_REDACTION_PREVIEW_HEADER_NAME_BYTES @ '' bytes'')
    else if length v > MAX_REDACTION_PREVIEW_HEADER_VALUE_BYTES
      then Inl (''header '' @ pl_debug P name @ '' value must be at most '' @ show_nat MAX_REDACTION_PREVIEW_HEADER_VALUE_BYTES @ '' bytes'')
    else if \<not> pl_header_name_ok P name then Inl (''header '' @ pl_debug P name @ '' has an invalid name'')
    else if \<not> pl_header_value_ok P v then Inl (''header '' @ pl_debug P name @ '' has an invalid value'')
    else Inr (to_ascii_lowercase name, v))"

fun preview_header_map :: "param_lib \<Rightarrow> (string \<times> string) list \<Rightarrow> headers \<Rightarrow> string + headers" where
  "preview_header_map P [] hm = Inr hm"
| "preview_header_map P (h # hs) hm =
    bind_res (preview_header P h) (\<lambda>(name, v). preview_header_map P hs (AList.update name v hm))"

text \<open>The headers of the payload come sorted by name.\<close>

definition redaction_preview_headers :: "param_lib \<Rightarrow> web_lib \<Rightarrow> config \<Rightarrow> (string \<times> string) list option \<Rightarrow> string + json" where
  "redaction_preview_headers P W c headers =
    (case headers of
       None \<Rightarrow> Inr (jobject [(''provided'', JBool False), (''redacted'', JObject []), (''first_secret_header_hash'', JNull)])
     | Some headers \<Rightarrow>
         if length headers > MAX_REDACTION_PREVIEW_HEADERS
         then Inl (''headers must contain at most '' @ show_nat MAX_REDACTION_PREVIEW_HEADERS @ '' entries'')
         else bind_res (preview_header_map P headers []) (\<lambda>hm.
           let redacted = redact_headers W (cf_redaction c) (upstream_header (cf_proxy c)) hm
           in Inr (jobject [(''provided'', JBool True), (''redacted'', rh_json redacted),
                (''first_secret_header_hash'', jopt JString (rh_first_secret_hash redacted))])))"

definition nothing_provided :: json where
  "nothing_provided = jobject [(''provided'', JBool False), (''redacted'', JNull)]"

definition redaction_preview_uri :: "web_lib \<Rightarrow> string option \<Rightarrow> string + json" where
  "redaction_preview_uri W uri =
    (case uri of
       None \<Rightarrow> Inr nothing_provided
     | Some uri \<Rightarrow>
         let uri = trim uri in
         if uri = [] then Inr nothing_provided
         else if length uri > MAX_REDACTION_PREVIEW_URI_BYTES
           then Inl (''uri must be at most '' @ show_nat MAX_REDACTION_PREVIEW_URI_BYTES @ '' bytes'')
         else let redacted = redact_uri_query_values W uri
           in Inr (jobject [(''provided'', JBool True), (''input_bytes'', jnat (length uri)), (''output_bytes'', jnat (length redacted)),
                (''changed'', JBool (redacted \<noteq> uri)), (''redacted'', JString redacted)]))"

definition redaction_preview_body :: "string option \<Rightarrow> string + json" where
  "redaction_preview_body body =
    (case body of
       None \<Rightarrow> Inr nothing_provided
     | Some body \<Rightarrow>
         if length body > MAX_REDACTION_PREVIEW_BODY_BYTES
         then Inl (''body must be at most '' @ show_nat MAX_REDACTION_PREVIEW_BODY_BYTES @ '' bytes'')
         else Inr (jobject [(''provided'', JBool True), (''input_bytes'', jnat (length body)), (''output_bytes'', jnat (length body)),
                (''changed'', JBool False), (''dropped'', JBool False), (''redacted'', JString body)]))"

record redaction_preview_request =
  rp_headers :: "(string \<times> string) list option"
  rp_uri :: "string option"
  rp_body :: "string option"

definition build_redaction_preview :: "param_lib \<Rightarrow> web_lib \<Rightarrow> config \<Rightarrow> redaction_preview_request \<Rightarrow> string + json" where
  "build_redaction_preview P W c payload =
    bind_res (redaction_preview_headers P W c (rp_headers payload)) (\<lambda>headers.
    bind_res (redaction_preview_uri W (rp_uri payload)) (\<lambda>uri.
    bind_res (redaction_preview_body (rp_body payload)) (\<lambda>body.
    Inr (jobject
      [(''redaction'', jobject
         [(''store_header_hash'', JBool (store_header_hash (cf_redaction c))),
          (''sensitive_header_count'', jnat (length (sensitive_headers (cf_redaction c)))),
          (''upstream_header'', JString (upstream_header (cf_proxy c))),
          (''limits'', jobject
            [(''max_headers'', jnat MAX_REDACTION_PREVIEW_HEADERS),
             (''max_header_name_bytes'', jnat MAX_REDACTION_PREVIEW_HEADER_NAME_BYTES),
             (''max_header_value_bytes'', jnat MAX_REDACTION_PREVIEW_HEADER_VALUE_BYTES),
             (''max_uri_bytes'', jnat MAX_REDACTION_PREVIEW_URI_BYTES),
             (''max_body_bytes'', jnat MAX_REDACTION_PREVIEW_BODY_BYTES)])]),
       (''headers'', headers), (''uri'', uri), (''body'', body)]))))"

definition redaction_preview :: "param_lib \<Rightarrow> web_lib \<Rightarrow> config \<Rightarrow> redaction_preview_request \<Rightarrow> json answer" where
  "redaction_preview P W c payload =
    (case build_redaction_preview P W c payload of Inr v \<Rightarrow> Answer v | Inl msg \<Rightarrow> bad_request msg)"

section \<open>Reports on the configuration\<close>

definition configured :: "string option \<Rightarrow> bool" where
  "configured v = (case v of Some v \<Rightarrow> trim v \<noteq> [] | None \<Rightarrow> False)"

definition local_admin_configured :: "config \<Rightarrow> bool" where
  "local_admin_configured c \<longleftrightarrow> configured (la_password (au_local_admin (cf_auth c))) \<or> configured (la_password_hash (au_local_admin (cf_auth c)))"

definition jint :: "int \<Rightarrow> json" where
  "jint i = JNumber (if 0 \<le> i then PosInt (nat i) else NegInt i)"

definition jstrings :: "string list \<Rightarrow> json" where
  "jstrings xs = JArray (map JString xs)"

definition journal_config_json :: "journal_config \<Rightarrow> json" where
  "journal_config_json j =
    jobject [(''enabled'', JBool (jc_enabled j)), (''directory'', JString (jc_directory j)), (''max_bytes'', jnat (jc_max_bytes j)),
      (''max_records'', jnat (jc_max_records j)), (''retry_interval_secs'', jnat (jc_retry_interval_secs j))]"

definition auth_summary :: "config \<Rightarrow> json" where
  "auth_summary c =
    (let auth = cf_auth c; a = au_local_admin auth; l = au_login_rate_limit auth; oc = au_oauth auth in
     jobject
      [(''cookie_secure'', JBool (au_cookie_secure auth)),
       (''session_ttl_hours'', jint (au_session_ttl_hours auth)),
       (''local_admin'', jobject
         [(''enabled'', JBool (local_admin_configured c)),
          (''password_hash_configured'', JBool (configured (la_password_hash a))),
          (''plaintext_password_configured'', JBool (configured (la_password a)))]),
       (''login_rate_limit'', jobject
         [(''enabled'', JBool (rl_enabled l)), (''max_failures'', jnat (rl_max_failures l)), (''window_secs'', jnat (rl_window_secs l)),
          (''lockout_secs'', jnat (rl_lockout_secs l)), (''max_tracked_entries'', jnat (rl_max_tracked_entries l))]),
       (''oauth'', jobject
         [(''enabled'', JBool (oa_enabled oc)),
          (''issuer_url'', JString (oa_issuer_url oc)),
          (''redirect_url'', JString (oa_redirect_url oc)),
          (''client_id_configured'', JBool (trim (oa_client_id oc) \<noteq> [])),
          (''client_secret_configured'', JBool (trim (oa_client_secret oc) \<noteq> [])),
          (''timeout_secs'', jnat (oa_timeout_secs oc)),
          (''require_email_verified'', JBool (oa_require_email_verified oc)),
          (''allowed_email_count'', jnat (length (oa_allowed_emails oc))),
          (''allowed_domain_count'', jnat (length (oa_allowed_domains oc)))])])"

definition config_summary :: "config \<Rightarrow> json" where
  "config_summary c =
    (let sv = cf_server c; p = cf_proxy c; ar = cf_archive c; st = cf_storage c in
     jobject
      [(''server'', jobject
         [(''listen'', JString (sc_listen sv)),
          (''admin_listen'', jopt JString (sc_admin_listen sv)),
          (''public_url'', JString (sc_public_url sv)),
          (''proxy_public_url'', jopt JString (sc_proxy_public_url sv)),
          (''deployment'', JString (deployment_as_str (sc_deployment sv))),
          (''ui_enabled'', JBool (sc_ui_enabled sv))]),
       (''proxy'', jobject
         [(''preset'', JString (proxy_preset_as_str (preset p))),
          (''default_upstream'', JString (default_upstream p)),
          (''allow_upstreams'', jstrings (allow_upstreams p)),
          (''allow_upstreams_count'', jnat (length (allow_upstreams p))),
          (''path_prefixes'', jstrings (effective_path_prefixes p)),
          (''capture_path_prefixes'', jstrings (effective_capture_path_prefixes p)),
          (''upstream_header'', JString (upstream_header p)),
          (''timeout_secs'', jnat (timeout_secs p)),
          (''max_request_body_bytes'', jnat (max_request_body_bytes p)),
          (''max_response_body_bytes'', jnat (max_response_body_bytes p)),
          (''max_websocket_message_bytes'', jnat (max_websocket_message_bytes p)),
          (''max_websocket_session_bytes'', jnat (max_websocket_session_bytes p))]),
       (''archive'', jobject
         [(''storage_backend'', JString (storage_backend_as_str (ac_storage_backend ar))),
          (''filesystem_root'', JString (ac_filesystem_root ar)),
          (''segment_uncompressed_bytes'', jnat (ac_segment_uncompressed_bytes ar)),
          (''compression_level'', jint (ac_compression_level ar))]),
       (''storage'', jobject
         [(''max_connections'', jnat (st_max_connections st)),
          (''acquire_timeout_secs'', jnat (st_acquire_timeout_secs st)),
          (''trace_queue_capacity'', jnat (st_trace_queue_capacity st)),
          (''trace_queue_max_bytes'', jnat (st_trace_queue_max_bytes st)),
          (''trace_worker_count'', jnat (st_trace_worker_count st)),
          (''journal'', journal_config_json (st_journal st)),
          (''retention_days'', jopt jint (st_retention_days st)),
          (''retention_prune_interval_secs'', jnat (st_retention_prune_interval_secs st)),
          (''retention_prune_batch_size'', jint (st_retention_prune_batch_size st)),
          (''rotate_size_bytes'', jnat (st_rotate_size_bytes st)),
          (''rotate_check_interval_secs'', jnat (st_rotate_check_interval_secs st))]),
       (''auth'', auth_summary c),
       (''observability'', jobject [(''metrics_bearer_token_configured'', JBool (configured (cf_metrics_bearer_token c)))]),
       (''redaction'', jobject
         [(''sensitive_header_count'', jnat (length (sensitive_headers (cf_redaction c)))),
          (''store_header_hash'', JBool (store_header_hash (cf_redaction c))),
          (''body_storage'', JString ''unredacted_archive'')]),
       (''plugins'', jobject [(''configured_count'', jnat (length (cf_plugins c)))])])"

datatype posture_status = Pass | Warn | Fail

record posture_check =
  pk_id :: string
  pk_status :: posture_status
  pk_message :: string

definition posture_check_with_status :: "string \<Rightarrow> posture_status \<Rightarrow> string \<Rightarrow> string \<Rightarrow> posture_check" where
  "posture_check_with_status i status pass_message failing_message =
    \<lparr>pk_id = i, pk_status = status, pk_message = (if status = Pass then pass_message else failing_message)\<rparr>"

definition posture_check_of :: "string \<Rightarrow> bool \<Rightarrow> posture_status \<Rightarrow> string \<Rightarrow> string \<Rightarrow> posture_check" where
  "posture_check_of i passed failing_status = posture_check_with_status i (if passed then Pass else failing_status)"

definition posture_status_count :: "posture_status \<Rightarrow> posture_check list \<Rightarrow> nat" where
  "posture_status_count status checks = length (filter (\<lambda>k. pk_status k = status) checks)"

definition public_url_https :: "web_lib \<Rightarrow> config \<Rightarrow> bool" where
  "public_url_https W c =
    (case url_parse W (sc_public_url (cf_server c)) of Some u \<Rightarrow> eq_ignore_ascii_case (u_scheme u) ''https'' | None \<Rightarrow> False)"

definition posture_checks :: "web_lib \<Rightarrow> config \<Rightarrow> posture_check list" where
  "posture_checks W c =
    (let production = is_production c; auth = cf_auth c; oc = au_oauth auth; a = au_local_admin auth;
         unless = (\<lambda>good. if good then Pass else if production then Fail else Warn) in
     [posture_check_of ''deployment_mode'' production Warn
        ''server.deployment is production''
        ''server.deployment is development; set production before public deployment'',
      posture_check_of ''public_url_https'' (public_url_https W c) Warn
        ''server.public_url uses HTTPS''
        ''server.public_url is not HTTPS; this can be acceptable behind an HTTP-only reverse proxy, but browser traffic should terminate at HTTPS'',
      posture_check_of ''secure_cookies'' (au_cookie_secure auth) Warn
        ''session cookies are marked Secure''
        ''session cookies are not marked Secure; enable auth.cookie_secure when browser traffic uses HTTPS'',
      posture_check_of ''retention'' (st_retention_days (cf_storage c) \<noteq> None) Warn
        ''storage retention is configured''
        ''storage.retention_days is not configured; age-based trace and UI audit cleanup is disabled'',
      posture_check_of ''upstream_allowlist'' (allow_upstreams (cf_proxy c) \<noteq> []) Warn
        ''proxy upstream allowlist is configured''
        ''proxy.allow_upstreams is empty; restrict upstream overrides before public deployment'',
      posture_check_of ''metrics_auth'' (configured (cf_metrics_bearer_token c)) Warn
        ''metrics endpoint requires a bearer token''
        ''metrics bearer token is not configured; protect /metrics before public deployment'',
      posture_check_with_status ''local_plaintext_password'' (unless (\<not> configured (la_password a)))
        ''local admin plaintext password is not configured''
        ''local admin plaintext password is configured; use auth.local_admin.password_hash before production'',
      posture_check_of ''local_password_hash'' (configured (la_password_hash a) \<or> oa_enabled oc) Warn
        ''local password hash or OAuth authentication is configured''
        ''no local password hash or OAuth provider is configured for production authentication'',
      posture_check_with_status ''login_rate_limit'' (unless (rl_enabled (au_login_rate_limit auth)))
        ''login rate limiting is enabled''
        ''login rate limiting is disabled; enable it before public deployment'',
      posture_check_with_status ''oauth_allowlist''
        (unless (\<not> oa_enabled oc \<or> oa_allowed_emails oc \<noteq> [] \<or> oa_allowed_domains oc \<noteq> []))
        ''OAuth is disabled or constrained by an allowlist''
        ''OAuth is enabled without allowed_emails or allowed_domains; constrain who can sign in''])"

record posture_report =
  pr_overall :: string
  pr_pass :: nat
  pr_warn :: nat
  pr_fail :: nat
  pr_checks :: "posture_check list"

definition security_posture :: "web_lib \<Rightarrow> config \<Rightarrow> posture_report" where
  "security_posture W c =
    (let checks = posture_checks W c; warn_count = posture_status_count Warn checks; fail_count = posture_status_count Fail checks in
     \<lparr>pr_overall = (if fail_count > 0 then ''fail'' else if warn_count > 0 then ''attention'' else ''ready''),
      pr_pass = posture_status_count Pass checks, pr_warn = warn_count, pr_fail = fail_count, pr_checks = checks\<rparr>)"

definition plugin_status_item :: "plugin_status \<Rightarrow> json" where
  "plugin_status_item status =
    jobject [(''name'', JString (ps_name status)), (''hooks'', jstrings (map plugin_hook_as_str (ps_hooks status))),
      (''loaded'', JBool (ps_loaded status)), (''error'', jopt (\<lambda>_. JString ''plugin failed to load'') (ps_error status))]"

definition plugin_status_summary :: "plugin_status list \<Rightarrow> json" where
  "plugin_status_summary statuses =
    (let loaded_count = length (filter ps_loaded statuses) in
     jobject [(''configured_count'', jnat (length statuses)), (''loaded_count'', jnat loaded_count),
       (''failed_count'', jnat (length statuses - loaded_count)), (''items'', JArray (map plugin_status_item statuses))])"

section \<open>What the reports give away\<close>

text \<open>A configuration with every secret and every name of an account, sensitive header or plugin
  replaced by a mark that keeps only whether the setting was blank.\<close>

definition masked :: "string \<Rightarrow> string" where
  "masked v = (if trim v = [] then [] else ''*'')"

definition blank_plugin :: plugin_config where
  "blank_plugin = \<lparr>pc_name = [], pc_wasm_path = [], pc_hooks = [], pc_timeout_ms = 0, pc_http_get_urls = [],
     pc_http_auth_header = None, pc_http_auth_env = None\<rparr>"

definition mask_config :: "config \<Rightarrow> config" where
  "mask_config c =
    (let auth = cf_auth c; a = au_local_admin auth; oc = au_oauth auth in
     c\<lparr>cf_storage := (cf_storage c)\<lparr>st_postgres_url := []\<rparr>,
       cf_auth := auth
         \<lparr>au_local_admin := \<lparr>la_username = [], la_password = map_option masked (la_password a),
            la_password_hash = map_option masked (la_password_hash a)\<rparr>,
          au_oauth := oc
            \<lparr>oa_client_id := masked (oa_client_id oc), oa_client_secret := masked (oa_client_secret oc),
             oa_allowed_emails := map (\<lambda>_. []) (oa_allowed_emails oc), oa_allowed_domains := map (\<lambda>_. []) (oa_allowed_domains oc)\<rparr>\<rparr>,
       cf_metrics_bearer_token := map_option masked (cf_metrics_bearer_token c),
       cf_redaction := (cf_redaction c)\<lparr>sensitive_headers := map (\<lambda>_. []) (sensitive_headers (cf_redaction c))\<rparr>,
       cf_plugins := map (\<lambda>_. blank_plugin) (cf_plugins c)\<rparr>)"

lemma trim_star: "trim ''*'' = ''*''"
  by (rule trim_ascii) (simp_all add: byte_def)

lemma trim_nothing: "trim [] = []"
  by (rule trim_ascii) simp_all

lemma trim_masked [simp]: "trim (masked v) = [] \<longleftrightarrow> trim v = []"
  by (simp add: masked_def trim_star trim_nothing)

lemma configured_masked [simp]: "configured (map_option masked v) = configured v"
  by (cases v) (simp_all add: configured_def)

text \<open>C32: the reports of the interface on its own configuration and plugins give no secret away.
  The configuration summary and the security posture are those of the masked configuration: nothing
  of the database address, the local administrator's name, password and hash, the OAuth client, the
  admitted e-mail addresses and domains, the metrics token, the sensitive header names and the
  configured plugins can be read off them but whether a setting is blank and how many entries a list has. The listen and
  public addresses, the upstreams, the issuer and redirect addresses, the path prefixes, the archive
  root and the limits are not masked: the summary shows them by design. The plugin report shows the name and hooks of each plugin
  and whether it failed, and depends in no other way on the text of the failure.
\<close>

theorem reports_hide_secrets:
  "config_summary c = config_summary (mask_config c) \<and>
   security_posture W c = security_posture W (mask_config c) \<and>
   plugin_status_summary statuses =
     plugin_status_summary (map (\<lambda>s. s\<lparr>ps_error := map_option (\<lambda>_. []) (ps_error s)\<rparr>) statuses)"
proof -
  have "auth_summary (mask_config c) = auth_summary c"
    by (simp add: auth_summary_def mask_config_def local_admin_configured_def Let_def)
  then have "config_summary c = config_summary (mask_config c)"
    by (simp add: config_summary_def mask_config_def Let_def)
  moreover have "posture_checks W c = posture_checks W (mask_config c)"
    by (simp add: posture_checks_def mask_config_def Let_def is_production_def public_url_https_def)
  moreover have "plugin_status_item (s\<lparr>ps_error := map_option (\<lambda>_. []) (ps_error s)\<rparr>) = plugin_status_item s" for s
    by (cases "ps_error s") (simp_all add: plugin_status_item_def jopt_def)
  ultimately show ?thesis by (simp add: security_posture_def plugin_status_summary_def filter_map comp_def)
qed

section \<open>A validated production configuration\<close>

lemma validated_token:
  assumes "validate E c = Inr ()" "is_production c"
  shows "configured (cf_metrics_bearer_token c)"
  using validate_parts(6) [OF assms(1)] assms(2)
  by (auto simp: validate_observability_def configured_def validation split: option.splits if_splits)

lemma validated_cookie:
  assumes "validate E c = Inr ()" "is_production c" "url_parse (ce_web E) (sc_public_url (cf_server c)) = Some u" "u_scheme u = ''https''"
  shows "au_cookie_secure (cf_auth c)"
  using validate_parts(5) [OF assms(1)] assms(2-4) unfolding validate_auth_def Let_def if_P [OF assms(2)] validation by simp

lemma has_hash_configured: "has_hash E a \<Longrightarrow> configured (la_password_hash a)"
  by (auto simp: has_hash_def configured_def split: option.splits)

lemma has_password_configured: "has_password a = configured (la_password a)"
  by (simp add: has_password_def configured_def split: option.split)

text \<open>C31: validation and the security posture agree. A configuration that passes validation for
  production has no failing check, and only two checks can warn, those on the scheme of the public
  address and on secure cookies: the report says ready exactly when both are in order, which
  validation guarantees when the public address uses HTTPS.
\<close>

theorem validated_production_posture:
  assumes v: "validate E c = Inr ()" and p: "is_production c"
  shows "pr_fail (security_posture (ce_web E) c) = 0 \<and>
    (\<forall>k\<in>set (pr_checks (security_posture (ce_web E) c)).
      pk_status k \<noteq> Pass \<longrightarrow> pk_status k = Warn \<and> pk_id k \<in> {''public_url_https'', ''secure_cookies''}) \<and>
    (pr_overall (security_posture (ce_web E) c) = ''ready'' \<longleftrightarrow> public_url_https (ce_web E) c \<and> au_cookie_secure (cf_auth c)) \<and>
    (\<forall>u. url_parse (ce_web E) (sc_public_url (cf_server c)) = Some u \<and> u_scheme u = ''https'' \<longrightarrow>
      pr_overall (security_posture (ce_web E) c) = ''ready'')"
proof -
  have s: "production_safe E c" by (rule validated_production [OF v p])
  then have *: "st_retention_days (cf_storage c) \<noteq> None" "allow_upstreams (cf_proxy c) \<noteq> []"
    "\<not> configured (la_password (au_local_admin (cf_auth c)))" "configured (la_password_hash (au_local_admin (cf_auth c)))"
    "rl_enabled (au_login_rate_limit (cf_auth c))"
    "oa_enabled (au_oauth (cf_auth c)) \<longrightarrow> oa_allowed_emails (au_oauth (cf_auth c)) = [] \<longrightarrow> oa_allowed_domains (au_oauth (cf_auth c)) \<noteq> []"
    by (auto simp: production_safe_def throttle_enabled_def has_password_configured dest: has_hash_configured)
  note checks = posture_checks_def Let_def p * validated_token [OF v p] posture_check_of_def posture_check_with_status_def
  have fails: "pr_fail (security_posture (ce_web E) c) = 0"
    by (simp add: security_posture_def posture_status_count_def checks)
  moreover have "pk_status k = Warn \<and> pk_id k \<in> {''public_url_https'', ''secure_cookies''}"
    if "k \<in> set (pr_checks (security_posture (ce_web E) c))" "pk_status k \<noteq> Pass" for k
    using that by (auto simp: security_posture_def checks split: if_splits)
  moreover have ready: "pr_overall (security_posture (ce_web E) c) = ''ready'' \<longleftrightarrow>
      public_url_https (ce_web E) c \<and> au_cookie_secure (cf_auth c)"
    by (simp add: security_posture_def posture_status_count_def checks)
  moreover have "public_url_https (ce_web E) c \<and> au_cookie_secure (cf_auth c)"
    if "url_parse (ce_web E) (sc_public_url (cf_server c)) = Some u" "u_scheme u = ''https''" for u
    using validated_cookie [OF v p that] that by (simp add: public_url_https_def eq_ignore_ascii_case_def)
  ultimately show ?thesis by blast
qed

theorem validated_production_posture_witness:
  "pr_fail (security_posture (ce_web demo_config_env) demo_config) = 0 \<and>
   (pr_overall (security_posture (ce_web demo_config_env) demo_config) = ''ready'' \<longleftrightarrow>
     public_url_https (ce_web demo_config_env) demo_config \<and> au_cookie_secure (cf_auth demo_config))"
  using validated_production_posture [OF demo_validated demo_production] by blast

section \<open>Exports are listings\<close>

lemma jsonl_body: "fold (\<lambda>row body. body @ to_string row @ newline) rows out = out @ concat (map (\<lambda>row. to_string row @ newline) rows)"
  by (induction rows arbitrary: out) simp_all

lemma jsonl_lines:
  assumes "\<And>x. x \<in> set rows \<Longrightarrow> nl \<notin> set (to_string x)"
  shows "split_on nl (je_body (jsonl_response P to_string rows f g)) = map to_string rows @ [[]]"
  using assms by (induction rows) (simp_all add: jsonl_response_def Let_def jsonl_body split_on_line)

lemma jsonl_rows_header:
  assumes "pl_header_value_ok P (show_nat (length rows))"
  shows "map_of (je_headers (jsonl_response P to_string rows f g)) EXPORT_ROWS_HEADER = Some (show_nat (length rows))"
  using assms by (simp add: jsonl_response_def Let_def EXPORT_ROWS_HEADER_def)

lemma map_answer_Answer: "map_answer f a = Answer e \<longleftrightarrow> (\<exists>v. a = Answer v \<and> e = f v)"
  by (cases a) auto

text \<open>The export of a listing, with the name of its file, is the listing line by line.\<close>

definition lists_lines :: "('a \<Rightarrow> string) \<Rightarrow> 'a list \<Rightarrow> jsonl_export \<Rightarrow> bool" where
  "lists_lines to_string rows e \<longleftrightarrow>
    split_on nl (je_body e) = map to_string rows @ [[]] \<and>
    map_of (je_headers e) EXPORT_ROWS_HEADER = Some (show_nat (length rows))"

lemma jsonl_lists_lines:
  assumes "\<And>x. nl \<notin> set (to_string x)" "\<And>n. pl_header_value_ok P (show_nat n)"
  shows "lists_lines to_string rows (jsonl_response P to_string rows f g)"
  using assms by (simp add: lists_lines_def jsonl_lines jsonl_rows_header)

text \<open>An export is its listing. When the text of a row has no line break and a number can
  stand in a header, an export of requests, of the requests or messages of a session or of audit
  events succeeds exactly when the listing with the same parameters does and is refused with the same
  answer otherwise; its lines are the items of the listing, in order, and its header their number.
\<close>

theorem exports_are_listings:
  assumes header: "\<And>n. pl_header_value_ok P (show_nat n)"
    and lines: "\<And>x. nl \<notin> set (request_text x)" "\<And>x. nl \<notin> set (event_text x)" "\<And>x. nl \<notin> set (message_text x)"
  shows "(case get_requests P R up query rows of
       Answer (items, page) \<Rightarrow> \<exists>e. export_requests_jsonl P request_text R up query rows = Answer e \<and> lists_lines request_text items e
     | Refused status msg \<Rightarrow> export_requests_jsonl P request_text R up query rows = Refused status msg) \<and>
    (case get_session_requests up i limit offset sessions rows of
       Answer (items, page) \<Rightarrow> \<exists>e. export_session_requests_jsonl P request_text up i limit offset sessions rows = Answer e \<and> lists_lines request_text items e
     | Refused status msg \<Rightarrow> export_session_requests_jsonl P request_text up i limit offset sessions rows = Refused status msg) \<and>
    (case get_one_session up i limit offset sessions messages rows of
       Answer detail \<Rightarrow> \<exists>e. export_session_messages_jsonl P message_text up i limit offset sessions messages rows = Answer e \<and>
         lists_lines message_text (sd_messages detail) e
     | Refused status msg \<Rightarrow> export_session_messages_jsonl P message_text up i limit offset sessions messages rows = Refused status msg) \<and>
    (case get_audit_events up event_type user_id limit offset s of
       Answer (items, page) \<Rightarrow> \<exists>e. export_audit_events_jsonl P event_text up event_type user_id limit offset s = Answer e \<and> lists_lines event_text items e
     | Refused status msg \<Rightarrow> export_audit_events_jsonl P event_text up event_type user_id limit offset s = Refused status msg)"
proof -
  have req: "export_requests_jsonl P request_text R up query rows =
      map_answer (request_list_jsonl_response P request_text \<circ> fst) (get_requests P R up query rows)"
    by (simp add: export_requests_jsonl_def get_requests_def with_params_def bad_request_def split: sum.split)
  have "lists_lines request_text items (request_list_jsonl_response P request_text items)" for items
    unfolding request_list_jsonl_response_def by (rule jsonl_lists_lines) (use header lines(1) in blast)+
  moreover have "lists_lines event_text items (audit_event_jsonl_response P event_text items)" for items
    unfolding audit_event_jsonl_response_def by (rule jsonl_lists_lines) (use header lines(2) in blast)+
  moreover have "lists_lines message_text items (session_messages_jsonl_response P message_text items)" for items
    unfolding session_messages_jsonl_response_def by (rule jsonl_lists_lines) (use header lines(3) in blast)+
  ultimately show ?thesis
    by (simp add: req export_session_requests_jsonl_def export_session_messages_jsonl_def export_audit_events_jsonl_def
        split: answer.split prod.split)
qed

definition demo_params :: param_lib where
  "demo_params = \<lparr>pl_uuid = (\<lambda>_. None), pl_rfc3339 = (\<lambda>_. None), pl_header_name_ok = (\<lambda>_. True), pl_header_value_ok = (\<lambda>_. True),
     pl_debug = id\<rparr>"

definition demo_query :: request_list_query where
  "demo_query = \<lparr>rq_q = None, rq_status = None, rq_status_class = None, rq_has_error = None, rq_upstream_host = None, rq_model = None,
     rq_request_kind = None, rq_session_id = None, rq_api_key_hash = None, rq_since = None, rq_until = None,
     rq_min_duration_ms = Some 0, rq_max_duration_ms = None, rq_limit = Some 2, rq_offset = None\<rparr>"

lemma demo_filters: "request_list_filters_of demo_params demo_query = Inr (no_filters\<lparr>rf_min_duration_ms := Some 0, rf_limit := Some 2\<rparr>)"
  by (simp add: request_list_filters_of_def demo_query_def bind_res_def normalize_request_search_def normalize_text_def
      normalize_request_time_range_def normalize_optional_timestamp_filter_def normalize_request_duration_range_def
      normalize_optional_duration_filter_def normalize_request_filter_def normalize_request_kind_filter_def
      normalize_optional_uuid_filter_def normalize_status_class_filter_def no_filters_def)

theorem exports_are_listings_witness:
  "\<exists>items page e. get_requests demo_params demo_read_lib True demo_query demo_requests = Answer (items, page) \<and>
    export_requests_jsonl demo_params (\<lambda>_. ''row'') demo_read_lib True demo_query demo_requests = Answer e \<and>
    lists_lines (\<lambda>_. ''row'') items e"
proof -
  obtain items page where l: "list_requests demo_read_lib (no_filters\<lparr>rf_min_duration_ms := Some 0, rf_limit := Some 2\<rparr>) demo_requests = (items, page)"
    by fastforce
  then have "get_requests demo_params demo_read_lib True demo_query demo_requests = Answer (items, page)"
    by (simp add: get_requests_def with_params_def demo_filters json_answer_def reading_def)
  moreover have "pl_header_value_ok demo_params (show_nat n)" for n by (simp add: demo_params_def)
  moreover have "nl \<notin> set ''row''" by (simp add: char_of_def)
  ultimately show ?thesis
    using exports_are_listings [of demo_params "\<lambda>_. ''row''" "\<lambda>_. ''row''" "\<lambda>_. ''row''" demo_read_lib True demo_query demo_requests]
    by simp
qed

end
