(* ===== verification/Spec2Isabelle.thy ===== *)
theory Spec2Isabelle
  imports LT_Durable LT_Throttle LT_Plugin_Cache LT_Websocket LT_Archive LT_Plugin_Http LT_Config LT_Query LT_Auth LT_Rotation LT_Litellm
    LT_Reads LT_Analytics LT_Metrics LT_Admin LT_Api
begin

text \<open>
  A verification development for llmtrace, a reverse proxy in front of language-model
  services that records the exchanges it forwards (\<open>src/crates/llmtrace/src\<close>).

  \<^bold>\<open>The program.\<close> \<open>routing.rs\<close> decides which paths and upstreams a request may
  reach; \<open>proxy.rs\<close> forwards HTTP exchanges and websockets while two capturing
  streams keep a bounded prefix of each body; \<open>redaction.rs\<close> rewrites headers and
  URIs before anything is kept. A captured \<open>TraceEvent\<close> is admitted under a byte
  budget (\<open>trace/memory.rs\<close>) to a bounded queue (\<open>trace.rs\<close>). With a journal it is
  written to a record file (\<open>trace/journal.rs\<close>), replayed by workers and inserted into
  the database together with a receipt (\<open>trace/durable.rs\<close>, \<open>storage/ingest.rs\<close>);
  without one a dispatcher hands it to workers. In both cases \<open>build_trace\<close> runs the
  WebAssembly plugins (\<open>plugins.rs\<close>, with a cache in \<open>plugins/cache.rs\<close>), parses both
  bodies (\<open>parsers.rs\<close>, \<open>parsers/response.rs\<close>) and bounds what is stored. Logins pass
  a throttle (\<open>login_throttle.rs\<close>). The interface and its API read the stored traces
  back as listings, exports, charts and reports (\<open>storage/requests.rs\<close>,
  \<open>storage/sessions.rs\<close>, \<open>storage/session_export.rs\<close>, \<open>storage/analytics.rs\<close>), and the
  process counts what it does (\<open>metrics.rs\<close>).

  \<^bold>\<open>The theories.\<close>
  \<^item> \<open>LT_Prelude\<close>, \<open>LT_Text\<close>, \<open>LT_Json\<close>, \<open>LT_Http\<close>: results, saturating and wrapping
    arithmetic, BTreeMap as a sorted association list with its contract as a locale,
    UTF-8 boundaries and truncation, text functions of the standard library,
    \<open>serde_json::Value\<close>, and URLs and header maps with the external crates as record
    fields. Strings and byte vectors are HOL strings, one character per byte.
  \<^item> \<open>LT_Event\<close>: the enumerations and records of \<open>types.rs\<close> and the captured event.
  \<^item> \<open>LT_Memory\<close>: the atomic byte budget at 64 bits and the size charged for an event;
    the locale \<open>budget\<close> is what the journal and the recorder rely on.
  \<^item> \<open>LT_Journal_Codec\<close>, \<open>LT_Journal\<close>: the record format, the catalog and every
    operation of the journal; each file call has its outcome as an argument, so every
    failure path is a branch. Append and read round trip, recovery, capacity, claiming.
  \<^item> \<open>LT_Durable\<close>: the receipt transaction, the worker and the cleanup, and a step
    relation in which captures, workers, cleanup and crashes interleave; a record is
    inserted at most once and never lost, and the worker code refines the relation.
  \<^item> \<open>LT_Throttle\<close>, \<open>LT_Plugin_Cache\<close>: the login throttle as independent throttles per
    key, and the cache as an LRU list.
  \<^item> \<open>LT_Redaction\<close>, \<open>LT_Routing\<close>: non-interference of stored headers and URIs; paths
    that stay inside their prefix when the upstream decodes them once, in whatever order it splits,
    decodes and resolves them, and the upstream policy.
  \<^item> \<open>LT_Capture\<close>, \<open>LT_Websocket\<close>: the HTTP exchange and the websocket bridge as
    interleaved steps; recorded once, exact prefixes and counts, transparent streams. A client
    that leaves while the handler waits for the upstream is a case of the model and leaves no
    record. The bridge is compared with \<open>expected_run\<close>, a reading of the events that shares
    nothing with its code.
  \<^item> \<open>LT_Response\<close>, \<open>LT_Parsers\<close>: what is extracted from requests, JSON responses and
    event streams; bounds, and streamed chat equals the concatenation of its deltas.
  \<^item> \<open>LT_Plugins\<close>: merging of plugin effects, loading, and the packed 64-bit result.
  \<^item> \<open>LT_Plugin_Http\<close>: the \<open>http_get\<close> function offered to plugins; only listed
    destinations are reached, the credential is injected by the host, and memory outside
    the buffer of the call is untouched.
  \<^item> \<open>LT_Litellm\<close>: the plugin of \<open>crates/litellm-user-plugin\<close>; only the hash of a key
    leaves it, a cache hit repeats the stored answer, and plugin and host composed deliver
    the printed output. Its bounded fields interpret the locale \<open>bounded_prefix\<close>.
  \<^item> \<open>LT_Archive\<close>: frames, segments and limits of the body archive in the database and
    in files. A file write succeeds, fails before the rename or fails after it with the file in
    place. The keys made for segments name them (\<open>keys_named\<close>), so no file is overwritten, and
    what is archived is read back byte for byte.
  \<^item> \<open>LT_Store\<close>: the tables of the trace database, the insertion transaction of
    \<open>storage/ingest.rs\<close> and deletion with the cascades and triggers of the migrations; the
    invariant of the tables, and rollups equal to an aggregate computed from the traces. The
    identifiers an insertion draws are required to be new in the state before it (\<open>fresh_ids\<close>);
    a transaction that is rolled back leaves its files (\<open>files_left\<close>).
  \<^item> \<open>LT_Rotation\<close>: size rotation and age retention (\<open>storage/rotation.rs\<close>,
    \<open>storage/retention.rs\<close>) over arbitrary schedules of clocks, locks and transaction
    faults. A pass always returns, evicts oldest first, keeps the bodies of what it keeps and
    meets the limit when undisturbed; the locale \<open>quiet_task\<close> is the contract of the tasks
    that keep every trace, and the invariant of the tables holds in every state that commits,
    roll-backs, maintenance and retention reach from empty tables (\<open>storage_reach\<close>).
  \<^item> \<open>LT_Config\<close>: the configuration with its defaults, overrides from the environment and
    validation; a configuration that validates is one the other components accept.
  \<^item> \<open>LT_Auth\<close>: logins, sessions, OAuth and the guard of the administration API as a
    fold over requests, with the revocation of a session by its digest; the locale
    \<open>row_table\<close> says when a row of a table is present, and a request is admitted exactly when
    a login granted its session and nothing has ended it.
  \<^item> \<open>LT_Query\<close>: structured queries as the sequence of calls on the SQL builder; text
    never depends on values, and the published schema is exact.
  \<^item> \<open>LT_Reads\<close>: pages, windows, the request and session listings with their filters,
    facets, details and the session export, the SQL statements as functions of the rows. The
    locale \<open>paged_listing\<close> is the contract of a listing read page by page; following the
    pages gives every row once, a search text is taken literally, and an export is complete
    or visibly cut off.
  \<^item> \<open>LT_Analytics\<close>: summaries, usage tables, the usage chart, the overview and the
    integrity report. Over the invariant of \<open>LT_Rotation\<close> the figures computed from the
    rollups are those of the stored traces, and the report is clean exactly when they agree; on
    tables of the program it is clean exactly when no trace of the minute starts after the time
    the report takes before it reads.
  \<^item> \<open>LT_Metrics\<close>: the counters of the process at 64 bits, wrapping or, for retention runs,
    saturating, their JSON and Prometheus views, the health endpoints and the token of the metrics endpoint.
  \<^item> \<open>LT_Admin\<close>: the lists of interface sessions and audit events and the audit summary
    (\<open>storage/audit.rs\<close>); a listed session can be revoked and is refused after any later requests, and
    the list shows digests only.
  \<^item> \<open>LT_Api\<close>: the handlers of \<open>api.rs\<close> over the reads: checks of query parameters,
    answers, exports as lines, the redaction preview and the reports on configuration, posture
    and plugins. The reports depend on no secret, the posture agrees with validation, and an
    export is its listing.
  \<^item> \<open>LT_Trace\<close>: admission, the dispatcher as a step relation, and \<open>build_trace\<close>; what
    is stored is within the limits of the database, truncation is always marked, and
    session keys separate upstreams, credentials and hints.

  \<^bold>\<open>Conventions.\<close> Errors are sum types; loops are recursive functions with
  termination proofs, so no fuel appears except the length of the queue in
  \<open>claim_loop\<close>, which the code takes too, and the number of pages a client follows in
  \<open>crawl\<close>, which a theorem bounds by the number of rows; the two maintenance loops are partial functions
  in the option type, and that they return is a theorem. Counters that can wrap are words or
  carry the wrap-around. External crates (URL parsing, JSON text, SHA-256, the event-stream
  decoder, the WebAssembly engine) are arguments; hypotheses on them state documented
  behaviour, and each property with one has a witness. Statements on the database are modelled
  by what they do to the rows; transactions are atomic, and those of other processes show as
  locks held and as steps between transactions.

  \<^bold>\<open>Not modelled.\<close> The web interface, which serves static files; routing and the decoding
  of queries, paths and bodies by the HTTP framework; the table sizes of the storage summary;
  floating point pricing and rates; logging; process start-up, signals and timers; the test
  modules under \<open>storage\<close>.
\<close>

end
